(* ===== verification/Prelude.thy ===== *)
theory Prelude
  imports Main "HOL-Library.Word" "HOL-Library.List_Lexorder" "HOL-Library.Char_ord"
begin

text \<open>
  Shared vocabulary of the development.

  \<^item> names for the machine integers of the Go sources (\<^verbatim>\<open>uint8\<close>, \<^verbatim>\<open>uint16\<close>,
    \<^verbatim>\<open>uint32\<close>, \<^verbatim>\<open>uint64\<close>) and for byte slices;
  \<^item> the built-in \<^verbatim>\<open>copy\<close> and the standard library's \<^verbatim>\<open>sort.Search\<close>;
  \<^item> the shape of a fallible, state changing Go method: the receiver's state goes in, an
    error or a value comes out together with the state the method left behind. An error
    does \<^emph>\<open>not\<close> undo the state changes made before it, exactly as in Go;
  \<^item> the simplification collections \<open>go_simps\<close> (language primitives) and \<open>run_simps\<close>
    (running the combinators of the error/state shape).
\<close>

named_theorems go_simps
named_theorems run_simps

unbundle bit_operations_syntax

section \<open>Machine integers and byte slices\<close>

type_synonym u8 = "8 word"
type_synonym u16 = "16 word"
type_synonym u32 = "32 word"
type_synonym u64 = "64 word"
type_synonym byte = "8 word"
type_synonym bytes = "8 word list"

text \<open>The conversion \<^verbatim>\<open>int64(x)\<close> of an unsigned 64 bit value: two's complement.\<close>

definition int64 :: "u64 \<Rightarrow> int" where
  "int64 x = sint x"

lemma int64_small: "uint x < 2 ^ 63 \<Longrightarrow> int64 x = uint x"
proof -
  assume "uint x < 2 ^ 63"
  moreover have "- (2 ^ 63) \<le> uint x"
    by (rule order_trans[OF _ uint_ge_0]) simp
  ultimately have "signed_take_bit 63 (uint x) = uint x"
    by (intro signed_take_bit_int_eq_self)
  then show ?thesis by (simp add: int64_def sint_uint)
qed

text \<open>\<^verbatim>\<open>make([]byte, n)\<close>.\<close>

abbreviation zeros :: "nat \<Rightarrow> bytes" where
  "zeros n \<equiv> replicate n 0"

text \<open>\<^verbatim>\<open>copy(dst, src)\<close> overwrites the first \<open>min (len dst) (len src)\<close> elements of \<open>dst\<close>.\<close>

definition go_copy :: "'a list \<Rightarrow> 'a list \<Rightarrow> 'a list" where
  "go_copy dst src = take (length dst) src @ drop (length src) dst"

lemma length_go_copy [simp]: "length (go_copy dst src) = length dst"
  by (simp add: go_copy_def)

lemma go_copy_full [go_simps]: "length src = length dst \<Longrightarrow> go_copy dst src = src"
  by (simp add: go_copy_def)

lemma go_copy_short [go_simps]:
  "length src \<le> length dst \<Longrightarrow> go_copy dst src = src @ drop (length src) dst"
  by (simp add: go_copy_def)

text \<open>\<^verbatim>\<open>copy(dst[off:], src)\<close>, seen as an update of \<open>dst\<close>.\<close>

definition copy_at :: "nat \<Rightarrow> 'a list \<Rightarrow> 'a list \<Rightarrow> 'a list" where
  "copy_at off dst src = take off dst @ go_copy (drop off dst) src"

lemma length_copy_at [simp]: "length (copy_at off dst src) = length dst"
  by (simp add: copy_at_def)

text \<open>\<^verbatim>\<open>xs[from:to]\<close> for \<open>from \<le> to \<le> len xs\<close>.\<close>

definition slice :: "nat \<Rightarrow> nat \<Rightarrow> 'a list \<Rightarrow> 'a list" where
  "slice from to xs = take (to - from) (drop from xs)"

lemma length_slice [simp]: "length (slice a b xs) = min (b - a) (length xs - a)"
  by (auto simp: slice_def)

section \<open>Binary search: \<^verbatim>\<open>sort.Search\<close>\<close>

text \<open>
  \<^verbatim>\<open>sort.Search(n, f)\<close> keeps the interval \<open>[i, j)\<close> and halves it; on a predicate that is
  false up to some index and true from there on it returns that index.
\<close>

function search_loop :: "(nat \<Rightarrow> bool) \<Rightarrow> nat \<Rightarrow> nat \<Rightarrow> nat" where
  "search_loop f i j =
     (if i < j
      then (let h = (i + j) div 2 in if \<not> f h then search_loop f (h + 1) j else search_loop f i h)
      else i)"
  by pat_completeness auto
termination
  by (relation "measure (\<lambda>(f, i, j). j - i)") auto

declare search_loop.simps [simp del]

definition sort_search :: "nat \<Rightarrow> (nat \<Rightarrow> bool) \<Rightarrow> nat" where
  "sort_search n f = search_loop f 0 n"

definition switches_at :: "nat \<Rightarrow> (nat \<Rightarrow> bool) \<Rightarrow> nat \<Rightarrow> bool" where
  "switches_at n f k \<longleftrightarrow> k \<le> n \<and> (\<forall>i<k. \<not> f i) \<and> (\<forall>i. k \<le> i \<and> i < n \<longrightarrow> f i)"

lemma search_loop_correct:
  "i \<le> k \<Longrightarrow> k \<le> j \<Longrightarrow> (\<forall>x. i \<le> x \<and> x < k \<longrightarrow> \<not> f x) \<Longrightarrow> (\<forall>x. k \<le> x \<and> x < j \<longrightarrow> f x) \<Longrightarrow>
   search_loop f i j = k"
proof (induction f i j rule: search_loop.induct)
  case (1 f i j)
  let ?h = "(i + j) div 2"
  show ?case
  proof (cases "i < j")
    case True
    then have h: "i \<le> ?h" "?h < j" by auto
    have "search_loop f i j = (if \<not> f ?h then search_loop f (?h + 1) j else search_loop f i ?h)"
      using True by (simp add: search_loop.simps[of f i j] Let_def)
    moreover have "search_loop f (?h + 1) j = k" if "\<not> f ?h"
      using "1.IH"(1)[OF True refl that] "1.prems" h that by force
    moreover have "search_loop f i ?h = k" if "f ?h"
      using "1.IH"(2)[OF True refl] "1.prems" h that by force
    ultimately show ?thesis by auto
  next
    case False
    then show ?thesis using "1.prems" by (simp add: search_loop.simps[of f i j])
  qed
qed

theorem sort_search_correct: "switches_at n f k \<Longrightarrow> sort_search n f = k"
  unfolding sort_search_def switches_at_def by (rule search_loop_correct) auto

lemma search_loop_bounds: "i \<le> j \<Longrightarrow> i \<le> search_loop f i j \<and> search_loop f i j \<le> j"
proof (induction f i j rule: search_loop.induct)
  case (1 f i j)
  let ?h = "(i + j) div 2"
  show ?case
  proof (cases "i < j")
    case True
    then have h: "i \<le> ?h" "?h < j" by auto
    have "search_loop f i j = (if \<not> f ?h then search_loop f (?h + 1) j else search_loop f i ?h)"
      using True by (simp add: search_loop.simps[of f i j] Let_def)
    moreover have "?h + 1 \<le> search_loop f (?h + 1) j \<and> search_loop f (?h + 1) j \<le> j" if "\<not> f ?h"
      using "1.IH"(1)[OF True refl that] h by simp
    moreover have "i \<le> search_loop f i ?h \<and> search_loop f i ?h \<le> ?h" if "f ?h"
      using "1.IH"(2)[OF True refl] h that by simp
    ultimately show ?thesis using h by (auto split: if_splits)
  next
    case False
    then have "search_loop f i j = i" by (simp add: search_loop.simps[of f i j])
    with "1.prems" show ?thesis by simp
  qed
qed

lemma sort_search_le: "sort_search n f \<le> n"
  using search_loop_bounds[of 0 n f] by (simp add: sort_search_def)

section \<open>Fallible methods on mutable state\<close>

text \<open>
  \<open>('s, 'e, 'a) meth\<close> is the type of a Go method on a receiver with state \<open>'s\<close> returning
  \<^verbatim>\<open>('a, error)\<close>.
\<close>

type_synonym ('s, 'e, 'a) meth = "'s \<Rightarrow> ('e + 'a) \<times> 's"

definition returnE :: "'a \<Rightarrow> ('s, 'e, 'a) meth" where
  "returnE x = (\<lambda>s. (Inr x, s))"

definition throwE :: "'e \<Rightarrow> ('s, 'e, 'a) meth" where
  "throwE e = (\<lambda>s. (Inl e, s))"

text \<open>\<^verbatim>\<open>x, err := m; if err != nil { return err }\<close> and go on with \<open>k x\<close>.\<close>

definition bindE :: "('s, 'e, 'a) meth \<Rightarrow> ('a \<Rightarrow> ('s, 'e, 'b) meth) \<Rightarrow> ('s, 'e, 'b) meth" where
  "bindE m k = (\<lambda>s. case m s of (Inl e, s') \<Rightarrow> (Inl e, s') | (Inr x, s') \<Rightarrow> k x s')"

abbreviation thenE :: "('s, 'e, unit) meth \<Rightarrow> ('s, 'e, 'b) meth \<Rightarrow> ('s, 'e, 'b) meth" where
  "thenE m n \<equiv> bindE m (\<lambda>_. n)"

text \<open>\<^verbatim>\<open>if b { return e }\<close>.\<close>

definition failIf :: "bool \<Rightarrow> 'e \<Rightarrow> ('s, 'e, unit) meth" where
  "failIf b e = (if b then throwE e else returnE ())"

text \<open>A method that cannot fail: reads the state or writes it.\<close>

definition readE :: "('s \<Rightarrow> 'a \<times> 's) \<Rightarrow> ('s, 'e, 'a) meth" where
  "readE f = (\<lambda>s. let (x, s') = f s in (Inr x, s'))"

definition writeE :: "('s \<Rightarrow> 's) \<Rightarrow> ('s, 'e, unit) meth" where
  "writeE f = (\<lambda>s. (Inr (), f s))"

text \<open>A value of the sum type, as a method that leaves the state alone.\<close>

definition liftE :: "'e + 'a \<Rightarrow> ('s, 'e, 'a) meth" where
  "liftE r = (\<lambda>s. (r, s))"

text \<open>A \<^verbatim>\<open>for range\<close> loop whose body may return an error: the loop stops at the first one.\<close>

fun foreachE :: "('a \<Rightarrow> ('s, 'e, unit) meth) \<Rightarrow> 'a list \<Rightarrow> ('s, 'e, unit) meth" where
  "foreachE f [] = returnE ()"
| "foreachE f (x # xs) = thenE (f x) (foreachE f xs)"

lemma returnE_run [run_simps]: "returnE x s = (Inr x, s)"
  by (simp add: returnE_def)

lemma throwE_run [run_simps]: "throwE e s = (Inl e, s)"
  by (simp add: throwE_def)

lemma failIf_run [run_simps]: "failIf b e s = (if b then Inl e else Inr (), s)"
  by (simp add: failIf_def returnE_def throwE_def)

lemma writeE_run [run_simps]: "writeE f s = (Inr (), f s)"
  by (simp add: writeE_def)

lemma readE_run [run_simps]: "readE f s = (Inr (fst (f s)), snd (f s))"
  by (simp add: readE_def case_prod_unfold Let_def)

lemma liftE_run [run_simps]: "liftE r s = (r, s)"
  by (simp add: liftE_def)

lemma bindE_run_Inr [run_simps]: "m s = (Inr x, s') \<Longrightarrow> bindE m k s = k x s'"
  by (simp add: bindE_def)

lemma bindE_run_Inl [run_simps]: "m s = (Inl e, s') \<Longrightarrow> bindE m k s = (Inl e, s')"
  by (simp add: bindE_def)

lemma bindE_failIf [run_simps]:
  "bindE (failIf b e) k s = (if b then (Inl e, s) else k () s)"
  by (simp add: bindE_def failIf_run)

lemma bindE_writeE [run_simps]: "bindE (writeE f) k s = k () (f s)"
  by (simp add: bindE_def writeE_run)

lemma bindE_readE [run_simps]: "bindE (readE f) k s = k (fst (f s)) (snd (f s))"
  by (simp add: bindE_def readE_run)

lemma bindE_returnE [run_simps]: "bindE (returnE x) k s = k x s"
  by (simp add: bindE_def returnE_run)

lemma bindE_throwE [run_simps]: "bindE (throwE e) k s = (Inl e, s)"
  by (simp add: bindE_def throwE_run)

text \<open>Inversion of a successful run: every step succeeded.\<close>

lemma bindE_success:
  "bindE m k s = (Inr y, s'') \<longleftrightarrow> (\<exists>x s'. m s = (Inr x, s') \<and> k x s' = (Inr y, s''))"
  by (auto simp: bindE_def split: prod.splits sum.splits)

lemma bindE_successE [elim]:
  assumes "bindE m k s = (Inr y, s'')"
  obtains x s' where "m s = (Inr x, s')" and "k x s' = (Inr y, s'')"
  using assms by (auto simp: bindE_success)

lemma bindE_failure:
  "bindE m k s = (Inl e, s'') \<longleftrightarrow>
     m s = (Inl e, s'') \<or> (\<exists>x s'. m s = (Inr x, s') \<and> k x s' = (Inl e, s''))"
  by (auto simp: bindE_def split: prod.splits sum.splits)

text \<open>
  A loop over a slice that collects one value per element and returns at the first error.
\<close>

fun mapR :: "('a \<Rightarrow> 'e + 'b) \<Rightarrow> 'a list \<Rightarrow> 'e + 'b list" where
  "mapR f [] = Inr []"
| "mapR f (x # xs) =
     (case f x of Inl e \<Rightarrow> Inl e
      | Inr y \<Rightarrow> (case mapR f xs of Inl e \<Rightarrow> Inl e | Inr ys \<Rightarrow> Inr (y # ys)))"

lemma mapR_Inr: "(\<And>x. x \<in> set xs \<Longrightarrow> f x = Inr (g x)) \<Longrightarrow> mapR f xs = Inr (map g xs)"
  by (induction xs) auto

text \<open>
  A state predicate (or any relation to the start state) is kept by a method when it holds
  of the state left behind, whatever the outcome.
\<close>

definition keeps :: "('s \<Rightarrow> bool) \<Rightarrow> ('s, 'e, 'a) meth \<Rightarrow> bool" where
  "keeps P m \<longleftrightarrow> (\<forall>s. P s \<longrightarrow> P (snd (m s)))"

lemma keepsI: "(\<And>s. P s \<Longrightarrow> P (snd (m s))) \<Longrightarrow> keeps P m"
  by (simp add: keeps_def)

lemma keepsD: "keeps P m \<Longrightarrow> P s \<Longrightarrow> m s = (r, s') \<Longrightarrow> P s'"
  by (auto simp: keeps_def dest: spec[of _ s])

lemma keeps_returnE [intro]: "keeps P (returnE x)"
  by (simp add: keeps_def returnE_def)

lemma keeps_throwE [intro]: "keeps P (throwE e)"
  by (simp add: keeps_def throwE_def)

lemma keeps_failIf [intro]: "keeps P (failIf b e)"
  by (simp add: keeps_def failIf_run)

lemma keeps_liftE [intro]: "keeps P (liftE r)"
  by (simp add: keeps_def liftE_run)

lemma keeps_bindE [intro]:
  assumes "keeps P m" and "\<And>x. keeps P (k x)"
  shows "keeps P (bindE m k)"
  using assms by (auto simp: keeps_def bindE_def split: prod.splits sum.splits)

lemma keeps_writeE: "(\<And>s. P s \<Longrightarrow> P (f s)) \<Longrightarrow> keeps P (writeE f)"
  by (simp add: keeps_def writeE_run)

lemma keeps_readE: "(\<And>s. P s \<Longrightarrow> P (snd (f s))) \<Longrightarrow> keeps P (readE f)"
  by (simp add: keeps_def readE_run)

lemma keeps_if [intro]: "keeps P m \<Longrightarrow> keeps P n \<Longrightarrow> keeps P (if b then m else n)"
  by simp

section \<open>Strings\<close>

text \<open>
  A Go string is a sequence of bytes, and so is a HOL \<^typ>\<open>string\<close>; the conversions
  \<^verbatim>\<open>[]byte(s)\<close> and \<^verbatim>\<open>string(bs)\<close> are mutually inverse.
\<close>

definition str_bytes :: "string \<Rightarrow> bytes" where
  "str_bytes s = map (\<lambda>c. of_nat (of_char c)) s"

definition bytes_str :: "bytes \<Rightarrow> string" where
  "bytes_str bs = map (\<lambda>b. char_of (unat b)) bs"

lemma bytes_str_bytes [simp]: "bytes_str (str_bytes s) = s"
proof -
  have "unat (of_nat (of_char c) :: u8) = (of_char c :: nat)" for c
    using nat_of_char_less_256[of c] by (simp add: unat_of_nat)
  then show ?thesis by (simp add: bytes_str_def str_bytes_def comp_def)
qed

lemma str_bytes_str [simp]: "str_bytes (bytes_str bs) = bs"
proof -
  have "unat b mod 256 = unat b" for b :: u8
    using unsigned_less[of b, where ?'a = nat] by simp
  then show ?thesis by (simp add: bytes_str_def str_bytes_def comp_def of_char_of)
qed

lemma length_str_bytes [simp]: "length (str_bytes s) = length s" "length (bytes_str bs) = length bs"
  by (simp_all add: str_bytes_def bytes_str_def)

text \<open>\<^verbatim>\<open>strings.SplitN(s, c, 2)\<close> for a one-byte separator, and \<^verbatim>\<open>TrimRight(s, c)\<close>.\<close>

definition splitN2 :: "char \<Rightarrow> string \<Rightarrow> string list" where
  "splitN2 c s =
     (let a = takeWhile (\<lambda>x. x \<noteq> c) s; b = dropWhile (\<lambda>x. x \<noteq> c) s
      in if b = [] then [s] else [a, tl b])"

lemma splitN2_none [simp]: "c \<notin> set s \<Longrightarrow> splitN2 c s = [s]"
  by (auto simp: splitN2_def Let_def dropWhile_eq_Nil_conv)

lemma splitN2_some [simp]: "c \<notin> set a \<Longrightarrow> splitN2 c (a @ c # b) = [a, b]"
proof -
  assume "c \<notin> set a"
  then have "\<And>x. x \<in> set a \<Longrightarrow> x \<noteq> c" by auto
  then show ?thesis by (simp add: splitN2_def takeWhile_tail dropWhile_append3 Let_def)
qed

definition trimRight :: "'a \<Rightarrow> 'a list \<Rightarrow> 'a list" where
  "trimRight c s = rev (dropWhile (\<lambda>x. x = c) (rev s))"

lemma trimRight_pad: "trimRight c s @ replicate (length s - length (trimRight c s)) c = s"
proof -
  have "s = rev (takeWhile (\<lambda>x. x = c) (rev s) @ dropWhile (\<lambda>x. x = c) (rev s))" by simp
  also have "\<dots> = trimRight c s @ rev (takeWhile (\<lambda>x. x = c) (rev s))"
    by (simp only: rev_append trimRight_def)
  finally have s: "s = trimRight c s @ rev (takeWhile (\<lambda>x. x = c) (rev s))" .
  have "rev (takeWhile (\<lambda>x. x = c) (rev s)) = replicate (length s - length (trimRight c s)) c"
  proof (rule replicate_eqI)
    show "length (rev (takeWhile (\<lambda>x. x = c) (rev s))) = length s - length (trimRight c s)"
      using arg_cong[OF s, of length] by simp
  qed (auto dest: set_takeWhileD)
  with s show ?thesis by simp
qed

lemma trimRight_length: "length (trimRight c s) \<le> length s"
  using arg_cong[OF trimRight_pad[of c s], of length] by simp

lemma trimRight_le_iff: "length (trimRight c s) \<le> n \<longleftrightarrow> (\<forall>x\<in>set (drop n s). x = c)"
proof
  assume "length (trimRight c s) \<le> n"
  then have "drop n s = drop n (replicate (length s - length (trimRight c s)) c)
      \<or> drop n s = drop (n - length (trimRight c s)) (replicate (length s - length (trimRight c s)) c)"
    using trimRight_pad[of c s] by (metis drop_append drop_all append_Nil)
  then show "\<forall>x\<in>set (drop n s). x = c" by auto
next
  assume z: "\<forall>x\<in>set (drop n s). x = c"
  have "dropWhile (\<lambda>x. x = c) (rev s) = dropWhile (\<lambda>x. x = c) (rev (drop n s) @ rev (take n s))"
    by (simp flip: rev_append)
  also have "\<dots> = dropWhile (\<lambda>x. x = c) (rev (take n s))"
    using z by (intro dropWhile_append2) simp
  finally show "length (trimRight c s) \<le> n"
    using length_dropWhile_le[of "\<lambda>x. x = c" "rev (take n s)"] by (simp add: trimRight_def)
qed

section \<open>Lists\<close>

lemma take_list_update_ge [simp]: "n \<le> i \<Longrightarrow> take n (xs[i := v]) = take n xs"
  by (simp add: take_update_swap list_update_beyond)

lemma replicate_eq_iff: "replicate m c = xs \<longleftrightarrow> length xs = m \<and> (\<forall>x\<in>set xs. x = c)"
  by (auto intro: replicate_eqI[symmetric])

lemma nth_take_drop: "i < length xs \<Longrightarrow> xs = take i xs @ xs ! i # drop (Suc i) xs"
  by (rule id_take_nth_drop)

end
