(* ===== verification/Page_Queue.thy ===== *)
theory Page_Queue
  imports Prelude
begin

text \<open>
  \<^verbatim>\<open>common/queue/queue.go\<close>: an unbounded queue made of ring buffer pages of 1024 slots, and the
  contract \<open>fifo\<close> it satisfies. Items are interface values: \<^term>\<open>None\<close> is \<^verbatim>\<open>nil\<close>. Pages come
  from a \<^verbatim>\<open>sync.Pool\<close>, which hands out a new page or any page returned to it earlier; the
  page that \<^verbatim>\<open>Get\<close> returns is an argument of \<^verbatim>\<open>Push\<close>, and \<^verbatim>\<open>Pop\<close> returns the page it gives back.
\<close>

section \<open>The contract of a queue\<close>

datatype ('f, 'a) queue_op = OpPush 'f 'a | OpPop

text \<open>The results of the pops in a sequence of operations, and the same for a list.\<close>

fun queue_run ::
  "('f \<Rightarrow> 'a \<Rightarrow> 'q \<Rightarrow> 'q) \<Rightarrow> ('q \<Rightarrow> 'a option \<times> 'q) \<Rightarrow> 'q \<Rightarrow> ('f, 'a) queue_op list \<Rightarrow>
   'a option list \<times> 'q" where
  "queue_run push pop q [] = ([], q)"
| "queue_run push pop q (OpPush f x # ops) = queue_run push pop (push f x q) ops"
| "queue_run push pop q (OpPop # ops) =
     (let (r, q') = pop q; (rs, q'') = queue_run push pop q' ops in (r # rs, q''))"

fun list_run :: "'a list \<Rightarrow> ('f, 'a) queue_op list \<Rightarrow> 'a option list \<times> 'a list" where
  "list_run xs [] = ([], xs)"
| "list_run xs (OpPush f x # ops) = list_run (xs @ [x]) ops"
| "list_run [] (OpPop # ops) = (let (rs, ys) = list_run [] ops in (None # rs, ys))"
| "list_run (x # xs) (OpPop # ops) = (let (rs, ys) = list_run xs ops in (Some x # rs, ys))"

locale fifo =
  fixes empty :: "'q"
    and push :: "'f \<Rightarrow> 'a \<Rightarrow> 'q \<Rightarrow> 'q"
    and pop :: "'q \<Rightarrow> 'a option \<times> 'q"
    and peek :: "'q \<Rightarrow> 'a option"
    and size :: "'q \<Rightarrow> nat"
    and items :: "'q \<Rightarrow> 'a list"
    and inv :: "'q \<Rightarrow> bool"
    and fresh :: "'f \<Rightarrow> bool"
  assumes items_empty: "items empty = []"
    and items_push: "inv q \<Longrightarrow> fresh f \<Longrightarrow> items (push f x q) = items q @ [x]"
    and pop_empty: "inv q \<Longrightarrow> items q = [] \<Longrightarrow> fst (pop q) = None \<and> items (snd (pop q)) = []"
    and pop_cons: "inv q \<Longrightarrow> items q = x # xs \<Longrightarrow> fst (pop q) = Some x \<and> items (snd (pop q)) = xs"
    and peek_items: "inv q \<Longrightarrow> peek q = (case items q of [] \<Rightarrow> None | x # _ \<Rightarrow> Some x)"
    and size_items: "inv q \<Longrightarrow> size q = length (items q)"
    and inv_empty: "inv empty"
    and inv_push: "inv q \<Longrightarrow> fresh f \<Longrightarrow> inv (push f x q)"
    and inv_pop: "inv q \<Longrightarrow> inv (snd (pop q))"
begin

lemma run_refines:
  "inv q \<Longrightarrow> (\<forall>f x. OpPush f x \<in> set ops \<longrightarrow> fresh f) \<Longrightarrow>
   fst (queue_run push pop q ops) = fst (list_run (items q) ops) \<and>
   items (snd (queue_run push pop q ops)) = snd (list_run (items q) ops) \<and>
   inv (snd (queue_run push pop q ops))"
proof (induction ops arbitrary: q)
  case Nil
  then show ?case by simp
next
  case (Cons op ops)
  show ?case
  proof (cases op)
    case (OpPush f x)
    then have "fresh f" using Cons.prems(2) by simp
    then show ?thesis
      using Cons.IH[of "push f x q"] Cons.prems OpPush by (simp add: inv_push items_push)
  next
    case OpPop
    have "\<forall>f x. OpPush f x \<in> set ops \<longrightarrow> fresh f" using Cons.prems(2) by simp
    note IH = Cons.IH[OF inv_pop[OF Cons.prems(1)] this]
    show ?thesis
    proof (cases "items q")
      case Nil
      then show ?thesis
        using IH Cons.prems OpPop pop_empty[OF Cons.prems(1) Nil]
        by (auto simp: case_prod_unfold Let_def)
    next
      case xs: (Cons x xs)
      then show ?thesis
        using IH Cons.prems OpPop pop_cons[OF Cons.prems(1) xs]
        by (auto simp: case_prod_unfold Let_def)
    qed
  qed
qed

end

section \<open>Pages\<close>

record 'a queuePage =
  pg_queue :: "'a option list"
  pg_head :: nat
  pg_tail :: nat
  pg_size :: nat

definition page_cap :: "'a queuePage \<Rightarrow> nat" where
  "page_cap page = length (pg_queue page)"

text \<open>\<^verbatim>\<open>push\<close> returns \<^verbatim>\<open>errFullQueue\<close> on a full page; its only caller ignores the result.\<close>

definition page_push :: "'a option \<Rightarrow> 'a queuePage \<Rightarrow> bool \<times> 'a queuePage" where
  "page_push item page =
     (if page_cap page \<le> pg_size page then (False, page)
      else (True, page\<lparr>pg_queue := (pg_queue page)[pg_tail page := item],
                       pg_tail := (pg_tail page + 1) mod page_cap page,
                       pg_size := pg_size page + 1\<rparr>))"

definition page_peek :: "'a queuePage \<Rightarrow> 'a option" where
  "page_peek page = (if pg_size page = 0 then None else pg_queue page ! pg_head page)"

definition page_pop :: "'a queuePage \<Rightarrow> 'a option \<times> 'a queuePage" where
  "page_pop page =
     (if pg_size page = 0 then (None, page)
      else (pg_queue page ! pg_head page,
            page\<lparr>pg_head := (pg_head page + 1) mod page_cap page, pg_size := pg_size page - 1\<rparr>))"

definition page_iter :: "'a queuePage \<Rightarrow> 'a option list" where
  "page_iter page = map (\<lambda>i. pg_queue page ! ((pg_head page + i) mod page_cap page)) [0..<pg_size page]"

definition new_page :: "'a queuePage" where
  "new_page = \<lparr>pg_queue = replicate 1024 None, pg_head = 0, pg_tail = 0, pg_size = 0\<rparr>"

definition page_inv :: "'a queuePage \<Rightarrow> bool" where
  "page_inv p \<longleftrightarrow> page_cap p = 1024 \<and> pg_head p < 1024 \<and> pg_size p \<le> 1024 \<and>
     pg_tail p = (pg_head p + pg_size p) mod 1024"

definition page_fresh :: "'a queuePage \<Rightarrow> bool" where
  "page_fresh p \<longleftrightarrow> page_inv p \<and> pg_size p = 0"

lemma page_fresh_new: "page_fresh new_page"
  by (simp add: page_fresh_def page_inv_def new_page_def page_cap_def)

lemma length_page_iter [simp]: "length (page_iter p) = pg_size p"
  by (simp add: page_iter_def)

lemma page_push_inv: "page_inv p \<Longrightarrow> page_inv (snd (page_push x p))"
  by (auto simp: page_inv_def page_push_def page_cap_def mod_Suc_eq mod_simps)

lemma page_iter_push:
  assumes "page_inv p" and "pg_size p < 1024"
  shows "page_iter (snd (page_push x p)) = page_iter p @ [x]"
proof -
  have other: "(pg_head p + i) mod 1024 \<noteq> (pg_head p + pg_size p) mod 1024" if "i < pg_size p" for i
  proof
    assume "(pg_head p + i) mod 1024 = (pg_head p + pg_size p) mod 1024"
    then have "1024 dvd (pg_head p + pg_size p) - (pg_head p + i)"
      by (rule mod_eq_dvd_iff_nat[THEN iffD1, rotated, OF sym]) (use that in simp)
    then have "1024 dvd pg_size p - i" by simp
    then show False using that assms(2) by (auto dest: dvd_imp_le)
  qed
  have "(pg_head p + pg_size p) mod 1024 < length (pg_queue p)"
    using assms(1) by (simp add: page_inv_def page_cap_def)
  then show ?thesis
    using assms other other[THEN not_sym]
    by (auto simp: page_iter_def page_push_def page_inv_def page_cap_def nth_list_update)
qed

lemma page_pop_inv: "page_inv p \<Longrightarrow> page_inv (snd (page_pop p))"
  by (cases "pg_size p") (auto simp: page_inv_def page_pop_def page_cap_def mod_simps)

lemma page_iter_pop:
  assumes "page_inv p" and "0 < pg_size p"
  shows "page_iter p = fst (page_pop p) # page_iter (snd (page_pop p))"
proof -
  have "[0..<pg_size p] = 0 # map Suc [0..<pg_size p - 1]"
    using assms(2) by (simp add: upt_conv_Cons map_Suc_upt)
  then show ?thesis
    using assms by (auto simp: page_iter_def page_pop_def page_cap_def page_inv_def mod_simps)
qed

lemma page_peek_iter: "page_inv p \<Longrightarrow> 0 < pg_size p \<Longrightarrow> page_peek p = hd (page_iter p)"
  by (simp add: page_iter_pop page_pop_def page_peek_def)

section \<open>The queue\<close>

record 'a page_queue =
  q_pages :: "'a queuePage list"
  q_size :: nat

definition NewQueue :: "'a page_queue" where
  "NewQueue = \<lparr>q_pages = [], q_size = 0\<rparr>"

text \<open>The pages with room for one more item in the last of them.\<close>

definition pages_with_room :: "'a queuePage \<Rightarrow> 'a queuePage list \<Rightarrow> 'a queuePage list" where
  "pages_with_room fresh pages =
     (if pages = [] then [fresh]
      else let page = last pages
           in if pg_size page = page_cap page then pages @ [fresh] else pages)"

definition Queue_Push :: "'a queuePage \<Rightarrow> 'a option \<Rightarrow> 'a page_queue \<Rightarrow> 'a page_queue" where
  "Queue_Push fresh item q =
     (let pages = pages_with_room fresh (q_pages q)
      in q\<lparr>q_pages := butlast pages @ [snd (page_push item (last pages))],
            q_size := q_size q + 1\<rparr>)"

definition Queue_Peek :: "'a page_queue \<Rightarrow> 'a option" where
  "Queue_Peek q = (if q_pages q = [] then None else page_peek (hd (q_pages q)))"

text \<open>The second component is the page given back to the pool, if any.\<close>

definition Queue_Pop :: "'a page_queue \<Rightarrow> 'a option \<times> 'a queuePage option \<times> 'a page_queue" where
  "Queue_Pop q =
     (case q_pages q of
        [] \<Rightarrow> (None, None, q)
      | page # rest \<Rightarrow>
          let (item, page') = page_pop page
          in if item \<noteq> None
             then if pg_size page' = 0 \<and> rest \<noteq> []
                  then (item, Some page', q\<lparr>q_pages := rest, q_size := q_size q - 1\<rparr>)
                  else (item, None, q\<lparr>q_pages := page' # rest, q_size := q_size q - 1\<rparr>)
             else (item, None, q\<lparr>q_pages := page' # rest\<rparr>))"

definition Queue_Size :: "'a page_queue \<Rightarrow> nat" where
  "Queue_Size q = q_size q"

definition Queue_Iter :: "'a page_queue \<Rightarrow> 'a option list" where
  "Queue_Iter q = concat (map page_iter (q_pages q))"

definition Queue_inv :: "'a page_queue \<Rightarrow> bool" where
  "Queue_inv q \<longleftrightarrow> (\<forall>p\<in>set (q_pages q). page_inv p) \<and> None \<notin> set (Queue_Iter q) \<and>
     q_size q = length (Queue_Iter q) \<and>
     (1 < length (q_pages q) \<longrightarrow> (\<forall>p\<in>set (q_pages q). 0 < pg_size p))"

lemma pages_with_room_ne [simp]: "pages_with_room f ps \<noteq> []"
  by (simp add: pages_with_room_def Let_def)

lemma pages_with_room_inv:
  "\<forall>p\<in>set ps. page_inv p \<Longrightarrow> page_fresh f \<Longrightarrow> \<forall>p\<in>set (pages_with_room f ps). page_inv p"
  by (auto simp: pages_with_room_def page_fresh_def Let_def)

lemma pages_with_room_last:
  assumes "\<forall>p\<in>set ps. page_inv p" and "page_fresh f"
  shows "pg_size (last (pages_with_room f ps)) < 1024"
proof -
  have "ps \<noteq> [] \<Longrightarrow> page_inv (last ps)" using assms(1) by simp
  then show ?thesis
    using assms(2) by (auto simp: pages_with_room_def page_fresh_def page_inv_def Let_def)
qed

lemma pages_with_room_iter:
  "page_fresh f \<Longrightarrow> concat (map page_iter (pages_with_room f ps)) = concat (map page_iter ps)"
  by (auto simp: pages_with_room_def page_fresh_def page_iter_def Let_def)

lemma pages_with_room_pos:
  assumes "\<forall>p\<in>set ps. page_inv p" and "1 < length ps \<longrightarrow> (\<forall>p\<in>set ps. 0 < pg_size p)"
  shows "\<forall>p\<in>set (butlast (pages_with_room f ps)). 0 < pg_size p"
proof (cases "1 < length ps")
  case True
  then show ?thesis using assms(2) by (auto simp: pages_with_room_def Let_def dest: in_set_butlastD)
next
  case False
  then consider "ps = []" | p where "ps = [p]"
    by (cases ps) auto
  then show ?thesis
    using assms(1) by cases (auto simp: pages_with_room_def page_inv_def Let_def)
qed

lemma Queue_Push_iter:
  assumes "Queue_inv q" and "page_fresh f"
  shows "Queue_Iter (Queue_Push f x q) = Queue_Iter q @ [x]"
proof -
  let ?ps = "pages_with_room f (q_pages q)"
  have inv: "\<forall>p\<in>set (q_pages q). page_inv p" using assms(1) by (simp add: Queue_inv_def)
  have split: "?ps = butlast ?ps @ [last ?ps]" by simp
  have "page_inv (last ?ps)" using pages_with_room_inv[OF inv assms(2)] by simp
  then have "page_iter (snd (page_push x (last ?ps))) = page_iter (last ?ps) @ [x]"
    using pages_with_room_last[OF inv assms(2)] by (rule page_iter_push)
  moreover have "Queue_Iter q = concat (map page_iter (butlast ?ps)) @ page_iter (last ?ps)"
    using pages_with_room_iter[OF assms(2), of "q_pages q"]
      arg_cong[OF split, of "\<lambda>ps. concat (map page_iter ps)"]
    by (simp only: Queue_Iter_def map_append concat_append list.map concat.simps append_Nil2)
  ultimately show ?thesis by (simp add: Queue_Push_def Queue_Iter_def Let_def)
qed

lemma Queue_Push_inv:
  assumes "Queue_inv q" and "page_fresh f" and "x \<noteq> None"
  shows "Queue_inv (Queue_Push f x q)"
proof -
  let ?ps = "pages_with_room f (q_pages q)"
  have inv: "\<forall>p\<in>set (q_pages q). page_inv p" using assms(1) by (simp add: Queue_inv_def)
  note psinv = pages_with_room_inv[OF inv assms(2)]
  have "page_inv (last ?ps)" using psinv by simp
  then have 1: "page_inv (snd (page_push x (last ?ps)))" by (rule page_push_inv)
  have 2: "0 < pg_size (snd (page_push x (last ?ps)))"
    using pages_with_room_last[OF inv assms(2)] \<open>page_inv (last ?ps)\<close>
    by (simp add: page_push_def page_inv_def)
  have 3: "\<forall>p\<in>set (butlast ?ps). 0 < pg_size p"
    using pages_with_room_pos[OF inv] assms(1) by (simp add: Queue_inv_def)
  have "\<forall>p\<in>set (butlast ?ps). page_inv p"
    using psinv by (auto dest: in_set_butlastD)
  with 1 2 3 show ?thesis
    using assms(1,3) Queue_Push_iter[OF assms(1,2), of x]
    unfolding Queue_inv_def by (auto simp: Queue_Push_def Let_def)
qed

lemma Queue_Pop_empty_page:
  assumes "Queue_inv q" and "q_pages q = page # rest" and "pg_size page = 0"
  shows "rest = []" and "Queue_Iter q = []" and "Queue_Pop q = (None, None, q)"
proof -
  show "rest = []" using assms by (cases rest) (auto simp: Queue_inv_def)
  then show "Queue_Iter q = []" using assms(2,3) by (simp add: Queue_Iter_def page_iter_def)
  show "Queue_Pop q = (None, None, q)"
    using assms(2,3) by (simp add: Queue_Pop_def page_pop_def)
qed

lemma Queue_Pop_page:
  assumes "Queue_inv q" and "q_pages q = page # rest" and "0 < pg_size page"
  shows "Queue_Iter q = fst (page_pop page) # page_iter (snd (page_pop page)) @ concat (map page_iter rest)"
    and "fst (page_pop page) \<noteq> None" and "page_inv (snd (page_pop page))"
proof -
  have inv: "page_inv page" using assms(1,2) by (simp add: Queue_inv_def)
  show it: "Queue_Iter q = fst (page_pop page) # page_iter (snd (page_pop page)) @ concat (map page_iter rest)"
    using page_iter_pop[OF inv assms(3)] assms(2) by (simp add: Queue_Iter_def)
  then show "fst (page_pop page) \<noteq> None"
    using assms(1) unfolding Queue_inv_def by (metis list.set_intros(1))
  show "page_inv (snd (page_pop page))" using inv by (rule page_pop_inv)
qed

lemma Queue_Pop_spec:
  assumes "Queue_inv q"
  shows "Queue_inv (snd (snd (Queue_Pop q))) \<and>
    (case Queue_Iter q of
       [] \<Rightarrow> fst (Queue_Pop q) = None \<and> Queue_Iter (snd (snd (Queue_Pop q))) = []
     | x # xs \<Rightarrow> fst (Queue_Pop q) = x \<and> Queue_Iter (snd (snd (Queue_Pop q))) = xs) \<and>
    (\<forall>p. fst (snd (Queue_Pop q)) = Some p \<longrightarrow> page_fresh p)"
proof (cases "q_pages q")
  case Nil
  then show ?thesis using assms by (simp add: Queue_Pop_def Queue_Iter_def)
next
  case (Cons page rest)
  show ?thesis
  proof (cases "pg_size page = 0")
    case True
    then show ?thesis using Queue_Pop_empty_page[OF assms Cons] assms by simp
  next
    case False
    let ?p = "snd (page_pop page)"
    note pop = Queue_Pop_page[OF assms Cons] False
    have pop_eq: "Queue_Pop q =
        (if pg_size ?p = 0 \<and> rest \<noteq> []
         then (fst (page_pop page), Some ?p, q\<lparr>q_pages := rest, q_size := q_size q - 1\<rparr>)
         else (fst (page_pop page), None, q\<lparr>q_pages := ?p # rest, q_size := q_size q - 1\<rparr>))"
      using pop Cons by (simp add: Queue_Pop_def case_prod_unfold Let_def)
    have rest_pos: "\<forall>p\<in>set rest. 0 < pg_size p"
      using assms Cons by (cases rest) (auto simp: Queue_inv_def)
    have it: "Queue_Iter (snd (snd (Queue_Pop q))) = page_iter ?p @ concat (map page_iter rest)"
      by (simp add: pop_eq Queue_Iter_def page_iter_def)
    have none: "None \<notin> set (page_iter ?p @ concat (map page_iter rest))"
      using assms pop by (simp add: Queue_inv_def)
    have pages: "\<forall>p\<in>set (q_pages (snd (snd (Queue_Pop q)))). page_inv p"
      using assms Cons pop by (auto simp: pop_eq Queue_inv_def)
    have pos: "1 < length (q_pages (snd (snd (Queue_Pop q)))) \<longrightarrow>
        (\<forall>p\<in>set (q_pages (snd (snd (Queue_Pop q)))). 0 < pg_size p)"
      using rest_pos by (auto simp: pop_eq)
    have "q_size (snd (snd (Queue_Pop q))) = length (page_iter ?p @ concat (map page_iter rest))"
      using assms pop by (simp add: pop_eq Queue_inv_def)
    then have "Queue_inv (snd (snd (Queue_Pop q)))"
      using it none pages pos by (simp add: Queue_inv_def)
    then show ?thesis
      using it pop by (auto simp: pop_eq page_fresh_def split: if_splits)
  qed
qed

lemma Queue_Peek_spec:
  "Queue_inv q \<Longrightarrow> Queue_Peek q = (case Queue_Iter q of [] \<Rightarrow> None | x # _ \<Rightarrow> x)"
proof (cases "q_pages q")
  case (Cons page rest)
  assume inv: "Queue_inv q"
  show ?thesis
  proof (cases "pg_size page = 0")
    case True
    then show ?thesis using Queue_Pop_empty_page[OF inv Cons True] Cons
      by (simp add: Queue_Peek_def page_peek_def)
  next
    case False
    then show ?thesis using Queue_Pop_page(1)[OF inv Cons] Cons
      by (simp add: Queue_Peek_def page_peek_def page_pop_def)
  qed
qed (simp add: Queue_Peek_def Queue_Iter_def)

text \<open>The queue meets the contract; the items are those inside the interface values.\<close>

interpretation page_queue: fifo NewQueue "\<lambda>f x. Queue_Push f (Some x)"
  "\<lambda>q. (fst (Queue_Pop q), snd (snd (Queue_Pop q)))" Queue_Peek Queue_Size
  "\<lambda>q. map the (Queue_Iter q)" Queue_inv page_fresh
proof (unfold_locales, goal_cases)
  case (2 q f x)
  then show ?case by (simp add: Queue_Push_iter)
next
  case (3 q)
  then show ?case using Queue_Pop_spec[of q] by simp
next
  case (4 q x xs)
  then obtain y ys where q: "Queue_Iter q = y # ys" "x = the y" "xs = map the ys" by auto
  moreover have "y \<noteq> None" using 4(1) q(1) unfolding Queue_inv_def by (metis list.set_intros(1))
  ultimately show ?case using Queue_Pop_spec[OF 4(1)] by auto
next
  case (5 q)
  then show ?case
    using Queue_Peek_spec[OF 5] by (cases "Queue_Iter q") (auto simp: Queue_inv_def)
next
  case (6 q)
  then show ?case by (simp add: Queue_inv_def Queue_Size_def)
next
  case (8 q f x)
  then show ?case by (simp add: Queue_Push_inv)
next
  case (9 q)
  then show ?case using Queue_Pop_spec[of q] by simp
qed (auto simp: NewQueue_def Queue_Iter_def Queue_inv_def)

text \<open>
  C33: the paged queue is a FIFO queue: any sequence of pushes of non-nil items and pops on a new
  queue returns what a plain list would return, whichever recycled pages the pool hands out, and
  every page it gives back to the pool is empty and reusable.
\<close>

theorem page_queue_is_fifo:
  assumes "\<forall>f x. OpPush f x \<in> set ops \<longrightarrow> page_fresh f"
  shows "fst (queue_run (\<lambda>f x. Queue_Push f (Some x)) (\<lambda>q. (fst (Queue_Pop q), snd (snd (Queue_Pop q))))
      NewQueue ops) = fst (list_run [] ops) \<and>
    (\<forall>q p. Queue_inv q \<and> fst (snd (Queue_Pop q)) = Some p \<longrightarrow> page_fresh p)"
  using page_queue.run_refines[OF page_queue.inv_empty assms] Queue_Pop_spec
  by (auto simp: NewQueue_def Queue_Iter_def)

theorem page_queue_is_fifo_witness:
  "fst (queue_run (\<lambda>f x. Queue_Push f (Some x)) (\<lambda>q. (fst (Queue_Pop q), snd (snd (Queue_Pop q))))
     NewQueue [OpPush new_page (7::nat), OpPush new_page 8, OpPop, OpPop, OpPop]) = [Some 7, Some 8, None]"
  by (subst conjunct1[OF page_queue_is_fifo]) (auto simp: page_fresh_new)

end
