(* ===== verification/Sorted_Queue.thy ===== *)
theory Sorted_Queue
  imports Prelude
begin

text \<open>
  \<^verbatim>\<open>common/queue/sorted.go\<close>: a priority queue kept sorted in a window \<open>[head, head + size)\<close> of a
  slice. The slice operations (\<^verbatim>\<open>append\<close>, overlapping \<^verbatim>\<open>copy\<close>, the compaction when popping) are
  modelled as they are written; the lemmas show that on the window they are an insertion after
  the equal priorities and a removal at the front.
\<close>

section \<open>Model\<close>

record 'a sortedQueueItem =
  si_value :: "'a option"
  si_priority :: u64

record 'a sorted_queue =
  sq_items :: "'a sortedQueueItem option list"
  sq_head :: nat
  sq_size :: nat

text \<open>\<^verbatim>\<open>copy(xs[a:b], xs[c:d])\<close>; the source is read before the destination is written.\<close>

definition move :: "nat \<Rightarrow> nat \<Rightarrow> nat \<Rightarrow> nat \<Rightarrow> 'a list \<Rightarrow> 'a list" where
  "move a b c d xs = take a xs @ go_copy (slice a b xs) (slice c d xs) @ drop b xs"

definition NewSortedQueue :: "'a sorted_queue" where
  "NewSortedQueue = \<lparr>sq_items = [], sq_head = 0, sq_size = 0\<rparr>"

definition sq_prio :: "'a sorted_queue \<Rightarrow> nat \<Rightarrow> u64" where
  "sq_prio q i = si_priority (the (sq_items q ! i))"

text \<open>The part of \<^verbatim>\<open>insert\<close> that opens a gap at \<open>idx\<close>; it returns the new slice, head and index.\<close>

definition make_room ::
  "'b \<Rightarrow> 'b list \<Rightarrow> nat \<Rightarrow> nat \<Rightarrow> nat \<Rightarrow> 'b list \<times> nat \<times> nat" where
  "make_room item items head n idx =
     (if n = length items
      then let items = items @ [item]
           in (move (idx + 1) (length items) idx (length items) items, head, idx)
      else let last = head + n
           in if last = length items
              then let items = move (head - 1) (length items) head (length items) items;
                       head = head - 1; idx = idx - 1
                   in (if idx \<noteq> last - 1 then move (idx + 1) (length items) idx last items
                       else items, head, idx)
              else (move (idx + 1) (last + 1) idx last items, head, idx))"

definition sq_insert :: "'a option \<Rightarrow> u64 \<Rightarrow> 'a sorted_queue \<Rightarrow> 'a sorted_queue" where
  "sq_insert value Priority q =
     (let item = Some \<lparr>si_value = value, si_priority = Priority\<rparr>;
          items = sq_items q; head = sq_head q; size = sq_size q;
          idx = sort_search size (\<lambda>i. Priority < sq_prio q (head + i)) + head
      in if head \<le> idx \<and> idx < head + size \<and> sq_prio q idx = Priority
         then q\<lparr>sq_items := items[idx := item]\<rparr>
         else let (items, head, idx) = make_room item items head size idx
              in \<lparr>sq_items = items[idx := item], sq_head = head, sq_size = size + 1\<rparr>)"

definition sq_Insert :: "'a option \<Rightarrow> u64 \<Rightarrow> 'a sorted_queue \<Rightarrow> 'a sorted_queue" where
  "sq_Insert value Priority q = sq_insert value Priority q"

definition peekInternal :: "'a sorted_queue \<Rightarrow> 'a option \<times> u64" where
  "peekInternal q =
     (if sq_size q = 0 then (None, 0)
      else let item = the (sq_items q ! sq_head q) in (si_value item, si_priority item))"

text \<open>The loop of \<^verbatim>\<open>findInternal\<close> over the positions from \<open>i\<close> on.\<close>

fun find_from :: "'a sorted_queue \<Rightarrow> u64 \<Rightarrow> nat list \<Rightarrow> 'a option" where
  "find_from q Priority [] = None"
| "find_from q Priority (i # is) =
     (let item = the (sq_items q ! i)
      in if si_priority item = Priority then si_value item
         else if si_priority item > Priority then None
         else find_from q Priority is)"

definition findInternal :: "'a sorted_queue \<Rightarrow> u64 \<Rightarrow> 'a option" where
  "findInternal q Priority =
     (if sq_size q = 0 then None
      else find_from q Priority [sq_head q..<sq_head q + sq_size q])"

definition FindOrInsert :: "'a option \<Rightarrow> u64 \<Rightarrow> 'a sorted_queue \<Rightarrow> 'a option \<times> 'a sorted_queue" where
  "FindOrInsert value Priority q =
     (case findInternal q Priority of
        Some item \<Rightarrow> (Some item, q)
      | None \<Rightarrow> (None, sq_insert value Priority q))"

definition popInternal :: "'a sorted_queue \<Rightarrow> 'a option \<times> 'a sorted_queue" where
  "popInternal q =
     (if sq_size q = 0 then (None, q)
      else
        let item = the (sq_items q ! sq_head q);
            items = (sq_items q)[sq_head q := None];
            head = sq_head q + 1; size = sq_size q - 1;
            q' = (if 4096 < length items
                  then if size < 1024
                       then \<lparr>sq_items = go_copy (replicate 2048 None) (slice head (head + size) items),
                             sq_head = 0, sq_size = size\<rparr>
                       else if length items div 2 + 1 < head
                       then \<lparr>sq_items = go_copy items (slice head (head + size) items),
                             sq_head = 0, sq_size = size\<rparr>
                       else \<lparr>sq_items = items, sq_head = head, sq_size = size\<rparr>
                  else \<lparr>sq_items = items, sq_head = head, sq_size = size\<rparr>)
        in (si_value item, q'))"

lemma popInternal_size: "sq_size q \<noteq> 0 \<Longrightarrow> sq_size (snd (popInternal q)) = sq_size q - 1"
  by (simp add: popInternal_def Let_def)

function PopUntil :: "u64 \<Rightarrow> 'a sorted_queue \<Rightarrow> 'a option \<times> 'a sorted_queue" where
  "PopUntil Priority q =
     (let (item, itemPriority) = peekInternal q
      in if item = None then (None, q)
         else if itemPriority < Priority then PopUntil Priority (snd (popInternal q))
         else if itemPriority = Priority then (item, snd (popInternal q))
         else (None, q))"
  by pat_completeness auto
termination
  by (relation "measure (\<lambda>(p, q). sq_size q)")
     (auto simp: peekInternal_def popInternal_size split: if_splits)

declare PopUntil.simps [simp del]

definition sq_Iter :: "'a sorted_queue \<Rightarrow> ('a option \<times> u64) list" where
  "sq_Iter q = map (\<lambda>i. let item = the (sq_items q ! (sq_head q + i))
                        in (si_value item, si_priority item)) [0..<sq_size q]"

definition sq_Size :: "'a sorted_queue \<Rightarrow> nat" where
  "sq_Size q = sq_size q"

section \<open>The window\<close>

definition sq_window :: "'a sorted_queue \<Rightarrow> 'a sortedQueueItem option list" where
  "sq_window q = slice (sq_head q) (sq_head q + sq_size q) (sq_items q)"

definition sq_inv :: "'a sorted_queue \<Rightarrow> bool" where
  "sq_inv q \<longleftrightarrow> sq_head q + sq_size q \<le> length (sq_items q) \<and> None \<notin> set (sq_window q) \<and>
     sorted (map snd (sq_Iter q))"

lemma sq_split:
  assumes "sq_inv q"
  obtains pre post where "sq_items q = pre @ sq_window q @ post" and "length pre = sq_head q"
    and "length (sq_window q) = sq_size q"
proof
  show "sq_items q = take (sq_head q) (sq_items q) @ sq_window q @ drop (sq_head q + sq_size q) (sq_items q)"
    by (simp add: sq_window_def slice_def) (metis add.commute append_take_drop_id drop_drop)
qed (use assms in \<open>auto simp: sq_inv_def sq_window_def\<close>)

lemma sq_Iter_window:
  assumes "sq_head q + sq_size q \<le> length (sq_items q)"
  shows "sq_Iter q = map (\<lambda>x. (si_value (the x), si_priority (the x))) (sq_window q)"
  using assms by (intro nth_equalityI) (auto simp: sq_Iter_def sq_window_def slice_def Let_def)

lemma sq_inv_window:
  "sq_inv q \<longleftrightarrow> sq_head q + sq_size q \<le> length (sq_items q) \<and> None \<notin> set (sq_window q) \<and>
     sorted (map (\<lambda>x. si_priority (the x)) (sq_window q))"
  unfolding sq_inv_def using sq_Iter_window[of q] by (auto simp: comp_def)

section \<open>Insertion\<close>

abbreviation prio :: "'a sortedQueueItem option \<Rightarrow> u64" where
  "prio x \<equiv> si_priority (the x)"

abbreviation upto_prio :: "u64 \<Rightarrow> 'a sortedQueueItem option list \<Rightarrow> 'a sortedQueueItem option list" where
  "upto_prio P xs \<equiv> takeWhile (\<lambda>x. prio x \<le> P) xs"

abbreviation after_prio :: "u64 \<Rightarrow> 'a sortedQueueItem option list \<Rightarrow> 'a sortedQueueItem option list" where
  "after_prio P xs \<equiv> dropWhile (\<lambda>x. prio x \<le> P) xs"

lemma sq_prio_window:
  "sq_inv q \<Longrightarrow> i < sq_size q \<Longrightarrow> sq_prio q (sq_head q + i) = prio (sq_window q ! i)"
  by (simp add: sq_prio_def sq_window_def slice_def sq_inv_def)

lemma insert_position:
  assumes "sq_inv q"
  shows "sort_search (sq_size q) (\<lambda>i. P < sq_prio q (sq_head q + i)) = length (upto_prio P (sq_window q))"
proof (rule sort_search_correct, unfold switches_at_def, intro conjI allI impI)
  let ?w = "sq_window q"
  have len: "length ?w = sq_size q" using sq_split[OF assms] by metis
  show "length (upto_prio P ?w) \<le> sq_size q" using len length_takeWhile_le by metis
  fix i
  show "\<not> P < sq_prio q (sq_head q + i)" if "i < length (upto_prio P ?w)"
  proof -
    have "?w ! i \<in> set (upto_prio P ?w)" using that by (metis nth_mem takeWhile_nth)
    then have "prio (?w ! i) \<le> P" by (rule set_takeWhileD[THEN conjunct2])
    moreover have "i < sq_size q" using that len length_takeWhile_le less_le_trans by metis
    ultimately show ?thesis using sq_prio_window[OF assms] by simp
  qed
  assume i: "length (upto_prio P ?w) \<le> i \<and> i < sq_size q"
  then have k: "length (upto_prio P ?w) < length ?w" using len by simp
  then have "\<not> prio (?w ! length (upto_prio P ?w)) \<le> P"
    by (rule nth_length_takeWhile)
  moreover have "prio (?w ! length (upto_prio P ?w)) \<le> prio (?w ! i)"
    using assms i len sorted_nth_mono[of "map prio ?w" "length (upto_prio P ?w)" i] k
    by (auto simp: sq_inv_window)
  ultimately show "P < sq_prio q (sq_head q + i)"
    using sq_prio_window[OF assms] i by simp
qed

lemma insert_not_equal:
  assumes "sq_inv q" and "k = length (upto_prio P (sq_window q))" and "k < sq_size q"
  shows "sq_prio q (k + sq_head q) \<noteq> P"
proof -
  have len: "length (sq_window q) = sq_size q" using sq_split[OF assms(1)] by metis
  then have "\<not> prio (sq_window q ! k) \<le> P"
    using nth_length_takeWhile[of "\<lambda>x. prio x \<le> P" "sq_window q"] assms(2,3) by simp
  moreover have "sq_prio q (k + sq_head q) = prio (sq_window q ! k)"
    using sq_prio_window[OF assms(1,3)] by (simp add: add.commute)
  ultimately show ?thesis by auto
qed

lemma move_insert:
  assumes "length X + length B \<le> d"
  shows "(move (length X + 1) (length X + 1 + length B) (length X) d (X @ B @ y # Z))[length X := it]
    = X @ it # B @ Z"
proof -
  have src: "take (length B) (slice (length X) d (X @ B @ y # Z)) = B"
    using assms by (auto simp: slice_def)
  have dst: "length (slice (length X + 1) (length X + 1 + length B) (X @ B @ y # Z)) = length B"
    by simp
  have len: "length B \<le> length (slice (length X) d (X @ B @ y # Z))"
    using assms by simp
  have "go_copy (slice (length X + 1) (length X + 1 + length B) (X @ B @ y # Z))
      (slice (length X) d (X @ B @ y # Z)) = B"
    unfolding go_copy_def dst src using len dst by simp
  moreover have "take (length X + 1) (X @ B @ y # Z) = X @ [hd (B @ [y])]"
    by (cases B) auto
  moreover have "drop (length X + 1 + length B) (X @ B @ y # Z) = Z" by simp
  ultimately show ?thesis unfolding move_def by simp
qed

lemma move_left:
  "move (length P) (length (P @ x # W)) (length P + 1) (length (P @ x # W)) (P @ x # W) =
   P @ W @ [last (x # W)]"
proof -
  have "drop (length W) (x # W) = [last (x # W)]"
    by (metis append_butlast_last_id append_eq_conv_conj length_Cons length_butlast diff_Suc_1 list.distinct(1))
  then show ?thesis by (simp add: move_def slice_def go_copy_def)
qed

text \<open>The three layouts: a full slice, a window at the end of the slice, a window with a gap.\<close>

lemma make_room_full:
  assumes "make_room it (A @ B) 0 (length A + length B) (length A) = (items, head, idx)"
  shows "items[idx := it] = A @ it # B" and "head = 0"
  using assms move_insert[of A B "length A + 1 + length B" it "[]" it]
  by (auto simp: make_room_def)

lemma make_room_end:
  assumes "make_room it (P @ x # A @ B) (length P + 1) (length A + length B) (length P + 1 + length A)
    = (items, head, idx)"
  shows "items[idx := it] = P @ A @ it # B" and "head = length P"
proof -
  let ?its = "P @ (A @ B) @ [last (x # A @ B)]"
  have left: "move (length P + 1 - 1) (length (P @ x # A @ B)) (length P + 1) (length (P @ x # A @ B))
      (P @ x # A @ B) = ?its"
    using move_left[of P x "A @ B"] by simp
  have r: "items = (if B \<noteq> [] then move (length (P @ A) + 1) (length ?its) (length (P @ A))
        (length P + 1 + length A + length B) ?its else ?its)" "head = length P" "idx = length (P @ A)"
    using assms unfolding make_room_def left Let_def by (auto simp: add.assoc)
  show "head = length P" by (rule r)
  show "items[idx := it] = P @ A @ it # B"
  proof (cases "B = []")
    case True
    then have "?its = (P @ A) @ [last (x # A)]" by simp
    then show ?thesis using True r(1,3) by (metis append.assoc append_Cons append_Nil list_update_length)
  next
    case False
    have its: "?its = (P @ A) @ B @ last (x # A @ B) # []" by simp
    have "length ?its = length (P @ A) + 1 + length B" by simp
    then show ?thesis
      using r(1,3) False move_insert[of "P @ A" B "length P + 1 + length A + length B" "last (x # A @ B)" "[]" it]
      by (simp add: its add.assoc)
  qed
qed

lemma make_room_gap:
  assumes "make_room it (P @ A @ B @ y # Z) (length P) (length A + length B) (length P + length A)
    = (items, head, idx)" and "0 < length P + length Z + 1"
  shows "items[idx := it] = P @ A @ it # B @ Z" and "head = length P"
  using assms move_insert[of "P @ A" B "length P + length A + length B" y Z it]
  by (auto simp: make_room_def add.assoc Let_def)

lemma make_room_window:
  assumes "items = pre @ A @ B @ post" and "make_room it items (length pre) (length A + length B)
    (length A + length pre) = (items', head', idx')"
  shows "\<exists>pre' post'. items'[idx' := it] = pre' @ (A @ it # B) @ post' \<and> length pre' = head'"
proof -
  consider "pre = []" "post = []" | P x where "pre = P @ [x]" "post = []" | y Z where "post = y # Z"
    by (metis list.exhaust rev_exhaust)
  then show ?thesis
  proof cases
    case 1
    then show ?thesis using make_room_full[of it A B items' head' idx'] assms by auto
  next
    case (2 P x)
    then show ?thesis
      using make_room_end[of it P x A B items' head' idx'] assms
      by (intro exI[of _ P] exI[of _ "[]"]) (auto simp: add.commute)
  next
    case (3 y Z)
    then show ?thesis
      using make_room_gap[of it pre A B y Z items' head' idx'] assms
      by (intro exI[of _ pre] exI[of _ Z]) (auto simp: add.commute)
  qed
qed

lemma sq_insert_window:
  fixes v :: "'a option" and P :: u64
  assumes "sq_inv q"
  defines "w \<equiv> sq_window q" and "it \<equiv> Some \<lparr>si_value = v, si_priority = P\<rparr>"
  shows "sq_window (sq_insert v P q) = upto_prio P w @ it # after_prio P w"
    and "sq_size (sq_insert v P q) = sq_size q + 1"
    and "sq_head (sq_insert v P q) + sq_size (sq_insert v P q) \<le> length (sq_items (sq_insert v P q))"
proof -
  let ?A = "upto_prio P w" and ?B = "after_prio P w"
  let ?idx = "length ?A + sq_head q"
  obtain pre post where q: "sq_items q = pre @ w @ post" "length pre = sq_head q" "length w = sq_size q"
    using sq_split[OF assms(1)] w_def by metis
  have w: "?A @ ?B = w" by simp
  have lens: "length ?A + length ?B = sq_size q"
    using arg_cong[OF w, of length] q(3) by (simp only: length_append)
  have pos: "sort_search (sq_size q) (\<lambda>i. P < sq_prio q (sq_head q + i)) + sq_head q = ?idx"
    using insert_position[OF assms(1)] w_def by simp
  have dead: "\<not> (sq_head q \<le> ?idx \<and> ?idx < sq_head q + sq_size q \<and> sq_prio q ?idx = P)"
    using insert_not_equal[OF assms(1), of "length ?A" P] w_def by auto
  obtain items head idx where room: "make_room it (sq_items q) (sq_head q) (sq_size q) ?idx = (items, head, idx)"
    by (metis prod_cases3)
  have ins: "sq_insert v P q = \<lparr>sq_items = items[idx := it], sq_head = head, sq_size = sq_size q + 1\<rparr>"
    unfolding sq_insert_def Let_def pos if_not_P[OF dead] it_def[symmetric] room by simp
  have "sq_items q = pre @ ?A @ ?B @ post" using q(1) w by simp
  then obtain pre' post' where r: "items[idx := it] = pre' @ (?A @ it # ?B) @ post'" "length pre' = head"
    using make_room_window[of "sq_items q" pre ?A ?B post it items head idx] room q(2) lens by auto
  then show "sq_window (sq_insert v P q) = ?A @ it # ?B"
    and "sq_size (sq_insert v P q) = sq_size q + 1"
    and "sq_head (sq_insert v P q) + sq_size (sq_insert v P q) \<le> length (sq_items (sq_insert v P q))"
    by (simp_all add: ins sq_window_def slice_def flip: lens)
qed

abbreviation item_pair :: "'a sortedQueueItem option \<Rightarrow> 'a option \<times> u64" where
  "item_pair x \<equiv> (si_value (the x), si_priority (the x))"

lemma sq_insert_Iter:
  assumes "sq_inv q"
  shows "sq_Iter (sq_insert v P q) =
    takeWhile (\<lambda>x. snd x \<le> P) (sq_Iter q) @ (v, P) # dropWhile (\<lambda>x. snd x \<le> P) (sq_Iter q)"
  using sq_insert_window[OF assms, where v = v and P = P] assms
  by (simp add: sq_Iter_window sq_inv_def takeWhile_map dropWhile_map comp_def)

lemma sorted_insert:
  fixes P :: u64
  assumes "sorted (map snd xs)"
  shows "sorted (map snd (takeWhile (\<lambda>x. snd x \<le> P) xs @ (v, P) # dropWhile (\<lambda>x. snd x \<le> P) xs))"
  using assms
proof (induction xs)
  case (Cons x xs)
  show ?case
  proof (cases "snd x \<le> P")
    case True
    moreover have "\<forall>y\<in>set (takeWhile (\<lambda>x. snd x \<le> P) xs @ (v, P) # dropWhile (\<lambda>x. snd x \<le> P) xs).
        snd x \<le> snd y"
      using Cons.prems True by (auto dest: set_takeWhileD set_dropWhileD)
    ultimately show ?thesis using Cons by auto
  next
    case False
    then show ?thesis using Cons.prems by auto
  qed
qed simp

lemma sq_insert_inv:
  assumes "sq_inv q"
  shows "sq_inv (sq_insert v P q)"
proof -
  have "None \<notin> set (sq_window (sq_insert v P q))"
    using sq_insert_window(1)[OF assms, where v = v and P = P] assms
    by (auto simp: sq_inv_def dest: set_takeWhileD set_dropWhileD)
  moreover have "sorted (map snd (sq_Iter (sq_insert v P q)))"
    unfolding sq_insert_Iter[OF assms] by (rule sorted_insert) (use assms in \<open>simp add: sq_inv_def\<close>)
  ultimately show ?thesis
    using sq_insert_window(3)[OF assms, where v = v and P = P] by (simp add: sq_inv_def)
qed

section \<open>Removal\<close>

lemma sq_Iter_empty: "sq_Iter q = [] \<longleftrightarrow> sq_size q = 0"
  by (simp add: sq_Iter_def)

lemma sq_window_Cons:
  assumes "sq_inv q" and "sq_size q \<noteq> 0"
  obtains x xs pre post where "sq_window q = x # xs" and "sq_items q = pre @ (x # xs) @ post"
    and "length pre = sq_head q" and "Suc (length xs) = sq_size q" and "sq_items q ! sq_head q = x"
proof -
  obtain pre post where q: "sq_items q = pre @ sq_window q @ post" "length pre = sq_head q"
      "length (sq_window q) = sq_size q" using sq_split[OF assms(1)] .
  then obtain x xs where "sq_window q = x # xs" using assms(2) by (cases "sq_window q") auto
  with q show thesis by (intro that[of x xs pre post]) (auto simp: nth_append)
qed

lemma popInternal_window:
  assumes "sq_inv q" and "sq_size q \<noteq> 0"
  shows "fst (popInternal q) = si_value (the (hd (sq_window q)))"
    and "sq_window (snd (popInternal q)) = tl (sq_window q)"
    and "sq_head (snd (popInternal q)) + sq_size (snd (popInternal q)) \<le> length (sq_items (snd (popInternal q)))"
proof -
  obtain x xs pre post where q: "sq_window q = x # xs" "sq_items q = pre @ (x # xs) @ post"
      "length pre = sq_head q" "Suc (length xs) = sq_size q" "sq_items q ! sq_head q = x"
    using sq_window_Cons[OF assms] .
  have items: "(sq_items q)[sq_head q := None] = pre @ None # xs @ post"
    using q(2) unfolding q(3)[symmetric] by simp
  have sl: "slice (sq_head q + 1) (sq_head q + 1 + (sq_size q - 1)) (pre @ None # xs @ post) = xs"
    using q(3,4) by (auto simp: slice_def)
  have size: "sq_size q - 1 = length xs" using q(4) by simp
  show "sq_window (snd (popInternal q)) = tl (sq_window q)"
    and "sq_head (snd (popInternal q)) + sq_size (snd (popInternal q)) \<le> length (sq_items (snd (popInternal q)))"
    using assms(2) q(1,3) sl unfolding popInternal_def Let_def items size
    by (auto simp: sq_window_def slice_def go_copy_def)
  show "fst (popInternal q) = si_value (the (hd (sq_window q)))"
    using assms(2) q(1,5) by (simp add: popInternal_def Let_def)
qed

lemma popInternal_inv:
  assumes "sq_inv q"
  shows "sq_inv (snd (popInternal q))"
proof (cases "sq_size q = 0")
  case True
  then show ?thesis using assms by (simp add: popInternal_def)
next
  case False
  note w = popInternal_window[OF assms False]
  obtain x xs where "sq_window q = x # xs" using sq_window_Cons[OF assms False] by metis
  then show ?thesis
    using assms w(3) unfolding sq_inv_window w(2) by simp
qed

lemma popInternal_Iter:
  assumes "sq_inv q"
  shows "fst (popInternal q) = (case sq_Iter q of [] \<Rightarrow> None | x # _ \<Rightarrow> fst x)"
    and "sq_Iter (snd (popInternal q)) = tl (sq_Iter q)"
proof -
  consider "sq_size q = 0" | "sq_size q \<noteq> 0" by blast
  then have "fst (popInternal q) = (case sq_Iter q of [] \<Rightarrow> None | x # _ \<Rightarrow> fst x) \<and>
    sq_Iter (snd (popInternal q)) = tl (sq_Iter q)"
  proof cases
    case 1
    then show ?thesis by (simp add: popInternal_def sq_Iter_def)
  next
    case 2
    note w = popInternal_window[OF assms 2]
    obtain x xs where x: "sq_window q = x # xs" using sq_window_Cons[OF assms 2] by metis
    have "sq_Iter q = item_pair x # map item_pair xs"
      using assms x by (simp add: sq_Iter_window sq_inv_def)
    moreover have "sq_Iter (snd (popInternal q)) = map item_pair xs"
      using popInternal_inv[OF assms] x w(2) by (simp add: sq_Iter_window sq_inv_def)
    ultimately show ?thesis using w(1) x by (auto simp: prod_eq_iff)
  qed
  then show "fst (popInternal q) = (case sq_Iter q of [] \<Rightarrow> None | x # _ \<Rightarrow> fst x)"
    and "sq_Iter (snd (popInternal q)) = tl (sq_Iter q)" by blast+
qed

lemma peekInternal_Iter:
  assumes "sq_inv q"
  shows "peekInternal q = (case sq_Iter q of [] \<Rightarrow> (None, 0) | x # _ \<Rightarrow> x)"
proof (cases "sq_size q = 0")
  case True
  then show ?thesis by (simp add: peekInternal_def sq_Iter_def)
next
  case False
  obtain x xs where "sq_window q = x # xs" "sq_items q ! sq_head q = x"
    using sq_window_Cons[OF assms False] by metis
  then show ?thesis
    using assms False by (simp add: sq_Iter_window sq_inv_def peekInternal_def Let_def)
qed

text \<open>A nil value at the front stops \<^verbatim>\<open>PopUntil\<close>, which cannot tell it from an empty queue.\<close>

lemma PopUntil_Iter:
  assumes "sq_inv q"
  shows "sq_inv (snd (PopUntil P q)) \<and>
    (fst (PopUntil P q), sq_Iter (snd (PopUntil P q))) =
      (case dropWhile (\<lambda>x. fst x \<noteq> None \<and> snd x < P) (sq_Iter q) of
         [] \<Rightarrow> (None, [])
       | (v, p) # r \<Rightarrow> if v \<noteq> None \<and> p = P then (v, r) else (None, (v, p) # r))"
  using assms
proof (induction P q rule: PopUntil.induct)
  case (1 P q)
  note peek = peekInternal_Iter[OF "1.prems"]
  note pop = popInternal_inv[OF "1.prems"] popInternal_Iter(2)[OF "1.prems"]
  show ?case
  proof (cases "sq_Iter q")
    case Nil
    then show ?thesis using peek "1.prems" by (simp add: PopUntil.simps[of P q])
  next
    case (Cons x r)
    obtain v p where x: "x = (v, p)" by force
    have peekx: "peekInternal q = (v, p)" using peek Cons x by simp
    consider "v = None" | "v \<noteq> None" "p < P" | "v \<noteq> None" "p = P" | "v \<noteq> None" "P < p" by fastforce
    then show ?thesis
    proof cases
      case 2
      then have "PopUntil P q = PopUntil P (snd (popInternal q))" by (auto simp: PopUntil.simps[of P q] peekx)
      then show ?thesis using "1.IH"[OF peekx[symmetric] refl 2 pop(1)] Cons x 2 pop(2) by simp
    next
      case 3
      then show ?thesis using pop Cons x by (auto simp: PopUntil.simps[of P q] peekx)
    qed (use "1.prems" Cons x in \<open>auto simp: PopUntil.simps[of P q] peekx\<close>)
  qed
qed

lemma find_from_sorted:
  assumes "sorted (map (\<lambda>i. sq_prio q i) is)"
  shows "find_from q P is = (case filter (\<lambda>i. sq_prio q i = P) is of [] \<Rightarrow> None
    | i # _ \<Rightarrow> si_value (the (sq_items q ! i)))"
  using assms
proof (induction "is")
  case (Cons i "is")
  show ?case
  proof (cases "sq_prio q i > P")
    case True
    then have "\<forall>j\<in>set is. sq_prio q j \<noteq> P" using Cons.prems by auto
    then have "filter (\<lambda>i. sq_prio q i = P) (i # is) = []" using True by (auto simp: filter_empty_conv)
    then show ?thesis using True by (auto simp: sq_prio_def Let_def)
  next
    case False
    then show ?thesis using Cons by (auto simp: sq_prio_def Let_def)
  qed
qed simp

lemma findInternal_Iter:
  assumes "sq_inv q"
  shows "findInternal q P = (case filter (\<lambda>x. snd x = P) (sq_Iter q) of [] \<Rightarrow> None | x # _ \<Rightarrow> fst x)"
proof -
  let ?is = "[sq_head q..<sq_head q + sq_size q]"
  have iter: "sq_Iter q = map (\<lambda>i. item_pair (sq_items q ! i)) ?is"
    by (rule nth_equalityI) (simp_all add: sq_Iter_def Let_def)
  have "sorted (map (sq_prio q) ?is)"
    using assms by (simp add: sq_inv_def iter comp_def sq_prio_def[abs_def])
  note find = find_from_sorted[OF this, of P]
  show ?thesis
    using find by (auto simp: findInternal_def iter filter_map comp_def sq_prio_def split: list.splits)
qed

text \<open>
  C32: on every well-formed state the sorted queue behaves as a list of items ordered by priority, for all of its
  operations: \<^verbatim>\<open>Insert\<close> puts the item behind the items of equal or lower priority value, \<^verbatim>\<open>Find\<close> returns the
  first item of the priority, \<^verbatim>\<open>FindOrInsert\<close> inserts unless it finds a value, \<^verbatim>\<open>Peek\<close> returns and \<^verbatim>\<open>Pop\<close> removes the
  front, \<^verbatim>\<open>PopUntil\<close> drops everything below the priority, up to the first nil value, and returns the front item if it has the
  priority; \<^verbatim>\<open>Size\<close> is the length of the list. The invariant (window in range, no empty
  slot, sorted) is kept by all of them, through every layout change of the underlying slice.
\<close>

theorem sorted_queue_refines_list:
  assumes "sq_inv q"
  shows "sq_Iter (sq_Insert v P q) =
      takeWhile (\<lambda>x. snd x \<le> P) (sq_Iter q) @ (v, P) # dropWhile (\<lambda>x. snd x \<le> P) (sq_Iter q) \<and>
    findInternal q P = (case filter (\<lambda>x. snd x = P) (sq_Iter q) of [] \<Rightarrow> None | x # _ \<Rightarrow> fst x) \<and>
    FindOrInsert v P q =
      (case filter (\<lambda>x. snd x = P) (sq_Iter q) of
         (Some w, _) # _ \<Rightarrow> (Some w, q)
       | _ \<Rightarrow> (None, sq_Insert v P q)) \<and>
    peekInternal q = (case sq_Iter q of [] \<Rightarrow> (None, 0) | x # _ \<Rightarrow> x) \<and>
    (fst (popInternal q), sq_Iter (snd (popInternal q))) =
      (case sq_Iter q of [] \<Rightarrow> (None, []) | x # r \<Rightarrow> (fst x, r)) \<and>
    (fst (PopUntil P q), sq_Iter (snd (PopUntil P q))) =
      (case dropWhile (\<lambda>x. fst x \<noteq> None \<and> snd x < P) (sq_Iter q) of
         [] \<Rightarrow> (None, [])
       | (v, p) # r \<Rightarrow> if v \<noteq> None \<and> p = P then (v, r) else (None, (v, p) # r)) \<and>
    sq_Size q = length (sq_Iter q) \<and>
    sq_inv (sq_Insert v P q) \<and> sq_inv (snd (FindOrInsert v P q)) \<and> sq_inv (snd (popInternal q)) \<and>
    sq_inv (snd (PopUntil P q))"
proof -
  have "(fst (popInternal q), sq_Iter (snd (popInternal q))) =
      (case sq_Iter q of [] \<Rightarrow> (None, []) | x # r \<Rightarrow> (fst x, r))"
    using popInternal_Iter[OF assms] by (cases "sq_Iter q") auto
  moreover have "sq_Size q = length (sq_Iter q)" by (simp add: sq_Size_def sq_Iter_def)
  moreover have "FindOrInsert v P q =
      (case filter (\<lambda>x. snd x = P) (sq_Iter q) of
         (Some w, _) # _ \<Rightarrow> (Some w, q)
       | _ \<Rightarrow> (None, sq_insert v P q))"
    unfolding FindOrInsert_def findInternal_Iter[OF assms] by (auto split: list.split option.split)
  moreover have "sq_inv (snd (FindOrInsert v P q))"
    using sq_insert_inv[OF assms, of v P] assms by (auto simp: FindOrInsert_def split: option.split)
  ultimately show ?thesis
    unfolding sq_Insert_def
    using sq_insert_Iter[OF assms, of v P] sq_insert_inv[OF assms, of v P] findInternal_Iter[OF assms, of P]
      peekInternal_Iter[OF assms] popInternal_inv[OF assms] PopUntil_Iter[OF assms, of P] by blast
qed

definition sample_sorted_queue :: "nat sorted_queue" where
  "sample_sorted_queue =
     \<lparr>sq_items = [None, Some \<lparr>si_value = Some 10, si_priority = 3\<rparr>, Some \<lparr>si_value = Some 20, si_priority = 5\<rparr>],
      sq_head = 1, sq_size = 2\<rparr>"

theorem sorted_queue_refines_list_witness:
  "sq_Iter (sq_Insert (Some 30) 3 sample_sorted_queue) = [(Some 10, 3), (Some 30, 3), (Some 20, 5)] \<and>
   fst (PopUntil 5 sample_sorted_queue) = Some 20"
proof -
  have it: "sq_Iter sample_sorted_queue = [(Some 10, 3), (Some 20, 5)]" by code_simp
  have "sq_inv sample_sorted_queue" by code_simp
  then show ?thesis
    using sorted_queue_refines_list[of sample_sorted_queue "Some 30" 3]
      sorted_queue_refines_list[of sample_sorted_queue "Some 30" 5] by (simp add: it)
qed

text \<open>
  \<^verbatim>\<open>insert\<close> has a branch that replaces the item of an equal priority, but its binary search looks for
  the first \<^emph>\<open>larger\<close> priority, so the branch is dead: inserting always adds an item, and a second
  item of the same priority is queued behind the first.
\<close>

theorem sorted_queue_never_replaces:
  assumes "sq_inv q"
  shows "sq_Size (sq_Insert v P q) = sq_Size q + 1"
  using sq_insert_window(2)[OF assms] by (simp add: sq_Size_def sq_Insert_def)

theorem sorted_queue_never_replaces_witness:
  "sq_Size (sq_Insert (Some 30) 3 sample_sorted_queue) = 3"
proof -
  have "sq_inv sample_sorted_queue" by code_simp
  then show ?thesis
    using sorted_queue_never_replaces[of sample_sorted_queue "Some 30" 3]
    by (simp add: sq_Size_def sample_sorted_queue_def)
qed

end
