(* ===== verification/Binutil.thy ===== *)
theory Binutil
  imports Prelude
begin

text \<open>
  \<^verbatim>\<open>common/binutil\<close>: fixed width integers in little and big endian byte order. The readers
  index the slice and panic when it is too short; that is \<^term>\<open>None\<close> here.
\<close>

unbundle bit_operations_syntax

section \<open>Little endian\<close>

definition LE_Uint16ToBytes :: "u16 \<Rightarrow> bytes" where
  "LE_Uint16ToBytes v = [ucast v, ucast (drop_bit 8 v)]"

definition LE_Uint32ToBytes :: "u32 \<Rightarrow> bytes" where
  "LE_Uint32ToBytes v = [ucast v, ucast (drop_bit 8 v), ucast (drop_bit 16 v), ucast (drop_bit 24 v)]"

definition LE_Uint64ToBytes :: "u64 \<Rightarrow> bytes" where
  "LE_Uint64ToBytes v =
     [ucast v, ucast (drop_bit 8 v), ucast (drop_bit 16 v), ucast (drop_bit 24 v),
      ucast (drop_bit 32 v), ucast (drop_bit 40 v), ucast (drop_bit 48 v), ucast (drop_bit 56 v)]"

fun LE_Uint16 :: "bytes \<Rightarrow> u16 option" where
  "LE_Uint16 (b0 # b1 # _) = Some (ucast b0 OR push_bit 8 (ucast b1))"
| "LE_Uint16 _ = None"

fun LE_Uint32 :: "bytes \<Rightarrow> u32 option" where
  "LE_Uint32 (b0 # b1 # b2 # b3 # _) =
     Some (ucast b0 OR push_bit 8 (ucast b1) OR push_bit 16 (ucast b2) OR push_bit 24 (ucast b3))"
| "LE_Uint32 _ = None"

fun LE_Uint64 :: "bytes \<Rightarrow> u64 option" where
  "LE_Uint64 (b0 # b1 # b2 # b3 # b4 # b5 # b6 # b7 # _) =
     Some (ucast b0 OR push_bit 8 (ucast b1) OR push_bit 16 (ucast b2) OR push_bit 24 (ucast b3)
       OR push_bit 32 (ucast b4) OR push_bit 40 (ucast b5) OR push_bit 48 (ucast b6)
       OR push_bit 56 (ucast b7))"
| "LE_Uint64 _ = None"

section \<open>Big endian\<close>

definition BE_Uint16ToBytes :: "u16 \<Rightarrow> bytes" where
  "BE_Uint16ToBytes v = [ucast (drop_bit 8 v), ucast v]"

definition BE_Uint32ToBytes :: "u32 \<Rightarrow> bytes" where
  "BE_Uint32ToBytes v = [ucast (drop_bit 24 v), ucast (drop_bit 16 v), ucast (drop_bit 8 v), ucast v]"

definition BE_Uint64ToBytes :: "u64 \<Rightarrow> bytes" where
  "BE_Uint64ToBytes v =
     [ucast (drop_bit 56 v), ucast (drop_bit 48 v), ucast (drop_bit 40 v), ucast (drop_bit 32 v),
      ucast (drop_bit 24 v), ucast (drop_bit 16 v), ucast (drop_bit 8 v), ucast v]"

fun BE_Uint16 :: "bytes \<Rightarrow> u16 option" where
  "BE_Uint16 (b0 # b1 # _) = Some (ucast b1 OR push_bit 8 (ucast b0))"
| "BE_Uint16 _ = None"

fun BE_Uint32 :: "bytes \<Rightarrow> u32 option" where
  "BE_Uint32 (b0 # b1 # b2 # b3 # _) =
     Some (ucast b3 OR push_bit 8 (ucast b2) OR push_bit 16 (ucast b1) OR push_bit 24 (ucast b0))"
| "BE_Uint32 _ = None"

fun BE_Uint64 :: "bytes \<Rightarrow> u64 option" where
  "BE_Uint64 (b0 # b1 # b2 # b3 # b4 # b5 # b6 # b7 # _) =
     Some (ucast b7 OR push_bit 8 (ucast b6) OR push_bit 16 (ucast b5) OR push_bit 24 (ucast b4)
       OR push_bit 32 (ucast b3) OR push_bit 40 (ucast b2) OR push_bit 48 (ucast b1)
       OR push_bit 56 (ucast b0))"
| "BE_Uint64 _ = None"

text \<open>\<^verbatim>\<open>PutUintN(b, v)\<close> overwrites the first bytes of \<open>b\<close>; it panics on a shorter slice.\<close>

definition BE_PutUint16 :: "bytes \<Rightarrow> u16 \<Rightarrow> bytes option" where
  "BE_PutUint16 b v = (if length b < 2 then None else Some (BE_Uint16ToBytes v @ drop 2 b))"

definition BE_PutUint32 :: "bytes \<Rightarrow> u32 \<Rightarrow> bytes option" where
  "BE_PutUint32 b v = (if length b < 4 then None else Some (BE_Uint32ToBytes v @ drop 4 b))"

definition BE_PutUint64 :: "bytes \<Rightarrow> u64 \<Rightarrow> bytes option" where
  "BE_PutUint64 b v = (if length b < 8 then None else Some (BE_Uint64ToBytes v @ drop 8 b))"

section \<open>Round trips\<close>

lemma length_uint_bytes [simp]:
  "length (LE_Uint16ToBytes v16) = 2" "length (LE_Uint32ToBytes v32) = 4"
  "length (LE_Uint64ToBytes v64) = 8" "length (BE_Uint16ToBytes v16) = 2"
  "length (BE_Uint32ToBytes v32) = 4" "length (BE_Uint64ToBytes v64) = 8"
  by (simp_all add: LE_Uint16ToBytes_def LE_Uint32ToBytes_def LE_Uint64ToBytes_def
      BE_Uint16ToBytes_def BE_Uint32ToBytes_def BE_Uint64ToBytes_def)

lemma uint_bytes_nonempty [simp]:
  "LE_Uint16ToBytes v16 \<noteq> []" "LE_Uint32ToBytes v32 \<noteq> []" "LE_Uint64ToBytes v64 \<noteq> []"
  by (simp_all add: LE_Uint16ToBytes_def LE_Uint32ToBytes_def LE_Uint64ToBytes_def)

lemma bit_byte_low:
  fixes v :: "'a::len word"
  shows "bit (ucast (ucast v :: u8) :: 'a word) n \<longleftrightarrow> n < 8 \<and> bit v n"
  using bit_imp_le_length[of v n] by (auto simp: bit_simps)

lemma bit_byte_at:
  fixes v :: "'a::len word"
  shows "bit (push_bit k (ucast (ucast (drop_bit k v) :: u8)) :: 'a word) n \<longleftrightarrow>
    k \<le> n \<and> n < k + 8 \<and> bit v n"
  using bit_imp_le_length[of v n] by (auto simp: bit_simps)

lemma join16:
  fixes v :: u16
  shows "ucast (ucast v :: u8) OR push_bit 8 (ucast (ucast (drop_bit 8 v) :: u8)) = v"
  by (rule bit_word_eqI) (simp only: bit_or_iff bit_byte_low bit_byte_at, simp, arith)

lemma join32:
  fixes v :: u32
  shows "ucast (ucast v :: u8) OR push_bit 8 (ucast (ucast (drop_bit 8 v) :: u8))
     OR push_bit 16 (ucast (ucast (drop_bit 16 v) :: u8))
     OR push_bit 24 (ucast (ucast (drop_bit 24 v) :: u8)) = v"
  by (rule bit_word_eqI) (simp only: bit_or_iff bit_byte_low bit_byte_at, simp, arith)

lemma join64:
  fixes v :: u64
  shows "ucast (ucast v :: u8) OR push_bit 8 (ucast (ucast (drop_bit 8 v) :: u8))
     OR push_bit 16 (ucast (ucast (drop_bit 16 v) :: u8))
     OR push_bit 24 (ucast (ucast (drop_bit 24 v) :: u8))
     OR push_bit 32 (ucast (ucast (drop_bit 32 v) :: u8))
     OR push_bit 40 (ucast (ucast (drop_bit 40 v) :: u8))
     OR push_bit 48 (ucast (ucast (drop_bit 48 v) :: u8))
     OR push_bit 56 (ucast (ucast (drop_bit 56 v) :: u8)) = v"
  by (rule bit_word_eqI) (simp only: bit_or_iff bit_byte_low bit_byte_at, simp, arith)

lemma LE_Uint16_append [simp]: "LE_Uint16 (LE_Uint16ToBytes v @ bs) = Some v"
  by (simp add: LE_Uint16ToBytes_def join16)

lemma LE_Uint32_append [simp]: "LE_Uint32 (LE_Uint32ToBytes v @ bs) = Some v"
  by (simp add: LE_Uint32ToBytes_def join32)

lemma LE_Uint64_append [simp]: "LE_Uint64 (LE_Uint64ToBytes v @ bs) = Some v"
  by (simp add: LE_Uint64ToBytes_def join64)

lemma BE_Uint16_append [simp]: "BE_Uint16 (BE_Uint16ToBytes v @ bs) = Some v"
  by (simp add: BE_Uint16ToBytes_def join16)

lemma BE_Uint32_append [simp]: "BE_Uint32 (BE_Uint32ToBytes v @ bs) = Some v"
  by (simp add: BE_Uint32ToBytes_def join32)

lemma BE_Uint64_append [simp]: "BE_Uint64 (BE_Uint64ToBytes v @ bs) = Some v"
  by (simp add: BE_Uint64ToBytes_def join64)

lemmas LE_Uint16_round [simp] = LE_Uint16_append[where bs = "[]", simplified]
lemmas LE_Uint32_round [simp] = LE_Uint32_append[where bs = "[]", simplified]
lemmas LE_Uint64_round [simp] = LE_Uint64_append[where bs = "[]", simplified]
lemmas BE_Uint16_round [simp] = BE_Uint16_append[where bs = "[]", simplified]
lemmas BE_Uint32_round [simp] = BE_Uint32_append[where bs = "[]", simplified]
lemmas BE_Uint64_round [simp] = BE_Uint64_append[where bs = "[]", simplified]

lemma LE_Uint32ToBytes_inj: "LE_Uint32ToBytes a = LE_Uint32ToBytes b \<Longrightarrow> a = b"
  by (metis LE_Uint32_round option.inject)

lemma BE_Uint16ToBytes_inj [simp]: "BE_Uint16ToBytes a = BE_Uint16ToBytes b \<longleftrightarrow> a = b"
  by (metis BE_Uint16_round option.inject)

lemma BE_Uint32ToBytes_inj [simp]: "BE_Uint32ToBytes a = BE_Uint32ToBytes b \<longleftrightarrow> a = b"
  by (metis BE_Uint32_round option.inject)

lemma BE_Uint64ToBytes_inj [simp]: "BE_Uint64ToBytes a = BE_Uint64ToBytes b \<longleftrightarrow> a = b"
  by (metis BE_Uint64_round option.inject)

text \<open>A reader succeeds exactly on slices that are long enough.\<close>

lemma LE_Uint32_None: "LE_Uint32 bs = None \<longleftrightarrow> length bs < 4"
  by (cases bs rule: LE_Uint32.cases) auto

lemma LE_Uint64_None: "LE_Uint64 bs = None \<longleftrightarrow> length bs < 8"
  by (cases bs rule: LE_Uint64.cases) auto

lemma BE_Uint32_None: "BE_Uint32 bs = None \<longleftrightarrow> length bs < 4"
  by (cases bs rule: BE_Uint32.cases) auto

lemma BE_Uint16_None: "BE_Uint16 bs = None \<longleftrightarrow> length bs < 2"
  by (cases bs rule: BE_Uint16.cases) auto

lemma BE_Uint64_None: "BE_Uint64 bs = None \<longleftrightarrow> length bs < 8"
  by (cases bs rule: BE_Uint64.cases) auto

end
