(* ===== verification/Errors.thy ===== *)
theory Errors
  imports Prelude
begin

text \<open>
  The sentinel errors of the packages. Go compares them by identity, so every
  \<^verbatim>\<open>errors.New\<close> variable is a constructor of its package's datatype; \<open>err\<close> is the
  \<^verbatim>\<open>error\<close> interface. Errors produced by code outside the repository (base58, hex,
  msgpack, gzip, the operating system, signature recovery) are \<open>ExternalErr\<close>. A runtime
  panic (a slice index out of range, an explicit \<^verbatim>\<open>panic\<close>) is \<open>Panic\<close>; no code of the
  modelled components recovers from one, so the state that accompanies it is meaningless.
  A name that two packages use has the package as a suffix in one of them.
\<close>

datatype types_err =
    ErrInvalidAccountName | ErrInvalidAccountType | ErrExistAddress | ErrExistAccount
  | ErrExistAccountName | ErrNotExistAccount | ErrDeletedAccount | ErrInvalidProcess
  | ErrExistProcessName | ErrExistProcessID | ErrNotExistProcess | ErrExistUTXO
  | ErrNotExistUTXO | ErrUsedUTXO | ErrInvalidTransactionCount
  | ErrNotAllowedEmptyAddressAccount | ErrNotAllowedAddressAccountName
  | ErrInvalidAddressHeight | ErrInvalidSignerCount | ErrInvalidAccountSigner
  | ErrInvalidUTXOSigner | ErrInvalidTxInCount | ErrInvalidOutputAmount | ErrDustAmount | ErrInvalidTransactionIDFormat | ErrUsedTimeSlot
  | ErrInvalidTransactionTimeSlot

datatype chain_err =
    ErrExistServiceName | ErrExistServiceID | ErrNotExistService | ErrInvalidChainID | ErrInvalidVersion
  | ErrInvalidHeight | ErrInvalidPrevHash | ErrInvalidContextHash | ErrInvalidLevelRootHash
  | ErrInvalidTimestamp | ErrInvalidGenerator | ErrExceedHashCount | ErrInvalidHashCount
  | ErrInvalidGenesisHash | ErrInvalidTxInKey | ErrInvalidResult | ErrChainClosed | ErrStoreClosed
  | ErrAlreadyGenesised | ErrDirtyContext | ErrReservedID | ErrAddBeforeChainInit
  | ErrApplicationIDMustBe255 | ErrFoundForkedBlock | ErrCannotDeleteGeneratorAccount
  | ErrInvalidAccountName_chain

datatype common_err =
    ErrInvalidAddressFormat | ErrInvalidAddressCheckSum | ErrInvalidSignatureFormat
  | ErrInvalidSignature | ErrInvalidPublicKeyFormat | ErrInvalidPublicHash
  | ErrInvalidPublicHashFormat | ErrInsufficientSignature | ErrDuplicatedSignature
  | ErrInvalidAmountFormat | ErrInvalidHashSize | ErrInvalidHashFormat
  | ErrExistType | ErrExistTypeName | ErrUnknownType

datatype vault_err =
    ErrMinusInput | ErrMinusBalance | ErrMinusCollectedFee | ErrInvalidMultiKeyHashCount
  | ErrInvalidRequiredKeyHashCount | ErrInvalidLockedBalanceKey | ErrInvalidPolicy | ErrInsufficientFee
  | ErrInsufficientBalance | ErrNotExistFeeOfTransaction
  | ErrPolicyShouldBeSetupInApplication | ErrInvalidTagSize | ErrInvalidDefaultFee

datatype admin_err = ErrInvalidAdminAddress | ErrUnauthorizedTransaction | ErrNotExistAdminAddress

datatype pof_err =
    ErrInsufficientCandidateCount | ErrExceedCandidateCount | ErrInvalidMaxBlocksPerFormulator
  | ErrInvalidObserverKey | ErrInvalidTopAddress | ErrInvalidTopSignature
  | ErrInvalidSignatureCount | ErrInvalidPhase | ErrExistAddress_pof
  | ErrFoundForkedBlockGen | ErrInvalidVote | ErrInvalidRoundState | ErrInvalidRequest | ErrAlreadyVoted
  | ErrNotExistObserverPeer | ErrNotExistFormulatorPeer

datatype pile_err =
    ErrInvalidChunkBeginHeight | ErrInvalidChunkEndHeight | ErrInvalidAppendHeight
  | ErrInvalidHeight_pile | ErrInvalidFileSize | ErrInvalidGenesisHash_pile | ErrInvalidDataIndex | ErrMissingPile
  | ErrAlreadyInitialized | ErrExeedMaximumDataArrayLength | ErrHeightCrashed

datatype pool_err =
    ErrEmptyQueue | ErrNotAccountTransaction | ErrExistTransaction | ErrTransactionPoolOverflowed

datatype formulator_err =
    ErrInvalidStakingAddress | ErrInvalidStakingAmount | ErrAlphaCreationLimited | ErrMinusInput_fr
  | ErrMinusBalance_fr | ErrMinustUnstakingAmount | ErrRewardPolicyShouldBeSetupInApplication
  | ErrAlphaPolicyShouldBeSetupInApplication | ErrSigmaPolicyShouldBeSetupInApplication
  | ErrOmegaPolicyShouldBeSetupInApplication | ErrHyperPolicyShouldBeSetupInApplication
  | ErrStakingPolicyShouldBeSetupInApplication | ErrInvalidFormulatorAddress
  | ErrInvalidFormulatorCount | ErrInsufficientFormulatorBlocks | ErrInsufficientFormulatorRewardCount
  | ErrCriticalStakingAmount | ErrInsufficientStakingAmount | ErrInvalidRewardPolicy
  | ErrInvalidHyperPolicy | ErrInvalidValidatorPolicy | ErrNotHyperFormulator | ErrNotRevoked
  | ErrNotExistRevokedFormulator | ErrInvalidHeritor | ErrNotExistUnstakingAmount
  | ErrRevokedFormulator | ErrInvalidTransmuteCount | ErrInvalidTransmuteAmount
  | ErrInvalidTransmuteHeight | ErrNotExistTransmutePolicy | ErrNoOverAmount
  | ErrSigmaCreationNotAllowed | ErrOmegaCreationNotAllowed

datatype gateway_err =
    ErrMinusInput_gw | ErrMinusBalance_gw | ErrInvalidMultiKeyHashCount_gw
  | ErrInvalidRequiredKeyHashCount_gw | ErrInvalidERC20AddressFormat | ErrInvalidPolicy_gw
  | ErrInvalidAddressCount | ErrProcessedERC20TXID | ErrProcessedOutTXID
  | ErrPolicyShouldBeSetupInApplication_gw

datatype payment_err =
    ErrInvalidRequestPayment | ErrInvalidPaymentAmount | ErrInvalidTopicName
  | ErrNotExistRequestPayment | ErrExceedContentSize | ErrExistTopic | ErrNotExistTopic
  | ErrExistSubscribe | ErrNotExistSubscribe | ErrInvalidBillingAmount

datatype err =
    TypesErr types_err | ChainErr chain_err | CommonErr common_err | VaultErr vault_err
  | AdminErr admin_err | PofErr pof_err | PileErr pile_err | PoolErr pool_err
  | FormulatorErr formulator_err | GatewayErr gateway_err | PaymentErr payment_err
  | ErrNotExistKey
  | ExternalErr nat
  | Panic

text \<open>A method of a component with state \<open>'s\<close>.\<close>

type_synonym ('s, 'a) go_meth = "'s \<Rightarrow> (err + 'a) \<times> 's"

text \<open>Reading a value that panics when absent.\<close>

definition orPanic :: "'a option \<Rightarrow> err + 'a" where
  "orPanic x = (case x of None \<Rightarrow> Inl Panic | Some v \<Rightarrow> Inr v)"

lemma orPanic_simps [simp]: "orPanic (Some v) = Inr v" "orPanic None = Inl Panic"
  by (simp_all add: orPanic_def)

text \<open>
  The shape every \<^verbatim>\<open>UnmarshalJSON\<close> of the repository has: strip the quotes, then parse.
\<close>

definition UnmarshalQuoted :: "err \<Rightarrow> (string \<Rightarrow> err + 'a) \<Rightarrow> string \<Rightarrow> err + 'a" where
  "UnmarshalQuoted e parse bs =
     (if length bs < 3 then Inl e
      else if bs ! 0 \<noteq> CHR 34 \<or> bs ! (length bs - 1) \<noteq> CHR 34 then Inl e
      else parse (slice 1 (length bs - 1) bs))"

definition MarshalQuoted :: "string \<Rightarrow> string" where
  "MarshalQuoted s = [CHR 34] @ s @ [CHR 34]"

lemma UnmarshalQuoted_Marshal [simp]:
  "s \<noteq> [] \<Longrightarrow> UnmarshalQuoted e parse (MarshalQuoted s) = parse s"
  by (cases s) (auto simp: UnmarshalQuoted_def MarshalQuoted_def slice_def nth_append)

end
