(* ===== verification/Hashing.thy ===== *)
theory Hashing
  imports Binutil Errors
begin

text \<open>
  \<^verbatim>\<open>common/hash\<close> and the level root of \<^verbatim>\<open>core/chain/util.go\<close>. The standard library's
  \<^verbatim>\<open>crypto/sha256\<close> is written out, so every hash of the development is a concrete
  executable function and no assumption about it is needed: a statement that would follow
  from collision resistance is given as ``the inputs agree, or two of the messages hashed on the
  way collide''.
\<close>

section \<open>SHA-256\<close>

definition rotr32 :: "nat \<Rightarrow> u32 \<Rightarrow> u32" where
  "rotr32 n x = drop_bit n x OR push_bit (32 - n) x"

text \<open>
  The constants of FIPS 180-4: the first 32 bits of the fractional parts of the cube roots of the
  first 64 primes, and of the square roots of the first eight. \<open>root_bits k n b r\<close> fixes the bits of
  the integer \<open>k\<close>-th root of \<open>n\<close> below \<open>2 ^ b\<close>, from the highest down.
\<close>

fun root_bits :: "nat \<Rightarrow> int \<Rightarrow> nat \<Rightarrow> int \<Rightarrow> int" where
  "root_bits k n 0 r = r"
| "root_bits k n (Suc b) r = root_bits k n b (if (r + 2 ^ b) ^ k \<le> n then r + 2 ^ b else r)"

definition sha_primes :: "nat list" where
  "sha_primes = filter (\<lambda>p. \<forall>d\<in>set [2..<p]. p mod d \<noteq> 0) [2..<312]"

definition sha_k :: "u32 list" where
  "sha_k = map (\<lambda>p. of_int (root_bits 3 (int p * 2 ^ 96) 36 0)) sha_primes"

type_synonym sha_state = "u32 \<times> u32 \<times> u32 \<times> u32 \<times> u32 \<times> u32 \<times> u32 \<times> u32"

definition sha_init :: sha_state where
  "sha_init =
     (case map (\<lambda>p. of_int (root_bits 2 (int p * 2 ^ 64) 36 0)) (take 8 sha_primes) of
        [a, b, c, d, e, f, g, h] \<Rightarrow> (a, b, c, d, e, f, g, h))"

definition sha_extend :: "nat \<Rightarrow> u32 list \<Rightarrow> u32 list" where
  "sha_extend t w =
     (let v1 = w ! (t - 2);
          t1 = rotr32 17 v1 XOR rotr32 19 v1 XOR drop_bit 10 v1;
          v2 = w ! (t - 15);
          t2 = rotr32 7 v2 XOR rotr32 18 v2 XOR drop_bit 3 v2
      in w @ [t1 + w ! (t - 7) + t2 + w ! (t - 16)])"

definition sha_round :: "u32 \<times> u32 \<Rightarrow> sha_state \<Rightarrow> sha_state" where
  "sha_round kw st =
     (case kw of (k, w) \<Rightarrow> case st of (a, b, c, d, e, f, g, h) \<Rightarrow>
        (let t1 = h + (rotr32 6 e XOR rotr32 11 e XOR rotr32 25 e) + ((e AND f) XOR (NOT e AND g)) + k + w;
             t2 = (rotr32 2 a XOR rotr32 13 a XOR rotr32 22 a) + ((a AND b) XOR (a AND c) XOR (b AND c))
         in (t1 + t2, a, b, c, d + t1, e, f, g)))"

fun be_words :: "bytes \<Rightarrow> u32 list" where
  "be_words (a # b # c # d # bs) =
     (push_bit 24 (ucast a) OR push_bit 16 (ucast b) OR push_bit 8 (ucast c) OR ucast d) # be_words bs"
| "be_words _ = []"

definition sha_block :: "bytes \<Rightarrow> sha_state \<Rightarrow> sha_state" where
  "sha_block p st =
     (let w = fold sha_extend [16..<64] (be_words p)
      in case st of (h0, h1, h2, h3, h4, h5, h6, h7) \<Rightarrow>
         case fold sha_round (zip sha_k w) st of (a, b, c, d, e, f, g, h) \<Rightarrow>
           (h0 + a, h1 + b, h2 + c, h3 + d, h4 + e, h5 + f, h6 + g, h7 + h))"

fun sha_blocks :: "nat \<Rightarrow> bytes \<Rightarrow> sha_state \<Rightarrow> sha_state" where
  "sha_blocks 0 bs st = st"
| "sha_blocks (Suc n) bs st = sha_blocks n (drop 64 bs) (sha_block (take 64 bs) st)"

definition sha_pad :: "bytes \<Rightarrow> bytes" where
  "sha_pad bs = bs @ [0x80] @ zeros ((119 - length bs mod 64) mod 64)
     @ BE_Uint64ToBytes (of_nat (8 * length bs))"

definition sha256 :: "bytes \<Rightarrow> bytes" where
  "sha256 bs =
     (case sha_blocks (length (sha_pad bs) div 64) (sha_pad bs) sha_init of
        (a, b, c, d, e, f, g, h) \<Rightarrow> concat (map BE_Uint32ToBytes [a, b, c, d, e, f, g, h]))"

lemma length_sha256 [simp]: "length (sha256 bs) = 32"
  by (simp add: sha256_def split: prod.split)

text \<open>
  Collisions exist because SHA-256 maps infinitely many messages to finitely many digests, so a
  statement about them has to name the messages: \<open>sha256_collides A B\<close> says that a message of
  \<open>A\<close> and a different one of \<open>B\<close> have the same digest.
\<close>

definition sha256_collides :: "bytes list \<Rightarrow> bytes list \<Rightarrow> bool" where
  "sha256_collides A B \<longleftrightarrow> (\<exists>a\<in>set A. \<exists>b\<in>set B. a \<noteq> b \<and> sha256 a = sha256 b)"

lemma sha256_collides_mono:
  "sha256_collides A B \<Longrightarrow> set A \<subseteq> set A' \<Longrightarrow> set B \<subseteq> set B' \<Longrightarrow> sha256_collides A' B'"
  by (fastforce simp: sha256_collides_def)

section \<open>Hash256\<close>

type_synonym hash256 = bytes

definition Hash256Size :: nat where
  "Hash256Size = 32"

definition is_hash :: "hash256 \<Rightarrow> bool" where
  "is_hash h \<longleftrightarrow> length h = Hash256Size"

abbreviation EmptyHash :: hash256 where
  "EmptyHash \<equiv> zeros 32"

definition Hash :: "bytes \<Rightarrow> hash256" where
  "Hash data = go_copy (zeros Hash256Size) (sha256 data)"

definition DoubleHash :: "bytes \<Rightarrow> hash256" where
  "DoubleHash data = Hash (Hash data)"

text \<open>\<^verbatim>\<open>Hashes\<close>: one iteration of its loop over \<open>(data, idx)\<close>, then the whole function.
  \<^verbatim>\<open>make\<close> panics on the negative size of the empty argument list.\<close>

definition hashes_step :: "nat \<Rightarrow> nat \<times> hash256 \<Rightarrow> bytes \<times> nat \<Rightarrow> bytes \<times> nat" where
  "hashes_step n ih st =
     (case ih of (i, h) \<Rightarrow> case st of (data, idx) \<Rightarrow>
        let data = go_copy data h; idx = idx + Hash256Size
        in if i + 1 < n then (data[idx := 0x68], idx + 1) else (data, idx))"

definition Hashes :: "hash256 list \<Rightarrow> hash256 option" where
  "Hashes hs =
     (if hs = [] then None
      else Some (Hash (fst (fold (hashes_step (length hs)) (enumerate 0 hs)
             (zeros ((Hash256Size + 1) * length hs - 1), 0)))))"

lemma Hash_eq [simp]: "Hash data = sha256 data"
  by (simp add: Hash_def go_copy_def Hash256Size_def)

lemma is_hash_simps [simp]: "is_hash (Hash bs)" "is_hash (DoubleHash bs)" "is_hash EmptyHash"
  by (simp_all add: is_hash_def DoubleHash_def Hash256Size_def)

lemma is_hash_sha256 [simp]: "is_hash (sha256 bs)"
  by (simp add: is_hash_def Hash256Size_def)

lemma DoubleHash_inj:
  "DoubleHash x = DoubleHash y \<Longrightarrow> x = y \<or> sha256_collides [x, sha256 x] [y, sha256 y]"
  by (auto simp: DoubleHash_def sha256_collides_def)

section \<open>Hashes\<close>

lemma hashes_loop:
  assumes "\<forall>h\<in>set hs. length h = 32" and "i + length hs = n" and "hs \<noteq> []"
    and "32 \<le> length data" and "length data = 33 * n - 1" and "idx = 33 * i"
  shows "fst (fold (hashes_step n) (enumerate i hs) (data, idx)) =
    last hs @ drop 32 (fold (\<lambda>j d. d[33 * j + 32 := 0x68]) [i..<n - 1] data)"
  using assms
proof (induction hs arbitrary: i data idx)
  case Nil
  then show ?case by simp
next
  case (Cons h hs)
  let ?d = "(go_copy data h)[33 * i + 32 := 0x68]"
  have len: "length h = 32" using Cons.prems by simp
  have dd: "drop 32 (go_copy data h) = drop 32 data"
    using len Cons.prems(4) by (simp add: go_copy_def)
  show ?case
  proof (cases "hs = []")
    case True
    then show ?thesis
      using Cons.prems len by (simp add: hashes_step_def Hash256Size_def go_copy_def)
  next
    case False
    then have i: "i + 1 < n" using Cons.prems(2) by (cases hs) auto
    have step: "hashes_step n (i, h) (data, idx) = (?d, 33 * (i + 1))"
      using i Cons.prems(6) by (simp add: hashes_step_def Hash256Size_def Let_def)
    have upd: "drop 32 (fold (\<lambda>j d. d[33 * j + 32 := 0x68]) js a) =
        fold (\<lambda>j d. d[33 * j := 0x68]) js (drop 32 a)" for js and a :: bytes
      by (induction js arbitrary: a) (simp_all add: drop_update_swap)
    have "fst (fold (hashes_step n) (enumerate (Suc i) hs) (?d, 33 * (i + 1))) =
        last hs @ drop 32 (fold (\<lambda>j d. d[33 * j + 32 := 0x68]) [i + 1..<n - 1] ?d)"
      using Cons.IH[of "Suc i" ?d "33 * (i + 1)"] Cons.prems False by simp
    moreover have "[i..<n - 1] = i # [i + 1..<n - 1]"
      using i by (simp add: upt_conv_Cons)
    ultimately show ?thesis
      using False step upd dd by (simp add: drop_update_swap)
  qed
qed

lemma Hashes_eq:
  assumes "\<forall>h\<in>set hs. is_hash h" and "hs \<noteq> []"
  shows "Hashes hs = Some (Hash (last hs @ drop 32
    (fold (\<lambda>j d. d[33 * j + 32 := 0x68]) [0..<length hs - 1] (zeros (33 * length hs - 1)))))"
proof -
  have "32 \<le> 33 * length hs - 1" using assms(2) by (cases hs) auto
  then show ?thesis
    using hashes_loop[of hs 0 "length hs" "zeros (33 * length hs - 1)" 0] assms
    by (simp add: Hashes_def is_hash_def Hash256Size_def)
qed

text \<open>
  \<^verbatim>\<open>Hashes\<close> is documented as \<^verbatim>\<open>Hash(h1+'h'+...)\<close>, but every hash is copied to the start of
  the buffer: the result is determined by the number of hashes and the \<^emph>\<open>last\<close> of them alone.
\<close>

theorem Hashes_last_only:
  assumes "\<forall>h\<in>set (hs @ hs'). is_hash h" and "length hs = length hs'"
    and "hs \<noteq> []" and "last hs = last hs'"
  shows "Hashes hs = Hashes hs'"
proof -
  have "hs' \<noteq> []" using assms(2,3) by auto
  then show ?thesis using assms Hashes_eq[of hs] Hashes_eq[of hs'] by auto
qed

theorem Hashes_last_only_witness:
  "Hashes [replicate 32 1, replicate 32 9] = Hashes [replicate 32 2, replicate 32 9]"
  by (rule Hashes_last_only) (auto simp: is_hash_def Hash256Size_def)

section \<open>The level root\<close>

definition hashPerLevel :: nat where
  "hashPerLevel = 16"

definition levelHashAppender :: bytes where
  "levelHashAppender = str_bytes ''fletablockchain''"

text \<open>The bytes one round of the loop of \<^verbatim>\<open>hash16\<close> writes to the buffer.\<close>

definition hash16_chunk :: "hash256 list \<Rightarrow> nat \<Rightarrow> bytes" where
  "hash16_chunk hs i =
     (if i < length hs then hs ! i else EmptyHash) @
     (if i < length levelHashAppender then [levelHashAppender ! i] else [])"

definition hash16 :: "hash256 list \<Rightarrow> err + hash256" where
  "hash16 hs =
     (if hashPerLevel < length hs then Inl (ChainErr ErrExceedHashCount)
      else Inr (DoubleHash (concat (map (hash16_chunk hs) [0..<hashPerLevel]))))"

definition level_count :: "nat \<Rightarrow> nat" where
  "level_count n = (if n mod hashPerLevel \<noteq> 0 then n div hashPerLevel + 1 else n div hashPerLevel)"

definition level_slice :: "hash256 list \<Rightarrow> nat \<Rightarrow> hash256 list" where
  "level_slice hs i =
     (let to = (i + 1) * hashPerLevel;
          to = if length hs < to then length hs else to
      in slice (i * hashPerLevel) to hs)"

definition buildLevel :: "hash256 list \<Rightarrow> err + hash256 list" where
  "buildLevel hs = mapR (\<lambda>i. hash16 (level_slice hs i)) [0..<level_count (length hs)]"

definition BuildLevelRoot :: "hash256 list \<Rightarrow> err + hash256" where
  "BuildLevelRoot hs =
     (if 65536 < length hs then Inl (ChainErr ErrExceedHashCount)
      else if length hs = 0 then Inl (ChainErr ErrInvalidHashCount)
      else case buildLevel hs of Inl e \<Rightarrow> Inl e | Inr lv3 \<Rightarrow>
        (case buildLevel lv3 of Inl e \<Rightarrow> Inl e | Inr lv2 \<Rightarrow>
          (case buildLevel lv2 of Inl e \<Rightarrow> Inl e | Inr lv1 \<Rightarrow> hash16 lv1)))"

definition hash16_buf :: "hash256 list \<Rightarrow> bytes" where
  "hash16_buf hs = concat (map (hash16_chunk hs) [0..<hashPerLevel])"

lemma length_hash16_chunk:
  "\<forall>h\<in>set hs. is_hash h \<Longrightarrow> length (hash16_chunk hs i) = (if i < 15 then 33 else 32)"
  by (auto simp: hash16_chunk_def is_hash_def Hash256Size_def levelHashAppender_def)

lemma hash16_buf_inj:
  assumes "\<forall>h\<in>set (xs @ ys). is_hash h" and "length xs = length ys" and "length xs \<le> 16"
    and "hash16_buf xs = hash16_buf ys"
  shows "xs = ys"
proof -
  have "map (hash16_chunk xs) [0..<16] = map (hash16_chunk ys) [0..<16]"
    using assms(4) unfolding hash16_buf_def hashPerLevel_def
    by (subst (asm) concat_eq_concat_iff)
       (use assms(1) in \<open>auto simp: zip_map_map zip_same_conv_map length_hash16_chunk\<close>)
  then have c: "hash16_chunk xs i = hash16_chunk ys i" if "i < 16" for i
    using that by (simp add: list_eq_iff_nth_eq)
  show ?thesis
  proof (rule nth_equalityI[OF assms(2)])
    fix i assume i: "i < length xs"
    then have "length (xs ! i) = 32" "length (ys ! i) = 32"
      using assms(1,2) by (auto simp: is_hash_def Hash256Size_def)
    then show "xs ! i = ys ! i"
      using c[of i] i assms(2,3) by (auto simp: hash16_chunk_def split: if_splits)
  qed
qed

lemma level_slice_eq: "level_slice hs i = take 16 (drop (16 * i) hs)"
  by (auto simp: level_slice_def slice_def hashPerLevel_def Let_def mult.commute)

lemma buildLevel_eq:
  "buildLevel hs = Inr (map (\<lambda>i. DoubleHash (hash16_buf (level_slice hs i))) [0..<level_count (length hs)])"
  unfolding buildLevel_def
  by (rule mapR_Inr) (auto simp: hash16_def hash16_buf_def level_slice_eq hashPerLevel_def)

lemma level_slices_inj:
  assumes "length xs = length ys"
    and "\<And>i. i < level_count (length xs) \<Longrightarrow> level_slice xs i = level_slice ys i"
  shows "xs = ys"
proof (rule nth_equalityI[OF assms(1)])
  fix i assume i: "i < length xs"
  have "i div 16 < level_count (length xs)"
    using i by (auto simp: level_count_def hashPerLevel_def)
  then have "level_slice xs (i div 16) ! (i mod 16) = level_slice ys (i div 16) ! (i mod 16)"
    using assms(2) by simp
  moreover have "16 * (i div 16) + i mod 16 = i" by simp
  ultimately show "xs ! i = ys ! i"
    using i assms(1) by (simp add: level_slice_eq)
qed

text \<open>The messages that SHA-256 is applied to while one level, and the whole root, is computed.\<close>

definition level_msgs :: "hash256 list \<Rightarrow> bytes list" where
  "level_msgs hs =
     concat (map (\<lambda>i. [hash16_buf (level_slice hs i), sha256 (hash16_buf (level_slice hs i))])
       [0..<level_count (length hs)])"

definition root_msgs :: "hash256 list \<Rightarrow> bytes list" where
  "root_msgs hs =
     (case buildLevel hs of Inl _ \<Rightarrow> [] | Inr lv3 \<Rightarrow>
       (case buildLevel lv3 of Inl _ \<Rightarrow> [] | Inr lv2 \<Rightarrow>
         (case buildLevel lv2 of Inl _ \<Rightarrow> [] | Inr lv1 \<Rightarrow>
           level_msgs hs @ level_msgs lv3 @ level_msgs lv2 @ [hash16_buf lv1, sha256 (hash16_buf lv1)])))"

lemma buildLevel_inj:
  assumes "\<forall>h\<in>set (xs @ ys). is_hash h" and "length xs = length ys"
    and "buildLevel xs = buildLevel ys"
  shows "xs = ys \<or> sha256_collides (level_msgs xs) (level_msgs ys)"
proof (cases "sha256_collides (level_msgs xs) (level_msgs ys)")
  case False
  have "level_slice xs i = level_slice ys i" if i: "i < level_count (length xs)" for i
  proof -
    have "DoubleHash (hash16_buf (level_slice xs i)) = DoubleHash (hash16_buf (level_slice ys i))"
      using assms(2,3) i by (simp add: buildLevel_eq list_eq_iff_nth_eq)
    moreover have "\<not> sha256_collides [hash16_buf (level_slice xs i), sha256 (hash16_buf (level_slice xs i))]
        [hash16_buf (level_slice ys i), sha256 (hash16_buf (level_slice ys i))]"
      using i assms(2) by (intro contrapos_nn[OF False sha256_collides_mono])
        (auto simp: level_msgs_def)
    ultimately have "hash16_buf (level_slice xs i) = hash16_buf (level_slice ys i)"
      using DoubleHash_inj by blast
    then show ?thesis
      by (rule hash16_buf_inj[rotated 3])
         (use assms(1,2) in \<open>auto simp: level_slice_eq dest!: in_set_takeD in_set_dropD\<close>)
  qed
  then show ?thesis using level_slices_inj[OF assms(2)] by blast
qed simp

lemma buildLevel_hashes: "buildLevel xs = Inr ys \<Longrightarrow> \<forall>h\<in>set ys. is_hash h"
  by (auto simp: buildLevel_eq)

lemma buildLevel_total: "\<exists>ys. buildLevel xs = Inr ys \<and> length ys = level_count (length xs)"
  by (simp add: buildLevel_eq)

lemma level_count_le:
  assumes "n \<le> 16 * k"
  shows "level_count n \<le> k"
proof -
  have "16 * (n div 16) + n mod 16 = n" by simp
  then have "n mod 16 \<noteq> 0 \<longrightarrow> n div 16 < k" and "n div 16 \<le> k"
    using assms by linarith+
  then show ?thesis by (simp add: level_count_def hashPerLevel_def Suc_le_eq)
qed

lemma BuildLevelRoot_levels:
  assumes "0 < length xs" and "length xs \<le> 65536"
  obtains l3 l2 l1 where "buildLevel xs = Inr l3" and "buildLevel l3 = Inr l2"
    and "buildLevel l2 = Inr l1" and "length l3 = level_count (length xs)"
    and "length l2 = level_count (length l3)" and "length l1 = level_count (length l2)"
    and "length l1 \<le> 16" and "BuildLevelRoot xs = Inr (DoubleHash (hash16_buf l1))"
proof -
  obtain l3 where 3: "buildLevel xs = Inr l3" "length l3 = level_count (length xs)"
    using buildLevel_total by blast
  obtain l2 where 2: "buildLevel l3 = Inr l2" "length l2 = level_count (length l3)"
    using buildLevel_total by blast
  obtain l1 where 1: "buildLevel l2 = Inr l1" "length l1 = level_count (length l2)"
    using buildLevel_total by blast
  have "length l3 \<le> 4096" using assms(2) level_count_le[of _ 4096] 3 by simp
  then have "length l2 \<le> 256" using level_count_le[of _ 256] 2 by simp
  then have len: "length l1 \<le> 16" using level_count_le[of _ 16] 1 by simp
  then have "BuildLevelRoot xs = Inr (DoubleHash (hash16_buf l1))"
    using 1 2 3 assms by (simp add: BuildLevelRoot_def hash16_def hashPerLevel_def hash16_buf_def)
  then show thesis using that[OF 3(1) 2(1) 1(1) 3(2) 2(2) 1(2) len] by blast
qed

lemma BuildLevelRoot_inj:
  assumes "\<forall>h\<in>set (xs @ ys). is_hash h" and "length xs = length ys"
    and "0 < length xs" and "length xs \<le> 65536"
    and "\<not> sha256_collides (root_msgs xs) (root_msgs ys)"
    and "BuildLevelRoot xs = BuildLevelRoot ys"
  shows "xs = ys"
proof -
  obtain l3 l2 l1 where l: "buildLevel xs = Inr l3" "buildLevel l3 = Inr l2" "buildLevel l2 = Inr l1"
      "length l3 = level_count (length xs)" "length l2 = level_count (length l3)"
      "length l1 = level_count (length l2)" "length l1 \<le> 16"
      "BuildLevelRoot xs = Inr (DoubleHash (hash16_buf l1))"
    using BuildLevelRoot_levels[OF assms(3,4)] .
  have ys: "0 < length ys" "length ys \<le> 65536" using assms(2-4) by auto
  obtain m3 m2 m1 where m: "buildLevel ys = Inr m3" "buildLevel m3 = Inr m2" "buildLevel m2 = Inr m1"
      "length m3 = level_count (length ys)" "length m2 = level_count (length m3)"
      "length m1 = level_count (length m2)" "length m1 \<le> 16"
      "BuildLevelRoot ys = Inr (DoubleHash (hash16_buf m1))"
    using BuildLevelRoot_levels[OF ys] .
  have root: "root_msgs xs = level_msgs xs @ level_msgs l3 @ level_msgs l2 @ [hash16_buf l1, sha256 (hash16_buf l1)]"
      "root_msgs ys = level_msgs ys @ level_msgs m3 @ level_msgs m2 @ [hash16_buf m1, sha256 (hash16_buf m1)]"
    by (simp_all add: root_msgs_def l(1-3) m(1-3))
  have free: "\<not> sha256_collides (level_msgs xs) (level_msgs ys)"
      "\<not> sha256_collides (level_msgs l3) (level_msgs m3)" "\<not> sha256_collides (level_msgs l2) (level_msgs m2)"
      "\<not> sha256_collides [hash16_buf l1, sha256 (hash16_buf l1)] [hash16_buf m1, sha256 (hash16_buf m1)]"
    using assms(5) unfolding root sha256_collides_def set_append by (blast, blast, blast, blast)
  have len: "length l3 = length m3" "length l2 = length m2" "length l1 = length m1"
    using l(4-6) m(4-6) assms(2) by simp_all
  have hashes: "\<forall>h\<in>set (l1 @ m1). is_hash h" "\<forall>h\<in>set (l2 @ m2). is_hash h"
      "\<forall>h\<in>set (l3 @ m3). is_hash h"
    using buildLevel_hashes[OF l(1)] buildLevel_hashes[OF l(2)] buildLevel_hashes[OF l(3)]
      buildLevel_hashes[OF m(1)] buildLevel_hashes[OF m(2)] buildLevel_hashes[OF m(3)]
    by (simp_all add: ball_Un)
  have "DoubleHash (hash16_buf l1) = DoubleHash (hash16_buf m1)"
    using assms(6) unfolding l(8) m(8) by (rule sum.inject(2)[THEN iffD1])
  then have "hash16_buf l1 = hash16_buf m1"
    using DoubleHash_inj free(4) by blast
  then have "l1 = m1"
    by (rule hash16_buf_inj[OF hashes(1) len(3) l(7)])
  then have "buildLevel l2 = buildLevel m2" unfolding l(3) m(3) by (rule arg_cong)
  then have "l2 = m2" using buildLevel_inj[OF hashes(2) len(2)] free(3) by blast
  then have "buildLevel l3 = buildLevel m3" unfolding l(2) m(2) by (rule arg_cong)
  then have "l3 = m3" using buildLevel_inj[OF hashes(3) len(1)] free(2) by blast
  then have "buildLevel xs = buildLevel ys" unfolding l(1) m(1) by (rule arg_cong)
  then show ?thesis using buildLevel_inj[OF assms(1,2)] free(1) by blast
qed

text \<open>
  C2: the level root that a block header carries binds the transaction list: two lists of the same
  length (1 to 65536 hashes) have the same root exactly if they are equal, unless two different
  messages hashed on the way to the two roots collide.
\<close>

theorem BuildLevelRoot_binds:
  assumes "\<forall>h\<in>set (xs @ ys). is_hash h" and "length xs = length ys"
    and "0 < length xs" and "length xs \<le> 65536"
  shows "((BuildLevelRoot xs = BuildLevelRoot ys) = (xs = ys)) \<or> sha256_collides (root_msgs xs) (root_msgs ys)"
  using BuildLevelRoot_inj[OF assms] by blast

theorem BuildLevelRoot_binds_witness:
  "((BuildLevelRoot [replicate 32 7, replicate 32 8] = BuildLevelRoot [replicate 32 8, replicate 32 7])
      = ([replicate 32 7, replicate 32 8] = [replicate 32 8, replicate 32 (7 :: u8)]))
    \<or> sha256_collides (root_msgs [replicate 32 7, replicate 32 8]) (root_msgs [replicate 32 8, replicate 32 7])"
  by (rule BuildLevelRoot_binds) (simp_all add: is_hash_def Hash256Size_def)

text \<open>
  \<^verbatim>\<open>BuildLevelRoot\<close> fails exactly on the empty list and on more than 65536 hashes, with the
  matching error; none of the errors of the inner levels can occur.
\<close>

theorem BuildLevelRoot_errors:
  "BuildLevelRoot xs = Inl e \<longleftrightarrow>
     (65536 < length xs \<and> e = ChainErr ErrExceedHashCount) \<or>
     (xs = [] \<and> e = ChainErr ErrInvalidHashCount)"
proof (cases "0 < length xs \<and> length xs \<le> 65536")
  case True
  then obtain h where "BuildLevelRoot xs = Inr h"
    using BuildLevelRoot_levels[of xs] by blast
  with True show ?thesis by auto
next
  case False
  then show ?thesis by (auto simp: BuildLevelRoot_def)
qed

end
