(* ===== verification/Ordered_Map.thy ===== *)
theory Ordered_Map
  imports Prelude
begin

text \<open>
  The typed maps of \<^verbatim>\<open>core/types/map_*.go\<close>. Each wraps a left-leaning red-black tree of
  the package GoLLRB and uses six of its operations: \<^verbatim>\<open>New\<close>, \<^verbatim>\<open>Get\<close>,
  \<^verbatim>\<open>ReplaceOrInsert\<close>, \<^verbatim>\<open>Delete\<close>, \<^verbatim>\<open>Len\<close> and \<^verbatim>\<open>AscendRange\<close> between the two
  infinities. The locale \<open>llrb_map\<close> states the documented behaviour of these operations. Its
  lemma \<open>ascend_unique\<close> shows that the contract leaves no freedom in what a client can
  observe: two maps with the same lookups are iterated in the same order. The development
  therefore computes with one instance of the contract, the association list sorted by key,
  and the interpretation at the end discharges the contract for it.
\<close>

section \<open>The contract\<close>

locale llrb_map =
  fixes empty :: "'m"
    and get :: "'m \<Rightarrow> 'k::linorder \<Rightarrow> 'v option"
    and insert :: "'k \<Rightarrow> 'v \<Rightarrow> 'm \<Rightarrow> 'm"
    and delete :: "'k \<Rightarrow> 'm \<Rightarrow> 'm"
    and ascend :: "'m \<Rightarrow> ('k \<times> 'v) list"
    and len :: "'m \<Rightarrow> nat"
    and inv :: "'m \<Rightarrow> bool"
  assumes get_empty: "get empty k = None"
    and get_insert: "inv m \<Longrightarrow> get (insert k v m) k' = (if k' = k then Some v else get m k')"
    and get_delete: "inv m \<Longrightarrow> get (delete k m) k' = (if k' = k then None else get m k')"
    and ascend_sorted: "inv m \<Longrightarrow> sorted_wrt (<) (map fst (ascend m))"
    and ascend_get: "inv m \<Longrightarrow> map_of (ascend m) k = get m k"
    and len_ascend: "inv m \<Longrightarrow> len m = length (ascend m)"
    and inv_empty: "inv empty"
    and inv_insert: "inv m \<Longrightarrow> inv (insert k v m)"
    and inv_delete: "inv m \<Longrightarrow> inv (delete k m)"
begin

lemma sorted_keys_map_of_unique:
  fixes xs ys :: "('k \<times> 'v) list"
  assumes "sorted_wrt (<) (map fst xs)" and "sorted_wrt (<) (map fst ys)"
    and "map_of xs = map_of ys"
  shows "xs = ys"
proof -
  have dx: "distinct (map fst xs)" and dy: "distinct (map fst ys)"
    using assms(1,2) by (auto simp: strict_sorted_iff)
  have "set (map fst xs) = set (map fst ys)"
    using assms(3) by (metis dom_map_of_conv_image_fst list.set_map)
  then have keys: "map fst xs = map fst ys"
    using assms(1,2) dx dy by (metis sorted_distinct_set_unique strict_sorted_imp_sorted)
  moreover have "map snd xs = map snd ys"
  proof (rule nth_equalityI)
    show len: "length (map snd xs) = length (map snd ys)"
      using arg_cong[OF keys, of length] by simp
    fix i assume "i < length (map snd xs)"
    then have i: "i < length xs" "i < length ys" using len by auto
    have "map_of xs (fst (xs ! i)) = Some (snd (xs ! i))"
      using dx i(1) by (simp add: map_of_eq_Some_iff)
    moreover have "map_of ys (fst (ys ! i)) = Some (snd (ys ! i))"
      using dy i(2) by (simp add: map_of_eq_Some_iff)
    moreover have "fst (xs ! i) = fst (ys ! i)"
      using keys i by (metis nth_map)
    ultimately show "map snd xs ! i = map snd ys ! i"
      using assms(3) i by simp
  qed
  ultimately show ?thesis by (metis zip_map_fst_snd)
qed

lemma ascend_unique:
  "inv m \<Longrightarrow> sorted_wrt (<) (map fst xs) \<Longrightarrow> map_of xs = get m \<Longrightarrow> ascend m = xs"
  using sorted_keys_map_of_unique[OF ascend_sorted] ascend_get by (metis ext)

lemma ascend_distinct: "inv m \<Longrightarrow> distinct (map fst (ascend m))"
  using ascend_sorted by (simp add: strict_sorted_iff)

lemma inv_fold_insert: "inv m \<Longrightarrow> inv (fold (\<lambda>(k, v). insert k v) xs m)"
  by (induction xs arbitrary: m) (auto simp: inv_insert)

lemma inv_fold_delete: "inv m \<Longrightarrow> inv (fold (\<lambda>(k, v). delete k) xs m)"
  by (induction xs arbitrary: m) (auto simp: inv_delete)

text \<open>\<^verbatim>\<open>src.EachAll(func(k, v) { dst.Put(k, v) })\<close>.\<close>

lemma get_fold_insert:
  "inv m \<Longrightarrow> distinct (map fst xs) \<Longrightarrow>
   get (fold (\<lambda>(k, v). insert k v) xs m) k =
     (case map_of xs k of Some v \<Rightarrow> Some v | None \<Rightarrow> get m k)"
proof (induction xs arbitrary: m)
  case Nil
  then show ?case by simp
next
  case (Cons x xs)
  obtain a b where x: "x = (a, b)" by force
  have "map_of xs a = None"
    using Cons.prems(2) x by (simp add: map_of_eq_None_iff)
  then show ?case
    using Cons x by (auto simp: inv_insert get_insert split: option.split)
qed

text \<open>\<^verbatim>\<open>src.EachAll(func(k, _) { dst.Delete(k) })\<close>.\<close>

lemma get_fold_delete:
  "inv m \<Longrightarrow>
   get (fold (\<lambda>(k, v). delete k) xs m) k = (if k \<in> fst ` set xs then None else get m k)"
proof (induction xs arbitrary: m)
  case Nil
  then show ?case by simp
next
  case (Cons x xs)
  then show ?case by (cases x) (auto simp: inv_delete get_delete)
qed

end

section \<open>Sorted association lists\<close>

type_synonym ('k, 'v) omap = "('k \<times> 'v) list"

definition om_get :: "('k, 'v) omap \<Rightarrow> 'k \<Rightarrow> 'v option" where
  "om_get m k = map_of m k"

definition om_has :: "('k, 'v) omap \<Rightarrow> 'k \<Rightarrow> bool" where
  "om_has m k = (om_get m k \<noteq> None)"

fun om_put :: "'k::linorder \<Rightarrow> 'v \<Rightarrow> ('k, 'v) omap \<Rightarrow> ('k, 'v) omap" where
  "om_put k v [] = [(k, v)]"
| "om_put k v ((a, b) # m) =
     (if k < a then (k, v) # (a, b) # m
      else if k = a then (k, v) # m
      else (a, b) # om_put k v m)"

definition om_delete :: "'k \<Rightarrow> ('k, 'v) omap \<Rightarrow> ('k, 'v) omap" where
  "om_delete k m = filter (\<lambda>(a, b). a \<noteq> k) m"

definition om_each :: "('k, 'v) omap \<Rightarrow> ('k \<times> 'v) list" where
  "om_each m = m"

definition om_len :: "('k, 'v) omap \<Rightarrow> nat" where
  "om_len m = length m"

definition om_inv :: "('k::linorder, 'v) omap \<Rightarrow> bool" where
  "om_inv m = sorted_wrt (<) (map fst m)"

lemma om_get_put [simp]: "om_get (om_put k v m) k' = (if k' = k then Some v else om_get m k')"
  by (induction k v m rule: om_put.induct) (auto simp: om_get_def)

lemma om_get_delete [simp]: "om_get (om_delete k m) k' = (if k' = k then None else om_get m k')"
  by (induction m) (auto simp: om_get_def om_delete_def)

lemma om_get_empty [simp]: "om_get [] k = None"
  by (simp add: om_get_def)

lemma om_has_simps [simp]:
  "om_has [] k = False"
  "om_has (om_put k v m) k' = (k' = k \<or> om_has m k')"
  "om_has (om_delete k m) k' = (k' \<noteq> k \<and> om_has m k')"
  by (auto simp: om_has_def)

lemma set_om_put: "fst ` set (om_put k v m) = Set.insert k (fst ` set m)"
  by (induction k v m rule: om_put.induct) auto

lemma om_inv_put [simp]: "om_inv m \<Longrightarrow> om_inv (om_put k v m)"
proof (induction k v m rule: om_put.induct)
  case (1 k v)
  then show ?case by (simp add: om_inv_def)
next
  case (2 k v a b m)
  then show ?case
    using set_om_put[of k v m] by (fastforce simp: om_inv_def)
qed

lemma om_inv_delete [simp]: "om_inv m \<Longrightarrow> om_inv (om_delete k m)"
  by (induction m) (auto simp: om_inv_def om_delete_def)

lemma om_inv_empty [simp]: "om_inv []"
  by (simp add: om_inv_def)

interpretation om: llrb_map "[]" om_get om_put om_delete om_each om_len om_inv
  by unfold_locales (auto simp: om_each_def om_get_def[symmetric] om_len_def om_inv_def[symmetric])

lemma om_has_map_of: "om_has m k \<longleftrightarrow> k \<in> fst ` set m"
  by (simp add: om_has_def om_get_def map_of_eq_None_iff)

text \<open>Instances of the two iteration lemmas in the form the clients use.\<close>

definition om_putAll :: "('k::linorder, 'v) omap \<Rightarrow> ('k, 'v) omap \<Rightarrow> ('k, 'v) omap" where
  "om_putAll src dst = fold (\<lambda>(k, v). om_put k v) (om_each src) dst"

definition om_deleteAll :: "('k::linorder, 'w) omap \<Rightarrow> ('k, 'v) omap \<Rightarrow> ('k, 'v) omap" where
  "om_deleteAll src dst = fold (\<lambda>(k, v). om_delete k) (om_each src) dst"

lemma om_get_putAll [simp]:
  "om_inv src \<Longrightarrow> om_inv dst \<Longrightarrow>
   om_get (om_putAll src dst) k = (case om_get src k of Some v \<Rightarrow> Some v | None \<Rightarrow> om_get dst k)"
  unfolding om_putAll_def
  by (simp add: om.get_fold_insert om.ascend_distinct om.ascend_get)

lemma om_inv_putAll [simp]: "om_inv dst \<Longrightarrow> om_inv (om_putAll src dst)"
  unfolding om_putAll_def by (rule om.inv_fold_insert)

lemma om_deleteAll_filter: "om_deleteAll src dst = filter (\<lambda>(k, v). \<not> om_has src k) dst"
proof (induction src arbitrary: dst)
  case Nil
  then show ?case by (simp add: om_deleteAll_def om_each_def)
next
  case (Cons x src)
  then show ?case
    by (cases x) (auto simp: om_deleteAll_def om_each_def om_delete_def om_has_map_of
        intro!: filter_cong)
qed

lemma om_get_filter_key:
  "om_get (filter (\<lambda>(k, v). P k) m) k = (if P k then om_get m k else None)"
  by (induction m) (auto simp: om_get_def)

lemma om_get_deleteAll [simp]:
  "om_get (om_deleteAll src dst) k = (if om_has src k then None else om_get dst k)"
  by (simp add: om_deleteAll_filter om_get_filter_key)

lemma om_inv_filter: "om_inv m \<Longrightarrow> om_inv (filter P m)"
  by (induction m) (auto simp: om_inv_def)

lemma om_inv_deleteAll [simp]: "om_inv dst \<Longrightarrow> om_inv (om_deleteAll src dst)"
  by (simp add: om_deleteAll_filter om_inv_filter)

lemma om_has_putAll [simp]:
  "om_inv src \<Longrightarrow> om_inv dst \<Longrightarrow> om_has (om_putAll src dst) k \<longleftrightarrow> om_has src k \<or> om_has dst k"
  by (auto simp: om_has_def split: option.splits)

lemma om_has_deleteAll [simp]:
  "om_has (om_deleteAll src dst) k \<longleftrightarrow> \<not> om_has src k \<and> om_has dst k"
  by (simp add: om_has_def)

text \<open>A put of the value already stored changes nothing; lookups determine the map.\<close>

lemma om_eqI:
  assumes "om_inv a" and "om_inv b" and "\<And>k. om_get a k = om_get b k"
  shows "a = b"
proof -
  have "map_of a = map_of b"
    using assms(3) by (auto simp: om_get_def)
  with assms(1,2) show ?thesis
    using om.sorted_keys_map_of_unique by (auto simp: om_inv_def)
qed

end
