(* ===== verification/Linked_Queue.thy ===== *)
theory Linked_Queue
  imports Hashing Ordered_Map
begin

text \<open>
  \<^verbatim>\<open>common/queue/linked.go\<close>: a doubly linked list with a map from keys to its nodes, on an
  explicit heap. Pointers are addresses, \<^term>\<open>None\<close> is \<^verbatim>\<open>nil\<close>; an operation that would
  dereference \<^verbatim>\<open>nil\<close> has the result \<^term>\<open>None\<close>. The heap operations are shown to refine a pair
  of association lists: the live items in order, and the items that were removed by key but
  are still known to the key map.
\<close>

section \<open>Model\<close>

record 'a linkedItem =
  li_Prev :: "nat option"
  li_Key :: hash256
  li_Item :: 'a
  li_Next :: "nat option"

type_synonym 'a lheap = "nat \<Rightarrow> 'a linkedItem option"

record 'a linked_queue =
  lq_heap :: "'a lheap"
  lq_new :: nat
  lq_Head :: "nat option"
  lq_Tail :: "nat option"
  lq_keyMap :: "(hash256, nat) omap"

definition NewLinkedQueue :: "'a linked_queue" where
  "NewLinkedQueue = \<lparr>lq_heap = (\<lambda>_. None), lq_new = 0, lq_Head = None, lq_Tail = None, lq_keyMap = []\<rparr>"

definition lq_Size :: "'a linked_queue \<Rightarrow> nat" where
  "lq_Size q = om_len (lq_keyMap q)"

definition lq_Has :: "hash256 \<Rightarrow> 'a linked_queue \<Rightarrow> bool" where
  "lq_Has Key q = om_has (lq_keyMap q) Key"

text \<open>Field assignments \<^verbatim>\<open>p.Prev = v\<close> and \<^verbatim>\<open>p.Next = v\<close>.\<close>

definition set_Prev :: "nat \<Rightarrow> nat option \<Rightarrow> 'a lheap \<Rightarrow> 'a lheap" where
  "set_Prev p v h = h(p := map_option (\<lambda>nd. nd\<lparr>li_Prev := v\<rparr>) (h p))"

definition set_Next :: "nat \<Rightarrow> nat option \<Rightarrow> 'a lheap \<Rightarrow> 'a lheap" where
  "set_Next p v h = h(p := map_option (\<lambda>nd. nd\<lparr>li_Next := v\<rparr>) (h p))"

definition lq_Push :: "hash256 \<Rightarrow> 'a \<Rightarrow> 'a linked_queue \<Rightarrow> (bool \<times> 'a linked_queue) option" where
  "lq_Push Key item q =
     (if om_has (lq_keyMap q) Key then Some (False, q)
      else
        let nd = lq_new q;
            h = (lq_heap q)(nd \<mapsto> \<lparr>li_Prev = None, li_Key = Key, li_Item = item, li_Next = None\<rparr>);
            km = om_put Key nd (lq_keyMap q)
        in case lq_Head q of
             None \<Rightarrow>
               Some (True, \<lparr>lq_heap = h, lq_new = nd + 1, lq_Head = Some nd, lq_Tail = Some nd, lq_keyMap = km\<rparr>)
           | Some _ \<Rightarrow>
               (case lq_Tail q of
                  None \<Rightarrow> None
                | Some t \<Rightarrow>
                    Some (True, \<lparr>lq_heap = set_Next t (Some nd) (set_Prev nd (Some t) h),
                      lq_new = nd + 1, lq_Head = lq_Head q, lq_Tail = Some nd, lq_keyMap = km\<rparr>)))"

definition lq_Pop :: "'a linked_queue \<Rightarrow> ('a option \<times> 'a linked_queue) option" where
  "lq_Pop q =
     (case lq_Head q of
        None \<Rightarrow> Some (None, q)
      | Some n \<Rightarrow>
          (case lq_heap q n of
             None \<Rightarrow> None
           | Some nd \<Rightarrow>
               let finish = (\<lambda>q'. Some (Some (li_Item nd),
                     q'\<lparr>lq_heap := set_Next n None (set_Prev n None (lq_heap q')),
                        lq_keyMap := om_delete (li_Key nd) (lq_keyMap q')\<rparr>))
               in if lq_Tail q = Some n
                  then finish (q\<lparr>lq_Head := None, lq_Tail := None\<rparr>)
                  else case li_Next nd of
                         None \<Rightarrow> None
                       | Some m \<Rightarrow> finish (q\<lparr>lq_Head := Some m, lq_heap := set_Prev m None (lq_heap q)\<rparr>)))"

definition lq_Remove :: "hash256 \<Rightarrow> 'a linked_queue \<Rightarrow> ('a option \<times> 'a linked_queue) option" where
  "lq_Remove Key q =
     (if lq_Head q = None then Some (None, q)
      else case om_get (lq_keyMap q) Key of
        None \<Rightarrow> Some (None, q)
      | Some n \<Rightarrow>
          (case lq_heap q n of
             None \<Rightarrow> None
           | Some nd \<Rightarrow>
               let nxt = li_Next nd; prv = li_Prev nd; h = lq_heap q;
                   h = (case nxt of None \<Rightarrow> h | Some m \<Rightarrow> set_Prev m prv h);
                   h = (case prv of None \<Rightarrow> h | Some l \<Rightarrow> set_Next l nxt h);
                   head = (if lq_Head q = Some n then nxt else lq_Head q);
                   h = (if lq_Head q = Some n
                        then case head of None \<Rightarrow> h | Some m \<Rightarrow> set_Prev m None h else h);
                   tail = (if lq_Tail q = Some n then prv else lq_Tail q);
                   h = (if lq_Tail q = Some n
                        then case tail of None \<Rightarrow> h | Some l \<Rightarrow> set_Next l None h else h)
               in Some (Some (li_Item nd),
                    q\<lparr>lq_heap := set_Next n None (set_Prev n None h), lq_Head := head, lq_Tail := tail\<rparr>)))"

text \<open>\<^verbatim>\<open>Iter\<close> follows the \<^verbatim>\<open>Next\<close> pointers; on a cyclic list it would not return.\<close>

partial_function (option) lq_walk :: "'a lheap \<Rightarrow> nat option \<Rightarrow> (hash256 \<times> 'a) list option" where
  "lq_walk h cur =
     (case cur of
        None \<Rightarrow> Some []
      | Some n \<Rightarrow>
          (case h n of
             None \<Rightarrow> None
           | Some nd \<Rightarrow>
               Option.bind (lq_walk h (li_Next nd)) (\<lambda>rest. Some ((li_Key nd, li_Item nd) # rest))))"

definition lq_Iter :: "'a linked_queue \<Rightarrow> (hash256 \<times> 'a) list option" where
  "lq_Iter q = lq_walk (lq_heap q) (lq_Head q)"

section \<open>Linked segments\<close>

fun dll :: "'a lheap \<Rightarrow> nat option \<Rightarrow> nat list \<Rightarrow> nat option \<Rightarrow> bool" where
  "dll h p [] nx = True"
| "dll h p (n # ns) nx =
     (\<exists>nd. h n = Some nd \<and> li_Prev nd = p \<and>
        li_Next nd = (if ns = [] then nx else Some (hd ns)) \<and> dll h (Some n) ns nx)"

lemma dll_append:
  "dll h p (xs @ ys) nx \<longleftrightarrow>
     dll h p xs (if ys = [] then nx else Some (hd ys)) \<and>
     dll h (if xs = [] then p else Some (last xs)) ys nx"
  by (induction xs arbitrary: p) (auto simp: hd_append)

lemma dll_frame: "(\<And>n. n \<in> set ns \<Longrightarrow> h' n = h n) \<Longrightarrow> dll h' p ns nx = dll h p ns nx"
  by (induction ns arbitrary: p) auto

lemma dll_alloc: "dll h p ns nx \<Longrightarrow> n \<in> set ns \<Longrightarrow> \<exists>nd. h n = Some nd"
  by (induction ns arbitrary: p) auto

lemma dll_set_Next_last:
  assumes "dll h p ns nx" and "distinct ns" and "ns \<noteq> []"
  shows "dll (set_Next (last ns) nx' h) p ns nx'"
proof -
  have s: "ns = butlast ns @ [last ns]" using assms(3) by simp
  have "last ns \<notin> set (butlast ns)" using assms(2) s by (metis distinct.simps(2) distinct_append
        disjoint_insert(1) list.simps(15))
  then have "dll (set_Next (last ns) nx' h) p (butlast ns) (Some (last ns)) =
      dll h p (butlast ns) (Some (last ns))"
    by (intro dll_frame) (auto simp: set_Next_def)
  then show ?thesis
    using assms(1) by (subst s, subst (asm) s) (auto simp: dll_append set_Next_def)
qed

lemma dll_set_Prev_first:
  assumes "dll h p ns nx" and "distinct ns" and "ns \<noteq> []"
  shows "dll (set_Prev (hd ns) p' h) p' ns nx"
proof -
  obtain n r where ns: "ns = n # r" using assms(3) by (cases ns) auto
  then have "dll (set_Prev n p' h) (Some n) r nx = dll h (Some n) r nx"
    using assms(2) by (intro dll_frame) (auto simp: set_Prev_def)
  then show ?thesis using assms(1) ns by (auto simp: set_Prev_def)
qed

lemma lq_walk_dll:
  "dll h p ns None \<Longrightarrow> lq_walk h (if ns = [] then None else Some (hd ns)) =
     Some (map (\<lambda>n. (li_Key (the (h n)), li_Item (the (h n)))) ns)"
proof (induction ns arbitrary: p)
  case Nil
  then show ?case by (simp add: lq_walk.simps)
next
  case (Cons n ns)
  then obtain nd where "h n = Some nd" "li_Next nd = (if ns = [] then None else Some (hd ns))"
      "dll h (Some n) ns None" by auto
  then show ?case using Cons.IH by (subst lq_walk.simps) simp
qed

section \<open>Representation\<close>

text \<open>The part of a node that the operations never change.\<close>

definition node_data :: "'a lheap \<Rightarrow> nat \<Rightarrow> (hash256 \<times> 'a) option" where
  "node_data h n = map_option (\<lambda>nd. (li_Key nd, li_Item nd)) (h n)"

lemma node_data_set [simp]:
  "node_data (set_Prev p v h) = node_data h" "node_data (set_Next p v h) = node_data h"
  by (auto simp: node_data_def set_Prev_def set_Next_def fun_eq_iff option.map_comp comp_def)

lemma node_data_alloc [simp]:
  "node_data (h(n \<mapsto> nd)) m = (if m = n then Some (li_Key nd, li_Item nd) else node_data h m)"
  by (simp add: node_data_def)

lemma heap_set_None [simp]:
  "set_Prev p v h n = None \<longleftrightarrow> h n = None" "set_Next p v h n = None \<longleftrightarrow> h n = None"
  by (auto simp: set_Prev_def set_Next_def)

text \<open>Every live node is found under its key; every known key leads to its node; a known node
  outside the list is unlinked.\<close>

definition keys_ok :: "(nat \<Rightarrow> (hash256 \<times> 'a) option) \<Rightarrow> (hash256, nat) omap \<Rightarrow> nat list \<Rightarrow> bool" where
  "keys_ok d km ns \<longleftrightarrow>
     (\<forall>n\<in>set ns. \<exists>k x. d n = Some (k, x) \<and> om_get km k = Some n) \<and>
     (\<forall>k n. om_get km k = Some n \<longrightarrow> (\<exists>x. d n = Some (k, x)))"

definition unlinked :: "'a lheap \<Rightarrow> (hash256, nat) omap \<Rightarrow> nat list \<Rightarrow> bool" where
  "unlinked h km ns \<longleftrightarrow>
     (\<forall>k n nd. om_get km k = Some n \<and> n \<notin> set ns \<and> h n = Some nd \<longrightarrow> li_Prev nd = None \<and> li_Next nd = None)"

definition lq_inv :: "'a linked_queue \<Rightarrow> nat list \<Rightarrow> bool" where
  "lq_inv q ns \<longleftrightarrow>
     dll (lq_heap q) None ns None \<and> distinct ns \<and>
     lq_Head q = (if ns = [] then None else Some (hd ns)) \<and>
     lq_Tail q = (if ns = [] then None else Some (last ns)) \<and>
     om_inv (lq_keyMap q) \<and> (\<forall>n\<ge>lq_new q. lq_heap q n = None) \<and>
     keys_ok (node_data (lq_heap q)) (lq_keyMap q) ns \<and> unlinked (lq_heap q) (lq_keyMap q) ns"

lemma keys_ok_push:
  assumes "keys_ok d km ns" and "om_get km k = None" and "\<And>j. om_get km j \<noteq> Some n" and "n \<notin> set ns"
  shows "keys_ok (d(n \<mapsto> (k, x))) (om_put k n km) (ns @ [n])"
  unfolding keys_ok_def
proof (intro conjI ballI allI impI)
  fix m assume "m \<in> set (ns @ [n])"
  then consider "m = n" | "m \<in> set ns" "m \<noteq> n" using assms(4) by auto
  then show "\<exists>k' x'. (d(n \<mapsto> (k, x))) m = Some (k', x') \<and> om_get (om_put k n km) k' = Some m"
  proof cases
    case 2
    then obtain k' x' where "d m = Some (k', x')" "om_get km k' = Some m"
      using assms(1) by (auto simp: keys_ok_def)
    then show ?thesis using assms(2) 2 by (intro exI[of _ k'] exI[of _ x']) auto
  qed simp
next
  fix j m assume "om_get (om_put k n km) j = Some m"
  then show "\<exists>x'. (d(n \<mapsto> (k, x))) m = Some (j, x')"
    using assms by (auto simp: keys_ok_def split: if_splits)
qed

lemma keys_ok_pop:
  assumes "keys_ok d km (n # ns)" and "d n = Some (k, x)" and "n \<notin> set ns"
  shows "keys_ok d (om_delete k km) ns"
proof -
  have "om_get km k = Some n" using assms(1,2) by (auto simp: keys_ok_def)
  then show ?thesis
    using assms(1,3) unfolding keys_ok_def by (auto split: if_splits) (metis option.inject)
qed

lemma keys_ok_subset: "keys_ok d km ns \<Longrightarrow> set ns' \<subseteq> set ns \<Longrightarrow> keys_ok d km ns'"
  by (auto simp: keys_ok_def)

definition lq_live :: "'a linked_queue \<Rightarrow> nat list \<Rightarrow> (hash256 \<times> 'a) list" where
  "lq_live q ns = map (\<lambda>n. the (node_data (lq_heap q) n)) ns"

definition lq_gone :: "'a linked_queue \<Rightarrow> nat list \<Rightarrow> hash256 \<Rightarrow> 'a option" where
  "lq_gone q ns k =
     (case om_get (lq_keyMap q) k of
        None \<Rightarrow> None
      | Some n \<Rightarrow> if n \<in> set ns then None else map_option snd (node_data (lq_heap q) n))"

type_synonym 'a lq_spec = "(hash256 \<times> 'a) list \<times> (hash256 \<Rightarrow> 'a option)"

definition lq_rep :: "'a linked_queue \<Rightarrow> 'a lq_spec \<Rightarrow> bool" where
  "lq_rep q sp \<longleftrightarrow> (\<exists>ns. lq_inv q ns \<and> fst sp = lq_live q ns \<and> snd sp = lq_gone q ns)"

text \<open>The specification: a list of live items and the removed items that are still known.\<close>

definition spec_Push :: "hash256 \<Rightarrow> 'a \<Rightarrow> 'a lq_spec \<Rightarrow> bool \<times> 'a lq_spec" where
  "spec_Push k x sp =
     (if map_of (fst sp) k \<noteq> None \<or> snd sp k \<noteq> None then (False, sp)
      else (True, (fst sp @ [(k, x)], snd sp)))"

definition spec_Pop :: "'a lq_spec \<Rightarrow> 'a option \<times> 'a lq_spec" where
  "spec_Pop sp = (case fst sp of [] \<Rightarrow> (None, sp) | kx # r \<Rightarrow> (Some (snd kx), (r, snd sp)))"

definition spec_Remove :: "hash256 \<Rightarrow> 'a lq_spec \<Rightarrow> 'a option \<times> 'a lq_spec" where
  "spec_Remove k sp =
     (if fst sp = [] then (None, sp)
      else case map_of (fst sp) k of
             Some x \<Rightarrow> (Some x, (filter (\<lambda>kx. fst kx \<noteq> k) (fst sp), (snd sp)(k \<mapsto> x)))
           | None \<Rightarrow> (snd sp k, sp))"

lemma map_of_live:
  assumes "lq_inv q ns"
  shows "map_of (lq_live q ns) k = Some x \<longleftrightarrow>
    (\<exists>n\<in>set ns. om_get (lq_keyMap q) k = Some n \<and> node_data (lq_heap q) n = Some (k, x))"
proof -
  have d: "\<exists>k x. node_data (lq_heap q) n = Some (k, x) \<and> om_get (lq_keyMap q) k = Some n" if "n \<in> set ns" for n
    using assms that by (auto simp: lq_inv_def keys_ok_def)
  have "inj_on (\<lambda>n. fst (the (node_data (lq_heap q) n))) (set ns)"
  proof (rule inj_onI)
    fix n m assume "n \<in> set ns" "m \<in> set ns"
      "fst (the (node_data (lq_heap q) n)) = fst (the (node_data (lq_heap q) m))"
    then show "n = m" using d[of n] d[of m] by auto
  qed
  then have "distinct (map fst (lq_live q ns))"
    using assms by (simp add: lq_live_def distinct_map comp_def lq_inv_def)
  then have "map_of (lq_live q ns) k = Some x \<longleftrightarrow> (k, x) \<in> set (lq_live q ns)"
    by (rule map_of_eq_Some_iff)
  also have "\<dots> \<longleftrightarrow> (\<exists>n\<in>set ns. om_get (lq_keyMap q) k = Some n \<and> node_data (lq_heap q) n = Some (k, x))"
    using d by (auto simp: lq_live_def image_iff) (metis option.sel prod.inject)+
  finally show ?thesis .
qed

lemma known_keys:
  assumes "lq_inv q ns"
  shows "om_has (lq_keyMap q) k \<longleftrightarrow> map_of (lq_live q ns) k \<noteq> None \<or> lq_gone q ns k \<noteq> None"
proof -
  have "om_get (lq_keyMap q) k = Some n \<Longrightarrow> \<exists>x. node_data (lq_heap q) n = Some (k, x)" for n
    using assms by (auto simp: lq_inv_def keys_ok_def)
  then show ?thesis
    using map_of_live[OF assms, of k]
    by (auto simp: om_has_def lq_gone_def split: option.splits if_splits)
qed

lemma lq_Iter_live: "lq_inv q ns \<Longrightarrow> lq_Iter q = Some (lq_live q ns)"
proof -
  assume inv: "lq_inv q ns"
  then have w: "lq_Iter q = Some (map (\<lambda>n. (li_Key (the (lq_heap q n)), li_Item (the (lq_heap q n)))) ns)"
    using lq_walk_dll[of "lq_heap q" None ns] by (simp add: lq_inv_def lq_Iter_def)
  have "node_data (lq_heap q) n = Some (li_Key (the (lq_heap q n)), li_Item (the (lq_heap q n)))"
    if "n \<in> set ns" for n
    using inv that dll_alloc[of "lq_heap q" None ns None n] by (auto simp: lq_inv_def node_data_def)
  then show ?thesis using w by (simp add: lq_live_def)
qed

lemma lq_inv_fresh:
  assumes "lq_inv q ns"
  shows "lq_heap q (lq_new q) = None" and "om_get (lq_keyMap q) j \<noteq> Some (lq_new q)"
proof -
  show free: "lq_heap q (lq_new q) = None" using assms by (simp add: lq_inv_def)
  show "om_get (lq_keyMap q) j \<noteq> Some (lq_new q)"
  proof
    assume "om_get (lq_keyMap q) j = Some (lq_new q)"
    moreover have "keys_ok (node_data (lq_heap q)) (lq_keyMap q) ns" using assms by (simp add: lq_inv_def)
    ultimately obtain x where "node_data (lq_heap q) (lq_new q) = Some (j, x)" unfolding keys_ok_def by blast
    with free show False by (simp add: node_data_def)
  qed
qed

section \<open>Push and Pop\<close>

lemma lq_Push_inv:
  assumes inv: "lq_inv q ns" and new: "\<not> om_has (lq_keyMap q) k"
  shows "\<exists>q'. lq_Push k x q = Some (True, q') \<and> lq_inv q' (ns @ [lq_new q]) \<and>
    node_data (lq_heap q') = (node_data (lq_heap q))(lq_new q \<mapsto> (k, x)) \<and>
    lq_keyMap q' = om_put k (lq_new q) (lq_keyMap q)"
proof -
  let ?n = "lq_new q"
  let ?nd = "\<lparr>li_Prev = None, li_Key = k, li_Item = x, li_Next = None\<rparr>"
  note free = lq_inv_fresh(1)[OF inv] and km = lq_inv_fresh(2)[OF inv]
  have nin: "?n \<notin> set ns" using inv free dll_alloc[of "lq_heap q" None ns None ?n] by (auto simp: lq_inv_def)
  have kn: "om_get (lq_keyMap q) k = None" using new by (simp add: om_has_def)
  have ko: "keys_ok ((node_data (lq_heap q))(?n \<mapsto> (k, x))) (om_put k ?n (lq_keyMap q)) (ns @ [?n])"
    using inv kn km nin by (intro keys_ok_push) (auto simp: lq_inv_def)
  show ?thesis
  proof (cases "ns = []")
    case True
    then have "lq_Push k x q = Some (True, \<lparr>lq_heap = (lq_heap q)(?n \<mapsto> ?nd), lq_new = ?n + 1,
        lq_Head = Some ?n, lq_Tail = Some ?n, lq_keyMap = om_put k ?n (lq_keyMap q)\<rparr>)"
      using inv new by (simp add: lq_Push_def lq_inv_def Let_def)
    moreover have "node_data ((lq_heap q)(?n \<mapsto> ?nd)) = (node_data (lq_heap q))(?n \<mapsto> (k, x))"
      by (auto simp: fun_eq_iff)
    ultimately show ?thesis
      using inv True ko by (auto simp: lq_inv_def unlinked_def split: if_splits)
  next
    case False
    let ?h = "set_Next (last ns) (Some ?n) (set_Prev ?n (Some (last ns)) ((lq_heap q)(?n \<mapsto> ?nd)))"
    have push: "lq_Push k x q = Some (True, \<lparr>lq_heap = ?h, lq_new = ?n + 1, lq_Head = lq_Head q,
        lq_Tail = Some ?n, lq_keyMap = om_put k ?n (lq_keyMap q)\<rparr>)"
      using inv new False by (simp add: lq_Push_def lq_inv_def Let_def)
    have lastn: "last ns \<noteq> ?n" using nin False last_in_set by metis
    have "dll (lq_heap q) None ns None" "distinct ns" using inv by (auto simp: lq_inv_def)
    then have "dll (set_Prev ?n (Some (last ns)) ((lq_heap q)(?n \<mapsto> ?nd))) None ns None"
      using nin by (subst dll_frame[of _ _ "lq_heap q"]) (auto simp: set_Prev_def)
    then have "dll ?h None ns (Some ?n)"
      using \<open>distinct ns\<close> False by (rule dll_set_Next_last)
    then have d: "dll ?h None (ns @ [?n]) None"
      using lastn False by (simp add: dll_append set_Next_def set_Prev_def)
    have other: "?h m = lq_heap q m" if "m \<notin> set ns" "m \<noteq> ?n" for m
      using that False last_in_set[OF False] by (auto simp: set_Next_def set_Prev_def)
    have "unlinked ?h (om_put k ?n (lq_keyMap q)) (ns @ [?n])"
      using inv other unfolding lq_inv_def unlinked_def by (auto split: if_splits)
    moreover have "node_data ?h = (node_data (lq_heap q))(?n \<mapsto> (k, x))" by (auto simp: fun_eq_iff)
    moreover have "\<forall>m\<ge>?n + 1. ?h m = None" using inv by (simp add: lq_inv_def)
    ultimately show ?thesis
      unfolding push using inv d nin ko False by (auto simp: lq_inv_def)
  qed
qed

lemma lq_live_update:
  "node_data (lq_heap q') = (node_data (lq_heap q))(n \<mapsto> kx) \<Longrightarrow> n \<notin> set ns \<Longrightarrow>
   lq_live q' (ns @ [n]) = lq_live q ns @ [kx]"
  by (auto simp: lq_live_def)

lemma lq_Push_refines:
  assumes "lq_rep q sp"
  shows "\<exists>q'. lq_Push k x q = Some (fst (spec_Push k x sp), q') \<and> lq_rep q' (snd (spec_Push k x sp))"
proof -
  obtain ns where inv: "lq_inv q ns" and sp: "fst sp = lq_live q ns" "snd sp = lq_gone q ns"
    using assms by (auto simp: lq_rep_def)
  show ?thesis
  proof (cases "om_has (lq_keyMap q) k")
    case True
    then show ?thesis
      using known_keys[OF inv, of k] sp assms by (simp add: lq_Push_def spec_Push_def)
  next
    case False
    then obtain q' where q': "lq_Push k x q = Some (True, q')" "lq_inv q' (ns @ [lq_new q])"
        "node_data (lq_heap q') = (node_data (lq_heap q))(lq_new q \<mapsto> (k, x))"
        "lq_keyMap q' = om_put k (lq_new q) (lq_keyMap q)"
      using lq_Push_inv[OF inv] by metis
    have nin: "lq_new q \<notin> set ns" using q'(2) by (simp add: lq_inv_def)
    have "lq_gone q' (ns @ [lq_new q]) = lq_gone q ns"
      using q'(3,4) False lq_inv_fresh(2)[OF inv]
      by (auto simp: lq_gone_def fun_eq_iff om_has_def split: option.split)
    then have "lq_rep q' (lq_live q ns @ [(k, x)], lq_gone q ns)"
      unfolding lq_rep_def using q'(2) lq_live_update[OF q'(3) nin] by auto
    then show ?thesis
      using q'(1) False known_keys[OF inv, of k] sp by (auto simp: spec_Push_def)
  qed
qed

lemma set_Prev_twice [simp]: "set_Prev n v (set_Prev n w h) = set_Prev n v h"
  by (auto simp: set_Prev_def fun_eq_iff option.map_comp comp_def)

lemma set_Next_twice [simp]: "set_Next n v (set_Next n w h) = set_Next n v h"
  by (auto simp: set_Next_def fun_eq_iff option.map_comp comp_def)

lemma heap_set_other [simp]:
  "m \<noteq> n \<Longrightarrow> set_Prev n v h m = h m" "m \<noteq> n \<Longrightarrow> set_Next n v h m = h m"
  by (simp_all add: set_Prev_def set_Next_def)

lemma dll_unlink_other:
  "n \<notin> set ns \<Longrightarrow> dll (set_Next n v (set_Prev n w h)) p ns nx = dll h p ns nx"
proof (rule dll_frame)
  fix m assume "n \<notin> set ns" "m \<in> set ns"
  then have "m \<noteq> n" by blast
  then show "set_Next n v (set_Prev n w h) m = h m" by simp
qed

lemma unlinked_node:
  "set_Next n None (set_Prev n None h) n = Some nd \<Longrightarrow> li_Prev nd = None \<and> li_Next nd = None"
  by (auto simp: set_Prev_def set_Next_def)

lemma unlinked_update:
  assumes "unlinked h km ns" and "\<And>m. m \<notin> set ns \<Longrightarrow> h' m = h m" and "set ns = insert n (set ns')"
    and "\<And>k j. om_get km' k = Some j \<Longrightarrow> om_get km k = Some j"
  shows "unlinked (set_Next n None (set_Prev n None h')) km' ns'"
  unfolding unlinked_def
proof (intro allI impI, elim conjE)
  fix k m nd
  assume m: "om_get km' k = Some m" "m \<notin> set ns'" "set_Next n None (set_Prev n None h') m = Some nd"
  show "li_Prev nd = None \<and> li_Next nd = None"
  proof (cases "m = n")
    case True
    then show ?thesis using m(3) unlinked_node by blast
  next
    case False
    then have "m \<notin> set ns" "h m = Some nd" using m assms(2,3) by auto
    then show ?thesis using assms(1,4) m(1) unfolding unlinked_def by blast
  qed
qed

lemma lq_Pop_inv:
  assumes inv: "lq_inv q (n # ns)"
  shows "\<exists>k x q'. node_data (lq_heap q) n = Some (k, x) \<and> lq_Pop q = Some (Some x, q') \<and> lq_inv q' ns \<and>
    node_data (lq_heap q') = node_data (lq_heap q) \<and> lq_keyMap q' = om_delete k (lq_keyMap q)"
proof -
  obtain nd where nd: "lq_heap q n = Some nd" "li_Next nd = (if ns = [] then None else Some (hd ns))"
      "dll (lq_heap q) (Some n) ns None"
    using inv by (auto simp: lq_inv_def)
  have dist: "n \<notin> set ns" "distinct ns" using inv by (auto simp: lq_inv_def)
  let ?k = "li_Key nd" and ?h1 = "if ns = [] then lq_heap q else set_Prev (hd ns) None (lq_heap q)"
  let ?h = "set_Next n None (set_Prev n None ?h1)"
  let ?q = "q\<lparr>lq_heap := ?h, lq_Head := if ns = [] then None else Some (hd ns),
    lq_Tail := if ns = [] then None else Some (last ns), lq_keyMap := om_delete ?k (lq_keyMap q)\<rparr>"
  have pop: "lq_Pop q = Some (Some (li_Item nd), ?q)"
  proof (cases "ns = []")
    case False
    then have "n \<noteq> last ns" using dist(1) last_in_set by metis
    then show ?thesis using inv nd(1,2) False by (simp add: lq_Pop_def lq_inv_def Let_def)
  qed (use inv nd(1) in \<open>simp add: lq_Pop_def lq_inv_def Let_def\<close>)
  have d: "node_data (lq_heap q) n = Some (?k, li_Item nd)" using nd(1) by (simp add: node_data_def)
  have "dll ?h1 None ns None"
    using nd(3) dist(2) dll_set_Prev_first[of "lq_heap q" "Some n" ns None None] by simp
  then have dll: "dll ?h None ns None"
    by (simp only: dll_unlink_other[OF dist(1)])
  have data: "node_data ?h = node_data (lq_heap q)" by auto
  have "keys_ok (node_data ?h) (om_delete ?k (lq_keyMap q)) ns"
    unfolding data using inv d dist(1) by (intro keys_ok_pop) (auto simp: lq_inv_def)
  moreover have "unlinked ?h (om_delete ?k (lq_keyMap q)) ns"
  proof (rule unlinked_update)
    show "unlinked (lq_heap q) (lq_keyMap q) (n # ns)" using inv by (simp add: lq_inv_def)
    show "?h1 m = lq_heap q m" if "m \<notin> set (n # ns)" for m
      using that by (cases ns) auto
  qed (auto split: if_splits)
  moreover have "\<forall>m\<ge>lq_new q. ?h m = None" using inv by (auto simp: lq_inv_def)
  ultimately have "lq_inv ?q ns" using inv dll dist by (auto simp: lq_inv_def)
  then show ?thesis using pop d data by auto
qed

lemma lq_Pop_refines:
  assumes "lq_rep q sp"
  shows "\<exists>q'. lq_Pop q = Some (fst (spec_Pop sp), q') \<and> lq_rep q' (snd (spec_Pop sp))"
proof -
  obtain ns where inv: "lq_inv q ns" and sp: "fst sp = lq_live q ns" "snd sp = lq_gone q ns"
    using assms by (auto simp: lq_rep_def)
  show ?thesis
  proof (cases ns)
    case Nil
    then show ?thesis using inv sp assms by (simp add: lq_inv_def lq_Pop_def spec_Pop_def lq_live_def)
  next
    case (Cons n ms)
    then obtain k x q' where q': "node_data (lq_heap q) n = Some (k, x)" "lq_Pop q = Some (Some x, q')"
        "lq_inv q' ms" "node_data (lq_heap q') = node_data (lq_heap q)"
        "lq_keyMap q' = om_delete k (lq_keyMap q)"
      using lq_Pop_inv inv by metis
    have ko: "keys_ok (node_data (lq_heap q)) (lq_keyMap q) ns" using inv by (simp add: lq_inv_def)
    have kn: "om_get (lq_keyMap q) k = Some n" using ko q'(1) Cons by (auto simp: keys_ok_def)
    have "lq_gone q' ms j = lq_gone q ns j" for j
    proof (cases "om_get (lq_keyMap q) j")
      case (Some m)
      then have "m = n \<longrightarrow> j = k" using ko q'(1) unfolding keys_ok_def by fastforce
      then show ?thesis using q'(4,5) kn Cons Some by (auto simp: lq_gone_def)
    qed (simp add: lq_gone_def q'(5))
    then have "lq_gone q' ms = lq_gone q ns" by (rule ext)
    moreover have "lq_live q ns = (k, x) # lq_live q' ms" using Cons q'(1,4) by (simp add: lq_live_def)
    ultimately show ?thesis using q'(2,3) sp by (auto simp: spec_Pop_def lq_rep_def)
  qed
qed

section \<open>Remove\<close>

definition unlink :: "nat list \<Rightarrow> nat list \<Rightarrow> 'a lheap \<Rightarrow> 'a lheap" where
  "unlink xs ys h =
     (let prv = (if xs = [] then None else Some (last xs)); nxt = (if ys = [] then None else Some (hd ys));
          h = (if ys = [] then h else set_Prev (hd ys) prv h)
      in if xs = [] then h else set_Next (last xs) nxt h)"

lemma dll_unlink:
  assumes "dll h None (xs @ n # ys) None" and "distinct (xs @ n # ys)"
  shows "dll (unlink xs ys h) None (xs @ ys) None"
proof -
  let ?prv = "if xs = [] then None else Some (last xs)" and ?nxt = "if ys = [] then None else Some (hd ys)"
  let ?h1 = "if ys = [] then h else set_Prev (hd ys) ?prv h"
  have a: "dll h None xs (Some n)" "dll h (Some n) ys None" using assms(1) by (auto simp: dll_append)
  have d: "distinct xs" "distinct ys" "set xs \<inter> set ys = {}" using assms(2) by auto
  have 1: "dll ?h1 ?prv ys None"
    using a(2) d(2) dll_set_Prev_first[of h "Some n" ys None ?prv] by (cases "ys = []") auto
  have 2: "dll ?h1 None xs (Some n)"
  proof (subst dll_frame[of _ _ h])
    fix m assume "m \<in> set xs"
    then have "ys \<noteq> [] \<Longrightarrow> m \<noteq> hd ys" using d(3) by (metis disjoint_iff hd_in_set)
    then show "?h1 m = h m" by auto
  qed (rule a(1))
  show ?thesis
  proof (cases "xs = []")
    case True
    then show ?thesis using 1 by (cases "ys = []") (auto simp: unlink_def)
  next
    case False
    have "dll (set_Next (last xs) ?nxt ?h1) None xs ?nxt"
      using 2 d(1) False by (rule dll_set_Next_last)
    moreover have "dll (set_Next (last xs) ?nxt ?h1) ?prv ys None"
    proof (subst dll_frame[of _ _ ?h1])
      fix m assume "m \<in> set ys"
      then have "m \<noteq> last xs" using d(3) False by (metis disjoint_iff last_in_set)
      then show "set_Next (last xs) ?nxt ?h1 m = ?h1 m" by simp
    qed (rule 1)
    ultimately show ?thesis
      using False by (cases "ys = []") (simp_all add: unlink_def dll_append Let_def)
  qed
qed

lemma lq_Remove_live_eq:
  assumes inv: "lq_inv q (xs @ n # ys)" and k: "om_get (lq_keyMap q) k = Some n"
    and nd: "lq_heap q n = Some nd"
  shows "lq_Remove k q = Some (Some (li_Item nd),
    q\<lparr>lq_heap := set_Next n None (set_Prev n None (unlink xs ys (lq_heap q))),
      lq_Head := (if xs @ ys = [] then None else Some (hd (xs @ ys))),
      lq_Tail := (if xs @ ys = [] then None else Some (last (xs @ ys)))\<rparr>)"
proof -
  have d: "distinct (xs @ n # ys)" using inv by (simp add: lq_inv_def)
  have link: "li_Prev nd = (if xs = [] then None else Some (last xs))"
      "li_Next nd = (if ys = [] then None else Some (hd ys))"
    using inv nd by (auto simp: lq_inv_def dll_append)
  have head: "lq_Head q = Some (hd (xs @ [n]))" "xs \<noteq> [] \<Longrightarrow> hd (xs @ [n]) \<noteq> n"
    using inv d by (auto simp: lq_inv_def hd_append)
  have tail: "lq_Tail q = Some (if ys = [] then n else last ys)" "ys \<noteq> [] \<Longrightarrow> last ys \<noteq> n"
    using inv d by (auto simp: lq_inv_def)
  show ?thesis
    using head tail k nd link
    by (cases "xs = []"; cases "ys = []") (simp_all add: lq_Remove_def unlink_def Let_def)
qed

lemma lq_Remove_live:
  assumes inv: "lq_inv q (xs @ n # ys)" and k: "om_get (lq_keyMap q) k = Some n"
    and x: "node_data (lq_heap q) n = Some (k, x)"
  shows "\<exists>q'. lq_Remove k q = Some (Some x, q') \<and> lq_inv q' (xs @ ys) \<and>
    node_data (lq_heap q') = node_data (lq_heap q) \<and> lq_keyMap q' = lq_keyMap q"
proof -
  obtain nd where nd: "lq_heap q n = Some nd" "li_Item nd = x" using x by (auto simp: node_data_def)
  let ?u = "unlink xs ys (lq_heap q)" and ?h = "set_Next n None (set_Prev n None (unlink xs ys (lq_heap q)))"
  have d: "distinct (xs @ n # ys)" using inv by (simp add: lq_inv_def)
  have data: "node_data ?h = node_data (lq_heap q)" by (simp add: unlink_def Let_def)
  have "n \<notin> set (xs @ ys)" using d by simp
  moreover have "dll ?u None (xs @ ys) None"
    using inv by (intro dll_unlink[where n = n]) (auto simp: lq_inv_def)
  ultimately have dll: "dll ?h None (xs @ ys) None" by (rule dll_unlink_other[THEN iffD2])
  have "unlinked ?h (lq_keyMap q) (xs @ ys)"
  proof (rule unlinked_update)
    show "unlinked (lq_heap q) (lq_keyMap q) (xs @ n # ys)" using inv by (simp add: lq_inv_def)
    show "?u m = lq_heap q m" if "m \<notin> set (xs @ n # ys)" for m
      using that by (cases xs rule: rev_cases; cases ys) (auto simp: unlink_def Let_def)
  qed auto
  moreover have "keys_ok (node_data (lq_heap q)) (lq_keyMap q) (xs @ n # ys)"
    using inv by (simp add: lq_inv_def)
  then have "keys_ok (node_data ?h) (lq_keyMap q) (xs @ ys)"
    unfolding data by (rule keys_ok_subset) auto
  moreover have "\<forall>m\<ge>lq_new q. ?h m = None" using inv by (simp add: lq_inv_def unlink_def Let_def)
  ultimately show ?thesis
    unfolding lq_Remove_live_eq[OF inv k nd(1)] nd(2) using inv d dll data by (simp add: lq_inv_def)
qed

lemma lq_Remove_gone:
  assumes inv: "lq_inv q ns" and k: "om_get (lq_keyMap q) k = Some n" and n: "n \<notin> set ns" "ns \<noteq> []"
    and x: "node_data (lq_heap q) n = Some (k, x)"
  shows "lq_Remove k q = Some (Some x, q)"
proof -
  obtain nd where nd: "lq_heap q n = Some nd" "li_Item nd = x" using x by (auto simp: node_data_def)
  have l: "li_Prev nd = None" "li_Next nd = None"
    using inv k n(1) nd(1) unfolding lq_inv_def unlinked_def by blast+
  have ht: "lq_Head q \<noteq> None" "lq_Head q \<noteq> Some n" "lq_Tail q \<noteq> Some n"
    using inv n hd_in_set[of ns] last_in_set[of ns] by (auto simp: lq_inv_def)
  have "set_Next n None (set_Prev n None (lq_heap q)) = lq_heap q"
    using nd(1) l by (auto simp: set_Prev_def set_Next_def fun_eq_iff)
  then show ?thesis using ht k nd l by (simp add: lq_Remove_def Let_def)
qed

lemma filter_live:
  assumes "lq_inv q (xs @ n # ys)" and "node_data (lq_heap q) n = Some (k, x)"
  shows "filter (\<lambda>kx. fst kx \<noteq> k) (lq_live q (xs @ n # ys)) = lq_live q (xs @ ys)"
proof -
  have d: "distinct (xs @ n # ys)" using assms(1) by (simp add: lq_inv_def)
  have ko: "keys_ok (node_data (lq_heap q)) (lq_keyMap q) (xs @ n # ys)" using assms(1) by (simp add: lq_inv_def)
  have kn: "om_get (lq_keyMap q) k = Some n" using ko assms(2) by (auto simp: keys_ok_def)
  have "fst (the (node_data (lq_heap q) m)) \<noteq> k" if m: "m \<in> set (xs @ ys)" for m
  proof -
    obtain j y where "node_data (lq_heap q) m = Some (j, y)" "om_get (lq_keyMap q) j = Some m"
      using ko m unfolding keys_ok_def by (metis Un_iff insert_iff list.simps(15) set_append)
    moreover have "m \<noteq> n" using d m by auto
    ultimately show ?thesis using kn by auto
  qed
  then show ?thesis using assms(2) by (simp add: lq_live_def filter_id_conv)
qed

lemma lq_Remove_refines_live:
  assumes inv: "lq_inv q ns" and k: "om_get (lq_keyMap q) k = Some n" and n: "n \<in> set ns"
    and x: "node_data (lq_heap q) n = Some (k, x)"
  shows "\<exists>q'. lq_Remove k q = Some (Some x, q') \<and>
    lq_rep q' (filter (\<lambda>kx. fst kx \<noteq> k) (lq_live q ns), (lq_gone q ns)(k \<mapsto> x))"
proof -
  have ko: "keys_ok (node_data (lq_heap q)) (lq_keyMap q) ns" using inv by (simp add: lq_inv_def)
  obtain xs ys where ns: "ns = xs @ n # ys" using n by (metis split_list)
  then obtain q' where q': "lq_Remove k q = Some (Some x, q')" "lq_inv q' (xs @ ys)"
      "node_data (lq_heap q') = node_data (lq_heap q)" "lq_keyMap q' = lq_keyMap q"
    using lq_Remove_live[OF _ k x] inv by metis
  have "lq_live q' (xs @ ys) = filter (\<lambda>kx. fst kx \<noteq> k) (lq_live q ns)"
    using filter_live[OF inv[unfolded ns] x] q'(3) ns by (simp add: lq_live_def)
  moreover have "\<And>j. lq_gone q' (xs @ ys) j = ((lq_gone q ns)(k \<mapsto> x)) j"
  proof -
    fix j
    have "om_get (lq_keyMap q) j \<noteq> Some n" if "j \<noteq> k"
      using ko x that unfolding keys_ok_def by fastforce
    moreover have "n \<notin> set (xs @ ys)" using inv ns by (simp add: lq_inv_def)
    ultimately show "lq_gone q' (xs @ ys) j = ((lq_gone q ns)(k \<mapsto> x)) j"
      using k x by (cases "j = k"; cases "om_get (lq_keyMap q) j")
        (auto simp: lq_gone_def q'(3,4) ns)
  qed
  then have "lq_gone q' (xs @ ys) = (lq_gone q ns)(k \<mapsto> x)" by (rule ext)
  ultimately show ?thesis using q'(1,2) by (auto simp: lq_rep_def)
qed

lemma lq_Remove_refines:
  assumes "lq_rep q sp"
  shows "\<exists>q'. lq_Remove k q = Some (fst (spec_Remove k sp), q') \<and> lq_rep q' (snd (spec_Remove k sp))"
proof -
  obtain ns where inv: "lq_inv q ns" and sp: "fst sp = lq_live q ns" "snd sp = lq_gone q ns"
    using assms by (auto simp: lq_rep_def)
  have ko: "keys_ok (node_data (lq_heap q)) (lq_keyMap q) ns" using inv by (simp add: lq_inv_def)
  have empty: "lq_live q ns = [] \<longleftrightarrow> ns = []" "lq_Head q = None \<longleftrightarrow> ns = []"
    using inv by (auto simp: lq_live_def lq_inv_def)
  note live = map_of_live[OF inv, of k]
  consider "ns = []" | "ns \<noteq> []" "om_get (lq_keyMap q) k = None"
    | n where "ns \<noteq> []" "om_get (lq_keyMap q) k = Some n" by (cases "om_get (lq_keyMap q) k") auto
  then show ?thesis
  proof cases
    case 1
    then show ?thesis using empty sp assms by (simp add: lq_Remove_def spec_Remove_def)
  next
    case 2
    then have "map_of (lq_live q ns) k = None" using live by (cases "map_of (lq_live q ns) k") auto
    then show ?thesis
      using 2 empty sp assms by (simp add: lq_Remove_def spec_Remove_def lq_gone_def)
  next
    case (3 n)
    obtain x where x: "node_data (lq_heap q) n = Some (k, x)" using ko 3(2) unfolding keys_ok_def by blast
    show ?thesis
    proof (cases "n \<in> set ns")
      case False
      then have "map_of (lq_live q ns) k = None"
        using live 3(2) by (cases "map_of (lq_live q ns) k") auto
      then show ?thesis
        using lq_Remove_gone[OF inv 3(2) False 3(1) x] 3 empty sp assms False x
        by (simp add: spec_Remove_def lq_gone_def)
    next
      case True
      then have "map_of (lq_live q ns) k = Some x" using live 3(2) x by blast
      then show ?thesis
        using lq_Remove_refines_live[OF inv 3(2) True x] 3(1) empty sp by (simp add: spec_Remove_def)
    qed
  qed
qed

section \<open>Sequences of operations\<close>

datatype 'a lq_op = LPush hash256 'a | LPop | LRemove hash256

datatype 'a lq_out = Pushed bool | Item "'a option"

fun lq_run :: "'a linked_queue \<Rightarrow> 'a lq_op list \<Rightarrow> ('a lq_out list \<times> 'a linked_queue) option" where
  "lq_run q [] = Some ([], q)"
| "lq_run q (op # ops) =
     (case (case op of
              LPush k x \<Rightarrow> map_option (\<lambda>(b, q'). (Pushed b, q')) (lq_Push k x q)
            | LPop \<Rightarrow> map_option (\<lambda>(r, q'). (Item r, q')) (lq_Pop q)
            | LRemove k \<Rightarrow> map_option (\<lambda>(r, q'). (Item r, q')) (lq_Remove k q)) of
        None \<Rightarrow> None
      | Some (o1, q') \<Rightarrow> map_option (\<lambda>(os, q''). (o1 # os, q'')) (lq_run q' ops))"

fun spec_run :: "'a lq_spec \<Rightarrow> 'a lq_op list \<Rightarrow> 'a lq_out list \<times> 'a lq_spec" where
  "spec_run sp [] = ([], sp)"
| "spec_run sp (op # ops) =
     (let (o1, sp') = (case op of
              LPush k x \<Rightarrow> (let (b, sp') = spec_Push k x sp in (Pushed b, sp'))
            | LPop \<Rightarrow> (let (r, sp') = spec_Pop sp in (Item r, sp'))
            | LRemove k \<Rightarrow> (let (r, sp') = spec_Remove k sp in (Item r, sp')));
          (os, sp'') = spec_run sp' ops
      in (o1 # os, sp''))"

lemma lq_run_refines:
  "lq_rep q sp \<Longrightarrow> \<exists>q'. lq_run q ops = Some (fst (spec_run sp ops), q') \<and> lq_rep q' (snd (spec_run sp ops))"
proof (induction ops arbitrary: q sp)
  case Nil
  then show ?case by simp
next
  case (Cons op ops)
  show ?case
  proof (cases op)
    case (LPush k x)
    obtain q' where q': "lq_Push k x q = Some (fst (spec_Push k x sp), q')" "lq_rep q' (snd (spec_Push k x sp))"
      using lq_Push_refines[OF Cons.prems] by blast
    then show ?thesis using Cons.IH[OF q'(2)] LPush by (auto simp: case_prod_unfold Let_def)
  next
    case LPop
    obtain q' where q': "lq_Pop q = Some (fst (spec_Pop sp), q')" "lq_rep q' (snd (spec_Pop sp))"
      using lq_Pop_refines[OF Cons.prems] by blast
    then show ?thesis using Cons.IH[OF q'(2)] LPop by (auto simp: case_prod_unfold Let_def)
  next
    case (LRemove k)
    obtain q' where q': "lq_Remove k q = Some (fst (spec_Remove k sp), q')" "lq_rep q' (snd (spec_Remove k sp))"
      using lq_Remove_refines[OF Cons.prems] by blast
    then show ?thesis using Cons.IH[OF q'(2)] LRemove by (auto simp: case_prod_unfold Let_def)
  qed
qed

lemma lq_rep_new: "lq_rep NewLinkedQueue ([], \<lambda>_. None)"
  unfolding lq_rep_def
  by (intro exI[of _ "[]"])
     (simp add: lq_inv_def NewLinkedQueue_def keys_ok_def unlinked_def lq_live_def lq_gone_def fun_eq_iff)

text \<open>
  C1: the pointer manipulating operations of \<^verbatim>\<open>LinkedQueue\<close> implement the list specification: every
  sequence of \<^verbatim>\<open>Push\<close>, \<^verbatim>\<open>Pop\<close> and \<^verbatim>\<open>Remove\<close> on a new queue runs without a nil dereference, returns
  what the specification returns, and \<^verbatim>\<open>Iter\<close> then terminates and visits exactly the live items
  in order.
\<close>

theorem linked_queue_refines_list:
  "\<exists>q. lq_run NewLinkedQueue ops = Some (fst (spec_run ([], \<lambda>_. None) ops), q) \<and>
     lq_Iter q = Some (fst (snd (spec_run ([], \<lambda>_. None) ops)))"
proof -
  obtain q where q: "lq_run NewLinkedQueue ops = Some (fst (spec_run ([], \<lambda>_. None) ops), q)"
      "lq_rep q (snd (spec_run ([], \<lambda>_. None) ops))"
    using lq_run_refines[OF lq_rep_new] by blast
  then obtain ns where "lq_inv q ns" "fst (snd (spec_run ([], \<lambda>_. None) ops)) = lq_live q ns"
    by (auto simp: lq_rep_def)
  then show ?thesis using q(1) lq_Iter_live[of q ns] by auto
qed

text \<open>
  \<^verbatim>\<open>Remove\<close> does not delete its key from the key map: after it has returned an item the queue still
  reports the key as present and counts it, and a later \<^verbatim>\<open>Push\<close> of the same key is refused.
\<close>

theorem linked_queue_remove_leaves_key:
  assumes "lq_Remove k q = Some (Some x, q')"
  shows "lq_Has k q' \<and> lq_Size q' = lq_Size q \<and> lq_Push k y q' = Some (False, q')"
  using assms
  by (auto simp: lq_Remove_def lq_Has_def lq_Size_def lq_Push_def om_has_def Let_def
      split: if_splits option.splits)

theorem linked_queue_remove_leaves_key_witness:
  "\<exists>q q'. lq_Push [1] (7::nat) NewLinkedQueue = Some (True, q) \<and> lq_Remove [1] q = Some (Some 7, q') \<and>
     lq_Has [1] q' \<and> lq_Size q' = lq_Size q \<and> lq_Push [1] 8 q' = Some (False, q')"
proof -
  obtain q where q: "lq_Push [1] (7::nat) NewLinkedQueue = Some (True, q)"
    by (simp add: lq_Push_def NewLinkedQueue_def Let_def)
  then obtain q' where "lq_Remove [1] q = Some (Some 7, q')"
    by (auto simp: lq_Push_def NewLinkedQueue_def lq_Remove_def Let_def om_get_def)
  then show ?thesis using q linked_queue_remove_leaves_key[of "[1]" q 7 q' 8] by blast
qed

end
