(* ===== verification/Address.thy ===== *)
theory Address
  imports Hashing
begin

text \<open>
  \<^verbatim>\<open>common/address.go\<close> and the identifier helpers of \<^verbatim>\<open>core/types/util.go\<close>. An address is
  14 bytes: the height and the index of the transaction that created the account and an eight
  byte magic. The package \<^verbatim>\<open>base58\<close> is not part of the repository: its \<^verbatim>\<open>Encode\<close> and
  \<^verbatim>\<open>Decode\<close> are the arguments \<open>enc\<close> and \<open>dec\<close>, and \<open>base58_spec\<close> states what the code
  relies on. \<^verbatim>\<open>encoding/hex\<close> of the standard library is written out.
\<close>

section \<open>Hexadecimal text\<close>

definition hex_char :: "nat \<Rightarrow> char" where
  "hex_char d = (if d < 10 then char_of (48 + d) else char_of (87 + d))"

definition HexEncode :: "bytes \<Rightarrow> string" where
  "HexEncode bs = concat (map (\<lambda>b. [hex_char (unat b div 16), hex_char (unat b mod 16)]) bs)"

definition hex_val :: "char \<Rightarrow> nat option" where
  "hex_val c =
     (let n = of_char c
      in if 48 \<le> n \<and> n \<le> 57 then Some (n - 48)
         else if 97 \<le> n \<and> n \<le> 102 then Some (n - 87)
         else if 65 \<le> n \<and> n \<le> 70 then Some (n - 55)
         else None)"

fun HexDecode :: "string \<Rightarrow> bytes option" where
  "HexDecode [] = Some []"
| "HexDecode [c] = None"
| "HexDecode (a # b # s) =
     (case (hex_val a, hex_val b) of
        (Some x, Some y) \<Rightarrow> map_option (\<lambda>bs. of_nat (16 * x + y) # bs) (HexDecode s)
      | _ \<Rightarrow> None)"

lemma hex_val_char: "d < 16 \<Longrightarrow> hex_val (hex_char d) = Some d"
  by (auto simp: hex_val_def hex_char_def of_char_of Let_def)

lemma HexDecode_Encode [simp]: "HexDecode (HexEncode bs) = Some bs"
proof (induction bs)
  case Nil
  then show ?case by (simp add: HexEncode_def)
next
  case (Cons b bs)
  have "unat b < 256" using unsigned_less[of b, where ?'a = nat] by simp
  then have "unat b div 16 < 16" by auto
  then show ?case
    using Cons by (simp add: HexEncode_def hex_val_char)
qed

lemma length_HexEncode [simp]: "length (HexEncode bs) = 2 * length bs"
  by (induction bs) (auto simp: HexEncode_def)

lemma hex_val_underscore [simp]: "hex_val (CHR ''_'') = None"
  by (simp add: hex_val_def)

lemma HexEncode_chars: "c \<in> set (HexEncode bs) \<Longrightarrow> hex_val c \<noteq> None"
proof (induction bs)
  case Nil
  then show ?case by (simp add: HexEncode_def)
next
  case (Cons b bs)
  have "unat b < 256" using unsigned_less[of b, where ?'a = nat] by simp
  then have d: "unat b div 16 < 16" "unat b mod 16 < 16" by auto
  have "c = hex_char (unat b div 16) \<or> c = hex_char (unat b mod 16) \<or> c \<in> set (HexEncode bs)"
    using Cons.prems by (simp add: HexEncode_def)
  then show ?case
    using Cons.IH hex_val_char[OF d(1)] hex_val_char[OF d(2)] by auto
qed

lemma HexDecode_underscore: "CHR ''_'' \<in> set s \<Longrightarrow> HexDecode s = None"
  by (induction s rule: HexDecode.induct) (auto split: option.splits)

text \<open>\<^verbatim>\<open>ParseHash\<close> and \<^verbatim>\<open>Hash256.String\<close>.\<close>

definition Hash256_String :: "hash256 \<Rightarrow> string" where
  "Hash256_String h = HexEncode h"

definition ParseHash :: "string \<Rightarrow> err + hash256" where
  "ParseHash str =
     (if length str \<noteq> Hash256Size * 2 then Inl (CommonErr ErrInvalidHashFormat)
      else case HexDecode str of
             None \<Rightarrow> Inl (ExternalErr 16)
           | Some bs \<Rightarrow>
               if length bs \<noteq> Hash256Size then Inl (CommonErr ErrInvalidHashSize)
               else Inr (go_copy (zeros Hash256Size) bs))"

lemma ParseHash_String: "is_hash h \<Longrightarrow> ParseHash (Hash256_String h) = Inr h"
  by (simp add: ParseHash_def Hash256_String_def is_hash_def go_copy_full)

section \<open>Addresses\<close>

type_synonym address = bytes

definition AddressSize :: nat where
  "AddressSize = 14"

definition is_address :: "address \<Rightarrow> bool" where
  "is_address a \<longleftrightarrow> length a = AddressSize"

text \<open>The three big endian \<^verbatim>\<open>Put\<close> calls at offsets 0, 4 and 6 of a fresh array.\<close>

definition NewAddress :: "u32 \<Rightarrow> u16 \<Rightarrow> u64 \<Rightarrow> address" where
  "NewAddress height index magic =
     copy_at 6 (copy_at 4 (go_copy (zeros AddressSize) (BE_Uint32ToBytes height))
        (BE_Uint16ToBytes index)) (BE_Uint64ToBytes magic)"

definition addr_Checksum :: "address \<Rightarrow> u8" where
  "addr_Checksum addr = fold (\<lambda>c cs. cs XOR c) addr 0"

definition addr_Height :: "address \<Rightarrow> u32 option" where
  "addr_Height addr = BE_Uint32 addr"

definition addr_Index :: "address \<Rightarrow> u16 option" where
  "addr_Index addr = BE_Uint16 (drop 4 addr)"

definition addr_Nonce :: "address \<Rightarrow> u64 option" where
  "addr_Nonce addr = BE_Uint64 (drop 6 addr)"

text \<open>The loop that xors the even bytes with \<open>b0\<close> and the odd ones with \<open>b1\<close>; the slices it
  runs over have six bytes.\<close>

fun xor_pairs :: "u8 \<Rightarrow> u8 \<Rightarrow> bytes \<Rightarrow> bytes" where
  "xor_pairs b0 b1 (x # y # r) = (x XOR b0) # (y XOR b1) # xor_pairs b0 b1 r"
| "xor_pairs b0 b1 r = r"

definition addr_String :: "(bytes \<Rightarrow> string) \<Rightarrow> address \<Rightarrow> string" where
  "addr_String enc addr =
     (let checksum = addr_Checksum addr;
          result = trimRight 0 addr;
          bs = (if length result < 7 then copy_at 1 (zeros 7) result
                else copy_at 1 (zeros 15) result)[0 := checksum];
          b0 = addr ! 6; b1 = addr ! 7
      in if b0 = 0 \<and> b1 = 0 then enc bs
         else let tbs = xor_pairs b0 b1 (drop 8 addr)
              in bytes_str (takeWhile (\<lambda>b. b \<noteq> 0) tbs) @ ''_'' @ enc (take 9 bs))"

definition ParseAddress :: "(string \<Rightarrow> bytes option) \<Rightarrow> string \<Rightarrow> err + address" where
  "ParseAddress dec str =
     (let ls = splitN2 (CHR ''_'') str;
          symbol = (if 1 < length ls then ls ! 0 else []);
          str = (if 1 < length ls then drop (length symbol + 1) str else str)
      in case dec str of
           None \<Rightarrow> Inl (ExternalErr 58)
         | Some bs \<Rightarrow>
             if length bs \<noteq> (if 0 < length symbol then 9 else 7)
             then Inl (CommonErr ErrInvalidAddressFormat)
             else
               let cs = bs ! 0;
                   addr = go_copy (zeros AddressSize) (drop 1 bs);
                   addr = (if 0 < length symbol
                     then let base = drop 7 bs;
                              addr = copy_at 6 addr base;
                              tbs = (if base ! 0 \<noteq> 0 \<or> base ! 1 \<noteq> 0
                                     then go_copy (zeros 6) (str_bytes symbol) else zeros 6)
                          in copy_at 8 addr (xor_pairs (base ! 0) (base ! 1) tbs)
                     else addr)
               in if cs \<noteq> addr_Checksum addr then Inl (CommonErr ErrInvalidAddressCheckSum)
                  else Inr addr)"

definition addr_MarshalJSON :: "(bytes \<Rightarrow> string) \<Rightarrow> address \<Rightarrow> string" where
  "addr_MarshalJSON enc addr = MarshalQuoted (addr_String enc addr)"

definition addr_UnmarshalJSON :: "(string \<Rightarrow> bytes option) \<Rightarrow> string \<Rightarrow> err + address" where
  "addr_UnmarshalJSON dec bs = UnmarshalQuoted (CommonErr ErrInvalidAddressFormat) (ParseAddress dec) bs"

definition base58_spec :: "(bytes \<Rightarrow> string) \<Rightarrow> (string \<Rightarrow> bytes option) \<Rightarrow> bool" where
  "base58_spec enc dec \<longleftrightarrow>
     (\<forall>bs. dec (enc bs) = Some bs) \<and> (\<forall>s. CHR ''_'' \<in> set s \<longrightarrow> dec s = None)"

section \<open>The fields of an address\<close>

lemma NewAddress_eq:
  "NewAddress h i m = BE_Uint32ToBytes h @ BE_Uint16ToBytes i @ BE_Uint64ToBytes m"
proof -
  have "go_copy (zeros AddressSize) (BE_Uint32ToBytes h) = BE_Uint32ToBytes h @ zeros 10"
    by (simp add: go_copy_def AddressSize_def)
  then show ?thesis by (simp add: NewAddress_def copy_at_def go_copy_def)
qed

lemma is_address_NewAddress [simp]: "is_address (NewAddress h i m)"
  by (simp add: NewAddress_eq is_address_def AddressSize_def)

lemma addr_fields [simp]:
  "addr_Height (NewAddress h i m) = Some h"
  "addr_Index (NewAddress h i m) = Some i"
  "addr_Nonce (NewAddress h i m) = Some m"
  by (simp_all add: NewAddress_eq addr_Height_def addr_Index_def addr_Nonce_def)

lemma NewAddress_inj: "NewAddress h i m = NewAddress h' i' m' \<longleftrightarrow> h = h' \<and> i = i' \<and> m = m'"
  by (metis addr_fields option.inject)

lemma xor_fold: "fold (\<lambda>c cs. cs XOR c) xs (a :: u8) = a XOR fold (\<lambda>c cs. cs XOR c) xs 0"
proof (induction xs arbitrary: a)
  case Nil
  then show ?case by simp
next
  case (Cons x xs)
  have "fold (\<lambda>c cs. cs XOR c) (x # xs) a = (a XOR x) XOR fold (\<lambda>c cs. cs XOR c) xs 0"
    using Cons[of "a XOR x"] by (simp only: fold_simps)
  moreover have "fold (\<lambda>c cs. cs XOR c) (x # xs) 0 = x XOR fold (\<lambda>c cs. cs XOR c) xs 0"
    using Cons[of "0 XOR x"] by (simp only: fold_simps xor.left_neutral)
  ultimately show ?case by (simp only: xor.assoc)
qed

lemma xor_left_cancel: "a XOR b = a XOR c \<longleftrightarrow> b = (c :: u8)"
proof
  assume "a XOR b = a XOR c"
  then have "a XOR (a XOR b) = a XOR (a XOR c)" by simp
  then show "b = c" by (simp flip: xor.assoc)
qed simp

lemma xor_cancel: "a XOR b = a XOR c \<longleftrightarrow> b = (c :: u8)" "b XOR a = c XOR a \<longleftrightarrow> b = c"
  using xor_left_cancel[of a b c] by (simp_all add: xor.commute[of _ a])

lemma addr_Checksum_append: "addr_Checksum (xs @ ys) = addr_Checksum xs XOR addr_Checksum ys"
  using xor_fold[of ys "fold (\<lambda>c cs. cs XOR c) xs 0"] by (simp add: addr_Checksum_def)

lemma addr_Checksum_Cons: "addr_Checksum (x # xs) = x XOR addr_Checksum xs"
  using xor_fold[of xs x] by (simp add: addr_Checksum_def)

text \<open>
  Every account the chain creates gets a distinct address: an address determines, and is
  determined by, the height, the transaction index and the magic it was built from; and the
  checksum byte of its printed form detects every change of a single byte.
\<close>

theorem address_identity:
  "addr_Height (NewAddress h i m) = Some h \<and> addr_Index (NewAddress h i m) = Some i \<and>
   addr_Nonce (NewAddress h i m) = Some m \<and>
   (NewAddress h i m = NewAddress h' i' m' \<longleftrightarrow> h = h' \<and> i = i' \<and> m = m') \<and>
   (addr_Checksum (xs @ x # ys) = addr_Checksum (xs @ y # ys) \<longleftrightarrow> x = y)"
proof -
  have "addr_Checksum (xs @ x # ys) = addr_Checksum (xs @ y # ys) \<longleftrightarrow> x = y"
    by (simp add: addr_Checksum_append addr_Checksum_Cons xor_cancel)
  then show ?thesis by (simp add: NewAddress_inj)
qed

section \<open>The printed form\<close>

lemma go_copy_trimRight:
  assumes "length (trimRight 0 a) \<le> n" and "n \<le> length a"
  shows "go_copy (zeros n) (trimRight 0 a) = take n (a :: bytes)"
proof -
  let ?t = "trimRight 0 a"
  have "take n a = take n (?t @ zeros (length a - length ?t))"
    by (simp only: trimRight_pad)
  also have "\<dots> = ?t @ zeros (n - length ?t)"
    using assms by (simp add: min_def)
  finally show ?thesis using assms(1) by (simp add: go_copy_def)
qed

lemma length_xor_pairs [simp]: "length (xor_pairs b0 b1 xs) = length xs"
  by (induction b0 b1 xs rule: xor_pairs.induct) auto

lemma xor_pairs_twice: "even (length xs) \<Longrightarrow> xor_pairs b0 b1 (xor_pairs b0 b1 xs) = xs"
  by (induction b0 b1 xs rule: xor_pairs.induct) (auto simp: xor.assoc)

lemma xor_pairs_eq_iff:
  assumes "even (length xs)" and "even (length ys)"
  shows "xor_pairs b0 b1 xs = ys \<longleftrightarrow> xs = xor_pairs b0 b1 ys"
  using xor_pairs_twice[OF assms(1)] xor_pairs_twice[OF assms(2)] by auto

definition addr_textual :: "address \<Rightarrow> bool" where
  "addr_textual addr \<longleftrightarrow>
     (if addr ! 6 = 0 \<and> addr ! 7 = 0 then \<forall>x\<in>set (drop 8 addr). x = 0
      else let t = xor_pairs (addr ! 6) (addr ! 7) (drop 8 addr); w = takeWhile (\<lambda>b. b \<noteq> 0) t
           in w \<noteq> [] \<and> CHR ''_'' \<notin> set (bytes_str w) \<and> (\<forall>x\<in>set (dropWhile (\<lambda>b. b \<noteq> 0) t). x = 0))"

lemma addr_split:
  assumes "is_address addr"
  obtains p b0 b1 t where "addr = p @ b0 # b1 # t" and "length p = 6" and "length t = 6"
    and "addr ! 6 = b0" and "addr ! 7 = b1" and "drop 8 addr = t"
proof -
  have len: "length addr = 14" using assms by (simp add: is_address_def AddressSize_def)
  have "drop 6 addr = addr ! 6 # drop 7 addr" "drop 7 addr = addr ! 7 # drop 8 addr"
    using Cons_nth_drop_Suc[of 6 addr] Cons_nth_drop_Suc[of 7 addr] len by simp_all
  then have "addr = take 6 addr @ addr ! 6 # addr ! 7 # drop 8 addr"
    using append_take_drop_id[of 6 addr] by simp
  moreover have "length (take 6 addr) = 6" "length (drop 8 addr) = 6" using len by auto
  ultimately show thesis by (rule that) auto
qed

lemma base58_no_underscore: "base58_spec enc dec \<Longrightarrow> CHR ''_'' \<notin> set (enc bs)"
  unfolding base58_spec_def by (metis option.distinct(1))

lemma base58_round: "base58_spec enc dec \<Longrightarrow> dec (enc bs) = Some bs"
  by (simp add: base58_spec_def)

text \<open>The buffer \<^verbatim>\<open>bs\<close> of \<^verbatim>\<open>String\<close> in its two shapes.\<close>

lemma addr_buffer_short:
  assumes "is_address a" and "length (trimRight 0 a) < 7"
  shows "(copy_at 1 (zeros 7) (trimRight 0 a))[0 := c] = c # take 6 a"
proof -
  have "go_copy (zeros 6) (trimRight 0 a) = take 6 a"
    using assms by (intro go_copy_trimRight) (auto simp: is_address_def AddressSize_def)
  then show ?thesis by (simp add: copy_at_def)
qed

lemma addr_buffer_long:
  assumes "is_address a"
  shows "(copy_at 1 (zeros 15) (trimRight 0 a))[0 := c] = c # a"
proof -
  have "go_copy (zeros 14) (trimRight 0 a) = take 14 a"
    using assms trimRight_length[of 0 a]
    by (intro go_copy_trimRight) (auto simp: is_address_def AddressSize_def)
  then show ?thesis using assms by (simp add: copy_at_def is_address_def AddressSize_def)
qed

lemma addr_String_plain:
  assumes "is_address a" and "a ! 6 = 0" and "a ! 7 = 0"
  shows "addr_String enc a = enc (if \<forall>x\<in>set (drop 6 a). x = 0 then addr_Checksum a # take 6 a
    else addr_Checksum a # a)"
proof (cases "length (trimRight 0 a) < 7")
  case True
  then have "\<forall>x\<in>set (drop 6 a). x = 0" using trimRight_le_iff[of 0 a 6] by simp
  then show ?thesis
    using addr_buffer_short[OF assms(1) True] assms True by (simp add: addr_String_def)
next
  case False
  then have "\<not> (\<forall>x\<in>set (drop 6 a). x = 0)" using trimRight_le_iff[of 0 a 6] by linarith
  note if_not_P[OF this, simp]
  show ?thesis
    using addr_buffer_long[OF assms(1)] assms False unfolding addr_String_def by simp
qed

lemma addr_String_symbol:
  assumes "is_address a" and "\<not> (a ! 6 = 0 \<and> a ! 7 = 0)"
  shows "addr_String enc a =
    bytes_str (takeWhile (\<lambda>b. b \<noteq> 0) (xor_pairs (a ! 6) (a ! 7) (drop 8 a))) @ CHR ''_'' #
    enc (addr_Checksum a # take 8 a)"
proof -
  obtain p b0 b1 t where "a = p @ b0 # b1 # t" "length p = 6" "a ! 6 = b0" "a ! 7 = b1"
    using addr_split[OF assms(1)] by metis
  then have "drop 6 a = a ! 6 # a ! 7 # t" by simp
  then have "\<not> (\<forall>x\<in>set (drop 6 a). x = 0)" using assms(2) by auto
  then have "\<not> length (trimRight 0 a) < 7" using trimRight_le_iff[of 0 a 6] by linarith
  then show ?thesis
    using addr_buffer_long[OF assms(1)] assms(2) unfolding addr_String_def by (auto simp: Let_def)
qed

lemma ParseAddress_plain:
  assumes "base58_spec enc dec"
  shows "ParseAddress dec (enc (c # p)) =
    (if length p \<noteq> 6 then Inl (CommonErr ErrInvalidAddressFormat)
     else if c \<noteq> addr_Checksum (p @ zeros 8) then Inl (CommonErr ErrInvalidAddressCheckSum)
     else Inr (p @ zeros 8))"
  using base58_no_underscore[OF assms] base58_round[OF assms]
  by (simp add: ParseAddress_def AddressSize_def go_copy_def)

lemma ParseAddress_symbol:
  assumes "CHR ''_'' \<notin> set w" and "length p = 6" and "length w \<le> 6" and "b0 \<noteq> 0 \<or> b1 \<noteq> 0"
    and "base58_spec enc dec"
  defines "a \<equiv> p @ b0 # b1 # xor_pairs b0 b1 (str_bytes w @ zeros (6 - length w))"
  shows "ParseAddress dec (w @ CHR ''_'' # enc (c # p @ [b0, b1])) =
    (if w = [] then Inl (CommonErr ErrInvalidAddressFormat)
     else if c \<noteq> addr_Checksum a then Inl (CommonErr ErrInvalidAddressCheckSum)
     else Inr a)"
proof -
  have "go_copy (zeros 6) (str_bytes w) = str_bytes w @ zeros (6 - length w)"
    using assms(3) by (simp add: go_copy_def)
  then show ?thesis
    using assms(1-4) base58_round[OF assms(5)] by (auto simp: ParseAddress_def AddressSize_def go_copy_def copy_at_def a_def
        nth_append Let_def)
qed

lemma ParseAddress_underscores:
  assumes "base58_spec enc dec" and "CHR ''_'' \<in> set w"
  shows "ParseAddress dec (w @ CHR ''_'' # s) = Inl (ExternalErr 58)"
proof -
  obtain a b where w: "w = a @ CHR ''_'' # b" "CHR ''_'' \<notin> set a"
    using split_list_first[OF assms(2)] by blast
  have "dec (b @ CHR ''_'' # s) = None" using assms(1) by (simp add: base58_spec_def)
  then show ?thesis using w by (simp add: ParseAddress_def)
qed

lemma takeWhile_pad_iff:
  fixes t :: bytes
  assumes "length t = n"
  defines "w \<equiv> takeWhile (\<lambda>b. b \<noteq> 0) t"
  shows "w @ zeros (n - length w) = t \<longleftrightarrow> (\<forall>x\<in>set (dropWhile (\<lambda>b. b \<noteq> 0) t). x = 0)"
proof -
  have t: "t = w @ dropWhile (\<lambda>b. b \<noteq> 0) t" by (simp add: w_def)
  then have len: "n - length w = length (dropWhile (\<lambda>b. b \<noteq> 0) t)"
    using assms(1) by (metis add_diff_cancel_left' length_append)
  have "w @ zeros (n - length w) = t \<longleftrightarrow> zeros (n - length w) = dropWhile (\<lambda>b. b \<noteq> 0) t"
    by (subst t) simp
  also have "\<dots> \<longleftrightarrow> (\<forall>x\<in>set (dropWhile (\<lambda>b. b \<noteq> 0) t). x = 0)"
    using len by (simp add: replicate_eq_iff)
  finally show ?thesis .
qed

text \<open>
  \<^verbatim>\<open>ParseAddress\<close> reads back what \<^verbatim>\<open>Address.String\<close> prints exactly for the addresses with a zero
  magic and for those whose magic is a symbol: two mask bytes, then a non-empty name without
  underscore, padded with zeros and masked. Every other address prints as a text that is
  rejected or names another address.
\<close>

theorem address_text_roundtrip:
  assumes "is_address a" and "base58_spec enc dec"
  shows "ParseAddress dec (addr_String enc a) = Inr a \<longleftrightarrow> addr_textual a"
proof (cases "a ! 6 = 0 \<and> a ! 7 = 0")
  case True
  obtain p t where a: "a = p @ 0 # 0 # t" "length p = 6" "length t = 6" "drop 8 a = t"
    using addr_split[OF assms(1)] True by metis
  note plain = addr_String_plain[OF assms(1)] ParseAddress_plain[OF assms(2)]
  show ?thesis
  proof (cases "\<forall>x\<in>set t. x = 0")
    case zero: True
    then have "t = zeros 6" using a(3) by (metis replicate_eqI)
    then have a0: "a = p @ zeros 8" using a(1) by (simp add: numeral_eq_Suc)
    then have "addr_String enc a = enc (addr_Checksum (p @ zeros 8) # p)"
      using plain(1) True a(2) by simp
    then show ?thesis using plain(2) a(2,4) a0 zero True by (simp add: addr_textual_def)
  next
    case nonzero: False
    have "drop 6 a = 0 # 0 # t" using a(1,2) by simp
    then have "\<not> (\<forall>x\<in>set (drop 6 a). x = 0)" using nonzero by auto
    then have "addr_String enc a = enc (addr_Checksum a # a)"
      using plain(1) True by presburger
    moreover have "length a \<noteq> 6" using a by simp
    ultimately show ?thesis using plain(2) a(4) nonzero True by (simp add: addr_textual_def)
  qed
next
  case False
  obtain p b0 b1 t where a: "a = p @ b0 # b1 # t" "length p = 6" "length t = 6"
      "a ! 6 = b0" "a ! 7 = b1" "drop 8 a = t"
    using addr_split[OF assms(1)] .
  let ?w = "takeWhile (\<lambda>b. b \<noteq> 0) (xor_pairs b0 b1 t)"
  let ?s = "enc (addr_Checksum a # p @ [b0, b1])"
  let ?r = "xor_pairs b0 b1 (?w @ zeros (6 - length ?w))"
  have str: "addr_String enc a = bytes_str ?w @ CHR ''_'' # ?s"
    using addr_String_symbol[OF assms(1) False] a by simp
  have w6: "length ?w \<le> 6" using length_takeWhile_le[of _ "xor_pairs b0 b1 t"] a(3) by (metis length_xor_pairs)
  have r: "?r = t \<longleftrightarrow> (\<forall>x\<in>set (dropWhile (\<lambda>b. b \<noteq> 0) (xor_pairs b0 b1 t)). x = 0)"
    using takeWhile_pad_iff[of "xor_pairs b0 b1 t" 6]
      xor_pairs_eq_iff[of "?w @ zeros (6 - length ?w)" t b0 b1] a(3) w6 by simp
  show ?thesis
  proof (cases "CHR ''_'' \<in> set (bytes_str ?w)")
    case True
    then show ?thesis
      using ParseAddress_underscores[OF assms(2)] str False a(4-6) by (auto simp: addr_textual_def Let_def)
  next
    case noUnderscore: False
    have "ParseAddress dec (bytes_str ?w @ CHR ''_'' # ?s) =
      (if bytes_str ?w = [] then Inl (CommonErr ErrInvalidAddressFormat)
       else if addr_Checksum a \<noteq> addr_Checksum (p @ b0 # b1 # ?r) then Inl (CommonErr ErrInvalidAddressCheckSum)
       else Inr (p @ b0 # b1 # ?r))"
      using ParseAddress_symbol[OF noUnderscore a(2) _ _ assms(2)] w6 False a(4,5) by simp
    moreover have "p @ b0 # b1 # ?r = a \<longleftrightarrow> ?r = t" using a(1) by simp
    moreover have "bytes_str ?w = [] \<longleftrightarrow> ?w = []" by (simp add: bytes_str_def)
    moreover have "addr_textual a \<longleftrightarrow> ?w \<noteq> [] \<and> ?r = t"
      unfolding addr_textual_def if_not_P[OF False] using r noUnderscore by (simp add: a(4-6) Let_def)
    ultimately show ?thesis unfolding str by (metis sum.distinct(1) sum.inject(2))
  qed
qed

theorem address_text_roundtrip_witness:
  "ParseAddress HexDecode (addr_String HexEncode [0, 0, 0, 1, 0, 2, 1, 1, 0x46, 0x49, 1, 1, 1, 1]) =
     Inr [0, 0, 0, 1, 0, 2, 1, 1, 0x46, 0x49, 1, 1, 1, 1] \<and>
   ParseAddress HexDecode (addr_String HexEncode [0, 0, 0, 1, 0, 2, 0, 0, 0, 0, 0, 0, 0, 1]) \<noteq>
     Inr [0, 0, 0, 1, 0, 2, 0, 0, 0, 0, 0, 0, 0, 1]"
proof -
  have spec: "base58_spec HexEncode HexDecode"
    by (simp add: base58_spec_def HexDecode_underscore)
  have "addr_textual [0, 0, 0, 1, 0, 2, 1, 1, 0x46, 0x49, 1, 1, 1, 1]"
    by code_simp
  moreover have "\<not> addr_textual [0, 0, 0, 1, 0, 2, 0, 0, 0, 0, 0, 0, 0, 1]"
    by code_simp
  ultimately show ?thesis
    using address_text_roundtrip[OF _ spec] by (simp add: is_address_def AddressSize_def)
qed

section \<open>Identifiers\<close>

definition UnmarshalID :: "u64 \<Rightarrow> u32 \<times> u16 \<times> u16" where
  "UnmarshalID i = (ucast (drop_bit 32 i), ucast (drop_bit 16 i), ucast i)"

definition MarshalID :: "u32 \<Rightarrow> u16 \<Rightarrow> u16 \<Rightarrow> u64" where
  "MarshalID height index n = push_bit 32 (ucast height) OR push_bit 16 (ucast index) OR ucast n"

definition TransactionID :: "u32 \<Rightarrow> u16 \<Rightarrow> string" where
  "TransactionID Height Index =
     HexEncode (copy_at 4 (go_copy (zeros 6) (BE_Uint32ToBytes Height)) (BE_Uint16ToBytes Index))"

definition ParseTransactionID :: "string \<Rightarrow> err + (u32 \<times> u16)" where
  "ParseTransactionID TXID =
     (if length TXID \<noteq> 12 then Inl (TypesErr ErrInvalidTransactionIDFormat)
      else case HexDecode TXID of
             None \<Rightarrow> Inl (ExternalErr 16)
           | Some bs \<Rightarrow>
               (case (BE_Uint32 bs, BE_Uint16 (drop 4 bs)) of
                  (Some Height, Some Index) \<Rightarrow> Inr (Height, Index)
                | _ \<Rightarrow> Inl Panic))"

definition ToTimeSlot :: "u64 \<Rightarrow> u32" where
  "ToTimeSlot timestamp = ucast (timestamp div 5000000000)"

definition name_char :: "char \<Rightarrow> bool" where
  "name_char ch =
     (let c = of_char ch :: nat
      in \<not> ((c < 48 \<or> 57 < c) \<and> (c < 97 \<or> 122 < c) \<and> (c < 65 \<or> 90 < c) \<and>
           ch \<noteq> CHR ''.'' \<and> ch \<noteq> CHR ''-'' \<and> ch \<noteq> CHR ''_'' \<and> ch \<noteq> CHR ''@''))"

definition IsAllowedAccountName :: "(string \<Rightarrow> bytes option) \<Rightarrow> string \<Rightarrow> bool" where
  "IsAllowedAccountName dec Name =
     (if length Name < 8 \<or> 40 < length Name then False
      else if \<not> isl (ParseAddress dec Name) then False
      else list_all name_char Name)"

lemma MarshalID_bits:
  "bit (MarshalID h i n) k \<longleftrightarrow>
     (if k < 16 then bit n k else if k < 32 then bit i (k - 16) else k < 64 \<and> bit h (k - 32))"
  unfolding MarshalID_def
  by (auto simp: bit_or_iff bit_push_bit_iff bit_ucast_iff dest: bit_imp_le_length)

lemma UnmarshalID_MarshalID [simp]: "UnmarshalID (MarshalID h i n) = (h, i, n)"
proof -
  have "ucast (drop_bit 32 (MarshalID h i n)) = h"
    by (rule bit_word_eqI) (simp add: bit_ucast_iff bit_drop_bit_eq MarshalID_bits)
  moreover have "ucast (drop_bit 16 (MarshalID h i n)) = i"
    by (rule bit_word_eqI) (simp add: bit_ucast_iff bit_drop_bit_eq MarshalID_bits)
  moreover have "ucast (MarshalID h i n) = n"
    by (rule bit_word_eqI) (simp add: bit_ucast_iff MarshalID_bits)
  ultimately show ?thesis by (simp add: UnmarshalID_def)
qed

lemma MarshalID_UnmarshalID: "UnmarshalID x = (h, i, n) \<Longrightarrow> MarshalID h i n = x"
  by (rule bit_word_eqI)
     (auto simp: UnmarshalID_def MarshalID_bits bit_ucast_iff bit_drop_bit_eq not_less)

lemma ParseTransactionID_round: "ParseTransactionID (TransactionID h i) = Inr (h, i)"
proof -
  have "copy_at 4 (go_copy (zeros 6) (BE_Uint32ToBytes h)) (BE_Uint16ToBytes i) =
      BE_Uint32ToBytes h @ BE_Uint16ToBytes i"
    by (simp add: copy_at_def go_copy_def)
  then show ?thesis by (simp add: TransactionID_def ParseTransactionID_def)
qed

text \<open>
  The packed output identifier \<^verbatim>\<open>height<<32 | index<<16 | n\<close> and the printed transaction identifier
  lose nothing: packing and unpacking are mutually inverse on all 64 bit values, and parsing a
  printed transaction identifier gives the height and index back.
\<close>

theorem identifier_roundtrips:
  "UnmarshalID (MarshalID h i n) = (h, i, n) \<and>
   (case UnmarshalID x of (a, b, c) \<Rightarrow> MarshalID a b c) = x \<and>
   ParseTransactionID (TransactionID h i) = Inr (h, i)"
  using MarshalID_UnmarshalID[of x] ParseTransactionID_round by (auto split: prod.split)

end
