(* ===== verification/Keys.thy ===== *)
theory Keys
  imports Address Ordered_Map
begin

text \<open>
  \<^verbatim>\<open>common/publickey.go\<close>, \<^verbatim>\<open>publichash.go\<close>, \<^verbatim>\<open>signature.go\<close> and \<^verbatim>\<open>util_verify.go\<close>. The recovery of a
  public key from a signature is elliptic curve code bound from C; it is the argument
  \<open>recover\<close> of the definitions that verify signatures, an arbitrary function, and no theorem
  assumes anything about it.
\<close>

section \<open>Public keys, public hashes and signatures\<close>

type_synonym pubkey = bytes
type_synonym pubhash = bytes
type_synonym signature = bytes

definition PublicKeySize :: nat where
  "PublicKeySize = 33"

definition PublicHashSize :: nat where
  "PublicHashSize = 31"

definition SignatureSize :: nat where
  "SignatureSize = 65"

definition pubkey_Checksum :: "pubkey \<Rightarrow> u8" where
  "pubkey_Checksum pubkey = fold (\<lambda>i cs. cs XOR pubkey ! i) [0..<length pubkey] 0"

definition pubkey_String :: "pubkey \<Rightarrow> string" where
  "pubkey_String pubkey = HexEncode pubkey"

definition ParsePublicKey :: "string \<Rightarrow> err + pubkey" where
  "ParsePublicKey str =
     (if length str \<noteq> PublicKeySize * 2 then Inl (CommonErr ErrInvalidPublicKeyFormat)
      else case HexDecode str of
             None \<Rightarrow> Inl (ExternalErr 16)
           | Some bs \<Rightarrow> Inr (go_copy (zeros PublicKeySize) bs))"

definition sig_String :: "signature \<Rightarrow> string" where
  "sig_String sig = HexEncode sig"

definition ParseSignature :: "string \<Rightarrow> err + signature" where
  "ParseSignature str =
     (if length str \<noteq> SignatureSize * 2 then Inl (CommonErr ErrInvalidSignatureFormat)
      else case HexDecode str of
             None \<Rightarrow> Inl (ExternalErr 16)
           | Some bs \<Rightarrow> Inr (go_copy (zeros SignatureSize) bs))"

text \<open>The first byte of a public hash is the checksum of the key, the rest the truncated hash.\<close>

definition NewPublicHash :: "pubkey \<Rightarrow> pubhash" where
  "NewPublicHash pubkey =
     (let h = DoubleHash pubkey
      in copy_at 1 ((zeros PublicHashSize)[0 := pubkey_Checksum pubkey]) (take (length h - 2) h))"

definition pubhash_String :: "(bytes \<Rightarrow> string) \<Rightarrow> pubhash \<Rightarrow> string" where
  "pubhash_String enc pubhash = enc (trimRight 0 pubhash)"

definition ParsePublicHash :: "(string \<Rightarrow> bytes option) \<Rightarrow> string \<Rightarrow> err + pubhash" where
  "ParsePublicHash dec str =
     (case dec str of
        None \<Rightarrow> Inl (ExternalErr 58)
      | Some bs \<Rightarrow> Inr (go_copy (zeros PublicHashSize) bs))"

lemma NewPublicHash_eq:
  "NewPublicHash pubkey = pubkey_Checksum pubkey # take 30 (sha256 (sha256 pubkey))"
  by (simp add: NewPublicHash_def copy_at_def go_copy_def PublicHashSize_def DoubleHash_def
      numeral_eq_Suc)

lemma length_NewPublicHash [simp]: "length (NewPublicHash pubkey) = PublicHashSize"
  by (simp add: NewPublicHash_eq PublicHashSize_def)

text \<open>
  Keys, signatures, hashes and public hashes survive printing and parsing, although
  \<^verbatim>\<open>PublicHash.String\<close> drops trailing zero bytes and \<^verbatim>\<open>ParsePublicHash\<close> checks no length.
\<close>

theorem key_text_roundtrips:
  assumes "base58_spec enc dec" and "length ph = PublicHashSize" and "length pk = PublicKeySize"
    and "length sig = SignatureSize" and "is_hash h"
  shows "ParsePublicHash dec (pubhash_String enc ph) = Inr ph \<and>
    ParsePublicKey (pubkey_String pk) = Inr pk \<and>
    ParseSignature (sig_String sig) = Inr sig \<and> ParseHash (Hash256_String h) = Inr h"
proof -
  have "go_copy (zeros PublicHashSize) (trimRight 0 ph) = ph"
    using go_copy_trimRight[of ph "length ph"] trimRight_length[of 0 ph] assms(2) by simp
  then have "ParsePublicHash dec (pubhash_String enc ph) = Inr ph"
    using base58_round[OF assms(1)] by (simp add: ParsePublicHash_def pubhash_String_def)
  moreover have "ParsePublicKey (pubkey_String pk) = Inr pk"
    using assms(3) by (simp add: ParsePublicKey_def pubkey_String_def go_copy_full)
  moreover have "ParseSignature (sig_String sig) = Inr sig"
    using assms(4) by (simp add: ParseSignature_def sig_String_def go_copy_full)
  ultimately show ?thesis using ParseHash_String[OF assms(5)] by simp
qed

theorem key_text_roundtrips_witness:
  "ParsePublicHash HexDecode (pubhash_String HexEncode (replicate 20 7 @ zeros 11)) =
     Inr (replicate 20 7 @ zeros 11) \<and>
   ParsePublicKey (pubkey_String (replicate 33 1)) = Inr (replicate 33 1) \<and>
   ParseSignature (sig_String (replicate 65 2)) = Inr (replicate 65 2) \<and>
   ParseHash (Hash256_String (replicate 32 3)) = Inr (replicate 32 3)"
  by (rule key_text_roundtrips)
     (simp_all add: base58_spec_def HexDecode_underscore PublicHashSize_def PublicKeySize_def
        SignatureSize_def is_hash_def Hash256Size_def)

section \<open>Majority of signatures\<close>

type_synonym recover = "hash256 \<Rightarrow> signature \<Rightarrow> err + pubkey"

text \<open>The loop of \<^verbatim>\<open>ValidateSignaturesMajority\<close> collects the signers in \<open>sigMap\<close>;
  \<open>KeyMap[pubhash]\<close> is false for an absent key.\<close>

fun collect_signers ::
  "recover \<Rightarrow> hash256 \<Rightarrow> (pubhash, bool) omap \<Rightarrow> signature list \<Rightarrow> (pubhash, bool) omap \<Rightarrow>
   err + (pubhash, bool) omap" where
  "collect_signers recover signedHash KeyMap [] sigMap = Inr sigMap"
| "collect_signers recover signedHash KeyMap (sig # sigs) sigMap =
     (case recover signedHash sig of
        Inl e \<Rightarrow> Inl e
      | Inr pubkey \<Rightarrow>
          let pubhash = NewPublicHash pubkey
          in if om_get KeyMap pubhash \<noteq> Some True then Inl (CommonErr ErrInvalidSignature)
             else collect_signers recover signedHash KeyMap sigs (om_put pubhash True sigMap))"

definition ValidateSignaturesMajority ::
  "recover \<Rightarrow> hash256 \<Rightarrow> signature list \<Rightarrow> (pubhash, bool) omap \<Rightarrow> err + unit" where
  "ValidateSignaturesMajority recover signedHash sigs KeyMap =
     (if length sigs \<noteq> om_len KeyMap div 2 + 1 then Inl (CommonErr ErrInsufficientSignature)
      else case collect_signers recover signedHash KeyMap sigs [] of
             Inl e \<Rightarrow> Inl e
           | Inr sigMap \<Rightarrow>
               if om_len sigMap \<noteq> length sigs then Inl (CommonErr ErrDuplicatedSignature)
               else Inr ())"

definition signer :: "recover \<Rightarrow> hash256 \<Rightarrow> signature \<Rightarrow> pubhash" where
  "signer recover h sig = (case recover h sig of Inr pk \<Rightarrow> NewPublicHash pk | Inl _ \<Rightarrow> [])"

lemma collect_signers_success:
  "collect_signers recover h K sigs m = Inr m' \<Longrightarrow> om_inv m \<Longrightarrow>
   om_inv m' \<and> fst ` set m' = fst ` set m \<union> signer recover h ` set sigs \<and>
   (\<forall>sig\<in>set sigs. \<not> isl (recover h sig) \<and> om_get K (signer recover h sig) = Some True)"
proof (induction sigs arbitrary: m)
  case Nil
  then show ?case by simp
next
  case (Cons sig sigs)
  then obtain pk where pk: "recover h sig = Inr pk" "om_get K (NewPublicHash pk) = Some True"
      "collect_signers recover h K sigs (om_put (NewPublicHash pk) True m) = Inr m'"
    by (auto simp: Let_def split: sum.splits if_splits)
  then show ?case
    using Cons.IH[OF pk(3)] Cons.prems(2) by (auto simp: signer_def set_om_put)
qed

lemma om_len_card: "om_inv m \<Longrightarrow> om_len m = card (fst ` set m)"
  using om.ascend_distinct[of m] by (simp add: om_len_def om_each_def distinct_card flip: set_map)

lemma majority_signers:
  assumes "ValidateSignaturesMajority recover h sigs K = Inr ()"
  shows "card (signer recover h ` set sigs) = om_len K div 2 + 1"
    and "signer recover h ` set sigs \<subseteq> {k. om_get K k = Some True}"
    and "\<forall>sig\<in>set sigs. \<not> isl (recover h sig)"
proof -
  obtain m where m: "collect_signers recover h K sigs [] = Inr m" "om_len m = length sigs"
      "length sigs = om_len K div 2 + 1"
    using assms by (auto simp: ValidateSignaturesMajority_def split: if_splits sum.splits)
  note c = collect_signers_success[OF m(1)]
  show "card (signer recover h ` set sigs) = om_len K div 2 + 1"
    using c om_len_card[of m] m(2,3) by simp
  show "signer recover h ` set sigs \<subseteq> {k. om_get K k = Some True}"
    and "\<forall>sig\<in>set sigs. \<not> isl (recover h sig)"
    using c by auto
qed

text \<open>
  Two sets of signatures accepted by \<^verbatim>\<open>ValidateSignaturesMajority\<close> for the same observer keys
  have a signer in common: no two conflicting hashes both reach a majority unless an observer
  signs both.
\<close>

lemma majorities_intersect:
  assumes "om_inv K"
    and "ValidateSignaturesMajority recover h sigs K = Inr ()"
    and "ValidateSignaturesMajority recover h' sigs' K = Inr ()"
  shows "\<exists>sig\<in>set sigs. \<exists>sig'\<in>set sigs'. \<exists>pk pk'. recover h sig = Inr pk \<and>
    recover h' sig' = Inr pk' \<and> NewPublicHash pk = NewPublicHash pk' \<and>
    om_get K (NewPublicHash pk) = Some True"
proof -
  let ?A = "signer recover h ` set sigs" and ?B = "signer recover h' ` set sigs'"
  note a = majority_signers[OF assms(2)] and b = majority_signers[OF assms(3)]
  have keys: "{k. om_get K k = Some True} \<subseteq> fst ` set K"
    by (auto simp: om_get_def dest!: map_of_SomeD) force
  have "?A \<inter> ?B \<noteq> {}"
  proof
    assume "?A \<inter> ?B = {}"
    then have "card (?A \<union> ?B) = 2 * (om_len K div 2 + 1)"
      using a(1) b(1) by (simp add: card_Un_disjoint)
    moreover have "card (?A \<union> ?B) \<le> om_len K"
      unfolding om_len_card[OF assms(1)] using a(2) b(2) keys by (intro card_mono) auto
    moreover have "om_len K < 2 * (om_len K div 2 + 1)" by simp
    ultimately show False by linarith
  qed
  then obtain s s' where s: "s \<in> set sigs" "s' \<in> set sigs'" "signer recover h s = signer recover h' s'"
    by auto
  then obtain pk pk' where "recover h s = Inr pk" "recover h' s' = Inr pk'"
    using a(3) b(3) by (metis isl_def sumE)
  then show ?thesis using s a(2) by (intro bexI exI) (auto simp: signer_def)
qed

end
