(* ===== verification/Txpool.thy ===== *)
theory Txpool
  imports Linked_Queue Keys
begin

text \<open>
  \<^verbatim>\<open>core/txpool\<close>: the transaction pool, one \<^verbatim>\<open>LinkedQueue\<close> per five second time slot and a map from
  hashes to items. A transaction is any value; the argument \<open>ts\<close> is its \<^verbatim>\<open>Timestamp\<close> method.
  The queues of \<^verbatim>\<open>slotMap\<close> are reached only through the pool, so the pointers to them are the
  queue values themselves. Go iterates maps in an unspecified order; where an operation
  iterates, the model takes the keys in ascending order, and the statements about the
  collected transactions are about their set.
\<close>

section \<open>Model\<close>

record 'tx pool_item =
  pi_TxType :: u16
  pi_TxHash :: hash256
  pi_Transaction :: 'tx
  pi_Signatures :: "signature list"
  pi_Signers :: "pubhash list"

record 'tx txpool =
  tp_slotMap :: "(u32, 'tx pool_item linked_queue) omap"
  tp_txhashMap :: "(hash256, 'tx pool_item) omap"

definition NewTransactionPool :: "'tx txpool" where
  "NewTransactionPool = \<lparr>tp_slotMap = [], tp_txhashMap = []\<rparr>"

definition tp_IsExist :: "hash256 \<Rightarrow> 'tx txpool \<Rightarrow> bool" where
  "tp_IsExist TxHash tp = om_has (tp_txhashMap tp) TxHash"

definition tp_Size :: "'tx txpool \<Rightarrow> nat" where
  "tp_Size tp = om_len (tp_txhashMap tp)"

definition tp_Push ::
  "('tx \<Rightarrow> u64) \<Rightarrow> u16 \<Rightarrow> hash256 \<Rightarrow> 'tx \<Rightarrow> signature list \<Rightarrow> pubhash list \<Rightarrow> ('tx txpool, unit) go_meth" where
  "tp_Push ts t TxHash tx sigs signers tp =
     (if om_has (tp_txhashMap tp) TxHash then (Inl (PoolErr ErrExistTransaction), tp)
      else
        let item = \<lparr>pi_TxType = t, pi_TxHash = TxHash, pi_Transaction = tx, pi_Signatures = sigs,
                    pi_Signers = signers\<rparr>;
            slot = ToTimeSlot (ts tx);
            q = (case om_get (tp_slotMap tp) slot of None \<Rightarrow> NewLinkedQueue | Some q \<Rightarrow> q)
        in case lq_Push TxHash item q of
             None \<Rightarrow> (Inl Panic, tp)
           | Some (_, q') \<Rightarrow>
               (Inr (), \<lparr>tp_slotMap = om_put slot q' (tp_slotMap tp),
                         tp_txhashMap = om_put TxHash item (tp_txhashMap tp)\<rparr>))"

definition tp_Get :: "hash256 \<Rightarrow> 'tx txpool \<Rightarrow> 'tx pool_item option" where
  "tp_Get TxHash tp = om_get (tp_txhashMap tp) TxHash"

definition tp_GetSigners :: "hash256 \<Rightarrow> 'tx txpool \<Rightarrow> signature list \<times> pubhash list" where
  "tp_GetSigners TxHash tp =
     (case om_get (tp_txhashMap tp) TxHash of
        None \<Rightarrow> ([], [])
      | Some item \<Rightarrow> (pi_Signatures item, pi_Signers item))"

definition tp_Remove :: "('tx \<Rightarrow> u64) \<Rightarrow> hash256 \<Rightarrow> 'tx \<Rightarrow> ('tx txpool, unit) go_meth" where
  "tp_Remove ts TxHash tx tp =
     (let slot = ToTimeSlot (ts tx)
      in case om_get (tp_slotMap tp) slot of
           None \<Rightarrow> (Inr (), tp)
         | Some q \<Rightarrow>
             (case lq_Remove TxHash q of
                None \<Rightarrow> (Inl Panic, tp)
              | Some (_, q') \<Rightarrow>
                  (Inr (), \<lparr>tp_slotMap = om_put slot q' (tp_slotMap tp),
                            tp_txhashMap = om_delete TxHash (tp_txhashMap tp)\<rparr>)))"

text \<open>One outdated slot of \<^verbatim>\<open>Clean\<close>; a queue whose iteration does not end hangs it.\<close>

fun clean_slots :: "u32 list \<Rightarrow> 'tx txpool \<Rightarrow> (err + 'tx list) \<times> 'tx txpool" where
  "clean_slots [] tp = (Inr [], tp)"
| "clean_slots (v # vs) tp =
     (case om_get (tp_slotMap tp) v of
        None \<Rightarrow> clean_slots vs tp
      | Some q \<Rightarrow>
          (case lq_Iter q of
             None \<Rightarrow> (Inl Panic, tp)
           | Some kxs \<Rightarrow>
               let tp' = \<lparr>tp_slotMap = om_delete v (tp_slotMap tp),
                          tp_txhashMap = fold (\<lambda>kx m. om_delete (fst kx) m) kxs (tp_txhashMap tp)\<rparr>
               in (case clean_slots vs tp' of
                     (Inl e, tp'') \<Rightarrow> (Inl e, tp'')
                   | (Inr items, tp'') \<Rightarrow> (Inr (map (\<lambda>kx. pi_Transaction (snd kx)) kxs @ items), tp''))))"

definition tp_Clean :: "u32 \<Rightarrow> ('tx txpool, 'tx list) go_meth" where
  "tp_Clean currentSlot tp =
     clean_slots (filter (\<lambda>slot. slot < currentSlot - 1) (map fst (om_each (tp_slotMap tp)))) tp"

definition pop_slot :: "u32 \<Rightarrow> 'tx pool_item linked_queue \<Rightarrow> ('tx txpool, 'tx pool_item option) go_meth" where
  "pop_slot slot q tp =
     (case lq_Pop q of
        None \<Rightarrow> (Inl Panic, tp)
      | Some (v, q') \<Rightarrow> (Inr v, tp\<lparr>tp_slotMap := om_put slot q' (tp_slotMap tp)\<rparr>))"

definition tp_UnsafePop :: "u32 \<Rightarrow> ('tx txpool, 'tx pool_item option) go_meth" where
  "tp_UnsafePop currentSlot tp =
     (case om_get (tp_slotMap tp) (currentSlot - 1) of
        Some q \<Rightarrow> pop_slot (currentSlot - 1) q tp
      | None \<Rightarrow>
          (case om_get (tp_slotMap tp) currentSlot of
             Some q \<Rightarrow> pop_slot currentSlot q tp
           | None \<Rightarrow> (Inr None, tp)))"

definition tp_List :: "'tx txpool \<Rightarrow> 'tx pool_item list" where
  "tp_List tp = map snd (om_each (tp_txhashMap tp))"

section \<open>Invariant\<close>

text \<open>The queue of a slot refines its specification and holds only transactions of the slot,
  filed under their hash.\<close>

definition items_ok :: "('tx \<Rightarrow> u64) \<Rightarrow> u32 \<Rightarrow> (hash256 \<times> 'tx pool_item) list \<Rightarrow> bool" where
  "items_ok ts slot live \<longleftrightarrow>
     (\<forall>(k, it)\<in>set live. pi_TxHash it = k \<and> ToTimeSlot (ts (pi_Transaction it)) = slot)"

definition slot_ok :: "('tx \<Rightarrow> u64) \<Rightarrow> u32 \<Rightarrow> 'tx pool_item linked_queue \<Rightarrow> bool" where
  "slot_ok ts slot q \<longleftrightarrow> (\<exists>sp. lq_rep q sp \<and> items_ok ts slot (fst sp))"

definition tp_inv :: "('tx \<Rightarrow> u64) \<Rightarrow> 'tx txpool \<Rightarrow> bool" where
  "tp_inv ts tp \<longleftrightarrow> om_inv (tp_slotMap tp) \<and> om_inv (tp_txhashMap tp) \<and>
     (\<forall>slot q. om_get (tp_slotMap tp) slot = Some q \<longrightarrow> slot_ok ts slot q)"

lemma slot_okI: "lq_rep q sp \<Longrightarrow> items_ok ts slot (fst sp) \<Longrightarrow> slot_ok ts slot q"
  unfolding slot_ok_def by blast

lemma items_ok_spec:
  assumes "items_ok ts slot (fst sp)"
  shows "pi_TxHash it = k \<Longrightarrow> ToTimeSlot (ts (pi_Transaction it)) = slot \<Longrightarrow>
      items_ok ts slot (fst (snd (spec_Push k it sp)))"
    and "items_ok ts slot (fst (snd (spec_Pop sp)))"
    and "items_ok ts slot (fst (snd (spec_Remove k sp)))"
    and "fst (spec_Pop sp) = Some it \<Longrightarrow> ToTimeSlot (ts (pi_Transaction it)) = slot"
  using assms
  by (auto simp: items_ok_def spec_Push_def spec_Pop_def spec_Remove_def split: list.splits option.splits)

lemma slot_ok_push:
  assumes "slot_ok ts slot q" and "pi_TxHash it = k" and "ToTimeSlot (ts (pi_Transaction it)) = slot"
  obtains b q' where "lq_Push k it q = Some (b, q')" and "slot_ok ts slot q'"
proof -
  obtain sp where sp: "lq_rep q sp" "items_ok ts slot (fst sp)" using assms(1) by (auto simp: slot_ok_def)
  obtain q' where "lq_Push k it q = Some (fst (spec_Push k it sp), q')" "lq_rep q' (snd (spec_Push k it sp))"
    using lq_Push_refines[OF sp(1)] by metis
  then show thesis using that slot_okI items_ok_spec(1)[OF sp(2) assms(2,3)] by blast
qed

lemma slot_ok_pop:
  assumes "slot_ok ts slot q"
  obtains r q' where "lq_Pop q = Some (r, q')" and "slot_ok ts slot q'"
    and "\<forall>it. r = Some it \<longrightarrow> ToTimeSlot (ts (pi_Transaction it)) = slot"
proof -
  obtain sp where sp: "lq_rep q sp" "items_ok ts slot (fst sp)" using assms(1) by (auto simp: slot_ok_def)
  obtain q' where "lq_Pop q = Some (fst (spec_Pop sp), q')" "lq_rep q' (snd (spec_Pop sp))"
    using lq_Pop_refines[OF sp(1)] by metis
  then show thesis using that slot_okI items_ok_spec(2,4)[OF sp(2)] by metis
qed

lemma slot_ok_remove:
  assumes "slot_ok ts slot q"
  obtains r q' where "lq_Remove k q = Some (r, q')" and "slot_ok ts slot q'"
proof -
  obtain sp where sp: "lq_rep q sp" "items_ok ts slot (fst sp)" using assms(1) by (auto simp: slot_ok_def)
  obtain q' where "lq_Remove k q = Some (fst (spec_Remove k sp), q')" "lq_rep q' (snd (spec_Remove k sp))"
    using lq_Remove_refines[OF sp(1)] by metis
  then show thesis using that slot_okI items_ok_spec(3)[OF sp(2)] by blast
qed

lemma slot_ok_new: "slot_ok ts slot NewLinkedQueue"
  by (rule slot_okI[OF lq_rep_new]) (simp add: items_ok_def)

lemma slot_ok_iter: "slot_ok ts slot q \<Longrightarrow> \<exists>kxs. lq_Iter q = Some kxs \<and> items_ok ts slot kxs"
  unfolding slot_ok_def lq_rep_def using lq_Iter_live by metis

lemma tp_inv_put: "tp_inv ts tp \<Longrightarrow> slot_ok ts slot q \<Longrightarrow> om_inv m \<Longrightarrow>
   tp_inv ts \<lparr>tp_slotMap = om_put slot q (tp_slotMap tp), tp_txhashMap = m\<rparr>"
  by (auto simp: tp_inv_def)

lemma om_inv_fold_delete: "om_inv m \<Longrightarrow> om_inv (fold (\<lambda>kx m. om_delete (fst kx) m) kxs m)"
  by (induction kxs arbitrary: m) auto

lemma tp_Push_inv:
  assumes "tp_inv ts tp"
  shows "tp_inv ts (snd (tp_Push ts t h tx sigs signers tp))"
    and "fst (tp_Push ts t h tx sigs signers tp) =
      (if tp_IsExist h tp then Inl (PoolErr ErrExistTransaction) else Inr ())"
proof -
  let ?it = "\<lparr>pi_TxType = t, pi_TxHash = h, pi_Transaction = tx, pi_Signatures = sigs, pi_Signers = signers\<rparr>"
  let ?q = "case om_get (tp_slotMap tp) (ToTimeSlot (ts tx)) of None \<Rightarrow> NewLinkedQueue | Some q \<Rightarrow> q"
  have "slot_ok ts (ToTimeSlot (ts tx)) ?q"
    using assms by (auto simp: tp_inv_def slot_ok_new split: option.split)
  then obtain b q' where "lq_Push h ?it ?q = Some (b, q')" "slot_ok ts (ToTimeSlot (ts tx)) q'"
    by (rule slot_ok_push[where it = ?it and k = h]) simp_all
  then show "tp_inv ts (snd (tp_Push ts t h tx sigs signers tp))"
    and "fst (tp_Push ts t h tx sigs signers tp) =
      (if tp_IsExist h tp then Inl (PoolErr ErrExistTransaction) else Inr ())"
    using assms tp_inv_put[OF assms] by (auto simp: tp_Push_def tp_IsExist_def tp_inv_def Let_def)
qed

lemma tp_Remove_inv:
  assumes "tp_inv ts tp"
  shows "fst (tp_Remove ts h tx tp) = Inr () \<and> tp_inv ts (snd (tp_Remove ts h tx tp))"
proof (cases "om_get (tp_slotMap tp) (ToTimeSlot (ts tx))")
  case None
  then show ?thesis using assms by (simp add: tp_Remove_def Let_def)
next
  case (Some q)
  then have "slot_ok ts (ToTimeSlot (ts tx)) q" using assms by (simp add: tp_inv_def)
  then obtain r q' where "lq_Remove h q = Some (r, q')" "slot_ok ts (ToTimeSlot (ts tx)) q'"
    by (rule slot_ok_remove)
  then show ?thesis
    using assms Some tp_inv_put[OF assms] by (auto simp: tp_Remove_def tp_inv_def Let_def)
qed

lemma pop_slot_inv:
  assumes "tp_inv ts tp" and "om_get (tp_slotMap tp) slot = Some q"
  shows "\<exists>r. fst (pop_slot slot q tp) = Inr r \<and> tp_inv ts (snd (pop_slot slot q tp)) \<and>
    (\<forall>it. r = Some it \<longrightarrow> ToTimeSlot (ts (pi_Transaction it)) = slot)"
proof -
  have "slot_ok ts slot q" using assms by (simp add: tp_inv_def)
  then obtain r q' where r: "lq_Pop q = Some (r, q')" "slot_ok ts slot q'"
      "\<forall>it. r = Some it \<longrightarrow> ToTimeSlot (ts (pi_Transaction it)) = slot"
    by (rule slot_ok_pop)
  have "tp_inv ts (tp\<lparr>tp_slotMap := om_put slot q' (tp_slotMap tp)\<rparr>)"
    using assms(1) r(2) by (auto simp: tp_inv_def)
  then show ?thesis using r by (auto simp: pop_slot_def)
qed

lemma clean_slots_inv:
  "tp_inv ts tp \<Longrightarrow> \<exists>txs tp'. clean_slots vs tp = (Inr txs, tp') \<and> tp_inv ts tp' \<and>
     (\<forall>slot. om_has (tp_slotMap tp') slot \<longleftrightarrow> om_has (tp_slotMap tp) slot \<and> slot \<notin> set vs) \<and>
     (\<forall>tx\<in>set txs. ToTimeSlot (ts tx) \<in> set vs)"
proof (induction vs arbitrary: tp)
  case Nil
  then show ?case by simp
next
  case (Cons v vs)
  show ?case
  proof (cases "om_get (tp_slotMap tp) v")
    case None
    then show ?thesis using Cons.IH[OF Cons.prems] by (auto simp: om_has_def)
  next
    case (Some q)
    then obtain kxs where kxs: "lq_Iter q = Some kxs" "items_ok ts v kxs"
      using slot_ok_iter Cons.prems unfolding tp_inv_def by metis
    let ?tp = "\<lparr>tp_slotMap = om_delete v (tp_slotMap tp),
      tp_txhashMap = fold (\<lambda>kx m. om_delete (fst kx) m) kxs (tp_txhashMap tp)\<rparr>"
    have "tp_inv ts ?tp" using Cons.prems by (auto simp: tp_inv_def om_inv_fold_delete)
    from Cons.IH[OF this] obtain txs tp' where IH: "clean_slots vs ?tp = (Inr txs, tp')" "tp_inv ts tp'"
        "\<forall>slot. om_has (tp_slotMap tp') slot \<longleftrightarrow> om_has (om_delete v (tp_slotMap tp)) slot \<and> slot \<notin> set vs"
        "\<forall>tx\<in>set txs. ToTimeSlot (ts tx) \<in> set vs" by auto
    moreover have "\<forall>kx\<in>set kxs. ToTimeSlot (ts (pi_Transaction (snd kx))) = v"
      using kxs(2) by (auto simp: items_ok_def)
    ultimately show ?thesis using Some kxs(1) by (auto simp: Let_def)
  qed
qed

text \<open>
  C34: every operation keeps the pool well formed and none of them fails or panics on a well-formed
  pool, except that \<^verbatim>\<open>Push\<close> reports a known hash; \<^verbatim>\<open>Pop\<close> hands out only transactions of the
  previous or the current time slot; and \<^verbatim>\<open>Clean\<close> drops exactly the outdated slots and returns
  only transactions of those.
\<close>

theorem txpool_operations:
  assumes "tp_inv ts tp"
  shows "tp_inv ts NewTransactionPool \<and>
    tp_inv ts (snd (tp_Push ts t h tx sigs signers tp)) \<and>
    fst (tp_Push ts t h tx sigs signers tp) =
      (if tp_IsExist h tp then Inl (PoolErr ErrExistTransaction) else Inr ()) \<and>
    tp_inv ts (snd (tp_Remove ts h tx tp)) \<and> fst (tp_Remove ts h tx tp) = Inr () \<and>
    tp_inv ts (snd (tp_UnsafePop cs tp)) \<and>
    (\<exists>r. fst (tp_UnsafePop cs tp) = Inr r \<and>
       (\<forall>it. r = Some it \<longrightarrow> ToTimeSlot (ts (pi_Transaction it)) \<in> {cs - 1, cs})) \<and>
    (\<exists>txs tp'. tp_Clean cs tp = (Inr txs, tp') \<and> tp_inv ts tp' \<and>
       (\<forall>slot. om_has (tp_slotMap tp') slot \<longleftrightarrow> om_has (tp_slotMap tp) slot \<and> \<not> slot < cs - 1) \<and>
       (\<forall>tx\<in>set txs. ToTimeSlot (ts tx) < cs - 1))"
proof -
  let ?vs = "filter (\<lambda>slot. slot < cs - 1) (map fst (om_each (tp_slotMap tp)))"
  have mem: "slot \<in> set ?vs \<longleftrightarrow> om_has (tp_slotMap tp) slot \<and> slot < cs - 1" for slot
    by (auto simp: om_has_map_of om_each_def)
  have "\<exists>txs tp'. tp_Clean cs tp = (Inr txs, tp') \<and> tp_inv ts tp' \<and>
       (\<forall>slot. om_has (tp_slotMap tp') slot \<longleftrightarrow> om_has (tp_slotMap tp) slot \<and> \<not> slot < cs - 1) \<and>
       (\<forall>tx\<in>set txs. ToTimeSlot (ts tx) < cs - 1)"
    using clean_slots_inv[OF assms, of ?vs] mem unfolding tp_Clean_def by blast
  moreover have "tp_inv ts (snd (tp_UnsafePop cs tp)) \<and>
    (\<exists>r. fst (tp_UnsafePop cs tp) = Inr r \<and>
       (\<forall>it. r = Some it \<longrightarrow> ToTimeSlot (ts (pi_Transaction it)) \<in> {cs - 1, cs}))"
    using pop_slot_inv[OF assms] assms by (force simp: tp_UnsafePop_def split: option.split)
  moreover have "tp_inv ts NewTransactionPool" by (simp add: tp_inv_def NewTransactionPool_def)
  ultimately show ?thesis
    using tp_Push_inv[OF assms] tp_Remove_inv[OF assms] by simp
qed

theorem txpool_operations_witness:
  "fst (tp_Push (\<lambda>x. x) 1 [7] 12000000000 [] [] NewTransactionPool) = Inr () \<and>
   tp_inv (\<lambda>x. x) (snd (tp_Push (\<lambda>x. x) 1 [7] 12000000000 [] [] NewTransactionPool))"
proof -
  have "tp_inv (\<lambda>x. x) NewTransactionPool" by (simp add: tp_inv_def NewTransactionPool_def)
  from txpool_operations[OF this, of 1 "[7]" 12000000000 "[]" "[]"] show ?thesis
    by (simp add: tp_IsExist_def NewTransactionPool_def)
qed

section \<open>Pushing a removed transaction again\<close>

lemma lq_rep_iter: "lq_rep q sp \<Longrightarrow> lq_Iter q = Some (fst sp)"
  unfolding lq_rep_def using lq_Iter_live by metis

lemma repush_queue:
  assumes "lq_rep q sp" and "map_of (fst sp) k = None" and "snd sp k = None"
  shows "\<exists>q1 q2. lq_Push k x q = Some (True, q1) \<and> lq_Remove k q1 = Some (Some x, q2) \<and>
    lq_Push k y q2 = Some (False, q2) \<and> lq_Iter q2 = Some (fst sp)"
proof -
  let ?sp1 = "(fst sp @ [(k, x)], snd sp)"
  have p1: "spec_Push k x sp = (True, ?sp1)" using assms(2,3) by (simp add: spec_Push_def)
  obtain q1 where q1: "lq_Push k x q = Some (True, q1)" "lq_rep q1 ?sp1"
    using lq_Push_refines[OF assms(1), of k x] by (auto simp: p1)
  have "filter (\<lambda>kx. fst kx \<noteq> k) (fst sp) = fst sp"
    using assms(2) by (auto simp: map_of_eq_None_iff filter_id_conv)
  then have p2: "spec_Remove k ?sp1 = (Some x, (fst sp, (snd sp)(k \<mapsto> x)))"
    using assms(2) by (simp add: spec_Remove_def map_add_def)
  obtain q2 where q2: "lq_Remove k q1 = Some (Some x, q2)" "lq_rep q2 (fst sp, (snd sp)(k \<mapsto> x))"
    using lq_Remove_refines[OF q1(2), of k] by (auto simp: p2)
  obtain ns where "lq_inv q2 ns" "(snd sp)(k \<mapsto> x) = lq_gone q2 ns"
    using q2(2) by (auto simp: lq_rep_def)
  then have "om_has (lq_keyMap q2) k"
    using known_keys[of q2 ns k] by (metis fun_upd_same option.distinct(1))
  then show ?thesis using q1(1) q2 lq_rep_iter[OF q2(2)] by (simp add: lq_Push_def)
qed

text \<open>
  A transaction that is removed and pushed again is lost: the second \<^verbatim>\<open>Push\<close> reports success and the
  pool lists the hash, but the slot queue ignored it (its key map still has the removed key), so
  the transaction is in no queue and can never be popped.
\<close>

theorem txpool_repush_lost:
  fixes t :: u16 and sigs :: "signature list" and signers :: "pubhash list"
  assumes "tp_inv ts tp" and "\<not> tp_IsExist h tp" and "\<not> om_has (tp_slotMap tp) (ToTimeSlot (ts tx))"
  defines "tp1 \<equiv> snd (tp_Push ts t h tx sigs signers tp)"
  defines "tp2 \<equiv> snd (tp_Remove ts h tx tp1)"
  defines "tp3 \<equiv> snd (tp_Push ts t h tx sigs signers tp2)"
  shows "fst (tp_Push ts t h tx sigs signers tp2) = Inr () \<and> tp_IsExist h tp3 \<and>
    (\<exists>q. om_get (tp_slotMap tp3) (ToTimeSlot (ts tx)) = Some q \<and> lq_Iter q = Some [])"
proof -
  let ?it = "\<lparr>pi_TxType = t, pi_TxHash = h, pi_Transaction = tx, pi_Signatures = sigs, pi_Signers = signers\<rparr>"
  obtain q1 q2 where q: "lq_Push h ?it NewLinkedQueue = Some (True, q1)" "lq_Remove h q1 = Some (Some ?it, q2)"
      "lq_Push h ?it q2 = Some (False, q2)" "lq_Iter q2 = Some []"
    using repush_queue[OF lq_rep_new, of h ?it ?it] by auto
  have tp1: "tp1 = \<lparr>tp_slotMap = om_put (ToTimeSlot (ts tx)) q1 (tp_slotMap tp),
      tp_txhashMap = om_put h ?it (tp_txhashMap tp)\<rparr>"
    using assms(2,3) q(1) by (simp add: tp1_def tp_Push_def tp_IsExist_def om_has_def Let_def)
  have tp2: "tp2 = \<lparr>tp_slotMap = om_put (ToTimeSlot (ts tx)) q2 (tp_slotMap tp1),
      tp_txhashMap = om_delete h (tp_txhashMap tp1)\<rparr>"
    using q(2) by (simp add: tp2_def tp_Remove_def tp1 Let_def)
  show ?thesis
    using q(3,4) by (simp add: tp3_def tp_Push_def tp2 tp_IsExist_def Let_def)
qed

theorem txpool_repush_lost_witness:
  "fst (tp_Push (\<lambda>x. x) 1 [7] 12000000000 [] []
      (snd (tp_Remove (\<lambda>x. x) [7] 12000000000
        (snd (tp_Push (\<lambda>x. x) 1 [7] 12000000000 [] [] NewTransactionPool))))) = Inr ()"
proof -
  have "tp_inv (\<lambda>x. x) NewTransactionPool" by (simp add: tp_inv_def NewTransactionPool_def)
  from txpool_repush_lost[OF this, of "[7]" 12000000000 1 "[]" "[]"] show ?thesis
    by (simp add: tp_IsExist_def NewTransactionPool_def)
qed

end
