(* ===== verification/Amount.thy ===== *)
theory Amount
  imports Errors
begin

text \<open>
  \<^verbatim>\<open>common/amount\<close>: coin amounts. An \<^verbatim>\<open>Amount\<close> wraps a \<^verbatim>\<open>big.Int\<close>, so it is an
  unbounded integer counting units of \<open>10\<^sup>-\<^sup>1\<^sup>8\<close> coin. The theory models the arithmetic, the
  byte form used for storage, the decimal form used by the JSON interface, and proves that
  storing and printing lose nothing on the amounts the chain uses.
\<close>

type_synonym amount = int

definition FractionalMax :: int where
  "FractionalMax = 1000000000000000000"

definition FractionalCount :: nat where
  "FractionalCount = 18"

section \<open>Arithmetic\<close>

definition NewCoinAmount :: "u64 \<Rightarrow> u64 \<Rightarrow> amount" where
  "NewCoinAmount i f =
     (if i = 0 then int64 f
      else if f = 0 then int64 i * FractionalMax
      else int64 i * FractionalMax + int64 f)"

definition COIN :: amount where
  "COIN = NewCoinAmount 1 0"

definition am_Add :: "amount \<Rightarrow> amount \<Rightarrow> amount" where
  "am_Add a b = a + b"

definition am_Sub :: "amount \<Rightarrow> amount \<Rightarrow> amount" where
  "am_Sub a b = a - b"

definition am_Mul :: "amount \<Rightarrow> amount \<Rightarrow> amount" where
  "am_Mul a b = a * b"

text \<open>\<^verbatim>\<open>big.Int.Div\<close> is Euclidean division and panics on a zero divisor.\<close>

definition am_Div :: "amount \<Rightarrow> amount \<Rightarrow> amount option" where
  "am_Div a b = (if b = 0 then None else if 0 < b then Some (a div b) else Some (- (a div (- b))))"

definition am_MulC :: "amount \<Rightarrow> int \<Rightarrow> amount" where
  "am_MulC a c = a * c"

definition am_DivC :: "amount \<Rightarrow> int \<Rightarrow> amount option" where
  "am_DivC a c = am_Div a c"

definition am_IsZero :: "amount \<Rightarrow> bool" where
  "am_IsZero a = (a = 0)"

definition am_Less :: "amount \<Rightarrow> amount \<Rightarrow> bool" where
  "am_Less a b = (a < b)"

definition am_Equal :: "amount \<Rightarrow> amount \<Rightarrow> bool" where
  "am_Equal a b = (a = b)"

named_theorems amount_simps

declare am_Add_def [amount_simps] am_Sub_def [amount_simps] am_Mul_def [amount_simps]
  am_MulC_def [amount_simps] am_IsZero_def [amount_simps] am_Less_def [amount_simps]
  am_Equal_def [amount_simps]

lemma COIN_eq [simp]: "COIN = 1000000000000000000"
  by (simp add: COIN_def NewCoinAmount_def FractionalMax_def int64_def)

text \<open>The dust limit \<^verbatim>\<open>amount.COIN.DivC(10)\<close>.\<close>

lemma COIN_DivC_10 [simp]: "am_DivC COIN 10 = Some 100000000000000000"
  by (simp add: am_DivC_def am_Div_def)

lemma NewCoinAmount_zero [simp]: "NewCoinAmount 0 0 = 0"
  by (simp add: NewCoinAmount_def int64_def)

lemma NewCoinAmount_small:
  assumes "uint i < 2 ^ 63" and "uint f < 2 ^ 63"
  shows "NewCoinAmount i f = uint i * FractionalMax + uint f"
  using assms by (auto simp: NewCoinAmount_def int64_small)

lemma am_Div_Euclid:
  assumes "am_Div a b = Some q"
  shows "0 \<le> a - b * q \<and> a - b * q < \<bar>b\<bar>"
proof (cases "0 < b")
  case True
  then have "q = a div b" using assms by (simp add: am_Div_def)
  with True show ?thesis
    by (simp add: minus_mult_div_eq_mod)
next
  case False
  then have b: "b < 0" and q: "q = - (a div - b)"
    using assms by (auto simp: am_Div_def split: if_splits)
  have "a - b * q = a mod (- b)"
    using q by (simp add: minus_mult_div_eq_mod[symmetric])
  with b show ?thesis by simp
qed

section \<open>Bytes\<close>

text \<open>
  \<^verbatim>\<open>big.Int.Bytes\<close> is the absolute value in big endian order without leading zero bytes;
  \<^verbatim>\<open>big.Int.SetBytes\<close> reads an unsigned big endian number.
\<close>

fun nat_bytes :: "nat \<Rightarrow> bytes" where
  "nat_bytes n = (if n = 0 then [] else nat_bytes (n div 256) @ [of_nat (n mod 256)])"

declare nat_bytes.simps [simp del]

definition bytes_nat :: "bytes \<Rightarrow> nat" where
  "bytes_nat bs = foldl (\<lambda>acc b. acc * 256 + unat b) 0 bs"

definition am_Bytes :: "amount \<Rightarrow> bytes" where
  "am_Bytes a = nat_bytes (nat \<bar>a\<bar>)"

definition NewAmountFromBytes :: "bytes \<Rightarrow> amount" where
  "NewAmountFromBytes bs = int (bytes_nat bs)"

lemma unat_of_nat_byte: "unat (of_nat (n mod 256) :: u8) = n mod 256"
  by (simp add: unat_of_nat)

lemma bytes_nat_bytes [simp]: "bytes_nat (nat_bytes n) = n"
proof (induction n rule: nat_bytes.induct)
  case (1 n)
  show ?case
  proof (cases "n = 0")
    case True
    then show ?thesis by (simp add: nat_bytes.simps bytes_nat_def)
  next
    case False
    then have "bytes_nat (nat_bytes n) = bytes_nat (nat_bytes (n div 256)) * 256 + n mod 256"
      by (subst nat_bytes.simps) (simp add: bytes_nat_def unat_of_nat_byte)
    then show ?thesis using 1[OF False] by simp
  qed
qed

lemma nat_bytes_empty [simp]: "nat_bytes n = [] \<longleftrightarrow> n = 0"
  by (subst nat_bytes.simps) simp

lemma am_Bytes_empty [simp]: "am_Bytes a = [] \<longleftrightarrow> a = 0"
  by (simp add: am_Bytes_def)

lemma NewAmountFromBytes_Bytes [simp]: "NewAmountFromBytes (am_Bytes a) = \<bar>a\<bar>"
  by (simp add: NewAmountFromBytes_def am_Bytes_def)

lemma NewAmountFromBytes_nonneg [simp]: "0 \<le> NewAmountFromBytes bs"
  by (simp add: NewAmountFromBytes_def)

lemma NewAmountFromBytes_Nil [simp]: "NewAmountFromBytes [] = 0"
  by (simp add: NewAmountFromBytes_def bytes_nat_def)

section \<open>Decimal strings\<close>

definition digit_char :: "nat \<Rightarrow> char" where
  "digit_char d = char_of (48 + d)"

fun dec_str :: "nat \<Rightarrow> string" where
  "dec_str n = (if n < 10 then [digit_char n] else dec_str (n div 10) @ [digit_char (n mod 10)])"

declare dec_str.simps [simp del]

text \<open>\<^verbatim>\<open>big.Int.String\<close>.\<close>

definition big_String :: "int \<Rightarrow> string" where
  "big_String a = (if a < 0 then CHR ''-'' # dec_str (nat (- a)) else dec_str (nat a))"

text \<open>\<^verbatim>\<open>strings.TrimRight(s, "0")\<close>.\<close>

definition trim_zeros :: "string \<Rightarrow> string" where
  "trim_zeros s = trimRight (CHR ''0'') s"

text \<open>\<^verbatim>\<open>strconv.ParseUint(s, 10, 64)\<close>; \<^term>\<open>None\<close> is any of its errors.\<close>

definition is_digit :: "char \<Rightarrow> bool" where
  "is_digit c = (48 \<le> (of_char c :: nat) \<and> (of_char c :: nat) \<le> 57)"

definition digit_val :: "char \<Rightarrow> nat" where
  "digit_val c = of_char c - 48"

definition val_dec :: "string \<Rightarrow> nat" where
  "val_dec s = foldl (\<lambda>acc c. acc * 10 + digit_val c) 0 s"

definition ParseUint :: "string \<Rightarrow> u64 option" where
  "ParseUint s =
     (if s = [] \<or> \<not> list_all is_digit s \<or> 2 ^ 64 \<le> val_dec s then None else Some (of_nat (val_dec s)))"

section \<open>\<^verbatim>\<open>common/amount/util.go\<close>\<close>

text \<open>
  The two loops over the 18 byte pad buffer. Indexing past the buffer panics, which happens
  for a fractional part of more than 18 digits.
\<close>

definition pads18 :: string where
  "pads18 = replicate 18 (CHR ''0'')"

definition format_step :: "string \<Rightarrow> nat \<Rightarrow> string \<times> nat \<times> bool \<Rightarrow> string \<times> nat \<times> bool" where
  "format_step str i st =
     (let (pads, lastZero, hasNonZero) = st;
          diff = 18 - length str;
          pads' = pads[diff + i := str ! i]
      in if \<not> hasNonZero \<and> str ! (length str - i - 1) \<noteq> CHR ''0''
         then (pads', diff + length str - i - 1 + 1, True)
         else (pads', lastZero, hasNonZero))"

definition formatFractional :: "string \<Rightarrow> string option" where
  "formatFractional str =
     (if 18 < length str then None
      else let (pads, lastZero, hasNonZero) = fold (format_step str) [0..<length str] (pads18, 0, False)
           in Some (take lastZero pads))"

definition pad_step :: "string \<Rightarrow> nat \<Rightarrow> string \<times> nat \<times> bool \<Rightarrow> string \<times> nat \<times> bool" where
  "pad_step str i st =
     (let (pads, lastZero, hasNonZero) = st;
          pads' = pads[i := str ! i]
      in if \<not> hasNonZero \<and> str ! i \<noteq> CHR ''0'' then (pads', i, True)
         else (pads', lastZero, hasNonZero))"

definition padFractional :: "string \<Rightarrow> string option" where
  "padFractional str =
     (if 18 < length str then None
      else let (pads, lastZero, hasNonZero) = fold (pad_step str) [0..<length str] (pads18, 0, False)
           in Some (drop lastZero pads))"

section \<open>Printing and parsing\<close>

text \<open>\<^verbatim>\<open>Amount.String\<close>.\<close>

definition am_String :: "amount \<Rightarrow> err + string" where
  "am_String am =
     (if am_IsZero am then Inr ''0''
      else let str = big_String am
           in if length str \<le> FractionalCount
              then (case formatFractional str of None \<Rightarrow> Inl Panic | Some f \<Rightarrow> Inr (''0.'' @ f))
              else let si = take (length str - FractionalCount) str;
                       sf = trim_zeros (drop (length str - FractionalCount) str)
                   in if 0 < length sf then Inr (si @ ''.'' @ sf) else Inr si)"

definition ParseAmount :: "string \<Rightarrow> err + amount" where
  "ParseAmount str =
     (let ls = splitN2 (CHR ''.'') str
      in if length ls = 1
         then (case ParseUint (ls ! 0) of
                 None \<Rightarrow> Inl (CommonErr ErrInvalidAmountFormat)
               | Some pi \<Rightarrow> Inr (NewCoinAmount pi 0))
         else if length ls = 2
         then (case ParseUint (ls ! 0) of
                 None \<Rightarrow> Inl (CommonErr ErrInvalidAmountFormat)
               | Some pi \<Rightarrow>
                   (case padFractional (ls ! 1) of
                      None \<Rightarrow> Inl Panic
                    | Some p \<Rightarrow>
                        (case ParseUint p of
                           None \<Rightarrow> Inl (CommonErr ErrInvalidAmountFormat)
                         | Some pf \<Rightarrow> Inr (NewCoinAmount pi pf))))
         else Inl (CommonErr ErrInvalidAmountFormat))"

text \<open>\<^verbatim>\<open>MarshalJSON\<close> and \<^verbatim>\<open>UnmarshalJSON\<close>.\<close>

definition am_MarshalJSON :: "amount \<Rightarrow> err + string" where
  "am_MarshalJSON am =
     (case am_String am of Inl e \<Rightarrow> Inl e | Inr s \<Rightarrow> Inr (MarshalQuoted s))"

definition am_UnmarshalJSON :: "string \<Rightarrow> err + amount" where
  "am_UnmarshalJSON bs = UnmarshalQuoted (CommonErr ErrInvalidAmountFormat) ParseAmount bs"

section \<open>Decimal digits\<close>

lemma of_char_digit_char: "d < 10 \<Longrightarrow> (of_char (digit_char d) :: nat) = 48 + d"
  by (simp add: digit_char_def)

lemma is_digit_digit_char [simp]: "d < 10 \<Longrightarrow> is_digit (digit_char d)"
  by (simp add: is_digit_def of_char_digit_char)

lemma digit_val_digit_char [simp]: "d < 10 \<Longrightarrow> digit_val (digit_char d) = d"
  by (simp add: digit_val_def of_char_digit_char)

lemma digit_zero [simp]: "is_digit (CHR ''0'')" "digit_val (CHR ''0'') = 0"
  by (simp_all add: is_digit_def digit_val_def)

lemma digit_val_less: "is_digit c \<Longrightarrow> digit_val c < 10"
  unfolding is_digit_def digit_val_def by linarith

lemma not_digit_dot [simp]: "\<not> is_digit (CHR ''.'')"
  by (simp add: is_digit_def)

lemma dec_digits: "list_all is_digit (dec_str n)"
proof (induction n rule: dec_str.induct)
  case (1 n)
  then show ?case by (cases "n < 10") (subst dec_str.simps, simp)+
qed

lemma val_dec_Nil [simp]: "val_dec [] = 0"
  by (simp add: val_dec_def)

lemma val_dec_snoc [simp]: "val_dec (s @ [c]) = val_dec s * 10 + digit_val c"
  by (simp add: val_dec_def)

lemma val_dec_append: "val_dec (s @ t) = val_dec s * 10 ^ length t + val_dec t"
proof (induction t rule: rev_induct)
  case Nil
  then show ?case by simp
next
  case (snoc c t)
  have "val_dec (s @ t @ [c]) = val_dec (s @ t) * 10 + digit_val c"
    using val_dec_snoc[of "s @ t" c] by simp
  then show ?case by (simp add: snoc algebra_simps)
qed

lemma val_dec_dec [simp]: "val_dec (dec_str n) = n"
proof (induction n rule: dec_str.induct)
  case (1 n)
  show ?case
  proof (cases "n < 10")
    case True
    then show ?thesis by (subst dec_str.simps) (simp add: val_dec_def)
  next
    case False
    then show ?thesis using 1 by (subst dec_str.simps) simp
  qed
qed

lemma val_dec_less: "list_all is_digit s \<Longrightarrow> val_dec s < 10 ^ length s"
proof (induction s rule: rev_induct)
  case Nil
  then show ?case by simp
next
  case (snoc c s)
  then have "digit_val c < 10" and "val_dec s < 10 ^ length s"
    by (auto intro: digit_val_less)
  then have "val_dec s * 10 + digit_val c < 10 ^ length s * 10" by linarith
  then show ?case by (simp add: mult.commute)
qed

lemma val_dec_zeros [simp]: "val_dec (replicate n (CHR ''0'')) = 0"
proof (induction n)
  case 0
  then show ?case by simp
next
  case (Suc n)
  then show ?case by (simp flip: replicate_append_same)
qed

lemma ParseUint_digits:
  "s \<noteq> [] \<Longrightarrow> list_all is_digit s \<Longrightarrow> val_dec s < 2 ^ 64 \<Longrightarrow> ParseUint s = Some (of_nat (val_dec s))"
  by (simp add: ParseUint_def)

section \<open>The pad buffer loops\<close>

lemma pad_step_eq:
  "pad_step s i (p, lz, nz) =
     (p[i := s ! i], if \<not> nz \<and> s ! i \<noteq> CHR ''0'' then i else lz, nz \<or> s ! i \<noteq> CHR ''0'')"
  by (simp add: pad_step_def)

lemma pad_loop:
  assumes "i \<le> length s" and "length s \<le> 18"
  shows "\<exists>lz nz. fold (pad_step s) [0..<i] (pads18, 0, False)
            = (take i s @ replicate (18 - i) (CHR ''0''), lz, nz) \<and>
          lz \<le> i \<and> lz < 18 \<and> take lz s = replicate lz (CHR ''0'')
          \<and> (\<not> nz \<longrightarrow> lz = 0 \<and> take i s = replicate i (CHR ''0''))"
  using assms(1)
proof (induction i)
  case 0
  then show ?case by (auto simp: pads18_def)
next
  case (Suc i)
  let ?p = "take i s @ replicate (18 - i) (CHR ''0'')"
  obtain lz nz where IH: "fold (pad_step s) [0..<i] (pads18, 0, False) = (?p, lz, nz)"
      "lz \<le> i" "lz < 18" "take lz s = replicate lz (CHR ''0'')"
      "\<not> nz \<longrightarrow> lz = 0 \<and> take i s = replicate i (CHR ''0'')"
    using Suc by auto
  have i: "i < length s" "i < 18" using Suc.prems assms(2) by auto
  have upd: "?p[i := s ! i] = take (Suc i) s @ replicate (18 - Suc i) (CHR ''0'')"
    using i by (auto intro!: nth_equalityI simp: nth_append nth_list_update)
  have tk: "take (Suc i) s = take i s @ [s ! i]"
    using i by (simp add: take_Suc_conv_app_nth)
  let ?lz = "if \<not> nz \<and> s ! i \<noteq> CHR ''0'' then i else lz"
  let ?nz = "nz \<or> s ! i \<noteq> CHR ''0''"
  have "fold (pad_step s) [0..<Suc i] (pads18, 0, False) = pad_step s i (?p, lz, nz)"
    using IH(1) by simp
  then have step: "fold (pad_step s) [0..<Suc i] (pads18, 0, False)
      = (take (Suc i) s @ replicate (18 - Suc i) (CHR ''0''), ?lz, ?nz)"
    by (simp only: pad_step_eq upd)
  have "?lz \<le> Suc i" "?lz < 18" "take ?lz s = replicate ?lz (CHR ''0'')"
    using IH i by auto
  moreover have "\<not> ?nz \<longrightarrow> ?lz = 0 \<and> take (Suc i) s = replicate (Suc i) (CHR ''0'')"
    using IH(5) tk by (auto simp: replicate_append_same)
  ultimately show ?case using step by blast
qed

lemma padFractional_spec:
  assumes "list_all is_digit s" and "length s \<le> 18"
  shows "\<exists>p. padFractional s = Some p \<and> p \<noteq> [] \<and> list_all is_digit p \<and>
    val_dec p = val_dec s * 10 ^ (18 - length s)"
proof -
  let ?pads = "s @ replicate (18 - length s) (CHR ''0'')"
  obtain lz nz where L: "fold (pad_step s) [0..<length s] (pads18, 0, False) = (?pads, lz, nz)"
      "lz \<le> length s" "lz < 18" "take lz s = replicate lz (CHR ''0'')"
    using pad_loop[of "length s" s] assms(2) by auto
  have "padFractional s = Some (drop lz ?pads)"
    using assms(2) L(1) by (simp add: padFractional_def)
  moreover have "drop lz ?pads \<noteq> []" using L(3) assms(2) by simp
  moreover have "list_all is_digit (drop lz ?pads)"
    using assms(1) by (auto simp: list_all_iff dest: in_set_dropD)
  moreover have "val_dec (drop lz ?pads) = val_dec s * 10 ^ (18 - length s)"
  proof -
    have "?pads = replicate lz (CHR ''0'') @ drop lz ?pads"
      using append_take_drop_id[of lz ?pads] L(2,4) by simp
    then have "val_dec ?pads = val_dec (drop lz ?pads)"
      using val_dec_append[of "replicate lz (CHR ''0'')" "drop lz ?pads"] by simp
    then show ?thesis by (simp add: val_dec_append)
  qed
  ultimately show ?thesis by blast
qed

lemma format_step_eq:
  "format_step s i (p, lz, nz) =
     (p[18 - length s + i := s ! i],
      if \<not> nz \<and> s ! (length s - i - 1) \<noteq> CHR ''0'' then 18 - length s + length s - i - 1 + 1 else lz,
      nz \<or> s ! (length s - i - 1) \<noteq> CHR ''0'')"
  by (simp add: format_step_def Let_def)

lemma format_loop:
  assumes "i \<le> length s" and "length s \<le> 18"
  shows "\<exists>lz nz. fold (format_step s) [0..<i] (pads18, 0, False)
            = (replicate (18 - length s) (CHR ''0'') @ take i s @ replicate (length s - i) (CHR ''0''), lz, nz) \<and>
          (nz \<longrightarrow> lz \<le> 18 \<and>
             drop lz (replicate (18 - length s) (CHR ''0'') @ s) = replicate (18 - lz) (CHR ''0'')) \<and>
          (\<not> nz \<longrightarrow> lz = 0 \<and> drop (length s - i) s = replicate i (CHR ''0''))"
  using assms(1)
proof (induction i)
  case 0
  then show ?case using assms(2) by (auto simp: pads18_def simp flip: replicate_add)
next
  case (Suc i)
  let ?z = "replicate (18 - length s) (CHR ''0'')"
  let ?p = "?z @ take i s @ replicate (length s - i) (CHR ''0'')"
  let ?c = "s ! (length s - i - 1)"
  obtain lz nz where IH: "fold (format_step s) [0..<i] (pads18, 0, False) = (?p, lz, nz)"
      "nz \<longrightarrow> lz \<le> 18 \<and> drop lz (?z @ s) = replicate (18 - lz) (CHR ''0'')"
      "\<not> nz \<longrightarrow> lz = 0 \<and> drop (length s - i) s = replicate i (CHR ''0'')"
    using Suc by auto
  have i: "i < length s" using Suc.prems by simp
  have upd: "?p[18 - length s + i := s ! i]
      = ?z @ take (Suc i) s @ replicate (length s - Suc i) (CHR ''0'')"
    using i by (auto intro!: nth_equalityI simp: nth_append nth_list_update)
  let ?lz = "if \<not> nz \<and> ?c \<noteq> CHR ''0'' then 18 - length s + length s - i - 1 + 1 else lz"
  let ?nz = "nz \<or> ?c \<noteq> CHR ''0''"
  have "fold (format_step s) [0..<Suc i] (pads18, 0, False) = format_step s i (?p, lz, nz)"
    using IH(1) by simp
  then have step: "fold (format_step s) [0..<Suc i] (pads18, 0, False)
      = (?z @ take (Suc i) s @ replicate (length s - Suc i) (CHR ''0''), ?lz, ?nz)"
    by (simp only: format_step_eq upd)
  have dr: "drop (length s - Suc i) s = ?c # drop (length s - i) s"
    using Cons_nth_drop_Suc[of "length s - Suc i" s] i by (simp add: Suc_diff_Suc)
  have lz18: "18 - length s + length s - i - 1 + 1 = 18 - i"
    using i assms(2) by simp
  have "?nz \<longrightarrow> ?lz \<le> 18 \<and> drop ?lz (?z @ s) = replicate (18 - ?lz) (CHR ''0'')"
    using IH(2,3) i assms(2) unfolding lz18 by auto
  moreover have "\<not> ?nz \<longrightarrow> ?lz = 0 \<and> drop (length s - Suc i) s = replicate (Suc i) (CHR ''0'')"
    using IH(3) dr by auto
  ultimately show ?case using step by blast
qed

lemma formatFractional_spec:
  assumes "length s \<le> 18"
  shows "\<exists>f m. formatFractional s = Some f \<and>
    f @ replicate m (CHR ''0'') = replicate (18 - length s) (CHR ''0'') @ s"
proof -
  let ?full = "replicate (18 - length s) (CHR ''0'') @ s"
  obtain lz nz where L: "fold (format_step s) [0..<length s] (pads18, 0, False) = (?full, lz, nz)"
      "nz \<longrightarrow> lz \<le> 18 \<and> drop lz ?full = replicate (18 - lz) (CHR ''0'')"
      "\<not> nz \<longrightarrow> lz = 0 \<and> s = replicate (length s) (CHR ''0'')"
    using format_loop[of "length s" s] assms by auto
  have f: "formatFractional s = Some (take lz ?full)"
    using assms L(1) by (simp add: formatFractional_def)
  have "drop lz ?full = replicate (18 - lz) (CHR ''0'')"
  proof (cases nz)
    case True
    then show ?thesis using L(2) by blast
  next
    case False
    then have "lz = 0" and s: "s = replicate (length s) (CHR ''0'')" using L(3) by auto
    have "?full = replicate 18 (CHR ''0'')"
      using assms by (subst s) (simp flip: replicate_add)
    with \<open>lz = 0\<close> show ?thesis by simp
  qed
  then have "take lz ?full @ replicate (18 - lz) (CHR ''0'') = ?full"
    by (metis append_take_drop_id)
  with f show ?thesis by blast
qed

lemma trim_zeros_spec: "\<exists>m. trim_zeros s @ replicate m (CHR ''0'') = s"
  unfolding trim_zeros_def using trimRight_pad[of "CHR ''0''" s] by metis

section \<open>Round trips\<close>

lemma splitN2_digits:
  assumes "list_all is_digit a"
  shows "splitN2 (CHR ''.'') a = [a]" and "splitN2 (CHR ''.'') (a @ CHR ''.'' # b) = [a, b]"
proof -
  have "CHR ''.'' \<notin> set a"
    using assms not_digit_dot by (auto simp: list_all_iff)
  then show "splitN2 (CHR ''.'') a = [a]" and "splitN2 (CHR ''.'') (a @ CHR ''.'' # b) = [a, b]"
    by simp_all
qed

lemma ParseAmount_parts:
  assumes i: "list_all is_digit i" "i \<noteq> []" "val_dec i < 2 ^ 63"
    and f: "list_all is_digit f" "length f \<le> 18"
  shows "ParseAmount (i @ CHR ''.'' # f) =
    Inr (int (val_dec i) * FractionalMax + int (val_dec f * 10 ^ (18 - length f)))"
proof -
  obtain p where p: "padFractional f = Some p" "p \<noteq> []" "list_all is_digit p"
      "val_dec p = val_dec f * 10 ^ (18 - length f)"
    using padFractional_spec[OF f] by auto
  have "val_dec f < 10 ^ length f" using f(1) by (rule val_dec_less)
  then have "val_dec f * 10 ^ (18 - length f) < 10 ^ length f * 10 ^ (18 - length f)" by simp
  also have "\<dots> = (10::nat) ^ 18" using f(2) by (simp flip: power_add)
  finally have p18: "val_dec p < 10 ^ 18" using p(4) by simp
  have pi: "ParseUint i = Some (of_nat (val_dec i))"
    using i by (intro ParseUint_digits) auto
  have pf: "ParseUint p = Some (of_nat (val_dec p))"
    using p p18 by (intro ParseUint_digits) auto
  have u: "uint (of_nat (val_dec i) :: u64) = int (val_dec i)"
      "uint (of_nat (val_dec p) :: u64) = int (val_dec p)"
    using i(3) p18 by (simp_all add: uint_nat unat_of_nat)
  have "NewCoinAmount (of_nat (val_dec i)) (of_nat (val_dec p))
      = int (val_dec i) * FractionalMax + int (val_dec p)"
    using NewCoinAmount_small[of "of_nat (val_dec i)" "of_nat (val_dec p)"] i(3) p18 u by simp
  then show ?thesis
    using splitN2_digits(2)[OF i(1), of f] p pi pf by (simp add: ParseAmount_def)
qed

lemma ParseAmount_whole:
  assumes i: "list_all is_digit i" "i \<noteq> []" "val_dec i < 2 ^ 63"
  shows "ParseAmount i = Inr (int (val_dec i) * FractionalMax)"
proof -
  have "ParseUint i = Some (of_nat (val_dec i))"
    using i by (intro ParseUint_digits) auto
  moreover have "uint (of_nat (val_dec i) :: u64) = int (val_dec i)"
    using i(3) by (simp add: uint_nat unat_of_nat)
  ultimately show ?thesis
    using splitN2_digits(1)[OF i(1)] NewCoinAmount_small[of "of_nat (val_dec i)" 0] i(3)
    by (simp add: ParseAmount_def)
qed

text \<open>An amount below one coin prints as \<open>0.\<close> and its trimmed fraction.\<close>

lemma String_small:
  assumes "0 < n" and "length (dec_str n) \<le> 18"
  shows "\<exists>f m. am_String (int n) = Inr (''0.'' @ f) \<and>
    f @ replicate m (CHR ''0'') = replicate (18 - length (dec_str n)) (CHR ''0'') @ dec_str n"
  using assms formatFractional_spec[OF assms(2)]
  by (auto simp: am_String_def am_IsZero_def big_String_def FractionalCount_def)

lemma String_large:
  assumes "0 < n" and "18 < length (dec_str n)"
  shows "\<exists>si sf m. dec_str n = si @ sf @ replicate m (CHR ''0'') \<and> si \<noteq> [] \<and>
    length (sf @ replicate m (CHR ''0'')) = 18 \<and>
    am_String (int n) = Inr (if sf = [] then si else si @ CHR ''.'' # sf)"
proof -
  let ?k = "length (dec_str n) - 18"
  obtain m where m: "trim_zeros (drop ?k (dec_str n)) @ replicate m (CHR ''0'') = drop ?k (dec_str n)"
    using trim_zeros_spec by blast
  have "am_String (int n) = Inr (if trim_zeros (drop ?k (dec_str n)) = [] then take ?k (dec_str n)
      else take ?k (dec_str n) @ CHR ''.'' # trim_zeros (drop ?k (dec_str n)))"
    using assms by (simp add: am_String_def am_IsZero_def big_String_def FractionalCount_def Let_def)
  moreover have "dec_str n = take ?k (dec_str n) @ trim_zeros (drop ?k (dec_str n)) @ replicate m (CHR ''0'')"
    by (simp add: m)
  moreover have "take ?k (dec_str n) \<noteq> []" using assms(2) by auto
  moreover have "length (drop ?k (dec_str n)) = 18" using assms(2) by simp
  ultimately show ?thesis using m by metis
qed

lemma Parse_String:
  assumes "0 \<le> a" and "a < 2 ^ 63 * FractionalMax"
  shows "\<exists>s. am_String a = Inr s \<and> ParseAmount s = Inr a"
proof (cases "a = 0")
  case True
  then show ?thesis
    using ParseAmount_whole[of "''0''"] by (simp add: am_String_def am_IsZero_def val_dec_def)
next
  case False
  define n where "n = nat a"
  have n: "0 < n" "a = int n" using False assms(1) by (auto simp: n_def)
  have digits: "list_all is_digit (dec_str n)" by (rule dec_digits)
  show ?thesis
  proof (cases "length (dec_str n) \<le> 18")
    case True
    then obtain f m where f: "am_String a = Inr (''0.'' @ f)"
        "f @ replicate m (CHR ''0'') = replicate (18 - length (dec_str n)) (CHR ''0'') @ dec_str n"
      using String_small[OF n(1)] n(2) by blast
    have len: "length f + m = 18"
      using arg_cong[OF f(2), of length] True by simp
    have "list_all is_digit (f @ replicate m (CHR ''0''))"
      unfolding f(2) using digits by (auto simp: list_all_iff)
    then have fd: "list_all is_digit f" by simp
    have "val_dec f * 10 ^ m = n"
      using arg_cong[OF f(2), of val_dec] by (simp add: val_dec_append)
    moreover have "m = 18 - length f" using len by simp
    ultimately have fv: "val_dec f * 10 ^ (18 - length f) = n" by simp
    have "val_dec ''0'' = 0" by (simp add: val_dec_def)
    then have "ParseAmount (''0'' @ CHR ''.'' # f) = Inr a"
      using ParseAmount_parts[of "''0''" f] fd len n(2) fv by simp
    then show ?thesis using f(1) by simp
  next
    case False
    then obtain si sf m where s: "dec_str n = si @ sf @ replicate m (CHR ''0'')" "si \<noteq> []"
        "length (sf @ replicate m (CHR ''0'')) = 18"
        "am_String a = Inr (if sf = [] then si else si @ CHR ''.'' # sf)"
      using String_large[OF n(1)] n(2) by auto
    have d: "list_all is_digit si" "list_all is_digit sf"
      using digits unfolding s(1) by auto
    have nv: "n = val_dec si * 10 ^ 18 + val_dec sf * 10 ^ m"
      using arg_cong[OF s(1), of val_dec] s(3) by (simp only: val_dec_append[of si]) (simp add: val_dec_append)
    then have "int (val_dec si) * 10 ^ 18 \<le> a"
      using n(2) by simp
    then have si63: "val_dec si < 2 ^ 63"
      using assms(2) by (simp add: FractionalMax_def)
    show ?thesis
    proof (cases "sf = []")
      case True
      then have "ParseAmount si = Inr a"
        using ParseAmount_whole[OF d(1) s(2) si63] nv n(2) by (simp add: FractionalMax_def)
      then show ?thesis using s(4) True by simp
    next
      case False
      have "18 - length sf = m" using s(3) by simp
      then have "ParseAmount (si @ CHR ''.'' # sf) = Inr a"
        using ParseAmount_parts[OF d(1) s(2) si63 d(2)] s(3) nv n(2) by (simp add: FractionalMax_def)
      then show ?thesis using s(4) False by simp
    qed
  qed
qed

lemma ParseAmount_nonempty: "ParseAmount s = Inr a \<Longrightarrow> s \<noteq> []"
  by (auto simp: ParseAmount_def splitN2_def ParseUint_def)

text \<open>
  C38: printing an amount and parsing the text gives the amount back, both for the plain decimal
  form and for the quoted JSON form, for every non-negative amount of fewer than \<open>2\<^sup>6\<^sup>3\<close> coins.
\<close>

theorem amount_text_roundtrip:
  assumes "0 \<le> a" and "a < 2 ^ 63 * FractionalMax"
  shows "\<exists>s j. am_String a = Inr s \<and> ParseAmount s = Inr a \<and>
    am_MarshalJSON a = Inr j \<and> am_UnmarshalJSON j = Inr a"
proof -
  obtain s where s: "am_String a = Inr s" "ParseAmount s = Inr a"
    using Parse_String[OF assms] by blast
  then have "am_UnmarshalJSON (MarshalQuoted s) = Inr a"
    using ParseAmount_nonempty[OF s(2)] by (simp add: am_UnmarshalJSON_def)
  with s show ?thesis by (simp add: am_MarshalJSON_def)
qed

theorem amount_text_roundtrip_witness:
  "\<exists>s j. am_String 1230000000000000000 = Inr s \<and> ParseAmount s = Inr 1230000000000000000 \<and>
    am_MarshalJSON 1230000000000000000 = Inr j \<and> am_UnmarshalJSON j = Inr 1230000000000000000"
  by (rule amount_text_roundtrip) (simp_all add: FractionalMax_def)

section \<open>What the parser accepts beyond the round trip\<close>

lemma uint_of_nat_u64: "n < 2 ^ 64 \<Longrightarrow> uint (of_nat n :: u64) = int n"
  by (simp add: uint_nat unat_of_nat)

lemma int64_large: "2 ^ 63 \<le> uint x \<Longrightarrow> int64 x = uint x - 2 ^ 64"
proof -
  assume "2 ^ 63 \<le> uint x"
  moreover have "uint x < 2 ^ 64" using uint_lt2p[of x] by simp
  ultimately have "(uint x + 2 ^ 63) mod 2 ^ 64 = uint x + 2 ^ 63 - 2 ^ 64"
    by (simp add: mod_pos_geq)
  then show ?thesis
    by (simp add: int64_def sint_uint signed_take_bit_eq_take_bit_shift take_bit_eq_mod)
qed

text \<open>
  A whole number of coins in \<open>[2\<^sup>6\<^sup>3, 2\<^sup>6\<^sup>4)\<close> is accepted by \<^verbatim>\<open>ParseAmount\<close> and becomes a
  \<^emph>\<open>negative\<close> amount, because \<^verbatim>\<open>NewCoinAmount\<close> converts the unsigned parts with \<^verbatim>\<open>int64\<close>.
\<close>

theorem ParseAmount_negative:
  assumes "list_all is_digit i" and "2 ^ 63 \<le> val_dec i" and "val_dec i < 2 ^ 64"
  shows "ParseAmount i = Inr ((int (val_dec i) - 2 ^ 64) * FractionalMax)"
proof -
  have ne: "i \<noteq> []" using assms(2) by auto
  have "ParseUint i = Some (of_nat (val_dec i))"
    using assms ne by (intro ParseUint_digits) auto
  moreover have "uint (of_nat (val_dec i) :: u64) = int (val_dec i)"
    using assms(3) by (rule uint_of_nat_u64)
  moreover from this have "(of_nat (val_dec i) :: u64) \<noteq> 0"
    using assms(2) by (metis int_zle_neg not_numeral_le_zero of_nat_0_eq_iff power_eq_0_iff
        unsigned_0 zero_neq_numeral le_zero_eq)
  ultimately show ?thesis
    using splitN2_digits(1)[OF assms(1)] int64_large[of "of_nat (val_dec i)"] assms(2)
    by (simp add: ParseAmount_def NewCoinAmount_def)
qed

theorem ParseAmount_negative_witness:
  "ParseAmount ''9223372036854775808'' = Inr (- 9223372036854775808000000000000000000)"
  using ParseAmount_negative[of "''9223372036854775808''"]
  by (simp add: val_dec_def digit_val_def is_digit_def FractionalMax_def)

text \<open>
  A text with more than eighteen fractional digits makes the parser panic (an index out of
  range in \<^verbatim>\<open>padFractional\<close>) instead of returning \<^verbatim>\<open>ErrInvalidAmountFormat\<close>.
\<close>

theorem ParseAmount_panics:
  assumes "list_all is_digit i" and "i \<noteq> []" and "val_dec i < 2 ^ 64" and "18 < length f"
  shows "ParseAmount (i @ CHR ''.'' # f) = Inl Panic"
  using assms ParseUint_digits[of i] splitN2_digits(2)[OF assms(1), of f]
  by (simp add: ParseAmount_def padFractional_def)

theorem ParseAmount_panics_witness: "ParseAmount ''0.0000000000000000001'' = Inl Panic"
  using ParseAmount_panics[of "''0''" "''0000000000000000001''"]
  by (simp add: val_dec_def digit_val_def)

end
