(* ===== verification/Types.thy ===== *)
theory Types
  imports Amount Keys
begin

text \<open>
  The data the chain state is made of: the account types of the processes vault and formulator,
  outputs of the UTXO model (\<^verbatim>\<open>txin.go\<close>, \<^verbatim>\<open>txout.go\<close>, \<^verbatim>\<open>utxo.go\<close>) and the events of the
  formulator process. A Go pointer that may be nil is an option.
\<close>

section \<open>Accounts\<close>

record single_account =
  sa_Address :: address
  sa_Name :: string
  sa_KeyHash :: pubhash

record multi_account =
  ma_Address :: address
  ma_Name :: string
  ma_Required :: u8
  ma_KeyHashes :: "pubhash list"

datatype formulator_type = AlphaFormulatorType | SigmaFormulatorType | OmegaFormulatorType | HyperFormulatorType

record validator_policy =
  vp_CommissionRatio1000 :: u32
  vp_MinimumStaking :: amount
  vp_PayOutInterval :: u32

record formulator_account =
  fa_Address :: address
  fa_Name :: string
  fa_FormulatorType :: formulator_type
  fa_KeyHash :: pubhash
  fa_GenHash :: pubhash
  fa_Amount :: amount
  fa_IsRevoked :: bool
  fa_PreHeight :: u32
  fa_UpdatedHeight :: u32
  fa_RewardCount :: u32
  fa_StakingAmount :: "amount option"
  fa_Policy :: "validator_policy option"

datatype account =
    SingleAccount single_account
  | MultiAccount multi_account
  | FormulatorAccount formulator_account

fun acc_Address :: "account \<Rightarrow> address" where
  "acc_Address (SingleAccount a) = sa_Address a"
| "acc_Address (MultiAccount a) = ma_Address a"
| "acc_Address (FormulatorAccount a) = fa_Address a"

fun acc_Name :: "account \<Rightarrow> string" where
  "acc_Name (SingleAccount a) = sa_Name a"
| "acc_Name (MultiAccount a) = ma_Name a"
| "acc_Name (FormulatorAccount a) = fa_Name a"

text \<open>\<^verbatim>\<open>Clone\<close> copies the values; for a formulator the staking fields survive only on the hyper type.\<close>

definition fa_Clone :: "formulator_account \<Rightarrow> formulator_account" where
  "fa_Clone acc =
     (if fa_FormulatorType acc = HyperFormulatorType then acc
      else acc\<lparr>fa_StakingAmount := None, fa_Policy := None\<rparr>)"

fun acc_Clone :: "account \<Rightarrow> account" where
  "acc_Clone (SingleAccount a) = SingleAccount a"
| "acc_Clone (MultiAccount a) = MultiAccount a"
| "acc_Clone (FormulatorAccount a) = FormulatorAccount (fa_Clone a)"

definition sa_Validate :: "single_account \<Rightarrow> pubhash list \<Rightarrow> err + unit" where
  "sa_Validate acc signers =
     (if length signers \<noteq> 1 then Inl (TypesErr ErrInvalidSignerCount)
      else if sa_KeyHash acc \<noteq> signers ! 0 then Inl (TypesErr ErrInvalidAccountSigner)
      else Inr ())"

definition ma_Validate :: "multi_account \<Rightarrow> pubhash list \<Rightarrow> err + unit" where
  "ma_Validate acc signers =
     (if length (ma_KeyHashes acc) \<noteq> length signers then Inl (TypesErr ErrInvalidSignerCount)
      else
        let signerMap = fold (\<lambda>signer m. om_put signer True m) signers [];
            matchCount = fold (\<lambda>pubhash n. if om_has signerMap pubhash then n + 1 else n) (ma_KeyHashes acc) 0
        in if matchCount \<noteq> unat (ma_Required acc) then Inl (TypesErr ErrInvalidAccountSigner)
           else Inr ())"

definition fa_Validate :: "formulator_account \<Rightarrow> pubhash list \<Rightarrow> err + unit" where
  "fa_Validate acc signers =
     (if length signers \<noteq> 1 then Inl (TypesErr ErrInvalidSignerCount)
      else if fa_KeyHash acc \<noteq> signers ! 0 then Inl (TypesErr ErrInvalidAccountSigner)
      else Inr ())"

fun acc_Validate :: "account \<Rightarrow> pubhash list \<Rightarrow> err + unit" where
  "acc_Validate (SingleAccount a) signers = sa_Validate a signers"
| "acc_Validate (MultiAccount a) signers = ma_Validate a signers"
| "acc_Validate (FormulatorAccount a) signers = fa_Validate a signers"

lemma acc_Clone_fields [simp]:
  "acc_Address (acc_Clone a) = acc_Address a" "acc_Name (acc_Clone a) = acc_Name a"
  "acc_Clone (acc_Clone a) = acc_Clone a"
  by (cases a; simp add: fa_Clone_def)+

lemma has_fold_put: "om_has (fold (\<lambda>s m. om_put s True m) xs m) k \<longleftrightarrow> k \<in> set xs \<or> om_has m k"
  by (induction xs arbitrary: m) auto

lemma fold_count: "fold (\<lambda>x n. if P x then n + 1 else n) xs n = n + length (filter P xs)"
  by (induction xs arbitrary: n) auto

text \<open>
  A multi-signature account accepts a set of signers exactly when there are as many signatures as
  the account has keys and exactly \<^verbatim>\<open>Required\<close> of the keys are among the signers. So the number of
  signatures is tied to the number of keys, and one valid signature too many is refused.
\<close>

theorem multi_account_validates:
  "ma_Validate acc signers = Inr () \<longleftrightarrow>
     length signers = length (ma_KeyHashes acc) \<and>
     length (filter (\<lambda>k. k \<in> set signers) (ma_KeyHashes acc)) = unat (ma_Required acc)"
proof -
  have "om_has (fold (\<lambda>s m. om_put s True m) signers []) = (\<lambda>k. k \<in> set signers)"
    by (simp add: fun_eq_iff has_fold_put)
  then show ?thesis by (auto simp: ma_Validate_def Let_def fold_count)
qed

section \<open>UTXO model\<close>

record txin =
  in_Height :: u32
  in_Index :: u16
  in_N :: u16

record txout =
  out_Amount :: amount
  out_PublicHash :: pubhash

record utxo =
  ux_TxIn :: txin
  ux_TxOut :: txout

definition NewTxIn :: "u64 \<Rightarrow> txin" where
  "NewTxIn i =
     (if i = 0 then \<lparr>in_Height = 0, in_Index = 0, in_N = 0\<rparr>
      else let (height, index, n) = UnmarshalID i in \<lparr>in_Height = height, in_Index = index, in_N = n\<rparr>)"

definition txin_ID :: "txin \<Rightarrow> u64" where
  "txin_ID i = MarshalID (in_Height i) (in_Index i) (in_N i)"

lemma txin_ID_New [simp]: "txin_ID (NewTxIn i) = i"
proof (cases "i = 0")
  case True
  then show ?thesis by (simp add: NewTxIn_def txin_ID_def MarshalID_def)
next
  case False
  obtain h x n where u: "UnmarshalID i = (h, x, n)" by (metis prod_cases3)
  then show ?thesis using False MarshalID_UnmarshalID[OF u] by (simp add: NewTxIn_def txin_ID_def)
qed

section \<open>Events\<close>

datatype event_body =
    RevokedEvent address
  | UnstakedEvent address address amount
  | RewardEvent "(address, u32) omap" "(address, amount) omap" "(address, amount) omap"
      "(address, amount) omap" "(address, (address, amount) omap) omap"
      "(address, (address, amount) omap) omap"

record event =
  ev_Height :: u32
  ev_Index :: u16
  ev_N :: u16
  ev_Body :: event_body

end
