(* ===== verification/Context.thy ===== *)
theory Context
  imports Types
begin

text \<open>
  \<^verbatim>\<open>core/types/context.go\<close>, \<^verbatim>\<open>context_data.go\<close>, \<^verbatim>\<open>context_cache.go\<close>, \<^verbatim>\<open>context_wrapper.go\<close> and
  \<^verbatim>\<open>loader.go\<close>: the in-memory state a block is executed on. A context is a stack of snapshots
  over a cache over a loader.

  The stack is a list with the top snapshot first; the \<^verbatim>\<open>Parent\<close> of a snapshot is the next
  element, and below the last one the context data calls the cache. The loader (the chain store,
  or the context of the previous block) is a record of functions; the caches a loader keeps for
  itself are not observable through them. Accounts and outputs are pointers in Go: reading one
  on the top snapshot puts a clone into the snapshot and returns it, so a field assignment in a
  process is \<open>ctx_putAccount\<close> here.
\<close>

section \<open>Keys\<close>

text \<open>\<^verbatim>\<open>string(pid)\<close> converts the integer to the UTF-8 encoding of the code point.\<close>

definition rune_str :: "u8 \<Rightarrow> bytes" where
  "rune_str p = (if p < 128 then [p] else [0xC0 OR drop_bit 6 p, 0x80 OR (p AND 0x3F)])"

definition accountData_key :: "address \<Rightarrow> u8 \<Rightarrow> bytes \<Rightarrow> bytes" where
  "accountData_key addr pid name = addr @ rune_str pid @ name"

definition processData_key :: "u8 \<Rightarrow> bytes \<Rightarrow> bytes" where
  "processData_key pid name = rune_str pid @ name"

section \<open>Loader and cache\<close>

record loader =
  ld_ChainID :: u8
  ld_Name :: string
  ld_Version :: u16
  ld_TargetHeight :: u32
  ld_LastHash :: hash256
  ld_LastTimestamp :: u64
  ld_Account :: "address \<Rightarrow> err + account"
  ld_AddressByName :: "string \<Rightarrow> err + address"
  ld_HasAccount :: "address \<Rightarrow> err + bool"
  ld_HasAccountName :: "string \<Rightarrow> err + bool"
  ld_AccountData :: "address \<Rightarrow> u8 \<Rightarrow> bytes \<Rightarrow> bytes"
  ld_HasUTXO :: "u64 \<Rightarrow> err + bool"
  ld_UTXO :: "u64 \<Rightarrow> err + utxo"
  ld_ProcessData :: "u8 \<Rightarrow> bytes \<Rightarrow> bytes"
  ld_HasTimeSlot :: "u32 \<Rightarrow> string \<Rightarrow> bool"

definition emptyLoader :: loader where
  "emptyLoader =
     \<lparr>ld_ChainID = 0, ld_Name = '''', ld_Version = 0, ld_TargetHeight = 0, ld_LastHash = EmptyHash,
      ld_LastTimestamp = 0,
      ld_Account = (\<lambda>_. Inl (TypesErr ErrNotExistAccount)),
      ld_AddressByName = (\<lambda>_. Inl (TypesErr ErrNotExistAccount)),
      ld_HasAccount = (\<lambda>_. Inr False), ld_HasAccountName = (\<lambda>_. Inr False),
      ld_AccountData = (\<lambda>_ _ _. []), ld_HasUTXO = (\<lambda>_. Inr False),
      ld_UTXO = (\<lambda>_. Inl (TypesErr ErrNotExistUTXO)),
      ld_ProcessData = (\<lambda>_ _. []), ld_HasTimeSlot = (\<lambda>_ _. False)\<rparr>"

record context_cache =
  cc_AccountMap :: "(address, account) omap"
  cc_AccountNameMap :: "(string, address) omap"
  cc_AccountDataMap :: "(bytes, bytes) omap"
  cc_ProcessDataMap :: "(bytes, bytes) omap"
  cc_UTXOMap :: "(u64, utxo) omap"
  cc_TimeSlotMap :: "(u32, (string, bool) omap) omap"

definition newContextCache :: context_cache where
  "newContextCache =
     \<lparr>cc_AccountMap = [], cc_AccountNameMap = [], cc_AccountDataMap = [], cc_ProcessDataMap = [],
      cc_UTXOMap = [], cc_TimeSlotMap = []\<rparr>"

definition cc_Account :: "loader \<Rightarrow> address \<Rightarrow> context_cache \<Rightarrow> (err + account) \<times> context_cache" where
  "cc_Account ld addr cc =
     (case om_get (cc_AccountMap cc) addr of
        Some acc \<Rightarrow> (Inr acc, cc)
      | None \<Rightarrow>
          (case ld_Account ld addr of
             Inl e \<Rightarrow> (Inl e, cc)
           | Inr acc \<Rightarrow> (Inr acc, cc\<lparr>cc_AccountMap := om_put addr acc (cc_AccountMap cc)\<rparr>)))"

definition cc_AddressByName :: "loader \<Rightarrow> string \<Rightarrow> context_cache \<Rightarrow> (err + address) \<times> context_cache" where
  "cc_AddressByName ld Name cc =
     (case om_get (cc_AccountNameMap cc) Name of
        Some addr \<Rightarrow> (Inr addr, cc)
      | None \<Rightarrow>
          (case ld_AddressByName ld Name of
             Inl e \<Rightarrow> (Inl e, cc)
           | Inr addr \<Rightarrow> (Inr addr, cc\<lparr>cc_AccountNameMap := om_put Name addr (cc_AccountNameMap cc)\<rparr>)))"

definition cc_HasAccount :: "loader \<Rightarrow> address \<Rightarrow> context_cache \<Rightarrow> err + bool" where
  "cc_HasAccount ld addr cc = (if om_has (cc_AccountMap cc) addr then Inr True else ld_HasAccount ld addr)"

definition cc_HasAccountName :: "loader \<Rightarrow> string \<Rightarrow> context_cache \<Rightarrow> err + bool" where
  "cc_HasAccountName ld Name cc =
     (if om_has (cc_AccountNameMap cc) Name then Inr True else ld_HasAccountName ld Name)"

definition cc_AccountData ::
  "loader \<Rightarrow> address \<Rightarrow> u8 \<Rightarrow> bytes \<Rightarrow> context_cache \<Rightarrow> bytes \<times> context_cache" where
  "cc_AccountData ld addr pid name cc =
     (let key = accountData_key addr pid name
      in case om_get (cc_AccountDataMap cc) key of
           Some value \<Rightarrow> (value, cc)
         | None \<Rightarrow>
             let value = ld_AccountData ld addr pid name
             in (value, cc\<lparr>cc_AccountDataMap := om_put key value (cc_AccountDataMap cc)\<rparr>))"

text \<open>\<^verbatim>\<open>contextCache.HasUTXO\<close> answers from the cached outputs alone.\<close>

definition cc_HasUTXO :: "u64 \<Rightarrow> context_cache \<Rightarrow> err + bool" where
  "cc_HasUTXO i cc = (if om_has (cc_UTXOMap cc) i then Inr True else Inr False)"

definition cc_UTXO :: "loader \<Rightarrow> u64 \<Rightarrow> context_cache \<Rightarrow> (err + utxo) \<times> context_cache" where
  "cc_UTXO ld i cc =
     (case om_get (cc_UTXOMap cc) i of
        Some utxo \<Rightarrow> (Inr utxo, cc)
      | None \<Rightarrow>
          (case ld_UTXO ld i of
             Inl e \<Rightarrow> (Inl e, cc)
           | Inr utxo \<Rightarrow> (Inr utxo, cc\<lparr>cc_UTXOMap := om_put i utxo (cc_UTXOMap cc)\<rparr>)))"

definition cc_ProcessData :: "loader \<Rightarrow> u8 \<Rightarrow> bytes \<Rightarrow> context_cache \<Rightarrow> bytes \<times> context_cache" where
  "cc_ProcessData ld pid name cc =
     (let key = processData_key pid name
      in case om_get (cc_ProcessDataMap cc) key of
           Some value \<Rightarrow> (value, cc)
         | None \<Rightarrow>
             let value = ld_ProcessData ld pid name
             in (value, cc\<lparr>cc_ProcessDataMap := om_put key value (cc_ProcessDataMap cc)\<rparr>))"

text \<open>\<^verbatim>\<open>mp[key] = true\<close> in the map of the slot, which is created when missing.\<close>

definition mark_slot ::
  "u32 \<Rightarrow> string \<Rightarrow> (u32, (string, bool) omap) omap \<Rightarrow> (u32, (string, bool) omap) omap" where
  "mark_slot slot key m =
     om_put slot (om_put key True (case om_get m slot of None \<Rightarrow> [] | Some mp \<Rightarrow> mp)) m"

definition slot_marked :: "u32 \<Rightarrow> string \<Rightarrow> (u32, (string, bool) omap) omap \<Rightarrow> bool" where
  "slot_marked slot key m = (case om_get m slot of None \<Rightarrow> False | Some mp \<Rightarrow> om_has mp key)"

definition cc_HasTimeSlot :: "loader \<Rightarrow> u32 \<Rightarrow> string \<Rightarrow> context_cache \<Rightarrow> bool \<times> context_cache" where
  "cc_HasTimeSlot ld slot key cc =
     (if slot_marked slot key (cc_TimeSlotMap cc) then (True, cc)
      else if ld_HasTimeSlot ld slot key
      then (True, cc\<lparr>cc_TimeSlotMap := mark_slot slot key (cc_TimeSlotMap cc)\<rparr>)
      else (False, cc))"

section \<open>Snapshots\<close>

record context_data =
  cd_AccountMap :: "(address, account) omap"
  cd_DeletedAccountMap :: "(address, account) omap"
  cd_AccountNameMap :: "(string, address) omap"
  cd_AccountDataMap :: "(bytes, bytes) omap"
  cd_DeletedAccountDataMap :: "(bytes, bool) omap"
  cd_ProcessDataMap :: "(bytes, bytes) omap"
  cd_DeletedProcessDataMap :: "(bytes, bool) omap"
  cd_UTXOMap :: "(u64, utxo) omap"
  cd_CreatedUTXOMap :: "(u64, txout) omap"
  cd_DeletedUTXOMap :: "(u64, utxo) omap"
  cd_Events :: "event list"
  cd_EventN :: u16
  cd_TimeSlotMap :: "(u32, (string, bool) omap) omap"
  cd_isTop :: bool

text \<open>A stack of snapshots with the cache below it.\<close>

type_synonym ctd_stack = "context_data list \<times> context_cache"

definition NewContextData :: "context_data list \<Rightarrow> context_data" where
  "NewContextData parents =
     \<lparr>cd_AccountMap = [], cd_DeletedAccountMap = [], cd_AccountNameMap = [], cd_AccountDataMap = [],
      cd_DeletedAccountDataMap = [], cd_ProcessDataMap = [], cd_DeletedProcessDataMap = [],
      cd_UTXOMap = [], cd_CreatedUTXOMap = [], cd_DeletedUTXOMap = [], cd_Events = [],
      cd_EventN = (case parents of [] \<Rightarrow> 0 | p # _ \<Rightarrow> cd_EventN p),
      cd_TimeSlotMap = [], cd_isTop = True\<rparr>"

fun ctd_Account :: "loader \<Rightarrow> address \<Rightarrow> context_data list \<Rightarrow> context_cache \<Rightarrow> (err + account) \<times> ctd_stack" where
  "ctd_Account ld addr [] cc = (let (r, cc') = cc_Account ld addr cc in (r, [], cc'))"
| "ctd_Account ld addr (ctd # ps) cc =
     (if om_has (cd_DeletedAccountMap ctd) addr then (Inl (TypesErr ErrDeletedAccount), ctd # ps, cc)
      else case om_get (cd_AccountMap ctd) addr of
        Some acc \<Rightarrow> (Inr acc, ctd # ps, cc)
      | None \<Rightarrow>
          (case ctd_Account ld addr ps cc of
             (Inl e, ps', cc') \<Rightarrow> (Inl e, ctd # ps', cc')
           | (Inr acc, ps', cc') \<Rightarrow>
               if cd_isTop ctd
               then let nacc = acc_Clone acc
                    in (Inr nacc, ctd\<lparr>cd_AccountMap := om_put addr nacc (cd_AccountMap ctd)\<rparr> # ps', cc')
               else (Inr acc, ctd # ps', cc')))"

fun ctd_AddressByName :: "loader \<Rightarrow> string \<Rightarrow> context_data list \<Rightarrow> context_cache \<Rightarrow> (err + address) \<times> ctd_stack" where
  "ctd_AddressByName ld Name [] cc = (let (r, cc') = cc_AddressByName ld Name cc in (r, [], cc'))"
| "ctd_AddressByName ld Name (ctd # ps) cc =
     (case om_get (cd_AccountNameMap ctd) Name of
        Some addr \<Rightarrow> (Inr addr, ctd # ps, cc)
      | None \<Rightarrow>
          (case ctd_AddressByName ld Name ps cc of
             (Inl e, ps', cc') \<Rightarrow> (Inl e, ctd # ps', cc')
           | (Inr addr, ps', cc') \<Rightarrow>
               if cd_isTop ctd
               then (Inr addr, ctd\<lparr>cd_AccountNameMap := om_put Name addr (cd_AccountNameMap ctd)\<rparr> # ps', cc')
               else (Inr addr, ctd # ps', cc')))"

fun ctd_HasAccount :: "loader \<Rightarrow> address \<Rightarrow> context_data list \<Rightarrow> context_cache \<Rightarrow> err + bool" where
  "ctd_HasAccount ld addr [] cc = cc_HasAccount ld addr cc"
| "ctd_HasAccount ld addr (ctd # ps) cc =
     (if om_has (cd_DeletedAccountMap ctd) addr then Inr False
      else if om_has (cd_AccountMap ctd) addr then Inr True
      else ctd_HasAccount ld addr ps cc)"

fun ctd_HasAccountName :: "loader \<Rightarrow> string \<Rightarrow> context_data list \<Rightarrow> context_cache \<Rightarrow> err + bool" where
  "ctd_HasAccountName ld Name [] cc = cc_HasAccountName ld Name cc"
| "ctd_HasAccountName ld Name (ctd # ps) cc =
     (if om_has (cd_AccountNameMap ctd) Name then Inr True else ctd_HasAccountName ld Name ps cc)"

fun ctd_AccountData ::
  "loader \<Rightarrow> address \<Rightarrow> u8 \<Rightarrow> bytes \<Rightarrow> context_data list \<Rightarrow> context_cache \<Rightarrow> bytes \<times> ctd_stack" where
  "ctd_AccountData ld addr pid name [] cc = (let (v, cc') = cc_AccountData ld addr pid name cc in (v, [], cc'))"
| "ctd_AccountData ld addr pid name (ctd # ps) cc =
     (let key = accountData_key addr pid name
      in if om_has (cd_DeletedAccountDataMap ctd) key then ([], ctd # ps, cc)
         else case om_get (cd_AccountDataMap ctd) key of
           Some value \<Rightarrow> (value, ctd # ps, cc)
         | None \<Rightarrow>
             (case ctd_AccountData ld addr pid name ps cc of
                (value, ps', cc') \<Rightarrow>
                  if 0 < length value
                  then if cd_isTop ctd
                       then (value, ctd\<lparr>cd_AccountDataMap := om_put key value (cd_AccountDataMap ctd)\<rparr> # ps', cc')
                       else (value, ctd # ps', cc')
                  else ([], ctd # ps', cc')))"

fun ctd_ProcessData ::
  "loader \<Rightarrow> u8 \<Rightarrow> bytes \<Rightarrow> context_data list \<Rightarrow> context_cache \<Rightarrow> bytes \<times> ctd_stack" where
  "ctd_ProcessData ld pid name [] cc = (let (v, cc') = cc_ProcessData ld pid name cc in (v, [], cc'))"
| "ctd_ProcessData ld pid name (ctd # ps) cc =
     (let key = processData_key pid name
      in if om_has (cd_DeletedProcessDataMap ctd) key then ([], ctd # ps, cc)
         else case om_get (cd_ProcessDataMap ctd) key of
           Some value \<Rightarrow> (value, ctd # ps, cc)
         | None \<Rightarrow>
             (case ctd_ProcessData ld pid name ps cc of
                (value, ps', cc') \<Rightarrow>
                  if 0 < length value
                  then if cd_isTop ctd
                       then (value, ctd\<lparr>cd_ProcessDataMap := om_put key value (cd_ProcessDataMap ctd)\<rparr> # ps', cc')
                       else (value, ctd # ps', cc')
                  else ([], ctd # ps', cc')))"

definition ctd_SetAccountData :: "address \<Rightarrow> u8 \<Rightarrow> bytes \<Rightarrow> bytes \<Rightarrow> context_data \<Rightarrow> context_data" where
  "ctd_SetAccountData addr pid name value ctd =
     (let key = accountData_key addr pid name
      in if length value = 0
         then ctd\<lparr>cd_AccountDataMap := om_delete key (cd_AccountDataMap ctd),
                  cd_DeletedAccountDataMap := om_put key True (cd_DeletedAccountDataMap ctd)\<rparr>
         else ctd\<lparr>cd_DeletedAccountDataMap := om_delete key (cd_DeletedAccountDataMap ctd),
                  cd_AccountDataMap := om_put key value (cd_AccountDataMap ctd)\<rparr>)"

definition ctd_SetProcessData :: "u8 \<Rightarrow> bytes \<Rightarrow> bytes \<Rightarrow> context_data \<Rightarrow> context_data" where
  "ctd_SetProcessData pid name value ctd =
     (let key = processData_key pid name
      in if length value = 0
         then ctd\<lparr>cd_ProcessDataMap := om_delete key (cd_ProcessDataMap ctd),
                  cd_DeletedProcessDataMap := om_put key True (cd_DeletedProcessDataMap ctd)\<rparr>
         else ctd\<lparr>cd_DeletedProcessDataMap := om_delete key (cd_DeletedProcessDataMap ctd),
                  cd_ProcessDataMap := om_put key value (cd_ProcessDataMap ctd)\<rparr>)"

fun ctd_HasUTXO :: "u64 \<Rightarrow> context_data list \<Rightarrow> context_cache \<Rightarrow> err + bool" where
  "ctd_HasUTXO i [] cc = cc_HasUTXO i cc"
| "ctd_HasUTXO i (ctd # ps) cc =
     (if om_has (cd_DeletedUTXOMap ctd) i then Inr False
      else if om_has (cd_UTXOMap ctd) i then Inr True
      else if om_has (cd_CreatedUTXOMap ctd) i then Inr True
      else ctd_HasUTXO i ps cc)"

fun ctd_UTXO :: "loader \<Rightarrow> u64 \<Rightarrow> context_data list \<Rightarrow> context_cache \<Rightarrow> (err + utxo) \<times> ctd_stack" where
  "ctd_UTXO ld i [] cc = (let (r, cc') = cc_UTXO ld i cc in (r, [], cc'))"
| "ctd_UTXO ld i (ctd # ps) cc =
     (if om_has (cd_DeletedUTXOMap ctd) i then (Inl (TypesErr ErrUsedUTXO), ctd # ps, cc)
      else case om_get (cd_UTXOMap ctd) i of
        Some u \<Rightarrow> (Inr u, ctd # ps, cc)
      | None \<Rightarrow>
          (case ctd_UTXO ld i ps cc of
             (Inl e, ps', cc') \<Rightarrow> (Inl e, ctd # ps', cc')
           | (Inr u, ps', cc') \<Rightarrow>
               if cd_isTop ctd
               then (Inr u, ctd\<lparr>cd_UTXOMap := om_put i u (cd_UTXOMap ctd)\<rparr> # ps', cc')
               else (Inr u, ctd # ps', cc')))"

section \<open>The context\<close>

record chain_ctx =
  ctx_loader :: loader
  ctx_genTargetHeight :: u32
  ctx_genLastHash :: hash256
  ctx_genTimestamp :: u64
  ctx_cache :: context_cache
  ctx_stack :: "context_data list"
  ctx_isLatestHash :: bool
  ctx_dataHash :: hash256

definition NewContext :: "loader \<Rightarrow> chain_ctx" where
  "NewContext ld =
     \<lparr>ctx_loader = ld, ctx_genTargetHeight = ld_TargetHeight ld, ctx_genLastHash = ld_LastHash ld,
      ctx_genTimestamp = ld_LastTimestamp ld, ctx_cache = newContextCache,
      ctx_stack = [NewContextData []], ctx_isLatestHash = False, ctx_dataHash = EmptyHash\<rparr>"

definition NewEmptyContext :: chain_ctx where
  "NewEmptyContext = NewContext emptyLoader"

text \<open>\<^verbatim>\<open>ctx.Top()\<close>; every method below is called on a context with a non-empty stack.\<close>

definition ctx_Top :: "chain_ctx \<Rightarrow> context_data" where
  "ctx_Top ctx = hd (ctx_stack ctx)"

definition ctx_setTop :: "(context_data \<Rightarrow> context_data) \<Rightarrow> chain_ctx \<Rightarrow> chain_ctx" where
  "ctx_setTop f ctx = ctx\<lparr>ctx_stack := f (hd (ctx_stack ctx)) # tl (ctx_stack ctx)\<rparr>"

definition ctx_dirty :: "chain_ctx \<Rightarrow> chain_ctx" where
  "ctx_dirty ctx = ctx\<lparr>ctx_isLatestHash := False\<rparr>"

text \<open>A call of a recursive reader on the top snapshot.\<close>

definition ctx_read ::
  "(loader \<Rightarrow> context_data list \<Rightarrow> context_cache \<Rightarrow> 'a \<times> ctd_stack) \<Rightarrow> chain_ctx \<Rightarrow> 'a \<times> chain_ctx" where
  "ctx_read f ctx =
     (case f (ctx_loader ctx) (ctx_stack ctx) (ctx_cache ctx) of
        (r, stack, cc) \<Rightarrow> (r, ctx\<lparr>ctx_stack := stack, ctx_cache := cc\<rparr>))"

definition ctx_TargetHeight :: "chain_ctx \<Rightarrow> u32" where
  "ctx_TargetHeight ctx = ctx_genTargetHeight ctx"

definition ctx_Account :: "address \<Rightarrow> (chain_ctx, account) go_meth" where
  "ctx_Account addr ctx = ctx_read (\<lambda>ld. ctd_Account ld addr) (ctx_dirty ctx)"

definition ctx_AddressByName :: "string \<Rightarrow> (chain_ctx, address) go_meth" where
  "ctx_AddressByName Name ctx = ctx_read (\<lambda>ld. ctd_AddressByName ld Name) ctx"

definition ctx_HasAccount :: "address \<Rightarrow> (chain_ctx, bool) go_meth" where
  "ctx_HasAccount addr ctx = (ctd_HasAccount (ctx_loader ctx) addr (ctx_stack ctx) (ctx_cache ctx), ctx)"

definition ctx_HasAccountName :: "string \<Rightarrow> (chain_ctx, bool) go_meth" where
  "ctx_HasAccountName Name ctx = (ctd_HasAccountName (ctx_loader ctx) Name (ctx_stack ctx) (ctx_cache ctx), ctx)"

text \<open>An assignment to a field of an account obtained from the top snapshot.\<close>

definition ctx_putAccount :: "address \<Rightarrow> account \<Rightarrow> chain_ctx \<Rightarrow> chain_ctx" where
  "ctx_putAccount addr acc = ctx_setTop (\<lambda>ctd. ctd\<lparr>cd_AccountMap := om_put addr acc (cd_AccountMap ctd)\<rparr>)"

definition insert_account :: "account \<Rightarrow> context_data \<Rightarrow> context_data" where
  "insert_account acc ctd =
     ctd\<lparr>cd_AccountMap := om_put (acc_Address acc) acc (cd_AccountMap ctd),
         cd_AccountNameMap := om_put (acc_Name acc) (acc_Address acc) (cd_AccountNameMap ctd)\<rparr>"

text \<open>\<^verbatim>\<open>if has, err := ...; err != nil { if err is not ignored, return it } else if has { return exist }\<close>.\<close>

definition check_absent :: "err list \<Rightarrow> err \<Rightarrow> err + bool \<Rightarrow> err + unit" where
  "check_absent ignored exist r =
     (case r of
        Inl e \<Rightarrow> if e \<in> set ignored then Inr () else Inl e
      | Inr has \<Rightarrow> if has then Inl exist else Inr ())"

text \<open>The checks of \<^verbatim>\<open>CreateAccount\<close> and \<^verbatim>\<open>CreateAccountIgnoreDelete\<close>, which differ in the errors of
  the existence tests they ignore.\<close>

definition check_new_account ::
  "(string \<Rightarrow> bytes option) \<Rightarrow> err list \<Rightarrow> account \<Rightarrow> chain_ctx \<Rightarrow> err + unit" where
  "check_new_account dec ignored acc ctx =
     (if addr_Height (acc_Address acc) \<noteq> Some (ctx_TargetHeight ctx)
      then Inl (TypesErr ErrInvalidAddressHeight)
      else if acc_Address acc = zeros AddressSize then Inl (TypesErr ErrNotAllowedEmptyAddressAccount)
      else if \<not> isl (ParseAddress dec (acc_Name acc)) then Inl (TypesErr ErrNotAllowedAddressAccountName)
      else
        case check_absent ignored (TypesErr ErrExistAccount)
            (ctd_HasAccount (ctx_loader ctx) (acc_Address acc) (ctx_stack ctx) (ctx_cache ctx)) of
          Inl e \<Rightarrow> Inl e
        | Inr _ \<Rightarrow>
            check_absent ignored (TypesErr ErrExistAccountName)
              (ctd_HasAccountName (ctx_loader ctx) (acc_Name acc) (ctx_stack ctx) (ctx_cache ctx)))"

definition ctx_CreateAccount :: "(string \<Rightarrow> bytes option) \<Rightarrow> account \<Rightarrow> (chain_ctx, unit) go_meth" where
  "ctx_CreateAccount dec acc ctx =
     (let ctx = ctx_dirty ctx
      in case check_new_account dec [TypesErr ErrNotExistAccount] acc ctx of
           Inl e \<Rightarrow> (Inl e, ctx)
         | Inr _ \<Rightarrow> (Inr (), ctx_setTop (insert_account acc) ctx))"

definition ctx_CreateAccountIgnoreDelete :: "(string \<Rightarrow> bytes option) \<Rightarrow> account \<Rightarrow> (chain_ctx, unit) go_meth" where
  "ctx_CreateAccountIgnoreDelete dec acc ctx =
     (let ctx = ctx_dirty ctx
      in case check_new_account dec [TypesErr ErrNotExistAccount, TypesErr ErrDeletedAccount] acc ctx of
           Inl e \<Rightarrow> (Inl e, ctx)
         | Inr _ \<Rightarrow> (Inr (), ctx_setTop (insert_account acc) ctx))"

definition ctx_DeleteAccount :: "account \<Rightarrow> (chain_ctx, unit) go_meth" where
  "ctx_DeleteAccount acc ctx =
     (case ctx_Account (acc_Address acc) ctx of
        (Inl e, ctx') \<Rightarrow> (Inl e, ctx')
      | (Inr _, ctx') \<Rightarrow>
          (Inr (), ctx_setTop (\<lambda>ctd. ctd\<lparr>
             cd_DeletedAccountMap := om_put (acc_Address acc) acc (cd_DeletedAccountMap ctd),
             cd_AccountMap := om_delete (acc_Address acc) (cd_AccountMap ctd),
             cd_AccountNameMap := om_delete (acc_Name acc) (cd_AccountNameMap ctd)\<rparr>) ctx'))"

definition ctx_AccountData :: "address \<Rightarrow> u8 \<Rightarrow> bytes \<Rightarrow> chain_ctx \<Rightarrow> bytes \<times> chain_ctx" where
  "ctx_AccountData addr pid name ctx = ctx_read (\<lambda>ld. ctd_AccountData ld addr pid name) ctx"

definition ctx_SetAccountData :: "address \<Rightarrow> u8 \<Rightarrow> bytes \<Rightarrow> bytes \<Rightarrow> chain_ctx \<Rightarrow> chain_ctx" where
  "ctx_SetAccountData addr pid name value ctx =
     ctx_setTop (ctd_SetAccountData addr pid name value) (ctx_dirty ctx)"

definition ctx_ProcessData :: "u8 \<Rightarrow> bytes \<Rightarrow> chain_ctx \<Rightarrow> bytes \<times> chain_ctx" where
  "ctx_ProcessData pid name ctx = ctx_read (\<lambda>ld. ctd_ProcessData ld pid name) ctx"

definition ctx_SetProcessData :: "u8 \<Rightarrow> bytes \<Rightarrow> bytes \<Rightarrow> chain_ctx \<Rightarrow> chain_ctx" where
  "ctx_SetProcessData pid name value ctx = ctx_setTop (ctd_SetProcessData pid name value) ctx"

definition ctx_HasUTXO :: "u64 \<Rightarrow> (chain_ctx, bool) go_meth" where
  "ctx_HasUTXO i ctx = (ctd_HasUTXO i (ctx_stack ctx) (ctx_cache ctx), ctx)"

definition ctx_UTXO :: "u64 \<Rightarrow> (chain_ctx, utxo) go_meth" where
  "ctx_UTXO i ctx = ctx_read (\<lambda>ld. ctd_UTXO ld i) ctx"

definition ctx_CreateUTXO :: "u64 \<Rightarrow> txout \<Rightarrow> (chain_ctx, unit) go_meth" where
  "ctx_CreateUTXO i vout ctx =
     (case ctx_UTXO i (ctx_dirty ctx) of
        (Inl e, ctx') \<Rightarrow>
          if e \<noteq> TypesErr ErrNotExistUTXO then (Inl e, ctx')
          else (Inr (), ctx_setTop (\<lambda>ctd. ctd\<lparr>cd_CreatedUTXOMap := om_put i vout (cd_CreatedUTXOMap ctd)\<rparr>) ctx')
      | (Inr _, ctx') \<Rightarrow> (Inl (TypesErr ErrExistUTXO), ctx'))"

definition ctx_DeleteUTXO :: "utxo \<Rightarrow> (chain_ctx, unit) go_meth" where
  "ctx_DeleteUTXO u ctx =
     (case ctx_UTXO (txin_ID (ux_TxIn u)) (ctx_dirty ctx) of
        (Inl e, ctx') \<Rightarrow> (Inl e, ctx')
      | (Inr _, ctx') \<Rightarrow>
          (Inr (), ctx_setTop (\<lambda>ctd. ctd\<lparr>cd_DeletedUTXOMap :=
             om_put (txin_ID (ux_TxIn u)) u (cd_DeletedUTXOMap ctd)\<rparr>) ctx'))"

definition ctx_EmitEvent :: "event \<Rightarrow> (chain_ctx, unit) go_meth" where
  "ctx_EmitEvent e ctx =
     (Inr (), ctx_setTop (\<lambda>ctd. ctd\<lparr>cd_Events := cd_Events ctd @ [e\<lparr>ev_N := cd_EventN ctd\<rparr>],
        cd_EventN := cd_EventN ctd + 1\<rparr>) (ctx_dirty ctx))"

text \<open>The time slot methods look at the top snapshot and at the cache, not at the snapshots between.\<close>

definition ctx_HasTimeSlot :: "u32 \<Rightarrow> string \<Rightarrow> chain_ctx \<Rightarrow> bool \<times> chain_ctx" where
  "ctx_HasTimeSlot slot key ctx =
     (if slot_marked slot key (cd_TimeSlotMap (ctx_Top ctx)) then (True, ctx)
      else
        let (has, cc) = cc_HasTimeSlot (ctx_loader ctx) slot key (ctx_cache ctx); ctx = ctx\<lparr>ctx_cache := cc\<rparr>
        in if has
           then (True, ctx_setTop (\<lambda>ctd. ctd\<lparr>cd_TimeSlotMap := mark_slot slot key (cd_TimeSlotMap ctd)\<rparr>) ctx)
           else (False, ctx))"

definition ctx_UseTimeSlot :: "u32 \<Rightarrow> string \<Rightarrow> (chain_ctx, unit) go_meth" where
  "ctx_UseTimeSlot slot key ctx =
     (if slot_marked slot key (cd_TimeSlotMap (ctx_Top ctx)) then (Inl (TypesErr ErrUsedTimeSlot), ctx)
      else
        let (has, cc) = cc_HasTimeSlot (ctx_loader ctx) slot key (ctx_cache ctx); ctx = ctx\<lparr>ctx_cache := cc\<rparr>;
            ctx' = ctx_setTop (\<lambda>ctd. ctd\<lparr>cd_TimeSlotMap := mark_slot slot key (cd_TimeSlotMap ctd)\<rparr>) ctx
        in if has then (Inl (TypesErr ErrUsedTimeSlot), ctx') else (Inr (), ctx'))"

section \<open>Snapshot, Revert and Commit\<close>

definition ctx_Snapshot :: "chain_ctx \<Rightarrow> nat \<times> chain_ctx" where
  "ctx_Snapshot ctx =
     (let ctx = ctx_dirty ctx;
          ctd = NewContextData (ctx_stack ctx);
          ctx = ctx_setTop (\<lambda>t. t\<lparr>cd_isTop := False\<rparr>) ctx;
          ctx = ctx\<lparr>ctx_stack := ctd # ctx_stack ctx\<rparr>
      in (length (ctx_stack ctx), ctx))"

text \<open>\<^verbatim>\<open>ctx.stack[:sn-1]\<close> keeps the lowest \<open>sn - 1\<close> snapshots; an empty result makes it panic.\<close>

definition ctx_Revert :: "nat \<Rightarrow> (chain_ctx, unit) go_meth" where
  "ctx_Revert sn ctx =
     (let ctx = ctx_dirty ctx; n = length (ctx_stack ctx)
      in if sn \<le> 1 then (Inl Panic, ctx)
         else
           let stack = (if sn \<le> n then drop (n - (sn - 1)) (ctx_stack ctx) else ctx_stack ctx)
           in (Inr (), ctx_setTop (\<lambda>t. t\<lparr>cd_isTop := True\<rparr>) (ctx\<lparr>ctx_stack := stack\<rparr>)))"

definition commit_slots ::
  "(u32, (string, bool) omap) omap \<Rightarrow> (u32, (string, bool) omap) omap \<Rightarrow> (u32, (string, bool) omap) omap" where
  "commit_slots src dst =
     fold (\<lambda>(slot, mp) d. case om_get d slot of
             Some tp \<Rightarrow> om_put slot (om_putAll mp tp) d
           | None \<Rightarrow> om_put slot mp d) (om_each src) dst"

text \<open>One iteration of the loop of \<^verbatim>\<open>Commit\<close>: \<open>ctd\<close> is merged into the snapshot below it.\<close>

definition commit_data :: "context_data \<Rightarrow> context_data \<Rightarrow> context_data" where
  "commit_data ctd below =
     \<lparr>cd_AccountMap = om_deleteAll (cd_DeletedAccountMap ctd) (om_putAll (cd_AccountMap ctd) (cd_AccountMap below)),
      cd_DeletedAccountMap = om_putAll (cd_DeletedAccountMap ctd) (cd_DeletedAccountMap below),
      cd_AccountNameMap = om_putAll (cd_AccountNameMap ctd) (cd_AccountNameMap below),
      cd_AccountDataMap =
        om_deleteAll (cd_DeletedAccountDataMap ctd) (om_putAll (cd_AccountDataMap ctd) (cd_AccountDataMap below)),
      cd_DeletedAccountDataMap = om_putAll (cd_DeletedAccountDataMap ctd) (cd_DeletedAccountDataMap below),
      cd_ProcessDataMap =
        om_deleteAll (cd_DeletedProcessDataMap ctd) (om_putAll (cd_ProcessDataMap ctd) (cd_ProcessDataMap below)),
      cd_DeletedProcessDataMap = om_putAll (cd_DeletedProcessDataMap ctd) (cd_DeletedProcessDataMap below),
      cd_UTXOMap = om_deleteAll (cd_DeletedUTXOMap ctd) (om_putAll (cd_UTXOMap ctd) (cd_UTXOMap below)),
      cd_CreatedUTXOMap =
        om_deleteAll (cd_DeletedUTXOMap ctd) (om_putAll (cd_CreatedUTXOMap ctd) (cd_CreatedUTXOMap below)),
      cd_DeletedUTXOMap = om_putAll (cd_DeletedUTXOMap ctd) (cd_DeletedUTXOMap below),
      cd_Events = cd_Events below @ cd_Events ctd,
      cd_EventN = cd_EventN ctd,
      cd_TimeSlotMap = commit_slots (cd_TimeSlotMap ctd) (cd_TimeSlotMap below),
      cd_isTop = cd_isTop below\<rparr>"

function commit_loop :: "nat \<Rightarrow> context_data list \<Rightarrow> context_data list option" where
  "commit_loop sn stack =
     (if sn \<le> length stack
      then case stack of
             ctd # below # ps \<Rightarrow> commit_loop sn (commit_data ctd below # ps)
           | _ \<Rightarrow> None
      else Some stack)"
  by pat_completeness auto
termination
  by (relation "measure (\<lambda>(sn, stack). length stack)") auto

declare commit_loop.simps [simp del]

definition ctx_Commit :: "nat \<Rightarrow> (chain_ctx, unit) go_meth" where
  "ctx_Commit sn ctx =
     (let ctx = ctx_dirty ctx
      in case commit_loop sn (ctx_stack ctx) of
           None \<Rightarrow> (Inl Panic, ctx)
         | Some stack \<Rightarrow> (Inr (), ctx_setTop (\<lambda>t. t\<lparr>cd_isTop := True\<rparr>) (ctx\<lparr>ctx_stack := stack\<rparr>)))"

definition ctx_StackSize :: "chain_ctx \<Rightarrow> nat" where
  "ctx_StackSize ctx = length (ctx_stack ctx)"

section \<open>The context hash and the next context\<close>

text \<open>
  \<^verbatim>\<open>encoding.Hash\<close> hashes the msgpack encoding of its argument; the library is not part of the
  repository, so the hash of each kind of value is a parameter.
\<close>

record hashers =
  eh_AccountMap :: "(address, account) omap \<Rightarrow> hash256"
  eh_AccountNameMap :: "(string, address) omap \<Rightarrow> hash256"
  eh_BytesMap :: "(bytes, bytes) omap \<Rightarrow> hash256"
  eh_UTXOMap :: "(u64, utxo) omap \<Rightarrow> hash256"
  eh_TxOutMap :: "(u64, txout) omap \<Rightarrow> hash256"
  eh_Event :: "event \<Rightarrow> hash256"

definition ctd_Hash :: "hashers \<Rightarrow> chain_ctx \<Rightarrow> context_data \<Rightarrow> hash256" where
  "ctd_Hash H ctx ctd =
     DoubleHash (
       str_bytes ''ChainID'' @ [ld_ChainID (ctx_loader ctx)] @
       str_bytes ''ChainName'' @ str_bytes (ld_Name (ctx_loader ctx)) @
       str_bytes ''ChainVersion'' @ LE_Uint16ToBytes (ld_Version (ctx_loader ctx)) @
       str_bytes ''Height'' @ LE_Uint32ToBytes (ctx_genTargetHeight ctx) @
       str_bytes ''PrevHash'' @ ctx_genLastHash ctx @
       str_bytes ''AccountMap'' @ str_bytes (Hash256_String (eh_AccountMap H (cd_AccountMap ctd))) @
       str_bytes ''DeletedAccountMap'' @ concat (map fst (om_each (cd_DeletedAccountMap ctd))) @
       str_bytes ''AccountNameMap'' @ str_bytes (Hash256_String (eh_AccountNameMap H (cd_AccountNameMap ctd))) @
       str_bytes ''AccountDataMap'' @ str_bytes (Hash256_String (eh_BytesMap H (cd_AccountDataMap ctd))) @
       str_bytes ''DeletedAccountDataMap'' @ concat (map fst (om_each (cd_DeletedAccountDataMap ctd))) @
       str_bytes ''UTXOMap'' @ str_bytes (Hash256_String (eh_UTXOMap H (cd_UTXOMap ctd))) @
       str_bytes ''CreatedUTXOMap'' @ str_bytes (Hash256_String (eh_TxOutMap H (cd_CreatedUTXOMap ctd))) @
       str_bytes ''DeletedUTXOMap'' @
         concat (map (\<lambda>(key, _). LE_Uint64ToBytes key) (om_each (cd_DeletedUTXOMap ctd))) @
       str_bytes ''Events'' @ concat (map (eh_Event H) (cd_Events ctd)) @
       str_bytes ''ProcessDataMap'' @ str_bytes (Hash256_String (eh_BytesMap H (cd_ProcessDataMap ctd))) @
       str_bytes ''DeletedProcessDataMap'' @ concat (map fst (om_each (cd_DeletedProcessDataMap ctd))))"

definition ctx_Hash :: "hashers \<Rightarrow> chain_ctx \<Rightarrow> hash256 \<times> chain_ctx" where
  "ctx_Hash H ctx =
     (let ctx = (if \<not> ctx_isLatestHash ctx
                 then ctx\<lparr>ctx_dataHash := the (Hashes [ctx_genLastHash ctx, ctd_Hash H ctx (ctx_Top ctx)]),
                          ctx_isLatestHash := True\<rparr>
                 else ctx)
      in (ctx_dataHash ctx, ctx))"

text \<open>
  A context as the loader of the next one. Its top snapshot is no longer marked as the top, so
  reading through it changes nothing but its cache.
\<close>

definition ctx_as_loader :: "chain_ctx \<Rightarrow> loader" where
  "ctx_as_loader ctx =
     \<lparr>ld_ChainID = ld_ChainID (ctx_loader ctx), ld_Name = ld_Name (ctx_loader ctx),
      ld_Version = ld_Version (ctx_loader ctx), ld_TargetHeight = ctx_genTargetHeight ctx,
      ld_LastHash = ctx_genLastHash ctx, ld_LastTimestamp = ctx_genTimestamp ctx,
      ld_Account = (\<lambda>addr. fst (ctx_Account addr ctx)),
      ld_AddressByName = (\<lambda>nm. fst (ctx_AddressByName nm ctx)),
      ld_HasAccount = (\<lambda>addr. fst (ctx_HasAccount addr ctx)),
      ld_HasAccountName = (\<lambda>nm. fst (ctx_HasAccountName nm ctx)),
      ld_AccountData = (\<lambda>addr pid name. fst (ctx_AccountData addr pid name ctx)),
      ld_HasUTXO = (\<lambda>i. fst (ctx_HasUTXO i ctx)),
      ld_UTXO = (\<lambda>i. fst (ctx_UTXO i ctx)),
      ld_ProcessData = (\<lambda>pid name. fst (ctx_ProcessData pid name ctx)),
      ld_HasTimeSlot = (\<lambda>slot key. fst (ctx_HasTimeSlot slot key ctx))\<rparr>"

definition ctx_NextContext :: "hash256 \<Rightarrow> u64 \<Rightarrow> chain_ctx \<Rightarrow> chain_ctx" where
  "ctx_NextContext NextHash Timestamp ctx =
     (NewContext (ctx_as_loader (ctx_setTop (\<lambda>t. t\<lparr>cd_isTop := False\<rparr>) ctx)))
       \<lparr>ctx_genTargetHeight := ctx_genTargetHeight ctx + 1, ctx_genLastHash := NextHash,
        ctx_genTimestamp := Timestamp\<rparr>"

end
