(* ===== verification/Context_Laws.thy ===== *)
theory Context_Laws
  imports Context
begin

text \<open>
  What the context promises to the processes: data that was set is read back, reading changes
  nothing, a reverted snapshot leaves no trace, and a committed snapshot keeps what was seen,
  with the exception the source has (a deletion in the snapshot below wins).
\<close>

section \<open>Keys are unambiguous\<close>

lemma rune_str_inj: "rune_str p @ n = rune_str p' @ n' \<longleftrightarrow> p = p' \<and> n = n'"
proof
  assume eq: "rune_str p @ n = rune_str p' @ n'"
  have big: "\<not> (0xC0 OR drop_bit 6 q < (128 :: u8))" for q :: u8
  proof -
    have "0xC0 \<le> (0xC0 :: int) OR uint (drop_bit 6 q)" by (rule or_greater_eq) simp
    moreover have "uint (0xC0 OR drop_bit 6 q) = 0xC0 OR uint (drop_bit 6 q)"
      by (simp add: unsigned_or_eq)
    ultimately show ?thesis by (simp add: word_less_def)
  qed
  consider "p < 128" "p' < 128" | "\<not> p < 128" "\<not> p' < 128"
    using eq big[of p] big[of p'] by (auto simp: rune_str_def split: if_splits)
  then show "p = p' \<and> n = n'"
  proof cases
    case 1
    then show ?thesis using eq by (simp add: rune_str_def)
  next
    case 2
    then have e: "0xC0 OR drop_bit 6 p = 0xC0 OR drop_bit 6 p'" "0x80 OR (p AND 0x3F) = 0x80 OR (p' AND 0x3F)"
        and n: "n = n'"
      using eq by (simp_all add: rune_str_def)
    have "bit p i = bit p' i" if "i < 8" for i
    proof -
      have "bit (0x80 OR (p AND 0x3F)) i = bit (0x80 OR (p' AND 0x3F)) i"
          "bit (0xC0 OR drop_bit 6 p) (i - 6) = bit (0xC0 OR drop_bit 6 p') (i - 6)"
        using e by simp_all
      moreover have "i = 0 \<or> i = 1 \<or> i = 2 \<or> i = 3 \<or> i = 4 \<or> i = 5 \<or> i = 6 \<or> i = 7"
        using that by arith
      ultimately show ?thesis
        by (elim disjE) (simp_all add: bit_or_iff bit_and_iff bit_drop_bit_eq bit_0 even_or_iff even_and_iff even_drop_bit_iff_not_bit)
    qed
    then show ?thesis using n by (auto intro: bit_word_eqI)
  qed
qed simp

lemma processData_key_inj: "processData_key p n = processData_key p' n' \<longleftrightarrow> p = p' \<and> n = n'"
  by (simp add: processData_key_def rune_str_inj)

lemma accountData_key_inj:
  "is_address a \<Longrightarrow> is_address a' \<Longrightarrow>
   accountData_key a p n = accountData_key a' p' n' \<longleftrightarrow> a = a' \<and> p = p' \<and> n = n'"
  by (auto simp: accountData_key_def is_address_def rune_str_inj)

section \<open>What a reader sees\<close>

text \<open>The data cells of the state: account data and process data under one key type.\<close>

datatype dkey = AData address u8 bytes | PData u8 bytes

fun key_ok :: "dkey \<Rightarrow> bool" where
  "key_ok (AData a p n) = is_address a"
| "key_ok (PData p n) = True"

fun ctx_get :: "dkey \<Rightarrow> chain_ctx \<Rightarrow> bytes \<times> chain_ctx" where
  "ctx_get (AData a p n) ctx = ctx_AccountData a p n ctx"
| "ctx_get (PData p n) ctx = ctx_ProcessData p n ctx"

fun ctx_set :: "dkey \<Rightarrow> bytes \<Rightarrow> chain_ctx \<Rightarrow> chain_ctx" where
  "ctx_set (AData a p n) v ctx = ctx_SetAccountData a p n v ctx"
| "ctx_set (PData p n) v ctx = ctx_SetProcessData p n v ctx"

type_synonym layer = "(bytes, bool) omap \<times> (bytes, bytes) omap"

fun layers_view :: "layer list \<Rightarrow> bytes \<Rightarrow> bytes \<Rightarrow> bytes" where
  "layers_view [] key b = b"
| "layers_view (l # ls) key b =
     (if om_has (fst l) key then []
      else case om_get (snd l) key of Some v \<Rightarrow> v | None \<Rightarrow> layers_view ls key b)"

definition alayer :: "context_data \<Rightarrow> layer" where
  "alayer c = (cd_DeletedAccountDataMap c, cd_AccountDataMap c)"

definition player :: "context_data \<Rightarrow> layer" where
  "player c = (cd_DeletedProcessDataMap c, cd_ProcessDataMap c)"

fun stack_view :: "loader \<Rightarrow> context_data list \<Rightarrow> dkey \<Rightarrow> bytes" where
  "stack_view ld stack (AData a p n) =
     layers_view (map alayer stack) (accountData_key a p n) (ld_AccountData ld a p n)"
| "stack_view ld stack (PData p n) =
     layers_view (map player stack) (processData_key p n) (ld_ProcessData ld p n)"

definition ctx_view :: "chain_ctx \<Rightarrow> dkey \<Rightarrow> bytes" where
  "ctx_view ctx k = stack_view (ctx_loader ctx) (ctx_stack ctx) k"

text \<open>What a loader has for a cell.\<close>

fun dk_base :: "loader \<Rightarrow> dkey \<Rightarrow> bytes" where
  "dk_base ld (AData a p n) = ld_AccountData ld a p n"
| "dk_base ld (PData p n) = ld_ProcessData ld p n"

section \<open>Well-formed contexts\<close>

definition cache_ok :: "loader \<Rightarrow> context_cache \<Rightarrow> bool" where
  "cache_ok ld cc \<longleftrightarrow>
     (\<forall>a p n v. is_address a \<and> om_get (cc_AccountDataMap cc) (accountData_key a p n) = Some v \<longrightarrow>
        v = ld_AccountData ld a p n) \<and>
     (\<forall>p n v. om_get (cc_ProcessDataMap cc) (processData_key p n) = Some v \<longrightarrow> v = ld_ProcessData ld p n) \<and>
     (\<forall>addr acc. om_get (cc_AccountMap cc) addr = Some acc \<longrightarrow> ld_Account ld addr = Inr acc) \<and>
     (\<forall>nm addr. om_get (cc_AccountNameMap cc) nm = Some addr \<longrightarrow> ld_AddressByName ld nm = Inr addr) \<and>
     (\<forall>i u. om_get (cc_UTXOMap cc) i = Some u \<longrightarrow> ld_UTXO ld i = Inr u) \<and>
     (\<forall>slot key. slot_marked slot key (cc_TimeSlotMap cc) \<longrightarrow> ld_HasTimeSlot ld slot key)"

definition ctd_inv :: "context_data \<Rightarrow> bool" where
  "ctd_inv c \<longleftrightarrow>
     om_inv (cd_AccountMap c) \<and> om_inv (cd_DeletedAccountMap c) \<and> om_inv (cd_AccountNameMap c) \<and>
     om_inv (cd_AccountDataMap c) \<and> om_inv (cd_DeletedAccountDataMap c) \<and>
     om_inv (cd_ProcessDataMap c) \<and> om_inv (cd_DeletedProcessDataMap c) \<and>
     om_inv (cd_UTXOMap c) \<and> om_inv (cd_CreatedUTXOMap c) \<and> om_inv (cd_DeletedUTXOMap c) \<and>
     om_inv (cd_TimeSlotMap c)"

fun stack_ok :: "context_data list \<Rightarrow> bool" where
  "stack_ok [] = False"
| "stack_ok (c # ps) = (cd_isTop c \<and> ctd_inv c \<and> (\<forall>q\<in>set ps. \<not> cd_isTop q \<and> ctd_inv q))"

definition ctx_wf :: "chain_ctx \<Rightarrow> bool" where
  "ctx_wf ctx \<longleftrightarrow> stack_ok (ctx_stack ctx) \<and> cache_ok (ctx_loader ctx) (ctx_cache ctx)"

text \<open>What no operation on the top snapshot changes.\<close>

definition ctx_frame :: "chain_ctx \<Rightarrow> chain_ctx \<Rightarrow> bool" where
  "ctx_frame ctx ctx' \<longleftrightarrow> ctx_loader ctx' = ctx_loader ctx \<and> tl (ctx_stack ctx') = tl (ctx_stack ctx) \<and>
     ctx_genTargetHeight ctx' = ctx_genTargetHeight ctx \<and> ctx_genLastHash ctx' = ctx_genLastHash ctx \<and>
     ctx_genTimestamp ctx' = ctx_genTimestamp ctx"

lemma ctx_frame_refl [simp]: "ctx_frame ctx ctx"
  by (simp add: ctx_frame_def)

lemma ctx_frame_trans [trans]: "ctx_frame a b \<Longrightarrow> ctx_frame b c \<Longrightarrow> ctx_frame a c"
  by (simp add: ctx_frame_def)

lemma stack_okE:
  assumes "stack_ok s"
  obtains t ps where "s = t # ps" and "cd_isTop t" and "ctd_inv t"
    and "\<forall>q\<in>set ps. \<not> cd_isTop q" and "\<forall>q\<in>set ps. ctd_inv q"
  using assms by (cases s) auto

lemma ctd_inv_New [simp]: "ctd_inv (NewContextData ps)" "cd_isTop (NewContextData ps)"
  by (simp_all add: ctd_inv_def NewContextData_def)

lemma ctd_inv_retop [simp]: "ctd_inv (c\<lparr>cd_isTop := b\<rparr>) \<longleftrightarrow> ctd_inv c"
  by (simp add: ctd_inv_def)

lemma cache_ok_new: "cache_ok ld newContextCache"
  by (simp add: cache_ok_def newContextCache_def slot_marked_def)

lemma ctx_wf_NewContext: "ctx_wf (NewContext ld)"
  by (simp add: ctx_wf_def NewContext_def cache_ok_new)

section \<open>Reading data\<close>

lemma cc_AccountData_spec:
  assumes "cache_ok ld cc" and "is_address a"
  shows "\<exists>cc'. cc_AccountData ld a p n cc = (ld_AccountData ld a p n, cc') \<and> cache_ok ld cc'"
proof (cases "om_get (cc_AccountDataMap cc) (accountData_key a p n)")
  case None
  then show ?thesis
    using assms by (auto simp: cc_AccountData_def cache_ok_def accountData_key_inj Let_def)
next
  case (Some v)
  then have "v = ld_AccountData ld a p n" using assms by (simp add: cache_ok_def)
  then show ?thesis using assms Some by (simp add: cc_AccountData_def)
qed

lemma cc_ProcessData_spec:
  assumes "cache_ok ld cc"
  shows "\<exists>cc'. cc_ProcessData ld p n cc = (ld_ProcessData ld p n, cc') \<and> cache_ok ld cc'"
proof (cases "om_get (cc_ProcessDataMap cc) (processData_key p n)")
  case None
  then show ?thesis
    using assms by (auto simp: cc_ProcessData_def cache_ok_def processData_key_inj Let_def)
next
  case (Some v)
  then have "v = ld_ProcessData ld p n" using assms by (simp add: cache_ok_def)
  then show ?thesis using assms Some by (simp add: cc_ProcessData_def)
qed

lemma parents_AccountData:
  assumes "cache_ok ld cc" and "is_address a" and "\<forall>q\<in>set ps. \<not> cd_isTop q"
  shows "\<exists>cc'. ctd_AccountData ld a p n ps cc = (stack_view ld ps (AData a p n), ps, cc') \<and> cache_ok ld cc'"
  using assms(3)
proof (induction ps)
  case Nil
  then show ?case using cc_AccountData_spec[OF assms(1,2), of p n] by auto
next
  case (Cons c ps)
  then obtain cc' where "ctd_AccountData ld a p n ps cc = (stack_view ld ps (AData a p n), ps, cc')" "cache_ok ld cc'"
    by auto
  then show ?case
    using Cons.prems assms(1) by (auto simp: alayer_def Let_def split: option.split)
qed

lemma parents_ProcessData:
  assumes "cache_ok ld cc" and "\<forall>q\<in>set ps. \<not> cd_isTop q"
  shows "\<exists>cc'. ctd_ProcessData ld p n ps cc = (stack_view ld ps (PData p n), ps, cc') \<and> cache_ok ld cc'"
  using assms(2)
proof (induction ps)
  case Nil
  then show ?case using cc_ProcessData_spec[OF assms(1), of p n] by auto
next
  case (Cons c ps)
  then obtain cc' where "ctd_ProcessData ld p n ps cc = (stack_view ld ps (PData p n), ps, cc')" "cache_ok ld cc'"
    by auto
  then show ?case
    using Cons.prems assms(1) by (auto simp: player_def Let_def split: option.split)
qed

lemma top_AccountData:
  assumes "cache_ok ld cc" and "is_address a" and "stack_ok s"
  obtains t cc' where "ctd_AccountData ld a p n s cc = (stack_view ld s (AData a p n), t # tl s, cc')"
    and "cache_ok ld cc'" and "stack_ok (t # tl s)"
    and "\<And>k. key_ok k \<Longrightarrow> stack_view ld (t # tl s) k = stack_view ld s k"
proof -
  obtain t ps where s: "s = t # ps" and t: "cd_isTop t" "ctd_inv t"
    and ps: "\<forall>q\<in>set ps. \<not> cd_isTop q" "\<forall>q\<in>set ps. ctd_inv q"
    using assms(3) by (rule stack_okE)
  obtain cc' where r: "ctd_AccountData ld a p n ps cc = (stack_view ld ps (AData a p n), ps, cc')" "cache_ok ld cc'"
    using parents_AccountData[OF assms(1,2) ps(1)] by blast
  let ?key = "accountData_key a p n" and ?v = "stack_view ld ps (AData a p n)"
  show thesis
  proof (cases "om_has (cd_DeletedAccountDataMap t) ?key \<or> om_get (cd_AccountDataMap t) ?key \<noteq> None \<or> ?v = []")
    case True
    then have "\<exists>cc''. ctd_AccountData ld a p n s cc = (stack_view ld s (AData a p n), t # ps, cc'') \<and> cache_ok ld cc''"
      using s assms(1) r by (auto simp: alayer_def Let_def split: option.split)
    then show thesis using s t ps that by auto
  next
    case False
    let ?t = "t\<lparr>cd_AccountDataMap := om_put ?key ?v (cd_AccountDataMap t)\<rparr>"
    have view: "stack_view ld (?t # ps) k = stack_view ld (t # ps) k" if "key_ok k" for k
      using that False assms(2) by (cases k) (auto simp: alayer_def player_def accountData_key_inj)
    show thesis
      using s t ps r False view by (intro that[of ?t cc']) (auto simp: alayer_def Let_def ctd_inv_def)
  qed
qed

lemma top_ProcessData:
  assumes "cache_ok ld cc" and "stack_ok s"
  obtains t cc' where "ctd_ProcessData ld p n s cc = (stack_view ld s (PData p n), t # tl s, cc')"
    and "cache_ok ld cc'" and "stack_ok (t # tl s)"
    and "\<And>k. key_ok k \<Longrightarrow> stack_view ld (t # tl s) k = stack_view ld s k"
proof -
  obtain t ps where s: "s = t # ps" and t: "cd_isTop t" "ctd_inv t"
    and ps: "\<forall>q\<in>set ps. \<not> cd_isTop q" "\<forall>q\<in>set ps. ctd_inv q"
    using assms(2) by (rule stack_okE)
  obtain cc' where r: "ctd_ProcessData ld p n ps cc = (stack_view ld ps (PData p n), ps, cc')" "cache_ok ld cc'"
    using parents_ProcessData[OF assms(1) ps(1)] by blast
  let ?key = "processData_key p n" and ?v = "stack_view ld ps (PData p n)"
  show thesis
  proof (cases "om_has (cd_DeletedProcessDataMap t) ?key \<or> om_get (cd_ProcessDataMap t) ?key \<noteq> None \<or> ?v = []")
    case True
    then have "\<exists>cc''. ctd_ProcessData ld p n s cc = (stack_view ld s (PData p n), t # ps, cc'') \<and> cache_ok ld cc''"
      using s assms(1) r by (auto simp: player_def Let_def split: option.split)
    then show thesis using s t ps that by auto
  next
    case False
    let ?t = "t\<lparr>cd_ProcessDataMap := om_put ?key ?v (cd_ProcessDataMap t)\<rparr>"
    have view: "stack_view ld (?t # ps) k = stack_view ld (t # ps) k" for k
      using False by (cases k) (auto simp: alayer_def player_def processData_key_inj)
    show thesis
      using s t ps r False view by (intro that[of ?t cc']) (auto simp: player_def Let_def ctd_inv_def)
  qed
qed

text \<open>
  Reading a cell returns what the stack and the loader say. The read may copy the value into the
  top snapshot and into the cache, which no later read can tell.
\<close>

lemma ctx_get_spec:
  assumes "ctx_wf ctx" and "key_ok k"
  obtains ctx' where "ctx_get k ctx = (ctx_view ctx k, ctx')" and "ctx_wf ctx'" and "ctx_frame ctx ctx'"
    and "\<And>k'. key_ok k' \<Longrightarrow> ctx_view ctx' k' = ctx_view ctx k'"
proof (cases k)
  case (AData a p n)
  obtain t cc' where
    "ctd_AccountData (ctx_loader ctx) a p n (ctx_stack ctx) (ctx_cache ctx)
       = (stack_view (ctx_loader ctx) (ctx_stack ctx) k, t # tl (ctx_stack ctx), cc')"
    "cache_ok (ctx_loader ctx) cc'" "stack_ok (t # tl (ctx_stack ctx))"
    "\<And>k. key_ok k \<Longrightarrow> stack_view (ctx_loader ctx) (t # tl (ctx_stack ctx)) k
       = stack_view (ctx_loader ctx) (ctx_stack ctx) k"
    unfolding AData
    by (rule top_AccountData[of "ctx_loader ctx" "ctx_cache ctx" a "ctx_stack ctx" p n])
      (use assms AData in \<open>auto simp: ctx_wf_def\<close>)
  with AData show thesis
    by (intro that[of "ctx\<lparr>ctx_stack := t # tl (ctx_stack ctx), ctx_cache := cc'\<rparr>"])
      (simp_all add: ctx_wf_def ctx_view_def ctx_AccountData_def ctx_read_def ctx_frame_def)
next
  case (PData p n)
  obtain t cc' where
    "ctd_ProcessData (ctx_loader ctx) p n (ctx_stack ctx) (ctx_cache ctx)
       = (stack_view (ctx_loader ctx) (ctx_stack ctx) k, t # tl (ctx_stack ctx), cc')"
    "cache_ok (ctx_loader ctx) cc'" "stack_ok (t # tl (ctx_stack ctx))"
    "\<And>k. key_ok k \<Longrightarrow> stack_view (ctx_loader ctx) (t # tl (ctx_stack ctx)) k
       = stack_view (ctx_loader ctx) (ctx_stack ctx) k"
    unfolding PData
    by (rule top_ProcessData[of "ctx_loader ctx" "ctx_cache ctx" "ctx_stack ctx" p n])
      (use assms PData in \<open>auto simp: ctx_wf_def\<close>)
  with PData show thesis
    by (intro that[of "ctx\<lparr>ctx_stack := t # tl (ctx_stack ctx), ctx_cache := cc'\<rparr>"])
      (simp_all add: ctx_wf_def ctx_view_def ctx_ProcessData_def ctx_read_def ctx_frame_def)
qed

section \<open>Writing data\<close>

lemma stack_ok_Cons_cong:
  "stack_ok (t # ps) \<Longrightarrow> cd_isTop t' \<Longrightarrow> ctd_inv t' \<Longrightarrow> stack_ok (t' # ps)"
  by simp

lemma ctx_set_view:
  assumes "ctx_wf ctx" and "key_ok k" and "key_ok k'"
  shows "ctx_view (ctx_set k v ctx) k' = (if k' = k then v else ctx_view ctx k')"
proof -
  obtain t ps where s: "ctx_stack ctx = t # ps"
    using assms(1) by (auto simp: ctx_wf_def elim: stack_okE)
  show ?thesis
    using s assms(2,3)
    by (cases k; cases k')
      (auto simp: ctx_view_def ctx_SetAccountData_def ctx_SetProcessData_def ctx_setTop_def ctx_dirty_def
        ctd_SetAccountData_def ctd_SetProcessData_def alayer_def player_def accountData_key_inj
        processData_key_inj Let_def)
qed

lemma ctx_set_wf:
  assumes "ctx_wf ctx"
  shows "ctx_wf (ctx_set k v ctx)" and "ctx_frame ctx (ctx_set k v ctx)"
proof -
  obtain t ps where s: "ctx_stack ctx = t # ps"
    using assms by (auto simp: ctx_wf_def elim: stack_okE)
  show "ctx_wf (ctx_set k v ctx)"
    using s assms
    by (cases k)
      (auto simp: ctx_wf_def ctx_SetAccountData_def ctx_SetProcessData_def ctx_setTop_def ctx_dirty_def
        ctd_SetAccountData_def ctd_SetProcessData_def ctd_inv_def Let_def)
  show "ctx_frame ctx (ctx_set k v ctx)"
    by (cases k)
      (auto simp: ctx_frame_def ctx_SetAccountData_def ctx_SetProcessData_def ctx_setTop_def ctx_dirty_def)
qed

section \<open>The store interface\<close>

text \<open>
  What a process relies on when it keeps its data in the state: reads see the last write to the
  same cell, other cells are untouched, and neither a read nor a write leaves the well-formed
  contexts or touches what \<open>frame\<close> protects. The laws are stated once; every cell-based
  structure of a process is proved against them.
\<close>

locale kv_store =
  fixes getd :: "'k \<Rightarrow> 's \<Rightarrow> bytes \<times> 's"
    and putd :: "'k \<Rightarrow> bytes \<Rightarrow> 's \<Rightarrow> 's"
    and view :: "'s \<Rightarrow> 'k \<Rightarrow> bytes"
    and wf :: "'s \<Rightarrow> bool"
    and okk :: "'k \<Rightarrow> bool"
    and frame :: "'s \<Rightarrow> 's \<Rightarrow> bool"
  assumes frame_refl: "frame s s"
    and frame_trans: "frame s t \<Longrightarrow> frame t u \<Longrightarrow> frame s u"
    and get_view: "wf s \<Longrightarrow> okk k \<Longrightarrow> fst (getd k s) = view s k"
    and get_wf: "wf s \<Longrightarrow> okk k \<Longrightarrow> wf (snd (getd k s)) \<and> frame s (snd (getd k s))"
    and get_keeps: "wf s \<Longrightarrow> okk k \<Longrightarrow> okk k' \<Longrightarrow> view (snd (getd k s)) k' = view s k'"
    and put_wf: "wf s \<Longrightarrow> okk k \<Longrightarrow> wf (putd k v s) \<and> frame s (putd k v s)"
    and put_view: "wf s \<Longrightarrow> okk k \<Longrightarrow> okk k' \<Longrightarrow> view (putd k v s) k' = (if k' = k then v else view s k')"
begin

text \<open>\<open>steps s t F\<close>: the state \<open>t\<close> comes from \<open>s\<close> by reads and writes, and reads as \<open>F\<close>.\<close>

definition steps :: "'s \<Rightarrow> 's \<Rightarrow> ('k \<Rightarrow> bytes) \<Rightarrow> bool" where
  "steps s t F \<longleftrightarrow> wf t \<and> frame s t \<and> (\<forall>k. okk k \<longrightarrow> view t k = F k)"

lemma steps_refl: "wf s \<Longrightarrow> steps s s (view s)"
  by (simp add: steps_def frame_refl)

lemma steps_get:
  assumes "steps s t F" and "okk k"
  shows "fst (getd k t) = F k" and "steps s (snd (getd k t)) F"
  using assms get_view get_wf get_keeps frame_trans by (auto simp: steps_def)

lemma steps_put:
  assumes "steps s t F" and "okk k"
  shows "steps s (putd k v t) (F(k := v))"
  using assms put_wf put_view frame_trans by (auto simp: steps_def)

lemma steps_getE:
  assumes "steps s t F" and "okk k"
  obtains t' where "getd k t = (F k, t')" and "steps s t' F"
  using steps_get[OF assms] by (metis prod.collapse)

lemma steps_trans: "steps s t F \<Longrightarrow> steps t u G \<Longrightarrow> steps s u G"
  using frame_trans by (auto simp: steps_def)

lemma get_after_put:
  assumes "wf s" and "okk k" and "okk k'"
  shows "fst (getd k' (putd k v s)) = (if k' = k then v else fst (getd k' s))"
  using assms get_view put_wf put_view by auto

lemma get_after_get:
  assumes "wf s" and "okk k" and "okk k'"
  shows "fst (getd k' (snd (getd k s))) = fst (getd k' s)"
  using assms get_view get_wf get_keeps by simp

end

interpretation kv: kv_store ctx_get ctx_set ctx_view ctx_wf key_ok ctx_frame
proof
  show "ctx_frame s t \<Longrightarrow> ctx_frame t u \<Longrightarrow> ctx_frame s u" for s t u
    by (rule ctx_frame_trans)
  show "fst (ctx_get k s) = ctx_view s k" if "ctx_wf s" "key_ok k" for s k
    by (rule ctx_get_spec[OF that]) simp
  show "ctx_wf (snd (ctx_get k s)) \<and> ctx_frame s (snd (ctx_get k s))" if "ctx_wf s" "key_ok k" for s k
    by (rule ctx_get_spec[OF that]) simp
  show "ctx_view (snd (ctx_get k s)) k' = ctx_view s k'" if "ctx_wf s" "key_ok k" "key_ok k'" for s k k'
    by (rule ctx_get_spec[OF that(1,2)]) (simp add: that(3))
qed (auto simp: ctx_set_wf ctx_set_view)

text \<open>
  C3: the data of a context behaves as a store. On every well-formed context a read of an account or process cell
  returns what the topmost snapshot that holds the cell has, nothing if that snapshot deleted it, and what
  the loader has if no snapshot holds it; on a new context every read is answered by the loader. So a read
  returns the last value written to the cell, other cells are unaffected by a write, and reading, although it
  copies values between snapshots and caches, changes the answer of no later read.
\<close>

theorem context_data_store:
  assumes "ctx_wf ctx" and "key_ok k" and "key_ok k'"
  shows "fst (ctx_get k ctx) = stack_view (ctx_loader ctx) (ctx_stack ctx) k \<and>
    fst (ctx_get k (NewContext ld)) = dk_base ld k \<and>
    fst (ctx_get k' (ctx_set k v ctx)) = (if k' = k then v else fst (ctx_get k' ctx)) \<and>
    fst (ctx_get k' (snd (ctx_get k ctx))) = fst (ctx_get k' ctx) \<and>
    ctx_wf (ctx_set k v ctx) \<and> ctx_wf (snd (ctx_get k ctx))"
proof -
  have "stack_view ld [NewContextData []] k = dk_base ld k"
    by (cases k) (simp_all add: NewContextData_def alayer_def player_def)
  then have "fst (ctx_get k (NewContext ld)) = dk_base ld k"
    using kv.get_view[OF ctx_wf_NewContext assms(2)] by (simp add: ctx_view_def NewContext_def)
  then show ?thesis
    using kv.get_view[OF assms(1,2)] kv.get_after_put[OF assms] kv.get_after_get[OF assms] kv.put_wf[OF assms(1,2)]
      kv.get_wf[OF assms(1,2)] by (simp add: ctx_view_def)
qed

theorem context_data_store_witness:
  "fst (ctx_get (PData 2 [1]) (ctx_set (AData (zeros 14) 2 [1]) [5, 6] NewEmptyContext))
      = ld_ProcessData emptyLoader 2 [1] \<and>
   fst (ctx_get (AData (zeros 14) 2 [1]) (ctx_set (AData (zeros 14) 2 [1]) [5, 6] NewEmptyContext)) = [5, 6]"
proof -
  have wf: "ctx_wf NewEmptyContext" and k: "key_ok (AData (zeros 14) 2 [1])" "key_ok (PData 2 [1])"
    by (simp_all add: NewEmptyContext_def ctx_wf_NewContext is_address_def AddressSize_def)
  have "fst (ctx_get (PData 2 [1]) NewEmptyContext) = ld_ProcessData emptyLoader 2 [1]"
    using context_data_store[OF wf k(2) k(2), of emptyLoader] unfolding NewEmptyContext_def dk_base.simps by blast
  then show ?thesis
    using context_data_store[OF wf k(1) k(2), where v = "[5, 6]"] context_data_store[OF wf k(1) k(1), where v = "[5, 6]"]
    by (metis dkey.distinct(1))
qed

section \<open>The other readers\<close>

lemma cache_ok_Account:
  assumes "cache_ok ld cc"
  obtains cc' where "cc_Account ld a cc = (ld_Account ld a, cc')" and "cache_ok ld cc'"
proof (cases "om_get (cc_AccountMap cc) a")
  case None
  show thesis
  proof (cases "ld_Account ld a")
    case (Inr acc)
    with None assms show thesis
      by (intro that[of "cc\<lparr>cc_AccountMap := om_put a acc (cc_AccountMap cc)\<rparr>"])
        (simp_all add: cc_Account_def cache_ok_def)
  qed (use None assms that in \<open>simp add: cc_Account_def\<close>)
next
  case (Some acc)
  then show thesis using assms by (intro that[of cc]) (simp_all add: cc_Account_def cache_ok_def)
qed

lemma cache_ok_AddressByName:
  assumes "cache_ok ld cc"
  obtains cc' where "cc_AddressByName ld n cc = (ld_AddressByName ld n, cc')" and "cache_ok ld cc'"
proof (cases "om_get (cc_AccountNameMap cc) n")
  case None
  show thesis
  proof (cases "ld_AddressByName ld n")
    case (Inr a)
    with None assms show thesis
      by (intro that[of "cc\<lparr>cc_AccountNameMap := om_put n a (cc_AccountNameMap cc)\<rparr>"])
        (simp_all add: cc_AddressByName_def cache_ok_def)
  qed (use None assms that in \<open>simp add: cc_AddressByName_def\<close>)
next
  case (Some a)
  then show thesis using assms by (intro that[of cc]) (simp_all add: cc_AddressByName_def cache_ok_def)
qed

lemma cache_ok_UTXO:
  assumes "cache_ok ld cc"
  obtains cc' where "cc_UTXO ld i cc = (ld_UTXO ld i, cc')" and "cache_ok ld cc'"
proof (cases "om_get (cc_UTXOMap cc) i")
  case None
  show thesis
  proof (cases "ld_UTXO ld i")
    case (Inr u)
    with None assms show thesis
      by (intro that[of "cc\<lparr>cc_UTXOMap := om_put i u (cc_UTXOMap cc)\<rparr>"])
        (simp_all add: cc_UTXO_def cache_ok_def)
  qed (use None assms that in \<open>simp add: cc_UTXO_def\<close>)
next
  case (Some u)
  then show thesis using assms by (intro that[of cc]) (simp_all add: cc_UTXO_def cache_ok_def)
qed

lemma slot_marked_mark [simp]:
  "slot_marked s k (mark_slot s' k' m) \<longleftrightarrow> (s = s' \<and> k = k') \<or> slot_marked s k m"
  by (auto simp: slot_marked_def mark_slot_def split: option.split)

lemma cache_ok_HasTimeSlot:
  assumes "cache_ok ld cc"
  obtains cc' where "cc_HasTimeSlot ld slot key cc = (ld_HasTimeSlot ld slot key, cc')" and "cache_ok ld cc'"
proof (cases "slot_marked slot key (cc_TimeSlotMap cc)")
  case True
  then show thesis using assms by (intro that[of cc]) (simp_all add: cc_HasTimeSlot_def cache_ok_def)
next
  case False
  then show thesis
    using assms that[of cc] that[of "cc\<lparr>cc_TimeSlotMap := mark_slot slot key (cc_TimeSlotMap cc)\<rparr>"]
    by (cases "ld_HasTimeSlot ld slot key") (auto simp: cc_HasTimeSlot_def cache_ok_def)
qed

text \<open>What the snapshots of a stack say of an account, a name and an output.\<close>

fun account_view :: "loader \<Rightarrow> context_data list \<Rightarrow> address \<Rightarrow> err + account" where
  "account_view ld [] a = ld_Account ld a"
| "account_view ld (c # ps) a =
     (if om_has (cd_DeletedAccountMap c) a then Inl (TypesErr ErrDeletedAccount)
      else case om_get (cd_AccountMap c) a of Some acc \<Rightarrow> Inr acc | None \<Rightarrow> account_view ld ps a)"

fun name_view :: "loader \<Rightarrow> context_data list \<Rightarrow> string \<Rightarrow> err + address" where
  "name_view ld [] n = ld_AddressByName ld n"
| "name_view ld (c # ps) n =
     (case om_get (cd_AccountNameMap c) n of Some a \<Rightarrow> Inr a | None \<Rightarrow> name_view ld ps n)"

fun utxo_view :: "loader \<Rightarrow> context_data list \<Rightarrow> u64 \<Rightarrow> err + utxo" where
  "utxo_view ld [] i = ld_UTXO ld i"
| "utxo_view ld (c # ps) i =
     (if om_has (cd_DeletedUTXOMap c) i then Inl (TypesErr ErrUsedUTXO)
      else case om_get (cd_UTXOMap c) i of Some u \<Rightarrow> Inr u | None \<Rightarrow> utxo_view ld ps i)"

lemma parents_Account:
  assumes "cache_ok ld cc" and "\<forall>q\<in>set ps. \<not> cd_isTop q"
  shows "\<exists>cc'. ctd_Account ld a ps cc = (account_view ld ps a, ps, cc') \<and> cache_ok ld cc'"
  using assms(2)
proof (induction ps)
  case Nil
  then show ?case by (auto intro: cache_ok_Account[OF assms(1), of a])
next
  case (Cons c ps)
  then obtain cc' where "ctd_Account ld a ps cc = (account_view ld ps a, ps, cc')" "cache_ok ld cc'"
    by auto
  then show ?case using Cons.prems assms(1) by (auto split: option.split sum.split)
qed

lemma parents_AddressByName:
  assumes "cache_ok ld cc" and "\<forall>q\<in>set ps. \<not> cd_isTop q"
  shows "\<exists>cc'. ctd_AddressByName ld n ps cc = (name_view ld ps n, ps, cc') \<and> cache_ok ld cc'"
  using assms(2)
proof (induction ps)
  case Nil
  then show ?case by (auto intro: cache_ok_AddressByName[OF assms(1), of n])
next
  case (Cons c ps)
  then obtain cc' where "ctd_AddressByName ld n ps cc = (name_view ld ps n, ps, cc')" "cache_ok ld cc'"
    by auto
  then show ?case using Cons.prems assms(1) by (auto split: option.split sum.split)
qed

lemma parents_UTXO:
  assumes "cache_ok ld cc" and "\<forall>q\<in>set ps. \<not> cd_isTop q"
  shows "\<exists>cc'. ctd_UTXO ld i ps cc = (utxo_view ld ps i, ps, cc') \<and> cache_ok ld cc'"
  using assms(2)
proof (induction ps)
  case Nil
  then show ?case by (auto intro: cache_ok_UTXO[OF assms(1), of i])
next
  case (Cons c ps)
  then obtain cc' where "ctd_UTXO ld i ps cc = (utxo_view ld ps i, ps, cc')" "cache_ok ld cc'"
    by auto
  then show ?case using Cons.prems assms(1) by (auto split: option.split sum.split)
qed

text \<open>
  A reader on the whole stack returns the view (an account as its clone when it has to be copied to
  the top), and changes nothing but the top snapshot and the cache.
\<close>

definition top_reads :: "loader \<Rightarrow> context_data list \<Rightarrow> 'a \<Rightarrow> 'a \<times> ctd_stack \<Rightarrow> bool" where
  "top_reads ld s r res \<longleftrightarrow>
     (\<exists>t cc'. res = (r, t # tl s, cc') \<and> cache_ok ld cc' \<and> stack_ok (t # tl s))"

lemma top_Account:
  assumes "cache_ok ld cc" and "stack_ok s"
  shows "\<exists>r. top_reads ld s r (ctd_Account ld a s cc) \<and>
    (r = account_view ld s a \<or> (\<exists>acc. account_view ld s a = Inr acc \<and> r = Inr (acc_Clone acc)))"
proof -
  obtain t ps where s: "s = t # ps" and t: "cd_isTop t" "ctd_inv t"
    and ps: "\<forall>q\<in>set ps. \<not> cd_isTop q" "\<forall>q\<in>set ps. ctd_inv q"
    using assms(2) by (rule stack_okE)
  obtain cc' where "ctd_Account ld a ps cc = (account_view ld ps a, ps, cc')" "cache_ok ld cc'"
    using parents_Account[OF assms(1) ps(1)] by blast
  then show ?thesis
    using s t ps assms(1)
    by (auto simp: top_reads_def Let_def ctd_inv_def split: option.split sum.split)
qed

lemma top_AddressByName:
  assumes "cache_ok ld cc" and "stack_ok s"
  shows "top_reads ld s (name_view ld s n) (ctd_AddressByName ld n s cc)"
proof -
  obtain t ps where s: "s = t # ps" and t: "cd_isTop t" "ctd_inv t"
    and ps: "\<forall>q\<in>set ps. \<not> cd_isTop q" "\<forall>q\<in>set ps. ctd_inv q"
    using assms(2) by (rule stack_okE)
  obtain cc' where "ctd_AddressByName ld n ps cc = (name_view ld ps n, ps, cc')" "cache_ok ld cc'"
    using parents_AddressByName[OF assms(1) ps(1)] by blast
  then show ?thesis
    using s t ps assms(1)
    by (auto simp: top_reads_def Let_def ctd_inv_def split: option.split sum.split)
qed

lemma top_UTXO:
  assumes "cache_ok ld cc" and "stack_ok s"
  shows "top_reads ld s (utxo_view ld s i) (ctd_UTXO ld i s cc)"
proof -
  obtain t ps where s: "s = t # ps" and t: "cd_isTop t" "ctd_inv t"
    and ps: "\<forall>q\<in>set ps. \<not> cd_isTop q" "\<forall>q\<in>set ps. ctd_inv q"
    using assms(2) by (rule stack_okE)
  obtain cc' where "ctd_UTXO ld i ps cc = (utxo_view ld ps i, ps, cc')" "cache_ok ld cc'"
    using parents_UTXO[OF assms(1) ps(1)] by blast
  then show ?thesis
    using s t ps assms(1)
    by (auto simp: top_reads_def Let_def ctd_inv_def split: option.split sum.split)
qed

text \<open>The context after an operation is well formed and differs in the top snapshot and the cache only.\<close>

definition ctx_local :: "chain_ctx \<Rightarrow> chain_ctx \<Rightarrow> bool" where
  "ctx_local ctx ctx' \<longleftrightarrow> ctx_wf ctx' \<and> ctx_frame ctx ctx'"

lemma ctx_local_refl: "ctx_wf ctx \<Longrightarrow> ctx_local ctx ctx"
  by (simp add: ctx_local_def)

lemma ctx_local_trans: "ctx_local a b \<Longrightarrow> ctx_local b c \<Longrightarrow> ctx_local a c"
  by (auto simp: ctx_local_def intro: ctx_frame_trans)

lemma ctx_local_wf: "ctx_local a b \<Longrightarrow> ctx_wf b"
  by (simp add: ctx_local_def)

lemma ctx_wf_dirty [simp]: "ctx_wf (ctx_dirty ctx) \<longleftrightarrow> ctx_wf ctx"
  by (simp add: ctx_wf_def ctx_dirty_def)

lemma ctx_frame_dirty [simp]: "ctx_frame (ctx_dirty ctx) ctx' \<longleftrightarrow> ctx_frame ctx ctx'"
  by (simp add: ctx_frame_def ctx_dirty_def)

lemma ctx_local_dirty [simp]: "ctx_local (ctx_dirty ctx) ctx' \<longleftrightarrow> ctx_local ctx ctx'"
  by (simp add: ctx_local_def)

lemma ctx_local_read:
  assumes "ctx_wf ctx" and "top_reads (ctx_loader ctx) (ctx_stack ctx) r (f (ctx_loader ctx) (ctx_stack ctx) (ctx_cache ctx))"
  shows "ctx_local ctx (snd (ctx_read f ctx))" and "fst (ctx_read f ctx) = r"
  using assms by (auto simp: ctx_local_def ctx_wf_def ctx_frame_def ctx_read_def top_reads_def)

lemma ctx_local_setTop:
  assumes "ctx_wf ctx" and "\<And>t. ctd_inv t \<Longrightarrow> ctd_inv (f t)" and "\<And>t. cd_isTop (f t) = cd_isTop t"
  shows "ctx_local ctx (ctx_setTop f ctx)"
  using assms by (cases "ctx_stack ctx") (auto simp: ctx_local_def ctx_wf_def ctx_frame_def ctx_setTop_def)

lemma ctx_local_Account:
  assumes "ctx_wf ctx"
  shows "ctx_local ctx (snd (ctx_Account a ctx))"
proof -
  obtain r where "top_reads (ctx_loader ctx) (ctx_stack ctx) r (ctd_Account (ctx_loader ctx) a (ctx_stack ctx) (ctx_cache ctx))"
    using assms top_Account unfolding ctx_wf_def by blast
  then show ?thesis
    using ctx_local_read(1)[of "ctx_dirty ctx" r "\<lambda>ld. ctd_Account ld a"] assms
    by (simp add: ctx_Account_def) (simp add: ctx_dirty_def)
qed

text \<open>The account a context returns: an account that lies below the top is copied.\<close>

fun account_read :: "loader \<Rightarrow> context_data list \<Rightarrow> address \<Rightarrow> err + account" where
  "account_read ld [] a = ld_Account ld a"
| "account_read ld (c # ps) a =
     (if om_has (cd_DeletedAccountMap c) a then Inl (TypesErr ErrDeletedAccount)
      else case om_get (cd_AccountMap c) a of Some acc \<Rightarrow> Inr acc
        | None \<Rightarrow> map_sum id acc_Clone (account_view ld ps a))"

lemma ctx_Account_read:
  assumes "ctx_wf ctx"
  shows "fst (ctx_Account a ctx) = account_read (ctx_loader ctx) (ctx_stack ctx) a"
proof -
  obtain t ps where s: "ctx_stack ctx = t # ps" "cd_isTop t" and ps: "\<forall>q\<in>set ps. \<not> cd_isTop q"
    using assms unfolding ctx_wf_def by (auto elim: stack_okE)
  obtain cc' where "ctd_Account (ctx_loader ctx) a ps (ctx_cache ctx) = (account_view (ctx_loader ctx) ps a, ps, cc')"
    using parents_Account[OF _ ps] assms unfolding ctx_wf_def by blast
  then show ?thesis
    using s by (auto simp: ctx_Account_def ctx_read_def ctx_dirty_def Let_def split: option.split sum.split)
qed

lemma account_read_Clone: "map_sum id acc_Clone (account_read ld s a) = map_sum id acc_Clone (account_view ld s a)"
  by (cases s) (auto split: option.split sum.split simp: map_sum_def)

lemma ctx_AddressByName_view:
  assumes "ctx_wf ctx"
  shows "ctx_local ctx (snd (ctx_AddressByName n ctx))"
    and "fst (ctx_AddressByName n ctx) = name_view (ctx_loader ctx) (ctx_stack ctx) n"
proof -
  have "top_reads (ctx_loader ctx) (ctx_stack ctx) (name_view (ctx_loader ctx) (ctx_stack ctx) n)
      (ctd_AddressByName (ctx_loader ctx) n (ctx_stack ctx) (ctx_cache ctx))"
    using assms by (intro top_AddressByName) (simp_all add: ctx_wf_def)
  from ctx_local_read[OF assms, where f = "\<lambda>ld. ctd_AddressByName ld n", OF this]
  show "ctx_local ctx (snd (ctx_AddressByName n ctx))"
    and "fst (ctx_AddressByName n ctx) = name_view (ctx_loader ctx) (ctx_stack ctx) n"
    by (simp_all add: ctx_AddressByName_def)
qed

lemma ctx_UTXO_view:
  assumes "ctx_wf ctx"
  shows "ctx_local ctx (snd (ctx_UTXO i ctx))"
    and "fst (ctx_UTXO i ctx) = utxo_view (ctx_loader ctx) (ctx_stack ctx) i"
proof -
  have "top_reads (ctx_loader ctx) (ctx_stack ctx) (utxo_view (ctx_loader ctx) (ctx_stack ctx) i)
      (ctd_UTXO (ctx_loader ctx) i (ctx_stack ctx) (ctx_cache ctx))"
    using assms by (intro top_UTXO) (simp_all add: ctx_wf_def)
  from ctx_local_read[OF assms, where f = "\<lambda>ld. ctd_UTXO ld i", OF this]
  show "ctx_local ctx (snd (ctx_UTXO i ctx))"
    and "fst (ctx_UTXO i ctx) = utxo_view (ctx_loader ctx) (ctx_stack ctx) i"
    by (simp_all add: ctx_UTXO_def)
qed

lemmas ctd_inv_simps =
  ctd_inv_def insert_account_def

lemma ctx_local_ops:
  assumes "ctx_wf ctx"
  shows "ctx_local ctx (snd (ctx_CreateAccount d acc ctx))"
    and "ctx_local ctx (snd (ctx_CreateAccountIgnoreDelete d acc ctx))"
    and "ctx_local ctx (snd (ctx_EmitEvent e ctx))"
    and "ctx_local ctx (ctx_putAccount a acc ctx)"
proof -
  have "ctx_local (ctx_dirty ctx) (ctx_setTop (insert_account acc) (ctx_dirty ctx))"
    by (rule ctx_local_setTop) (use assms in \<open>simp_all add: ctd_inv_simps\<close>)
  moreover have "ctx_local ctx (ctx_dirty ctx)"
    using ctx_local_refl[of "ctx_dirty ctx"] assms by simp
  ultimately show "ctx_local ctx (snd (ctx_CreateAccount d acc ctx))"
    and "ctx_local ctx (snd (ctx_CreateAccountIgnoreDelete d acc ctx))"
    by (simp_all add: ctx_CreateAccount_def ctx_CreateAccountIgnoreDelete_def Let_def split: sum.split)
  have "ctx_local (ctx_dirty ctx) (snd (ctx_EmitEvent e ctx))"
    unfolding ctx_EmitEvent_def snd_conv
    by (rule ctx_local_setTop) (use assms in \<open>simp_all add: ctd_inv_simps\<close>)
  then show "ctx_local ctx (snd (ctx_EmitEvent e ctx))" by simp
  show "ctx_local ctx (ctx_putAccount a acc ctx)"
    unfolding ctx_putAccount_def
    by (rule ctx_local_setTop) (use assms in \<open>simp_all add: ctd_inv_simps\<close>)
qed

lemma ctx_local_DeleteAccount:
  assumes "ctx_wf ctx"
  shows "ctx_local ctx (snd (ctx_DeleteAccount acc ctx))"
proof -
  obtain r ctx' where a: "ctx_Account (acc_Address acc) ctx = (r, ctx')" by (metis surj_pair)
  then have l: "ctx_local ctx ctx'" using ctx_local_Account[OF assms, of "acc_Address acc"] by simp
  show ?thesis
    unfolding ctx_DeleteAccount_def a
    by (cases r; simp add: l; rule ctx_local_trans[OF l]; rule ctx_local_setTop)
      (use l in \<open>simp_all add: ctx_local_def ctd_inv_simps\<close>)
qed

lemma ctx_local_UTXO_ops:
  assumes "ctx_wf ctx"
  shows "ctx_local ctx (snd (ctx_CreateUTXO i out ctx))" and "ctx_local ctx (snd (ctx_DeleteUTXO u ctx))"
proof -
  have dirty: "ctx_wf (ctx_dirty ctx)" using assms by simp
  obtain r ctx' where a: "ctx_UTXO i (ctx_dirty ctx) = (r, ctx')" by (metis surj_pair)
  then have l: "ctx_local ctx ctx'" using ctx_UTXO_view(1)[OF dirty, of i] by simp
  have "ctx_local ctx (ctx_setTop (\<lambda>ctd. ctd\<lparr>cd_CreatedUTXOMap := om_put i out (cd_CreatedUTXOMap ctd)\<rparr>) ctx')"
    by (rule ctx_local_trans[OF l]; rule ctx_local_setTop) (use l in \<open>simp_all add: ctx_local_def ctd_inv_simps\<close>)
  then show "ctx_local ctx (snd (ctx_CreateUTXO i out ctx))"
    using l by (cases r) (simp_all add: ctx_CreateUTXO_def a)
  obtain r ctx' where a: "ctx_UTXO (txin_ID (ux_TxIn u)) (ctx_dirty ctx) = (r, ctx')" by (metis surj_pair)
  then have l: "ctx_local ctx ctx'" using ctx_UTXO_view(1)[OF dirty, of "txin_ID (ux_TxIn u)"] by simp
  show "ctx_local ctx (snd (ctx_DeleteUTXO u ctx))"
    unfolding ctx_DeleteUTXO_def a
    by (cases r; simp add: l; rule ctx_local_trans[OF l]; rule ctx_local_setTop)
      (use l in \<open>simp_all add: ctx_local_def ctd_inv_simps\<close>)
qed

lemma om_inv_mark_slot [simp]: "om_inv m \<Longrightarrow> om_inv (mark_slot s k m)"
  by (simp add: mark_slot_def)

lemma ctx_local_cache:
  assumes "ctx_wf ctx" and "cache_ok (ctx_loader ctx) cc"
  shows "ctx_local ctx (ctx\<lparr>ctx_cache := cc\<rparr>)"
  using assms by (simp add: ctx_local_def ctx_wf_def ctx_frame_def)

lemma ctx_local_TimeSlot:
  assumes "ctx_wf ctx"
  shows "ctx_local ctx (snd (ctx_HasTimeSlot slot key ctx))" and "ctx_local ctx (snd (ctx_UseTimeSlot slot key ctx))"
proof -
  obtain cc' where c: "cc_HasTimeSlot (ctx_loader ctx) slot key (ctx_cache ctx) = (ld_HasTimeSlot (ctx_loader ctx) slot key, cc')"
      "cache_ok (ctx_loader ctx) cc'"
    using assms cache_ok_HasTimeSlot unfolding ctx_wf_def by metis
  then have l: "ctx_local ctx (ctx\<lparr>ctx_cache := cc'\<rparr>)" using assms by (intro ctx_local_cache)
  have "ctx_local ctx (ctx_setTop (\<lambda>ctd. ctd\<lparr>cd_TimeSlotMap := mark_slot slot key (cd_TimeSlotMap ctd)\<rparr>) (ctx\<lparr>ctx_cache := cc'\<rparr>))"
    by (rule ctx_local_trans[OF l]; rule ctx_local_setTop) (use l in \<open>simp_all add: ctx_local_def ctd_inv_simps\<close>)
  then show "ctx_local ctx (snd (ctx_HasTimeSlot slot key ctx))" and "ctx_local ctx (snd (ctx_UseTimeSlot slot key ctx))"
    using l ctx_local_refl[OF assms] by (simp_all add: ctx_HasTimeSlot_def ctx_UseTimeSlot_def c(1) Let_def)
qed

section \<open>Snapshots\<close>

text \<open>The operations of a context, for statements about arbitrary runs.\<close>

datatype ctx_op =
    OpAccount address | OpAddressByName string
  | OpCreateAccount account | OpCreateAccountIgnoreDelete account | OpDeleteAccount account
  | OpPutAccount address account
  | OpGet dkey | OpSet dkey bytes
  | OpUTXO u64 | OpCreateUTXO u64 txout | OpDeleteUTXO utxo
  | OpEmitEvent event | OpHasTimeSlot u32 string | OpUseTimeSlot u32 string
  | OpSnapshot | OpRevert nat | OpCommit nat

fun ctx_apply :: "(string \<Rightarrow> bytes option) \<Rightarrow> ctx_op \<Rightarrow> chain_ctx \<Rightarrow> chain_ctx" where
  "ctx_apply d (OpAccount a) ctx = snd (ctx_Account a ctx)"
| "ctx_apply d (OpAddressByName n) ctx = snd (ctx_AddressByName n ctx)"
| "ctx_apply d (OpCreateAccount acc) ctx = snd (ctx_CreateAccount d acc ctx)"
| "ctx_apply d (OpCreateAccountIgnoreDelete acc) ctx = snd (ctx_CreateAccountIgnoreDelete d acc ctx)"
| "ctx_apply d (OpDeleteAccount acc) ctx = snd (ctx_DeleteAccount acc ctx)"
| "ctx_apply d (OpPutAccount a acc) ctx = ctx_putAccount a acc ctx"
| "ctx_apply d (OpGet k) ctx = snd (ctx_get k ctx)"
| "ctx_apply d (OpSet k v) ctx = ctx_set k v ctx"
| "ctx_apply d (OpUTXO i) ctx = snd (ctx_UTXO i ctx)"
| "ctx_apply d (OpCreateUTXO i out) ctx = snd (ctx_CreateUTXO i out ctx)"
| "ctx_apply d (OpDeleteUTXO u) ctx = snd (ctx_DeleteUTXO u ctx)"
| "ctx_apply d (OpEmitEvent e) ctx = snd (ctx_EmitEvent e ctx)"
| "ctx_apply d (OpHasTimeSlot slot key) ctx = snd (ctx_HasTimeSlot slot key ctx)"
| "ctx_apply d (OpUseTimeSlot slot key) ctx = snd (ctx_UseTimeSlot slot key ctx)"
| "ctx_apply d OpSnapshot ctx = snd (ctx_Snapshot ctx)"
| "ctx_apply d (OpRevert sn) ctx = snd (ctx_Revert sn ctx)"
| "ctx_apply d (OpCommit sn) ctx = snd (ctx_Commit sn ctx)"

definition ctx_run :: "(string \<Rightarrow> bytes option) \<Rightarrow> ctx_op list \<Rightarrow> chain_ctx \<Rightarrow> chain_ctx" where
  "ctx_run d ops ctx = fold (ctx_apply d) ops ctx"

text \<open>An operation between a snapshot \<open>sn\<close> and its end: it reverts and commits inner snapshots only.\<close>

fun op_inside :: "nat \<Rightarrow> ctx_op \<Rightarrow> bool" where
  "op_inside sn (OpGet k) = key_ok k"
| "op_inside sn (OpSet k v) = key_ok k"
| "op_inside sn (OpRevert n) = (sn < n)"
| "op_inside sn (OpCommit n) = (sn < n)"
| "op_inside sn _ = True"

fun op_local :: "ctx_op \<Rightarrow> bool" where
  "op_local OpSnapshot = False"
| "op_local (OpRevert n) = False"
| "op_local (OpCommit n) = False"
| "op_local (OpGet k) = key_ok k"
| "op_local _ = True"

lemma ctx_local_apply:
  assumes "ctx_wf ctx" and "op_local op"
  shows "ctx_local ctx (ctx_apply d op ctx)"
  using assms kv.get_wf[OF assms(1)] ctx_set_wf[OF assms(1)]
  by (cases op)
    (auto simp: ctx_local_Account ctx_AddressByName_view ctx_local_ops ctx_local_DeleteAccount
      ctx_UTXO_view ctx_local_UTXO_ops ctx_local_TimeSlot, auto simp: ctx_local_def)

text \<open>\<open>ctx_above ld base ctx\<close>: at least one snapshot lies on top of the snapshots \<open>base\<close>.\<close>

definition ctx_above :: "loader \<Rightarrow> context_data list \<Rightarrow> chain_ctx \<Rightarrow> bool" where
  "ctx_above ld base ctx \<longleftrightarrow>
     ctx_wf ctx \<and> ctx_loader ctx = ld \<and> (\<exists>xs. xs \<noteq> [] \<and> ctx_stack ctx = xs @ base)"

lemma ctx_above_local:
  assumes "ctx_above ld base ctx" and "ctx_local ctx ctx'"
  shows "ctx_above ld base ctx'"
proof -
  obtain x xs where "ctx_stack ctx = x # xs @ base"
    using assms(1) by (auto simp: ctx_above_def neq_Nil_conv)
  moreover obtain t ps where "ctx_stack ctx' = t # ps"
    using assms(2) by (auto simp: ctx_local_def ctx_wf_def elim: stack_okE)
  ultimately have "ctx_stack ctx' = (t # xs) @ base"
    using assms(2) by (simp add: ctx_local_def ctx_frame_def)
  then show ?thesis
    using assms by (auto simp: ctx_above_def ctx_local_def ctx_frame_def)
qed

lemma ctd_inv_commit: "ctd_inv c \<Longrightarrow> ctd_inv b \<Longrightarrow> ctd_inv (commit_data c b)"
proof -
  have slots: "om_inv d \<Longrightarrow> om_inv (commit_slots src d)" for src d
    unfolding commit_slots_def om_each_def
    by (induction src arbitrary: d) (auto split: option.split)
  assume "ctd_inv c" "ctd_inv b"
  then show ?thesis by (simp add: ctd_inv_def commit_data_def slots)
qed

text \<open>\<^verbatim>\<open>Commit\<close> merges the snapshots above \<open>base\<close> and at least one of them remains.\<close>

lemma commit_loop_above:
  assumes "length base + 1 < sn" and "xs \<noteq> []" and "\<forall>q\<in>set xs. ctd_inv q"
  shows "\<exists>y ys. commit_loop sn (xs @ base) = Some (y # ys @ base) \<and>
     set ys \<subseteq> set (tl xs) \<and> ctd_inv y"
  using assms(2,3)
proof (induction "length xs" arbitrary: xs rule: less_induct)
  case less
  show ?case
  proof (cases "sn \<le> length (xs @ base)")
    case True
    then obtain a b r where xs: "xs = a # b # r"
      using assms(1) less.prems(1) by (cases xs; cases "tl xs") auto
    have "\<exists>y ys. commit_loop sn ((commit_data a b # r) @ base) = Some (y # ys @ base) \<and>
        set ys \<subseteq> set (tl (commit_data a b # r)) \<and> ctd_inv y"
      using less.prems(2) xs by (intro less.hyps) (auto intro: ctd_inv_commit)
    moreover have "commit_loop sn (xs @ base) = commit_loop sn ((commit_data a b # r) @ base)"
      using True xs by (simp add: commit_loop.simps[of sn "a # b # r @ base"])
    ultimately show ?thesis using xs by auto
  next
    case False
    then show ?thesis
      using less.prems by (cases xs) (auto simp: commit_loop.simps)
  qed
qed

lemma ctx_above_Snapshot:
  assumes "ctx_above ld base ctx"
  shows "ctx_above ld base (snd (ctx_Snapshot ctx))"
proof -
  obtain x xs where x: "ctx_stack ctx = x # xs @ base"
    using assms by (auto simp: ctx_above_def neq_Nil_conv)
  then have "ctx_stack (snd (ctx_Snapshot ctx)) = (NewContextData (ctx_stack ctx) # x\<lparr>cd_isTop := False\<rparr> # xs) @ base"
    by (simp add: ctx_Snapshot_def ctx_setTop_def ctx_dirty_def Let_def)
  moreover have "ctx_wf (snd (ctx_Snapshot ctx))"
    using assms x
    by (auto simp: ctx_above_def ctx_wf_def ctx_Snapshot_def ctx_setTop_def ctx_dirty_def Let_def)
  ultimately show ?thesis
    using assms by (simp add: ctx_above_def ctx_Snapshot_def ctx_setTop_def ctx_dirty_def Let_def)
qed

lemma stack_ok_retop:
  "s \<noteq> [] \<Longrightarrow> \<forall>q\<in>set s. ctd_inv q \<Longrightarrow> \<forall>q\<in>set (tl s). \<not> cd_isTop q \<Longrightarrow>
   stack_ok ((hd s)\<lparr>cd_isTop := True\<rparr> # tl s)"
  by (cases s) auto

lemma ctx_above_Revert:
  assumes "ctx_above ld base ctx" and "length base + 1 < sn"
  shows "ctx_above ld base (snd (ctx_Revert sn ctx))"
proof -
  obtain xs where x: "ctx_stack ctx = xs @ base" "xs \<noteq> []"
    using assms by (auto simp: ctx_above_def)
  define s where "s = (if sn \<le> length (ctx_stack ctx)
      then drop (length (ctx_stack ctx) - (sn - 1)) (ctx_stack ctx) else ctx_stack ctx)"
  obtain ys where ys: "s = ys @ base" "ys \<noteq> []" "set (tl ys) \<subseteq> set (tl xs)" "set ys \<subseteq> set xs"
  proof (cases "sn \<le> length (ctx_stack ctx)")
    case True
    let ?n = "length (ctx_stack ctx) - (sn - 1)"
    have "?n < length xs" using True x assms(2) by auto
    moreover from this have "set (tl (drop ?n xs)) \<subseteq> set (tl xs)"
      by (metis drop_Suc set_drop_subset tl_drop)
    ultimately show thesis
      using True x that[of "drop ?n xs"] set_drop_subset[of ?n xs] by (simp add: s_def)
  next
    case False
    then show thesis using x that[of xs] by (simp add: s_def)
  qed
  have ok: "\<forall>q\<in>set (xs @ base). ctd_inv q" "\<forall>q\<in>set (tl (xs @ base)). \<not> cd_isTop q"
    using assms(1) x by (cases xs; auto simp: ctx_above_def ctx_wf_def)+
  have "stack_ok ((hd s)\<lparr>cd_isTop := True\<rparr> # tl s)"
    using ok ys x(2) by (intro stack_ok_retop) (auto simp: tl_append2)
  moreover have "(hd s)\<lparr>cd_isTop := True\<rparr> # tl s = ((hd ys)\<lparr>cd_isTop := True\<rparr> # tl ys) @ base"
    using ys by simp
  moreover have "snd (ctx_Revert sn ctx) = ctx_setTop (\<lambda>t. t\<lparr>cd_isTop := True\<rparr>) ((ctx_dirty ctx)\<lparr>ctx_stack := s\<rparr>)"
    using assms(2) by (simp add: ctx_Revert_def s_def ctx_dirty_def Let_def)
  ultimately show ?thesis
    using assms(1) by (auto simp: ctx_above_def ctx_wf_def ctx_setTop_def ctx_dirty_def)
qed

lemma ctx_above_Commit:
  assumes "ctx_above ld base ctx" and "length base + 1 < sn"
  shows "ctx_above ld base (snd (ctx_Commit sn ctx))"
proof -
  obtain xs where x: "ctx_stack ctx = xs @ base" "xs \<noteq> []"
    using assms by (auto simp: ctx_above_def)
  have ok: "\<forall>q\<in>set (xs @ base). ctd_inv q" "\<forall>q\<in>set (tl (xs @ base)). \<not> cd_isTop q"
    using assms(1) x by (cases xs; auto simp: ctx_above_def ctx_wf_def)+
  obtain y ys where y: "commit_loop sn (xs @ base) = Some (y # ys @ base)" "set ys \<subseteq> set (tl xs)" "ctd_inv y"
    using commit_loop_above[OF assms(2) x(2)] ok(1) by auto
  have "stack_ok ((hd (y # ys @ base))\<lparr>cd_isTop := True\<rparr> # tl (y # ys @ base))"
    using ok y(2,3) x(2) list.set_sel(2)[of xs] by (intro stack_ok_retop) (auto simp: tl_append2)
  moreover have "snd (ctx_Commit sn ctx)
      = ctx_setTop (\<lambda>t. t\<lparr>cd_isTop := True\<rparr>) ((ctx_dirty ctx)\<lparr>ctx_stack := y # ys @ base\<rparr>)"
    using x(1) y(1) by (simp add: ctx_Commit_def ctx_dirty_def Let_def)
  ultimately show ?thesis
    using assms(1) by (auto simp: ctx_above_def ctx_wf_def ctx_setTop_def ctx_dirty_def intro!: exI[of _ "_ # ys"])
qed

lemma ctx_above_run:
  assumes "ctx_above ld base ctx" and "\<forall>op\<in>set ops. op_inside (length base + 1) op"
  shows "ctx_above ld base (ctx_run d ops ctx)"
  using assms
proof (induction ops arbitrary: ctx)
  case Nil
  then show ?case by (simp add: ctx_run_def)
next
  case (Cons op ops)
  have wf: "ctx_wf ctx" using Cons.prems(1) by (simp add: ctx_above_def)
  have "ctx_above ld base (ctx_apply d op ctx)"
  proof (cases "op_local op")
    case True
    then show ?thesis using ctx_above_local[OF Cons.prems(1) ctx_local_apply[OF wf]] by simp
  next
    case False
    then show ?thesis
      using Cons.prems ctx_above_Snapshot ctx_above_Revert ctx_above_Commit by (cases op) auto
  qed
  then show ?case using Cons.IH Cons.prems(2) by (simp add: ctx_run_def)
qed

text \<open>
  C4: \<^verbatim>\<open>Revert\<close> undoes everything since its \<^verbatim>\<open>Snapshot\<close>. Whatever operations ran in between - reads,
  writes, account and output changes, events, time slots, inner snapshots that were reverted or
  committed - the stack of snapshots is afterwards exactly what it was before, the caches still agree with
  the loader, and the readers \<^verbatim>\<open>Account\<close>, \<^verbatim>\<open>AddressByName\<close>, \<^verbatim>\<open>UTXO\<close>, \<^verbatim>\<open>AccountData\<close> and \<^verbatim>\<open>ProcessData\<close> return what
  they returned before. (\<^verbatim>\<open>HasUTXO\<close>, which asks the cache and never the loader, is no such reader: the cache keeps an
  output that was read in between.)
\<close>

theorem snapshot_revert_restores:
  assumes "ctx_wf ctx" and "ctx_Snapshot ctx = (sn, ctx1)" and "\<forall>op\<in>set ops. op_inside sn op"
    and "ctx_Revert sn (ctx_run d ops ctx1) = (r, ctx2)"
  shows "r = Inr () \<and> ctx_stack ctx2 = ctx_stack ctx \<and> ctx_wf ctx2 \<and>
    (\<forall>a. fst (ctx_Account a ctx2) = fst (ctx_Account a ctx)) \<and>
    (\<forall>n. fst (ctx_AddressByName n ctx2) = fst (ctx_AddressByName n ctx)) \<and>
    (\<forall>i. fst (ctx_UTXO i ctx2) = fst (ctx_UTXO i ctx)) \<and>
    (\<forall>k. key_ok k \<longrightarrow> fst (ctx_get k ctx2) = fst (ctx_get k ctx)) \<and>
    (\<forall>k. ctx_view ctx2 k = ctx_view ctx k)"
proof -
  obtain t ps where s: "ctx_stack ctx = t # ps" and t: "cd_isTop t" "ctd_inv t"
    and ps: "\<forall>q\<in>set ps. \<not> cd_isTop q" "\<forall>q\<in>set ps. ctd_inv q"
    using assms(1) unfolding ctx_wf_def by (auto elim: stack_okE)
  let ?base = "t\<lparr>cd_isTop := False\<rparr> # ps"
  have 1: "ctx_stack ctx1 = [NewContextData (ctx_stack ctx)] @ ?base" "sn = length ?base + 1"
      "ctx_loader ctx1 = ctx_loader ctx" "ctx_cache ctx1 = ctx_cache ctx"
    using assms(2) s by (auto simp: ctx_Snapshot_def ctx_setTop_def ctx_dirty_def Let_def)
  have "ctx_wf ctx1"
    using assms(1) 1 t ps by (simp add: ctx_wf_def)
  then have "ctx_above (ctx_loader ctx) ?base ctx1" using 1 by (auto simp: ctx_above_def)
  then have run: "ctx_above (ctx_loader ctx) ?base (ctx_run d ops ctx1)"
    using assms(3) 1(2) by (intro ctx_above_run) simp_all
  let ?c = "ctx_run d ops ctx1"
  obtain xs where xs: "xs \<noteq> []" "ctx_stack ?c = xs @ ?base" using run by (auto simp: ctx_above_def)
  have top: "t\<lparr>cd_isTop := True\<rparr> = t" using t(1) by simp
  have rv: "ctx_Revert sn ?c = (Inr (), (ctx_dirty ?c)\<lparr>ctx_stack := ctx_stack ctx\<rparr>)"
    using xs 1(2) s top by (cases xs) (auto simp: ctx_Revert_def ctx_setTop_def ctx_dirty_def Let_def)
  have c2: "r = Inr ()" "ctx_stack ctx2 = ctx_stack ctx" "ctx_loader ctx2 = ctx_loader ctx" "ctx_wf ctx2"
    using rv assms(1,4) run by (auto simp: ctx_above_def ctx_wf_def ctx_dirty_def)
  then have view: "ctx_view ctx2 k = ctx_view ctx k" for k by (simp add: ctx_view_def)
  then show ?thesis
    using c2 kv.get_view[OF c2(4)] kv.get_view[OF assms(1)] ctx_Account_read ctx_AddressByName_view(2) ctx_UTXO_view(2) assms(1)
    by simp
qed

theorem snapshot_revert_restores_witness:
  "(let ctx = NewEmptyContext; ops = [OpSet (PData 1 [2]) [3], OpSnapshot, OpUseTimeSlot 4 ''tx'', OpCommit 3]
    in ctx_stack (snd (ctx_Revert 2 (ctx_run (\<lambda>_. None) ops (snd (ctx_Snapshot ctx))))) = ctx_stack ctx)"
proof -
  have "ctx_Snapshot NewEmptyContext = (2, snd (ctx_Snapshot NewEmptyContext))"
    by (simp add: ctx_Snapshot_def ctx_setTop_def ctx_dirty_def NewEmptyContext_def NewContext_def Let_def)
  from snapshot_revert_restores[OF _ this, of "[OpSet (PData 1 [2]) [3], OpSnapshot, OpUseTimeSlot 4 ''tx'', OpCommit 3]" "\<lambda>_. None",
      OF _ _ surjective_pairing]
  show ?thesis by (simp add: NewEmptyContext_def ctx_wf_NewContext Let_def)
qed

section \<open>Commit\<close>

text \<open>The two layers of a cell's kind in a snapshot, and the cell's key in them.\<close>

fun dk_layer :: "dkey \<Rightarrow> context_data \<Rightarrow> layer" where
  "dk_layer (AData a p n) c = alayer c"
| "dk_layer (PData p n) c = player c"

fun dk_key :: "dkey \<Rightarrow> bytes" where
  "dk_key (AData a p n) = accountData_key a p n"
| "dk_key (PData p n) = processData_key p n"

lemma dk_layer_eq: "dk_layer (AData a p n) = alayer" "dk_layer (PData p n) = player"
  by (simp_all add: fun_eq_iff)

lemma stack_view_layers: "stack_view ld s k = layers_view (map (dk_layer k) s) (dk_key k) (dk_base ld k)"
  by (cases k) (simp_all add: dk_layer_eq)

text \<open>The cell was emptied in the snapshot and no operation since has written it.\<close>

definition emptied :: "context_data \<Rightarrow> dkey \<Rightarrow> bool" where
  "emptied c k = om_has (fst (dk_layer k c)) (dk_key k)"

definition written :: "context_data \<Rightarrow> dkey \<Rightarrow> bool" where
  "written c k = om_has (snd (dk_layer k c)) (dk_key k)"

lemma commit_data_view:
  assumes "ctd_inv c" and "ctd_inv b"
  shows "stack_view ld (commit_data c b # ps) k = (if emptied b k then [] else stack_view ld (c # b # ps) k)"
  using assms
  by (cases k)
    (auto simp: stack_view_layers emptied_def commit_data_def ctd_inv_def alayer_def player_def split: option.split)

lemma emptied_commit:
  assumes "ctd_inv c" and "ctd_inv b"
  shows "emptied (commit_data c b) k \<longleftrightarrow> emptied c k \<or> emptied b k"
  using assms by (cases k) (auto simp: emptied_def commit_data_def ctd_inv_def alayer_def player_def)

lemma stack_view_retop [simp]: "stack_view ld (c\<lparr>cd_isTop := x\<rparr> # ps) k = stack_view ld (c # ps) k"
  by (cases k) (simp_all add: alayer_def player_def)

lemma emptied_retop [simp]: "emptied (c\<lparr>cd_isTop := x\<rparr>) k = emptied c k"
  by (cases k) (simp_all add: emptied_def alayer_def player_def)

lemma ctx_Commit_one:
  assumes "ctx_stack ctx = c # b # ps" and "sn = length ps + 2"
  shows "ctx_Commit sn ctx = (Inr (), (ctx_dirty ctx)\<lparr>ctx_stack := (commit_data c b)\<lparr>cd_isTop := True\<rparr> # ps\<rparr>)"
proof -
  have "commit_loop sn (c # b # ps) = Some (commit_data c b # ps)"
    using assms(2) by (simp add: commit_loop.simps)
  then show ?thesis using assms(1) by (simp add: ctx_Commit_def ctx_setTop_def ctx_dirty_def Let_def)
qed

lemma ctx_Commit_wf:
  assumes "ctx_wf ctx" and "ctx_stack ctx = c # b # ps" and "sn = length ps + 2"
  shows "ctx_wf (snd (ctx_Commit sn ctx))"
  using assms unfolding ctx_Commit_one[OF assms(2,3)] by (auto simp: ctx_wf_def ctx_dirty_def ctd_inv_commit)

text \<open>
  C35: what a context reads after \<^verbatim>\<open>Commit\<close> of the top snapshot. Every cell keeps its value, except a
  cell that the snapshot below had emptied: \<^verbatim>\<open>Commit\<close> copies the values of the upper snapshot but
  leaves the deletion mark of the lower one in place, so such a cell reads as empty even if it was
  written again.
\<close>

theorem commit_reads:
  assumes "ctx_wf ctx" and "ctx_stack ctx = c # b # ps" and "sn = length ps + 2"
  shows "fst (ctx_Commit sn ctx) = Inr () \<and> ctx_wf (snd (ctx_Commit sn ctx)) \<and>
    ctx_view (snd (ctx_Commit sn ctx)) k = (if emptied b k then [] else ctx_view ctx k)"
  using assms ctx_Commit_wf[OF assms] unfolding ctx_Commit_one[OF assms(2,3)]
  by (simp add: ctx_view_def ctx_dirty_def ctx_wf_def commit_data_view)

theorem commit_reads_witness:
  "(let ctx = snd (ctx_Snapshot (ctx_set (PData 1 [7]) [9] NewEmptyContext))
    in fst (ctx_Commit 2 ctx) = Inr () \<and> ctx_view (snd (ctx_Commit 2 ctx)) (PData 1 [7]) = [9])"
proof -
  let ?ctx = "snd (ctx_Snapshot (ctx_set (PData 1 [7]) [9] NewEmptyContext))"
  have "ctx_wf (ctx_set (PData 1 [7]) [9] NewEmptyContext)"
    unfolding NewEmptyContext_def by (rule ctx_set_wf(1)[OF ctx_wf_NewContext])
  then have wf: "ctx_wf ?ctx"
    by (cases "ctx_stack (ctx_set (PData 1 [7]) [9] NewEmptyContext)")
      (auto simp: ctx_wf_def ctx_Snapshot_def ctx_setTop_def ctx_dirty_def Let_def)
  have st: "ctx_stack ?ctx = [hd (ctx_stack ?ctx), (NewContextData [])\<lparr>cd_ProcessDataMap := [([1, 7], [9])], cd_isTop := False\<rparr>]"
    by (simp add: ctx_Snapshot_def ctx_setTop_def ctx_dirty_def NewEmptyContext_def NewContext_def Let_def
      ctx_SetProcessData_def ctd_SetProcessData_def NewContextData_def processData_key_def rune_str_def om_delete_def)
  have "ctx_view ?ctx (PData 1 [7]) = [9]"
    by (simp add: ctx_view_def ctx_Snapshot_def ctx_setTop_def ctx_dirty_def NewEmptyContext_def NewContext_def Let_def
      ctx_SetProcessData_def ctd_SetProcessData_def NewContextData_def player_def om_delete_def om_has_def om_get_def)
  then show ?thesis
    using commit_reads[OF wf st, of 2 "PData 1 [7]"]
    by (simp add: Let_def emptied_def player_def NewContextData_def om_has_def om_get_def)
qed

lemma ctx_Snapshot_facts:
  assumes "ctx_wf ctx" and "ctx_Snapshot ctx = (sn, ctx')"
  obtains t ps where "ctx_stack ctx = t # ps"
    and "ctx_stack ctx' = NewContextData (ctx_stack ctx) # t\<lparr>cd_isTop := False\<rparr> # ps"
    and "sn = length ps + 2" and "ctx_wf ctx'" and "ctx_loader ctx' = ctx_loader ctx"
    and "ctx_cache ctx' = ctx_cache ctx"
    and "\<And>k. ctx_view ctx' k = ctx_view ctx k"
proof -
  obtain t ps where s: "ctx_stack ctx = t # ps" and ok: "cd_isTop t" "ctd_inv t"
    "\<forall>q\<in>set ps. \<not> cd_isTop q" "\<forall>q\<in>set ps. ctd_inv q"
    using assms(1) unfolding ctx_wf_def by (auto elim: stack_okE)
  have e: "ctx' = (ctx_dirty ctx)\<lparr>ctx_stack := NewContextData (ctx_stack ctx) # t\<lparr>cd_isTop := False\<rparr> # ps\<rparr>"
      "sn = length ps + 2"
    using assms(2) s by (auto simp: ctx_Snapshot_def ctx_setTop_def ctx_dirty_def Let_def)
  have new: "stack_view ld (NewContextData x # r) k = stack_view ld r k" for ld x r k
    by (cases k) (simp_all add: alayer_def player_def NewContextData_def)
  show thesis
    using assms(1) s ok e new
    by (intro that[of t ps]) (auto simp: ctx_wf_def ctx_dirty_def ctx_view_def)
qed

lemma emptied_set:
  "ctx_stack ctx \<noteq> [] \<Longrightarrow> emptied (hd (ctx_stack (ctx_set k [] ctx))) k"
  by (cases k)
    (simp_all add: emptied_def ctx_SetAccountData_def ctx_SetProcessData_def ctx_setTop_def ctx_dirty_def
      ctd_SetAccountData_def ctd_SetProcessData_def alayer_def player_def Let_def)

text \<open>
  C39: a write after a deletion is lost on \<^verbatim>\<open>Commit\<close>. If a cell is emptied, and then written in a new
  snapshot, the snapshot reads the new value, but once it is committed the cell is empty again. With
  one snapshot per transaction this loses, for instance, coins sent to an account that an earlier
  transaction of the same block has emptied.
\<close>

theorem commit_loses_rewrite:
  assumes "ctx_wf ctx" and "key_ok k" and "ctx_Snapshot (ctx_set k [] ctx) = (sn, ctx1)"
  shows "fst (ctx_get k (ctx_set k v ctx1)) = v \<and>
    fst (ctx_Commit sn (ctx_set k v ctx1)) = Inr () \<and>
    fst (ctx_get k (snd (ctx_Commit sn (ctx_set k v ctx1)))) = []"
proof -
  have ne: "ctx_stack ctx \<noteq> []" using assms(1) by (auto simp: ctx_wf_def)
  obtain t ps where f: "ctx_stack (ctx_set k [] ctx) = t # ps" "sn = length ps + 2" "ctx_wf ctx1"
      "ctx_stack ctx1 = NewContextData (t # ps) # t\<lparr>cd_isTop := False\<rparr> # ps"
    using ctx_Snapshot_facts[OF ctx_set_wf(1)[OF assms(1)] assms(3)] by metis
  let ?c = "ctx_set k v ctx1"
  have wf: "ctx_wf ?c" using ctx_set_wf f(3) by blast
  have st: "ctx_stack ?c = hd (ctx_stack ?c) # t\<lparr>cd_isTop := False\<rparr> # ps"
    using ctx_set_wf[OF f(3), of k v] f(4) by (cases "ctx_stack ?c") (auto simp: ctx_frame_def ctx_wf_def)
  have "emptied (t\<lparr>cd_isTop := False\<rparr>) k" using emptied_set[OF ne, of k] f(1) by simp
  then have "ctx_view (snd (ctx_Commit sn ?c)) k = []"
    using st f(2) wf ctx_Commit_one[OF st f(2)]
    by (auto simp: ctx_view_def ctx_dirty_def ctx_wf_def commit_data_view elim: stack_okE)
  moreover have "ctx_wf (snd (ctx_Commit sn ?c))" using ctx_Commit_wf[OF wf st f(2)] .
  ultimately show ?thesis
    using kv.get_after_put[OF f(3) assms(2,2)] kv.get_view assms(2) ctx_Commit_one[OF st f(2)] by simp
qed

theorem commit_loses_rewrite_witness:
  "(let k = AData (zeros 14) 1 [1, 1]; sc = ctx_Snapshot (ctx_set k [] NewEmptyContext); ctx = ctx_set k [42] (snd sc)
    in fst (ctx_get k ctx) = [42] \<and> fst (ctx_Commit 2 ctx) = Inr () \<and> fst (ctx_get k (snd (ctx_Commit 2 ctx))) = [])"
proof -
  let ?k = "AData (zeros 14) 1 [1, 1]"
  have "ctx_Snapshot (ctx_set ?k [] NewEmptyContext) = (2, snd (ctx_Snapshot (ctx_set ?k [] NewEmptyContext)))"
    by (simp add: ctx_Snapshot_def ctx_setTop_def ctx_dirty_def ctx_SetAccountData_def NewEmptyContext_def
      NewContext_def Let_def)
  from commit_loses_rewrite[OF _ _ this, of "[42]"] show ?thesis
    unfolding Let_def NewEmptyContext_def
    using ctx_wf_NewContext[of emptyLoader] by (simp add: is_address_def AddressSize_def)
qed

section \<open>Time slots\<close>

lemma ctx_UseTimeSlot_result:
  assumes "ctx_wf ctx"
  shows "fst (ctx_UseTimeSlot slot key ctx) =
    (if slot_marked slot key (cd_TimeSlotMap (ctx_Top ctx)) \<or> ld_HasTimeSlot (ctx_loader ctx) slot key
     then Inl (TypesErr ErrUsedTimeSlot) else Inr ())"
proof -
  obtain cc' where "cc_HasTimeSlot (ctx_loader ctx) slot key (ctx_cache ctx) = (ld_HasTimeSlot (ctx_loader ctx) slot key, cc')"
    using assms cache_ok_HasTimeSlot unfolding ctx_wf_def by metis
  then show ?thesis by (simp add: ctx_UseTimeSlot_def Let_def)
qed

lemma ctx_UseTimeSlot_marks:
  "slot_marked slot key (cd_TimeSlotMap (ctx_Top (snd (ctx_UseTimeSlot slot key ctx))))"
  by (simp add: ctx_UseTimeSlot_def Let_def ctx_Top_def ctx_setTop_def split: prod.split)

text \<open>
  The time slot check that is meant to refuse a transaction seen before looks at the top snapshot
  and at the chain only. A slot and key that the chain does not know is accepted once per snapshot:
  a second use in the same snapshot is refused, but after a \<^verbatim>\<open>Snapshot\<close> the same slot and key are
  accepted again, although the snapshot below has them marked.
\<close>

theorem time_slot_reuse:
  assumes "ctx_wf ctx" and "fst (ctx_UseTimeSlot slot key ctx) = Inr ()"
  shows "fst (ctx_UseTimeSlot slot key (snd (ctx_UseTimeSlot slot key ctx))) = Inl (TypesErr ErrUsedTimeSlot) \<and>
    fst (ctx_UseTimeSlot slot key (snd (ctx_Snapshot (snd (ctx_UseTimeSlot slot key ctx))))) = Inr ()"
proof -
  let ?c = "snd (ctx_UseTimeSlot slot key ctx)"
  have l: "ctx_wf ?c" "ctx_loader ?c = ctx_loader ctx"
    using ctx_local_TimeSlot(2)[OF assms(1), of slot key] by (auto simp: ctx_local_def ctx_frame_def)
  have no: "\<not> ld_HasTimeSlot (ctx_loader ctx) slot key"
    using assms(2) ctx_UseTimeSlot_result[OF assms(1), of slot key] by (auto split: if_splits)
  obtain sn c' where sn: "ctx_Snapshot ?c = (sn, c')" by (metis surj_pair)
  obtain t ps where f: "ctx_stack c' = NewContextData (ctx_stack ?c) # t\<lparr>cd_isTop := False\<rparr> # ps"
      "ctx_wf c'" "ctx_loader c' = ctx_loader ?c"
    using ctx_Snapshot_facts[OF l(1) sn] by metis
  have "\<not> slot_marked slot key (cd_TimeSlotMap (ctx_Top c'))"
    using f(1) by (simp add: ctx_Top_def NewContextData_def slot_marked_def)
  then show ?thesis
    using ctx_UseTimeSlot_result[OF l(1), of slot key] ctx_UseTimeSlot_marks[of slot key ctx]
      ctx_UseTimeSlot_result[OF f(2), of slot key] no l(2) f(3) sn by simp
qed

theorem time_slot_reuse_witness:
  "fst (ctx_UseTimeSlot 3 ''h'' (snd (ctx_Snapshot (snd (ctx_UseTimeSlot 3 ''h'' NewEmptyContext))))) = Inr ()"
  using time_slot_reuse[of NewEmptyContext 3 "''h''"] ctx_UseTimeSlot_result[of NewEmptyContext 3 "''h''"]
    ctx_wf_NewContext[of emptyLoader]
  by (simp add: NewEmptyContext_def NewContext_def ctx_Top_def NewContextData_def slot_marked_def emptyLoader_def)

section \<open>Accounts\<close>

lemma ctx_CreateAccount_success:
  assumes "ctx_CreateAccount d acc ctx = (Inr (), ctx')"
  shows "check_new_account d [TypesErr ErrNotExistAccount] acc (ctx_dirty ctx) = Inr ()"
    and "ctx' = ctx_setTop (insert_account acc) (ctx_dirty ctx)"
  using assms by (auto simp: ctx_CreateAccount_def Let_def split: sum.splits)

text \<open>
  An account is created only at an address of the height being generated, with a non-zero address, a
  name that is no address text, and an address and name that no snapshot nor the chain has in use. It
  is then found under its name, and returned unchanged under its address - unless the snapshot has
  the address marked as deleted, in which case the new account cannot be read.
\<close>

theorem created_account:
  assumes "ctx_wf ctx" and "ctx_CreateAccount d acc ctx = (Inr (), ctx')"
  shows "addr_Height (acc_Address acc) = Some (ctx_TargetHeight ctx) \<and> acc_Address acc \<noteq> zeros AddressSize \<and>
    isl (ParseAddress d (acc_Name acc)) \<and>
    fst (ctx_HasAccount (acc_Address acc) ctx) \<noteq> Inr True \<and> fst (ctx_HasAccountName (acc_Name acc) ctx) \<noteq> Inr True \<and>
    fst (ctx_AddressByName (acc_Name acc) ctx') = Inr (acc_Address acc) \<and>
    fst (ctx_Account (acc_Address acc) ctx') =
      (if om_has (cd_DeletedAccountMap (ctx_Top ctx)) (acc_Address acc)
       then Inl (TypesErr ErrDeletedAccount) else Inr acc)"
proof -
  note c = ctx_CreateAccount_success[OF assms(2)]
  obtain t ps where s: "ctx_stack ctx = t # ps"
    using assms(1) unfolding ctx_wf_def by (auto elim: stack_okE)
  have "fst (ctx_AddressByName (acc_Name acc) ctx') = Inr (acc_Address acc)"
    using s by (simp add: c(2) ctx_AddressByName_def ctx_read_def ctx_setTop_def insert_account_def ctx_dirty_def)
  moreover have "fst (ctx_Account (acc_Address acc) ctx') =
      (if om_has (cd_DeletedAccountMap t) (acc_Address acc) then Inl (TypesErr ErrDeletedAccount) else Inr acc)"
    using s by (simp add: c(2) ctx_Account_def ctx_read_def ctx_setTop_def insert_account_def ctx_dirty_def)
  moreover have "addr_Height (acc_Address acc) = Some (ctx_TargetHeight ctx) \<and> acc_Address acc \<noteq> zeros AddressSize \<and>
    isl (ParseAddress d (acc_Name acc)) \<and>
    fst (ctx_HasAccount (acc_Address acc) ctx) \<noteq> Inr True \<and> fst (ctx_HasAccountName (acc_Name acc) ctx) \<noteq> Inr True"
    using c(1) by (auto simp: check_new_account_def check_absent_def ctx_HasAccount_def ctx_HasAccountName_def
        ctx_dirty_def ctx_TargetHeight_def split: if_splits sum.splits)
  ultimately show ?thesis using s by (simp add: ctx_Top_def)
qed

theorem created_account_witness:
  "(let acc = SingleAccount \<lparr>sa_Address = NewAddress 0 1 0, sa_Name = ''alice'', sa_KeyHash = []\<rparr>;
        res = ctx_CreateAccount (\<lambda>_. None) acc NewEmptyContext
    in fst res = Inr () \<and> fst (ctx_Account (NewAddress 0 1 0) (snd res)) = Inr acc)"
proof -
  let ?acc = "SingleAccount \<lparr>sa_Address = NewAddress 0 1 0, sa_Name = ''alice'', sa_KeyHash = []\<rparr>"
  have ok: "fst (ctx_CreateAccount (\<lambda>_. None) ?acc NewEmptyContext) = Inr ()"
    by code_simp
  moreover from ok have "ctx_CreateAccount (\<lambda>_. None) ?acc NewEmptyContext
      = (Inr (), snd (ctx_CreateAccount (\<lambda>_. None) ?acc NewEmptyContext))"
    by (metis prod.collapse)
  moreover have "\<not> om_has (cd_DeletedAccountMap (ctx_Top NewEmptyContext)) (NewAddress 0 1 0)"
    by code_simp
  ultimately show ?thesis
    using created_account[of NewEmptyContext "\<lambda>_. None" ?acc] ctx_wf_NewContext[of emptyLoader]
    by (simp add: Let_def NewEmptyContext_def[symmetric])
qed

section \<open>The context hash\<close>

text \<open>
  The hash of a context is cached, and \<^verbatim>\<open>SetProcessData\<close> does not mark the cached value as outdated,
  as every other write does: once the hash was asked for, changes of process data no longer show in
  it, while a write of account data has it computed again.
\<close>

theorem context_hash_stale:
  "fst (ctx_Hash H (ctx_SetProcessData p n v (snd (ctx_Hash H ctx)))) = fst (ctx_Hash H ctx) \<and>
   fst (ctx_Hash H (ctx_SetAccountData a p n v ctx)) =
     the (Hashes [ctx_genLastHash ctx,
       ctd_Hash H (ctx_SetAccountData a p n v ctx) (ctx_Top (ctx_SetAccountData a p n v ctx))])"
  by (simp add: ctx_Hash_def ctx_SetProcessData_def ctx_SetAccountData_def ctx_setTop_def ctx_dirty_def Let_def)

section \<open>The next context\<close>

lemma next_loader_view:
  assumes "ctx_wf ctx" and "key_ok k"
  shows "dk_base (ctx_as_loader (ctx_setTop (\<lambda>t. t\<lparr>cd_isTop := False\<rparr>) ctx)) k = ctx_view ctx k"
proof -
  obtain t ps where s: "ctx_stack ctx = t # ps" and ps: "\<forall>q\<in>set ps. \<not> cd_isTop q"
    using assms(1) unfolding ctx_wf_def by (auto elim: stack_okE)
  have c: "cache_ok (ctx_loader ctx) (ctx_cache ctx)" using assms(1) by (simp add: ctx_wf_def)
  let ?s = "t\<lparr>cd_isTop := False\<rparr> # ps"
  have ns: "\<forall>q\<in>set ?s. \<not> cd_isTop q" using ps by simp
  show ?thesis
  proof (cases k)
    case (AData a p n)
    then show ?thesis
      using parents_AccountData[OF c _ ns, of a p n] assms(2) s
      by (auto simp: ctx_as_loader_def ctx_AccountData_def ctx_read_def ctx_setTop_def ctx_view_def
          simp del: ctd_AccountData.simps stack_view.simps)
  next
    case (PData p n)
    then show ?thesis
      using parents_ProcessData[OF c ns, of p n] s
      by (auto simp: ctx_as_loader_def ctx_ProcessData_def ctx_read_def ctx_setTop_def ctx_view_def
          simp del: ctd_ProcessData.simps stack_view.simps)
  qed
qed

lemma next_loader_others:
  assumes "ctx_wf ctx"
  defines "ld \<equiv> ctx_as_loader (ctx_setTop (\<lambda>t. t\<lparr>cd_isTop := False\<rparr>) ctx)"
  shows "ld_Account ld a = account_view (ctx_loader ctx) (ctx_stack ctx) a"
    and "ld_AddressByName ld n = name_view (ctx_loader ctx) (ctx_stack ctx) n"
    and "ld_UTXO ld i = utxo_view (ctx_loader ctx) (ctx_stack ctx) i"
proof -
  obtain t ps where s: "ctx_stack ctx = t # ps" and ps: "\<forall>q\<in>set ps. \<not> cd_isTop q"
    using assms(1) unfolding ctx_wf_def by (auto elim: stack_okE)
  have c: "cache_ok (ctx_loader ctx) (ctx_cache ctx)" using assms(1) by (simp add: ctx_wf_def)
  let ?s = "t\<lparr>cd_isTop := False\<rparr> # ps"
  have ns: "\<forall>q\<in>set ?s. \<not> cd_isTop q" using ps by simp
  have v: "account_view l ?s a = account_view l (t # ps) a" "name_view l ?s n = name_view l (t # ps) n"
    "utxo_view l ?s i = utxo_view l (t # ps) i" for l by simp_all
  show "ld_Account ld a = account_view (ctx_loader ctx) (ctx_stack ctx) a"
    using parents_Account[OF c ns, of a] unfolding v s
    by (auto simp: ld_def ctx_as_loader_def ctx_Account_def ctx_read_def ctx_dirty_def ctx_setTop_def s
        simp del: ctd_Account.simps account_view.simps)
  show "ld_AddressByName ld n = name_view (ctx_loader ctx) (ctx_stack ctx) n"
    using parents_AddressByName[OF c ns, of n] unfolding v s
    by (auto simp: ld_def ctx_as_loader_def ctx_AddressByName_def ctx_read_def ctx_setTop_def s
        simp del: ctd_AddressByName.simps name_view.simps)
  show "ld_UTXO ld i = utxo_view (ctx_loader ctx) (ctx_stack ctx) i"
    using parents_UTXO[OF c ns, of i] unfolding v s
    by (auto simp: ld_def ctx_as_loader_def ctx_UTXO_def ctx_read_def ctx_setTop_def s
        simp del: ctd_UTXO.simps utxo_view.simps)
qed

text \<open>
  C36: the context of the next block starts from the state of the previous one: it is well formed, every
  data cell, every name and every output reads as in the finished context, every account reads as the clone of what the
  finished context returns, and it targets the next height with the given hash and timestamp.
\<close>

theorem next_context_reads:
  assumes "ctx_wf ctx" and "key_ok k"
  shows "ctx_wf (ctx_NextContext h ts ctx) \<and>
    fst (ctx_get k (ctx_NextContext h ts ctx)) = fst (ctx_get k ctx) \<and>
    fst (ctx_Account a (ctx_NextContext h ts ctx)) = map_sum id acc_Clone (fst (ctx_Account a ctx)) \<and>
    fst (ctx_AddressByName n (ctx_NextContext h ts ctx)) = fst (ctx_AddressByName n ctx) \<and>
    fst (ctx_UTXO i (ctx_NextContext h ts ctx)) = fst (ctx_UTXO i ctx) \<and>
    ctx_TargetHeight (ctx_NextContext h ts ctx) = ctx_TargetHeight ctx + 1 \<and>
    ctx_genLastHash (ctx_NextContext h ts ctx) = h \<and> ctx_genTimestamp (ctx_NextContext h ts ctx) = ts"
proof -
  let ?n = "ctx_NextContext h ts ctx" and ?ld = "ctx_as_loader (ctx_setTop (\<lambda>t. t\<lparr>cd_isTop := False\<rparr>) ctx)"
  have wf: "ctx_wf ?n" using ctx_wf_NewContext[of ?ld] by (simp add: ctx_NextContext_def ctx_wf_def)
  have st: "ctx_stack ?n = [NewContextData []]" "ctx_loader ?n = ?ld" by (simp_all add: ctx_NextContext_def NewContext_def)
  have "ctx_view ?n k = dk_base ?ld k"
    by (cases k) (simp_all add: ctx_view_def st NewContextData_def alayer_def player_def)
  moreover have "account_read ?ld [NewContextData []] a = map_sum id acc_Clone (account_view (ctx_loader ctx) (ctx_stack ctx) a)"
    "name_view ?ld [NewContextData []] n = name_view (ctx_loader ctx) (ctx_stack ctx) n"
    "utxo_view ?ld [NewContextData []] i = utxo_view (ctx_loader ctx) (ctx_stack ctx) i"
    by (simp_all add: NewContextData_def next_loader_others[OF assms(1)])
  ultimately show ?thesis
    using wf next_loader_view[OF assms] kv.get_view[OF wf assms(2)] kv.get_view[OF assms]
      ctx_Account_read[OF wf] ctx_Account_read[OF assms(1)] ctx_AddressByName_view(2)[OF wf] ctx_AddressByName_view(2)[OF assms(1)]
      ctx_UTXO_view(2)[OF wf] ctx_UTXO_view(2)[OF assms(1)]
    by (simp add: st account_read_Clone) (simp add: ctx_NextContext_def NewContext_def ctx_TargetHeight_def)
qed

theorem next_context_reads_witness:
  "fst (ctx_get (PData 1 [2]) (ctx_NextContext EmptyHash 7 (ctx_set (PData 1 [2]) [3] NewEmptyContext))) = [3]"
proof -
  have wf: "ctx_wf (ctx_set (PData 1 [2]) [3] NewEmptyContext)"
    unfolding NewEmptyContext_def by (rule ctx_set_wf(1)[OF ctx_wf_NewContext])
  have "fst (ctx_get (PData 1 [2]) (ctx_set (PData 1 [2]) [3] NewEmptyContext)) = [3]"
    using kv.get_after_put[OF ctx_wf_NewContext, of "PData 1 [2]" "PData 1 [2]" "[3]" emptyLoader]
    by (simp add: NewEmptyContext_def)
  with next_context_reads[OF wf, of "PData 1 [2]" EmptyHash 7] show ?thesis by simp
qed

end
