(* ===== verification/Admin.thy ===== *)
theory Admin
  imports Context_Laws
begin

text \<open>
  \<^verbatim>\<open>process/admin\<close>: the address that may send the administrative transactions of each process,
  kept in the process data of the admin process.
\<close>

record admin =
  ad_pid :: u8

definition tagAdminAddress :: bytes where
  "tagAdminAddress = [1, 1]"

definition toAdminAddressKey :: "string \<Rightarrow> bytes" where
  "toAdminAddressKey Name =
     copy_at 2 (go_copy (zeros (2 + length Name)) tagAdminAddress) (str_bytes Name)"

lemma toAdminAddressKey_eq: "toAdminAddressKey Name = [1, 1] @ str_bytes Name"
  by (simp add: toAdminAddressKey_def tagAdminAddress_def copy_at_def go_copy_def numeral_2_eq_2)

lemma toAdminAddressKey_inj [simp]: "toAdminAddressKey a = toAdminAddressKey b \<longleftrightarrow> a = b"
  by (metis toAdminAddressKey_eq append_same_eq same_append_eq bytes_str_bytes)

text \<open>\<^verbatim>\<open>InitAdmin\<close>, for a map from process names to addresses.\<close>

definition InitAdmin :: "admin \<Rightarrow> (string, address) omap \<Rightarrow> (chain_ctx, unit) go_meth" where
  "InitAdmin p addrMap ctx =
     (Inr (), fold (\<lambda>(name, adminAddr). ctx_SetProcessData (ad_pid p) (toAdminAddressKey name) adminAddr)
        (om_each addrMap) ctx)"

text \<open>\<^verbatim>\<open>AdminAddress\<close> panics when no address was set up for the name.\<close>

definition AdminAddress :: "admin \<Rightarrow> string \<Rightarrow> (chain_ctx, address) go_meth" where
  "AdminAddress p name ctx =
     (case ctx_ProcessData (ad_pid p) (toAdminAddressKey name) ctx of
        (bs, ctx) \<Rightarrow>
          if length bs = 0 then (Inl Panic, ctx)
          else (Inr (go_copy (zeros AddressSize) bs), ctx))"

text \<open>The check that opens the administrative transactions.\<close>

definition checkAdmin :: "admin \<Rightarrow> string \<Rightarrow> address \<Rightarrow> (chain_ctx, unit) go_meth" where
  "checkAdmin p name from =
     bindE (AdminAddress p name) (\<lambda>addr. failIf (from \<noteq> addr) (AdminErr ErrUnauthorizedTransaction))"

lemma InitAdmin_view:
  assumes "ctx_wf ctx" and "distinct (map fst xs)"
  shows "let ctx' = fold (\<lambda>(name, a). ctx_SetProcessData pid (toAdminAddressKey name) a) xs ctx
    in ctx_wf ctx' \<and> ctx_view ctx' (PData pid (toAdminAddressKey name)) =
      (case map_of xs name of Some a \<Rightarrow> a | None \<Rightarrow> ctx_view ctx (PData pid (toAdminAddressKey name)))"
  using assms
proof (induction xs arbitrary: ctx)
  case (Cons x xs)
  obtain n a where x: "x = (n, a)" by (cases x)
  let ?c = "ctx_set (PData pid (toAdminAddressKey n)) a ctx"
  have "ctx_wf ?c" using ctx_set_wf(1)[OF Cons.prems(1)] .
  moreover have "ctx_view ?c (PData pid (toAdminAddressKey name)) =
      (if name = n then a else ctx_view ctx (PData pid (toAdminAddressKey name)))"
    by (subst ctx_set_view[OF Cons.prems(1)]) auto
  moreover have "map_of xs n = None" using Cons.prems(2) x by (simp add: map_of_eq_None_iff)
  ultimately show ?case
    using Cons.IH[of ?c] Cons.prems(2) x by (auto simp: Let_def split: option.split)
qed simp

lemma AdminAddress_run:
  assumes "ctx_wf ctx"
  shows "fst (AdminAddress p name ctx) =
      (if ctx_view ctx (PData (ad_pid p) (toAdminAddressKey name)) = [] then Inl Panic
       else Inr (go_copy (zeros AddressSize) (ctx_view ctx (PData (ad_pid p) (toAdminAddressKey name)))))"
    and "kv.steps ctx (snd (AdminAddress p name ctx)) (ctx_view ctx)"
  using kv.steps_get[OF kv.steps_refl[OF assms], of "PData (ad_pid p) (toAdminAddressKey name)"]
  by (auto simp: AdminAddress_def split: prod.splits)

lemma checkAdmin_run:
  assumes "ctx_wf ctx"
  shows "fst (checkAdmin p name from ctx) =
      (if ctx_view ctx (PData (ad_pid p) (toAdminAddressKey name)) = [] then Inl Panic
       else if go_copy (zeros AddressSize) (ctx_view ctx (PData (ad_pid p) (toAdminAddressKey name))) = from
       then Inr () else Inl (AdminErr ErrUnauthorizedTransaction))"
    and "kv.steps ctx (snd (checkAdmin p name from ctx)) (ctx_view ctx)"
  using AdminAddress_run[OF assms, of p name]
  by (auto simp: checkAdmin_def bindE_def failIf_run split: prod.splits sum.splits if_splits)

text \<open>
  C37: after \<^verbatim>\<open>InitAdmin\<close> the administrative check of a process passes for the address that was given for
  its name and for no other, and it panics for a name that was not given.
\<close>

theorem admin_check_exact:
  assumes "ctx_wf ctx" and "om_inv addrMap" and "\<forall>x\<in>set addrMap. is_address (snd x)"
    and "fst (AdminAddress p name ctx) = Inl Panic"
  shows "fst (checkAdmin p name from (snd (InitAdmin p addrMap ctx))) =
    (case om_get addrMap name of
       None \<Rightarrow> Inl Panic
     | Some a \<Rightarrow> if from = a then Inr () else Inl (AdminErr ErrUnauthorizedTransaction))"
proof -
  let ?k = "PData (ad_pid p) (toAdminAddressKey name)"
  have d: "distinct (map fst addrMap)" using om.ascend_distinct[OF assms(2)] by (simp add: om_each_def)
  have e: "ctx_view ctx ?k = []"
    using assms(4) AdminAddress_run(1)[OF assms(1), of p name] by (auto split: if_splits)
  have c: "ctx_wf (snd (InitAdmin p addrMap ctx))"
      "ctx_view (snd (InitAdmin p addrMap ctx)) ?k = (case om_get addrMap name of Some a \<Rightarrow> a | None \<Rightarrow> [])"
    using InitAdmin_view[OF assms(1) d, of "ad_pid p" name] e
    by (auto simp: InitAdmin_def om_each_def om_get_def Let_def split: option.splits)
  have a: "length a = AddressSize" if "om_get addrMap name = Some a" for a
    using that assms(3) by (auto simp: om_get_def is_address_def dest!: map_of_SomeD)
  show ?thesis
    using checkAdmin_run(1)[OF c(1), of p name "from"] c(2) a
    by (auto simp: go_copy_full AddressSize_def split: option.split)
qed

theorem admin_check_exact_witness:
  "fst (checkAdmin \<lparr>ad_pid = 1\<rparr> ''fleta.vault'' (NewAddress 0 1 0)
      (snd (InitAdmin \<lparr>ad_pid = 1\<rparr> [(''fleta.vault'', NewAddress 0 1 0)] NewEmptyContext))) = Inr ()"
proof -
  have "fst (AdminAddress \<lparr>ad_pid = 1\<rparr> ''fleta.vault'' NewEmptyContext) = Inl Panic"
    by code_simp
  moreover have "ctx_wf NewEmptyContext" by (simp add: NewEmptyContext_def ctx_wf_NewContext)
  ultimately show ?thesis
    using admin_check_exact[of NewEmptyContext "[(''fleta.vault'', NewAddress 0 1 0)]" "\<lparr>ad_pid = 1\<rparr>" "''fleta.vault''" "NewAddress 0 1 0"]
    by (simp add: om_inv_def om_get_def)
qed

end
