(* ===== verification/Vault.thy ===== *)
theory Vault
  imports Admin
begin

text \<open>
  \<^verbatim>\<open>process/vault\<close>: balances, locked balances and fees, and the transactions on them. A method that takes
  a \<^verbatim>\<open>ContextWrapper\<close> is a method of the context; switching the wrapper to a process id is passing the
  id to the data operations.

  \<^verbatim>\<open>encoding.Unmarshal\<close> of the policy and base58 decoding are parameters (\<open>decPolicy\<close>, \<open>d\<close>). The
  provider \<^verbatim>\<open>p.cn\<close> is the chain store, of which the vault uses the magic number of new addresses.
\<close>

record vault =
  vt_pid :: u8
  vt_admin :: admin
  vt_magic :: u64

record vault_policy =
  pc_AccountCreationAmount :: amount

definition vault_Name :: string where
  "vault_Name = ''fleta.vault''"

section \<open>Keys\<close>

definition tagBalance :: bytes where "tagBalance = [1, 1]"
definition tagLockedBalance :: bytes where "tagLockedBalance = [2, 1]"
definition tagLockedBalanceNumber :: bytes where "tagLockedBalanceNumber = [2, 2]"
definition tagLockedBalanceReverse :: bytes where "tagLockedBalanceReverse = [2, 3]"
definition tagLockedBalanceCount :: bytes where "tagLockedBalanceCount = [2, 4]"
definition tagLockedBalanceSum :: bytes where "tagLockedBalanceSum = [2, 5]"
definition tagCollectedFee :: bytes where "tagCollectedFee = [3, 1]"
definition tagPolicy :: bytes where "tagPolicy = [4, 0]"
definition tagDefaultFee :: bytes where "tagDefaultFee = [4, 1]"

definition height_addr_key :: "bytes \<Rightarrow> u32 \<Rightarrow> address \<Rightarrow> bytes" where
  "height_addr_key tag height addr =
     copy_at 6 (copy_at 2 (go_copy (zeros (6 + AddressSize)) tag) (BE_Uint32ToBytes height)) addr"

definition toLockedBalanceKey :: "u32 \<Rightarrow> address \<Rightarrow> bytes" where
  "toLockedBalanceKey height addr = height_addr_key tagLockedBalance height addr"

definition toLockedBalanceNumberKey :: "u32 \<Rightarrow> address \<Rightarrow> bytes" where
  "toLockedBalanceNumberKey height addr = height_addr_key tagLockedBalanceNumber height addr"

definition toLockedBalanceReverseKey :: "u32 \<Rightarrow> u32 \<Rightarrow> bytes" where
  "toLockedBalanceReverseKey height num =
     copy_at 6 (copy_at 2 (go_copy (zeros 10) tagLockedBalanceReverse) (BE_Uint32ToBytes height))
       (BE_Uint32ToBytes num)"

definition toLockedBalanceCountKey :: "u32 \<Rightarrow> bytes" where
  "toLockedBalanceCountKey height =
     copy_at 2 (go_copy (zeros 6) tagLockedBalanceCount) (BE_Uint32ToBytes height)"

section \<open>Balances\<close>

text \<open>An amount cell: absent data is zero.\<close>

definition stored_amount :: "bytes \<Rightarrow> amount" where
  "stored_amount bs = (if 0 < length bs then NewAmountFromBytes bs else NewCoinAmount 0 0)"

definition Balance :: "vault \<Rightarrow> address \<Rightarrow> chain_ctx \<Rightarrow> amount \<times> chain_ctx" where
  "Balance p addr ctx =
     (case ctx_AccountData addr (vt_pid p) tagBalance ctx of (bs, ctx) \<Rightarrow> (stored_amount bs, ctx))"

definition AddBalance :: "vault \<Rightarrow> address \<Rightarrow> amount \<Rightarrow> (chain_ctx, unit) go_meth" where
  "AddBalance p addr am =
     thenE (failIf (am_Less am (NewCoinAmount 0 0)) (VaultErr ErrMinusInput))
       (bindE (readE (Balance p addr)) (\<lambda>b.
         writeE (ctx_SetAccountData addr (vt_pid p) tagBalance (am_Bytes (am_Add b am)))))"

definition RemoveBalance :: "vault \<Rightarrow> address \<Rightarrow> (chain_ctx, unit) go_meth" where
  "RemoveBalance p addr = writeE (ctx_SetAccountData addr (vt_pid p) tagBalance [])"

definition SubBalance :: "vault \<Rightarrow> address \<Rightarrow> amount \<Rightarrow> (chain_ctx, unit) go_meth" where
  "SubBalance p addr am =
     bindE (readE (Balance p addr)) (\<lambda>sum.
       thenE (failIf (am_Less sum am) (VaultErr ErrMinusBalance))
         (let sum = am_Sub sum am
          in if am_IsZero sum then RemoveBalance p addr
             else writeE (ctx_SetAccountData addr (vt_pid p) tagBalance (am_Bytes sum))))"

section \<open>Locked balances\<close>

definition LockedBalance :: "vault \<Rightarrow> address \<Rightarrow> u32 \<Rightarrow> chain_ctx \<Rightarrow> amount \<times> chain_ctx" where
  "LockedBalance p addr UnlockedHeight ctx =
     (case ctx_ProcessData (vt_pid p) (toLockedBalanceKey UnlockedHeight addr) ctx of
        (bs, ctx) \<Rightarrow> (stored_amount bs, ctx))"

definition TotalLockedBalanceByAddress :: "vault \<Rightarrow> address \<Rightarrow> chain_ctx \<Rightarrow> amount \<times> chain_ctx" where
  "TotalLockedBalanceByAddress p addr ctx =
     (case ctx_AccountData addr (vt_pid p) tagLockedBalanceSum ctx of (bs, ctx) \<Rightarrow> (stored_amount bs, ctx))"

definition AddLockedBalance :: "vault \<Rightarrow> address \<Rightarrow> u32 \<Rightarrow> amount \<Rightarrow> (chain_ctx, unit) go_meth" where
  "AddLockedBalance p addr UnlockedHeight am =
     thenE (failIf (am_Less am (NewCoinAmount 0 0)) (VaultErr ErrMinusInput))
     (bindE (readE (ctx_ProcessData (vt_pid p) (toLockedBalanceNumberKey UnlockedHeight addr))) (\<lambda>ns.
       thenE
         (if length ns = 0
          then bindE (readE (ctx_ProcessData (vt_pid p) (toLockedBalanceCountKey UnlockedHeight))) (\<lambda>bs.
                 bindE (liftE (if 0 < length bs then orPanic (LE_Uint32 bs) else Inr 0)) (\<lambda>Count.
                   thenE (writeE (ctx_SetProcessData (vt_pid p) (toLockedBalanceNumberKey UnlockedHeight addr)
                            (LE_Uint32ToBytes Count)))
                   (thenE (writeE (ctx_SetProcessData (vt_pid p) (toLockedBalanceReverseKey UnlockedHeight Count) addr))
                   (writeE (ctx_SetProcessData (vt_pid p) (toLockedBalanceCountKey UnlockedHeight)
                      (LE_Uint32ToBytes (Count + 1)))))))
          else returnE ())
         (bindE (readE (LockedBalance p addr UnlockedHeight)) (\<lambda>b.
           thenE (writeE (ctx_SetProcessData (vt_pid p) (toLockedBalanceKey UnlockedHeight addr)
                    (am_Bytes (am_Add b am))))
             (bindE (readE (TotalLockedBalanceByAddress p addr)) (\<lambda>t.
               writeE (ctx_SetAccountData addr (vt_pid p) tagLockedBalanceSum (am_Bytes (am_Add t am)))))))))"

text \<open>
  The loop of \<^verbatim>\<open>flushLockedBalanceMap\<close> over \<^verbatim>\<open>i < Count\<close>; \<open>n\<close> counts the remaining rounds. The result
  is a Go map, whose later iteration order is arbitrary; the map is kept as an ordered map.
\<close>

fun flush_loop ::
  "vault \<Rightarrow> u32 \<Rightarrow> nat \<Rightarrow> u32 \<Rightarrow> (address, amount) omap \<Rightarrow> chain_ctx \<Rightarrow> (address, amount) omap \<times> chain_ctx" where
  "flush_loop p h 0 i m ctx = (m, ctx)"
| "flush_loop p h (Suc n) i m ctx =
     (case ctx_ProcessData (vt_pid p) (toLockedBalanceReverseKey h i) ctx of (bs, ctx) \<Rightarrow>
        let addr = go_copy (zeros AddressSize) bs
        in case LockedBalance p addr h ctx of (b, ctx) \<Rightarrow>
             let m = om_put addr b m;
                 ctx = ctx_SetProcessData (vt_pid p) (toLockedBalanceKey h addr) [] ctx;
                 ctx = ctx_SetProcessData (vt_pid p) (toLockedBalanceNumberKey h addr) [] ctx;
                 ctx = ctx_SetProcessData (vt_pid p) (toLockedBalanceReverseKey h i) [] ctx
             in flush_loop p h n (i + 1) m ctx)"

definition flushLockedBalanceMap :: "vault \<Rightarrow> u32 \<Rightarrow> (chain_ctx, (address, amount) omap) go_meth" where
  "flushLockedBalanceMap p UnlockedHeight =
     bindE (readE (ctx_ProcessData (vt_pid p) (toLockedBalanceCountKey UnlockedHeight))) (\<lambda>bs.
       if 0 < length bs
       then bindE (liftE (orPanic (LE_Uint32 bs))) (\<lambda>Count.
              bindE (readE (flush_loop p UnlockedHeight (unat Count) 0 [])) (\<lambda>m.
                thenE (writeE (ctx_SetProcessData (vt_pid p) (toLockedBalanceCountKey UnlockedHeight) []))
                  (returnE m)))
       else returnE [])"

text \<open>
  The body of the loop of \<^verbatim>\<open>AfterExecuteTransactions\<close> over the flushed map, and the whole hook. The loop
  stops at the first error.
\<close>

definition unlock_balance :: "vault \<Rightarrow> address \<Rightarrow> amount \<Rightarrow> (chain_ctx, unit) go_meth" where
  "unlock_balance p addr am ctx =
     (case ctx_HasAccount addr ctx of
        (Inl e, ctx) \<Rightarrow>
          if e = TypesErr ErrDeletedAccount
          then (Inr (), ctx_SetAccountData addr (vt_pid p) tagLockedBalanceSum [] ctx)
          else (Inl e, ctx)
      | (Inr has, ctx) \<Rightarrow>
          if \<not> has then (Inr (), ctx_SetAccountData addr (vt_pid p) tagLockedBalanceSum [] ctx)
          else
            thenE (AddBalance p addr am)
              (bindE (readE (TotalLockedBalanceByAddress p addr)) (\<lambda>t.
                 let sum = am_Sub t am
                 in if \<not> am_IsZero sum
                    then writeE (ctx_SetAccountData addr (vt_pid p) tagLockedBalanceSum (am_Bytes sum))
                    else writeE (ctx_SetAccountData addr (vt_pid p) tagLockedBalanceSum []))) ctx)"

definition vault_AfterExecuteTransactions :: "vault \<Rightarrow> u32 \<Rightarrow> (chain_ctx, unit) go_meth" where
  "vault_AfterExecuteTransactions p height =
     bindE (flushLockedBalanceMap p height) (\<lambda>m. foreachE (\<lambda>(addr, am). unlock_balance p addr am) (om_each m))"

section \<open>Fees\<close>

definition CollectedFee :: "vault \<Rightarrow> chain_ctx \<Rightarrow> amount \<times> chain_ctx" where
  "CollectedFee p ctx =
     (case ctx_ProcessData (vt_pid p) tagCollectedFee ctx of (bs, ctx) \<Rightarrow> (stored_amount bs, ctx))"

definition AddCollectedFee :: "vault \<Rightarrow> amount \<Rightarrow> (chain_ctx, unit) go_meth" where
  "AddCollectedFee p am =
     thenE (failIf (am_Less am (NewCoinAmount 0 0)) (VaultErr ErrMinusInput))
       (bindE (readE (CollectedFee p)) (\<lambda>c.
         writeE (ctx_SetProcessData (vt_pid p) tagCollectedFee (am_Bytes (am_Add c am)))))"

definition SubCollectedFee :: "vault \<Rightarrow> amount \<Rightarrow> (chain_ctx, unit) go_meth" where
  "SubCollectedFee p am =
     bindE (readE (CollectedFee p)) (\<lambda>total.
       thenE (failIf (am_Less total am) (VaultErr ErrMinusCollectedFee))
         (let total = am_Sub total am
          in if am_IsZero total then writeE (ctx_SetProcessData (vt_pid p) tagCollectedFee [])
             else writeE (ctx_SetProcessData (vt_pid p) tagCollectedFee (am_Bytes total))))"

definition GetDefaultFee :: "vault \<Rightarrow> chain_ctx \<Rightarrow> amount \<times> chain_ctx" where
  "GetDefaultFee p ctx =
     (case ctx_ProcessData (vt_pid p) tagDefaultFee ctx of (bs, ctx) \<Rightarrow>
        (if length bs = 0 then the (am_DivC COIN 10) else NewAmountFromBytes bs, ctx))"

text \<open>The fee of a transaction is a reader of the state; every transaction of the processes uses
  \<^verbatim>\<open>GetDefaultFee\<close>. A nil amount of \<^verbatim>\<open>CheckFeePayableWith\<close> is \<open>None\<close>.\<close>

definition CheckFeePayableWith ::
  "vault \<Rightarrow> address \<Rightarrow> (chain_ctx \<Rightarrow> amount \<times> chain_ctx) \<Rightarrow> amount option \<Rightarrow> (chain_ctx, unit) go_meth" where
  "CheckFeePayableWith p From Fee am =
     bindE (ctx_HasAccount From) (\<lambda>has.
       thenE (failIf (\<not> has) (TypesErr ErrNotExistAccount))
         (bindE (readE Fee) (\<lambda>fee.
           let am = (case am of Some a \<Rightarrow> am_Add a fee | None \<Rightarrow> fee)
           in bindE (readE (Balance p From)) (\<lambda>b. failIf (am_Less b am) (VaultErr ErrInsufficientFee)))))"

definition CheckFeePayable ::
  "vault \<Rightarrow> address \<Rightarrow> (chain_ctx \<Rightarrow> amount \<times> chain_ctx) \<Rightarrow> (chain_ctx, unit) go_meth" where
  "CheckFeePayable p From Fee = CheckFeePayableWith p From Fee None"

text \<open>Run a function in a snapshot: revert it and return the error, or commit it.\<close>

definition in_snapshot :: "(chain_ctx, unit) go_meth \<Rightarrow> (chain_ctx, unit) go_meth" where
  "in_snapshot fn ctx =
     (case ctx_Snapshot ctx of (sn, ctx) \<Rightarrow>
        (case fn ctx of
           (Inl e, ctx) \<Rightarrow> (case ctx_Revert sn ctx of (Inl e', ctx) \<Rightarrow> (Inl e', ctx) | (Inr _, ctx) \<Rightarrow> (Inl e, ctx))
         | (Inr _, ctx) \<Rightarrow> ctx_Commit sn ctx))"

definition WithFee ::
  "vault \<Rightarrow> address \<Rightarrow> (chain_ctx \<Rightarrow> amount \<times> chain_ctx) \<Rightarrow> (chain_ctx, unit) go_meth \<Rightarrow> (chain_ctx, unit) go_meth" where
  "WithFee p From Fee fn =
     bindE (readE Fee) (\<lambda>fee.
       thenE (SubBalance p From fee)
         (bindE (readE (CollectedFee p)) (\<lambda>c.
           thenE (writeE (ctx_SetProcessData (vt_pid p) tagCollectedFee (am_Bytes (am_Add c fee))))
             (in_snapshot fn))))"

end
