(* ===== verification/Wire.thy ===== *)
theory Wire
  imports Binutil Ordered_Map Errors
begin

text \<open>
  The serialised form of values. The repository writes and reads it with a msgpack library that is not part of
  it, so the primitive encoders and decoders are the fields of a record and the model takes such a record as a
  parameter. What the repository relies on is \<open>msgpack_ok\<close>: a decoder reads back what the encoder of the
  same kind wrote and leaves the rest of the input. The theory also holds the codec shared by the ordered maps.
\<close>

section \<open>The msgpack library\<close>

text \<open>A decoder consumes a prefix of the remaining input.\<close>

type_synonym 'a decoder = "(bytes, 'a) go_meth"

record msgpack =
  mp_EncodeUint8 :: "u8 \<Rightarrow> bytes"
  mp_EncodeUint16 :: "u16 \<Rightarrow> bytes"
  mp_EncodeUint32 :: "u32 \<Rightarrow> bytes"
  mp_EncodeUint64 :: "u64 \<Rightarrow> bytes"
  mp_EncodeBool :: "bool \<Rightarrow> bytes"
  mp_EncodeArrayLen :: "int \<Rightarrow> bytes"
  mp_EncodeBytes :: "bytes \<Rightarrow> bytes"
  mp_EncodeString :: "string \<Rightarrow> bytes"
  mp_DecodeUint8 :: "u8 decoder"
  mp_DecodeUint16 :: "u16 decoder"
  mp_DecodeUint32 :: "u32 decoder"
  mp_DecodeUint64 :: "u64 decoder"
  mp_DecodeBool :: "bool decoder"
  mp_DecodeArrayLen :: "int decoder"
  mp_DecodeBytes :: "bytes decoder"
  mp_DecodeString :: "string decoder"

text \<open>An encoder and a decoder fit together on the values \<open>good\<close>.\<close>

definition codec :: "('a \<Rightarrow> bytes) \<Rightarrow> 'a decoder \<Rightarrow> ('a \<Rightarrow> bool) \<Rightarrow> bool" where
  "codec enc dec good \<longleftrightarrow> (\<forall>x rest. good x \<longrightarrow> dec (enc x @ rest) = (Inr x, rest))"

text \<open>Lengths of arrays, byte strings and strings have 32 bits on the wire.\<close>

definition short :: "'a list \<Rightarrow> bool" where
  "short xs \<longleftrightarrow> length xs < 2 ^ 32"

definition msgpack_ok :: "msgpack \<Rightarrow> bool" where
  "msgpack_ok mp \<longleftrightarrow>
     codec (mp_EncodeUint8 mp) (mp_DecodeUint8 mp) (\<lambda>_. True) \<and>
     codec (mp_EncodeUint16 mp) (mp_DecodeUint16 mp) (\<lambda>_. True) \<and>
     codec (mp_EncodeUint32 mp) (mp_DecodeUint32 mp) (\<lambda>_. True) \<and>
     codec (mp_EncodeUint64 mp) (mp_DecodeUint64 mp) (\<lambda>_. True) \<and>
     codec (mp_EncodeBool mp) (mp_DecodeBool mp) (\<lambda>_. True) \<and>
     codec (mp_EncodeArrayLen mp) (mp_DecodeArrayLen mp) (\<lambda>n. 0 \<le> n \<and> n < 2 ^ 32) \<and>
     codec (mp_EncodeBytes mp) (mp_DecodeBytes mp) short \<and>
     codec (mp_EncodeString mp) (mp_DecodeString mp) short"

lemma codecD: "codec enc dec good \<Longrightarrow> good x \<Longrightarrow> dec (enc x @ rest) = (Inr x, rest)"
  by (simp add: codec_def)

lemma codec_weaken: "codec enc dec good \<Longrightarrow> (\<And>x. good' x \<Longrightarrow> good x) \<Longrightarrow> codec enc dec good'"
  by (simp add: codec_def)

named_theorems wire_codecs

lemma msgpack_codecs [wire_codecs]:
  assumes "msgpack_ok mp"
  shows "codec (mp_EncodeUint8 mp) (mp_DecodeUint8 mp) (\<lambda>_. True)"
    and "codec (mp_EncodeUint16 mp) (mp_DecodeUint16 mp) (\<lambda>_. True)"
    and "codec (mp_EncodeUint32 mp) (mp_DecodeUint32 mp) (\<lambda>_. True)"
    and "codec (mp_EncodeUint64 mp) (mp_DecodeUint64 mp) (\<lambda>_. True)"
    and "codec (mp_EncodeBool mp) (mp_DecodeBool mp) (\<lambda>_. True)"
    and "codec (mp_EncodeArrayLen mp) (mp_DecodeArrayLen mp) (\<lambda>n. 0 \<le> n \<and> n < 2 ^ 32)"
    and "codec (mp_EncodeBytes mp) (mp_DecodeBytes mp) short"
    and "codec (mp_EncodeString mp) (mp_DecodeString mp) short"
  using assms by (simp_all add: msgpack_ok_def)

lemma msgpack_reads [run_simps]:
  assumes "msgpack_ok mp"
  shows "mp_DecodeUint8 mp (mp_EncodeUint8 mp a @ rest) = (Inr a, rest)"
    and "mp_DecodeUint16 mp (mp_EncodeUint16 mp b @ rest) = (Inr b, rest)"
    and "mp_DecodeUint32 mp (mp_EncodeUint32 mp c @ rest) = (Inr c, rest)"
    and "mp_DecodeUint64 mp (mp_EncodeUint64 mp d @ rest) = (Inr d, rest)"
    and "mp_DecodeBool mp (mp_EncodeBool mp e @ rest) = (Inr e, rest)"
    and "length xs < 2 ^ 32 \<Longrightarrow> mp_DecodeArrayLen mp (mp_EncodeArrayLen mp (int (length xs)) @ rest) = (Inr (int (length xs)), rest)"
    and "short f \<Longrightarrow> mp_DecodeBytes mp (mp_EncodeBytes mp f @ rest) = (Inr f, rest)"
    and "short g \<Longrightarrow> mp_DecodeString mp (mp_EncodeString mp g @ rest) = (Inr g, rest)"
  using msgpack_codecs[OF assms] by (simp_all add: codecD)

section \<open>Fixed arrays, sequences and maps\<close>

text \<open>\<^verbatim>\<open>bs, err := dec.DecodeBytes(); copy(item[:], bs)\<close> for an array of \<open>n\<close> bytes.\<close>

definition decode_array :: "msgpack \<Rightarrow> nat \<Rightarrow> bytes decoder" where
  "decode_array mp n = bindE (mp_DecodeBytes mp) (\<lambda>bs. returnE (go_copy (zeros n) bs))"

lemma codec_array [wire_codecs]:
  "msgpack_ok mp \<Longrightarrow> n < 2 ^ 32 \<Longrightarrow> codec (mp_EncodeBytes mp) (decode_array mp n) (\<lambda>bs. length bs = n)"
  by (simp add: codec_def decode_array_def bindE_def returnE_def msgpack_reads short_def go_copy_full)

text \<open>A counted loop of decoders.\<close>

fun decode_times :: "nat \<Rightarrow> 'a decoder \<Rightarrow> 'a list decoder" where
  "decode_times 0 dec = returnE []"
| "decode_times (Suc n) dec = bindE dec (\<lambda>x. bindE (decode_times n dec) (\<lambda>xs. returnE (x # xs)))"

definition encode_seq :: "msgpack \<Rightarrow> ('a \<Rightarrow> bytes) \<Rightarrow> 'a list \<Rightarrow> bytes" where
  "encode_seq mp enc xs = mp_EncodeArrayLen mp (int (length xs)) @ concat (map enc xs)"

definition decode_seq :: "msgpack \<Rightarrow> 'a decoder \<Rightarrow> 'a list decoder" where
  "decode_seq mp dec = bindE (mp_DecodeArrayLen mp) (\<lambda>Len. decode_times (nat Len) dec)"

lemma codec_times:
  assumes "codec enc dec good" and "\<forall>x\<in>set xs. good x"
  shows "decode_times (length xs) dec (concat (map enc xs) @ rest) = (Inr xs, rest)"
  using assms(2)
  by (induction xs) (simp_all add: returnE_def bindE_def codecD[OF assms(1)])

lemma codec_seq [wire_codecs]:
  assumes "msgpack_ok mp" and "codec enc dec good"
  shows "codec (encode_seq mp enc) (decode_seq mp dec) (\<lambda>xs. short xs \<and> (\<forall>x\<in>set xs. good x))"
  unfolding codec_def
proof (intro allI impI)
  fix xs rest assume g: "short xs \<and> (\<forall>x\<in>set xs. good x)"
  then have "length xs < 2 ^ 32" by (simp add: short_def)
  then show "decode_seq mp dec (encode_seq mp enc xs @ rest) = (Inr xs, rest)"
    using g codec_times[OF assms(2), of xs] msgpack_reads(6)[OF assms(1), of xs]
    by (simp add: decode_seq_def encode_seq_def bindE_def)
qed

text \<open>
  The codec every ordered map of \<^verbatim>\<open>core/types\<close> registers: the number of entries, then each key and value in
  ascending order; reading puts the entries into a new map.
\<close>

definition map_encode :: "msgpack \<Rightarrow> ('k \<Rightarrow> bytes) \<Rightarrow> ('v \<Rightarrow> bytes) \<Rightarrow> ('k, 'v) omap \<Rightarrow> bytes" where
  "map_encode mp encK encV m =
     mp_EncodeArrayLen mp (int (om_len m)) @ concat (map (\<lambda>(k, v). encK k @ encV v) (om_each m))"

fun map_decode_loop :: "'k decoder \<Rightarrow> 'v decoder \<Rightarrow> nat \<Rightarrow> ('k::linorder, 'v) omap \<Rightarrow> ('k, 'v) omap decoder" where
  "map_decode_loop decK decV 0 m = returnE m"
| "map_decode_loop decK decV (Suc n) m =
     bindE decK (\<lambda>k. bindE decV (\<lambda>v. map_decode_loop decK decV n (om_put k v m)))"

definition map_decode :: "msgpack \<Rightarrow> 'k decoder \<Rightarrow> 'v decoder \<Rightarrow> ('k::linorder, 'v) omap decoder" where
  "map_decode mp decK decV = bindE (mp_DecodeArrayLen mp) (\<lambda>Len. map_decode_loop decK decV (nat Len) [])"

definition map_good :: "('k \<Rightarrow> bool) \<Rightarrow> ('v \<Rightarrow> bool) \<Rightarrow> ('k::linorder, 'v) omap \<Rightarrow> bool" where
  "map_good goodK goodV m \<longleftrightarrow> om_inv m \<and> short m \<and> (\<forall>(k, v)\<in>set m. goodK k \<and> goodV v)"

lemma om_put_last: "\<forall>a\<in>fst ` set m. a < k \<Longrightarrow> om_put k v m = m @ [(k, v)]"
  by (induction k v m rule: om_put.induct) auto

lemma map_decode_loop_reads:
  assumes "codec encK decK goodK" and "codec encV decV goodV"
    and "om_inv (m @ xs)" and "\<forall>(k, v)\<in>set xs. goodK k \<and> goodV v"
  shows "map_decode_loop decK decV (length xs) m (concat (map (\<lambda>(k, v). encK k @ encV v) xs) @ rest) = (Inr (m @ xs), rest)"
  using assms(3,4)
proof (induction xs arbitrary: m)
  case (Cons x xs)
  obtain k v where x: "x = (k, v)" by (cases x)
  have put: "om_put k v m = m @ [(k, v)]"
    using Cons.prems(1) by (intro om_put_last) (auto simp: om_inv_def sorted_wrt_append x)
  show ?case
    using Cons.IH[of "m @ [(k, v)]"] Cons.prems put codecD[OF assms(1), of k] codecD[OF assms(2), of v]
    by (simp add: x bindE_def)
qed (simp add: returnE_def)

lemma codec_map [wire_codecs]:
  assumes "msgpack_ok mp" and "codec encK decK goodK" and "codec encV decV goodV"
  shows "codec (map_encode mp encK encV) (map_decode mp decK decV) (map_good goodK goodV)"
  unfolding codec_def
proof (intro allI impI)
  fix m rest assume g: "map_good goodK goodV m"
  then have "length m < 2 ^ 32" by (simp add: map_good_def short_def)
  then show "map_decode mp decK decV (map_encode mp encK encV m @ rest) = (Inr m, rest)"
    using g map_decode_loop_reads[OF assms(2,3), of "[]" m] msgpack_reads(6)[OF assms(1), of m]
    by (simp add: map_decode_def map_encode_def bindE_def om_len_def om_each_def map_good_def)
qed

section \<open>A library for examples\<close>

text \<open>Fixed width integers in little endian order; byte strings and strings behind their length.\<close>

definition fixed :: "nat \<Rightarrow> (bytes \<Rightarrow> 'a option) \<Rightarrow> 'a decoder" where
  "fixed n f bs = (if length bs < n then (Inl (ExternalErr 0), bs) else (orPanic (f (take n bs)), drop n bs))"

definition plain_bytes :: "bytes \<Rightarrow> bytes" where
  "plain_bytes bs = LE_Uint32ToBytes (of_nat (length bs)) @ bs"

definition plain_unbytes :: "bytes decoder" where
  "plain_unbytes = bindE (fixed 4 LE_Uint32) (\<lambda>n. fixed (unat n) Some)"

definition plain_msgpack :: msgpack where
  "plain_msgpack = \<lparr>
     mp_EncodeUint8 = (\<lambda>v. [v]), mp_EncodeUint16 = LE_Uint16ToBytes, mp_EncodeUint32 = LE_Uint32ToBytes,
     mp_EncodeUint64 = LE_Uint64ToBytes, mp_EncodeBool = (\<lambda>b. [if b then 1 else 0]),
     mp_EncodeArrayLen = (\<lambda>n. LE_Uint32ToBytes (of_int n)), mp_EncodeBytes = plain_bytes,
     mp_EncodeString = (\<lambda>s. plain_bytes (str_bytes s)),
     mp_DecodeUint8 = fixed 1 (\<lambda>bs. Some (hd bs)), mp_DecodeUint16 = fixed 2 LE_Uint16,
     mp_DecodeUint32 = fixed 4 LE_Uint32, mp_DecodeUint64 = fixed 8 LE_Uint64,
     mp_DecodeBool = fixed 1 (\<lambda>bs. Some (hd bs = 1)),
     mp_DecodeArrayLen = bindE (fixed 4 LE_Uint32) (\<lambda>n. returnE (uint n)),
     mp_DecodeBytes = plain_unbytes,
     mp_DecodeString = bindE plain_unbytes (\<lambda>bs. returnE (bytes_str bs))\<rparr>"

lemma fixed_append: "length xs = n \<Longrightarrow> f xs = Some v \<Longrightarrow> fixed n f (xs @ rest) = (Inr v, rest)"
  by (simp add: fixed_def)

lemma plain_unbytes_append: "short bs \<Longrightarrow> plain_unbytes (plain_bytes bs @ rest) = (Inr bs, rest)"
  by (simp add: plain_unbytes_def plain_bytes_def bindE_def fixed_append short_def unat_of_nat)

lemma plain_msgpack_ok: "msgpack_ok plain_msgpack"
proof -
  have "uint (of_int n :: u32) = n" if "0 \<le> n \<and> n < 2 ^ 32" for n
    using that by (simp add: uint_word_of_int)
  then show ?thesis
    unfolding msgpack_ok_def codec_def
    by (simp add: plain_msgpack_def fixed_append plain_unbytes_append bindE_def returnE_def)
      (auto simp: fixed_def plain_unbytes_append short_def)
qed

end
