(* ===== verification/Vault_Tx.thy ===== *)
theory Vault_Tx
  imports Vault Wire
begin

text \<open>
  The transactions of \<^verbatim>\<open>process/vault\<close>: \<^verbatim>\<open>Validate\<close> and \<^verbatim>\<open>Execute\<close> of each. The loader a transaction is
  validated on is a context, so validation is a method of the context as well: it only reads, but a
  read may copy a value into the top snapshot.
\<close>

record transfer =
  tf_Timestamp :: u64
  tf_From :: address
  tf_To :: address
  tf_Amount :: amount

record burn =
  bu_Timestamp :: u64
  bu_From :: address
  bu_Amount :: amount

record transfer_with_tag =
  tt_Timestamp :: u64
  tt_From :: address
  tt_To :: address
  tt_Amount :: amount
  tt_Tag :: string

record create_account =
  ca_Timestamp :: u64
  ca_From :: address
  ca_Name :: string
  ca_KeyHash :: pubhash

record create_multi_account =
  cm_Timestamp :: u64
  cm_From :: address
  cm_Name :: string
  cm_Requried :: u8
  cm_KeyHashes :: "pubhash list"

record issue_account =
  ia_Timestamp :: u64
  ia_From :: address
  ia_Name :: string
  ia_KeyHash :: pubhash

record update_policy =
  up_Timestamp :: u64
  up_From :: address
  up_Policy :: "vault_policy option"

record update_default_fee =
  uf_Timestamp :: u64
  uf_From :: address
  uf_DefaultFee :: "amount option"

section \<open>Shared steps\<close>

text \<open>\<^verbatim>\<open>fromAcc, err := loader.Account(tx.From()); ...; fromAcc.Validate(loader, signers)\<close>.\<close>

definition validateFrom :: "address \<Rightarrow> pubhash list \<Rightarrow> (chain_ctx, unit) go_meth" where
  "validateFrom From signers = bindE (ctx_Account From) (\<lambda>acc. liftE (acc_Validate acc signers))"

text \<open>\<^verbatim>\<open>if tx.Amount.Less(amount.COIN.DivC(10)) { return types.ErrDustAmount }\<close>.\<close>

definition checkDust :: "amount \<Rightarrow> (chain_ctx, unit) go_meth" where
  "checkDust am =
     bindE (liftE (orPanic (am_DivC COIN 10))) (\<lambda>dust. failIf (am_Less am dust) (TypesErr ErrDustAmount))"

definition checkAccountExists :: "address \<Rightarrow> (chain_ctx, unit) go_meth" where
  "checkAccountExists addr =
     bindE (ctx_HasAccount addr) (\<lambda>has. failIf (\<not> has) (TypesErr ErrNotExistAccount))"

definition checkNameFree :: "string \<Rightarrow> (chain_ctx, unit) go_meth" where
  "checkNameFree nm =
     bindE (ctx_HasAccountName nm) (\<lambda>has. failIf has (TypesErr ErrExistAccountName))"

definition transferAmount :: "vault \<Rightarrow> address \<Rightarrow> address \<Rightarrow> amount \<Rightarrow> (chain_ctx, unit) go_meth" where
  "transferAmount p From To am = thenE (SubBalance p From am) (AddBalance p To am)"

section \<open>Transfer\<close>

definition Transfer_Validate :: "vault \<Rightarrow> transfer \<Rightarrow> pubhash list \<Rightarrow> (chain_ctx, unit) go_meth" where
  "Transfer_Validate p tx signers =
     thenE (checkDust (tf_Amount tx))
     (thenE (checkAccountExists (tf_To tx))
     (thenE (validateFrom (tf_From tx) signers)
     (CheckFeePayableWith p (tf_From tx) (GetDefaultFee p) (Some (tf_Amount tx)))))"

definition Transfer_Execute :: "vault \<Rightarrow> transfer \<Rightarrow> u16 \<Rightarrow> (chain_ctx, unit) go_meth" where
  "Transfer_Execute p tx index =
     WithFee p (tf_From tx) (GetDefaultFee p) (transferAmount p (tf_From tx) (tf_To tx) (tf_Amount tx))"

text \<open>
  The registered codec of \<^verbatim>\<open>Transfer\<close>: what it hands to and takes from the msgpack encoder. Only the
  first six bytes of the two addresses are written.
\<close>

definition transfer_encode :: "msgpack \<Rightarrow> transfer \<Rightarrow> bytes" where
  "transfer_encode mp tx =
     mp_EncodeUint64 mp (tf_Timestamp tx) @ mp_EncodeBytes mp (slice 0 6 (tf_From tx)) @
     mp_EncodeBytes mp (slice 0 6 (tf_To tx)) @ mp_EncodeBytes mp (am_Bytes (tf_Amount tx))"

definition transfer_decode :: "msgpack \<Rightarrow> transfer decoder" where
  "transfer_decode mp =
     bindE (mp_DecodeUint64 mp) (\<lambda>ts. bindE (decode_array mp AddressSize) (\<lambda>fr.
       bindE (decode_array mp AddressSize) (\<lambda>t. bindE (mp_DecodeBytes mp) (\<lambda>am.
         returnE \<lparr>tf_Timestamp = ts, tf_From = fr, tf_To = t, tf_Amount = NewAmountFromBytes am\<rparr>))))"

section \<open>Burn and TransferWithTag\<close>

definition Burn_Validate :: "vault \<Rightarrow> burn \<Rightarrow> pubhash list \<Rightarrow> (chain_ctx, unit) go_meth" where
  "Burn_Validate p tx signers =
     thenE (validateFrom (bu_From tx) signers)
       (CheckFeePayableWith p (bu_From tx) (GetDefaultFee p) (Some (bu_Amount tx)))"

definition Burn_Execute :: "vault \<Rightarrow> burn \<Rightarrow> u16 \<Rightarrow> (chain_ctx, unit) go_meth" where
  "Burn_Execute p tx index =
     WithFee p (bu_From tx) (GetDefaultFee p) (SubBalance p (bu_From tx) (bu_Amount tx))"

definition TransferWithTag_Validate :: "vault \<Rightarrow> transfer_with_tag \<Rightarrow> pubhash list \<Rightarrow> (chain_ctx, unit) go_meth" where
  "TransferWithTag_Validate p tx signers =
     thenE (failIf (32 < length (tt_Tag tx)) (VaultErr ErrInvalidTagSize))
     (thenE (checkDust (tt_Amount tx))
     (thenE (checkAccountExists (tt_To tx))
     (thenE (validateFrom (tt_From tx) signers)
     (CheckFeePayableWith p (tt_From tx) (GetDefaultFee p) (Some (tt_Amount tx))))))"

definition TransferWithTag_Execute :: "vault \<Rightarrow> transfer_with_tag \<Rightarrow> u16 \<Rightarrow> (chain_ctx, unit) go_meth" where
  "TransferWithTag_Execute p tx index =
     WithFee p (tt_From tx) (GetDefaultFee p) (transferAmount p (tt_From tx) (tt_To tx) (tt_Amount tx))"

section \<open>CreateAccount\<close>

type_synonym policy_decoder = "bytes \<Rightarrow> err + vault_policy"

definition CreateAccount_Validate ::
  "policy_decoder \<Rightarrow> (string \<Rightarrow> bytes option) \<Rightarrow> vault \<Rightarrow> create_account \<Rightarrow> pubhash list \<Rightarrow> (chain_ctx, unit) go_meth" where
  "CreateAccount_Validate decPolicy d p tx signers =
     thenE (failIf (\<not> IsAllowedAccountName d (ca_Name tx)) (TypesErr ErrInvalidAccountName))
     (thenE (checkNameFree (ca_Name tx))
     (thenE (validateFrom (ca_From tx) signers)
     (bindE (readE (ctx_ProcessData (vt_pid p) tagPolicy)) (\<lambda>bs.
       bindE (liftE (decPolicy bs)) (\<lambda>policy.
         CheckFeePayableWith p (ca_From tx) (GetDefaultFee p) (Some (pc_AccountCreationAmount policy)))))))"

definition CreateAccount_Execute ::
  "policy_decoder \<Rightarrow> (string \<Rightarrow> bytes option) \<Rightarrow> vault \<Rightarrow> create_account \<Rightarrow> u16 \<Rightarrow> (chain_ctx, unit) go_meth" where
  "CreateAccount_Execute decPolicy d p tx index =
     WithFee p (ca_From tx) (GetDefaultFee p)
       (bindE (readE (ctx_ProcessData (vt_pid p) tagPolicy)) (\<lambda>bs.
         bindE (liftE (decPolicy bs)) (\<lambda>policy.
           thenE (SubBalance p (ca_From tx) (pc_AccountCreationAmount policy))
           (thenE (AddCollectedFee p (pc_AccountCreationAmount policy))
           (\<lambda>ctx. ctx_CreateAccount d (SingleAccount
              \<lparr>sa_Address = NewAddress (ctx_TargetHeight ctx) index (vt_magic p),
               sa_Name = ca_Name tx, sa_KeyHash = ca_KeyHash tx\<rparr>) ctx)))))"

section \<open>CreateMultiAccount\<close>

definition CreateMultiAccount_Validate ::
  "(string \<Rightarrow> bytes option) \<Rightarrow> vault \<Rightarrow> create_multi_account \<Rightarrow> pubhash list \<Rightarrow> (chain_ctx, unit) go_meth" where
  "CreateMultiAccount_Validate d p tx signers =
     thenE (failIf (\<not> IsAllowedAccountName d (cm_Name tx)) (TypesErr ErrInvalidAccountName))
     (thenE (failIf (cm_Requried tx < 1) (VaultErr ErrInvalidRequiredKeyHashCount))
     (thenE (failIf (length (cm_KeyHashes tx) \<le> 1 \<or> 10 < length (cm_KeyHashes tx)) (VaultErr ErrInvalidMultiKeyHashCount))
     (thenE (failIf (om_len (fold (\<lambda>v m. om_put v True m) (cm_KeyHashes tx) []) \<noteq> length (cm_KeyHashes tx))
        (VaultErr ErrInvalidMultiKeyHashCount))
     (thenE (validateFrom (cm_From tx) signers)
     (CheckFeePayableWith p (cm_From tx) (GetDefaultFee p) (Some (am_MulC COIN 10)))))))"

definition CreateMultiAccount_Execute ::
  "(string \<Rightarrow> bytes option) \<Rightarrow> vault \<Rightarrow> create_multi_account \<Rightarrow> u16 \<Rightarrow> (chain_ctx, unit) go_meth" where
  "CreateMultiAccount_Execute d p tx index =
     WithFee p (cm_From tx) (GetDefaultFee p)
       (thenE (SubBalance p (cm_From tx) (am_MulC COIN 10))
       (thenE (AddCollectedFee p (am_MulC COIN 10))
       (\<lambda>ctx. ctx_CreateAccount d (MultiAccount
          \<lparr>ma_Address = NewAddress (ctx_TargetHeight ctx) index (vt_magic p),
           ma_Name = cm_Name tx, ma_Required = cm_Requried tx, ma_KeyHashes = cm_KeyHashes tx\<rparr>) ctx)))"

section \<open>Administrative transactions\<close>

definition IssueAccount_Validate :: "vault \<Rightarrow> issue_account \<Rightarrow> pubhash list \<Rightarrow> (chain_ctx, unit) go_meth" where
  "IssueAccount_Validate p tx signers =
     thenE (checkAdmin (vt_admin p) vault_Name (ia_From tx))
     (thenE (checkNameFree (ia_Name tx))
     (validateFrom (ia_From tx) signers))"

definition IssueAccount_Execute ::
  "(string \<Rightarrow> bytes option) \<Rightarrow> vault \<Rightarrow> issue_account \<Rightarrow> u16 \<Rightarrow> (chain_ctx, unit) go_meth" where
  "IssueAccount_Execute d p tx index ctx =
     ctx_CreateAccount d (SingleAccount
       \<lparr>sa_Address = NewAddress (ctx_TargetHeight ctx) index (vt_magic p),
        sa_Name = ia_Name tx, sa_KeyHash = ia_KeyHash tx\<rparr>) ctx"

definition UpdatePolicy_Validate :: "vault \<Rightarrow> update_policy \<Rightarrow> pubhash list \<Rightarrow> (chain_ctx, unit) go_meth" where
  "UpdatePolicy_Validate p tx signers =
     thenE (checkAdmin (vt_admin p) vault_Name (up_From tx))
     (thenE (failIf (up_Policy tx = None) (VaultErr ErrInvalidPolicy))
     (validateFrom (up_From tx) signers))"

definition UpdatePolicy_Execute ::
  "(vault_policy option \<Rightarrow> err + bytes) \<Rightarrow> vault \<Rightarrow> update_policy \<Rightarrow> u16 \<Rightarrow> (chain_ctx, unit) go_meth" where
  "UpdatePolicy_Execute encPolicy p tx index =
     bindE (liftE (encPolicy (up_Policy tx))) (\<lambda>bs. writeE (ctx_SetProcessData (vt_pid p) tagPolicy bs))"

definition UpdateDefaultFee_Validate :: "vault \<Rightarrow> update_default_fee \<Rightarrow> pubhash list \<Rightarrow> (chain_ctx, unit) go_meth" where
  "UpdateDefaultFee_Validate p tx signers =
     (case uf_DefaultFee tx of
        None \<Rightarrow> throwE (VaultErr ErrInvalidDefaultFee)
      | Some fee \<Rightarrow>
          bindE (liftE (orPanic (am_DivC COIN 100000000))) (\<lambda>least.
            thenE (failIf (am_Less fee least) (VaultErr ErrInvalidDefaultFee))
            (thenE (checkAdmin (vt_admin p) vault_Name (uf_From tx))
            (validateFrom (uf_From tx) signers))))"

definition UpdateDefaultFee_Execute :: "vault \<Rightarrow> update_default_fee \<Rightarrow> u16 \<Rightarrow> (chain_ctx, unit) go_meth" where
  "UpdateDefaultFee_Execute p tx index =
     (case uf_DefaultFee tx of
        None \<Rightarrow> throwE Panic
      | Some fee \<Rightarrow> writeE (ctx_SetProcessData (vt_pid p) tagDefaultFee (am_Bytes fee)))"

section \<open>Set-up\<close>

definition vault_InitPolicy ::
  "(vault_policy option \<Rightarrow> err + bytes) \<Rightarrow> vault \<Rightarrow> vault_policy \<Rightarrow> (chain_ctx, unit) go_meth" where
  "vault_InitPolicy encPolicy p policy =
     bindE (liftE (encPolicy (Some policy))) (\<lambda>bs. writeE (ctx_SetProcessData (vt_pid p) tagPolicy bs))"

definition SetDefaultFee :: "vault \<Rightarrow> amount \<Rightarrow> (chain_ctx, unit) go_meth" where
  "SetDefaultFee p defaultFee = writeE (ctx_SetProcessData (vt_pid p) tagDefaultFee (am_Bytes defaultFee))"

definition vault_OnLoadChain :: "vault \<Rightarrow> (chain_ctx, unit) go_meth" where
  "vault_OnLoadChain p =
     bindE (AdminAddress (vt_admin p) vault_Name) (\<lambda>_.
       bindE (readE (ctx_ProcessData (vt_pid p) tagPolicy)) (\<lambda>bs.
         failIf (length bs = 0) (VaultErr ErrPolicyShouldBeSetupInApplication)))"

end
