(* ===== verification/Vault_Laws.thy ===== *)
theory Vault_Laws
  imports Vault_Tx
begin

text \<open>
  What the vault does to the state. Every method is followed on what the state reads (\<open>F\<close>) and on which
  cells are marked as emptied in the top snapshot (\<open>E\<close>); the second matters because \<^verbatim>\<open>Commit\<close> keeps a cell
  empty that the snapshot below has marked.
\<close>

section \<open>Reads, writes and deletion marks\<close>

locale kv_marks = kv_store getd putd view wf okk frame
  for getd :: "'k \<Rightarrow> 's \<Rightarrow> bytes \<times> 's" and putd :: "'k \<Rightarrow> bytes \<Rightarrow> 's \<Rightarrow> 's"
    and view :: "'s \<Rightarrow> 'k \<Rightarrow> bytes" and wf :: "'s \<Rightarrow> bool" and okk :: "'k \<Rightarrow> bool"
    and frame :: "'s \<Rightarrow> 's \<Rightarrow> bool" +
  fixes mark :: "'s \<Rightarrow> 'k \<Rightarrow> bool"
  assumes get_mark: "wf s \<Longrightarrow> okk k \<Longrightarrow> okk k' \<Longrightarrow> mark (snd (getd k s)) k' = mark s k'"
    and put_mark: "wf s \<Longrightarrow> okk k \<Longrightarrow> okk k' \<Longrightarrow> mark (putd k v s) k' = (if k' = k then v = [] else mark s k')"
begin

definition runs :: "'s \<Rightarrow> 's \<Rightarrow> ('k \<Rightarrow> bytes) \<Rightarrow> ('k \<Rightarrow> bool) \<Rightarrow> bool" where
  "runs s t F E \<longleftrightarrow> steps s t F \<and> (\<forall>k. okk k \<longrightarrow> mark t k = E k)"

lemma runs_refl: "wf s \<Longrightarrow> runs s s (view s) (mark s)"
  by (simp add: runs_def steps_refl)

lemma runs_wf: "runs s t F E \<Longrightarrow> wf t"
  by (simp add: runs_def steps_def)

lemma runs_trans: "runs s t F E \<Longrightarrow> runs t u G E' \<Longrightarrow> runs s u G E'"
  by (auto simp: runs_def intro: steps_trans)

lemma runs_cong:
  "runs s t F E \<Longrightarrow> (\<And>k. okk k \<Longrightarrow> F k = F' k) \<Longrightarrow> (\<And>k. okk k \<Longrightarrow> E k = E' k) \<Longrightarrow> runs s t F' E'"
  by (simp add: runs_def steps_def)

lemma runs_get:
  assumes "runs s t F E" and "okk k"
  obtains t' where "getd k t = (F k, t')" and "runs s t' F E"
proof -
  obtain t' where t': "getd k t = (F k, t')" "steps s t' F"
    using assms steps_getE[of s t F k] by (auto simp: runs_def)
  moreover have "mark t' k' = E k'" if "okk k'" for k'
    using assms that t'(1) get_mark[of t k k'] by (auto simp: runs_def steps_def)
  ultimately show thesis using that by (auto simp: runs_def)
qed

lemma runs_put:
  assumes "runs s t F E" and "okk k"
  shows "runs s (putd k v t) (F(k := v)) (E(k := (v = [])))"
  using assms steps_put[of s t F k v] put_mark[of t k] by (auto simp: runs_def steps_def)

end

lemma emptied_get:
  assumes "ctx_wf ctx" and "key_ok k"
  shows "emptied (ctx_Top (snd (ctx_get k ctx))) k' = emptied (ctx_Top ctx) k'"
proof -
  have top: "cd_DeletedAccountDataMap (hd (fst (snd (ctd_AccountData ld a p n s cc)))) = cd_DeletedAccountDataMap (hd s) \<and>
      cd_DeletedProcessDataMap (hd (fst (snd (ctd_AccountData ld a p n s cc)))) = cd_DeletedProcessDataMap (hd s) \<and>
      cd_DeletedAccountDataMap (hd (fst (snd (ctd_ProcessData ld p n s cc)))) = cd_DeletedAccountDataMap (hd s) \<and>
      cd_DeletedProcessDataMap (hd (fst (snd (ctd_ProcessData ld p n s cc)))) = cd_DeletedProcessDataMap (hd s)"
    if "s \<noteq> []" for ld a p n s cc
    using that by (cases s) (auto simp: Let_def split: option.split prod.split)
  have "ctx_stack ctx \<noteq> []" using assms(1) by (auto simp: ctx_wf_def)
  then show ?thesis
    using top[of "ctx_stack ctx"]
    by (cases k; cases k')
      (simp_all add: emptied_def ctx_AccountData_def ctx_ProcessData_def ctx_read_def ctx_Top_def alayer_def
        player_def case_prod_unfold)
qed

lemma emptied_set_iff:
  assumes "ctx_wf ctx" and "key_ok k" and "key_ok k'"
  shows "emptied (ctx_Top (ctx_set k v ctx)) k' = (if k' = k then v = [] else emptied (ctx_Top ctx) k')"
proof -
  obtain t ps where "ctx_stack ctx = t # ps"
    using assms(1) unfolding ctx_wf_def by (auto elim: stack_okE)
  then show ?thesis
    using assms(2,3)
    by (cases k; cases k')
      (auto simp: emptied_def ctx_SetAccountData_def ctx_SetProcessData_def ctx_setTop_def ctx_dirty_def ctx_Top_def
        ctd_SetAccountData_def ctd_SetProcessData_def alayer_def player_def accountData_key_inj processData_key_inj Let_def)
qed

definition ctx_mark :: "chain_ctx \<Rightarrow> dkey \<Rightarrow> bool" where
  "ctx_mark ctx k = emptied (ctx_Top ctx) k"

interpretation km: kv_marks ctx_get ctx_set ctx_view ctx_wf key_ok ctx_frame ctx_mark
  by unfold_locales (auto simp: ctx_mark_def emptied_get emptied_set_iff)

text \<open>A method ends with result \<open>r\<close> in a state that is reached from \<open>s\<close> and reads as \<open>F\<close> with the marks \<open>E\<close>.\<close>

definition outcome ::
  "chain_ctx \<Rightarrow> (dkey \<Rightarrow> bytes) \<Rightarrow> (dkey \<Rightarrow> bool) \<Rightarrow> err + 'a \<Rightarrow> (err + 'a) \<times> chain_ctx \<Rightarrow> bool" where
  "outcome s F E r res \<longleftrightarrow> fst res = r \<and> km.runs s (snd res) F E"

lemma outcomeE:
  assumes "outcome s F E r res"
  obtains c where "res = (r, c)" and "km.runs s c F E"
  using assms by (cases res) (simp add: outcome_def)

lemma outcome_simp [simp]: "outcome s F E r (r', c) \<longleftrightarrow> r' = r \<and> km.runs s c F E"
  by (simp add: outcome_def)

lemma outcome_bind:
  assumes "outcome s F E (Inr x) (m ctx)" and "\<And>c. km.runs s c F E \<Longrightarrow> outcome s G E' r (k x c)"
  shows "outcome s G E' r (bindE m k ctx)"
  using assms by (auto simp: bindE_def elim!: outcomeE)

lemma outcome_bind_error:
  assumes "outcome s F E (Inl e) (m ctx)"
  shows "outcome s F E (Inl e) (bindE m k ctx)"
  using assms by (auto simp: bindE_def elim!: outcomeE)

lemma outcome_cong:
  assumes "outcome s F E r res" and "\<And>k. key_ok k \<Longrightarrow> F k = F' k" and "\<And>k. key_ok k \<Longrightarrow> E k = E' k"
  shows "outcome s F' E' r res"
  using assms km.runs_cong[of s "snd res" F E F' E'] by (simp add: outcome_def)

lemma outcome_trans: "km.runs s t F E \<Longrightarrow> outcome t G E' r res \<Longrightarrow> outcome s G E' r res"
  by (auto simp: outcome_def intro: km.runs_trans)

lemma outcome_local: "outcome s F E r res \<Longrightarrow> ctx_local s (snd res)"
  by (simp add: outcome_def km.runs_def kv.steps_def ctx_local_def)

section \<open>Cells of the vault\<close>

abbreviation bcell :: "vault \<Rightarrow> address \<Rightarrow> dkey" where
  "bcell p a \<equiv> AData a (vt_pid p) tagBalance"

abbreviation ccell :: "vault \<Rightarrow> dkey" where
  "ccell p \<equiv> PData (vt_pid p) tagCollectedFee"

abbreviation fcell :: "vault \<Rightarrow> dkey" where
  "fcell p \<equiv> PData (vt_pid p) tagDefaultFee"

named_theorems vault_tags

lemma tags_distinct [vault_tags]:
  "tagBalance \<noteq> tagLockedBalanceSum" "tagLockedBalanceSum \<noteq> tagBalance"
  "tagCollectedFee \<noteq> tagDefaultFee" "tagDefaultFee \<noteq> tagCollectedFee"
  "tagCollectedFee \<noteq> tagPolicy" "tagPolicy \<noteq> tagCollectedFee"
  by (simp_all add: tagBalance_def tagLockedBalanceSum_def tagCollectedFee_def tagDefaultFee_def tagPolicy_def)

lemma stored_amount_Nil [simp]: "stored_amount [] = 0"
  by (simp add: stored_amount_def)

lemma stored_amount_Bytes [simp]: "stored_amount (am_Bytes a) = \<bar>a\<bar>"
  by (cases "a = 0") (auto simp: stored_amount_def)

lemma am_Bytes_zero [simp]: "am_Bytes 0 = []"
  by simp

lemma stored_amount_nonneg [simp]: "0 \<le> stored_amount bs"
  by (simp add: stored_amount_def)

text \<open>Balance, collected fee and default fee, as functions of what the state reads.\<close>

definition bal :: "vault \<Rightarrow> (dkey \<Rightarrow> bytes) \<Rightarrow> address \<Rightarrow> amount" where
  "bal p F a = stored_amount (F (bcell p a))"

definition collected :: "vault \<Rightarrow> (dkey \<Rightarrow> bytes) \<Rightarrow> amount" where
  "collected p F = stored_amount (F (ccell p))"

definition default_fee :: "vault \<Rightarrow> (dkey \<Rightarrow> bytes) \<Rightarrow> amount" where
  "default_fee p F = (if F (fcell p) = [] then 100000000000000000 else NewAmountFromBytes (F (fcell p)))"

lemma bal_nonneg [simp]: "0 \<le> bal p F a" "0 \<le> collected p F" "0 \<le> default_fee p F"
  by (simp_all add: bal_def collected_def default_fee_def)

lemma bal_upd [simp]:
  "bal p (F(bcell p a := v)) b = (if b = a then stored_amount v else bal p F b)"
  "bal p (F(PData q n := v)) b = bal p F b"
  by (simp_all add: bal_def)

lemma collected_upd [simp]:
  "collected p (F(ccell p := v)) = stored_amount v"
  "collected p (F(AData a q n := v)) = collected p F"
  by (simp_all add: collected_def)

lemma default_fee_upd [simp]:
  "default_fee p (F(AData a q n := v)) = default_fee p F"
  "default_fee p (F(ccell p := v)) = default_fee p F"
  by (simp_all add: default_fee_def vault_tags)

lemma Balance_runs:
  assumes "km.runs s ctx F E" and "is_address a"
  shows "outcome s F E (Inr (bal p F a)) (readE (Balance p a) ctx)"
  by (rule km.runs_get[OF assms(1), of "bcell p a"]) (simp_all add: assms Balance_def bal_def readE_def)

lemma CollectedFee_runs:
  assumes "km.runs s ctx F E"
  shows "outcome s F E (Inr (collected p F)) (readE (CollectedFee p) ctx)"
  by (rule km.runs_get[OF assms(1), of "ccell p"]) (simp_all add: CollectedFee_def collected_def readE_def)

lemma GetDefaultFee_runs:
  assumes "km.runs s ctx F E"
  shows "outcome s F E (Inr (default_fee p F)) (readE (GetDefaultFee p) ctx)"
  by (rule km.runs_get[OF assms(1), of "fcell p"])
    (simp_all add: GetDefaultFee_def default_fee_def readE_def am_DivC_def am_Div_def)

lemma writeE_runs:
  assumes "km.runs s ctx F E" and "key_ok k"
  shows "outcome s (F(k := v)) (E(k := (v = []))) (Inr ()) (writeE (ctx_set k v) ctx)"
  using km.runs_put[OF assms] by (simp add: writeE_run)

lemma set_as_ctx_set:
  "ctx_SetAccountData a p n v = ctx_set (AData a p n) v" "ctx_SetProcessData p n v = ctx_set (PData p n) v"
  by (simp_all add: fun_eq_iff)

lemma AddBalance_runs:
  assumes "km.runs s ctx F E" and "is_address a"
  shows "am < 0 \<Longrightarrow> outcome s F E (Inl (VaultErr ErrMinusInput)) (AddBalance p a am ctx)"
    and "0 \<le> am \<Longrightarrow> outcome s (F(bcell p a := am_Bytes (bal p F a + am))) (E(bcell p a := (bal p F a + am = 0)))
      (Inr ()) (AddBalance p a am ctx)"
proof -
  show "am < 0 \<Longrightarrow> outcome s F E (Inl (VaultErr ErrMinusInput)) (AddBalance p a am ctx)"
    using assms by (simp add: AddBalance_def run_simps amount_simps)
  show "outcome s (F(bcell p a := am_Bytes (bal p F a + am))) (E(bcell p a := (bal p F a + am = 0)))
      (Inr ()) (AddBalance p a am ctx)" if "0 \<le> am"
    unfolding AddBalance_def bindE_failIf set_as_ctx_set
    using that writeE_runs[of s _ F E "bcell p a" "am_Bytes (bal p F a + am)"] assms(2)
    by (simp add: am_Less_def) (rule outcome_bind, rule Balance_runs[OF assms], simp add: amount_simps)
qed

lemma SubBalance_runs:
  assumes "km.runs s ctx F E" and "is_address a"
  shows "bal p F a < am \<Longrightarrow> outcome s F E (Inl (VaultErr ErrMinusBalance)) (SubBalance p a am ctx)"
    and "am \<le> bal p F a \<Longrightarrow> outcome s (F(bcell p a := am_Bytes (bal p F a - am))) (E(bcell p a := (bal p F a - am = 0)))
      (Inr ()) (SubBalance p a am ctx)"
proof -
  show "bal p F a < am \<Longrightarrow> outcome s F E (Inl (VaultErr ErrMinusBalance)) (SubBalance p a am ctx)"
    unfolding SubBalance_def
    by (rule outcome_bind, rule Balance_runs[OF assms]) (simp add: run_simps amount_simps)
  show "outcome s (F(bcell p a := am_Bytes (bal p F a - am))) (E(bcell p a := (bal p F a - am = 0)))
      (Inr ()) (SubBalance p a am ctx)" if "am \<le> bal p F a"
    unfolding SubBalance_def RemoveBalance_def set_as_ctx_set
    using that writeE_runs[of s _ F E "bcell p a" "am_Bytes (bal p F a - am)"] assms(2)
    by (rule_tac outcome_bind, rule_tac Balance_runs[OF assms]) (auto simp: run_simps amount_simps Let_def)
qed

lemma AddCollectedFee_runs:
  assumes "km.runs s ctx F E"
  shows "am < 0 \<Longrightarrow> outcome s F E (Inl (VaultErr ErrMinusInput)) (AddCollectedFee p am ctx)"
    and "0 \<le> am \<Longrightarrow> outcome s (F(ccell p := am_Bytes (collected p F + am))) (E(ccell p := (collected p F + am = 0)))
      (Inr ()) (AddCollectedFee p am ctx)"
proof -
  show "am < 0 \<Longrightarrow> outcome s F E (Inl (VaultErr ErrMinusInput)) (AddCollectedFee p am ctx)"
    using assms by (simp add: AddCollectedFee_def run_simps amount_simps)
  show "outcome s (F(ccell p := am_Bytes (collected p F + am))) (E(ccell p := (collected p F + am = 0)))
      (Inr ()) (AddCollectedFee p am ctx)" if "0 \<le> am"
    unfolding AddCollectedFee_def bindE_failIf set_as_ctx_set
    using that writeE_runs[of s _ F E "ccell p" "am_Bytes (collected p F + am)"]
    by (simp add: am_Less_def) (rule outcome_bind, rule CollectedFee_runs[OF assms], simp add: amount_simps)
qed

section \<open>Running in a snapshot\<close>

lemma emptied_New [simp]: "\<not> emptied (NewContextData ps) k"
  by (cases k) (simp_all add: emptied_def NewContextData_def alayer_def player_def)

text \<open>
  A fresh snapshot reads as before and has no marks; an error reverts it without a trace, success
  commits it over the marks of the snapshot below.
\<close>

lemma in_snapshot_runs:
  assumes "ctx_wf ctx"
  obtains s1 where "km.runs s1 s1 (ctx_view ctx) (\<lambda>_. False)"
    and "ctx_genTargetHeight s1 = ctx_genTargetHeight ctx"
    and "\<forall>e. fst (fn s1) = Inl e \<and> ctx_local s1 (snd (fn s1)) \<longrightarrow>
      outcome ctx (ctx_view ctx) (ctx_mark ctx) (Inl e) (in_snapshot fn ctx)"
    and "\<forall>G E. outcome s1 G E (Inr ()) (fn s1) \<longrightarrow>
      outcome ctx (\<lambda>k. if ctx_mark ctx k then [] else G k) (\<lambda>k. E k \<or> ctx_mark ctx k) (Inr ()) (in_snapshot fn ctx)"
proof -
  obtain sn s1 where sn: "ctx_Snapshot ctx = (sn, s1)" by (metis surj_pair)
  obtain t ps where f: "ctx_stack ctx = t # ps" "ctx_stack s1 = NewContextData (ctx_stack ctx) # t\<lparr>cd_isTop := False\<rparr> # ps"
      "sn = length ps + 2" "ctx_wf s1" "ctx_loader s1 = ctx_loader ctx" "\<And>k. ctx_view s1 k = ctx_view ctx k"
    using ctx_Snapshot_facts[OF assms sn] by metis
  have gen: "ctx_genTargetHeight s1 = ctx_genTargetHeight ctx \<and> ctx_genLastHash s1 = ctx_genLastHash ctx \<and>
      ctx_genTimestamp s1 = ctx_genTimestamp ctx"
    using sn by (auto simp: ctx_Snapshot_def ctx_setTop_def ctx_dirty_def Let_def)
  have t: "cd_isTop t" "ctd_inv t" "\<forall>q\<in>set ps. \<not> cd_isTop q \<and> ctd_inv q"
    using assms f(1) by (simp_all add: ctx_wf_def)
  have below: "\<exists>y. ctx_stack c2 = y # t\<lparr>cd_isTop := False\<rparr> # ps \<and> ctd_inv y" if "ctx_local s1 c2" for c2
    using that f(2) by (cases "ctx_stack c2") (auto simp: ctx_local_def ctx_frame_def ctx_wf_def)
  show thesis
  proof (rule that[of s1])
    show "km.runs s1 s1 (ctx_view ctx) (\<lambda>_. False)"
      using km.runs_refl[OF f(4)] f(2,6) by (auto simp: km.runs_def kv.steps_def ctx_mark_def ctx_Top_def)
    show "ctx_genTargetHeight s1 = ctx_genTargetHeight ctx" using gen by simp
    show "\<forall>e. fst (fn s1) = Inl e \<and> ctx_local s1 (snd (fn s1)) \<longrightarrow>
      outcome ctx (ctx_view ctx) (ctx_mark ctx) (Inl e) (in_snapshot fn ctx)"
    proof (intro allI impI, elim conjE)
      fix e assume e: "fst (fn s1) = Inl e" and l: "ctx_local s1 (snd (fn s1))"
      obtain c2 where c2: "fn s1 = (Inl e, c2)" using e by (cases "fn s1") simp
      obtain y where y: "ctx_stack c2 = y # t\<lparr>cd_isTop := False\<rparr> # ps" using below[OF l] c2 by auto
      have top: "t\<lparr>cd_isTop := True\<rparr> = t" using t(1) by simp
      have "ctx_Revert sn c2 = (Inr (), (ctx_dirty c2)\<lparr>ctx_stack := t # ps\<rparr>)"
        using y f(3) top by (simp add: ctx_Revert_def ctx_setTop_def ctx_dirty_def Let_def)
      then show "outcome ctx (ctx_view ctx) (ctx_mark ctx) (Inl e) (in_snapshot fn ctx)"
        using sn l c2 f(1,5) assms t gen
        by (auto simp: in_snapshot_def km.runs_def kv.steps_def ctx_local_def ctx_wf_def ctx_frame_def ctx_view_def
            ctx_mark_def ctx_Top_def ctx_dirty_def)
    qed
    show "\<forall>G E. outcome s1 G E (Inr ()) (fn s1) \<longrightarrow>
      outcome ctx (\<lambda>k. if ctx_mark ctx k then [] else G k) (\<lambda>k. E k \<or> ctx_mark ctx k) (Inr ()) (in_snapshot fn ctx)"
    proof (intro allI impI)
      fix G E assume o: "outcome s1 G E (Inr ()) (fn s1)"
      then obtain c2 where e: "fn s1 = (Inr (), c2)" and l: "km.runs s1 c2 G E" by (rule outcomeE)
      have loc: "ctx_local s1 c2" and c2: "ctx_wf c2" "\<And>k. key_ok k \<Longrightarrow> ctx_view c2 k = G k" "\<And>k. key_ok k \<Longrightarrow> ctx_mark c2 k = E k"
        using l by (auto simp: km.runs_def kv.steps_def ctx_local_def)
      obtain y where y: "ctx_stack c2 = y # t\<lparr>cd_isTop := False\<rparr> # ps" "ctd_inv y" using below[OF loc] by blast
      have c: "ctx_Commit sn c2 = (Inr (), (ctx_dirty c2)\<lparr>ctx_stack := (commit_data y (t\<lparr>cd_isTop := False\<rparr>))\<lparr>cd_isTop := True\<rparr> # ps\<rparr>)"
        by (rule ctx_Commit_one[OF y(1) f(3)])
      have "ctx_wf (snd (ctx_Commit sn c2))" by (rule ctx_Commit_wf[OF c2(1) y(1) f(3)])
      moreover have "ctx_frame ctx (snd (ctx_Commit sn c2))"
        using loc f(1,5) gen unfolding c by (simp add: ctx_frame_def ctx_local_def ctx_dirty_def)
      moreover have "ctx_view (snd (ctx_Commit sn c2)) k = (if ctx_mark ctx k then [] else G k)" if "key_ok k" for k
        using c2(2)[OF that] y t(2) f(1) unfolding c
        by (simp add: ctx_view_def ctx_dirty_def commit_data_view ctx_mark_def ctx_Top_def)
      moreover have "ctx_mark (snd (ctx_Commit sn c2)) k = (E k \<or> ctx_mark ctx k)" if "key_ok k" for k
        using c2(3)[OF that] y t(2) f(1) unfolding c
        by (simp add: ctx_mark_def ctx_dirty_def ctx_Top_def emptied_commit)
      ultimately show "outcome ctx (\<lambda>k. if ctx_mark ctx k then [] else G k) (\<lambda>k. E k \<or> ctx_mark ctx k)
          (Inr ()) (in_snapshot fn ctx)"
        using sn e c by (auto simp: in_snapshot_def km.runs_def kv.steps_def)
    qed
  qed
qed

section \<open>Paying the fee\<close>

definition fee_paid :: "vault \<Rightarrow> address \<Rightarrow> (dkey \<Rightarrow> bytes) \<Rightarrow> dkey \<Rightarrow> bytes" where
  "fee_paid p a F =
     (F(bcell p a := am_Bytes (bal p F a - default_fee p F)))(ccell p := am_Bytes (collected p F + default_fee p F))"

definition fee_marks :: "vault \<Rightarrow> address \<Rightarrow> (dkey \<Rightarrow> bytes) \<Rightarrow> (dkey \<Rightarrow> bool) \<Rightarrow> dkey \<Rightarrow> bool" where
  "fee_marks p a F E =
     (E(bcell p a := (bal p F a - default_fee p F = 0)))(ccell p := (collected p F + default_fee p F = 0))"

lemma fee_paid_reads [simp]:
  assumes "default_fee p F \<le> bal p F a"
  shows "bal p (fee_paid p a F) b = (if b = a then bal p F a - default_fee p F else bal p F b)"
    and "collected p (fee_paid p a F) = collected p F + default_fee p F"
    and "default_fee p (fee_paid p a F) = default_fee p F"
  using assms by (simp_all add: fee_paid_def)

lemma WithFee_poor:
  assumes "ctx_wf ctx" and "is_address a" and "bal p (ctx_view ctx) a < default_fee p (ctx_view ctx)"
  shows "outcome ctx (ctx_view ctx) (ctx_mark ctx) (Inl (VaultErr ErrMinusBalance)) (WithFee p a (GetDefaultFee p) fn ctx)"
  unfolding WithFee_def
  by (rule outcome_bind, rule GetDefaultFee_runs[OF km.runs_refl[OF assms(1)]], rule outcome_bind_error)
    (rule SubBalance_runs(1)[OF _ assms(2,3)])

lemma WithFee_rich:
  assumes "ctx_wf ctx" and "is_address a" and "default_fee p (ctx_view ctx) \<le> bal p (ctx_view ctx) a"
  obtains s1 where "km.runs s1 s1 (fee_paid p a (ctx_view ctx)) (\<lambda>_. False)"
    and "ctx_genTargetHeight s1 = ctx_genTargetHeight ctx"
    and "\<forall>e. fst (fn s1) = Inl e \<and> ctx_local s1 (snd (fn s1)) \<longrightarrow>
      outcome ctx (fee_paid p a (ctx_view ctx)) (fee_marks p a (ctx_view ctx) (ctx_mark ctx)) (Inl e)
        (WithFee p a (GetDefaultFee p) fn ctx)"
    and "\<forall>G E. outcome s1 G E (Inr ()) (fn s1) \<longrightarrow>
      outcome ctx (\<lambda>k. if fee_marks p a (ctx_view ctx) (ctx_mark ctx) k then [] else G k)
        (\<lambda>k. E k \<or> fee_marks p a (ctx_view ctx) (ctx_mark ctx) k) (Inr ()) (WithFee p a (GetDefaultFee p) fn ctx)"
proof -
  let ?F = "ctx_view ctx" and ?E = "ctx_mark ctx"
  let ?fee = "default_fee p ?F"
  let ?F1 = "?F(bcell p a := am_Bytes (bal p ?F a - ?fee))" and ?E1 = "?E(bcell p a := (bal p ?F a - ?fee = 0))"
  obtain c1 where c1: "readE (GetDefaultFee p) ctx = (Inr ?fee :: err + amount, c1)" "km.runs ctx c1 ?F ?E"
    by (rule outcomeE[OF GetDefaultFee_runs[OF km.runs_refl[OF assms(1)], of p]])
  obtain c2 where c2: "SubBalance p a ?fee c1 = (Inr (), c2)" "km.runs ctx c2 ?F1 ?E1"
    by (rule outcomeE[OF SubBalance_runs(2)[OF c1(2) assms(2,3)]])
  obtain c3 where c3: "readE (CollectedFee p) c2 = (Inr (collected p ?F1) :: err + amount, c3)" "km.runs ctx c3 ?F1 ?E1"
    by (rule outcomeE[OF CollectedFee_runs[OF c2(2), of p]])
  define c4 where "c4 = ctx_SetProcessData (vt_pid p) tagCollectedFee (am_Bytes (collected p ?F + ?fee)) c3"
  have c4: "km.runs ctx c4 (fee_paid p a ?F) (fee_marks p a ?F ?E)"
    using km.runs_put[OF c3(2), of "ccell p" "am_Bytes (collected p ?F + ?fee)"]
    by (simp add: c4_def fee_paid_def fee_marks_def)
  have run: "WithFee p a (GetDefaultFee p) fn ctx = in_snapshot fn c4"
    using c1(1) c2(1) c3(1) by (simp add: WithFee_def bindE_def writeE_run amount_simps c4_def)
  have view: "\<And>k. key_ok k \<Longrightarrow> ctx_view c4 k = fee_paid p a ?F k" "\<And>k. key_ok k \<Longrightarrow> ctx_mark c4 k = fee_marks p a ?F ?E k"
    using c4 by (simp_all add: km.runs_def kv.steps_def)
  have gen: "ctx_genTargetHeight c4 = ctx_genTargetHeight ctx"
    using c4 by (simp add: km.runs_def kv.steps_def ctx_frame_def)
  obtain s1 where s1: "km.runs s1 s1 (ctx_view c4) (\<lambda>_. False)" "ctx_genTargetHeight s1 = ctx_genTargetHeight c4"
    "\<forall>e. fst (fn s1) = Inl e \<and> ctx_local s1 (snd (fn s1)) \<longrightarrow> outcome c4 (ctx_view c4) (ctx_mark c4) (Inl e) (in_snapshot fn c4)"
    "\<forall>G E. outcome s1 G E (Inr ()) (fn s1) \<longrightarrow>
      outcome c4 (\<lambda>k. if ctx_mark c4 k then [] else G k) (\<lambda>k. E k \<or> ctx_mark c4 k) (Inr ()) (in_snapshot fn c4)"
    using in_snapshot_runs[OF km.runs_wf[OF c4]] .
  show thesis
  proof (rule that[of s1])
    show "km.runs s1 s1 (fee_paid p a ?F) (\<lambda>_. False)"
      using s1(1) view(1) by (rule km.runs_cong) simp_all
    show "ctx_genTargetHeight s1 = ctx_genTargetHeight ctx" using s1(2) gen by simp
    show "\<forall>e. fst (fn s1) = Inl e \<and> ctx_local s1 (snd (fn s1)) \<longrightarrow>
      outcome ctx (fee_paid p a ?F) (fee_marks p a ?F ?E) (Inl e) (WithFee p a (GetDefaultFee p) fn ctx)"
      unfolding run using s1(3) view by (blast intro: outcome_cong[OF outcome_trans[OF c4]])
    show "\<forall>G E. outcome s1 G E (Inr ()) (fn s1) \<longrightarrow>
      outcome ctx (\<lambda>k. if fee_marks p a ?F ?E k then [] else G k) (\<lambda>k. E k \<or> fee_marks p a ?F ?E k)
        (Inr ()) (WithFee p a (GetDefaultFee p) fn ctx)"
    proof (intro allI impI)
      fix G E assume "outcome s1 G E (Inr ()) (fn s1)"
      then have "outcome c4 (\<lambda>k. if ctx_mark c4 k then [] else G k) (\<lambda>k. E k \<or> ctx_mark c4 k) (Inr ()) (in_snapshot fn c4)"
        using s1(4) by blast
      from outcome_trans[OF c4 this] show "outcome ctx (\<lambda>k. if fee_marks p a ?F ?E k then [] else G k)
          (\<lambda>k. E k \<or> fee_marks p a ?F ?E k) (Inr ()) (WithFee p a (GetDefaultFee p) fn ctx)"
        unfolding run by (rule outcome_cong) (simp_all add: view(2))
    qed
  qed
qed

section \<open>Transfers\<close>

lemma transferAmount_runs:
  assumes "km.runs s ctx F E" and "is_address a" and "is_address b" and "0 \<le> am"
  shows "bal p F a < am \<Longrightarrow> outcome s F E (Inl (VaultErr ErrMinusBalance)) (transferAmount p a b am ctx)"
    and "am \<le> bal p F a \<Longrightarrow> \<exists>G E'. outcome s G E' (Inr ()) (transferAmount p a b am ctx) \<and>
      (\<forall>c. bal p G c = bal p F c - (if c = a then am else 0) + (if c = b then am else 0)) \<and>
      collected p G = collected p F \<and> default_fee p G = default_fee p F \<and>
      (\<forall>k. k \<noteq> bcell p a \<and> k \<noteq> bcell p b \<longrightarrow> G k = F k)"
proof -
  show "bal p F a < am \<Longrightarrow> outcome s F E (Inl (VaultErr ErrMinusBalance)) (transferAmount p a b am ctx)"
    unfolding transferAmount_def by (rule outcome_bind_error, rule SubBalance_runs(1)[OF assms(1,2)])
  assume le: "am \<le> bal p F a"
  let ?F1 = "F(bcell p a := am_Bytes (bal p F a - am))"
  let ?F2 = "?F1(bcell p b := am_Bytes (bal p ?F1 b + am))"
  have "outcome s ?F2 ((E(bcell p a := (bal p F a - am = 0)))(bcell p b := (bal p ?F1 b + am = 0)))
      (Inr ()) (transferAmount p a b am ctx)"
    unfolding transferAmount_def
    by (rule outcome_bind, rule SubBalance_runs(2)[OF assms(1,2) le], rule AddBalance_runs(2)[OF _ assms(3,4)])
  moreover have "bal p ?F2 c = bal p F c - (if c = a then am else 0) + (if c = b then am else 0)" for c
    using le assms(4) bal_nonneg(1)[of p F b] by auto
  ultimately show "\<exists>G E'. outcome s G E' (Inr ()) (transferAmount p a b am ctx) \<and>
      (\<forall>c. bal p G c = bal p F c - (if c = a then am else 0) + (if c = b then am else 0)) \<and>
      collected p G = collected p F \<and> default_fee p G = default_fee p F \<and>
      (\<forall>k. k \<noteq> bcell p a \<and> k \<noteq> bcell p b \<longrightarrow> G k = F k)"
    by (intro exI[of _ ?F2] exI conjI) auto
qed

lemma fst_Balance:
  assumes "ctx_wf ctx" and "is_address a"
  shows "fst (Balance p a ctx) = bal p (ctx_view ctx) a"
  using Balance_runs[OF km.runs_refl[OF assms(1)] assms(2), of p]
  by (simp add: outcome_def readE_run)

lemma fst_CollectedFee:
  assumes "ctx_wf ctx"
  shows "fst (CollectedFee p ctx) = collected p (ctx_view ctx)"
  using CollectedFee_runs[OF km.runs_refl[OF assms(1)], of p] by (simp add: outcome_def readE_run)

lemma fst_GetDefaultFee:
  assumes "ctx_wf ctx"
  shows "fst (GetDefaultFee p ctx) = default_fee p (ctx_view ctx)"
  using GetDefaultFee_runs[OF km.runs_refl[OF assms(1)], of p] by (simp add: outcome_def readE_run)

lemma runs_reads:
  assumes "km.runs s ctx F E"
  shows "is_address a \<Longrightarrow> bal p (ctx_view ctx) a = bal p F a" and "collected p (ctx_view ctx) = collected p F"
  using assms by (simp_all add: km.runs_def kv.steps_def bal_def collected_def)

lemma outcome_reads:
  assumes "outcome s F E r res"
  shows "fst res = r" and "ctx_wf (snd res)"
    and "is_address c \<Longrightarrow> bal p (ctx_view (snd res)) c = bal p F c"
    and "collected p (ctx_view (snd res)) = collected p F"
  using assms runs_reads[of s "snd res" F E] km.runs_wf[of s "snd res" F E] by (simp_all add: outcome_def)

lemma mark_view:
  assumes "ctx_wf ctx" and "ctx_mark ctx k"
  shows "ctx_view ctx k = []"
proof -
  obtain t ps where "ctx_stack ctx = t # ps"
    using assms(1) unfolding ctx_wf_def by (auto elim: stack_okE)
  then show ?thesis
    using assms(2) by (simp add: ctx_mark_def emptied_def ctx_view_def ctx_Top_def stack_view_layers)
qed

text \<open>The effect of a transfer on what the state reads, for each of its three outcomes.\<close>

lemma transfer_short:
  assumes "ctx_wf ctx" and "is_address a" and "is_address b" and "0 \<le> am"
    and "default_fee p (ctx_view ctx) \<le> bal p (ctx_view ctx) a"
    and "bal p (ctx_view ctx) a < default_fee p (ctx_view ctx) + am"
  shows "outcome ctx (fee_paid p a (ctx_view ctx)) (fee_marks p a (ctx_view ctx) (ctx_mark ctx))
    (Inl (VaultErr ErrMinusBalance)) (WithFee p a (GetDefaultFee p) (transferAmount p a b am) ctx)"
proof -
  let ?F = "ctx_view ctx" and ?fn = "transferAmount p a b am"
  obtain s1 where s1: "km.runs s1 s1 (fee_paid p a ?F) (\<lambda>_. False)"
    "\<forall>e. fst (?fn s1) = Inl e \<and> ctx_local s1 (snd (?fn s1)) \<longrightarrow>
      outcome ctx (fee_paid p a ?F) (fee_marks p a ?F (ctx_mark ctx)) (Inl e) (WithFee p a (GetDefaultFee p) ?fn ctx)"
    by (rule WithFee_rich[OF assms(1,2,5), of ?fn])
  have "bal p (fee_paid p a ?F) a < am" using assms(5,6) by simp
  from transferAmount_runs(1)[OF s1(1) assms(2-4) this]
  have "fst (?fn s1) = Inl (VaultErr ErrMinusBalance)" "ctx_local s1 (snd (?fn s1))"
    by (rule outcome_reads(1), rule outcome_local)
  then show ?thesis using s1(2) by blast
qed

lemma transfer_done:
  assumes "ctx_wf ctx" and "is_address a" and "is_address b" and "0 \<le> am" and "\<not> ctx_mark ctx (bcell p b)"
    and "default_fee p (ctx_view ctx) + am \<le> bal p (ctx_view ctx) a"
  obtains H E where "outcome ctx H E (Inr ()) (WithFee p a (GetDefaultFee p) (transferAmount p a b am) ctx)"
    and "\<And>c. bal p H c = bal p (ctx_view ctx) c - (if c = a then default_fee p (ctx_view ctx) + am else 0)
      + (if c = b then am else 0)"
    and "collected p H = collected p (ctx_view ctx) + default_fee p (ctx_view ctx)"
proof -
  let ?F = "ctx_view ctx" and ?fee = "default_fee p (ctx_view ctx)" and ?fn = "transferAmount p a b am"
  let ?res = "WithFee p a (GetDefaultFee p) ?fn ctx"
  have le: "?fee \<le> bal p ?F a" using assms(4,6) by simp
  obtain s1 where s1: "km.runs s1 s1 (fee_paid p a ?F) (\<lambda>_. False)"
    "\<forall>G E. outcome s1 G E (Inr ()) (?fn s1) \<longrightarrow>
      outcome ctx (\<lambda>k. if fee_marks p a ?F (ctx_mark ctx) k then [] else G k)
        (\<lambda>k. E k \<or> fee_marks p a ?F (ctx_mark ctx) k) (Inr ()) ?res"
    by (rule WithFee_rich[OF assms(1,2) le, of ?fn])
  have "am \<le> bal p (fee_paid p a ?F) a" using le assms(6) by simp
  from transferAmount_runs(2)[OF s1(1) assms(2-4) this]
  obtain G E' where G: "outcome s1 G E' (Inr ()) (?fn s1)"
    "\<And>c. bal p G c = bal p (fee_paid p a ?F) c - (if c = a then am else 0) + (if c = b then am else 0)"
    "collected p G = collected p (fee_paid p a ?F)"
    by blast
  let ?H = "\<lambda>k. if fee_marks p a ?F (ctx_mark ctx) k then [] else G k"
  have o: "outcome ctx ?H (\<lambda>k. E' k \<or> fee_marks p a ?F (ctx_mark ctx) k) (Inr ()) ?res"
    using s1(2) G(1) by blast
  have "collected p ?H = collected p ?F + ?fee"
  proof (cases "fee_marks p a ?F (ctx_mark ctx) (ccell p)")
    case True
    then have "collected p ?F + ?fee = 0" by (simp add: fee_marks_def)
    then show ?thesis using True by (simp add: collected_def)
  next
    case False
    then show ?thesis using G(3) fee_paid_reads(2)[OF le] by (simp add: collected_def)
  qed
  moreover have "bal p ?H c = bal p ?F c - (if c = a then ?fee + am else 0) + (if c = b then am else 0)" for c
  proof (cases "fee_marks p a ?F (ctx_mark ctx) (bcell p c)")
    case False
    then have "bal p ?H c = bal p G c" by (simp add: bal_def)
    then show ?thesis using G(2)[of c] fee_paid_reads(1)[OF le, of c] by simp
  next
    case True
    then have 0: "bal p ?H c = 0" by (simp add: bal_def)
    show ?thesis
    proof (cases "c = a")
      case c: True
      then have "bal p ?F a = ?fee" using True by (simp add: fee_marks_def)
      then show ?thesis using 0 c assms(4,6) by simp
    next
      case c: False
      then have m: "ctx_mark ctx (bcell p c)" using True by (simp add: fee_marks_def)
      then have "bal p ?F c = 0" using mark_view[OF assms(1)] by (simp add: bal_def)
      moreover have "c \<noteq> b" using m assms(5) by auto
      ultimately show ?thesis using 0 c by simp
    qed
  qed
  ultimately show thesis using that[OF o] by blast
qed

text \<open>
  C6: what executing a transfer does, on a state whose top snapshot has not emptied the receiver's
  balance (as on the fresh snapshot of a transaction). If the sender cannot pay the fee nothing
  changes; if it can pay the fee but not the amount, only the fee moves to the collected fees and an
  error is returned; otherwise fee and amount leave the sender, the amount reaches the receiver and
  the fee the collected fees. No other balance changes.
\<close>

theorem transfer_execute:
  fixes p tx ctx i
  defines "fee \<equiv> fst (GetDefaultFee p ctx)" and "b \<equiv> fst (Balance p (tf_From tx) ctx)"
    and "res \<equiv> Transfer_Execute p tx i ctx"
  assumes "ctx_wf ctx" and "is_address (tf_From tx)" and "is_address (tf_To tx)" and "0 \<le> tf_Amount tx"
    and "\<not> emptied (ctx_Top ctx) (AData (tf_To tx) (vt_pid p) tagBalance)" and "is_address c"
  shows "fst res = (if b < fee + tf_Amount tx then Inl (VaultErr ErrMinusBalance) else Inr ()) \<and>
    fst (Balance p c (snd res)) = fst (Balance p c ctx)
      - (if c = tf_From tx \<and> fee \<le> b then fee else 0)
      - (if c = tf_From tx \<and> fee + tf_Amount tx \<le> b then tf_Amount tx else 0)
      + (if c = tf_To tx \<and> fee + tf_Amount tx \<le> b then tf_Amount tx else 0) \<and>
    fst (CollectedFee p (snd res)) = fst (CollectedFee p ctx) + (if fee \<le> b then fee else 0)"
proof -
  let ?F = "ctx_view ctx"
  have fee: "fee = default_fee p ?F" and b: "b = bal p ?F (tf_From tx)"
    using assms(4,5) by (simp_all add: fee_def b_def fst_GetDefaultFee fst_Balance)
  have res: "res = WithFee p (tf_From tx) (GetDefaultFee p) (transferAmount p (tf_From tx) (tf_To tx) (tf_Amount tx)) ctx"
    by (simp add: res_def Transfer_Execute_def)
  have mark: "\<not> ctx_mark ctx (bcell p (tf_To tx))" using assms(8) by (simp add: ctx_mark_def)
  obtain H E r where o: "outcome ctx H E r res" and
    r: "r = (if b < fee + tf_Amount tx then Inl (VaultErr ErrMinusBalance) else Inr ())" and
    H: "bal p H c = bal p ?F c - (if c = tf_From tx \<and> fee \<le> b then fee else 0)
      - (if c = tf_From tx \<and> fee + tf_Amount tx \<le> b then tf_Amount tx else 0)
      + (if c = tf_To tx \<and> fee + tf_Amount tx \<le> b then tf_Amount tx else 0)" and
    c: "collected p H = collected p ?F + (if fee \<le> b then fee else 0)"
  proof -
    consider "b < fee" | "fee \<le> b" "b < fee + tf_Amount tx" | "fee + tf_Amount tx \<le> b" by linarith
    then show thesis
    proof cases
      case 1
      have "outcome ctx ?F (ctx_mark ctx) (Inl (VaultErr ErrMinusBalance)) res"
        unfolding res by (rule WithFee_poor[OF assms(4,5) 1[unfolded fee b]])
      from that[OF this] show thesis using 1 assms(7) by simp
    next
      case 2
      have "outcome ctx (fee_paid p (tf_From tx) ?F) (fee_marks p (tf_From tx) ?F (ctx_mark ctx))
          (Inl (VaultErr ErrMinusBalance)) res"
        unfolding res by (rule transfer_short[OF assms(4-7) 2[unfolded fee b]])
      from that[OF this] show thesis
        using 2 fee_paid_reads[OF 2(1)[unfolded fee b]] by (simp add: fee b)
    next
      case 3
      obtain H E where "outcome ctx H E (Inr ()) res"
        "\<And>c. bal p H c = bal p ?F c - (if c = tf_From tx then fee + tf_Amount tx else 0) + (if c = tf_To tx then tf_Amount tx else 0)"
        "collected p H = collected p ?F + fee"
        unfolding res fee using transfer_done[OF assms(4-7) mark 3[unfolded fee b]] by blast
      then show thesis using that[of H E "Inr ()"] 3 assms(7) by simp
    qed
  qed
  note oo = outcome_reads[OF o]
  show ?thesis
    using oo(1) r fst_Balance[OF oo(2) assms(9), of p] fst_Balance[OF assms(4,9), of p] oo(3)[OF assms(9), of p] H
      fst_CollectedFee[OF oo(2), of p] fst_CollectedFee[OF assms(4), of p] oo(4)[of p] c
    by simp
qed

text \<open>A context in which one account holds coins, for the examples.\<close>

definition funded :: "vault \<Rightarrow> address \<Rightarrow> amount \<Rightarrow> chain_ctx" where
  "funded p a x = ctx_set (bcell p a) (am_Bytes x) NewEmptyContext"

lemma funded_facts:
  assumes "is_address a" and "0 < x"
  shows "ctx_wf (funded p a x)" and "is_address c \<Longrightarrow> bal p (ctx_view (funded p a x)) c = (if c = a then x else 0)"
    and "default_fee p (ctx_view (funded p a x)) = 100000000000000000"
    and "collected p (ctx_view (funded p a x)) = 0" and "key_ok k \<Longrightarrow> \<not> ctx_mark (funded p a x) k"
proof -
  have wf: "ctx_wf NewEmptyContext" by (simp add: NewEmptyContext_def ctx_wf_NewContext)
  have empty: "ctx_view NewEmptyContext k = []" for k
    by (cases k) (simp_all add: ctx_view_def NewEmptyContext_def NewContext_def NewContextData_def alayer_def player_def
        emptyLoader_def)
  have view: "ctx_view (funded p a x) k = (if k = bcell p a then am_Bytes x else [])" if "key_ok k" for k
    unfolding funded_def using ctx_set_view[OF wf _ that, of "bcell p a" "am_Bytes x"] assms(1) empty by simp
  show "ctx_wf (funded p a x)" unfolding funded_def by (rule ctx_set_wf(1)[OF wf])
  show "is_address c \<Longrightarrow> bal p (ctx_view (funded p a x)) c = (if c = a then x else 0)"
    using view assms(2) by (simp add: bal_def)
  show "default_fee p (ctx_view (funded p a x)) = 100000000000000000" "collected p (ctx_view (funded p a x)) = 0"
    using view by (simp_all add: default_fee_def collected_def)
  show "key_ok k \<Longrightarrow> \<not> ctx_mark (funded p a x) k"
    unfolding funded_def ctx_mark_def using emptied_set_iff[OF wf, of "bcell p a" k "am_Bytes x"] assms
    by (simp add: NewEmptyContext_def NewContext_def ctx_Top_def)
qed

theorem transfer_execute_witness:
  "(let p = \<lparr>vt_pid = 2, vt_admin = \<lparr>ad_pid = 1\<rparr>, vt_magic = 0\<rparr>; a = NewAddress 0 1 0; b = NewAddress 0 2 0;
        ctx = funded p a 500000000000000000;
        tx = \<lparr>tf_Timestamp = 1, tf_From = a, tf_To = b, tf_Amount = 300000000000000000\<rparr>;
        res = Transfer_Execute p tx 0 ctx
    in fst res = Inr () \<and> fst (Balance p b (snd res)) = 300000000000000000 \<and>
       fst (CollectedFee p (snd res)) = 100000000000000000)"
proof -
  let ?p = "\<lparr>vt_pid = 2, vt_admin = \<lparr>ad_pid = 1\<rparr>, vt_magic = 0\<rparr>"
  let ?a = "NewAddress 0 1 0" and ?b = "NewAddress 0 2 0"
  let ?ctx = "funded ?p ?a 500000000000000000"
  let ?tx = "\<lparr>tf_Timestamp = 1, tf_From = ?a, tf_To = ?b, tf_Amount = 300000000000000000\<rparr>"
  have ab: "is_address ?a" "is_address ?b" "?a \<noteq> ?b" by code_simp+
  note f = funded_facts[OF ab(1), where x = 500000000000000000 and p = ?p, simplified]
  have "\<not> emptied (ctx_Top ?ctx) (bcell ?p ?b)"
    using f(5)[of "bcell ?p ?b"] ab(2) by (simp add: ctx_mark_def)
  with transfer_execute[where ctx = ?ctx and tx = ?tx and p = ?p and c = ?b and i = 0] f ab show ?thesis
    by (simp add: fst_GetDefaultFee fst_Balance fst_CollectedFee)
qed

section \<open>Conservation of coins\<close>

text \<open>The coins of a set of accounts together with the collected fees.\<close>

definition supplyF :: "vault \<Rightarrow> address set \<Rightarrow> (dkey \<Rightarrow> bytes) \<Rightarrow> amount" where
  "supplyF p A F = (\<Sum>a\<in>A. bal p F a) + collected p F"

definition total_supply :: "vault \<Rightarrow> address set \<Rightarrow> chain_ctx \<Rightarrow> amount" where
  "total_supply p A ctx = (\<Sum>a\<in>A. fst (Balance p a ctx)) + fst (CollectedFee p ctx)"

lemma total_supply_view:
  assumes "ctx_wf ctx" and "\<forall>a\<in>A. is_address a"
  shows "total_supply p A ctx = supplyF p A (ctx_view ctx)"
  using assms by (simp add: total_supply_def supplyF_def fst_Balance fst_CollectedFee)

lemma supplyF_cong:
  assumes "\<And>a. a \<in> A \<Longrightarrow> bal p F a = bal p G a" and "collected p F = collected p G"
  shows "supplyF p A F = supplyF p A G"
  using assms by (simp add: supplyF_def)

lemma supplyF_shift:
  assumes "finite A" and "a \<in> A" and "\<And>c. c \<in> A \<Longrightarrow> bal p G c = bal p F c + (if c = a then x else 0)"
  shows "(\<Sum>c\<in>A. bal p G c) = (\<Sum>c\<in>A. bal p F c) + x"
  using assms by (simp add: sum.distrib)

lemma supplyF_fee:
  assumes "finite A" and "a \<in> A" and "default_fee p F \<le> bal p F a"
  shows "supplyF p A (fee_paid p a F) = supplyF p A F"
proof -
  have "(\<Sum>c\<in>A. bal p (fee_paid p a F) c) = (\<Sum>c\<in>A. bal p F c) + - default_fee p F"
    by (rule supplyF_shift[OF assms(1,2)]) (simp add: fee_paid_reads[OF assms(3)])
  then show ?thesis using fee_paid_reads(2)[OF assms(3)] by (simp add: supplyF_def)
qed

text \<open>
  A body under \<^verbatim>\<open>WithFee\<close> that takes \<open>\<delta>\<close> out of the supply when it succeeds, and does not credit an empty
  balance of the payer.
\<close>

definition spends :: "vault \<Rightarrow> address set \<Rightarrow> address \<Rightarrow> amount \<Rightarrow> (chain_ctx, unit) go_meth \<Rightarrow> bool" where
  "spends p A a \<delta> fn \<longleftrightarrow>
     (\<forall>s ctx F. km.runs s ctx F (\<lambda>_. False) \<longrightarrow>
        (\<exists>e. fst (fn ctx) = Inl e \<and> ctx_local s (snd (fn ctx))) \<or>
        (\<exists>G E. outcome s G E (Inr ()) (fn ctx) \<and> supplyF p A G = supplyF p A F - \<delta> \<and>
           (bal p F a = 0 \<longrightarrow> bal p G a = 0)))"

lemma WithFee_supply:
  assumes "ctx_wf ctx" and "finite A" and "a \<in> A" and "\<forall>c\<in>A. is_address c \<and> \<not> ctx_mark ctx (bcell p c)"
    and "0 < default_fee p (ctx_view ctx)" and "spends p A a \<delta> fn"
  shows "ctx_wf (snd (WithFee p a (GetDefaultFee p) fn ctx)) \<and>
    total_supply p A (snd (WithFee p a (GetDefaultFee p) fn ctx))
      = total_supply p A ctx - (if fst (WithFee p a (GetDefaultFee p) fn ctx) = Inr () then \<delta> else 0)"
proof -
  let ?F = "ctx_view ctx" and ?res = "WithFee p a (GetDefaultFee p) fn ctx"
  have a: "is_address a" using assms(3,4) by blast
  have addrs: "\<forall>c\<in>A. is_address c" using assms(4) by blast
  have fin: "?thesis" if o: "outcome ctx H E r ?res" and H: "supplyF p A H = supplyF p A ?F - (if r = Inr () then \<delta> else 0)" for H E r
  proof -
    have "supplyF p A (ctx_view (snd ?res)) = supplyF p A H"
      using outcome_reads[OF o] addrs by (intro supplyF_cong) auto
    then show ?thesis
      using outcome_reads(1,2)[OF o] H total_supply_view[OF assms(1) addrs, of p] total_supply_view[OF outcome_reads(2)[OF o] addrs, of p]
      by simp
  qed
  show ?thesis
  proof (cases "default_fee p ?F \<le> bal p ?F a")
    case False
    then show ?thesis using fin[OF WithFee_poor[OF assms(1) a]] by simp
  next
    case True
    obtain s1 where s1: "km.runs s1 s1 (fee_paid p a ?F) (\<lambda>_. False)"
      "\<forall>e. fst (fn s1) = Inl e \<and> ctx_local s1 (snd (fn s1)) \<longrightarrow>
        outcome ctx (fee_paid p a ?F) (fee_marks p a ?F (ctx_mark ctx)) (Inl e) ?res"
      "\<forall>G E. outcome s1 G E (Inr ()) (fn s1) \<longrightarrow>
        outcome ctx (\<lambda>k. if fee_marks p a ?F (ctx_mark ctx) k then [] else G k)
          (\<lambda>k. E k \<or> fee_marks p a ?F (ctx_mark ctx) k) (Inr ()) ?res"
      by (rule WithFee_rich[OF assms(1) a True, of fn])
    consider e where "fst (fn s1) = Inl e" "ctx_local s1 (snd (fn s1))"
      | G E where "outcome s1 G E (Inr ()) (fn s1)" "supplyF p A G = supplyF p A (fee_paid p a ?F) - \<delta>"
          "bal p (fee_paid p a ?F) a = 0 \<longrightarrow> bal p G a = 0"
      using assms(6) s1(1) unfolding spends_def by blast
    then show ?thesis
    proof cases
      case 1
      then have "outcome ctx (fee_paid p a ?F) (fee_marks p a ?F (ctx_mark ctx)) (Inl e) ?res" using s1(2) by blast
      from fin[OF this] show ?thesis using supplyF_fee[OF assms(2,3) True] by simp
    next
      case 2
      let ?H = "\<lambda>k. if fee_marks p a ?F (ctx_mark ctx) k then [] else G k"
      have o: "outcome ctx ?H (\<lambda>k. E k \<or> fee_marks p a ?F (ctx_mark ctx) k) (Inr ()) ?res" using s1(3) 2(1) by blast
      have "bal p ?H c = bal p G c" if "c \<in> A" for c
        using that assms(4) 2(3) fee_paid_reads(1)[OF True, of a] by (auto simp: bal_def fee_marks_def)
      moreover have "collected p ?F + default_fee p ?F \<noteq> 0"
        using assms(5) bal_nonneg(2)[of p ?F] by linarith
      then have "\<not> fee_marks p a ?F (ctx_mark ctx) (ccell p)" by (simp add: fee_marks_def)
      then have "collected p ?H = collected p G" by (simp add: collected_def)
      ultimately have "supplyF p A ?H = supplyF p A G" by (intro supplyF_cong)
      with fin[OF o] 2(2) show ?thesis using supplyF_fee[OF assms(2,3) True] by simp
    qed
  qed
qed

lemma outcome_error:
  "outcome s F E (Inl e) res \<Longrightarrow> \<exists>e. fst res = Inl e \<and> ctx_local s (snd res)"
  using outcome_reads(1) outcome_local by blast

lemma spends_transfer:
  assumes "finite A" and "a \<in> A" and "b \<in> A" and "\<forall>c\<in>A. is_address c" and "0 \<le> am"
  shows "spends p A a 0 (transferAmount p a b am)"
  unfolding spends_def
proof (intro allI impI)
  fix s ctx F assume r: "km.runs s ctx F (\<lambda>_. False)"
  have ab: "is_address a" "is_address b" using assms(2-4) by auto
  let ?fn = "transferAmount p a b am"
  show "(\<exists>e. fst (?fn ctx) = Inl e \<and> ctx_local s (snd (?fn ctx))) \<or>
    (\<exists>G E. outcome s G E (Inr ()) (?fn ctx) \<and> supplyF p A G = supplyF p A F - 0 \<and> (bal p F a = 0 \<longrightarrow> bal p G a = 0))"
  proof (cases "am \<le> bal p F a")
    case False
    then have "bal p F a < am" by simp
    from outcome_error[OF transferAmount_runs(1)[OF r ab assms(5) this]] show ?thesis ..
  next
    case True
    then obtain G E' where G: "outcome s G E' (Inr ()) (?fn ctx)"
      "\<And>c. bal p G c = bal p F c - (if c = a then am else 0) + (if c = b then am else 0)" "collected p G = collected p F"
      using transferAmount_runs(2)[OF r ab assms(5), of p] by blast
    have "(\<Sum>c\<in>A. bal p G c) = (\<Sum>c\<in>A. bal p F c - (if c = a then am else 0)) + am"
      using assms(1,3) by (simp add: G(2) sum.distrib)
    also have "\<dots> = (\<Sum>c\<in>A. bal p F c)"
      using assms(1,2) by (simp add: sum_subtractf)
    finally have "supplyF p A G = supplyF p A F" by (simp add: supplyF_def G(3))
    moreover have "bal p F a = 0 \<longrightarrow> bal p G a = 0" using G(2)[of a] True assms(5) by auto
    ultimately show ?thesis using G(1) by auto
  qed
qed

lemma spends_burn:
  assumes "finite A" and "a \<in> A" and "\<forall>c\<in>A. is_address c" and "0 \<le> am"
  shows "spends p A a am (SubBalance p a am)"
  unfolding spends_def
proof (intro allI impI)
  fix s ctx F assume r: "km.runs s ctx F (\<lambda>_. False)"
  have a: "is_address a" using assms(2,3) by auto
  show "(\<exists>e. fst (SubBalance p a am ctx) = Inl e \<and> ctx_local s (snd (SubBalance p a am ctx))) \<or>
    (\<exists>G E. outcome s G E (Inr ()) (SubBalance p a am ctx) \<and> supplyF p A G = supplyF p A F - am \<and> (bal p F a = 0 \<longrightarrow> bal p G a = 0))"
  proof (cases "am \<le> bal p F a")
    case False
    then have "bal p F a < am" by simp
    from outcome_error[OF SubBalance_runs(1)[OF r a this]] show ?thesis ..
  next
    case True
    let ?G = "F(bcell p a := am_Bytes (bal p F a - am))"
    have "(\<Sum>c\<in>A. bal p ?G c) = (\<Sum>c\<in>A. bal p F c) + - am"
      by (rule supplyF_shift[OF assms(1,2)]) (use True in auto)
    then have "supplyF p A ?G = supplyF p A F - am" by (simp add: supplyF_def)
    moreover have "bal p F a = 0 \<longrightarrow> bal p ?G a = 0" using True assms(4) by auto
    ultimately show ?thesis using SubBalance_runs(2)[OF r a True] by blast
  qed
qed

lemma ctx_CreateAccount_runs:
  assumes "km.runs s ctx F E"
  shows "outcome s F E (fst (ctx_CreateAccount d acc ctx)) (ctx_CreateAccount d acc ctx)"
proof -
  have wf: "ctx_wf ctx" using km.runs_wf[OF assms] .
  obtain t ps where st: "ctx_stack ctx = t # ps"
    using wf unfolding ctx_wf_def by (auto elim: stack_okE)
  have "stack_view ld (insert_account acc t # ps) k = stack_view ld (t # ps) k"
      "emptied (insert_account acc t) k = emptied t k" for ld k
    by (cases k; simp add: insert_account_def alayer_def player_def emptied_def)+
  then have "ctx_view (snd (ctx_CreateAccount d acc ctx)) k = ctx_view ctx k \<and>
      ctx_mark (snd (ctx_CreateAccount d acc ctx)) k = ctx_mark ctx k" for k
    using st by (auto simp: ctx_CreateAccount_def ctx_setTop_def ctx_dirty_def ctx_view_def ctx_mark_def ctx_Top_def Let_def
        split: sum.split)
  then show ?thesis
    using assms ctx_local_ops(1)[OF wf, of d acc]
    by (auto simp: outcome_def km.runs_def kv.steps_def ctx_local_def intro: ctx_frame_trans)
qed

text \<open>The part of an account creation that moves coins, then creates the account.\<close>

lemma spends_create:
  assumes "finite A" and "a \<in> A" and "\<forall>c\<in>A. is_address c"
    and "\<And>s ctx F E. km.runs s ctx F E \<Longrightarrow> \<exists>r. outcome s F E r (mk ctx)"
  shows "spends p A a 0 (thenE (SubBalance p a am) (thenE (AddCollectedFee p am) mk))"
  unfolding spends_def
proof (intro allI impI)
  fix s ctx F assume r: "km.runs s ctx F (\<lambda>_. False)"
  have a: "is_address a" using assms(2,3) by auto
  let ?fn = "thenE (SubBalance p a am) (thenE (AddCollectedFee p am) mk)"
  let ?F1 = "F(bcell p a := am_Bytes (bal p F a - am))" and ?E1 = "(\<lambda>_. False)(bcell p a := (bal p F a - am = 0))"
  let ?F2 = "?F1(ccell p := am_Bytes (collected p ?F1 + am))" and ?E2 = "?E1(ccell p := (collected p ?F1 + am = 0))"
  consider "bal p F a < am" | "am \<le> bal p F a" "am < 0" | "am \<le> bal p F a" "0 \<le> am" by linarith
  then show "(\<exists>e. fst (?fn ctx) = Inl e \<and> ctx_local s (snd (?fn ctx))) \<or>
    (\<exists>G E. outcome s G E (Inr ()) (?fn ctx) \<and> supplyF p A G = supplyF p A F - 0 \<and> (bal p F a = 0 \<longrightarrow> bal p G a = 0))"
  proof cases
    case 1
    have "outcome s F (\<lambda>_. False) (Inl (VaultErr ErrMinusBalance)) (?fn ctx)"
      by (rule outcome_bind_error, rule SubBalance_runs(1)[OF r a 1])
    from outcome_error[OF this] show ?thesis ..
  next
    case 2
    have "outcome s ?F1 ?E1 (Inl (VaultErr ErrMinusInput)) (?fn ctx)"
      by (rule outcome_bind, rule SubBalance_runs(2)[OF r a 2(1)], rule outcome_bind_error, erule AddCollectedFee_runs(1)[OF _ 2(2)])
    from outcome_error[OF this] show ?thesis ..
  next
    case 3
    obtain c1 where c1: "SubBalance p a am ctx = (Inr (), c1)" "km.runs s c1 ?F1 ?E1"
      by (rule outcomeE[OF SubBalance_runs(2)[OF r a 3(1)]])
    obtain c2 where c2: "AddCollectedFee p am c1 = (Inr (), c2)" "km.runs s c2 ?F2 ?E2"
      by (rule outcomeE[OF AddCollectedFee_runs(2)[OF c1(2) 3(2), of p]])
    obtain x where x: "outcome s ?F2 ?E2 x (mk c2)" using assms(4)[OF c2(2)] by blast
    have fn: "?fn ctx = mk c2" using c1(1) c2(1) by (simp add: bindE_def)
    have "(\<Sum>c\<in>A. bal p ?F2 c) = (\<Sum>c\<in>A. bal p F c) + - am"
      by (rule supplyF_shift[OF assms(1,2)]) (use 3 in auto)
    then have "supplyF p A ?F2 = supplyF p A F" using 3 bal_nonneg(2)[of p F] by (simp add: supplyF_def)
    moreover have "bal p F a = 0 \<longrightarrow> bal p ?F2 a = 0" using 3 by auto
    ultimately show ?thesis
    proof (cases x)
      case (Inl e)
      with x fn have "outcome s ?F2 ?E2 (Inl e) (?fn ctx)" by simp
      from outcome_error[OF this] show ?thesis ..
    next
      case (Inr u)
      with x fn have "outcome s ?F2 ?E2 (Inr ()) (?fn ctx)" by simp
      then show ?thesis using \<open>supplyF p A ?F2 = supplyF p A F\<close> \<open>bal p F a = 0 \<longrightarrow> bal p ?F2 a = 0\<close>
        by (intro disjI2 exI[of _ ?F2] exI[of _ ?E2]) simp
    qed
  qed
qed

lemma spends_policy:
  assumes "\<And>policy. spends p A a \<delta> (k policy)"
  shows "spends p A a \<delta> (bindE (readE (ctx_ProcessData pid n)) (\<lambda>bs. bindE (liftE (decPolicy bs)) k))"
  unfolding spends_def
proof (intro allI impI)
  fix s ctx F assume r: "km.runs s ctx F (\<lambda>_. False)"
  let ?fn = "bindE (readE (ctx_ProcessData pid n)) (\<lambda>bs. bindE (liftE (decPolicy bs)) k)"
  obtain c where c: "ctx_ProcessData pid n ctx = (F (PData pid n), c)" "km.runs s c F (\<lambda>_. False)"
    using km.runs_get[OF r, of "PData pid n"] by auto
  have "?fn ctx = (case decPolicy (F (PData pid n)) of Inl e \<Rightarrow> (Inl e, c) | Inr policy \<Rightarrow> k policy c)"
    using c(1) by (simp add: bindE_def readE_def liftE_def split: sum.split)
  then show "(\<exists>e. fst (?fn ctx) = Inl e \<and> ctx_local s (snd (?fn ctx))) \<or>
    (\<exists>G E. outcome s G E (Inr ()) (?fn ctx) \<and> supplyF p A G = supplyF p A F - \<delta> \<and> (bal p F a = 0 \<longrightarrow> bal p G a = 0))"
    using assms c(2) outcome_local[of s F "\<lambda>_. False" _ "(_, c)"]
    by (cases "decPolicy (F (PData pid n))") (auto simp: spends_def)
qed

text \<open>Operations that touch neither a balance nor the collected fees.\<close>

lemma supply_outcome:
  assumes "ctx_wf ctx" and "\<forall>c\<in>A. is_address c" and "outcome ctx (ctx_view ctx) E r res"
  shows "total_supply p A (snd res) = total_supply p A ctx"
  using outcome_reads[OF assms(3)] assms(1,2) by (simp add: total_supply_view supplyF_def)

lemma supply_SetProcessData:
  assumes "ctx_wf ctx" and "\<forall>c\<in>A. is_address c" and "n \<noteq> tagCollectedFee"
  shows "total_supply p A (ctx_SetProcessData (vt_pid p) n v ctx) = total_supply p A ctx"
proof -
  have "ctx_wf (ctx_set (PData (vt_pid p) n) v ctx)" by (rule ctx_set_wf(1)[OF assms(1)])
  moreover have "supplyF p A (ctx_view (ctx_set (PData (vt_pid p) n) v ctx)) = supplyF p A (ctx_view ctx)"
    using ctx_set_view[OF assms(1), of "PData (vt_pid p) n"] assms(2,3)
    by (intro supplyF_cong) (simp_all add: bal_def collected_def)
  ultimately show ?thesis using total_supply_view[OF _ assms(2)] assms(1) by simp
qed

text \<open>
  C5: no transaction of the vault creates coins, and only a burn destroys them. Executed with a positive
  fee on a context whose top snapshot has emptied none of the balance cells concerned, the balances of any set of
  accounts that contains the parties, together with the collected fees, add up to the same total after a transfer and
  a tagged transfer of an amount that is not negative and after both account creations, whether they succeed or
  fail; a burn that succeeds lowers the total by the burnt amount. The three administrative
  transactions (issuing an account, changing the policy or the default fee) leave the total of every set of accounts
  alone.
\<close>

theorem vault_conserves:
  assumes "ctx_wf ctx" and "finite A" and "\<forall>c\<in>A. is_address c \<and> \<not> emptied (ctx_Top ctx) (AData c (vt_pid p) tagBalance)"
    and "0 < fst (GetDefaultFee p ctx)"
  shows "(\<forall>tx i. tf_From tx \<in> A \<and> tf_To tx \<in> A \<and> 0 \<le> tf_Amount tx \<longrightarrow>
      total_supply p A (snd (Transfer_Execute p tx i ctx)) = total_supply p A ctx) \<and>
    (\<forall>tx i. tt_From tx \<in> A \<and> tt_To tx \<in> A \<and> 0 \<le> tt_Amount tx \<longrightarrow>
      total_supply p A (snd (TransferWithTag_Execute p tx i ctx)) = total_supply p A ctx) \<and>
    (\<forall>tx i. ca_From tx \<in> A \<longrightarrow>
      total_supply p A (snd (CreateAccount_Execute decPolicy d p tx i ctx)) = total_supply p A ctx) \<and>
    (\<forall>tx i. cm_From tx \<in> A \<longrightarrow>
      total_supply p A (snd (CreateMultiAccount_Execute d p tx i ctx)) = total_supply p A ctx) \<and>
    (\<forall>tx i. bu_From tx \<in> A \<and> 0 \<le> bu_Amount tx \<longrightarrow>
      total_supply p A (snd (Burn_Execute p tx i ctx))
        = total_supply p A ctx - (if fst (Burn_Execute p tx i ctx) = Inr () then bu_Amount tx else 0)) \<and>
    (\<forall>tx i. total_supply p A (snd (IssueAccount_Execute d p tx i ctx)) = total_supply p A ctx) \<and>
    (\<forall>tx i. total_supply p A (snd (UpdatePolicy_Execute encPolicy p tx i ctx)) = total_supply p A ctx) \<and>
    (\<forall>tx i. total_supply p A (snd (UpdateDefaultFee_Execute p tx i ctx)) = total_supply p A ctx)"
proof -
  have A: "\<forall>c\<in>A. is_address c" and m: "\<forall>c\<in>A. is_address c \<and> \<not> ctx_mark ctx (bcell p c)"
    using assms(3) by (auto simp: ctx_mark_def)
  have fee: "0 < default_fee p (ctx_view ctx)" using assms(1,4) by (simp add: fst_GetDefaultFee)
  note W = WithFee_supply[OF assms(1,2) _ m fee, THEN conjunct2]
  have create: "spends p A a 0 (thenE (SubBalance p a am) (thenE (AddCollectedFee p am)
      (\<lambda>ctx. ctx_CreateAccount d (f ctx) ctx)))" if "a \<in> A" for a am f
    using ctx_CreateAccount_runs by (intro spends_create[OF assms(2) that A]) blast
  have "spends p A a 0 (bindE (readE (ctx_ProcessData q n)) (\<lambda>bs. bindE (liftE (decPolicy bs))
      (\<lambda>policy. thenE (SubBalance p a (g policy)) (thenE (AddCollectedFee p (g policy))
      (\<lambda>ctx. ctx_CreateAccount d (f ctx) ctx)))))" if "a \<in> A" for a q n f g
    using create[OF that] by (intro spends_policy)
  note P = W[OF _ this]
  have issue: "total_supply p A (snd (IssueAccount_Execute d p tx i ctx)) = total_supply p A ctx" for tx i
    unfolding IssueAccount_Execute_def by (rule supply_outcome[OF assms(1) A ctx_CreateAccount_runs[OF km.runs_refl[OF assms(1)]]])
  have policy: "total_supply p A (snd (UpdatePolicy_Execute encPolicy p tx i ctx)) = total_supply p A ctx" for tx i
    using supply_SetProcessData[OF assms(1) A, of tagPolicy]
    by (simp add: UpdatePolicy_Execute_def bindE_def liftE_def writeE_def tagPolicy_def tagCollectedFee_def split: sum.split)
  have "total_supply p A (snd (UpdateDefaultFee_Execute p tx i ctx)) = total_supply p A ctx" for tx i
    using supply_SetProcessData[OF assms(1) A, of tagDefaultFee]
    by (simp add: UpdateDefaultFee_Execute_def throwE_def writeE_def tagDefaultFee_def tagCollectedFee_def split: option.split)
  with issue policy show ?thesis
    unfolding Transfer_Execute_def TransferWithTag_Execute_def CreateAccount_Execute_def
      CreateMultiAccount_Execute_def Burn_Execute_def
    using W[OF _ spends_transfer[OF assms(2) _ _ A]] W[OF _ spends_burn[OF assms(2) _ A]]
      P W[OF _ create]
    by simp
qed

theorem vault_conserves_witness:
  "(let p = \<lparr>vt_pid = 2, vt_admin = \<lparr>ad_pid = 1\<rparr>, vt_magic = 0\<rparr>; a = NewAddress 0 1 0; b = NewAddress 0 2 0;
        ctx = funded p a 500000000000000000;
        tx = \<lparr>tf_Timestamp = 1, tf_From = a, tf_To = b, tf_Amount = 300000000000000000\<rparr>
    in total_supply p {a, b} (snd (Transfer_Execute p tx 0 ctx)) = 500000000000000000)"
proof -
  let ?p = "\<lparr>vt_pid = 2, vt_admin = \<lparr>ad_pid = 1\<rparr>, vt_magic = 0\<rparr>"
  let ?a = "NewAddress 0 1 0" and ?b = "NewAddress 0 2 0"
  let ?ctx = "funded ?p ?a 500000000000000000"
  have ab: "is_address ?a" "is_address ?b" "?a \<noteq> ?b" by code_simp+
  note f = funded_facts[OF ab(1), where x = 500000000000000000 and p = ?p, simplified]
  have "\<forall>c\<in>{?a, ?b}. is_address c \<and> \<not> emptied (ctx_Top ?ctx) (bcell ?p c)"
    using f(5)[of "bcell ?p ?a"] f(5)[of "bcell ?p ?b"] ab by (simp add: ctx_mark_def)
  moreover have "0 < fst (GetDefaultFee ?p ?ctx)" using f by (simp add: fst_GetDefaultFee)
  ultimately have "total_supply ?p {?a, ?b} (snd (Transfer_Execute ?p
      \<lparr>tf_Timestamp = 1, tf_From = ?a, tf_To = ?b, tf_Amount = 300000000000000000\<rparr> 0 ?ctx))
    = total_supply ?p {?a, ?b} ?ctx"
    using vault_conserves[OF f(1), of "{?a, ?b}" ?p] by simp
  moreover have "total_supply ?p {?a, ?b} ?ctx = 500000000000000000"
    using f ab total_supply_view[OF f(1), of "{?a, ?b}" ?p] by (simp add: supplyF_def)
  ultimately show ?thesis by (simp add: Let_def)
qed

section \<open>The wire form of a transfer\<close>

lemma go_copy_slice:
  assumes "length xs = n" and "k \<le> n"
  shows "go_copy (zeros n) (slice 0 k xs) = xs \<longleftrightarrow> drop k xs = zeros (n - k)"
proof -
  have "go_copy (zeros n) (slice 0 k xs) = take k xs @ zeros (n - k)"
    using assms by (simp add: go_copy_def slice_def min_def)
  then show ?thesis
    by (metis append_take_drop_id same_append_eq)
qed

text \<open>
  C40: a transfer comes back from its wire form exactly when both addresses are zero behind their first
  six bytes and the amount is not negative: the encoder writes six bytes of each address although an
  address has fourteen.
\<close>

theorem transfer_codec:
  assumes "msgpack_ok mp" and "is_address (tf_From tx)" and "is_address (tf_To tx)" and "short (am_Bytes (tf_Amount tx))"
  shows "transfer_decode mp (transfer_encode mp tx) = (Inr tx, []) \<longleftrightarrow>
    drop 6 (tf_From tx) = zeros 8 \<and> drop 6 (tf_To tx) = zeros 8 \<and> 0 \<le> tf_Amount tx"
proof -
  have "transfer_decode mp (transfer_encode mp tx @ []) = (Inr \<lparr>tf_Timestamp = tf_Timestamp tx,
      tf_From = go_copy (zeros AddressSize) (slice 0 6 (tf_From tx)),
      tf_To = go_copy (zeros AddressSize) (slice 0 6 (tf_To tx)), tf_Amount = \<bar>tf_Amount tx\<bar>\<rparr>, [])"
    using assms(4) msgpack_reads[OF assms(1)] msgpack_reads(7)[OF assms(1), where rest = "[]"]
    by (simp add: transfer_decode_def transfer_encode_def decode_array_def bindE_def returnE_def short_def min_def)
  then have "transfer_decode mp (transfer_encode mp tx) = (Inr tx, []) \<longleftrightarrow>
    go_copy (zeros AddressSize) (slice 0 6 (tf_From tx)) = tf_From tx \<and>
    go_copy (zeros AddressSize) (slice 0 6 (tf_To tx)) = tf_To tx \<and> \<bar>tf_Amount tx\<bar> = tf_Amount tx"
    by (cases tx) auto
  then show ?thesis
    using go_copy_slice[of "tf_From tx" AddressSize 6] go_copy_slice[of "tf_To tx" AddressSize 6] assms
    by (auto simp: is_address_def AddressSize_def)
qed

theorem transfer_codec_witness:
  "(let tx = \<lparr>tf_Timestamp = 1, tf_From = NewAddress 0 1 0, tf_To = NewAddress 0 2 0, tf_Amount = 5\<rparr>
    in transfer_decode plain_msgpack (transfer_encode plain_msgpack tx) = (Inr tx, []))"
proof -
  let ?tx = "\<lparr>tf_Timestamp = 1, tf_From = NewAddress 0 1 0, tf_To = NewAddress 0 2 0, tf_Amount = 5\<rparr>"
  have "is_address (NewAddress 0 1 0)" "is_address (NewAddress 0 2 0)"
    "drop 6 (NewAddress 0 1 0) = zeros 8" "drop 6 (NewAddress 0 2 0) = zeros 8" "length (am_Bytes 5) = 1" by code_simp+
  then show ?thesis
    using transfer_codec[OF plain_msgpack_ok, of ?tx] by (simp add: Let_def short_def)
qed

end
