(* ===== verification/Rank_Table.thy ===== *)
theory Rank_Table
  imports Keys Wire "HOL-Library.Product_Lexorder" "HOL-Library.Multiset"
begin

text \<open>
  The rank table of the proof of formulation (\<^verbatim>\<open>pof/rank.go\<close>, \<^verbatim>\<open>pof/rank_table.go\<close>), which decides who
  generates the next block.

  The table holds pointers: the slice \<^verbatim>\<open>candidates\<close> and the map \<^verbatim>\<open>rankMap\<close> share their \<^verbatim>\<open>*Rank\<close> values, and
  moving a candidate changes the shared object. So the objects live in a heap, and slice and map hold
  references to it. The lemmas show that the slice stays strictly ordered, that slice and map describe the
  same candidates, that moving a candidate is an ordered insertion, and that the rotation is fair.
\<close>

section \<open>Ranks\<close>

record rank =
  rk_Address :: address
  rk_PublicHash :: pubhash
  rk_phase :: u32
  rk_hashSpace :: hash256
  rk_score :: u64

text \<open>The hash space is a \<^verbatim>\<open>[32]byte\<close>, so reading its first four bytes never fails.\<close>

definition rank_update :: "rank \<Rightarrow> rank" where
  "rank_update r =
     r\<lparr>rk_score := push_bit 32 (ucast (rk_phase r)) + ucast (the (LE_Uint32 (slice 0 4 (rk_hashSpace r))))\<rparr>"

definition NewRank :: "address \<Rightarrow> pubhash \<Rightarrow> u32 \<Rightarrow> hash256 \<Rightarrow> rank" where
  "NewRank addr PublicHash phase hashSpace =
     rank_update \<lparr>rk_Address = addr, rk_PublicHash = PublicHash, rk_phase = phase,
       rk_hashSpace = hashSpace, rk_score = 0\<rparr>"

definition rank_Clone :: "rank \<Rightarrow> rank" where
  "rank_Clone r = NewRank (rk_Address r) (rk_PublicHash r) (rk_phase r) (rk_hashSpace r)"

definition rank_Less :: "rank \<Rightarrow> rank \<Rightarrow> bool" where
  "rank_Less a b \<longleftrightarrow> rk_score a < rk_score b \<or> rk_score a = rk_score b \<and> rk_Address a < rk_Address b"

definition rank_Equal :: "rank \<Rightarrow> rank \<Rightarrow> bool" where
  "rank_Equal a b \<longleftrightarrow> rk_score a = rk_score b \<and> rk_Address a = rk_Address b"

definition rank_IsZero :: "rank \<Rightarrow> bool" where
  "rank_IsZero r \<longleftrightarrow> rk_score r = 0 \<and> rk_Address r = zeros AddressSize"

definition rank_Set :: "u32 \<Rightarrow> hash256 \<Rightarrow> rank \<Rightarrow> rank" where
  "rank_Set phase hashSpace r = rank_update (r\<lparr>rk_phase := phase, rk_hashSpace := hashSpace\<rparr>)"

definition rank_SetPhase :: "u32 \<Rightarrow> rank \<Rightarrow> rank" where
  "rank_SetPhase phase r = rank_update (r\<lparr>rk_phase := phase\<rparr>)"

definition rank_SetHashSpace :: "hash256 \<Rightarrow> rank \<Rightarrow> rank" where
  "rank_SetHashSpace hashSpace r = rank_update (r\<lparr>rk_hashSpace := hashSpace\<rparr>)"

definition rank_Key :: "rank \<Rightarrow> bytes" where
  "rank_Key r = rk_Address r @ str_bytes '','' @ LE_Uint64ToBytes (rk_score r)"

section \<open>The table\<close>

record rank_table =
  rt_height :: u32
  rt_candidates :: "nat list"
  rt_rankMap :: "address \<Rightarrow> nat option"
  rt_heap :: "rank list"

definition NewRankTable :: rank_table where
  "NewRankTable = \<lparr>rt_height = 0, rt_candidates = [], rt_rankMap = (\<lambda>_. None), rt_heap = []\<rparr>"

text \<open>The object behind a reference, and the candidates in order.\<close>

definition rank_at :: "rank_table \<Rightarrow> nat \<Rightarrow> rank" where
  "rank_at rt r = rt_heap rt ! r"

definition ranks :: "rank_table \<Rightarrow> rank list" where
  "ranks rt = map (rank_at rt) (rt_candidates rt)"

definition rt_Candidates :: "rank_table \<Rightarrow> rank list" where
  "rt_Candidates rt = map rank_Clone (ranks rt)"

definition CandidateCount :: "rank_table \<Rightarrow> nat" where
  "CandidateCount rt = length (rt_candidates rt)"

definition TopRank :: "nat \<Rightarrow> rank_table \<Rightarrow> err + rank" where
  "TopRank TimeoutCount rt =
     (if length (rt_candidates rt) \<le> TimeoutCount then Inl (PofErr ErrInsufficientCandidateCount)
      else Inr (rank_Clone (rank_at rt (rt_candidates rt ! TimeoutCount))))"

text \<open>The map argument: \<^verbatim>\<open>FormulatorMap[addr]\<close> is false for an absent address.\<close>

definition in_map :: "(address, bool) omap \<Rightarrow> address \<Rightarrow> bool" where
  "in_map m addr = (om_get m addr = Some True)"

fun top_in_map :: "(address, bool) omap \<Rightarrow> nat \<Rightarrow> rank list \<Rightarrow> err + rank \<times> nat" where
  "top_in_map m i [] = Inl (PofErr ErrInsufficientCandidateCount)"
| "top_in_map m i (r # rs) = (if in_map m (rk_Address r) then Inr (r, i) else top_in_map m (i + 1) rs)"

definition TopRankInMap :: "(address, bool) omap \<Rightarrow> rank_table \<Rightarrow> err + rank \<times> nat" where
  "TopRankInMap m rt =
     (if om_len m = 0 then Inl (PofErr ErrInsufficientCandidateCount) else top_in_map m 0 (ranks rt))"

fun ranks_in_map :: "(address, bool) omap \<Rightarrow> int \<Rightarrow> rank list \<Rightarrow> rank list \<Rightarrow> rank list" where
  "ranks_in_map m Limit [] acc = acc"
| "ranks_in_map m Limit (r # rs) acc =
     (if in_map m (rk_Address r)
      then (let acc = acc @ [r] in if Limit \<le> int (length acc) then acc else ranks_in_map m Limit rs acc)
      else ranks_in_map m Limit rs acc)"

definition RanksInMap :: "(address, bool) omap \<Rightarrow> int \<Rightarrow> rank_table \<Rightarrow> err + rank list" where
  "RanksInMap m Limit rt =
     (if om_len m = 0 then Inl (PofErr ErrInsufficientCandidateCount)
      else Inr (ranks_in_map m (if Limit < 1 then 1 else Limit) (ranks rt) []))"

definition IsFormulator :: "address \<Rightarrow> pubhash \<Rightarrow> rank_table \<Rightarrow> bool" where
  "IsFormulator Formulator Publichash rt =
     (case rt_rankMap rt Formulator of None \<Rightarrow> False
      | Some r \<Rightarrow> rk_PublicHash (rank_at rt r) = Publichash)"

definition smallestPhase :: "rank_table \<Rightarrow> u32" where
  "smallestPhase rt =
     (if rt_candidates rt = [] then 0 else rk_phase (rank_at rt (rt_candidates rt ! 0)))"

definition largestPhase :: "rank_table \<Rightarrow> u32" where
  "largestPhase rt =
     (if rt_candidates rt = [] then 0
      else rk_phase (rank_at rt (rt_candidates rt ! (length (rt_candidates rt) - 1))))"

section \<open>Changing the table\<close>

definition InsertRankToList :: "(nat \<Rightarrow> rank) \<Rightarrow> nat list \<Rightarrow> nat \<Rightarrow> nat list" where
  "InsertRankToList at rs s =
     (let idx = sort_search (length rs) (\<lambda>i. rank_Less (at s) (at (rs ! i)));
          rs = rs @ [s]
      in (copy_at (idx + 1) rs (drop idx rs))[idx := s])"

text \<open>\<^verbatim>\<open>addRank\<close> is given a pointer to a new object, which the model allocates here.\<close>

definition addRank :: "rank \<Rightarrow> (rank_table, unit) go_meth" where
  "addRank s rt =
     (if 0 < length (rt_candidates rt) \<and> rk_phase s < rk_phase (rank_at rt (rt_candidates rt ! 0))
      then (Inl (PofErr ErrInvalidPhase), rt)
      else if rt_rankMap rt (rk_Address s) \<noteq> None then (Inl (PofErr ErrExistAddress_pof), rt)
      else
        let p = length (rt_heap rt);
            rt = rt\<lparr>rt_heap := rt_heap rt @ [s]\<rparr>;
            rt = rt\<lparr>rt_candidates := InsertRankToList (rank_at rt) (rt_candidates rt) p\<rparr>
        in (Inr (), rt\<lparr>rt_rankMap := (rt_rankMap rt)(rk_Address s \<mapsto> p)\<rparr>))"

definition removeRank :: "address \<Rightarrow> rank_table \<Rightarrow> rank_table" where
  "removeRank addr rt =
     (if rt_rankMap rt addr \<noteq> None
      then rt\<lparr>rt_rankMap := (rt_rankMap rt)(addr := None),
              rt_candidates := filter (\<lambda>s. rk_Address (rank_at rt s) \<noteq> addr) (rt_candidates rt)\<rparr>
      else rt)"

text \<open>The object at the front has been changed: move its reference to its place in the slice.\<close>

definition reinsert_top :: "rank_table \<Rightarrow> rank_table" where
  "reinsert_top rt =
     (let cs = rt_candidates rt; m = cs ! 0;
          idx = sort_search (length cs - 1) (\<lambda>i. rank_Less (rank_at rt m) (rank_at rt (cs ! (i + 1))))
      in rt\<lparr>rt_candidates := (go_copy cs (slice 1 (idx + 1) cs))[idx := m]\<rparr>)"

definition on_top :: "(rank \<Rightarrow> rank) \<Rightarrow> rank_table \<Rightarrow> rank_table" where
  "on_top f rt = (let m = rt_candidates rt ! 0 in rt\<lparr>rt_heap := (rt_heap rt)[m := f (rank_at rt m)]\<rparr>)"

definition skip_top :: "rank_table \<Rightarrow> rank_table" where
  "skip_top rt = reinsert_top (on_top (\<lambda>m. rank_SetPhase (rk_phase m + 2) m) rt)"

definition forwardCandidates :: "nat \<Rightarrow> (rank_table, unit) go_meth" where
  "forwardCandidates TimeoutCount rt =
     (if length (rt_candidates rt) \<le> TimeoutCount then (Inl (PofErr ErrExceedCandidateCount), rt)
      else (Inr (), (skip_top ^^ TimeoutCount) rt))"

definition forwardTop :: "hash256 \<Rightarrow> (rank_table, unit) go_meth" where
  "forwardTop LastTableAppendHash rt =
     (if rt_candidates rt = [] then (Inl Panic, rt)
      else
        let rt = reinsert_top (on_top (\<lambda>t. rank_Set (rk_phase t + 1) LastTableAppendHash t) rt)
        in (Inr (), rt\<lparr>rt_height := rt_height rt + 1\<rparr>))"

section \<open>Order\<close>

text \<open>Ranks are compared by score and then by address.\<close>

definition rank_key :: "rank \<Rightarrow> u64 \<times> address" where
  "rank_key r = (rk_score r, rk_Address r)"

lemma rank_Less_key: "rank_Less a b \<longleftrightarrow> rank_key a < rank_key b"
  by (auto simp: rank_Less_def rank_key_def less_prod_def)

lemma rank_Less_fun: "rank_Less = (\<lambda>a b. rank_key a < rank_key b)"
  by (simp add: fun_eq_iff rank_Less_key)

lemma map_insort_key: "map f (insort_key (\<lambda>x. g (f x)) x xs) = insort_key g (f x) (map f xs)"
  by (induction xs) auto

text \<open>Binary search for the first larger element finds the place of an ordered insertion.\<close>

lemma search_insort:
  fixes k :: "'a \<Rightarrow> 'b::linorder"
  assumes "sorted_wrt (\<lambda>x y. k x < k y) xs" and "k m \<notin> k ` set xs"
  shows "take (sort_search (length xs) (\<lambda>i. k m < k (xs ! i))) xs @
    m # drop (sort_search (length xs) (\<lambda>i. k m < k (xs ! i))) xs = insort_key k m xs"
proof -
  let ?n = "length (takeWhile (\<lambda>x. k x < k m) xs)"
  have mono: "k (xs ! i) < k (xs ! j)" if "i < j" "j < length xs" for i j
    using assms(1) that by (simp add: sorted_wrt_iff_nth_less)
  have "switches_at (length xs) (\<lambda>i. k m < k (xs ! i)) ?n"
    unfolding switches_at_def
  proof (intro conjI allI impI)
    show "?n \<le> length xs" by (rule length_takeWhile_le)
    show "\<not> k m < k (xs ! i)" if "i < ?n" for i
      using that takeWhile_nth[OF that] nth_mem[OF that] set_takeWhileD[of "xs ! i" "\<lambda>x. k x < k m" xs] by force
    show "k m < k (xs ! i)" if "?n \<le> i \<and> i < length xs" for i
    proof -
      have "\<not> k (xs ! ?n) < k m" using nth_length_takeWhile[of "\<lambda>x. k x < k m" xs] that by simp
      moreover have "k (xs ! ?n) \<le> k (xs ! i)" using mono[of ?n i] that by (cases "?n = i") auto
      moreover have "k (xs ! i) \<noteq> k m" using assms(2) that by (metis image_eqI nth_mem)
      ultimately show ?thesis by simp
    qed
  qed
  then have "sort_search (length xs) (\<lambda>i. k m < k (xs ! i)) = ?n" by (rule sort_search_correct)
  moreover have "insort_key k m xs = takeWhile (\<lambda>x. k x < k m) xs @ m # dropWhile (\<lambda>x. k x < k m) xs"
    by (induction xs) auto
  ultimately show ?thesis by (simp add: takeWhile_eq_take[symmetric] dropWhile_eq_drop[symmetric])
qed

lemma sorted_wrt_insort:
  fixes k :: "'a \<Rightarrow> 'b::linorder"
  assumes "sorted_wrt (\<lambda>x y. k x < k y) xs" and "k m \<notin> k ` set xs"
  shows "sorted_wrt (\<lambda>x y. k x < k y) (insort_key k m xs)"
  using assms
proof (induction xs)
  case (Cons x xs)
  show ?case
  proof (cases "k m \<le> k x")
    case True
    then have "k m < k x" using Cons.prems by auto
    then show ?thesis using Cons.prems(1) by (auto intro: order.strict_trans)
  next
    case False
    then show ?thesis using Cons by (auto simp: set_insort_key)
  qed
qed simp

lemma shift_to:
  assumes "idx \<le> length rest"
  shows "(go_copy (m # rest) (slice 1 (idx + 1) (m # rest)))[idx := m] = take idx rest @ m # drop idx rest"
proof -
  have "go_copy (m # rest) (slice 1 (idx + 1) (m # rest)) = take idx rest @ drop idx (m # rest)"
    using assms by (simp add: go_copy_def slice_def)
  also have "drop idx (m # rest) = (m # rest) ! idx # drop idx rest"
    using assms by (metis Cons_nth_drop_Suc drop_Suc_Cons length_Cons less_Suc_eq_le)
  finally show ?thesis using assms by (simp add: list_update_append)
qed

lemma open_at:
  assumes "idx \<le> length rs"
  shows "(copy_at (idx + 1) (rs @ [s]) (drop idx (rs @ [s])))[idx := s] = take idx rs @ s # drop idx rs"
proof -
  have "copy_at (idx + 1) (rs @ [s]) (drop idx (rs @ [s])) = take (idx + 1) (rs @ [s]) @ drop idx rs"
    using assms by (auto simp: copy_at_def go_copy_def)
  moreover have "take (idx + 1) (rs @ [s]) = take idx rs @ [(rs @ [s]) ! idx]"
    using assms by (simp add: take_Suc_conv_app_nth nth_append)
  ultimately have "copy_at (idx + 1) (rs @ [s]) (drop idx (rs @ [s])) = take idx rs @ (rs @ [s]) ! idx # drop idx rs"
    by (simp only: append_assoc append.simps)
  then show ?thesis using assms by (simp only: list_update_append) simp
qed

section \<open>The invariant\<close>

definition rank_ok :: "rank \<Rightarrow> bool" where
  "rank_ok r \<longleftrightarrow> rank_update r = r \<and> length (rk_hashSpace r) = 32 \<and> is_address (rk_Address r) \<and>
     length (rk_PublicHash r) = PublicHashSize"

text \<open>
  The slice is strictly ordered, no address occurs twice, the map holds exactly the references of the slice
  under their addresses, and every score is up to date.
\<close>

definition rt_ok :: "rank_table \<Rightarrow> bool" where
  "rt_ok rt \<longleftrightarrow> (\<forall>r\<in>set (rt_candidates rt). r < length (rt_heap rt)) \<and>
     sorted_wrt rank_Less (ranks rt) \<and> distinct (map rk_Address (ranks rt)) \<and>
     (\<forall>a r. rt_rankMap rt a = Some r \<longleftrightarrow> r \<in> set (rt_candidates rt) \<and> rk_Address (rank_at rt r) = a) \<and>
     (\<forall>r\<in>set (ranks rt). rank_ok r)"

lemma rt_ok_New: "rt_ok NewRankTable"
  by (simp add: rt_ok_def NewRankTable_def ranks_def)

lemma rank_ok_update:
  "length (rk_hashSpace r) = 32 \<Longrightarrow> is_address (rk_Address r) \<Longrightarrow> length (rk_PublicHash r) = PublicHashSize \<Longrightarrow>
   rank_ok (rank_update r)"
  by (simp add: rank_ok_def rank_update_def)

lemma rank_ok_Set:
  "rank_ok r \<Longrightarrow> rank_ok (rank_SetPhase ph r)"
  "rank_ok r \<Longrightarrow> length h = 32 \<Longrightarrow> rank_ok (rank_Set ph h r)"
  unfolding rank_SetPhase_def rank_Set_def
  by (rule rank_ok_update; simp add: rank_ok_def)+

lemma rank_Set_fields [simp]:
  "rk_Address (rank_SetPhase ph r) = rk_Address r" "rk_phase (rank_SetPhase ph r) = ph"
  "rk_PublicHash (rank_SetPhase ph r) = rk_PublicHash r"
  "rk_Address (rank_Set ph h r) = rk_Address r" "rk_phase (rank_Set ph h r) = ph"
  "rk_PublicHash (rank_Set ph h r) = rk_PublicHash r"
  "rk_Address (NewRank a p ph h) = a" "rk_PublicHash (NewRank a p ph h) = p" "rk_phase (NewRank a p ph h) = ph"
  by (simp_all add: rank_SetPhase_def rank_Set_def rank_update_def NewRank_def)

lemma rank_Clone_ok [simp]: "rank_ok r \<Longrightarrow> rank_Clone r = r"
  by (cases r) (simp add: rank_Clone_def NewRank_def rank_ok_def rank_update_def)

lemma rt_ok_refs:
  assumes "rt_ok rt"
  shows "distinct (rt_candidates rt)" and "sorted_wrt (\<lambda>x y. rank_key x < rank_key y) (ranks rt)"
  using assms by (auto simp: rt_ok_def ranks_def distinct_map rank_Less_fun)

lemma rt_height_irrelevant [simp]:
  "rank_at (rt\<lparr>rt_height := h\<rparr>) = rank_at rt" "ranks (rt\<lparr>rt_height := h\<rparr>) = ranks rt"
  "rt_ok (rt\<lparr>rt_height := h\<rparr>) = rt_ok rt"
proof -
  show at: "rank_at (rt\<lparr>rt_height := h\<rparr>) = rank_at rt" by (rule ext) (simp add: rank_at_def)
  then show rs: "ranks (rt\<lparr>rt_height := h\<rparr>) = ranks rt" by (simp add: ranks_def)
  show "rt_ok (rt\<lparr>rt_height := h\<rparr>) = rt_ok rt" unfolding rt_ok_def at rs by simp
qed

lemma rt_ok_rank: "rt_ok rt \<Longrightarrow> r \<in> set (ranks rt) \<Longrightarrow> rank_ok r"
  by (simp add: rt_ok_def)

text \<open>A changed object at the front is inserted in order among the others.\<close>

lemma moved_ranks:
  assumes ok: "rt_ok rt" and rs: "ranks rt = t # rest" and f: "rank_ok (f t)" "rk_Address (f t) = rk_Address t"
  defines "rt' \<equiv> reinsert_top (on_top f rt)"
  shows "rt_ok rt'" and "ranks rt' = insort_key rank_key (f t) rest" and "rt_height rt' = rt_height rt"
proof -
  obtain m ms where cs: "rt_candidates rt = m # ms" and t: "t = rank_at rt m" and rest: "rest = map (rank_at rt) ms"
    using rs by (auto simp: ranks_def)
  let ?on = "on_top f rt"
  have lt: "\<forall>r\<in>set (m # ms). r < length (rt_heap rt)" and dist: "distinct (m # ms)"
    using ok rt_ok_refs(1)[OF ok] cs by (auto simp: rt_ok_def)
  have on: "rank_at ?on r = (if r = m then f t else rank_at rt r)" if "r \<in> set (m # ms)" for r
    using that lt by (simp add: on_top_def cs rank_at_def t)
  have on_cs: "rt_candidates ?on = m # ms" by (simp add: on_top_def cs Let_def)
  have at_m: "rank_at ?on m = f t" using on by simp
  have at_ms: "map (rank_at ?on) ms = rest" using on dist by (auto simp: rest)
  have key_new: "rank_key (f t) \<notin> rank_key ` set rest"
    using ok f(2) rs by (auto simp: rt_ok_def rank_key_def)
  have sorted: "sorted_wrt (\<lambda>x y. rank_key x < rank_key y) rest" using rt_ok_refs(2)[OF ok] rs by simp
  let ?k = "\<lambda>r. rank_key (rank_at ?on r)"
  let ?i = "sort_search (length ms) (\<lambda>i. ?k m < ?k (ms ! i))"
  have sorted': "sorted_wrt (\<lambda>x y. ?k x < ?k y) ms"
    using sorted unfolding at_ms[symmetric] by (simp add: sorted_wrt_map)
  have new': "?k m \<notin> ?k ` set ms" using key_new at_m unfolding at_ms[symmetric] by (simp add: image_image)
  have "rt_candidates rt' = (go_copy (m # ms) (slice 1 (?i + 1) (m # ms)))[?i := m]"
    by (simp add: rt'_def reinsert_top_def on_cs Let_def rank_Less_key)
  also have "\<dots> = insort_key ?k m ms"
    using shift_to[OF sort_search_le, of m ms] search_insort[OF sorted' new'] by simp
  finally have cs': "rt_candidates rt' = insort_key ?k m ms" .
  have heap': "rank_at rt' = rank_at ?on" by (rule ext) (simp add: rt'_def reinsert_top_def Let_def rank_at_def)
  show rs': "ranks rt' = insort_key rank_key (f t) rest"
    using map_insort_key[of "rank_at ?on" rank_key m ms] at_m at_ms by (simp add: ranks_def cs' heap')
  have set_cs: "set (rt_candidates rt') = set (rt_candidates rt)" by (simp add: cs' cs set_insort_key)
  have addr: "rk_Address (rank_at rt' r) = rk_Address (rank_at rt r)" if "r \<in> set (rt_candidates rt)" for r
    using on[of r] that f(2) by (auto simp: heap' cs t)
  show "rt_height rt' = rt_height rt" by (simp add: rt'_def reinsert_top_def on_top_def Let_def)
  show "rt_ok rt'"
    unfolding rt_ok_def
  proof (intro conjI)
    show "\<forall>r\<in>set (rt_candidates rt'). r < length (rt_heap rt')"
      using lt set_cs cs by (simp add: rt'_def reinsert_top_def on_top_def Let_def)
    show "sorted_wrt rank_Less (ranks rt')"
      using sorted_wrt_insort[OF sorted key_new] by (simp add: rs' rank_Less_fun)
    have "mset (map rk_Address (ranks rt')) = mset (map rk_Address (ranks rt))"
      using f(2) by (simp add: rs rs')
    then show "distinct (map rk_Address (ranks rt'))" using ok by (metis rt_ok_def mset_eq_imp_distinct_iff)
    have "rt_rankMap rt' = rt_rankMap rt" by (simp add: rt'_def reinsert_top_def on_top_def Let_def)
    then show "\<forall>a r. rt_rankMap rt' a = Some r \<longleftrightarrow> r \<in> set (rt_candidates rt') \<and> rk_Address (rank_at rt' r) = a"
      using ok addr unfolding set_cs rt_ok_def by metis
    show "\<forall>r\<in>set (ranks rt'). rank_ok r"
      using ok f(1) rs by (auto simp: rs' set_insort_key rt_ok_def)
  qed
qed

lemma skip_top_ranks:
  assumes "rt_ok rt" and "ranks rt = t # rest"
  shows "rt_ok (skip_top rt)" and "ranks (skip_top rt) = insort_key rank_key (rank_SetPhase (rk_phase t + 2) t) rest"
proof -
  have "rank_ok (rank_SetPhase (rk_phase t + 2) t)" using rt_ok_rank[OF assms(1)] assms(2) by (intro rank_ok_Set) simp
  note m = moved_ranks[OF assms, of "\<lambda>m. rank_SetPhase (rk_phase m + 2) m", OF this, simplified]
  show "rt_ok (skip_top rt)" "ranks (skip_top rt) = insort_key rank_key (rank_SetPhase (rk_phase t + 2) t) rest"
    using m by (simp_all add: skip_top_def)
qed

lemma forwardTop_ranks:
  assumes "rt_ok rt" and "ranks rt = t # rest" and "length h = 32"
  shows "fst (forwardTop h rt) = Inr ()" and "rt_ok (snd (forwardTop h rt))"
    and "ranks (snd (forwardTop h rt)) = insort_key rank_key (rank_Set (rk_phase t + 1) h t) rest"
    and "rt_height (snd (forwardTop h rt)) = rt_height rt + 1"
proof -
  have ne: "rt_candidates rt \<noteq> []" using assms(2) by (auto simp: ranks_def)
  have "rank_ok (rank_Set (rk_phase t + 1) h t)"
    using rt_ok_rank[OF assms(1)] assms(2,3) by (intro rank_ok_Set) simp_all
  note m = moved_ranks[OF assms(1,2), of "\<lambda>t. rank_Set (rk_phase t + 1) h t", OF this, simplified]
  show "fst (forwardTop h rt) = Inr ()" "rt_ok (snd (forwardTop h rt))"
    "ranks (snd (forwardTop h rt)) = insort_key rank_key (rank_Set (rk_phase t + 1) h t) rest"
    "rt_height (snd (forwardTop h rt)) = rt_height rt + 1"
    using ne m by (simp_all add: forwardTop_def Let_def)
qed

lemma rankMap_has:
  assumes "rt_ok rt"
  shows "rt_rankMap rt a \<noteq> None \<longleftrightarrow> a \<in> rk_Address ` set (ranks rt)"
  using assms by (auto simp: rt_ok_def ranks_def)

text \<open>Adding a candidate.\<close>

lemma addRank_ranks:
  assumes ok: "rt_ok rt" and s: "rank_ok s" and new: "rk_Address s \<notin> rk_Address ` set (ranks rt)"
    and phase: "ranks rt = [] \<or> rk_phase (hd (ranks rt)) \<le> rk_phase s"
  shows "fst (addRank s rt) = Inr ()" and "rt_ok (snd (addRank s rt))"
    and "ranks (snd (addRank s rt)) = insort_key rank_key s (ranks rt)"
    and "addRank s rt = (Inr (), rt\<lparr>rt_heap := rt_heap rt @ [s],
      rt_candidates := insort_key (\<lambda>r. rank_key (rank_at (rt\<lparr>rt_heap := rt_heap rt @ [s]\<rparr>) r)) (length (rt_heap rt)) (rt_candidates rt),
      rt_rankMap := (rt_rankMap rt)(rk_Address s \<mapsto> length (rt_heap rt))\<rparr>)"
proof -
  let ?p = "length (rt_heap rt)" and ?cs = "rt_candidates rt"
  let ?al = "rt\<lparr>rt_heap := rt_heap rt @ [s]\<rparr>"
  let ?rt = "snd (addRank s rt)"
  have lt: "\<forall>r\<in>set ?cs. r < ?p" using ok by (simp add: rt_ok_def)
  have at: "rank_at ?al r = (if r = ?p then s else rank_at rt r)" if "r \<in> set ?cs \<or> r = ?p" for r
    using that lt by (auto simp: rank_at_def nth_append)
  have at_cs: "map (rank_at ?al) ?cs = ranks rt" using at lt by (auto simp: ranks_def)
  have free: "rt_rankMap rt (rk_Address s) = None" using rankMap_has[OF ok, of "rk_Address s"] new by simp
  have guard: "\<not> (0 < length ?cs \<and> rk_phase s < rk_phase (rank_at rt (?cs ! 0)))"
    using phase by (cases ?cs) (auto simp: ranks_def)
  let ?k = "\<lambda>r. rank_key (rank_at ?al r)"
  have sorted': "sorted_wrt (\<lambda>x y. ?k x < ?k y) ?cs"
    using rt_ok_refs(2)[OF ok] unfolding at_cs[symmetric] by (simp add: sorted_wrt_map)
  have key_new: "rank_key s \<notin> rank_key ` set (ranks rt)" using new by (auto simp: rank_key_def)
  have new': "?k ?p \<notin> ?k ` set ?cs"
    using key_new at[of ?p] unfolding at_cs[symmetric] by (simp add: image_image)
  have ins: "InsertRankToList (rank_at ?al) ?cs ?p = insort_key ?k ?p ?cs"
    using open_at[OF sort_search_le, where rs = ?cs and s = ?p] search_insort[OF sorted' new']
    by (simp add: InsertRankToList_def Let_def rank_Less_key)
  have run: "addRank s rt = (Inr (), ?al\<lparr>rt_candidates := insort_key ?k ?p ?cs,
      rt_rankMap := (rt_rankMap rt)(rk_Address s \<mapsto> ?p)\<rparr>)"
    using guard free ins by (simp add: addRank_def Let_def)
  have at': "rank_at ?rt = rank_at ?al" by (rule ext) (simp add: run rank_at_def)
  show "addRank s rt = (Inr (), rt\<lparr>rt_heap := rt_heap rt @ [s],
      rt_candidates := insort_key (\<lambda>r. rank_key (rank_at (rt\<lparr>rt_heap := rt_heap rt @ [s]\<rparr>) r)) (length (rt_heap rt)) (rt_candidates rt),
      rt_rankMap := (rt_rankMap rt)(rk_Address s \<mapsto> length (rt_heap rt))\<rparr>)" using run by simp
  show "fst (addRank s rt) = Inr ()" by (simp add: run)
  show rs: "ranks ?rt = insort_key rank_key s (ranks rt)"
    using map_insort_key[of "rank_at ?al" rank_key ?p ?cs] at[of ?p] at_cs by (simp add: ranks_def at') (simp add: run)
  have set_cs: "set (rt_candidates ?rt) = insert ?p (set ?cs)" by (simp add: run set_insort_key)
  show "rt_ok ?rt"
    unfolding rt_ok_def
  proof (intro conjI)
    show "\<forall>r\<in>set (rt_candidates ?rt). r < length (rt_heap ?rt)" using lt set_cs by (auto simp: run)
    show "sorted_wrt rank_Less (ranks ?rt)"
      using sorted_wrt_insort[OF rt_ok_refs(2)[OF ok] key_new] by (simp add: rs rank_Less_fun)
    have "mset (map rk_Address (ranks ?rt)) = mset (rk_Address s # map rk_Address (ranks rt))" by (simp add: rs)
    moreover have "distinct (rk_Address s # map rk_Address (ranks rt))" using ok new by (auto simp: rt_ok_def)
    ultimately show "distinct (map rk_Address (ranks ?rt))" by (metis mset_eq_imp_distinct_iff)
    show "\<forall>a r. rt_rankMap ?rt a = Some r \<longleftrightarrow> r \<in> set (rt_candidates ?rt) \<and> rk_Address (rank_at ?rt r) = a"
    proof (intro allI)
      fix a r
      have mp: "rt_rankMap rt a = Some r \<longleftrightarrow> r \<in> set ?cs \<and> rk_Address (rank_at rt r) = a"
        using ok unfolding rt_ok_def by blast
      have old: "r \<in> set ?cs \<Longrightarrow> rk_Address (rank_at rt r) \<noteq> rk_Address s"
        using new by (metis image_eqI list.set_map ranks_def)
      show "rt_rankMap ?rt a = Some r \<longleftrightarrow> r \<in> set (rt_candidates ?rt) \<and> rk_Address (rank_at ?rt r) = a"
        using mp old at[of r] lt unfolding set_cs at' by (cases "a = rk_Address s") (auto simp: run)
    qed
    show "\<forall>r\<in>set (ranks ?rt). rank_ok r" using ok s by (auto simp: rs set_insort_key rt_ok_def)
  qed
qed

text \<open>Removing a candidate.\<close>

lemma removeRank_ranks:
  assumes ok: "rt_ok rt"
  shows "rt_ok (removeRank a rt)" and "ranks (removeRank a rt) = filter (\<lambda>r. rk_Address r \<noteq> a) (ranks rt)"
proof -
  let ?rt = "removeRank a rt"
  have at: "rank_at ?rt = rank_at rt" by (rule ext) (simp add: removeRank_def rank_at_def)
  show rs: "ranks ?rt = filter (\<lambda>r. rk_Address r \<noteq> a) (ranks rt)"
  proof (cases "rt_rankMap rt a = None")
    case True
    then have "\<forall>r\<in>set (ranks rt). rk_Address r \<noteq> a" using rankMap_has[OF ok, of a] by auto
    then show ?thesis using True by (simp add: removeRank_def filter_id_conv)
  next
    case False
    then show ?thesis by (simp add: ranks_def at) (simp add: removeRank_def filter_map comp_def)
  qed
  show "rt_ok ?rt"
    unfolding rt_ok_def
  proof (intro conjI)
    show "\<forall>r\<in>set (rt_candidates ?rt). r < length (rt_heap ?rt)" using ok by (auto simp: removeRank_def rt_ok_def)
    show "sorted_wrt rank_Less (ranks ?rt)" using ok by (simp add: rs rt_ok_def sorted_wrt_filter)
    show "distinct (map rk_Address (ranks ?rt))" using ok by (simp add: rs rt_ok_def distinct_map_filter)
    show "\<forall>x r. rt_rankMap ?rt x = Some r \<longleftrightarrow> r \<in> set (rt_candidates ?rt) \<and> rk_Address (rank_at ?rt r) = x"
      using ok unfolding at by (auto simp: removeRank_def rt_ok_def)
    show "\<forall>r\<in>set (ranks ?rt). rank_ok r" using ok by (auto simp: rs rt_ok_def)
  qed
qed

section \<open>Fairness of a rotation\<close>

text \<open>
  A queue of participants ordered by phase. Advancing takes the first one, raises its phase by one or two and
  puts it behind the participants of smaller phase. Whoever waits sees one of those before it move away or
  come closer to its own phase with every advance, so it is first after a bounded number of them. The phases
  are machine integers; the laws hold while they have room below \<open>limit\<close>.
\<close>

locale rotation =
  fixes queue :: "'s \<Rightarrow> 'r list" and advance :: "'e \<Rightarrow> 's \<Rightarrow> 's" and okay :: "'s \<Rightarrow> bool" and event :: "'e \<Rightarrow> bool"
    and phase :: "'r \<Rightarrow> nat" and who :: "'r \<Rightarrow> 'a" and limit :: nat
  assumes ordered: "okay s \<Longrightarrow> sorted (map phase (queue s)) \<and> distinct (map who (queue s))"
    and advance: "okay s \<Longrightarrow> event e \<Longrightarrow> queue s = t # xs @ ys \<Longrightarrow> phase t + 2 < limit \<Longrightarrow> okay (advance e s)"
    and moves: "okay s \<Longrightarrow> event e \<Longrightarrow> queue s = t # rest \<Longrightarrow> phase t + 2 < limit \<Longrightarrow>
      \<exists>t' xs ys. rest = xs @ ys \<and> queue (advance e s) = xs @ t' # ys \<and> who t' = who t \<and>
        phase t < phase t' \<and> phase t' \<le> phase t + 2"
begin

text \<open>How long \<open>a\<close> still waits: for every participant before it, the phases that one can still climb.\<close>

definition ahead :: "'a \<Rightarrow> 'r list \<Rightarrow> 'r list" where
  "ahead a q = takeWhile (\<lambda>r. who r \<noteq> a) q"

definition wait :: "'a \<Rightarrow> 'r list \<Rightarrow> nat" where
  "wait a q = (\<Sum>r\<leftarrow>ahead a q. phase (hd (dropWhile (\<lambda>r. who r \<noteq> a) q)) + 1 - phase r)"

lemma wait_split:
  "\<forall>r\<in>set us. who r \<noteq> a \<Longrightarrow> who ra = a \<Longrightarrow> wait a (us @ ra # vs) = (\<Sum>r\<leftarrow>us. phase ra + 1 - phase r)"
  by (simp add: wait_def ahead_def)

lemma split_who:
  assumes "a \<in> who ` set q"
  obtains us ra vs where "q = us @ ra # vs" and "\<forall>r\<in>set us. who r \<noteq> a" and "who ra = a"
  using split_list_first_prop[of q "\<lambda>r. who r = a"] assms by blast

lemma wait_decreases:
  assumes "okay s" and "event e" and q: "queue s = t # rest" and "phase t + 2 < limit"
    and a: "who t \<noteq> a" "a \<in> who ` set (queue s)"
  shows "wait a (queue (advance e s)) < wait a (queue s)" and "who ` set (queue (advance e s)) = who ` set (queue s)"
proof -
  obtain t' xs ys where r: "rest = xs @ ys" and q': "queue (advance e s) = xs @ t' # ys"
    and t': "who t' = who t" "phase t < phase t'" using moves[OF assms(1-4)] by blast
  show "who ` set (queue (advance e s)) = who ` set (queue s)" using t'(1) by (auto simp: q q' r)
  obtain us ra vs where rest: "rest = us @ ra # vs" and us: "\<forall>r\<in>set us. who r \<noteq> a" and ra: "who ra = a"
    by (rule split_who[of a rest]) (use a q in auto)
  have le: "phase t \<le> phase ra" using ordered[OF assms(1)] by (simp add: q rest)
  have before: "wait a (queue s) = (phase ra + 1 - phase t) + (\<Sum>r\<leftarrow>us. phase ra + 1 - phase r)"
    using wait_split[of "t # us" a ra vs] us ra a(1) by (simp add: q rest)
  consider ws where "us = xs @ ws" "ys = ws @ ra # vs" | zs where "xs = us @ ra # zs" "vs = zs @ ys"
    using r rest by (auto simp: append_eq_append_conv2 Cons_eq_append_conv)
  then show "wait a (queue (advance e s)) < wait a (queue s)"
  proof cases
    case 1
    have "wait a ((xs @ t' # ws) @ ra # vs) = (\<Sum>r\<leftarrow>xs @ t' # ws. phase ra + 1 - phase r)"
      using us ra a(1) t'(1) 1 by (intro wait_split) auto
    then show ?thesis using before le t'(2) 1 by (simp add: q')
  next
    case 2
    have "wait a (us @ ra # (zs @ t' # ys)) = (\<Sum>r\<leftarrow>us. phase ra + 1 - phase r)"
      using us ra by (rule wait_split)
    then show ?thesis using before le 2 by (simp add: q')
  qed
qed

lemma room_kept:
  assumes "okay s" and "event e" and q: "queue s = t # rest" and room: "\<forall>r\<in>set (queue s). phase r + 2 * Suc n < limit"
  shows "\<forall>r\<in>set (queue (advance e s)). phase r + 2 * n < limit"
proof -
  have "phase t + 2 < limit" using room by (simp add: q)
  from moves[OF assms(1-3) this] obtain t' xs ys where "rest = xs @ ys" "queue (advance e s) = xs @ t' # ys"
    "phase t' \<le> phase t + 2" by blast
  moreover have "phase r + 2 * n < limit" if "r \<in> set (t # rest)" for r
    using bspec[OF room, of r] that by (simp add: q)
  ultimately show ?thesis using room by (auto simp: q)
qed

text \<open>While \<open>a\<close> is not first, every advance shortens its wait.\<close>

lemma served:
  assumes "okay s" and "a \<in> who ` set (queue s)" and "\<forall>e\<in>set es. event e"
    and "\<forall>r\<in>set (queue s). phase r + 2 * length es < limit" and "wait a (queue s) \<le> length es"
  shows "\<exists>k\<le>wait a (queue s). who (hd (queue (fold advance (take k es) s))) = a"
  using assms
proof (induction es arbitrary: s)
  case Nil
  then obtain t rest where q: "queue s = t # rest" by (cases "queue s") auto
  have "who t = a"
  proof (rule ccontr)
    assume t: "who t \<noteq> a"
    obtain us ra vs where rest: "rest = us @ ra # vs" "\<forall>r\<in>set us. who r \<noteq> a" "who ra = a"
      by (rule split_who[of a rest]) (use Nil.prems(2) q t in auto)
    have "phase t \<le> phase ra" using ordered[OF Nil.prems(1)] by (simp add: q rest)
    then show False using Nil.prems(5) wait_split[of "t # us" a ra vs] rest t by (simp add: q)
  qed
  then show ?case by (intro exI[of _ 0]) (simp add: q)
next
  case (Cons e es)
  then obtain t rest where q: "queue s = t # rest" by (cases "queue s") auto
  show ?case
  proof (cases "who t = a")
    case True
    then show ?thesis by (intro exI[of _ 0]) (simp add: q)
  next
    case False
    have lim: "phase t + 2 < limit" using Cons.prems(4) by (simp add: q)
    have e: "event e" using Cons.prems(3) by simp
    note w = wait_decreases[OF Cons.prems(1) e q lim False Cons.prems(2)]
    have "okay (advance e s)" using advance[OF Cons.prems(1) e, of t "[]" rest] q lim by simp
    moreover have "\<forall>r\<in>set (queue (advance e s)). phase r + 2 * length es < limit"
      using room_kept[OF Cons.prems(1) e q] Cons.prems(4) by simp
    ultimately obtain k where "k \<le> wait a (queue (advance e s))" "who (hd (queue (fold advance (take k es) (advance e s)))) = a"
      using Cons.IH[of "advance e s"] Cons.prems(2,3,5) w by auto
    then show ?thesis using w(1) by (intro exI[of _ "Suc k"]) simp
  qed
qed

text \<open>Phases within two of the smallest bound the wait by three advances for every participant ahead.\<close>

lemma wait_bound:
  assumes "okay s" and q: "queue s = t # rest" and "\<forall>r\<in>set rest. phase r \<le> phase t + 2"
    and "a \<in> who ` set (queue s)"
  shows "wait a (queue s) \<le> 3 * length rest"
proof (cases "who t = a")
  case False
  obtain us ra vs where rest: "rest = us @ ra # vs" "\<forall>r\<in>set us. who r \<noteq> a" "who ra = a"
    by (rule split_who[of a rest]) (use assms(4) q False in auto)
  have "phase ra + 1 - phase r \<le> 3" if "r \<in> set (t # us)" for r
  proof -
    have "phase t \<le> phase r" using ordered[OF assms(1)] that by (auto simp: q rest)
    moreover have "phase ra \<le> phase t + 2" using assms(3) by (simp add: rest)
    ultimately show ?thesis by simp
  qed
  then have "(\<Sum>r\<leftarrow>t # us. phase ra + 1 - phase r) \<le> (\<Sum>r\<leftarrow>t # us. 3)" by (intro sum_list_mono)
  also have "\<dots> \<le> 3 * length rest" by (simp add: rest sum_list_triv)
  finally show ?thesis using wait_split[of "t # us" a ra vs] rest False by (simp add: q)
qed (simp add: q wait_def ahead_def)

end

text \<open>The two ways in which the table of the chain advances by one candidate.\<close>

datatype rt_event = TimedOut | Generated hash256

fun rt_advance :: "rt_event \<Rightarrow> rank_table \<Rightarrow> rank_table" where
  "rt_advance TimedOut rt = skip_top rt"
| "rt_advance (Generated h) rt = snd (forwardTop h rt)"

fun rt_event_ok :: "rt_event \<Rightarrow> bool" where
  "rt_event_ok TimedOut = True"
| "rt_event_ok (Generated h) = (length h = 32)"

lemma unat_score:
  assumes "rank_ok r"
  shows "unat (rk_score r) = unat (rk_phase r) * 2 ^ 32 + unat (the (LE_Uint32 (slice 0 4 (rk_hashSpace r))))"
proof -
  let ?h = "the (LE_Uint32 (slice 0 4 (rk_hashSpace r)))"
  have b: "unat (rk_phase r) < 2 ^ 32" "unat ?h < 2 ^ 32"
    using unsigned_less[of "rk_phase r", where ?'a = nat] unsigned_less[of ?h, where ?'a = nat] by simp_all
  then have lt: "unat (rk_phase r) * 2 ^ 32 + unat ?h < 2 ^ 64" by simp
  have "rk_score (rank_update r) = push_bit 32 (ucast (rk_phase r)) + ucast ?h" by (simp add: rank_update_def)
  then have "rk_score r = push_bit 32 (ucast (rk_phase r)) + ucast ?h" using assms by (simp add: rank_ok_def)
  also have "\<dots> = of_nat (unat (rk_phase r) * 2 ^ 32 + unat ?h)"
    by (simp add: push_bit_eq_mult unsigned_ucast_eq mult.commute)
  finally have score: "rk_score r = of_nat (unat (rk_phase r) * 2 ^ 32 + unat ?h)" .
  have "unat (of_nat n :: u64) = n" if "n < 2 ^ 64" for n using that by (simp add: unat_of_nat)
  from this[OF lt] show ?thesis unfolding score .
qed

lemma rank_Less_phase:
  assumes "rank_ok a" and "rank_ok b" and "rank_key a < rank_key b"
  shows "unat (rk_phase a) \<le> unat (rk_phase b)"
proof -
  have "unat (rk_score a) \<le> unat (rk_score b)" using assms(3) by (auto simp: rank_key_def less_prod_def word_less_nat_alt word_le_nat_alt)
  moreover have "unat (the (LE_Uint32 (slice 0 4 (rk_hashSpace b)))) < 2 ^ 32"
    using unsigned_less[of "the (LE_Uint32 (slice 0 4 (rk_hashSpace b)))", where ?'a = nat] by simp
  ultimately have "unat (rk_phase a) * 2 ^ 32 < (unat (rk_phase b) + 1) * 2 ^ 32"
    using unat_score[OF assms(1)] unat_score[OF assms(2)] by simp
  then show ?thesis by simp
qed

lemma insort_key_split: "\<exists>xs ys. rest = xs @ ys \<and> insort_key k x rest = xs @ x # ys"
proof (induction rest)
  case (Cons y rest)
  then obtain xs ys where "rest = xs @ ys" "insort_key k x rest = xs @ x # ys" by blast
  then have "y # rest = (y # xs) @ ys \<and> (if k x \<le> k y then True else insort_key k x (y # rest) = (y # xs) @ x # ys)" by simp
  then show ?case by (cases "k x \<le> k y") (auto intro: exI[of _ "[]"] exI[of _ "y # xs"])
qed simp

lemma rt_ok_phases:
  assumes "rt_ok rt"
  shows "sorted (map (\<lambda>r. unat (rk_phase r)) (ranks rt))"
proof -
  have "sorted_wrt (\<lambda>a b. unat (rk_phase a) \<le> unat (rk_phase b)) (ranks rt)"
    by (rule sorted_wrt_mono_rel[OF _ rt_ok_refs(2)[OF assms]]) (use rt_ok_rank[OF assms] rank_Less_phase in blast)
  then show ?thesis by (simp add: sorted_wrt_map)
qed

lemma unat_plus_small: "unat x + n < 2 ^ 32 \<Longrightarrow> unat (x + of_nat n) = unat (x :: u32) + n"
  by (simp add: unat_add_lem[THEN iffD1] unat_of_nat)

lemma rt_advance_ranks:
  assumes "rt_ok rt" and "rt_event_ok e" and "ranks rt = t # rest" and "unat (rk_phase t) + 2 < 2 ^ 32"
  obtains t' where "rt_ok (rt_advance e rt)" and "ranks (rt_advance e rt) = insort_key rank_key t' rest"
    and "rk_Address t' = rk_Address t" and "rk_PublicHash t' = rk_PublicHash t"
    and "unat (rk_phase t) < unat (rk_phase t')" and "unat (rk_phase t') \<le> unat (rk_phase t) + 2"
proof (cases e)
  case TimedOut
  have "unat (rk_phase t + 2) = unat (rk_phase t) + 2" using unat_plus_small[of "rk_phase t" 2] assms(4) by simp
  then show thesis using that[of "rank_SetPhase (rk_phase t + 2) t"] skip_top_ranks[OF assms(1,3)] TimedOut by simp
next
  case (Generated h)
  have "unat (rk_phase t + 1) = unat (rk_phase t) + 1" using unat_plus_small[of "rk_phase t" 1] assms(4) by simp
  then show thesis
    using that[of "rank_Set (rk_phase t + 1) h t"] forwardTop_ranks[OF assms(1,3), of h] Generated assms(2) by simp
qed

interpretation turns: rotation ranks rt_advance rt_ok rt_event_ok "\<lambda>r. unat (rk_phase r)" rk_Address "2 ^ 32"
proof
  show "sorted (map (\<lambda>r. unat (rk_phase r)) (ranks s)) \<and> distinct (map rk_Address (ranks s))" if "rt_ok s" for s
    using rt_ok_phases[OF that] that by (simp add: rt_ok_def)
  show "rt_ok (rt_advance e s)"
    if "rt_ok s" "rt_event_ok e" "ranks s = t # xs @ ys" "unat (rk_phase t) + 2 < 2 ^ 32" for s e t xs ys
    by (rule rt_advance_ranks[OF that])
  show "\<exists>t' xs ys. rest = xs @ ys \<and> ranks (rt_advance e s) = xs @ t' # ys \<and> rk_Address t' = rk_Address t \<and>
      unat (rk_phase t) < unat (rk_phase t') \<and> unat (rk_phase t') \<le> unat (rk_phase t) + 2"
    if hyp: "rt_ok s" "rt_event_ok e" "ranks s = t # rest" "unat (rk_phase t) + 2 < 2 ^ 32" for s e t rest
  proof -
    obtain t' where "ranks (rt_advance e s) = insort_key rank_key t' rest" "rk_Address t' = rk_Address t"
      "unat (rk_phase t) < unat (rk_phase t')" "unat (rk_phase t') \<le> unat (rk_phase t) + 2"
      by (rule rt_advance_ranks[OF hyp])
    then show ?thesis using insort_key_split[of rest rank_key t'] by metis
  qed
qed

text \<open>The phases of a table lie within two of the smallest.\<close>

definition rt_spread :: "rank_table \<Rightarrow> bool" where
  "rt_spread rt \<longleftrightarrow> (\<forall>r\<in>set (ranks rt). unat (rk_phase r) \<le> unat (smallestPhase rt) + 2)"

text \<open>
  C17: the rotation is fair. Whatever mixture of timeouts and generated blocks moves the table, every candidate
  comes to the top after at most three moves for each of the other candidates, provided the phases do not
  overflow on the way.
\<close>

theorem rotation_fair:
  assumes "rt_ok rt" and "rt_spread rt" and "a \<in> rk_Address ` set (ranks rt)"
    and "\<forall>e\<in>set es. rt_event_ok e" and "3 * (CandidateCount rt - 1) \<le> length es"
    and "unat (smallestPhase rt) + 2 + 2 * length es < 2 ^ 32"
  shows "\<exists>k\<le>3 * (CandidateCount rt - 1). rk_Address (hd (ranks (fold rt_advance (take k es) rt))) = a"
proof -
  obtain t rest where q: "ranks rt = t # rest" using assms(3) by (cases "ranks rt") auto
  have small: "smallestPhase rt = rk_phase t" and len: "length rest = CandidateCount rt - 1"
    using q by (auto simp: smallestPhase_def CandidateCount_def ranks_def)
  have w: "turns.wait a (ranks rt) \<le> 3 * length rest"
    using assms(1,2,3) small q by (intro turns.wait_bound) (auto simp: rt_spread_def)
  have "\<forall>r\<in>set (ranks rt). unat (rk_phase r) + 2 * length es < 2 ^ 32"
    using assms(2,6) by (fastforce simp: rt_spread_def)
  moreover have "turns.wait a (ranks rt) \<le> length es" using w assms(5) len by simp
  ultimately have "\<exists>k\<le>turns.wait a (ranks rt). rk_Address (hd (ranks (fold rt_advance (take k es) rt))) = a"
    by (rule turns.served[OF assms(1,3,4)])
  then show ?thesis using w unfolding len by (blast intro: le_trans)
qed

text \<open>A table of two candidates, for the examples.\<close>

definition sample_rank :: "u16 \<Rightarrow> rank" where
  "sample_rank i = NewRank (NewAddress 0 i 0) (replicate PublicHashSize 7) 0 (replicate 32 (ucast i))"

definition sample_table :: rank_table where
  "sample_table = snd (addRank (sample_rank 2) (snd (addRank (sample_rank 1) NewRankTable)))"

lemma sample_rank_ok: "rank_ok (sample_rank i)"
  unfolding sample_rank_def NewRank_def by (rule rank_ok_update) simp_all

lemma sample_table_ok: "rt_ok sample_table" "ranks sample_table = [sample_rank 1, sample_rank 2]"
proof -
  have addr: "rk_Address (sample_rank 2) \<noteq> rk_Address (sample_rank 1)" and phase: "rk_phase (sample_rank i) = 0" for i
    by (code_simp, simp add: sample_rank_def)
  have New: "ranks NewRankTable = []" by (simp add: ranks_def NewRankTable_def)
  note one = addRank_ranks[OF rt_ok_New sample_rank_ok, of 1, unfolded New, simplified]
  note two = addRank_ranks[OF one(2) sample_rank_ok, of 2, unfolded one(3), simplified]
  have "\<not> rank_key (sample_rank 2) \<le> rank_key (sample_rank 1)" by code_simp
  then show "rt_ok sample_table" "ranks sample_table = [sample_rank 1, sample_rank 2]"
    using two addr phase by (simp_all add: sample_table_def)
qed

theorem rotation_fair_witness:
  "\<exists>k\<le>3. rk_Address (hd (ranks (fold rt_advance (take k [TimedOut, TimedOut, TimedOut]) sample_table)))
     = NewAddress 0 2 0"
proof -
  have c: "CandidateCount sample_table = 2"
    using sample_table_ok(2) by (auto simp: CandidateCount_def ranks_def dest: arg_cong[of _ _ length])
  have p: "rk_phase (sample_rank i) = 0" "rk_Address (sample_rank i) = NewAddress 0 i 0" for i
    by (simp_all add: sample_rank_def)
  have s: "smallestPhase sample_table = 0"
    using sample_table_ok(2) p(1) by (auto simp: smallestPhase_def ranks_def)
  show ?thesis
    using rotation_fair[OF sample_table_ok(1), of "NewAddress 0 2 0" "[TimedOut, TimedOut, TimedOut]"]
    by (simp add: rt_spread_def c s sample_table_ok(2) p)
qed

section \<open>The table as an ordered list\<close>

datatype rt_op = RtAdd rank | RtRemove address | RtTimeouts nat | RtTop hash256

fun rt_apply :: "rt_op \<Rightarrow> (rank_table, unit) go_meth" where
  "rt_apply (RtAdd s) rt = addRank s rt"
| "rt_apply (RtRemove a) rt = (Inr (), removeRank a rt)"
| "rt_apply (RtTimeouts n) rt = forwardCandidates n rt"
| "rt_apply (RtTop h) rt = forwardTop h rt"

fun rt_op_ok :: "rt_op \<Rightarrow> bool" where
  "rt_op_ok (RtAdd s) = rank_ok s"
| "rt_op_ok (RtTop h) = (length h = 32)"
| "rt_op_ok _ = True"

text \<open>The specification: a list of ranks, kept in order.\<close>

definition spec_skip :: "rank list \<Rightarrow> rank list" where
  "spec_skip rs = (case rs of [] \<Rightarrow> [] | t # rest \<Rightarrow> insort_key rank_key (rank_SetPhase (rk_phase t + 2) t) rest)"

fun rt_spec :: "rt_op \<Rightarrow> (rank list, unit) go_meth" where
  "rt_spec (RtAdd s) rs =
     (if rs \<noteq> [] \<and> rk_phase s < rk_phase (hd rs) then (Inl (PofErr ErrInvalidPhase), rs)
      else if rk_Address s \<in> rk_Address ` set rs then (Inl (PofErr ErrExistAddress_pof), rs)
      else (Inr (), insort_key rank_key s rs))"
| "rt_spec (RtRemove a) rs = (Inr (), filter (\<lambda>r. rk_Address r \<noteq> a) rs)"
| "rt_spec (RtTimeouts n) rs =
     (if length rs \<le> n then (Inl (PofErr ErrExceedCandidateCount), rs) else (Inr (), (spec_skip ^^ n) rs))"
| "rt_spec (RtTop h) rs =
     (case rs of [] \<Rightarrow> (Inl Panic, rs) | t # rest \<Rightarrow> (Inr (), insort_key rank_key (rank_Set (rk_phase t + 1) h t) rest))"

lemma skip_top_spec:
  assumes "rt_ok rt" and "n < length (ranks rt)"
  shows "rt_ok ((skip_top ^^ n) rt) \<and> ranks ((skip_top ^^ n) rt) = (spec_skip ^^ n) (ranks rt) \<and>
    length (ranks ((skip_top ^^ n) rt)) = length (ranks rt)"
  using assms
proof (induction n)
  case (Suc n)
  let ?rt = "(skip_top ^^ n) rt"
  have IH: "rt_ok ?rt" "ranks ?rt = (spec_skip ^^ n) (ranks rt)" "length (ranks ?rt) = length (ranks rt)"
    using Suc by auto
  obtain t rest where q: "ranks ?rt = t # rest" using IH(3) Suc.prems(2) by (cases "ranks ?rt") auto
  have "spec_skip (ranks ?rt) = insort_key rank_key (rank_SetPhase (rk_phase t + 2) t) rest"
    by (simp add: spec_skip_def q)
  then show ?case using skip_top_ranks[OF IH(1) q] IH q by (metis comp_apply funpow.simps(2) length_Cons length_insort)
qed simp

lemma rt_apply_spec:
  assumes "rt_ok rt" and "rt_op_ok op"
  shows "rt_ok (snd (rt_apply op rt)) \<and> (fst (rt_apply op rt), ranks (snd (rt_apply op rt))) = rt_spec op (ranks rt)"
proof (cases op)
  case (RtAdd s)
  consider "ranks rt \<noteq> [] \<and> rk_phase s < rk_phase (hd (ranks rt))"
    | "\<not> (ranks rt \<noteq> [] \<and> rk_phase s < rk_phase (hd (ranks rt)))" "rk_Address s \<in> rk_Address ` set (ranks rt)"
    | "\<not> (ranks rt \<noteq> [] \<and> rk_phase s < rk_phase (hd (ranks rt)))" "rk_Address s \<notin> rk_Address ` set (ranks rt)"
    by blast
  then show ?thesis
  proof cases
    case 1
    then have "addRank s rt = (Inl (PofErr ErrInvalidPhase), rt)"
      by (cases "rt_candidates rt") (auto simp: addRank_def ranks_def)
    then show ?thesis using 1 assms(1) RtAdd by simp
  next
    case 2
    have "rt_rankMap rt (rk_Address s) \<noteq> None" using rankMap_has[OF assms(1)] 2(2) by blast
    then have "addRank s rt = (Inl (PofErr ErrExistAddress_pof), rt)"
      using 2(1) by (cases "rt_candidates rt") (auto simp: addRank_def ranks_def)
    then show ?thesis using 2 assms(1) RtAdd by auto
  next
    case 3
    have "ranks rt = [] \<or> rk_phase (hd (ranks rt)) \<le> rk_phase s" using 3(1) by auto
    from addRank_ranks[OF assms(1) _ 3(2) this] show ?thesis using 3 assms(2) RtAdd by auto
  qed
next
  case (RtRemove a)
  then show ?thesis using removeRank_ranks[OF assms(1)] by simp
next
  case (RtTimeouts n)
  have "length (rt_candidates rt) = length (ranks rt)" by (simp add: ranks_def)
  then show ?thesis using skip_top_spec[OF assms(1), of n] assms(1) RtTimeouts by (simp add: forwardCandidates_def)
next
  case (RtTop h)
  show ?thesis
  proof (cases "ranks rt")
    case Nil
    then show ?thesis using assms(1) RtTop by (simp add: forwardTop_def ranks_def)
  next
    case (Cons t rest)
    then show ?thesis using forwardTop_ranks[OF assms(1) Cons, of h] assms(2) RtTop by simp
  qed
qed

lemma rt_observed:
  assumes "rt_ok rt"
  shows "rt_Candidates rt = ranks rt" and "CandidateCount rt = length (ranks rt)"
    and "TopRank n rt = (if length (ranks rt) \<le> n then Inl (PofErr ErrInsufficientCandidateCount) else Inr (ranks rt ! n))"
    and "IsFormulator a ph rt \<longleftrightarrow> (\<exists>r\<in>set (ranks rt). rk_Address r = a \<and> rk_PublicHash r = ph)"
proof -
  have clone: "rank_Clone r = r" if "r \<in> set (ranks rt)" for r using rt_ok_rank[OF assms that] by simp
  show "rt_Candidates rt = ranks rt" using clone by (simp add: rt_Candidates_def map_idI)
  show len: "CandidateCount rt = length (ranks rt)" by (simp add: CandidateCount_def ranks_def)
  show "TopRank n rt = (if length (ranks rt) \<le> n then Inl (PofErr ErrInsufficientCandidateCount) else Inr (ranks rt ! n))"
    using clone[of "ranks rt ! n"] len by (auto simp: TopRank_def ranks_def CandidateCount_def)
  have mp: "rt_rankMap rt x = Some r \<longleftrightarrow> r \<in> set (rt_candidates rt) \<and> rk_Address (rank_at rt r) = x" for x r
    using assms unfolding rt_ok_def by blast
  show "IsFormulator a ph rt \<longleftrightarrow> (\<exists>r\<in>set (ranks rt). rk_Address r = a \<and> rk_PublicHash r = ph)"
  proof (cases "rt_rankMap rt a")
    case None
    then show ?thesis using rankMap_has[OF assms, of a] by (auto simp: IsFormulator_def)
  next
    case (Some p)
    have "r = rank_at rt p" if "r \<in> set (ranks rt)" "rk_Address r = a" for r
      using mp[of a p] Some that assms by (auto simp: rt_ok_def distinct_map inj_on_def ranks_def)
    moreover have "rank_at rt p \<in> set (ranks rt)" "rk_Address (rank_at rt p) = a"
      using Some mp[of a p] by (auto simp: ranks_def)
    ultimately show ?thesis using Some unfolding IsFormulator_def by fastforce
  qed
qed

fun rt_run :: "rt_op list \<Rightarrow> rank_table \<Rightarrow> (err + unit) list \<times> rank_table" where
  "rt_run [] rt = ([], rt)"
| "rt_run (op # ops) rt = (case rt_apply op rt of (r, rt) \<Rightarrow> case rt_run ops rt of (rs, rt) \<Rightarrow> (r # rs, rt))"

fun rt_spec_run :: "rt_op list \<Rightarrow> rank list \<Rightarrow> (err + unit) list \<times> rank list" where
  "rt_spec_run [] q = ([], q)"
| "rt_spec_run (op # ops) q = (case rt_spec op q of (r, q) \<Rightarrow> case rt_spec_run ops q of (rs, q) \<Rightarrow> (r # rs, q))"

lemma rt_run_spec:
  assumes "rt_ok rt" and "\<forall>op\<in>set ops. rt_op_ok op"
  shows "rt_ok (snd (rt_run ops rt)) \<and> (fst (rt_run ops rt), ranks (snd (rt_run ops rt))) = rt_spec_run ops (ranks rt)"
  using assms
proof (induction ops arbitrary: rt)
  case (Cons op ops)
  have op: "rt_op_ok op" using Cons.prems(2) by simp
  obtain r rt' where run: "rt_apply op rt = (r, rt')" by fastforce
  have "rt_ok rt'" "rt_spec op (ranks rt) = (r, ranks rt')" using rt_apply_spec[OF Cons.prems(1) op] run by auto
  with Cons.IH[of rt'] Cons.prems(2) run show ?case by (auto split: prod.splits)
qed simp

text \<open>
  C20: the rank table is an ordered list of candidates. Any sequence of additions, removals, timeouts and
  generated blocks on a new table returns what the specification on a plain list returns, where a moved
  candidate is inserted in order; afterwards the slice is strictly ordered by score and address, every query
  answers from it, and the map of references agrees with it.
\<close>

theorem rank_table_refines_list:
  assumes "\<forall>op\<in>set ops. rt_op_ok op"
  defines "rt \<equiv> snd (rt_run ops NewRankTable)"
  shows "(fst (rt_run ops NewRankTable), ranks rt) = rt_spec_run ops [] \<and>
    sorted_wrt rank_Less (ranks rt) \<and> distinct (map rk_Address (ranks rt)) \<and>
    rt_Candidates rt = ranks rt \<and> CandidateCount rt = length (ranks rt) \<and>
    (\<forall>n. TopRank n rt = (if length (ranks rt) \<le> n then Inl (PofErr ErrInsufficientCandidateCount) else Inr (ranks rt ! n))) \<and>
    (\<forall>a ph. IsFormulator a ph rt = (\<exists>r\<in>set (ranks rt). rk_Address r = a \<and> rk_PublicHash r = ph))"
proof -
  have New: "ranks NewRankTable = []" by (simp add: ranks_def NewRankTable_def)
  have ok: "rt_ok rt" and run: "(fst (rt_run ops NewRankTable), ranks rt) = rt_spec_run ops []"
    using rt_run_spec[OF rt_ok_New assms(1)] by (simp_all add: rt_def New)
  have "sorted_wrt rank_Less (ranks rt)" "distinct (map rk_Address (ranks rt))" using ok by (simp_all add: rt_ok_def)
  with run rt_observed[OF ok] show ?thesis by blast
qed

theorem rank_table_refines_list_witness:
  "ranks (snd (rt_run [RtAdd (sample_rank 1), RtAdd (sample_rank 2), RtTimeouts 1] NewRankTable))
     = [sample_rank 2, rank_SetPhase 2 (sample_rank 1)]"
proof -
  let ?ops = "[RtAdd (sample_rank 1), RtAdd (sample_rank 2), RtTimeouts 1]"
  have "\<forall>op\<in>set ?ops. rt_op_ok op" by (simp add: sample_rank_ok)
  from rank_table_refines_list[OF this]
  have "ranks (snd (rt_run ?ops NewRankTable)) = snd (rt_spec_run ?ops [])" by (metis snd_conv)
  also have "\<dots> = [sample_rank 2, rank_SetPhase 2 (sample_rank 1)]" by code_simp
  finally show ?thesis .
qed

section \<open>The saved table\<close>

definition rank_encode :: "msgpack \<Rightarrow> rank \<Rightarrow> bytes" where
  "rank_encode mp r =
     mp_EncodeBytes mp (rk_Address r) @ mp_EncodeBytes mp (rk_PublicHash r) @
     mp_EncodeUint32 mp (rk_phase r) @ mp_EncodeBytes mp (rk_hashSpace r)"

text \<open>The decoder leaves the score of the new object zero.\<close>

definition rank_decode :: "msgpack \<Rightarrow> rank decoder" where
  "rank_decode mp =
     bindE (decode_array mp AddressSize) (\<lambda>addr. bindE (decode_array mp PublicHashSize) (\<lambda>ph.
       bindE (mp_DecodeUint32 mp) (\<lambda>phase. bindE (decode_array mp 32) (\<lambda>hs.
         returnE \<lparr>rk_Address = addr, rk_PublicHash = ph, rk_phase = phase, rk_hashSpace = hs, rk_score = 0\<rparr>))))"

definition rank_table_encode :: "msgpack \<Rightarrow> rank_table \<Rightarrow> bytes" where
  "rank_table_encode mp rt =
     mp_EncodeUint32 mp (rt_height rt) @ mp_EncodeArrayLen mp (int (length (rt_candidates rt))) @
     concat (map (\<lambda>s. rank_encode mp (rank_at rt s)) (rt_candidates rt))"

definition append_rank :: "rank \<Rightarrow> rank_table \<Rightarrow> rank_table" where
  "append_rank s rt =
     (let p = length (rt_heap rt)
      in rt\<lparr>rt_heap := rt_heap rt @ [rank_update s], rt_candidates := rt_candidates rt @ [p],
            rt_rankMap := (rt_rankMap rt)(rk_Address s \<mapsto> p)\<rparr>)"

fun table_decode_loop :: "msgpack \<Rightarrow> nat \<Rightarrow> rank_table \<Rightarrow> rank_table decoder" where
  "table_decode_loop mp 0 rt = returnE rt"
| "table_decode_loop mp (Suc n) rt = bindE (rank_decode mp) (\<lambda>s. table_decode_loop mp n (append_rank s rt))"

definition rank_table_decode :: "msgpack \<Rightarrow> rank_table decoder" where
  "rank_table_decode mp =
     bindE (mp_DecodeUint32 mp) (\<lambda>v. bindE (mp_DecodeArrayLen mp) (\<lambda>Len.
       table_decode_loop mp (nat Len) (NewRankTable\<lparr>rt_height := v\<rparr>)))"

lemma rank_decode_reads:
  assumes "msgpack_ok mp" and "rank_ok r"
  shows "rank_decode mp (rank_encode mp r @ rest) = (Inr (r\<lparr>rk_score := 0\<rparr>), rest)"
proof -
  have "length (rk_Address r) = AddressSize" "length (rk_PublicHash r) = PublicHashSize" "length (rk_hashSpace r) = 32"
    using assms(2) by (simp_all add: rank_ok_def is_address_def)
  moreover have "AddressSize < 2 ^ 32" "PublicHashSize < 2 ^ 32" "(32::nat) < 2 ^ 32"
    by (simp_all add: AddressSize_def PublicHashSize_def)
  ultimately show ?thesis
    using codecD[OF codec_array[OF assms(1)]] msgpack_reads(3)[OF assms(1)]
    by (cases r) (simp add: rank_decode_def rank_encode_def bindE_def returnE_def)
qed

lemma insort_key_last: "\<forall>x\<in>set xs. k x < k m \<Longrightarrow> insort_key k m xs = xs @ [m]"
  by (induction xs) (auto simp: not_le)

lemma append_rank_ok:
  assumes ok: "rt_ok rt" and r: "rank_ok r" and last: "\<forall>x\<in>set (ranks rt). rank_key x < rank_key r"
    and new: "rk_Address r \<notin> rk_Address ` set (ranks rt)"
  shows "rt_ok (append_rank (r\<lparr>rk_score := 0\<rparr>) rt)" and "ranks (append_rank (r\<lparr>rk_score := 0\<rparr>) rt) = ranks rt @ [r]"
proof -
  have "rank_update (r\<lparr>rk_score := 0\<rparr>) = rank_update r" by (simp add: rank_update_def)
  then have upd: "rank_update (r\<lparr>rk_score := 0\<rparr>) = r" using r by (simp add: rank_ok_def)
  have phase: "ranks rt = [] \<or> rk_phase (hd (ranks rt)) \<le> rk_phase r"
    using rank_Less_phase[OF rt_ok_rank[OF ok] r] last by (cases "ranks rt") (auto simp: word_le_nat_alt)
  note add = addRank_ranks[OF ok r new phase]
  let ?al = "rt\<lparr>rt_heap := rt_heap rt @ [r]\<rparr>" and ?p = "length (rt_heap rt)"
  have at: "rank_at ?al ?p = r" "x \<in> set (rt_candidates rt) \<Longrightarrow> rank_at ?al x = rank_at rt x" for x
    using ok by (auto simp: rank_at_def nth_append rt_ok_def)
  have "insort_key (\<lambda>x. rank_key (rank_at ?al x)) ?p (rt_candidates rt) = rt_candidates rt @ [?p]"
    using last at by (intro insort_key_last) (auto simp: ranks_def)
  then have "append_rank (r\<lparr>rk_score := 0\<rparr>) rt = snd (addRank r rt)"
    using add(4) upd by (simp add: append_rank_def Let_def)
  then show "rt_ok (append_rank (r\<lparr>rk_score := 0\<rparr>) rt)" "ranks (append_rank (r\<lparr>rk_score := 0\<rparr>) rt) = ranks rt @ [r]"
    using add(2,3) insort_key_last[OF last] by simp_all
qed

lemma table_decode_reads:
  assumes "msgpack_ok mp" and "rt_ok rt" and "\<forall>r\<in>set rs. rank_ok r"
    and "sorted_wrt (\<lambda>x y. rank_key x < rank_key y) (ranks rt @ rs)" and "distinct (map rk_Address (ranks rt @ rs))"
  shows "\<exists>rt'. table_decode_loop mp (length rs) rt (concat (map (rank_encode mp) rs) @ rest) = (Inr rt', rest) \<and>
    rt_ok rt' \<and> ranks rt' = ranks rt @ rs \<and> rt_height rt' = rt_height rt"
  using assms(2-)
proof (induction rs arbitrary: rt)
  case (Cons r rs)
  let ?rt = "append_rank (r\<lparr>rk_score := 0\<rparr>) rt"
  have "rt_ok ?rt" and rs: "ranks ?rt = ranks rt @ [r]"
    using Cons.prems by (auto intro!: append_rank_ok simp: sorted_wrt_append)
  then have "\<exists>rt'. table_decode_loop mp (length rs) ?rt (concat (map (rank_encode mp) rs) @ rest) = (Inr rt', rest) \<and>
      rt_ok rt' \<and> ranks rt' = ranks ?rt @ rs \<and> rt_height rt' = rt_height ?rt"
    using Cons.prems by (intro Cons.IH) auto
  moreover have "rt_height ?rt = rt_height rt" by (simp add: append_rank_def Let_def)
  ultimately show ?case
    using rank_decode_reads[OF assms(1), of r] Cons.prems(2) rs by (simp add: bindE_def)
qed (simp add: returnE_def)

text \<open>
  The rank table survives being saved with the chain state: reading the bytes of a well-formed table gives
  a well-formed table of the same height with the same candidates in the same order, scores included, although
  the scores are not written.
\<close>

lemma rank_table_reads:
  assumes "msgpack_ok mp" and "rt_ok rt" and "CandidateCount rt < 2 ^ 32"
  shows "\<exists>rt'. rank_table_decode mp (rank_table_encode mp rt @ rest) = (Inr rt', rest) \<and>
    rt_ok rt' \<and> ranks rt' = ranks rt \<and> rt_height rt' = rt_height rt"
proof -
  let ?new = "NewRankTable\<lparr>rt_height := rt_height rt\<rparr>"
  have new: "rt_ok ?new" "ranks ?new = []" by (simp_all add: rt_ok_New) (simp add: ranks_def NewRankTable_def)
  have enc: "concat (map (\<lambda>s. rank_encode mp (rank_at rt s)) (rt_candidates rt)) = concat (map (rank_encode mp) (ranks rt))"
    and len: "length (rt_candidates rt) = length (ranks rt)" by (simp_all add: ranks_def comp_def)
  have "\<exists>rt'. table_decode_loop mp (length (ranks rt)) ?new (concat (map (rank_encode mp) (ranks rt)) @ rest) = (Inr rt', rest) \<and>
      rt_ok rt' \<and> ranks rt' = ranks ?new @ ranks rt \<and> rt_height rt' = rt_height ?new"
    using assms(2) new rt_ok_refs(2)[OF assms(2)] by (intro table_decode_reads[OF assms(1)]) (simp_all add: rt_ok_def)
  moreover have "mp_DecodeArrayLen mp (mp_EncodeArrayLen mp (int (length (ranks rt))) @ tl) = (Inr (int (length (ranks rt))), tl)" for tl
    using assms(3) len by (intro msgpack_reads(6)[OF assms(1)]) (simp add: CandidateCount_def)
  ultimately show ?thesis
    using msgpack_reads(3)[OF assms(1)] new(2)
    by (simp add: rank_table_decode_def rank_table_encode_def bindE_def enc len)
qed

end
