(* ===== verification/Map_Codecs.thy ===== *)
theory Map_Codecs
  imports Wire Amount Keys Types
begin

text \<open>
  The codecs that the ordered maps of \<^verbatim>\<open>core/types/map_*.go\<close> register with the serialisation library. They
  differ in the codecs of keys and values only. Values that are Go structs are written by the library through
  reflection, so their codecs are parameters.
\<close>

definition decode_amount :: "msgpack \<Rightarrow> amount decoder" where
  "decode_amount mp = bindE (mp_DecodeBytes mp) (\<lambda>bs. returnE (NewAmountFromBytes bs))"

definition good_amount :: "amount \<Rightarrow> bool" where
  "good_amount am \<longleftrightarrow> 0 \<le> am \<and> short (am_Bytes am)"

lemma codec_amount [wire_codecs]:
  "msgpack_ok mp \<Longrightarrow> codec (\<lambda>am. mp_EncodeBytes mp (am_Bytes am)) (decode_amount mp) good_amount"
  by (simp add: codec_def decode_amount_def bindE_def returnE_def msgpack_reads good_amount_def)

lemma codec_address [wire_codecs]:
  "msgpack_ok mp \<Longrightarrow> codec (mp_EncodeBytes mp) (decode_array mp AddressSize) is_address"
  using codec_array[of mp AddressSize] by (simp add: AddressSize_def is_address_def[abs_def])

lemma codec_pubhash [wire_codecs]:
  "msgpack_ok mp \<Longrightarrow> codec (mp_EncodeBytes mp) (decode_array mp PublicHashSize) (\<lambda>ph. length ph = PublicHashSize)"
  using codec_array[of mp PublicHashSize] by (simp add: PublicHashSize_def)

section \<open>Maps of plain values\<close>

definition AddressAddressMap_encode :: "msgpack \<Rightarrow> (address, address) omap \<Rightarrow> bytes" where
  "AddressAddressMap_encode mp = map_encode mp (mp_EncodeBytes mp) (mp_EncodeBytes mp)"

definition AddressAddressMap_decode :: "msgpack \<Rightarrow> (address, address) omap decoder" where
  "AddressAddressMap_decode mp = map_decode mp (decode_array mp AddressSize) (decode_array mp AddressSize)"

definition AddressAmountMap_encode :: "msgpack \<Rightarrow> (address, amount) omap \<Rightarrow> bytes" where
  "AddressAmountMap_encode mp = map_encode mp (mp_EncodeBytes mp) (\<lambda>am. mp_EncodeBytes mp (am_Bytes am))"

definition AddressAmountMap_decode :: "msgpack \<Rightarrow> (address, amount) omap decoder" where
  "AddressAmountMap_decode mp = map_decode mp (decode_array mp AddressSize) (decode_amount mp)"

definition AddressBoolMap_encode :: "msgpack \<Rightarrow> (address, bool) omap \<Rightarrow> bytes" where
  "AddressBoolMap_encode mp = map_encode mp (mp_EncodeBytes mp) (mp_EncodeBool mp)"

definition AddressBoolMap_decode :: "msgpack \<Rightarrow> (address, bool) omap decoder" where
  "AddressBoolMap_decode mp = map_decode mp (decode_array mp AddressSize) (mp_DecodeBool mp)"

definition AddressUint32Map_encode :: "msgpack \<Rightarrow> (address, u32) omap \<Rightarrow> bytes" where
  "AddressUint32Map_encode mp = map_encode mp (mp_EncodeBytes mp) (mp_EncodeUint32 mp)"

definition AddressUint32Map_decode :: "msgpack \<Rightarrow> (address, u32) omap decoder" where
  "AddressUint32Map_decode mp = map_decode mp (decode_array mp AddressSize) (mp_DecodeUint32 mp)"

definition AddressUint64Map_encode :: "msgpack \<Rightarrow> (address, u64) omap \<Rightarrow> bytes" where
  "AddressUint64Map_encode mp = map_encode mp (mp_EncodeBytes mp) (mp_EncodeUint64 mp)"

definition AddressUint64Map_decode :: "msgpack \<Rightarrow> (address, u64) omap decoder" where
  "AddressUint64Map_decode mp = map_decode mp (decode_array mp AddressSize) (mp_DecodeUint64 mp)"

definition PublicHashBoolMap_encode :: "msgpack \<Rightarrow> (pubhash, bool) omap \<Rightarrow> bytes" where
  "PublicHashBoolMap_encode mp = map_encode mp (mp_EncodeBytes mp) (mp_EncodeBool mp)"

definition PublicHashBoolMap_decode :: "msgpack \<Rightarrow> (pubhash, bool) omap decoder" where
  "PublicHashBoolMap_decode mp = map_decode mp (decode_array mp PublicHashSize) (mp_DecodeBool mp)"

definition StringAddressMap_encode :: "msgpack \<Rightarrow> (string, address) omap \<Rightarrow> bytes" where
  "StringAddressMap_encode mp = map_encode mp (mp_EncodeString mp) (mp_EncodeBytes mp)"

definition StringAddressMap_decode :: "msgpack \<Rightarrow> (string, address) omap decoder" where
  "StringAddressMap_decode mp = map_decode mp (mp_DecodeString mp) (decode_array mp AddressSize)"

definition StringBoolMap_encode :: "msgpack \<Rightarrow> (string, bool) omap \<Rightarrow> bytes" where
  "StringBoolMap_encode mp = map_encode mp (mp_EncodeString mp) (mp_EncodeBool mp)"

definition StringBoolMap_decode :: "msgpack \<Rightarrow> (string, bool) omap decoder" where
  "StringBoolMap_decode mp = map_decode mp (mp_DecodeString mp) (mp_DecodeBool mp)"

definition StringBytesMap_encode :: "msgpack \<Rightarrow> (string, bytes) omap \<Rightarrow> bytes" where
  "StringBytesMap_encode mp = map_encode mp (mp_EncodeString mp) (mp_EncodeBytes mp)"

definition StringBytesMap_decode :: "msgpack \<Rightarrow> (string, bytes) omap decoder" where
  "StringBytesMap_decode mp = map_decode mp (mp_DecodeString mp) (mp_DecodeBytes mp)"

definition StringStringMap_encode :: "msgpack \<Rightarrow> (string, string) omap \<Rightarrow> bytes" where
  "StringStringMap_encode mp = map_encode mp (mp_EncodeString mp) (mp_EncodeString mp)"

definition StringStringMap_decode :: "msgpack \<Rightarrow> (string, string) omap decoder" where
  "StringStringMap_decode mp = map_decode mp (mp_DecodeString mp) (mp_DecodeString mp)"

definition Uint64BoolMap_encode :: "msgpack \<Rightarrow> (u64, bool) omap \<Rightarrow> bytes" where
  "Uint64BoolMap_encode mp = map_encode mp (mp_EncodeUint64 mp) (mp_EncodeBool mp)"

definition Uint64BoolMap_decode :: "msgpack \<Rightarrow> (u64, bool) omap decoder" where
  "Uint64BoolMap_decode mp = map_decode mp (mp_DecodeUint64 mp) (mp_DecodeBool mp)"

section \<open>Maps of maps and of structs\<close>

definition AddressAddressAmountMap_encode :: "msgpack \<Rightarrow> (address, (address, amount) omap) omap \<Rightarrow> bytes" where
  "AddressAddressAmountMap_encode mp = map_encode mp (mp_EncodeBytes mp) (AddressAmountMap_encode mp)"

definition AddressAddressAmountMap_decode :: "msgpack \<Rightarrow> (address, (address, amount) omap) omap decoder" where
  "AddressAddressAmountMap_decode mp = map_decode mp (decode_array mp AddressSize) (AddressAmountMap_decode mp)"

definition Uint8StringBytesMap_encode :: "msgpack \<Rightarrow> (u8, (string, bytes) omap) omap \<Rightarrow> bytes" where
  "Uint8StringBytesMap_encode mp = map_encode mp (mp_EncodeUint8 mp) (StringBytesMap_encode mp)"

definition Uint8StringBytesMap_decode :: "msgpack \<Rightarrow> (u8, (string, bytes) omap) omap decoder" where
  "Uint8StringBytesMap_decode mp = map_decode mp (mp_DecodeUint8 mp) (StringBytesMap_decode mp)"

definition Uint32StringBoolMap_encode :: "msgpack \<Rightarrow> (u32, (string, bool) omap) omap \<Rightarrow> bytes" where
  "Uint32StringBoolMap_encode mp = map_encode mp (mp_EncodeUint32 mp) (StringBoolMap_encode mp)"

definition Uint32StringBoolMap_decode :: "msgpack \<Rightarrow> (u32, (string, bool) omap) omap decoder" where
  "Uint32StringBoolMap_decode mp = map_decode mp (mp_DecodeUint32 mp) (StringBoolMap_decode mp)"

definition Uint64TxOutMap_encode :: "(txout \<Rightarrow> bytes) \<Rightarrow> msgpack \<Rightarrow> (u64, txout) omap \<Rightarrow> bytes" where
  "Uint64TxOutMap_encode encTxOut mp = map_encode mp (mp_EncodeUint64 mp) encTxOut"

definition Uint64TxOutMap_decode :: "txout decoder \<Rightarrow> msgpack \<Rightarrow> (u64, txout) omap decoder" where
  "Uint64TxOutMap_decode decTxOut mp = map_decode mp (mp_DecodeUint64 mp) decTxOut"

definition Uint64UTXOMap_encode :: "(utxo \<Rightarrow> bytes) \<Rightarrow> msgpack \<Rightarrow> (u64, utxo) omap \<Rightarrow> bytes" where
  "Uint64UTXOMap_encode encUTXO mp = map_encode mp (mp_EncodeUint64 mp) encUTXO"

definition Uint64UTXOMap_decode :: "utxo decoder \<Rightarrow> msgpack \<Rightarrow> (u64, utxo) omap decoder" where
  "Uint64UTXOMap_decode decUTXO mp = map_decode mp (mp_DecodeUint64 mp) decUTXO"

text \<open>
  Accounts are written behind the number that the factory has for their type; \<^verbatim>\<open>TypeOf\<close> fails for a type that
  is not registered, \<^verbatim>\<open>Create\<close> for an unknown number.
\<close>

definition AddressAccountMap_encode ::
  "(account \<Rightarrow> err + u16) \<Rightarrow> (account \<Rightarrow> bytes) \<Rightarrow> msgpack \<Rightarrow> (address, account) omap \<Rightarrow> err + bytes" where
  "AddressAccountMap_encode TypeOf encAcc mp m =
     (case mapR (\<lambda>(addr, acc). case TypeOf acc of Inl e \<Rightarrow> Inl e
                   | Inr t \<Rightarrow> Inr (mp_EncodeBytes mp addr @ mp_EncodeUint16 mp t @ encAcc acc)) (om_each m) of
        Inl e \<Rightarrow> Inl e
      | Inr bss \<Rightarrow> Inr (mp_EncodeArrayLen mp (int (om_len m)) @ concat bss))"

definition decode_account :: "(u16 \<Rightarrow> err + account decoder) \<Rightarrow> msgpack \<Rightarrow> account decoder" where
  "decode_account create mp =
     bindE (mp_DecodeUint16 mp) (\<lambda>t. bindE (liftE (create t)) (\<lambda>decAcc. decAcc))"

definition AddressAccountMap_decode :: "(u16 \<Rightarrow> err + account decoder) \<Rightarrow> msgpack \<Rightarrow> (address, account) omap decoder" where
  "AddressAccountMap_decode create mp = map_decode mp (decode_array mp AddressSize) (decode_account create mp)"

text \<open>What the code relies on: a registered type is created under its number and its codec fits.\<close>

definition account_factory_ok ::
  "(account \<Rightarrow> err + u16) \<Rightarrow> (account \<Rightarrow> bytes) \<Rightarrow> (u16 \<Rightarrow> err + account decoder) \<Rightarrow> (account \<Rightarrow> bool) \<Rightarrow> bool" where
  "account_factory_ok TypeOf encAcc create good \<longleftrightarrow>
     (\<forall>acc. good acc \<longrightarrow> (\<exists>t dec. TypeOf acc = Inr t \<and> create t = Inr dec \<and> (\<forall>rest. dec (encAcc acc @ rest) = (Inr acc, rest))))"

lemma AddressAccountMap_round:
  assumes "msgpack_ok mp" and f: "account_factory_ok TypeOf encAcc create good" and m: "map_good is_address good m"
  shows "\<exists>bs. AddressAccountMap_encode TypeOf encAcc mp m = Inr bs \<and>
    AddressAccountMap_decode create mp (bs @ rest) = (Inr m, rest)"
proof -
  let ?t = "\<lambda>acc. projr (TypeOf acc)"
  let ?ea = "\<lambda>acc. mp_EncodeUint16 mp (?t acc) @ encAcc acc"
  have t: "TypeOf acc = Inr (?t acc)" if "good acc" for acc using f that by (fastforce simp: account_factory_ok_def)
  have acc: "codec ?ea (decode_account create mp) good"
    unfolding codec_def
  proof (intro allI impI)
    fix acc rest assume "good acc"
    then obtain t dec where "TypeOf acc = Inr t" "create t = Inr dec" "\<And>rest. dec (encAcc acc @ rest) = (Inr acc, rest)"
      using f by (auto simp: account_factory_ok_def)
    then show "decode_account create mp (?ea acc @ rest) = (Inr acc, rest)"
      by (simp add: decode_account_def bindE_def liftE_def msgpack_reads[OF assms(1)])
  qed
  have g: "\<forall>(k, v)\<in>set m. good v" using m by (auto simp: map_good_def)
  have "mapR (\<lambda>(addr, acc). case TypeOf acc of Inl e \<Rightarrow> Inl e
          | Inr t \<Rightarrow> Inr (mp_EncodeBytes mp addr @ mp_EncodeUint16 mp t @ encAcc acc)) m
      = Inr (map (\<lambda>(addr, acc). mp_EncodeBytes mp addr @ ?ea acc) m)"
  proof (rule mapR_Inr)
    fix x assume x: "x \<in> set m"
    obtain k v where kv: "x = (k, v)" by (cases x)
    have "good v" using g x kv by auto
    then obtain t0 where "TypeOf v = Inr t0" using t by blast
    then show "(case x of (addr, acc) \<Rightarrow> case TypeOf acc of Inl e \<Rightarrow> Inl e
          | Inr t \<Rightarrow> Inr (mp_EncodeBytes mp addr @ mp_EncodeUint16 mp t @ encAcc acc))
        = Inr (case x of (addr, acc) \<Rightarrow> mp_EncodeBytes mp addr @ ?ea acc)" by (simp add: kv split: sum.split)
  qed
  then have "AddressAccountMap_encode TypeOf encAcc mp m = Inr (map_encode mp (mp_EncodeBytes mp) ?ea m)"
    by (simp add: AddressAccountMap_encode_def map_encode_def om_each_def)
  then show ?thesis
    using codecD[OF codec_map[OF assms(1) codec_address[OF assms(1)] acc] m] by (simp add: AddressAccountMap_decode_def)
qed

section \<open>Round trips\<close>

lemmas map_codec_defs =
  AddressAddressMap_encode_def AddressAddressMap_decode_def
  AddressAmountMap_encode_def AddressAmountMap_decode_def
  AddressBoolMap_encode_def AddressBoolMap_decode_def
  AddressUint32Map_encode_def AddressUint32Map_decode_def
  AddressUint64Map_encode_def AddressUint64Map_decode_def
  PublicHashBoolMap_encode_def PublicHashBoolMap_decode_def
  StringAddressMap_encode_def StringAddressMap_decode_def
  StringBoolMap_encode_def StringBoolMap_decode_def
  StringBytesMap_encode_def StringBytesMap_decode_def
  StringStringMap_encode_def StringStringMap_decode_def
  Uint64BoolMap_encode_def Uint64BoolMap_decode_def
  AddressAddressAmountMap_encode_def AddressAddressAmountMap_decode_def
  Uint8StringBytesMap_encode_def Uint8StringBytesMap_decode_def
  Uint32StringBoolMap_encode_def Uint32StringBoolMap_decode_def
  Uint64TxOutMap_encode_def Uint64TxOutMap_decode_def
  Uint64UTXOMap_encode_def Uint64UTXOMap_decode_def

text \<open>
  C31: every ordered map survives serialisation: the registered decoder reads back exactly the map that the
  encoder wrote, whatever follows it in the input. The conditions are those of the Go types: arrays have their
  length, amounts are not negative, lengths fit 32 bits.
\<close>

theorem map_codecs_roundtrip:
  assumes "msgpack_ok mp" and "codec encTxOut decTxOut goodTxOut" and "codec encUTXO decUTXO goodUTXO"
    and "account_factory_ok TypeOf encAcc create goodAcc"
  shows "codec (AddressAddressMap_encode mp) (AddressAddressMap_decode mp) (map_good is_address is_address) \<and>
    codec (AddressAmountMap_encode mp) (AddressAmountMap_decode mp) (map_good is_address good_amount) \<and>
    codec (AddressBoolMap_encode mp) (AddressBoolMap_decode mp) (map_good is_address (\<lambda>_. True)) \<and>
    codec (AddressUint32Map_encode mp) (AddressUint32Map_decode mp) (map_good is_address (\<lambda>_. True)) \<and>
    codec (AddressUint64Map_encode mp) (AddressUint64Map_decode mp) (map_good is_address (\<lambda>_. True)) \<and>
    codec (PublicHashBoolMap_encode mp) (PublicHashBoolMap_decode mp) (map_good (\<lambda>ph. length ph = PublicHashSize) (\<lambda>_. True)) \<and>
    codec (StringAddressMap_encode mp) (StringAddressMap_decode mp) (map_good short is_address) \<and>
    codec (StringBoolMap_encode mp) (StringBoolMap_decode mp) (map_good short (\<lambda>_. True)) \<and>
    codec (StringBytesMap_encode mp) (StringBytesMap_decode mp) (map_good short short) \<and>
    codec (StringStringMap_encode mp) (StringStringMap_decode mp) (map_good short short) \<and>
    codec (Uint64BoolMap_encode mp) (Uint64BoolMap_decode mp) (map_good (\<lambda>_. True) (\<lambda>_. True)) \<and>
    codec (AddressAddressAmountMap_encode mp) (AddressAddressAmountMap_decode mp) (map_good is_address (map_good is_address good_amount)) \<and>
    codec (Uint8StringBytesMap_encode mp) (Uint8StringBytesMap_decode mp) (map_good (\<lambda>_. True) (map_good short short)) \<and>
    codec (Uint32StringBoolMap_encode mp) (Uint32StringBoolMap_decode mp) (map_good (\<lambda>_. True) (map_good short (\<lambda>_. True))) \<and>
    codec (Uint64TxOutMap_encode encTxOut mp) (Uint64TxOutMap_decode decTxOut mp) (map_good (\<lambda>_. True) goodTxOut) \<and>
    codec (Uint64UTXOMap_encode encUTXO mp) (Uint64UTXOMap_decode decUTXO mp) (map_good (\<lambda>_. True) goodUTXO) \<and>
    (\<forall>m rest. map_good is_address goodAcc m \<longrightarrow> (\<exists>bs. AddressAccountMap_encode TypeOf encAcc mp m = Inr bs \<and>
      AddressAccountMap_decode create mp (bs @ rest) = (Inr m, rest)))"
proof -
  note c = wire_codecs[OF assms(1)] assms(2,3)
  show ?thesis
    unfolding map_codec_defs
    by (intro conjI allI impI AddressAccountMap_round[OF assms(1,4)]) (assumption | (rule c)+)+
qed

text \<open>Codecs of structs on top of the example library.\<close>

definition plain_txout :: "txout \<Rightarrow> bytes" where
  "plain_txout o' = plain_bytes (am_Bytes (out_Amount o')) @ plain_bytes (out_PublicHash o')"

definition plain_untxout :: "txout decoder" where
  "plain_untxout = bindE plain_unbytes (\<lambda>am. bindE plain_unbytes (\<lambda>ph.
     returnE \<lparr>out_Amount = NewAmountFromBytes am, out_PublicHash = ph\<rparr>))"

definition plain_utxo :: "utxo \<Rightarrow> bytes" where
  "plain_utxo u = LE_Uint64ToBytes (txin_ID (ux_TxIn u)) @ plain_txout (ux_TxOut u)"

definition plain_unutxo :: "utxo decoder" where
  "plain_unutxo = bindE (fixed 8 LE_Uint64) (\<lambda>id. bindE plain_untxout (\<lambda>o'.
     returnE \<lparr>ux_TxIn = NewTxIn id, ux_TxOut = o'\<rparr>))"

definition good_txout :: "txout \<Rightarrow> bool" where
  "good_txout o' \<longleftrightarrow> good_amount (out_Amount o') \<and> short (out_PublicHash o')"

definition good_utxo :: "utxo \<Rightarrow> bool" where
  "good_utxo u \<longleftrightarrow> NewTxIn (txin_ID (ux_TxIn u)) = ux_TxIn u \<and> good_txout (ux_TxOut u)"

fun plain_TypeOf :: "account \<Rightarrow> err + u16" where
  "plain_TypeOf (SingleAccount _) = Inr 1"
| "plain_TypeOf _ = Inl (CommonErr ErrUnknownType)"

fun plain_account :: "account \<Rightarrow> bytes" where
  "plain_account (SingleAccount a) =
     plain_bytes (sa_Address a) @ plain_bytes (str_bytes (sa_Name a)) @ plain_bytes (sa_KeyHash a)"
| "plain_account _ = []"

definition plain_create :: "u16 \<Rightarrow> err + account decoder" where
  "plain_create t = (if t = 1 then Inr (bindE plain_unbytes (\<lambda>a. bindE plain_unbytes (\<lambda>n. bindE plain_unbytes (\<lambda>k.
     returnE (SingleAccount \<lparr>sa_Address = a, sa_Name = bytes_str n, sa_KeyHash = k\<rparr>)))))
     else Inl (CommonErr ErrUnknownType))"

fun good_single :: "account \<Rightarrow> bool" where
  "good_single (SingleAccount a) = (short (sa_Address a) \<and> short (sa_Name a) \<and> short (sa_KeyHash a))"
| "good_single _ = False"

lemma plain_struct_codecs:
  "codec plain_txout plain_untxout good_txout" "codec plain_utxo plain_unutxo good_utxo"
  "account_factory_ok plain_TypeOf plain_account plain_create good_single"
proof -
  show o: "codec plain_txout plain_untxout good_txout"
    by (simp add: codec_def plain_txout_def plain_untxout_def good_txout_def good_amount_def bindE_def returnE_def
        plain_unbytes_append)
  show "codec plain_utxo plain_unutxo good_utxo"
    using codecD[OF o]
    by (simp add: codec_def plain_utxo_def plain_unutxo_def good_utxo_def bindE_def returnE_def fixed_append)
  show "account_factory_ok plain_TypeOf plain_account plain_create good_single"
    unfolding account_factory_ok_def
  proof (intro allI impI)
    fix acc assume "good_single acc"
    then show "\<exists>t dec. plain_TypeOf acc = Inr t \<and> plain_create t = Inr dec \<and>
        (\<forall>rest. dec (plain_account acc @ rest) = (Inr acc, rest))"
      by (cases acc) (simp_all add: plain_create_def bindE_def returnE_def plain_unbytes_append short_def)
  qed
qed

theorem map_codecs_roundtrip_witness:
  "AddressAmountMap_decode plain_msgpack (AddressAmountMap_encode plain_msgpack [(NewAddress 0 1 0, 5), (NewAddress 0 2 0, 7)])
     = (Inr [(NewAddress 0 1 0, 5), (NewAddress 0 2 0, 7)], [])"
proof -
  have "codec (AddressAmountMap_encode plain_msgpack) (AddressAmountMap_decode plain_msgpack) (map_good is_address good_amount)"
    using map_codecs_roundtrip[OF plain_msgpack_ok plain_struct_codecs] by (elim conjE)
  moreover have "map_good is_address good_amount [(NewAddress 0 1 0, 5), (NewAddress 0 2 0, 7)]"
  proof -
    have "NewAddress 0 1 0 < NewAddress 0 2 0" "length (am_Bytes 5) = 1" "length (am_Bytes 7) = 1" by code_simp+
    then show ?thesis by (simp add: map_good_def om_inv_def good_amount_def short_def)
  qed
  ultimately show ?thesis by (rule codecD[where rest = "[]", simplified])
qed

end
