(* ===== verification/Block.thy ===== *)
theory Block
  imports Wire Keys
begin

text \<open>
  Headers, blocks and the codec of blocks (\<^verbatim>\<open>core/types/block.go\<close>, \<^verbatim>\<open>block_header.go\<close>, \<^verbatim>\<open>block_sign.go\<close>). The type
  of transactions is a parameter: the processes of a chain register their own. A header and a transaction are
  written through reflection by the serialisation library, so their codecs are parameters.
\<close>

record header =
  bh_ChainID :: u8
  bh_Version :: u16
  bh_Height :: u32
  bh_PrevHash :: hash256
  bh_LevelRootHash :: hash256
  bh_ContextHash :: hash256
  bh_Timestamp :: u64
  bh_Generator :: address
  bh_ConsensusData :: bytes

record block_sign =
  bs_HeaderHash :: hash256
  bs_GeneratorSignature :: signature

record 'tx block =
  b_Header :: header
  b_TransactionTypes :: "u16 list"
  b_Transactions :: "'tx list"
  b_TransactionSignatures :: "signature list list"
  b_Signatures :: "signature list"

section \<open>The codec\<close>

fun encode_txs :: "msgpack \<Rightarrow> ('tx \<Rightarrow> bytes) \<Rightarrow> u16 list \<Rightarrow> 'tx list \<Rightarrow> signature list list \<Rightarrow> bytes" where
  "encode_txs mp encTx (t # ts) (tx # txs) (sigs # sigss) =
     mp_EncodeUint16 mp t @ encTx tx @ encode_seq mp (mp_EncodeBytes mp) sigs @ encode_txs mp encTx ts txs sigss"
| "encode_txs mp encTx _ _ _ = []"

definition block_encode :: "msgpack \<Rightarrow> (header \<Rightarrow> bytes) \<Rightarrow> ('tx \<Rightarrow> bytes) \<Rightarrow> 'tx block \<Rightarrow> err + bytes" where
  "block_encode mp encHeader encTx b =
     (if 65535 \<le> length (b_TransactionTypes b) then Inl (TypesErr ErrInvalidTransactionCount)
      else if length (b_TransactionTypes b) \<noteq> length (b_Transactions b) then Inl (TypesErr ErrInvalidTransactionCount)
      else if length (b_TransactionTypes b) \<noteq> length (b_TransactionSignatures b)
      then Inl (TypesErr ErrInvalidTransactionCount)
      else Inr (encHeader (b_Header b) @ mp_EncodeArrayLen mp (int (length (b_Transactions b))) @
             encode_txs mp encTx (b_TransactionTypes b) (b_Transactions b) (b_TransactionSignatures b) @
             encode_seq mp (mp_EncodeBytes mp) (b_Signatures b)))"

text \<open>\<open>create\<close> is the transaction factory: the decoder of the type registered under a number.\<close>

definition decode_tx :: "msgpack \<Rightarrow> (u16 \<Rightarrow> err + 'tx decoder) \<Rightarrow> (u16 \<times> 'tx \<times> signature list) decoder" where
  "decode_tx mp create =
     bindE (mp_DecodeUint16 mp) (\<lambda>t. bindE (liftE (create t)) (\<lambda>decTx. bindE decTx (\<lambda>tx.
       bindE (decode_seq mp (decode_array mp SignatureSize)) (\<lambda>sigs. returnE (t, tx, sigs)))))"

definition block_decode :: "msgpack \<Rightarrow> header decoder \<Rightarrow> (u16 \<Rightarrow> err + 'tx decoder) \<Rightarrow> 'tx block decoder" where
  "block_decode mp decHeader create =
     bindE decHeader (\<lambda>hdr. bindE (mp_DecodeArrayLen mp) (\<lambda>TxLen.
       thenE (failIf (65535 \<le> TxLen) (TypesErr ErrInvalidTransactionCount))
         (bindE (decode_times (nat TxLen) (decode_tx mp create)) (\<lambda>txs.
           bindE (decode_seq mp (decode_array mp SignatureSize)) (\<lambda>sigs.
             returnE \<lparr>b_Header = hdr, b_TransactionTypes = map fst txs, b_Transactions = map (fst \<circ> snd) txs,
               b_TransactionSignatures = map (snd \<circ> snd) txs, b_Signatures = sigs\<rparr>)))))"

section \<open>Round trip\<close>

text \<open>A transaction the factory can read back.\<close>

definition tx_readable :: "(u16 \<Rightarrow> err + 'tx decoder) \<Rightarrow> ('tx \<Rightarrow> bytes) \<Rightarrow> u16 \<Rightarrow> 'tx \<Rightarrow> bool" where
  "tx_readable create encTx t tx \<longleftrightarrow>
     (\<exists>dec. create t = Inr dec \<and> (\<forall>rest. dec (encTx tx @ rest) = (Inr tx, rest)))"

definition good_sigs :: "signature list \<Rightarrow> bool" where
  "good_sigs sigs \<longleftrightarrow> short sigs \<and> (\<forall>sig\<in>set sigs. length sig = SignatureSize)"

lemma sigs_read:
  assumes "msgpack_ok mp" and "good_sigs sigs"
  shows "decode_seq mp (decode_array mp SignatureSize) (encode_seq mp (mp_EncodeBytes mp) sigs @ rest) = (Inr sigs, rest)"
proof -
  have "SignatureSize < 2 ^ 32" by (simp add: SignatureSize_def)
  from codec_seq[OF assms(1) codec_array[OF assms(1) this]] show ?thesis
    using assms(2) by (simp add: codec_def good_sigs_def)
qed

lemma encode_txs_concat:
  assumes "length ts = length txs" and "length ts = length sigss"
  shows "encode_txs mp encTx ts txs sigss =
    concat (map (\<lambda>(t, tx, sigs). mp_EncodeUint16 mp t @ encTx tx @ encode_seq mp (mp_EncodeBytes mp) sigs) (zip ts (zip txs sigss)))"
  using assms by (induction mp encTx ts txs sigss rule: encode_txs.induct) auto

definition block_good :: "(u16 \<Rightarrow> err + 'tx decoder) \<Rightarrow> ('tx \<Rightarrow> bytes) \<Rightarrow> 'tx block \<Rightarrow> bool" where
  "block_good create encTx b \<longleftrightarrow>
     list_all2 (tx_readable create encTx) (b_TransactionTypes b) (b_Transactions b) \<and>
     length (b_TransactionSignatures b) = length (b_Transactions b) \<and>
     (\<forall>sigs\<in>set (b_TransactionSignatures b). good_sigs sigs) \<and> good_sigs (b_Signatures b)"

lemma block_codec:
  assumes "msgpack_ok mp" and "codec encHeader decHeader goodHeader" and "goodHeader (b_Header b)"
    and "block_good create encTx b"
  shows "case block_encode mp encHeader encTx b of
      Inl e \<Rightarrow> 65535 \<le> length (b_Transactions b) \<and> e = TypesErr ErrInvalidTransactionCount
    | Inr bs \<Rightarrow> length (b_Transactions b) < 65535 \<and> block_decode mp decHeader create (bs @ rest) = (Inr b, rest)"
proof (cases "65535 \<le> length (b_Transactions b)")
  case True
  then show ?thesis using assms(4) by (auto simp: block_encode_def block_good_def dest: list_all2_lengthD)
next
  case False
  let ?ts = "b_TransactionTypes b" and ?txs = "b_Transactions b" and ?ss = "b_TransactionSignatures b"
  have len: "length ?ts = length ?txs" "length ?ts = length ?ss"
    using assms(4) by (auto simp: block_good_def dest: list_all2_lengthD)
  let ?enc = "\<lambda>(t, tx, sigs). mp_EncodeUint16 mp t @ encTx tx @ encode_seq mp (mp_EncodeBytes mp) sigs"
  have tx: "codec ?enc (decode_tx mp create) (\<lambda>(t, tx, sigs). tx_readable create encTx t tx \<and> good_sigs sigs)"
    unfolding codec_def
  proof (intro allI impI)
    fix x rest assume "case x of (t, tx, sigs) \<Rightarrow> tx_readable create encTx t tx \<and> good_sigs sigs"
    then show "decode_tx mp create (?enc x @ rest) = (Inr x, rest)"
      using msgpack_reads(2)[OF assms(1)] sigs_read[OF assms(1)]
      by (auto simp: decode_tx_def tx_readable_def bindE_def liftE_def returnE_def)
  qed
  have good: "\<forall>x\<in>set (zip ?ts (zip ?txs ?ss)). case x of (t, tx, sigs) \<Rightarrow> tx_readable create encTx t tx \<and> good_sigs sigs"
  proof
    fix x assume "x \<in> set (zip ?ts (zip ?txs ?ss))"
    then obtain i where i: "i < length ?ts" "x = (?ts ! i, ?txs ! i, ?ss ! i)" using len by (auto simp: set_zip)
    then show "case x of (t, tx, sigs) \<Rightarrow> tx_readable create encTx t tx \<and> good_sigs sigs"
      using assms(4) len by (auto simp: block_good_def list_all2_conv_all_nth)
  qed
  have txs: "decode_times (length ?txs) (decode_tx mp create) (encode_txs mp encTx ?ts ?txs ?ss @ rest)
      = (Inr (zip ?ts (zip ?txs ?ss)), rest)" for rest
    using codec_times[OF tx good] len by (simp add: encode_txs_concat)
  have alen: "mp_DecodeArrayLen mp (mp_EncodeArrayLen mp (int (length ?txs)) @ rest) = (Inr (int (length ?txs)), rest)" for rest
    using False by (intro msgpack_reads(6)[OF assms(1)]) simp
  have sigs: "decode_seq mp (decode_array mp SignatureSize) (encode_seq mp (mp_EncodeBytes mp) (b_Signatures b) @ rest)
      = (Inr (b_Signatures b), rest)" for rest
    using assms(4) by (intro sigs_read[OF assms(1)]) (simp add: block_good_def)
  have "map fst (zip ?ts (zip ?txs ?ss)) = ?ts" "map (fst \<circ> snd) (zip ?ts (zip ?txs ?ss)) = ?txs"
    "map (snd \<circ> snd) (zip ?ts (zip ?txs ?ss)) = ?ss"
    using len by (simp_all add: map_zip_map flip: map_map)
  then show ?thesis
    using False len codecD[OF assms(2,3)] alen txs sigs
    by (cases b) (simp add: block_encode_def block_decode_def bindE_def failIf_run returnE_def)
qed


text \<open>A codec of headers on top of the example library, and a small block of numbered transactions.\<close>

definition plain_header :: "header \<Rightarrow> bytes" where
  "plain_header h = [bh_ChainID h] @ LE_Uint16ToBytes (bh_Version h) @ LE_Uint32ToBytes (bh_Height h) @
     plain_bytes (bh_PrevHash h) @ plain_bytes (bh_LevelRootHash h) @ plain_bytes (bh_ContextHash h) @
     LE_Uint64ToBytes (bh_Timestamp h) @ plain_bytes (bh_Generator h) @ plain_bytes (bh_ConsensusData h)"

definition plain_unheader :: "header decoder" where
  "plain_unheader =
     bindE (fixed 1 (\<lambda>bs. Some (hd bs))) (\<lambda>c. bindE (fixed 2 LE_Uint16) (\<lambda>v. bindE (fixed 4 LE_Uint32) (\<lambda>h.
       bindE plain_unbytes (\<lambda>p. bindE plain_unbytes (\<lambda>l. bindE plain_unbytes (\<lambda>x.
         bindE (fixed 8 LE_Uint64) (\<lambda>t. bindE plain_unbytes (\<lambda>g. bindE plain_unbytes (\<lambda>d.
           returnE \<lparr>bh_ChainID = c, bh_Version = v, bh_Height = h, bh_PrevHash = p, bh_LevelRootHash = l,
             bh_ContextHash = x, bh_Timestamp = t, bh_Generator = g, bh_ConsensusData = d\<rparr>)))))))))"

definition good_header :: "header \<Rightarrow> bool" where
  "good_header h \<longleftrightarrow> short (bh_PrevHash h) \<and> short (bh_LevelRootHash h) \<and> short (bh_ContextHash h) \<and>
     short (bh_Generator h) \<and> short (bh_ConsensusData h)"

lemma plain_header_codec: "codec plain_header plain_unheader good_header"
  unfolding codec_def
proof (intro allI impI)
  fix h rest assume "good_header h"
  moreover have "fixed 1 (\<lambda>bs. Some (hd bs)) (c # rest) = (Inr c, rest)" for c :: u8 and rest by (simp add: fixed_def)
  ultimately show "plain_unheader (plain_header h @ rest) = (Inr h, rest)"
    by (cases h) (simp add: plain_header_def plain_unheader_def good_header_def bindE_def returnE_def fixed_append
        plain_unbytes_append)
qed

definition sample_header :: header where
  "sample_header = \<lparr>bh_ChainID = 1, bh_Version = 1, bh_Height = 1, bh_PrevHash = zeros 32, bh_LevelRootHash = zeros 32,
     bh_ContextHash = zeros 32, bh_Timestamp = 7, bh_Generator = zeros 14, bh_ConsensusData = [0]\<rparr>"

definition sample_block :: "u64 block" where
  "sample_block = \<lparr>b_Header = sample_header, b_TransactionTypes = [1, 1], b_Transactions = [5, 6],
     b_TransactionSignatures = [[zeros SignatureSize], []], b_Signatures = [zeros SignatureSize]\<rparr>"


end
