(* ===== verification/Consensus.thy ===== *)
theory Consensus
  imports Rank_Table Map_Codecs Block Context_Laws
begin

text \<open>
  The consensus of the chain (\<^verbatim>\<open>pof/consensus.go\<close>, \<^verbatim>\<open>pof/consensus_method.go\<close>): which header is accepted with
  which signatures, how the rank table follows the formulator accounts and the generated blocks, and how the
  consensus state is saved with the chain. The hashes that the serialisation library computes of a header and of
  a block signature are the parameters \<open>hashHeader\<close> and \<open>hashSign\<close>; key recovery is the parameter \<open>recover\<close>.
\<close>

record consensus =
  cs_maxBlocksPerFormulator :: u32
  cs_blocksBySameFormulator :: u32
  cs_observerKeyMap :: "(pubhash, bool) omap"
  cs_rt :: rank_table

definition NewConsensus :: "u32 \<Rightarrow> pubhash list \<Rightarrow> consensus" where
  "NewConsensus MaxBlocksPerFormulator ObserverKeys =
     \<lparr>cs_maxBlocksPerFormulator = MaxBlocksPerFormulator, cs_blocksBySameFormulator = 0,
      cs_observerKeyMap = fold (\<lambda>pubhash m. om_put pubhash True m) ObserverKeys [], cs_rt = NewRankTable\<rparr>"

definition cs_tagState :: bytes where
  "cs_tagState = [1]"

section \<open>Following the accounts\<close>

text \<open>\<^verbatim>\<open>acc, is := a.(FormulatorAccount); is && acc.IsFormulator()\<close>.\<close>

fun as_formulator :: "account \<Rightarrow> formulator_account option" where
  "as_formulator (FormulatorAccount acc) = Some acc"
| "as_formulator _ = None"

definition IsActivated :: "formulator_account \<Rightarrow> bool" where
  "IsActivated acc \<longleftrightarrow> \<not> fa_IsRevoked acc"

definition new_rank :: "u32 \<Rightarrow> address \<Rightarrow> formulator_account \<Rightarrow> rank" where
  "new_rank phase addr acc = NewRank addr (fa_GenHash acc) phase (DoubleHash addr)"

definition update_rank :: "u32 \<Rightarrow> u32 \<Rightarrow> address \<Rightarrow> formulator_account \<Rightarrow> (rank_table, unit) go_meth" where
  "update_rank phase target addr acc rt =
     (if addr_Height (fa_Address acc) = Some target
      then if IsActivated acc then addRank (new_rank phase addr acc) rt else (Inr (), rt)
      else
        case rt_rankMap rt addr of
          Some r \<Rightarrow>
            if \<not> IsActivated acc then (Inr (), removeRank addr rt)
            else if rk_PublicHash (rank_at rt r) \<noteq> fa_GenHash acc
            then addRank (new_rank phase addr acc) (removeRank addr rt)
            else (Inr (), rt)
        | None \<Rightarrow> if IsActivated acc then addRank (new_rank phase addr acc) rt else (Inr (), rt))"

definition updateFormulatorList :: "chain_ctx \<Rightarrow> (rank_table, unit) go_meth" where
  "updateFormulatorList ctx rt =
     (let phase = smallestPhase rt + 2
      in thenE (foreachE (\<lambda>(addr, a). case as_formulator a of
                  Some acc \<Rightarrow> update_rank phase (ctx_TargetHeight ctx) addr acc
                | None \<Rightarrow> returnE ()) (om_each (cd_AccountMap (ctx_Top ctx))))
         (thenE (foreachE (\<lambda>(addr, a). case as_formulator a of
                  Some acc \<Rightarrow> writeE (removeRank (fa_Address acc))
                | None \<Rightarrow> returnE ()) (om_each (cd_DeletedAccountMap (ctx_Top ctx))))
         (bindE (readE (\<lambda>rt. (CandidateCount rt, rt))) (\<lambda>n.
            failIf (n = 0) (PofErr ErrInsufficientCandidateCount)))) rt)"

section \<open>Saving and loading\<close>

definition DecodeConsensusData :: "msgpack \<Rightarrow> bytes \<Rightarrow> err + u32" where
  "DecodeConsensusData mp ConsensusData = fst (mp_DecodeUint32 mp ConsensusData)"

definition encodeConsensusData :: "msgpack \<Rightarrow> u32 \<Rightarrow> bytes" where
  "encodeConsensusData mp TimeoutCount = mp_EncodeUint32 mp TimeoutCount"

definition buildSaveData :: "msgpack \<Rightarrow> consensus \<Rightarrow> bytes" where
  "buildSaveData mp cs =
     mp_EncodeUint32 mp (cs_maxBlocksPerFormulator cs) @ PublicHashBoolMap_encode mp (cs_observerKeyMap cs) @
     mp_EncodeUint32 mp (cs_blocksBySameFormulator cs) @ rank_table_encode mp (cs_rt cs)"

text \<open>
  The hooks change the consensus and the context of the block, so they are methods on the pair. A method of the
  rank table inside the pair:
\<close>

definition on_table :: "(rank_table, unit) go_meth \<Rightarrow> (consensus \<times> chain_ctx, unit) go_meth" where
  "on_table m = (\<lambda>(cs, ctx). case m (cs_rt cs) of (r, rt) \<Rightarrow> (r, cs\<lparr>cs_rt := rt\<rparr>, ctx))"

definition save_state :: "msgpack \<Rightarrow> (consensus \<times> chain_ctx, unit) go_meth" where
  "save_state mp = writeE (\<lambda>(cs, ctx). (cs, ctx_SetProcessData 0 cs_tagState (buildSaveData mp cs) ctx))"

definition update_and_save :: "msgpack \<Rightarrow> (consensus \<times> chain_ctx, unit) go_meth" where
  "update_and_save mp s = thenE (on_table (updateFormulatorList (snd s))) (save_state mp) s"

definition cs_InitGenesis :: "msgpack \<Rightarrow> (consensus \<times> chain_ctx, unit) go_meth" where
  "cs_InitGenesis mp = update_and_save mp"

definition cs_OnSaveData ::
  "msgpack \<Rightarrow> (header \<Rightarrow> hash256) \<Rightarrow> 'tx block \<Rightarrow> (consensus \<times> chain_ctx, unit) go_meth" where
  "cs_OnSaveData mp hashHeader b =
     (let HeaderHash = hashHeader (b_Header b)
      in bindE (liftE (DecodeConsensusData mp (bh_ConsensusData (b_Header b)))) (\<lambda>TimeoutCount.
           thenE (if 0 < TimeoutCount
                  then thenE (on_table (forwardCandidates (unat TimeoutCount)))
                         (writeE (\<lambda>(cs, ctx). (cs\<lparr>cs_blocksBySameFormulator := 0\<rparr>, ctx)))
                  else returnE ())
           (thenE (writeE (\<lambda>(cs, ctx). (cs\<lparr>cs_blocksBySameFormulator := cs_blocksBySameFormulator cs + 1\<rparr>, ctx)))
           (thenE (\<lambda>(cs, ctx).
                     if cs_maxBlocksPerFormulator cs \<le> cs_blocksBySameFormulator cs
                     then thenE (on_table (forwardTop HeaderHash))
                            (writeE (\<lambda>(cs, ctx). (cs\<lparr>cs_blocksBySameFormulator := 0\<rparr>, ctx))) (cs, ctx)
                     else (Inr (), cs, ctx))
             (update_and_save mp)))))"

text \<open>\<^verbatim>\<open>OnLoadChain\<close> reads the saved data of process 0 and replaces the state field by field.\<close>

definition same_keys :: "(pubhash, bool) omap \<Rightarrow> (pubhash, bool) omap \<Rightarrow> bool" where
  "same_keys saved own \<longleftrightarrow> om_len saved = om_len own \<and> list_all (\<lambda>(pubhash, _). om_has own pubhash) (om_each saved)"

definition cs_OnLoadChain :: "msgpack \<Rightarrow> chain_ctx \<Rightarrow> (consensus, unit) go_meth" where
  "cs_OnLoadChain mp loader cs =
     (let data = fst (ctx_ProcessData 0 cs_tagState loader)
      in case mp_DecodeUint32 mp data of
           (Inl e, _) \<Rightarrow> (Inl e, cs)
         | (Inr v, data) \<Rightarrow>
             if cs_maxBlocksPerFormulator cs \<noteq> v then (Inl (PofErr ErrInvalidMaxBlocksPerFormulator), cs)
             else case PublicHashBoolMap_decode mp data of
               (Inl e, _) \<Rightarrow> (Inl e, cs)
             | (Inr ObserverKeyMap, data) \<Rightarrow>
                 if \<not> same_keys ObserverKeyMap (cs_observerKeyMap cs) then (Inl (PofErr ErrInvalidObserverKey), cs)
                 else case mp_DecodeUint32 mp data of
                   (Inl e, _) \<Rightarrow> (Inl e, cs)
                 | (Inr v, data) \<Rightarrow>
                     let cs = cs\<lparr>cs_blocksBySameFormulator := v\<rparr>
                     in case rank_table_decode mp data of
                          (Inl e, _) \<Rightarrow> (Inl e, cs)
                        | (Inr rt, _) \<Rightarrow> (Inr (), cs\<lparr>cs_rt := rt\<rparr>))"

section \<open>Accepting a header\<close>

definition ValidateSignature ::
  "msgpack \<Rightarrow> recover \<Rightarrow> (header \<Rightarrow> hash256) \<Rightarrow> (block_sign \<Rightarrow> hash256) \<Rightarrow> consensus \<Rightarrow> header \<Rightarrow> signature list \<Rightarrow> err + unit" where
  "ValidateSignature mp recover hashHeader hashSign cs bh sigs =
     (case DecodeConsensusData mp (bh_ConsensusData bh) of Inl e \<Rightarrow> Inl e
      | Inr TimeoutCount \<Rightarrow>
          case TopRank (unat TimeoutCount) (cs_rt cs) of Inl e \<Rightarrow> Inl e
          | Inr Top \<Rightarrow>
              if rk_Address Top \<noteq> bh_Generator bh then Inl (PofErr ErrInvalidTopAddress)
              else if sigs = [] then Inl Panic
              else case recover (hashHeader bh) (sigs ! 0) of Inl e \<Rightarrow> Inl e
                | Inr pubkey \<Rightarrow>
                    if rk_PublicHash Top \<noteq> NewPublicHash pubkey then Inl (PofErr ErrInvalidTopSignature)
                    else if length sigs \<noteq> om_len (cs_observerKeyMap cs) div 2 + 2
                    then Inl (PofErr ErrInvalidSignatureCount)
                    else
                      let KeyMap = fold (\<lambda>(pubhash, _) m. om_put pubhash True m) (om_each (cs_observerKeyMap cs)) [];
                          bs = \<lparr>bs_HeaderHash = hashHeader bh, bs_GeneratorSignature = sigs ! 0\<rparr>
                      in ValidateSignaturesMajority recover (hashSign bs) (tl sigs) KeyMap)"

section \<open>The table and the accounts\<close>

text \<open>The public hash a table has for an address.\<close>

definition member :: "rank_table \<Rightarrow> address \<Rightarrow> pubhash option" where
  "member rt a = (case rt_rankMap rt a of None \<Rightarrow> None | Some r \<Rightarrow> Some (rk_PublicHash (rank_at rt r)))"

lemma member_iff:
  assumes "rt_ok rt"
  shows "member rt a = Some ph \<longleftrightarrow> (\<exists>r\<in>set (ranks rt). rk_Address r = a \<and> rk_PublicHash r = ph)"
  using rt_observed(4)[OF assms, of a ph] by (cases "rt_rankMap rt a") (simp_all add: IsFormulator_def member_def)

lemma member_eqI:
  assumes "\<And>ph. x = Some ph \<longleftrightarrow> y = Some ph"
  shows "x = (y :: 'a option)"
  using assms by (metis not_Some_eq)

lemma member_Some_ranks: "rt_ok rt \<Longrightarrow> member rt a \<noteq> None \<longleftrightarrow> a \<in> rk_Address ` set (ranks rt)"
  using rankMap_has[of rt a] by (auto simp: member_def split: option.splits)

lemma addRank_member:
  assumes "rt_ok rt" and "rank_ok s" and "addRank s rt = (Inr (), rt')"
  shows "rt_ok rt'" and "member rt' = (member rt)(rk_Address s \<mapsto> rk_PublicHash s)"
    and "set (ranks rt') = insert s (set (ranks rt))"
proof -
  note sp = rt_apply_spec[OF assms(1), of "RtAdd s"]
  have "rk_Address s \<notin> rk_Address ` set (ranks rt)" and rs: "ranks rt' = insort_key rank_key s (ranks rt)"
    using sp assms(2,3) by (auto split: if_splits)
  then have new: "\<forall>r\<in>set (ranks rt). rk_Address r \<noteq> rk_Address s" by (metis image_eqI)
  show ok: "rt_ok rt'" using sp assms(2,3) by simp
  show set: "set (ranks rt') = insert s (set (ranks rt))" by (simp add: rs set_insort_key)
  show "member rt' = (member rt)(rk_Address s \<mapsto> rk_PublicHash s)"
  proof (rule ext, rule member_eqI)
    fix a ph
    show "member rt' a = Some ph \<longleftrightarrow> ((member rt)(rk_Address s \<mapsto> rk_PublicHash s)) a = Some ph"
      using member_iff[OF assms(1), of a ph] new
      by (cases "a = rk_Address s") (auto simp: member_iff[OF ok] set)
  qed
qed

lemma addRank_fails: "addRank s rt = (Inl e, rt') \<Longrightarrow> rt' = rt"
  by (auto simp: addRank_def Let_def split: if_splits)

lemma removeRank_member:
  assumes "rt_ok rt"
  shows "member (removeRank a rt) = (member rt)(a := None)"
proof (rule ext, rule member_eqI)
  fix x ph
  show "member (removeRank a rt) x = Some ph \<longleftrightarrow> ((member rt)(a := None)) x = Some ph"
    using member_iff[OF removeRank_ranks(1)[OF assms], of a x ph] member_iff[OF assms, of x ph]
    by (auto simp: removeRank_ranks(2)[OF assms])
qed

text \<open>A formulator entry of the account map as the Go types have it.\<close>

definition entry_ok :: "address \<times> account \<Rightarrow> bool" where
  "entry_ok = (\<lambda>(addr, a). case as_formulator a of None \<Rightarrow> True
     | Some acc \<Rightarrow> is_address addr \<and> fa_Address acc = addr \<and> length (fa_GenHash acc) = PublicHashSize)"

lemma new_rank_ok:
  "entry_ok (addr, a) \<Longrightarrow> as_formulator a = Some acc \<Longrightarrow> rank_ok (new_rank phase addr acc)"
  using is_hash_simps(2)[of addr] unfolding new_rank_def NewRank_def
  by (intro rank_ok_update) (auto simp: entry_ok_def is_hash_def Hash256Size_def)

lemma new_rank_fields [simp]:
  "rk_Address (new_rank phase addr acc) = addr" "rk_PublicHash (new_rank phase addr acc) = fa_GenHash acc"
  "rk_phase (new_rank phase addr acc) = phase"
  by (simp_all add: new_rank_def)

text \<open>What an account in the top snapshot means for the table.\<close>

definition tracked :: "u32 \<Rightarrow> formulator_account \<Rightarrow> pubhash option \<Rightarrow> pubhash option" where
  "tracked target acc old =
     (if IsActivated acc then Some (fa_GenHash acc)
      else if addr_Height (fa_Address acc) = Some target then old else None)"

lemma update_rank_cases:
  assumes run: "update_rank phase target addr acc rt = (r, rt')"
  obtains (keep) "rt' = rt" "r = Inr ()" "tracked target acc (member rt addr) = member rt addr"
  | (add) "IsActivated acc" "addRank (new_rank phase addr acc) rt = (r, rt')"
  | (remove) "rt' = removeRank addr rt" "r = Inr ()" "tracked target acc (member rt addr) = None"
  | (renew) "IsActivated acc" "member rt addr \<noteq> Some (fa_GenHash acc)" "addRank (new_rank phase addr acc) (removeRank addr rt) = (r, rt')"
proof (cases "addr_Height (fa_Address acc) = Some target")
  case True
  then show thesis using run keep add by (cases "IsActivated acc") (simp_all add: update_rank_def tracked_def)
next
  case False
  show thesis
  proof (cases "rt_rankMap rt addr")
    case None
    then show thesis
      using run False keep add by (cases "IsActivated acc") (simp_all add: update_rank_def tracked_def member_def)
  next
    case (Some x)
    then show thesis
      using run False keep remove renew by (cases "IsActivated acc"; cases "rk_PublicHash (rank_at rt x) = fa_GenHash acc")
        (simp_all add: update_rank_def tracked_def member_def)
  qed
qed

lemma update_rank_spec:
  assumes "rt_ok rt" and e: "entry_ok (addr, a)" "as_formulator a = Some acc"
    and run: "update_rank phase target addr acc rt = (r, rt')"
  shows "rt_ok rt'" and "r = Inr () \<Longrightarrow> member rt' = (member rt)(addr := tracked target acc (member rt addr))"
    and "\<forall>x\<in>set (ranks rt'). x \<in> set (ranks rt) \<or> rk_phase x = phase"
proof -
  note new = new_rank_ok[OF e, of phase]
  have fresh: "rt_ok t' \<and> (r = Inr () \<longrightarrow> member t' = (member t)(addr \<mapsto> fa_GenHash acc)) \<and>
      (\<forall>x\<in>set (ranks t'). x \<in> set (ranks t) \<or> rk_phase x = phase)"
    if "rt_ok t" "addRank (new_rank phase addr acc) t = (r, t')" for t t'
  proof (cases r)
    case (Inl e)
    then show ?thesis using addRank_fails that by auto
  next
    case (Inr u)
    then show ?thesis using addRank_member[OF that(1) new] that(2) by auto
  qed
  note rm = removeRank_ranks[OF assms(1), of addr] removeRank_member[OF assms(1), of addr]
  from run have "rt_ok rt' \<and> (r = Inr () \<longrightarrow> member rt' = (member rt)(addr := tracked target acc (member rt addr))) \<and>
    (\<forall>x\<in>set (ranks rt'). x \<in> set (ranks rt) \<or> rk_phase x = phase)"
  proof (cases rule: update_rank_cases)
    case keep
    then have "(member rt)(addr := tracked target acc (member rt addr)) = member rt" by (simp add: fun_eq_iff)
    then show ?thesis using keep assms(1) by simp
  next
    case add
    then show ?thesis using fresh[OF assms(1)] by (simp add: tracked_def)
  next
    case remove
    then show ?thesis using rm by simp
  next
    case renew
    then show ?thesis using fresh[OF rm(1)] rm by (auto simp: tracked_def)
  qed
  then show "rt_ok rt'" "r = Inr () \<Longrightarrow> member rt' = (member rt)(addr := tracked target acc (member rt addr))"
    "\<forall>x\<in>set (ranks rt'). x \<in> set (ranks rt) \<or> rk_phase x = phase" by blast+
qed

text \<open>
  Which ranks a table has after an update: a candidate whose key stays the same keeps its rank, one with another
  key or a new candidate gets a new rank, and all others are gone.
\<close>

definition renewed :: "u32 \<Rightarrow> rank_table \<Rightarrow> rank_table \<Rightarrow> bool" where
  "renewed phase rt rt' \<longleftrightarrow> rt_height rt' = rt_height rt \<and>
     (\<forall>x. x \<in> set (ranks rt') \<longleftrightarrow> member rt' (rk_Address x) = Some (rk_PublicHash x) \<and>
       (x \<in> set (ranks rt) \<or>
        member rt (rk_Address x) \<noteq> Some (rk_PublicHash x) \<and>
        x = NewRank (rk_Address x) (rk_PublicHash x) phase (DoubleHash (rk_Address x))))"

lemma ranks_member: "rt_ok rt \<Longrightarrow> x \<in> set (ranks rt) \<Longrightarrow> member rt (rk_Address x) = Some (rk_PublicHash x)"
  by (auto simp: member_iff)

lemma renewed_refl: "rt_ok rt \<Longrightarrow> renewed phase rt rt"
  using ranks_member by (auto simp: renewed_def member_iff)

lemma renewed_trans:
  assumes "renewed phase rt rt1" and "renewed phase rt1 rt'" and "rt_ok rt" and "rt_ok rt1"
    and "\<And>a ph. member rt a = Some ph \<Longrightarrow> member rt' a = Some ph \<Longrightarrow> member rt1 a = Some ph"
  shows "renewed phase rt rt'"
  using assms ranks_member[OF assms(3)] ranks_member[OF assms(4)] unfolding renewed_def by metis

lemma renewed_remove:
  assumes "rt_ok rt"
  shows "renewed phase rt (removeRank a rt)"
proof -
  have "rt_height (removeRank a rt) = rt_height rt" by (simp add: removeRank_def)
  then show ?thesis
    using ranks_member[OF assms] by (auto simp: renewed_def removeRank_ranks[OF assms] removeRank_member[OF assms] split: if_splits)
qed

lemma renewed_add:
  assumes "rt_ok rt" and "entry_ok (addr, a)" and "as_formulator a = Some acc"
    and run: "addRank (new_rank phase addr acc) rt = (Inr (), rt')"
  shows "renewed phase rt rt'"
proof -
  let ?s = "new_rank phase addr acc"
  note m = addRank_member[OF assms(1) new_rank_ok[OF assms(2,3)] run, simplified]
  have h: "rt_height rt' = rt_height rt" using run by (auto simp: addRank_def Let_def split: if_splits)
  have "addr \<notin> rk_Address ` set (ranks rt)"
    using run rankMap_has[OF assms(1), of addr] by (auto simp: addRank_def split: if_splits)
  then have new: "\<forall>r\<in>set (ranks rt). rk_Address r \<noteq> addr" "member rt addr = None"
    using member_Some_ranks[OF assms(1), of addr] by auto
  show ?thesis
    unfolding renewed_def
  proof (intro conjI allI)
    fix x
    show "x \<in> set (ranks rt') \<longleftrightarrow> member rt' (rk_Address x) = Some (rk_PublicHash x) \<and>
       (x \<in> set (ranks rt) \<or> member rt (rk_Address x) \<noteq> Some (rk_PublicHash x) \<and>
        x = NewRank (rk_Address x) (rk_PublicHash x) phase (DoubleHash (rk_Address x)))"
    proof (cases "rk_Address x = addr")
      case True
      have "x = ?s \<longleftrightarrow> fa_GenHash acc = rk_PublicHash x \<and>
          x = NewRank (rk_Address x) (rk_PublicHash x) phase (DoubleHash (rk_Address x))"
        using True by (metis new_rank_def new_rank_fields(2))
      moreover have "x \<notin> set (ranks rt)" using new(1) True by blast
      ultimately show ?thesis using new(2) True m(2,3) by (metis fun_upd_same insert_iff option.distinct(1) option.inject)
    next
      case False
      then show ?thesis using ranks_member[OF assms(1)] m(2,3) by auto
    qed
  qed (rule h)
qed

lemma renewed_update_rank:
  assumes "rt_ok rt" and "entry_ok (addr, a)" and "as_formulator a = Some acc"
    and run: "update_rank phase target addr acc rt = (Inr (), rt')"
  shows "renewed phase rt rt'"
  using run
proof (cases rule: update_rank_cases)
  case renew
  note rm = removeRank_ranks(1)[OF assms(1), of addr] removeRank_member[OF assms(1), of addr]
  have m: "member rt' = (member (removeRank addr rt))(addr \<mapsto> fa_GenHash acc)"
    using addRank_member(2)[OF rm(1) new_rank_ok[OF assms(2,3)] renew(3)] by simp
  show ?thesis
    by (rule renewed_trans[OF renewed_remove[OF assms(1)] renewed_add[OF rm(1) assms(2,3) renew(3)] assms(1) rm(1)])
      (use m rm(2) renew(2) in \<open>auto split: if_splits\<close>)
qed (use renewed_refl renewed_remove renewed_add assms in auto)

text \<open>The first loop of \<^verbatim>\<open>updateFormulatorList\<close>: every formulator in the account map of the top snapshot.\<close>

definition follow_account :: "u32 \<Rightarrow> account option \<Rightarrow> pubhash option \<Rightarrow> pubhash option" where
  "follow_account target a old =
     (case a of None \<Rightarrow> old | Some x \<Rightarrow> (case as_formulator x of None \<Rightarrow> old | Some acc \<Rightarrow> tracked target acc old))"

lemma accounts_loop:
  assumes "rt_ok rt" and "distinct (map fst xs)" and "\<forall>x\<in>set xs. entry_ok x"
    and "foreachE (\<lambda>(addr, a). case as_formulator a of Some acc \<Rightarrow> update_rank phase target addr acc | None \<Rightarrow> returnE ()) xs rt = (r, rt')"
  shows "rt_ok rt' \<and> (\<forall>x\<in>set (ranks rt'). x \<in> set (ranks rt) \<or> rk_phase x = phase) \<and>
    (r = Inr () \<longrightarrow> renewed phase rt rt' \<and> (\<forall>a. member rt' a = follow_account target (map_of xs a) (member rt a)))"
  using assms
proof (induction xs arbitrary: rt)
  case Nil
  then show ?case by (simp add: returnE_run follow_account_def renewed_refl)
next
  case (Cons x xs)
  obtain addr a where x: "x = (addr, a)" by (cases x)
  let ?f = "\<lambda>(addr, a). case as_formulator a of Some acc \<Rightarrow> update_rank phase target addr acc | None \<Rightarrow> returnE ()"
  obtain r1 rt1 where run1: "?f x rt = (r1, rt1)" by fastforce
  have one: "rt_ok rt1 \<and> (\<forall>y\<in>set (ranks rt1). y \<in> set (ranks rt) \<or> rk_phase y = phase) \<and>
    (r1 = Inr () \<longrightarrow> renewed phase rt rt1 \<and> member rt1 = (member rt)(addr := follow_account target (Some a) (member rt addr)))"
  proof (cases "as_formulator a")
    case None
    then show ?thesis using run1 Cons.prems(1) by (auto simp: x returnE_run follow_account_def fun_eq_iff renewed_refl)
  next
    case (Some acc)
    have e: "entry_ok (addr, a)" using Cons.prems(3) x by simp
    have up: "update_rank phase target addr acc rt = (r1, rt1)" using run1 Some by (simp add: x)
    from update_rank_spec[OF Cons.prems(1) e Some up] show ?thesis
      using Some up renewed_update_rank[OF Cons.prems(1) e Some] by (auto simp: follow_account_def)
  qed
  show ?case
  proof (cases r1)
    case (Inl e)
    then have "r = Inl e" "rt' = rt1" using Cons.prems(4) run1 by (simp_all add: bindE_def)
    then show ?thesis using one by simp
  next
    case (Inr u)
    then have rest: "foreachE ?f xs rt1 = (r, rt')" using Cons.prems(4) run1 by (simp add: bindE_def)
    have IH: "rt_ok rt' \<and> (\<forall>x\<in>set (ranks rt'). x \<in> set (ranks rt1) \<or> rk_phase x = phase) \<and>
      (r = Inr () \<longrightarrow> renewed phase rt1 rt' \<and> (\<forall>a. member rt' a = follow_account target (map_of xs a) (member rt1 a)))"
      using Cons.IH[OF _ _ _ rest] one Cons.prems(2,3) by simp
    have fresh: "map_of xs addr = None" using Cons.prems(2) x by (simp add: map_of_eq_None_iff)
    have "renewed phase rt rt'" if "r = Inr ()"
      by (rule renewed_trans[of phase rt rt1])
        (use IH one Inr that Cons.prems(1) fresh in \<open>auto simp: follow_account_def split: if_splits\<close>)
    then show ?thesis using IH one Inr x fresh by (auto simp: follow_account_def)
  qed
qed

text \<open>The second loop: deleted formulators leave the table.\<close>

lemma deleted_loop:
  assumes "rt_ok rt"
  shows "\<exists>rt'. foreachE (\<lambda>(addr, a). case as_formulator a of Some acc \<Rightarrow> writeE (removeRank (fa_Address acc)) | None \<Rightarrow> returnE ()) xs rt
      = ((Inr () :: err + unit), rt') \<and> rt_ok rt' \<and> set (ranks rt') \<subseteq> set (ranks rt) \<and> renewed phase rt rt' \<and>
    (\<forall>a. member rt' a = (if \<exists>(addr, x)\<in>set xs. \<exists>acc. as_formulator x = Some acc \<and> fa_Address acc = a then None else member rt a))"
  using assms
proof (induction xs arbitrary: rt)
  case Nil
  then show ?case by (simp add: returnE_run renewed_refl)
next
  case (Cons x xs)
  obtain addr a where x: "x = (addr, a)" by (cases x)
  show ?case
  proof (cases "as_formulator a")
    case None
    then show ?thesis using Cons.IH[OF Cons.prems] by (simp add: x bindE_returnE)
  next
    case (Some acc)
    note rm = removeRank_ranks[OF Cons.prems, of "fa_Address acc"] removeRank_member[OF Cons.prems, of "fa_Address acc"]
    obtain rt' where IH: "foreachE (\<lambda>(addr, a). case as_formulator a of Some acc \<Rightarrow> writeE (removeRank (fa_Address acc)) | None \<Rightarrow> returnE ()) xs
        (removeRank (fa_Address acc) rt) = ((Inr () :: err + unit), rt')"
      "rt_ok rt'" "set (ranks rt') \<subseteq> set (ranks (removeRank (fa_Address acc) rt))" "renewed phase (removeRank (fa_Address acc) rt) rt'"
      "\<forall>a. member rt' a = (if \<exists>(addr, x)\<in>set xs. \<exists>acc. as_formulator x = Some acc \<and> fa_Address acc = a then None
        else member (removeRank (fa_Address acc) rt) a)"
      using Cons.IH[OF rm(1)] by blast
    have "renewed phase rt rt'"
      by (rule renewed_trans[OF renewed_remove[OF Cons.prems] IH(4) Cons.prems rm(1)])
        (use IH(5) in \<open>auto split: if_splits\<close>)
    then show ?thesis using IH rm(2,3) Some by (intro exI[of _ rt']) (auto simp: x bindE_writeE)
  qed
qed

text \<open>The map of the table after an update, from the accounts of the top snapshot.\<close>

definition follow :: "chain_ctx \<Rightarrow> (address \<Rightarrow> pubhash option) \<Rightarrow> address \<Rightarrow> pubhash option" where
  "follow ctx old a =
     (if \<exists>(addr, x)\<in>set (cd_DeletedAccountMap (ctx_Top ctx)). \<exists>acc. as_formulator x = Some acc \<and> fa_Address acc = a then None
      else follow_account (ctx_TargetHeight ctx) (om_get (cd_AccountMap (ctx_Top ctx)) a) (old a))"

definition top_typed :: "chain_ctx \<Rightarrow> bool" where
  "top_typed ctx \<longleftrightarrow> om_inv (cd_AccountMap (ctx_Top ctx)) \<and> (\<forall>x\<in>set (cd_AccountMap (ctx_Top ctx)). entry_ok x)"

lemma updateFormulatorList_spec:
  assumes "rt_ok rt" and "top_typed ctx" and run: "updateFormulatorList ctx rt = (r, rt')"
  shows "rt_ok rt'" and "\<forall>x\<in>set (ranks rt'). x \<in> set (ranks rt) \<or> rk_phase x = smallestPhase rt + 2"
    and "r = Inr () \<Longrightarrow> member rt' = follow ctx (member rt) \<and> ranks rt' \<noteq> [] \<and> renewed (smallestPhase rt + 2) rt rt'"
proof -
  let ?top = "ctx_Top ctx" and ?ph = "smallestPhase rt + 2"
  let ?f = "\<lambda>(addr, a). case as_formulator a of Some acc \<Rightarrow> update_rank ?ph (ctx_TargetHeight ctx) addr acc | None \<Rightarrow> returnE ()"
  let ?g = "\<lambda>(addr, a). case as_formulator a of Some acc \<Rightarrow> writeE (removeRank (fa_Address acc)) | None \<Rightarrow> returnE ()"
  have dist: "distinct (map fst (om_each (cd_AccountMap ?top)))"
    using assms(2) by (intro om.ascend_distinct) (simp add: top_typed_def)
  have typed: "\<forall>x\<in>set (om_each (cd_AccountMap ?top)). entry_ok x" using assms(2) by (simp add: top_typed_def om_each_def)
  obtain r1 rt1 where run1: "foreachE ?f (om_each (cd_AccountMap ?top)) rt = (r1, rt1)" by fastforce
  note one = accounts_loop[OF assms(1) dist typed run1]
  then have ok1: "rt_ok rt1" by blast
  obtain rt2 where run2: "foreachE ?g (om_each (cd_DeletedAccountMap ?top)) rt1 = ((Inr () :: err + unit), rt2)"
    and two: "rt_ok rt2" "set (ranks rt2) \<subseteq> set (ranks rt1)" "renewed ?ph rt1 rt2"
    "\<forall>a. member rt2 a = (if \<exists>(addr, x)\<in>set (om_each (cd_DeletedAccountMap ?top)). \<exists>acc. as_formulator x = Some acc \<and> fa_Address acc = a then None else member rt1 a)"
    using deleted_loop[OF ok1, of "om_each (cd_DeletedAccountMap ?top)" ?ph] by blast
  have "rt_ok rt' \<and> (\<forall>x\<in>set (ranks rt'). x \<in> set (ranks rt) \<or> rk_phase x = ?ph) \<and>
    (r = Inr () \<longrightarrow> member rt' = follow ctx (member rt) \<and> ranks rt' \<noteq> [] \<and> renewed ?ph rt rt')"
  proof (cases r1)
    case (Inl e)
    then have "rt' = rt1" "r = Inl e" using run run1 by (simp_all add: updateFormulatorList_def Let_def bindE_def)
    then show ?thesis using one by simp
  next
    case (Inr u)
    then have "rt' = rt2" "r = (if CandidateCount rt2 = 0 then Inl (PofErr ErrInsufficientCandidateCount) else Inr ())"
      using run run1 run2 by (auto simp: updateFormulatorList_def Let_def bindE_def readE_run failIf_run)
    moreover have "member rt2 = follow ctx (member rt)"
      using two(4) one Inr by (simp add: fun_eq_iff follow_def om_each_def om_get_def)
    moreover have "renewed ?ph rt rt2"
      by (rule renewed_trans[of ?ph rt rt1]) (use one two assms(1) ok1 Inr in \<open>auto split: if_splits\<close>)
    moreover have "CandidateCount rt2 = 0 \<longleftrightarrow> ranks rt2 = []" by (simp add: CandidateCount_def ranks_def)
    ultimately show ?thesis using two one by auto
  qed
  then show "rt_ok rt'" "\<forall>x\<in>set (ranks rt'). x \<in> set (ranks rt) \<or> rk_phase x = ?ph"
    "r = Inr () \<Longrightarrow> member rt' = follow ctx (member rt) \<and> ranks rt' \<noteq> [] \<and> renewed ?ph rt rt'" by blast+
qed

section \<open>Moving the table\<close>

lemma rt_advance_member:
  assumes "rt_ok rt" and "rt_event_ok e" and "ranks rt = t # rest" and "unat (rk_phase t) + 2 < 2 ^ 32"
  shows "member (rt_advance e rt) = member rt"
proof (rule ext, rule member_eqI)
  fix a ph
  obtain t' where t': "rt_ok (rt_advance e rt)" "ranks (rt_advance e rt) = insort_key rank_key t' rest"
    "rk_Address t' = rk_Address t" "rk_PublicHash t' = rk_PublicHash t"
    by (rule rt_advance_ranks[OF assms])
  show "member (rt_advance e rt) a = Some ph \<longleftrightarrow> member rt a = Some ph"
    using t' assms(3) by (simp add: member_iff assms(1) set_insort_key)
qed

lemma smallestPhase_ranks: "ranks rt = t # rest \<Longrightarrow> smallestPhase rt = rk_phase t"
  by (auto simp: smallestPhase_def ranks_def)

lemma smallest_le:
  assumes "rt_ok rt" and "r \<in> set (ranks rt)"
  shows "unat (smallestPhase rt) \<le> unat (rk_phase r)"
proof -
  obtain t rest where q: "ranks rt = t # rest" using assms(2) by (cases "ranks rt") auto
  then show ?thesis using rt_ok_phases[OF assms(1)] assms(2) smallestPhase_ranks[OF q] by auto
qed

lemma rt_advance_spread:
  assumes "rt_ok rt" and "rt_spread rt" and "rt_event_ok e" and q: "ranks rt = t # rest" and "unat (smallestPhase rt) + 2 < 2 ^ 32"
  shows "rt_ok (rt_advance e rt)" and "rt_spread (rt_advance e rt)" and "member (rt_advance e rt) = member rt"
    and "length (ranks (rt_advance e rt)) = length (ranks rt)"
    and "unat (smallestPhase (rt_advance e rt)) \<le> unat (smallestPhase rt) + 2"
proof -
  have p: "unat (rk_phase t) + 2 < 2 ^ 32" using assms(5) smallestPhase_ranks[OF q] by simp
  obtain t' where t': "rt_ok (rt_advance e rt)" "ranks (rt_advance e rt) = insort_key rank_key t' rest"
    "unat (rk_phase t) < unat (rk_phase t')" "unat (rk_phase t') \<le> unat (rk_phase t) + 2"
    by (rule rt_advance_ranks[OF assms(1,3) q p])
  have all: "unat (rk_phase t) \<le> unat (rk_phase r) \<and> unat (rk_phase r) \<le> unat (rk_phase t) + 2"
    if "r \<in> set (ranks (rt_advance e rt))" for r
    using that t' assms(2) smallest_le[OF assms(1), of r] smallestPhase_ranks[OF q] q
    by (auto simp: set_insort_key rt_spread_def)
  obtain u us where u: "ranks (rt_advance e rt) = u # us" by (cases "ranks (rt_advance e rt)") (simp_all add: t'(2))
  have small: "smallestPhase (rt_advance e rt) = rk_phase u" by (rule smallestPhase_ranks[OF u])
  show "rt_ok (rt_advance e rt)" by (rule t'(1))
  show "rt_spread (rt_advance e rt)"
    unfolding rt_spread_def small using all all[of u] u by fastforce
  show "member (rt_advance e rt) = member rt" by (rule rt_advance_member[OF assms(1,3) q p])
  show "length (ranks (rt_advance e rt)) = length (ranks rt)" by (simp add: t'(2) q)
  show "unat (smallestPhase (rt_advance e rt)) \<le> unat (smallestPhase rt) + 2"
    using all[of u] u small smallestPhase_ranks[OF q] by simp
qed

lemma skips_spread:
  assumes "rt_ok rt" and "rt_spread rt" and "ranks rt \<noteq> []" and "unat (smallestPhase rt) + 2 * n < 2 ^ 32"
  shows "rt_ok ((skip_top ^^ n) rt) \<and> rt_spread ((skip_top ^^ n) rt) \<and> member ((skip_top ^^ n) rt) = member rt \<and>
    ranks ((skip_top ^^ n) rt) \<noteq> [] \<and> unat (smallestPhase ((skip_top ^^ n) rt)) \<le> unat (smallestPhase rt) + 2 * n"
  using assms(4)
proof (induction n)
  case (Suc n)
  let ?rt = "(skip_top ^^ n) rt"
  have IH: "rt_ok ?rt" "rt_spread ?rt" "member ?rt = member rt" "ranks ?rt \<noteq> []"
    "unat (smallestPhase ?rt) \<le> unat (smallestPhase rt) + 2 * n" using Suc by auto
  obtain t rest where q: "ranks ?rt = t # rest" using IH(4) by (cases "ranks ?rt") auto
  have lim: "unat (smallestPhase ?rt) + 2 < 2 ^ 32" using IH(5) Suc.prems by simp
  note a = rt_advance_spread[OF IH(1,2) _ q lim, of TimedOut, simplified]
  have "ranks (skip_top ?rt) \<noteq> []" using a(4) q by (metis length_0_conv list.distinct(1))
  then show ?case using a(1,2,3,5) IH(3,5) by simp
qed (use assms in simp)

text \<open>The consensus between the two halves of \<^verbatim>\<open>OnSaveData\<close>, after the table has moved.\<close>

definition cs_moved :: "hash256 \<Rightarrow> nat \<Rightarrow> consensus \<Rightarrow> consensus" where
  "cs_moved h n cs =
     (let rt = (skip_top ^^ n) (cs_rt cs);
          blocks = (if 0 < n then 0 else cs_blocksBySameFormulator cs) + 1
      in if cs_maxBlocksPerFormulator cs \<le> blocks
         then cs\<lparr>cs_rt := snd (forwardTop h rt), cs_blocksBySameFormulator := 0\<rparr>
         else cs\<lparr>cs_rt := rt, cs_blocksBySameFormulator := blocks\<rparr>)"

lemma cs_OnSaveData_run:
  assumes "rt_ok (cs_rt cs)" and "ranks (cs_rt cs) \<noteq> []" and "DecodeConsensusData mp (bh_ConsensusData (b_Header b)) = Inr n"
    and "length (hashHeader (b_Header b)) = 32"
  shows "cs_OnSaveData mp hashHeader b (cs, ctx) =
    (if CandidateCount (cs_rt cs) \<le> unat n then (Inl (PofErr ErrExceedCandidateCount), cs, ctx)
     else update_and_save mp (cs_moved (hashHeader (b_Header b)) (unat n) cs, ctx))"
proof -
  let ?h = "hashHeader (b_Header b)" and ?rt = "(skip_top ^^ unat n) (cs_rt cs)"
  have count: "CandidateCount (cs_rt cs) = length (ranks (cs_rt cs))" by (simp add: CandidateCount_def ranks_def)
  have n0: "0 < n \<longleftrightarrow> 0 < unat n" by (simp add: word_less_nat_alt)
  have top: "fst (forwardTop ?h ?rt) = Inr ()" if "\<not> CandidateCount (cs_rt cs) \<le> unat n"
  proof -
    have "rt_ok ?rt" "length (ranks ?rt) = length (ranks (cs_rt cs))"
      using skip_top_spec[OF assms(1), of "unat n"] that count by auto
    then obtain t rest where "rt_ok ?rt" "ranks ?rt = t # rest" using assms(2) by (cases "ranks ?rt") auto
    from forwardTop_ranks(1)[OF this assms(4)] show ?thesis .
  qed
  then obtain rt2 where rt2: "\<not> CandidateCount (cs_rt cs) \<le> unat n \<Longrightarrow> forwardTop ?h ?rt = (Inr (), rt2)"
    by (metis prod.collapse)
  show ?thesis
  proof (cases "CandidateCount (cs_rt cs) \<le> unat n")
    case True
    then have "0 < unat n" using count assms(2) by (metis length_greater_0_conv order.strict_trans2)
    then show ?thesis
      using True assms(3) n0
      by (simp add: cs_OnSaveData_def Let_def bindE_def liftE_run on_table_def forwardCandidates_def CandidateCount_def)
  next
    case False
    then show ?thesis
      using assms(3) n0 rt2[OF False]
      by (cases "0 < unat n") (simp_all add: cs_OnSaveData_def Let_def bindE_def liftE_run on_table_def forwardCandidates_def
          CandidateCount_def writeE_run returnE_run cs_moved_def)
  qed
qed

definition cs_ok :: "consensus \<Rightarrow> bool" where
  "cs_ok cs \<longleftrightarrow> rt_ok (cs_rt cs) \<and> rt_spread (cs_rt cs) \<and> ranks (cs_rt cs) \<noteq> []"

lemma cs_moved_ok:
  assumes "cs_ok cs" and "unat (smallestPhase (cs_rt cs)) + 2 * n + 2 < 2 ^ 32" and "length h = 32"
  shows "rt_ok (cs_rt (cs_moved h n cs))" and "rt_spread (cs_rt (cs_moved h n cs))"
    and "member (cs_rt (cs_moved h n cs)) = member (cs_rt cs)"
    and "unat (smallestPhase (cs_rt (cs_moved h n cs))) \<le> unat (smallestPhase (cs_rt cs)) + 2 * n + 2"
    and "cs_maxBlocksPerFormulator (cs_moved h n cs) = cs_maxBlocksPerFormulator cs"
    and "cs_observerKeyMap (cs_moved h n cs) = cs_observerKeyMap cs"
proof -
  let ?rt = "(skip_top ^^ n) (cs_rt cs)"
  have s: "rt_ok ?rt" "rt_spread ?rt" "member ?rt = member (cs_rt cs)" "ranks ?rt \<noteq> []"
    "unat (smallestPhase ?rt) \<le> unat (smallestPhase (cs_rt cs)) + 2 * n"
    using skips_spread[of "cs_rt cs" n] assms(1,2) by (auto simp: cs_ok_def)
  obtain t rest where q: "ranks ?rt = t # rest" using s(4) by (cases "ranks ?rt") auto
  have lim: "unat (smallestPhase ?rt) + 2 < 2 ^ 32" using s(5) assms(2) by linarith
  note a = rt_advance_spread[OF s(1,2) _ q lim, of "Generated h", simplified, OF assms(3)]
  show "rt_ok (cs_rt (cs_moved h n cs))" "rt_spread (cs_rt (cs_moved h n cs))"
    "member (cs_rt (cs_moved h n cs)) = member (cs_rt cs)"
    "unat (smallestPhase (cs_rt (cs_moved h n cs))) \<le> unat (smallestPhase (cs_rt cs)) + 2 * n + 2"
    "cs_maxBlocksPerFormulator (cs_moved h n cs) = cs_maxBlocksPerFormulator cs"
    "cs_observerKeyMap (cs_moved h n cs) = cs_observerKeyMap cs"
    using s a by (simp_all add: cs_moved_def Let_def)
qed

text \<open>
  The turn at the level of the ordered list of candidates: the timeouts first, then the block counts for the candidate
  at the top, which leaves the top when its count is full.
\<close>

definition turn_blocks :: "u32 \<Rightarrow> consensus \<Rightarrow> u32" where
  "turn_blocks n cs = (if 0 < n then 0 else cs_blocksBySameFormulator cs) + 1"

definition turn_over :: "u32 \<Rightarrow> consensus \<Rightarrow> bool" where
  "turn_over n cs \<longleftrightarrow> cs_maxBlocksPerFormulator cs \<le> turn_blocks n cs"

definition turn_moved :: "hash256 \<Rightarrow> u32 \<Rightarrow> consensus \<Rightarrow> rank list" where
  "turn_moved h n cs =
     snd (rt_spec_run (RtTimeouts (unat n) # (if turn_over n cs then [RtTop h] else [])) (ranks (cs_rt cs)))"

lemma skips_height: "rt_height ((skip_top ^^ n) rt) = rt_height rt"
  by (induction n) (simp_all add: skip_top_def reinsert_top_def Rank_Table.on_top_def Let_def)

lemma cs_moved_turn:
  assumes "cs_ok cs" and "unat n < CandidateCount (cs_rt cs)" and "length h = 32"
  shows "ranks (cs_rt (cs_moved h (unat n) cs)) = turn_moved h n cs"
    and "cs_blocksBySameFormulator (cs_moved h (unat n) cs) = (if turn_over n cs then 0 else turn_blocks n cs)"
    and "rt_height (cs_rt (cs_moved h (unat n) cs)) = rt_height (cs_rt cs) + (if turn_over n cs then 1 else 0)"
proof -
  let ?rt = "(skip_top ^^ unat n) (cs_rt cs)"
  have n: "unat n < length (ranks (cs_rt cs))" using assms(2) by (simp add: CandidateCount_def ranks_def)
  then have s: "rt_ok ?rt" "ranks ?rt = (spec_skip ^^ unat n) (ranks (cs_rt cs))" "ranks ?rt \<noteq> []"
    using skip_top_spec[of "cs_rt cs" "unat n"] assms(1) by (auto simp: cs_ok_def)
  obtain t rest where q: "ranks ?rt = t # rest" using s(3) by (cases "ranks ?rt") auto
  note top = forwardTop_ranks[OF s(1) q assms(3)]
  have n0: "0 < unat n \<longleftrightarrow> 0 < n" by (simp add: word_less_nat_alt)
  have blocks: "(if 0 < unat n then 0 else cs_blocksBySameFormulator cs) + 1 = turn_blocks n cs"
    by (simp add: turn_blocks_def n0)
  show "ranks (cs_rt (cs_moved h (unat n) cs)) = turn_moved h n cs"
    using n top(3) by (auto simp: cs_moved_def turn_moved_def blocks turn_over_def Let_def q s(2)[symmetric])
  show "cs_blocksBySameFormulator (cs_moved h (unat n) cs) = (if turn_over n cs then 0 else turn_blocks n cs)"
    "rt_height (cs_rt (cs_moved h (unat n) cs)) = rt_height (cs_rt cs) + (if turn_over n cs then 1 else 0)"
    using top by (simp_all add: cs_moved_def blocks turn_over_def skips_height Let_def)
qed

text \<open>Updating from the accounts keeps the phases together: a new candidate starts two phases above the smallest.\<close>

lemma update_spread:
  assumes "rt_ok rt" and "rt_spread rt" and "rt_ok rt'" and "unat (smallestPhase rt) + 2 < 2 ^ 32"
    and "\<forall>x\<in>set (ranks rt'). x \<in> set (ranks rt) \<or> rk_phase x = smallestPhase rt + 2"
  shows "rt_spread rt'"
proof (cases "ranks rt'")
  case Nil
  then show ?thesis by (simp add: rt_spread_def)
next
  case (Cons u us)
  have s2: "unat (smallestPhase rt + 2) = unat (smallestPhase rt) + 2"
    using unat_plus_small[of "smallestPhase rt" 2] assms(4) by simp
  have all: "unat (smallestPhase rt) \<le> unat (rk_phase x) \<and> unat (rk_phase x) \<le> unat (smallestPhase rt) + 2"
    if "x \<in> set (ranks rt')" for x
    using assms(2,5) that smallest_le[OF assms(1)] s2 by (fastforce simp: rt_spread_def)
  then show ?thesis
    unfolding rt_spread_def smallestPhase_ranks[OF Cons] using all[of u] Cons by fastforce
qed

lemma update_and_save_run:
  "update_and_save mp (cs, ctx) =
     (case updateFormulatorList ctx (cs_rt cs) of
        (Inl e, rt) \<Rightarrow> (Inl e, cs\<lparr>cs_rt := rt\<rparr>, ctx)
      | (Inr u, rt) \<Rightarrow> (Inr (), cs\<lparr>cs_rt := rt\<rparr>, ctx_SetProcessData 0 cs_tagState (buildSaveData mp (cs\<lparr>cs_rt := rt\<rparr>)) ctx))"
  by (simp add: update_and_save_def bindE_def on_table_def save_state_def writeE_run split: prod.split sum.split)

text \<open>
  C7: what saving a block does to the consensus. The rank table stays ordered with its phases within two of
  the smallest, whether the call succeeds or fails. When it succeeds the block's timeout count was a valid
  position of the table, and the table has moved: each timeout put the candidate at the top two phases back, and when
  the candidate then at the top has made its last block in a row it goes one phase back with the hash of the block, the
  count of blocks restarts and the height of the table grows by one; otherwise the count grows by one. Then the
  table follows the formulator accounts of the block: activated ones are candidates with their current generator key, revoked and
  deleted ones are not, all others as before. A candidate with an unchanged key has the rank it moved to, every other one a
  new rank two phases behind the top. The state under the tag of the consensus is the encoding of the new consensus, and no other
  data of the context changes.
\<close>

theorem on_save_data:
  assumes "cs_ok cs" and "top_typed ctx" and "ctx_wf ctx" and "\<forall>hd. length (hashHeader hd) = 32"
    and "DecodeConsensusData mp (bh_ConsensusData (b_Header b)) = Inr n"
    and "unat (smallestPhase (cs_rt cs)) + 2 * unat n + 4 < 2 ^ 32"
    and "cs_OnSaveData mp hashHeader b (cs, ctx) = (r, cs', ctx')"
  shows "rt_ok (cs_rt cs') \<and> rt_spread (cs_rt cs') \<and>
    (r = Inr () \<longrightarrow> unat n < CandidateCount (cs_rt cs) \<and> cs_ok cs' \<and>
      cs_blocksBySameFormulator cs' = (if turn_over n cs then 0 else turn_blocks n cs) \<and>
      rt_height (cs_rt cs') = rt_height (cs_rt cs) + (if turn_over n cs then 1 else 0) \<and>
      member (cs_rt cs') = follow ctx (member (cs_rt cs)) \<and>
      (let moved = turn_moved (hashHeader (b_Header b)) n cs
       in \<forall>x. x \<in> set (ranks (cs_rt cs')) \<longleftrightarrow>
            follow ctx (member (cs_rt cs)) (rk_Address x) = Some (rk_PublicHash x) \<and>
            (x \<in> set moved \<or> member (cs_rt cs) (rk_Address x) \<noteq> Some (rk_PublicHash x) \<and>
             x = NewRank (rk_Address x) (rk_PublicHash x) (rk_phase (hd moved) + 2) (DoubleHash (rk_Address x)))) \<and>
      ctx_wf ctx' \<and> ctx_view ctx' (PData 0 cs_tagState) = buildSaveData mp cs' \<and>
      (\<forall>k. key_ok k \<and> k \<noteq> PData 0 cs_tagState \<longrightarrow> ctx_view ctx' k = ctx_view ctx k)) \<and>
    cs_maxBlocksPerFormulator cs' = cs_maxBlocksPerFormulator cs \<and> cs_observerKeyMap cs' = cs_observerKeyMap cs"
proof (cases "CandidateCount (cs_rt cs) \<le> unat n")
  case True
  then have "r = Inl (PofErr ErrExceedCandidateCount)" "cs' = cs"
    using cs_OnSaveData_run[OF _ _ assms(5), of cs hashHeader ctx] assms(1,4,7) by (auto simp: cs_ok_def)
  then show ?thesis using assms(1) by (simp add: cs_ok_def)
next
  case False
  let ?cs = "cs_moved (hashHeader (b_Header b)) (unat n) cs"
  have h: "length (hashHeader (b_Header b)) = 32" using assms(4) by blast
  have lim: "unat (smallestPhase (cs_rt cs)) + 2 * unat n + 2 < 2 ^ 32" using assms(6) by simp
  note m = cs_moved_ok[OF assms(1) lim h]
  obtain r1 rt where up: "updateFormulatorList ctx (cs_rt ?cs) = (r1, rt)" by fastforce
  note u = updateFormulatorList_spec[OF m(1) assms(2) up]
  have spread: "rt_spread rt" using update_spread[OF m(1,2) u(1) _ u(2)] m(4) assms(6) by linarith
  have run: "(r, cs', ctx') = update_and_save mp (?cs, ctx)"
    using cs_OnSaveData_run[OF _ _ assms(5), of cs hashHeader ctx] assms(1,7) h False by (simp add: cs_ok_def)
  show ?thesis
  proof (cases r1)
    case (Inl e)
    then have "r = Inl e" "cs' = ?cs\<lparr>cs_rt := rt\<rparr>" using run up by (simp_all add: update_and_save_run)
    then show ?thesis using u(1) spread m(5,6) by simp
  next
    case (Inr x)
    then have res: "r = Inr ()" "cs' = ?cs\<lparr>cs_rt := rt\<rparr>"
      "ctx' = ctx_set (PData 0 cs_tagState) (buildSaveData mp cs') ctx" using run up by (simp_all add: update_and_save_run)
    have follow: "member rt = follow ctx (member (cs_rt cs))" "ranks rt \<noteq> []" "renewed (smallestPhase (cs_rt ?cs) + 2) (cs_rt ?cs) rt"
      using u(3) Inr m(3) by auto
    have "unat n < CandidateCount (cs_rt cs)" using False by simp
    note t = cs_moved_turn[OF assms(1) this h]
    have "ranks (cs_rt ?cs) \<noteq> []" using m(1,3) assms(1) member_Some_ranks[of "cs_rt cs"] member_Some_ranks[OF m(1)]
      by (metis cs_ok_def image_is_empty set_empty all_not_in_conv)
    then have ph: "smallestPhase (cs_rt ?cs) = rk_phase (hd (turn_moved (hashHeader (b_Header b)) n cs))"
      using t(1) by (metis list.exhaust_sel smallestPhase_ranks)
    note turn = follow(3)[unfolded renewed_def ph t(1,3) m(3) follow(1)]
    have "ctx_view ctx' k = (if k = PData 0 cs_tagState then buildSaveData mp cs' else ctx_view ctx k)" if "key_ok k" for k
      using ctx_set_view[OF assms(3) _ that, of "PData 0 cs_tagState"] by (simp add: res(3))
    moreover have "ctx_wf ctx'" unfolding res(3) by (rule ctx_set_wf(1)[OF assms(3)])
    ultimately show ?thesis using res(1,2) u(1) spread m(5,6) follow(1,2) turn t(2) False by (simp add: cs_ok_def Let_def)
  qed
qed

text \<open>A consensus with two candidates and a block without timeouts, for the examples.\<close>

definition sample_consensus :: consensus where
  "sample_consensus = (NewConsensus 10 [replicate PublicHashSize 3])\<lparr>cs_rt := sample_table\<rparr>"

definition sample_saved :: "nat block" where
  "sample_saved = \<lparr>b_Header = sample_header\<lparr>bh_ConsensusData := [0, 0, 0, 0]\<rparr>, b_TransactionTypes = [], b_Transactions = [],
     b_TransactionSignatures = [], b_Signatures = []\<rparr>"

lemma sample_consensus_ok: "cs_ok sample_consensus" "smallestPhase (cs_rt sample_consensus) = 0"
proof -
  have "smallestPhase sample_table = rk_phase (sample_rank 1)" by (rule smallestPhase_ranks[OF sample_table_ok(2)])
  then have "smallestPhase sample_table = 0" by (simp add: sample_rank_def)
  moreover have "rk_phase (sample_rank i) = 0" for i by (simp add: sample_rank_def)
  ultimately show "cs_ok sample_consensus" "smallestPhase (cs_rt sample_consensus) = 0"
    using sample_table_ok by (simp_all add: cs_ok_def sample_consensus_def rt_spread_def)
qed

lemma sample_saved_data: "DecodeConsensusData plain_msgpack (bh_ConsensusData (b_Header sample_saved)) = Inr 0"
  by code_simp

lemma empty_context_ok: "top_typed NewEmptyContext" "ctx_wf NewEmptyContext"
proof -
  show "top_typed NewEmptyContext"
    by (simp add: NewEmptyContext_def top_typed_def ctx_Top_def NewContext_def NewContextData_def)
  show "ctx_wf NewEmptyContext" by (simp add: NewEmptyContext_def ctx_wf_NewContext)
qed

theorem on_save_data_witness:
  "(let res = cs_OnSaveData plain_msgpack (\<lambda>_. zeros 32) sample_saved (sample_consensus, NewEmptyContext);
        cs' = fst (snd res); ctx' = snd (snd res)
    in fst res = Inr () \<and> cs_ok cs' \<and> member (cs_rt cs') (NewAddress 0 1 0) = Some (replicate PublicHashSize 7) \<and>
       ctx_view ctx' (PData 0 cs_tagState) = buildSaveData plain_msgpack cs')"
proof -
  let ?res = "cs_OnSaveData plain_msgpack (\<lambda>_. zeros 32) sample_saved (sample_consensus, NewEmptyContext)"
  obtain r cs' ctx' where res: "?res = (r, cs', ctx')" by (cases ?res) auto
  have "fst ?res = Inr ()" by code_simp
  then have r: "r = Inr ()" by (simp add: res)
  have "unat (smallestPhase (cs_rt sample_consensus)) + 2 * unat (0 :: u32) + 4 < 2 ^ 32"
    by (simp add: sample_consensus_ok(2))
  note t = on_save_data[OF sample_consensus_ok(1) empty_context_ok _ sample_saved_data this res]
  have "member (cs_rt sample_consensus) (NewAddress 0 1 0) = Some (replicate PublicHashSize 7)"
    using sample_table_ok by (simp add: sample_consensus_def member_iff) (simp add: sample_rank_def)
  then have "follow NewEmptyContext (member (cs_rt sample_consensus)) (NewAddress 0 1 0) = Some (replicate PublicHashSize 7)"
    by (simp add: follow_def follow_account_def NewEmptyContext_def NewContext_def ctx_Top_def NewContextData_def)
  then show ?thesis using t r by (simp add: res Let_def)
qed

section \<open>Restarting\<close>

lemma ctx_ProcessData_view:
  assumes "ctx_wf ctx"
  shows "fst (ctx_ProcessData p n ctx) = ctx_view ctx (PData p n)"
  by (rule ctx_get_spec[OF assms, of "PData p n"]) simp_all

lemma same_keys_refl: "om_inv m \<Longrightarrow> same_keys m m"
  by (auto simp: same_keys_def list_all_iff om_each_def om_has_map_of intro: rev_image_eqI)

text \<open>
  C19: a node that restarts gets its consensus back. If the data under the tag of the consensus is what the last
  block saved, a new consensus with the same parameters loads it without an error and has the same block count,
  the same observers and the same candidates in the same order.
\<close>

theorem consensus_restart:
  assumes "msgpack_ok mp" and "rt_ok (cs_rt cs)" and "CandidateCount (cs_rt cs) < 2 ^ 32"
    and "map_good (\<lambda>ph. length ph = PublicHashSize) (\<lambda>_. True) (cs_observerKeyMap cs)"
    and "ctx_wf ctx" and "ctx_view ctx (PData 0 cs_tagState) = buildSaveData mp cs"
    and "cs_maxBlocksPerFormulator cs0 = cs_maxBlocksPerFormulator cs" and "cs_observerKeyMap cs0 = cs_observerKeyMap cs"
  shows "\<exists>cs1. cs_OnLoadChain mp ctx cs0 = (Inr (), cs1) \<and> rt_ok (cs_rt cs1) \<and>
    ranks (cs_rt cs1) = ranks (cs_rt cs) \<and> rt_height (cs_rt cs1) = rt_height (cs_rt cs) \<and>
    cs_blocksBySameFormulator cs1 = cs_blocksBySameFormulator cs \<and>
    cs_maxBlocksPerFormulator cs1 = cs_maxBlocksPerFormulator cs \<and> cs_observerKeyMap cs1 = cs_observerKeyMap cs"
proof -
  have "codec (PublicHashBoolMap_encode mp) (PublicHashBoolMap_decode mp) (map_good (\<lambda>ph. length ph = PublicHashSize) (\<lambda>_. True))"
    unfolding PublicHashBoolMap_encode_def PublicHashBoolMap_decode_def
    by (intro codec_map[OF assms(1)] codec_pubhash[OF assms(1)] msgpack_codecs[OF assms(1)])
  note keys = codecD[OF this assms(4)]
  obtain rt where "rank_table_decode mp (rank_table_encode mp (cs_rt cs)) = (Inr rt, [])" "rt_ok rt"
    "ranks rt = ranks (cs_rt cs)" "rt_height rt = rt_height (cs_rt cs)"
    using rank_table_reads[OF assms(1-3), of "[]"] by auto
  moreover have "same_keys (cs_observerKeyMap cs) (cs_observerKeyMap cs)"
    using assms(4) by (intro same_keys_refl) (simp add: map_good_def)
  ultimately show ?thesis
    using msgpack_reads(3)[OF assms(1)] keys assms(6-8)
    by (simp add: cs_OnLoadChain_def ctx_ProcessData_view[OF assms(5)] buildSaveData_def Let_def)
qed

theorem consensus_restart_witness:
  "(let ctx = ctx_SetProcessData 0 cs_tagState (buildSaveData plain_msgpack sample_consensus) NewEmptyContext
    in \<exists>cs1. cs_OnLoadChain plain_msgpack ctx (NewConsensus 10 [replicate PublicHashSize 3]) = (Inr (), cs1) \<and>
      ranks (cs_rt cs1) = [sample_rank 1, sample_rank 2])"
proof -
  let ?ctx = "ctx_set (PData 0 cs_tagState) (buildSaveData plain_msgpack sample_consensus) NewEmptyContext"
  have rt: "rt_ok (cs_rt sample_consensus)" "ranks (cs_rt sample_consensus) = [sample_rank 1, sample_rank 2]"
    using sample_table_ok by (simp_all add: sample_consensus_def)
  have "CandidateCount (cs_rt sample_consensus) = 2" using rt_observed(2)[OF rt(1)] rt(2) by simp
  then have count: "CandidateCount (cs_rt sample_consensus) < 2 ^ 32" by simp
  have keys: "map_good (\<lambda>ph. length ph = PublicHashSize) (\<lambda>_. True) (cs_observerKeyMap sample_consensus)"
    by (simp add: sample_consensus_def NewConsensus_def map_good_def om_inv_def short_def)
  have "ctx_wf ?ctx" by (rule ctx_set_wf(1)[OF empty_context_ok(2)])
  moreover have "ctx_view ?ctx (PData 0 cs_tagState) = buildSaveData plain_msgpack sample_consensus"
    using ctx_set_view[OF empty_context_ok(2), of "PData 0 cs_tagState" "PData 0 cs_tagState"] by simp
  ultimately have "\<exists>cs1. cs_OnLoadChain plain_msgpack ?ctx (NewConsensus 10 [replicate PublicHashSize 3]) = (Inr (), cs1) \<and>
      rt_ok (cs_rt cs1) \<and> ranks (cs_rt cs1) = ranks (cs_rt sample_consensus) \<and>
      rt_height (cs_rt cs1) = rt_height (cs_rt sample_consensus) \<and>
      cs_blocksBySameFormulator cs1 = cs_blocksBySameFormulator sample_consensus \<and>
      cs_maxBlocksPerFormulator cs1 = cs_maxBlocksPerFormulator sample_consensus \<and>
      cs_observerKeyMap cs1 = cs_observerKeyMap sample_consensus"
    by (rule consensus_restart[OF plain_msgpack_ok rt(1) count keys]) (simp_all add: sample_consensus_def NewConsensus_def)
  then show ?thesis using rt(2) by (auto simp: Let_def)
qed

section \<open>Accepted headers\<close>

lemma fold_put_True:
  "om_inv m \<Longrightarrow> om_inv (fold (\<lambda>(k, _) m. om_put k True m) xs m) \<and>
   (om_get (fold (\<lambda>(k, _) m. om_put k True m) xs m) k = Some True \<longrightarrow> k \<in> fst ` set xs \<or> om_get m k = Some True)"
proof (induction xs arbitrary: m)
  case (Cons x xs)
  obtain a v where x: "x = (a, v)" by (cases x)
  show ?case using Cons.IH[of "om_put a True m"] Cons.prems by (auto simp: x split: if_splits)
qed simp

lemma ValidateSignature_accepts:
  assumes "ValidateSignature mp recover hashHeader hashSign cs bh sigs = Inr ()"
  obtains n pk where "DecodeConsensusData mp (bh_ConsensusData bh) = Inr n"
    and "TopRank (unat n) (cs_rt cs) = Inr (rank_Clone (rank_at (cs_rt cs) (rt_candidates (cs_rt cs) ! unat n)))"
    and "unat n < CandidateCount (cs_rt cs)"
    and "rk_Address (rank_Clone (rank_at (cs_rt cs) (rt_candidates (cs_rt cs) ! unat n))) = bh_Generator bh"
    and "sigs \<noteq> []" and "recover (hashHeader bh) (sigs ! 0) = Inr pk"
    and "rk_PublicHash (rank_Clone (rank_at (cs_rt cs) (rt_candidates (cs_rt cs) ! unat n))) = NewPublicHash pk"
    and "ValidateSignaturesMajority recover (hashSign \<lparr>bs_HeaderHash = hashHeader bh, bs_GeneratorSignature = sigs ! 0\<rparr>) (tl sigs)
      (fold (\<lambda>(pubhash, _) m. om_put pubhash True m) (om_each (cs_observerKeyMap cs)) []) = Inr ()"
  using assms unfolding ValidateSignature_def TopRank_def
  by (auto simp: Let_def CandidateCount_def split: sum.splits if_splits)

text \<open>
  C18: what an accepted header guarantees. Its generator is the candidate that the rank table has at the position
  given by the timeout count, and it carries a signature of that candidate's generator key. Any two headers
  that the same consensus state accepts have signatures of a common observer, so a fork needs an observer that
  signs both blocks.
\<close>

theorem accepted_headers:
  assumes "rt_ok (cs_rt cs)"
    and "ValidateSignature mp recover hashHeader hashSign cs bh sigs = Inr ()"
    and "ValidateSignature mp recover hashHeader hashSign cs bh' sigs' = Inr ()"
  shows "(\<exists>n pk. DecodeConsensusData mp (bh_ConsensusData bh) = Inr n \<and> unat n < length (ranks (cs_rt cs)) \<and>
      rk_Address (ranks (cs_rt cs) ! unat n) = bh_Generator bh \<and>
      recover (hashHeader bh) (hd sigs) = Inr pk \<and> rk_PublicHash (ranks (cs_rt cs) ! unat n) = NewPublicHash pk) \<and>
    (\<exists>sig\<in>set (tl sigs). \<exists>sig'\<in>set (tl sigs'). \<exists>pk pk'.
      recover (hashSign \<lparr>bs_HeaderHash = hashHeader bh, bs_GeneratorSignature = hd sigs\<rparr>) sig = Inr pk \<and>
      recover (hashSign \<lparr>bs_HeaderHash = hashHeader bh', bs_GeneratorSignature = hd sigs'\<rparr>) sig' = Inr pk' \<and>
      NewPublicHash pk = NewPublicHash pk' \<and> om_has (cs_observerKeyMap cs) (NewPublicHash pk))"
proof -
  let ?K = "fold (\<lambda>(pubhash, _) m. om_put pubhash True m) (om_each (cs_observerKeyMap cs)) []"
  let ?h = "\<lambda>bh sigs. hashSign \<lparr>bs_HeaderHash = hashHeader bh, bs_GeneratorSignature = hd sigs\<rparr>"
  obtain n pk where a: "DecodeConsensusData mp (bh_ConsensusData bh) = Inr n"
    "TopRank (unat n) (cs_rt cs) = Inr (rank_Clone (rank_at (cs_rt cs) (rt_candidates (cs_rt cs) ! unat n)))"
    "unat n < CandidateCount (cs_rt cs)"
    "rk_Address (rank_Clone (rank_at (cs_rt cs) (rt_candidates (cs_rt cs) ! unat n))) = bh_Generator bh" "sigs \<noteq> []"
    "recover (hashHeader bh) (sigs ! 0) = Inr pk"
    "rk_PublicHash (rank_Clone (rank_at (cs_rt cs) (rt_candidates (cs_rt cs) ! unat n))) = NewPublicHash pk"
    "ValidateSignaturesMajority recover (hashSign \<lparr>bs_HeaderHash = hashHeader bh, bs_GeneratorSignature = sigs ! 0\<rparr>) (tl sigs) ?K = Inr ()"
    by (rule ValidateSignature_accepts[OF assms(2)])
  have b: "ValidateSignaturesMajority recover (?h bh' sigs') (tl sigs') ?K = Inr ()"
    by (rule ValidateSignature_accepts[OF assms(3)]) (simp add: hd_conv_nth)
  have top: "rank_Clone (rank_at (cs_rt cs) (rt_candidates (cs_rt cs) ! unat n)) = ranks (cs_rt cs) ! unat n"
    and n: "unat n < length (ranks (cs_rt cs))"
    using a(2,3) rt_observed(2,3)[OF assms(1)] by (auto split: if_splits)
  have inv: "om_inv ?K" using fold_put_True[of "[]" "om_each (cs_observerKeyMap cs)" "[]"] by simp
  have has: "om_has (cs_observerKeyMap cs) k" if "om_get ?K k = Some True" for k
    using fold_put_True[of "[]" "om_each (cs_observerKeyMap cs)" k] that by (simp add: om_has_map_of om_each_def)
  have "ValidateSignaturesMajority recover (?h bh sigs) (tl sigs) ?K = Inr ()" using a(5,8) by (simp add: hd_conv_nth)
  from majorities_intersect[OF inv this b] have "\<exists>sig\<in>set (tl sigs). \<exists>sig'\<in>set (tl sigs'). \<exists>pk pk'.
      recover (?h bh sigs) sig = Inr pk \<and> recover (?h bh' sigs') sig' = Inr pk' \<and>
      NewPublicHash pk = NewPublicHash pk' \<and> om_has (cs_observerKeyMap cs) (NewPublicHash pk)"
    using has by meson
  moreover have "recover (hashHeader bh) (hd sigs) = Inr pk" using a(5,6) by (simp add: hd_conv_nth)
  ultimately show ?thesis using a(1,4,7) n unfolding top by blast
qed

text \<open>One candidate and one observer with the same key, and a key recovery that always finds it.\<close>

definition sample_pk :: pubkey where
  "sample_pk = replicate 33 2"

definition signing_consensus :: consensus where
  "signing_consensus = (NewConsensus 10 [NewPublicHash sample_pk])
     \<lparr>cs_rt := snd (addRank (NewRank (NewAddress 0 1 0) (NewPublicHash sample_pk) 0 (zeros 32)) NewRankTable)\<rparr>"

definition signed_header :: header where
  "signed_header = sample_header\<lparr>bh_ConsensusData := [0, 0, 0, 0], bh_Generator := NewAddress 0 1 0\<rparr>"

lemma signing_table:
  "rt_ok (cs_rt signing_consensus)"
  "ranks (cs_rt signing_consensus) = [NewRank (NewAddress 0 1 0) (NewPublicHash sample_pk) 0 (zeros 32)]"
proof -
  let ?r = "NewRank (NewAddress 0 1 0) (NewPublicHash sample_pk) 0 (zeros 32)"
  have New: "ranks NewRankTable = []" by (simp add: ranks_def NewRankTable_def)
  have "rank_ok ?r" unfolding NewRank_def by (rule rank_ok_update) simp_all
  note add = addRank_ranks[OF rt_ok_New this, unfolded New, simplified]
  show "rt_ok (cs_rt signing_consensus)" "ranks (cs_rt signing_consensus) = [?r]"
    using add(2,3) by (simp_all add: signing_consensus_def)
qed

lemma signing_accepts:
  "ValidateSignature plain_msgpack (\<lambda>_ _. Inr sample_pk) (\<lambda>_. zeros 32) hashSign signing_consensus signed_header [[1], [2]] = Inr ()"
proof -
  have data: "DecodeConsensusData plain_msgpack [0, 0, 0, 0] = Inr 0" by code_simp
  have top: "TopRank 0 (cs_rt signing_consensus) = Inr (NewRank (NewAddress 0 1 0) (NewPublicHash sample_pk) 0 (zeros 32))"
    using rt_observed(3)[OF signing_table(1), of 0] by (simp add: signing_table(2))
  have keys: "cs_observerKeyMap signing_consensus = [(NewPublicHash sample_pk, True)]"
    by (simp add: signing_consensus_def NewConsensus_def)
  show ?thesis
    by (simp add: ValidateSignature_def data top keys om_len_def om_each_def ValidateSignaturesMajority_def om_get_def
        signed_header_def Let_def)
qed

theorem accepted_headers_witness:
  "\<exists>sig\<in>set [[2 :: u8]]. \<exists>sig'\<in>set [[2 :: u8]]. \<exists>pk pk'. (Inr sample_pk :: err + pubkey) = Inr pk \<and>
     (Inr sample_pk :: err + pubkey) = Inr pk' \<and> NewPublicHash pk = NewPublicHash pk' \<and>
     om_has (cs_observerKeyMap signing_consensus) (NewPublicHash pk)"
  using accepted_headers[OF signing_table(1) signing_accepts[of "\<lambda>_. zeros 32"] signing_accepts] by simp

end
