(* ===== verification/Pile.thy ===== *)
theory Pile
  imports Hashing Binutil
begin

text \<open>
  \<^verbatim>\<open>core/pile\<close>: the append-only files of blocks. A pile file starts with 256 bytes of meta data (the head
  height three times, the height range and the genesis hash) and a table of 8-byte end offsets, one for each
  height; behind it every entry has its hash, the number of its data, the compressed sizes and the compressed
  data.

  A file is its content; a \<^verbatim>\<open>Seek\<close> followed by reads or writes is an access at an offset. Closing, syncing and
  the timestamps of the last sync have no effect on the content. \<^verbatim>\<open>gzip\<close> is a parameter: a compressor
  \<open>gz\<close> and a decompressor \<open>unz\<close> that undoes it.
\<close>

section \<open>Files\<close>

abbreviation io_EOF :: err where
  "io_EOF \<equiv> ExternalErr 0"

abbreviation io_BadSeek :: err where
  "io_BadSeek \<equiv> ExternalErr 1"

text \<open>\<^verbatim>\<open>file.Write\<close> at an offset: a gap behind the end of the file is filled with zeros.\<close>

definition file_write :: "nat \<Rightarrow> bytes \<Rightarrow> bytes \<Rightarrow> bytes" where
  "file_write off bs f = take off f @ zeros (off - length f) @ bs @ drop (off + length bs) f"

text \<open>\<^verbatim>\<open>file.Read\<close> into a new buffer of \<open>n\<close> bytes: the end of the file is an error only when nothing was read.\<close>

definition file_read :: "int \<Rightarrow> nat \<Rightarrow> bytes \<Rightarrow> err + bytes" where
  "file_read off n f =
     (if off < 0 then Inl io_BadSeek
      else if 0 < n \<and> length f \<le> nat off then Inl io_EOF
      else Inr (go_copy (zeros n) (take n (drop (nat off) f))))"

section \<open>Piles\<close>

definition ChunkUnit :: u32 where
  "ChunkUnit = 172800 * 30"

definition ChunkMetaSize :: int where
  "ChunkMetaSize = 256"

definition ChunkHeaderSize :: int where
  "ChunkHeaderSize = uint ChunkUnit * 8 + ChunkMetaSize"

record pile =
  pl_file :: bytes
  pl_HeadHeight :: u32
  pl_BeginHeight :: u32
  pl_GenHash :: hash256

definition NewPile :: "hash256 \<Rightarrow> u32 \<Rightarrow> err + pile" where
  "NewPile GenHash BaseHeight =
     (let file = zeros (nat ChunkHeaderSize);
          meta = zeros (nat ChunkMetaSize)
      in if BaseHeight mod ChunkUnit \<noteq> 0 then Inl (PileErr ErrInvalidChunkBeginHeight)
         else
           let meta = go_copy meta (LE_Uint32ToBytes BaseHeight);
               meta = copy_at 4 meta (LE_Uint32ToBytes BaseHeight);
               meta = copy_at 8 meta (LE_Uint32ToBytes BaseHeight);
               meta = copy_at 12 meta (LE_Uint32ToBytes BaseHeight);
               meta = copy_at 16 meta (LE_Uint32ToBytes (BaseHeight + ChunkUnit));
               meta = copy_at 20 meta GenHash
           in Inr \<lparr>pl_file = file_write 0 meta file, pl_HeadHeight = BaseHeight, pl_BeginHeight = BaseHeight,
                   pl_GenHash = GenHash\<rparr>)"

text \<open>The end offset of the first \<open>n\<close> entries, from the offset table.\<close>

definition pl_offset :: "nat \<Rightarrow> bytes \<Rightarrow> err + int" where
  "pl_offset n f =
     (if 0 < n
      then case file_read (ChunkMetaSize + (int n - 1) * 8) 8 f of
             Inl e \<Rightarrow> Inl e
           | Inr bs \<Rightarrow> (case orPanic (LE_Uint64 bs) of Inl e \<Rightarrow> Inl e | Inr v \<Rightarrow> Inr (int64 v))
      else Inr ChunkHeaderSize)"

text \<open>
  The three copies of the head height after a crash: the repaired file and the head height, or an error.
\<close>

definition repair_head :: "u32 \<Rightarrow> u32 \<Rightarrow> u32 \<Rightarrow> bytes \<Rightarrow> err + u32 \<times> bytes" where
  "repair_head HeadHeight CheckA CheckB f =
     (if HeadHeight \<noteq> CheckA \<or> CheckA \<noteq> CheckB
      then if CheckA = CheckB then Inr (CheckA, file_write 0 (LE_Uint32ToBytes CheckA) f)
           else if HeadHeight = CheckB + 1
           then Inr (HeadHeight, file_write 8 (LE_Uint32ToBytes HeadHeight) (file_write 4 (LE_Uint32ToBytes HeadHeight) f))
           else if HeadHeight = CheckA then Inr (HeadHeight, file_write 8 (LE_Uint32ToBytes HeadHeight) f)
           else Inl (PileErr ErrHeightCrashed)
      else Inr (HeadHeight, f))"

definition LoadPile :: "bytes \<Rightarrow> err + pile" where
  "LoadPile f =
     (case file_read 0 (nat ChunkMetaSize) f of Inl e \<Rightarrow> Inl e
      | Inr meta \<Rightarrow>
          let HeadHeight = the (LE_Uint32 meta);
              CheckA = the (LE_Uint32 (drop 4 meta));
              CheckB = the (LE_Uint32 (drop 8 meta));
              BeginHeight = the (LE_Uint32 (drop 12 meta));
              EndHeight = the (LE_Uint32 (drop 16 meta));
              GenHash = go_copy EmptyHash (drop 20 meta)
          in if BeginHeight mod ChunkUnit \<noteq> 0 then Inl (PileErr ErrInvalidChunkBeginHeight)
             else if BeginHeight + ChunkUnit \<noteq> EndHeight then Inl (PileErr ErrInvalidChunkEndHeight)
             else case repair_head HeadHeight CheckA CheckB f of Inl e \<Rightarrow> Inl e
               | Inr (HeadHeight, f) \<Rightarrow>
                   case pl_offset (unat (HeadHeight - BeginHeight)) f of Inl e \<Rightarrow> Inl e
                   | Inr Offset \<Rightarrow>
                       if int (length f) < Offset then Inl (PileErr ErrInvalidFileSize)
                       else Inr \<lparr>pl_file = f, pl_HeadHeight = HeadHeight, pl_BeginHeight = BeginHeight,
                                 pl_GenHash = GenHash\<rparr>)"

text \<open>The writes of \<^verbatim>\<open>AppendData\<close> in their order, each with its offset in the file.\<close>

type_synonym file_writes = "(nat \<times> bytes) list"

fun consecutive :: "nat \<Rightarrow> bytes list \<Rightarrow> file_writes" where
  "consecutive off [] = []"
| "consecutive off (bs # bss) = (off, bs) # consecutive (off + length bs) bss"

definition append_writes ::
  "(bytes \<Rightarrow> bytes) \<Rightarrow> nat \<Rightarrow> nat \<Rightarrow> u32 \<Rightarrow> hash256 \<Rightarrow> bytes list \<Rightarrow> file_writes" where
  "append_writes gz Offset FromHeight HeadHeight DataHash Datas =
     (let zdatas = map gz Datas;
          totalLen = 32 + 1 + 4 * length Datas + sum_list (map length zdatas)
      in consecutive Offset
           ([DataHash, [of_nat (length Datas)]] @ map (\<lambda>zd. LE_Uint32ToBytes (of_nat (length zd))) zdatas @ zdatas) @
         [(nat ChunkMetaSize + FromHeight * 8, LE_Uint64ToBytes (of_nat (Offset + totalLen))),
          (0, LE_Uint32ToBytes (HeadHeight + 1)),
          (4, LE_Uint32ToBytes (HeadHeight + 1)),
          (8, LE_Uint32ToBytes (HeadHeight + 1))])"

definition write_all :: "file_writes \<Rightarrow> bytes \<Rightarrow> bytes" where
  "write_all ws f = fold (\<lambda>(off, bs). file_write off bs) ws f"

definition pl_AppendData :: "(bytes \<Rightarrow> bytes) \<Rightarrow> u32 \<Rightarrow> hash256 \<Rightarrow> bytes list \<Rightarrow> (pile, unit) go_meth" where
  "pl_AppendData gz Height DataHash Datas p =
     (if Height \<noteq> pl_HeadHeight p + 1 then (Inl (PileErr ErrInvalidAppendHeight), p)
      else
        let FromHeight = unat (pl_HeadHeight p - pl_BeginHeight p)
        in case pl_offset FromHeight (pl_file p) of
             Inl e \<Rightarrow> (Inl e, p)
           | Inr Offset \<Rightarrow>
               if Offset < 0 then (Inl io_BadSeek, p)
               else (Inr (), p\<lparr>
                      pl_file := write_all (append_writes gz (nat Offset) FromHeight (pl_HeadHeight p) DataHash Datas) (pl_file p),
                      pl_HeadHeight := pl_HeadHeight p + 1\<rparr>))"

definition pl_GetHash :: "u32 \<Rightarrow> pile \<Rightarrow> err + hash256" where
  "pl_GetHash Height p =
     (let FromHeight = Height - pl_BeginHeight p
      in if pl_BeginHeight p + ChunkUnit < Height then Inl (PileErr ErrInvalidHeight_pile)
         else case pl_offset (unat FromHeight - 1) (pl_file p) of Inl e \<Rightarrow> Inl e
           | Inr Offset \<Rightarrow> file_read Offset 32 (pl_file p))"

text \<open>
  The number of data and the size table of an entry. The product \<^verbatim>\<open>4*lbs[0]\<close> is computed in one byte; the
  error of a caller's range check comes between the two reads.
\<close>

definition read_sizes :: "(nat \<Rightarrow> bool) \<Rightarrow> u32 \<Rightarrow> pile \<Rightarrow> err + int \<times> bytes" where
  "read_sizes out_of_range Height p =
     (let FromHeight = Height - pl_BeginHeight p; f = pl_file p
      in if pl_BeginHeight p + ChunkUnit < Height then Inl (PileErr ErrInvalidHeight_pile)
         else if pl_HeadHeight p < Height then Inl (PileErr ErrInvalidHeight_pile)
         else case pl_offset (unat FromHeight - 1) f of Inl e \<Rightarrow> Inl e
           | Inr Offset \<Rightarrow>
               case file_read (Offset + 32) 1 f of Inl e \<Rightarrow> Inl e
               | Inr lbs \<Rightarrow>
                   let n = lbs ! 0; zlen = unat (4 * n)
                   in if out_of_range (unat n) then Inl (PileErr ErrInvalidDataIndex)
                      else case file_read (Offset + 33) zlen f of Inl e \<Rightarrow> Inl e
                        | Inr zlbs \<Rightarrow> Inr (Offset + 32 + 1 + int zlen, zlbs))"

definition zsize :: "bytes \<Rightarrow> nat \<Rightarrow> err + nat" where
  "zsize zlbs i = (case orPanic (LE_Uint32 (drop (4 * i) zlbs)) of Inl e \<Rightarrow> Inl e | Inr v \<Rightarrow> Inr (unat v))"

fun skip_sizes :: "bytes \<Rightarrow> nat list \<Rightarrow> int \<Rightarrow> err + int" where
  "skip_sizes zlbs [] zofs = Inr zofs"
| "skip_sizes zlbs (i # is) zofs =
     (case zsize zlbs i of Inl e \<Rightarrow> Inl e | Inr n \<Rightarrow> skip_sizes zlbs is (zofs + int n))"

definition pl_GetData :: "(bytes \<Rightarrow> err + bytes) \<Rightarrow> u32 \<Rightarrow> nat \<Rightarrow> pile \<Rightarrow> err + bytes" where
  "pl_GetData unz Height index p =
     (case read_sizes (\<lambda>n. n \<le> index) Height p of Inl e \<Rightarrow> Inl e
      | Inr (zofs, zlbs) \<Rightarrow>
          case skip_sizes zlbs [0..<index] zofs of Inl e \<Rightarrow> Inl e
          | Inr zofs \<Rightarrow>
              case zsize zlbs index of Inl e \<Rightarrow> Inl e
              | Inr n \<Rightarrow> (case file_read zofs n (pl_file p) of Inl e \<Rightarrow> Inl e | Inr zd \<Rightarrow> unz zd))"

fun read_datas :: "(bytes \<Rightarrow> err + bytes) \<Rightarrow> bytes \<Rightarrow> bytes \<Rightarrow> nat list \<Rightarrow> int \<Rightarrow> err + bytes" where
  "read_datas unz f zlbs [] zofs = Inr []"
| "read_datas unz f zlbs (i # is) zofs =
     (case zsize zlbs i of Inl e \<Rightarrow> Inl e
      | Inr n \<Rightarrow>
          case file_read zofs n f of Inl e \<Rightarrow> Inl e
          | Inr zd \<Rightarrow>
              case unz zd of Inl e \<Rightarrow> Inl e
              | Inr d \<Rightarrow>
                  case read_datas unz f zlbs is (zofs + int n) of Inl e \<Rightarrow> Inl e | Inr ds \<Rightarrow> Inr (d @ ds))"

definition pl_GetDatas :: "(bytes \<Rightarrow> err + bytes) \<Rightarrow> u32 \<Rightarrow> nat \<Rightarrow> nat \<Rightarrow> pile \<Rightarrow> err + bytes" where
  "pl_GetDatas unz Height start count p =
     (case read_sizes (\<lambda>n. n < start + count) Height p of Inl e \<Rightarrow> Inl e
      | Inr (zofs, zlbs) \<Rightarrow>
          case skip_sizes zlbs [0..<start] zofs of Inl e \<Rightarrow> Inl e
          | Inr zofs \<Rightarrow> read_datas unz (pl_file p) zlbs [start..<start + count] zofs)"

section \<open>What stands at an offset\<close>

definition holds_at :: "bytes \<Rightarrow> nat \<Rightarrow> bytes \<Rightarrow> bool" where
  "holds_at f off bs \<longleftrightarrow> off + length bs \<le> length f \<and> take (length bs) (drop off f) = bs"

lemma length_file_write [simp]: "length (file_write off bs f) = max (off + length bs) (length f)"
  by (auto simp: file_write_def)

lemma nth_file_write:
  "i < length (file_write off bs f) \<Longrightarrow>
   file_write off bs f ! i =
     (if i < off then if i < length f then f ! i else 0
      else if i < off + length bs then bs ! (i - off) else f ! i)"
  by (auto simp: file_write_def nth_append min_def)

lemma holds_at_nth:
  "holds_at f off bs \<longleftrightarrow> off + length bs \<le> length f \<and> (\<forall>i<length bs. f ! (off + i) = bs ! i)"
  by (auto simp: holds_at_def list_eq_iff_nth_eq)

lemma holds_at_same [simp]: "holds_at (file_write off bs f) off bs"
  by (auto simp: holds_at_nth nth_file_write)

lemma holds_at_other:
  "holds_at f off bs \<Longrightarrow> off + length bs \<le> off' \<or> off' + length bs' \<le> off \<Longrightarrow>
   holds_at (file_write off' bs' f) off bs"
  by (auto simp: holds_at_nth nth_file_write)

lemma holds_at_append:
  "holds_at f off (bs @ bs') \<longleftrightarrow> holds_at f off bs \<and> holds_at f (off + length bs) bs'"
proof -
  have "(\<forall>i<length bs + length bs'. f ! (off + i) = (bs @ bs') ! i) \<longleftrightarrow>
     (\<forall>i<length bs. f ! (off + i) = bs ! i) \<and> (\<forall>i<length bs'. f ! (off + length bs + i) = bs' ! i)"
    by (auto simp: nth_append add.assoc) (metis add_diff_inverse_nat nat_add_left_cancel_less)
  then show ?thesis by (auto simp: holds_at_nth add.assoc)
qed

lemma holds_at_read:
  "holds_at f off bs \<Longrightarrow> file_read (int off) (length bs) f = Inr bs"
  by (cases "bs = []") (auto simp: file_read_def holds_at_def go_copy_def)

lemma holds_at_read':
  "holds_at f off bs \<Longrightarrow> o' = int off \<Longrightarrow> n = length bs \<Longrightarrow> file_read o' n f = Inr bs"
  using holds_at_read by simp

lemma write_all_simps [simp]:
  "write_all [] f = f" "write_all ((off, bs) # ws) f = write_all ws (file_write off bs f)"
  "write_all (ws @ ws') f = write_all ws' (write_all ws f)"
  by (simp_all add: write_all_def)

lemma write_all_other:
  "holds_at f off bs \<Longrightarrow> \<forall>w\<in>set ws. off + length bs \<le> fst w \<or> fst w + length (snd w) \<le> off \<Longrightarrow>
   holds_at (write_all ws f) off bs"
proof (induction ws arbitrary: f)
  case (Cons w ws)
  then show ?case by (cases w) (auto intro: holds_at_other)
qed simp

lemma length_write_all: "length f \<le> length (write_all ws f)"
proof (induction ws arbitrary: f)
  case (Cons w ws)
  show ?case using Cons.IH[of "file_write (fst w) (snd w) f"] by (cases w) simp
qed simp

lemma consecutive_from: "w \<in> set (consecutive off bss) \<Longrightarrow> off \<le> fst w"
  by (induction bss arbitrary: off) fastforce+

lemma holds_at_consecutive:
  "off \<le> length f \<Longrightarrow> holds_at (write_all (consecutive off bss) f) off (concat bss)"
proof (induction bss arbitrary: off f)
  case Nil
  then show ?case by (simp add: holds_at_def)
next
  case (Cons bs bss)
  have "holds_at (write_all (consecutive (off + length bs) bss) (file_write off bs f)) off bs"
    by (rule write_all_other) (auto dest: consecutive_from)
  then show ?case using Cons by (simp add: holds_at_append)
qed

section \<open>The content of a pile\<close>

type_synonym pile_entry = "hash256 \<times> bytes list"

definition entry_bytes :: "(bytes \<Rightarrow> bytes) \<Rightarrow> pile_entry \<Rightarrow> bytes" where
  "entry_bytes gz e =
     (let zdatas = map gz (snd e)
      in concat ([fst e, [of_nat (length (snd e))]] @ map (\<lambda>zd. LE_Uint32ToBytes (of_nat (length zd))) zdatas @ zdatas))"

definition end_offset :: "(bytes \<Rightarrow> bytes) \<Rightarrow> pile_entry list \<Rightarrow> nat" where
  "end_offset gz es = nat ChunkHeaderSize + sum_list (map (length \<circ> entry_bytes gz) es)"

definition pile_entry_ok :: "(bytes \<Rightarrow> bytes) \<Rightarrow> pile_entry \<Rightarrow> bool" where
  "pile_entry_ok gz e \<longleftrightarrow> is_hash (fst e) \<and> length (snd e) < 256 \<and> (\<forall>d\<in>set (snd e). length (gz d) < 2 ^ 32)"

text \<open>A pile that begins at a height can hold the entries: no height and no offset overflows.\<close>

definition pile_fits :: "(bytes \<Rightarrow> bytes) \<Rightarrow> u32 \<Rightarrow> pile_entry list \<Rightarrow> bool" where
  "pile_fits gz begn es \<longleftrightarrow>
     begn mod ChunkUnit = 0 \<and> unat begn + unat ChunkUnit < 2 ^ 32 \<and> length es \<le> unat ChunkUnit \<and>
     (\<forall>e\<in>set es. pile_entry_ok gz e) \<and> end_offset gz es < 2 ^ 63"

text \<open>Everything in the file but the three copies of the head height.\<close>

definition pile_body :: "(bytes \<Rightarrow> bytes) \<Rightarrow> bytes \<Rightarrow> u32 \<Rightarrow> hash256 \<Rightarrow> pile_entry list \<Rightarrow> bool" where
  "pile_body gz f begn gen es \<longleftrightarrow>
     is_hash gen \<and> end_offset gz es \<le> length f \<and>
     holds_at f 12 (LE_Uint32ToBytes begn @ LE_Uint32ToBytes (begn + ChunkUnit) @ gen) \<and>
     (\<forall>i<length es.
        holds_at f (256 + 8 * i) (LE_Uint64ToBytes (of_nat (end_offset gz (take (Suc i) es)))) \<and>
        holds_at f (end_offset gz (take i es)) (entry_bytes gz (es ! i)))"

definition head_copies :: "bytes \<Rightarrow> u32 \<Rightarrow> u32 \<Rightarrow> u32 \<Rightarrow> bool" where
  "head_copies f h a b \<longleftrightarrow> holds_at f 0 (LE_Uint32ToBytes h @ LE_Uint32ToBytes a @ LE_Uint32ToBytes b)"

definition pile_holds :: "(bytes \<Rightarrow> bytes) \<Rightarrow> pile \<Rightarrow> pile_entry list \<Rightarrow> bool" where
  "pile_holds gz p es \<longleftrightarrow>
     pile_fits gz (pl_BeginHeight p) es \<and>
     pile_body gz (pl_file p) (pl_BeginHeight p) (pl_GenHash p) es \<and>
     pl_HeadHeight p = pl_BeginHeight p + of_nat (length es) \<and>
     head_copies (pl_file p) (pl_HeadHeight p) (pl_HeadHeight p) (pl_HeadHeight p)"

lemma chunk_numbers [simp]:
  "unat ChunkUnit = 5184000" "ChunkHeaderSize = 41472256" "ChunkMetaSize = 256"
proof -
  have c: "ChunkUnit = 5184000" by (simp add: ChunkUnit_def)
  show "unat ChunkUnit = 5184000" "ChunkMetaSize = 256" by (simp_all add: c ChunkMetaSize_def)
  then show "ChunkHeaderSize = 41472256" by (simp add: ChunkHeaderSize_def c)
qed

lemma end_offset_simps [simp]:
  "end_offset gz [] = 41472256"
  "end_offset gz (es @ [e]) = end_offset gz es + length (entry_bytes gz e)"
  by (simp_all add: end_offset_def)

lemma end_offset_mono: "i \<le> j \<Longrightarrow> end_offset gz (take i es) \<le> end_offset gz (take j es)"
  using take_add[of i "j - i" es] by (simp add: end_offset_def)

lemma end_offset_header: "41472256 \<le> end_offset gz es"
  by (simp add: end_offset_def)

lemma end_offset_step:
  "i < length es \<Longrightarrow> end_offset gz (take (Suc i) es) = end_offset gz (take i es) + length (entry_bytes gz (es ! i))"
  by (simp add: take_Suc_conv_app_nth)

lemma head_height:
  assumes "pile_fits gz begn es"
  shows "unat (begn + of_nat (length es)) = unat begn + length es"
    and "unat (begn + of_nat (length es) - begn) = length es"
    and "unat (begn + ChunkUnit) = unat begn + 5184000"
proof -
  have n: "unat (of_nat (length es) :: u32) = length es"
    using assms by (simp add: pile_fits_def unat_of_nat)
  then show "unat (begn + of_nat (length es)) = unat begn + length es"
    and "unat (begn + of_nat (length es) - begn) = length es"
    and "unat (begn + ChunkUnit) = unat begn + 5184000"
    using assms by (simp_all add: pile_fits_def unat_plus_if')
qed

text \<open>The offset table.\<close>

lemma pl_offset_body:
  assumes "pile_fits gz begn es" and "pile_body gz f begn gen es" and "n \<le> length es"
  shows "pl_offset n f = Inr (int (end_offset gz (take n es)))"
proof (cases n)
  case 0
  then show ?thesis by (simp add: pl_offset_def)
next
  case (Suc i)
  let ?v = "of_nat (end_offset gz (take n es)) :: u64"
  have at: "holds_at f (256 + 8 * i) (LE_Uint64ToBytes ?v)"
    using assms(2,3) Suc by (simp add: pile_body_def)
  have small: "end_offset gz (take n es) < 2 ^ 63"
    using assms(1) end_offset_mono[of n "length es" gz es] assms(3) by (auto simp: pile_fits_def)
  then have "int64 ?v = int (end_offset gz (take n es))"
    by (subst int64_small) (simp_all add: unsigned_of_nat take_bit_nat_eq_self)
  moreover have "file_read (256 + (int n - 1) * 8) 8 f = Inr (LE_Uint64ToBytes ?v)"
    by (rule holds_at_read'[OF at]) (simp_all add: Suc)
  ultimately show ?thesis using Suc by (simp add: pl_offset_def)
qed

section \<open>Reading an entry\<close>

definition size_table :: "(bytes \<Rightarrow> bytes) \<Rightarrow> bytes list \<Rightarrow> bytes" where
  "size_table gz ds = concat (map (\<lambda>d. LE_Uint32ToBytes (of_nat (length (gz d)))) ds)"

lemma length_size_table [simp]: "length (size_table gz ds) = 4 * length ds"
  by (induction ds) (simp_all add: size_table_def)

lemma entry_bytes_parts:
  "entry_bytes gz (h, ds) = h @ [of_nat (length ds)] @ size_table gz ds @ concat (map gz ds)"
  by (simp add: entry_bytes_def size_table_def Let_def comp_def)

lemma length_entry_bytes:
  "is_hash (fst e) \<Longrightarrow>
   length (entry_bytes gz e) = 32 + 1 + 4 * length (snd e) + sum_list (map length (map gz (snd e)))"
  by (cases e) (simp add: entry_bytes_parts is_hash_def Hash256Size_def length_concat comp_def)

lemma concat_map_nth:
  "i < length xs \<Longrightarrow>
   concat (map g xs) = concat (map g (take i xs)) @ g (xs ! i) @ concat (map g (drop (Suc i) xs))"
  using arg_cong[OF id_take_nth_drop[of i xs], of "\<lambda>x. concat (map g x)"] by simp

lemma zsize_table:
  assumes "i < length ds" and "length (gz (ds ! i)) < 2 ^ 32"
  shows "zsize (size_table gz ds) i = Inr (length (gz (ds ! i)))"
proof -
  have "size_table gz ds = size_table gz (take i ds) @ LE_Uint32ToBytes (of_nat (length (gz (ds ! i)))) @ size_table gz (drop (Suc i) ds)"
    unfolding size_table_def by (rule concat_map_nth[OF assms(1)])
  then have "drop (4 * i) (size_table gz ds) = LE_Uint32ToBytes (of_nat (length (gz (ds ! i)))) @ size_table gz (drop (Suc i) ds)"
    using assms(1) by simp
  then show ?thesis using assms(2) by (simp add: zsize_def unat_of_nat)
qed

lemma skip_sizes_table:
  "\<forall>i\<in>set is. i < length ds \<Longrightarrow> \<forall>d\<in>set ds. length (gz d) < 2 ^ 32 \<Longrightarrow>
   skip_sizes (size_table gz ds) is zofs = Inr (zofs + int (\<Sum>i\<leftarrow>is. length (gz (ds ! i))))"
  by (induction "is" arbitrary: zofs) (simp_all add: zsize_table)

lemma sum_sizes_take:
  "k \<le> length ds \<Longrightarrow> (\<Sum>i\<leftarrow>[0..<k]. length (gz (ds ! i))) = length (concat (map gz (take k ds)))"
  by (induction k) (simp_all add: take_Suc_conv_app_nth)

lemma holds_at_data:
  assumes "holds_at f off (concat (map gz ds))" and "i < length ds"
  shows "holds_at f (off + length (concat (map gz (take i ds)))) (gz (ds ! i))"
  using assms(1) unfolding concat_map_nth[OF assms(2), of gz] by (simp add: holds_at_append)

lemma read_datas_table:
  assumes "holds_at f off (concat (map gz ds))" and "\<forall>d\<in>set ds. length (gz d) < 2 ^ 32"
    and "\<And>d. unz (gz d) = Inr d" and "a \<le> b" and "b \<le> length ds"
  shows "read_datas unz f (size_table gz ds) [a..<b] (int (off + length (concat (map gz (take a ds))))) =
    Inr (concat (map ((!) ds) [a..<b]))"
  using assms(4,5)
proof (induction "b - a" arbitrary: a)
  case (Suc n)
  then have a: "a < b" "a < length ds" by auto
  have IH: "read_datas unz f (size_table gz ds) [Suc a..<b] (int (off + length (concat (map gz (take (Suc a) ds))))) =
      Inr (concat (map ((!) ds) [Suc a..<b]))"
    using Suc a by (intro Suc.hyps) auto
  have len: "int (off + length (concat (map gz (take a ds)))) + int (length (gz (ds ! a))) =
      int (off + length (concat (map gz (take (Suc a) ds))))"
    using a by (simp add: take_Suc_conv_app_nth)
  have size: "zsize (size_table gz ds) a = Inr (length (gz (ds ! a)))"
    using a assms(2) by (simp add: zsize_table)
  show ?case
    unfolding upt_conv_Cons[OF a(1)] read_datas.simps size sum.case holds_at_read[OF holds_at_data[OF assms(1) a(2)]]
      assms(3) len IH by simp
qed simp

lemma entry_at:
  assumes "pile_holds gz p es" and "i < length es" and "es ! i = (h, ds)"
  defines "off \<equiv> end_offset gz (take i es)" and "f \<equiv> pl_file p"
  shows "is_hash h" and "length ds < 256" and "\<forall>d\<in>set ds. length (gz d) < 2 ^ 32"
    and "holds_at f off h" and "holds_at f (off + 32) [of_nat (length ds)]"
    and "holds_at f (off + 33) (size_table gz ds)" and "holds_at f (off + 33 + 4 * length ds) (concat (map gz ds))"
proof -
  have "pile_entry_ok gz (h, ds)" using assms(1-3) by (metis nth_mem pile_fits_def pile_holds_def)
  then show h: "is_hash h" and "length ds < 256" and "\<forall>d\<in>set ds. length (gz d) < 2 ^ 32"
    by (simp_all add: pile_entry_ok_def)
  have "holds_at f off (entry_bytes gz (es ! i))"
    using assms(1,2) by (simp add: pile_holds_def pile_body_def off_def f_def)
  then have "holds_at f off (entry_bytes gz (h, ds))" using assms(3) by simp
  then show "holds_at f off h" "holds_at f (off + 32) [of_nat (length ds)]"
    "holds_at f (off + 33) (size_table gz ds)" "holds_at f (off + 33 + 4 * length ds) (concat (map gz ds))"
    using h by (simp_all add: entry_bytes_parts holds_at_append is_hash_def Hash256Size_def add_ac
        del: append_Cons append_Nil)
qed

lemma height_of:
  assumes "pile_holds gz p es" and "i < length es" and "H = pl_BeginHeight p + of_nat (Suc i)"
  shows "unat (H - pl_BeginHeight p) = Suc i" "\<not> pl_BeginHeight p + ChunkUnit < H" "\<not> pl_HeadHeight p < H"
proof -
  have fits: "pile_fits gz (pl_BeginHeight p) es" and head: "pl_HeadHeight p = pl_BeginHeight p + of_nat (length es)"
    using assms(1) by (simp_all add: pile_holds_def)
  have n: "unat (of_nat (Suc i) :: u32) = Suc i"
    using fits assms(2) by (simp add: pile_fits_def unat_of_nat del: of_nat_Suc)
  then have H: "unat H = unat (pl_BeginHeight p) + Suc i"
    using fits assms(2) unfolding assms(3) by (simp add: pile_fits_def unat_plus_if' del: of_nat_Suc)
  show "unat (H - pl_BeginHeight p) = Suc i" using n by (simp add: assms(3) del: of_nat_Suc)
  show "\<not> pl_BeginHeight p + ChunkUnit < H" "\<not> pl_HeadHeight p < H"
    using head_height[OF fits] fits assms(2) by (simp_all add: word_less_nat_alt H head pile_fits_def)
qed

lemma offset_of:
  assumes "pile_holds gz p es" and "i < length es"
  shows "pl_offset i (pl_file p) = Inr (int (end_offset gz (take i es)))"
  using assms pl_offset_body[of gz "pl_BeginHeight p" es "pl_file p" "pl_GenHash p" i] by (simp add: pile_holds_def)

lemma pl_GetHash_at:
  assumes "pile_holds gz p es" and "i < length es" and "es ! i = (h, ds)" and "H = pl_BeginHeight p + of_nat (Suc i)"
  shows "pl_GetHash H p = Inr h"
proof -
  note at = entry_at[OF assms(1-3)]
  have "file_read (int (end_offset gz (take i es))) 32 (pl_file p) = Inr h"
    using at(1,4) by (intro holds_at_read') (auto simp: is_hash_def Hash256Size_def)
  then show ?thesis using height_of[OF assms(1,2,4)] offset_of[OF assms(1,2)] by (simp add: pl_GetHash_def)
qed

lemma read_sizes_at:
  assumes "pile_holds gz p es" and "i < length es" and "es ! i = (h, ds)" and "H = pl_BeginHeight p + of_nat (Suc i)"
    and "length ds < 64"
  shows "read_sizes out H p =
    (if out (length ds) then Inl (PileErr ErrInvalidDataIndex)
     else Inr (int (end_offset gz (take i es) + 33 + 4 * length ds), size_table gz ds))"
proof -
  note at = entry_at[OF assms(1-3)]
  let ?o = "end_offset gz (take i es)" and ?n = "of_nat (length ds) :: u8"
  have n: "unat ?n = length ds" "unat (4 * ?n) = 4 * length ds"
    using assms(5) by (simp_all add: unat_of_nat unat_mult_lem[THEN iffD1])
  have "file_read (int ?o + 32) 1 (pl_file p) = Inr [?n]"
    using at(5) by (intro holds_at_read') auto
  moreover have "file_read (int ?o + 33) (4 * length ds) (pl_file p) = Inr (size_table gz ds)"
    using at(6) by (intro holds_at_read') auto
  ultimately show ?thesis
    using height_of[OF assms(1,2,4)] offset_of[OF assms(1,2)] by (simp add: read_sizes_def n Let_def)
qed

lemma pl_GetData_at:
  assumes "pile_holds gz p es" and "i < length es" and "es ! i = (h, ds)" and "H = pl_BeginHeight p + of_nat (Suc i)"
    and "length ds < 64" and "\<And>d. unz (gz d) = Inr d"
  shows "pl_GetData unz H k p = (if k < length ds then Inr (ds ! k) else Inl (PileErr ErrInvalidDataIndex))"
proof (cases "k < length ds")
  case True
  note at = entry_at[OF assms(1-3)]
  let ?o = "end_offset gz (take i es) + 33 + 4 * length ds"
  have skip: "skip_sizes (size_table gz ds) [0..<k] (int ?o) = Inr (int (?o + length (concat (map gz (take k ds)))))"
    using True at(3) sum_sizes_take[of k ds gz] by (subst skip_sizes_table) simp_all
  have size: "zsize (size_table gz ds) k = Inr (length (gz (ds ! k)))"
    using True at(3) by (simp add: zsize_table)
  show ?thesis
    using True read_sizes_at[OF assms(1-5), of "\<lambda>n. n \<le> k"] holds_at_read[OF holds_at_data[OF at(7) True]] skip
    by (simp only: pl_GetData_def) (simp add: size assms(6))
next
  case False
  then show ?thesis using read_sizes_at[OF assms(1-5), of "\<lambda>n. n \<le> k"] by (simp add: pl_GetData_def)
qed

lemma pl_GetDatas_at:
  assumes "pile_holds gz p es" and "i < length es" and "es ! i = (h, ds)" and "H = pl_BeginHeight p + of_nat (Suc i)"
    and "length ds < 64" and "\<And>d. unz (gz d) = Inr d"
  shows "pl_GetDatas unz H start count p =
    (if start + count \<le> length ds then Inr (concat (map ((!) ds) [start..<start + count]))
     else Inl (PileErr ErrInvalidDataIndex))"
proof (cases "start + count \<le> length ds")
  case True
  note at = entry_at[OF assms(1-3)]
  let ?o = "end_offset gz (take i es) + 33 + 4 * length ds"
  have skip: "skip_sizes (size_table gz ds) [0..<start] (int ?o) = Inr (int (?o + length (concat (map gz (take start ds)))))"
    using True at(3) sum_sizes_take[of start ds gz] by (subst skip_sizes_table) simp_all
  have "read_datas unz (pl_file p) (size_table gz ds) [start..<start + count]
      (int (?o + length (concat (map gz (take start ds))))) = Inr (concat (map ((!) ds) [start..<start + count]))"
    using True by (intro read_datas_table[OF at(7,3) assms(6)]) simp_all
  then show ?thesis
    using True read_sizes_at[OF assms(1-5), of "\<lambda>n. n < start + count"] skip
    by (simp only: pl_GetDatas_def) simp
next
  case False
  then show ?thesis using read_sizes_at[OF assms(1-5), of "\<lambda>n. n < start + count"] by (simp add: pl_GetDatas_def)
qed

section \<open>Appending\<close>

text \<open>A write that touches no entry, no used slot of the offset table and no meta data but the head heights.\<close>

definition outside :: "(bytes \<Rightarrow> bytes) \<Rightarrow> pile_entry list \<Rightarrow> nat \<times> bytes \<Rightarrow> bool" where
  "outside gz es w \<longleftrightarrow>
     end_offset gz es \<le> fst w \<or>
     256 + 8 * length es \<le> fst w \<and> fst w + length (snd w) \<le> 41472256 \<or> fst w + length (snd w) \<le> 12"

lemma body_write:
  assumes "pile_body gz f begn gen es" and "length es \<le> 5184000" and "outside gz es (off, bs)"
  shows "pile_body gz (file_write off bs f) begn gen es"
proof -
  have gen: "length gen = 32" using assms(1) by (simp add: pile_body_def is_hash_def Hash256Size_def)
  have slot: "holds_at (file_write off bs f) (256 + 8 * i) (LE_Uint64ToBytes v)"
    if "holds_at f (256 + 8 * i) (LE_Uint64ToBytes v)" "i < length es" for i v
    using that assms(2,3) end_offset_header[of gz es] by (intro holds_at_other) (auto simp: outside_def)
  have entry: "holds_at (file_write off bs f) (end_offset gz (take i es)) (entry_bytes gz (es ! i))"
    if "holds_at f (end_offset gz (take i es)) (entry_bytes gz (es ! i))" "i < length es" for i
    using that assms(3) end_offset_header[of gz "take i es"] end_offset_step[of i es gz]
      end_offset_mono[of "Suc i" "length es" gz es] by (intro holds_at_other) (auto simp: outside_def)
  have meta: "holds_at (file_write off bs f) 12 (LE_Uint32ToBytes begn @ LE_Uint32ToBytes (begn + ChunkUnit) @ gen)"
    using assms(1,3) gen end_offset_header[of gz es] by (intro holds_at_other) (auto simp: pile_body_def outside_def)
  show ?thesis using assms(1) slot entry meta by (auto simp: pile_body_def)
qed

lemma body_writes:
  "pile_body gz f begn gen es \<Longrightarrow> length es \<le> 5184000 \<Longrightarrow> \<forall>w\<in>set ws. outside gz es w \<Longrightarrow>
   pile_body gz (write_all ws f) begn gen es"
proof (induction ws arbitrary: f)
  case (Cons w ws)
  then show ?case by (cases w) (simp add: body_write)
qed simp

lemma head_writes: "head_copies f h a b \<Longrightarrow> \<forall>w\<in>set ws. 12 \<le> fst w \<Longrightarrow> head_copies (write_all ws f) h a b"
  unfolding head_copies_def by (rule write_all_other) auto

lemma body_snoc:
  "pile_body gz f begn gen (es @ [e]) \<longleftrightarrow>
   pile_body gz f begn gen es \<and> holds_at f (256 + 8 * length es) (LE_Uint64ToBytes (of_nat (end_offset gz (es @ [e])))) \<and>
   holds_at f (end_offset gz es) (entry_bytes gz e)"
proof -
  have "(\<forall>i<length (es @ [e]). P i) \<longleftrightarrow> (\<forall>i<length es. P i) \<and> P (length es)" for P
    by (auto simp: less_Suc_eq)
  then show ?thesis
    by (auto simp: pile_body_def nth_append holds_at_def)
qed

text \<open>The writes of an append: the data, the slot of the offset table, and the three copies of the height.\<close>

definition data_writes :: "(bytes \<Rightarrow> bytes) \<Rightarrow> pile_entry list \<Rightarrow> pile_entry \<Rightarrow> file_writes" where
  "data_writes gz es e =
     consecutive (end_offset gz es)
       ([fst e, [of_nat (length (snd e))]] @ map (\<lambda>zd. LE_Uint32ToBytes (of_nat (length zd))) (map gz (snd e)) @ map gz (snd e)) @
     [(256 + 8 * length es, LE_Uint64ToBytes (of_nat (end_offset gz (es @ [e]))))]"

definition height_writes :: "u32 \<Rightarrow> file_writes" where
  "height_writes h = [(0, LE_Uint32ToBytes h), (4, LE_Uint32ToBytes h), (8, LE_Uint32ToBytes h)]"

lemma append_writes_split:
  "is_hash (fst e) \<Longrightarrow>
   append_writes gz (end_offset gz es) (length es) head (fst e) (snd e) = data_writes gz es e @ height_writes (head + 1)"
  by (simp add: append_writes_def data_writes_def height_writes_def length_entry_bytes Let_def mult.commute)

lemma data_writes_outside:
  "length es < 5184000 \<Longrightarrow> w \<in> set (data_writes gz es e) \<Longrightarrow> outside gz es (fst w, take m (snd w)) \<and> 12 \<le> fst w"
  using end_offset_header[of gz es] by (auto simp: data_writes_def outside_def dest!: consecutive_from)

lemma data_writes_body:
  assumes "pile_body gz f begn gen es" and "length es < 5184000"
  shows "pile_body gz (write_all (data_writes gz es e) f) begn gen (es @ [e])"
proof -
  let ?L = "[fst e, [of_nat (length (snd e))]] @ map (\<lambda>zd. LE_Uint32ToBytes (of_nat (length zd))) (map gz (snd e)) @ map gz (snd e)"
  have "end_offset gz es \<le> length f" using assms(1) by (simp add: pile_body_def)
  then have "holds_at (write_all (consecutive (end_offset gz es) ?L) f) (end_offset gz es) (entry_bytes gz e)"
    using holds_at_consecutive[of "end_offset gz es" f ?L] by (simp add: entry_bytes_def Let_def)
  then have "holds_at (write_all (data_writes gz es e) f) (end_offset gz es) (entry_bytes gz e)"
    unfolding data_writes_def write_all_simps
    using assms(2) end_offset_header[of gz es] by (intro holds_at_other) simp_all
  moreover have "\<forall>w\<in>set (data_writes gz es e). outside gz es w"
    using data_writes_outside[OF assms(2), of _ gz e "length (snd w)" for w] by (metis prod.collapse take_all_iff order_refl)
  then have "pile_body gz (write_all (data_writes gz es e) f) begn gen es"
    using assms by (intro body_writes) simp_all
  ultimately show ?thesis
    unfolding body_snoc by (simp add: data_writes_def)
qed

lemma height_writes_body:
  assumes "pile_body gz f begn gen es" and "length es \<le> 5184000"
  shows "pile_body gz (write_all (height_writes h) f) begn gen es"
  using assms by (intro body_writes) (auto simp: height_writes_def outside_def)

lemma height_writes_head: "head_copies (write_all (height_writes h) f) h h h"
  by (simp add: head_copies_def height_writes_def holds_at_append)
     (simp add: holds_at_other)

lemma pl_AppendData_holds:
  assumes "pile_holds gz p es" and "pile_fits gz (pl_BeginHeight p) (es @ [e])"
  shows "pl_AppendData gz (pl_HeadHeight p + 1) (fst e) (snd e) p =
      (Inr (), p\<lparr>pl_file := write_all (data_writes gz es e @ height_writes (pl_HeadHeight p + 1)) (pl_file p),
                 pl_HeadHeight := pl_HeadHeight p + 1\<rparr>)"
    and "pile_holds gz (snd (pl_AppendData gz (pl_HeadHeight p + 1) (fst e) (snd e) p)) (es @ [e])"
proof -
  have hash: "is_hash (fst e)" and len: "length es < 5184000"
    using assms(2) by (simp_all add: pile_fits_def pile_entry_ok_def)
  have old: "pile_fits gz (pl_BeginHeight p) es" "pile_body gz (pl_file p) (pl_BeginHeight p) (pl_GenHash p) es"
    and head: "pl_HeadHeight p = pl_BeginHeight p + of_nat (length es)"
    using assms(1) by (simp_all add: pile_holds_def)
  have n: "unat (pl_HeadHeight p - pl_BeginHeight p) = length es"
    unfolding head by (rule head_height(2)[OF old(1)])
  show run: "pl_AppendData gz (pl_HeadHeight p + 1) (fst e) (snd e) p =
      (Inr (), p\<lparr>pl_file := write_all (data_writes gz es e @ height_writes (pl_HeadHeight p + 1)) (pl_file p),
                 pl_HeadHeight := pl_HeadHeight p + 1\<rparr>)"
    using pl_offset_body[OF old order_refl] append_writes_split[OF hash, of gz es "pl_HeadHeight p"]
    by (simp add: pl_AppendData_def n Let_def del: write_all_simps)
  have "pile_body gz (write_all (data_writes gz es e @ height_writes (pl_HeadHeight p + 1)) (pl_file p))
      (pl_BeginHeight p) (pl_GenHash p) (es @ [e])"
    using data_writes_body[OF old(2) len] len by (simp add: height_writes_body)
  then show "pile_holds gz (snd (pl_AppendData gz (pl_HeadHeight p + 1) (fst e) (snd e) p)) (es @ [e])"
    using assms(2) height_writes_head unfolding run pile_holds_def by (simp add: head add_ac)
qed

lemma NewPile_holds:
  assumes "is_hash gen" and "begn mod ChunkUnit = 0" and "unat begn + unat ChunkUnit < 2 ^ 32"
  shows "\<exists>p. NewPile gen begn = Inr p \<and> pl_BeginHeight p = begn \<and> pl_GenHash p = gen \<and> pile_holds gz p []"
proof -
  let ?b = "LE_Uint32ToBytes begn" and ?e = "LE_Uint32ToBytes (begn + ChunkUnit)"
  let ?meta = "copy_at 20 (copy_at 16 (copy_at 12 (copy_at 8 (copy_at 4 (go_copy (zeros 256) ?b) ?b) ?b) ?b) ?e) gen"
  have gen: "length gen = 32" using assms(1) by (simp add: is_hash_def Hash256Size_def)
  have meta: "?meta = ?b @ ?b @ ?b @ ?b @ ?e @ gen @ zeros 204"
    by (simp add: copy_at_def go_copy_def gen)
  have "holds_at (file_write 0 ?meta (zeros 41472256)) 0 (?b @ ?b @ ?b @ ?b @ ?e @ gen @ zeros 204)"
    unfolding meta by (rule holds_at_same)
  then show ?thesis
    using assms gen unfolding NewPile_def
    by (simp add: Let_def pile_holds_def pile_fits_def pile_body_def head_copies_def holds_at_append del: file_write_def)
qed

section \<open>Loading, also after a crash\<close>

text \<open>
  The file after a crash of the writes \<open>ws\<close>: the first \<open>j\<close> of them are complete and \<open>m\<close> bytes of the next one
  are written.
\<close>

definition crashed :: "file_writes \<Rightarrow> nat \<Rightarrow> nat \<Rightarrow> bytes \<Rightarrow> bytes" where
  "crashed ws j m f =
     (case drop j ws of
        [] \<Rightarrow> write_all ws f
      | w # _ \<Rightarrow> file_write (fst w) (take m (snd w)) (write_all (take j ws) f))"

lemma LE_Uint32_surj:
  assumes "length bs = 4"
  shows "\<exists>v. bs = LE_Uint32ToBytes v"
proof -
  obtain a b c d where bs: "bs = [a, b, c, d]"
    using assms by (auto simp: length_Suc_conv eval_nat_numeral)
  let ?v = "the (LE_Uint32 bs)"
  have "LE_Uint32ToBytes ?v = bs"
    unfolding bs LE_Uint32ToBytes_def by (auto simp: bit_eq_iff bit_simps dest: bit_imp_le_length)
  then show ?thesis by metis
qed

lemma torn_height:
  assumes "4 + off \<le> length f" and "length bs \<le> 4"
  shows "\<exists>v. holds_at (file_write off bs f) off (LE_Uint32ToBytes v)"
proof -
  obtain v where "take 4 (drop off (file_write off bs f)) = LE_Uint32ToBytes v"
    using LE_Uint32_surj[of "take 4 (drop off (file_write off bs f))"] assms by auto
  then have "holds_at (file_write off bs f) off (LE_Uint32ToBytes v)" using assms by (simp add: holds_at_def)
  then show ?thesis by blast
qed

lemma repair_head_spec:
  assumes "head_copies f h a b" and "pile_body gz f begn gen es" and "length es \<le> 5184000"
    and "repair_head h a b f = Inr (n, g)"
  shows "head_copies g n n n" "pile_body gz g begn gen es"
proof -
  have out: "outside gz es (off, LE_Uint32ToBytes v)" if "off \<le> 8" for off v
    using that by (simp add: outside_def)
  show "head_copies g n n n" "pile_body gz g begn gen es"
    using assms body_write[OF _ assms(3) out]
    by (auto simp: repair_head_def head_copies_def holds_at_append holds_at_other split: if_splits)
qed

lemma LoadPile_holds:
  assumes "head_copies f h a b" and "pile_fits gz begn es" and "pile_body gz f begn gen es"
    and "repair_head h a b f = Inr (begn + of_nat (length es), g)"
  shows "\<exists>p. LoadPile f = Inr p \<and> pl_BeginHeight p = begn \<and> pl_GenHash p = gen \<and> pl_file p = g \<and> pile_holds gz p es"
proof -
  let ?L = "LE_Uint32ToBytes"
  let ?n = "begn + of_nat (length es)"
  have len: "length es \<le> 5184000" using assms(2) by (simp add: pile_fits_def)
  note new = repair_head_spec[OF assms(1,3) len assms(4)]
  have gen: "length gen = 32" and size: "41472256 \<le> length f" "end_offset gz es \<le> length g"
    using assms(3) new(2) end_offset_header[of gz es] by (auto simp: pile_body_def is_hash_def Hash256Size_def)
  have "holds_at f 0 (?L h @ ?L a @ ?L b @ ?L begn @ ?L (begn + ChunkUnit) @ gen)"
    using assms(1,3) by (simp add: head_copies_def pile_body_def holds_at_append)
  then have "take 52 f = ?L h @ ?L a @ ?L b @ ?L begn @ ?L (begn + ChunkUnit) @ gen"
    by (simp add: holds_at_def gen)
  moreover have "take 256 f = take 52 f @ take 204 (drop 52 f)"
    using take_add[of 52 204 f] by simp
  ultimately have meta: "file_read 0 256 f =
      Inr (?L h @ ?L a @ ?L b @ ?L begn @ ?L (begn + ChunkUnit) @ gen @ take 204 (drop 52 f))"
    using size gen by (cases f) (simp_all add: file_read_def go_copy_def)
  have off: "pl_offset (length es) g = Inr (int (end_offset gz es))"
    using pl_offset_body[OF assms(2) new(2) order_refl] by simp
  show ?thesis
    using assms(2,4) meta new off head_height(2)[OF assms(2)] size gen
    by (simp add: LoadPile_def Let_def pile_fits_def go_copy_def) (simp add: pile_holds_def pile_fits_def)
qed

lemma crashed_append:
  "crashed (ws @ ws') j m f =
     (if j < length ws then file_write (fst (ws ! j)) (take m (snd (ws ! j))) (write_all (take j ws) f)
      else crashed ws' (j - length ws) m (write_all ws f))"
  by (auto simp: crashed_def Cons_nth_drop_Suc[symmetric] split: list.splits)

lemma crash_in_data:
  assumes "pile_holds gz p es" and "length es < 5184000" and "j < length (data_writes gz es e)"
    and crash: "f = crashed (data_writes gz es e @ ws) j m (pl_file p)"
  shows "\<exists>p'. LoadPile f = Inr p' \<and> pile_holds gz p' es"
proof -
  let ?D = "data_writes gz es e" and ?H = "pl_HeadHeight p"
  let ?w = "(fst (?D ! j), take m (snd (?D ! j)))"
  have f: "f = write_all (take j ?D @ [?w]) (pl_file p)"
    using assms(3) by (simp add: crash crashed_append)
  have part: "\<forall>w\<in>set (take j ?D @ [?w]). outside gz es w \<and> 12 \<le> fst w"
  proof
    fix w assume "w \<in> set (take j ?D @ [?w])"
    then have "w \<in> set ?D \<or> w = ?w" by (auto dest: in_set_takeD)
    then show "outside gz es w \<and> 12 \<le> fst w"
      using data_writes_outside[OF assms(2), of w gz e "length (snd w)"]
        data_writes_outside[OF assms(2) nth_mem[OF assms(3)], of m] by auto
  qed
  have "pile_body gz f (pl_BeginHeight p) (pl_GenHash p) es" "head_copies f ?H ?H ?H"
    unfolding f using assms(1,2) part
    by (auto intro!: body_writes head_writes simp: pile_holds_def simp del: write_all_simps)
  moreover have "repair_head ?H ?H ?H f = Inr (pl_BeginHeight p + of_nat (length es), f)"
    using assms(1) by (simp add: repair_head_def pile_holds_def)
  moreover have "pile_fits gz (pl_BeginHeight p) es" using assms(1) by (simp add: pile_holds_def)
  ultimately show ?thesis using LoadPile_holds by blast
qed

text \<open>
  While the heights are written, the file holds both the old and the new entries; which of them count is decided
  by the repair.
\<close>

lemma crash_in_heights:
  assumes "head_copies f h h h" and "41472256 \<le> length f"
  shows "\<exists>x a b g. head_copies (crashed (height_writes (h + 1)) k m f) x a b \<and>
    (repair_head x a b (crashed (height_writes (h + 1)) k m f) = Inr (h, g) \<or>
     repair_head x a b (crashed (height_writes (h + 1)) k m f) = Inr (h + 1, g))"
proof -
  let ?L = "LE_Uint32ToBytes" and ?N = "h + 1"
  let ?f1 = "file_write 0 (?L ?N) f" let ?f2 = "file_write 4 (?L ?N) ?f1"
  let ?c = "crashed (height_writes ?N) k m f"
  have at: "holds_at f 0 (?L h)" "holds_at f 4 (?L h)" "holds_at f 8 (?L h)"
    using assms(1) by (simp_all add: head_copies_def holds_at_append)
  have N: "?N \<noteq> h" by simp
  have cases: "k = 0 \<or> k = 1 \<or> k = 2 \<or> 3 \<le> k" by arith
  have c: "k = 0 \<Longrightarrow> ?c = file_write 0 (take m (?L ?N)) f" "k = 1 \<Longrightarrow> ?c = file_write 4 (take m (?L ?N)) ?f1"
    "k = 2 \<Longrightarrow> ?c = file_write 8 (take m (?L ?N)) ?f2" "3 \<le> k \<Longrightarrow> ?c = file_write 8 (?L ?N) ?f2"
    by (simp_all add: crashed_def height_writes_def numeral_2_eq_2)
  have k0: ?thesis if k: "k = 0"
  proof -
    obtain x where "holds_at ?c 0 (?L x)" using torn_height[of 0 f "take m (?L ?N)"] assms(2) c(1)[OF k] by auto
    then have "head_copies ?c x h h"
      using at(2,3) c(1)[OF k] by (simp add: head_copies_def holds_at_append holds_at_other)
    moreover have "\<exists>g. repair_head x h h ?c = Inr (h, g)" by (simp add: repair_head_def)
    ultimately show ?thesis by blast
  qed
  have k1: ?thesis if k: "k = 1"
  proof -
    obtain a where "holds_at ?c 4 (?L a)" using torn_height[of 4 ?f1 "take m (?L ?N)"] assms(2) c(2)[OF k] by auto
    then have "head_copies ?c ?N a h"
      using at(3) c(2)[OF k] by (simp add: head_copies_def holds_at_append holds_at_other)
    moreover have "\<exists>g. repair_head ?N a h ?c = Inr (h, g) \<or> repair_head ?N a h ?c = Inr (?N, g)"
      by (simp add: repair_head_def)
    ultimately show ?thesis by blast
  qed
  have k2: ?thesis if k: "k = 2"
  proof -
    obtain b where "holds_at ?c 8 (?L b)" using torn_height[of 8 ?f2 "take m (?L ?N)"] assms(2) c(3)[OF k] by auto
    then have "head_copies ?c ?N ?N b"
      using c(3)[OF k] by (simp add: head_copies_def holds_at_append holds_at_other)
    moreover have "\<exists>g. repair_head ?N ?N b ?c = Inr (?N, g)" by (simp add: repair_head_def)
    ultimately show ?thesis by blast
  qed
  have k3: ?thesis if k: "3 \<le> k"
  proof -
    have "head_copies ?c ?N ?N ?N"
      using c(4)[OF k] by (simp add: head_copies_def holds_at_append holds_at_other)
    moreover have "\<exists>g. repair_head ?N ?N ?N ?c = Inr (?N, g)" by (simp add: repair_head_def)
    ultimately show ?thesis by blast
  qed
  show ?thesis using cases k0 k1 k2 k3 by argo
qed

lemma crashed_heights_body:
  assumes "pile_body gz f begn gen es" and "length es \<le> 5184000"
  shows "pile_body gz (crashed (height_writes h) k m f) begn gen es"
proof (cases "drop k (height_writes h)")
  case Nil
  then show ?thesis using height_writes_body[OF assms] by (simp add: crashed_def)
next
  case (Cons w ws)
  then have "w \<in> set (height_writes h)" by (metis in_set_dropD list.set_intros(1))
  then have "outside gz es (fst w, take m (snd w))" by (auto simp: height_writes_def outside_def)
  moreover have "pile_body gz (write_all (take k (height_writes h)) f) begn gen es"
    using assms by (intro body_writes) (auto dest!: in_set_takeD simp: height_writes_def outside_def)
  ultimately show ?thesis using Cons assms(2) by (simp add: crashed_def body_write)
qed

text \<open>
  C9: appending is crash safe. When the writes of \<^verbatim>\<open>AppendData\<close> stop at any point, in the middle of one of
  them too, \<^verbatim>\<open>LoadPile\<close> opens the file, and the pile holds either the entries from before or those with the new
  one appended.
\<close>

theorem pile_crash_safe:
  assumes "pile_holds gz p es" and "pile_fits gz (pl_BeginHeight p) (es @ [(h, ds)])"
  shows "let ws = append_writes gz (end_offset gz es) (length es) (pl_HeadHeight p) h ds
    in pl_AppendData gz (pl_HeadHeight p + 1) h ds p =
         (Inr (), p\<lparr>pl_file := write_all ws (pl_file p), pl_HeadHeight := pl_HeadHeight p + 1\<rparr>) \<and>
       (\<exists>p'. LoadPile (crashed ws j m (pl_file p)) = Inr p' \<and>
          (pile_holds gz p' es \<or> pile_holds gz p' (es @ [(h, ds)])))"
proof -
  let ?D = "data_writes gz es (h, ds)" and ?H = "pl_HeadHeight p"
  let ?W = "height_writes (?H + 1)" and ?g = "write_all ?D (pl_file p)"
  have len: "length es < 5184000" using assms(2) by (simp add: pile_fits_def)
  have fits: "pile_fits gz (pl_BeginHeight p) es" and head: "?H = pl_BeginHeight p + of_nat (length es)"
    and body: "pile_body gz ?g (pl_BeginHeight p) (pl_GenHash p) (es @ [(h, ds)])"
    using assms(1) data_writes_body[OF _ len] by (simp_all add: pile_holds_def)
  have "\<exists>p'. LoadPile (crashed (?D @ ?W) j m (pl_file p)) = Inr p' \<and>
      (pile_holds gz p' es \<or> pile_holds gz p' (es @ [(h, ds)]))" for j m
  proof (cases "j < length ?D")
    case True
    then show ?thesis using crash_in_data[OF assms(1) len _ refl] by blast
  next
    case False
    let ?k = "j - length ?D" and ?c = "crashed (?D @ ?W) j m (pl_file p)"
    have c: "?c = crashed ?W ?k m ?g" using False by (simp add: crashed_append)
    have "head_copies ?g ?H ?H ?H"
      using assms(1) data_writes_outside[OF len] by (intro head_writes) (auto simp: pile_holds_def)
    moreover have "41472256 \<le> length ?g"
      using body end_offset_header[of gz "es @ [(h, ds)]"] by (simp add: pile_body_def)
    ultimately obtain x a b g where x: "head_copies ?c x a b"
      and r: "repair_head x a b ?c = Inr (?H, g) \<or> repair_head x a b ?c = Inr (?H + 1, g)"
      using crash_in_heights[of ?g ?H ?k m] unfolding c by blast
    have new: "pile_body gz ?c (pl_BeginHeight p) (pl_GenHash p) (es @ [(h, ds)])"
      unfolding c using body len by (intro crashed_heights_body) simp_all
    have N: "?H + 1 = pl_BeginHeight p + of_nat (length (es @ [(h, ds)]))" by (simp add: head add_ac)
    from r show ?thesis
      using LoadPile_holds[OF x fits, of "pl_GenHash p" g] LoadPile_holds[OF x assms(2), of "pl_GenHash p" g]
        new[unfolded body_snoc] new unfolding N[symmetric] head[symmetric] by blast
  qed
  moreover have "append_writes gz (end_offset gz es) (length es) ?H h ds = ?D @ ?W"
    using append_writes_split[of "(h, ds)" gz es ?H] assms(2) by (simp add: pile_fits_def pile_entry_ok_def)
  ultimately show ?thesis
    using pl_AppendData_holds(1)[OF assms] by (simp del: write_all_simps)
qed

text \<open>A compressor that stores its input, for the examples.\<close>

definition stored_pile :: "bytes \<Rightarrow> pile" where
  "stored_pile gen = projr (NewPile gen 0)"

lemma stored_pile_holds: "is_hash gen \<Longrightarrow> pile_holds (\<lambda>d. d) (stored_pile gen) [] \<and> pl_BeginHeight (stored_pile gen) = 0"
  using NewPile_holds[of gen 0 "\<lambda>d. d"] by (auto simp: stored_pile_def)

lemma stored_pile_fits: "pile_fits (\<lambda>d. d) 0 [(zeros 32, [[1], [2, 3]])]"
  by (simp add: pile_fits_def pile_entry_ok_def end_offset_def entry_bytes_def is_hash_def Hash256Size_def)

theorem pile_crash_safe_witness:
  "\<exists>p'. LoadPile (crashed (append_writes (\<lambda>d. d) 41472256 0 0 (zeros 32) [[1], [2, 3]]) 8 2 (pl_file (stored_pile (zeros 32))))
       = Inr p' \<and>
     (pile_holds (\<lambda>d. d) p' [] \<or> pile_holds (\<lambda>d. d) p' [(zeros 32, [[1], [2, 3]])])"
proof -
  have new: "pile_holds (\<lambda>d. d) (stored_pile (zeros 32)) []" "pl_BeginHeight (stored_pile (zeros 32)) = 0"
    using stored_pile_holds[of "zeros 32"] by simp_all
  then have "pl_HeadHeight (stored_pile (zeros 32)) = 0" by (simp add: pile_holds_def)
  then show ?thesis
    using pile_crash_safe[OF new(1), of "zeros 32" "[[1], [2, 3]]" 8 2] stored_pile_fits new(2) by (simp add: Let_def)
qed

end
