(* ===== verification/Pile_DB.thy ===== *)
theory Pile_DB
  imports Pile
begin

text \<open>
  \<^verbatim>\<open>core/pile/db.go\<close>: the piles of a chain, each for \<^verbatim>\<open>ChunkUnit\<close> heights. The database holds a sequence of
  entries, entry \<open>i\<close> at height \<open>i + 1\<close>; the theorems show that it appends and reads them, across the piles, and
  what \<^verbatim>\<open>Open\<close> makes of the files it left behind.
\<close>

section \<open>The database of piles\<close>

record pile_db =
  pd_piles :: "pile list"
  pd_genHash :: hash256

definition db_AppendData :: "(bytes \<Rightarrow> bytes) \<Rightarrow> u32 \<Rightarrow> hash256 \<Rightarrow> bytes list \<Rightarrow> (pile_db, unit) go_meth" where
  "db_AppendData gz Height DataHash Datas db =
     (if 255 < length Datas then (Inl (PileErr ErrExeedMaximumDataArrayLength), db)
      else if pd_piles db = [] then (Inl Panic, db)
      else
        let p = last (pd_piles db)
        in if Height \<noteq> pl_HeadHeight p + 1 then (Inl (PileErr ErrInvalidAppendHeight), db)
           else
             let opened =
               (if ChunkUnit \<le> pl_HeadHeight p - pl_BeginHeight p
                then case NewPile (pd_genHash db) (pl_BeginHeight p + ChunkUnit) of
                       Inl e \<Rightarrow> Inl e | Inr v \<Rightarrow> Inr (pd_piles db @ [v])
                else Inr (pd_piles db))
             in case opened of
                  Inl e \<Rightarrow> (Inl e, db)
                | Inr piles \<Rightarrow>
                    case pl_AppendData gz Height DataHash Datas (last piles) of
                      (r, p) \<Rightarrow> (r, db\<lparr>pd_piles := butlast piles @ [p]\<rparr>))"

definition db_Init :: "hash256 \<Rightarrow> (pile_db, unit) go_meth" where
  "db_Init genHash db =
     (if 0 < length (pd_piles db) then (Inl (PileErr ErrAlreadyInitialized), db)
      else case NewPile genHash 0 of
        Inl e \<Rightarrow> (Inl e, db)
      | Inr p \<Rightarrow> (Inr (), db\<lparr>pd_piles := pd_piles db @ [p], pd_genHash := genHash\<rparr>))"

text \<open>The pile of a height, for the three readers.\<close>

definition db_pile :: "u32 \<Rightarrow> pile_db \<Rightarrow> err + pile" where
  "db_pile Height db =
     (let idx = unat ((Height - 1) div ChunkUnit)
      in if length (pd_piles db) \<le> idx then Inl (PileErr ErrInvalidHeight_pile) else Inr (pd_piles db ! idx))"

definition db_GetHash :: "u32 \<Rightarrow> pile_db \<Rightarrow> err + hash256" where
  "db_GetHash Height db =
     (if Height = 0
      then if 0 < length (pd_piles db) then Inr (pl_GenHash (pd_piles db ! 0)) else Inl (PileErr ErrInvalidHeight_pile)
      else case db_pile Height db of Inl e \<Rightarrow> Inl e | Inr p \<Rightarrow> pl_GetHash Height p)"

definition db_GetData :: "(bytes \<Rightarrow> err + bytes) \<Rightarrow> u32 \<Rightarrow> nat \<Rightarrow> pile_db \<Rightarrow> err + bytes" where
  "db_GetData unz Height index db =
     (if Height = 0 then Inl (PileErr ErrInvalidHeight_pile)
      else case db_pile Height db of Inl e \<Rightarrow> Inl e | Inr p \<Rightarrow> pl_GetData unz Height index p)"

definition db_GetDatas :: "(bytes \<Rightarrow> err + bytes) \<Rightarrow> u32 \<Rightarrow> nat \<Rightarrow> nat \<Rightarrow> pile_db \<Rightarrow> err + bytes" where
  "db_GetDatas unz Height start count db =
     (if Height = 0 then Inl (PileErr ErrInvalidHeight_pile)
      else case db_pile Height db of Inl e \<Rightarrow> Inl e | Inr p \<Rightarrow> pl_GetDatas unz Height start count p)"

text \<open>\<^verbatim>\<open>Open\<close> loads the pile files of the directory, in the order of the walk.\<close>

definition db_Open :: "bytes list \<Rightarrow> err + pile_db" where
  "db_Open files =
     (case mapR LoadPile files of Inl e \<Rightarrow> Inl e
      | Inr ps \<Rightarrow>
          let pileMap = fold (\<lambda>p m. m(pl_BeginHeight p \<mapsto> p)) ps Map.empty;
              MaxHeight = fold (\<lambda>p m. if m < pl_HeadHeight p then pl_HeadHeight p else m) ps 0;
              Count = unat (MaxHeight div ChunkUnit + 1);
              found = (if 0 < MaxHeight
                       then mapR (\<lambda>i. case pileMap (of_nat i * ChunkUnit) of
                              None \<Rightarrow> Inl (PileErr ErrMissingPile) | Some p \<Rightarrow> Inr p) [0..<Count]
                       else Inr [])
          in case found of Inl e \<Rightarrow> Inl e
             | Inr piles \<Rightarrow>
                 Inr \<lparr>pd_piles = piles, pd_genHash = (case piles of [] \<Rightarrow> EmptyHash | p # _ \<Rightarrow> pl_GenHash p)\<rparr>)"

section \<open>The entries a database holds\<close>

abbreviation unit_size :: nat where
  "unit_size \<equiv> 5184000"

definition chunk :: "nat \<Rightarrow> 'a list \<Rightarrow> 'a list" where
  "chunk i es = take unit_size (drop (i * unit_size) es)"

definition db_holds :: "(bytes \<Rightarrow> bytes) \<Rightarrow> pile_db \<Rightarrow> pile_entry list \<Rightarrow> bool" where
  "db_holds gz db es \<longleftrightarrow>
     is_hash (pd_genHash db) \<and> 0 < length (pd_piles db) \<and> length es \<le> length (pd_piles db) * unit_size \<and>
     (length (pd_piles db) = 1 \<or> (length (pd_piles db) - 1) * unit_size < length es) \<and>
     (\<forall>i<length (pd_piles db).
        pile_holds gz (pd_piles db ! i) (chunk i es) \<and>
        pl_BeginHeight (pd_piles db ! i) = of_nat (i * unit_size) \<and> pl_GenHash (pd_piles db ! i) = pd_genHash db)"

text \<open>No height and no offset overflows.\<close>

definition db_fits :: "(bytes \<Rightarrow> bytes) \<Rightarrow> pile_entry list \<Rightarrow> bool" where
  "db_fits gz es \<longleftrightarrow>
     length es + unit_size < 2 ^ 32 \<and> (\<forall>e\<in>set es. pile_entry_ok gz e) \<and> end_offset gz es < 2 ^ 63"

lemma of_nat_unit: "(of_nat (i * unit_size) :: u32) mod ChunkUnit = 0" if "i * unit_size < 2 ^ 32"
proof -
  have "unat (of_nat (i * unit_size) :: u32) = i * unit_size" using that by (simp add: unat_of_nat del: of_nat_mult)
  then have "unat ((of_nat (i * unit_size) :: u32) mod ChunkUnit) = 0" by (simp add: unat_mod del: of_nat_mult)
  then show ?thesis by (simp add: unat_eq_0 del: of_nat_mult)
qed

lemma ChunkUnit_of_nat: "ChunkUnit = of_nat unit_size"
  by (simp add: ChunkUnit_def)

lemma end_offset_chunk: "end_offset gz (chunk i es) \<le> end_offset gz es"
proof -
  have "sum_list (map f (take a (drop b xs))) \<le> sum_list (map f xs)" for f :: "'b \<Rightarrow> nat" and a b xs
    using sum_list_append[of "map f (take b xs)" "map f (drop b xs)"]
      sum_list_append[of "map f (take a (drop b xs))" "map f (drop a (drop b xs))"]
    by (simp flip: map_append add: take_add[symmetric] drop_drop)
       (metis append_take_drop_id le_add1 map_append sum_list_append trans_le_add2)
  then show ?thesis by (simp add: end_offset_def chunk_def)
qed

lemma pile_fits_chunk:
  assumes "db_fits gz es" and "i * unit_size \<le> length es"
  shows "pile_fits gz (of_nat (i * unit_size)) (chunk i es)"
proof -
  have small: "i * unit_size + unit_size < 2 ^ 32" using assms by (simp add: db_fits_def)
  then have "unat (of_nat (i * unit_size) :: u32) = i * unit_size" by (simp add: unat_of_nat del: of_nat_mult)
  moreover have "end_offset gz (chunk i es) < 2 ^ 63"
    using assms(1) end_offset_chunk[of gz i es] by (simp add: db_fits_def)
  moreover have "\<forall>e\<in>set (chunk i es). pile_entry_ok gz e"
    using assms(1) by (auto simp: db_fits_def chunk_def dest!: in_set_takeD in_set_dropD)
  ultimately show ?thesis
    using small of_nat_unit[of i] by (simp add: pile_fits_def chunk_def del: of_nat_mult)
qed

lemma chunk_snoc:
  "length es < (i + 1) * unit_size \<Longrightarrow> i * unit_size \<le> length es \<Longrightarrow> chunk i (es @ [e]) = chunk i es @ [e]"
  "(j + 1) * unit_size \<le> length es \<Longrightarrow> chunk j (es @ [e]) = chunk j es"
  by (simp_all add: chunk_def)

lemma chunk_nth: "i < length es \<Longrightarrow> chunk (i div unit_size) es ! (i mod unit_size) = es ! i"
  "i < length es \<Longrightarrow> i mod unit_size < length (chunk (i div unit_size) es)"
proof -
  assume "i < length es"
  moreover have "i div unit_size * unit_size + i mod unit_size = i" by simp
  ultimately have "i mod unit_size < length es - i div unit_size * unit_size" by linarith
  then show "chunk (i div unit_size) es ! (i mod unit_size) = es ! i"
    "i mod unit_size < length (chunk (i div unit_size) es)"
    by (simp_all add: chunk_def)
qed

lemma db_pile_at:
  assumes "db_holds gz db es" and "i < length es" and "length es + unit_size < 2 ^ 32"
  shows "\<exists>p. db_pile (of_nat (Suc i)) db = Inr p \<and> pile_holds gz p (chunk (i div unit_size) es) \<and>
    (of_nat (Suc i) :: u32) = pl_BeginHeight p + of_nat (Suc (i mod unit_size))"
proof -
  have small: "i < 2 ^ 32" using assms by simp
  have "unat ((of_nat (Suc i) - 1 :: u32) div ChunkUnit) = i div unit_size"
    using small by (simp add: unat_div unat_of_nat)
  moreover have n: "i div unit_size < length (pd_piles db)"
    using assms(1,2) by (simp add: db_holds_def div_less_iff_less_mult)
  ultimately have "db_pile (of_nat (Suc i)) db = Inr (pd_piles db ! (i div unit_size))"
    by (simp add: db_pile_def del: of_nat_Suc)
  moreover have "(of_nat (Suc i) :: u32) = of_nat (i div unit_size * unit_size) + of_nat (Suc (i mod unit_size))"
    by (simp only: of_nat_add[symmetric]) simp
  ultimately show ?thesis using assms(1) n by (auto simp: db_holds_def)
qed

lemma db_last:
  assumes "db_holds gz db es"
  defines "n \<equiv> length (pd_piles db)" and "p \<equiv> last (pd_piles db)"
  shows "p = pd_piles db ! (n - 1)" "0 < n" "(n - 1) * unit_size \<le> length es" "length es \<le> n * unit_size"
    and "pile_holds gz p (chunk (n - 1) es)" "pl_BeginHeight p = of_nat ((n - 1) * unit_size)"
    and "length (chunk (n - 1) es) = length es - (n - 1) * unit_size" "pl_HeadHeight p = of_nat (length es)"
proof -
  show n: "0 < n" "(n - 1) * unit_size \<le> length es" "length es \<le> n * unit_size"
    using assms(1) by (auto simp: db_holds_def n_def)
  show p: "p = pd_piles db ! (n - 1)" using n(1) by (simp add: p_def n_def last_conv_nth)
  show h: "pile_holds gz p (chunk (n - 1) es)" "pl_BeginHeight p = of_nat ((n - 1) * unit_size)"
    using assms(1) n(1) unfolding p by (auto simp: db_holds_def n_def)
  have "length es \<le> (n - 1) * unit_size + unit_size" using n(1,3) by (cases n) simp_all
  then show len: "length (chunk (n - 1) es) = length es - (n - 1) * unit_size" by (simp add: chunk_def)
  have "pl_HeadHeight p = of_nat ((n - 1) * unit_size) + of_nat (length es - (n - 1) * unit_size)"
    using h by (simp only: pile_holds_def len)
  then show "pl_HeadHeight p = of_nat (length es)" using n(2) by (simp only: of_nat_add[symmetric] le_add_diff_inverse)
qed

lemma db_holds_append:
  assumes "is_hash (pd_genHash db)" and "\<forall>i<length piles. pile_holds gz (piles ! i) (chunk i es) \<and>
      pl_BeginHeight (piles ! i) = of_nat (i * unit_size) \<and> pl_GenHash (piles ! i) = pd_genHash db"
    and "length piles * unit_size \<le> length es" and "length es < (length piles + 1) * unit_size"
    and "pile_holds gz p (drop (length piles * unit_size) es @ [e])"
    and "pl_BeginHeight p = of_nat (length piles * unit_size)" and "pl_GenHash p = pd_genHash db"
  shows "db_holds gz (db\<lparr>pd_piles := piles @ [p]\<rparr>) (es @ [e])"
proof -
  have "chunk (length piles) (es @ [e]) = drop (length piles * unit_size) es @ [e]"
    using assms(3,4) by (subst chunk_snoc(1)) (simp_all add: chunk_def)
  moreover have "chunk i (es @ [e]) = chunk i es" if "i < length piles" for i
  proof (rule chunk_snoc(2))
    have "(i + 1) * unit_size \<le> length piles * unit_size" using that by (intro mult_right_mono) simp_all
    then show "(i + 1) * unit_size \<le> length es" using assms(3) by linarith
  qed
  ultimately show ?thesis
    using assms by (auto simp: db_holds_def nth_append less_Suc_eq)
qed

lemma db_AppendData_holds:
  assumes "db_holds gz db es" and "db_fits gz (es @ [(h, ds)])"
  shows "\<exists>db'. db_AppendData gz (of_nat (length es) + 1) h ds db = (Inr (), db') \<and> db_holds gz db' (es @ [(h, ds)])"
proof -
  let ?n = "length (pd_piles db)" and ?p = "last (pd_piles db)" and ?ps = "pd_piles db"
  note last = db_last[OF assms(1)]
  have bound: "length es + 1 + unit_size < 2 ^ 32" and ds: "length ds < 256"
    using assms(2) by (simp_all add: db_fits_def pile_entry_ok_def)
  have all: "is_hash (pd_genHash db)" "\<forall>i<?n. pile_holds gz (?ps ! i) (chunk i es) \<and>
      pl_BeginHeight (?ps ! i) = of_nat (i * unit_size) \<and> pl_GenHash (?ps ! i) = pd_genHash db"
    using assms(1) by (simp_all add: db_holds_def)
  have diff: "pl_HeadHeight ?p - pl_BeginHeight ?p = of_nat (length es - (?n - 1) * unit_size)"
    using last(3) by (simp only: last(6,8) of_nat_diff)
  have full: "ChunkUnit \<le> pl_HeadHeight ?p - pl_BeginHeight ?p \<longleftrightarrow> length es = ?n * unit_size"
  proof -
    have "unat (of_nat (length es - (?n - 1) * unit_size) :: u32) = length es - (?n - 1) * unit_size"
      using bound by (simp add: unat_of_nat del: of_nat_diff)
    moreover have "?n * unit_size = (?n - 1) * unit_size + unit_size" using last(2) by (cases ?n) simp_all
    ultimately show ?thesis unfolding diff using last(3,4) by (auto simp: word_le_nat_alt)
  qed
  have run: "\<exists>p'. pl_AppendData gz (of_nat (length es) + 1) h ds p = (Inr (), p') \<and> pile_holds gz p' (c @ [(h, ds)]) \<and>
      pl_BeginHeight p' = pl_BeginHeight p \<and> pl_GenHash p' = pl_GenHash p"
    if "pile_holds gz p c" "pl_BeginHeight p = of_nat (i * unit_size)" "chunk i (es @ [(h, ds)]) = c @ [(h, ds)]"
      "i * unit_size \<le> length es" "pl_HeadHeight p = of_nat (length es)" for p c i
  proof -
    have "pile_fits gz (pl_BeginHeight p) (c @ [(h, ds)])"
      using pile_fits_chunk[OF assms(2), of i] that by simp
    from pl_AppendData_holds[OF that(1) this] show ?thesis using that(5) by (simp del: write_all_simps)
  qed
  show ?thesis
  proof (cases "length es = ?n * unit_size")
    case False
    have cn: "chunk (?n - 1) (es @ [(h, ds)]) = chunk (?n - 1) es @ [(h, ds)]"
      using False last(2,3,4) by (intro chunk_snoc(1)) (cases ?n; simp)+
    obtain p' where p': "pl_AppendData gz (of_nat (length es) + 1) h ds ?p = (Inr (), p')"
      "pile_holds gz p' (chunk (?n - 1) es @ [(h, ds)])" "pl_BeginHeight p' = pl_BeginHeight ?p" "pl_GenHash p' = pl_GenHash ?p"
      using run[OF last(5,6) cn last(3,8)] by blast
    have drop: "chunk (?n - 1) es = drop ((?n - 1) * unit_size) es"
      using last(7) by (simp add: chunk_def)
    have "db_holds gz (db\<lparr>pd_piles := butlast ?ps @ [p']\<rparr>) (es @ [(h, ds)])"
      using all p' last drop False
      by (intro db_holds_append) (auto simp: nth_butlast, (cases ?n; simp)?)
    then show ?thesis using full False p'(1) last(2,8) ds by (auto simp: db_AppendData_def Let_def)
  next
    case True
    have small: "?n * unit_size + unit_size < 2 ^ 32" using bound True by simp
    have begn: "pl_BeginHeight ?p + ChunkUnit = of_nat (?n * unit_size)"
      using last(2) unfolding last(6) ChunkUnit_of_nat by (cases ?n) (simp_all add: algebra_simps)
    obtain v where v: "NewPile (pd_genHash db) (pl_BeginHeight ?p + ChunkUnit) = Inr v"
      "pl_BeginHeight v = of_nat (?n * unit_size)" "pl_GenHash v = pd_genHash db" "pile_holds gz v []"
      using NewPile_holds[OF all(1), of "of_nat (?n * unit_size)" gz] small of_nat_unit[of ?n] unfolding begn
      by (auto simp: unat_of_nat simp del: of_nat_mult)
    have cn: "chunk ?n (es @ [(h, ds)]) = [] @ [(h, ds)]" using True by (simp add: chunk_def)
    have head: "pl_HeadHeight v = of_nat (length es)" using v(2,4) True by (simp add: pile_holds_def)
    obtain p' where p': "pl_AppendData gz (of_nat (length es) + 1) h ds v = (Inr (), p')"
      "pile_holds gz p' ([] @ [(h, ds)])" "pl_BeginHeight p' = pl_BeginHeight v" "pl_GenHash p' = pl_GenHash v"
      using run[OF v(4,2) cn _ head] True by auto
    have "db_holds gz (db\<lparr>pd_piles := ?ps @ [p']\<rparr>) (es @ [(h, ds)])"
      using all p' v True by (intro db_holds_append) auto
    then show ?thesis using full True p'(1) v(1) last(2,8) ds by (auto simp: db_AppendData_def Let_def)
  qed
qed

lemma db_AppendData_refuses:
  assumes "db_holds gz db es" and "length ds < 256" and "H \<noteq> of_nat (length es) + 1"
  shows "db_AppendData gz H h ds db = (Inl (PileErr ErrInvalidAppendHeight), db)"
  using assms(2,3) db_last[OF assms(1)] by (auto simp: db_AppendData_def Let_def)

lemma db_reads:
  assumes "db_holds gz db es" and "length es + unit_size < 2 ^ 32" and "\<And>d. unz (gz d) = Inr d"
    and i: "i < length es" "es ! i = (h, ds)" "length ds < 64"
  shows "db_GetHash (of_nat (Suc i)) db = Inr h"
    and "db_GetData unz (of_nat (Suc i)) k db =
      (if k < length ds then Inr (ds ! k) else Inl (PileErr ErrInvalidDataIndex))"
    and "db_GetDatas unz (of_nat (Suc i)) start count db =
      (if start + count \<le> length ds then Inr (concat (map ((!) ds) [start..<start + count]))
       else Inl (PileErr ErrInvalidDataIndex))"
proof -
  obtain p where p: "db_pile (of_nat (Suc i)) db = Inr p" "pile_holds gz p (chunk (i div unit_size) es)"
    "(of_nat (Suc i) :: u32) = pl_BeginHeight p + of_nat (Suc (i mod unit_size))"
    using db_pile_at[OF assms(1) i(1)] assms(2) by auto
  have at: "chunk (i div unit_size) es ! (i mod unit_size) = (h, ds)"
    using chunk_nth(1)[OF i(1)] i(2) by simp
  have "(of_nat (Suc i) :: u32) \<noteq> 0"
    using i(1) assms(2) unat_of_nat[where 'a = 32, of "Suc i"] by (auto simp: unat_eq_0[symmetric] simp del: of_nat_Suc)
  then show "db_GetHash (of_nat (Suc i)) db = Inr h"
    and "db_GetData unz (of_nat (Suc i)) k db =
      (if k < length ds then Inr (ds ! k) else Inl (PileErr ErrInvalidDataIndex))"
    and "db_GetDatas unz (of_nat (Suc i)) start count db =
      (if start + count \<le> length ds then Inr (concat (map ((!) ds) [start..<start + count]))
       else Inl (PileErr ErrInvalidDataIndex))"
    using p(1) pl_GetHash_at[OF p(2) chunk_nth(2)[OF i(1)] at p(3)]
      pl_GetData_at[OF p(2) chunk_nth(2)[OF i(1)] at p(3) i(3) assms(3)]
      pl_GetDatas_at[OF p(2) chunk_nth(2)[OF i(1)] at p(3) i(3) assms(3)]
    by (simp_all add: db_GetHash_def db_GetData_def db_GetDatas_def del: of_nat_Suc)
qed

lemma db_Init_holds:
  assumes "is_hash gen"
  shows "\<exists>db. db_Init gen \<lparr>pd_piles = [], pd_genHash = g\<rparr> = (Inr (), db) \<and> db_holds gz db []"
  using NewPile_holds[OF assms, of 0 gz] assms by (auto simp: db_Init_def db_holds_def chunk_def)

lemma pile_heights:
  assumes "db_holds gz db es" and "length es + unit_size < 2 ^ 32" and "p \<in> set (pd_piles db)"
  shows "pl_HeadHeight p \<le> pl_HeadHeight (last (pd_piles db))"
proof -
  note last = db_last[OF assms(1)]
  obtain i where i: "i < length (pd_piles db)" "p = pd_piles db ! i" using assms(3) by (metis in_set_conv_nth)
  then have h: "pile_holds gz p (chunk i es)" "pl_BeginHeight p = of_nat (i * unit_size)"
    using assms(1) by (auto simp: db_holds_def)
  have "i * unit_size \<le> (length (pd_piles db) - 1) * unit_size" using i(1) by (intro mult_right_mono) simp_all
  then have "i * unit_size + length (chunk i es) \<le> length es" using last(3) by (simp add: chunk_def)
  moreover have "pl_HeadHeight p = of_nat (i * unit_size + length (chunk i es))" using h by (simp add: pile_holds_def)
  ultimately show ?thesis unfolding last(8) using assms(2) by (simp add: word_le_nat_alt unat_of_nat del: of_nat_add)
qed


text \<open>The hash of an entry is read without its size table, so for any number of data.\<close>

lemma db_reads_hash:
  assumes "db_holds gz db es" and "length es + unit_size < 2 ^ 32" and i: "i < length es" "es ! i = (h, ds)"
  shows "db_GetHash (of_nat (Suc i)) db = Inr h"
proof -
  obtain p where p: "db_pile (of_nat (Suc i)) db = Inr p" "pile_holds gz p (chunk (i div unit_size) es)"
    "(of_nat (Suc i) :: u32) = pl_BeginHeight p + of_nat (Suc (i mod unit_size))"
    using db_pile_at[OF assms(1) i(1)] assms(2) by auto
  have "(of_nat (Suc i) :: u32) \<noteq> 0"
    using i(1) assms(2) unat_of_nat[where 'a = 32, of "Suc i"] by (auto simp: unat_eq_0[symmetric] simp del: of_nat_Suc)
  then show ?thesis
    using p(1) pl_GetHash_at[OF p(2) chunk_nth(2)[OF i(1)] _ p(3)] chunk_nth(1)[OF i(1)] i(2)
    by (simp add: db_GetHash_def del: of_nat_Suc)
qed

text \<open>No data at height 0 and above the last entry.\<close>

lemma db_reads_outside:
  assumes "db_holds gz db es" and "length es + unit_size < 2 ^ 32" and "H = 0 \<or> length es < unat H"
  shows "db_GetData unz H k db = Inl (PileErr ErrInvalidHeight_pile)"
    and "db_GetDatas unz H start count db = Inl (PileErr ErrInvalidHeight_pile)"
proof -
  have "pl_HeadHeight p < H" if "H \<noteq> 0" "db_pile H db = Inr p" for p
  proof -
    have "p \<in> set (pd_piles db)" using that(2) by (auto simp: db_pile_def Let_def split: if_splits)
    from pile_heights[OF assms(1,2) this] have "pl_HeadHeight p \<le> of_nat (length es)" unfolding db_last(8)[OF assms(1)] .
    moreover have "unat (of_nat (length es) :: u32) = length es" using assms(2) by (simp add: unat_of_nat)
    ultimately show ?thesis using assms(3) that(1) by (auto simp: word_le_nat_alt word_less_nat_alt)
  qed
  then have "read_sizes out H p = Inl (PileErr ErrInvalidHeight_pile)" if "H \<noteq> 0" "db_pile H db = Inr p" for p out
    using that by (simp add: read_sizes_def Let_def)
  moreover have "db_pile H db = Inl (PileErr ErrInvalidHeight_pile) \<or> (\<exists>p. db_pile H db = Inr p)"
    by (simp add: db_pile_def Let_def)
  ultimately show "db_GetData unz H k db = Inl (PileErr ErrInvalidHeight_pile)"
    and "db_GetDatas unz H start count db = Inl (PileErr ErrInvalidHeight_pile)"
    by (auto simp: db_GetData_def db_GetDatas_def pl_GetData_def pl_GetDatas_def)
qed

text \<open>
  C23: the database stores what it is given. On a database that holds \<open>es\<close>, appending at the next height succeeds
  and leaves a database that holds \<open>es\<close> and the new entry, also when it has to open a new pile; appending at any
  other height fails and changes nothing. From a database that holds \<open>es\<close> the readers return the hash of every height, and
  each datum and each range of data of an entry with fewer than 64 data (the size table of a larger one is measured in
  a byte that overflows); data beyond those of the entry are refused with \<^verbatim>\<open>ErrInvalidDataIndex\<close>, data at height 0 and above
  the last entry with \<^verbatim>\<open>ErrInvalidHeight\<close>.
\<close>

theorem pile_db_stores:
  assumes "db_holds gz db es" and "db_fits gz (es @ [(h, ds)])" and "\<And>d. unz (gz d) = Inr d"
  shows "(\<exists>db'. db_AppendData gz (of_nat (length es) + 1) h ds db = (Inr (), db') \<and> db_holds gz db' (es @ [(h, ds)])) \<and>
    (\<forall>H. H \<noteq> of_nat (length es) + 1 \<longrightarrow> db_AppendData gz H h ds db = (Inl (PileErr ErrInvalidAppendHeight), db)) \<and>
    (\<forall>i<length es. db_GetHash (of_nat (Suc i)) db = Inr (fst (es ! i))) \<and>
    (\<forall>i hi dsi. i < length es \<longrightarrow> es ! i = (hi, dsi) \<longrightarrow> length dsi < 64 \<longrightarrow>
      (\<forall>k. db_GetData unz (of_nat (Suc i)) k db =
        (if k < length dsi then Inr (dsi ! k) else Inl (PileErr ErrInvalidDataIndex))) \<and>
      (\<forall>start count. db_GetDatas unz (of_nat (Suc i)) start count db =
        (if start + count \<le> length dsi then Inr (concat (map ((!) dsi) [start..<start + count]))
         else Inl (PileErr ErrInvalidDataIndex)))) \<and>
    (\<forall>H. H = 0 \<or> length es < unat H \<longrightarrow>
      (\<forall>k. db_GetData unz H k db = Inl (PileErr ErrInvalidHeight_pile)) \<and>
      (\<forall>start count. db_GetDatas unz H start count db = Inl (PileErr ErrInvalidHeight_pile)))"
proof -
  have lim: "length es + unit_size < 2 ^ 32" using assms(2) by (simp add: db_fits_def)
  have "db_GetHash (of_nat (Suc i)) db = Inr (fst (es ! i))" if "i < length es" for i
    by (rule db_reads_hash[OF assms(1) lim that surjective_pairing])
  moreover have "length ds < 256" using assms(2) by (simp add: db_fits_def pile_entry_ok_def)
  ultimately show ?thesis
    using db_AppendData_holds[OF assms(1,2)] db_AppendData_refuses[OF assms(1)] db_reads(2,3)[OF assms(1) lim assms(3)]
      db_reads_outside[OF assms(1) lim] by blast
qed

definition sample_db :: pile_db where
  "sample_db = snd (db_Init (zeros 32) \<lparr>pd_piles = [], pd_genHash = zeros 32\<rparr>)"

theorem pile_db_stores_witness:
  "(\<exists>db'. db_AppendData (\<lambda>d. d) 1 (zeros 32) [[1], [2, 3]] sample_db = (Inr (), db') \<and>
      db_holds (\<lambda>d. d) db' [(zeros 32, [[1], [2, 3]])]) \<and>
   db_AppendData (\<lambda>d. d) 2 (zeros 32) [[1], [2, 3]] sample_db = (Inl (PileErr ErrInvalidAppendHeight), sample_db)"
proof -
  have new: "db_holds (\<lambda>d. d) sample_db []"
    using db_Init_holds[of "zeros 32" "zeros 32" "\<lambda>d. d"] by (auto simp: sample_db_def)
  have "db_fits (\<lambda>d. d) ([] @ [(zeros 32, [[1], [2, 3]])])"
    by (simp add: db_fits_def pile_entry_ok_def end_offset_def entry_bytes_def is_hash_def Hash256Size_def)
  from pile_db_stores[OF new this, of "\<lambda>d. Inr d"] show ?thesis by simp
qed

section \<open>Opening the files again\<close>

lemma LoadPile_same:
  assumes "pile_holds gz p es"
  shows "LoadPile (pl_file p) = Inr p"
proof -
  let ?H = "pl_HeadHeight p"
  have r: "repair_head ?H ?H ?H (pl_file p) = Inr (pl_BeginHeight p + of_nat (length es), pl_file p)"
    using assms by (simp add: repair_head_def pile_holds_def)
  from LoadPile_holds[OF _ _ _ r, of gz "pl_GenHash p"] assms
  obtain q where q: "LoadPile (pl_file p) = Inr q" "pl_BeginHeight q = pl_BeginHeight p" "pl_GenHash q = pl_GenHash p"
    "pile_holds gz q es" "pl_file q = pl_file p" by (auto simp: pile_holds_def)
  then have "pl_HeadHeight q = ?H" using assms by (simp add: pile_holds_def)
  then show ?thesis using q by (cases p, cases q) simp
qed

lemma fold_upd_unique:
  assumes "\<forall>p\<in>set ps. f p = k \<longrightarrow> p = q"
  shows "fold (\<lambda>p m. m(f p \<mapsto> p)) ps m k = (if q \<in> set ps \<and> f q = k then Some q else m k)"
  using assms
proof (induction ps arbitrary: m)
  case (Cons p ps)
  have IH: "fold (\<lambda>p m. m(f p \<mapsto> p)) ps (m(f p \<mapsto> p)) k =
      (if q \<in> set ps \<and> f q = k then Some q else (m(f p \<mapsto> p)) k)"
    by (rule Cons.IH) (simp add: Cons.prems)
  have p: "f p = k \<Longrightarrow> p = q" using Cons.prems by simp
  show ?case unfolding fold_simps IH using p by (cases "f p = k"; cases "q = p") simp_all
qed simp

lemma fold_max_word:
  fixes f :: "'a \<Rightarrow> u32"
  assumes "\<forall>p\<in>set ps. f p \<le> f q" and "q \<in> set ps" and "a \<le> f q"
  shows "fold (\<lambda>p m. if m < f p then f p else m) ps a = f q"
proof -
  have id: "fold (\<lambda>p m. if m < f p then f p else m) xs c = c" if "\<forall>p\<in>set xs. f p \<le> c" for xs c
    using that by (induction xs) auto
  show ?thesis using assms
  proof (induction ps arbitrary: a)
    case (Cons p ps)
    show ?case
    proof (cases "q \<in> set ps")
      case True
      then show ?thesis using Cons.IH[of "if a < f p then f p else a"] Cons.prems by auto
    next
      case False
      then have "p = q" using Cons.prems(2) by simp
      then show ?thesis using id[of ps "f q"] Cons.prems by auto
    qed
  qed simp
qed

lemma mapR_Inl: "(\<And>x. x \<in> set xs \<Longrightarrow> f x = Inr (g x)) \<Longrightarrow> f y = Inl e \<Longrightarrow> mapR f (xs @ y # ys) = Inl e"
  by (induction xs) auto

lemma pile_count:
  assumes "db_holds gz db es"
  defines "n \<equiv> length (pd_piles db)"
  shows "es = [] \<Longrightarrow> n = 1"
    and "length es mod unit_size \<noteq> 0 \<Longrightarrow> length es div unit_size + 1 = n"
    and "es \<noteq> [] \<Longrightarrow> length es mod unit_size = 0 \<Longrightarrow> length es div unit_size = n"
proof -
  have n: "0 < n" "length es \<le> n * unit_size" "n = 1 \<or> (n - 1) * unit_size < length es"
    using assms(1) by (auto simp: db_holds_def n_def)
  show "es = [] \<Longrightarrow> n = 1" using n(3) by auto
  show "length es div unit_size + 1 = n" if m: "length es mod unit_size \<noteq> 0"
  proof -
    have "(n - 1) * unit_size \<le> length es" using n(3) by auto
    moreover have "length es < (n - 1 + 1) * unit_size" using n m by (cases "length es = n * unit_size") auto
    ultimately have "length es div unit_size = n - 1"
      by (intro div_nat_eqI) (simp_all add: algebra_simps)
    then show ?thesis using n(1) by simp
  qed
  show "length es div unit_size = n" if e: "es \<noteq> []" "length es mod unit_size = 0"
  proof -
    define q where "q = length es div unit_size"
    then have q: "length es = q * unit_size" using e(2) by (simp add: dvd_eq_mod_eq_0[symmetric])
    with e(1) have "0 < q" by (cases q) auto
    with n q have "q \<le> n" "n - 1 < q \<or> n = 1" by auto
    with \<open>0 < q\<close> n(1) have "q = n" by auto
    then show ?thesis using q by simp
  qed
qed

lemma pile_lookup:
  assumes "db_holds gz db es" and "length es + unit_size < 2 ^ 32" and "set ps = set (pd_piles db)"
    and "i \<le> length (pd_piles db)"
  shows "fold (\<lambda>p m. m(pl_BeginHeight p \<mapsto> p)) ps Map.empty (of_nat i * ChunkUnit) =
    (if i < length (pd_piles db) then Some (pd_piles db ! i) else None)"
proof -
  let ?n = "length (pd_piles db)"
  have small: "j * unit_size < 2 ^ 32" if "j \<le> ?n" for j
  proof -
    have "j * unit_size \<le> ?n * unit_size" using that by (intro mult_right_mono) simp_all
    moreover have "?n * unit_size \<le> (?n - 1) * unit_size + unit_size" by (cases ?n) simp_all
    ultimately show ?thesis using db_last(3)[OF assms(1)] assms(2) by linarith
  qed
  have inj: "j = i" if "j \<le> ?n" "(of_nat (j * unit_size) :: u32) = of_nat (i * unit_size)" for j
    using arg_cong[OF that(2), of unat] small[OF that(1)] small[OF assms(4)]
    by (simp add: unat_of_nat del: of_nat_mult)
  have key: "pl_BeginHeight (pd_piles db ! j) = of_nat (j * unit_size)" if "j < ?n" for j
    using assms(1) that by (simp add: db_holds_def)
  have k: "of_nat i * ChunkUnit = of_nat (i * unit_size)" by (simp add: ChunkUnit_of_nat)
  have "\<forall>p\<in>set ps. pl_BeginHeight p = of_nat (i * unit_size) \<longrightarrow> p = pd_piles db ! i"
    unfolding assms(3) using inj key by (metis in_set_conv_nth less_or_eq_imp_le)
  from fold_upd_unique[OF this, of Map.empty]
  have "fold (\<lambda>p m. m(pl_BeginHeight p \<mapsto> p)) ps Map.empty (of_nat (i * unit_size)) =
    (if pd_piles db ! i \<in> set (pd_piles db) \<and> pl_BeginHeight (pd_piles db ! i) = of_nat (i * unit_size)
     then Some (pd_piles db ! i) else None)" unfolding assms(3) .
  moreover have "pd_piles db ! i \<in> set (pd_piles db) \<and> pl_BeginHeight (pd_piles db ! i) = of_nat (i * unit_size) \<longleftrightarrow> i < ?n"
    using inj key by (metis in_set_conv_nth less_or_eq_imp_le nth_mem)
  ultimately show ?thesis unfolding k by presburger
qed

lemma db_Open_holds:
  assumes "db_holds gz db es" and "length es + unit_size < 2 ^ 32" and "set files = pl_file ` set (pd_piles db)"
  shows "db_Open files =
    (if es = [] then Inr \<lparr>pd_piles = [], pd_genHash = EmptyHash\<rparr>
     else if length es mod unit_size = 0 then Inl (PileErr ErrMissingPile)
     else Inr db)"
proof -
  let ?n = "length (pd_piles db)" and ?Q = "pd_piles db"
  let ?ps = "map (projr \<circ> LoadPile) files"
  have same: "LoadPile (pl_file p) = Inr p" if "p \<in> set ?Q" for p
    using assms(1) that by (auto simp: db_holds_def in_set_conv_nth intro: LoadPile_same)
  then have "LoadPile f = Inr ((projr \<circ> LoadPile) f)" if "f \<in> set files" for f
    using that assms(3) by auto
  then have load: "mapR LoadPile files = Inr ?ps" by (rule mapR_Inr)
  have ps: "set ?ps = set ?Q" using same assms(3) by force
  have lastQ: "last ?Q \<in> set ?Q" using db_last(2)[OF assms(1)] by simp
  have max: "fold (\<lambda>p m. if m < pl_HeadHeight p then pl_HeadHeight p else m) ?ps 0 = of_nat (length es)"
    using fold_max_word[of ?ps pl_HeadHeight "last ?Q" 0] pile_heights[OF assms(1,2)] lastQ
    unfolding ps db_last(8)[OF assms(1), symmetric] by simp
  have len: "unat (of_nat (length es) :: u32) = length es" using assms(2) by (simp add: unat_of_nat)
  then have zero: "0 < (of_nat (length es) :: u32) \<longleftrightarrow> es \<noteq> []" by (auto simp: word_less_nat_alt)
  have "length es div unit_size + 1 < 2 ^ 32" using assms(2) div_le_dividend[of "length es" unit_size] by linarith
  then have count: "unat ((of_nat (length es) :: u32) div ChunkUnit + 1) = length es div unit_size + 1"
    by (simp add: unat_plus_if' unat_div len)
  let ?f = "\<lambda>i. case fold (\<lambda>p m. m(pl_BeginHeight p \<mapsto> p)) ?ps Map.empty (of_nat i * ChunkUnit) of
      None \<Rightarrow> Inl (PileErr ErrMissingPile) | Some p \<Rightarrow> Inr p"
  note look = pile_lookup[OF assms(1,2) ps]
  have found: "mapR ?f [0..<?n] = Inr ?Q"
    using mapR_Inr[of "[0..<?n]" ?f "(!) ?Q"] look by (simp add: map_nth)
  have missing: "mapR ?f ([0..<?n] @ [?n]) = Inl (PileErr ErrMissingPile)"
    using look by (intro mapR_Inl[where g = "(!) ?Q"]) simp_all
  have gen: "(case ?Q of [] \<Rightarrow> EmptyHash | p # _ \<Rightarrow> pl_GenHash p) = pd_genHash db"
    using assms(1) by (cases ?Q) (auto simp: db_holds_def)
  have piles: "mapR ?f [0..<length es div unit_size + 1] =
      (if length es mod unit_size = 0 then Inl (PileErr ErrMissingPile) else Inr ?Q)" if "es \<noteq> []"
    using pile_count(2,3)[OF assms(1)] that found missing by (cases "length es mod unit_size = 0") auto
  show ?thesis
    using piles gen zero count by (simp add: db_Open_def load max Let_def del: upt_Suc)
qed

text \<open>
  C24: opening the files of a database. In whatever order the directory lists them, \<^verbatim>\<open>Open\<close> restores the
  database, with two exceptions. The pile of a chain with no block is forgotten, to be created again by
  \<^verbatim>\<open>Init\<close>; and when the last pile is exactly full, \<^verbatim>\<open>Open\<close> asks for the next pile, which \<^verbatim>\<open>AppendData\<close> creates only
  with the next block, and fails.
\<close>

theorem pile_db_reopen:
  assumes "db_holds gz db es" and "length es + unit_size < 2 ^ 32" and "set files = pl_file ` set (pd_piles db)"
  shows "db_Open files =
    (if es = [] then Inr \<lparr>pd_piles = [], pd_genHash = EmptyHash\<rparr>
     else if length es mod unit_size = 0 then Inl (PileErr ErrMissingPile)
     else Inr db)"
  by (rule db_Open_holds[OF assms])

definition sample_stored_db :: pile_db where
  "sample_stored_db = snd (db_AppendData (\<lambda>d. d) 1 (zeros 32) [[1], [2, 3]] sample_db)"

theorem pile_db_reopen_witness:
  "db_Open (map pl_file (pd_piles sample_stored_db)) = Inr sample_stored_db"
proof -
  have new: "db_holds (\<lambda>d. d) sample_db []"
    using db_Init_holds[of "zeros 32" "zeros 32" "\<lambda>d. d"] by (auto simp: sample_db_def)
  have "db_fits (\<lambda>d. d) ([] @ [(zeros 32, [[1], [2, 3]])])"
    by (simp add: db_fits_def pile_entry_ok_def end_offset_def entry_bytes_def is_hash_def Hash256Size_def)
  from db_AppendData_holds[OF new this] have "db_holds (\<lambda>d. d) sample_stored_db [(zeros 32, [[1], [2, 3]])]"
    by (auto simp: sample_stored_db_def)
  from pile_db_reopen[OF this, of "map pl_file (pd_piles sample_stored_db)"] show ?thesis by simp
qed

end
