(* ===== verification/Store.thy ===== *)
theory Store
  imports Pile_DB Block Map_Codecs Context
begin

text \<open>
  \<^verbatim>\<open>core/chain/store.go\<close> and \<^verbatim>\<open>util_key.go\<close>: the state of the chain on disk. Account, output and process data are
  in a key-value database, blocks in piles, and the keys of recent transactions in memory.

  The database behind \<^verbatim>\<open>core/backend\<close> is third-party code: it is a record of functions, and \<open>backend_ok\<close>
  states what the store relies on. The serialisation of headers, transactions, accounts, outputs and events and
  the compression of the piles are parameters as well; all of them are the fields of \<open>store_env\<close>. The
  background goroutine of \<^verbatim>\<open>NewStore\<close> that shrinks the database does not change its content.
\<close>

section \<open>Keys\<close>

definition tagHeight :: bytes where "tagHeight = [1, 0]"
definition tagHeightHash :: bytes where "tagHeightHash = [1, 1]"
definition tagAccount :: bytes where "tagAccount = [2, 0]"
definition tagAccountName :: bytes where "tagAccountName = [2, 1]"
definition tagAccountData :: bytes where "tagAccountData = [2, 3]"
definition tagUTXO :: bytes where "tagUTXO = [3, 0]"
definition tagProcessData :: bytes where "tagProcessData = [4, 0]"

definition toHeightHashKey :: "u32 \<Rightarrow> bytes" where
  "toHeightHashKey height = tagHeightHash @ BE_Uint32ToBytes height"

definition toAccountKey :: "address \<Rightarrow> bytes" where
  "toAccountKey addr = tagAccount @ addr"

definition toAccountNameKey :: "string \<Rightarrow> bytes" where
  "toAccountNameKey Name = tagAccountName @ str_bytes Name"

definition toAccountDataKey :: "bytes \<Rightarrow> bytes" where
  "toAccountDataKey key = tagAccountData @ key"

definition toUTXOKey :: "u64 \<Rightarrow> bytes" where
  "toUTXOKey i = tagUTXO @ BE_Uint64ToBytes i"

definition fromUTXOKey :: "bytes \<Rightarrow> err + u64" where
  "fromUTXOKey bs = orPanic (BE_Uint64 (drop 2 bs))"

definition toProcessDataKey :: "bytes \<Rightarrow> bytes" where
  "toProcessDataKey key = tagProcessData @ key"

section \<open>The environment\<close>

record 'db store_backend =
  sb_Get :: "bytes \<Rightarrow> 'db \<Rightarrow> err + bytes"
  sb_Iterate :: "bytes \<Rightarrow> 'db \<Rightarrow> err + (bytes \<times> bytes) list"
  sb_Set :: "bytes \<Rightarrow> bytes \<Rightarrow> ('db, unit) go_meth"
  sb_Delete :: "bytes \<Rightarrow> ('db, unit) go_meth"

record ('db, 'tx) store_env =
  se_backend :: "'db store_backend"
  se_mp :: msgpack
  se_encHeader :: "header \<Rightarrow> bytes"
  se_decHeader :: "header decoder"
  se_hashHeader :: "header \<Rightarrow> hash256"
  se_encTx :: "'tx \<Rightarrow> bytes"
  se_createTx :: "u16 \<Rightarrow> err + 'tx decoder"
  se_timestamp :: "'tx \<Rightarrow> u64"
  se_hashTx :: "u8 \<Rightarrow> u16 \<Rightarrow> 'tx \<Rightarrow> hash256"
  se_gzip :: "bytes \<Rightarrow> bytes"
  se_gunzip :: "bytes \<Rightarrow> err + bytes"
  se_typeAccount :: "account \<Rightarrow> err + u16"
  se_encAccount :: "account \<Rightarrow> bytes"
  se_createAccount :: "u16 \<Rightarrow> err + account decoder"
  se_encTxOut :: "txout \<Rightarrow> bytes"
  se_decTxOut :: "txout decoder"
  se_typeEvent :: "event \<Rightarrow> err + u16"
  se_encEvent :: "event \<Rightarrow> bytes"
  se_createEvent :: "u16 \<Rightarrow> err + event decoder"
  se_decBase58 :: "string \<Rightarrow> bytes option"

text \<open>\<^verbatim>\<open>encoding.Unmarshal\<close> decodes one value and ignores what follows it.\<close>

definition unmarshal :: "'a decoder \<Rightarrow> bytes \<Rightarrow> err + 'a" where
  "unmarshal dec bs = fst (dec bs)"

text \<open>An update runs in one transaction: an error leaves the database as it was.\<close>

definition db_Update :: "('db, 'a) go_meth \<Rightarrow> ('db, 'a) go_meth" where
  "db_Update fn db = (case fn db of (Inl e, _) \<Rightarrow> (Inl e, db) | (Inr x, db') \<Rightarrow> (Inr x, db'))"

section \<open>The store\<close>

record 'tx storecache =
  ch_cached :: bool
  ch_height :: u32
  ch_heightHash :: hash256
  ch_heightBlock :: "'tx block option"

record ('db, 'tx) store =
  st_db :: 'db
  st_cdb :: pile_db
  st_chainID :: u8
  st_symbol :: string
  st_usage :: string
  st_magicNumber :: u64
  st_version :: u16
  st_cache :: "'tx storecache"
  st_isClose :: bool
  st_timeSlotMap :: "(u32, (string, bool) omap) omap"

definition isCapitalAndNumber :: "string \<Rightarrow> bool" where
  "isCapitalAndNumber Name = list_all (\<lambda>c. \<not> ((c < CHR ''0'' \<or> CHR ''9'' < c) \<and> (c < CHR ''A'' \<or> CHR ''Z'' < c))) Name"

definition isAlphabetAndNumber :: "string \<Rightarrow> bool" where
  "isAlphabetAndNumber Name =
     list_all (\<lambda>c. \<not> ((c < CHR ''0'' \<or> CHR ''9'' < c) \<and> (c < CHR ''a'' \<or> CHR ''z'' < c) \<and> (c < CHR ''A'' \<or> CHR ''Z'' < c))) Name"

text \<open>The mask: the hash of the names, folded two bytes at a time into the base.\<close>

fun fold_pairs :: "bytes \<Rightarrow> u8 \<times> u8 \<Rightarrow> u8 \<times> u8" where
  "fold_pairs (x # y # ls) (b0, b1) = fold_pairs ls (b0 XOR x, b1 XOR y)"
| "fold_pairs [x] (b0, b1) = (b0 XOR x, b1 XOR 0)"
| "fold_pairs [] b = b"

definition setupMagicNumber :: "('db, 'tx) store \<Rightarrow> err + ('db, 'tx) store" where
  "setupMagicNumber st =
     (if length (st_symbol st) < 3 then Inl Panic
      else if 5 < length (st_symbol st) then Inl Panic
      else if \<not> isCapitalAndNumber (st_symbol st) then Inl Panic
      else if length (st_usage st) < 4 then Inl Panic
      else if 16 < length (st_usage st) then Inl Panic
      else if \<not> isAlphabetAndNumber (st_usage st) then Inl Panic
      else
        let ls = Hash (str_bytes (st_symbol st @ ''@'' @ st_usage st @ ''@'' @ ''PoweredByFLETABlockchain''));
            base = fold_pairs ls (243, 133);
            tbs = (if fst base \<noteq> 0 \<or> snd base \<noteq> 0 then go_copy (zeros 6) (str_bytes (st_symbol st)) else zeros 6);
            tbs = xor_pairs (fst base) (snd base) tbs
        in case BE_Uint64 ([fst base, snd base] @ tbs) of
             None \<Rightarrow> Inl Panic
           | Some v \<Rightarrow> Inr (st\<lparr>st_magicNumber := v\<rparr>))"

definition NewStore ::
  "'db \<Rightarrow> pile_db \<Rightarrow> u8 \<Rightarrow> string \<Rightarrow> string \<Rightarrow> u16 \<Rightarrow> err + ('db, 'tx) store" where
  "NewStore db cdb ChainID symbol usage version =
     setupMagicNumber
       \<lparr>st_db = db, st_cdb = cdb, st_chainID = ChainID, st_symbol = symbol, st_usage = usage, st_magicNumber = 0,
        st_version = version,
        st_cache = \<lparr>ch_cached = False, ch_height = 0, ch_heightHash = EmptyHash, ch_heightBlock = None\<rparr>,
        st_isClose = False, st_timeSlotMap = []\<rparr>"

definition st_NewAddress :: "u32 \<Rightarrow> u16 \<Rightarrow> ('db, 'tx) store \<Rightarrow> address" where
  "st_NewAddress height index st = NewAddress height index (st_magicNumber st)"

definition st_Name :: "('db, 'tx) store \<Rightarrow> string" where
  "st_Name st = st_symbol st @ '' '' @ st_usage st"

section \<open>Reading blocks\<close>

definition st_Height :: "('db, 'tx) store_env \<Rightarrow> ('db, 'tx) store \<Rightarrow> u32" where
  "st_Height E st =
     (if st_isClose st then 0
      else if ch_cached (st_cache st) then ch_height (st_cache st)
      else case sb_Get (se_backend E) tagHeight (st_db st) of
        Inl e \<Rightarrow> 0
      | Inr value \<Rightarrow> the (LE_Uint32 value))"

definition st_TargetHeight :: "('db, 'tx) store_env \<Rightarrow> ('db, 'tx) store \<Rightarrow> u32" where
  "st_TargetHeight E st = st_Height E st + 1"

text \<open>\<^verbatim>\<open>if err == pile.ErrInvalidHeight { return backend.ErrNotExistKey }\<close>.\<close>

definition pile_result :: "err + 'a \<Rightarrow> err + 'a" where
  "pile_result r = (case r of Inl e \<Rightarrow> if e = PileErr ErrInvalidHeight_pile then Inl ErrNotExistKey else Inl e | Inr x \<Rightarrow> Inr x)"

definition st_Hash :: "u32 \<Rightarrow> ('db, 'tx) store \<Rightarrow> err + hash256" where
  "st_Hash height st =
     (if st_isClose st then Inl (ChainErr ErrStoreClosed)
      else if ch_cached (st_cache st) \<and> ch_height (st_cache st) = height then Inr (ch_heightHash (st_cache st))
      else pile_result (db_GetHash height (st_cdb st)))"

definition st_Header :: "('db, 'tx) store_env \<Rightarrow> u32 \<Rightarrow> ('db, 'tx) store \<Rightarrow> err + header" where
  "st_Header E height st =
     (if st_isClose st then Inl (ChainErr ErrStoreClosed)
      else if height < 1 then Inl ErrNotExistKey
      else if ch_cached (st_cache st) \<and> ch_height (st_cache st) = height
      then (case ch_heightBlock (st_cache st) of None \<Rightarrow> Inl Panic | Some b \<Rightarrow> Inr (b_Header b))
      else case pile_result (db_GetData (se_gunzip E) height 0 (st_cdb st)) of
        Inl e \<Rightarrow> Inl e
      | Inr value \<Rightarrow> unmarshal (se_decHeader E) value)"

definition st_Block :: "('db, 'tx) store_env \<Rightarrow> u32 \<Rightarrow> ('db, 'tx) store \<Rightarrow> err + 'tx block" where
  "st_Block E height st =
     (if st_isClose st then Inl (ChainErr ErrStoreClosed)
      else if height < 1 then Inl ErrNotExistKey
      else if ch_cached (st_cache st) \<and> ch_height (st_cache st) = height
      then (case ch_heightBlock (st_cache st) of None \<Rightarrow> Inl Panic | Some b \<Rightarrow> Inr b)
      else case pile_result (db_GetDatas (se_gunzip E) height 0 2 (st_cdb st)) of
        Inl e \<Rightarrow> Inl e
      | Inr value \<Rightarrow> unmarshal (block_decode (se_mp E) (se_decHeader E) (se_createTx E)) value)"

definition st_LastStatus :: "('db, 'tx) store_env \<Rightarrow> ('db, 'tx) store \<Rightarrow> err + u32 \<times> hash256" where
  "st_LastStatus E st =
     (let height = st_Height E st
      in case st_Hash height st of Inl e \<Rightarrow> Inl Panic | Inr h \<Rightarrow> Inr (height, h))"

definition st_LastHash :: "('db, 'tx) store_env \<Rightarrow> ('db, 'tx) store \<Rightarrow> err + hash256" where
  "st_LastHash E st =
     (case st_Hash (st_Height E st) st of
        Inl e \<Rightarrow> if e \<noteq> ChainErr ErrStoreClosed then Inl Panic else Inr EmptyHash
      | Inr h \<Rightarrow> Inr h)"

definition st_LastTimestamp :: "('db, 'tx) store_env \<Rightarrow> ('db, 'tx) store \<Rightarrow> err + u64" where
  "st_LastTimestamp E st =
     (let height = st_Height E st
      in if height = 0 then Inr 0
         else if ch_cached (st_cache st) \<and> ch_height (st_cache st) = height
         then (case ch_heightBlock (st_cache st) of None \<Rightarrow> Inl Panic | Some b \<Rightarrow> Inr (bh_Timestamp (b_Header b)))
         else case st_Header E height st of
           Inl e \<Rightarrow> if e \<noteq> ChainErr ErrStoreClosed then Inl Panic else Inr 0
         | Inr bh \<Rightarrow> Inr (bh_Timestamp bh))"

section \<open>Reading the state\<close>

definition is_deleted :: "bytes \<Rightarrow> bool" where
  "is_deleted value \<longleftrightarrow> length value = 1 \<and> value ! 0 = 0"

definition read_account :: "('db, 'tx) store_env \<Rightarrow> bytes \<Rightarrow> err + account" where
  "read_account E value =
     (case orPanic (LE_Uint16 value) of Inl e \<Rightarrow> Inl e
      | Inr t \<Rightarrow> (case se_createAccount E t of Inl e \<Rightarrow> Inl e | Inr dec \<Rightarrow> unmarshal dec (drop 2 value)))"

text \<open>\<^verbatim>\<open>if err == backend.ErrNotExistKey { return miss }\<close>.\<close>

definition on_missing :: "err + 'a \<Rightarrow> err + 'a \<Rightarrow> err + 'a" where
  "on_missing miss r = (case r of Inl e \<Rightarrow> if e = ErrNotExistKey then miss else Inl e | Inr x \<Rightarrow> Inr x)"

definition st_Account :: "('db, 'tx) store_env \<Rightarrow> address \<Rightarrow> ('db, 'tx) store \<Rightarrow> err + account" where
  "st_Account E addr st =
     (if st_isClose st then Inl (ChainErr ErrStoreClosed)
      else on_missing (Inl (TypesErr ErrNotExistAccount))
        (case sb_Get (se_backend E) (toAccountKey addr) (st_db st) of Inl e \<Rightarrow> Inl e
         | Inr value \<Rightarrow> if is_deleted value then Inl (TypesErr ErrDeletedAccount) else read_account E value))"

definition st_Accounts :: "('db, 'tx) store_env \<Rightarrow> ('db, 'tx) store \<Rightarrow> err + account list" where
  "st_Accounts E st =
     (if st_isClose st then Inl (ChainErr ErrStoreClosed)
      else case sb_Iterate (se_backend E) tagAccount (st_db st) of Inl e \<Rightarrow> Inl e
        | Inr kvs \<Rightarrow> mapR (read_account E) (filter (\<lambda>value. 1 < length value) (map snd kvs)))"

text \<open>The address under a name, when its account is not deleted.\<close>

definition live_address :: "('db, 'tx) store_env \<Rightarrow> string \<Rightarrow> ('db, 'tx) store \<Rightarrow> err + address" where
  "live_address E Name st =
     (case sb_Get (se_backend E) (toAccountNameKey Name) (st_db st) of Inl e \<Rightarrow> Inl e
      | Inr value \<Rightarrow>
          let addr = go_copy (zeros AddressSize) value
          in case sb_Get (se_backend E) (toAccountKey addr) (st_db st) of Inl e \<Rightarrow> Inl e
             | Inr value \<Rightarrow> if is_deleted value then Inl (TypesErr ErrDeletedAccount) else Inr addr)"

definition st_AddressByName :: "('db, 'tx) store_env \<Rightarrow> string \<Rightarrow> ('db, 'tx) store \<Rightarrow> err + address" where
  "st_AddressByName E Name st =
     (if st_isClose st then Inl (ChainErr ErrStoreClosed)
      else on_missing (Inl (TypesErr ErrNotExistAccount)) (live_address E Name st))"

definition st_HasAccount :: "('db, 'tx) store_env \<Rightarrow> address \<Rightarrow> ('db, 'tx) store \<Rightarrow> err + bool" where
  "st_HasAccount E addr st =
     (if st_isClose st then Inl (ChainErr ErrStoreClosed)
      else on_missing (Inr False)
        (case sb_Get (se_backend E) (toAccountKey addr) (st_db st) of Inl e \<Rightarrow> Inl e
         | Inr value \<Rightarrow> if is_deleted value then Inl (TypesErr ErrDeletedAccount) else Inr True))"

definition st_HasAccountName :: "('db, 'tx) store_env \<Rightarrow> string \<Rightarrow> ('db, 'tx) store \<Rightarrow> err + bool" where
  "st_HasAccountName E Name st =
     (if st_isClose st then Inl (ChainErr ErrStoreClosed)
      else if \<not> isl (ParseAddress (se_decBase58 E) Name) then Inl (ChainErr ErrInvalidAccountName_chain)
      else on_missing (Inr False) (case live_address E Name st of Inl e \<Rightarrow> Inl e | Inr _ \<Rightarrow> Inr True))"

definition st_AccountData :: "('db, 'tx) store_env \<Rightarrow> address \<Rightarrow> u8 \<Rightarrow> bytes \<Rightarrow> ('db, 'tx) store \<Rightarrow> bytes" where
  "st_AccountData E addr pid name st =
     (if st_isClose st then []
      else case sb_Get (se_backend E) (toAccountDataKey (accountData_key addr pid name)) (st_db st) of
        Inl e \<Rightarrow> [] | Inr value \<Rightarrow> value)"

definition st_ProcessData :: "('db, 'tx) store_env \<Rightarrow> u8 \<Rightarrow> bytes \<Rightarrow> ('db, 'tx) store \<Rightarrow> bytes" where
  "st_ProcessData E pid name st =
     (if st_isClose st then []
      else case sb_Get (se_backend E) (toProcessDataKey (processData_key pid name)) (st_db st) of
        Inl e \<Rightarrow> [] | Inr value \<Rightarrow> value)"

definition st_HasUTXO :: "('db, 'tx) store_env \<Rightarrow> u64 \<Rightarrow> ('db, 'tx) store \<Rightarrow> err + bool" where
  "st_HasUTXO E i st =
     (if st_isClose st then Inl (ChainErr ErrStoreClosed)
      else on_missing (Inr False)
        (case sb_Get (se_backend E) (toUTXOKey i) (st_db st) of Inl e \<Rightarrow> Inl e | Inr value \<Rightarrow> Inr (0 < length value)))"

definition read_utxo :: "('db, 'tx) store_env \<Rightarrow> u64 \<Rightarrow> bytes \<Rightarrow> err + utxo" where
  "read_utxo E i value =
     (case unmarshal (se_decTxOut E) value of Inl e \<Rightarrow> Inl e | Inr out \<Rightarrow> Inr \<lparr>ux_TxIn = NewTxIn i, ux_TxOut = out\<rparr>)"

definition st_UTXO :: "('db, 'tx) store_env \<Rightarrow> u64 \<Rightarrow> ('db, 'tx) store \<Rightarrow> err + utxo" where
  "st_UTXO E i st =
     (if st_isClose st then Inl (ChainErr ErrStoreClosed)
      else on_missing (Inl (TypesErr ErrNotExistUTXO))
        (case sb_Get (se_backend E) (toUTXOKey i) (st_db st) of Inl e \<Rightarrow> Inl e | Inr value \<Rightarrow> read_utxo E i value))"

definition st_UTXOs :: "('db, 'tx) store_env \<Rightarrow> ('db, 'tx) store \<Rightarrow> err + utxo list" where
  "st_UTXOs E st =
     (if st_isClose st then Inl (ChainErr ErrStoreClosed)
      else case sb_Iterate (se_backend E) tagUTXO (st_db st) of Inl e \<Rightarrow> Inl e
        | Inr kvs \<Rightarrow> mapR (\<lambda>(key, value). case fromUTXOKey key of Inl e \<Rightarrow> Inl e | Inr i \<Rightarrow> read_utxo E i value) kvs)"

text \<open>\<^verbatim>\<open>tm[key]\<close> is the value of the Go map, false when missing.\<close>

definition st_HasTimeSlot :: "u32 \<Rightarrow> string \<Rightarrow> ('db, 'tx) store \<Rightarrow> bool" where
  "st_HasTimeSlot slot key st =
     (case om_get (st_timeSlotMap st) slot of None \<Rightarrow> False | Some tm \<Rightarrow> om_get tm key = Some True)"

definition decode_event :: "('db, 'tx) store_env \<Rightarrow> event decoder" where
  "decode_event E =
     bindE (mp_DecodeUint16 (se_mp E)) (\<lambda>t. bindE (liftE (se_createEvent E t)) (\<lambda>dec. dec))"

fun collect_events :: "('db, 'tx) store_env \<Rightarrow> ('db, 'tx) store \<Rightarrow> nat list \<Rightarrow> err + event list" where
  "collect_events E st [] = Inr []"
| "collect_events E st (i # is) =
     (case db_GetData (se_gunzip E) (of_nat i) 2 (st_cdb st) of
        Inl e \<Rightarrow>
          if e = PileErr ErrInvalidHeight_pile \<or> e = PileErr ErrInvalidDataIndex then collect_events E st is else Inl e
      | Inr value \<Rightarrow>
          case unmarshal (decode_seq (se_mp E) (decode_event E)) value of
            Inl e \<Rightarrow> Inl e
          | Inr evs \<Rightarrow> (case collect_events E st is of Inl e \<Rightarrow> Inl e | Inr rest \<Rightarrow> Inr (evs @ rest)))"

definition st_Events :: "('db, 'tx) store_env \<Rightarrow> u32 \<Rightarrow> u32 \<Rightarrow> ('db, 'tx) store \<Rightarrow> err + event list" where
  "st_Events E From To st =
     (if st_isClose st then Inl (ChainErr ErrStoreClosed)
      else
        let Height = st_Height E st; To = (if Height < To then Height else To)
        in collect_events E st [unat From..<Suc (unat To)])"

text \<open>The store as the loader of a context; a panic while reading the last hash or timestamp stays a panic of
  \<^verbatim>\<open>NewContext\<close> and is not modelled here.\<close>

definition st_as_loader :: "('db, 'tx) store_env \<Rightarrow> ('db, 'tx) store \<Rightarrow> loader" where
  "st_as_loader E st =
     \<lparr>ld_ChainID = st_chainID st, ld_Name = st_Name st, ld_Version = st_version st,
      ld_TargetHeight = st_TargetHeight E st,
      ld_LastHash = (case st_LastHash E st of Inl _ \<Rightarrow> EmptyHash | Inr h \<Rightarrow> h),
      ld_LastTimestamp = (case st_LastTimestamp E st of Inl _ \<Rightarrow> 0 | Inr t \<Rightarrow> t),
      ld_Account = (\<lambda>addr. st_Account E addr st), ld_AddressByName = (\<lambda>nm. st_AddressByName E nm st),
      ld_HasAccount = (\<lambda>addr. st_HasAccount E addr st), ld_HasAccountName = (\<lambda>nm. st_HasAccountName E nm st),
      ld_AccountData = (\<lambda>addr pid name. st_AccountData E addr pid name st),
      ld_HasUTXO = (\<lambda>i. st_HasUTXO E i st), ld_UTXO = (\<lambda>i. st_UTXO E i st),
      ld_ProcessData = (\<lambda>pid name. st_ProcessData E pid name st),
      ld_HasTimeSlot = (\<lambda>slot key. st_HasTimeSlot slot key st)\<rparr>"

section \<open>Writing\<close>

definition put_account :: "('db, 'tx) store_env \<Rightarrow> address \<times> account \<Rightarrow> ('db, unit) go_meth" where
  "put_account E = (\<lambda>(addr, acc).
     bindE (liftE (se_typeAccount E acc)) (\<lambda>t.
       thenE (sb_Set (se_backend E) (toAccountKey addr) (LE_Uint16ToBytes t @ se_encAccount E acc))
         (sb_Set (se_backend E) (toAccountNameKey (acc_Name acc)) addr)))"

text \<open>A deleted account leaves a mark, and its data cells go with it.\<close>

definition drop_account :: "('db, 'tx) store_env \<Rightarrow> address \<times> account \<Rightarrow> ('db, unit) go_meth" where
  "drop_account E = (\<lambda>(addr, acc).
     thenE (sb_Set (se_backend E) (toAccountKey addr) [0])
       (bindE (\<lambda>db. (sb_Iterate (se_backend E) (toAccountDataKey addr) db, db)) (\<lambda>kvs.
          foreachE (\<lambda>(key, value). sb_Delete (se_backend E) key) kvs)))"

definition put_utxo :: "('db, 'tx) store_env \<Rightarrow> u64 \<times> utxo \<Rightarrow> ('db, unit) go_meth" where
  "put_utxo E = (\<lambda>(i, utxo).
     thenE (failIf (txin_ID (ux_TxIn utxo) \<noteq> i) (ChainErr ErrInvalidTxInKey))
       (sb_Set (se_backend E) (toUTXOKey i) (se_encTxOut E (ux_TxOut utxo))))"

definition applyContextData :: "('db, 'tx) store_env \<Rightarrow> context_data \<Rightarrow> ('db, unit) go_meth" where
  "applyContextData E ctd =
     (let be = se_backend E
      in thenE (foreachE (put_account E) (om_each (cd_AccountMap ctd)))
        (thenE (foreachE (\<lambda>(key, value). sb_Set be (toAccountDataKey key) value) (om_each (cd_AccountDataMap ctd)))
        (thenE (foreachE (drop_account E) (om_each (cd_DeletedAccountMap ctd)))
        (thenE (foreachE (\<lambda>(key, value). sb_Delete be (toAccountDataKey key)) (om_each (cd_DeletedAccountDataMap ctd)))
        (thenE (foreachE (put_utxo E) (om_each (cd_UTXOMap ctd)))
        (thenE (foreachE (\<lambda>(i, vout). sb_Set be (toUTXOKey i) (se_encTxOut E vout)) (om_each (cd_CreatedUTXOMap ctd)))
        (thenE (foreachE (\<lambda>(i, utxo). sb_Delete be (toUTXOKey i)) (om_each (cd_DeletedUTXOMap ctd)))
        (thenE (foreachE (\<lambda>(key, value). sb_Set be (toProcessDataKey key) value) (om_each (cd_ProcessDataMap ctd)))
          (foreachE (\<lambda>(key, value). sb_Delete be (toProcessDataKey key)) (om_each (cd_DeletedProcessDataMap ctd)))))))))))"

definition StoreGenesis :: "('db, 'tx) store_env \<Rightarrow> hash256 \<Rightarrow> context_data \<Rightarrow> (('db, 'tx) store, unit) go_meth" where
  "StoreGenesis E genHash ctd st =
     (if st_isClose st then (Inl (ChainErr ErrStoreClosed), st)
      else if 0 < st_Height E st then (Inl (ChainErr ErrAlreadyGenesised), st)
      else case db_Init genHash (st_cdb st) of
        (r, cdb) \<Rightarrow>
          let st = st\<lparr>st_cdb := cdb\<rparr>
          in if isl r \<and> r \<noteq> Inl (PileErr ErrAlreadyInitialized) then (r, st)
             else case db_Update
                 (thenE (sb_Set (se_backend E) (toHeightHashKey 0) genHash)
                   (thenE (sb_Set (se_backend E) tagHeight (LE_Uint32ToBytes 0)) (applyContextData E ctd))) (st_db st) of
               (Inl e, db) \<Rightarrow> (Inl e, st\<lparr>st_db := db\<rparr>)
             | (Inr _, db) \<Rightarrow>
                 (Inr (), st\<lparr>st_db := db,
                    st_cache := \<lparr>ch_cached = True, ch_height = 0, ch_heightHash = genHash, ch_heightBlock = None\<rparr>\<rparr>))"

definition encode_event :: "('db, 'tx) store_env \<Rightarrow> event \<Rightarrow> err + bytes" where
  "encode_event E ev =
     (case se_typeEvent E ev of Inl e \<Rightarrow> Inl e | Inr t \<Rightarrow> Inr (mp_EncodeUint16 (se_mp E) t @ se_encEvent E ev))"

text \<open>The data of a block in the pile: the header, the rest of the block and the events, if any.\<close>

definition block_datas :: "('db, 'tx) store_env \<Rightarrow> 'tx block \<Rightarrow> event list \<Rightarrow> err + bytes list" where
  "block_datas E b events =
     (let hdr = se_encHeader E (b_Header b)
      in case block_encode (se_mp E) (se_encHeader E) (se_encTx E) b of Inl e \<Rightarrow> Inl e
         | Inr data \<Rightarrow>
             let Datas = [hdr, drop (length hdr) data]
             in if 0 < length events
                then case mapR (encode_event E) events of Inl e \<Rightarrow> Inl e
                  | Inr evs \<Rightarrow> Inr (Datas @ [mp_EncodeArrayLen (se_mp E) (int (length events)) @ concat evs])
                else Inr Datas)"

text \<open>The slots a block used are marked, and slots before the previous one are dropped.\<close>

definition mark_all :: "u32 \<times> (string, bool) omap \<Rightarrow> (u32, (string, bool) omap) omap \<Rightarrow> (u32, (string, bool) omap) omap" where
  "mark_all = (\<lambda>(slot, mp) m.
     om_put slot (fold (\<lambda>(key, value). om_put key True) (om_each mp)
       (case om_get m slot of None \<Rightarrow> [] | Some smp \<Rightarrow> smp)) m)"

definition update_slots ::
  "u32 \<Rightarrow> (u32, (string, bool) omap) omap \<Rightarrow> (u32, (string, bool) omap) omap \<Rightarrow> (u32, (string, bool) omap) omap" where
  "update_slots currentSlot used m =
     (let m = fold mark_all (om_each used) m;
          deleteSlots = filter (\<lambda>slot. slot < currentSlot - 1) (map fst (om_each m))
      in fold om_delete deleteSlots m)"

definition StoreBlock :: "('db, 'tx) store_env \<Rightarrow> 'tx block \<Rightarrow> context_data \<Rightarrow> (('db, 'tx) store, unit) go_meth" where
  "StoreBlock E b ctd st =
     (if st_isClose st then (Inl (ChainErr ErrStoreClosed), st)
      else
        let hdr = b_Header b; DataHash = se_hashHeader E hdr
        in case block_datas E b (cd_Events ctd) of
          Inl e \<Rightarrow> (Inl e, st)
        | Inr Datas \<Rightarrow>
            case db_AppendData (se_gzip E) (bh_Height hdr) DataHash Datas (st_cdb st) of
              (r, cdb) \<Rightarrow>
                let st = st\<lparr>st_cdb := cdb\<rparr>
                in if isl r \<and> r \<noteq> Inl (PileErr ErrInvalidAppendHeight) then (r, st)
                   else case db_Update
                       (thenE (sb_Set (se_backend E) tagHeight (LE_Uint32ToBytes (bh_Height hdr))) (applyContextData E ctd))
                       (st_db st) of
                     (Inl e, db) \<Rightarrow> (Inl e, st\<lparr>st_db := db\<rparr>)
                   | (Inr _, db) \<Rightarrow>
                       (Inr (), st\<lparr>st_db := db,
                          st_timeSlotMap := update_slots (ToTimeSlot (bh_Timestamp hdr)) (cd_TimeSlotMap ctd) (st_timeSlotMap st),
                          st_cache := \<lparr>ch_cached = True, ch_height = bh_Height hdr, ch_heightHash = DataHash,
                            ch_heightBlock = Some b\<rparr>\<rparr>))"

section \<open>Catching up after a restart\<close>

text \<open>
  The blocks of the piles above the height of the database go to a callback. The loop ends at the first height
  without a block; a callback that keeps appending blocks can make it run for ever.
\<close>

partial_function (option) iter_blocks ::
  "('db, 'tx) store_env \<Rightarrow> ('tx block \<Rightarrow> (('db, 'tx) store, unit) go_meth) \<Rightarrow> u32 \<Rightarrow> ('db, 'tx) store \<Rightarrow>
   ((err + unit) \<times> ('db, 'tx) store) option" where
  "iter_blocks E fn h st =
     (case st_Block E h st of
        Inl e \<Rightarrow> Some (if e = ErrNotExistKey then Inr () else Inl e, st)
      | Inr b \<Rightarrow>
          (case fn b st of
             (Inl e, st') \<Rightarrow> Some (Inl e, st')
           | (Inr _, st') \<Rightarrow> iter_blocks E fn (h + 1) st'))"

definition mark_tx :: "('db, 'tx) store_env \<Rightarrow> u32 \<Rightarrow> u8 \<Rightarrow> u16 \<times> 'tx \<Rightarrow>
   (u32, (string, bool) omap) omap \<Rightarrow> (u32, (string, bool) omap) omap" where
  "mark_tx E currentSlot chainID = (\<lambda>(t, tx) m.
     let slot = ToTimeSlot (se_timestamp E tx)
     in if currentSlot - 1 \<le> slot then mark_slot slot (bytes_str (se_hashTx E chainID t tx)) m else m)"

fun rebuild_slots :: "('db, 'tx) store_env \<Rightarrow> u32 \<Rightarrow> nat \<Rightarrow> (('db, 'tx) store, unit) go_meth" where
  "rebuild_slots E lastSlot 0 st = (Inr (), st)"
| "rebuild_slots E lastSlot (Suc h) st =
     (case st_Block E (of_nat (Suc h)) st of
        Inl e \<Rightarrow> (Inl e, st)
      | Inr b \<Rightarrow>
          let currentSlot = ToTimeSlot (bh_Timestamp (b_Header b))
          in if currentSlot < lastSlot - 1 then (Inr (), st)
             else if length (b_TransactionTypes b) < length (b_Transactions b) then (Inl Panic, st)
             else rebuild_slots E lastSlot h (st\<lparr>st_timeSlotMap :=
                fold (mark_tx E currentSlot (st_chainID st)) (zip (b_TransactionTypes b) (b_Transactions b)) (st_timeSlotMap st)\<rparr>))"

definition IterBlockAfterContext ::
  "('db, 'tx) store_env \<Rightarrow> ('tx block \<Rightarrow> (('db, 'tx) store, unit) go_meth) \<Rightarrow> ('db, 'tx) store \<Rightarrow>
   ((err + unit) \<times> ('db, 'tx) store) option" where
  "IterBlockAfterContext E fn st =
     (case iter_blocks E fn (st_Height E st + 1) st of
        None \<Rightarrow> None
      | Some (Inl e, st) \<Rightarrow> Some (Inl e, st)
      | Some (Inr _, st) \<Rightarrow>
          let Height = st_Height E st
          in Some (if 0 < Height
                   then case st_Header E Height st of
                          Inl e \<Rightarrow> (Inl e, st)
                        | Inr bh \<Rightarrow> rebuild_slots E (ToTimeSlot (bh_Timestamp bh)) (unat Height) st
                   else (Inr (), st)))"

definition st_Close :: "('db, 'tx) store \<Rightarrow> ('db, 'tx) store" where
  "st_Close st = st\<lparr>st_isClose := True\<rparr>"

end
