(* ===== verification/Chain.thy ===== *)
theory Chain
  imports Store
begin

text \<open>
  The chain (\<^verbatim>\<open>core/chain/chain.go\<close>, \<^verbatim>\<open>core/chain/block_creator.go\<close>): which block is connected to the chain, how
  its transactions are executed on a context over the store, and how a block is created from transactions.

  The interfaces the chain calls are records of functions. A process (\<^verbatim>\<open>types.Process\<close>) has its hooks, each a
  method on the context that gets the process id of the context wrapper; a service (\<^verbatim>\<open>types.Service\<close>) only
  observes the chain. The methods of a transaction, the consensus and the libraries are fields of the
  environment \<open>chain_env\<close>: \<open>'tx\<close> is the type of transactions and \<open>'cs\<close> the state of the consensus.
\<close>

section \<open>Processes, services and the chain\<close>

record 'tx process =
  pr_ID :: u8
  pr_Name :: string
  pr_Init :: "err + unit"
  pr_OnLoadChain :: "u8 \<Rightarrow> (chain_ctx, unit) go_meth"
  pr_BeforeExecuteTransactions :: "u8 \<Rightarrow> (chain_ctx, unit) go_meth"
  pr_AfterExecuteTransactions :: "'tx block \<Rightarrow> u8 \<Rightarrow> (chain_ctx, unit) go_meth"
  pr_OnSaveData :: "'tx block \<Rightarrow> u8 \<Rightarrow> (chain_ctx, unit) go_meth"

record service =
  sv_Name :: string
  sv_Init :: "err + unit"
  sv_OnLoadChain :: "(chain_ctx, unit) go_meth"

text \<open>
  The signer provider maps a transaction hash to the signatures and the signers it has seen; \<open>None\<close> stands
  for a nil slice. \<open>ce_NumCPU\<close> is the number of processors, and \<open>ce_firstErr\<close> the error that arrives first
  on the channel when several goroutines report one.
\<close>

type_synonym signer_provider = "hash256 \<Rightarrow> signature list option \<times> pubhash list option"

record ('db, 'tx, 'cs) chain_env =
  ce_store :: "('db, 'tx) store_env"
  ce_hashers :: hashers
  ce_recover :: recover
  ce_NumCPU :: nat
  ce_firstErr :: "err list \<Rightarrow> err"
  ce_typeTx :: "'tx \<Rightarrow> err + u16"
  ce_Validate :: "'tx \<Rightarrow> 'tx process \<Rightarrow> u8 \<Rightarrow> pubhash list \<Rightarrow> (chain_ctx, unit) go_meth"
  ce_Execute :: "'tx \<Rightarrow> 'tx process \<Rightarrow> u8 \<Rightarrow> u16 \<Rightarrow> (chain_ctx, unit) go_meth"
  ce_InitGenesis :: "u8 \<Rightarrow> (chain_ctx, unit) go_meth"
  ce_csInit :: "err + unit"
  ce_csInitGenesis :: "('cs \<times> chain_ctx, unit) go_meth"
  ce_csOnLoadChain :: "chain_ctx \<Rightarrow> ('cs, unit) go_meth"
  ce_csValidateSignature :: "'cs \<Rightarrow> header \<Rightarrow> signature list \<Rightarrow> err + unit"
  ce_csOnSaveData :: "'tx block \<Rightarrow> ('cs \<times> chain_ctx, unit) go_meth"

record ('db, 'tx, 'cs) chain =
  cn_isInit :: bool
  cn_store :: "('db, 'tx) store"
  cn_consensus :: 'cs
  cn_app :: "'tx process"
  cn_processes :: "'tx process list"
  cn_processIDMap :: "(string, u8) omap"
  cn_processIndexMap :: "(u8, nat) omap"
  cn_services :: "service list"
  cn_serviceMap :: "(string, service) omap"
  cn_isClose :: bool

definition NewChain :: "'cs \<Rightarrow> 'tx process \<Rightarrow> ('db, 'tx) store \<Rightarrow> err + ('db, 'tx, 'cs) chain" where
  "NewChain consensus app st =
     (if pr_ID app \<noteq> 255 then Inl Panic
      else Inr \<lparr>cn_isInit = False, cn_store = st, cn_consensus = consensus, cn_app = app, cn_processes = [],
                cn_processIDMap = [], cn_processIndexMap = [], cn_services = [], cn_serviceMap = [],
                cn_isClose = False\<rparr>)"

definition cn_Process :: "u8 \<Rightarrow> ('db, 'tx, 'cs) chain \<Rightarrow> err + 'tx process" where
  "cn_Process i cn =
     (if i = 255 then Inr (cn_app cn)
      else case om_get (cn_processIndexMap cn) i of
        None \<Rightarrow> Inl (TypesErr ErrNotExistProcess)
      | Some idx \<Rightarrow> if idx < length (cn_processes cn) then Inr (cn_processes cn ! idx) else Inl Panic)"

definition cn_ProcessByName :: "string \<Rightarrow> ('db, 'tx, 'cs) chain \<Rightarrow> err + 'tx process" where
  "cn_ProcessByName name cn =
     (case om_get (cn_processIDMap cn) name of
        None \<Rightarrow> Inl (TypesErr ErrNotExistProcess)
      | Some i \<Rightarrow>
          (case om_get (cn_processIndexMap cn) i of
             None \<Rightarrow> Inl (TypesErr ErrNotExistProcess)
           | Some idx \<Rightarrow> if idx < length (cn_processes cn) then Inr (cn_processes cn ! idx) else Inl Panic))"

definition MustAddProcess :: "'tx process \<Rightarrow> (('db, 'tx, 'cs) chain, unit) go_meth" where
  "MustAddProcess p cn =
     (if cn_isInit cn then (Inl Panic, cn)
      else if pr_ID p = 0 \<or> pr_ID p = 255 then (Inl Panic, cn)
      else if om_has (cn_processIDMap cn) (pr_Name p) then (Inl Panic, cn)
      else if om_has (cn_processIndexMap cn) (pr_ID p) then (Inl Panic, cn)
      else
        let idx = length (cn_processes cn)
        in (Inr (), cn\<lparr>cn_processes := cn_processes cn @ [p],
                       cn_processIDMap := om_put (pr_Name p) (pr_ID p) (cn_processIDMap cn),
                       cn_processIndexMap := om_put (pr_ID p) idx (cn_processIndexMap cn)\<rparr>))"

definition ServiceByName :: "string \<Rightarrow> ('db, 'tx, 'cs) chain \<Rightarrow> err + service" where
  "ServiceByName name cn =
     (case om_get (cn_serviceMap cn) name of None \<Rightarrow> Inl (ChainErr ErrNotExistService) | Some s \<Rightarrow> Inr s)"

definition MustAddService :: "service \<Rightarrow> (('db, 'tx, 'cs) chain, unit) go_meth" where
  "MustAddService s cn =
     (if cn_isInit cn then (Inl Panic, cn)
      else if om_has (cn_serviceMap cn) (sv_Name s) then (Inl Panic, cn)
      else (Inr (), cn\<lparr>cn_services := cn_services cn @ [s],
                       cn_serviceMap := om_put (sv_Name s) s (cn_serviceMap cn)\<rparr>))"

text \<open>\<^verbatim>\<open>NewContext\<close> over the store panics when the last hash or timestamp cannot be read.\<close>

definition cn_NewContext :: "('db, 'tx, 'cs) chain_env \<Rightarrow> ('db, 'tx, 'cs) chain \<Rightarrow> err + chain_ctx" where
  "cn_NewContext E cn =
     (case st_LastHash (ce_store E) (cn_store cn) of Inl e \<Rightarrow> Inl e
      | Inr _ \<Rightarrow>
          (case st_LastTimestamp (ce_store E) (cn_store cn) of Inl e \<Rightarrow> Inl e
           | Inr _ \<Rightarrow> Inr (NewContext (st_as_loader (ce_store E) (cn_store cn)))))"

section \<open>Hooks of the processes\<close>

text \<open>The map from the index of a process to its id, which the code builds by inverting \<^verbatim>\<open>processIndexMap\<close>.\<close>

definition cn_IDMap :: "('db, 'tx, 'cs) chain \<Rightarrow> nat \<Rightarrow> u8" where
  "cn_IDMap cn i =
     (case fold (\<lambda>(pid, idx) m. m(idx \<mapsto> pid)) (om_each (cn_processIndexMap cn)) Map.empty i of
        None \<Rightarrow> 0 | Some pid \<Rightarrow> pid)"

text \<open>A hook that left a snapshot open makes the chain give up.\<close>

definition checkDirty :: "(chain_ctx, unit) go_meth" where
  "checkDirty ctx = (if 1 < ctx_StackSize ctx then (Inl (ChainErr ErrDirtyContext), ctx) else (Inr (), ctx))"

text \<open>The hook of every process in order, then that of the application.\<close>

definition each_process :: "('tx process \<Rightarrow> u8 \<Rightarrow> (chain_ctx, unit) go_meth) \<Rightarrow> ('db, 'tx, 'cs) chain \<Rightarrow> (chain_ctx, unit) go_meth" where
  "each_process hook cn =
     thenE (foreachE (\<lambda>(i, p). thenE (hook p (cn_IDMap cn i)) checkDirty) (enumerate 0 (cn_processes cn)))
       (thenE (hook (cn_app cn) 255) checkDirty)"

section \<open>Running one transaction\<close>

text \<open>The generator of the block must not be deleted by a transaction of the block.\<close>

definition keepsGenerator :: "address \<Rightarrow> (chain_ctx, unit) go_meth" where
  "keepsGenerator Generator ctx =
     (case ctx_HasAccount Generator ctx of
        (Inl e, ctx) \<Rightarrow>
          (Inl (if e = TypesErr ErrDeletedAccount then ChainErr ErrCannotDeleteGeneratorAccount else e), ctx)
      | (Inr has, ctx) \<Rightarrow>
          if \<not> has then (Inl (ChainErr ErrCannotDeleteGeneratorAccount), ctx) else (Inr (), ctx))"

text \<open>
  The part that \<^verbatim>\<open>executeBlockOnContext\<close> and \<^verbatim>\<open>UnsafeAddTx\<close> have in common: a snapshot, the time slot, validation
  and execution, and the commit. Every failure reverts the snapshot but that of \<^verbatim>\<open>UseTimeSlot\<close>.
\<close>

definition run_tx ::
  "('db, 'tx, 'cs) chain_env \<Rightarrow> address \<Rightarrow> 'tx process \<Rightarrow> u8 \<Rightarrow> u32 \<Rightarrow> hash256 \<Rightarrow> 'tx \<Rightarrow> pubhash list \<Rightarrow> u16 \<Rightarrow> (chain_ctx, unit) go_meth" where
  "run_tx E Generator p pid slot TxHash tx signers index ctx =
     (case ctx_Snapshot ctx of (sn, ctx) \<Rightarrow>
        (case ctx_UseTimeSlot slot (bytes_str TxHash) ctx of
           (Inl e, ctx) \<Rightarrow> (Inl e, ctx)
         | (Inr _, ctx) \<Rightarrow>
             (case thenE (ce_Validate E tx p pid signers)
                     (thenE (ce_Execute E tx p pid index) (keepsGenerator Generator)) ctx of
                (Inl e, ctx) \<Rightarrow>
                  (case ctx_Revert sn ctx of (Inl e', ctx) \<Rightarrow> (Inl e', ctx) | (Inr _, ctx) \<Rightarrow> (Inl e, ctx))
              | (Inr _, ctx) \<Rightarrow> ctx_Commit sn ctx)))"

definition slot_allowed :: "u32 \<Rightarrow> u32 \<Rightarrow> bool" where
  "slot_allowed currentSlot slot \<longleftrightarrow> \<not> (slot < currentSlot - 1 \<or> currentSlot < slot)"

section \<open>Signatures\<close>

definition cached_signers :: "signer_provider option \<Rightarrow> hash256 \<Rightarrow> signature list \<Rightarrow> pubhash list option" where
  "cached_signers sp TxHash sigs =
     (case sp of
        None \<Rightarrow> None
      | Some get \<Rightarrow>
          (case get TxHash of
             (None, _) \<Rightarrow> None
           | (Some gsg, gsn) \<Rightarrow>
               if length gsg = length sigs \<and> list_all (\<lambda>(g, s). g = s) (zip gsg sigs) then gsn else None))"

definition recover_signers :: "recover \<Rightarrow> hash256 \<Rightarrow> signature list \<Rightarrow> err + pubhash list" where
  "recover_signers recover TxHash =
     mapR (\<lambda>sig. case recover TxHash sig of Inl e \<Rightarrow> Inl e | Inr pubkey \<Rightarrow> Inr (NewPublicHash pubkey))"

text \<open>The hash and the signers of the transaction at an index of the block.\<close>

definition verify_tx ::
  "('db, 'tx, 'cs) chain_env \<Rightarrow> u8 \<Rightarrow> signer_provider option \<Rightarrow> 'tx block \<Rightarrow> nat \<times> 'tx \<Rightarrow> err + hash256 \<times> pubhash list" where
  "verify_tx E chainID sp b = (\<lambda>(i, tx).
     if length (b_TransactionTypes b) \<le> i \<or> length (b_TransactionSignatures b) \<le> i then Inl Panic
     else
       let t = b_TransactionTypes b ! i; sigs = b_TransactionSignatures b ! i;
           TxHash = se_hashTx (ce_store E) chainID t tx
       in case cached_signers sp TxHash sigs of
            Some signers \<Rightarrow> Inr (TxHash, signers)
          | None \<Rightarrow>
              (case recover_signers (ce_recover E) TxHash sigs of Inl e \<Rightarrow> Inl e | Inr signers \<Rightarrow> Inr (TxHash, signers)))"

text \<open>
  The transactions are divided among goroutines. A goroutine whose part begins behind the end of the slice makes
  the slice expression panic; a goroutine that finds an error sends it and stops.
\<close>

definition cpuCnt :: "('db, 'tx, 'cs) chain_env \<Rightarrow> nat \<Rightarrow> nat" where
  "cpuCnt E n = (if n < 1000 then 1 else ce_NumCPU E)"

definition txUnit :: "nat \<Rightarrow> nat \<Rightarrow> nat" where
  "txUnit n cnt = n div cnt + (if n mod cnt \<noteq> 0 then 1 else 0)"

definition verify_part ::
  "('db, 'tx, 'cs) chain_env \<Rightarrow> u8 \<Rightarrow> signer_provider option \<Rightarrow> 'tx block \<Rightarrow> nat \<Rightarrow> nat \<Rightarrow> err + (hash256 \<times> pubhash list) list" where
  "verify_part E chainID sp b unit i =
     (let lastCnt = min ((i + 1) * unit) (length (b_Transactions b))
      in mapR (verify_tx E chainID sp b) (enumerate (i * unit) (slice (i * unit) lastCnt (b_Transactions b))))"

definition verify_all ::
  "('db, 'tx, 'cs) chain_env \<Rightarrow> u8 \<Rightarrow> signer_provider option \<Rightarrow> 'tx block \<Rightarrow> err + (hash256 \<times> pubhash list) list" where
  "verify_all E chainID sp b =
     (let n = length (b_Transactions b); cnt = cpuCnt E n; unit = txUnit n cnt
      in if n = 0 then Inr []
         else if list_ex (\<lambda>i. min ((i + 1) * unit) n < i * unit) [0..<cnt] then Inl Panic
         else
           let parts = map (verify_part E chainID sp b unit) [0..<cnt]; errs = map projl (filter isl parts)
           in if Panic \<in> set errs then Inl Panic
              else if 0 < length errs then Inl (ce_firstErr E errs)
              else Inr (concat (map projr parts)))"

definition validateTransactionSignatures ::
  "('db, 'tx, 'cs) chain_env \<Rightarrow> 'tx block \<Rightarrow> signer_provider option \<Rightarrow> ('db, 'tx, 'cs) chain \<Rightarrow> err + pubhash list list \<times> hash256 list" where
  "validateTransactionSignatures E b sp cn =
     (case verify_all E (st_chainID (cn_store cn)) sp b of
        Inl e \<Rightarrow> Inl e
      | Inr verified \<Rightarrow>
          (case BuildLevelRoot (bh_PrevHash (b_Header b) # map fst verified) of
             Inl e \<Rightarrow> Inl e
           | Inr h \<Rightarrow>
               if bh_LevelRootHash (b_Header b) \<noteq> h then Inl (ChainErr ErrInvalidLevelRootHash)
               else Inr (map snd verified, map fst verified)))"

section \<open>Connecting a block\<close>

definition validateHeader :: "('db, 'tx, 'cs) chain_env \<Rightarrow> header \<Rightarrow> ('db, 'tx, 'cs) chain \<Rightarrow> err + unit" where
  "validateHeader E bh cn =
     (let st = cn_store cn
      in case st_LastStatus (ce_store E) st of
           Inl e \<Rightarrow> Inl e
         | Inr (height, lastHash) \<Rightarrow>
             if bh_ChainID bh \<noteq> st_chainID st then Inl (ChainErr ErrInvalidChainID)
             else if st_version st < bh_Version bh then Inl (ChainErr ErrInvalidVersion)
             else if bh_PrevHash bh \<noteq> lastHash then Inl (ChainErr ErrInvalidPrevHash)
             else
               (case st_LastTimestamp (ce_store E) st of
                  Inl e \<Rightarrow> Inl e
                | Inr ts \<Rightarrow>
                    if bh_Timestamp bh \<le> ts then Inl (ChainErr ErrInvalidTimestamp)
                    else if bh_Generator bh = zeros AddressSize then Inl (ChainErr ErrInvalidGenerator)
                    else if bh_Height bh \<noteq> height + 1 then Inl (ChainErr ErrInvalidHeight)
                    else if bh_Height bh = 1
                    then if bh_Version bh \<le> 0 then Inl (ChainErr ErrInvalidVersion) else Inr ()
                    else
                      (case st_Header (ce_store E) height st of
                         Inl e \<Rightarrow> Inl e
                       | Inr TargetHeader \<Rightarrow>
                           if bh_Version bh < bh_Version TargetHeader then Inl (ChainErr ErrInvalidVersion)
                           else if bh_ChainID bh \<noteq> bh_ChainID TargetHeader then Inl (ChainErr ErrInvalidChainID)
                           else Inr ())))"

text \<open>One round of the loop over the transactions.\<close>

definition execute_tx ::
  "('db, 'tx, 'cs) chain_env \<Rightarrow> 'tx block \<Rightarrow> ('db, 'tx, 'cs) chain \<Rightarrow> nat \<times> 'tx \<times> pubhash list \<times> hash256 \<Rightarrow> (chain_ctx, unit) go_meth" where
  "execute_tx E b cn = (\<lambda>(i, tx, signers, TxHash).
     let slot = ToTimeSlot (se_timestamp (ce_store E) tx)
     in thenE (failIf (\<not> slot_allowed (ToTimeSlot (bh_Timestamp (b_Header b))) slot) (TypesErr ErrInvalidTransactionTimeSlot))
        (if length (b_TransactionTypes b) \<le> i then throwE Panic
         else
           let pid = ucast (drop_bit 8 (b_TransactionTypes b ! i))
           in bindE (liftE (cn_Process pid cn)) (\<lambda>p.
                run_tx E (bh_Generator (b_Header b)) p pid slot TxHash tx signers (of_nat i))))"

definition executeBlockOnContext ::
  "('db, 'tx, 'cs) chain_env \<Rightarrow> 'tx block \<Rightarrow> signer_provider option \<Rightarrow> ('db, 'tx, 'cs) chain \<Rightarrow> (chain_ctx, unit) go_meth" where
  "executeBlockOnContext E b sp cn =
     bindE (liftE (validateTransactionSignatures E b sp cn)) (\<lambda>(TxSigners, TxHashes).
       thenE (each_process pr_BeforeExecuteTransactions cn)
      (thenE (foreachE (execute_tx E b cn) (enumerate 0 (zip (b_Transactions b) (zip TxSigners TxHashes))))
      (thenE checkDirty
             (each_process (\<lambda>p. pr_AfterExecuteTransactions p b) cn))))"

text \<open>The context is shared with the caller, so connecting is a method on the chain and the context.\<close>

definition on_context :: "(chain_ctx, unit) go_meth \<Rightarrow> ('c \<times> chain_ctx, unit) go_meth" where
  "on_context m = (\<lambda>(c, ctx). case m ctx of (r, ctx') \<Rightarrow> (r, c, ctx'))"

definition connectBlockWithContext ::
  "('db, 'tx, 'cs) chain_env \<Rightarrow> 'tx block \<Rightarrow> (('db, 'tx, 'cs) chain \<times> chain_ctx, unit) go_meth" where
  "connectBlockWithContext E b = (\<lambda>(cn, ctx).
     case ctx_Hash (ce_hashers E) ctx of (h, ctx) \<Rightarrow>
       if bh_ContextHash (b_Header b) \<noteq> h then (Inl (ChainErr ErrInvalidContextHash), cn, ctx)
       else
         thenE (on_context (thenE checkDirty (each_process (\<lambda>p. pr_OnSaveData p b) cn)))
         (thenE (\<lambda>(cn, ctx). case ce_csOnSaveData E b (cn_consensus cn, ctx) of
                   (r, cs, ctx) \<Rightarrow> (r, cn\<lparr>cn_consensus := cs\<rparr>, ctx))
         (thenE (on_context checkDirty)
                (\<lambda>(cn, ctx). case StoreBlock (ce_store E) b (ctx_Top ctx) (cn_store cn) of
                   (r, st) \<Rightarrow> (r, cn\<lparr>cn_store := st\<rparr>, ctx)))) (cn, ctx))"

definition ConnectBlock ::
  "('db, 'tx, 'cs) chain_env \<Rightarrow> 'tx block \<Rightarrow> signer_provider option \<Rightarrow> (('db, 'tx, 'cs) chain, unit) go_meth" where
  "ConnectBlock E b sp cn =
     (if cn_isClose cn then (Inl (ChainErr ErrChainClosed), cn)
      else case validateHeader E (b_Header b) cn of
        Inl e \<Rightarrow> (Inl e, cn)
      | Inr _ \<Rightarrow>
          (case ce_csValidateSignature E (cn_consensus cn) (b_Header b) (b_Signatures b) of
             Inl e \<Rightarrow> (Inl e, cn)
           | Inr _ \<Rightarrow>
               (case cn_NewContext E cn of
                  Inl e \<Rightarrow> (Inl e, cn)
                | Inr ctx \<Rightarrow>
                    (case executeBlockOnContext E b sp cn ctx of
                       (Inl e, ctx) \<Rightarrow> (Inl e, cn)
                     | (Inr _, ctx) \<Rightarrow>
                         (case connectBlockWithContext E b (cn, ctx) of (r, cn, ctx) \<Rightarrow> (r, cn))))))"

definition cn_Close :: "('db, 'tx, 'cs) chain \<Rightarrow> ('db, 'tx, 'cs) chain" where
  "cn_Close cn = (if \<not> cn_isClose cn then cn\<lparr>cn_store := st_Close (cn_store cn), cn_isClose := True\<rparr> else cn)"

section \<open>Starting the chain\<close>

definition init_all :: "('db, 'tx, 'cs) chain_env \<Rightarrow> ('db, 'tx, 'cs) chain \<Rightarrow> err + unit" where
  "init_all E cn =
     (case mapR (\<lambda>r. r) (map pr_Init (cn_processes cn) @ [pr_Init (cn_app cn), ce_csInit E] @ map sv_Init (cn_services cn)) of
        Inl e \<Rightarrow> Inl e | Inr _ \<Rightarrow> Inr ())"

text \<open>The genesis context: the application and the consensus write their first state to an empty context.\<close>

definition genesis :: "('db, 'tx, 'cs) chain_env \<Rightarrow> ('cs, context_data \<times> hash256) go_meth" where
  "genesis E cs =
     (case ce_InitGenesis E 255 NewEmptyContext of
        (Inl e, _) \<Rightarrow> (Inl e, cs)
      | (Inr _, ctx) \<Rightarrow>
          (case ce_csInitGenesis E (cs, ctx) of
             (Inl e, cs, _) \<Rightarrow> (Inl e, cs)
           | (Inr _, cs, ctx) \<Rightarrow>
               if 1 < ctx_StackSize ctx then (Inl (ChainErr ErrDirtyContext), cs)
               else (Inr (ctx_Top ctx, fst (ctx_Hash (ce_hashers E) ctx)), cs)))"

definition GenesisHash :: "('db, 'tx) store \<Rightarrow> hash256 \<Rightarrow> hash256" where
  "GenesisHash st h = the (Hashes [Hash (str_bytes (st_Name st)), Hash [st_chainID st], h])"

definition store_genesis :: "('db, 'tx, 'cs) chain_env \<Rightarrow> context_data \<times> hash256 \<Rightarrow> (('db, 'tx) store, unit) go_meth" where
  "store_genesis E = (\<lambda>(ctd, h) st.
     if 0 < st_Height (ce_store E) st
     then case st_Hash 0 st of
            Inl e \<Rightarrow> (Inl e, st)
          | Inr g \<Rightarrow> (if GenesisHash st h \<noteq> g then Inl (ChainErr ErrInvalidGenesisHash) else Inr (), st)
     else StoreGenesis (ce_store E) (GenesisHash st h) ctd st)"

definition load_all :: "('db, 'tx, 'cs) chain_env \<Rightarrow> ('db, 'tx, 'cs) chain \<Rightarrow> chain_ctx \<Rightarrow> (err + unit) \<times> 'cs" where
  "load_all E cn ctx =
     (case thenE (foreachE (\<lambda>(i, p). pr_OnLoadChain p (cn_IDMap cn i)) (enumerate 0 (cn_processes cn)))
             (pr_OnLoadChain (cn_app cn) 255) ctx of
        (Inl e, _) \<Rightarrow> (Inl e, cn_consensus cn)
      | (Inr _, ctx) \<Rightarrow>
          (case ce_csOnLoadChain E ctx (cn_consensus cn) of
             (Inl e, cs) \<Rightarrow> (Inl e, cs)
           | (Inr _, cs) \<Rightarrow> (fst (foreachE sv_OnLoadChain (cn_services cn) ctx), cs)))"

definition cn_Init :: "('db, 'tx, 'cs) chain_env \<Rightarrow> (('db, 'tx, 'cs) chain, unit) go_meth" where
  "cn_Init E cn =
     (case init_all E cn of
        Inl e \<Rightarrow> (Inl e, cn)
      | Inr _ \<Rightarrow>
          (case genesis E (cn_consensus cn) of
             (Inl e, cs) \<Rightarrow> (Inl e, cn\<lparr>cn_consensus := cs\<rparr>)
           | (Inr gen, cs) \<Rightarrow>
               let cn = cn\<lparr>cn_consensus := cs\<rparr>
               in case store_genesis E gen (cn_store cn) of
                    (Inl e, st) \<Rightarrow> (Inl e, cn\<lparr>cn_store := st\<rparr>)
                  | (Inr _, st) \<Rightarrow>
                      let cn = cn\<lparr>cn_store := st\<rparr>
                      in case cn_NewContext E cn of
                           Inl e \<Rightarrow> (Inl e, cn)
                         | Inr ctx \<Rightarrow>
                             (case load_all E cn ctx of
                                (Inl e, cs) \<Rightarrow> (Inl e, cn\<lparr>cn_consensus := cs\<rparr>)
                              | (Inr _, cs) \<Rightarrow> (Inr (), cn\<lparr>cn_consensus := cs, cn_isInit := True\<rparr>))))"

section \<open>Creating a block\<close>

record 'tx block_creator =
  bc_ctx :: chain_ctx
  bc_txHashes :: "hash256 list"
  bc_b :: "'tx block"

definition NewBlockCreator :: "chain_ctx \<Rightarrow> address \<Rightarrow> bytes \<Rightarrow> u64 \<Rightarrow> 'tx block_creator" where
  "NewBlockCreator ctx Generator ConsensusData Timestamp =
     \<lparr>bc_ctx = ctx, bc_txHashes = [ctx_genLastHash ctx],
      bc_b = \<lparr>b_Header = \<lparr>bh_ChainID = ld_ChainID (ctx_loader ctx), bh_Version = ld_Version (ctx_loader ctx),
                           bh_Height = ctx_TargetHeight ctx, bh_PrevHash = ctx_genLastHash ctx,
                           bh_LevelRootHash = EmptyHash, bh_ContextHash = EmptyHash, bh_Timestamp = Timestamp,
                           bh_Generator = Generator, bh_ConsensusData = ConsensusData\<rparr>,
              b_TransactionTypes = [], b_Transactions = [], b_TransactionSignatures = [], b_Signatures = []\<rparr>\<rparr>"

definition on_bc :: "(chain_ctx, unit) go_meth \<Rightarrow> ('tx block_creator, unit) go_meth" where
  "on_bc m bc = (case m (bc_ctx bc) of (r, ctx) \<Rightarrow> (r, bc\<lparr>bc_ctx := ctx\<rparr>))"

definition bc_Init :: "('db, 'tx, 'cs) chain \<Rightarrow> ('tx block_creator, unit) go_meth" where
  "bc_Init cn = on_bc (each_process pr_BeforeExecuteTransactions cn)"

definition UnsafeAddTx ::
  "('db, 'tx, 'cs) chain_env \<Rightarrow> ('db, 'tx, 'cs) chain \<Rightarrow> address \<Rightarrow> u16 \<Rightarrow> hash256 \<Rightarrow> 'tx \<Rightarrow> signature list \<Rightarrow> pubhash list \<Rightarrow>
   ('tx block_creator, unit) go_meth" where
  "UnsafeAddTx E cn Generator t TxHash tx sigs signers bc =
     (let pid = ucast (drop_bit 8 t); b = bc_b bc; slot = ToTimeSlot (se_timestamp (ce_store E) tx)
      in case cn_Process pid cn of
           Inl e \<Rightarrow> (Inl e, bc)
         | Inr p \<Rightarrow>
             if \<not> slot_allowed (ToTimeSlot (bh_Timestamp (b_Header b))) slot then (Inl (TypesErr ErrInvalidTransactionTimeSlot), bc)
             else thenE (on_bc (run_tx E Generator p pid slot TxHash tx signers (of_nat (length (b_Transactions b)))))
               (writeE (\<lambda>bc. bc\<lparr>bc_b := b\<lparr>b_TransactionTypes := b_TransactionTypes b @ [t],
                                         b_Transactions := b_Transactions b @ [tx],
                                         b_TransactionSignatures := b_TransactionSignatures b @ [sigs]\<rparr>,
                                bc_txHashes := bc_txHashes bc @ [TxHash]\<rparr>)) bc)"

definition AddTx ::
  "('db, 'tx, 'cs) chain_env \<Rightarrow> ('db, 'tx, 'cs) chain \<Rightarrow> address \<Rightarrow> 'tx \<times> signature list \<Rightarrow> ('tx block_creator, unit) go_meth" where
  "AddTx E cn Generator = (\<lambda>(tx, sigs).
     bindE (liftE (ce_typeTx E tx)) (\<lambda>t.
       let TxHash = se_hashTx (ce_store E) (st_chainID (cn_store cn)) t tx
       in bindE (liftE (recover_signers (ce_recover E) TxHash sigs)) (\<lambda>signers.
            UnsafeAddTx E cn Generator t TxHash tx sigs signers)))"

definition bc_Finalize :: "('db, 'tx, 'cs) chain_env \<Rightarrow> ('db, 'tx, 'cs) chain \<Rightarrow> ('tx block_creator, 'tx block) go_meth" where
  "bc_Finalize E cn =
     bindE (\<lambda>bc. (BuildLevelRoot (bc_txHashes bc), bc)) (\<lambda>LevelRootHash.
     thenE (writeE (\<lambda>bc. bc\<lparr>bc_b := (bc_b bc)\<lparr>b_Header := (b_Header (bc_b bc))\<lparr>bh_LevelRootHash := LevelRootHash\<rparr>\<rparr>\<rparr>))
    (thenE (on_bc checkDirty)
    (thenE (\<lambda>bc. on_bc (each_process (\<lambda>p. pr_AfterExecuteTransactions p (bc_b bc)) cn) bc)
           (\<lambda>bc. case ctx_Hash (ce_hashers E) (bc_ctx bc) of (h, ctx) \<Rightarrow>
              let b = (bc_b bc)\<lparr>b_Header := (b_Header (bc_b bc))\<lparr>bh_ContextHash := h\<rparr>\<rparr>
              in (Inr b, bc\<lparr>bc_ctx := ctx, bc_b := b\<rparr>)))))"

end
