(* ===== verification/Replay.thy ===== *)
theory Replay
  imports Vault_Tx Context_Laws
begin

text \<open>
  Replaying on another node. Two contexts over the same loader with equal snapshots may still differ in their
  caches, for instance because one of them has run transactions that were reverted. A method is lawful when it
  cannot tell the two apart, keeps the snapshots below the one it started on, and leaves the loader and the
  generation fields alone. Lawful methods are closed under the combinators, every operation of the context is
  lawful, and so are the transactions of the vault.
\<close>

named_theorems lawful_intros

section \<open>Contexts that differ in their caches only\<close>

text \<open>The existence tests of a loader agree with its readers.\<close>

definition loader_ok :: "loader \<Rightarrow> bool" where
  "loader_ok ld \<longleftrightarrow>
     (\<forall>a acc. ld_Account ld a = Inr acc \<longrightarrow> ld_HasAccount ld a = Inr True) \<and>
     (\<forall>n a. ld_AddressByName ld n = Inr a \<longrightarrow> ld_HasAccountName ld n = Inr True)"

definition same_ctx :: "chain_ctx \<Rightarrow> chain_ctx \<Rightarrow> bool" where
  "same_ctx a b \<longleftrightarrow>
     loader_ok (ctx_loader a) \<and> ctx_wf a \<and> ctx_wf b \<and> \<not> ctx_isLatestHash a \<and> b = a\<lparr>ctx_cache := ctx_cache b\<rparr>"

text \<open>What a method leaves alone, when it started above the snapshots \<open>base\<close>.\<close>

definition ctx_kept :: "context_data list \<Rightarrow> chain_ctx \<Rightarrow> chain_ctx \<Rightarrow> bool" where
  "ctx_kept base a a' \<longleftrightarrow>
     ctx_loader a' = ctx_loader a \<and> ctx_genTargetHeight a' = ctx_genTargetHeight a \<and>
     ctx_genLastHash a' = ctx_genLastHash a \<and> ctx_genTimestamp a' = ctx_genTimestamp a \<and>
     ctx_dataHash a' = ctx_dataHash a \<and> (\<exists>xs. xs \<noteq> [] \<and> ctx_stack a' = xs @ base)"

definition on_top :: "context_data list \<Rightarrow> chain_ctx \<Rightarrow> bool" where
  "on_top base a \<longleftrightarrow> (\<exists>xs. xs \<noteq> [] \<and> ctx_stack a = xs @ base)"

definition lawful :: "(chain_ctx, 'a) go_meth \<Rightarrow> bool" where
  "lawful m \<longleftrightarrow>
     (\<forall>a b base. same_ctx a b \<and> on_top base a \<longrightarrow>
        fst (m a) = fst (m b) \<and> same_ctx (snd (m a)) (snd (m b)) \<and> ctx_kept base a (snd (m a)))"

lemma lawfulI:
  assumes "\<And>a b base. same_ctx a b \<Longrightarrow> on_top base a \<Longrightarrow>
    fst (m a) = fst (m b) \<and> same_ctx (snd (m a)) (snd (m b)) \<and> ctx_kept base a (snd (m a))"
  shows "lawful m"
  using assms unfolding lawful_def by blast

lemma lawfulD:
  assumes "lawful m" and "same_ctx a b" and "on_top base a"
  shows "fst (m a) = fst (m b)" and "same_ctx (snd (m a)) (snd (m b))" and "ctx_kept base a (snd (m a))"
  using assms unfolding lawful_def by blast+

lemma same_ctx_refl: "same_ctx a b \<Longrightarrow> same_ctx a a"
  by (simp add: same_ctx_def)

lemma same_ctx_trans: "same_ctx a b \<Longrightarrow> same_ctx b c \<Longrightarrow> same_ctx a c"
  by (metis (no_types, lifting) chain_ctx.surjective chain_ctx.update_convs(5) same_ctx_def)

lemma same_ctx_sym: "same_ctx a b \<Longrightarrow> same_ctx b a"
  by (metis (no_types, lifting) chain_ctx.cases_scheme chain_ctx.select_convs(1,5,7) chain_ctx.update_convs(5) same_ctx_def)

lemma on_top_kept: "ctx_kept base a b \<Longrightarrow> on_top base b"
  by (simp add: ctx_kept_def on_top_def)

lemma ctx_kept_refl: "on_top base a \<Longrightarrow> ctx_kept base a a"
  by (simp add: ctx_kept_def on_top_def)

lemma ctx_kept_trans: "ctx_kept base a b \<Longrightarrow> ctx_kept base b c \<Longrightarrow> ctx_kept base a c"
  by (simp add: ctx_kept_def)

lemma same_ctx_dirty: "same_ctx a b \<Longrightarrow> ctx_dirty a = a \<and> ctx_dirty b = b"
  by (cases a; cases b) (simp add: same_ctx_def ctx_dirty_def)

lemma same_ctx_fields:
  assumes "same_ctx a b"
  shows "ctx_loader b = ctx_loader a" "ctx_stack b = ctx_stack a" "ctx_genTargetHeight b = ctx_genTargetHeight a"
    "ctx_genLastHash b = ctx_genLastHash a" "ctx_genTimestamp b = ctx_genTimestamp a" "ctx_dataHash b = ctx_dataHash a"
    "ctx_isLatestHash b = ctx_isLatestHash a"
  using assms by (cases a; cases b; simp add: same_ctx_def)+

section \<open>The combinators\<close>

lemma lawful_const [lawful_intros]: "lawful (returnE x)" "lawful (throwE e)" "lawful (liftE r)" "lawful (failIf c e)"
  by (auto simp: lawful_def returnE_def throwE_def liftE_def failIf_def ctx_kept_refl)

lemma lawful_bindE [lawful_intros]:
  assumes "lawful m" and "\<And>x. lawful (k x)"
  shows "lawful (bindE m k)"
proof (rule lawfulI)
  fix a b base assume ab: "same_ctx a b" "on_top base a"
  obtain r a' r' b' where m: "m a = (r, a')" "m b = (r', b')" by (meson surj_pair)
  have *: "r' = r" "same_ctx a' b'" "ctx_kept base a a'" using lawfulD[OF assms(1) ab] m by auto
  have "fst (k x a') = fst (k x b') \<and> same_ctx (snd (k x a')) (snd (k x b')) \<and> ctx_kept base a (snd (k x a'))" for x
    using lawfulD[OF assms(2) *(2) on_top_kept[OF *(3)]] ctx_kept_trans[OF *(3)] by blast
  then show "fst (bindE m k a) = fst (bindE m k b) \<and> same_ctx (snd (bindE m k a)) (snd (bindE m k b)) \<and>
      ctx_kept base a (snd (bindE m k a))"
    using * m by (cases r) (simp_all add: bindE_def)
qed

lemma lawful_foreachE [lawful_intros]: "(\<And>x. x \<in> set xs \<Longrightarrow> lawful (f x)) \<Longrightarrow> lawful (foreachE f xs)"
  by (induction xs) (auto intro: lawful_intros)

lemma lawful_if [lawful_intros]: "lawful m \<Longrightarrow> lawful n \<Longrightarrow> lawful (if c then m else n)"
  by simp

lemma lawful_option [lawful_intros]: "lawful m \<Longrightarrow> (\<And>x. lawful (f x)) \<Longrightarrow> lawful (case r of None \<Rightarrow> m | Some x \<Rightarrow> f x)"
  by (cases r) auto

lemma lawful_Let [lawful_intros]: "lawful (f x) \<Longrightarrow> lawful (let y = x in f y)"
  by simp

text \<open>The target height is a field that no method changes.\<close>

lemma lawful_TargetHeight:
  assumes "\<And>h. lawful (k h)"
  shows "lawful (\<lambda>ctx. k (ctx_TargetHeight ctx) ctx)"
  using assms by (auto simp: lawful_def ctx_TargetHeight_def same_ctx_fields)

section \<open>The operations of a context\<close>

lemma on_top_Cons: "on_top base a \<Longrightarrow> \<exists>t xs. ctx_stack a = t # xs @ base"
  by (auto simp: on_top_def neq_Nil_conv)

lemma lawful_setTop:
  assumes "\<And>t. ctd_inv t \<Longrightarrow> ctd_inv (f t)" and "\<And>t. cd_isTop (f t) = cd_isTop t"
  shows "lawful (writeE (ctx_setTop f))"
proof (rule lawfulI)
  fix a b base assume ab: "same_ctx a b" "on_top base a"
  obtain t xs where s: "ctx_stack a = t # xs @ base" using on_top_Cons[OF ab(2)] by blast
  have wf: "ctx_wf (ctx_setTop f a)" "ctx_wf (ctx_setTop f b)"
    using ctx_local_setTop[of _ f, OF _ assms] ab(1) by (auto simp: same_ctx_def ctx_local_def)
  have "same_ctx (ctx_setTop f a) (ctx_setTop f b)"
    using ab(1) wf by (cases a; cases b) (simp add: same_ctx_def ctx_setTop_def)
  moreover have "ctx_kept base a (ctx_setTop f a)"
    using s by (auto simp: ctx_kept_def ctx_setTop_def intro: exI[of _ "f t # xs"])
  ultimately show "fst (writeE (ctx_setTop f) a :: (err + unit) \<times> _) = fst (writeE (ctx_setTop f) b) \<and>
      same_ctx (snd (writeE (ctx_setTop f) a :: (err + unit) \<times> _)) (snd (writeE (ctx_setTop f) b :: (err + unit) \<times> _)) \<and>
      ctx_kept base a (snd (writeE (ctx_setTop f) a :: (err + unit) \<times> _))"
    by (simp add: writeE_def)
qed

lemma lawful_dirty: "lawful m \<Longrightarrow> lawful (\<lambda>ctx. m (ctx_dirty ctx))"
  by (auto simp: lawful_def same_ctx_dirty)

lemma lawful_writes [lawful_intros]:
  "lawful (writeE (ctx_SetAccountData addr pid name value))" "lawful (writeE (ctx_SetProcessData pid name value))"
  "lawful (writeE (ctx_putAccount addr acc))" "lawful (ctx_EmitEvent e)"
proof -
  have "lawful (\<lambda>ctx. writeE (ctx_setTop (ctd_SetAccountData addr pid name value)) (ctx_dirty ctx))"
    by (intro lawful_dirty lawful_setTop) (auto simp: ctd_SetAccountData_def ctd_inv_def Let_def)
  then show "lawful (writeE (ctx_SetAccountData addr pid name value))"
    by (simp add: writeE_def ctx_SetAccountData_def[abs_def])
  have "lawful (\<lambda>ctx. writeE (ctx_setTop (\<lambda>ctd. ctd\<lparr>cd_Events := cd_Events ctd @ [e\<lparr>ev_N := cd_EventN ctd\<rparr>],
        cd_EventN := cd_EventN ctd + 1\<rparr>)) (ctx_dirty ctx))"
    by (intro lawful_dirty lawful_setTop) (auto simp: ctd_inv_def)
  then show "lawful (ctx_EmitEvent e)" by (simp add: writeE_def ctx_EmitEvent_def[abs_def])
  have "lawful (writeE (ctx_setTop (ctd_SetProcessData pid name value)))"
    by (intro lawful_setTop) (auto simp: ctd_SetProcessData_def ctd_inv_def Let_def)
  then show "lawful (writeE (ctx_SetProcessData pid name value))" by (simp add: writeE_def ctx_SetProcessData_def[abs_def])
  have "lawful (writeE (ctx_setTop (\<lambda>ctd. ctd\<lparr>cd_AccountMap := om_put addr acc (cd_AccountMap ctd)\<rparr>)))"
    by (intro lawful_setTop) (auto simp: ctd_inv_def)
  then show "lawful (writeE (ctx_putAccount addr acc))" by (simp add: writeE_def ctx_putAccount_def[abs_def])
qed

text \<open>
  A reader of the stack whose result and whose copy of it in the top snapshot do not depend on the cache.
\<close>

definition top_fixed :: "(loader \<Rightarrow> context_data list \<Rightarrow> context_cache \<Rightarrow> 'a \<times> ctd_stack) \<Rightarrow> bool" where
  "top_fixed f \<longleftrightarrow>
     (\<forall>ld t ps. stack_ok (t # ps) \<longrightarrow>
        (\<exists>r t'. stack_ok (t' # ps) \<and>
           (\<forall>cc. cache_ok ld cc \<longrightarrow> (\<exists>cc'. f ld (t # ps) cc = (r, t' # ps, cc') \<and> cache_ok ld cc'))))"

lemma top_fixedI:
  assumes "\<And>ld t ps. stack_ok (t # ps) \<Longrightarrow> \<exists>r t'. stack_ok (t' # ps) \<and>
    (\<forall>cc. cache_ok ld cc \<longrightarrow> (\<exists>cc'. f ld (t # ps) cc = (r, t' # ps, cc') \<and> cache_ok ld cc'))"
  shows "top_fixed f"
  using assms unfolding top_fixed_def by blast

lemma top_fixed_Account: "top_fixed (\<lambda>ld. ctd_Account ld a)"
proof (rule top_fixedI)
  fix ld t ps assume s: "stack_ok (t # ps)"
  then have p: "\<exists>cc'. ctd_Account ld a ps cc = (account_view ld ps a, ps, cc') \<and> cache_ok ld cc'" if "cache_ok ld cc" for cc
    using parents_Account[OF that] by simp
  let ?P = "\<lambda>r t'. stack_ok (t' # ps) \<and> (\<forall>cc. cache_ok ld cc \<longrightarrow>
    (\<exists>cc'. ctd_Account ld a (t # ps) cc = (r, t' # ps, cc') \<and> cache_ok ld cc'))"
  show "\<exists>r t'. ?P r t'"
  proof (cases "om_has (cd_DeletedAccountMap t) a \<or> om_get (cd_AccountMap t) a \<noteq> None \<or> isl (account_view ld ps a)")
    case True
    have "?P (account_view ld (t # ps) a) t" using s True p by (fastforce split: option.split simp: isl_def)
    then show ?thesis by blast
  next
    case False
    then obtain acc where acc: "account_view ld ps a = Inr acc" by (cases "account_view ld ps a") auto
    have "?P (Inr (acc_Clone acc)) (t\<lparr>cd_AccountMap := om_put a (acc_Clone acc) (cd_AccountMap t)\<rparr>)"
      using s False acc p by (fastforce simp: ctd_inv_def Let_def)
    then show ?thesis by blast
  qed
qed

lemma top_fixed_AddressByName: "top_fixed (\<lambda>ld. ctd_AddressByName ld n)"
proof (rule top_fixedI)
  fix ld t ps assume s: "stack_ok (t # ps)"
  then have p: "\<exists>cc'. ctd_AddressByName ld n ps cc = (name_view ld ps n, ps, cc') \<and> cache_ok ld cc'" if "cache_ok ld cc" for cc
    using parents_AddressByName[OF that] by simp
  let ?P = "\<lambda>r t'. stack_ok (t' # ps) \<and> (\<forall>cc. cache_ok ld cc \<longrightarrow>
    (\<exists>cc'. ctd_AddressByName ld n (t # ps) cc = (r, t' # ps, cc') \<and> cache_ok ld cc'))"
  show "\<exists>r t'. ?P r t'"
  proof (cases "om_get (cd_AccountNameMap t) n \<noteq> None \<or> isl (name_view ld ps n)")
    case True
    have "?P (name_view ld (t # ps) n) t" using s True p by (fastforce split: option.split simp: isl_def)
    then show ?thesis by blast
  next
    case False
    then obtain a where a: "name_view ld ps n = Inr a" by (cases "name_view ld ps n") auto
    have "?P (Inr a) (t\<lparr>cd_AccountNameMap := om_put n a (cd_AccountNameMap t)\<rparr>)"
      using s False a p by (fastforce simp: ctd_inv_def Let_def)
    then show ?thesis by blast
  qed
qed

lemma top_fixed_UTXO: "top_fixed (\<lambda>ld. ctd_UTXO ld i)"
proof (rule top_fixedI)
  fix ld t ps assume s: "stack_ok (t # ps)"
  then have p: "\<exists>cc'. ctd_UTXO ld i ps cc = (utxo_view ld ps i, ps, cc') \<and> cache_ok ld cc'" if "cache_ok ld cc" for cc
    using parents_UTXO[OF that] by simp
  let ?P = "\<lambda>r t'. stack_ok (t' # ps) \<and> (\<forall>cc. cache_ok ld cc \<longrightarrow>
    (\<exists>cc'. ctd_UTXO ld i (t # ps) cc = (r, t' # ps, cc') \<and> cache_ok ld cc'))"
  show "\<exists>r t'. ?P r t'"
  proof (cases "om_has (cd_DeletedUTXOMap t) i \<or> om_get (cd_UTXOMap t) i \<noteq> None \<or> isl (utxo_view ld ps i)")
    case True
    have "?P (utxo_view ld (t # ps) i) t" using s True p by (fastforce split: option.split simp: isl_def)
    then show ?thesis by blast
  next
    case False
    then obtain u where u: "utxo_view ld ps i = Inr u" by (cases "utxo_view ld ps i") auto
    have "?P (Inr u) (t\<lparr>cd_UTXOMap := om_put i u (cd_UTXOMap t)\<rparr>)"
      using s False u p by (fastforce simp: ctd_inv_def Let_def)
    then show ?thesis by blast
  qed
qed

lemma top_fixed_AccountData: "is_address a \<Longrightarrow> top_fixed (\<lambda>ld. ctd_AccountData ld a pid n)"
proof (rule top_fixedI)
  fix ld t ps assume a: "is_address a" and s: "stack_ok (t # ps)"
  let ?k = "accountData_key a pid n" and ?v = "stack_view ld ps (AData a pid n)"
  have p: "\<exists>cc'. ctd_AccountData ld a pid n ps cc = (?v, ps, cc') \<and> cache_ok ld cc'" if "cache_ok ld cc" for cc
    using parents_AccountData[OF that a] s by simp
  let ?P = "\<lambda>r t'. stack_ok (t' # ps) \<and> (\<forall>cc. cache_ok ld cc \<longrightarrow>
    (\<exists>cc'. ctd_AccountData ld a pid n (t # ps) cc = (r, t' # ps, cc') \<and> cache_ok ld cc'))"
  show "\<exists>r t'. ?P r t'"
  proof (cases "om_has (cd_DeletedAccountDataMap t) ?k \<or> om_get (cd_AccountDataMap t) ?k \<noteq> None \<or> ?v = []")
    case True
    have "?P (stack_view ld (t # ps) (AData a pid n)) t"
      using s True p by (fastforce split: option.split simp: alayer_def Let_def)
    then show ?thesis by blast
  next
    case False
    have "?P ?v (t\<lparr>cd_AccountDataMap := om_put ?k ?v (cd_AccountDataMap t)\<rparr>)"
      using s False p by (fastforce simp: ctd_inv_def Let_def)
    then show ?thesis by blast
  qed
qed

lemma top_fixed_ProcessData: "top_fixed (\<lambda>ld. ctd_ProcessData ld pid n)"
proof (rule top_fixedI)
  fix ld t ps assume s: "stack_ok (t # ps)"
  let ?k = "processData_key pid n" and ?v = "stack_view ld ps (PData pid n)"
  have p: "\<exists>cc'. ctd_ProcessData ld pid n ps cc = (?v, ps, cc') \<and> cache_ok ld cc'" if "cache_ok ld cc" for cc
    using parents_ProcessData[OF that] s by simp
  let ?P = "\<lambda>r t'. stack_ok (t' # ps) \<and> (\<forall>cc. cache_ok ld cc \<longrightarrow>
    (\<exists>cc'. ctd_ProcessData ld pid n (t # ps) cc = (r, t' # ps, cc') \<and> cache_ok ld cc'))"
  show "\<exists>r t'. ?P r t'"
  proof (cases "om_has (cd_DeletedProcessDataMap t) ?k \<or> om_get (cd_ProcessDataMap t) ?k \<noteq> None \<or> ?v = []")
    case True
    have "?P (stack_view ld (t # ps) (PData pid n)) t"
      using s True p by (fastforce split: option.split simp: player_def Let_def)
    then show ?thesis by blast
  next
    case False
    have "?P ?v (t\<lparr>cd_ProcessDataMap := om_put ?k ?v (cd_ProcessDataMap t)\<rparr>)"
      using s False p by (fastforce simp: ctd_inv_def Let_def)
    then show ?thesis by blast
  qed
qed

lemma ctx_read_same:
  assumes "top_fixed f" and "same_ctx a b" and "on_top base a"
  shows "fst (ctx_read f a) = fst (ctx_read f b) \<and> same_ctx (snd (ctx_read f a)) (snd (ctx_read f b)) \<and>
    ctx_kept base a (snd (ctx_read f a))"
proof -
  obtain t xs where s: "ctx_stack a = t # xs @ base" using on_top_Cons[OF assms(3)] by blast
  have c: "cache_ok (ctx_loader a) (ctx_cache a)" "cache_ok (ctx_loader a) (ctx_cache b)" "stack_ok (t # xs @ base)"
    using assms(2) s same_ctx_fields[OF assms(2)] by (auto simp: same_ctx_def ctx_wf_def)
  obtain r t' where t: "stack_ok (t' # xs @ base)" and r: "\<forall>cc. cache_ok (ctx_loader a) cc \<longrightarrow>
      (\<exists>cc'. f (ctx_loader a) (t # xs @ base) cc = (r, t' # xs @ base, cc') \<and> cache_ok (ctx_loader a) cc')"
    using assms(1) c(3) unfolding top_fixed_def by blast
  obtain ca where ca: "f (ctx_loader a) (t # xs @ base) (ctx_cache a) = (r, t' # xs @ base, ca)" "cache_ok (ctx_loader a) ca"
    using r c(1) by blast
  obtain cb where cb: "f (ctx_loader a) (t # xs @ base) (ctx_cache b) = (r, t' # xs @ base, cb)" "cache_ok (ctx_loader a) cb"
    using r c(2) by blast
  have ra: "ctx_read f a = (r, a\<lparr>ctx_stack := t' # xs @ base, ctx_cache := ca\<rparr>)"
    using ca s by (simp add: ctx_read_def)
  have rb: "ctx_read f b = (r, b\<lparr>ctx_stack := t' # xs @ base, ctx_cache := cb\<rparr>)"
    using cb s same_ctx_fields[OF assms(2)] by (simp add: ctx_read_def)
  have "same_ctx (a\<lparr>ctx_stack := t' # xs @ base, ctx_cache := ca\<rparr>) (b\<lparr>ctx_stack := t' # xs @ base, ctx_cache := cb\<rparr>)"
    using assms(2) t ca(2) cb(2) by (cases a; cases b) (simp add: same_ctx_def ctx_wf_def)
  moreover have "ctx_kept base a (a\<lparr>ctx_stack := t' # xs @ base, ctx_cache := ca\<rparr>)"
    by (auto simp: ctx_kept_def intro: exI[of _ "t' # xs"])
  ultimately show ?thesis using ra rb by simp
qed

lemma lawful_ctx_read: "top_fixed f \<Longrightarrow> lawful (ctx_read f)"
  using ctx_read_same by (intro lawfulI) blast

lemma lawful_readE: "top_fixed f \<Longrightarrow> lawful (readE (ctx_read f))"
  using ctx_read_same by (intro lawfulI) (simp add: readE_run, blast)

text \<open>Computing with the value read is lawful as well.\<close>

lemma lawful_readE_value [lawful_intros]:
  assumes "lawful (readE f)"
  shows "lawful (readE (\<lambda>ctx. case f ctx of (x, ctx) \<Rightarrow> (h x, ctx)) :: (chain_ctx, 'b) go_meth)"
proof -
  have "(readE (\<lambda>ctx. case f ctx of (x, ctx) \<Rightarrow> (h x, ctx)) :: (chain_ctx, 'b) go_meth) = bindE (readE f) (\<lambda>x. returnE (h x))"
    by (auto simp: readE_def bindE_def returnE_def Let_def split: prod.split)
  then show ?thesis using assms by (simp add: lawful_intros)
qed

lemma lawful_data [lawful_intros]:
  "is_address addr \<Longrightarrow> lawful (readE (ctx_AccountData addr pid name))"
  "lawful (readE (ctx_ProcessData pid name))"
  using lawful_readE[OF top_fixed_AccountData] lawful_readE[OF top_fixed_ProcessData]
  by (simp_all add: ctx_AccountData_def[abs_def] ctx_ProcessData_def[abs_def])

lemma lawful_readers [lawful_intros]:
  "lawful (ctx_Account a)" "lawful (ctx_AddressByName n)" "lawful (ctx_UTXO i)"
  using lawful_dirty[OF lawful_ctx_read[OF top_fixed_Account]] lawful_ctx_read[OF top_fixed_AddressByName]
    lawful_ctx_read[OF top_fixed_UTXO]
  by (simp_all add: ctx_Account_def[abs_def] ctx_AddressByName_def[abs_def] ctx_UTXO_def[abs_def])

lemma HasAccount_cache:
  assumes "loader_ok ld" and "cache_ok ld cc"
  shows "ctd_HasAccount ld a s cc = ctd_HasAccount ld a s newContextCache"
    and "ctd_HasAccountName ld n s cc = ctd_HasAccountName ld n s newContextCache"
proof -
  have "cc_HasAccount ld a cc = cc_HasAccount ld a newContextCache"
    using assms by (auto simp: cc_HasAccount_def loader_ok_def cache_ok_def om_has_def newContextCache_def split: option.splits)
  then show "ctd_HasAccount ld a s cc = ctd_HasAccount ld a s newContextCache" by (induction s) auto
  have "cc_HasAccountName ld n cc = cc_HasAccountName ld n newContextCache"
    using assms by (auto simp: cc_HasAccountName_def loader_ok_def cache_ok_def om_has_def newContextCache_def split: option.splits)
  then show "ctd_HasAccountName ld n s cc = ctd_HasAccountName ld n s newContextCache" by (induction s) auto
qed

lemma HasAccount_same:
  assumes "same_ctx a b"
  shows "ctd_HasAccount (ctx_loader b) x (ctx_stack b) (ctx_cache b) = ctd_HasAccount (ctx_loader a) x (ctx_stack a) (ctx_cache a)"
    and "ctd_HasAccountName (ctx_loader b) n (ctx_stack b) (ctx_cache b) = ctd_HasAccountName (ctx_loader a) n (ctx_stack a) (ctx_cache a)"
proof -
  have "loader_ok (ctx_loader a)" "cache_ok (ctx_loader a) (ctx_cache a)" "cache_ok (ctx_loader a) (ctx_cache b)"
    using assms same_ctx_fields[OF assms] by (auto simp: same_ctx_def ctx_wf_def)
  note c = HasAccount_cache[OF this(1,2)] HasAccount_cache[OF this(1,3)]
  show "ctd_HasAccount (ctx_loader b) x (ctx_stack b) (ctx_cache b) = ctd_HasAccount (ctx_loader a) x (ctx_stack a) (ctx_cache a)"
    "ctd_HasAccountName (ctx_loader b) n (ctx_stack b) (ctx_cache b) = ctd_HasAccountName (ctx_loader a) n (ctx_stack a) (ctx_cache a)"
    by (simp_all add: same_ctx_fields[OF assms] c)
qed

lemma lawful_Has [lawful_intros]: "lawful (ctx_HasAccount x)" "lawful (ctx_HasAccountName n)"
  by (auto simp: lawful_def ctx_HasAccount_def ctx_HasAccountName_def HasAccount_same ctx_kept_refl)

lemma lawful_check:
  assumes "\<And>a b. same_ctx a b \<Longrightarrow> check b = check a" and "\<And>x. lawful (k x)"
  shows "lawful (\<lambda>ctx. k (check ctx) ctx)"
  using assms by (auto simp: lawful_def)

lemma lawful_create [lawful_intros]:
  "lawful (ctx_CreateAccount d acc)" "lawful (ctx_CreateAccountIgnoreDelete d acc)"
proof -
  have check: "check_new_account d ignored acc b = check_new_account d ignored acc a" if "same_ctx a b" for a b ignored
    unfolding check_new_account_def HasAccount_same[OF that] by (simp add: ctx_TargetHeight_def same_ctx_fields(3)[OF that])
  have k: "lawful (\<lambda>ctx. case r of Inl e \<Rightarrow> (Inl e, ctx) | Inr (u::unit) \<Rightarrow> (Inr (), ctx_setTop (insert_account acc) ctx))"
    (is "lawful (?k r)") for r
    using lawful_const(2) lawful_setTop[of "insert_account acc"]
    by (cases r) (simp_all add: throwE_def writeE_def insert_account_def ctd_inv_def)
  have "lawful (\<lambda>ctx. ?k (check_new_account d ignored acc ctx) ctx)" for ignored
    by (rule lawful_check[where check = "check_new_account d ignored acc" and k = ?k]) (erule check, rule k)
  note * = lawful_dirty[OF this]
  show "lawful (ctx_CreateAccount d acc)" "lawful (ctx_CreateAccountIgnoreDelete d acc)"
    using *[of "[TypesErr ErrNotExistAccount]"] *[of "[TypesErr ErrNotExistAccount, TypesErr ErrDeletedAccount]"]
    by (simp_all add: ctx_CreateAccount_def[abs_def] ctx_CreateAccountIgnoreDelete_def[abs_def] Let_def)
qed

lemma lawful_delete [lawful_intros]: "lawful (ctx_DeleteAccount acc)"
proof -
  let ?f = "\<lambda>ctd. ctd\<lparr>cd_DeletedAccountMap := om_put (acc_Address acc) acc (cd_DeletedAccountMap ctd),
             cd_AccountMap := om_delete (acc_Address acc) (cd_AccountMap ctd),
             cd_AccountNameMap := om_delete (acc_Name acc) (cd_AccountNameMap ctd)\<rparr>"
  have "ctx_DeleteAccount acc = bindE (ctx_Account (acc_Address acc)) (\<lambda>_. writeE (ctx_setTop ?f))"
    by (auto simp: ctx_DeleteAccount_def bindE_def writeE_def split: prod.split sum.split)
  moreover have "lawful (writeE (ctx_setTop ?f))" by (rule lawful_setTop) (auto simp: ctd_inv_def)
  ultimately show ?thesis by (simp add: lawful_intros)
qed

lemma lawful_UTXO_ops [lawful_intros]: "lawful (ctx_CreateUTXO i out)" "lawful (ctx_DeleteUTXO u)"
proof -
  let ?f = "\<lambda>ctd. ctd\<lparr>cd_CreatedUTXOMap := om_put i out (cd_CreatedUTXOMap ctd)\<rparr>"
  let ?m = "ctx_UTXO i"
  have f: "lawful (writeE (ctx_setTop ?f))" by (rule lawful_setTop) (auto simp: ctd_inv_def)
  have "lawful (\<lambda>ctx. case ?m ctx of (Inl e, ctx') \<Rightarrow>
      if e \<noteq> TypesErr ErrNotExistUTXO then (Inl e, ctx') else (Inr (), ctx_setTop ?f ctx')
    | (Inr _, ctx') \<Rightarrow> (Inl (TypesErr ErrExistUTXO), ctx'))" (is "lawful ?n")
  proof (rule lawfulI)
    fix a b base assume ab: "same_ctx a b" "on_top base a"
    obtain r a' r' b' where m: "?m a = (r, a')" "?m b = (r', b')" by (meson surj_pair)
    have *: "r' = r" "same_ctx a' b'" "ctx_kept base a a'" using lawfulD[OF lawful_readers(3)[of i] ab] m by auto
    have "same_ctx (ctx_setTop ?f a') (ctx_setTop ?f b')" "ctx_kept base a (ctx_setTop ?f a')"
      using lawfulD[OF f *(2) on_top_kept[OF *(3)]] ctx_kept_trans[OF *(3)] by (simp_all add: writeE_def)
    then show "fst (?n a) = fst (?n b) \<and> same_ctx (snd (?n a)) (snd (?n b)) \<and> ctx_kept base a (snd (?n a))"
      using m * by (cases r) auto
  qed
  from lawful_dirty[OF this] show "lawful (ctx_CreateUTXO i out)"
    unfolding ctx_CreateUTXO_def[abs_def] by simp
  let ?g = "\<lambda>ctd. ctd\<lparr>cd_DeletedUTXOMap := om_put (txin_ID (ux_TxIn u)) u (cd_DeletedUTXOMap ctd)\<rparr>"
  have "lawful (bindE (ctx_UTXO (txin_ID (ux_TxIn u))) (\<lambda>_. writeE (ctx_setTop ?g)))"
    by (intro lawful_intros lawful_setTop) (auto simp: ctd_inv_def)
  note lawful_dirty[OF this]
  moreover have "ctx_DeleteUTXO u = (\<lambda>ctx. bindE (ctx_UTXO (txin_ID (ux_TxIn u))) (\<lambda>_. writeE (ctx_setTop ?g)) (ctx_dirty ctx))"
    by (auto simp: ctx_DeleteUTXO_def bindE_def writeE_def split: prod.split sum.split)
  ultimately show "lawful (ctx_DeleteUTXO u)" by simp
qed

lemma lawful_UseTimeSlot [lawful_intros]: "lawful (ctx_UseTimeSlot slot key)"
proof (rule lawfulI)
  fix a b base assume ab: "same_ctx a b" "on_top base a"
  let ?f = "\<lambda>ctd. ctd\<lparr>cd_TimeSlotMap := mark_slot slot key (cd_TimeSlotMap ctd)\<rparr>"
  have has: "ctx_UseTimeSlot slot key c = (if slot_marked slot key (cd_TimeSlotMap (ctx_Top c)) then (Inl (TypesErr ErrUsedTimeSlot), c)
      else (if ld_HasTimeSlot (ctx_loader c) slot key then Inl (TypesErr ErrUsedTimeSlot) else Inr (),
            ctx_setTop ?f (c\<lparr>ctx_cache := snd (cc_HasTimeSlot (ctx_loader c) slot key (ctx_cache c))\<rparr>)))" (is ?thesis1)
    and ok: "cache_ok (ctx_loader c) (snd (cc_HasTimeSlot (ctx_loader c) slot key (ctx_cache c)))" (is ?thesis2)
    if w: "ctx_wf c" for c
  proof -
    obtain cc where "cc_HasTimeSlot (ctx_loader c) slot key (ctx_cache c) = (ld_HasTimeSlot (ctx_loader c) slot key, cc)"
      "cache_ok (ctx_loader c) cc"
      by (rule cache_ok_HasTimeSlot[of "ctx_loader c" "ctx_cache c" slot key]) (use w in \<open>simp add: ctx_wf_def\<close>)
    then show ?thesis1 ?thesis2 by (simp_all add: ctx_UseTimeSlot_def Let_def)
  qed
  have wf: "ctx_wf a" "ctx_wf b" using ab by (simp_all add: same_ctx_def)
  let ?c = "\<lambda>c. c\<lparr>ctx_cache := snd (cc_HasTimeSlot (ctx_loader c) slot key (ctx_cache c))\<rparr>"
  have "same_ctx (?c a) (?c b)" "on_top base (?c a)" "ctx_kept base a (?c a)"
    using ab ok[OF wf(1)] ok[OF wf(2)] by (cases a; cases b; simp add: same_ctx_def ctx_wf_def on_top_def ctx_kept_def)+
  moreover have "lawful (writeE (ctx_setTop ?f))"
    by (rule lawful_setTop) (auto simp: ctd_inv_def)
  ultimately have "same_ctx (ctx_setTop ?f (?c a)) (ctx_setTop ?f (?c b))" "ctx_kept base a (ctx_setTop ?f (?c a))"
    using lawfulD[of "writeE (ctx_setTop ?f)" "?c a" "?c b" base] ctx_kept_trans by (auto simp: writeE_def)
  then show "fst (ctx_UseTimeSlot slot key a) = fst (ctx_UseTimeSlot slot key b) \<and>
      same_ctx (snd (ctx_UseTimeSlot slot key a)) (snd (ctx_UseTimeSlot slot key b)) \<and>
      ctx_kept base a (snd (ctx_UseTimeSlot slot key a))"
    using ab ctx_kept_refl[OF ab(2)] by (simp add: has[OF wf(1)] has[OF wf(2)] ctx_Top_def same_ctx_fields[OF ab(1)])
qed

section \<open>Snapshots\<close>

lemma same_ctx_Snapshot:
  assumes "same_ctx a b"
  shows "fst (ctx_Snapshot b) = fst (ctx_Snapshot a)" "fst (ctx_Snapshot a) = length (ctx_stack a) + 1"
    and "same_ctx (snd (ctx_Snapshot a)) (snd (ctx_Snapshot b))"
    and "ctx_stack (snd (ctx_Snapshot a)) = NewContextData (ctx_stack a) # (hd (ctx_stack a))\<lparr>cd_isTop := False\<rparr> # tl (ctx_stack a)"
proof -
  obtain t ps where s: "ctx_stack a = t # ps" using assms by (auto simp: same_ctx_def ctx_wf_def elim: stack_okE)
  then show "fst (ctx_Snapshot b) = fst (ctx_Snapshot a)" "fst (ctx_Snapshot a) = length (ctx_stack a) + 1"
    "ctx_stack (snd (ctx_Snapshot a)) = NewContextData (ctx_stack a) # (hd (ctx_stack a))\<lparr>cd_isTop := False\<rparr> # tl (ctx_stack a)"
    using same_ctx_fields[OF assms] by (simp_all add: ctx_Snapshot_def ctx_setTop_def ctx_dirty_def Let_def)
  show "same_ctx (snd (ctx_Snapshot a)) (snd (ctx_Snapshot b))"
    using assms s by (cases a; cases b) (auto simp: same_ctx_def ctx_wf_def ctx_Snapshot_def ctx_setTop_def ctx_dirty_def Let_def)
qed

lemma commit_loop_short: "commit_loop sn s = Some s' \<Longrightarrow> length s' < sn"
proof (induction sn s rule: commit_loop.induct)
  case (1 sn s)
  then show ?case by (auto simp: commit_loop.simps[of sn s] split: if_splits list.splits)
qed

text \<open>
  Reverting to a snapshot that was taken on \<open>t # ps\<close> gives these snapshots back; committing leaves one
  snapshot in the place of \<open>t\<close>.
\<close>

lemma same_ctx_Revert:
  assumes "same_ctx a b" and "ctx_stack a = xs @ t\<lparr>cd_isTop := False\<rparr> # ps" and "xs \<noteq> []" and "cd_isTop t"
  shows "ctx_Revert (length ps + 2) a = (Inr (), a\<lparr>ctx_isLatestHash := False, ctx_stack := t # ps\<rparr>)" (is "?R a = _")
    and "fst (ctx_Revert (length ps + 2) b) = Inr ()"
    and "same_ctx (snd (ctx_Revert (length ps + 2) a)) (snd (ctx_Revert (length ps + 2) b))"
proof -
  have b: "ctx_stack b = xs @ t\<lparr>cd_isTop := False\<rparr> # ps" using assms(2) same_ctx_fields[OF assms(1)] by simp
  have r: "?R c = (Inr (), c\<lparr>ctx_isLatestHash := False, ctx_stack := t # ps\<rparr>)"
    if "ctx_stack c = xs @ t\<lparr>cd_isTop := False\<rparr> # ps" for c
    using that assms(3,4) by (cases xs) (auto simp: ctx_Revert_def ctx_dirty_def ctx_setTop_def Let_def)
  show "?R a = (Inr (), a\<lparr>ctx_isLatestHash := False, ctx_stack := t # ps\<rparr>)" "fst (?R b) = Inr ()"
    using r[OF assms(2)] r[OF b] by simp_all
  have "stack_ok (xs @ t\<lparr>cd_isTop := False\<rparr> # ps)" using assms(1,2) by (auto simp: same_ctx_def ctx_wf_def)
  then have "stack_ok (t # ps)" using assms(3,4) by (cases xs) auto
  then show "same_ctx (snd (?R a)) (snd (?R b))"
    using r[OF assms(2)] r[OF b] assms(1) by (cases a; cases b) (auto simp: same_ctx_def ctx_wf_def)
qed

lemma same_ctx_Commit:
  assumes "same_ctx a b" and "ctx_stack a = xs @ t # ps" and "xs \<noteq> []"
  shows "\<exists>t'. ctx_Commit (length ps + 2) a = (Inr (), a\<lparr>ctx_isLatestHash := False, ctx_stack := t' # ps\<rparr>)" (is "\<exists>t'. ?C a = _ t'")
    and "fst (ctx_Commit (length ps + 2) b) = Inr ()"
    and "same_ctx (snd (ctx_Commit (length ps + 2) a)) (snd (ctx_Commit (length ps + 2) b))"
proof -
  have b: "ctx_stack b = ctx_stack a" using same_ctx_fields[OF assms(1)] by simp
  have ok: "\<forall>q\<in>set (xs @ [t]). ctd_inv q" "\<forall>q\<in>set ps. \<not> cd_isTop q \<and> ctd_inv q"
    using assms by (cases xs; auto simp: same_ctx_def ctx_wf_def)+
  obtain y ys where y: "commit_loop (length ps + 2) ((xs @ [t]) @ ps) = Some (y # ys @ ps)" "ctd_inv y"
    using commit_loop_above[of ps "length ps + 2" "xs @ [t]"] ok(1) by auto
  have "length (y # ys @ ps) < length ps + 2"
    using commit_loop_short[OF y(1)] by simp
  then have ys: "ys = []" by simp
  have c: "?C c = (Inr (), c\<lparr>ctx_isLatestHash := False, ctx_stack := y\<lparr>cd_isTop := True\<rparr> # ps\<rparr>)"
    if "ctx_stack c = ctx_stack a" for c
    using that y ys assms(2) by (simp add: ctx_Commit_def ctx_dirty_def ctx_setTop_def Let_def)
  show "\<exists>t'. ?C a = (Inr (), a\<lparr>ctx_isLatestHash := False, ctx_stack := t' # ps\<rparr>)" "fst (?C b) = Inr ()"
    using c[OF refl] c[OF b] by auto
  have "stack_ok (y\<lparr>cd_isTop := True\<rparr> # ps)" using ok y(2) by auto
  then show "same_ctx (snd (?C a)) (snd (?C b))"
    using c[OF refl] c[OF b] assms(1) by (cases a; cases b) (auto simp: same_ctx_def ctx_wf_def)
qed

text \<open>A lawful method between a snapshot and its end.\<close>

lemma snapshot_run:
  assumes "lawful m" and "same_ctx a b"
  obtains t ps r xs a' b' where "ctx_stack a = t # ps" and "cd_isTop t"
    and "ctx_Snapshot a = (length ps + 2, snd (ctx_Snapshot a))" and "ctx_Snapshot b = (length ps + 2, snd (ctx_Snapshot b))"
    and "m (snd (ctx_Snapshot a)) = (r, a')" and "m (snd (ctx_Snapshot b)) = (r, b')" and "same_ctx a' b'"
    and "ctx_stack a' = xs @ t\<lparr>cd_isTop := False\<rparr> # ps" and "xs \<noteq> []" and "ctx_kept (t\<lparr>cd_isTop := False\<rparr> # ps) a a'"
proof -
  obtain t ps where s: "ctx_stack a = t # ps" "cd_isTop t" using assms(2) by (auto simp: same_ctx_def ctx_wf_def elim: stack_okE)
  let ?a = "snd (ctx_Snapshot a)" and ?b = "snd (ctx_Snapshot b)" and ?base = "t\<lparr>cd_isTop := False\<rparr> # ps"
  note sn = same_ctx_Snapshot[OF assms(2)]
  obtain r a' r' b' where m: "m ?a = (r, a')" "m ?b = (r', b')" by (meson surj_pair)
  have "on_top ?base ?a" using sn(4) s(1) by (auto simp: on_top_def intro: exI[of _ "[_]"])
  note l = lawfulD[OF assms(1) sn(3) this]
  then obtain xs where xs: "ctx_stack a' = xs @ ?base" "xs \<noteq> []" using m by (auto simp: ctx_kept_def)
  have "ctx_kept ?base a a'"
    using l(3) m by (simp add: ctx_kept_def ctx_Snapshot_def ctx_setTop_def ctx_dirty_def Let_def)
  moreover have "ctx_Snapshot a = (length ps + 2, ?a)" "ctx_Snapshot b = (length ps + 2, ?b)"
    using sn(1,2) s(1) by (simp_all add: prod_eq_iff)
  ultimately show thesis
    using that[of t ps r a' b' xs] s l m xs by simp
qed

lemma ctx_kept_retop:
  assumes "ctx_kept base' a a'" and "on_top base a" and "ctx_stack a = t # ps"
  shows "ctx_kept base a (a'\<lparr>ctx_isLatestHash := False, ctx_stack := t' # ps\<rparr>)"
proof -
  obtain xs where "ctx_stack a = (t # xs) @ base" using on_top_Cons[OF assms(2)] assms(3) by auto
  then show ?thesis using assms(1,3) by (auto simp: ctx_kept_def intro: exI[of _ "t' # xs"])
qed

lemma lawful_in_snapshot [lawful_intros]:
  assumes "lawful m"
  shows "lawful (in_snapshot m)"
proof (rule lawfulI)
  fix a b base assume ab: "same_ctx a b" "on_top base a"
  obtain t ps r xs a' b' where 1: "ctx_stack a = t # ps" "cd_isTop t"
    "ctx_Snapshot a = (length ps + 2, snd (ctx_Snapshot a))" "ctx_Snapshot b = (length ps + 2, snd (ctx_Snapshot b))"
    "m (snd (ctx_Snapshot a)) = (r, a')" "m (snd (ctx_Snapshot b)) = (r, b')" "same_ctx a' b'"
    "ctx_stack a' = xs @ t\<lparr>cd_isTop := False\<rparr> # ps" "xs \<noteq> []" "ctx_kept (t\<lparr>cd_isTop := False\<rparr> # ps) a a'"
    using snapshot_run[OF assms ab(1)] .
  note R = same_ctx_Revert[OF 1(7,8,9,2)] and C = same_ctx_Commit[OF 1(7,8,9)] and K = ctx_kept_retop[OF 1(10) ab(2) 1(1)]
  let ?n = "length ps + 2"
  have "in_snapshot m c = (case m (snd (ctx_Snapshot c)) of
      (Inl e, c) \<Rightarrow> (case ctx_Revert ?n c of (Inl e', c) \<Rightarrow> (Inl e', c) | (Inr _, c) \<Rightarrow> (Inl e, c))
    | (Inr _, c) \<Rightarrow> ctx_Commit ?n c)" if "ctx_Snapshot c = (?n, snd (ctx_Snapshot c))" for c
    unfolding in_snapshot_def by (subst that) (simp only: prod.case)
  note i = this[OF 1(3)] this[OF 1(4)]
  show "fst (in_snapshot m a) = fst (in_snapshot m b) \<and> same_ctx (snd (in_snapshot m a)) (snd (in_snapshot m b)) \<and>
      ctx_kept base a (snd (in_snapshot m a))"
  proof (cases r)
    case (Inl e)
    obtain b'' where "ctx_Revert ?n b' = (Inr (), b'')" using R(2) by (metis prod.collapse)
    then show ?thesis using R K i 1(5,6) Inl by simp
  next
    case (Inr u)
    obtain t' where "ctx_Commit ?n a' = (Inr (), a'\<lparr>ctx_isLatestHash := False, ctx_stack := t' # ps\<rparr>)" using C(1) by blast
    then show ?thesis using C(2,3) K[of t'] i 1(5,6) Inr by simp
  qed
qed

section \<open>The transactions of the vault\<close>

lemma lawful_amounts [lawful_intros]:
  "is_address addr \<Longrightarrow> lawful (readE (Balance p addr))"
  "is_address addr \<Longrightarrow> lawful (readE (TotalLockedBalanceByAddress p addr))"
  "lawful (readE (LockedBalance p addr h))" "lawful (readE (CollectedFee p))" "lawful (readE (GetDefaultFee p))"
  unfolding Balance_def[abs_def] TotalLockedBalanceByAddress_def[abs_def] LockedBalance_def[abs_def] CollectedFee_def[abs_def]
    GetDefaultFee_def[abs_def]
  by (intro lawful_intros; assumption?)+

lemma lawful_balances [lawful_intros]:
  assumes "is_address addr"
  shows "lawful (AddBalance p addr am)" "lawful (SubBalance p addr am)" "lawful (AddLockedBalance p addr h am)"
  unfolding AddBalance_def SubBalance_def RemoveBalance_def AddLockedBalance_def
  by (intro lawful_intros assms)+

lemma lawful_fees [lawful_intros]:
  "lawful (AddCollectedFee p am)" "lawful (SubCollectedFee p am)"
  "is_address From \<Longrightarrow> lawful (readE Fee) \<Longrightarrow> lawful (CheckFeePayableWith p From Fee am')"
  "is_address From \<Longrightarrow> lawful (readE Fee) \<Longrightarrow> lawful fn \<Longrightarrow> lawful (WithFee p From Fee fn)"
  unfolding AddCollectedFee_def SubCollectedFee_def CheckFeePayableWith_def WithFee_def
  by (intro lawful_intros; assumption)+

lemma lawful_checks [lawful_intros]:
  "lawful (validateFrom From signers)" "lawful (checkDust am)" "lawful (checkAccountExists addr)" "lawful (checkNameFree nm)"
  unfolding validateFrom_def checkDust_def checkAccountExists_def checkNameFree_def
  by (intro lawful_intros)+

lemma lawful_admin [lawful_intros]: "lawful (AdminAddress p name)" "lawful (checkAdmin p name addr)"
proof -
  have "AdminAddress p name = bindE (readE (ctx_ProcessData (ad_pid p) (toAdminAddressKey name)))
      (\<lambda>bs. if length bs = 0 then throwE Panic else returnE (go_copy (zeros AddressSize) bs))"
    by (auto simp: AdminAddress_def bindE_def readE_def throwE_def returnE_def split: prod.split)
  then show "lawful (AdminAddress p name)" by (simp only:) (intro lawful_intros)
  then show "lawful (checkAdmin p name addr)" unfolding checkAdmin_def by (intro lawful_intros)
qed

lemma lawful_transferAmount [lawful_intros]:
  "is_address From \<Longrightarrow> is_address To \<Longrightarrow> lawful (transferAmount p From To am)"
  unfolding transferAmount_def by (intro lawful_intros)

lemma lawful_create_here [lawful_intros]: "lawful (\<lambda>ctx. ctx_CreateAccount d (mk (ctx_TargetHeight ctx)) ctx)"
  by (rule lawful_TargetHeight) (rule lawful_intros)

text \<open>The hook that unlocks the balances of a height: the flushed map has addresses as its keys.\<close>

definition yields :: "('a \<Rightarrow> bool) \<Rightarrow> (chain_ctx, 'a) go_meth \<Rightarrow> bool" where
  "yields P m \<longleftrightarrow> (\<forall>s x s'. m s = (Inr x, s') \<longrightarrow> P x)"

lemma lawful_bindE_yields:
  assumes "lawful m" and "yields P m" and "\<And>x. P x \<Longrightarrow> lawful (k x)"
  shows "lawful (bindE m k)"
proof -
  have "bindE m k = bindE m (\<lambda>x. if P x then k x else returnE undefined)"
    using assms(2) by (auto simp: bindE_def yields_def fun_eq_iff split: prod.split sum.split)
  moreover have "lawful (\<dots>)" using assms(1,3) by (intro lawful_bindE) (auto intro: lawful_intros)
  ultimately show ?thesis by simp
qed

lemma lawful_flush_loop: "lawful (readE (flush_loop p h n i m))"
proof (induction n arbitrary: i m)
  case 0
  have "readE (flush_loop p h 0 i m) = returnE m" by (auto simp: readE_def returnE_def)
  then show ?case using lawful_const(1)[of m] by metis
next
  case (Suc n)
  let ?set = "\<lambda>k. writeE (ctx_SetProcessData (vt_pid p) k [])"
  have "(readE (flush_loop p h (Suc n) i m) :: (chain_ctx, (address, amount) omap) go_meth) =
    bindE (readE (ctx_ProcessData (vt_pid p) (toLockedBalanceReverseKey h i))) (\<lambda>bs.
      let addr = go_copy (zeros AddressSize) bs
      in bindE (readE (LockedBalance p addr h)) (\<lambda>b.
         thenE (?set (toLockedBalanceKey h addr)) (thenE (?set (toLockedBalanceNumberKey h addr))
           (thenE (?set (toLockedBalanceReverseKey h i)) (readE (flush_loop p h n (i + 1) (om_put addr b m)))))))"
    by (auto simp: readE_def bindE_def writeE_def Let_def fun_eq_iff split: prod.split)
  moreover have "lawful (\<dots>)" by (intro lawful_intros Suc)
  ultimately show ?case by (simp only:)
qed

lemma flush_loop_addresses:
  "\<forall>a\<in>fst ` set m. is_address a \<Longrightarrow> flush_loop p h n i m ctx = (m', ctx') \<Longrightarrow> \<forall>a\<in>fst ` set m'. is_address a"
proof (induction n arbitrary: i m ctx)
  case 0
  then show ?case by simp
next
  case (Suc n)
  have "\<forall>a\<in>fst ` set (om_put (go_copy (zeros AddressSize) bs) b m). is_address a" for bs b
    using Suc.prems(1) by (simp add: set_om_put is_address_def)
  note IH = Suc.IH[OF this]
  obtain bs c where bs: "ctx_ProcessData (vt_pid p) (toLockedBalanceReverseKey h i) ctx = (bs, c)" by fastforce
  obtain b c' where "LockedBalance p (go_copy (zeros AddressSize) bs) h c = (b, c')" by fastforce
  with bs Suc.prems(2) show ?case by (auto simp: Let_def dest: IH)
qed

lemma lawful_unlock: "is_address addr \<Longrightarrow> lawful (unlock_balance p addr am)"
proof -
  assume a: "is_address addr"
  let ?zero = "writeE (ctx_SetAccountData addr (vt_pid p) tagLockedBalanceSum [])"
  let ?k = "\<lambda>r. case r of Inl e \<Rightarrow> if e = TypesErr ErrDeletedAccount then ?zero else throwE e
    | Inr has \<Rightarrow> if \<not> has then ?zero else
        thenE (AddBalance p addr am) (bindE (readE (TotalLockedBalanceByAddress p addr)) (\<lambda>t.
           let sum = am_Sub t am
           in if \<not> am_IsZero sum then writeE (ctx_SetAccountData addr (vt_pid p) tagLockedBalanceSum (am_Bytes sum))
              else ?zero))"
  have "unlock_balance p addr am = (\<lambda>ctx. ?k (fst (ctx_HasAccount addr ctx)) ctx)"
    by (auto simp: unlock_balance_def fun_eq_iff ctx_HasAccount_def writeE_def throwE_def split: sum.split)
  moreover have k: "lawful (?k r)" for r
    by (cases r) (simp_all only: sum.case, (intro lawful_intros a)+)
  have "lawful (\<lambda>ctx. ?k (fst (ctx_HasAccount addr ctx)) ctx)"
    by (rule lawful_check[where k = ?k and check = "\<lambda>ctx. fst (ctx_HasAccount addr ctx)"])
      (simp add: ctx_HasAccount_def HasAccount_same, rule k)
  ultimately show ?thesis by (simp only:)
qed

lemma lawful_vault_After [lawful_intros]: "lawful (vault_AfterExecuteTransactions p h)"
proof -
  let ?addrs = "\<lambda>m. \<forall>a\<in>fst ` set m. is_address a"
  have "lawful (flushLockedBalanceMap p h)"
    unfolding flushLockedBalanceMap_def by (intro lawful_intros lawful_flush_loop)
  moreover have "yields ?addrs (flushLockedBalanceMap p h)"
  proof -
    have "?addrs (fst (flush_loop p h n i [] ctx))" for n i ctx
      using flush_loop_addresses[of "[]" p h n i ctx] by (metis empty_iff empty_set image_empty prod.collapse)
    then show ?thesis
      by (auto simp: yields_def flushLockedBalanceMap_def bindE_success returnE_def readE_run writeE_def liftE_def split: if_splits)
  qed
  moreover have "lawful (foreachE (\<lambda>(addr, am). unlock_balance p addr am) (om_each m))" if "?addrs m" for m
    using that by (intro lawful_foreachE) (force simp: om_each_def intro: lawful_unlock)
  ultimately show ?thesis unfolding vault_AfterExecuteTransactions_def by (rule lawful_bindE_yields)
qed

lemma lawful_vault_transactions:
  "is_address (tf_From t) \<Longrightarrow> lawful (Transfer_Validate p t sg)"
  "is_address (tf_From t) \<Longrightarrow> is_address (tf_To t) \<Longrightarrow> lawful (Transfer_Execute p t i)"
  "is_address (bu_From b) \<Longrightarrow> lawful (Burn_Validate p b sg)"
  "is_address (bu_From b) \<Longrightarrow> lawful (Burn_Execute p b i)"
  "is_address (tt_From g) \<Longrightarrow> lawful (TransferWithTag_Validate p g sg)"
  "is_address (tt_From g) \<Longrightarrow> is_address (tt_To g) \<Longrightarrow> lawful (TransferWithTag_Execute p g i)"
  "is_address (ca_From c) \<Longrightarrow> lawful (CreateAccount_Validate dec d p c sg)"
  "is_address (ca_From c) \<Longrightarrow> lawful (CreateAccount_Execute dec d p c i)"
  "is_address (cm_From m) \<Longrightarrow> lawful (CreateMultiAccount_Validate d p m sg)"
  "is_address (cm_From m) \<Longrightarrow> lawful (CreateMultiAccount_Execute d p m i)"
  "lawful (IssueAccount_Validate p ia sg)" "lawful (IssueAccount_Execute d p ia i)"
  "lawful (UpdatePolicy_Validate p up sg)" "lawful (UpdatePolicy_Execute enc p up i)"
  "lawful (UpdateDefaultFee_Validate p uf sg)" "lawful (UpdateDefaultFee_Execute p uf i)"
  unfolding Transfer_Validate_def Transfer_Execute_def Burn_Validate_def Burn_Execute_def TransferWithTag_Validate_def
    TransferWithTag_Execute_def CreateAccount_Validate_def CreateAccount_Execute_def CreateMultiAccount_Validate_def
    CreateMultiAccount_Execute_def IssueAccount_Validate_def IssueAccount_Execute_def[abs_def] UpdatePolicy_Validate_def
    UpdatePolicy_Execute_def UpdateDefaultFee_Validate_def UpdateDefaultFee_Execute_def
  by (intro lawful_intros; assumption?)+

end
