(* ===== verification/Store_Laws.thy ===== *)
theory Store_Laws
  imports Store Context_Laws
begin

text \<open>
  What the store keeps of a block: the next context reads from the store what the context of the block read, a
  stored block is found again after a restart, transactions of the last slots stay marked, and the addresses of
  a chain survive printing.
\<close>

section \<open>The database\<close>

text \<open>
  What the store relies on of a backend: it is a finite map from keys to values, of which \<open>repr\<close> gives the content.
\<close>

definition backend_ok :: "'db store_backend \<Rightarrow> ('db \<Rightarrow> (bytes \<rightharpoonup> bytes)) \<Rightarrow> bool" where
  "backend_ok be repr \<longleftrightarrow>
     (\<forall>db k. sb_Get be k db = (case repr db k of None \<Rightarrow> Inl ErrNotExistKey | Some v \<Rightarrow> Inr v)) \<and>
     (\<forall>db k v. \<exists>db'. sb_Set be k v db = (Inr (), db') \<and> repr db' = (repr db)(k \<mapsto> v)) \<and>
     (\<forall>db k. \<exists>db'. sb_Delete be k db = (Inr (), db') \<and> repr db' = (repr db)(k := None)) \<and>
     (\<forall>db p. \<exists>kvs. sb_Iterate be p db = Inr kvs \<and>
        set kvs = {(k, v). repr db k = Some v \<and> take (length p) k = p})"

text \<open>A run that succeeds and changes the content by a function.\<close>

definition runs_to :: "('db \<Rightarrow> (bytes \<rightharpoonup> bytes)) \<Rightarrow> ('db, unit) go_meth \<Rightarrow> 'db \<Rightarrow> (bytes \<rightharpoonup> bytes) \<Rightarrow> bool" where
  "runs_to repr m db c \<longleftrightarrow> (\<exists>db'. m db = (Inr (), db') \<and> repr db' = c)"

lemma runs_to_set: "backend_ok be repr \<Longrightarrow> runs_to repr (sb_Set be k v) db ((repr db)(k \<mapsto> v))"
  by (simp add: backend_ok_def runs_to_def)

lemma runs_to_delete: "backend_ok be repr \<Longrightarrow> runs_to repr (sb_Delete be k) db ((repr db)(k := None))"
  by (simp add: backend_ok_def runs_to_def)

lemma runs_to_then:
  "runs_to repr m db c \<Longrightarrow> (\<And>db'. repr db' = c \<Longrightarrow> runs_to repr n db' c') \<Longrightarrow> runs_to repr (thenE m n) db c'"
  by (auto simp: runs_to_def run_simps)

lemma runs_to_foreach:
  assumes "\<And>x db. x \<in> set xs \<Longrightarrow> runs_to repr (f x) db (u x (repr db))"
  shows "runs_to repr (foreachE f xs) db (fold u xs (repr db))"
  using assms
proof (induction xs arbitrary: db)
  case Nil
  then show ?case by (simp add: runs_to_def run_simps)
next
  case (Cons x xs)
  have "runs_to repr (foreachE f xs) db' (fold u (x # xs) (repr db))" if "repr db' = u x (repr db)" for db'
    using Cons.IH[of db'] Cons.prems that by simp
  then show ?case using Cons.prems[of x db] by (auto intro: runs_to_then)
qed

lemma runs_to_det: "runs_to repr m db c \<Longrightarrow> m db = (r, db') \<Longrightarrow> r = Inr () \<and> repr db' = c"
  by (auto simp: runs_to_def)

section \<open>Folding a sorted map into the content\<close>

lemma fold_sets_get:
  assumes "om_inv M" and "inj K"
  shows "fold (\<lambda>(k, v) m. m(K k \<mapsto> V k v)) (om_each M) m (K k) =
    (case om_get M k of Some v \<Rightarrow> Some (V k v) | None \<Rightarrow> m (K k))"
proof -
  have "distinct (map fst M)" using om.ascend_distinct[OF assms(1)] by (simp add: om_each_def)
  then show ?thesis unfolding om_each_def om_get_def
  proof (induction M arbitrary: m)
    case (Cons x M)
    obtain a b where x: "x = (a, b)" by (cases x)
    have IH: "fold (\<lambda>(k, v) m. m(K k \<mapsto> V k v)) M (m(K a \<mapsto> V a b)) (K k) =
        (case map_of M k of Some v \<Rightarrow> Some (V k v) | None \<Rightarrow> (m(K a \<mapsto> V a b)) (K k))"
      by (rule Cons.IH) (use Cons.prems in simp)
    have "map_of M a = None" using Cons.prems x by (simp add: map_of_eq_None_iff)
    then show ?case
      unfolding x fold_simps prod.case IH using assms(2) by (auto simp: inj_eq split: option.split)
  qed simp
qed

lemma fold_sets_other:
  "(\<And>x. x \<in> set xs \<Longrightarrow> K x \<noteq> key) \<Longrightarrow> fold (\<lambda>x m. m(K x := V x)) xs m key = m key"
proof (induction xs arbitrary: m)
  case (Cons x xs)
  have IH: "fold (\<lambda>x m. m(K x := V x)) xs (m(K x := V x)) key = (m(K x := V x)) key"
    by (rule Cons.IH) (simp add: Cons.prems)
  show ?case unfolding fold_simps IH using Cons.prems[of x] by auto
qed simp

lemma fold_deletes_get:
  fixes M :: "('k, 'w) omap" and m :: "bytes \<rightharpoonup> bytes"
  assumes "inj K"
  shows "fold (\<lambda>(k, v) m. m(K k := None)) (om_each M) m (K k) = (if om_has M k then None else m (K k))"
proof -
  have "fold (\<lambda>(k, v) m. m(K k := None)) xs m (K k) = (if k \<in> fst ` set xs then None else m (K k))" for xs :: "('k \<times> 'w) list" and m :: "bytes \<rightharpoonup> bytes"
  proof (induction xs arbitrary: m)
    case (Cons x xs)
    obtain a b where x: "x = (a, b)" by (cases x)
    have IH: "fold (\<lambda>(k, v) m. m(K k := None)) xs (m(K a := None)) (K k) =
        (if k \<in> fst ` set xs then None else (m(K a := None)) (K k))" by (rule Cons.IH)
    show ?case unfolding x fold_simps prod.case IH using assms by (auto simp: inj_eq)
  qed simp
  then show ?thesis by (simp add: om_each_def om_has_map_of)
qed

lemma store_keys:
  "inj toAccountKey" "inj toAccountDataKey" "inj toUTXOKey" "inj toProcessDataKey"
  by (auto simp: inj_on_def toAccountKey_def toAccountDataKey_def toUTXOKey_def toProcessDataKey_def)

lemmas key_defs = toAccountKey_def toAccountNameKey_def toAccountDataKey_def toUTXOKey_def toProcessDataKey_def
  toHeightHashKey_def tagHeight_def tagHeightHash_def tagAccount_def tagAccountName_def tagAccountData_def
  tagUTXO_def tagProcessData_def

lemma not_height:
  "toAccountKey a \<noteq> tagHeight" "toAccountDataKey key \<noteq> tagHeight" "toUTXOKey i \<noteq> tagHeight"
  "toProcessDataKey key \<noteq> tagHeight"
  by (simp_all add: key_defs)

section \<open>Applying the data of a context\<close>

definition account_bytes :: "('db, 'tx) store_env \<Rightarrow> account \<Rightarrow> bytes" where
  "account_bytes E acc = LE_Uint16ToBytes (projr (se_typeAccount E acc)) @ se_encAccount E acc"

definition set_account :: "('db, 'tx) store_env \<Rightarrow> address \<times> account \<Rightarrow> (bytes \<rightharpoonup> bytes) \<Rightarrow> (bytes \<rightharpoonup> bytes)" where
  "set_account E = (\<lambda>(addr, acc) m. m(toAccountKey addr \<mapsto> account_bytes E acc, toAccountNameKey (acc_Name acc) \<mapsto> addr))"

definition clear_account :: "address \<times> account \<Rightarrow> (bytes \<rightharpoonup> bytes) \<Rightarrow> (bytes \<rightharpoonup> bytes)" where
  "clear_account = (\<lambda>(addr, acc) m k.
     if k = toAccountKey addr then Some [0]
     else if take (length (toAccountDataKey addr)) k = toAccountDataKey addr then None else m k)"

lemma put_account_runs:
  assumes "backend_ok (se_backend E) repr" and "\<not> isl (se_typeAccount E acc)"
  shows "runs_to repr (put_account E (addr, acc)) db (set_account E (addr, acc) (repr db))"
proof -
  obtain t where t: "se_typeAccount E acc = Inr t" using assms(2) by (cases "se_typeAccount E acc") auto
  have "runs_to repr (thenE (sb_Set (se_backend E) (toAccountKey addr) (LE_Uint16ToBytes t @ se_encAccount E acc))
      (sb_Set (se_backend E) (toAccountNameKey (acc_Name acc)) addr)) db (set_account E (addr, acc) (repr db))"
    using runs_to_set[OF assms(1), of "toAccountKey addr" _ db]
  proof (rule runs_to_then)
    fix db' assume r: "repr db' = (repr db)(toAccountKey addr \<mapsto> LE_Uint16ToBytes t @ se_encAccount E acc)"
    show "runs_to repr (sb_Set (se_backend E) (toAccountNameKey (acc_Name acc)) addr) db' (set_account E (addr, acc) (repr db))"
      using runs_to_set[OF assms(1), of "toAccountNameKey (acc_Name acc)" addr db']
      by (simp add: r set_account_def account_bytes_def t)
  qed
  then show ?thesis by (simp add: put_account_def runs_to_def run_simps bindE_def[of "liftE _"] liftE_def t)
qed

lemma drop_account_runs:
  assumes "backend_ok (se_backend E) repr"
  shows "runs_to repr (drop_account E (addr, acc)) db (clear_account (addr, acc) (repr db))"
proof -
  let ?p = "toAccountDataKey addr" and ?be = "se_backend E"
  let ?m = "(repr db)(toAccountKey addr \<mapsto> [0])"
  have "runs_to repr (bindE (\<lambda>db. (sb_Iterate ?be ?p db, db)) (\<lambda>kvs. foreachE (\<lambda>(key, value). sb_Delete ?be key) kvs))
      db' (clear_account (addr, acc) (repr db))" if r: "repr db' = ?m" for db'
  proof -
    obtain kvs where kvs: "sb_Iterate ?be ?p db' = Inr kvs"
      "set kvs = {(k, v). ?m k = Some v \<and> take (length ?p) k = ?p}"
      using assms r unfolding backend_ok_def by metis
    have del: "runs_to repr (foreachE (\<lambda>(key, value). sb_Delete ?be key) kvs) db'
        (fold (\<lambda>(k, v) m. m(k := None)) kvs (repr db'))"
      using runs_to_foreach[where f = "\<lambda>(key, value). sb_Delete ?be key" and u = "\<lambda>(k, v) m. m(k := None)" and xs = kvs and db = db']
        runs_to_delete[OF assms] by (auto split: prod.splits)
    have "fold (\<lambda>(k, v) m. m(k := None)) kvs ?m k = clear_account (addr, acc) (repr db) k" for k
    proof -
      have f: "fold (\<lambda>(k, v) m. m(k := None)) kvs ?m k = (if k \<in> fst ` set kvs then None else ?m k)"
        using fold_deletes_get[of "\<lambda>x. x" kvs ?m k] by (simp add: om_each_def om_has_map_of)
      have "k \<in> fst ` set kvs \<longleftrightarrow> ?m k \<noteq> None \<and> take (length ?p) k = ?p" unfolding kvs(2) by force
      moreover have "take (length ?p) (toAccountKey addr) \<noteq> ?p" by (simp add: key_defs)
      ultimately show ?thesis unfolding f by (auto simp: clear_account_def)
    qed
    then show ?thesis using del kvs(1) r by (auto simp: runs_to_def bindE_def fun_eq_iff)
  qed
  then show ?thesis
    unfolding drop_account_def using runs_to_set[OF assms, of "toAccountKey addr" "[0]" db]
    by (auto intro: runs_to_then)
qed

definition apply_accounts :: "('db, 'tx) store_env \<Rightarrow> context_data \<Rightarrow> (bytes \<rightharpoonup> bytes) \<Rightarrow> (bytes \<rightharpoonup> bytes)" where
  "apply_accounts E ctd m =
     fold (\<lambda>(k, v) m. m(toAccountDataKey k := None)) (om_each (cd_DeletedAccountDataMap ctd))
     (fold clear_account (om_each (cd_DeletedAccountMap ctd))
     (fold (\<lambda>(k, v) m. m(toAccountDataKey k \<mapsto> v)) (om_each (cd_AccountDataMap ctd))
     (fold (set_account E) (om_each (cd_AccountMap ctd)) m)))"

definition apply_outputs :: "('db, 'tx) store_env \<Rightarrow> context_data \<Rightarrow> (bytes \<rightharpoonup> bytes) \<Rightarrow> (bytes \<rightharpoonup> bytes)" where
  "apply_outputs E ctd m =
     fold (\<lambda>(k, v) m. m(toUTXOKey k := None)) (om_each (cd_DeletedUTXOMap ctd))
     (fold (\<lambda>(k, v) m. m(toUTXOKey k \<mapsto> se_encTxOut E v)) (om_each (cd_CreatedUTXOMap ctd))
     (fold (\<lambda>(k, v) m. m(toUTXOKey k \<mapsto> se_encTxOut E (ux_TxOut v))) (om_each (cd_UTXOMap ctd)) m))"

definition apply_process :: "context_data \<Rightarrow> (bytes \<rightharpoonup> bytes) \<Rightarrow> (bytes \<rightharpoonup> bytes)" where
  "apply_process ctd m =
     fold (\<lambda>(k, v) m. m(toProcessDataKey k := None)) (om_each (cd_DeletedProcessDataMap ctd))
     (fold (\<lambda>(k, v) m. m(toProcessDataKey k \<mapsto> v)) (om_each (cd_ProcessDataMap ctd)) m)"

text \<open>The data that can be written: accounts of registered types, outputs under their own numbers.\<close>

definition storable :: "('db, 'tx) store_env \<Rightarrow> context_data \<Rightarrow> bool" where
  "storable E ctd \<longleftrightarrow>
     (\<forall>(addr, acc)\<in>set (cd_AccountMap ctd). \<not> isl (se_typeAccount E acc)) \<and>
     (\<forall>(i, u)\<in>set (cd_UTXOMap ctd). txin_ID (ux_TxIn u) = i)"

text \<open>A method that succeeds on every database and changes the content by a function.\<close>

definition acts :: "('db \<Rightarrow> (bytes \<rightharpoonup> bytes)) \<Rightarrow> ('db, unit) go_meth \<Rightarrow> ((bytes \<rightharpoonup> bytes) \<Rightarrow> (bytes \<rightharpoonup> bytes)) \<Rightarrow> bool" where
  "acts repr m u \<longleftrightarrow> (\<forall>db. runs_to repr m db (u (repr db)))"

lemma acts_then:
  assumes "acts repr m u" and "acts repr n v"
  shows "acts repr (thenE m n) (\<lambda>c. v (u c))"
  unfolding acts_def
proof
  fix db
  have "runs_to repr m db (u (repr db))" using assms(1) by (simp add: acts_def)
  then show "runs_to repr (thenE m n) db (v (u (repr db)))"
    by (rule runs_to_then) (metis acts_def assms(2))
qed

lemma acts_foreach: "(\<And>x. x \<in> set xs \<Longrightarrow> acts repr (f x) (u x)) \<Longrightarrow> acts repr (foreachE f xs) (fold u xs)"
  unfolding acts_def by (intro allI runs_to_foreach) simp

lemma acts_sets:
  "backend_ok be repr \<Longrightarrow>
   acts repr (foreachE (\<lambda>(k, v). sb_Set be (K k) (V v)) xs) (fold (\<lambda>(k, v) m. m(K k \<mapsto> V v)) xs)"
  using runs_to_set by (intro acts_foreach) (auto simp: acts_def split: prod.splits)

lemma acts_deletes:
  "backend_ok be repr \<Longrightarrow>
   acts repr (foreachE (\<lambda>(k, v). sb_Delete be (K k)) xs) (fold (\<lambda>(k, v) m. m(K k := None)) xs)"
  using runs_to_delete by (intro acts_foreach) (auto simp: acts_def split: prod.splits)

lemma applyContextData_acts:
  assumes "backend_ok (se_backend E) repr" and "storable E ctd"
  shows "acts repr (applyContextData E ctd) (\<lambda>m. apply_process ctd (apply_outputs E ctd (apply_accounts E ctd m)))"
proof -
  have accs: "acts repr (foreachE (put_account E) (om_each (cd_AccountMap ctd))) (fold (set_account E) (om_each (cd_AccountMap ctd)))"
    using assms(2) put_account_runs[OF assms(1)]
    by (intro acts_foreach) (auto simp: acts_def storable_def om_each_def split: prod.splits)
  have drops: "acts repr (foreachE (drop_account E) xs) (fold clear_account xs)" for xs
    using drop_account_runs[OF assms(1)] by (intro acts_foreach) (auto simp: acts_def split: prod.splits)
  have utxos: "acts repr (foreachE (put_utxo E) (om_each (cd_UTXOMap ctd)))
      (fold (\<lambda>(k, v) m. m(toUTXOKey k \<mapsto> se_encTxOut E (ux_TxOut v))) (om_each (cd_UTXOMap ctd)))"
  proof (rule acts_foreach)
    fix x assume x: "x \<in> set (om_each (cd_UTXOMap ctd))"
    obtain i u where xu: "x = (i, u)" by (cases x)
    then have "txin_ID (ux_TxIn u) = i" using assms(2) x by (auto simp: storable_def om_each_def)
    then show "acts repr (put_utxo E x) (case x of (k, v) \<Rightarrow> \<lambda>m. m(toUTXOKey k \<mapsto> se_encTxOut E (ux_TxOut v)))"
      using runs_to_set[OF assms(1), of "toUTXOKey i" "se_encTxOut E (ux_TxOut u)"]
      by (simp add: xu put_utxo_def acts_def runs_to_def bindE_failIf)
  qed
  note sets = acts_sets[OF assms(1)] and deletes = acts_deletes[OF assms(1)]
  note all = acts_then[OF accs acts_then[OF sets[of toAccountDataKey "\<lambda>v. v"] acts_then[OF drops
    acts_then[OF deletes acts_then[OF utxos acts_then[OF sets[of toUTXOKey "se_encTxOut E"]
    acts_then[OF deletes acts_then[OF sets[of toProcessDataKey "\<lambda>v. v"] deletes]]]]]]]]
  show ?thesis
    unfolding applyContextData_def Let_def apply_process_def apply_outputs_def apply_accounts_def by (rule all)
qed

section \<open>Reading the content back\<close>

lemma fold_untouched: "(\<And>x m. x \<in> set xs \<Longrightarrow> f x m k = m k) \<Longrightarrow> fold f xs m k = m k"
  by (induction xs arbitrary: m) simp_all

lemma apply_account_data:
  assumes "ctd_inv ctd" and "\<forall>(addr, acc)\<in>set (cd_DeletedAccountMap ctd). is_address addr" and "is_address a"
    and key_def: "key = accountData_key a p n"
  shows "apply_accounts E ctd m (toAccountDataKey key) =
    (if om_has (cd_DeletedAccountDataMap ctd) key \<or> om_has (cd_DeletedAccountMap ctd) a then None
     else case om_get (cd_AccountDataMap ctd) key of Some v \<Rightarrow> Some v | None \<Rightarrow> m (toAccountDataKey key))"
proof -
  have sets: "fold (set_account E) xs m (toAccountDataKey key) = m (toAccountDataKey key)" for xs m
    by (rule fold_untouched) (auto simp: set_account_def key_defs)
  have clear: "fold clear_account xs m (toAccountDataKey key) =
      (if a \<in> fst ` set xs then None else m (toAccountDataKey key))"
    if "\<forall>(addr, acc)\<in>set xs. is_address addr" for xs m
    using that
  proof (induction xs arbitrary: m)
    case (Cons x xs)
    obtain addr acc where x: "x = (addr, acc)" by (cases x)
    have "clear_account x m (toAccountDataKey key) = (if addr = a then None else m (toAccountDataKey key))"
      using Cons.prems assms(3) by (auto simp: x clear_account_def key_defs key_def accountData_key_def is_address_def)
    then show ?case using Cons by (auto simp: x)
  qed simp
  have inv: "om_inv (cd_AccountDataMap ctd)" using assms(1) by (simp add: ctd_inv_def)
  have addrs: "\<forall>(addr, acc)\<in>set (om_each (cd_DeletedAccountMap ctd)). is_address addr"
    using assms(2) by (simp add: om_each_def)
  show ?thesis
    unfolding apply_accounts_def fold_deletes_get[OF store_keys(2)] clear[OF addrs]
      fold_sets_get[OF inv store_keys(2), where V = "\<lambda>_ v. v"] sets
    by (simp add: om_has_map_of om_each_def)
qed

lemma apply_account:
  assumes "ctd_inv ctd"
  shows "apply_accounts E ctd m (toAccountKey a) =
    (if om_has (cd_DeletedAccountMap ctd) a then Some [0]
     else case om_get (cd_AccountMap ctd) a of Some acc \<Rightarrow> Some (account_bytes E acc) | None \<Rightarrow> m (toAccountKey a))"
proof -
  have data: "fold (\<lambda>(k, v) m. m(toAccountDataKey k \<mapsto> v)) xs m (toAccountKey a) = m (toAccountKey a)" for xs m
    by (rule fold_untouched) (auto simp: key_defs)
  have dels: "fold (\<lambda>(k, v) m. m(toAccountDataKey k := None)) xs m (toAccountKey a) = m (toAccountKey a)"
    for xs :: "(bytes \<times> bool) list" and m
    by (rule fold_untouched) (auto simp: key_defs)
  have clear: "fold clear_account xs m (toAccountKey a) = (if a \<in> fst ` set xs then Some [0] else m (toAccountKey a))" for xs m
  proof (induction xs arbitrary: m)
    case (Cons x xs)
    obtain addr acc where x: "x = (addr, acc)" by (cases x)
    have "clear_account x m (toAccountKey a) = (if addr = a then Some [0] else m (toAccountKey a))"
      by (auto simp: x clear_account_def key_defs)
    then show ?case using Cons by (auto simp: x)
  qed simp
  have sets: "fold (set_account E) xs m (toAccountKey a) = fold (\<lambda>(k, v) m. m(toAccountKey k \<mapsto> account_bytes E v)) xs m (toAccountKey a)"
    for xs m
  proof -
    have "fold (set_account E) xs m (toAccountKey a) = fold (\<lambda>(k, v) m. m(toAccountKey k \<mapsto> account_bytes E v)) xs m' (toAccountKey a)"
      if "m (toAccountKey a) = m' (toAccountKey a)" for m m'
      using that
    proof (induction xs arbitrary: m m')
      case (Cons x xs)
      obtain k v where x: "x = (k, v)" by (cases x)
      show ?case unfolding x fold_simps prod.case
        by (rule Cons.IH) (use Cons.prems in \<open>simp add: set_account_def key_defs\<close>)
    qed simp
    then show ?thesis by blast
  qed
  have inv: "om_inv (cd_AccountMap ctd)" using assms by (simp add: ctd_inv_def)
  show ?thesis
    unfolding apply_accounts_def dels clear data sets fold_sets_get[OF inv store_keys(1), where V = "\<lambda>_. account_bytes E"]
    by (simp add: om_has_map_of om_each_def)
qed

lemma apply_output:
  assumes "ctd_inv ctd"
  shows "apply_outputs E ctd m (toUTXOKey i) =
    (if om_has (cd_DeletedUTXOMap ctd) i then None
     else case om_get (cd_CreatedUTXOMap ctd) i of Some v \<Rightarrow> Some (se_encTxOut E v)
       | None \<Rightarrow> (case om_get (cd_UTXOMap ctd) i of Some u \<Rightarrow> Some (se_encTxOut E (ux_TxOut u)) | None \<Rightarrow> m (toUTXOKey i)))"
proof -
  have inv: "om_inv (cd_CreatedUTXOMap ctd)" "om_inv (cd_UTXOMap ctd)" using assms by (simp_all add: ctd_inv_def)
  show ?thesis
    unfolding apply_outputs_def fold_deletes_get[OF store_keys(3)]
      fold_sets_get[OF inv(1) store_keys(3), where V = "\<lambda>_. se_encTxOut E"]
      fold_sets_get[OF inv(2) store_keys(3), where V = "\<lambda>_ v. se_encTxOut E (ux_TxOut v)"] ..
qed

lemma apply_process_data:
  assumes "ctd_inv ctd"
  shows "apply_process ctd m (toProcessDataKey key) =
    (if om_has (cd_DeletedProcessDataMap ctd) key then None
     else case om_get (cd_ProcessDataMap ctd) key of Some v \<Rightarrow> Some v | None \<Rightarrow> m (toProcessDataKey key))"
proof -
  have inv: "om_inv (cd_ProcessDataMap ctd)" using assms by (simp add: ctd_inv_def)
  show ?thesis
    unfolding apply_process_def fold_deletes_get[OF store_keys(4)]
      fold_sets_get[OF inv store_keys(4), where V = "\<lambda>_ v. v"] ..
qed

text \<open>Each of the three parts leaves the keys of the others alone.\<close>

lemma apply_other:
  "apply_process ctd m (toAccountKey a) = m (toAccountKey a)"
  "apply_process ctd m (toAccountDataKey key) = m (toAccountDataKey key)"
  "apply_process ctd m (toUTXOKey i) = m (toUTXOKey i)" "apply_process ctd m tagHeight = m tagHeight"
  "apply_outputs E ctd m (toAccountKey a) = m (toAccountKey a)"
  "apply_outputs E ctd m (toAccountDataKey key) = m (toAccountDataKey key)"
  "apply_outputs E ctd m (toProcessDataKey key) = m (toProcessDataKey key)" "apply_outputs E ctd m tagHeight = m tagHeight"
  "apply_accounts E ctd m (toUTXOKey i) = m (toUTXOKey i)"
  "apply_accounts E ctd m (toProcessDataKey key) = m (toProcessDataKey key)" "apply_accounts E ctd m tagHeight = m tagHeight"
proof -
  note u = fold_untouched[where k = "toAccountKey a"] fold_untouched[where k = "toAccountDataKey key"]
    fold_untouched[where k = "toUTXOKey i"] fold_untouched[where k = tagHeight] fold_untouched[where k = "toProcessDataKey key"]
  show "apply_process ctd m (toAccountKey a) = m (toAccountKey a)"
    "apply_process ctd m (toAccountDataKey key) = m (toAccountDataKey key)"
    "apply_process ctd m (toUTXOKey i) = m (toUTXOKey i)" "apply_process ctd m tagHeight = m tagHeight"
    unfolding apply_process_def by ((subst u, fastforce simp: key_defs)+, rule refl)+
  show "apply_outputs E ctd m (toAccountKey a) = m (toAccountKey a)"
    "apply_outputs E ctd m (toAccountDataKey key) = m (toAccountDataKey key)"
    "apply_outputs E ctd m (toProcessDataKey key) = m (toProcessDataKey key)" "apply_outputs E ctd m tagHeight = m tagHeight"
    unfolding apply_outputs_def by ((subst u, fastforce simp: key_defs)+, rule refl)+
  show "apply_accounts E ctd m (toUTXOKey i) = m (toUTXOKey i)"
    "apply_accounts E ctd m (toProcessDataKey key) = m (toProcessDataKey key)" "apply_accounts E ctd m tagHeight = m tagHeight"
    unfolding apply_accounts_def
    by ((subst u, fastforce simp: key_defs set_account_def clear_account_def)+, rule refl)+
qed

section \<open>Storing a block\<close>

lemma foreachE_success:
  "foreachE f xs s = (Inr u, s') \<Longrightarrow> x \<in> set xs \<Longrightarrow> \<exists>s1 s2. f x s1 = (Inr (), s2)"
proof (induction xs arbitrary: s)
  case (Cons y ys)
  then obtain s1 where "f y s = (Inr (), s1)" "foreachE f ys s1 = (Inr u, s')"
    by (auto simp: bindE_success)
  then show ?case using Cons by auto
qed simp

lemma applyContextData_storable:
  assumes "applyContextData E ctd db = (Inr u, db')"
  shows "storable E ctd"
proof -
  obtain s1 s2 s3 s4 where accs: "foreachE (put_account E) (cd_AccountMap ctd) db = (Inr (), s1)"
    and outs: "foreachE (put_utxo E) (cd_UTXOMap ctd) s3 = (Inr (), s4)"
    using assms by (auto simp: applyContextData_def Let_def bindE_success om_each_def)
  have "\<not> isl (se_typeAccount E acc)" if "(addr, acc) \<in> set (cd_AccountMap ctd)" for addr acc
    using foreachE_success[OF accs that] by (auto simp: put_account_def bindE_success liftE_def)
  moreover have "txin_ID (ux_TxIn ux) = i" if "(i, ux) \<in> set (cd_UTXOMap ctd)" for i ux
    using foreachE_success[OF outs that] by (auto simp: put_utxo_def bindE_failIf split: if_splits)
  ultimately show ?thesis by (auto simp: storable_def)
qed

lemma StoreBlock_success:
  assumes "backend_ok (se_backend E) repr" and "StoreBlock E b ctd st = (Inr u, st')"
  shows "\<not> st_isClose st" and "storable E ctd"
    and "repr (st_db st') = apply_process ctd (apply_outputs E ctd (apply_accounts E ctd
      ((repr (st_db st))(tagHeight \<mapsto> LE_Uint32ToBytes (bh_Height (b_Header b))))))"
    and "\<not> st_isClose st'"
    and "st_timeSlotMap st' = update_slots (ToTimeSlot (bh_Timestamp (b_Header b))) (cd_TimeSlotMap ctd) (st_timeSlotMap st)"
    and "st_cache st' = \<lparr>ch_cached = True, ch_height = bh_Height (b_Header b), ch_heightHash = se_hashHeader E (b_Header b),
        ch_heightBlock = Some b\<rparr>"
    and "\<exists>Datas r. block_datas E b (cd_Events ctd) = Inr Datas \<and>
      db_AppendData (se_gzip E) (bh_Height (b_Header b)) (se_hashHeader E (b_Header b)) Datas (st_cdb st) = (r, st_cdb st')"
proof -
  let ?set = "sb_Set (se_backend E) tagHeight (LE_Uint32ToBytes (bh_Height (b_Header b)))"
  show "\<not> st_isClose st" using assms(2) by (auto simp: StoreBlock_def split: if_splits)
  then obtain cdb db Datas r where data: "block_datas E b (cd_Events ctd) = Inr Datas"
      "db_AppendData (se_gzip E) (bh_Height (b_Header b)) (se_hashHeader E (b_Header b)) Datas (st_cdb st) = (r, cdb)"
    and run: "thenE ?set (applyContextData E ctd) (st_db st) = (Inr (), db)"
    and st': "st' = st\<lparr>st_cdb := cdb, st_db := db,
      st_timeSlotMap := update_slots (ToTimeSlot (bh_Timestamp (b_Header b))) (cd_TimeSlotMap ctd) (st_timeSlotMap st),
      st_cache := \<lparr>ch_cached = True, ch_height = bh_Height (b_Header b), ch_heightHash = se_hashHeader E (b_Header b),
        ch_heightBlock = Some b\<rparr>\<rparr>"
    using assms(2) by (auto simp: StoreBlock_def Let_def db_Update_def isl_def split: sum.splits prod.splits if_splits)
  show s: "storable E ctd"
    using run by (auto simp: bindE_success dest: applyContextData_storable)
  have "runs_to repr (thenE ?set (applyContextData E ctd)) (st_db st) (apply_process ctd (apply_outputs E ctd (apply_accounts E ctd
      ((repr (st_db st))(tagHeight \<mapsto> LE_Uint32ToBytes (bh_Height (b_Header b)))))))"
    using runs_to_set[OF assms(1)] by (rule runs_to_then) (metis acts_def applyContextData_acts[OF assms(1) s])
  then show "repr (st_db st') = apply_process ctd (apply_outputs E ctd (apply_accounts E ctd
      ((repr (st_db st))(tagHeight \<mapsto> LE_Uint32ToBytes (bh_Height (b_Header b))))))"
    using run st' by (auto simp: runs_to_def)
  show "\<not> st_isClose st'"
    "st_timeSlotMap st' = update_slots (ToTimeSlot (bh_Timestamp (b_Header b))) (cd_TimeSlotMap ctd) (st_timeSlotMap st)"
    "st_cache st' = \<lparr>ch_cached = True, ch_height = bh_Height (b_Header b), ch_heightHash = se_hashHeader E (b_Header b),
        ch_heightBlock = Some b\<rparr>"
    "\<exists>Datas r. block_datas E b (cd_Events ctd) = Inr Datas \<and>
      db_AppendData (se_gzip E) (bh_Height (b_Header b)) (se_hashHeader E (b_Header b)) Datas (st_cdb st) = (r, st_cdb st')"
    using st' data \<open>\<not> st_isClose st\<close> by auto
qed

definition slot_used :: "u32 \<Rightarrow> string \<Rightarrow> (u32, (string, bool) omap) omap \<Rightarrow> bool" where
  "slot_used slot key m = (case om_get m slot of None \<Rightarrow> False | Some tm \<Rightarrow> om_get tm key = Some True)"

lemma get_fold_marks:
  "om_get (fold (\<lambda>(key, value). om_put key True) xs m) key = (if key \<in> fst ` set xs then Some True else om_get m key)"
  by (induction xs arbitrary: m) (auto split: prod.splits)

lemma slot_used_mark_all:
  "slot_used slot key (mark_all (s, mp) m) \<longleftrightarrow> slot_used slot key m \<or> s = slot \<and> om_has mp key"
  by (auto simp: slot_used_def mark_all_def get_fold_marks om_each_def om_has_map_of split: option.splits)

lemma slot_used_fold:
  "slot_used slot key (fold mark_all xs m) \<longleftrightarrow> slot_used slot key m \<or> (\<exists>mp. (slot, mp) \<in> set xs \<and> om_has mp key)"
proof (induction xs arbitrary: m)
  case (Cons x xs)
  then show ?case by (cases x) (auto simp: slot_used_mark_all)
qed simp

lemma get_delete_list: "om_get (fold om_delete ks m) k = (if k \<in> set ks then None else om_get m k)"
  by (induction ks arbitrary: m) auto

lemma update_slots_used:
  assumes "om_inv used"
  shows "slot_used slot key (update_slots cur used m) \<longleftrightarrow>
    \<not> slot < cur - 1 \<and> (slot_marked slot key used \<or> slot_used slot key m)"
proof -
  let ?m = "fold mark_all (om_each used) m"
  have mem: "(slot, mp) \<in> set (om_each used) \<longleftrightarrow> om_get used slot = Some mp" for mp
    using om.ascend_distinct[OF assms] by (simp add: om_each_def om_get_def)
  have "slot_used slot key ?m \<longleftrightarrow> slot_marked slot key used \<or> slot_used slot key m"
    unfolding slot_used_fold mem by (auto simp: slot_marked_def split: option.splits)
  moreover have "om_get ?m slot \<noteq> None \<longleftrightarrow> slot \<in> set (map fst (om_each ?m))"
    unfolding om_has_def[symmetric] by (simp add: om_has_map_of om_each_def)
  then have "om_get (update_slots cur used m) slot = (if slot < cur - 1 then None else om_get ?m slot)"
    unfolding update_slots_def Let_def get_delete_list by auto
  then have "slot_used slot key (update_slots cur used m) \<longleftrightarrow> \<not> slot < cur - 1 \<and> slot_used slot key ?m"
    by (simp add: slot_used_def)
  ultimately show ?thesis by blast
qed

lemma read_account_bytes:
  assumes "account_factory_ok (se_typeAccount E) (se_encAccount E) (se_createAccount E) good" and "good acc"
  shows "\<not> is_deleted (account_bytes E acc)" "read_account E (account_bytes E acc) = Inr acc"
proof -
  obtain t dec where t: "se_typeAccount E acc = Inr t" "se_createAccount E t = Inr dec"
    "\<And>rest. dec (se_encAccount E acc @ rest) = (Inr acc, rest)"
    using assms by (auto simp: account_factory_ok_def)
  show "\<not> is_deleted (account_bytes E acc)" by (simp add: is_deleted_def account_bytes_def)
  show "read_account E (account_bytes E acc) = Inr acc"
    using t(3)[of "[]"] by (simp add: read_account_def account_bytes_def t unmarshal_def)
qed

text \<open>The context of a block is written by \<^verbatim>\<open>StoreBlock\<close> when its data are of the known types.\<close>

definition writable :: "('db, 'tx) store_env \<Rightarrow> (account \<Rightarrow> bool) \<Rightarrow> (txout \<Rightarrow> bool) \<Rightarrow> context_data \<Rightarrow> bool" where
  "writable E good goodOut ctd \<longleftrightarrow>
     (\<forall>(addr, acc)\<in>set (cd_AccountMap ctd). good acc) \<and>
     (\<forall>(addr, acc)\<in>set (cd_DeletedAccountMap ctd). is_address addr) \<and>
     (\<forall>(i, out)\<in>set (cd_CreatedUTXOMap ctd). goodOut out) \<and> (\<forall>(i, u)\<in>set (cd_UTXOMap ctd). goodOut (ux_TxOut u))"

definition env_ok :: "('db, 'tx) store_env \<Rightarrow> ('db \<Rightarrow> (bytes \<rightharpoonup> bytes)) \<Rightarrow> (account \<Rightarrow> bool) \<Rightarrow> (txout \<Rightarrow> bool) \<Rightarrow> bool" where
  "env_ok E repr good goodOut \<longleftrightarrow>
     backend_ok (se_backend E) repr \<and>
     account_factory_ok (se_typeAccount E) (se_encAccount E) (se_createAccount E) good \<and>
     codec (se_encTxOut E) (se_decTxOut E) goodOut"

lemma backend_get: "backend_ok be repr \<Longrightarrow> sb_Get be k db = (case repr db k of None \<Rightarrow> Inl ErrNotExistKey | Some v \<Rightarrow> Inr v)"
  by (simp add: backend_ok_def)

section \<open>Names\<close>

lemma fold_names:
  shows "\<forall>(a, acc)\<in>set xs. acc_Name acc \<noteq> nm \<Longrightarrow> fold (set_account E) xs m (toAccountNameKey nm) = m (toAccountNameKey nm)"
    and "\<forall>(b, acc)\<in>set xs. acc_Name acc = nm \<longrightarrow> b = a \<Longrightarrow> \<exists>(b, acc)\<in>set xs. acc_Name acc = nm \<Longrightarrow>
      fold (set_account E) xs m (toAccountNameKey nm) = Some a"
proof -
  have key: "set_account E (b, acc) m (toAccountNameKey nm) = (if acc_Name acc = nm then Some b else m (toAccountNameKey nm))"
    for b acc m
    by (auto simp: set_account_def key_defs) (metis bytes_str_bytes)
  then show none: "\<forall>(a, acc)\<in>set xs. acc_Name acc \<noteq> nm \<Longrightarrow> fold (set_account E) xs m (toAccountNameKey nm) = m (toAccountNameKey nm)"
    for xs m by (intro fold_untouched) auto
  show "\<exists>(b, acc)\<in>set xs. acc_Name acc = nm \<Longrightarrow> fold (set_account E) xs m (toAccountNameKey nm) = Some a"
    if "\<forall>(b, acc)\<in>set xs. acc_Name acc = nm \<longrightarrow> b = a"
    using that
  proof (induction xs arbitrary: m)
    case (Cons x xs)
    obtain b acc where x: "x = (b, acc)" by (cases x)
    show ?case
    proof (cases "\<exists>(b, acc)\<in>set xs. acc_Name acc = nm")
      case True
      then show ?thesis using Cons.IH Cons.prems(2) by simp
    next
      case False
      then have "acc_Name acc = nm" "b = a" "\<forall>(a, acc)\<in>set xs. acc_Name acc \<noteq> nm" using Cons.prems x by auto
      then show ?thesis using none key by (simp add: x)
    qed
  qed simp
qed

lemma apply_name:
  "apply_process ctd (apply_outputs E ctd (apply_accounts E ctd m)) (toAccountNameKey nm) =
     fold (set_account E) (om_each (cd_AccountMap ctd)) m (toAccountNameKey nm)"
proof -
  note u = fold_untouched[where k = "toAccountNameKey nm"]
  have "apply_process ctd m (toAccountNameKey nm) = m (toAccountNameKey nm)" for m
    unfolding apply_process_def by ((subst u, fastforce simp: key_defs)+, rule refl)
  moreover have "apply_outputs E ctd m (toAccountNameKey nm) = m (toAccountNameKey nm)" for m
    unfolding apply_outputs_def by ((subst u, fastforce simp: key_defs)+, rule refl)
  moreover have "apply_accounts E ctd m (toAccountNameKey nm) = fold (set_account E) (om_each (cd_AccountMap ctd)) m (toAccountNameKey nm)" for m
    unfolding apply_accounts_def
    by (subst u, fastforce simp: key_defs, subst u, fastforce simp: key_defs clear_account_def, subst u, fastforce simp: key_defs)
      (rule refl)
  ultimately show ?thesis by simp
qed

text \<open>
  The accounts and the names of a snapshot over a store agree: an account is found under its name, a name the snapshot
  holds belongs to one of its accounts or was read from the store, and an account the snapshot changed or
  deleted is not named in the store unless it lives there.
\<close>

definition names_ok :: "('db, 'tx) store_env \<Rightarrow> ('db, 'tx) store \<Rightarrow> context_data \<Rightarrow> bool" where
  "names_ok E st ctd \<longleftrightarrow>
     (\<forall>(a, acc)\<in>set (cd_AccountMap ctd). is_address a \<and> name_view (st_as_loader E st) [ctd] (acc_Name acc) = Inr a) \<and>
     (\<forall>nm a. om_get (cd_AccountNameMap ctd) nm = Some a \<longrightarrow>
        (\<exists>acc. (a, acc) \<in> set (cd_AccountMap ctd) \<and> acc_Name acc = nm) \<or> st_AddressByName E nm st = Inr a) \<and>
     (\<forall>nm v. sb_Get (se_backend E) (toAccountNameKey nm) (st_db st) = Inr v \<longrightarrow>
        om_has (cd_AccountMap ctd) (go_copy (zeros AddressSize) v) \<or> om_has (cd_DeletedAccountMap ctd) (go_copy (zeros AddressSize) v) \<longrightarrow>
        st_AddressByName E nm st = Inr (go_copy (zeros AddressSize) v))"

lemma stored_name:
  assumes be: "backend_ok (se_backend E) repr" and run: "StoreBlock E b ctd st = (Inr (), st')" and inv: "ctd_inv ctd"
    and names: "names_ok E st ctd"
  shows "st_AddressByName E nm st' =
    (case name_view (st_as_loader E st) [ctd] nm of Inl e \<Rightarrow> Inl e
     | Inr a \<Rightarrow> if om_has (cd_DeletedAccountMap ctd) a then Inl (TypesErr ErrDeletedAccount) else Inr a)"
proof -
  note ok = StoreBlock_success[OF be run] and get = backend_get[OF be]
  let ?del = "\<lambda>a. om_has (cd_DeletedAccountMap ctd) a" and ?xs = "om_each (cd_AccountMap ctd)"
  have acct: "repr (st_db st') (toAccountKey a) =
      (if ?del a then Some [0] else case om_get (cd_AccountMap ctd) a of Some acc \<Rightarrow> Some (account_bytes E acc)
       | None \<Rightarrow> repr (st_db st) (toAccountKey a))" for a
    by (simp add: ok(3) apply_other apply_account[OF inv] not_height split: option.split)
  have name: "repr (st_db st') (toAccountNameKey nm) = fold (set_account E) ?xs ((repr (st_db st))(tagHeight \<mapsto>
      LE_Uint32ToBytes (bh_Height (b_Header b)))) (toAccountNameKey nm)"
    by (simp add: ok(3) apply_name)
  have ht: "toAccountNameKey nm \<noteq> tagHeight" by (simp add: key_defs)
  have live: "\<not> is_deleted (account_bytes E acc)" for acc by (simp add: is_deleted_def account_bytes_def)
  show ?thesis
  proof (cases "\<exists>(a, acc)\<in>set ?xs. acc_Name acc = nm")
    case True
    then obtain a acc where a: "(a, acc) \<in> set (cd_AccountMap ctd)" "acc_Name acc = nm" by (auto simp: om_each_def)
    then have v: "is_address a" "name_view (st_as_loader E st) [ctd] nm = Inr a" using names by (auto simp: names_ok_def)
    have "\<forall>(b, acc)\<in>set ?xs. acc_Name acc = nm \<longrightarrow> b = a"
      using names v(2) by (fastforce simp: names_ok_def om_each_def)
    then have n: "repr (st_db st') (toAccountNameKey nm) = Some a" unfolding name using True by (intro fold_names(2))
    have "om_has (cd_AccountMap ctd) a" using a(1) by (auto simp: om_has_map_of intro: rev_image_eqI)
    then have "repr (st_db st') (toAccountKey a) = Some [0] \<and> ?del a \<or>
        \<not> ?del a \<and> (\<exists>acc. repr (st_db st') (toAccountKey a) = Some (account_bytes E acc))"
      by (auto simp: acct om_has_def)
    then show ?thesis
      using n v ok(4) live
      by (auto simp: st_AddressByName_def live_address_def get on_missing_def is_deleted_def[of "[0]"] Let_def is_address_def
          go_copy_def)
  next
    case False
    then have n: "repr (st_db st') (toAccountNameKey nm) = repr (st_db st) (toAccountNameKey nm)"
      unfolding name using ht by (subst fold_names(1)) auto
    have nv: "name_view (st_as_loader E st) [ctd] nm = st_AddressByName E nm st"
    proof (cases "om_get (cd_AccountNameMap ctd) nm")
      case (Some a)
      then have "st_AddressByName E nm st = Inr a" using False names unfolding names_ok_def om_each_def by blast
      then show ?thesis using Some by simp
    qed (simp add: st_as_loader_def)
    show ?thesis
    proof (cases "repr (st_db st) (toAccountNameKey nm)")
      case None
      then show ?thesis using n ok(1,4) unfolding nv by (simp add: st_AddressByName_def live_address_def get on_missing_def)
    next
      case (Some v)
      let ?a = "go_copy (zeros AddressSize) v"
      show ?thesis
      proof (cases "om_has (cd_AccountMap ctd) ?a \<or> ?del ?a")
        case True
        then have "st_AddressByName E nm st = Inr ?a" using names Some by (auto simp: names_ok_def get)
        then show ?thesis
          using True n ok(4) live Some unfolding nv
          by (auto simp: st_AddressByName_def live_address_def get on_missing_def is_deleted_def[of "[0]"] Let_def acct om_has_def)
      next
        case False
        then have "repr (st_db st') (toAccountKey ?a) = repr (st_db st) (toAccountKey ?a)" by (auto simp: acct om_has_def)
        then show ?thesis
          using False n ok(1,4) Some unfolding nv
          by (auto simp: st_AddressByName_def live_address_def get on_missing_def Let_def split: option.split)
      qed
    qed
  qed
qed

text \<open>
  C8: the store keeps what the block did. When the context of a block over the store is written by
  \<^verbatim>\<open>StoreBlock\<close>, the store reads every cell of account and process data and every account as the context did, except
  that the data of an account deleted in the block are gone. It reads every name as the context did, except that the
  name of an account deleted in the block gives \<^verbatim>\<open>ErrDeletedAccount\<close>, provided the names and the accounts of the
  context agree. It reads every output as the context did, except that an output created in the block, which the context does not
  read yet, can be read and a deleted one does not exist.
\<close>

theorem store_keeps_context:
  assumes "env_ok E repr good goodOut" and "ctx_wf ctx" and "ctx_loader ctx = st_as_loader E st"
    and "ctx_stack ctx = [ctd]" and "writable E good goodOut ctd" and "StoreBlock E b ctd st = (Inr (), st')"
  shows "(is_address a \<longrightarrow> st_AccountData E a p n st' =
        (if om_has (cd_DeletedAccountMap ctd) a then [] else fst (ctx_AccountData a p n ctx))) \<and>
    st_ProcessData E p n st' = fst (ctx_ProcessData p n ctx) \<and>
    map_sum id acc_Clone (st_Account E a st') = map_sum id acc_Clone (fst (ctx_Account a ctx)) \<and>
    (names_ok E st ctd \<longrightarrow> st_AddressByName E nm st' =
      (case fst (ctx_AddressByName nm ctx) of Inl e \<Rightarrow> Inl e
       | Inr addr \<Rightarrow> if om_has (cd_DeletedAccountMap ctd) addr then Inl (TypesErr ErrDeletedAccount) else Inr addr)) \<and>
    st_UTXO E i st' =
      (if om_has (cd_DeletedUTXOMap ctd) i then Inl (TypesErr ErrNotExistUTXO)
       else case om_get (cd_CreatedUTXOMap ctd) i of Some out \<Rightarrow> Inr \<lparr>ux_TxIn = NewTxIn i, ux_TxOut = out\<rparr>
         | None \<Rightarrow> map_sum id (\<lambda>u. \<lparr>ux_TxIn = NewTxIn i, ux_TxOut = ux_TxOut u\<rparr>) (fst (ctx_UTXO i ctx)))"
proof -
  have be: "backend_ok (se_backend E) repr" and fac: "account_factory_ok (se_typeAccount E) (se_encAccount E) (se_createAccount E) good"
    and out: "codec (se_encTxOut E) (se_decTxOut E) goodOut" using assms(1) by (simp_all add: env_ok_def)
  note ok = StoreBlock_success[OF be assms(6)] and get = backend_get[OF be]
  note open' = ok(4)
  have inv: "ctd_inv ctd" using assms(2,4) by (simp add: ctx_wf_def)
  have cc: "cache_ok (st_as_loader E st) (ctx_cache ctx)" using assms(2,3) by (simp add: ctx_wf_def)
  have adata: "st_AccountData E a p n st' =
      (if om_has (cd_DeletedAccountMap ctd) a then [] else fst (ctx_AccountData a p n ctx))" if a: "is_address a"
  proof -
    have "fst (ctx_AccountData a p n ctx) = ctx_view ctx (AData a p n)"
      using kv.get_view[OF assms(2), of "AData a p n"] a by simp
    then show ?thesis
      using a open' assms(5) ok(1)
      by (auto simp: st_AccountData_def get ok(3) apply_other apply_account_data[OF inv _ a refl] writable_def ctx_view_def
          assms(3,4) alayer_def st_as_loader_def not_height split: option.splits)
  qed
  have pdata: "st_ProcessData E p n st' = fst (ctx_ProcessData p n ctx)"
  proof -
    have "fst (ctx_ProcessData p n ctx) = ctx_view ctx (PData p n)"
      using kv.get_view[OF assms(2), of "PData p n"] by simp
    then show ?thesis
      using open' ok(1)
      by (auto simp: st_ProcessData_def get ok(3) apply_other apply_process_data[OF inv] ctx_view_def
          assms(3,4) player_def st_as_loader_def not_height split: option.splits)
  qed
  have acc: "map_sum id acc_Clone (st_Account E a st') = map_sum id acc_Clone (fst (ctx_Account a ctx))"
  proof -
    obtain cc' where "cc_Account (st_as_loader E st) a (ctx_cache ctx) = (st_Account E a st, cc')"
      by (rule cache_ok_Account[OF cc, of a]) (simp add: st_as_loader_def)
    then have r: "map_sum id acc_Clone (fst (ctx_Account a ctx)) =
        (if om_has (cd_DeletedAccountMap ctd) a then Inl (TypesErr ErrDeletedAccount)
         else case om_get (cd_AccountMap ctd) a of Some acc \<Rightarrow> Inr (acc_Clone acc)
           | None \<Rightarrow> map_sum id acc_Clone (st_Account E a st))"
      by (simp add: ctx_Account_def ctx_read_def ctx_dirty_def assms(3,4) Let_def split: option.splits sum.splits)
    have good: "good acc" if "om_get (cd_AccountMap ctd) a = Some acc" for acc
      using that assms(5) by (auto simp: writable_def om_get_def dest: map_of_SomeD)
    show ?thesis
      unfolding r using open' ok(1) read_account_bytes[OF fac] good
      by (auto simp: st_Account_def get ok(3) apply_other apply_account[OF inv] on_missing_def is_deleted_def[of "[0]"]
          not_height split: option.splits)
  qed
  have goodOut: "goodOut out" if "om_get (cd_CreatedUTXOMap ctd) i = Some out" for out
    using that assms(5) by (auto simp: writable_def om_get_def dest: map_of_SomeD)
  have goodU: "goodOut (ux_TxOut u)" if "om_get (cd_UTXOMap ctd) i = Some u" for u
    using that assms(5) by (auto simp: writable_def om_get_def dest: map_of_SomeD)
  have dec: "read_utxo E i (se_encTxOut E out) = Inr \<lparr>ux_TxIn = NewTxIn i, ux_TxOut = out\<rparr>" if "goodOut out" for out
    using codecD[OF out that, of "[]"] by (simp add: read_utxo_def unmarshal_def)
  have outs: "st_UTXO E i st' =
      (if om_has (cd_DeletedUTXOMap ctd) i then Inl (TypesErr ErrNotExistUTXO)
       else case om_get (cd_CreatedUTXOMap ctd) i of Some out \<Rightarrow> Inr \<lparr>ux_TxIn = NewTxIn i, ux_TxOut = out\<rparr>
         | None \<Rightarrow> case om_get (cd_UTXOMap ctd) i of Some u \<Rightarrow> Inr \<lparr>ux_TxIn = NewTxIn i, ux_TxOut = ux_TxOut u\<rparr>
           | None \<Rightarrow> st_UTXO E i st)"
    using open' ok(1) goodOut goodU
    by (auto simp: st_UTXO_def get ok(3) apply_other apply_output[OF inv] on_missing_def dec not_height split: option.splits)
  have read: "map_sum id (\<lambda>u. \<lparr>ux_TxIn = NewTxIn i, ux_TxOut = ux_TxOut u\<rparr>) (st_UTXO E i st) = st_UTXO E i st"
    by (simp add: st_UTXO_def on_missing_def read_utxo_def split: sum.split)
  have "st_UTXO E i st' =
      (if om_has (cd_DeletedUTXOMap ctd) i then Inl (TypesErr ErrNotExistUTXO)
       else case om_get (cd_CreatedUTXOMap ctd) i of Some out \<Rightarrow> Inr \<lparr>ux_TxIn = NewTxIn i, ux_TxOut = out\<rparr>
         | None \<Rightarrow> map_sum id (\<lambda>u. \<lparr>ux_TxIn = NewTxIn i, ux_TxOut = ux_TxOut u\<rparr>) (fst (ctx_UTXO i ctx)))"
    unfolding outs ctx_UTXO_view(2)[OF assms(2)] assms(3,4) using read
    by (auto simp: st_as_loader_def split: option.split)
  moreover have "fst (ctx_AddressByName nm ctx) = name_view (st_as_loader E st) [ctd] nm"
    unfolding ctx_AddressByName_view(2)[OF assms(2)] assms(3,4) ..
  ultimately show ?thesis using adata pdata acc stored_name[OF be assms(6) inv] by simp
qed

section \<open>After a restart\<close>

definition event_ok :: "('db, 'tx) store_env \<Rightarrow> event \<Rightarrow> bool" where
  "event_ok E ev \<longleftrightarrow> (\<exists>t dec. se_typeEvent E ev = Inr t \<and> se_createEvent E t = Inr dec \<and>
     (\<forall>rest. dec (se_encEvent E ev @ rest) = (Inr ev, rest)))"

lemma event_codec:
  assumes "msgpack_ok (se_mp E)"
  shows "codec (\<lambda>ev. projr (encode_event E ev)) (decode_event E) (event_ok E)"
  unfolding codec_def
proof (intro allI impI)
  fix ev rest assume "event_ok E ev"
  then show "decode_event E (projr (encode_event E ev) @ rest) = (Inr ev, rest)"
    using msgpack_reads(2)[OF assms] by (auto simp: event_ok_def encode_event_def decode_event_def bindE_def liftE_def)
qed

lemma block_datas_parts:
  assumes "block_datas E b events = Inr Datas" and "\<forall>ev\<in>set events. event_ok E ev"
  shows "block_encode (se_mp E) (se_encHeader E) (se_encTx E) b = Inr (Datas ! 0 @ Datas ! 1)"
    and "Datas ! 0 = se_encHeader E (b_Header b)"
    and "events = [] \<Longrightarrow> length Datas = 2"
    and "events \<noteq> [] \<Longrightarrow> length Datas = 3"
    and "events \<noteq> [] \<Longrightarrow> Datas ! 2 = encode_seq (se_mp E) (\<lambda>ev. projr (encode_event E ev)) events"
proof -
  obtain data where data: "block_encode (se_mp E) (se_encHeader E) (se_encTx E) b = Inr data"
    using assms(1) by (auto simp: block_datas_def Let_def split: sum.splits)
  then have hdr: "se_encHeader E (b_Header b) @ drop (length (se_encHeader E (b_Header b))) data = data"
    by (auto simp: block_encode_def split: if_splits)
  have evs: "mapR (encode_event E) events = Inr (map (\<lambda>ev. projr (encode_event E ev)) events)"
    using assms(2) by (intro mapR_Inr) (auto simp: event_ok_def encode_event_def)
  show "block_encode (se_mp E) (se_encHeader E) (se_encTx E) b = Inr (Datas ! 0 @ Datas ! 1)"
    "Datas ! 0 = se_encHeader E (b_Header b)" "events = [] \<Longrightarrow> length Datas = 2" "events \<noteq> [] \<Longrightarrow> length Datas = 3"
    "events \<noteq> [] \<Longrightarrow> Datas ! 2 = encode_seq (se_mp E) (\<lambda>ev. projr (encode_event E ev)) events"
    using assms(1) data hdr evs by (auto simp: block_datas_def Let_def encode_seq_def split: if_splits)
qed

text \<open>Names that \<^verbatim>\<open>setupMagicNumber\<close> accepts.\<close>

definition names_allowed :: "string \<Rightarrow> string \<Rightarrow> bool" where
  "names_allowed symbol usage \<longleftrightarrow> 3 \<le> length symbol \<and> length symbol \<le> 5 \<and> isCapitalAndNumber symbol \<and>
     4 \<le> length usage \<and> length usage \<le> 16 \<and> isAlphabetAndNumber usage"

lemma BE_Uint64_reads: "8 \<le> length bs \<Longrightarrow> \<exists>v. BE_Uint64 bs = Some v"
  by (cases bs rule: BE_Uint64.cases) simp_all

lemma setupMagicNumber_ok:
  assumes "names_allowed (st_symbol st) (st_usage st)"
  shows "\<exists>v. setupMagicNumber st = Inr (st\<lparr>st_magicNumber := v\<rparr>)"
proof -
  define base where "base = fold_pairs (Hash (str_bytes (st_symbol st @ ''@'' @ st_usage st @ ''@'' @ ''PoweredByFLETABlockchain''))) (243, 133)"
  define tbs where "tbs = (if fst base \<noteq> 0 \<or> snd base \<noteq> 0 then go_copy (zeros 6) (str_bytes (st_symbol st)) else zeros 6)"
  have "setupMagicNumber st = (case BE_Uint64 ([fst base, snd base] @ xor_pairs (fst base) (snd base) tbs) of
      None \<Rightarrow> Inl Panic | Some v \<Rightarrow> Inr (st\<lparr>st_magicNumber := v\<rparr>))"
    using assms by (simp only: setupMagicNumber_def names_allowed_def Let_def base_def tbs_def not_less[symmetric] if_False simp_thms)
  moreover have "length tbs = 6" by (simp add: tbs_def)
  then obtain v where "BE_Uint64 ([fst base, snd base] @ xor_pairs (fst base) (snd base) tbs) = Some v"
    using BE_Uint64_reads[of "[fst base, snd base] @ xor_pairs (fst base) (snd base) tbs"] by auto
  ultimately show ?thesis by auto
qed

lemma NewStore_opens:
  fixes db :: 'db
  assumes "names_allowed symbol usage"
  obtains st :: "('db, 'tx) store" where "NewStore db cdb ChainID symbol usage version = Inr st" and "st_db st = db"
    and "st_cdb st = cdb" and "\<not> st_isClose st" and "\<not> ch_cached (st_cache st)"
proof -
  let ?st = "\<lparr>st_db = db, st_cdb = cdb, st_chainID = ChainID, st_symbol = symbol, st_usage = usage,
      st_magicNumber = 0, st_version = version,
      st_cache = \<lparr>ch_cached = False, ch_height = 0, ch_heightHash = EmptyHash, ch_heightBlock = None\<rparr>,
      st_isClose = False, st_timeSlotMap = []\<rparr> :: ('db, 'tx) store"
  obtain v where "setupMagicNumber ?st = Inr (?st\<lparr>st_magicNumber := v\<rparr>)" using setupMagicNumber_ok[of ?st] assms by auto
  then show thesis using that[of "?st\<lparr>st_magicNumber := v\<rparr>"] by (simp add: NewStore_def)
qed

text \<open>
  C22: a stored block is found again. After \<^verbatim>\<open>StoreBlock\<close> of the next block a node is restarted as the commands do it:
  \<^verbatim>\<open>pile.Open\<close> reads the pile files, in whatever order the directory lists them, and \<^verbatim>\<open>NewStore\<close> is given the
  database and the opened piles. The new store is at the height of the block and reads its hash, its header, the whole
  block and its events from the files. The exception is a block that fills a pile exactly: then \<^verbatim>\<open>pile.Open\<close>
  fails with \<^verbatim>\<open>ErrMissingPile\<close>.
\<close>

theorem stored_block_found:
  fixes E :: "('db, 'tx) store_env"
  assumes "backend_ok (se_backend E) repr" and "msgpack_ok (se_mp E)" and "\<And>d. se_gunzip E (se_gzip E d) = Inr d"
    and "codec (se_encHeader E) (se_decHeader E) goodHeader" and "goodHeader (b_Header b)"
    and "block_good (se_createTx E) (se_encTx E) b" and "short (cd_Events ctd)" and "\<forall>ev\<in>set (cd_Events ctd). event_ok E ev"
    and "db_holds (se_gzip E) (st_cdb st) es" and "bh_Height (b_Header b) = of_nat (Suc (length es))"
    and "block_datas E b (cd_Events ctd) = Inr Datas"
    and "db_fits (se_gzip E) (es @ [(se_hashHeader E (b_Header b), Datas)])"
    and "StoreBlock E b ctd st = (Inr (), st')"
    and "set files = pl_file ` set (pd_piles (st_cdb st'))" and "names_allowed symbol usage"
  shows "if Suc (length es) mod unit_size = 0 then db_Open files = Inl (PileErr ErrMissingPile)
    else \<exists>cdb r. db_Open files = Inr cdb \<and> NewStore (st_db st') cdb ChainID symbol usage version = Inr r \<and>
      st_Height E r = bh_Height (b_Header b) \<and>
      st_Hash (bh_Height (b_Header b)) r = Inr (se_hashHeader E (b_Header b)) \<and>
      st_Header E (bh_Height (b_Header b)) r = Inr (b_Header b) \<and>
      st_Block E (bh_Height (b_Header b)) r = Inr b \<and>
      st_Events E (bh_Height (b_Header b)) (bh_Height (b_Header b)) r = Inr (cd_Events ctd)"
proof -
  let ?H = "bh_Height (b_Header b)" and ?h = "se_hashHeader E (b_Header b)"
  note ok = StoreBlock_success[OF assms(1,13)] and get = backend_get[OF assms(1)]
  note data = block_datas_parts[OF assms(11,8)]
  have len: "2 \<le> length Datas" "length Datas < 64" "Datas \<noteq> []"
    using data(3,4) by (cases "cd_Events ctd = []"; force)+
  obtain cdb where app: "db_AppendData (se_gzip E) ?H ?h Datas (st_cdb st) = (Inr (), cdb)"
    and holds: "db_holds (se_gzip E) cdb (es @ [(?h, Datas)])"
    using db_AppendData_holds[OF assms(9,12)] assms(10) by (auto simp: add.commute)
  have cdb': "st_cdb st' = cdb" using ok(7) app assms(11) by auto
  have bound: "length (es @ [(?h, Datas)]) + unit_size < 2 ^ 32" using assms(12) by (simp add: db_fits_def)
  note opened = db_Open_holds[OF holds bound assms(14)[unfolded cdb']]
  obtain r :: "('db, 'tx) store" where new: "NewStore (st_db st') cdb ChainID symbol usage version = Inr r" "st_db r = st_db st'"
    and cdb: "st_cdb r = cdb" and new': "\<not> st_isClose r" "\<not> ch_cached (st_cache r)"
    by (rule NewStore_opens[OF assms(15)])
  note reads = db_reads[OF holds bound assms(3), of "length es" ?h Datas, simplified nth_append_length, folded assms(10),
    OF _ refl len(2)]
  have H: "unat ?H = Suc (length es)" using bound unfolding assms(10) by (simp add: unat_of_nat del: of_nat_Suc)
  then have pos: "\<not> ?H < 1" "?H \<noteq> 0" by (auto simp: word_less_nat_alt)
  have r: "\<not> st_isClose r" "\<not> ch_cached (st_cache r)" "repr (st_db r) tagHeight = Some (LE_Uint32ToBytes ?H)"
    using new' ok(3) by (simp_all add: new(2) apply_other)
  have height: "st_Height E r = ?H" using r by (simp add: st_Height_def get)
  have hash: "st_Hash ?H r = Inr ?h" using r reads(1) by (simp add: st_Hash_def cdb pile_result_def)
  have hdr: "st_Header E ?H r = Inr (b_Header b)"
    using r pos len reads(2)[of 0] codecD[OF assms(4,5), of "[]"]
    by (simp add: st_Header_def cdb pile_result_def data(2) unmarshal_def)
  have "block_decode (se_mp E) (se_decHeader E) (se_createTx E) ((Datas ! 0 @ Datas ! 1) @ []) = (Inr b, [])"
    using block_codec[OF assms(2,4,5,6), of "[]"] data(1) by simp
  moreover have "concat (map ((!) Datas) [0..<0 + 2]) = Datas ! 0 @ Datas ! 1" by (simp add: numeral_2_eq_2)
  ultimately have blk: "st_Block E ?H r = Inr b"
    using r pos len(1) reads(3)[of 0 2] by (simp add: st_Block_def cdb pile_result_def unmarshal_def numeral_2_eq_2)
  have "collect_events E r [Suc (length es)] = Inr (cd_Events ctd)"
  proof (cases "cd_Events ctd = []")
    case True
    then show ?thesis using data(3) reads(2)[of 2] by (simp add: cdb assms(10)[symmetric] del: of_nat_Suc)
  next
    case False
    have "fst (decode_seq (se_mp E) (decode_event E) (Datas ! 2 @ [])) = Inr (cd_Events ctd)"
      using codecD[OF codec_seq[OF assms(2) event_codec[OF assms(2)]], of "cd_Events ctd" "[]"] data(5)[OF False] assms(7,8)
      by simp
    then show ?thesis using data(4)[OF False] reads(2)[of 2]
      by (simp add: cdb unmarshal_def assms(10)[symmetric] del: of_nat_Suc)
  qed
  then have ev: "st_Events E ?H ?H r = Inr (cd_Events ctd)" using r(1) height H by (simp add: st_Events_def)
  show ?thesis using opened new(1) height hash hdr blk ev by auto
qed

section \<open>An example environment\<close>

definition map_backend :: "(bytes, bytes) omap store_backend" where
  "map_backend =
     \<lparr>sb_Get = (\<lambda>k db. case om_get db k of None \<Rightarrow> Inl ErrNotExistKey | Some v \<Rightarrow> Inr v),
      sb_Iterate = (\<lambda>p db. Inr (map (\<lambda>k. (k, the (om_get db k))) (filter (\<lambda>k. take (length p) k = p) (map fst db)))),
      sb_Set = (\<lambda>k v. writeE (om_put k v)), sb_Delete = (\<lambda>k. writeE (om_delete k))\<rparr>"

lemma map_backend_ok: "backend_ok map_backend om_get"
proof -
  have "set (map (\<lambda>k. (k, the (om_get db k))) (filter (\<lambda>k. take (length p) k = p) (map fst db))) =
      {(k, v). om_get db k = Some v \<and> take (length p) k = p}" for p and db :: "(bytes, bytes) omap"
  proof -
    have "k \<in> fst ` set db \<longleftrightarrow> (\<exists>v. om_get db k = Some v)" for k
      using om_has_map_of[of db k] by (auto simp: om_has_def)
    then show ?thesis by (auto simp: image_iff)
  qed
  then show ?thesis by (simp add: backend_ok_def map_backend_def writeE_def fun_eq_iff)
qed

definition sample_env :: "((bytes, bytes) omap, u64) store_env" where
  "sample_env =
     \<lparr>se_backend = map_backend, se_mp = plain_msgpack, se_encHeader = plain_header, se_decHeader = plain_unheader,
      se_hashHeader = (\<lambda>_. zeros 32), se_encTx = LE_Uint64ToBytes,
      se_createTx = (\<lambda>t. if t = 1 then Inr (fixed 8 LE_Uint64) else Inl (CommonErr ErrUnknownType)),
      se_timestamp = (\<lambda>_. 7), se_hashTx = (\<lambda>_ _ _. zeros 32), se_gzip = (\<lambda>d. d), se_gunzip = Inr,
      se_typeAccount = plain_TypeOf, se_encAccount = plain_account, se_createAccount = plain_create,
      se_encTxOut = plain_txout, se_decTxOut = plain_untxout,
      se_typeEvent = (\<lambda>_. Inl (CommonErr ErrUnknownType)), se_encEvent = (\<lambda>_. []),
      se_createEvent = (\<lambda>_. Inl (CommonErr ErrUnknownType)), se_decBase58 = (\<lambda>_. None)\<rparr>"

definition sample_store :: "((bytes, bytes) omap, u64) store" where
  "sample_store =
     \<lparr>st_db = [], st_cdb = sample_db, st_chainID = 1, st_symbol = ''FLETA'', st_usage = ''Mainnet'', st_magicNumber = 0,
      st_version = 1,
      st_cache = \<lparr>ch_cached = False, ch_height = 0, ch_heightHash = EmptyHash, ch_heightBlock = None\<rparr>,
      st_isClose = False, st_timeSlotMap = []\<rparr>"

definition sample_ctx :: chain_ctx where
  "sample_ctx = ctx_set (PData 1 [2]) [3] (NewContext (st_as_loader sample_env sample_store))"

lemma sample_env_ok: "env_ok sample_env om_get good_single good_txout"
  using map_backend_ok plain_struct_codecs by (simp add: env_ok_def sample_env_def)

definition sample_Datas :: "bytes list" where
  "sample_Datas = projr (block_datas sample_env sample_block [])"

lemma sample_Datas_facts:
  "block_datas sample_env sample_block [] = Inr sample_Datas" "length sample_Datas = 2"
  "sum_list (map length sample_Datas) < 1000"
proof -
  have "block_datas sample_env sample_block [] = Inr sample_Datas \<and> length sample_Datas = 2 \<and>
      sum_list (map length sample_Datas) < 1000"
    by (simp add: sample_Datas_def block_datas_def sample_env_def block_encode_def sample_block_def sample_header_def
        plain_header_def plain_msgpack_def plain_bytes_def encode_seq_def SignatureSize_def Let_def)
  then show "block_datas sample_env sample_block [] = Inr sample_Datas" "length sample_Datas = 2"
    "sum_list (map length sample_Datas) < 1000" by simp_all
qed

lemma StoreBlock_runs:
  assumes "backend_ok (se_backend E) repr" and "\<not> st_isClose st" and "storable E ctd"
    and "block_datas E b (cd_Events ctd) = Inr Datas"
    and "db_AppendData (se_gzip E) (bh_Height (b_Header b)) (se_hashHeader E (b_Header b)) Datas (st_cdb st) = (Inr (), cdb)"
  shows "StoreBlock E b ctd st = (Inr (), snd (StoreBlock E b ctd st))"
proof -
  let ?set = "sb_Set (se_backend E) tagHeight (LE_Uint32ToBytes (bh_Height (b_Header b)))"
  have "runs_to repr (thenE ?set (applyContextData E ctd)) (st_db st) (apply_process ctd (apply_outputs E ctd (apply_accounts E ctd
      ((repr (st_db st))(tagHeight \<mapsto> LE_Uint32ToBytes (bh_Height (b_Header b)))))))"
    using runs_to_set[OF assms(1)] by (rule runs_to_then) (metis acts_def applyContextData_acts[OF assms(1,3)])
  then show ?thesis using assms(2,4,5) by (auto simp: StoreBlock_def Let_def db_Update_def runs_to_def)
qed

lemma sample_ctd:
  "ctx_stack sample_ctx = [ctx_Top sample_ctx]" "ctx_loader sample_ctx = st_as_loader sample_env sample_store"
  "cd_Events (ctx_Top sample_ctx) = []" "cd_AccountMap (ctx_Top sample_ctx) = []" "cd_DeletedAccountMap (ctx_Top sample_ctx) = []"
  "cd_UTXOMap (ctx_Top sample_ctx) = []" "cd_CreatedUTXOMap (ctx_Top sample_ctx) = []"
  by (simp_all add: sample_ctx_def ctx_SetProcessData_def ctx_setTop_def NewContext_def ctx_Top_def NewContextData_def
      ctd_SetProcessData_def Let_def)

lemma sample_db_holds: "db_holds (\<lambda>d. d) sample_db []"
  using db_Init_holds[of "zeros 32" "zeros 32" "\<lambda>d. d"] by (auto simp: sample_db_def)

lemma sample_fits: "db_fits (\<lambda>d. d) ([] @ [(zeros 32, sample_Datas)])"
proof -
  have "length d \<le> sum_list (map length sample_Datas)" if "d \<in> set sample_Datas" for d
    using that by (simp add: member_le_sum_list)
  then have "\<forall>d\<in>set sample_Datas. length d < 2 ^ 32" using sample_Datas_facts(3) by fastforce
  then show ?thesis
    using sample_Datas_facts(2,3) by (simp add: db_fits_def pile_entry_ok_def end_offset_def length_entry_bytes)
qed

lemma sample_StoreBlock_of:
  assumes "storable sample_env ctd" and "cd_Events ctd = []"
  shows "StoreBlock sample_env sample_block ctd sample_store = (Inr (), snd (StoreBlock sample_env sample_block ctd sample_store))"
proof -
  have "se_gzip sample_env = (\<lambda>d. d)" "bh_Height (b_Header sample_block) = 1" "se_hashHeader sample_env h = zeros 32"
    "st_cdb sample_store = sample_db" for h
    by (simp_all add: sample_env_def sample_block_def sample_header_def sample_store_def)
  then obtain cdb where "db_AppendData (se_gzip sample_env) (bh_Height (b_Header sample_block))
      (se_hashHeader sample_env (b_Header sample_block)) sample_Datas (st_cdb sample_store) = (Inr (), cdb)"
    using db_AppendData_holds[OF sample_db_holds sample_fits] by auto
  moreover have "backend_ok (se_backend sample_env) om_get" "\<not> st_isClose sample_store"
    using map_backend_ok by (simp_all add: sample_env_def sample_store_def)
  ultimately show ?thesis
    using sample_Datas_facts(1) assms by (intro StoreBlock_runs) simp_all
qed

lemma sample_StoreBlock:
  "StoreBlock sample_env sample_block (ctx_Top sample_ctx) sample_store =
     (Inr (), snd (StoreBlock sample_env sample_block (ctx_Top sample_ctx) sample_store))"
  by (rule sample_StoreBlock_of) (auto simp: storable_def sample_ctd)

text \<open>The same context with a new account.\<close>

definition sample_account :: account where
  "sample_account = SingleAccount \<lparr>sa_Address = NewAddress 1 0 0, sa_Name = ''alice'', sa_KeyHash = zeros PublicHashSize\<rparr>"

definition sample_named :: chain_ctx where
  "sample_named = ctx_setTop (insert_account sample_account) sample_ctx"

lemma sample_named_facts:
  "ctx_wf sample_named" "ctx_stack sample_named = [ctx_Top sample_named]"
  "ctx_loader sample_named = st_as_loader sample_env sample_store"
  "cd_AccountMap (ctx_Top sample_named) = [(NewAddress 1 0 0, sample_account)]"
  "cd_AccountNameMap (ctx_Top sample_named) = [(''alice'', NewAddress 1 0 0)]"
  "cd_DeletedAccountMap (ctx_Top sample_named) = []" "cd_UTXOMap (ctx_Top sample_named) = []"
  "cd_CreatedUTXOMap (ctx_Top sample_named) = []" "cd_Events (ctx_Top sample_named) = []"
proof -
  have "ctx_wf sample_ctx" unfolding sample_ctx_def by (rule ctx_set_wf(1)[OF ctx_wf_NewContext])
  then show "ctx_wf sample_named"
    unfolding sample_named_def
    by (intro ctx_local_wf[OF ctx_local_setTop]) (simp_all add: insert_account_def ctd_inv_def)
qed (simp_all add: sample_named_def sample_ctx_def ctx_SetProcessData_def ctx_setTop_def NewContext_def ctx_Top_def NewContextData_def
      ctd_SetProcessData_def insert_account_def sample_account_def Let_def)

theorem store_keeps_context_witness:
  "st_AddressByName sample_env ''alice'' (snd (StoreBlock sample_env sample_block (ctx_Top sample_named) sample_store))
     = Inr (NewAddress 1 0 0) \<and>
   st_ProcessData sample_env 1 [2] (snd (StoreBlock sample_env sample_block (ctx_Top sample_ctx) sample_store)) = [3]"
proof -
  let ?n = "NewContext (st_as_loader sample_env sample_store)"
  have wf: "ctx_wf sample_ctx" unfolding sample_ctx_def by (rule ctx_set_wf(1)[OF ctx_wf_NewContext])
  have "fst (ctx_get (PData 1 [2]) (ctx_set (PData 1 [2]) [3] ?n)) = [3]"
    using kv.get_after_put[OF ctx_wf_NewContext, of "PData 1 [2]" "PData 1 [2]" "[3]"] by simp
  then have "fst (ctx_ProcessData 1 [2] sample_ctx) = [3]" by (simp add: sample_ctx_def)
  moreover have "writable sample_env good_single good_txout (ctx_Top sample_ctx)" using sample_ctd by (simp add: writable_def)
  ultimately have data: "st_ProcessData sample_env 1 [2] (snd (StoreBlock sample_env sample_block (ctx_Top sample_ctx) sample_store)) = [3]"
    using store_keeps_context[OF sample_env_ok wf sample_ctd(2,1) _ sample_StoreBlock, of _ 1 "[2]"] by simp
  note f = sample_named_facts
  have addr: "is_address (NewAddress 1 0 0)" by code_simp
  have w: "writable sample_env good_single good_txout (ctx_Top sample_named)"
    using f addr by (simp add: writable_def sample_account_def short_def is_address_def AddressSize_def PublicHashSize_def)
  have "storable sample_env (ctx_Top sample_named)"
    using f by (simp add: storable_def sample_env_def sample_account_def)
  note run = sample_StoreBlock_of[OF this f(9)]
  from addr have "names_ok sample_env sample_store (ctx_Top sample_named)"
    using f by (auto simp: names_ok_def sample_account_def om_get_def sample_store_def sample_env_def map_backend_def)
  moreover have "fst (ctx_AddressByName ''alice'' sample_named) = Inr (NewAddress 1 0 0)"
    unfolding ctx_AddressByName_view(2)[OF f(1)] f(2) by (simp add: f(5) om_get_def)
  ultimately show ?thesis
    using store_keeps_context[OF sample_env_ok f(1) f(3) f(2) w run, of _ 1 "[2]" "''alice''"] data by (simp add: f(6) om_has_def om_get_def)
qed

theorem stored_block_found_witness:
  "(let st = snd (StoreBlock sample_env sample_block (ctx_Top sample_ctx) sample_store)
    in \<exists>cdb r. db_Open (map pl_file (pd_piles (st_cdb st))) = Inr cdb \<and>
      NewStore (st_db st) cdb 1 ''FLETA'' ''Mainnet'' 1 = Inr r \<and> st_Block sample_env 1 r = Inr sample_block)"
proof -
  let ?c = "ctx_Top sample_ctx"
  have env: "backend_ok (se_backend sample_env) om_get" "msgpack_ok (se_mp sample_env)"
    "\<And>d. se_gunzip sample_env (se_gzip sample_env d) = Inr d"
    "codec (se_encHeader sample_env) (se_decHeader sample_env) good_header"
    using map_backend_ok plain_msgpack_ok plain_header_codec by (simp_all add: sample_env_def)
  have blk: "good_header (b_Header sample_block)" "block_good (se_createTx sample_env) (se_encTx sample_env) sample_block"
    by (simp_all add: good_header_def sample_block_def sample_header_def short_def sample_env_def block_good_def
        tx_readable_def good_sigs_def fixed_append)
  have ev: "short (cd_Events ?c)" "\<forall>ev\<in>set (cd_Events ?c). event_ok sample_env ev" by (simp_all add: sample_ctd short_def)
  have cdb: "db_holds (se_gzip sample_env) (st_cdb sample_store) []"
    "bh_Height (b_Header sample_block) = of_nat (Suc (length ([] :: pile_entry list)))"
    "block_datas sample_env sample_block (cd_Events ?c) = Inr sample_Datas"
    "db_fits (se_gzip sample_env) ([] @ [(se_hashHeader sample_env (b_Header sample_block), sample_Datas)])"
    using sample_db_holds sample_fits sample_Datas_facts(1)
    by (simp_all add: sample_ctd sample_env_def sample_block_def sample_header_def sample_store_def)
  have names: "names_allowed ''FLETA'' ''Mainnet''" by code_simp
  from stored_block_found[OF env(1-4) blk ev cdb sample_StoreBlock _ names, of "map pl_file (pd_piles (st_cdb
      (snd (StoreBlock sample_env sample_block ?c sample_store))))" 1 1] show ?thesis
    by (auto simp: Let_def sample_block_def sample_header_def)
qed

end
