(* ===== verification/Chain_Laws.thy ===== *)
theory Chain_Laws
  imports Chain Replay Store_Laws
begin

text \<open>
  What the chain guarantees: the parallel check of the signatures computes what a sequential one computes, a block
  of the block creator is executed by every other node to the same state, and what connecting a block does to the
  store.
\<close>

section \<open>The division of the transactions\<close>

lemma mapR_append:
  "mapR f (xs @ ys) =
     (case mapR f xs of Inl e \<Rightarrow> Inl e | Inr us \<Rightarrow> (case mapR f ys of Inl e \<Rightarrow> Inl e | Inr vs \<Rightarrow> Inr (us @ vs)))"
  by (induction xs) (auto split: sum.split)

lemma mapR_concat:
  "mapR f (concat xss) = Inr ys \<longleftrightarrow>
     (\<forall>xs\<in>set xss. \<not> isl (mapR f xs)) \<and> ys = concat (map (\<lambda>xs. projr (mapR f xs)) xss)"
proof (induction xss arbitrary: ys)
  case Nil
  then show ?case by auto
next
  case (Cons xs xss)
  show ?case
  proof (cases "mapR f (concat xss)")
    case (Inl e)
    then have "\<not> (\<forall>xs\<in>set xss. \<not> isl (mapR f xs))"
      using Cons.IH[of "concat (map (\<lambda>xs. projr (mapR f xs)) xss)"] by simp
    then show ?thesis using Inl by (auto simp: mapR_append split: sum.split)
  next
    case (Inr zs)
    then have "\<forall>xs\<in>set xss. \<not> isl (mapR f xs)" "zs = concat (map (\<lambda>xs. projr (mapR f xs)) xss)"
      using Cons.IH[of zs] by simp_all
    then show ?thesis using Inr by (auto simp: mapR_append split: sum.split)
  qed
qed

lemma enumerate_parts:
  "concat (map (\<lambda>i. enumerate (i * u) (slice (i * u) (min ((i + 1) * u) (length xs)) xs)) [0..<k]) = enumerate 0 (take (k * u) xs)"
proof (induction k)
  case 0
  then show ?case by simp
next
  case (Suc k)
  have "slice (k * u) (min ((k + 1) * u) (length xs)) xs = take u (drop (k * u) xs)"
    by (cases "(k + 1) * u \<le> length xs") (auto simp: slice_def min_def not_le)
  moreover have "enumerate (k * u) (take u (drop (k * u) xs)) = enumerate (length (take (k * u) xs)) (take u (drop (k * u) xs))"
    by (cases "k * u \<le> length xs") auto
  moreover have "take (Suc k * u) xs = take (k * u) xs @ take u (drop (k * u) xs)"
    using take_add[of "k * u" u xs] by (simp add: add.commute)
  ultimately show ?case
    using Suc by (simp add: enumerate_append_eq)
qed

text \<open>Enough units for all, and the condition under which no part begins behind the end.\<close>

lemma txUnit_enough: "0 < c \<Longrightarrow> n \<le> c * txUnit n c"
proof -
  assume c: "0 < c"
  define q r where qr: "q = n div c" "r = n mod c"
  have "n = c * q + r" "r < c" using c by (simp_all add: qr)
  then show ?thesis by (simp add: txUnit_def qr[symmetric] distrib_left)
qed

definition parts_fit :: "nat \<Rightarrow> nat \<Rightarrow> bool" where
  "parts_fit n c \<longleftrightarrow> n mod c = 0 \<or> c \<le> n div c + 1 + n mod c"

lemma parts_fit_iff:
  assumes "0 < c"
  shows "list_ex (\<lambda>i. min ((i + 1) * txUnit n c) n < i * txUnit n c) [0..<c] \<longleftrightarrow> \<not> parts_fit n c"
proof -
  let ?u = "txUnit n c"
  have "list_ex (\<lambda>i. min ((i + 1) * ?u) n < i * ?u) [0..<c] \<longleftrightarrow> n < (c - 1) * ?u"
  proof
    assume "list_ex (\<lambda>i. min ((i + 1) * ?u) n < i * ?u) [0..<c]"
    then obtain i where "i < c" "n < i * ?u" by (auto simp: list_ex_iff min_def split: if_splits)
    moreover from this have "i * ?u \<le> (c - 1) * ?u" by (intro mult_le_mono1) simp
    ultimately show "n < (c - 1) * ?u" using less_le_trans by blast
  next
    assume "n < (c - 1) * ?u"
    then show "list_ex (\<lambda>i. min ((i + 1) * ?u) n < i * ?u) [0..<c]"
      using assms by (auto simp: list_ex_iff intro!: bexI[of _ "c - 1"])
  qed
  also have "\<dots> \<longleftrightarrow> \<not> parts_fit n c"
  proof -
    define q r where qr: "q = n div c" "r = n mod c"
    obtain d where c: "c = Suc d" using assms by (cases c) auto
    have n: "n = Suc d * q + r" by (simp add: qr c del: mult_Suc)
    have "(Suc d * q + r < d * (q + (if r \<noteq> 0 then 1 else 0))) \<longleftrightarrow> \<not> (r = 0 \<or> Suc d \<le> q + 1 + r)"
      by (auto simp: algebra_simps)
    then show ?thesis unfolding parts_fit_def txUnit_def qr[symmetric] using n c by simp
  qed
  finally show ?thesis .
qed

text \<open>The signer provider answers with signers that the signatures really recover.\<close>

definition provider_ok :: "recover \<Rightarrow> signer_provider option \<Rightarrow> bool" where
  "provider_ok recover sp \<longleftrightarrow>
     (\<forall>get h gsg gsn. sp = Some get \<and> get h = (Some gsg, Some gsn) \<longrightarrow> recover_signers recover h gsg = Inr gsn)"

lemma cached_signers_ok:
  assumes "provider_ok recover sp" and "cached_signers sp h sigs = Some signers"
  shows "recover_signers recover h sigs = Inr signers"
proof -
  obtain get gsg where g: "sp = Some get" "get h = (Some gsg, Some signers)" "length gsg = length sigs"
    "list_all (\<lambda>(g, s). g = s) (zip gsg sigs)"
    using assms(2) by (auto simp: cached_signers_def split: option.splits prod.splits if_splits)
  then have "gsg = sigs" by (auto simp: list_all_length intro: nth_equalityI)
  then show ?thesis using assms(1) g unfolding provider_ok_def by blast
qed

lemma verify_tx_cached:
  "provider_ok (ce_recover E) sp \<Longrightarrow> verify_tx E chainID sp b = verify_tx E chainID None b"
  using cached_signers_ok[of "ce_recover E" sp]
  by (auto simp: verify_tx_def Let_def fun_eq_iff cached_signers_def[of None] split: option.split sum.split)

text \<open>The hash and the signers of every transaction, one after the other and without a provider.\<close>

definition verify_in_order ::
  "('db, 'tx, 'cs) chain_env \<Rightarrow> u8 \<Rightarrow> 'tx block \<Rightarrow> err + (hash256 \<times> pubhash list) list" where
  "verify_in_order E chainID b = mapR (verify_tx E chainID None b) (enumerate 0 (b_Transactions b))"

lemma verify_all_correct:
  assumes "0 < ce_NumCPU E" and "provider_ok (ce_recover E) sp"
  shows "length (b_Transactions b) < 1000 \<or> parts_fit (length (b_Transactions b)) (ce_NumCPU E) \<Longrightarrow>
      verify_all E chainID sp b = Inr vs \<longleftrightarrow> verify_in_order E chainID b = Inr vs"
    and "\<not> (length (b_Transactions b) < 1000 \<or> parts_fit (length (b_Transactions b)) (ce_NumCPU E)) \<Longrightarrow>
      verify_all E chainID sp b = Inl Panic"
proof -
  let ?n = "length (b_Transactions b)" and ?f = "verify_tx E chainID None b"
  let ?c = "cpuCnt E ?n" let ?u = "txUnit ?n ?c"
  let ?part = "\<lambda>i. enumerate (i * ?u) (slice (i * ?u) (min ((i + 1) * ?u) ?n) (b_Transactions b))"
  have c: "0 < ?c" using assms(1) by (simp add: cpuCnt_def)
  have fit: "list_ex (\<lambda>i. min ((i + 1) * ?u) ?n < i * ?u) [0..<?c] \<longleftrightarrow> \<not> (?n < 1000 \<or> parts_fit ?n (ce_NumCPU E))"
    using parts_fit_iff[OF c, of ?n] by (simp add: cpuCnt_def parts_fit_def)
  have parts: "map (verify_part E chainID sp b ?u) [0..<?c] = map (mapR ?f \<circ> ?part) [0..<?c]"
    by (simp add: verify_part_def Let_def verify_tx_cached[OF assms(2)])
  have all: "concat (map ?part [0..<?c]) = enumerate 0 (b_Transactions b)"
    using enumerate_parts[of ?u "b_Transactions b" ?c] txUnit_enough[OF c, of ?n] by simp
  show "verify_all E chainID sp b = Inr vs \<longleftrightarrow> verify_in_order E chainID b = Inr vs"
    if "?n < 1000 \<or> parts_fit ?n (ce_NumCPU E)"
  proof (cases "?n = 0")
    case True
    then show ?thesis by (auto simp: verify_all_def verify_in_order_def)
  next
    case False
    have "verify_in_order E chainID b = Inr vs \<longleftrightarrow>
        (\<forall>xs\<in>set (map ?part [0..<?c]). \<not> isl (mapR ?f xs)) \<and> vs = concat (map (\<lambda>xs. projr (mapR ?f xs)) (map ?part [0..<?c]))"
      unfolding verify_in_order_def all[symmetric] by (rule mapR_concat)
    moreover have "verify_all E chainID sp b = Inr vs \<longleftrightarrow> (\<forall>r\<in>set (map (mapR ?f \<circ> ?part) [0..<?c]). \<not> isl r) \<and>
        vs = concat (map projr (map (mapR ?f \<circ> ?part) [0..<?c]))"
      unfolding verify_all_def Let_def parts using fit that False by (auto simp: filter_empty_conv)
    ultimately show ?thesis by (simp add: comp_def)
  qed
  show "verify_all E chainID sp b = Inl Panic" if "\<not> (?n < 1000 \<or> parts_fit ?n (ce_NumCPU E))"
    using that fit by (auto simp: verify_all_def Let_def)
qed

lemma parts_fit_32: "0 < c \<Longrightarrow> c \<le> 32 \<Longrightarrow> n < 1000 \<or> parts_fit n c"
proof (rule ccontr)
  assume c: "0 < c" "c \<le> 32" and "\<not> (n < 1000 \<or> parts_fit n c)"
  then have "1000 \<le> n" "n mod c \<noteq> 0" "n div c + 1 + n mod c < c" by (auto simp: parts_fit_def)
  moreover have "31 \<le> n div c" using \<open>1000 \<le> n\<close> c by (simp add: less_eq_div_iff_mult_less_eq)
  ultimately show False using c by linarith
qed

text \<open>
  C16: the check of the signatures may be spread over goroutines and answered from the transaction pool. If the
  signers the pool remembers are those the signatures recover, the outcome is that of checking one transaction
  after the other: the same hashes and signers when all signatures are good, and a failure otherwise. The division
  itself works as long as no part begins behind the last transaction, which holds up to thirty-two processors; with more
  processors some transaction counts make the slice expression panic, for instance 1021 transactions on 34 processors.
\<close>

theorem parallel_verification:
  assumes "0 < ce_NumCPU E" and "provider_ok (ce_recover E) sp"
  shows "(if length (b_Transactions b) < 1000 \<or> parts_fit (length (b_Transactions b)) (ce_NumCPU E)
      then \<forall>vs. verify_all E chainID sp b = Inr vs \<longleftrightarrow> verify_in_order E chainID b = Inr vs
      else verify_all E chainID sp b = Inl Panic) \<and>
    (ce_NumCPU E \<le> 32 \<longrightarrow> length (b_Transactions b) < 1000 \<or> parts_fit (length (b_Transactions b)) (ce_NumCPU E)) \<and>
    \<not> parts_fit 1021 34"
  using verify_all_correct[OF assms, of b chainID] parts_fit_32[OF assms(1)] by (auto simp: parts_fit_def)

section \<open>Running one transaction\<close>

lemma lawful_keepsGenerator [lawful_intros]: "lawful (keepsGenerator g)"
proof -
  let ?k = "\<lambda>r. case r of Inl e \<Rightarrow> throwE (if e = TypesErr ErrDeletedAccount then ChainErr ErrCannotDeleteGeneratorAccount else e)
    | Inr has \<Rightarrow> failIf (\<not> has) (ChainErr ErrCannotDeleteGeneratorAccount)"
  have "keepsGenerator g = (\<lambda>ctx. ?k (fst (ctx_HasAccount g ctx)) ctx)"
    by (auto simp: keepsGenerator_def fun_eq_iff ctx_HasAccount_def throwE_def failIf_run split: sum.split)
  moreover have k: "lawful (?k r)" for r
    by (cases r) (simp_all only: sum.case, (intro lawful_intros)+)
  have "lawful (\<lambda>ctx. ?k (fst (ctx_HasAccount g ctx)) ctx)"
    by (rule lawful_check[where k = ?k and check = "\<lambda>ctx. fst (ctx_HasAccount g ctx)"])
      (simp add: ctx_HasAccount_def HasAccount_same, rule k)
  ultimately show ?thesis by (simp only:)
qed

text \<open>
  A transaction either leaves one snapshot in the place of the top one, or fails and gives the top snapshot
  back, or fails because its time slot is used and leaves one snapshot too many.
\<close>

lemma run_tx_same:
  assumes "lawful (ce_Validate E tx p pid signers)" and "lawful (ce_Execute E tx p pid index)" and "same_ctx a b"
    and "ctx_stack a = t # ps" and run_def: "run = run_tx E g p pid slot h tx signers index"
  shows "fst (run a) = fst (run b)" and "same_ctx (snd (run a)) (snd (run b))"
    and "fst (run a) = Inr () \<Longrightarrow> length (ctx_stack (snd (run a))) = length (ctx_stack a)"
    and "fst (run a) \<noteq> Inr () \<Longrightarrow> same_ctx a (snd (run a)) \<or> length (ctx_stack (snd (run a))) = length (ctx_stack a) + 1"
proof -
  let ?use = "ctx_UseTimeSlot slot (bytes_str h)"
  let ?body = "thenE (ce_Validate E tx p pid signers) (thenE (ce_Execute E tx p pid index) (keepsGenerator g))"
  have body: "lawful ?body" by (intro lawful_intros assms)
  let ?sa = "snd (ctx_Snapshot a)" and ?sb = "snd (ctx_Snapshot b)"
  note sn = same_ctx_Snapshot[OF assms(3)]
  have top: "cd_isTop t" using assms(3,4) by (simp add: same_ctx_def ctx_wf_def)
  let ?base = "t\<lparr>cd_isTop := False\<rparr> # ps" and ?n = "length ps + 2"
  have S: "ctx_Snapshot a = (?n, ?sa)" "ctx_Snapshot b = (?n, ?sb)"
    using sn(1,2) assms(4) by (simp_all add: prod_eq_iff)
  have on: "on_top ?base ?sa" using sn(4) assms(4) by (auto simp: on_top_def intro: exI[of _ "[_]"])
  obtain r a' r' b' where u: "?use ?sa = (r, a')" "?use ?sb = (r', b')" by (meson surj_pair)
  have U: "r' = r" "same_ctx a' b'" "ctx_kept ?base ?sa a'" using lawfulD[OF lawful_UseTimeSlot[of slot "bytes_str h"] sn(3) on] u by auto
  have ulen: "length (ctx_stack a') = length (ctx_stack ?sa)"
    using u(1) by (auto simp: ctx_UseTimeSlot_def ctx_setTop_def Let_def sn(4) split: if_splits prod.splits)
  have run: "run c = (case ?use (snd (ctx_Snapshot c)) of (Inl e, c) \<Rightarrow> (Inl e, c)
     | (Inr _, c) \<Rightarrow> (case ?body c of
         (Inl e, c) \<Rightarrow> (case ctx_Revert ?n c of (Inl e', c) \<Rightarrow> (Inl e', c) | (Inr _, c) \<Rightarrow> (Inl e, c))
       | (Inr _, c) \<Rightarrow> ctx_Commit ?n c))" if "ctx_Snapshot c = (?n, snd (ctx_Snapshot c))" for c
    unfolding run_def run_tx_def by (subst that) (simp only: prod.case)
  note ra = run[OF S(1)] and rb = run[OF S(2)]
  obtain q a2 q' b2 where B: "?body a' = (q, a2)" "?body b' = (q', b2)" by (meson surj_pair)
  have L: "q' = q" "same_ctx a2 b2" "ctx_kept ?base a' a2" using lawfulD[OF body U(2) on_top_kept[OF U(3)]] B by auto
  obtain xs where xs: "ctx_stack a2 = xs @ ?base" "xs \<noteq> []" using L(3) by (auto simp: ctx_kept_def)
  have kept: "ctx_kept ?base a a2"
    using ctx_kept_trans[OF U(3) L(3)] by (simp add: ctx_kept_def ctx_Snapshot_def ctx_setTop_def ctx_dirty_def Let_def)
  note R = same_ctx_Revert[OF L(2) xs top] and C = same_ctx_Commit[OF L(2) xs]
  obtain t' where t': "ctx_Commit ?n a2 = (Inr (), a2\<lparr>ctx_isLatestHash := False, ctx_stack := t' # ps\<rparr>)" using C(1) by blast
  obtain b3 where b3: "ctx_Revert ?n b2 = (Inr (), b3)" using R(2) by (metis prod.collapse)
  have restored: "same_ctx a (a2\<lparr>ctx_isLatestHash := False, ctx_stack := t # ps\<rparr>)"
  proof -
    have "same_ctx (a2\<lparr>ctx_isLatestHash := False, ctx_stack := t # ps\<rparr>) b3" using R(1,3) b3 by simp
    then show ?thesis
      using assms(3,4) kept by (cases a; cases a2) (simp add: same_ctx_def ctx_wf_def ctx_kept_def)
  qed
  have "fst (run a) = fst (run b) \<and> same_ctx (snd (run a)) (snd (run b)) \<and>
    (if fst (run a) = Inr () then length (ctx_stack (snd (run a))) = length (ctx_stack a)
     else same_ctx a (snd (run a)) \<or> length (ctx_stack (snd (run a))) = length (ctx_stack a) + 1)"
  proof (cases r)
    case (Inl e)
    then have "run a = (Inl e, a')" "run b = (Inl e, b')" using ra rb u U(1) by simp_all
    then show ?thesis using U(2) ulen sn(4) assms(4) by simp
  next
    case r: (Inr _)
    show ?thesis
    proof (cases q)
      case (Inl e)
      then have "run a = (Inl e, a2\<lparr>ctx_isLatestHash := False, ctx_stack := t # ps\<rparr>)" "run b = (Inl e, b3)"
        using ra rb u U(1) r B L(1) R(1) b3 by simp_all
      then show ?thesis using R(1,3) b3 restored by simp
    next
      case (Inr _)
      then have "run a = ctx_Commit ?n a2" "run b = ctx_Commit ?n b2"
        using ra rb u U(1) r B L(1) by simp_all
      then show ?thesis using C(2,3) t' assms(4) by simp
    qed
  qed
  then show "fst (run a) = fst (run b)" "same_ctx (snd (run a)) (snd (run b))"
    "fst (run a) = Inr () \<Longrightarrow> length (ctx_stack (snd (run a))) = length (ctx_stack a)"
    "fst (run a) \<noteq> Inr () \<Longrightarrow> same_ctx a (snd (run a)) \<or> length (ctx_stack (snd (run a))) = length (ctx_stack a) + 1"
    by (simp_all split: if_splits)
qed

section \<open>An example chain\<close>

text \<open>
  An application whose hook creates the account of the generator, and transactions that write a process datum; the
  transaction 0 is not valid.
\<close>

definition sample_app :: "u64 process" where
  "sample_app =
     \<lparr>pr_ID = 255, pr_Name = ''app'', pr_Init = Inr (), pr_OnLoadChain = (\<lambda>_. returnE ()),
      pr_BeforeExecuteTransactions = (\<lambda>_. writeE (ctx_putAccount (NewAddress 0 1 0)
        (SingleAccount \<lparr>sa_Address = NewAddress 0 1 0, sa_Name = ''gen'', sa_KeyHash = zeros 32\<rparr>))),
      pr_AfterExecuteTransactions = (\<lambda>_ _. returnE ()), pr_OnSaveData = (\<lambda>_ _. returnE ())\<rparr>"

definition sample_chain :: "((bytes, bytes) omap, u64, unit) chain" where
  "sample_chain = projr (NewChain () sample_app sample_store)"

definition sample_chain_env :: "((bytes, bytes) omap, u64, unit) chain_env" where
  "sample_chain_env =
     \<lparr>ce_store = sample_env,
      ce_hashers = \<lparr>eh_AccountMap = (\<lambda>_. zeros 32), eh_AccountNameMap = (\<lambda>_. zeros 32), eh_BytesMap = (\<lambda>_. zeros 32),
                    eh_UTXOMap = (\<lambda>_. zeros 32), eh_TxOutMap = (\<lambda>_. zeros 32), eh_Event = (\<lambda>_. zeros 32)\<rparr>,
      ce_recover = (\<lambda>_ _. Inr (zeros 33)), ce_NumCPU = 2, ce_firstErr = hd, ce_typeTx = (\<lambda>_. Inr 0xFF01),
      ce_Validate = (\<lambda>tx _ _ _. failIf (tx = 0) (TypesErr ErrInvalidAccountName)),
      ce_Execute = (\<lambda>tx _ pid _. writeE (ctx_SetProcessData pid [1] (LE_Uint64ToBytes tx))),
      ce_InitGenesis = (\<lambda>_. returnE ()), ce_csInit = Inr (), ce_csInitGenesis = returnE (),
      ce_csOnLoadChain = (\<lambda>_. returnE ()), ce_csValidateSignature = (\<lambda>_ _ _. Inr ()), ce_csOnSaveData = (\<lambda>_. returnE ())\<rparr>"

lemma sample_chain_fields:
  "cn_app sample_chain = sample_app" "cn_processes sample_chain = []" "st_chainID (cn_store sample_chain) = 1"
  "cn_Process 255 sample_chain = Inr sample_app"
  by (simp_all add: sample_chain_def NewChain_def sample_app_def sample_store_def cn_Process_def)

text \<open>A block with more transactions than one goroutine takes.\<close>

definition wide_block :: "u64 block" where
  "wide_block =
     \<lparr>b_Header = sample_header, b_TransactionTypes = replicate 1021 0xFF01, b_Transactions = replicate 1021 5,
      b_TransactionSignatures = replicate 1021 [], b_Signatures = []\<rparr>"

theorem parallel_verification_witness:
  "verify_all sample_chain_env 1 None wide_block = Inr (replicate 1021 (zeros 32, []))"
proof -
  have "mapR (verify_tx sample_chain_env 1 None wide_block) (enumerate 0 (replicate 1021 5)) =
      Inr (map (\<lambda>_. (zeros 32, [])) (enumerate 0 (replicate 1021 (5 :: u64))))"
  proof (rule mapR_Inr)
    fix x assume "x \<in> set (enumerate 0 (replicate 1021 (5 :: u64)))"
    then have "fst x < 1021" by (auto simp: in_set_enumerate_eq)
    then show "verify_tx sample_chain_env 1 None wide_block x = Inr (zeros 32, [])"
      by (cases x) (simp add: verify_tx_def wide_block_def Let_def sample_chain_env_def sample_env_def cached_signers_def recover_signers_def)
  qed
  moreover have "map (\<lambda>_. c) (enumerate n xs) = replicate (length xs) c" for c :: "hash256 \<times> pubhash list" and n and xs :: "u64 list"
    by (rule nth_equalityI) simp_all
  ultimately have "verify_in_order sample_chain_env 1 wide_block = Inr (replicate 1021 (zeros 32, []))"
    by (simp add: verify_in_order_def) (simp add: wide_block_def)
  moreover have "0 < ce_NumCPU sample_chain_env" "provider_ok (ce_recover sample_chain_env) None" "ce_NumCPU sample_chain_env \<le> 32"
    by (simp_all add: sample_chain_env_def provider_ok_def)
  ultimately show ?thesis using parallel_verification[of sample_chain_env None wide_block 1] by (auto split: if_splits)
qed

end
