(* ===== verification/Creator_Laws.thy ===== *)
theory Creator_Laws
  imports Chain_Laws
begin

text \<open>
  A block that the block creator makes is accepted by every other node: executing it from the same state runs
  through, and ends in a context with the same snapshots and with the hash that the header states, although the
  creator has also run transactions that failed and were left out.
\<close>

section \<open>What the creator and the executor share\<close>

text \<open>The processes and the transactions of a chain; \<open>ok\<close> says which transactions are well typed.\<close>

definition lawful_chain :: "('tx \<Rightarrow> bool) \<Rightarrow> ('db, 'tx, 'cs) chain_env \<Rightarrow> ('db, 'tx, 'cs) chain \<Rightarrow> bool" where
  "lawful_chain ok E cn \<longleftrightarrow>
     (\<forall>tx p pid signers i. ok tx \<longrightarrow> lawful (ce_Validate E tx p pid signers) \<and> lawful (ce_Execute E tx p pid i)) \<and>
     (\<forall>p\<in>set (cn_app cn # cn_processes cn). \<forall>b pid.
        lawful (pr_BeforeExecuteTransactions p pid) \<and> lawful (pr_AfterExecuteTransactions p b pid))"

text \<open>A block after the creator: the header gets the context hash and the observers add their signatures.\<close>

definition sealed :: "hash256 \<Rightarrow> signature list \<Rightarrow> 'tx block \<Rightarrow> 'tx block" where
  "sealed h sigs b = b\<lparr>b_Header := (b_Header b)\<lparr>bh_ContextHash := h\<rparr>, b_Signatures := sigs\<rparr>"

definition ignores_seal :: "('db, 'tx, 'cs) chain \<Rightarrow> bool" where
  "ignores_seal cn \<longleftrightarrow>
     (\<forall>p\<in>set (cn_app cn # cn_processes cn). \<forall>h sigs b.
        pr_AfterExecuteTransactions p (sealed h sigs b) = pr_AfterExecuteTransactions p b)"

lemma lawful_checkDirty [lawful_intros]: "lawful checkDirty"
  by (auto simp: lawful_def checkDirty_def ctx_StackSize_def same_ctx_fields ctx_kept_refl)

lemma enumerate_snd: "x \<in> set (enumerate n xs) \<Longrightarrow> snd x \<in> set xs"
  by (metis enumerate_eq_zip prod.collapse set_zip_rightD)

lemma lawful_each_process:
  assumes "\<And>p pid. p \<in> set (cn_app cn # cn_processes cn) \<Longrightarrow> lawful (hook p pid)"
  shows "lawful (each_process hook cn)"
  unfolding each_process_def
proof (intro lawful_intros)
  fix x assume "x \<in> set (enumerate 0 (cn_processes cn))"
  then have "snd x \<in> set (cn_processes cn)" by (rule enumerate_snd)
  then have "lawful (thenE (hook (snd x) (cn_IDMap cn (fst x))) checkDirty)" using assms by (intro lawful_intros) simp
  then show "lawful ((\<lambda>(i, p). thenE (hook p (cn_IDMap cn i)) checkDirty) x)" by (simp add: case_prod_unfold)
qed (use assms in simp)

lemma foreachE_cong: "(\<And>x. x \<in> set xs \<Longrightarrow> f x = g x) \<Longrightarrow> foreachE f xs = foreachE g xs"
  by (induction xs) simp_all

lemma each_process_cong:
  assumes "\<And>p pid. p \<in> set (cn_app cn # cn_processes cn) \<Longrightarrow> hook p pid = hook' p pid"
  shows "each_process hook cn = each_process hook' cn"
proof -
  have "foreachE (\<lambda>(i, p). thenE (hook p (cn_IDMap cn i)) checkDirty) (enumerate 0 (cn_processes cn)) =
    foreachE (\<lambda>(i, p). thenE (hook' p (cn_IDMap cn i)) checkDirty) (enumerate 0 (cn_processes cn))"
    by (rule foreachE_cong) (use assms in \<open>auto simp: case_prod_unfold dest!: enumerate_snd\<close>)
  then show ?thesis using assms by (simp add: each_process_def)
qed

lemma each_process_clean:
  assumes "each_process hook cn a = (Inr (), a')"
  shows "\<not> 1 < ctx_StackSize a'"
  using assms by (auto simp: each_process_def bindE_success checkDirty_def split: if_splits)

text \<open>One round of the executor, with the type of the transaction as an argument.\<close>

definition replay_tx ::
  "('db, 'tx, 'cs) chain_env \<Rightarrow> ('db, 'tx, 'cs) chain \<Rightarrow> address \<Rightarrow> u32 \<Rightarrow> nat \<times> u16 \<times> 'tx \<times> pubhash list \<times> hash256 \<Rightarrow> (chain_ctx, unit) go_meth" where
  "replay_tx E cn g current = (\<lambda>(i, t, tx, signers, h).
     let slot = ToTimeSlot (se_timestamp (ce_store E) tx); pid = ucast (drop_bit 8 t)
     in thenE (failIf (\<not> slot_allowed current slot) (TypesErr ErrInvalidTransactionTimeSlot))
        (bindE (liftE (cn_Process pid cn)) (\<lambda>p. run_tx E g p pid slot h tx signers (of_nat i))))"

lemma execute_tx_replay:
  "i < length (b_TransactionTypes b) \<Longrightarrow>
   execute_tx E b cn (i, tx, signers, h) =
   replay_tx E cn (bh_Generator (b_Header b)) (ToTimeSlot (bh_Timestamp (b_Header b))) (i, b_TransactionTypes b ! i, tx, signers, h)"
  by (simp add: execute_tx_def replay_tx_def Let_def)

section \<open>The creator\<close>

text \<open>An accepted transaction with its type, signatures, signers and hash.\<close>

type_synonym 'tx accepted = "u16 \<times> 'tx \<times> signature list \<times> pubhash list \<times> hash256"

definition to_replay :: "nat \<times> 'tx accepted \<Rightarrow> nat \<times> u16 \<times> 'tx \<times> pubhash list \<times> hash256" where
  "to_replay = (\<lambda>(i, t, tx, sigs, signers, h). (i, t, tx, signers, h))"

definition accepted_ok :: "('db, 'tx, 'cs) chain_env \<Rightarrow> u8 \<Rightarrow> 'tx accepted \<Rightarrow> bool" where
  "accepted_ok E chainID = (\<lambda>(t, tx, sigs, signers, h).
     h = se_hashTx (ce_store E) chainID t tx \<and> recover_signers (ce_recover E) h sigs = Inr signers)"

text \<open>
  The creator after some calls of \<^verbatim>\<open>AddTx\<close>. The lists of the block are those of the accepted transactions, and
  unless a snapshot was left open the context is the one a replay of them reaches.
\<close>

definition created ::
  "('db, 'tx, 'cs) chain_env \<Rightarrow> ('db, 'tx, 'cs) chain \<Rightarrow> address \<Rightarrow> 'tx block_creator \<Rightarrow> chain_ctx \<Rightarrow> 'tx accepted list \<Rightarrow> 'tx block_creator \<Rightarrow> bool" where
  "created E cn g bc0 c acc bc \<longleftrightarrow>
     bc_b bc = (bc_b bc0)\<lparr>b_TransactionTypes := map fst acc, b_Transactions := map (fst \<circ> snd) acc,
                          b_TransactionSignatures := map (fst \<circ> snd \<circ> snd) acc\<rparr> \<and>
     bc_txHashes bc = bc_txHashes bc0 @ map (snd \<circ> snd \<circ> snd \<circ> snd) acc \<and>
     list_all (accepted_ok E (st_chainID (cn_store cn))) acc \<and>
     same_ctx (bc_ctx bc) (bc_ctx bc) \<and>
     (1 < ctx_StackSize (bc_ctx bc) \<or>
      (\<exists>c'. foreachE (replay_tx E cn g (ToTimeSlot (bh_Timestamp (b_Header (bc_b bc0))))) (map to_replay (enumerate 0 acc)) c = (Inr (), c') \<and>
        same_ctx (bc_ctx bc) c'))"

lemma bindE_assoc: "bindE (bindE m k) k' = bindE m (\<lambda>x. bindE (k x) k')"
  by (auto simp: bindE_def fun_eq_iff split: prod.split sum.split)

lemma foreachE_snoc: "foreachE f (xs @ [x]) = thenE (foreachE f xs) (f x)"
proof (induction xs)
  case Nil
  then show ?case by (auto simp: bindE_def returnE_def fun_eq_iff split: prod.split sum.split)
next
  case (Cons y ys)
  then show ?case by (simp add: bindE_assoc)
qed

lemma created_UnsafeAddTx:
  assumes "lawful_chain ok E cn" and "ok tx" and "created E cn g bc0 c acc bc"
    and "accepted_ok E (st_chainID (cn_store cn)) (t, tx, sigs, signers, h)"
  shows "created E cn g bc0 c acc (snd (UnsafeAddTx E cn g t h tx sigs signers bc)) \<or>
    created E cn g bc0 c (acc @ [(t, tx, sigs, signers, h)]) (snd (UnsafeAddTx E cn g t h tx sigs signers bc))"
proof -
  let ?ctx = "bc_ctx bc" and ?n = "length acc" and ?current = "ToTimeSlot (bh_Timestamp (b_Header (bc_b bc0)))"
  let ?pid = "ucast (drop_bit 8 t) :: u8" and ?slot = "ToTimeSlot (se_timestamp (ce_store E) tx)"
  let ?replay = "foreachE (replay_tx E cn g ?current)"
  have b: "b_Header (bc_b bc) = b_Header (bc_b bc0)" "length (b_Transactions (bc_b bc)) = ?n" and self: "same_ctx ?ctx ?ctx"
    using assms(3) by (simp_all add: created_def)
  obtain tp ps where st: "ctx_stack ?ctx = tp # ps" using self by (auto simp: same_ctx_def ctx_wf_def elim: stack_okE)
  consider (refused) "snd (UnsafeAddTx E cn g t h tx sigs signers bc) = bc"
    | (run) p where "cn_Process ?pid cn = Inr p" "slot_allowed ?current ?slot"
    by (cases "cn_Process ?pid cn"; cases "slot_allowed ?current ?slot") (auto simp: UnsafeAddTx_def Let_def b)
  then show ?thesis
  proof cases
    case refused
    then show ?thesis using assms(3) by simp
  next
    case run
    let ?run = "run_tx E g p ?pid ?slot h tx signers (of_nat ?n)"
    obtain r a where r: "?run ?ctx = (r, a)" by (meson surj_pair)
    have law: "lawful (ce_Validate E tx p ?pid signers)" "lawful (ce_Execute E tx p ?pid (of_nat ?n))"
      using assms(1,2) unfolding lawful_chain_def by blast+
    note same = run_tx_same[OF law _ st refl, of _ g ?slot h]
    show ?thesis
    proof (cases r)
      case (Inl e)
      then have new: "snd (UnsafeAddTx E cn g t h tx sigs signers bc) = bc\<lparr>bc_ctx := a\<rparr>"
        using run r b by (simp add: UnsafeAddTx_def Let_def on_bc_def bindE_def)
      have "1 < ctx_StackSize a \<or> (\<exists>c'. ?replay (map to_replay (enumerate 0 acc)) c = (Inr (), c') \<and> same_ctx a c')"
      proof (cases "same_ctx ?ctx a")
        case a: True
        then have "ctx_StackSize a = ctx_StackSize ?ctx" by (simp add: ctx_StackSize_def same_ctx_fields)
        then show ?thesis using assms(3) same_ctx_trans[OF same_ctx_sym[OF a]] by (auto simp: created_def)
      next
        case False
        then show ?thesis using same(4)[OF self] r Inl st by (simp add: ctx_StackSize_def)
      qed
      then have "created E cn g bc0 c acc (bc\<lparr>bc_ctx := a\<rparr>)"
        using assms(3) same(2)[OF self] r by (simp add: created_def)
      then show ?thesis using new by simp
    next
      case (Inr u)
      let ?x = "(t, tx, sigs, signers, h)"
      let ?b = "(bc_b bc)\<lparr>b_TransactionTypes := b_TransactionTypes (bc_b bc) @ [t], b_Transactions := b_Transactions (bc_b bc) @ [tx],
                 b_TransactionSignatures := b_TransactionSignatures (bc_b bc) @ [sigs]\<rparr>"
      have new: "snd (UnsafeAddTx E cn g t h tx sigs signers bc) =
          bc\<lparr>bc_ctx := a, bc_b := ?b, bc_txHashes := bc_txHashes bc @ [h]\<rparr>"
        using run r b Inr by (simp add: UnsafeAddTx_def Let_def on_bc_def bindE_def writeE_def)
      have "1 < ctx_StackSize a \<or>
        (\<exists>c'. ?replay (map to_replay (enumerate 0 (acc @ [?x]))) c = (Inr (), c') \<and> same_ctx a c')"
      proof (cases "1 < ctx_StackSize ?ctx")
        case True
        then show ?thesis using same(3)[OF self] r Inr by (simp add: ctx_StackSize_def)
      next
        case False
        then obtain c' where c': "?replay (map to_replay (enumerate 0 acc)) c = (Inr (), c')" "same_ctx ?ctx c'"
          using assms(3) by (auto simp: created_def)
        have "?run c' = (Inr (), snd (?run c'))" "same_ctx a (snd (?run c'))"
          using same(1,2)[OF c'(2)] r Inr by (simp_all add: prod_eq_iff)
        moreover have "replay_tx E cn g ?current (to_replay (?n, ?x)) = ?run"
          using run by (simp add: replay_tx_def to_replay_def Let_def fun_eq_iff failIf_run bindE_def liftE_def)
        ultimately show ?thesis
          using c'(1) by (auto simp: enumerate_append_eq foreachE_snoc bindE_def)
      qed
      then have "created E cn g bc0 c (acc @ [?x]) (bc\<lparr>bc_ctx := a, bc_b := ?b, bc_txHashes := bc_txHashes bc @ [h]\<rparr>)"
        using assms(3,4) same(2)[OF self] r by (simp add: created_def)
      then show ?thesis using new by simp
    qed
  qed
qed

lemma created_AddTx:
  assumes "lawful_chain ok E cn" and "ok (fst x)" and "created E cn g bc0 c acc bc"
  shows "\<exists>acc'. created E cn g bc0 c acc' (snd (AddTx E cn g x bc))"
proof -
  obtain tx sigs where x: "x = (tx, sigs)" by force
  show ?thesis
  proof (cases "ce_typeTx E tx")
    case (Inl e)
    then show ?thesis using assms(3) by (auto simp: AddTx_def x bindE_def liftE_def)
  next
    case (Inr t)
    let ?h = "se_hashTx (ce_store E) (st_chainID (cn_store cn)) t tx"
    show ?thesis
    proof (cases "recover_signers (ce_recover E) ?h sigs")
      case (Inl e)
      then show ?thesis using assms(3) Inr by (auto simp: AddTx_def x bindE_def liftE_def Let_def)
    next
      case r: (Inr signers)
      have "AddTx E cn g x bc = UnsafeAddTx E cn g t ?h tx sigs signers bc"
        using Inr r by (simp add: AddTx_def x bindE_def liftE_def Let_def)
      then show ?thesis
        using created_UnsafeAddTx[OF assms(1) _ assms(3), of tx t sigs signers ?h] assms(2) r
        by (auto simp: x accepted_ok_def)
    qed
  qed
qed

text \<open>The loop of a node that offers transactions to the creator and goes on after a refusal.\<close>

definition offer_all :: "('db, 'tx, 'cs) chain_env \<Rightarrow> ('db, 'tx, 'cs) chain \<Rightarrow> address \<Rightarrow> ('tx \<times> signature list) list \<Rightarrow> 'tx block_creator \<Rightarrow> 'tx block_creator" where
  "offer_all E cn g txs bc = fold (\<lambda>x bc. snd (AddTx E cn g x bc)) txs bc"

lemma created_offer_all:
  assumes "lawful_chain ok E cn" and "\<forall>x\<in>set txs. ok (fst x)" and "created E cn g bc0 c acc bc"
  shows "\<exists>acc'. created E cn g bc0 c acc' (offer_all E cn g txs bc)"
  using assms(2,3)
proof (induction txs arbitrary: acc bc)
  case Nil
  then show ?case by (auto simp: offer_all_def)
next
  case (Cons x txs)
  then obtain acc' where "created E cn g bc0 c acc' (snd (AddTx E cn g x bc))"
    using created_AddTx[OF assms(1) _ Cons.prems(2), of x] by auto
  then show ?case using Cons by (simp add: offer_all_def)
qed

section \<open>The other node\<close>

lemma ctx_Hash_same: "same_ctx a b \<Longrightarrow> fst (ctx_Hash H b) = fst (ctx_Hash H a)"
  by (cases a; cases b) (auto simp: same_ctx_def ctx_Hash_def ctd_Hash_def ctx_Top_def Let_def)

lemma verify_created:
  assumes "list_all (accepted_ok E chainID) acc" and "b_Transactions b = map (fst \<circ> snd) acc"
    and "b_TransactionTypes b = map fst acc" and "b_TransactionSignatures b = map (fst \<circ> snd \<circ> snd) acc"
  shows "verify_in_order E chainID b = Inr (map (\<lambda>(t, tx, sigs, signers, h). (h, signers)) acc)"
proof -
  let ?g = "\<lambda>x. (\<lambda>(t, tx, sigs, signers, h). (h, signers)) (acc ! fst x)"
  have "mapR (verify_tx E chainID None b) (enumerate 0 (b_Transactions b)) = Inr (map ?g (enumerate 0 (b_Transactions b)))"
  proof (rule mapR_Inr)
    fix x assume x: "x \<in> set (enumerate 0 (b_Transactions b))"
    then have i: "fst x < length acc" "snd x = fst (snd (acc ! fst x))" by (auto simp: in_set_enumerate_eq assms(2))
    then have "accepted_ok E chainID (acc ! fst x)" using assms(1) by (simp add: list_all_length)
    then show "verify_tx E chainID None b x = Inr (?g x)"
      using i assms(3,4)
      by (cases x; cases "acc ! fst x") (auto simp: verify_tx_def accepted_ok_def Let_def cached_signers_def)
  qed
  moreover have "map ?g (enumerate 0 (b_Transactions b)) = map (\<lambda>(t, tx, sigs, signers, h). (h, signers)) acc"
    by (rule nth_equalityI) (simp_all add: assms(2) nth_enumerate_eq)
  ultimately show ?thesis by (simp add: verify_in_order_def)
qed

lemma foreachE_map: "foreachE f (map h xs) = foreachE (\<lambda>x. f (h x)) xs"
  by (induction xs) simp_all

lemma execute_created:
  assumes "b_TransactionTypes b = map fst acc"
  shows "foreachE (execute_tx E b cn) (enumerate 0 (zip (map (fst \<circ> snd) acc)
      (zip (map (fst \<circ> snd \<circ> snd \<circ> snd) acc) (map (snd \<circ> snd \<circ> snd \<circ> snd) acc)))) =
    foreachE (replay_tx E cn (bh_Generator (b_Header b)) (ToTimeSlot (bh_Timestamp (b_Header b)))) (map to_replay (enumerate 0 acc))"
proof -
  let ?h = "\<lambda>(i, t, tx, sigs, signers, h). (i, tx, signers, h)"
  have "enumerate 0 (zip (map (fst \<circ> snd) acc) (zip (map (fst \<circ> snd \<circ> snd \<circ> snd) acc) (map (snd \<circ> snd \<circ> snd \<circ> snd) acc))) =
      map ?h (enumerate 0 acc)"
    by (rule nth_equalityI) (auto simp: nth_enumerate_eq case_prod_unfold)
  moreover have "foreachE (\<lambda>x. execute_tx E b cn (?h x)) (enumerate 0 acc) =
    foreachE (\<lambda>x. replay_tx E cn (bh_Generator (b_Header b)) (ToTimeSlot (bh_Timestamp (b_Header b))) (to_replay x)) (enumerate 0 acc)"
  proof (rule foreachE_cong)
    fix x assume "x \<in> set (enumerate 0 acc)"
    then have i: "fst x < length acc" "snd x = acc ! fst x" by (auto simp: in_set_enumerate_eq)
    obtain i t tx sigs signers h where x: "x = (i, t, tx, sigs, signers, h)" by (cases x)
    from i x have "i < length (b_TransactionTypes b)" "b_TransactionTypes b ! i = t" by (simp_all add: assms) (metis fst_conv)
    then show "execute_tx E b cn (?h x) =
        replay_tx E cn (bh_Generator (b_Header b)) (ToTimeSlot (bh_Timestamp (b_Header b))) (to_replay x)"
      by (simp add: x execute_tx_replay to_replay_def)
  qed
  ultimately show ?thesis by (simp only: foreachE_map)
qed

text \<open>
  The creator starts on a context of the chain, is offered any list of transactions, and leaves out those that fail. If it
  finalizes a block, a node whose context has the same loader and snapshots executes the block, with whatever signatures
  the observers add, without an error, unless the division of the signature check over its processors panics; it ends with
  the snapshots of the creator, and its context hash is the one in the header.
\<close>

lemma created_block_executes:
  assumes "lawful_chain ok E cn" and "ignores_seal cn" and "\<forall>x\<in>set txs. ok (fst x)"
    and "0 < ce_NumCPU E" and "provider_ok (ce_recover E) sp" and "same_ctx ctx c0"
    and init: "bc_Init cn (NewBlockCreator ctx g data ts) = (Inr (), bc)"
    and fin: "bc_Finalize E cn (offer_all E cn g txs bc) = (Inr b, bc')"
    and "length (b_Transactions b) < 1000 \<or> parts_fit (length (b_Transactions b)) (ce_NumCPU E)"
  shows "\<exists>c. executeBlockOnContext E (b\<lparr>b_Signatures := sigs\<rparr>) sp cn c0 = (Inr (), c) \<and>
    ctx_stack c = ctx_stack (bc_ctx bc') \<and> fst (ctx_Hash (ce_hashers E) c) = bh_ContextHash (b_Header b)"
proof -
  let ?b0 = "bc_b (NewBlockCreator ctx g data ts)" and ?before = "each_process pr_BeforeExecuteTransactions cn"
  let ?after = "\<lambda>b. each_process (\<lambda>p. pr_AfterExecuteTransactions p b) cn"
  have law: "lawful ?before" "lawful (?after b)" for b
    using assms(1) unfolding lawful_chain_def by (intro lawful_each_process; blast)+
  obtain t ps where st: "ctx_stack ctx = t # ps" using assms(6) by (auto simp: same_ctx_def ctx_wf_def elim: stack_okE)
  have on: "on_top [] a" if "same_ctx a a'" for a a'
    using that by (auto simp: on_top_def same_ctx_def ctx_wf_def elim: stack_okE)
  obtain a1 where a1: "?before ctx = (Inr (), a1)" and bc: "bc = (NewBlockCreator ctx g data ts)\<lparr>bc_ctx := a1\<rparr>"
    using init by (auto simp: bc_Init_def on_bc_def NewBlockCreator_def split: prod.splits)
  obtain c1 where c1: "?before c0 = (Inr (), c1)" "same_ctx a1 c1"
    using lawfulD[OF law(1) assms(6) on[OF assms(6)]] a1 by (metis fst_conv prod.collapse snd_conv)
  have "created E cn g bc c1 [] bc"
    using c1(2) same_ctx_refl[OF c1(2)]
    by (auto simp: created_def bc NewBlockCreator_def enumerate_simps returnE_def)
  from created_offer_all[OF assms(1,3) this] obtain acc where acc: "created E cn g bc c1 acc (offer_all E cn g txs bc)" by blast
  define bo where "bo = offer_all E cn g txs bc"
  obtain root where root: "BuildLevelRoot (bc_txHashes bo) = Inr root"
    using fin by (cases "BuildLevelRoot (bc_txHashes bo)") (auto simp: bc_Finalize_def bindE_def bo_def)
  let ?b1 = "(bc_b bo)\<lparr>b_Header := (b_Header (bc_b bo))\<lparr>bh_LevelRootHash := root\<rparr>\<rparr>"
  have clean: "\<not> 1 < ctx_StackSize (bc_ctx bo)"
    using fin root by (auto simp: bc_Finalize_def bindE_def writeE_def on_bc_def checkDirty_def bo_def[symmetric])
  then obtain a2 where a2: "?after ?b1 (bc_ctx bo) = (Inr (), a2)"
    using fin root
    by (cases "?after ?b1 (bc_ctx bo)") (auto simp: bc_Finalize_def bindE_def writeE_def on_bc_def checkDirty_def bo_def[symmetric] split: sum.splits)
  let ?h = "fst (ctx_Hash (ce_hashers E) a2)"
  have b: "b = ?b1\<lparr>b_Header := (b_Header ?b1)\<lparr>bh_ContextHash := ?h\<rparr>\<rparr>" "bc_ctx bc' = snd (ctx_Hash (ce_hashers E) a2)"
    using fin root clean a2
    by (auto simp: bc_Finalize_def bindE_def writeE_def on_bc_def checkDirty_def bo_def[symmetric] Let_def case_prod_unfold)
  let ?b = "b\<lparr>b_Signatures := sigs\<rparr>" and ?chainID = "st_chainID (cn_store cn)"
  have seal: "?b = sealed ?h sigs ?b1" by (simp add: b(1) sealed_def)
  have lists: "b_Transactions ?b = map (fst \<circ> snd) acc" "b_TransactionTypes ?b = map fst acc"
    "b_TransactionSignatures ?b = map (fst \<circ> snd \<circ> snd) acc" "bh_Generator (b_Header ?b) = g"
    "bh_Timestamp (b_Header ?b) = bh_Timestamp (b_Header (bc_b bc))" "bh_LevelRootHash (b_Header ?b) = root"
    "bh_PrevHash (b_Header ?b) # map (snd \<circ> snd \<circ> snd \<circ> snd) acc = bc_txHashes bo"
    using acc by (simp_all add: b(1) created_def bo_def[symmetric]) (simp_all add: bc NewBlockCreator_def)
  obtain c2 where c2: "foreachE (replay_tx E cn g (ToTimeSlot (bh_Timestamp (b_Header (bc_b bc))))) (map to_replay (enumerate 0 acc)) c1 = (Inr (), c2)"
    "same_ctx (bc_ctx bo) c2"
    using acc clean by (auto simp: created_def bo_def[symmetric])
  have "?after ?b = ?after ?b1"
    by (rule each_process_cong) (use assms(2) in \<open>simp only: seal ignores_seal_def\<close>)
  then obtain c3 where c3: "?after ?b c2 = (Inr (), c3)" "same_ctx a2 c3"
    using lawfulD[OF law(2) c2(2) on[OF c2(2)], of ?b1] a2 by (metis fst_conv prod.collapse snd_conv)
  have "verify_in_order E ?chainID ?b = Inr (map (\<lambda>(t, tx, sigs, signers, h). (h, signers)) acc)"
    by (rule verify_created) (use acc lists in \<open>simp_all add: created_def\<close>)
  then have "verify_all E ?chainID sp ?b = Inr (map (\<lambda>(t, tx, sigs, signers, h). (h, signers)) acc)"
    using verify_all_correct(1)[OF assms(4,5), of ?b] assms(9) by simp
  moreover have "map fst (map (\<lambda>(t, tx, sigs, signers, h). (h, signers)) acc) = map (snd \<circ> snd \<circ> snd \<circ> snd) acc"
    "map snd (map (\<lambda>(t, tx, sigs, signers, h). (h, signers)) acc) = map (fst \<circ> snd \<circ> snd \<circ> snd) acc"
    by (auto simp: case_prod_unfold)
  ultimately have "validateTransactionSignatures E ?b sp cn =
      Inr (map (fst \<circ> snd \<circ> snd \<circ> snd) acc, map (snd \<circ> snd \<circ> snd \<circ> snd) acc)"
    using root lists(6,7) by (simp only: validateTransactionSignatures_def sum.case if_False not_True_eq_False refl)
  moreover have "checkDirty c2 = (Inr (), c2)"
    using clean same_ctx_fields[OF c2(2)] by (simp add: checkDirty_def ctx_StackSize_def)
  ultimately have "executeBlockOnContext E ?b sp cn c0 = (Inr (), c3)"
    using c1(1) c2(1) c3(1) execute_created[of ?b acc E cn] lists
    by (simp add: executeBlockOnContext_def bindE_def liftE_def)
  moreover have "ctx_stack c3 = ctx_stack (bc_ctx bc')"
    using same_ctx_fields[OF c3(2)] b(2) by (simp add: ctx_Hash_def Let_def)
  moreover have "fst (ctx_Hash (ce_hashers E) c3) = bh_ContextHash (b_Header b)"
    using ctx_Hash_same[OF c3(2)] b(1) by simp
  ultimately show ?thesis by blast
qed

lemma created_block_panics:
  assumes "0 < ce_NumCPU E" and "provider_ok (ce_recover E) sp"
    and "\<not> (length (b_Transactions b) < 1000 \<or> parts_fit (length (b_Transactions b)) (ce_NumCPU E))"
  shows "executeBlockOnContext E b sp cn c = (Inl Panic, c)"
  using verify_all_correct(2)[OF assms(1,2), of b] assms(3)
  by (simp add: executeBlockOnContext_def validateTransactionSignatures_def bindE_def liftE_def)

text \<open>The number of processors of a node takes no part in creating a block.\<close>

lemma AddTx_NumCPU: "AddTx (E\<lparr>ce_NumCPU := n\<rparr>) cn g x bc = AddTx E cn g x bc"
proof -
  have "run_tx (E\<lparr>ce_NumCPU := n\<rparr>) = run_tx E" by (intro ext) (simp add: run_tx_def cong: prod.case_cong sum.case_cong)
  then have "UnsafeAddTx (E\<lparr>ce_NumCPU := n\<rparr>) = UnsafeAddTx E" by (intro ext) (simp add: UnsafeAddTx_def Let_def split: sum.split)
  then show ?thesis by (cases x) (simp add: AddTx_def recover_signers_def)
qed

lemma creator_NumCPU:
  "offer_all (E\<lparr>ce_NumCPU := n\<rparr>) cn g txs bc = offer_all E cn g txs bc"
  "bc_Finalize (E\<lparr>ce_NumCPU := n\<rparr>) cn = bc_Finalize E cn"
  by (simp_all add: offer_all_def AddTx_NumCPU bc_Finalize_def)

lemma sample_chain_lawful: "lawful_chain (\<lambda>_. True) sample_chain_env sample_chain" "ignores_seal sample_chain"
  by (simp_all add: lawful_chain_def ignores_seal_def sample_chain_fields sample_app_def sample_chain_env_def lawful_intros)

end
