(* ===== verification/Connect_Laws.thy ===== *)
theory Connect_Laws
  imports Creator_Laws
begin

text \<open>
  The chain as a whole: what is true of the blocks a chain has connected one after the other. They are linked by
  height, hash and timestamp, and no transaction of one block is executed again by a later one, because the time
  slots that the context marks go to the store with the block.
\<close>

section \<open>Time slots of a context\<close>

text \<open>
  Processes and transactions get a context wrapper, which has no operation that marks or clears a time slot
  of its own.
\<close>

definition keeps_slots :: "(chain_ctx, 'a) go_meth \<Rightarrow> bool" where
  "keeps_slots m \<longleftrightarrow>
     (\<forall>a x a'. ctx_stack a \<noteq> [] \<and> m a = (Inr x, a') \<longrightarrow>
        ctx_loader a' = ctx_loader a \<and> map cd_TimeSlotMap (ctx_stack a') = map cd_TimeSlotMap (ctx_stack a))"

lemma keeps_slotsD:
  assumes "keeps_slots m" and "m a = (Inr x, a')" and "ctx_stack a \<noteq> []"
  shows "ctx_loader a' = ctx_loader a" and "map cd_TimeSlotMap (ctx_stack a') = map cd_TimeSlotMap (ctx_stack a)"
  using assms unfolding keeps_slots_def by blast+

lemma keeps_slots_bindE:
  assumes "keeps_slots m" and "\<And>x. keeps_slots (k x)"
  shows "keeps_slots (bindE m k)"
  unfolding keeps_slots_def
proof (intro allI impI)
  fix a y a'' assume a: "ctx_stack a \<noteq> [] \<and> bindE m k a = (Inr y, a'')"
  then obtain x a' where "m a = (Inr x, a')" "k x a' = (Inr y, a'')" by blast
  then show "ctx_loader a'' = ctx_loader a \<and> map cd_TimeSlotMap (ctx_stack a'') = map cd_TimeSlotMap (ctx_stack a)"
    using keeps_slotsD[OF assms(1)] keeps_slotsD[OF assms(2)[of x]] a by (metis list.map_disc_iff)
qed

lemma keeps_slots_foreachE: "(\<And>x. x \<in> set xs \<Longrightarrow> keeps_slots (f x)) \<Longrightarrow> keeps_slots (foreachE f xs)"
proof (induction xs)
  case Nil
  then show ?case by (simp add: keeps_slots_def returnE_def)
next
  case (Cons x xs)
  then show ?case by (simp add: keeps_slots_bindE)
qed

lemma keeps_slots_checks: "keeps_slots checkDirty" "keeps_slots (keepsGenerator g)"
  by (auto simp: keeps_slots_def checkDirty_def keepsGenerator_def ctx_HasAccount_def split: if_splits sum.splits)

lemma keeps_slots_each_process:
  assumes "\<And>p pid. p \<in> set (cn_app cn # cn_processes cn) \<Longrightarrow> keeps_slots (hook p pid)"
  shows "keeps_slots (each_process hook cn)"
  unfolding each_process_def
proof (intro keeps_slots_bindE keeps_slots_foreachE keeps_slots_checks)
  fix x assume "x \<in> set (enumerate 0 (cn_processes cn))"
  then have "snd x \<in> set (cn_processes cn)" by (rule enumerate_snd)
  then have "keeps_slots (thenE (hook (snd x) (cn_IDMap cn (fst x))) checkDirty)"
    using assms by (intro keeps_slots_bindE keeps_slots_checks) simp
  then show "keeps_slots ((\<lambda>(i, p). thenE (hook p (cn_IDMap cn i)) checkDirty) x)" by (simp add: case_prod_unfold)
qed (use assms in simp)

definition slots_chain :: "('db, 'tx, 'cs) chain_env \<Rightarrow> ('db, 'tx, 'cs) chain \<Rightarrow> bool" where
  "slots_chain E cn \<longleftrightarrow>
     (\<forall>tx p pid signers i. keeps_slots (ce_Validate E tx p pid signers) \<and> keeps_slots (ce_Execute E tx p pid i)) \<and>
     (\<forall>p\<in>set (cn_app cn # cn_processes cn). \<forall>b pid.
        keeps_slots (pr_BeforeExecuteTransactions p pid) \<and> keeps_slots (pr_AfterExecuteTransactions p b pid) \<and>
        keeps_slots (pr_OnSaveData p b pid)) \<and>
     (\<forall>b cs. keeps_slots (\<lambda>ctx. case ce_csOnSaveData E b (cs, ctx) of (r, cs, ctx) \<Rightarrow> (r, ctx)))"

section \<open>Executing a block\<close>

lemma slot_marked_commit:
  "slot_marked s k (commit_slots (mark_slot slot key []) m) \<longleftrightarrow> slot_marked s k m \<or> s = slot \<and> k = key"
proof -
  have "om_has [(key, True)] k \<longleftrightarrow> k = key" by (auto simp: om_has_map_of)
  then show ?thesis
    by (auto simp: slot_marked_def commit_slots_def mark_slot_def om_each_def om_putAll_def split: option.split)
qed

lemma om_inv_commit_slots: "om_inv d \<Longrightarrow> om_inv (commit_slots src d)"
  unfolding commit_slots_def om_each_def by (induction src arbitrary: d) (auto split: option.split)

lemma run_tx_slots:
  assumes "keeps_slots (ce_Validate E tx p pid signers)" and "keeps_slots (ce_Execute E tx p pid index)"
    and "run_tx E g p pid slot h tx signers index a = (Inr u, a')" and "ctx_stack a = [t]"
  shows "\<exists>t'. ctx_stack a' = [t'] \<and> ctx_loader a' = ctx_loader a \<and> \<not> ld_HasTimeSlot (ctx_loader a) slot (bytes_str h) \<and>
    cd_TimeSlotMap t' = commit_slots (mark_slot slot (bytes_str h) []) (cd_TimeSlotMap t)"
proof -
  let ?body = "thenE (ce_Validate E tx p pid signers) (thenE (ce_Execute E tx p pid index) (keepsGenerator g))"
  let ?s = "snd (ctx_Snapshot a)"
  have S: "ctx_Snapshot a = (2, ?s)" "map cd_TimeSlotMap (ctx_stack ?s) = [[], cd_TimeSlotMap t]" "ctx_loader ?s = ctx_loader a"
    using assms(4) by (simp_all add: ctx_Snapshot_def ctx_setTop_def ctx_dirty_def Let_def NewContextData_def)
  have run: "(case ctx_UseTimeSlot slot (bytes_str h) ?s of
       (Inl e, ctx) \<Rightarrow> (Inl e, ctx)
     | (Inr _, ctx) \<Rightarrow> (case ?body ctx of
         (Inl e, ctx) \<Rightarrow> (case ctx_Revert 2 ctx of (Inl e', ctx) \<Rightarrow> (Inl e', ctx) | (Inr _, ctx) \<Rightarrow> (Inl e, ctx))
       | (Inr _, ctx) \<Rightarrow> ctx_Commit 2 ctx)) = (Inr u, a')"
    using assms(3) unfolding run_tx_def by (subst (asm) S(1)) (simp only: prod.case)
  then obtain a1 where a1: "ctx_UseTimeSlot slot (bytes_str h) ?s = (Inr (), a1)" by (auto split: prod.splits sum.splits)
  then have slots: "map cd_TimeSlotMap (ctx_stack a1) = [mark_slot slot (bytes_str h) [], cd_TimeSlotMap t]"
    and ld: "ctx_loader a1 = ctx_loader a" and unused: "\<not> ld_HasTimeSlot (ctx_loader a) slot (bytes_str h)"
    using S(2,3) by (auto simp: ctx_UseTimeSlot_def cc_HasTimeSlot_def Let_def ctx_setTop_def ctx_Top_def split: if_splits)
  obtain a2 where a2: "?body a1 = (Inr (), a2)" and com: "ctx_Commit 2 a2 = (Inr u, a')"
    using run a1 by (auto split: prod.splits sum.splits)
  have "keeps_slots ?body" by (intro keeps_slots_bindE keeps_slots_checks assms)
  moreover have "ctx_stack a1 \<noteq> []" using slots by auto
  ultimately have k: "ctx_loader a2 = ctx_loader a1" "map cd_TimeSlotMap (ctx_stack a2) = map cd_TimeSlotMap (ctx_stack a1)"
    using keeps_slotsD[of ?body a1 "()" a2] a2 by blast+
  then obtain x y where xy: "ctx_stack a2 = [x, y]" "cd_TimeSlotMap x = mark_slot slot (bytes_str h) []" "cd_TimeSlotMap y = cd_TimeSlotMap t"
    using slots by (auto simp: map_eq_Cons_conv)
  have "commit_loop 2 [x, y] = Some [commit_data x y]" by (simp add: commit_loop.simps)
  then show ?thesis
    using com xy k(1) ld unused by (auto simp: ctx_Commit_def ctx_dirty_def ctx_setTop_def Let_def commit_data_def)
qed

text \<open>A time slot and a transaction hash, as \<^verbatim>\<open>UseTimeSlot\<close> gets them.\<close>

definition tx_key :: "('db, 'tx, 'cs) chain_env \<Rightarrow> u8 \<Rightarrow> 'tx block \<Rightarrow> nat \<Rightarrow> u32 \<times> string" where
  "tx_key E chainID b i =
     (ToTimeSlot (se_timestamp (ce_store E) (b_Transactions b ! i)),
      bytes_str (se_hashTx (ce_store E) chainID (b_TransactionTypes b ! i) (b_Transactions b ! i)))"

definition marked :: "chain_ctx \<Rightarrow> u32 \<times> string \<Rightarrow> bool" where
  "marked a = (\<lambda>(slot, key). slot_marked slot key (cd_TimeSlotMap (ctx_Top a)))"

definition one_level :: "chain_ctx \<Rightarrow> bool" where
  "one_level a \<longleftrightarrow> (\<exists>t. ctx_stack a = [t] \<and> om_inv (cd_TimeSlotMap t))"

lemma keeps_slots_level:
  assumes "keeps_slots m" and "m a = (Inr x, a')" and "one_level a"
  shows "one_level a'" and "marked a' = marked a" and "ctx_loader a' = ctx_loader a"
  using keeps_slotsD[OF assms(1,2)] assms(3) by (auto simp: one_level_def marked_def ctx_Top_def map_eq_Cons_conv fun_eq_iff)

lemma execute_tx_slots:
  assumes "slots_chain E cn" and "execute_tx E b cn (i, tx, signers, h) a = (Inr u, a')" and "one_level a"
    and key: "key = (ToTimeSlot (se_timestamp (ce_store E) tx), bytes_str h)"
  shows "one_level a'" and "ctx_loader a' = ctx_loader a" and "marked a' k \<longleftrightarrow> marked a k \<or> k = key"
    and "slot_allowed (ToTimeSlot (bh_Timestamp (b_Header b))) (fst key)" and "\<not> ld_HasTimeSlot (ctx_loader a) (fst key) (snd key)"
proof -
  obtain t where t: "ctx_stack a = [t]" "om_inv (cd_TimeSlotMap t)" using assms(3) by (auto simp: one_level_def)
  obtain p pid where run: "run_tx E (bh_Generator (b_Header b)) p pid (fst key) h tx signers (of_nat i) a = (Inr u, a')"
    and slot: "slot_allowed (ToTimeSlot (bh_Timestamp (b_Header b))) (fst key)"
    using assms(2) by (auto simp: execute_tx_def key Let_def bindE_success failIf_run liftE_def throwE_def split: if_splits)
  have "keeps_slots (ce_Validate E tx p pid signers)" "keeps_slots (ce_Execute E tx p pid (of_nat i))"
    using assms(1) unfolding slots_chain_def by blast+
  from run_tx_slots[OF this run t(1)] t
  show "one_level a'" "ctx_loader a' = ctx_loader a" "marked a' k \<longleftrightarrow> marked a k \<or> k = key"
    "slot_allowed (ToTimeSlot (bh_Timestamp (b_Header b))) (fst key)" "\<not> ld_HasTimeSlot (ctx_loader a) (fst key) (snd key)"
    using slot by (auto simp: one_level_def om_inv_commit_slots marked_def ctx_Top_def slot_marked_commit key)
qed

lemma execute_txs_slots:
  assumes "slots_chain E cn" and "foreachE (execute_tx E b cn) xs a = (Inr u, a')" and "one_level a"
    and key: "key = (\<lambda>(i, tx, signers, h). (ToTimeSlot (se_timestamp (ce_store E) tx), bytes_str h))"
  shows "one_level a' \<and> ctx_loader a' = ctx_loader a \<and> (\<forall>k. marked a' k \<longleftrightarrow> marked a k \<or> k \<in> key ` set xs) \<and>
    (\<forall>x\<in>set xs. slot_allowed (ToTimeSlot (bh_Timestamp (b_Header b))) (fst (key x)) \<and>
       \<not> ld_HasTimeSlot (ctx_loader a) (fst (key x)) (snd (key x)))"
  using assms(2,3)
proof (induction xs arbitrary: a)
  case Nil
  then show ?case by (simp add: returnE_def)
next
  case (Cons x xs)
  obtain i tx signers h where x: "x = (i, tx, signers, h)" by (cases x)
  obtain a1 where a1: "execute_tx E b cn x a = (Inr (), a1)" "foreachE (execute_tx E b cn) xs a1 = (Inr u, a')"
    using Cons.prems(1) by (auto simp: bindE_success)
  have kx: "key x = (ToTimeSlot (se_timestamp (ce_store E) tx), bytes_str h)" by (simp add: key x)
  note one = execute_tx_slots[OF assms(1) a1(1)[unfolded x] Cons.prems(2) kx]
  show ?case using Cons.IH[OF a1(2) one(1)] one by auto
qed

lemma mapR_nth: "mapR f xs = Inr ys \<Longrightarrow> length ys = length xs \<and> (\<forall>i<length xs. f (xs ! i) = Inr (ys ! i))"
proof (induction xs arbitrary: ys)
  case (Cons x xs)
  then obtain y zs where "f x = Inr y" "mapR f xs = Inr zs" "ys = y # zs" by (auto split: sum.splits)
  then show ?case using Cons.IH[of zs] by (auto simp: nth_Cons split: nat.split)
qed simp

lemma liftE_success: "bindE (liftE r) k s = (Inr y, s') \<longleftrightarrow> (\<exists>x. r = Inr x \<and> k x s = (Inr y, s'))"
  by (auto simp: bindE_success liftE_def)

lemma verified_hashes:
  assumes "0 < ce_NumCPU E" and "provider_ok (ce_recover E) sp"
    and "validateTransactionSignatures E b sp cn = Inr (TxSigners, TxHashes)"
  shows "length TxSigners = length (b_Transactions b)" and "length TxHashes = length (b_Transactions b)"
    and "i < length (b_Transactions b) \<Longrightarrow>
      TxHashes ! i = se_hashTx (ce_store E) (st_chainID (cn_store cn)) (b_TransactionTypes b ! i) (b_Transactions b ! i)"
proof -
  obtain vs where vs: "verify_all E (st_chainID (cn_store cn)) sp b = Inr vs" "TxSigners = map snd vs" "TxHashes = map fst vs"
    using assms(3) by (auto simp: validateTransactionSignatures_def split: sum.splits if_splits)
  have "verify_in_order E (st_chainID (cn_store cn)) b = Inr vs"
    using verify_all_correct[OF assms(1,2), of b "st_chainID (cn_store cn)"] vs(1) by (metis sum.distinct(1))
  from mapR_nth[OF this[unfolded verify_in_order_def]]
  have len: "length vs = length (b_Transactions b)"
    and nth: "\<forall>i<length (b_Transactions b). verify_tx E (st_chainID (cn_store cn)) None b (i, b_Transactions b ! i) = Inr (vs ! i)"
    by (simp_all add: nth_enumerate_eq)
  show "length TxSigners = length (b_Transactions b)" "length TxHashes = length (b_Transactions b)" using vs len by simp_all
  show "TxHashes ! i = se_hashTx (ce_store E) (st_chainID (cn_store cn)) (b_TransactionTypes b ! i) (b_Transactions b ! i)"
    if i: "i < length (b_Transactions b)"
    using nth[rule_format, OF i] i len
    by (auto simp: verify_tx_def vs(3) Let_def cached_signers_def split: if_splits sum.splits) (metis fst_conv)
qed

lemma execute_block_slots:
  assumes "slots_chain E cn" and "0 < ce_NumCPU E" and "provider_ok (ce_recover E) sp"
    and "executeBlockOnContext E b sp cn a = (Inr u, a')" and "one_level a" and cid: "chainID = st_chainID (cn_store cn)"
  shows "one_level a'" and "i < length (b_Transactions b) \<Longrightarrow> marked a' (tx_key E chainID b i)"
    and "i < length (b_Transactions b) \<Longrightarrow> slot_allowed (ToTimeSlot (bh_Timestamp (b_Header b))) (fst (tx_key E chainID b i))"
    and "i < length (b_Transactions b) \<Longrightarrow> \<not> ld_HasTimeSlot (ctx_loader a) (fst (tx_key E chainID b i)) (snd (tx_key E chainID b i))"
proof -
  let ?xs = "\<lambda>TxSigners TxHashes. enumerate 0 (zip (b_Transactions b) (zip TxSigners TxHashes))"
  let ?n = "length (b_Transactions b)"
  obtain TxSigners TxHashes a1 a2 where val: "validateTransactionSignatures E b sp cn = Inr (TxSigners, TxHashes)"
    and a1: "each_process pr_BeforeExecuteTransactions cn a = (Inr (), a1)"
    and a2: "foreachE (execute_tx E b cn) (?xs TxSigners TxHashes) a1 = (Inr (), a2)"
    and a': "thenE checkDirty (each_process (\<lambda>p. pr_AfterExecuteTransactions p b) cn) a2 = (Inr u, a')"
    using assms(4) unfolding executeBlockOnContext_def liftE_success
    by (auto simp: bindE_success[of "each_process _ _"] bindE_success[of "foreachE _ _"])
  have hooks: "keeps_slots (each_process pr_BeforeExecuteTransactions cn)"
    "keeps_slots (thenE checkDirty (each_process (\<lambda>p. pr_AfterExecuteTransactions p b) cn))"
    using assms(1) unfolding slots_chain_def
    by (auto intro!: keeps_slots_each_process keeps_slots_bindE keeps_slots_checks)
  note before = keeps_slots_level[OF hooks(1) a1 assms(5)]
  define key where "key = (\<lambda>(i :: nat, tx, signers :: pubhash list, h). (ToTimeSlot (se_timestamp (ce_store E) tx), bytes_str h))"
  note txs = execute_txs_slots[OF assms(1) a2 before(1) key_def]
  have one: "one_level a2" using txs by blast
  note after = keeps_slots_level[OF hooks(2) a' one]
  note ver = verified_hashes[OF assms(2,3) val]
  have x: "?xs TxSigners TxHashes ! i \<in> set (?xs TxSigners TxHashes)" "key (?xs TxSigners TxHashes ! i) = tx_key E chainID b i"
    if "i < ?n" for i
  proof -
    show "?xs TxSigners TxHashes ! i \<in> set (?xs TxSigners TxHashes)" using that ver(1,2) by (intro nth_mem) simp
    show "key (?xs TxSigners TxHashes ! i) = tx_key E chainID b i"
      using that ver by (simp add: nth_enumerate_eq key_def tx_key_def cid)
  qed
  show "one_level a'" by (rule after(1))
  show "marked a' (tx_key E chainID b i)" if i: "i < ?n"
    using after(2) txs x[OF i] by (metis imageI)
  show "slot_allowed (ToTimeSlot (bh_Timestamp (b_Header b))) (fst (tx_key E chainID b i))"
    "\<not> ld_HasTimeSlot (ctx_loader a) (fst (tx_key E chainID b i)) (snd (tx_key E chainID b i))" if i: "i < ?n"
    using txs x[OF i] before(3) by metis+
qed

section \<open>Connecting one block\<close>

lemma StoreBlock_state:
  assumes "StoreBlock E b ctd st = (Inr u, st')"
  shows "\<not> st_isClose st'" and "st_chainID st' = st_chainID st"
    and "st_timeSlotMap st' = update_slots (ToTimeSlot (bh_Timestamp (b_Header b))) (cd_TimeSlotMap ctd) (st_timeSlotMap st)"
    and "st_cache st' = \<lparr>ch_cached = True, ch_height = bh_Height (b_Header b), ch_heightHash = se_hashHeader E (b_Header b),
        ch_heightBlock = Some b\<rparr>"
  using assms by (auto simp: StoreBlock_def Let_def split: if_splits sum.splits prod.splits)

lemma connectBlockWithContext_success:
  assumes "connectBlockWithContext E b (cn, a) = (Inr u, cn', a')" and "slots_chain E cn" and "one_level a"
  obtains cs ctd st' where "cn' = cn\<lparr>cn_consensus := cs, cn_store := st'\<rparr>"
    and "StoreBlock (ce_store E) b ctd (cn_store cn) = (Inr (), st')" and "om_inv (cd_TimeSlotMap ctd)"
    and "\<And>slot key. slot_marked slot key (cd_TimeSlotMap ctd) \<longleftrightarrow> marked a (slot, key)"
    and "bh_ContextHash (b_Header b) = fst (ctx_Hash (ce_hashers E) a)"
proof -
  let ?save = "each_process (\<lambda>p. pr_OnSaveData p b) cn" and ?a = "snd (ctx_Hash (ce_hashers E) a)"
  have a0: "one_level ?a" "marked ?a = marked a"
    using assms(3) by (auto simp: one_level_def marked_def ctx_Top_def ctx_Hash_def Let_def)
  have hash: "bh_ContextHash (b_Header b) = fst (ctx_Hash (ce_hashers E) a)"
    using assms(1) by (auto simp: connectBlockWithContext_def split: prod.splits if_splits)
  define M where "M = thenE checkDirty ?save"
  have "thenE (on_context M)
     (thenE (\<lambda>(cn, ctx). case ce_csOnSaveData E b (cn_consensus cn, ctx) of (r, cs, ctx) \<Rightarrow> (r, cn\<lparr>cn_consensus := cs\<rparr>, ctx))
     (thenE (on_context checkDirty)
       (\<lambda>(cn, ctx). case StoreBlock (ce_store E) b (ctx_Top ctx) (cn_store cn) of (r, st) \<Rightarrow> (r, cn\<lparr>cn_store := st\<rparr>, ctx)))) (cn, ?a) =
     (Inr u, cn', a')"
    using assms(1) hash by (cases "ctx_Hash (ce_hashers E) a") (simp add: connectBlockWithContext_def M_def)
  then obtain a1 cs a2 st' where a1: "M ?a = (Inr (), a1)"
    and cs: "ce_csOnSaveData E b (cn_consensus cn, a1) = (Inr (), cs, a2)"
    and st': "StoreBlock (ce_store E) b (ctx_Top a2) (cn_store cn) = (Inr (), st')"
    and cn': "cn' = cn\<lparr>cn_consensus := cs, cn_store := st'\<rparr>"
    by (auto simp: bindE_success on_context_def checkDirty_def split: prod.splits if_splits)
  have save: "keeps_slots (thenE checkDirty ?save)"
    "keeps_slots (\<lambda>ctx. case ce_csOnSaveData E b (cn_consensus cn, ctx) of (r, cs, ctx) \<Rightarrow> (r, ctx))"
    using assms(2) unfolding slots_chain_def
    by (auto intro!: keeps_slots_each_process keeps_slots_bindE keeps_slots_checks)
  note l1 = keeps_slots_level[OF save(1) a1[unfolded M_def] a0(1)]
  have l2: "one_level a2" "marked a2 = marked a1"
    using keeps_slots_level[OF save(2) _ l1(1), of "()" a2] cs by simp_all
  show thesis
    by (rule that[OF cn' st' _ _ hash]) (use l1(2) l2 a0(2) in \<open>auto simp: one_level_def ctx_Top_def marked_def fun_eq_iff\<close>)
qed

lemma st_HasTimeSlot_used: "st_HasTimeSlot slot key st \<longleftrightarrow> slot_used slot key (st_timeSlotMap st)"
  by (simp add: st_HasTimeSlot_def slot_used_def split: option.split)

lemma cn_NewContext_level:
  assumes "cn_NewContext E cn = Inr a"
  shows "one_level a" and "ctx_loader a = st_as_loader (ce_store E) (cn_store cn)"
  using assms by (auto simp: cn_NewContext_def one_level_def NewContext_def NewContextData_def split: sum.splits)

text \<open>What a header must say to be accepted.\<close>

lemma validateHeader_success:
  assumes "validateHeader E bh cn = Inr u"
  shows "st_LastStatus (ce_store E) (cn_store cn) = Inr (bh_Height bh - 1, bh_PrevHash bh)"
    and "\<exists>ts. st_LastTimestamp (ce_store E) (cn_store cn) = Inr ts \<and> ts < bh_Timestamp bh"
    and "bh_ChainID bh = st_chainID (cn_store cn)" and "bh_Generator bh \<noteq> zeros AddressSize"
  using assms by (auto simp: validateHeader_def Let_def split: sum.splits prod.splits if_splits)

lemma ConnectBlock_success:
  assumes "ConnectBlock E b sp cn = (Inr u, cn')" and "slots_chain E cn" and "0 < ce_NumCPU E" and "provider_ok (ce_recover E) sp"
  defines "key \<equiv> tx_key E (st_chainID (cn_store cn)) b" and "cur \<equiv> ToTimeSlot (bh_Timestamp (b_Header b))"
  shows "validateHeader E (b_Header b) cn = Inr ()"
    and "ce_csValidateSignature E (cn_consensus cn) (b_Header b) (b_Signatures b) = Inr ()"
    and "cn_app cn' = cn_app cn" "cn_processes cn' = cn_processes cn" "st_chainID (cn_store cn') = st_chainID (cn_store cn)"
    and "\<not> st_isClose (cn_store cn')"
    and "st_cache (cn_store cn') = \<lparr>ch_cached = True, ch_height = bh_Height (b_Header b),
        ch_heightHash = se_hashHeader (ce_store E) (b_Header b), ch_heightBlock = Some b\<rparr>"
    and "i < length (b_Transactions b) \<Longrightarrow> slot_allowed cur (fst (key i)) \<and>
        \<not> st_HasTimeSlot (fst (key i)) (snd (key i)) (cn_store cn) \<and> st_HasTimeSlot (fst (key i)) (snd (key i)) (cn_store cn')"
    and "st_HasTimeSlot slot k (cn_store cn) \<Longrightarrow> \<not> slot < cur - 1 \<Longrightarrow> st_HasTimeSlot slot k (cn_store cn')"
proof -
  obtain a a' a'' where v: "validateHeader E (b_Header b) cn = Inr ()"
      "ce_csValidateSignature E (cn_consensus cn) (b_Header b) (b_Signatures b) = Inr ()"
    and a: "cn_NewContext E cn = Inr a" and a': "executeBlockOnContext E b sp cn a = (Inr (), a')"
    and con: "connectBlockWithContext E b (cn, a') = (Inr u, cn', a'')"
    using assms(1) by (auto simp: ConnectBlock_def split: if_splits sum.splits prod.splits)
  note lev = cn_NewContext_level[OF a]
  note exe = execute_block_slots[OF assms(2-4) a' lev(1) refl, folded key_def cur_def]
  obtain cs ctd st' where cn': "cn' = cn\<lparr>cn_consensus := cs, cn_store := st'\<rparr>"
    and st': "StoreBlock (ce_store E) b ctd (cn_store cn) = (Inr (), st')" and inv: "om_inv (cd_TimeSlotMap ctd)"
    and mk: "\<And>slot key. slot_marked slot key (cd_TimeSlotMap ctd) \<longleftrightarrow> marked a' (slot, key)"
    using connectBlockWithContext_success[OF con assms(2) exe(1)] by metis
  note state = StoreBlock_state[OF st']
  have used: "st_HasTimeSlot slot k (cn_store cn') \<longleftrightarrow> \<not> slot < cur - 1 \<and> (marked a' (slot, k) \<or> st_HasTimeSlot slot k (cn_store cn))" for slot k
    using update_slots_used[OF inv, of slot k cur "st_timeSlotMap (cn_store cn)"] state(3)
    by (simp add: st_HasTimeSlot_used cn' mk cur_def)
  show "validateHeader E (b_Header b) cn = Inr ()"
    "ce_csValidateSignature E (cn_consensus cn) (b_Header b) (b_Signatures b) = Inr ()" by (rule v)+
  show "cn_app cn' = cn_app cn" "cn_processes cn' = cn_processes cn" "st_chainID (cn_store cn') = st_chainID (cn_store cn)"
    "\<not> st_isClose (cn_store cn')"
    "st_cache (cn_store cn') = \<lparr>ch_cached = True, ch_height = bh_Height (b_Header b),
        ch_heightHash = se_hashHeader (ce_store E) (b_Header b), ch_heightBlock = Some b\<rparr>"
    using state by (simp_all add: cn')
  show "slot_allowed cur (fst (key i)) \<and>
        \<not> st_HasTimeSlot (fst (key i)) (snd (key i)) (cn_store cn) \<and> st_HasTimeSlot (fst (key i)) (snd (key i)) (cn_store cn')"
    if i: "i < length (b_Transactions b)"
    using exe(2-4)[OF i] lev(2) by (auto simp: used slot_allowed_def st_as_loader_def)
  show "st_HasTimeSlot slot k (cn_store cn')" if "st_HasTimeSlot slot k (cn_store cn)" "\<not> slot < cur - 1"
    using that by (simp add: used)
qed

section \<open>Connecting blocks one after the other\<close>

inductive connected :: "('db, 'tx, 'cs) chain_env \<Rightarrow> ('db, 'tx, 'cs) chain \<Rightarrow> 'tx block list \<Rightarrow> ('db, 'tx, 'cs) chain \<Rightarrow> bool"
  for E cn where
  connected_none: "connected E cn [] cn"
| connected_next: "connected E cn bs cn1 \<Longrightarrow> provider_ok (ce_recover E) sp \<Longrightarrow> ConnectBlock E b sp cn1 = (Inr (), cn2) \<Longrightarrow>
    connected E cn (bs @ [b]) cn2"

definition tx_keys :: "('db, 'tx, 'cs) chain_env \<Rightarrow> u8 \<Rightarrow> 'tx block \<Rightarrow> (u32 \<times> string) set" where
  "tx_keys E chainID b = tx_key E chainID b ` {..<length (b_Transactions b)}"

definition follows :: "('db, 'tx, 'cs) chain_env \<Rightarrow> 'tx block \<Rightarrow> 'tx block \<Rightarrow> bool" where
  "follows E b b' \<longleftrightarrow>
     bh_PrevHash (b_Header b') = se_hashHeader (ce_store E) (b_Header b) \<and> bh_Height (b_Header b') = bh_Height (b_Header b) + 1"

definition later :: "('db, 'tx, 'cs) chain_env \<Rightarrow> u8 \<Rightarrow> 'tx block \<Rightarrow> 'tx block \<Rightarrow> bool" where
  "later E chainID b b' \<longleftrightarrow>
     bh_Timestamp (b_Header b) < bh_Timestamp (b_Header b') \<and> tx_keys E chainID b \<inter> tx_keys E chainID b' = {}"

definition block_slot :: "'tx block \<Rightarrow> u32" where
  "block_slot b = ToTimeSlot (bh_Timestamp (b_Header b))"

lemma unat_ToTimeSlot: "unat (ToTimeSlot ts) = unat ts div 5000000000"
proof -
  have "unat ts < 2 ^ 64" using unsigned_less[of ts] by simp
  then have "unat ts div 5000000000 < 2 ^ 32" by simp
  then show ?thesis by (simp add: ToTimeSlot_def unsigned_ucast_eq unat_div_distrib take_bit_eq_mod)
qed

lemma ToTimeSlot_mono: "ts \<le> ts' \<Longrightarrow> ToTimeSlot ts \<le> ToTimeSlot ts'"
  by (simp add: word_le_nat_alt unat_ToTimeSlot div_le_mono)

text \<open>A slot that was allowed early and is not too old late was not too old in between.\<close>

lemma slot_between:
  assumes "c1 \<le> c2" and "c2 \<le> c3" and "slot_allowed c1 slot" and "\<not> slot < c3 - 1"
  shows "\<not> slot < c2 - 1"
proof -
  have "c1 \<noteq> 0"
  proof
    assume "c1 = 0"
    then have "slot = -1" "slot = 0" using assms(3) by (auto simp: slot_allowed_def word_order.extremum_strict not_less word_order.extremum_unique)
    then show False by simp
  qed
  then have "0 < unat c1" by (simp add: unat_gt_0)
  moreover from this have "unat (c - 1) = unat c - 1" if "unat c1 \<le> unat c" for c :: u32
    using that by (subst unat_sub) (auto simp: word_le_nat_alt)
  ultimately show ?thesis using assms(1,2,4) by (simp add: word_less_nat_alt word_le_nat_alt)
qed

lemma slots_chain_cong: "cn_app cn' = cn_app cn \<Longrightarrow> cn_processes cn' = cn_processes cn \<Longrightarrow> slots_chain E cn' = slots_chain E cn"
  by (simp add: slots_chain_def)

text \<open>What is kept while blocks are connected.\<close>

definition chain_inv ::
  "('db, 'tx, 'cs) chain_env \<Rightarrow> ('db, 'tx, 'cs) chain \<Rightarrow> 'tx block list \<Rightarrow> ('db, 'tx, 'cs) chain \<Rightarrow> bool" where
  "chain_inv E cn bs cn' \<longleftrightarrow>
     cn_app cn' = cn_app cn \<and> cn_processes cn' = cn_processes cn \<and> st_chainID (cn_store cn') = st_chainID (cn_store cn) \<and>
     successively (follows E) bs \<and> sorted_wrt (later E (st_chainID (cn_store cn))) bs \<and>
     (if bs = [] then cn' = cn
      else \<not> st_isClose (cn_store cn') \<and>
        st_cache (cn_store cn') = \<lparr>ch_cached = True, ch_height = bh_Height (b_Header (last bs)),
          ch_heightHash = se_hashHeader (ce_store E) (b_Header (last bs)), ch_heightBlock = Some (last bs)\<rparr> \<and>
        unat (bh_Height (b_Header (last bs))) = unat (st_Height (ce_store E) (cn_store cn)) + length bs) \<and>
     (\<forall>b\<in>set bs. bh_Timestamp (b_Header b) \<le> bh_Timestamp (b_Header (last bs)) \<and>
        (\<forall>(slot, key)\<in>tx_keys E (st_chainID (cn_store cn)) b.
           slot_allowed (block_slot b) slot \<and> (slot < block_slot (last bs) - 1 \<or> st_HasTimeSlot slot key (cn_store cn'))))"

lemma chain_inv_next:
  assumes "chain_inv E cn bs cn1" and "slots_chain E cn" and "0 < ce_NumCPU E" and "provider_ok (ce_recover E) sp"
    and "ConnectBlock E b sp cn1 = (Inr (), cn2)" and "unat (st_Height (ce_store E) (cn_store cn)) + length bs + 1 < 2 ^ 32"
  shows "chain_inv E cn (bs @ [b]) cn2"
proof -
  let ?id = "st_chainID (cn_store cn)" and ?h = "b_Header b" and ?keys = "tx_keys E (st_chainID (cn_store cn))"
  note inv = assms(1)[unfolded chain_inv_def]
  have same: "cn_app cn1 = cn_app cn" "cn_processes cn1 = cn_processes cn" "st_chainID (cn_store cn1) = ?id" using inv by blast+
  have sl: "slots_chain E cn1" using assms(2) slots_chain_cong[OF same(1,2)] by blast
  note ok = ConnectBlock_success[OF assms(5) sl assms(3,4), unfolded same, folded block_slot_def]
  note hdr = validateHeader_success[OF ok(1)]
  have key: "slot_allowed (block_slot b) slot \<and> \<not> st_HasTimeSlot slot key (cn_store cn1) \<and> st_HasTimeSlot slot key (cn_store cn2)"
    if "(slot, key) \<in> ?keys b" for slot key
    using that ok(8) unfolding tx_keys_def by (metis (no_types, lifting) fst_conv imageE lessThan_iff snd_conv)
  show ?thesis
  proof (cases "bs = []")
    case True
    then have "bh_Height ?h = st_Height (ce_store E) (cn_store cn) + 1"
      using hdr(1) inv by (auto simp: st_LastStatus_def Let_def split: sum.splits)
    then have "unat (bh_Height ?h) = unat (st_Height (ce_store E) (cn_store cn)) + 1"
      using assms(6) True by (simp add: unat_plus_if')
    then show ?thesis using True ok(3-7) same key by (auto simp: chain_inv_def)
  next
    case False
    let ?l = "last bs"
    have cache: "\<not> st_isClose (cn_store cn1)" "st_cache (cn_store cn1) = \<lparr>ch_cached = True, ch_height = bh_Height (b_Header ?l),
          ch_heightHash = se_hashHeader (ce_store E) (b_Header ?l), ch_heightBlock = Some ?l\<rparr>"
      and height: "unat (bh_Height (b_Header ?l)) = unat (st_Height (ce_store E) (cn_store cn)) + length bs"
      using inv False by simp_all
    have f: "follows E ?l b" using hdr(1) cache by (auto simp: follows_def st_LastStatus_def st_Height_def st_Hash_def)
    have "bh_Height (b_Header ?l) \<noteq> 0" using height False by auto
    then have ts: "bh_Timestamp (b_Header ?l) < bh_Timestamp ?h"
      using hdr(2) cache by (auto simp: st_LastTimestamp_def st_Height_def)
    have h: "unat (bh_Height ?h) = unat (st_Height (ce_store E) (cn_store cn)) + length (bs @ [b])"
      using f height assms(6) by (simp add: follows_def unat_plus_if')
    have old: "bh_Timestamp (b_Header c) < bh_Timestamp ?h" "block_slot c \<le> block_slot ?l" "block_slot ?l \<le> block_slot b" if "c \<in> set bs" for c
      using inv ts that by (auto simp: block_slot_def intro: ToTimeSlot_mono le_less_trans less_imp_le)
    have kept: "slot_allowed (block_slot c) slot \<and> st_HasTimeSlot slot key (cn_store cn1)"
      if c: "c \<in> set bs" "(slot, key) \<in> ?keys c" and new: "\<not> slot < block_slot b - 1" for c slot key
    proof -
      have a: "slot_allowed (block_slot c) slot" "slot < block_slot ?l - 1 \<or> st_HasTimeSlot slot key (cn_store cn1)"
        using inv c by fast+
      then show ?thesis using slot_between[OF old(2,3)[OF c(1)] a(1) new] by blast
    qed
    have "later E ?id c b" if c: "c \<in> set bs" for c
      using old(1)[OF c] key kept[OF c] unfolding later_def by (fastforce simp: slot_allowed_def)
    moreover have "slot_allowed (block_slot c) slot \<and> (slot < block_slot b - 1 \<or> st_HasTimeSlot slot key (cn_store cn2))"
      if c: "c \<in> set (bs @ [b])" "(slot, key) \<in> ?keys c" for c slot key
    proof (cases "c \<in> set bs")
      case True
      then have "slot_allowed (block_slot c) slot" using inv c(2) by fast
      then show ?thesis using kept[OF True c(2)] ok(9) by blast
    next
      case False
      then show ?thesis using c key by auto
    qed
    ultimately show ?thesis
      using inv ok(3-7) same f h old(1) by (auto simp: chain_inv_def successively_append_iff sorted_wrt_append less_imp_le)
  qed
qed

lemma connected_inv:
  assumes "connected E cn bs cn'" and "slots_chain E cn" and "0 < ce_NumCPU E"
    and "unat (st_Height (ce_store E) (cn_store cn)) + length bs < 2 ^ 32"
  shows "chain_inv E cn bs cn'"
  using assms(1,4)
proof (induction rule: connected.induct)
  case connected_none
  then show ?case by (simp add: chain_inv_def)
next
  case (connected_next bs cn1 sp b cn2)
  then show ?case using chain_inv_next[OF _ assms(2,3), of bs cn1 sp b cn2] by simp
qed

text \<open>
  C11: the blocks that a chain connects form one chain. Each names the hash of the one before it as its previous hash
  and has the next height, the timestamps grow, and the store ends with the height, hash and timestamp of the last one.
  No two of the blocks hold the same transaction: a time slot and transaction hash that one block used is
  refused by every later one.
\<close>

theorem connected_blocks:
  assumes "connected E cn bs cn'" and "slots_chain E cn" and "0 < ce_NumCPU E"
    and "unat (st_Height (ce_store E) (cn_store cn)) + length bs < 2 ^ 32" and "bs \<noteq> []"
  shows "successively (follows E) bs \<and> sorted_wrt (later E (st_chainID (cn_store cn))) bs \<and>
    st_LastStatus (ce_store E) (cn_store cn') =
      Inr (bh_Height (b_Header (last bs)), se_hashHeader (ce_store E) (b_Header (last bs))) \<and>
    st_LastTimestamp (ce_store E) (cn_store cn') = Inr (bh_Timestamp (b_Header (last bs))) \<and>
    unat (bh_Height (b_Header (last bs))) = unat (st_Height (ce_store E) (cn_store cn)) + length bs"
proof -
  note inv = connected_inv[OF assms(1-4), unfolded chain_inv_def]
  then have "bh_Height (b_Header (last bs)) \<noteq> 0" using assms(5) by auto
  then show ?thesis using inv assms(5) by (auto simp: st_LastStatus_def st_LastTimestamp_def st_Height_def st_Hash_def)
qed

section \<open>A replayed transaction and the block creator\<close>

lemma run_tx_replayed:
  assumes "same_ctx a a" and "ld_HasTimeSlot (ctx_loader a) slot (bytes_str h)"
  shows "fst (run_tx E g p pid slot h tx signers index a) = Inl (TypesErr ErrUsedTimeSlot)"
    and "length (ctx_stack (snd (run_tx E g p pid slot h tx signers index a))) = length (ctx_stack a) + 1"
proof -
  let ?s = "snd (ctx_Snapshot a)"
  note sn = same_ctx_Snapshot[OF assms(1)]
  have ld: "ctx_loader ?s = ctx_loader a" by (simp add: ctx_Snapshot_def ctx_setTop_def ctx_dirty_def Let_def)
  have "ctx_wf ?s" using sn(3) by (simp add: same_ctx_def)
  from ctx_UseTimeSlot_result[OF this, of slot "bytes_str h"] ld assms(2)
  obtain a' where a': "ctx_UseTimeSlot slot (bytes_str h) ?s = (Inl (TypesErr ErrUsedTimeSlot), a')"
    by (cases "ctx_UseTimeSlot slot (bytes_str h) ?s") auto
  have "length (ctx_stack ?s) = length (ctx_stack a) + 1"
    using assms(1) by (cases "ctx_stack a") (auto simp: ctx_Snapshot_def ctx_setTop_def ctx_dirty_def Let_def same_ctx_def ctx_wf_def elim: stack_okE)
  moreover have "length (ctx_stack a') = length (ctx_stack ?s)"
    using a' sn(4) by (auto simp: ctx_UseTimeSlot_def ctx_setTop_def Let_def split: if_splits prod.splits)
  moreover have "run_tx E g p pid slot h tx signers index a = (Inl (TypesErr ErrUsedTimeSlot), a')"
    using a' by (simp add: run_tx_def case_prod_unfold)
  ultimately show "fst (run_tx E g p pid slot h tx signers index a) = Inl (TypesErr ErrUsedTimeSlot)"
    "length (ctx_stack (snd (run_tx E g p pid slot h tx signers index a))) = length (ctx_stack a) + 1" by simp_all
qed

lemma AddTx_runs:
  assumes "ce_typeTx E tx = Inr t" and h: "h = se_hashTx (ce_store E) (st_chainID (cn_store cn)) t tx"
    and "recover_signers (ce_recover E) h sigs = Inr signers"
    and "cn_Process (ucast (drop_bit 8 t)) cn = Inr p" and slot: "slot = ToTimeSlot (se_timestamp (ce_store E) tx)"
    and "slot_allowed (ToTimeSlot (bh_Timestamp (b_Header (bc_b bc)))) slot"
    and run_def: "run = run_tx E g p (ucast (drop_bit 8 t)) slot h tx signers (of_nat (length (b_Transactions (bc_b bc))))"
  shows "fst (AddTx E cn g (tx, sigs) bc) = fst (run (bc_ctx bc))"
    and "bc_ctx (snd (AddTx E cn g (tx, sigs) bc)) = snd (run (bc_ctx bc))"
proof -
  obtain r a where r: "run (bc_ctx bc) = (r, a)" by force
  have "AddTx E cn g (tx, sigs) bc = UnsafeAddTx E cn g t h tx sigs signers bc"
    using assms(1,3) by (simp add: AddTx_def bindE_def liftE_def h)
  also have "fst \<dots> = r \<and> bc_ctx (snd \<dots>) = a"
    using assms(4,6) r by (cases r) (simp_all add: UnsafeAddTx_def Let_def on_bc_def bindE_def writeE_def slot[symmetric] run_def)
  finally show "fst (AddTx E cn g (tx, sigs) bc) = fst (run (bc_ctx bc))"
    "bc_ctx (snd (AddTx E cn g (tx, sigs) bc)) = snd (run (bc_ctx bc))" by (simp_all add: r)
qed

lemma AddTx_refuses:
  assumes "snd (AddTx E cn g (tx, sigs) bc) \<noteq> bc"
  obtains t signers p where "ce_typeTx E tx = Inr t"
    and "recover_signers (ce_recover E) (se_hashTx (ce_store E) (st_chainID (cn_store cn)) t tx) sigs = Inr signers"
    and "cn_Process (ucast (drop_bit 8 t)) cn = Inr p"
    and "slot_allowed (ToTimeSlot (bh_Timestamp (b_Header (bc_b bc)))) (ToTimeSlot (se_timestamp (ce_store E) tx))"
proof -
  obtain t where t: "ce_typeTx E tx = Inr t" using assms by (cases "ce_typeTx E tx") (auto simp: AddTx_def bindE_def liftE_def)
  let ?h = "se_hashTx (ce_store E) (st_chainID (cn_store cn)) t tx"
  obtain signers where s: "recover_signers (ce_recover E) ?h sigs = Inr signers"
    using assms t by (cases "recover_signers (ce_recover E) ?h sigs") (auto simp: AddTx_def bindE_def liftE_def)
  have "AddTx E cn g (tx, sigs) bc = UnsafeAddTx E cn g t ?h tx sigs signers bc"
    using t s by (simp add: AddTx_def bindE_def liftE_def)
  then have u: "snd (UnsafeAddTx E cn g t ?h tx sigs signers bc) \<noteq> bc" using assms by simp
  obtain p where p: "cn_Process (ucast (drop_bit 8 t)) cn = Inr p"
    using u by (cases "cn_Process (ucast (drop_bit 8 t) :: u8) cn") (auto simp: UnsafeAddTx_def Let_def)
  show thesis by (rule that[OF t s p]) (use u p in \<open>auto simp: UnsafeAddTx_def Let_def split: if_splits\<close>)
qed

text \<open>A call of \<^verbatim>\<open>AddTx\<close> never closes a snapshot.\<close>

lemma AddTx_stack:
  assumes "lawful_chain ok E cn" and "ok (fst x)" and "same_ctx (bc_ctx bc) (bc_ctx bc)"
  shows "same_ctx (bc_ctx (snd (AddTx E cn g x bc))) (bc_ctx (snd (AddTx E cn g x bc))) \<and>
    length (ctx_stack (bc_ctx bc)) \<le> length (ctx_stack (bc_ctx (snd (AddTx E cn g x bc))))"
proof -
  let ?ctx = "bc_ctx bc" and ?bc = "snd (AddTx E cn g x bc)"
  obtain t ps where st: "ctx_stack ?ctx = t # ps" using assms(3) by (auto simp: same_ctx_def ctx_wf_def elim: stack_okE)
  obtain tx sigs where x: "x = (tx, sigs)" by force
  show ?thesis
  proof (cases "?bc = bc")
    case True
    then show ?thesis using assms(3) by simp
  next
    case False
    then obtain t' signers p where r: "ce_typeTx E tx = Inr t'"
      "recover_signers (ce_recover E) (se_hashTx (ce_store E) (st_chainID (cn_store cn)) t' tx) sigs = Inr signers"
      "cn_Process (ucast (drop_bit 8 t')) cn = Inr p"
      "slot_allowed (ToTimeSlot (bh_Timestamp (b_Header (bc_b bc)))) (ToTimeSlot (se_timestamp (ce_store E) tx))"
      unfolding x by (rule AddTx_refuses)
    define run where "run = run_tx E g p (ucast (drop_bit 8 t')) (ToTimeSlot (se_timestamp (ce_store E) tx))
      (se_hashTx (ce_store E) (st_chainID (cn_store cn)) t' tx) tx signers (of_nat (length (b_Transactions (bc_b bc))))"
    have law: "lawful (ce_Validate E tx p (ucast (drop_bit 8 t')) signers)"
      "lawful (ce_Execute E tx p (ucast (drop_bit 8 t')) (of_nat (length (b_Transactions (bc_b bc)))))"
      using assms(1,2) unfolding lawful_chain_def x by auto
    note same = run_tx_same[OF law assms(3) st run_def]
    have "length (ctx_stack ?ctx) \<le> length (ctx_stack (snd (run ?ctx)))"
    proof (cases "fst (run ?ctx) = Inr ()")
      case True
      then show ?thesis using same(3) by simp
    next
      case False
      then show ?thesis using same(4) by (auto simp: same_ctx_fields)
    qed
    then show ?thesis using AddTx_runs(2)[OF r(1) refl r(2,3) refl r(4) run_def] same(2) by (simp add: x)
  qed
qed

lemma offer_all_stack:
  assumes "lawful_chain ok E cn" and "\<forall>x\<in>set txs. ok (fst x)" and "same_ctx (bc_ctx bc) (bc_ctx bc)"
  shows "length (ctx_stack (bc_ctx bc)) \<le> length (ctx_stack (bc_ctx (offer_all E cn g txs bc)))"
  using assms(2,3)
proof (induction txs arbitrary: bc)
  case (Cons x txs)
  then have a: "same_ctx (bc_ctx (snd (AddTx E cn g x bc))) (bc_ctx (snd (AddTx E cn g x bc)))"
    "length (ctx_stack (bc_ctx bc)) \<le> length (ctx_stack (bc_ctx (snd (AddTx E cn g x bc))))"
    using AddTx_stack[OF assms(1) _ Cons.prems(2), of x g] by simp_all
  show ?case using a(2) Cons.IH[OF _ a(1)] Cons.prems(1) by (simp add: offer_all_def)
qed (simp add: offer_all_def)


section \<open>A block that is not connected\<close>

lemma StoreBlock_failure:
  assumes "StoreBlock E b ctd st = (Inl e, st')"
  shows "\<exists>cdb. st' = st\<lparr>st_cdb := cdb\<rparr> \<and> (cdb = st_cdb st \<or> (\<exists>Datas. block_datas E b (cd_Events ctd) = Inr Datas \<and>
    cdb = snd (db_AppendData (se_gzip E) (bh_Height (b_Header b)) (se_hashHeader E (b_Header b)) Datas (st_cdb st))))"
proof (cases "st_isClose st")
  case True
  then show ?thesis using assms by (auto simp: StoreBlock_def intro!: exI[of _ "st_cdb st"])
next
  case False
  then show ?thesis
  proof (cases "block_datas E b (cd_Events ctd)")
    case (Inl e)
    then show ?thesis using assms False by (auto simp: StoreBlock_def intro!: exI[of _ "st_cdb st"])
  next
    case (Inr Datas)
    then show ?thesis using assms False
      by (auto simp: StoreBlock_def Let_def db_Update_def case_prod_unfold split: if_splits sum.splits)
  qed
qed

text \<open>
  C25: a block that is refused leaves the chain as it was, unless it fails only when its data is saved. In that case the
  header and the signatures were accepted and the context hash was right; then the database, the cache and the
  time slots of the store are still those of before. What may have changed is the consensus, which
  \<^verbatim>\<open>OnSaveData\<close> updates first, and the pile, to which the block may already be appended.
\<close>

theorem refused_block:
  assumes "ConnectBlock E b sp cn = (Inl e, cn')"
  shows "cn' = cn \<or>
    (\<exists>ctx ctx' cs cdb. validateHeader E (b_Header b) cn = Inr () \<and>
       ce_csValidateSignature E (cn_consensus cn) (b_Header b) (b_Signatures b) = Inr () \<and>
       cn_NewContext E cn = Inr ctx \<and> executeBlockOnContext E b sp cn ctx = (Inr (), ctx') \<and>
       bh_ContextHash (b_Header b) = fst (ctx_Hash (ce_hashers E) ctx') \<and>
       cn' = cn\<lparr>cn_consensus := cs, cn_store := (cn_store cn)\<lparr>st_cdb := cdb\<rparr>\<rparr> \<and>
       (cdb = st_cdb (cn_store cn) \<or> (\<exists>Datas. cdb = snd (db_AppendData (se_gzip (ce_store E)) (bh_Height (b_Header b))
          (se_hashHeader (ce_store E) (b_Header b)) Datas (st_cdb (cn_store cn))))))"
proof (cases "cn' = cn")
  case False
  then obtain a a' a'' where v: "validateHeader E (b_Header b) cn = Inr ()"
      "ce_csValidateSignature E (cn_consensus cn) (b_Header b) (b_Signatures b) = Inr ()"
    and a: "cn_NewContext E cn = Inr a" and a': "executeBlockOnContext E b sp cn a = (Inr (), a')"
    and con: "connectBlockWithContext E b (cn, a') = (Inl e, cn', a'')"
    using assms by (auto simp: ConnectBlock_def split: if_splits sum.splits prod.splits)
  obtain h c where h: "ctx_Hash (ce_hashers E) a' = (h, c)" by force
  then have hash: "bh_ContextHash (b_Header b) = h" using con False by (auto simp: connectBlockWithContext_def split: if_splits)
  define M where "M = thenE checkDirty (each_process (\<lambda>p. pr_OnSaveData p b) cn)"
  have "thenE (on_context M)
     (thenE (\<lambda>(cn, ctx). case ce_csOnSaveData E b (cn_consensus cn, ctx) of (r, cs, ctx) \<Rightarrow> (r, cn\<lparr>cn_consensus := cs\<rparr>, ctx))
     (thenE (on_context checkDirty)
       (\<lambda>(cn, ctx). case StoreBlock (ce_store E) b (ctx_Top ctx) (cn_store cn) of (r, st) \<Rightarrow> (r, cn\<lparr>cn_store := st\<rparr>, ctx)))) (cn, c) =
     (Inl e, cn', a'')"
    using con hash by (simp add: connectBlockWithContext_def M_def h)
  then consider (save) cs where "cn' = cn\<lparr>cn_consensus := cs\<rparr>"
    | (store) cs ctd st' where "StoreBlock (ce_store E) b ctd (cn_store cn) = (Inl e, st')" "cn' = cn\<lparr>cn_consensus := cs, cn_store := st'\<rparr>"
    using False by (auto simp: bindE_failure on_context_def checkDirty_def split: prod.splits if_splits)
  then have "\<exists>cs cdb. cn' = cn\<lparr>cn_consensus := cs, cn_store := (cn_store cn)\<lparr>st_cdb := cdb\<rparr>\<rparr> \<and>
       (cdb = st_cdb (cn_store cn) \<or> (\<exists>Datas. cdb = snd (db_AppendData (se_gzip (ce_store E)) (bh_Height (b_Header b))
          (se_hashHeader (ce_store E) (b_Header b)) Datas (st_cdb (cn_store cn)))))"
  proof cases
    case save
    then show ?thesis by (intro exI[of _ cs] exI[of _ "st_cdb (cn_store cn)"]) simp
  next
    case store
    then show ?thesis using StoreBlock_failure[OF store(1)] by auto
  qed
  then show ?thesis using v a a' hash h by auto
qed simp

section \<open>An example chain with one block\<close>

lemma sample_slots: "slots_chain sample_chain_env sample_chain"
proof -
  have top: "keeps_slots (writeE (ctx_setTop f))" if "\<And>t. cd_TimeSlotMap (f t) = cd_TimeSlotMap t" for f
    using that by (auto simp: keeps_slots_def writeE_def ctx_setTop_def neq_Nil_conv)
  have "keeps_slots (writeE (ctx_SetProcessData pid n v))" "keeps_slots (writeE (ctx_putAccount addr acc))" for pid n v addr acc
    using top[of "ctd_SetProcessData pid n v"] top[of "\<lambda>t. t\<lparr>cd_AccountMap := om_put addr acc (cd_AccountMap t)\<rparr>"]
    by (simp_all add: ctx_SetProcessData_def[abs_def] ctd_SetProcessData_def Let_def ctx_putAccount_def[abs_def])
  then show ?thesis
    by (auto simp: slots_chain_def sample_chain_fields sample_app_def sample_chain_env_def)
      (auto simp: keeps_slots_def returnE_def failIf_run split: if_splits)
qed

definition connect_ctx :: chain_ctx where
  "connect_ctx = snd (each_process pr_BeforeExecuteTransactions sample_chain
     (NewContext (st_as_loader sample_env sample_store)))"

definition connect_block :: "u64 block" where
  "connect_block =
     \<lparr>b_Header = \<lparr>bh_ChainID = 1, bh_Version = 1, bh_Height = 1, bh_PrevHash = zeros 32,
        bh_LevelRootHash = projr (BuildLevelRoot [zeros 32]), bh_ContextHash = fst (ctx_Hash (ce_hashers sample_chain_env) connect_ctx),
        bh_Timestamp = 5000000000, bh_Generator = NewAddress 0 1 0, bh_ConsensusData = []\<rparr>,
      b_TransactionTypes = [], b_Transactions = [], b_TransactionSignatures = [], b_Signatures = []\<rparr>"

lemma sample_genesis: "db_GetHash 0 sample_db = Inr (zeros 32)"
proof -
  have "pd_genHash sample_db = zeros 32" by (simp add: sample_db_def db_Init_def split: sum.split)
  then show ?thesis using sample_db_holds by (auto simp: db_holds_def db_GetHash_def)
qed

lemma sample_status:
  "st_LastStatus sample_env sample_store = Inr (0, zeros 32)" "st_LastHash sample_env sample_store = Inr (zeros 32)"
  "st_LastTimestamp sample_env sample_store = Inr 0" "st_Height sample_env sample_store = 0"
proof -
  have h: "st_Height sample_env sample_store = 0"
    by (simp add: st_Height_def sample_store_def sample_env_def map_backend_def om_get_def)
  have "st_Hash 0 sample_store = Inr (zeros 32)"
    using sample_genesis by (simp add: st_Hash_def sample_store_def pile_result_def)
  then show "st_LastStatus sample_env sample_store = Inr (0, zeros 32)" "st_LastHash sample_env sample_store = Inr (zeros 32)"
    "st_LastTimestamp sample_env sample_store = Inr 0" "st_Height sample_env sample_store = 0"
    using h by (simp_all add: st_LastStatus_def st_LastHash_def st_LastTimestamp_def)
qed

lemma connect_header: "validateHeader sample_chain_env (b_Header connect_block) sample_chain = Inr ()"
proof -
  have "NewAddress 0 1 0 \<noteq> zeros AddressSize" by code_simp
  moreover have "cn_store sample_chain = sample_store" "ce_store sample_chain_env = sample_env" "st_chainID sample_store = 1" "st_version sample_store = 1"
    by (simp_all add: sample_chain_def NewChain_def sample_app_def sample_store_def sample_chain_env_def)
  ultimately show ?thesis by (simp add: validateHeader_def sample_status connect_block_def)
qed

lemma connect_executes:
  "executeBlockOnContext sample_chain_env connect_block None sample_chain (NewContext (st_as_loader sample_env sample_store)) =
    (Inr (), connect_ctx)"
proof -
  obtain root where "BuildLevelRoot [zeros 32] = Inr root" by (rule BuildLevelRoot_levels[of "[zeros 32]"]) simp_all
  then have "validateTransactionSignatures sample_chain_env connect_block None sample_chain = Inr ([], [])"
    by (simp add: validateTransactionSignatures_def verify_all_def connect_block_def)
  then show ?thesis
    by (simp add: executeBlockOnContext_def connect_ctx_def each_process_def sample_chain_fields sample_app_def bindE_def liftE_def
        writeE_def returnE_def checkDirty_def ctx_StackSize_def ctx_putAccount_def ctx_setTop_def NewContext_def connect_block_def)
qed

lemma connect_top:
  "ctx_stack connect_ctx = [ctx_Top connect_ctx]" "cd_Events (ctx_Top connect_ctx) = []" "storable sample_env (ctx_Top connect_ctx)"
  by (simp_all add: connect_ctx_def each_process_def sample_chain_fields sample_app_def bindE_def writeE_def returnE_def checkDirty_def
      ctx_StackSize_def ctx_putAccount_def ctx_setTop_def NewContext_def ctx_Top_def NewContextData_def storable_def
      sample_env_def)

lemma connect_stores:
  "fst (StoreBlock sample_env connect_block (ctx_Top connect_ctx) sample_store) = Inr ()"
proof -
  define Datas where "Datas = projr (block_datas sample_env connect_block [])"
  obtain root where root: "BuildLevelRoot [zeros 32] = Inr root" "length root = 32"
    by (rule BuildLevelRoot_levels[of "[zeros 32]"]) (simp_all add: DoubleHash_def)
  have "ctx_isLatestHash connect_ctx = False"
    by (simp add: connect_ctx_def each_process_def sample_chain_fields sample_app_def bindE_def writeE_def returnE_def checkDirty_def
        ctx_StackSize_def ctx_putAccount_def ctx_setTop_def NewContext_def)
  then have len: "length (fst (ctx_Hash (ce_hashers sample_chain_env) connect_ctx)) = 32"
    by (simp add: ctx_Hash_def Hashes_def Let_def)
  have addr: "length (NewAddress 0 1 0) = 14" by code_simp
  have d: "block_datas sample_env connect_block [] = Inr Datas \<and> length Datas = 2 \<and> sum_list (map length Datas) < 1000"
    using root len addr
    by (simp add: Datas_def block_datas_def sample_env_def block_encode_def connect_block_def plain_header_def plain_msgpack_def
        plain_bytes_def encode_seq_def Let_def)
  have "length x \<le> sum_list (map length Datas)" if "x \<in> set Datas" for x using that by (simp add: member_le_sum_list)
  then have "\<forall>x\<in>set Datas. length x < 2 ^ 32" using d by fastforce
  then have "db_fits (\<lambda>d. d) ([] @ [(zeros 32, Datas)])"
    using d by (simp add: db_fits_def pile_entry_ok_def end_offset_def length_entry_bytes)
  moreover have "se_gzip sample_env = (\<lambda>d. d)" "bh_Height (b_Header connect_block) = 1" "se_hashHeader sample_env h = zeros 32"
    "st_cdb sample_store = sample_db" for h
    by (simp_all add: sample_env_def connect_block_def sample_store_def)
  ultimately obtain cdb where "db_AppendData (se_gzip sample_env) (bh_Height (b_Header connect_block))
      (se_hashHeader sample_env (b_Header connect_block)) Datas (st_cdb sample_store) = (Inr (), cdb)"
    using db_AppendData_holds[OF sample_db_holds, of "zeros 32" Datas] by auto
  moreover have "backend_ok (se_backend sample_env) om_get" "\<not> st_isClose sample_store"
    using map_backend_ok by (simp_all add: sample_env_def sample_store_def)
  ultimately have "StoreBlock sample_env connect_block (ctx_Top connect_ctx) sample_store =
      (Inr (), snd (StoreBlock sample_env connect_block (ctx_Top connect_ctx) sample_store))"
    using d connect_top by (intro StoreBlock_runs) auto
  then show ?thesis by (metis fst_conv)
qed

lemma connect_connects: "\<exists>cn'. ConnectBlock sample_chain_env connect_block None sample_chain = (Inr (), cn')"
proof -
  let ?ctx = "NewContext (st_as_loader sample_env sample_store)"
  have cn: "cn_store sample_chain = sample_store" "ce_store sample_chain_env = sample_env" "\<not> cn_isClose sample_chain"
    "ce_csValidateSignature sample_chain_env cs hd sigs = Inr ()" "ce_csOnSaveData sample_chain_env b = returnE ()" for cs hd sigs b
    by (simp_all add: sample_chain_def NewChain_def sample_app_def sample_chain_env_def)
  have new: "cn_NewContext sample_chain_env sample_chain = Inr ?ctx" by (simp add: cn_NewContext_def cn sample_status)
  obtain h a where h: "ctx_Hash (ce_hashers sample_chain_env) connect_ctx = (h, a)" by force
  then have "ctx_stack a = ctx_stack connect_ctx" "bh_ContextHash (b_Header connect_block) = h"
    by (auto simp: ctx_Hash_def Let_def connect_block_def)
  moreover from this have "ctx_Top a = ctx_Top connect_ctx" by (simp add: ctx_Top_def)
  moreover have "length (ctx_stack connect_ctx) = 1" by (subst connect_top(1)) simp
  ultimately have "fst (connectBlockWithContext sample_chain_env connect_block (sample_chain, connect_ctx)) = Inr ()"
    using connect_stores
    by (simp add: connectBlockWithContext_def h on_context_def bindE_def checkDirty_def ctx_StackSize_def each_process_def
        sample_chain_fields sample_app_def returnE_def cn case_prod_unfold)
  then show ?thesis
    by (auto simp: ConnectBlock_def cn new connect_header connect_executes split: prod.split)
qed

theorem connected_blocks_witness:
  "\<exists>cn'. ConnectBlock sample_chain_env connect_block None sample_chain = (Inr (), cn') \<and>
     st_LastStatus sample_env (cn_store cn') = Inr (1, zeros 32) \<and> st_LastTimestamp sample_env (cn_store cn') = Inr 5000000000"
proof -
  obtain cn' where cn': "ConnectBlock sample_chain_env connect_block None sample_chain = (Inr (), cn')" using connect_connects by blast
  have "connected sample_chain_env sample_chain ([] @ [connect_block]) cn'"
    by (rule connected_next[OF connected_none _ cn']) (simp add: provider_ok_def)
  moreover have "0 < ce_NumCPU sample_chain_env" "ce_store sample_chain_env = sample_env" "cn_store sample_chain = sample_store"
    by (simp_all add: sample_chain_env_def sample_chain_def NewChain_def sample_app_def)
  moreover have "se_hashHeader sample_env h = zeros 32" "bh_Height (b_Header connect_block) = 1"
    "bh_Timestamp (b_Header connect_block) = 5000000000" for h
    by (simp_all add: sample_env_def connect_block_def)
  ultimately show ?thesis
    using connected_blocks[of sample_chain_env sample_chain "[connect_block]" cn'] sample_slots cn' sample_status(4) by auto
qed

text \<open>A context over a loader that has seen every transaction.\<close>

definition replay_creator :: "u64 block_creator" where
  "replay_creator = NewBlockCreator (NewContext (emptyLoader\<lparr>ld_HasTimeSlot := \<lambda>_ _. True\<rparr>)) (NewAddress 0 1 0) [] 5000000000"


theorem refused_block_witness:
  "ConnectBlock sample_chain_env (connect_block\<lparr>b_Header := (b_Header connect_block)\<lparr>bh_Timestamp := 0\<rparr>\<rparr>) None sample_chain =
     (Inl (ChainErr ErrInvalidTimestamp), sample_chain)"
proof -
  let ?b = "connect_block\<lparr>b_Header := (b_Header connect_block)\<lparr>bh_Timestamp := 0\<rparr>\<rparr>"
  have cn: "cn_store sample_chain = sample_store" "ce_store sample_chain_env = sample_env" "st_chainID sample_store = 1" "st_version sample_store = 1"
    "\<not> cn_isClose sample_chain"
    by (simp_all add: sample_chain_def NewChain_def sample_app_def sample_store_def sample_chain_env_def)
  then have v: "validateHeader sample_chain_env (b_Header ?b) sample_chain = Inl (ChainErr ErrInvalidTimestamp)"
    by (simp add: validateHeader_def sample_status connect_block_def)
  then obtain cn' where c: "ConnectBlock sample_chain_env ?b None sample_chain = (Inl (ChainErr ErrInvalidTimestamp), cn')"
    using cn by (simp add: ConnectBlock_def)
  from refused_block[OF this] v have "cn' = sample_chain" by auto
  then show ?thesis using c by simp
qed

end
