(* ===== verification/Gateway.thy ===== *)
theory Gateway
  imports Vault_Laws
begin

text \<open>
  \<^verbatim>\<open>process/gateway\<close>: coins that enter from and leave to an ERC20 token contract. The administrator of the
  process reports transfers of the token; every report is processed once, which the process data records.
  The msgpack codec of the policy is a parameter.
\<close>

section \<open>ERC20 addresses\<close>

type_synonym erc20_address = bytes

definition ERC20AddressSize :: nat where
  "ERC20AddressSize = 20"

definition ERC20Address_String :: "erc20_address \<Rightarrow> string" where
  "ERC20Address_String addr = ''0x'' @ HexEncode addr"

definition ParseERC20Address :: "string \<Rightarrow> err + erc20_address" where
  "ParseERC20Address str =
     (if take 2 str \<noteq> ''0x'' then Inl (GatewayErr ErrInvalidERC20AddressFormat)
      else if length str \<noteq> ERC20AddressSize * 2 + 2 then Inl (GatewayErr ErrInvalidERC20AddressFormat)
      else case HexDecode (drop 2 str) of
             None \<Rightarrow> Inl (ExternalErr 16)
           | Some bs \<Rightarrow>
               if length bs \<noteq> ERC20AddressSize then Inl (GatewayErr ErrInvalidERC20AddressFormat)
               else Inr (go_copy (zeros ERC20AddressSize) bs))"

definition MustParseERC20Address :: "string \<Rightarrow> err + erc20_address" where
  "MustParseERC20Address str = (case ParseERC20Address str of Inl e \<Rightarrow> Inl Panic | Inr addr \<Rightarrow> Inr addr)"

definition ERC20Address_MarshalJSON :: "erc20_address \<Rightarrow> string" where
  "ERC20Address_MarshalJSON addr = MarshalQuoted (ERC20Address_String addr)"

definition ERC20Address_UnmarshalJSON :: "string \<Rightarrow> err + erc20_address" where
  "ERC20Address_UnmarshalJSON bs = UnmarshalQuoted (GatewayErr ErrInvalidERC20AddressFormat) ParseERC20Address bs"

section \<open>The process\<close>

record gateway =
  gw_pid :: u8
  gw_vault :: vault
  gw_admin :: admin

record gateway_policy =
  gp_WithdrawFee :: amount

type_synonym gateway_codec = "(gateway_policy option \<Rightarrow> err + bytes) \<times> (bytes \<Rightarrow> err + gateway_policy)"

definition gateway_Name :: string where
  "gateway_Name = ''fleta.gateway''"

definition tagERC20TXID :: bytes where
  "tagERC20TXID = [1, 0]"

definition tagOutTXID :: bytes where
  "tagOutTXID = [1, 1]"

definition tagPolicy_gw :: bytes where
  "tagPolicy_gw = [2, 0]"

definition toERC20TXIDKey :: "hash256 \<Rightarrow> bytes" where
  "toERC20TXIDKey h = copy_at 2 (go_copy (zeros (2 + Hash256Size)) tagERC20TXID) h"

definition toOutTXIDKey :: "string \<Rightarrow> bytes" where
  "toOutTXIDKey TXID = copy_at 2 (go_copy (zeros (2 + length TXID)) tagOutTXID) (str_bytes TXID)"

definition HasERC20TXID :: "gateway \<Rightarrow> hash256 \<Rightarrow> chain_ctx \<Rightarrow> bool \<times> chain_ctx" where
  "HasERC20TXID p ERC20TXID ctx =
     (case ctx_ProcessData (gw_pid p) (toERC20TXIDKey ERC20TXID) ctx of (bs, ctx) \<Rightarrow> (0 < length bs, ctx))"

definition setERC20TXID :: "gateway \<Rightarrow> hash256 \<Rightarrow> (chain_ctx, unit) go_meth" where
  "setERC20TXID p ERC20TXID = writeE (ctx_SetProcessData (gw_pid p) (toERC20TXIDKey ERC20TXID) [1])"

definition HasOutTXID :: "gateway \<Rightarrow> string \<Rightarrow> chain_ctx \<Rightarrow> bool \<times> chain_ctx" where
  "HasOutTXID p CoinTXID ctx =
     (case ctx_ProcessData (gw_pid p) (toOutTXIDKey CoinTXID) ctx of (bs, ctx) \<Rightarrow> (0 < length bs, ctx))"

definition setOutTXID :: "gateway \<Rightarrow> string \<Rightarrow> (chain_ctx, unit) go_meth" where
  "setOutTXID p CoinTXID = writeE (ctx_SetProcessData (gw_pid p) (toOutTXIDKey CoinTXID) [1])"

definition writePolicy_gw :: "gateway_codec \<Rightarrow> gateway \<Rightarrow> gateway_policy option \<Rightarrow> (chain_ctx, unit) go_meth" where
  "writePolicy_gw C p policy =
     bindE (liftE (fst C policy)) (\<lambda>bs. writeE (ctx_SetProcessData (gw_pid p) tagPolicy_gw bs))"

definition gateway_InitPolicy :: "gateway_codec \<Rightarrow> gateway \<Rightarrow> gateway_policy option \<Rightarrow> (chain_ctx, unit) go_meth" where
  "gateway_InitPolicy C p policy = writePolicy_gw C p policy"

definition gateway_OnLoadChain :: "gateway \<Rightarrow> (chain_ctx, unit) go_meth" where
  "gateway_OnLoadChain p =
     bindE (AdminAddress (gw_admin p) gateway_Name) (\<lambda>_.
       bindE (readE (ctx_ProcessData (gw_pid p) tagPolicy_gw)) (\<lambda>bs.
         failIf (length bs = 0) (GatewayErr ErrPolicyShouldBeSetupInApplication_gw)))"

definition readPolicy_gw :: "gateway_codec \<Rightarrow> gateway \<Rightarrow> (chain_ctx, gateway_policy) go_meth" where
  "readPolicy_gw C p = bindE (readE (ctx_ProcessData (gw_pid p) tagPolicy_gw)) (\<lambda>bs. liftE (snd C bs))"

section \<open>Transactions\<close>

record token_in =
  ti_Timestamp :: u64
  ti_From :: address
  ti_ERC20TXID :: hash256
  ti_ERC20From :: erc20_address
  ti_ToAddresses :: "address list"
  ti_Amounts :: "amount list"

definition TokenIn_Validate :: "gateway \<Rightarrow> token_in \<Rightarrow> pubhash list \<Rightarrow> (chain_ctx, unit) go_meth" where
  "TokenIn_Validate p tx signers =
     thenE (checkAdmin (gw_admin p) gateway_Name (ti_From tx))
     (thenE (failIf (length (ti_Amounts tx) \<noteq> length (ti_ToAddresses tx)) (GatewayErr ErrInvalidAddressCount))
     (thenE (foreachE checkDust (ti_Amounts tx))
     (bindE (readE (HasERC20TXID p (ti_ERC20TXID tx))) (\<lambda>has.
       thenE (failIf has (GatewayErr ErrProcessedERC20TXID))
       (thenE (foreachE checkAccountExists (ti_ToAddresses tx))
         (validateFrom (ti_From tx) signers))))))"

text \<open>\<^verbatim>\<open>for i, am := range tx.Amounts\<close>: a missing address is an index out of range.\<close>

fun payTokens :: "vault \<Rightarrow> address \<Rightarrow> address list \<Rightarrow> amount list \<Rightarrow> (chain_ctx, unit) go_meth" where
  "payTokens v From tos [] = returnE ()"
| "payTokens v From tos (am # ams) =
     thenE (SubBalance v From am)
       (case tos of [] \<Rightarrow> throwE Panic | To # tos \<Rightarrow> thenE (AddBalance v To am) (payTokens v From tos ams))"

definition TokenIn_Execute :: "gateway \<Rightarrow> token_in \<Rightarrow> u16 \<Rightarrow> (chain_ctx, unit) go_meth" where
  "TokenIn_Execute p tx index =
     thenE (payTokens (gw_vault p) (ti_From tx) (ti_ToAddresses tx) (ti_Amounts tx)) (setERC20TXID p (ti_ERC20TXID tx))"

record token_out =
  to_Timestamp :: u64
  to_From :: address
  to_ERC20To :: erc20_address
  to_Amount :: amount

definition TokenOut_Validate :: "gateway_codec \<Rightarrow> gateway \<Rightarrow> token_out \<Rightarrow> pubhash list \<Rightarrow> (chain_ctx, unit) go_meth" where
  "TokenOut_Validate C p tx signers =
     thenE (checkDust (to_Amount tx))
     (bindE (AdminAddress (gw_admin p) gateway_Name) (\<lambda>AdminAddr.
       thenE (checkAccountExists AdminAddr)
       (thenE (validateFrom (to_From tx) signers)
       (bindE (readPolicy_gw C p) (\<lambda>policy.
         CheckFeePayableWith (gw_vault p) (to_From tx) (GetDefaultFee (gw_vault p))
           (Some (am_Add (to_Amount tx) (gp_WithdrawFee policy))))))))"

definition TokenOut_Execute :: "gateway_codec \<Rightarrow> gateway \<Rightarrow> token_out \<Rightarrow> u16 \<Rightarrow> (chain_ctx, unit) go_meth" where
  "TokenOut_Execute C p tx index =
     WithFee (gw_vault p) (to_From tx) (GetDefaultFee (gw_vault p))
       (bindE (readPolicy_gw C p) (\<lambda>policy.
         thenE (SubBalance (gw_vault p) (to_From tx) (gp_WithdrawFee policy))
         (thenE (SubBalance (gw_vault p) (to_From tx) (to_Amount tx))
         (bindE (AdminAddress (gw_admin p) gateway_Name) (\<lambda>AdminAddr.
           thenE (AddBalance (gw_vault p) AdminAddr (gp_WithdrawFee policy))
             (AddBalance (gw_vault p) AdminAddr (to_Amount tx)))))))"

record token_leave =
  tl_Timestamp :: u64
  tl_From :: address
  tl_CoinTXID :: string
  tl_CoinFrom :: address
  tl_ERC20TXID :: hash256
  tl_ERC20To :: erc20_address
  tl_Amount :: amount

definition TokenLeave_Validate :: "gateway \<Rightarrow> token_leave \<Rightarrow> pubhash list \<Rightarrow> (chain_ctx, unit) go_meth" where
  "TokenLeave_Validate p tx signers =
     thenE (checkAdmin (gw_admin p) gateway_Name (tl_From tx))
     (thenE (checkDust (tl_Amount tx))
     (thenE (bindE (liftE (ParseTransactionID (tl_CoinTXID tx))) (\<lambda>_. returnE ()))
     (bindE (readE (HasOutTXID p (tl_CoinTXID tx))) (\<lambda>has.
       thenE (failIf has (GatewayErr ErrProcessedOutTXID)) (validateFrom (tl_From tx) signers)))))"

definition TokenLeave_Execute :: "gateway \<Rightarrow> token_leave \<Rightarrow> u16 \<Rightarrow> (chain_ctx, unit) go_meth" where
  "TokenLeave_Execute p tx index = setOutTXID p (tl_CoinTXID tx)"

record gateway_update_policy =
  gup_Timestamp :: u64
  gup_From :: address
  gup_Policy :: "gateway_policy option"

definition UpdatePolicy_gw_Validate :: "gateway \<Rightarrow> gateway_update_policy \<Rightarrow> pubhash list \<Rightarrow> (chain_ctx, unit) go_meth" where
  "UpdatePolicy_gw_Validate p tx signers =
     thenE (checkAdmin (gw_admin p) gateway_Name (gup_From tx))
     (thenE (failIf (gup_Policy tx = None) (GatewayErr ErrInvalidPolicy_gw)) (validateFrom (gup_From tx) signers))"

definition UpdatePolicy_gw_Execute :: "gateway_codec \<Rightarrow> gateway \<Rightarrow> gateway_update_policy \<Rightarrow> u16 \<Rightarrow> (chain_ctx, unit) go_meth" where
  "UpdatePolicy_gw_Execute C p tx index = writePolicy_gw C p (gup_Policy tx)"

end
