(* ===== verification/Payment.thy ===== *)
theory Payment
  imports Vault_Laws
begin

text \<open>
  \<^verbatim>\<open>process/payment\<close>: topics, payments the administrator requests and a user accepts or declines, and
  subscriptions the administrator may bill. The msgpack codec of a stored request is a parameter.
\<close>

section \<open>Keys\<close>

record payment =
  pm_pid :: u8
  pm_vault :: vault
  pm_admin :: admin

definition payment_Name :: string where
  "payment_Name = ''fleta.payment''"

definition Topic :: "string \<Rightarrow> u64" where
  "Topic Name = the (LE_Uint64 (Hash (str_bytes (''fleta.payment#Topic#'' @ Name))))"

definition tagRequestPayment :: bytes where
  "tagRequestPayment = [1, 0]"

definition tagTopic :: bytes where
  "tagTopic = [2, 0]"

definition toRequestPaymentKey :: "string \<Rightarrow> bytes" where
  "toRequestPaymentKey TXID = copy_at 2 (go_copy (zeros (2 + length TXID)) tagRequestPayment) (str_bytes TXID)"

definition toTopicKey :: "u64 \<Rightarrow> bytes" where
  "toTopicKey topic = copy_at 2 (go_copy (zeros 10) tagTopic) (BE_Uint64ToBytes topic)"

section \<open>Requests\<close>

record request_payment =
  rq_Timestamp :: u64
  rq_From :: address
  rq_Topic :: u64
  rq_To :: address
  rq_Amount :: amount
  rq_Content :: string

type_synonym request_codec = "(request_payment \<Rightarrow> err + bytes) \<times> (bytes \<Rightarrow> err + request_payment)"

definition getRequestPayment :: "request_codec \<Rightarrow> payment \<Rightarrow> string \<Rightarrow> (chain_ctx, request_payment) go_meth" where
  "getRequestPayment C p TXID =
     bindE (readE (ctx_ProcessData (pm_pid p) (toRequestPaymentKey TXID))) (\<lambda>bs.
       if 0 < length bs then liftE (snd C bs) else throwE (PaymentErr ErrNotExistRequestPayment))"

definition addRequestPayment :: "request_codec \<Rightarrow> payment \<Rightarrow> string \<Rightarrow> request_payment \<Rightarrow> (chain_ctx, unit) go_meth" where
  "addRequestPayment C p TXID tx =
     bindE (liftE (fst C tx)) (\<lambda>body. writeE (ctx_SetProcessData (pm_pid p) (toRequestPaymentKey TXID) body))"

definition removeRequestPayment :: "payment \<Rightarrow> string \<Rightarrow> (chain_ctx, unit) go_meth" where
  "removeRequestPayment p TXID = writeE (ctx_SetProcessData (pm_pid p) (toRequestPaymentKey TXID) [])"

section \<open>Topics and subscriptions\<close>

definition GetTopicName :: "payment \<Rightarrow> u64 \<Rightarrow> (chain_ctx, string) go_meth" where
  "GetTopicName p topic =
     bindE (readE (ctx_ProcessData (pm_pid p) (toTopicKey topic))) (\<lambda>bs.
       if 0 < length bs then returnE (bytes_str bs) else throwE (PaymentErr ErrNotExistTopic))"

definition addTopic :: "payment \<Rightarrow> u64 \<Rightarrow> string \<Rightarrow> (chain_ctx, unit) go_meth" where
  "addTopic p topic Name =
     bindE (readE (ctx_ProcessData (pm_pid p) (toTopicKey topic))) (\<lambda>bs.
       thenE (failIf (0 < length bs) (PaymentErr ErrExistTopic))
         (writeE (ctx_SetProcessData (pm_pid p) (toTopicKey topic) (str_bytes Name))))"

definition removeTopic :: "payment \<Rightarrow> u64 \<Rightarrow> (chain_ctx, unit) go_meth" where
  "removeTopic p topic = writeE (ctx_SetProcessData (pm_pid p) (toTopicKey topic) [])"

definition getSubscribe :: "payment \<Rightarrow> u64 \<Rightarrow> address \<Rightarrow> (chain_ctx, amount) go_meth" where
  "getSubscribe p topic addr =
     bindE (readE (ctx_AccountData addr (pm_pid p) (toTopicKey topic))) (\<lambda>bs.
       if 0 < length bs then returnE (NewAmountFromBytes bs) else throwE (PaymentErr ErrNotExistSubscribe))"

definition addSubscribe :: "payment \<Rightarrow> u64 \<Rightarrow> address \<Rightarrow> amount \<Rightarrow> (chain_ctx, unit) go_meth" where
  "addSubscribe p topic addr am =
     bindE (readE (ctx_AccountData addr (pm_pid p) (toTopicKey topic))) (\<lambda>bs.
       thenE (failIf (0 < length bs) (PaymentErr ErrExistSubscribe))
         (writeE (ctx_SetAccountData addr (pm_pid p) (toTopicKey topic) (am_Bytes am))))"

definition removeSubscribe :: "payment \<Rightarrow> u64 \<Rightarrow> address \<Rightarrow> (chain_ctx, unit) go_meth" where
  "removeSubscribe p topic addr = writeE (ctx_SetAccountData addr (pm_pid p) (toTopicKey topic) [])"

section \<open>The process\<close>

definition InitTopics :: "payment \<Rightarrow> string list \<Rightarrow> (chain_ctx, unit) go_meth" where
  "InitTopics p TopicNames = foreachE (\<lambda>name. addTopic p (Topic name) name) TopicNames"

definition payment_OnLoadChain :: "payment \<Rightarrow> (chain_ctx, unit) go_meth" where
  "payment_OnLoadChain p = bindE (AdminAddress (pm_admin p) payment_Name) (\<lambda>_. returnE ())"

section \<open>Transactions on topics\<close>

record add_topic =
  at_Timestamp :: u64
  at_From :: address
  at_Topic :: u64
  at_TopicName :: string

definition AddTopic_Validate :: "payment \<Rightarrow> add_topic \<Rightarrow> pubhash list \<Rightarrow> (chain_ctx, unit) go_meth" where
  "AddTopic_Validate p tx signers =
     thenE (checkAdmin (pm_admin p) payment_Name (at_From tx))
     (thenE (failIf (at_Topic tx \<noteq> Topic (at_TopicName tx)) (PaymentErr ErrInvalidTopicName))
       (validateFrom (at_From tx) signers))"

text \<open>The error of \<^verbatim>\<open>addTopic\<close> is dropped.\<close>

definition AddTopic_Execute :: "payment \<Rightarrow> add_topic \<Rightarrow> u16 \<Rightarrow> (chain_ctx, unit) go_meth" where
  "AddTopic_Execute p tx index ctx = (Inr (), snd (addTopic p (at_Topic tx) (at_TopicName tx) ctx))"

record remove_topic =
  rt_Timestamp :: u64
  rt_From :: address
  rt_Topic :: u64
  rt_TopicName :: string

definition RemoveTopic_Validate :: "payment \<Rightarrow> remove_topic \<Rightarrow> pubhash list \<Rightarrow> (chain_ctx, unit) go_meth" where
  "RemoveTopic_Validate p tx signers =
     thenE (checkAdmin (pm_admin p) payment_Name (rt_From tx))
     (thenE (failIf (rt_Topic tx \<noteq> Topic (rt_TopicName tx)) (PaymentErr ErrInvalidTopicName))
       (validateFrom (rt_From tx) signers))"

definition RemoveTopic_Execute :: "payment \<Rightarrow> remove_topic \<Rightarrow> u16 \<Rightarrow> (chain_ctx, unit) go_meth" where
  "RemoveTopic_Execute p tx index = removeTopic p (rt_Topic tx)"

definition checkTopic :: "payment \<Rightarrow> u64 \<Rightarrow> (chain_ctx, unit) go_meth" where
  "checkTopic p topic = bindE (GetTopicName p topic) (\<lambda>_. returnE ())"

section \<open>Requested payments\<close>

definition RequestPayment_Validate :: "payment \<Rightarrow> request_payment \<Rightarrow> pubhash list \<Rightarrow> (chain_ctx, unit) go_meth" where
  "RequestPayment_Validate p tx signers =
     thenE (checkAdmin (pm_admin p) payment_Name (rq_From tx))
     (thenE (checkDust (rq_Amount tx))
     (thenE (failIf (255 < length (rq_Content tx)) (PaymentErr ErrExceedContentSize))
     (thenE (checkTopic p (rq_Topic tx))
     (thenE (checkAccountExists (rq_To tx))
       (validateFrom (rq_From tx) signers)))))"

definition RequestPayment_Execute :: "request_codec \<Rightarrow> payment \<Rightarrow> request_payment \<Rightarrow> u16 \<Rightarrow> (chain_ctx, unit) go_meth" where
  "RequestPayment_Execute C p tx index ctx =
     addRequestPayment C p (TransactionID (ctx_TargetHeight ctx) index) tx ctx"

record response_payment =
  rs_Timestamp :: u64
  rs_From :: address
  rs_TXID :: string
  rs_Amount :: amount
  rs_IsAccept :: bool

definition ResponsePayment_Validate :: "request_codec \<Rightarrow> payment \<Rightarrow> response_payment \<Rightarrow> pubhash list \<Rightarrow> (chain_ctx, unit) go_meth" where
  "ResponsePayment_Validate C p tx signers =
     thenE (checkDust (rs_Amount tx))
     (bindE (AdminAddress (pm_admin p) payment_Name) (\<lambda>adminAddr.
      bindE (getRequestPayment C p (rs_TXID tx)) (\<lambda>req.
        thenE (failIf (rq_From req \<noteq> adminAddr) (AdminErr ErrUnauthorizedTransaction))
        (thenE (failIf (rq_To req \<noteq> rs_From tx) (PaymentErr ErrInvalidRequestPayment))
        (thenE (failIf (\<not> am_Equal (rq_Amount req) (rs_Amount tx)) (PaymentErr ErrInvalidPaymentAmount))
        (thenE (checkTopic p (rq_Topic req))
        (thenE (checkAccountExists adminAddr)
        (thenE (validateFrom (rs_From tx) signers)
          (if rs_IsAccept tx
           then bindE (readE (Balance (pm_vault p) (rs_From tx))) (\<lambda>b.
                  failIf (am_Less b (rs_Amount tx)) (VaultErr ErrInsufficientBalance))
           else returnE ())))))))))"

text \<open>Move the amount from an account to the administrator of the process.\<close>

definition payAdmin :: "payment \<Rightarrow> address \<Rightarrow> amount \<Rightarrow> (chain_ctx, unit) go_meth" where
  "payAdmin p From am =
     thenE (SubBalance (pm_vault p) From am)
       (bindE (AdminAddress (pm_admin p) payment_Name) (\<lambda>adminAddr. AddBalance (pm_vault p) adminAddr am))"

definition ResponsePayment_Execute :: "payment \<Rightarrow> response_payment \<Rightarrow> u16 \<Rightarrow> (chain_ctx, unit) go_meth" where
  "ResponsePayment_Execute p tx index =
     thenE (if rs_IsAccept tx then payAdmin p (rs_From tx) (rs_Amount tx) else returnE ())
       (removeRequestPayment p (rs_TXID tx))"

section \<open>Subscriptions\<close>

text \<open>The first signer must be the administrator, the others the subscriber.\<close>

definition validateBoth :: "payment \<Rightarrow> address \<Rightarrow> pubhash list \<Rightarrow> (chain_ctx, unit) go_meth" where
  "validateBoth p From signers =
     thenE (failIf (length signers \<le> 1) (AdminErr ErrUnauthorizedTransaction))
     (bindE (AdminAddress (pm_admin p) payment_Name) (\<lambda>adminAddr.
       thenE (validateFrom adminAddr (take 1 signers)) (validateFrom From (drop 1 signers))))"

record subscribe =
  su_Timestamp :: u64
  su_From :: address
  su_Topic :: u64
  su_Amount :: amount

definition Subscribe_Validate :: "payment \<Rightarrow> subscribe \<Rightarrow> pubhash list \<Rightarrow> (chain_ctx, unit) go_meth" where
  "Subscribe_Validate p tx signers =
     thenE (if \<not> am_IsZero (su_Amount tx) then checkDust (su_Amount tx) else returnE ())
     (thenE (checkTopic p (su_Topic tx)) (validateBoth p (su_From tx) signers))"

definition Subscribe_Execute :: "payment \<Rightarrow> subscribe \<Rightarrow> u16 \<Rightarrow> (chain_ctx, unit) go_meth" where
  "Subscribe_Execute p tx index = addSubscribe p (su_Topic tx) (su_From tx) (su_Amount tx)"

record unsubscribe =
  un_Timestamp :: u64
  un_From :: address
  un_Topic :: u64

definition Unsubscribe_Validate :: "payment \<Rightarrow> unsubscribe \<Rightarrow> pubhash list \<Rightarrow> (chain_ctx, unit) go_meth" where
  "Unsubscribe_Validate p tx signers = validateBoth p (un_From tx) signers"

definition Unsubscribe_Execute :: "payment \<Rightarrow> unsubscribe \<Rightarrow> u16 \<Rightarrow> (chain_ctx, unit) go_meth" where
  "Unsubscribe_Execute p tx index = removeSubscribe p (un_Topic tx) (un_From tx)"

record billing =
  bl_Timestamp :: u64
  bl_From :: address
  bl_Topic :: u64
  bl_To :: address
  bl_Amount :: amount
  bl_Content :: string

definition Billing_Validate :: "payment \<Rightarrow> billing \<Rightarrow> pubhash list \<Rightarrow> (chain_ctx, unit) go_meth" where
  "Billing_Validate p tx signers =
     thenE (checkAdmin (pm_admin p) payment_Name (bl_From tx))
     (thenE (failIf (255 < length (bl_Content tx)) (PaymentErr ErrExceedContentSize))
     (thenE (checkTopic p (bl_Topic tx))
     (thenE (checkAccountExists (bl_To tx))
     (bindE (getSubscribe p (bl_Topic tx) (bl_To tx)) (\<lambda>am.
       thenE (failIf (\<not> am_IsZero am \<and> am_Less am (bl_Amount tx)) (PaymentErr ErrInvalidBillingAmount))
         (validateFrom (bl_From tx) signers))))))"

definition Billing_Execute :: "payment \<Rightarrow> billing \<Rightarrow> u16 \<Rightarrow> (chain_ctx, unit) go_meth" where
  "Billing_Execute p tx index = payAdmin p (bl_To tx) (bl_Amount tx)"

end
