(* ===== verification/System_Chain.thy ===== *)
theory System_Chain
  imports Creator_Laws Gateway Payment
begin

text \<open>
  A chain with the processes \<^verbatim>\<open>admin\<close>, \<^verbatim>\<open>vault\<close>, \<^verbatim>\<open>gateway\<close> and \<^verbatim>\<open>payment\<close>: its transactions are those the processes
  register in their \<^verbatim>\<open>Init\<close> methods, and of its hooks only the one with which the vault unlocks balances does anything. All
  of them obey the laws of \<open>Replay\<close>, so what the block creator of such a chain computes is what every node computes.
\<close>

section \<open>The transactions\<close>

text \<open>\<^verbatim>\<open>UpdateDefaultFee\<close> of the vault is not among them: no process registers it.\<close>

datatype system_tx =
    Tx_Transfer transfer | Tx_Burn burn | Tx_TransferWithTag transfer_with_tag
  | Tx_CreateAccount create_account | Tx_CreateMultiAccount create_multi_account
  | Tx_IssueAccount issue_account | Tx_UpdatePolicy update_policy
  | Tx_TokenIn token_in | Tx_TokenOut token_out | Tx_TokenLeave token_leave | Tx_UpdatePolicy_gw gateway_update_policy
  | Tx_AddTopic add_topic | Tx_RemoveTopic remove_topic | Tx_RequestPayment request_payment
  | Tx_ResponsePayment response_payment | Tx_Subscribe subscribe | Tx_Unsubscribe unsubscribe | Tx_Billing billing

text \<open>The processes and the codecs of their policies and requests.\<close>

record system =
  sy_vault :: vault
  sy_gateway :: gateway
  sy_payment :: payment
  sy_base58 :: "string \<Rightarrow> bytes option"
  sy_encPolicy :: "vault_policy option \<Rightarrow> err + bytes"
  sy_decPolicy :: "bytes \<Rightarrow> err + vault_policy"
  sy_gatewayCodec :: gateway_codec
  sy_requestCodec :: request_codec

fun system_Validate :: "system \<Rightarrow> system_tx \<Rightarrow> pubhash list \<Rightarrow> (chain_ctx, unit) go_meth" where
  "system_Validate S (Tx_Transfer tx) signers = Transfer_Validate (sy_vault S) tx signers"
| "system_Validate S (Tx_Burn tx) signers = Burn_Validate (sy_vault S) tx signers"
| "system_Validate S (Tx_TransferWithTag tx) signers = TransferWithTag_Validate (sy_vault S) tx signers"
| "system_Validate S (Tx_CreateAccount tx) signers = CreateAccount_Validate (sy_decPolicy S) (sy_base58 S) (sy_vault S) tx signers"
| "system_Validate S (Tx_CreateMultiAccount tx) signers = CreateMultiAccount_Validate (sy_base58 S) (sy_vault S) tx signers"
| "system_Validate S (Tx_IssueAccount tx) signers = IssueAccount_Validate (sy_vault S) tx signers"
| "system_Validate S (Tx_UpdatePolicy tx) signers = UpdatePolicy_Validate (sy_vault S) tx signers"
| "system_Validate S (Tx_TokenIn tx) signers = TokenIn_Validate (sy_gateway S) tx signers"
| "system_Validate S (Tx_TokenOut tx) signers = TokenOut_Validate (sy_gatewayCodec S) (sy_gateway S) tx signers"
| "system_Validate S (Tx_TokenLeave tx) signers = TokenLeave_Validate (sy_gateway S) tx signers"
| "system_Validate S (Tx_UpdatePolicy_gw tx) signers = UpdatePolicy_gw_Validate (sy_gateway S) tx signers"
| "system_Validate S (Tx_AddTopic tx) signers = AddTopic_Validate (sy_payment S) tx signers"
| "system_Validate S (Tx_RemoveTopic tx) signers = RemoveTopic_Validate (sy_payment S) tx signers"
| "system_Validate S (Tx_RequestPayment tx) signers = RequestPayment_Validate (sy_payment S) tx signers"
| "system_Validate S (Tx_ResponsePayment tx) signers = ResponsePayment_Validate (sy_requestCodec S) (sy_payment S) tx signers"
| "system_Validate S (Tx_Subscribe tx) signers = Subscribe_Validate (sy_payment S) tx signers"
| "system_Validate S (Tx_Unsubscribe tx) signers = Unsubscribe_Validate (sy_payment S) tx signers"
| "system_Validate S (Tx_Billing tx) signers = Billing_Validate (sy_payment S) tx signers"

fun system_Execute :: "system \<Rightarrow> system_tx \<Rightarrow> u16 \<Rightarrow> (chain_ctx, unit) go_meth" where
  "system_Execute S (Tx_Transfer tx) i = Transfer_Execute (sy_vault S) tx i"
| "system_Execute S (Tx_Burn tx) i = Burn_Execute (sy_vault S) tx i"
| "system_Execute S (Tx_TransferWithTag tx) i = TransferWithTag_Execute (sy_vault S) tx i"
| "system_Execute S (Tx_CreateAccount tx) i = CreateAccount_Execute (sy_decPolicy S) (sy_base58 S) (sy_vault S) tx i"
| "system_Execute S (Tx_CreateMultiAccount tx) i = CreateMultiAccount_Execute (sy_base58 S) (sy_vault S) tx i"
| "system_Execute S (Tx_IssueAccount tx) i = IssueAccount_Execute (sy_base58 S) (sy_vault S) tx i"
| "system_Execute S (Tx_UpdatePolicy tx) i = UpdatePolicy_Execute (sy_encPolicy S) (sy_vault S) tx i"
| "system_Execute S (Tx_TokenIn tx) i = TokenIn_Execute (sy_gateway S) tx i"
| "system_Execute S (Tx_TokenOut tx) i = TokenOut_Execute (sy_gatewayCodec S) (sy_gateway S) tx i"
| "system_Execute S (Tx_TokenLeave tx) i = TokenLeave_Execute (sy_gateway S) tx i"
| "system_Execute S (Tx_UpdatePolicy_gw tx) i = UpdatePolicy_gw_Execute (sy_gatewayCodec S) (sy_gateway S) tx i"
| "system_Execute S (Tx_AddTopic tx) i = AddTopic_Execute (sy_payment S) tx i"
| "system_Execute S (Tx_RemoveTopic tx) i = RemoveTopic_Execute (sy_payment S) tx i"
| "system_Execute S (Tx_RequestPayment tx) i = RequestPayment_Execute (sy_requestCodec S) (sy_payment S) tx i"
| "system_Execute S (Tx_ResponsePayment tx) i = ResponsePayment_Execute (sy_payment S) tx i"
| "system_Execute S (Tx_Subscribe tx) i = Subscribe_Execute (sy_payment S) tx i"
| "system_Execute S (Tx_Unsubscribe tx) i = Unsubscribe_Execute (sy_payment S) tx i"
| "system_Execute S (Tx_Billing tx) i = Billing_Execute (sy_payment S) tx i"

text \<open>An address is an array of 14 bytes in Go.\<close>

fun tx_typed :: "system_tx \<Rightarrow> bool" where
  "tx_typed (Tx_Transfer tx) = (is_address (tf_From tx) \<and> is_address (tf_To tx))"
| "tx_typed (Tx_Burn tx) = is_address (bu_From tx)"
| "tx_typed (Tx_TransferWithTag tx) = (is_address (tt_From tx) \<and> is_address (tt_To tx))"
| "tx_typed (Tx_CreateAccount tx) = is_address (ca_From tx)"
| "tx_typed (Tx_CreateMultiAccount tx) = is_address (cm_From tx)"
| "tx_typed (Tx_TokenIn tx) = (is_address (ti_From tx) \<and> (\<forall>a\<in>set (ti_ToAddresses tx). is_address a))"
| "tx_typed (Tx_TokenOut tx) = is_address (to_From tx)"
| "tx_typed (Tx_ResponsePayment tx) = is_address (rs_From tx)"
| "tx_typed (Tx_Subscribe tx) = is_address (su_From tx)"
| "tx_typed (Tx_Unsubscribe tx) = is_address (un_From tx)"
| "tx_typed (Tx_Billing tx) = is_address (bl_To tx)"
| "tx_typed tx = True"

section \<open>The laws\<close>

lemma AdminAddress_yields: "yields is_address (AdminAddress p name)"
  by (auto simp: yields_def AdminAddress_def is_address_def split: prod.splits if_splits)

lemma lawful_AdminAddress_bind [lawful_intros]:
  "(\<And>a. is_address a \<Longrightarrow> lawful (k a)) \<Longrightarrow> lawful (bindE (AdminAddress p name) k)"
  by (rule lawful_bindE_yields[OF lawful_admin(1) AdminAddress_yields])

lemma lawful_ids [lawful_intros]:
  "lawful (readE (HasERC20TXID p h))" "lawful (readE (HasOutTXID p t))" "lawful (setERC20TXID p h)" "lawful (setOutTXID p t)"
  "lawful (writePolicy_gw C p policy)" "lawful (readPolicy_gw C p)"
  unfolding HasERC20TXID_def[abs_def] HasOutTXID_def[abs_def] setERC20TXID_def setOutTXID_def writePolicy_gw_def readPolicy_gw_def
  by (intro lawful_intros)+

lemma lawful_payTokens:
  "is_address From \<Longrightarrow> \<forall>a\<in>set tos. is_address a \<Longrightarrow> lawful (payTokens v From tos ams)"
proof (induction v From tos ams rule: payTokens.induct)
  case (2 v From tos am ams)
  then show ?case by (cases tos) (auto intro!: lawful_intros)
qed (auto intro: lawful_intros)

lemma lawful_drop: "lawful m \<Longrightarrow> lawful (\<lambda>ctx. (Inr (), snd (m ctx)))"
  by (auto simp: lawful_def)

lemma lawful_topics [lawful_intros]:
  "lawful (GetTopicName p t)" "lawful (addTopic p t n)" "lawful (removeTopic p t)" "lawful (checkTopic p t)"
  "lawful (getRequestPayment rc p x)" "lawful (addRequestPayment rc p x rq)" "lawful (removeRequestPayment p x)"
  unfolding GetTopicName_def addTopic_def removeTopic_def checkTopic_def getRequestPayment_def addRequestPayment_def
    removeRequestPayment_def
  by (intro lawful_intros)+

lemma lawful_subscriptions [lawful_intros]:
  assumes "is_address a"
  shows "lawful (getSubscribe p t a)" "lawful (addSubscribe p t a am)" "lawful (removeSubscribe p t a)" "lawful (payAdmin p a am)"
  unfolding getSubscribe_def addSubscribe_def removeSubscribe_def payAdmin_def
  by (intro lawful_intros assms; assumption)+

lemma lawful_validateBoth [lawful_intros]: "lawful (validateBoth p a signers)"
  unfolding validateBoth_def by (intro lawful_intros)

lemma lawful_request: "lawful (RequestPayment_Execute rc p tx i)"
  unfolding RequestPayment_Execute_def[abs_def] by (rule lawful_TargetHeight) (rule lawful_intros)

lemma lawful_gateway_transactions:
  "lawful (TokenIn_Validate g ti sg)" "is_address (to_From t) \<Longrightarrow> lawful (TokenOut_Validate C g t sg)"
  "is_address (to_From t) \<Longrightarrow> lawful (TokenOut_Execute C g t i)"
  "lawful (TokenLeave_Validate g tl' sg)" "lawful (TokenLeave_Execute g tl' i)"
  "lawful (UpdatePolicy_gw_Validate g up sg)" "lawful (UpdatePolicy_gw_Execute C g up i)"
  unfolding TokenIn_Validate_def TokenOut_Validate_def TokenOut_Execute_def TokenLeave_Validate_def TokenLeave_Execute_def
    UpdatePolicy_gw_Validate_def UpdatePolicy_gw_Execute_def
  by (intro lawful_intros; assumption?)+

lemma lawful_payment_transactions:
  "lawful (AddTopic_Validate p at sg)" "lawful (AddTopic_Execute p at i)" "lawful (RemoveTopic_Validate p rt sg)"
  "lawful (RemoveTopic_Execute p rt i)" "lawful (RequestPayment_Validate p rq sg)"
  "is_address (rs_From r) \<Longrightarrow> lawful (ResponsePayment_Validate rc p r sg)"
  "is_address (rs_From r) \<Longrightarrow> lawful (ResponsePayment_Execute p r i)"
  "lawful (Subscribe_Validate p s sg)" "is_address (su_From s) \<Longrightarrow> lawful (Subscribe_Execute p s i)"
  "lawful (Unsubscribe_Validate p u sg)" "is_address (un_From u) \<Longrightarrow> lawful (Unsubscribe_Execute p u i)"
  "is_address (bl_To b) \<Longrightarrow> lawful (Billing_Validate p b sg)" "is_address (bl_To b) \<Longrightarrow> lawful (Billing_Execute p b i)"
  unfolding AddTopic_Validate_def AddTopic_Execute_def[abs_def] RemoveTopic_Validate_def RemoveTopic_Execute_def
    RequestPayment_Validate_def ResponsePayment_Validate_def ResponsePayment_Execute_def Subscribe_Validate_def
    Subscribe_Execute_def Unsubscribe_Validate_def Unsubscribe_Execute_def Billing_Validate_def Billing_Execute_def
  by (intro lawful_intros lawful_drop; assumption?)+

lemma lawful_TokenIn_Execute:
  "is_address (ti_From t) \<Longrightarrow> \<forall>a\<in>set (ti_ToAddresses t). is_address a \<Longrightarrow> lawful (TokenIn_Execute g t i)"
  unfolding TokenIn_Execute_def by (intro lawful_intros lawful_payTokens)

lemmas lawful_transactions = lawful_vault_transactions lawful_gateway_transactions lawful_TokenIn_Execute
  lawful_payment_transactions lawful_request

lemma lawful_system_Validate: "tx_typed tx \<Longrightarrow> lawful (system_Validate S tx signers)"
  by (cases tx) (simp_all add: lawful_transactions)

lemma lawful_system_Execute: "tx_typed tx \<Longrightarrow> lawful (system_Execute S tx i)"
  by (cases tx) (simp_all add: lawful_transactions)

section \<open>The chain\<close>

text \<open>
  The methods of a transaction are those of its type, no process does anything before the transactions of a block, and after
  them only the vault does.
\<close>

definition runs_system :: "system \<Rightarrow> ('db, system_tx, 'cs) chain_env \<Rightarrow> ('db, system_tx, 'cs) chain \<Rightarrow> bool" where
  "runs_system S E cn \<longleftrightarrow>
     ce_Validate E = (\<lambda>tx p pid signers. system_Validate S tx signers) \<and>
     ce_Execute E = (\<lambda>tx p pid i. system_Execute S tx i) \<and>
     (\<forall>p\<in>set (cn_app cn # cn_processes cn). \<forall>b pid.
        pr_BeforeExecuteTransactions p pid = returnE () \<and>
        pr_AfterExecuteTransactions p b pid =
          (if pr_Name p = vault_Name then vault_AfterExecuteTransactions (sy_vault S) (bh_Height (b_Header b)) else returnE ()))"

lemma system_lawful:
  assumes "runs_system S E cn"
  shows "lawful_chain tx_typed E cn" and "ignores_seal cn"
proof -
  show "lawful_chain tx_typed E cn"
    using assms lawful_system_Validate lawful_system_Execute lawful_vault_After
    unfolding lawful_chain_def runs_system_def by (simp add: lawful_intros)
  show "ignores_seal cn" using assms by (auto simp: ignores_seal_def runs_system_def sealed_def fun_eq_iff)
qed


section \<open>An example block\<close>

text \<open>
  A chain with the vault. Its administrator is offered a transfer with a tag that is too long, which is left out, and an
  update of the policy, which the block holds.
\<close>

definition adminAddr :: address where
  "adminAddr = zeros 14"

definition system_vault :: vault where
  "system_vault = \<lparr>vt_pid = 2, vt_admin = \<lparr>ad_pid = 1\<rparr>, vt_magic = 0\<rparr>"

definition sample_system :: system where
  "sample_system =
     \<lparr>sy_vault = system_vault, sy_gateway = \<lparr>gw_pid = 3, gw_vault = system_vault, gw_admin = \<lparr>ad_pid = 1\<rparr>\<rparr>,
      sy_payment = \<lparr>pm_pid = 4, pm_vault = system_vault, pm_admin = \<lparr>ad_pid = 1\<rparr>\<rparr>, sy_base58 = (\<lambda>_. None),
      sy_encPolicy = (\<lambda>_. Inr [1]), sy_decPolicy = (\<lambda>_. Inr \<lparr>pc_AccountCreationAmount = 1\<rparr>),
      sy_gatewayCodec = (\<lambda>_. Inr [1], \<lambda>_. Inr \<lparr>gp_WithdrawFee = 1\<rparr>),
      sy_requestCodec = (\<lambda>_. Inr [1], \<lambda>_. Inl Panic)\<rparr>"

lemma system_fields: "sy_vault sample_system = system_vault" "sy_encPolicy sample_system = (\<lambda>_. Inr [1])"
  "vt_pid system_vault = 2" "ad_pid (vt_admin system_vault) = 1"
  by (simp_all add: sample_system_def system_vault_def)

definition idle_process :: "u8 \<Rightarrow> string \<Rightarrow> system_tx process" where
  "idle_process i name =
     \<lparr>pr_ID = i, pr_Name = name, pr_Init = Inr (), pr_OnLoadChain = (\<lambda>_. returnE ()),
      pr_BeforeExecuteTransactions = (\<lambda>_. returnE ()), pr_AfterExecuteTransactions = (\<lambda>_ _. returnE ()),
      pr_OnSaveData = (\<lambda>_ _. returnE ())\<rparr>"

definition vault_process :: "vault \<Rightarrow> system_tx process" where
  "vault_process v = (idle_process (vt_pid v) vault_Name)
     \<lparr>pr_AfterExecuteTransactions := (\<lambda>b _. vault_AfterExecuteTransactions v (bh_Height (b_Header b)))\<rparr>"

definition system_chain :: "((bytes, bytes) omap, system_tx, unit) chain" where
  "system_chain = snd (MustAddProcess (vault_process system_vault)
     (projr (NewChain () (idle_process 255 ''FletaApp'')
       \<lparr>st_db = [], st_cdb = sample_db, st_chainID = 1, st_symbol = ''FLETA'', st_usage = ''Mainnet'', st_magicNumber = 0,
        st_version = 1, st_cache = \<lparr>ch_cached = False, ch_height = 0, ch_heightHash = EmptyHash, ch_heightBlock = None\<rparr>,
        st_isClose = False, st_timeSlotMap = []\<rparr>)))"

definition system_env :: "((bytes, bytes) omap, system_tx, unit) chain_env" where
  "system_env =
     \<lparr>ce_store = \<lparr>se_backend = se_backend sample_env, se_mp = se_mp sample_env, se_encHeader = se_encHeader sample_env,
        se_decHeader = se_decHeader sample_env, se_hashHeader = se_hashHeader sample_env, se_encTx = (\<lambda>_. []),
        se_createTx = (\<lambda>_. Inl (CommonErr ErrUnknownType)), se_timestamp = (\<lambda>_. 7), se_hashTx = (\<lambda>_ _ _. zeros 32),
        se_gzip = (\<lambda>d. d), se_gunzip = Inr, se_typeAccount = plain_TypeOf, se_encAccount = plain_account,
        se_createAccount = plain_create, se_encTxOut = plain_txout, se_decTxOut = plain_untxout,
        se_typeEvent = (\<lambda>_. Inl (CommonErr ErrUnknownType)), se_encEvent = (\<lambda>_. []),
        se_createEvent = (\<lambda>_. Inl (CommonErr ErrUnknownType)), se_decBase58 = (\<lambda>_. None)\<rparr>,
      ce_hashers = ce_hashers sample_chain_env, ce_recover = (\<lambda>_ _. Inr (zeros 33)), ce_NumCPU = 2, ce_firstErr = hd,
      ce_typeTx = (\<lambda>tx. case tx of Tx_UpdatePolicy _ \<Rightarrow> Inr 0x020A | _ \<Rightarrow> Inr 0x0203),
      ce_Validate = (\<lambda>tx p pid signers. system_Validate sample_system tx signers),
      ce_Execute = (\<lambda>tx p pid i. system_Execute sample_system tx i),
      ce_InitGenesis = (\<lambda>_. returnE ()), ce_csInit = Inr (), ce_csInitGenesis = returnE (),
      ce_csOnLoadChain = (\<lambda>_. returnE ()), ce_csValidateSignature = (\<lambda>_ _ _. Inr ()), ce_csOnSaveData = (\<lambda>_. returnE ())\<rparr>"

definition system_ctx :: chain_ctx where
  "system_ctx = NewContext (emptyLoader
     \<lparr>ld_Account := (\<lambda>_. Inr (SingleAccount \<lparr>sa_Address = adminAddr, sa_Name = ''admin'', sa_KeyHash = NewPublicHash (zeros 33)\<rparr>)),
      ld_HasAccount := (\<lambda>_. Inr True), ld_ProcessData := (\<lambda>pid _. if pid = 1 then adminAddr else [])\<rparr>)"

definition tagged_tx :: system_tx where
  "tagged_tx = Tx_TransferWithTag
     \<lparr>tt_Timestamp = 7, tt_From = adminAddr, tt_To = adminAddr, tt_Amount = 1, tt_Tag = replicate 33 (CHR ''a'')\<rparr>"

definition policy_tx :: system_tx where
  "policy_tx = Tx_UpdatePolicy \<lparr>up_Timestamp = 7, up_From = adminAddr, up_Policy = Some \<lparr>pc_AccountCreationAmount = 1\<rparr>\<rparr>"

lemma system_chain_fields:
  "cn_app system_chain = idle_process 255 ''FletaApp''" "cn_processes system_chain = [vault_process system_vault]"
  "cn_Process 2 system_chain = Inr (vault_process system_vault)" "st_chainID (cn_store system_chain) = 1"
  by (simp_all add: system_chain_def MustAddProcess_def NewChain_def vault_process_def idle_process_def system_fields
      cn_Process_def om_has_def om_get_def)

lemma system_runs: "runs_system sample_system system_env system_chain"
  by (simp add: runs_system_def system_chain_fields vault_process_def idle_process_def system_env_def vault_Name_def system_fields)

lemma system_same: "same_ctx system_ctx system_ctx"
  using ctx_wf_NewContext by (simp add: same_ctx_def system_ctx_def) (simp add: NewContext_def loader_ok_def emptyLoader_def)

definition system_creator :: "system_tx block_creator" where
  "system_creator = NewBlockCreator system_ctx adminAddr [] 5000000000"

lemma system_Init: "bc_Init system_chain system_creator = (Inr (), system_creator)"
  by (simp add: bc_Init_def each_process_def system_chain_fields vault_process_def idle_process_def on_bc_def bindE_def returnE_def
      checkDirty_def ctx_StackSize_def system_creator_def NewBlockCreator_def system_ctx_def NewContext_def)

lemmas system_run = bindE_def writeE_def readE_def returnE_def throwE_def failIf_run liftE_def Let_def ctx_StackSize_def ctx_setTop_def
  ctx_dirty_def ctx_Top_def ctx_read_def NewContext_def NewContextData_def ctx_UseTimeSlot_def cc_HasTimeSlot_def slot_marked_def
  mark_slot_def newContextCache_def

lemma run_tagged:
  "run_tx system_env adminAddr p pid 0 h tagged_tx signers i system_ctx = (Inl (VaultErr ErrInvalidTagSize), system_ctx)"
  by (simp add: run_tx_def system_env_def tagged_tx_def TransferWithTag_Validate_def system_ctx_def system_run ctx_Snapshot_def
     ctx_Revert_def emptyLoader_def)

lemma count_key_other:
  "processData_key 2 (toLockedBalanceCountKey 0) \<noteq> processData_key 2 tagPolicy"
  "processData_key 2 (toLockedBalanceCountKey 0) \<noteq> processData_key 1 n"
  by (simp_all add: processData_key_inj toLockedBalanceCountKey_def tagLockedBalanceCount_def tagPolicy_def copy_at_def go_copy_def
      numeral_2_eq_2)

lemma ProcessData_empty:
  assumes "ctx_stack a = [t]" and "om_get (cd_ProcessDataMap t) (processData_key pid n) = None"
    and "om_get (cc_ProcessDataMap (ctx_cache a)) (processData_key pid n) = None" and "ld_ProcessData (ctx_loader a) pid n = []"
  shows "fst (ctx_ProcessData pid n a) = []" "ctx_stack (snd (ctx_ProcessData pid n a)) = [t]"
  using assms by (simp_all add: ctx_ProcessData_def ctx_read_def cc_ProcessData_def Let_def)

lemma run_policy:
  "\<exists>a t. run_tx system_env adminAddr p pid 0 h policy_tx [NewPublicHash (zeros 33)] i system_ctx = (Inr (), a) \<and> ctx_stack a = [t] \<and>
     om_get (cd_ProcessDataMap t) (processData_key 2 (toLockedBalanceCountKey 0)) = None \<and>
     om_get (cc_ProcessDataMap (ctx_cache a)) (processData_key 2 (toLockedBalanceCountKey 0)) = None \<and>
     ctx_loader a = ctx_loader system_ctx"
  by (simp add: run_tx_def system_env_def policy_tx_def UpdatePolicy_Validate_def UpdatePolicy_Execute_def system_ctx_def system_run
     ctx_Snapshot_def ctx_Commit_def emptyLoader_def checkAdmin_def validateFrom_def AdminAddress_def ctx_ProcessData_def ctx_Account_def
     ctx_SetProcessData_def ctd_SetProcessData_def system_fields om_get_def om_has_def cc_ProcessData_def cc_Account_def adminAddr_def
     sa_Validate_def keepsGenerator_def ctx_HasAccount_def AddressSize_def commit_loop.simps go_copy_def commit_data_def
     om_putAll_def om_deleteAll_def om_delete_def om_each_def count_key_other)

definition system_offered :: "system_tx block_creator" where
  "system_offered = offer_all system_env system_chain adminAddr [(tagged_tx, [[1]]), (policy_tx, [[1]])] system_creator"

lemma system_offered_facts:
  "bc_txHashes system_offered = [EmptyHash, zeros 32]" "b_Transactions (bc_b system_offered) = [policy_tx]"
  "bh_Height (b_Header (bc_b system_offered)) = 0"
  "\<exists>t. ctx_stack (bc_ctx system_offered) = [t] \<and> om_get (cd_ProcessDataMap t) (processData_key 2 (toLockedBalanceCountKey 0)) = None \<and>
     om_get (cc_ProcessDataMap (ctx_cache (bc_ctx system_offered))) (processData_key 2 (toLockedBalanceCountKey 0)) = None \<and>
     ctx_loader (bc_ctx system_offered) = ctx_loader system_ctx"
proof -
  let ?b0 = "bc_b system_creator" and ?p = "vault_process system_vault"
  have C: "bc_ctx system_creator = system_ctx" "bc_txHashes system_creator = [EmptyHash]" "b_Transactions ?b0 = []"
    "b_TransactionTypes ?b0 = []" "b_TransactionSignatures ?b0 = []" "bh_Height (b_Header ?b0) = 0"
    "slot_allowed (ToTimeSlot (bh_Timestamp (b_Header ?b0))) 0" "system_creator\<lparr>bc_ctx := system_ctx\<rparr> = system_creator"
    by (simp_all add: system_creator_def NewBlockCreator_def system_ctx_def NewContext_def emptyLoader_def ToTimeSlot_def slot_allowed_def
        ctx_TargetHeight_def)
  obtain a t where a: "run_tx system_env adminAddr ?p 2 0 (zeros 32) policy_tx [NewPublicHash (zeros 33)] 0 system_ctx = (Inr (), a)"
    "ctx_stack a = [t]" "om_get (cd_ProcessDataMap t) (processData_key 2 (toLockedBalanceCountKey 0)) = None"
    "om_get (cc_ProcessDataMap (ctx_cache a)) (processData_key 2 (toLockedBalanceCountKey 0)) = None"
    "ctx_loader a = ctx_loader system_ctx"
    using run_policy by blast
  have E: "ce_typeTx system_env tagged_tx = Inr 0x0203" "ce_typeTx system_env policy_tx = Inr 0x020A"
    "se_hashTx (ce_store system_env) c ty tx = zeros 32" "se_timestamp (ce_store system_env) tx = 7"
    "recover_signers (ce_recover system_env) h [[1]] = Inr [NewPublicHash (zeros 33)]" "ToTimeSlot 7 = 0" for c ty tx h
    by (simp_all add: system_env_def tagged_tx_def policy_tx_def recover_signers_def ToTimeSlot_def)
  have "AddTx system_env system_chain adminAddr (tagged_tx, [[1]]) system_creator = (Inl (VaultErr ErrInvalidTagSize), system_creator)"
    using C by (simp add: AddTx_def UnsafeAddTx_def E system_chain_fields run_tagged on_bc_def bindE_def liftE_def Let_def)
  moreover have "AddTx system_env system_chain adminAddr (policy_tx, [[1]]) system_creator =
      (Inr (), system_creator\<lparr>bc_ctx := a, bc_b := ?b0\<lparr>b_TransactionTypes := [0x020A], b_Transactions := [policy_tx],
         b_TransactionSignatures := [[[1]]]\<rparr>, bc_txHashes := [EmptyHash, zeros 32]\<rparr>)"
    using C a(1) by (simp add: AddTx_def UnsafeAddTx_def E system_chain_fields on_bc_def bindE_def liftE_def writeE_def Let_def)
  ultimately have o: "system_offered = system_creator\<lparr>bc_ctx := a, bc_b := ?b0\<lparr>b_TransactionTypes := [0x020A], b_Transactions := [policy_tx],
         b_TransactionSignatures := [[[1]]]\<rparr>, bc_txHashes := [EmptyHash, zeros 32]\<rparr>"
    by (simp add: system_offered_def offer_all_def)
  show "bc_txHashes system_offered = [EmptyHash, zeros 32]" "b_Transactions (bc_b system_offered) = [policy_tx]"
    "bh_Height (b_Header (bc_b system_offered)) = 0"
    "\<exists>t. ctx_stack (bc_ctx system_offered) = [t] \<and> om_get (cd_ProcessDataMap t) (processData_key 2 (toLockedBalanceCountKey 0)) = None \<and>
     om_get (cc_ProcessDataMap (ctx_cache (bc_ctx system_offered))) (processData_key 2 (toLockedBalanceCountKey 0)) = None \<and>
     ctx_loader (bc_ctx system_offered) = ctx_loader system_ctx"
    unfolding o using a(2-5) C(6) by simp_all
qed

lemma system_Finalize:
  "\<exists>b bc. bc_Finalize system_env system_chain system_offered = (Inr b, bc) \<and> b_Transactions b = [policy_tx]"
proof -
  obtain root where root: "BuildLevelRoot [EmptyHash, zeros 32] = Inr root"
    by (rule BuildLevelRoot_levels[of "[EmptyHash, zeros 32]"]) simp_all
  from system_offered_facts(4) obtain t where t: "ctx_stack (bc_ctx system_offered) = [t]"
    "om_get (cd_ProcessDataMap t) (processData_key 2 (toLockedBalanceCountKey 0)) = None"
    "om_get (cc_ProcessDataMap (ctx_cache (bc_ctx system_offered))) (processData_key 2 (toLockedBalanceCountKey 0)) = None"
    "ctx_loader (bc_ctx system_offered) = ctx_loader system_ctx" by blast
  then have "ld_ProcessData (ctx_loader (bc_ctx system_offered)) 2 (toLockedBalanceCountKey 0) = []"
    by (simp add: system_ctx_def NewContext_def)
  note read = ProcessData_empty[OF t(1-3) this]
  obtain c where c: "vault_AfterExecuteTransactions system_vault 0 (bc_ctx system_offered) = (Inr (), c)" "ctx_stack c = [t]"
    using read by (auto simp: vault_AfterExecuteTransactions_def flushLockedBalanceMap_def system_fields bindE_success readE_run
        returnE_def bindE_def om_each_def split: prod.splits)
  show ?thesis
    using root system_offered_facts(1-3) t(1) c
    by (simp add: bc_Finalize_def on_bc_def each_process_def system_chain_fields vault_process_def idle_process_def checkDirty_def
        bindE_def writeE_def returnE_def Let_def ctx_StackSize_def split: prod.split)
qed


end
