(* ===== verification/Formulator.thy ===== *)
theory Formulator
  imports Vault_Tx Map_Codecs
begin

text \<open>
  \<^verbatim>\<open>process/formulator\<close>: the accounts that generate blocks, the coins staked at them and the rewards. This
  theory has the policies, the keys and the methods of \<^verbatim>\<open>formulator_method.go\<close>; the transactions are in
  \<open>Formulator_Tx\<close> and the hook that pays the rewards in \<open>Formulator_Reward\<close>.

  \<^verbatim>\<open>encoding.Marshal\<close> and \<^verbatim>\<open>encoding.Unmarshal\<close> of the policies are parameters (the fields of \<open>form_env\<close>). The
  order in which Go visits the keys of a map is a parameter too: \<open>fe_range\<close> gets the number of the loop.
\<close>

section \<open>Policies and the process\<close>

record reward_policy =
  rp_RewardPerBlock :: amount
  rp_PayRewardEveryBlocks :: u32
  rp_AlphaEfficiency1000 :: u32
  rp_SigmaEfficiency1000 :: u32
  rp_OmegaEfficiency1000 :: u32
  rp_HyperEfficiency1000 :: u32
  rp_StakingEfficiency1000 :: u32

record alpha_policy =
  ap_AlphaCreationAmount :: amount
  ap_AlphaUnlockRequiredBlocks :: u32
  ap_AlphaCreationLimitHeight :: u32

record sigma_policy =
  sp_SigmaRequiredAlphaBlocks :: u32
  sp_SigmaRequiredAlphaCount :: u32
  sp_SigmaUnlockRequiredBlocks :: u32

record omega_policy =
  op_OmegaRequiredSigmaBlocks :: u32
  op_OmegaRequiredSigmaCount :: u32
  op_OmegaUnlockRequiredBlocks :: u32

record hyper_policy =
  hp_HyperCreationAmount :: amount
  hp_HyperUnlockRequiredBlocks :: u32
  hp_StakingUnlockRequiredBlocks :: u32

record transmute_policy =
  tp_TransmuteEnableHeightFrom :: u32
  tp_TransmuteEnableHeightTo :: u32

record formulator =
  fo_pid :: u8
  fo_vault :: vault
  fo_admin :: admin
  fo_magic :: u64

definition formulator_Name :: string where
  "formulator_Name = ''fleta.formulator''"

text \<open>The encoder, which also takes a nil pointer, and the decoder of a policy.\<close>

type_synonym 'p marshal = "('p option \<Rightarrow> err + bytes) \<times> (bytes \<Rightarrow> err + 'p)"

record form_env =
  fe_mp :: msgpack
  fe_Reward :: "reward_policy marshal"
  fe_Alpha :: "alpha_policy marshal"
  fe_Sigma :: "sigma_policy marshal"
  fe_Omega :: "omega_policy marshal"
  fe_Hyper :: "hyper_policy marshal"
  fe_Transmute :: "transmute_policy marshal"
  fe_base58 :: "string \<Rightarrow> bytes option"
  fe_range :: "nat \<Rightarrow> address list \<Rightarrow> address list"

section \<open>Keys\<close>

datatype form_tag =
    tagStakingAmount | tagStakingAmountNumber | tagStakingAmountReverse | tagStakingAmountCount
  | tagRewardPolicy | tagAlphaPolicy | tagSigmaPolicy | tagOmegaPolicy
  | tagHyperPolicy | tagTransmutePolicy | tagGenCount | tagGenCountNumber
  | tagGenCountReverse | tagGenCountCount | tagStakingAmountMap | tagStakingPowerMap
  | tagStackRewardMap | tagLastStakingPaidHeight | tagAutoStaking | tagLastPaidHeight
  | tagRevokedFormulator | tagRevokedFormulatorNumber | tagRevokedFormulatorReverse | tagRevokedFormulatorCount
  | tagRevokedHeight | tagUnstakingAmount | tagUnstakingAmountNumber | tagUnstakingAmountReverse
  | tagUnstakingAmountCount | tagRewardBaseUpgrade

fun tag_bytes :: "form_tag \<Rightarrow> bytes" where
  "tag_bytes tagStakingAmount = [1, 0]"
| "tag_bytes tagStakingAmountNumber = [1, 1]"
| "tag_bytes tagStakingAmountReverse = [1, 2]"
| "tag_bytes tagStakingAmountCount = [1, 3]"
| "tag_bytes tagRewardPolicy = [2, 0]"
| "tag_bytes tagAlphaPolicy = [2, 1]"
| "tag_bytes tagSigmaPolicy = [2, 2]"
| "tag_bytes tagOmegaPolicy = [2, 3]"
| "tag_bytes tagHyperPolicy = [2, 4]"
| "tag_bytes tagTransmutePolicy = [2, 5]"
| "tag_bytes tagGenCount = [3, 0]"
| "tag_bytes tagGenCountNumber = [3, 1]"
| "tag_bytes tagGenCountReverse = [3, 2]"
| "tag_bytes tagGenCountCount = [3, 3]"
| "tag_bytes tagStakingAmountMap = [4, 0]"
| "tag_bytes tagStakingPowerMap = [4, 1]"
| "tag_bytes tagStackRewardMap = [4, 2]"
| "tag_bytes tagLastStakingPaidHeight = [4, 3]"
| "tag_bytes tagAutoStaking = [4, 4]"
| "tag_bytes tagLastPaidHeight = [4, 5]"
| "tag_bytes tagRevokedFormulator = [5, 0]"
| "tag_bytes tagRevokedFormulatorNumber = [5, 1]"
| "tag_bytes tagRevokedFormulatorReverse = [5, 2]"
| "tag_bytes tagRevokedFormulatorCount = [5, 3]"
| "tag_bytes tagRevokedHeight = [5, 4]"
| "tag_bytes tagUnstakingAmount = [6, 0]"
| "tag_bytes tagUnstakingAmountNumber = [6, 1]"
| "tag_bytes tagUnstakingAmountReverse = [6, 2]"
| "tag_bytes tagUnstakingAmountCount = [6, 3]"
| "tag_bytes tagRewardBaseUpgrade = [7, 0]"

lemma tag_bytes_length [simp]: "length (tag_bytes t) = 2"
  by (cases t) auto

lemma tag_bytes_inject [simp]: "tag_bytes t = tag_bytes u \<longleftrightarrow> t = u"
  by (cases t; cases u) simp_all

text \<open>The four shapes of a key: a tag with an address, a number, a height and an address, a height and a number.\<close>

definition addr_key :: "form_tag \<Rightarrow> address \<Rightarrow> bytes" where
  "addr_key tag addr = copy_at 2 (go_copy (zeros (2 + AddressSize)) (tag_bytes tag)) addr"

definition num_key :: "form_tag \<Rightarrow> u32 \<Rightarrow> bytes" where
  "num_key tag Num = copy_at 2 (go_copy (zeros 6) (tag_bytes tag)) (BE_Uint32ToBytes Num)"

definition height_num_key :: "form_tag \<Rightarrow> u32 \<Rightarrow> u32 \<Rightarrow> bytes" where
  "height_num_key tag height num =
     copy_at 6 (copy_at 2 (go_copy (zeros 10) (tag_bytes tag)) (BE_Uint32ToBytes height)) (BE_Uint32ToBytes num)"

definition toStakingAmountKey :: "address \<Rightarrow> bytes" where
  "toStakingAmountKey StakingAddress = addr_key tagStakingAmount StakingAddress"

definition toStakingAmountNumberKey :: "address \<Rightarrow> bytes" where
  "toStakingAmountNumberKey StakingAddress = addr_key tagStakingAmountNumber StakingAddress"

definition toStakingAmountReverseKey :: "u32 \<Rightarrow> bytes" where
  "toStakingAmountReverseKey Num = num_key tagStakingAmountReverse Num"

definition toAutoStakingKey :: "address \<Rightarrow> bytes" where
  "toAutoStakingKey StakingAddress = addr_key tagAutoStaking StakingAddress"

definition toGenCountKey :: "address \<Rightarrow> bytes" where
  "toGenCountKey GenAddress = addr_key tagGenCount GenAddress"

definition toGenCountNumberKey :: "address \<Rightarrow> bytes" where
  "toGenCountNumberKey GenAddress = addr_key tagGenCountNumber GenAddress"

definition toGenCountReverseKey :: "u32 \<Rightarrow> bytes" where
  "toGenCountReverseKey Num = num_key tagGenCountReverse Num"

definition toRevokedFormulatorKey :: "u32 \<Rightarrow> address \<Rightarrow> bytes" where
  "toRevokedFormulatorKey height addr = height_addr_key (tag_bytes tagRevokedFormulator) height addr"

definition toRevokedFormulatorNumberKey :: "u32 \<Rightarrow> address \<Rightarrow> bytes" where
  "toRevokedFormulatorNumberKey height addr = height_addr_key (tag_bytes tagRevokedFormulatorNumber) height addr"

definition toRevokedFormulatorReverseKey :: "u32 \<Rightarrow> u32 \<Rightarrow> bytes" where
  "toRevokedFormulatorReverseKey height num = height_num_key tagRevokedFormulatorReverse height num"

definition toRevokedFormulatorCountKey :: "u32 \<Rightarrow> bytes" where
  "toRevokedFormulatorCountKey height = num_key tagRevokedFormulatorCount height"

definition toUnstakingAmountKey :: "u32 \<Rightarrow> address \<Rightarrow> bytes" where
  "toUnstakingAmountKey height addr = height_addr_key (tag_bytes tagUnstakingAmount) height addr"

definition toUnstakingAmountNumberKey :: "u32 \<Rightarrow> address \<Rightarrow> bytes" where
  "toUnstakingAmountNumberKey height addr = height_addr_key (tag_bytes tagUnstakingAmountNumber) height addr"

definition toUnstakingAmountReverseKey :: "u32 \<Rightarrow> u32 \<Rightarrow> bytes" where
  "toUnstakingAmountReverseKey height num = height_num_key tagUnstakingAmountReverse height num"

definition toUnstakingAmountCountKey :: "u32 \<Rightarrow> bytes" where
  "toUnstakingAmountCountKey height = num_key tagUnstakingAmountCount height"

section \<open>Indexed sets\<close>

text \<open>
  The code keeps several sets of addresses in data cells in the same way: a cell with the number of
  elements, a cell per address with its number and a cell per number with the address. A new address gets
  the next number; the last address moves to the place of one that is removed.
\<close>

record index =
  ix_Count :: dkey
  ix_Number :: "address \<Rightarrow> dkey"
  ix_Reverse :: "u32 \<Rightarrow> dkey"

definition read_uint32 :: "dkey \<Rightarrow> (chain_ctx, u32) go_meth" where
  "read_uint32 k =
     bindE (readE (ctx_get k)) (\<lambda>bs. liftE (if 0 < length bs then orPanic (LE_Uint32 bs) else Inr 0))"

definition index_add :: "index \<Rightarrow> address \<Rightarrow> (chain_ctx, unit) go_meth" where
  "index_add ix addr =
     bindE (readE (ctx_get (ix_Number ix addr))) (\<lambda>ns.
       if length ns = 0
       then bindE (read_uint32 (ix_Count ix)) (\<lambda>Count.
              thenE (writeE (ctx_set (ix_Number ix addr) (LE_Uint32ToBytes Count)))
              (thenE (writeE (ctx_set (ix_Reverse ix Count) addr))
                     (writeE (ctx_set (ix_Count ix) (LE_Uint32ToBytes (Count + 1))))))
       else returnE ())"

definition index_remove :: "index \<Rightarrow> address \<Rightarrow> bytes \<Rightarrow> (chain_ctx, unit) go_meth" where
  "index_remove ix addr ns =
     bindE (read_uint32 (ix_Count ix)) (\<lambda>Count.
     bindE (liftE (orPanic (LE_Uint32 ns))) (\<lambda>Number.
       thenE
         (if Number \<noteq> Count - 1
          then bindE (readE (ctx_get (ix_Reverse ix (Count - 1)))) (\<lambda>bs.
                 let swapAddr = go_copy (zeros AddressSize) bs
                 in thenE (writeE (ctx_set (ix_Reverse ix Number) swapAddr))
                          (writeE (ctx_set (ix_Number ix swapAddr) (LE_Uint32ToBytes Number))))
          else returnE ())
       (thenE (writeE (ctx_set (ix_Number ix addr) []))
       (thenE (writeE (ctx_set (ix_Reverse ix (Count - 1)) []))
         (if Count - 1 = 0 then writeE (ctx_set (ix_Count ix) [])
          else writeE (ctx_set (ix_Count ix) (LE_Uint32ToBytes (Count - 1))))))))"

text \<open>The loop \<^verbatim>\<open>for i := uint32(0); i < Count; i++\<close> with the address of each number and an accumulator.\<close>

fun index_loop ::
  "index \<Rightarrow> (u32 \<Rightarrow> address \<Rightarrow> 'a \<Rightarrow> (chain_ctx, 'a) go_meth) \<Rightarrow> nat \<Rightarrow> u32 \<Rightarrow> 'a \<Rightarrow> (chain_ctx, 'a) go_meth" where
  "index_loop ix f 0 i x = returnE x"
| "index_loop ix f (Suc n) i x =
     bindE (readE (ctx_get (ix_Reverse ix i))) (\<lambda>bs.
       bindE (f i (go_copy (zeros AddressSize) bs) x) (index_loop ix f n (i + 1)))"

definition index_fold ::
  "index \<Rightarrow> (u32 \<Rightarrow> address \<Rightarrow> 'a \<Rightarrow> (chain_ctx, 'a) go_meth) \<Rightarrow> 'a \<Rightarrow> (chain_ctx, 'a) go_meth" where
  "index_fold ix f x =
     bindE (readE (ctx_get (ix_Count ix))) (\<lambda>bs.
       if 0 < length bs then bindE (liftE (orPanic (LE_Uint32 bs))) (\<lambda>Count. index_loop ix f (unat Count) 0 x)
       else returnE x)"

text \<open>The same loop where every round also clears the cells of the index, and the count is cleared at the end.\<close>

definition index_flush ::
  "index \<Rightarrow> (address \<Rightarrow> 'a \<Rightarrow> (chain_ctx, 'a) go_meth) \<Rightarrow> 'a \<Rightarrow> (chain_ctx, 'a) go_meth" where
  "index_flush ix f x =
     bindE (readE (ctx_get (ix_Count ix))) (\<lambda>bs.
       if 0 < length bs
       then bindE (liftE (orPanic (LE_Uint32 bs))) (\<lambda>Count.
              bindE (index_loop ix (\<lambda>i addr x.
                bindE (f addr x) (\<lambda>y.
                  thenE (writeE (ctx_set (ix_Number ix addr) []))
                  (thenE (writeE (ctx_set (ix_Reverse ix i) [])) (returnE y)))) (unat Count) 0 x) (\<lambda>y.
                thenE (writeE (ctx_set (ix_Count ix) [])) (returnE y)))
       else returnE x)"

section \<open>Generated blocks\<close>

definition gencount_ix :: "formulator \<Rightarrow> index" where
  "gencount_ix p =
     \<lparr>ix_Count = PData (fo_pid p) (tag_bytes tagGenCountCount), ix_Number = (\<lambda>addr. PData (fo_pid p) (toGenCountNumberKey addr)),
      ix_Reverse = (\<lambda>n. PData (fo_pid p) (toGenCountReverseKey n))\<rparr>"

definition getGenCount :: "formulator \<Rightarrow> address \<Rightarrow> (chain_ctx, u32) go_meth" where
  "getGenCount p addr = read_uint32 (PData (fo_pid p) (toGenCountKey addr))"

definition addGenCount :: "formulator \<Rightarrow> address \<Rightarrow> (chain_ctx, unit) go_meth" where
  "addGenCount p addr =
     thenE (index_add (gencount_ix p) addr)
       (bindE (getGenCount p addr) (\<lambda>n.
         writeE (ctx_SetProcessData (fo_pid p) (toGenCountKey addr) (LE_Uint32ToBytes (n + 1)))))"

definition flushGenCountMap :: "formulator \<Rightarrow> (chain_ctx, (address, u32) omap) go_meth" where
  "flushGenCountMap p =
     index_flush (gencount_ix p) (\<lambda>addr m.
       bindE (getGenCount p addr) (\<lambda>n.
         thenE (writeE (ctx_SetProcessData (fo_pid p) (toGenCountKey addr) [])) (returnE (om_put addr n m)))) []"

section \<open>Staking\<close>

definition staking_ix :: "formulator \<Rightarrow> address \<Rightarrow> index" where
  "staking_ix p HyperAddress =
     \<lparr>ix_Count = AData HyperAddress (fo_pid p) (tag_bytes tagStakingAmountCount),
      ix_Number = (\<lambda>addr. AData HyperAddress (fo_pid p) (toStakingAmountNumberKey addr)),
      ix_Reverse = (\<lambda>n. AData HyperAddress (fo_pid p) (toStakingAmountReverseKey n))\<rparr>"

definition GetStakingAmount :: "formulator \<Rightarrow> address \<Rightarrow> address \<Rightarrow> chain_ctx \<Rightarrow> amount \<times> chain_ctx" where
  "GetStakingAmount p HyperAddress StakingAddress ctx =
     (case ctx_AccountData HyperAddress (fo_pid p) (toStakingAmountKey StakingAddress) ctx of
        (bs, ctx) \<Rightarrow> (stored_amount bs, ctx))"

definition AddStakingAmount :: "formulator \<Rightarrow> address \<Rightarrow> address \<Rightarrow> amount \<Rightarrow> (chain_ctx, unit) go_meth" where
  "AddStakingAmount p HyperAddress StakingAddress StakingAmount =
     thenE (index_add (staking_ix p HyperAddress) StakingAddress)
       (bindE (readE (GetStakingAmount p HyperAddress StakingAddress)) (\<lambda>am.
         writeE (ctx_SetAccountData HyperAddress (fo_pid p) (toStakingAmountKey StakingAddress)
           (am_Bytes (am_Add am StakingAmount)))))"

definition subStakingAmount :: "formulator \<Rightarrow> address \<Rightarrow> address \<Rightarrow> amount \<Rightarrow> (chain_ctx, unit) go_meth" where
  "subStakingAmount p HyperAddress StakingAddress am =
     bindE (readE (GetStakingAmount p HyperAddress StakingAddress)) (\<lambda>am0.
       thenE (failIf (am_Less am0 am) (FormulatorErr ErrMinusBalance_fr))
         (let am0 = am_Sub am0 am
          in if am_IsZero am0
             then thenE
                    (bindE (readE (ctx_AccountData HyperAddress (fo_pid p) (toStakingAmountNumberKey StakingAddress))) (\<lambda>ns.
                       if 0 < length ns then index_remove (staking_ix p HyperAddress) StakingAddress ns else returnE ()))
                    (writeE (ctx_SetAccountData HyperAddress (fo_pid p) (toStakingAmountKey StakingAddress) []))
             else writeE (ctx_SetAccountData HyperAddress (fo_pid p) (toStakingAmountKey StakingAddress) (am_Bytes am0))))"

definition GetStakingAmountMap :: "formulator \<Rightarrow> address \<Rightarrow> (chain_ctx, (address, amount) omap) go_meth" where
  "GetStakingAmountMap p HyperAddress =
     index_fold (staking_ix p HyperAddress) (\<lambda>i StakingAddress m.
       bindE (readE (GetStakingAmount p HyperAddress StakingAddress)) (\<lambda>am. returnE (om_put StakingAddress am m))) []"

text \<open>\<^verbatim>\<open>for k, v := range m\<close> on a Go map: the entries in the order of the loop.\<close>

definition range_map :: "form_env \<Rightarrow> nat \<Rightarrow> (address, 'v) omap \<Rightarrow> (address \<times> 'v) list" where
  "range_map E loop m = map (\<lambda>k. (k, the (om_get m k))) (fe_range E loop (map fst (om_each m)))"

section \<open>Heights and automatic staking\<close>

definition getLastPaidHeight :: "formulator \<Rightarrow> (chain_ctx, u32) go_meth" where
  "getLastPaidHeight p = read_uint32 (PData (fo_pid p) (tag_bytes tagLastPaidHeight))"

definition setLastPaidHeight :: "formulator \<Rightarrow> u32 \<Rightarrow> (chain_ctx, unit) go_meth" where
  "setLastPaidHeight p lastPaidHeight =
     writeE (ctx_SetProcessData (fo_pid p) (tag_bytes tagLastPaidHeight) (LE_Uint32ToBytes lastPaidHeight))"

definition getLastStakingPaidHeight :: "formulator \<Rightarrow> address \<Rightarrow> (chain_ctx, u32) go_meth" where
  "getLastStakingPaidHeight p Address = read_uint32 (AData Address (fo_pid p) (tag_bytes tagLastStakingPaidHeight))"

definition setLastStakingPaidHeight :: "formulator \<Rightarrow> address \<Rightarrow> u32 \<Rightarrow> (chain_ctx, unit) go_meth" where
  "setLastStakingPaidHeight p Address lastPaidHeight =
     writeE (ctx_SetAccountData Address (fo_pid p) (tag_bytes tagLastStakingPaidHeight) (LE_Uint32ToBytes lastPaidHeight))"

definition GetUserAutoStaking :: "formulator \<Rightarrow> address \<Rightarrow> address \<Rightarrow> chain_ctx \<Rightarrow> bool \<times> chain_ctx" where
  "GetUserAutoStaking p HyperAddress StakingAddress ctx =
     (case ctx_AccountData HyperAddress (fo_pid p) (toAutoStakingKey StakingAddress) ctx of
        (bs, ctx) \<Rightarrow> (0 < length bs \<and> bs ! 0 = 1, ctx))"

definition setUserAutoStaking :: "formulator \<Rightarrow> address \<Rightarrow> address \<Rightarrow> bool \<Rightarrow> (chain_ctx, unit) go_meth" where
  "setUserAutoStaking p HyperAddress StakingAddress IsAutoStaking =
     writeE (ctx_SetAccountData HyperAddress (fo_pid p) (toAutoStakingKey StakingAddress) (if IsAutoStaking then [1] else []))"

section \<open>Revoked formulators\<close>

definition revoked_ix :: "formulator \<Rightarrow> u32 \<Rightarrow> index" where
  "revoked_ix p RevokeHeight =
     \<lparr>ix_Count = PData (fo_pid p) (toRevokedFormulatorCountKey RevokeHeight),
      ix_Number = (\<lambda>addr. PData (fo_pid p) (toRevokedFormulatorNumberKey RevokeHeight addr)),
      ix_Reverse = (\<lambda>n. PData (fo_pid p) (toRevokedFormulatorReverseKey RevokeHeight n))\<rparr>"

definition GetRevokedFormulatorHeight :: "formulator \<Rightarrow> address \<Rightarrow> (chain_ctx, u32) go_meth" where
  "GetRevokedFormulatorHeight p addr =
     bindE (readE (ctx_AccountData addr (fo_pid p) (tag_bytes tagRevokedHeight))) (\<lambda>bs.
       if 0 < length bs then liftE (orPanic (LE_Uint32 bs)) else throwE (FormulatorErr ErrNotRevoked))"

definition getRevokedFormulatorHeritor :: "formulator \<Rightarrow> address \<Rightarrow> u32 \<Rightarrow> (chain_ctx, address) go_meth" where
  "getRevokedFormulatorHeritor p addr RevokeHeight =
     bindE (readE (ctx_ProcessData (fo_pid p) (toRevokedFormulatorKey RevokeHeight addr))) (\<lambda>bs.
       if 0 < length bs then returnE (go_copy (zeros AddressSize) bs)
       else throwE (FormulatorErr ErrNotExistRevokedFormulator))"

definition addRevokedFormulator :: "formulator \<Rightarrow> address \<Rightarrow> u32 \<Rightarrow> address \<Rightarrow> (chain_ctx, unit) go_meth" where
  "addRevokedFormulator p addr RevokeHeight Heritor =
     bindE (readE (ctx_AccountData addr (fo_pid p) (tag_bytes tagRevokedHeight))) (\<lambda>bs.
       thenE (failIf (0 < length bs) (FormulatorErr ErrRevokedFormulator))
       (thenE (writeE (ctx_SetAccountData addr (fo_pid p) (tag_bytes tagRevokedHeight) (LE_Uint32ToBytes RevokeHeight)))
       (thenE (index_add (revoked_ix p RevokeHeight) addr)
              (writeE (ctx_SetProcessData (fo_pid p) (toRevokedFormulatorKey RevokeHeight addr) Heritor)))))"

definition removeRevokedFormulator :: "formulator \<Rightarrow> address \<Rightarrow> (chain_ctx, unit) go_meth" where
  "removeRevokedFormulator p addr =
     bindE (GetRevokedFormulatorHeight p addr) (\<lambda>RevokeHeight.
       thenE (writeE (ctx_SetAccountData addr (fo_pid p) (tag_bytes tagRevokedHeight) []))
         (bindE (readE (ctx_ProcessData (fo_pid p) (toRevokedFormulatorNumberKey RevokeHeight addr))) (\<lambda>ns.
           if length ns = 0 then throwE (FormulatorErr ErrNotRevoked)
           else index_remove (revoked_ix p RevokeHeight) addr ns)))"

definition flushRevokedFormulatorMap :: "formulator \<Rightarrow> u32 \<Rightarrow> (chain_ctx, (address, address) omap) go_meth" where
  "flushRevokedFormulatorMap p RevokeHeight =
     index_flush (revoked_ix p RevokeHeight) (\<lambda>addr m.
       bindE (getRevokedFormulatorHeritor p addr RevokeHeight) (\<lambda>Heritor.
         thenE (writeE (ctx_SetAccountData addr (fo_pid p) (tag_bytes tagRevokedHeight) []))
         (thenE (writeE (ctx_SetProcessData (fo_pid p) (toRevokedFormulatorKey RevokeHeight addr) []))
                (returnE (om_put addr Heritor m))))) []"

section \<open>Unstaking\<close>

definition unstaking_ix :: "formulator \<Rightarrow> u32 \<Rightarrow> index" where
  "unstaking_ix p UnstakedHeight =
     \<lparr>ix_Count = PData (fo_pid p) (toUnstakingAmountCountKey UnstakedHeight),
      ix_Number = (\<lambda>addr. PData (fo_pid p) (toUnstakingAmountNumberKey UnstakedHeight addr)),
      ix_Reverse = (\<lambda>n. PData (fo_pid p) (toUnstakingAmountReverseKey UnstakedHeight n))\<rparr>"

definition GetUnstakingAmountMap :: "form_env \<Rightarrow> formulator \<Rightarrow> address \<Rightarrow> u32 \<Rightarrow> (chain_ctx, (address, amount) omap) go_meth" where
  "GetUnstakingAmountMap E p addr UnstakedHeight =
     bindE (readE (ctx_ProcessData (fo_pid p) (toUnstakingAmountKey UnstakedHeight addr))) (\<lambda>bs.
       if 0 < length bs then liftE (fst (AddressAmountMap_decode (fe_mp E) bs))
       else throwE (FormulatorErr ErrNotExistUnstakingAmount))"

definition getUnstakingAmount :: "form_env \<Rightarrow> formulator \<Rightarrow> address \<Rightarrow> address \<Rightarrow> u32 \<Rightarrow> (chain_ctx, amount) go_meth" where
  "getUnstakingAmount E p HyperAddr addr UnstakedHeight =
     bindE (GetUnstakingAmountMap E p addr UnstakedHeight) (\<lambda>mp.
       case om_get mp HyperAddr of
         None \<Rightarrow> throwE (FormulatorErr ErrNotExistUnstakingAmount)
       | Some am \<Rightarrow> returnE am)"

definition addUnstakingAmount :: "form_env \<Rightarrow> formulator \<Rightarrow> address \<Rightarrow> address \<Rightarrow> u32 \<Rightarrow> amount \<Rightarrow> (chain_ctx, unit) go_meth" where
  "addUnstakingAmount E p HyperAddr addr UnstakedHeight am =
     thenE (index_add (unstaking_ix p UnstakedHeight) addr)
       (bindE (\<lambda>ctx. case GetUnstakingAmountMap E p addr UnstakedHeight ctx of
                (Inl e, ctx) \<Rightarrow> (if e \<noteq> FormulatorErr ErrNotExistUnstakingAmount then Inl e else Inr [], ctx)
              | (Inr mp, ctx) \<Rightarrow> (Inr mp, ctx)) (\<lambda>mp.
         let am0 = (case om_get mp HyperAddr of None \<Rightarrow> NewCoinAmount 0 0 | Some am0 \<Rightarrow> am0)
         in writeE (ctx_SetProcessData (fo_pid p) (toUnstakingAmountKey UnstakedHeight addr)
              (AddressAmountMap_encode (fe_mp E) (om_put HyperAddr (am_Add am0 am) mp)))))"

definition removeUnstakingAmount :: "formulator \<Rightarrow> address \<Rightarrow> u32 \<Rightarrow> (chain_ctx, unit) go_meth" where
  "removeUnstakingAmount p addr UnstakedHeight =
     bindE (readE (ctx_ProcessData (fo_pid p) (toUnstakingAmountNumberKey UnstakedHeight addr))) (\<lambda>ns.
       if length ns = 0 then throwE (FormulatorErr ErrNotExistUnstakingAmount)
       else index_remove (unstaking_ix p UnstakedHeight) addr ns)"

text \<open>The error of a call whose result is not used is dropped; a panic is not.\<close>

definition ignoreErr :: "(chain_ctx, unit) go_meth \<Rightarrow> (chain_ctx, unit) go_meth" where
  "ignoreErr m ctx = (case m ctx of (Inl e, ctx) \<Rightarrow> (if e = Panic then Inl Panic else Inr (), ctx) | (Inr _, ctx) \<Rightarrow> (Inr (), ctx))"

definition subUnstakingAmount :: "form_env \<Rightarrow> formulator \<Rightarrow> address \<Rightarrow> address \<Rightarrow> u32 \<Rightarrow> amount \<Rightarrow> (chain_ctx, unit) go_meth" where
  "subUnstakingAmount E p HyperAddr addr UnstakedHeight am =
     bindE (GetUnstakingAmountMap E p addr UnstakedHeight) (\<lambda>mp.
       case om_get mp HyperAddr of
         None \<Rightarrow> throwE (FormulatorErr ErrNotExistUnstakingAmount)
       | Some am0 \<Rightarrow>
           thenE (failIf (am_Less am0 am) (FormulatorErr ErrMinustUnstakingAmount))
             (let am0 = am_Sub am0 am; mp = (if am_IsZero am0 then om_delete HyperAddr mp else om_put HyperAddr am0 mp)
              in if 0 < om_len mp
                 then writeE (ctx_SetProcessData (fo_pid p) (toUnstakingAmountKey UnstakedHeight addr)
                        (AddressAmountMap_encode (fe_mp E) mp))
                 else ignoreErr (removeUnstakingAmount p addr UnstakedHeight)))"

definition flushUnstakingAmountMap ::
  "form_env \<Rightarrow> formulator \<Rightarrow> u32 \<Rightarrow> (chain_ctx, (address, (address, amount) omap) omap) go_meth" where
  "flushUnstakingAmountMap E p RevokeHeight =
     index_flush (unstaking_ix p RevokeHeight) (\<lambda>addr m.
       bindE (GetUnstakingAmountMap E p addr RevokeHeight) (\<lambda>mp.
         thenE (writeE (ctx_SetProcessData (fo_pid p) (toUnstakingAmountKey RevokeHeight addr) []))
               (returnE (om_put addr mp m)))) []"

section \<open>Policies\<close>

definition readPolicy :: "formulator \<Rightarrow> form_tag \<Rightarrow> 'p marshal \<Rightarrow> (chain_ctx, 'p) go_meth" where
  "readPolicy p tag m =
     bindE (readE (ctx_ProcessData (fo_pid p) (tag_bytes tag))) (\<lambda>bs. liftE (snd m bs))"

definition writePolicy :: "formulator \<Rightarrow> form_tag \<Rightarrow> 'p marshal \<Rightarrow> 'p option \<Rightarrow> (chain_ctx, unit) go_meth" where
  "writePolicy p tag m policy =
     bindE (liftE (fst m policy)) (\<lambda>bs. writeE (ctx_SetProcessData (fo_pid p) (tag_bytes tag) bs))"

definition GetRewardPolicy :: "form_env \<Rightarrow> formulator \<Rightarrow> (chain_ctx, reward_policy) go_meth" where
  "GetRewardPolicy E p = readPolicy p tagRewardPolicy (fe_Reward E)"

definition GetAlphaPolicy :: "form_env \<Rightarrow> formulator \<Rightarrow> (chain_ctx, alpha_policy) go_meth" where
  "GetAlphaPolicy E p = readPolicy p tagAlphaPolicy (fe_Alpha E)"

definition GetSigmaPolicy :: "form_env \<Rightarrow> formulator \<Rightarrow> (chain_ctx, sigma_policy) go_meth" where
  "GetSigmaPolicy E p = readPolicy p tagSigmaPolicy (fe_Sigma E)"

definition GetOmegaPolicy :: "form_env \<Rightarrow> formulator \<Rightarrow> (chain_ctx, omega_policy) go_meth" where
  "GetOmegaPolicy E p = readPolicy p tagOmegaPolicy (fe_Omega E)"

definition GetHyperPolicy :: "form_env \<Rightarrow> formulator \<Rightarrow> (chain_ctx, hyper_policy) go_meth" where
  "GetHyperPolicy E p = readPolicy p tagHyperPolicy (fe_Hyper E)"

definition GetTransmutePolicy :: "form_env \<Rightarrow> formulator \<Rightarrow> (chain_ctx, transmute_policy) go_meth" where
  "GetTransmutePolicy E p =
     bindE (readE (ctx_ProcessData (fo_pid p) (tag_bytes tagTransmutePolicy))) (\<lambda>bs.
       if length bs = 0 then throwE (FormulatorErr ErrNotExistTransmutePolicy)
       else liftE (snd (fe_Transmute E) bs))"

definition IsRewardBaseUpgrade :: "formulator \<Rightarrow> chain_ctx \<Rightarrow> bool \<times> chain_ctx" where
  "IsRewardBaseUpgrade p ctx =
     (case ctx_ProcessData (fo_pid p) (tag_bytes tagRewardBaseUpgrade) ctx of
        (bs, ctx) \<Rightarrow> (0 < length bs \<and> bs ! 0 = 1, ctx))"

definition setRewardBaseUpgrade :: "formulator \<Rightarrow> bool \<Rightarrow> (chain_ctx, unit) go_meth" where
  "setRewardBaseUpgrade p Enable =
     writeE (ctx_SetProcessData (fo_pid p) (tag_bytes tagRewardBaseUpgrade) (if Enable then [1] else []))"

section \<open>Set-up\<close>

definition formulator_InitPolicy ::
  "form_env \<Rightarrow> formulator \<Rightarrow> reward_policy option \<Rightarrow> alpha_policy option \<Rightarrow> sigma_policy option \<Rightarrow>
   omega_policy option \<Rightarrow> hyper_policy option \<Rightarrow> (chain_ctx, unit) go_meth" where
  "formulator_InitPolicy E p rp ap sp opol hp =
     thenE (writePolicy p tagRewardPolicy (fe_Reward E) rp)
     (thenE (writePolicy p tagAlphaPolicy (fe_Alpha E) ap)
     (thenE (writePolicy p tagSigmaPolicy (fe_Sigma E) sp)
     (thenE (writePolicy p tagOmegaPolicy (fe_Omega E) opol)
     (writePolicy p tagHyperPolicy (fe_Hyper E) hp))))"

definition InitStakingMap :: "form_env \<Rightarrow> formulator \<Rightarrow> address list \<Rightarrow> (chain_ctx, unit) go_meth" where
  "InitStakingMap E p HyperAddresses =
     foreachE (\<lambda>addr.
       bindE (GetStakingAmountMap p addr) (\<lambda>AmountMap.
         let CurrentAmountMap = fold (\<lambda>(a, am). om_put a am) (range_map E 0 AmountMap) []
         in writeE (ctx_SetAccountData addr (fo_pid p) (tag_bytes tagStakingAmountMap)
              (AddressAmountMap_encode (fe_mp E) CurrentAmountMap)))) HyperAddresses"

definition checkPolicySet :: "formulator \<Rightarrow> form_tag \<Rightarrow> formulator_err \<Rightarrow> (chain_ctx, unit) go_meth" where
  "checkPolicySet p tag e =
     bindE (readE (ctx_ProcessData (fo_pid p) (tag_bytes tag))) (\<lambda>bs. failIf (length bs = 0) (FormulatorErr e))"

definition formulator_OnLoadChain :: "formulator \<Rightarrow> (chain_ctx, unit) go_meth" where
  "formulator_OnLoadChain p =
     bindE (AdminAddress (fo_admin p) formulator_Name) (\<lambda>_.
       thenE (checkPolicySet p tagRewardPolicy ErrRewardPolicyShouldBeSetupInApplication)
       (thenE (checkPolicySet p tagAlphaPolicy ErrAlphaPolicyShouldBeSetupInApplication)
       (thenE (checkPolicySet p tagSigmaPolicy ErrSigmaPolicyShouldBeSetupInApplication)
       (thenE (checkPolicySet p tagOmegaPolicy ErrOmegaPolicyShouldBeSetupInApplication)
       (checkPolicySet p tagHyperPolicy ErrHyperPolicyShouldBeSetupInApplication)))))"

section \<open>Formulator accounts\<close>

text \<open>
  The type assertion on an account, with the error of a failed one: \<^verbatim>\<open>ErrInvalidAccountType\<close> where the code
  tests it, a panic where it does not.
\<close>

definition asFormulator :: "err \<Rightarrow> account \<Rightarrow> err + formulator_account" where
  "asFormulator e acc = (case acc of FormulatorAccount frAcc \<Rightarrow> Inr frAcc | _ \<Rightarrow> Inl e)"

definition formulatorAt :: "err \<Rightarrow> address \<Rightarrow> (chain_ctx, formulator_account) go_meth" where
  "formulatorAt e addr = bindE (ctx_Account addr) (\<lambda>acc. liftE (asFormulator e acc))"

definition toHyperFormulator :: "address \<Rightarrow> (chain_ctx, formulator_account) go_meth" where
  "toHyperFormulator addr =
     bindE (formulatorAt (TypesErr ErrInvalidAccountType) addr) (\<lambda>frAcc.
       thenE (failIf (fa_FormulatorType frAcc \<noteq> HyperFormulatorType) (TypesErr ErrInvalidAccountType)) (returnE frAcc))"

text \<open>
  \<^verbatim>\<open>Account\<close> returns a pointer to the object in the account map of the snapshot that was on top at the
  call; \<^verbatim>\<open>DeleteAccount\<close> moves the object to the map of deleted accounts. Reading and assigning its fields
  through the pointer is done on the snapshot \<open>n\<close> places below the top: \<open>n\<close> is 1 when \<^verbatim>\<open>WithFee\<close> has taken a
  snapshot since the call.
\<close>

definition deref :: "nat \<Rightarrow> address \<Rightarrow> (chain_ctx, formulator_account) go_meth" where
  "deref n addr ctx =
     (let ctd = ctx_stack ctx ! n
      in (case om_get (cd_AccountMap ctd) addr of
            Some acc \<Rightarrow> asFormulator Panic acc
          | None \<Rightarrow> (case om_get (cd_DeletedAccountMap ctd) addr of
              Some acc \<Rightarrow> asFormulator Panic acc
            | None \<Rightarrow> Inl Panic), ctx))"

definition assign :: "nat \<Rightarrow> address \<Rightarrow> (formulator_account \<Rightarrow> err + formulator_account) \<Rightarrow> (chain_ctx, unit) go_meth" where
  "assign n addr f =
     bindE (deref n addr) (\<lambda>frAcc.
       bindE (liftE (f frAcc)) (\<lambda>frAcc'.
         writeE (\<lambda>ctx.
           let ctd = ctx_stack ctx ! n; acc = FormulatorAccount frAcc';
               ctd' = (if om_has (cd_AccountMap ctd) addr
                       then ctd\<lparr>cd_AccountMap := om_put addr acc (cd_AccountMap ctd)\<rparr>
                       else ctd\<lparr>cd_DeletedAccountMap := om_put addr acc (cd_DeletedAccountMap ctd)\<rparr>)
           in ctx\<lparr>ctx_stack := (ctx_stack ctx)[n := ctd']\<rparr>)))"

text \<open>\<^verbatim>\<open>frAcc.StakingAmount = frAcc.StakingAmount.Add(am)\<close> and the same with \<^verbatim>\<open>Sub\<close>; a nil amount panics.\<close>

definition mapStaking :: "(amount \<Rightarrow> amount) \<Rightarrow> formulator_account \<Rightarrow> err + formulator_account" where
  "mapStaking f frAcc =
     (case fa_StakingAmount frAcc of None \<Rightarrow> Inl Panic | Some am \<Rightarrow> Inr (frAcc\<lparr>fa_StakingAmount := Some (f am)\<rparr>))"

text \<open>
  The pattern \<^verbatim>\<open>if has, err := HasAccount(addr); err != nil { if err == ErrDeletedAccount { a } else { return err } }
  else if !has { a } else { b }\<close>.
\<close>

definition ifAccount :: "address \<Rightarrow> (chain_ctx, 'a) go_meth \<Rightarrow> (chain_ctx, 'a) go_meth \<Rightarrow> (chain_ctx, 'a) go_meth" where
  "ifAccount addr b a ctx =
     (case ctx_HasAccount addr ctx of
        (Inl e, ctx) \<Rightarrow> if e = TypesErr ErrDeletedAccount then a ctx else (Inl e, ctx)
      | (Inr has, ctx) \<Rightarrow> if \<not> has then a ctx else b ctx)"

section \<open>Revocation\<close>

definition payHeritor :: "formulator \<Rightarrow> address \<Rightarrow> address \<Rightarrow> amount \<Rightarrow> (chain_ctx, unit) go_meth" where
  "payHeritor p FormulatorAddr Heritor am =
     thenE (AddBalance (fo_vault p) Heritor am)
       (bindE (readE (Balance (fo_vault p) FormulatorAddr)) (\<lambda>b.
         thenE (AddBalance (fo_vault p) Heritor b) (RemoveBalance (fo_vault p) FormulatorAddr)))"

definition returnStaking :: "formulator \<Rightarrow> address \<Rightarrow> address \<Rightarrow> amount \<Rightarrow> (chain_ctx, unit) go_meth" where
  "returnStaking p FormulatorAddr addr StakingAmount =
     thenE (failIf (am_IsZero StakingAmount) (FormulatorErr ErrInvalidStakingAddress))
     (thenE (assign 0 FormulatorAddr (\<lambda>frAcc.
        case fa_StakingAmount frAcc of
          None \<Rightarrow> Inl Panic
        | Some am \<Rightarrow>
            if am_Less am StakingAmount then Inl (FormulatorErr ErrCriticalStakingAmount)
            else Inr (frAcc\<lparr>fa_StakingAmount := Some (am_Sub am StakingAmount)\<rparr>)))
     (AddBalance (fo_vault p) addr StakingAmount))"

definition revokeFormulator :: "form_env \<Rightarrow> formulator \<Rightarrow> address \<Rightarrow> address \<Rightarrow> (chain_ctx, unit) go_meth" where
  "revokeFormulator E p FormulatorAddr Heritor =
     bindE (formulatorAt (TypesErr ErrInvalidAccountType) FormulatorAddr) (\<lambda>frAcc.
       thenE (ifAccount Heritor (payHeritor p FormulatorAddr Heritor (fa_Amount frAcc)) (returnE ()))
       (thenE
         (if fa_FormulatorType frAcc = HyperFormulatorType
          then bindE (GetStakingAmountMap p FormulatorAddr) (\<lambda>StakingAmountMap.
                 thenE (foreachE (\<lambda>(addr, am). returnStaking p FormulatorAddr addr am) (range_map E 0 StakingAmountMap))
                   (bindE (deref 0 FormulatorAddr) (\<lambda>frAcc.
                     bindE (liftE (orPanic (fa_StakingAmount frAcc))) (\<lambda>am.
                       failIf (\<not> am_IsZero am) (FormulatorErr ErrCriticalStakingAmount)))))
          else returnE ())
       (thenE (bindE (deref 0 FormulatorAddr) (\<lambda>frAcc. ctx_DeleteAccount (FormulatorAccount frAcc)))
         (\<lambda>ctx. ctx_EmitEvent \<lparr>ev_Height = ctx_TargetHeight ctx, ev_Index = 65535, ev_N = 0,
                   ev_Body = RevokedEvent FormulatorAddr\<rparr> ctx))))"

text \<open>\<^verbatim>\<open>if err := CheckFeePayable(p, ctw, tx); err != nil { b } else { a }\<close>.\<close>

definition ifPayable :: "formulator \<Rightarrow> address \<Rightarrow> (chain_ctx, unit) go_meth \<Rightarrow> (chain_ctx, unit) go_meth \<Rightarrow> (chain_ctx, unit) go_meth" where
  "ifPayable p From a b ctx =
     (case CheckFeePayable (fo_vault p) From (GetDefaultFee (fo_vault p)) ctx of
        (Inl e, ctx) \<Rightarrow> if e = Panic then (Inl Panic, ctx) else b ctx
      | (Inr _, ctx) \<Rightarrow> a ctx)"

end
