(* ===== verification/Formulator_Tx.thy ===== *)
theory Formulator_Tx
  imports Formulator
begin

text \<open>
  The transactions of \<^verbatim>\<open>process/formulator\<close>: \<^verbatim>\<open>Validate\<close> and \<^verbatim>\<open>Execute\<close> of the twenty registered types, in
  the order of their files. Every \<^verbatim>\<open>Fee\<close> method returns \<^verbatim>\<open>GetDefaultFee\<close>; the transactions without one are
  free. Heights are added at 32 bits, as in the code.
\<close>

section \<open>Shared steps\<close>

definition formFee :: "formulator \<Rightarrow> chain_ctx \<Rightarrow> amount \<times> chain_ctx" where
  "formFee p = GetDefaultFee (fo_vault p)"

text \<open>\<^verbatim>\<open>frAcc\<close> of a checked assertion, then the check of its signers.\<close>

definition checkedFormulator :: "address \<Rightarrow> (chain_ctx, formulator_account) go_meth" where
  "checkedFormulator addr = formulatorAt (TypesErr ErrInvalidAccountType) addr"

definition newAddress :: "formulator \<Rightarrow> u16 \<Rightarrow> chain_ctx \<Rightarrow> address" where
  "newAddress p index ctx = NewAddress (ctx_TargetHeight ctx) index (fo_magic p)"

section \<open>Creation\<close>

record create_alpha =
  cal_Timestamp :: u64
  cal_From :: address
  cal_Name :: string
  cal_KeyHash :: pubhash
  cal_GenHash :: pubhash

definition CreateAlpha_Validate :: "form_env \<Rightarrow> formulator \<Rightarrow> create_alpha \<Rightarrow> pubhash list \<Rightarrow> (chain_ctx, unit) go_meth" where
  "CreateAlpha_Validate E p tx signers =
     thenE (failIf (\<not> IsAllowedAccountName (fe_base58 E) (cal_Name tx)) (TypesErr ErrInvalidAccountName))
     (thenE (checkNameFree (cal_Name tx))
     (thenE (validateFrom (cal_From tx) signers)
     (bindE (GetAlphaPolicy E p) (\<lambda>policy.
       thenE (\<lambda>ctx. failIf (ctx_TargetHeight ctx < ap_AlphaCreationLimitHeight policy) (FormulatorErr ErrAlphaCreationLimited) ctx)
         (CheckFeePayableWith (fo_vault p) (cal_From tx) (formFee p) (Some (ap_AlphaCreationAmount policy)))))))"

definition newAlpha :: "form_env \<Rightarrow> formulator \<Rightarrow> string \<Rightarrow> pubhash \<Rightarrow> pubhash \<Rightarrow> amount \<Rightarrow> u16 \<Rightarrow> (chain_ctx, unit) go_meth" where
  "newAlpha E p nm KeyHash GenHash am index ctx =
     ctx_CreateAccount (fe_base58 E) (FormulatorAccount
       \<lparr>fa_Address = newAddress p index ctx, fa_Name = nm, fa_FormulatorType = AlphaFormulatorType,
        fa_KeyHash = KeyHash, fa_GenHash = GenHash, fa_Amount = am, fa_IsRevoked = False, fa_PreHeight = 0,
        fa_UpdatedHeight = ctx_TargetHeight ctx, fa_RewardCount = 0, fa_StakingAmount = None, fa_Policy = None\<rparr>) ctx"

definition CreateAlpha_Execute :: "form_env \<Rightarrow> formulator \<Rightarrow> create_alpha \<Rightarrow> u16 \<Rightarrow> (chain_ctx, unit) go_meth" where
  "CreateAlpha_Execute E p tx index =
     WithFee (fo_vault p) (cal_From tx) (formFee p)
       (bindE (GetAlphaPolicy E p) (\<lambda>policy.
         thenE (SubBalance (fo_vault p) (cal_From tx) (ap_AlphaCreationAmount policy))
           (newAlpha E p (cal_Name tx) (cal_KeyHash tx) (cal_GenHash tx) (ap_AlphaCreationAmount policy) index)))"

text \<open>
  \<^verbatim>\<open>CreateSigma\<close> and \<^verbatim>\<open>CreateOmega\<close> are two copies of one text that differ in the type, the policy and the
  error: the check of one formulator of the list, and the merge of the others into the first.
\<close>

definition checkMember ::
  "formulator \<Rightarrow> formulator_type \<Rightarrow> u32 \<Rightarrow> reward_policy \<Rightarrow> address \<Rightarrow> pubhash \<Rightarrow> (chain_ctx, unit) go_meth" where
  "checkMember p ftype required rewardPolicy From keyHash =
     bindE (checkedFormulator From) (\<lambda>frAcc.
       thenE (failIf (fa_FormulatorType frAcc \<noteq> ftype) (TypesErr ErrInvalidAccountType))
       (thenE (\<lambda>ctx. failIf (ctx_TargetHeight ctx + fa_PreHeight frAcc < fa_UpdatedHeight frAcc + required)
                 (FormulatorErr ErrInsufficientFormulatorBlocks) ctx)
       (thenE (liftE (fa_Validate frAcc [keyHash]))
       (bindE (readE (IsRewardBaseUpgrade p)) (\<lambda>upgraded.
         failIf (upgraded \<and> fa_RewardCount frAcc * rp_PayRewardEveryBlocks rewardPolicy + fa_PreHeight frAcc < required)
           (FormulatorErr ErrInsufficientFormulatorRewardCount))))))"

definition checkMembers ::
  "form_env \<Rightarrow> formulator \<Rightarrow> formulator_type \<Rightarrow> formulator_err \<Rightarrow> u32 \<Rightarrow> u32 \<Rightarrow> address \<Rightarrow> address list \<Rightarrow> pubhash list \<Rightarrow>
   (chain_ctx, unit) go_meth" where
  "checkMembers E p ftype notAllowed count required From addrs signers =
     thenE (failIf (count = 0) (FormulatorErr notAllowed))
     (thenE (failIf (length addrs \<noteq> unat count) (FormulatorErr ErrInvalidFormulatorCount))
     (bindE (GetRewardPolicy E p) (\<lambda>rewardPolicy.
       thenE (foreachE (\<lambda>(addr, keyHash). checkMember p ftype required rewardPolicy addr keyHash) (zip addrs signers))
         (CheckFeePayable (fo_vault p) From (formFee p)))))"

definition checkFirst :: "address \<Rightarrow> address list \<Rightarrow> pubhash list \<Rightarrow> (chain_ctx, unit) go_meth" where
  "checkFirst From addrs signers =
     thenE (failIf (addrs = []) Panic)
     (thenE (failIf (From \<noteq> addrs ! 0) (FormulatorErr ErrInvalidFormulatorAddress))
     (failIf (length addrs \<noteq> length signers) (TypesErr ErrInvalidSignerCount)))"

definition mergeMember :: "formulator \<Rightarrow> address \<Rightarrow> address \<Rightarrow> (chain_ctx, unit) go_meth" where
  "mergeMember p first addr =
     bindE (formulatorAt Panic addr) (\<lambda>subAcc.
     bindE (readE (Balance (fo_vault p) addr)) (\<lambda>b.
       thenE (AddBalance (fo_vault p) first b)
       (thenE (RemoveBalance (fo_vault p) addr)
       (thenE (assign 0 first (\<lambda>frAcc. Inr (frAcc\<lparr>fa_Amount := am_Add (fa_Amount frAcc) (fa_Amount subAcc)\<rparr>)))
              (bindE (deref 0 addr) (\<lambda>subAcc. ctx_DeleteAccount (FormulatorAccount subAcc)))))))"

definition mergeMembers :: "formulator \<Rightarrow> formulator_type \<Rightarrow> address list \<Rightarrow> (chain_ctx, unit) go_meth" where
  "mergeMembers p ftype addrs =
     (case addrs of
        [] \<Rightarrow> throwE Panic
      | first # rest \<Rightarrow>
          bindE (formulatorAt Panic first) (\<lambda>_.
            thenE (foreachE (mergeMember p first) rest)
              (\<lambda>ctx. assign 0 first (\<lambda>frAcc. Inr (frAcc\<lparr>fa_FormulatorType := ftype, fa_PreHeight := 0,
                 fa_UpdatedHeight := ctx_TargetHeight ctx, fa_RewardCount := 0\<rparr>)) ctx)))"

record create_sigma =
  csg_Timestamp :: u64
  csg_From :: address
  csg_AlphaFormulators :: "address list"

definition CreateSigma_Validate :: "form_env \<Rightarrow> formulator \<Rightarrow> create_sigma \<Rightarrow> pubhash list \<Rightarrow> (chain_ctx, unit) go_meth" where
  "CreateSigma_Validate E p tx signers =
     thenE (checkFirst (csg_From tx) (csg_AlphaFormulators tx) signers)
     (bindE (GetSigmaPolicy E p) (\<lambda>policy.
       checkMembers E p AlphaFormulatorType ErrSigmaCreationNotAllowed (sp_SigmaRequiredAlphaCount policy)
         (sp_SigmaRequiredAlphaBlocks policy) (csg_From tx) (csg_AlphaFormulators tx) signers))"

definition CreateSigma_Execute :: "form_env \<Rightarrow> formulator \<Rightarrow> create_sigma \<Rightarrow> u16 \<Rightarrow> (chain_ctx, unit) go_meth" where
  "CreateSigma_Execute E p tx index =
     WithFee (fo_vault p) (csg_From tx) (formFee p)
       (bindE (GetSigmaPolicy E p) (\<lambda>_. mergeMembers p SigmaFormulatorType (csg_AlphaFormulators tx)))"

record create_omega =
  com_Timestamp :: u64
  com_From :: address
  com_SigmaFormulators :: "address list"

definition CreateOmega_Validate :: "form_env \<Rightarrow> formulator \<Rightarrow> create_omega \<Rightarrow> pubhash list \<Rightarrow> (chain_ctx, unit) go_meth" where
  "CreateOmega_Validate E p tx signers =
     thenE (checkFirst (com_From tx) (com_SigmaFormulators tx) signers)
     (bindE (GetOmegaPolicy E p) (\<lambda>policy.
       checkMembers E p SigmaFormulatorType ErrOmegaCreationNotAllowed (op_OmegaRequiredSigmaCount policy)
         (op_OmegaRequiredSigmaBlocks policy) (com_From tx) (com_SigmaFormulators tx) signers))"

definition CreateOmega_Execute :: "form_env \<Rightarrow> formulator \<Rightarrow> create_omega \<Rightarrow> u16 \<Rightarrow> (chain_ctx, unit) go_meth" where
  "CreateOmega_Execute E p tx index =
     WithFee (fo_vault p) (com_From tx) (formFee p)
       (bindE (GetOmegaPolicy E p) (\<lambda>_. mergeMembers p OmegaFormulatorType (com_SigmaFormulators tx)))"

record create_hyper =
  chy_Timestamp :: u64
  chy_From :: address
  chy_Name :: string
  chy_KeyHash :: pubhash
  chy_GenHash :: pubhash
  chy_Policy :: "validator_policy option"

definition CreateHyper_Validate :: "formulator \<Rightarrow> create_hyper \<Rightarrow> pubhash list \<Rightarrow> (chain_ctx, unit) go_meth" where
  "CreateHyper_Validate p tx signers =
     thenE (checkAdmin (fo_admin p) formulator_Name (chy_From tx))
     (thenE (case chy_Policy tx of
               None \<Rightarrow> throwE (FormulatorErr ErrInvalidValidatorPolicy)
             | Some policy \<Rightarrow> failIf (1000 < vp_CommissionRatio1000 policy) (FormulatorErr ErrInvalidValidatorPolicy))
     (thenE (\<lambda>ctx. case ctx_HasAccountName (chy_Name tx) ctx of
               (r, ctx) \<Rightarrow> (check_absent [TypesErr ErrDeletedAccount] (TypesErr ErrExistAccountName) r, ctx))
     (validateFrom (chy_From tx) signers)))"

definition CreateHyper_Execute :: "form_env \<Rightarrow> formulator \<Rightarrow> create_hyper \<Rightarrow> u16 \<Rightarrow> (chain_ctx, unit) go_meth" where
  "CreateHyper_Execute E p tx index =
     bindE (GetHyperPolicy E p) (\<lambda>policy.
       thenE (SubBalance (fo_vault p) (chy_From tx) (hp_HyperCreationAmount policy))
         (\<lambda>ctx. ctx_CreateAccountIgnoreDelete (fe_base58 E) (FormulatorAccount
            \<lparr>fa_Address = newAddress p index ctx, fa_Name = chy_Name tx, fa_FormulatorType = HyperFormulatorType,
             fa_KeyHash = chy_KeyHash tx, fa_GenHash = chy_GenHash tx, fa_Amount = hp_HyperCreationAmount policy,
             fa_IsRevoked = False, fa_PreHeight = 0, fa_UpdatedHeight = ctx_TargetHeight ctx, fa_RewardCount = 0,
             fa_StakingAmount = Some (NewCoinAmount 0 0), fa_Policy = chy_Policy tx\<rparr>) ctx))"

section \<open>Revocation\<close>

record revoke =
  rvk_Timestamp :: u64
  rvk_From :: address
  rvk_Heritor :: address

definition Revoke_Validate :: "formulator \<Rightarrow> revoke \<Rightarrow> pubhash list \<Rightarrow> (chain_ctx, unit) go_meth" where
  "Revoke_Validate p tx signers =
     thenE (failIf (rvk_From tx = rvk_Heritor tx) (FormulatorErr ErrInvalidHeritor))
     (thenE (checkAccountExists (rvk_Heritor tx))
     (bindE (checkedFormulator (rvk_From tx)) (\<lambda>frAcc.
       thenE (failIf (fa_IsRevoked frAcc) (FormulatorErr ErrRevokedFormulator))
       (thenE (liftE (fa_Validate frAcc signers))
       (CheckFeePayable (fo_vault p) (rvk_From tx) (formFee p))))))"

definition unlockBlocks :: "form_env \<Rightarrow> formulator \<Rightarrow> formulator_type \<Rightarrow> (chain_ctx, u32) go_meth" where
  "unlockBlocks E p ftype =
     (case ftype of
        AlphaFormulatorType \<Rightarrow> bindE (GetAlphaPolicy E p) (\<lambda>policy. returnE (ap_AlphaUnlockRequiredBlocks policy))
      | SigmaFormulatorType \<Rightarrow> bindE (GetSigmaPolicy E p) (\<lambda>policy. returnE (sp_SigmaUnlockRequiredBlocks policy))
      | OmegaFormulatorType \<Rightarrow> bindE (GetOmegaPolicy E p) (\<lambda>policy. returnE (op_OmegaUnlockRequiredBlocks policy))
      | HyperFormulatorType \<Rightarrow> bindE (GetHyperPolicy E p) (\<lambda>policy. returnE (hp_HyperUnlockRequiredBlocks policy)))"

definition Revoke_Execute :: "form_env \<Rightarrow> formulator \<Rightarrow> revoke \<Rightarrow> u16 \<Rightarrow> (chain_ctx, unit) go_meth" where
  "Revoke_Execute E p tx index =
     WithFee (fo_vault p) (rvk_From tx) (formFee p)
       (bindE (formulatorAt Panic (rvk_From tx)) (\<lambda>frAcc.
         thenE (assign 0 (rvk_From tx) (\<lambda>frAcc. Inr (frAcc\<lparr>fa_IsRevoked := True\<rparr>)))
         (bindE (unlockBlocks E p (fa_FormulatorType frAcc)) (\<lambda>blocks ctx.
           addRevokedFormulator p (fa_Address frAcc) (ctx_TargetHeight ctx + blocks) (rvk_Heritor tx) ctx))))"

record revert_revoke =
  rrv_Timestamp :: u64
  rrv_From :: address

definition RevertRevoke_Validate :: "formulator \<Rightarrow> revert_revoke \<Rightarrow> pubhash list \<Rightarrow> (chain_ctx, unit) go_meth" where
  "RevertRevoke_Validate p tx signers =
     bindE (checkedFormulator (rrv_From tx)) (\<lambda>frAcc.
       thenE (failIf (\<not> fa_IsRevoked frAcc) (FormulatorErr ErrNotRevoked))
       (thenE (liftE (fa_Validate frAcc signers))
       (CheckFeePayable (fo_vault p) (rrv_From tx) (formFee p))))"

definition RevertRevoke_Execute :: "formulator \<Rightarrow> revert_revoke \<Rightarrow> u16 \<Rightarrow> (chain_ctx, unit) go_meth" where
  "RevertRevoke_Execute p tx index =
     WithFee (fo_vault p) (rrv_From tx) (formFee p)
       (bindE (formulatorAt Panic (rrv_From tx)) (\<lambda>frAcc.
         thenE (assign 0 (rrv_From tx) (\<lambda>frAcc. Inr (frAcc\<lparr>fa_IsRevoked := False\<rparr>)))
               (removeRevokedFormulator p (fa_Address frAcc))))"

record revoke_admin =
  rad_Timestamp :: u64
  rad_From :: address
  rad_Formulator :: address
  rad_Heritor :: address

definition RevokeAdmin_Validate :: "formulator \<Rightarrow> revoke_admin \<Rightarrow> pubhash list \<Rightarrow> (chain_ctx, unit) go_meth" where
  "RevokeAdmin_Validate p tx signers =
     thenE (checkAdmin (fo_admin p) formulator_Name (rad_From tx))
     (thenE (failIf (rad_Formulator tx = rad_Heritor tx) (FormulatorErr ErrInvalidHeritor))
     (thenE (checkAccountExists (rad_Heritor tx))
     (thenE (validateFrom (rad_From tx) signers)
     (bindE (checkedFormulator (rad_Formulator tx)) (\<lambda>frAcc.
       thenE (failIf (fa_IsRevoked frAcc) (FormulatorErr ErrRevokedFormulator))
       (CheckFeePayable (fo_vault p) (rad_From tx) (formFee p)))))))"

definition RevokeAdmin_Execute :: "form_env \<Rightarrow> formulator \<Rightarrow> revoke_admin \<Rightarrow> u16 \<Rightarrow> (chain_ctx, unit) go_meth" where
  "RevokeAdmin_Execute E p tx index =
     WithFee (fo_vault p) (rad_From tx) (formFee p)
       (bindE (formulatorAt Panic (rad_Formulator tx)) (\<lambda>_.
         thenE (assign 0 (rad_Formulator tx) (\<lambda>frAcc. Inr (frAcc\<lparr>fa_IsRevoked := True\<rparr>)))
               (revokeFormulator E p (rad_Formulator tx) (rad_Heritor tx))))"

section \<open>Staking\<close>

record staking =
  stk_Timestamp :: u64
  stk_From :: address
  stk_HyperFormulator :: address
  stk_Amount :: amount

text \<open>The tests on a hyper formulator coins are staked at.\<close>

definition checkMinimum :: "formulator_account \<Rightarrow> amount \<Rightarrow> (chain_ctx, unit) go_meth" where
  "checkMinimum frAcc am =
     thenE (failIf (fa_IsRevoked frAcc) (FormulatorErr ErrRevokedFormulator))
     (bindE (liftE (orPanic (fa_Policy frAcc))) (\<lambda>policy.
       failIf (\<not> am_IsZero (vp_MinimumStaking policy) \<and> am_Less am (vp_MinimumStaking policy))
         (FormulatorErr ErrInvalidStakingAmount)))"

definition Staking_Validate :: "formulator \<Rightarrow> staking \<Rightarrow> pubhash list \<Rightarrow> (chain_ctx, unit) go_meth" where
  "Staking_Validate p tx signers =
     bindE (liftE (orPanic (am_DivC COIN 10))) (\<lambda>least.
       thenE (failIf (am_Less (stk_Amount tx) least) (FormulatorErr ErrInvalidStakingAmount))
       (thenE (failIf (stk_From tx = stk_HyperFormulator tx) (FormulatorErr ErrInvalidStakingAddress))
       (bindE (toHyperFormulator (stk_HyperFormulator tx)) (\<lambda>frAcc.
         thenE (checkMinimum frAcc (stk_Amount tx))
         (thenE (validateFrom (stk_From tx) signers)
         (CheckFeePayableWith (fo_vault p) (stk_From tx) (formFee p) (Some (stk_Amount tx))))))))"

definition Staking_Execute :: "formulator \<Rightarrow> staking \<Rightarrow> u16 \<Rightarrow> (chain_ctx, unit) go_meth" where
  "Staking_Execute p tx index =
     WithFee (fo_vault p) (stk_From tx) (formFee p)
       (bindE (formulatorAt Panic (stk_HyperFormulator tx)) (\<lambda>_.
       bindE (ctx_Account (stk_From tx)) (\<lambda>fromAcc.
         thenE (SubBalance (fo_vault p) (acc_Address fromAcc) (stk_Amount tx))
         (thenE (AddStakingAmount p (stk_HyperFormulator tx) (stk_From tx) (stk_Amount tx))
                (assign 0 (stk_HyperFormulator tx) (mapStaking (\<lambda>am. am_Add am (stk_Amount tx))))))))"

record unstaking =
  ust_Timestamp :: u64
  ust_From :: address
  ust_HyperFormulator :: address
  ust_Amount :: amount

text \<open>The stake of an account at a hyper formulator and the sum of the formulator both cover the amount.\<close>

definition checkStaked :: "formulator \<Rightarrow> address \<Rightarrow> address \<Rightarrow> formulator_account \<Rightarrow> amount \<Rightarrow> (chain_ctx, unit) go_meth" where
  "checkStaked p HyperAddress From frAcc am =
     bindE (readE (GetStakingAmount p HyperAddress From)) (\<lambda>fromStakingAmount.
       thenE (failIf (am_Less fromStakingAmount am) (FormulatorErr ErrInsufficientStakingAmount))
       (bindE (liftE (orPanic (fa_StakingAmount frAcc))) (\<lambda>st.
         failIf (am_Less st am) (FormulatorErr ErrInsufficientStakingAmount))))"

definition Unstaking_Validate :: "formulator \<Rightarrow> unstaking \<Rightarrow> pubhash list \<Rightarrow> (chain_ctx, unit) go_meth" where
  "Unstaking_Validate p tx signers =
     thenE (failIf (am_Less (ust_Amount tx) COIN) (FormulatorErr ErrInvalidStakingAmount))
     (bindE (toHyperFormulator (ust_HyperFormulator tx)) (\<lambda>frAcc.
       thenE (validateFrom (ust_From tx) signers)
         (checkStaked p (ust_HyperFormulator tx) (ust_From tx) frAcc (ust_Amount tx))))"

definition Unstaking_Execute :: "form_env \<Rightarrow> formulator \<Rightarrow> unstaking \<Rightarrow> u16 \<Rightarrow> (chain_ctx, unit) go_meth" where
  "Unstaking_Execute E p tx index =
     bindE (formulatorAt Panic (ust_HyperFormulator tx)) (\<lambda>_.
       thenE (subStakingAmount p (ust_HyperFormulator tx) (ust_From tx) (ust_Amount tx))
       (thenE (assign 0 (ust_HyperFormulator tx) (mapStaking (\<lambda>am. am_Sub am (ust_Amount tx))))
       (bindE (GetHyperPolicy E p) (\<lambda>policy.
         let unstake = (\<lambda>am ctx. addUnstakingAmount E p (ust_HyperFormulator tx) (ust_From tx)
               (ctx_TargetHeight ctx + hp_StakingUnlockRequiredBlocks policy) am ctx)
         in ifPayable p (ust_From tx)
              (WithFee (fo_vault p) (ust_From tx) (formFee p) (unstake (ust_Amount tx)))
              (bindE (readE (formFee p)) (\<lambda>Fee.
                thenE (AddCollectedFee (fo_vault p) Fee) (unstake (am_Sub (ust_Amount tx) Fee))))))))"

record revert_unstaking =
  rus_Timestamp :: u64
  rus_From :: address
  rus_HyperFormulator :: address
  rus_UnstakedHeight :: u32
  rus_Amount :: amount

definition RevertUnstaking_Validate :: "form_env \<Rightarrow> formulator \<Rightarrow> revert_unstaking \<Rightarrow> pubhash list \<Rightarrow> (chain_ctx, unit) go_meth" where
  "RevertUnstaking_Validate E p tx signers =
     thenE (failIf (am_Less (rus_Amount tx) COIN) (FormulatorErr ErrInvalidStakingAmount))
     (bindE (toHyperFormulator (rus_HyperFormulator tx)) (\<lambda>frAcc.
       thenE (validateFrom (rus_From tx) signers)
       (bindE (getUnstakingAmount E p (rus_HyperFormulator tx) (rus_From tx) (rus_UnstakedHeight tx)) (\<lambda>am.
         failIf (am_Less am (rus_Amount tx)) (FormulatorErr ErrMinustUnstakingAmount)))))"

text \<open>Staking again, with the formulator object \<open>n\<close> snapshots below the top.\<close>

definition restake :: "formulator \<Rightarrow> nat \<Rightarrow> address \<Rightarrow> address \<Rightarrow> amount \<Rightarrow> (chain_ctx, unit) go_meth" where
  "restake p n HyperAddress From am =
     thenE (AddStakingAmount p HyperAddress From am) (assign n HyperAddress (mapStaking (\<lambda>st. am_Add st am)))"

definition restakeWithFee :: "formulator \<Rightarrow> address \<Rightarrow> address \<Rightarrow> amount \<Rightarrow> (chain_ctx, unit) go_meth" where
  "restakeWithFee p HyperAddress From am =
     ifPayable p From
       (WithFee (fo_vault p) From (formFee p) (restake p 1 HyperAddress From am))
       (bindE (readE (formFee p)) (\<lambda>Fee.
         thenE (AddCollectedFee (fo_vault p) Fee) (restake p 0 HyperAddress From (am_Sub am Fee))))"

definition RevertUnstaking_Execute :: "form_env \<Rightarrow> formulator \<Rightarrow> revert_unstaking \<Rightarrow> u16 \<Rightarrow> (chain_ctx, unit) go_meth" where
  "RevertUnstaking_Execute E p tx index =
     bindE (formulatorAt Panic (rus_HyperFormulator tx)) (\<lambda>_.
       thenE (subUnstakingAmount E p (rus_HyperFormulator tx) (rus_From tx) (rus_UnstakedHeight tx) (rus_Amount tx))
             (restakeWithFee p (rus_HyperFormulator tx) (rus_From tx) (rus_Amount tx)))"

record change_staking =
  cst_Timestamp :: u64
  cst_From :: address
  cst_HyperUnstaking :: address
  cst_HyperStaking :: address
  cst_Amount :: amount

definition ChangeStaking_Validate :: "formulator \<Rightarrow> change_staking \<Rightarrow> pubhash list \<Rightarrow> (chain_ctx, unit) go_meth" where
  "ChangeStaking_Validate p tx signers =
     bindE (liftE (orPanic (am_DivC COIN 10))) (\<lambda>least.
       thenE (failIf (am_Less (cst_Amount tx) least) (FormulatorErr ErrInvalidStakingAmount))
       (thenE (failIf (cst_From tx = cst_HyperStaking tx) (FormulatorErr ErrInvalidStakingAddress))
       (bindE (toHyperFormulator (cst_HyperUnstaking tx)) (\<lambda>frUnstaking.
         thenE (checkStaked p (cst_HyperUnstaking tx) (cst_From tx) frUnstaking (cst_Amount tx))
         (bindE (toHyperFormulator (cst_HyperStaking tx)) (\<lambda>frStaking.
           thenE (checkMinimum frStaking (cst_Amount tx)) (validateFrom (cst_From tx) signers)))))))"

definition ChangeStaking_Execute :: "formulator \<Rightarrow> change_staking \<Rightarrow> u16 \<Rightarrow> (chain_ctx, unit) go_meth" where
  "ChangeStaking_Execute p tx index =
     bindE (toHyperFormulator (cst_HyperUnstaking tx)) (\<lambda>_.
       thenE (subStakingAmount p (cst_HyperUnstaking tx) (cst_From tx) (cst_Amount tx))
       (thenE (assign 0 (cst_HyperUnstaking tx) (mapStaking (\<lambda>am. am_Sub am (cst_Amount tx))))
       (bindE (toHyperFormulator (cst_HyperStaking tx)) (\<lambda>_.
         restakeWithFee p (cst_HyperStaking tx) (cst_From tx) (cst_Amount tx)))))"

record update_user_auto_staking =
  uas_Timestamp :: u64
  uas_From :: address
  uas_HyperFormulator :: address
  uas_AutoStaking :: bool

definition UpdateUserAutoStaking_Validate :: "formulator \<Rightarrow> update_user_auto_staking \<Rightarrow> pubhash list \<Rightarrow> (chain_ctx, unit) go_meth" where
  "UpdateUserAutoStaking_Validate p tx signers =
     bindE (toHyperFormulator (uas_HyperFormulator tx)) (\<lambda>_.
       thenE (validateFrom (uas_From tx) signers) (CheckFeePayable (fo_vault p) (uas_From tx) (formFee p)))"

definition UpdateUserAutoStaking_Execute :: "formulator \<Rightarrow> update_user_auto_staking \<Rightarrow> u16 \<Rightarrow> (chain_ctx, unit) go_meth" where
  "UpdateUserAutoStaking_Execute p tx index =
     WithFee (fo_vault p) (uas_From tx) (formFee p)
       (bindE (formulatorAt Panic (uas_HyperFormulator tx)) (\<lambda>frAcc.
         setUserAutoStaking p (fa_Address frAcc) (uas_From tx) (uas_AutoStaking tx)))"

section \<open>Transmute\<close>

record transmute =
  tmt_Timestamp :: u64
  tmt_From :: address
  tmt_Name :: string
  tmt_KeyHash :: pubhash
  tmt_GenHash :: pubhash
  tmt_HyperFormulators :: "address list"
  tmt_Amounts :: "amount list"

definition checkTransmuteHeight :: "form_env \<Rightarrow> formulator \<Rightarrow> (chain_ctx, unit) go_meth" where
  "checkTransmuteHeight E p =
     bindE (GetTransmutePolicy E p) (\<lambda>policy ctx.
       failIf (ctx_TargetHeight ctx < tp_TransmuteEnableHeightFrom policy \<or>
               tp_TransmuteEnableHeightTo policy < ctx_TargetHeight ctx) (FormulatorErr ErrInvalidTransmuteHeight) ctx)"

text \<open>The loop over the formulators, with \<^verbatim>\<open>am := tx.Amounts[i]\<close>.\<close>

definition eachTransmuted :: "transmute \<Rightarrow> (address \<Rightarrow> amount \<Rightarrow> (chain_ctx, unit) go_meth) \<Rightarrow> (chain_ctx, unit) go_meth" where
  "eachTransmuted tx f =
     foreachE (\<lambda>(i, haddr).
       thenE (failIf (length (tmt_Amounts tx) \<le> i) Panic) (f haddr (tmt_Amounts tx ! i)))
       (enumerate 0 (tmt_HyperFormulators tx))"

definition Transmute_Validate :: "form_env \<Rightarrow> formulator \<Rightarrow> transmute \<Rightarrow> pubhash list \<Rightarrow> (chain_ctx, unit) go_meth" where
  "Transmute_Validate E p tx signers =
     thenE (failIf (\<not> IsAllowedAccountName (fe_base58 E) (tmt_Name tx)) (TypesErr ErrInvalidAccountName))
     (thenE (checkTransmuteHeight E p)
     (thenE (failIf (10 < length (tmt_Amounts tx)) (FormulatorErr ErrInvalidTransmuteCount))
     (thenE (failIf (length (tmt_Amounts tx) \<noteq> length (tmt_HyperFormulators tx)) (FormulatorErr ErrInvalidTransmuteCount))
     (thenE (checkNameFree (tmt_Name tx))
     (bindE (GetAlphaPolicy E p) (\<lambda>alphaPolicy.
       thenE (\<lambda>ctx. failIf (ctx_TargetHeight ctx < ap_AlphaCreationLimitHeight alphaPolicy) (FormulatorErr ErrAlphaCreationLimited) ctx)
       (thenE (foreachE (\<lambda>am. failIf (am_Less am COIN) (FormulatorErr ErrInvalidStakingAmount)) (tmt_Amounts tx))
       (thenE (failIf (\<not> am_Equal (fold (\<lambda>am am0. am_Add am0 am) (tmt_Amounts tx) (NewCoinAmount 0 0))
                 (ap_AlphaCreationAmount alphaPolicy)) (FormulatorErr ErrInvalidTransmuteAmount))
       (thenE (eachTransmuted tx (\<lambda>haddr am.
          bindE (toHyperFormulator haddr) (\<lambda>frAcc. checkStaked p haddr (tmt_From tx) frAcc am)))
       (validateFrom (tmt_From tx) signers))))))))))"

definition Transmute_Execute :: "form_env \<Rightarrow> formulator \<Rightarrow> transmute \<Rightarrow> u16 \<Rightarrow> (chain_ctx, unit) go_meth" where
  "Transmute_Execute E p tx index =
     thenE (checkTransmuteHeight E p)
     (thenE (eachTransmuted tx (\<lambda>haddr am.
        bindE (formulatorAt Panic haddr) (\<lambda>_.
          thenE (subStakingAmount p haddr (tmt_From tx) am) (assign 0 haddr (mapStaking (\<lambda>am0. am_Sub am0 am))))))
     (bindE (GetAlphaPolicy E p) (\<lambda>policy.
       newAlpha E p (tmt_Name tx) (tmt_KeyHash tx) (tmt_GenHash tx) (ap_AlphaCreationAmount policy) index)))"

section \<open>Changes of an account\<close>

record change_owner =
  cow_Timestamp :: u64
  cow_From :: address
  cow_KeyHash :: pubhash
  cow_GenHash :: pubhash

definition ChangeOwner_Validate :: "formulator \<Rightarrow> change_owner \<Rightarrow> pubhash list \<Rightarrow> (chain_ctx, unit) go_meth" where
  "ChangeOwner_Validate p tx signers =
     bindE (checkedFormulator (cow_From tx)) (\<lambda>frAcc.
       thenE (liftE (fa_Validate frAcc signers)) (CheckFeePayable (fo_vault p) (cow_From tx) (formFee p)))"

definition ChangeOwner_Execute :: "formulator \<Rightarrow> change_owner \<Rightarrow> u16 \<Rightarrow> (chain_ctx, unit) go_meth" where
  "ChangeOwner_Execute p tx index =
     WithFee (fo_vault p) (cow_From tx) (formFee p)
       (bindE (formulatorAt Panic (cow_From tx)) (\<lambda>_.
         assign 0 (cow_From tx) (\<lambda>frAcc. Inr (frAcc\<lparr>fa_KeyHash := cow_KeyHash tx, fa_GenHash := cow_GenHash tx\<rparr>))))"

record update_validator_policy =
  uvp_Timestamp :: u64
  uvp_From :: address
  uvp_Policy :: "validator_policy option"

definition UpdateValidatorPolicy_Validate :: "update_validator_policy \<Rightarrow> pubhash list \<Rightarrow> (chain_ctx, unit) go_meth" where
  "UpdateValidatorPolicy_Validate tx signers =
     (case uvp_Policy tx of
        None \<Rightarrow> throwE (FormulatorErr ErrInvalidValidatorPolicy)
      | Some policy \<Rightarrow>
          thenE (failIf (1000 \<le> vp_CommissionRatio1000 policy \<or> vp_PayOutInterval policy \<le> 0 \<or> 30 < vp_PayOutInterval policy)
                   (FormulatorErr ErrInvalidValidatorPolicy))
          (bindE (checkedFormulator (uvp_From tx)) (\<lambda>frAcc.
            thenE (failIf (fa_FormulatorType frAcc \<noteq> HyperFormulatorType) (FormulatorErr ErrNotHyperFormulator))
                  (liftE (fa_Validate frAcc signers)))))"

definition UpdateValidatorPolicy_Execute :: "update_validator_policy \<Rightarrow> u16 \<Rightarrow> (chain_ctx, unit) go_meth" where
  "UpdateValidatorPolicy_Execute tx index =
     bindE (formulatorAt Panic (uvp_From tx)) (\<lambda>_.
       assign 0 (uvp_From tx) (\<lambda>frAcc. Inr (frAcc\<lparr>fa_Policy := uvp_Policy tx\<rparr>)))"

record withdraw_over_amount =
  woa_Timestamp :: u64
  woa_From :: address

definition requiredAmount :: "form_env \<Rightarrow> formulator \<Rightarrow> formulator_type \<Rightarrow> (chain_ctx, amount) go_meth" where
  "requiredAmount E p ftype =
     (case ftype of
        AlphaFormulatorType \<Rightarrow> bindE (GetAlphaPolicy E p) (\<lambda>alpha. returnE (ap_AlphaCreationAmount alpha))
      | SigmaFormulatorType \<Rightarrow>
          bindE (GetAlphaPolicy E p) (\<lambda>alpha. bindE (GetSigmaPolicy E p) (\<lambda>sigma.
            returnE (am_MulC (ap_AlphaCreationAmount alpha) (uint (sp_SigmaRequiredAlphaCount sigma)))))
      | OmegaFormulatorType \<Rightarrow>
          bindE (GetAlphaPolicy E p) (\<lambda>alpha. bindE (GetSigmaPolicy E p) (\<lambda>sigma. bindE (GetOmegaPolicy E p) (\<lambda>omega.
            returnE (am_MulC (am_MulC (ap_AlphaCreationAmount alpha) (uint (sp_SigmaRequiredAlphaCount sigma)))
              (uint (op_OmegaRequiredSigmaCount omega))))))
      | HyperFormulatorType \<Rightarrow> bindE (GetHyperPolicy E p) (\<lambda>hyper. returnE (hp_HyperCreationAmount hyper)))"

definition WithdrawOverAmount_Validate :: "form_env \<Rightarrow> formulator \<Rightarrow> withdraw_over_amount \<Rightarrow> pubhash list \<Rightarrow> (chain_ctx, unit) go_meth" where
  "WithdrawOverAmount_Validate E p tx signers =
     bindE (checkedFormulator (woa_From tx)) (\<lambda>frAcc.
       thenE (failIf (fa_IsRevoked frAcc) (FormulatorErr ErrRevokedFormulator))
       (thenE (liftE (fa_Validate frAcc signers))
       (bindE (requiredAmount E p (fa_FormulatorType frAcc)) (\<lambda>required.
         failIf (\<not> am_Less required (fa_Amount frAcc)) (FormulatorErr ErrNoOverAmount)))))"

definition WithdrawOverAmount_Execute :: "form_env \<Rightarrow> formulator \<Rightarrow> withdraw_over_amount \<Rightarrow> u16 \<Rightarrow> (chain_ctx, unit) go_meth" where
  "WithdrawOverAmount_Execute E p tx index =
     bindE (formulatorAt Panic (woa_From tx)) (\<lambda>frAcc.
       bindE (requiredAmount E p (fa_FormulatorType frAcc)) (\<lambda>required.
         thenE (failIf (\<not> am_Less required (fa_Amount frAcc)) (FormulatorErr ErrNoOverAmount))
         (thenE (ignoreErr (AddBalance (fo_vault p) (woa_From tx) (am_Sub (fa_Amount frAcc) required)))
                (assign 0 (woa_From tx) (\<lambda>frAcc. Inr (frAcc\<lparr>fa_Amount := required\<rparr>))))))"

section \<open>Administrative transactions\<close>

record update_reward_policy =
  urp_Timestamp :: u64
  urp_From :: address
  urp_Policy :: "reward_policy option"

definition validateAdmin :: "formulator \<Rightarrow> address \<Rightarrow> (chain_ctx, unit) go_meth \<Rightarrow> pubhash list \<Rightarrow> (chain_ctx, unit) go_meth" where
  "validateAdmin p From extra signers =
     thenE (checkAdmin (fo_admin p) formulator_Name From) (thenE extra (validateFrom From signers))"

definition UpdateRewardPolicy_Validate :: "formulator \<Rightarrow> update_reward_policy \<Rightarrow> pubhash list \<Rightarrow> (chain_ctx, unit) go_meth" where
  "UpdateRewardPolicy_Validate p tx signers =
     validateAdmin p (urp_From tx) (failIf (urp_Policy tx = None) (FormulatorErr ErrInvalidRewardPolicy)) signers"

definition UpdateRewardPolicy_Execute :: "form_env \<Rightarrow> formulator \<Rightarrow> update_reward_policy \<Rightarrow> u16 \<Rightarrow> (chain_ctx, unit) go_meth" where
  "UpdateRewardPolicy_Execute E p tx index = writePolicy p tagRewardPolicy (fe_Reward E) (urp_Policy tx)"

record update_hyper_policy =
  uhp_Timestamp :: u64
  uhp_From :: address
  uhp_Policy :: "hyper_policy option"

definition UpdateHyperPolicy_Validate :: "formulator \<Rightarrow> update_hyper_policy \<Rightarrow> pubhash list \<Rightarrow> (chain_ctx, unit) go_meth" where
  "UpdateHyperPolicy_Validate p tx signers =
     validateAdmin p (uhp_From tx) (failIf (uhp_Policy tx = None) (FormulatorErr ErrInvalidHyperPolicy)) signers"

definition UpdateHyperPolicy_Execute :: "form_env \<Rightarrow> formulator \<Rightarrow> update_hyper_policy \<Rightarrow> u16 \<Rightarrow> (chain_ctx, unit) go_meth" where
  "UpdateHyperPolicy_Execute E p tx index = writePolicy p tagHyperPolicy (fe_Hyper E) (uhp_Policy tx)"

record update_transmute_policy =
  utp_Timestamp :: u64
  utp_From :: address
  utp_Policy :: "transmute_policy option"

definition UpdateTransmutePolicy_Validate :: "formulator \<Rightarrow> update_transmute_policy \<Rightarrow> pubhash list \<Rightarrow> (chain_ctx, unit) go_meth" where
  "UpdateTransmutePolicy_Validate p tx signers = validateAdmin p (utp_From tx) (returnE ()) signers"

definition UpdateTransmutePolicy_Execute :: "form_env \<Rightarrow> formulator \<Rightarrow> update_transmute_policy \<Rightarrow> u16 \<Rightarrow> (chain_ctx, unit) go_meth" where
  "UpdateTransmutePolicy_Execute E p tx index =
     (if utp_Policy tx = None then writeE (ctx_SetProcessData (fo_pid p) (tag_bytes tagTransmutePolicy) [])
      else writePolicy p tagTransmutePolicy (fe_Transmute E) (utp_Policy tx))"

record update_reward_base_upgrade =
  urb_Timestamp :: u64
  urb_From :: address
  urb_Enable :: bool

definition UpdateRewardBaseUpgrade_Validate :: "formulator \<Rightarrow> update_reward_base_upgrade \<Rightarrow> pubhash list \<Rightarrow> (chain_ctx, unit) go_meth" where
  "UpdateRewardBaseUpgrade_Validate p tx signers = validateAdmin p (urb_From tx) (returnE ()) signers"

definition UpdateRewardBaseUpgrade_Execute :: "formulator \<Rightarrow> update_reward_base_upgrade \<Rightarrow> u16 \<Rightarrow> (chain_ctx, unit) go_meth" where
  "UpdateRewardBaseUpgrade_Execute p tx index = setRewardBaseUpgrade p (urb_Enable tx)"

end
