(* ===== verification/Formulator_Reward.thy ===== *)
theory Formulator_Reward
  imports Formulator_Tx
begin

text \<open>
  \<^verbatim>\<open>AfterExecuteTransactions\<close> of \<^verbatim>\<open>process/formulator/formulator.go\<close>: the hook that counts the block of the
  generator, pays the rewards of a period, returns the coins of the formulators whose revocation is due and
  pays the unstaked coins. Each loop of the hook is a definition; the local variables of the first part are
  the record \<open>round\<close>. The hook runs on the lowest snapshot, so a formulator pointer is dereferenced at depth 0.
\<close>

section \<open>The reward event\<close>

record reward_event =
  re_GenBlockMap :: "(address, u32) omap"
  re_RewardMap :: "(address, amount) omap"
  re_StackedMap :: "(address, amount) omap"
  re_CommissionMap :: "(address, amount) omap"
  re_StakedMap :: "(address, (address, amount) omap) omap"
  re_StakeRewardMap :: "(address, (address, amount) omap) omap"

definition newRewardEvent :: reward_event where
  "newRewardEvent = \<lparr>re_GenBlockMap = [], re_RewardMap = [], re_StackedMap = [], re_CommissionMap = [],
     re_StakedMap = [], re_StakeRewardMap = []\<rparr>"

definition addTo :: "(address, amount) omap \<Rightarrow> address \<Rightarrow> amount \<Rightarrow> (address, amount) omap" where
  "addTo m addr am = om_put addr (case om_get m addr of Some old \<Rightarrow> am_Add old am | None \<Rightarrow> am) m"

definition addTo2 ::
  "(address, (address, amount) omap) omap \<Rightarrow> address \<Rightarrow> address \<Rightarrow> amount \<Rightarrow> (address, (address, amount) omap) omap" where
  "addTo2 m HyperAddr addr am =
     om_put HyperAddr (addTo (case om_get m HyperAddr of Some mp \<Rightarrow> mp | None \<Rightarrow> []) addr am) m"

definition AddReward :: "address \<Rightarrow> amount \<Rightarrow> reward_event \<Rightarrow> reward_event" where
  "AddReward addr am ev = ev\<lparr>re_RewardMap := addTo (re_RewardMap ev) addr am\<rparr>"

definition AddStacked :: "address \<Rightarrow> amount \<Rightarrow> reward_event \<Rightarrow> reward_event" where
  "AddStacked addr am ev = ev\<lparr>re_StackedMap := addTo (re_StackedMap ev) addr am\<rparr>"

definition RemoveStacked :: "address \<Rightarrow> reward_event \<Rightarrow> reward_event" where
  "RemoveStacked addr ev = ev\<lparr>re_StackedMap := om_delete addr (re_StackedMap ev)\<rparr>"

definition AddCommission :: "address \<Rightarrow> amount \<Rightarrow> reward_event \<Rightarrow> reward_event" where
  "AddCommission addr am ev = ev\<lparr>re_CommissionMap := addTo (re_CommissionMap ev) addr am\<rparr>"

definition AddStaked :: "address \<Rightarrow> address \<Rightarrow> amount \<Rightarrow> reward_event \<Rightarrow> reward_event" where
  "AddStaked HyperAddr addr am ev = ev\<lparr>re_StakedMap := addTo2 (re_StakedMap ev) HyperAddr addr am\<rparr>"

definition AddStakeReward :: "address \<Rightarrow> address \<Rightarrow> amount \<Rightarrow> reward_event \<Rightarrow> reward_event" where
  "AddStakeReward HyperAddr addr am ev = ev\<lparr>re_StakeRewardMap := addTo2 (re_StakeRewardMap ev) HyperAddr addr am\<rparr>"

definition event_of :: "reward_event \<Rightarrow> event_body" where
  "event_of ev = RewardEvent (re_GenBlockMap ev) (re_RewardMap ev) (re_StackedMap ev) (re_CommissionMap ev)
     (re_StakedMap ev) (re_StakeRewardMap ev)"

section \<open>Arithmetic and loops\<close>

text \<open>\<^verbatim>\<open>am.MulC(GenCount).MulC(Efficiency1000).DivC(1000)\<close>, \<^verbatim>\<open>a.Mul(COIN).Div(b)\<close> and \<^verbatim>\<open>power.Mul(Ratio).Div(COIN)\<close>;
  the code computes a ratio only where the divisor is not zero.\<close>

definition rewardPower :: "amount \<Rightarrow> u32 \<Rightarrow> u32 \<Rightarrow> amount" where
  "rewardPower am GenCount efficiency =
     the (am_DivC (am_MulC (am_MulC am (uint GenCount)) (uint efficiency)) 1000)"

definition ratioOf :: "amount \<Rightarrow> amount \<Rightarrow> amount" where
  "ratioOf a b = the (am_Div (am_Mul a COIN) b)"

definition shareOf :: "amount \<Rightarrow> amount \<Rightarrow> amount" where
  "shareOf pw Ratio = the (am_Div (am_Mul pw Ratio) COIN)"

fun foldE :: "('a \<Rightarrow> 'b \<Rightarrow> (chain_ctx, 'b) go_meth) \<Rightarrow> 'a list \<Rightarrow> 'b \<Rightarrow> (chain_ctx, 'b) go_meth" where
  "foldE f [] x = returnE x"
| "foldE f (a # as) x = bindE (f a x) (foldE f as)"

text \<open>\<^verbatim>\<open>m := NewAddressAmountMap(); if bs := ...; len(bs) > 0 { Unmarshal(bs, &m) }\<close>.\<close>

definition readAmountMap :: "form_env \<Rightarrow> dkey \<Rightarrow> (chain_ctx, (address, amount) omap) go_meth" where
  "readAmountMap E k =
     bindE (readE (ctx_get k)) (\<lambda>bs.
       if 0 < length bs then liftE (fst (AddressAmountMap_decode (fe_mp E) bs)) else returnE [])"

definition writeAmountMap :: "form_env \<Rightarrow> dkey \<Rightarrow> (address, amount) omap \<Rightarrow> (chain_ctx, unit) go_meth" where
  "writeAmountMap E k m = writeE (ctx_set k (AddressAmountMap_encode (fe_mp E) m))"

definition stakingAmountCell :: "formulator \<Rightarrow> address \<Rightarrow> dkey" where
  "stakingAmountCell p addr = AData addr (fo_pid p) (tag_bytes tagStakingAmountMap)"

definition stakingPowerCell :: "formulator \<Rightarrow> address \<Rightarrow> dkey" where
  "stakingPowerCell p addr = AData addr (fo_pid p) (tag_bytes tagStakingPowerMap)"

definition stackRewardCell :: "formulator \<Rightarrow> dkey" where
  "stackRewardCell p = PData (fo_pid p) (tag_bytes tagStackRewardMap)"

section \<open>Powers\<close>

text \<open>One staker of a hyper formulator: the amount now, and the smaller of the amount now and before.\<close>

definition stakeStep ::
  "formulator \<Rightarrow> address \<Rightarrow> (address, amount) omap \<Rightarrow> address \<times> amount \<Rightarrow>
   (address, amount) omap \<times> (address, amount) omap \<Rightarrow> (chain_ctx, (address, amount) omap \<times> (address, amount) omap) go_meth" where
  "stakeStep p hyper PrevAmountMap = (\<lambda>(addr, am) (CurrentAmountMap, CrossAmountMap).
     ifAccount addr
       (returnE (om_put addr am CurrentAmountMap,
          case om_get PrevAmountMap addr of
            None \<Rightarrow> CrossAmountMap
          | Some prev \<Rightarrow>
              if \<not> am_IsZero prev \<and> \<not> am_IsZero am then om_put addr (if am_Less am prev then am else prev) CrossAmountMap
              else CrossAmountMap))
       (thenE (ignoreErr (subStakingAmount p hyper addr am)) (returnE (CurrentAmountMap, CrossAmountMap))))"

definition crossStep ::
  "u32 \<Rightarrow> u32 \<Rightarrow> address \<times> amount \<Rightarrow> (address, amount) omap \<times> amount \<Rightarrow> (address, amount) omap \<times> amount" where
  "crossStep GenCount efficiency = (\<lambda>(addr, am) (StakingPowerMap, pw).
     (addTo StakingPowerMap addr am, am_Add pw (rewardPower am GenCount efficiency)))"

text \<open>The sum of the powers of the stakers that still exist, and the map without the others.\<close>

definition liveStakers :: "(address, amount) omap \<Rightarrow> (chain_ctx, amount \<times> (address, amount) omap) go_meth" where
  "liveStakers StakingPowerMap =
     bindE (foldE (\<lambda>(addr, pw) (am, Deleteds).
              ifAccount addr (returnE (am_Add am pw, Deleteds)) (returnE (am, Deleteds @ [addr])))
            (om_each StakingPowerMap) (NewCoinAmount 0 0, [])) (\<lambda>(am, Deleteds).
       returnE (am, fold om_delete Deleteds StakingPowerMap))"

definition stackStep ::
  "u32 \<Rightarrow> u32 \<Rightarrow> amount \<Rightarrow> address \<times> amount \<Rightarrow> (address, amount) omap \<times> amount \<Rightarrow> (address, amount) omap \<times> amount" where
  "stackStep GenCount efficiency Ratio = (\<lambda>(addr, pw) (StakingPowerMap, rewards).
     (om_put addr (am_Add pw (shareOf pw Ratio)) StakingPowerMap,
      am_Add rewards (rewardPower (shareOf pw Ratio) GenCount efficiency)))"

definition stackPowers ::
  "u32 \<Rightarrow> u32 \<Rightarrow> amount option \<Rightarrow> (address, amount) omap \<Rightarrow> amount \<Rightarrow> (chain_ctx, (address, amount) omap \<times> amount) go_meth" where
  "stackPowers GenCount efficiency StackReward StakingPowerMap rewards =
     (case StackReward of
        None \<Rightarrow> returnE (StakingPowerMap, rewards)
      | Some stacked \<Rightarrow>
          bindE (liveStakers StakingPowerMap) (\<lambda>(StakingPowerSum, StakingPowerMap).
            returnE (if am_IsZero StakingPowerSum then (StakingPowerMap, rewards)
                     else fold (stackStep GenCount efficiency (ratioOf stacked StakingPowerSum))
                            (om_each StakingPowerMap) (StakingPowerMap, rewards))))"

definition hyperPower ::
  "form_env \<Rightarrow> formulator \<Rightarrow> reward_policy \<Rightarrow> address \<Rightarrow> u32 \<Rightarrow> (address, amount) omap \<Rightarrow> (chain_ctx, amount) go_meth" where
  "hyperPower E p policy hyper GenCount StackRewardMap =
     bindE (readAmountMap E (stakingAmountCell p hyper)) (\<lambda>PrevAmountMap.
     bindE (GetStakingAmountMap p hyper) (\<lambda>AmountMap.
     bindE (foldE (stakeStep p hyper PrevAmountMap) (range_map E 1 AmountMap) ([], [])) (\<lambda>(CurrentAmountMap, CrossAmountMap).
       thenE (writeAmountMap E (stakingAmountCell p hyper) CurrentAmountMap)
       (bindE (readAmountMap E (stakingPowerCell p hyper)) (\<lambda>StakingPowerMap.
          case fold (crossStep GenCount (rp_StakingEfficiency1000 policy)) (range_map E 2 CrossAmountMap)
            (StakingPowerMap, NewCoinAmount 0 0) of (StakingPowerMap, pw) \<Rightarrow>
          bindE (stackPowers GenCount (rp_StakingEfficiency1000 policy) (om_get StackRewardMap hyper) StakingPowerMap pw)
            (\<lambda>(StakingPowerMap, pw).
              thenE (writeAmountMap E (stakingPowerCell p hyper) StakingPowerMap) (returnE pw)))))))"

section \<open>The first loop\<close>

record reward_round =
  rr_StackRewardMap :: "(address, amount) omap"
  rr_RewardPowerSum :: amount
  rr_RewardPowerMap :: "(address, amount) omap"
  rr_StakingRewardPowerMap :: "(address, amount) omap"
  rr_Hypers :: "formulator_account list"
  rr_GenBlockMap :: "(address, u32) omap"

definition efficiency1000 :: "reward_policy \<Rightarrow> formulator_type \<Rightarrow> u32" where
  "efficiency1000 policy ftype =
     (case ftype of
        AlphaFormulatorType \<Rightarrow> rp_AlphaEfficiency1000 policy
      | SigmaFormulatorType \<Rightarrow> rp_SigmaEfficiency1000 policy
      | OmegaFormulatorType \<Rightarrow> rp_OmegaEfficiency1000 policy
      | HyperFormulatorType \<Rightarrow> rp_HyperEfficiency1000 policy)"

definition addPower :: "address \<Rightarrow> amount \<Rightarrow> reward_round \<Rightarrow> reward_round" where
  "addPower GenAddress am rr =
     rr\<lparr>rr_RewardPowerSum := am_Add (rr_RewardPowerSum rr) am, rr_RewardPowerMap := om_put GenAddress am (rr_RewardPowerMap rr)\<rparr>"

definition addHyper :: "address \<Rightarrow> formulator_account \<Rightarrow> amount \<Rightarrow> reward_round \<Rightarrow> reward_round" where
  "addHyper GenAddress frAcc pw rr =
     rr\<lparr>rr_Hypers := rr_Hypers rr @ [frAcc],
        rr_StakingRewardPowerMap := om_put GenAddress pw (rr_StakingRewardPowerMap rr),
        rr_RewardPowerSum := am_Add (rr_RewardPowerSum rr) pw\<rparr>"

definition genStep ::
  "form_env \<Rightarrow> formulator \<Rightarrow> reward_policy \<Rightarrow> address \<times> u32 \<Rightarrow> reward_round \<Rightarrow> (chain_ctx, reward_round) go_meth" where
  "genStep E p policy = (\<lambda>(GenAddress, GenCount) rr.
     let rr = rr\<lparr>rr_GenBlockMap := om_put GenAddress GenCount (rr_GenBlockMap rr)\<rparr>
     in ifAccount GenAddress
          (bindE (formulatorAt (TypesErr ErrInvalidAccountType) GenAddress) (\<lambda>frAcc.
             if fa_IsRevoked frAcc then returnE rr
             else thenE (assign 0 GenAddress (\<lambda>frAcc. Inr (frAcc\<lparr>fa_RewardCount := fa_RewardCount frAcc + 1\<rparr>)))
               (let rr = addPower GenAddress
                      (rewardPower (fa_Amount frAcc) GenCount (efficiency1000 policy (fa_FormulatorType frAcc))) rr
                in if fa_FormulatorType frAcc = HyperFormulatorType
                   then bindE (hyperPower E p policy (fa_Address frAcc) GenCount (rr_StackRewardMap rr)) (\<lambda>pw.
                          returnE (addHyper GenAddress frAcc pw rr))
                   else returnE rr)))
          (returnE (rr\<lparr>rr_StackRewardMap := om_delete GenAddress (rr_StackRewardMap rr)\<rparr>)))"

section \<open>Payment\<close>

definition payStep :: "formulator \<Rightarrow> amount \<Rightarrow> address \<times> amount \<Rightarrow> reward_event \<Rightarrow> (chain_ctx, reward_event) go_meth" where
  "payStep p Ratio = (\<lambda>(RewardAddress, RewardPower) ev.
     let RewardAmount = shareOf RewardPower Ratio
     in if \<not> am_IsZero RewardAmount
        then thenE (AddBalance (fo_vault p) RewardAddress RewardAmount) (returnE (AddReward RewardAddress RewardAmount ev))
        else returnE ev)"

definition stackRewardStep ::
  "amount \<Rightarrow> address \<times> amount \<Rightarrow> (address, amount) omap \<times> reward_event \<Rightarrow> (chain_ctx, (address, amount) omap \<times> reward_event) go_meth" where
  "stackRewardStep Ratio = (\<lambda>(GenAddress, StakingRewardPower) (StackRewardMap, ev).
     ifAccount GenAddress
       (let RewardAmount = shareOf StakingRewardPower Ratio
        in returnE (addTo StackRewardMap GenAddress RewardAmount, AddStacked GenAddress RewardAmount ev))
       (returnE (StackRewardMap, ev)))"

definition payRewards ::
  "form_env \<Rightarrow> formulator \<Rightarrow> reward_policy \<Rightarrow> u32 \<Rightarrow> reward_round \<Rightarrow> reward_event \<Rightarrow>
   (chain_ctx, (address, amount) omap \<times> reward_event) go_meth" where
  "payRewards E p policy lastPaidHeight rr ev =
     (if am_IsZero (rr_RewardPowerSum rr) then returnE (rr_StackRewardMap rr, ev)
      else bindE (readE (CollectedFee (fo_vault p))) (\<lambda>TotalFee.
        thenE (SubCollectedFee (fo_vault p) TotalFee) (\<lambda>ctx.
          let TotalReward = am_Add (am_MulC (rp_RewardPerBlock policy) (uint (ctx_TargetHeight ctx - lastPaidHeight))) TotalFee;
              Ratio = ratioOf TotalReward (rr_RewardPowerSum rr)
          in bindE (foldE (payStep p Ratio) (range_map E 3 (rr_RewardPowerMap rr)) ev) (\<lambda>ev.
               foldE (stackRewardStep Ratio) (range_map E 4 (rr_StakingRewardPowerMap rr)) (rr_StackRewardMap rr, ev)) ctx)))"

definition commissionOf :: "validator_policy \<Rightarrow> amount \<Rightarrow> amount" where
  "commissionOf policy am =
     (if 0 < vp_CommissionRatio1000 policy then the (am_DivC (am_MulC am (uint (vp_CommissionRatio1000 policy))) 1000) else 0)"

definition stakerStep ::
  "formulator \<Rightarrow> address \<Rightarrow> validator_policy \<Rightarrow> amount \<Rightarrow> address \<times> amount \<Rightarrow> amount \<times> reward_event \<Rightarrow>
   (chain_ctx, amount \<times> reward_event) go_meth" where
  "stakerStep p hyper policy Ratio = (\<lambda>(StakingAddress, StakingPower) (CommissionSum, ev).
     let Commission = commissionOf policy (shareOf StakingPower Ratio);
         CommissionSum = am_Add CommissionSum Commission;
         RewardAmount = am_Sub (shareOf StakingPower Ratio) Commission
     in if am_IsZero RewardAmount then returnE (CommissionSum, ev)
        else bindE (readE (GetUserAutoStaking p hyper StakingAddress)) (\<lambda>isAuto.
          if isAuto
          then thenE (AddStakingAmount p hyper StakingAddress RewardAmount)
                 (returnE (CommissionSum, AddStaked hyper StakingAddress RewardAmount ev))
          else thenE (AddBalance (fo_vault p) StakingAddress RewardAmount)
                 (returnE (CommissionSum, AddStakeReward hyper StakingAddress RewardAmount ev))))"

definition payStakers ::
  "form_env \<Rightarrow> formulator \<Rightarrow> validator_policy \<Rightarrow> address \<Rightarrow> amount \<Rightarrow> reward_event \<Rightarrow> (chain_ctx, reward_event) go_meth" where
  "payStakers E p policy hyper StackReward ev =
     bindE (readAmountMap E (stakingPowerCell p hyper)) (\<lambda>StakingPowerMap.
     bindE (liveStakers StakingPowerMap) (\<lambda>(StakingPowerSum, StakingPowerMap).
       if am_IsZero StakingPowerSum then returnE ev
       else bindE (foldE (stakerStep p hyper policy (ratioOf StackReward StakingPowerSum)) (om_each StakingPowerMap)
                    (NewCoinAmount 0 0, ev)) (\<lambda>(CommissionSum, ev).
         if am_IsZero CommissionSum then returnE ev
         else thenE (AddBalance (fo_vault p) hyper CommissionSum) (returnE (AddCommission hyper CommissionSum ev)))))"

definition hyperStep ::
  "form_env \<Rightarrow> formulator \<Rightarrow> reward_policy \<Rightarrow> formulator_account \<Rightarrow> (address, amount) omap \<times> reward_event \<Rightarrow>
   (chain_ctx, (address, amount) omap \<times> reward_event) go_meth" where
  "hyperStep E p policy frAcc = (\<lambda>(StackRewardMap, ev).
     let hyper = fa_Address frAcc
     in case om_get StackRewardMap hyper of
          None \<Rightarrow> returnE (StackRewardMap, ev)
        | Some StackReward \<Rightarrow>
            let ev = RemoveStacked hyper ev
            in bindE (getLastStakingPaidHeight p hyper) (\<lambda>lastStakingPaidHeight.
               bindE (liftE (orPanic (fa_Policy frAcc))) (\<lambda>vpolicy ctx.
                 (if lastStakingPaidHeight + rp_PayRewardEveryBlocks policy * vp_PayOutInterval vpolicy \<le> ctx_TargetHeight ctx
                  then bindE (payStakers E p vpolicy hyper StackReward ev) (\<lambda>ev.
                         thenE (writeE (ctx_set (stakingPowerCell p hyper) []))
                         (thenE (setLastStakingPaidHeight p hyper (ctx_TargetHeight ctx))
                                (returnE (om_delete hyper StackRewardMap, ev))))
                  else returnE (StackRewardMap, ev)) ctx)))"

section \<open>The hook\<close>

definition payPeriod :: "form_env \<Rightarrow> formulator \<Rightarrow> reward_policy \<Rightarrow> u32 \<Rightarrow> (chain_ctx, unit) go_meth" where
  "payPeriod E p policy lastPaidHeight =
     bindE (flushGenCountMap p) (\<lambda>CountMap.
     bindE (readAmountMap E (stackRewardCell p)) (\<lambda>StackRewardMap.
     bindE (foldE (genStep E p policy) (range_map E 5 CountMap)
              \<lparr>rr_StackRewardMap = StackRewardMap, rr_RewardPowerSum = NewCoinAmount 0 0, rr_RewardPowerMap = [],
               rr_StakingRewardPowerMap = [], rr_Hypers = [], rr_GenBlockMap = []\<rparr>) (\<lambda>rr.
     bindE (payRewards E p policy lastPaidHeight rr (newRewardEvent\<lparr>re_GenBlockMap := rr_GenBlockMap rr\<rparr>)) (\<lambda>paid.
     bindE (foldE (hyperStep E p policy) (rr_Hypers rr) paid) (\<lambda>(StackRewardMap, ev).
       thenE (writeAmountMap E (stackRewardCell p) StackRewardMap)
       (thenE (\<lambda>ctx. ctx_EmitEvent \<lparr>ev_Height = ctx_TargetHeight ctx, ev_Index = 65535, ev_N = 0, ev_Body = event_of ev\<rparr> ctx)
         (\<lambda>ctx. setLastPaidHeight p (ctx_TargetHeight ctx) ctx)))))))"

definition payUnstaked :: "formulator \<Rightarrow> address \<Rightarrow> address \<times> amount \<Rightarrow> (chain_ctx, unit) go_meth" where
  "payUnstaked p Addr = (\<lambda>(HyperAddr, am).
     thenE (AddBalance (fo_vault p) Addr am)
       (\<lambda>ctx. ctx_EmitEvent \<lparr>ev_Height = ctx_TargetHeight ctx, ev_Index = 65535, ev_N = 0,
                 ev_Body = UnstakedEvent HyperAddr Addr am\<rparr> ctx))"

definition formulator_AfterExecuteTransactions :: "form_env \<Rightarrow> formulator \<Rightarrow> address \<Rightarrow> (chain_ctx, unit) go_meth" where
  "formulator_AfterExecuteTransactions E p Generator =
     thenE (addGenCount p Generator)
     (bindE (GetRewardPolicy E p) (\<lambda>policy.
     bindE (getLastPaidHeight p) (\<lambda>lastPaidHeight.
     thenE (\<lambda>ctx. (if lastPaidHeight + rp_PayRewardEveryBlocks policy \<le> ctx_TargetHeight ctx
                    then payPeriod E p policy lastPaidHeight else returnE ()) ctx)
     (bindE (\<lambda>ctx. flushRevokedFormulatorMap p (ctx_TargetHeight ctx) ctx) (\<lambda>RevokedMap.
     thenE (foreachE (\<lambda>(FormulatorAddr, Heritor). revokeFormulator E p FormulatorAddr Heritor) (om_each RevokedMap))
     (bindE (\<lambda>ctx. flushUnstakingAmountMap E p (ctx_TargetHeight ctx) ctx) (\<lambda>UnstakedMap.
       foreachE (\<lambda>(Addr, AmountMap). foreachE (payUnstaked p Addr) (om_each AmountMap)) (om_each UnstakedMap))))))))"

end
