(* ===== verification/Index_Laws.thy ===== *)
theory Index_Laws
  imports Formulator_Reward Vault_Laws
begin

text \<open>
  The indexed sets of addresses that the formulator process keeps in data cells. \<open>index_holds\<close> says which
  list of addresses the cells represent; the locale \<open>indexed_cells\<close> states what the keys of an index must
  satisfy, and inside it adding, removing, visiting and flushing are followed on what the state reads.
\<close>

section \<open>Cells that represent a list\<close>

definition index_holds :: "index \<Rightarrow> (dkey \<Rightarrow> bytes) \<Rightarrow> address list \<Rightarrow> bool" where
  "index_holds ix F as \<longleftrightarrow>
     distinct as \<and> (\<forall>a\<in>set as. is_address a) \<and> length as < 2 ^ 32 \<and>
     F (ix_Count ix) = (if as = [] then [] else LE_Uint32ToBytes (of_nat (length as))) \<and>
     (\<forall>i<length as. F (ix_Reverse ix (of_nat i)) = as ! i \<and> F (ix_Number ix (as ! i)) = LE_Uint32ToBytes (of_nat i)) \<and>
     (\<forall>a. is_address a \<and> a \<notin> set as \<longrightarrow> F (ix_Number ix a) = [])"

definition index_cells :: "index \<Rightarrow> dkey set" where
  "index_cells ix = Set.insert (ix_Count ix) (ix_Number ix ` {a. is_address a} \<union> range (ix_Reverse ix))"

lemma index_cells_mem [simp]:
  "is_address a \<Longrightarrow> ix_Number ix a \<in> index_cells ix" "ix_Reverse ix n \<in> index_cells ix" "ix_Count ix \<in> index_cells ix"
  by (auto simp: index_cells_def)

text \<open>The state reads and marks every cell outside the index as before.\<close>

definition same_outside :: "dkey set \<Rightarrow> (dkey \<Rightarrow> 'v) \<Rightarrow> (dkey \<Rightarrow> 'v) \<Rightarrow> bool" where
  "same_outside C F G \<longleftrightarrow> (\<forall>k. k \<notin> C \<longrightarrow> G k = F k)"

lemma same_outside_refl [simp]: "same_outside C F F"
  by (simp add: same_outside_def)

lemma same_outside_upd: "same_outside C F G \<Longrightarrow> k \<in> C \<Longrightarrow> same_outside C F (G(k := v))"
  by (auto simp: same_outside_def)

lemma same_outside_trans: "same_outside C F G \<Longrightarrow> same_outside C G H \<Longrightarrow> same_outside C F H"
  by (simp add: same_outside_def)

lemma same_outsideD: "same_outside C F G \<Longrightarrow> k \<notin> C \<Longrightarrow> G k = F k"
  by (simp add: same_outside_def)

lemma unat_of_nat_u32: "i < 2 ^ 32 \<Longrightarrow> unat (of_nat i :: u32) = i"
  by (simp add: unat_of_nat take_bit_eq_mod)

lemma of_nat_u32_inj: "i < 2 ^ 32 \<Longrightarrow> j < 2 ^ 32 \<Longrightarrow> (of_nat i :: u32) = of_nat j \<longleftrightarrow> i = j"
  by (metis unat_of_nat_u32)

text \<open>The place of a removed element is taken by the last one.\<close>

definition swap_remove :: "nat \<Rightarrow> 'a list \<Rightarrow> 'a list" where
  "swap_remove i xs = (if i = length xs - 1 then butlast xs else (butlast xs)[i := last xs])"

lemma length_swap_remove [simp]: "length (swap_remove i xs) = length xs - 1"
  by (simp add: swap_remove_def)

lemma nth_swap_remove:
  assumes "i < length xs" and "j < length xs - 1"
  shows "swap_remove i xs ! j = (if j = i then last xs else xs ! j)"
  using assms by (auto simp: swap_remove_def nth_butlast nth_list_update)

lemma set_swap_remove:
  assumes "distinct xs" and "i < length xs"
  shows "set (swap_remove i xs) = set xs - {xs ! i}" and "distinct (swap_remove i xs)"
proof -
  define ys z where "ys = butlast xs" and "z = last xs"
  have xs: "xs = ys @ [z]" using assms(2) by (cases xs rule: rev_cases) (auto simp: ys_def z_def)
  have d: "distinct ys" "z \<notin> set ys" using assms(1) by (auto simp: xs)
  show "set (swap_remove i xs) = set xs - {xs ! i}"
  proof (cases "i = length ys")
    case False
    then have i: "i < length ys" using assms(2) by (simp add: xs)
    show ?thesis
      using False i d set_update_distinct[OF d(1) i, of z] by (auto simp: swap_remove_def xs nth_append)
  qed (use d in \<open>simp add: swap_remove_def xs nth_append\<close>)
  show "distinct (swap_remove i xs)"
    using d by (auto simp: swap_remove_def xs intro: distinct_list_update)
qed

section \<open>Reading cells\<close>

lemma get_as_ctx_get:
  "ctx_AccountData a p n = ctx_get (AData a p n)" "ctx_ProcessData p n = ctx_get (PData p n)"
  by (simp_all add: fun_eq_iff)

lemma readE_runs:
  assumes "km.runs s ctx F E" and "key_ok k"
  shows "outcome s F E (Inr (F k)) (readE (ctx_get k) ctx)"
  by (rule km.runs_get[OF assms]) (simp add: readE_def)

lemma outcome_return: "km.runs s c F E \<Longrightarrow> outcome s F E (Inr x) (returnE x c)"
  by (simp add: returnE_run)

text \<open>One step of a method: the rules that the proofs below apply from the outside in.\<close>

lemma read_bind:
  assumes "km.runs s ctx F E" and "key_ok k" and "\<And>c. km.runs s c F E \<Longrightarrow> outcome s G E' r (f (F k) c)"
  shows "outcome s G E' r (bindE (readE (ctx_get k)) f ctx)"
  by (rule outcome_bind, rule readE_runs[OF assms(1,2)], rule assms(3))

lemma bindE_liftE: "bindE (liftE (Inr x)) f = f x"
  by (simp add: fun_eq_iff bindE_def liftE_def)

lemma lift_bind:
  assumes "outcome s G E' r (f x ctx)"
  shows "outcome s G E' r (bindE (liftE (Inr x)) f ctx)"
  using assms by (simp add: bindE_def liftE_def)

lemma write_then:
  assumes "km.runs s ctx F E" and "key_ok k" and "\<And>c. km.runs s c (F(k := v)) (E(k := (v = []))) \<Longrightarrow> outcome s G E' r (m c)"
  shows "outcome s G E' r (thenE (writeE (ctx_set k v)) m ctx)"
  by (rule outcome_bind, rule writeE_runs[OF assms(1,2)], rule assms(3))

lemma write_end:
  assumes "km.runs s ctx F E" and "key_ok k" and "G = F(k := v)" and "E' = E(k := (v = []))"
  shows "outcome s G E' (Inr ()) (writeE (ctx_set k v) ctx)"
  using writeE_runs[OF assms(1,2)] assms(3,4) by simp

lemma read_uint32_runs:
  assumes "km.runs s ctx F E" and "key_ok k" and "F k = (if n = 0 then [] else LE_Uint32ToBytes n) \<or> F k = LE_Uint32ToBytes n"
  shows "outcome s F E (Inr n) (read_uint32 k ctx)"
  unfolding read_uint32_def
proof (rule read_bind[OF assms(1,2)])
  show "outcome s F E (Inr n) (liftE (if 0 < length (F k) then orPanic (LE_Uint32 (F k)) else Inr 0) c)"
    if "km.runs s c F E" for c
    using assms(3) that by (auto simp: liftE_def split: if_splits)
qed

section \<open>The operations on an index\<close>

locale indexed_cells =
  fixes ix :: index
  assumes Count_ok: "key_ok (ix_Count ix)"
    and Number_ok: "is_address a \<Longrightarrow> key_ok (ix_Number ix a)"
    and Reverse_ok: "key_ok (ix_Reverse ix n)"
    and Number_inj: "is_address a \<Longrightarrow> is_address b \<Longrightarrow> ix_Number ix a = ix_Number ix b \<longleftrightarrow> a = b"
    and Reverse_inj: "ix_Reverse ix m = ix_Reverse ix n \<longleftrightarrow> m = n"
    and Number_Count: "ix_Number ix a \<noteq> ix_Count ix"
    and Reverse_Count: "ix_Reverse ix n \<noteq> ix_Count ix"
    and Number_Reverse: "ix_Number ix a \<noteq> ix_Reverse ix n"
begin

lemmas apart = Number_Count Number_Count[symmetric] Reverse_Count Reverse_Count[symmetric] Number_Reverse
  Number_Reverse[symmetric] Number_inj Reverse_inj

lemma holds_facts:
  assumes "index_holds ix F as"
  shows "distinct as" and "\<And>a. a \<in> set as \<Longrightarrow> is_address a" and "length as < 2 ^ 32"
    and "F (ix_Count ix) = (if as = [] then [] else LE_Uint32ToBytes (of_nat (length as)))"
    and "\<And>i. i < length as \<Longrightarrow> F (ix_Reverse ix (of_nat i)) = as ! i"
    and "\<And>i. i < length as \<Longrightarrow> F (ix_Number ix (as ! i)) = LE_Uint32ToBytes (of_nat i)"
    and "\<And>a. is_address a \<Longrightarrow> a \<notin> set as \<Longrightarrow> F (ix_Number ix a) = []"
  using assms by (auto simp: index_holds_def)

lemma holds_cong:
  assumes "index_holds ix F as" and "\<And>k. k \<in> index_cells ix \<Longrightarrow> G k = F k"
  shows "index_holds ix G as"
  using assms unfolding index_holds_def index_cells_def by simp

lemma of_nat_zero: "length as < 2 ^ 32 \<Longrightarrow> (of_nat (length as) :: u32) = 0 \<longleftrightarrow> as = []"
  using of_nat_u32_inj[of "length as" 0] by auto

lemma Count_runs:
  assumes "km.runs s ctx F E" and "index_holds ix F as"
  shows "outcome s F E (Inr (of_nat (length as))) (read_uint32 (ix_Count ix) ctx)"
  using holds_facts(3,4)[OF assms(2)] by (intro read_uint32_runs[OF assms(1) Count_ok]) (simp add: of_nat_zero)

lemma add_known_runs:
  assumes "km.runs s ctx F E" and "index_holds ix F as" and "a \<in> set as"
  shows "outcome s F E (Inr ()) (index_add ix a ctx)"
proof -
  obtain i where i: "i < length as" "a = as ! i" using assms(3) by (metis in_set_conv_nth)
  have "F (ix_Number ix a) \<noteq> []" using holds_facts(6)[OF assms(2) i(1)] i(2) by simp
  then show ?thesis
    unfolding index_add_def
    by (intro read_bind[OF assms(1) Number_ok[OF holds_facts(2)[OF assms(2,3)]]]) (simp add: returnE_run)
qed

lemma add_new_holds:
  assumes "index_holds ix F as" and "is_address a" and "a \<notin> set as" and "Suc (length as) < 2 ^ 32"
  defines "n \<equiv> of_nat (length as) :: u32"
  shows "index_holds ix (F(ix_Number ix a := LE_Uint32ToBytes n, ix_Reverse ix n := a,
    ix_Count ix := LE_Uint32ToBytes (n + 1))) (as @ [a])"
  unfolding index_holds_def
proof (intro conjI allI impI ballI)
  note f = holds_facts[OF assms(1)]
  fix i assume i: "i < length (as @ [a])"
  have n: "(of_nat i :: u32) = n \<longleftrightarrow> i = length as"
    using i assms(4) of_nat_u32_inj[of i "length as"] by (simp add: n_def)
  show "(F(ix_Number ix a := LE_Uint32ToBytes n, ix_Reverse ix n := a, ix_Count ix := LE_Uint32ToBytes (n + 1)))
      (ix_Reverse ix (of_nat i)) = (as @ [a]) ! i"
    using f(5)[of i] i n by (auto simp: apart nth_append less_Suc_eq)
  have "i < length as \<Longrightarrow> as ! i \<noteq> a" using assms(3) by (metis nth_mem)
  then show "(F(ix_Number ix a := LE_Uint32ToBytes n, ix_Reverse ix n := a, ix_Count ix := LE_Uint32ToBytes (n + 1)))
      (ix_Number ix ((as @ [a]) ! i)) = LE_Uint32ToBytes (of_nat i)"
    using f(6)[of i] f(2) i assms(2) by (auto simp: apart nth_append less_Suc_eq n_def)
qed (use holds_facts[OF assms(1)] assms in \<open>auto simp: apart n_def add.commute\<close>)

lemma add_new_runs:
  assumes "km.runs s ctx F E" and "index_holds ix F as" and "is_address a" and "a \<notin> set as"
    and "Suc (length as) < 2 ^ 32"
  obtains G E' where "outcome s G E' (Inr ()) (index_add ix a ctx)" and "index_holds ix G (as @ [a])"
    and "same_outside (index_cells ix) F G" and "same_outside (index_cells ix) E E'"
proof -
  define n :: u32 where "n = of_nat (length as)"
  define G where "G = F(ix_Number ix a := LE_Uint32ToBytes n, ix_Reverse ix n := a, ix_Count ix := LE_Uint32ToBytes (n + 1))"
  define E' where "E' = E(ix_Number ix a := False, ix_Reverse ix n := (a = []), ix_Count ix := False)"
  have "F (ix_Number ix a) = []" using holds_facts(7)[OF assms(2,3,4)] .
  then have "outcome s G E' (Inr ()) (index_add ix a ctx)"
    unfolding index_add_def
    apply (intro read_bind[OF assms(1) Number_ok[OF assms(3)]])
    apply simp
    apply (rule outcome_bind, rule Count_runs[OF _ assms(2)], assumption)
    apply (rule write_then[OF _ Number_ok[OF assms(3)]], assumption)
    apply (rule write_then[OF _ Reverse_ok], assumption)
    apply (rule write_end[OF _ Count_ok], assumption)
    apply (simp_all add: G_def E'_def n_def)
    done
  moreover have "index_holds ix G (as @ [a])"
    unfolding G_def n_def by (rule add_new_holds[OF assms(2-5)])
  moreover have "same_outside (index_cells ix) F G" "same_outside (index_cells ix) E E'"
    using assms(3) by (auto simp: G_def E'_def same_outside_def index_cells_def)
  ultimately show thesis by (rule that)
qed

lemma last_facts:
  assumes "index_holds ix F as" and "i < length as"
  shows "last as = as ! (length as - 1)" and "is_address (last as)" and "is_address (as ! i)" and "last as \<in> set as"
proof -
  have "as \<noteq> []" using assms(2) by auto
  then show "last as = as ! (length as - 1)" "last as \<in> set as" by (simp_all add: last_conv_nth)
  then show "is_address (last as)" "is_address (as ! i)" using holds_facts(2)[OF assms(1)] assms(2) by simp_all
qed

definition removed :: "nat \<Rightarrow> address list \<Rightarrow> (dkey \<Rightarrow> bytes) \<Rightarrow> dkey \<Rightarrow> bytes" where
  "removed i as F =
     (let m = of_nat (length as - 1) :: u32;
          F = (if i \<noteq> length as - 1
               then F(ix_Reverse ix (of_nat i) := last as, ix_Number ix (last as) := LE_Uint32ToBytes (of_nat i)) else F)
      in F(ix_Number ix (as ! i) := [], ix_Reverse ix m := [], ix_Count ix := (if m = 0 then [] else LE_Uint32ToBytes m)))"

definition removed_marks :: "nat \<Rightarrow> address list \<Rightarrow> (dkey \<Rightarrow> bool) \<Rightarrow> dkey \<Rightarrow> bool" where
  "removed_marks i as E =
     (let m = of_nat (length as - 1) :: u32;
          E = (if i \<noteq> length as - 1
               then E(ix_Reverse ix (of_nat i) := (last as = []), ix_Number ix (last as) := False) else E)
      in E(ix_Number ix (as ! i) := True, ix_Reverse ix m := True, ix_Count ix := (m = 0)))"

lemma removed_holds:
  assumes "index_holds ix F as" and "i < length as"
  shows "index_holds ix (removed i as F) (swap_remove i as)"
  unfolding index_holds_def
proof (intro conjI allI impI ballI)
  note f = holds_facts[OF assms(1)]
  note l = last_facts[OF assms]
  have same: "last as = as ! i \<longleftrightarrow> i = length as - 1"
    using f(1) assms(2) l(1) by (auto simp: nth_eq_iff_index_eq)
  fix j assume "j < length (swap_remove i as)"
  then have j: "j < length as - 1" by simp
  have n: "(of_nat j :: u32) = of_nat (length as - 1) \<longleftrightarrow> False" "(of_nat j :: u32) = of_nat i \<longleftrightarrow> j = i"
    using j assms(2) f(3) of_nat_u32_inj[of j "length as - 1"] of_nat_u32_inj[of j i] by auto
  show "removed i as F (ix_Reverse ix (of_nat j)) = swap_remove i as ! j"
    using f(5)[of j] j n by (auto simp: removed_def Let_def apart nth_swap_remove[OF assms(2) j])
  have a: "is_address (as ! j)" "as ! j = as ! i \<longleftrightarrow> j = i" "as ! j \<noteq> last as"
    using f(1,2) j assms(2) l(1) by (simp_all add: nth_eq_iff_index_eq)
  show "removed i as F (ix_Number ix (swap_remove i as ! j)) = LE_Uint32ToBytes (of_nat j)"
    using f(6)[of j] j a l same by (auto simp: removed_def Let_def apart nth_swap_remove[OF assms(2) j])
next
  note f = holds_facts[OF assms(1)]
  show "distinct (swap_remove i as)" using set_swap_remove(2)[OF f(1) assms(2)] .
  show "is_address a" if "a \<in> set (swap_remove i as)" for a
    using that f(2) set_swap_remove(1)[OF f(1) assms(2)] by auto
  show "length (swap_remove i as) < 2 ^ 32" using f(3) by simp
  have "swap_remove i as = [] \<longleftrightarrow> length as - 1 = 0" by (metis length_0_conv length_swap_remove)
  moreover have "(of_nat (length as - 1) :: u32) = 0 \<longleftrightarrow> length as - 1 = 0"
    using of_nat_u32_inj[of "length as - 1" 0] f(3) by auto
  ultimately show "removed i as F (ix_Count ix) =
      (if swap_remove i as = [] then [] else LE_Uint32ToBytes (of_nat (length (swap_remove i as))))"
    by (simp add: removed_def Let_def apart)
  show "removed i as F (ix_Number ix a) = []" if "is_address a \<and> a \<notin> set (swap_remove i as)" for a
  proof -
    have a: "is_address a" "a = as ! i \<or> a \<notin> set as"
      using that set_swap_remove(1)[OF f(1) assms(2)] by auto
    note l = last_facts[OF assms]
    have "a \<noteq> as ! i \<Longrightarrow> F (ix_Number ix a) = [] \<and> a \<noteq> last as" using a f(7) l(4) by auto
    then show ?thesis using a l by (auto simp: removed_def Let_def apart)
  qed
qed

lemma remove_runs:
  assumes "km.runs s ctx F E" and "index_holds ix F as" and "i < length as"
  shows "outcome s (removed i as F) (removed_marks i as E) (Inr ())
    (index_remove ix (as ! i) (LE_Uint32ToBytes (of_nat i)) ctx)"
proof -
  note f = holds_facts[OF assms(2)]
  note l = last_facts[OF assms(2,3)]
  have m: "(of_nat (length as) :: u32) - 1 = of_nat (length as - 1)"
    using assms(3) by (simp add: of_nat_diff)
  have n: "(of_nat i :: u32) = of_nat (length as - 1) \<longleftrightarrow> i = length as - 1"
    using assms(3) f(3) by (intro of_nat_u32_inj) auto
  have r: "F (ix_Reverse ix (of_nat (length as - 1))) = last as" using f(5)[of "length as - 1"] assms(3) l(1) by auto
  have copy: "go_copy (zeros AddressSize) (last as) = last as"
    using l(2) by (simp add: is_address_def go_copy_def)
  define E1 where "E1 = (if i \<noteq> length as - 1
    then E(ix_Reverse ix (of_nat i) := (last as = []), ix_Number ix (last as) := False) else E)"
  define F1 where "F1 = (if i \<noteq> length as - 1
    then F(ix_Reverse ix (of_nat i) := last as, ix_Number ix (last as) := LE_Uint32ToBytes (of_nat i)) else F)"
  have swap: "outcome s F1 E1 (Inr ()) ((if of_nat i \<noteq> (of_nat (length as - 1) :: u32)
      then bindE (readE (ctx_get (ix_Reverse ix (of_nat (length as - 1))))) (\<lambda>bs.
        let swapAddr = go_copy (zeros AddressSize) bs
        in thenE (writeE (ctx_set (ix_Reverse ix (of_nat i)) swapAddr))
             (writeE (ctx_set (ix_Number ix swapAddr) (LE_Uint32ToBytes (of_nat i)))))
      else returnE ()) c)" if "km.runs s c F E" for c
  proof (cases "i = length as - 1")
    case False
    show ?thesis
      unfolding n F1_def E1_def if_P[OF False]
      apply (rule read_bind[OF that Reverse_ok])
      apply (simp only: r Let_def copy)
      apply (rule write_then[OF _ Reverse_ok], assumption)
      apply (rule write_end[OF _ Number_ok[OF l(2)]], assumption)
      apply simp_all
      done
  qed (use that in \<open>simp add: F1_def E1_def returnE_run\<close>)
  show ?thesis
    unfolding index_remove_def
    apply (rule outcome_bind, rule Count_runs[OF assms(1,2)])
    apply (simp only: m LE_Uint32_round orPanic_simps)
    apply (rule lift_bind)
    apply (rule outcome_bind, erule swap)
    apply (rule write_then[OF _ Number_ok[OF l(3)]], assumption)
    apply (rule write_then[OF _ Reverse_ok], assumption)
    apply (simp only: if_distrib[where f = "\<lambda>m. m _", symmetric] cong: if_cong split: if_split)
    apply (intro conjI impI; rule write_end[OF _ Count_ok], assumption)
    apply (simp_all add: removed_def removed_marks_def Let_def F1_def E1_def)
    done
qed

lemma removed_outside:
  assumes "index_holds ix F as" and "i < length as"
  shows "same_outside (index_cells ix) F (removed i as F)" and "same_outside (index_cells ix) E (removed_marks i as E)"
  using last_facts[OF assms] by (auto simp: same_outside_def index_cells_def removed_def removed_marks_def Let_def)

lemma loop_runs:
  assumes "km.runs s ctx F E" and "index_holds ix F as" and "i + n = length as"
    and "\<And>j a x c. a \<in> set as \<Longrightarrow> km.runs s c F E \<Longrightarrow> outcome s F E (Inr (g a x)) (f j a x c)"
  shows "outcome s F E (Inr (fold g (drop i as) x)) (index_loop ix f n (of_nat i) x ctx)"
  using assms(1,3)
proof (induction n arbitrary: i x ctx)
  case (Suc n)
  note f = holds_facts[OF assms(2)]
  have i: "i < length as" "F (ix_Reverse ix (of_nat i)) = as ! i" "is_address (as ! i)"
    using Suc.prems(2) f(2,5) by auto
  then have c: "go_copy (zeros AddressSize) (F (ix_Reverse ix (of_nat i))) = as ! i"
    by (simp add: go_copy_full is_address_def)
  have d: "fold g (drop i as) x = fold g (drop (Suc i) as) (g (as ! i) x)"
    using i(1) by (simp add: Cons_nth_drop_Suc[symmetric])
  show ?case
    unfolding index_loop.simps d
    apply (rule read_bind[OF Suc.prems(1) Reverse_ok])
    apply (simp only: c)
    apply (rule outcome_bind, rule assms(4)[OF nth_mem[OF i(1)]], assumption)
    using Suc.IH[of _ "Suc i"] Suc.prems(2) by (simp add: add.commute)
qed (simp add: returnE_run)

lemma fold_runs:
  assumes "km.runs s ctx F E" and "index_holds ix F as"
    and "\<And>j a x c. a \<in> set as \<Longrightarrow> km.runs s c F E \<Longrightarrow> outcome s F E (Inr (g a x)) (f j a x c)"
  shows "outcome s F E (Inr (fold g as x)) (index_fold ix f x ctx)"
  unfolding index_fold_def
proof (rule read_bind[OF assms(1) Count_ok])
  fix c assume c: "km.runs s c F E"
  have "outcome s F E (Inr (fold g (drop 0 as) x)) (index_loop ix f (length as) (of_nat 0) x c)"
    by (rule loop_runs[OF c assms(2)]) (simp_all add: assms(3))
  then show "outcome s F E (Inr (fold g as x)) ((if 0 < length (F (ix_Count ix))
      then bindE (liftE (orPanic (LE_Uint32 (F (ix_Count ix))))) (\<lambda>Count. index_loop ix f (unat Count) 0 x)
      else returnE x) c)"
    using c holds_facts(3,4)[OF assms(2)] unat_of_nat_u32[of "length as"]
    by (auto simp: bindE_def liftE_def returnE_run)
qed

text \<open>
  Flushing: \<open>Inv i\<close> holds when \<open>i\<close> addresses are done. The step may write cells that are not reverse cells of
  the index.
\<close>

lemma flush_loop_runs:
  assumes "km.runs s ctx F E" and "\<And>a. a \<in> set as \<Longrightarrow> is_address a" and "length as < 2 ^ 32" and "i + n = length as"
    and "\<And>j. i \<le> j \<Longrightarrow> j < length as \<Longrightarrow> F (ix_Reverse ix (of_nat j)) = as ! j" and "Inv i F x"
    and "\<And>j F E x c. j < length as \<Longrightarrow> km.runs s c F E \<Longrightarrow> Inv j F x \<Longrightarrow>
      \<exists>G E' y. outcome s G E' (Inr y) (f (as ! j) x c) \<and> (\<forall>m. G (ix_Reverse ix m) = F (ix_Reverse ix m)) \<and>
        Inv (Suc j) (G(ix_Number ix (as ! j) := [], ix_Reverse ix (of_nat j) := [])) y"
  shows "\<exists>G E' y. outcome s G E' (Inr y) (index_loop ix (\<lambda>i addr x.
      bindE (f addr x) (\<lambda>y. thenE (writeE (ctx_set (ix_Number ix addr) []))
        (thenE (writeE (ctx_set (ix_Reverse ix i) [])) (returnE y)))) n (of_nat i) x ctx) \<and> Inv (length as) G y"
  using assms(1,4-6)
proof (induction n arbitrary: i x ctx F E)
  case (Suc n)
  have i: "i < length as" "F (ix_Reverse ix (of_nat i)) = as ! i" "is_address (as ! i)"
    using Suc.prems(2,3) assms(2) by auto
  then have copy: "go_copy (zeros AddressSize) (F (ix_Reverse ix (of_nat i))) = as ! i"
    by (simp add: go_copy_full is_address_def)
  let ?body = "\<lambda>i addr x. bindE (f addr x) (\<lambda>y. thenE (writeE (ctx_set (ix_Number ix addr) []))
        (thenE (writeE (ctx_set (ix_Reverse ix i) [])) (returnE y)))"
  obtain c where c: "readE (ctx_get (ix_Reverse ix (of_nat i))) ctx = (Inr (F (ix_Reverse ix (of_nat i))) :: err + bytes, c)"
      "km.runs s c F E"
    by (rule outcomeE[OF readE_runs[OF Suc.prems(1) Reverse_ok]])
  obtain G E' y where G: "outcome s G E' (Inr y) (f (as ! i) x c)" "\<forall>m. G (ix_Reverse ix m) = F (ix_Reverse ix m)"
      "Inv (Suc i) (G(ix_Number ix (as ! i) := [], ix_Reverse ix (of_nat i) := [])) y"
    using assms(7)[OF i(1) c(2) Suc.prems(4)] by blast
  let ?G = "G(ix_Number ix (as ! i) := [], ix_Reverse ix (of_nat i) := [])"
  let ?E = "E'(ix_Number ix (as ! i) := True, ix_Reverse ix (of_nat i) := True)"
  have "outcome s ?G ?E (Inr y) (?body (of_nat i) (as ! i) x c)"
    apply (rule outcome_bind, rule G(1))
    apply (rule write_then[OF _ Number_ok[OF i(3)]], assumption)
    apply (rule write_then[OF _ Reverse_ok], assumption)
    apply (simp add: returnE_run)
    done
  then obtain d where d: "?body (of_nat i) (as ! i) x c = (Inr y, d)" "km.runs s d ?G ?E" by (rule outcomeE)
  have rev: "?G (ix_Reverse ix (of_nat j)) = as ! j" if "Suc i \<le> j" "j < length as" for j
    using that Suc.prems(3)[of j] G(2) assms(3) of_nat_u32_inj[of j i] by (auto simp: apart)
  have "index_loop ix ?body (Suc n) (of_nat i) x ctx = index_loop ix ?body n (of_nat (Suc i)) y d"
    using c(1) d(1) copy by (simp add: bindE_def[of "readE _"] bindE_def[of "?body _ _ _"] add.commute)
  then show ?case using Suc.IH[OF d(2) _ rev G(3)] Suc.prems(2) by simp
qed (auto simp: returnE_run)

lemma flush_runs:
  assumes "km.runs s ctx F E" and "index_holds ix F as" and "as \<noteq> []" and "Inv 0 F x"
    and "\<And>j F E x c. j < length as \<Longrightarrow> km.runs s c F E \<Longrightarrow> Inv j F x \<Longrightarrow>
      \<exists>G E' y. outcome s G E' (Inr y) (f (as ! j) x c) \<and> (\<forall>m. G (ix_Reverse ix m) = F (ix_Reverse ix m)) \<and>
        Inv (Suc j) (G(ix_Number ix (as ! j) := [], ix_Reverse ix (of_nat j) := [])) y"
  obtains G E' y where "outcome s (G(ix_Count ix := [])) E' (Inr y) (index_flush ix f x ctx)" and "Inv (length as) G y"
proof -
  note h = holds_facts[OF assms(2)]
  obtain c where c: "readE (ctx_get (ix_Count ix)) ctx = (Inr (F (ix_Count ix)) :: err + bytes, c)" "km.runs s c F E"
    by (rule outcomeE[OF readE_runs[OF assms(1) Count_ok]])
  let ?body = "\<lambda>i addr x. bindE (f addr x) (\<lambda>y. thenE (writeE (ctx_set (ix_Number ix addr) []))
        (thenE (writeE (ctx_set (ix_Reverse ix i) [])) (returnE y)))"
  have "\<exists>G E' y. outcome s G E' (Inr y) (index_loop ix ?body (length as) (of_nat 0) x c) \<and> Inv (length as) G y"
    by (rule flush_loop_runs[where Inv = Inv, OF c(2) h(2,3)]) (simp_all add: h(5) assms(4,5))
  then obtain G E' y where G: "outcome s G E' (Inr y) (index_loop ix ?body (length as) (of_nat 0) x c)"
      "Inv (length as) G y"
    by blast
  from G(1) obtain d where d: "index_loop ix ?body (length as) (of_nat 0) x c = (Inr y, d)" "km.runs s d G E'"
    by (rule outcomeE)
  have "index_flush ix f x ctx = (Inr y, ctx_set (ix_Count ix) [] d)"
    using c(1) d(1) h(3,4) assms(3) unat_of_nat_u32[of "length as"]
    by (simp add: index_flush_def bindE_def[of "readE _"] bindE_liftE bindE_def[of "index_loop _ _ _ _ _"]
        bindE_def[of "writeE _"] writeE_run returnE_run)
  then have "outcome s (G(ix_Count ix := [])) (E'(ix_Count ix := True)) (Inr y) (index_flush ix f x ctx)"
    using km.runs_put[OF d(2) Count_ok, of "[]"] by simp
  then show thesis using G(2) that by blast
qed

lemma flush_none_runs:
  assumes "km.runs s ctx F E" and "index_holds ix F []"
  shows "outcome s F E (Inr x) (index_flush ix f x ctx)"
  unfolding index_flush_def
  by (rule read_bind[OF assms(1) Count_ok]) (use holds_facts(4)[OF assms(2)] in \<open>simp add: returnE_run\<close>)

end

section \<open>The keys of the formulator process\<close>

lemma tag_bytes_cases: obtains x y where "tag_bytes t = [x, y]"
  by (cases t) auto

lemma key_take [simp]:
  "take 2 (addr_key t a) = tag_bytes t" "take 2 (num_key t n) = tag_bytes t"
  "take 2 (height_num_key t h n) = tag_bytes t" "take 2 (height_addr_key (tag_bytes t) h a) = tag_bytes t"
  by (rule tag_bytes_cases[of t];
      simp add: addr_key_def num_key_def height_num_key_def height_addr_key_def copy_at_def go_copy_def
        AddressSize_def numeral_2_eq_2 eval_nat_numeral)+

lemma key_eq:
  assumes "is_address a"
  shows "addr_key t a = tag_bytes t @ a" and "num_key t n = tag_bytes t @ BE_Uint32ToBytes n"
    and "height_num_key t h n = tag_bytes t @ BE_Uint32ToBytes h @ BE_Uint32ToBytes n"
    and "height_addr_key (tag_bytes t) h a = tag_bytes t @ BE_Uint32ToBytes h @ a"
  using assms
  by (simp_all add: addr_key_def num_key_def height_num_key_def height_addr_key_def copy_at_def go_copy_def
        is_address_def AddressSize_def)

text \<open>Keys with different tags differ, whatever follows.\<close>

lemma tags_apart: "take 2 k = tag_bytes t \<Longrightarrow> take 2 k' = tag_bytes u \<Longrightarrow> t \<noteq> u \<Longrightarrow> k \<noteq> k'"
  by auto

lemma addr_key_inj [simp]: "is_address a \<Longrightarrow> is_address b \<Longrightarrow> addr_key t a = addr_key t b \<longleftrightarrow> a = b"
  by (simp add: key_eq)

lemma height_addr_key_inj [simp]:
  "is_address a \<Longrightarrow> is_address b \<Longrightarrow> height_addr_key (tag_bytes t) h a = height_addr_key (tag_bytes t) h b \<longleftrightarrow> a = b"
  by (simp add: key_eq)

lemma num_key_inj [simp]: "num_key t m = num_key t n \<longleftrightarrow> m = n"
  using key_eq(2)[of "zeros AddressSize"] by (simp add: is_address_def)

lemma height_num_key_inj [simp]: "height_num_key t h m = height_num_key t h n \<longleftrightarrow> m = n"
  using key_eq(3)[of "zeros AddressSize"] by (simp add: is_address_def)

lemmas index_defs = toGenCountNumberKey_def toGenCountReverseKey_def toStakingAmountNumberKey_def
  toStakingAmountReverseKey_def toRevokedFormulatorNumberKey_def toRevokedFormulatorReverseKey_def
  toRevokedFormulatorCountKey_def toUnstakingAmountNumberKey_def toUnstakingAmountReverseKey_def
  toUnstakingAmountCountKey_def

interpretation gencount: indexed_cells "gencount_ix p" for p
  by unfold_locales (auto simp: gencount_ix_def index_defs simp del: tag_bytes.simps dest: arg_cong[where f = "take 2"])

interpretation revoked: indexed_cells "revoked_ix p h" for p h
  by unfold_locales (auto simp: revoked_ix_def index_defs simp del: tag_bytes.simps dest: arg_cong[where f = "take 2"])

interpretation unstaked: indexed_cells "unstaking_ix p h" for p h
  by unfold_locales (auto simp: unstaking_ix_def index_defs simp del: tag_bytes.simps dest: arg_cong[where f = "take 2"])

text \<open>The stakers of a hyper formulator are kept in account data, which is well keyed for proper addresses.\<close>

lemma staking_indexed: "is_address hyper \<Longrightarrow> indexed_cells (staking_ix p hyper)"
  by unfold_locales (auto simp: staking_ix_def index_defs simp del: tag_bytes.simps dest: arg_cong[where f = "take 2"])

end
