(* ===== verification/Formulator_Laws.thy ===== *)
theory Formulator_Laws
  imports Index_Laws
begin

text \<open>
  What the formulator process does to the state: the stakes at a hyper formulator refine a map from
  addresses to amounts, and the counts of generated blocks refine a counter.
\<close>

section \<open>The stakes at a hyper formulator\<close>

definition stake_cell :: "formulator \<Rightarrow> address \<Rightarrow> address \<Rightarrow> dkey" where
  "stake_cell p hyper a = AData hyper (fo_pid p) (toStakingAmountKey a)"

definition stake :: "formulator \<Rightarrow> address \<Rightarrow> (dkey \<Rightarrow> bytes) \<Rightarrow> address \<Rightarrow> amount" where
  "stake p hyper F a = stored_amount (F (stake_cell p hyper a))"

definition staking_cells :: "formulator \<Rightarrow> address \<Rightarrow> dkey set" where
  "staking_cells p hyper = index_cells (staking_ix p hyper) \<union> stake_cell p hyper ` {a. is_address a}"

text \<open>The index lists exactly the addresses with a stake.\<close>

definition book :: "formulator \<Rightarrow> address \<Rightarrow> (dkey \<Rightarrow> bytes) \<Rightarrow> address list \<Rightarrow> bool" where
  "book p hyper F as \<longleftrightarrow> index_holds (staking_ix p hyper) F as \<and>
     (\<forall>a. is_address a \<longrightarrow> (0 < stake p hyper F a \<longleftrightarrow> a \<in> set as))"

lemma stake_cell_ok [simp]: "is_address hyper \<Longrightarrow> key_ok (stake_cell p hyper a)"
  by (simp add: stake_cell_def)

lemma stake_cell_inj [simp]:
  "is_address a \<Longrightarrow> is_address b \<Longrightarrow> stake_cell p hyper a = stake_cell p hyper b \<longleftrightarrow> a = b"
  by (simp add: stake_cell_def toStakingAmountKey_def)

lemma stake_cell_apart [simp]: "stake_cell p hyper a \<notin> index_cells (staking_ix p hyper)"
  by (auto simp: stake_cell_def index_cells_def staking_ix_def index_defs toStakingAmountKey_def
      simp del: tag_bytes.simps dest: arg_cong[where f = "take 2"])

lemma stake_upd:
  assumes "is_address a" and "is_address b"
  shows "stake p hyper (F(stake_cell p hyper a := v)) b = (if b = a then stored_amount v else stake p hyper F b)"
  using assms by (auto simp: stake_def)

lemma stake_same:
  "same_outside (index_cells (staking_ix p hyper)) F G \<Longrightarrow> stake p hyper G a = stake p hyper F a"
  by (simp add: stake_def same_outsideD)

lemma stake_nonneg [simp]: "0 \<le> stake p hyper F a"
  by (simp add: stake_def)

lemma GetStakingAmount_runs:
  assumes "km.runs s ctx F E" and "is_address hyper"
  shows "outcome s F E (Inr (stake p hyper F a)) (readE (GetStakingAmount p hyper a) ctx)"
  by (rule km.runs_get[OF assms(1), of "stake_cell p hyper a"])
    (simp_all add: assms GetStakingAmount_def stake_def stake_cell_def readE_def)

lemma stake_read_bind:
  assumes "km.runs s ctx F E" and "is_address hyper"
    and "\<And>c. km.runs s c F E \<Longrightarrow> outcome s G E' r (f (stake p hyper F a) c)"
  shows "outcome s G E' r (bindE (readE (GetStakingAmount p hyper a)) f ctx)"
  by (rule outcome_bind, rule GetStakingAmount_runs[OF assms(1,2)], rule assms(3))

lemma set_stake_cell:
  "ctx_SetAccountData hyper (fo_pid p) (toStakingAmountKey a) v = ctx_set (stake_cell p hyper a) v"
  by (simp add: fun_eq_iff stake_cell_def)

lemma book_holds: "book p hyper F as \<Longrightarrow> index_holds (staking_ix p hyper) F as"
  by (simp add: book_def)

lemma holds_outside:
  assumes "index_holds ix F as" and "k \<notin> index_cells ix"
  shows "index_holds ix (F(k := v)) as"
  using assms unfolding index_holds_def index_cells_def by (auto simp: image_iff)

lemma AddStakingAmount_runs:
  assumes "km.runs s ctx F E" and "book p hyper F as" and "is_address hyper" and "is_address a" and "0 < am"
    and "Suc (length as) < 2 ^ 32"
  obtains G E' as' where "outcome s G E' (Inr ()) (AddStakingAmount p hyper a am ctx)" and "book p hyper G as'"
    and "length as' \<le> Suc (length as)" and "\<forall>b. is_address b \<longrightarrow> stake p hyper G b = stake p hyper F b + (if b = a then am else 0)"
    and "same_outside (staking_cells p hyper) F G" and "same_outside (staking_cells p hyper) E E'"
proof -
  let ?ix = "staking_ix p hyper"
  note ic = staking_indexed[OF assms(3), of p]
  obtain F1 E1 as' where add: "outcome s F1 E1 (Inr ()) (index_add ?ix a ctx)" "index_holds ?ix F1 as'"
      "same_outside (index_cells ?ix) F F1" "same_outside (index_cells ?ix) E E1" "set as' = Set.insert a (set as)"
      "length as' \<le> Suc (length as)"
  proof (cases "a \<in> set as")
    case True
    show thesis
      by (rule that[of F E as])
        (use True book_holds[OF assms(2)] indexed_cells.add_known_runs[OF ic assms(1) book_holds[OF assms(2)] True] in auto)
  next
    case False
    obtain G E' where "outcome s G E' (Inr ()) (index_add ?ix a ctx)" "index_holds ?ix G (as @ [a])"
        "same_outside (index_cells ?ix) F G" "same_outside (index_cells ?ix) E E'"
      by (rule indexed_cells.add_new_runs[OF ic assms(1) book_holds[OF assms(2)] assms(4) False assms(6)])
    then show thesis by (intro that[of G E' "as @ [a]"]) auto
  qed
  let ?v = "am_Bytes (stake p hyper F a + am)"
  let ?G = "F1(stake_cell p hyper a := ?v)" and ?E = "E1(stake_cell p hyper a := (?v = []))"
  have st: "stake p hyper F1 b = stake p hyper F b" for b by (rule stake_same[OF add(3)])
  have o: "outcome s ?G ?E (Inr ()) (AddStakingAmount p hyper a am ctx)"
    unfolding AddStakingAmount_def set_stake_cell
    apply (rule outcome_bind, rule add(1))
    apply (rule stake_read_bind[OF _ assms(3)], assumption)
    apply (rule write_end[OF _ stake_cell_ok[OF assms(3)]], assumption)
    apply (simp_all add: st am_Add_def)
    done
  have new: "stake p hyper ?G b = stake p hyper F b + (if b = a then am else 0)" if "is_address b" for b
    using assms(4,5) that by (simp add: stake_upd st)
  have "book p hyper ?G as'"
    unfolding book_def
  proof (intro conjI allI impI)
    show "index_holds ?ix ?G as'" by (rule holds_outside[OF add(2) stake_cell_apart])
    show "0 < stake p hyper ?G b \<longleftrightarrow> b \<in> set as'" if "is_address b" for b
      using assms(2,5) that add(5) stake_nonneg[of p hyper F b] unfolding book_def new[OF that] by (auto simp: add_nonneg_pos)
  qed
  moreover have "same_outside (staking_cells p hyper) F ?G" "same_outside (staking_cells p hyper) E ?E"
    using add(3,4) assms(4) by (auto simp: same_outside_def staking_cells_def)
  ultimately show thesis using that o add(6) new by blast
qed

lemma subStakingAmount_runs:
  assumes "km.runs s ctx F E" and "book p hyper F as" and "is_address hyper" and "is_address a" and "0 < am"
    and "am \<le> stake p hyper F a"
  obtains G E' as' where "outcome s G E' (Inr ()) (subStakingAmount p hyper a am ctx)" and "book p hyper G as'"
    and "length as' \<le> length as" and "\<forall>b. is_address b \<longrightarrow> stake p hyper G b = stake p hyper F b - (if b = a then am else 0)"
    and "same_outside (staking_cells p hyper) F G" and "same_outside (staking_cells p hyper) E E'"
proof -
  let ?ix = "staking_ix p hyper"
  note ic = staking_indexed[OF assms(3), of p] and h = book_holds[OF assms(2)]
  have "a \<in> set as" using assms(2,4,5,6) by (auto simp: book_def)
  then obtain i where i: "i < length as" "a = as ! i" by (metis in_set_conv_nth)
  have num: "F (ix_Number ?ix a) = LE_Uint32ToBytes (of_nat i)"
    using indexed_cells.holds_facts(6)[OF ic h i(1)] i(2) by simp
  have numcell: "AData hyper (fo_pid p) (toStakingAmountNumberKey a) = ix_Number ?ix a"
    by (simp add: staking_ix_def)
  let ?v = "am_Bytes (stake p hyper F a - am)" and ?sc = "stake_cell p hyper a"
  show thesis
  proof (cases "stake p hyper F a = am")
    case False
    let ?G = "F(?sc := ?v)" and ?E = "E(?sc := (?v = []))"
    have "outcome s ?G ?E (Inr ()) (subStakingAmount p hyper a am ctx)"
      unfolding subStakingAmount_def set_stake_cell
      apply (rule stake_read_bind[OF assms(1,3)])
      using False assms(6) apply (simp add: bindE_failIf am_Less_def am_Sub_def am_IsZero_def Let_def)
      apply (rule write_end[OF _ stake_cell_ok[OF assms(3)]], assumption)
      apply simp_all
      done
    moreover have new: "stake p hyper ?G b = stake p hyper F b - (if b = a then am else 0)" if "is_address b" for b
      using assms(4,6) that by (simp add: stake_upd)
    moreover have "book p hyper ?G as"
      unfolding book_def
    proof (intro conjI allI impI)
      show "index_holds ?ix ?G as" by (rule holds_outside[OF h stake_cell_apart])
      show "0 < stake p hyper ?G b \<longleftrightarrow> b \<in> set as" if "is_address b" for b
        using assms(2,5,6) False that \<open>a \<in> set as\<close> unfolding book_def new[OF that] by auto
    qed
    moreover have "same_outside (staking_cells p hyper) F ?G" "same_outside (staking_cells p hyper) E ?E"
      using assms(4) by (auto simp: same_outside_def staking_cells_def)
    ultimately show thesis using that by blast
  next
    case True
    let ?R = "indexed_cells.removed ?ix i as F" and ?RE = "indexed_cells.removed_marks ?ix i as E"
    let ?G = "?R(?sc := [])" and ?E = "?RE(?sc := True)"
    note out = indexed_cells.removed_outside[OF ic h i(1)]
    have o: "outcome s ?G ?E (Inr ()) (subStakingAmount p hyper a am ctx)"
      unfolding subStakingAmount_def set_stake_cell get_as_ctx_get numcell
      apply (rule stake_read_bind[OF assms(1,3)])
      apply (simp add: True bindE_failIf am_Less_def am_Sub_def am_IsZero_def Let_def)
      apply (rule outcome_bind)
       apply (rule read_bind[OF _ indexed_cells.Number_ok[OF ic assms(4)]], assumption)
       apply (simp only: num)
       apply simp
       apply (rule indexed_cells.remove_runs[OF ic _ h i(1), folded i(2)], assumption)
      apply (rule write_end[OF _ stake_cell_ok[OF assms(3)]], assumption)
       apply simp_all
      done
    have new: "stake p hyper ?G b = stake p hyper F b - (if b = a then am else 0)" if "is_address b" for b
      using assms(4) that True stake_same[OF out(1), of b] by (simp add: stake_upd)
    have "book p hyper ?G (swap_remove i as)"
      unfolding book_def
    proof (intro conjI allI impI)
      show "index_holds ?ix ?G (swap_remove i as)"
        by (rule holds_outside[OF indexed_cells.removed_holds[OF ic h i(1)] stake_cell_apart])
      have d: "set (swap_remove i as) = set as - {a}"
        using set_swap_remove(1)[OF indexed_cells.holds_facts(1)[OF ic h] i(1)] i(2) by simp
      show "0 < stake p hyper ?G b \<longleftrightarrow> b \<in> set (swap_remove i as)" if "is_address b" for b
        using assms(2) True that unfolding book_def new[OF that] d by auto
    qed
    moreover have "same_outside (staking_cells p hyper) F ?G" "same_outside (staking_cells p hyper) E ?E"
      using out assms(4) by (auto simp: same_outside_def staking_cells_def)
    ultimately show thesis using that[OF o] new by simp
  qed
qed

lemma subStakingAmount_short:
  assumes "km.runs s ctx F E" and "is_address hyper" and "stake p hyper F a < am"
  shows "outcome s F E (Inl (FormulatorErr ErrMinusBalance_fr)) (subStakingAmount p hyper a am ctx)"
  unfolding subStakingAmount_def
  by (rule stake_read_bind[OF assms(1,2)]) (use assms(3) in \<open>simp add: bindE_failIf am_Less_def\<close>)

lemma om_get_fold_put:
  "om_get (fold (\<lambda>a. om_put a (f a)) as m) b = (if b \<in> set as then Some (f b) else om_get m b)"
  by (induction as arbitrary: m) auto

lemma GetStakingAmountMap_runs:
  assumes "km.runs s ctx F E" and "book p hyper F as" and "is_address hyper"
  shows "outcome s F E (Inr (fold (\<lambda>a. om_put a (stake p hyper F a)) as [])) (GetStakingAmountMap p hyper ctx)"
  unfolding GetStakingAmountMap_def
proof (rule indexed_cells.fold_runs[OF staking_indexed[OF assms(3)] assms(1) book_holds[OF assms(2)]])
  show "outcome s F E (Inr (om_put a (stake p hyper F a) x))
      (bindE (readE (GetStakingAmount p hyper a)) (\<lambda>am. returnE (om_put a am x)) c)" if "km.runs s c F E" for a x c
    by (rule stake_read_bind[OF that assms(3)]) (simp add: returnE_run)
qed

text \<open>
  The specification: a finite map from stakers to positive amounts. The implementation runs the methods of
  the process on a context; an error does not end the sequence.
\<close>

datatype stake_op = Stake address amount | Unstake address amount

fun stake_spec :: "stake_op \<Rightarrow> (address \<rightharpoonup> amount) \<Rightarrow> (err + unit) \<times> (address \<rightharpoonup> amount)" where
  "stake_spec (Stake a am) m = (Inr (), m(a \<mapsto> (case m a of None \<Rightarrow> am | Some st \<Rightarrow> st + am)))"
| "stake_spec (Unstake a am) m =
     (let st = (case m a of None \<Rightarrow> 0 | Some st \<Rightarrow> st)
      in if st < am then (Inl (FormulatorErr ErrMinusBalance_fr), m)
         else (Inr (), m(a := (if st = am then None else Some (st - am)))))"

fun stake_impl :: "formulator \<Rightarrow> address \<Rightarrow> stake_op \<Rightarrow> (chain_ctx, unit) go_meth" where
  "stake_impl p hyper (Stake a am) = AddStakingAmount p hyper a am"
| "stake_impl p hyper (Unstake a am) = subStakingAmount p hyper a am"

fun run_ops :: "('op \<Rightarrow> 's \<Rightarrow> 'r \<times> 's) \<Rightarrow> 'op list \<Rightarrow> 's \<Rightarrow> 'r list \<times> 's" where
  "run_ops f [] s = ([], s)"
| "run_ops f (x # xs) s = (case f x s of (r, s) \<Rightarrow> case run_ops f xs s of (rs, s) \<Rightarrow> (r # rs, s))"

fun stake_op_ok :: "stake_op \<Rightarrow> bool" where
  "stake_op_ok (Stake a am) \<longleftrightarrow> is_address a \<and> 0 < am"
| "stake_op_ok (Unstake a am) \<longleftrightarrow> is_address a \<and> 0 < am"

definition stakes :: "formulator \<Rightarrow> address \<Rightarrow> (dkey \<Rightarrow> bytes) \<Rightarrow> address \<rightharpoonup> amount" where
  "stakes p hyper F a = (if is_address a \<and> 0 < stake p hyper F a then Some (stake p hyper F a) else None)"

lemma stake_step:
  assumes "km.runs s ctx F E" and "book p hyper F as" and "is_address hyper" and "stake_op_ok x"
    and "Suc (length as) < 2 ^ 32"
  obtains G E' as' where "outcome s G E' (fst (stake_spec x (stakes p hyper F))) (stake_impl p hyper x ctx)"
    and "book p hyper G as'" and "length as' \<le> Suc (length as)"
    and "stakes p hyper G = snd (stake_spec x (stakes p hyper F))" and "same_outside (staking_cells p hyper) F G"
proof (cases x)
  case (Stake a am)
  then have ok: "is_address a" "0 < am" using assms(4) by simp_all
  obtain G E' as' where G: "outcome s G E' (Inr ()) (AddStakingAmount p hyper a am ctx)" "book p hyper G as'"
      "length as' \<le> Suc (length as)"
      and new: "\<forall>b. is_address b \<longrightarrow> stake p hyper G b = stake p hyper F b + (if b = a then am else 0)"
      and out: "same_outside (staking_cells p hyper) F G" "same_outside (staking_cells p hyper) E E'"
    by (rule AddStakingAmount_runs[OF assms(1-3) ok assms(5)])
  have "stakes p hyper G = snd (stake_spec x (stakes p hyper F))"
    using ok new stake_nonneg[of p hyper F a]
    by (auto simp: Stake stakes_def fun_eq_iff simp del: stake_nonneg split: if_splits option.split)
  then show thesis using that[of G E' as'] G out Stake by simp
next
  case (Unstake a am)
  then have ok: "is_address a" "0 < am" using assms(4) by simp_all
  have st: "(case stakes p hyper F a of None \<Rightarrow> 0 | Some st \<Rightarrow> st) = stake p hyper F a"
    using ok stake_nonneg[of p hyper F a] by (auto simp: stakes_def simp del: stake_nonneg)
  show thesis
  proof (cases "stake p hyper F a < am")
    case True
    show thesis
      using that[of F E as] subStakingAmount_short[OF assms(1,3) True] assms(2) True by (simp add: Unstake st Let_def)
  next
    case False
    obtain G E' as' where G: "outcome s G E' (Inr ()) (subStakingAmount p hyper a am ctx)" "book p hyper G as'"
        "length as' \<le> length as"
        and new: "\<forall>b. is_address b \<longrightarrow> stake p hyper G b = stake p hyper F b - (if b = a then am else 0)"
        and out: "same_outside (staking_cells p hyper) F G" "same_outside (staking_cells p hyper) E E'"
      by (rule subStakingAmount_runs[OF assms(1-3) ok leI[OF False]])
    have "stakes p hyper G = snd (stake_spec x (stakes p hyper F))"
      using ok new False by (auto simp: Unstake st Let_def fun_eq_iff) (auto simp: stakes_def)
    then show thesis using that[of G E' as'] G out Unstake False by (simp add: st Let_def)
  qed
qed

lemma stake_run:
  assumes "km.runs s ctx F E" and "book p hyper F as" and "is_address hyper" and "\<forall>x\<in>set ops. stake_op_ok x"
    and "length as + length ops < 2 ^ 32"
  obtains G E' as' ctx' where "run_ops (stake_impl p hyper) ops ctx = (fst (run_ops stake_spec ops (stakes p hyper F)), ctx')"
    and "km.runs s ctx' G E'" and "book p hyper G as'" and "same_outside (staking_cells p hyper) F G"
    and "stakes p hyper G = snd (run_ops stake_spec ops (stakes p hyper F))"
  using assms(1,2,4,5)
proof (induction ops arbitrary: ctx F E as thesis)
  case (Cons x ops)
  obtain G E' as' where G: "outcome s G E' (fst (stake_spec x (stakes p hyper F))) (stake_impl p hyper x ctx)"
      "book p hyper G as'" "length as' \<le> Suc (length as)" "stakes p hyper G = snd (stake_spec x (stakes p hyper F))"
      "same_outside (staking_cells p hyper) F G"
    by (rule stake_step[OF Cons.prems(2,3) assms(3), of x]) (use Cons.prems(4,5) in auto)
  from G(1) obtain c where c: "stake_impl p hyper x ctx = (fst (stake_spec x (stakes p hyper F)), c)" "km.runs s c G E'"
    by (rule outcomeE)
  obtain H E2 as2 ctx' where H: "run_ops (stake_impl p hyper) ops c = (fst (run_ops stake_spec ops (stakes p hyper G)), ctx')"
      "km.runs s ctx' H E2" "book p hyper H as2" "same_outside (staking_cells p hyper) G H"
      "stakes p hyper H = snd (run_ops stake_spec ops (stakes p hyper G))"
    by (rule Cons.IH[OF _ c(2) G(2)]) (use Cons.prems(4,5) G(3) in auto)
  show ?case
    by (rule Cons.prems(1)[OF _ H(2,3) same_outside_trans[OF G(5) H(4)]])
      (use c(1) H(1,5) G(4) in \<open>simp_all add: case_prod_unfold\<close>)
qed (use assms in auto)

lemma fst_GetStakingAmount:
  "ctx_wf ctx \<Longrightarrow> is_address hyper \<Longrightarrow> fst (GetStakingAmount p hyper a ctx) = stake p hyper (ctx_view ctx) a"
  using GetStakingAmount_runs[OF km.runs_refl, of ctx hyper p a] by (simp add: readE_def outcome_def case_prod_unfold Let_def)

lemma runs_view: "km.runs s ctx F E \<Longrightarrow> key_ok k \<Longrightarrow> ctx_view ctx k = F k"
  by (simp add: km.runs_def kv.steps_def)

text \<open>
  C12: the cells that hold the stakes at a hyper formulator (an amount, a number and an address cell per
  staker and a counter, with the last staker moved into the place of one that leaves) refine a finite map.
  For every sequence of stakings and unstakings the methods return what the map returns, errors included,
  \<^verbatim>\<open>GetStakingAmountMap\<close> and \<^verbatim>\<open>GetStakingAmount\<close> then read the map, and no cell outside is changed.
\<close>

theorem stakes_refine_map:
  assumes "ctx_wf ctx" and "is_address hyper" and "book p hyper (ctx_view ctx) as" and "\<forall>x\<in>set ops. stake_op_ok x"
    and "length as + length ops < 2 ^ 32"
  shows "case run_ops (stake_impl p hyper) ops ctx of (rs, ctx') \<Rightarrow>
    case run_ops stake_spec ops (stakes p hyper (ctx_view ctx)) of (rs', m) \<Rightarrow>
      rs = rs' \<and>
      (\<exists>sm. fst (GetStakingAmountMap p hyper ctx') = Inr sm \<and> (\<forall>a. is_address a \<longrightarrow> om_get sm a = m a)) \<and>
      (\<forall>a. is_address a \<longrightarrow> fst (GetStakingAmount p hyper a ctx') = (case m a of None \<Rightarrow> 0 | Some am \<Rightarrow> am)) \<and>
      (\<forall>k. key_ok k \<and> k \<notin> staking_cells p hyper \<longrightarrow> ctx_view ctx' k = ctx_view ctx k)"
proof -
  obtain G E as' ctx' where r: "run_ops (stake_impl p hyper) ops ctx = (fst (run_ops stake_spec ops (stakes p hyper (ctx_view ctx))), ctx')"
      "km.runs ctx ctx' G E" "book p hyper G as'" "same_outside (staking_cells p hyper) (ctx_view ctx) G"
      "stakes p hyper G = snd (run_ops stake_spec ops (stakes p hyper (ctx_view ctx)))"
    by (rule stake_run[OF km.runs_refl[OF assms(1)] assms(3,2,4,5)])
  let ?sm = "fold (\<lambda>a. om_put a (stake p hyper G a)) as' []"
  have "outcome ctx G E (Inr ?sm) (GetStakingAmountMap p hyper ctx')"
    by (rule GetStakingAmountMap_runs[OF r(2,3) assms(2)])
  moreover have "om_get ?sm a = stakes p hyper G a" if "is_address a" for a
    using r(3) that by (simp add: om_get_fold_put stakes_def book_def)
  moreover have "fst (GetStakingAmount p hyper a ctx') = (case stakes p hyper G a of None \<Rightarrow> 0 | Some am \<Rightarrow> am)"
    if "is_address a" for a
    using that fst_GetStakingAmount[OF km.runs_wf[OF r(2)] assms(2), of p a] runs_view[OF r(2)] stored_amount_nonneg[of "G (stake_cell p hyper a)"]
    by (auto simp: stakes_def stake_def assms(2) simp del: stored_amount_nonneg split: option.split)
  moreover have "ctx_view ctx' k = ctx_view ctx k" if "key_ok k \<and> k \<notin> staking_cells p hyper" for k
    using that runs_view[OF r(2)] same_outsideD[OF r(4)] by simp
  ultimately show ?thesis by (auto simp: r(1,5) outcome_def case_prod_unfold)
qed

text \<open>An empty context, for the examples.\<close>

lemma empty_facts:
  "ctx_wf NewEmptyContext" "ctx_view NewEmptyContext k = []" "\<not> ctx_mark NewEmptyContext k"
proof -
  show "ctx_wf NewEmptyContext" by (simp add: NewEmptyContext_def ctx_wf_NewContext)
  show "ctx_view NewEmptyContext k = []"
    by (cases k) (simp_all add: ctx_view_def NewEmptyContext_def NewContext_def NewContextData_def alayer_def player_def
        emptyLoader_def)
  show "\<not> ctx_mark NewEmptyContext k"
    by (simp add: ctx_mark_def NewEmptyContext_def NewContext_def ctx_Top_def)
qed

definition sample_formulator :: formulator where
  "sample_formulator = \<lparr>fo_pid = 3, fo_vault = \<lparr>vt_pid = 2, vt_admin = \<lparr>ad_pid = 1\<rparr>, vt_magic = 0\<rparr>,
     fo_admin = \<lparr>ad_pid = 1\<rparr>, fo_magic = 0\<rparr>"

lemma book_empty: "(\<And>k. F k = []) \<Longrightarrow> book p hyper F []"
  by (simp add: book_def index_holds_def stake_def)

theorem stakes_refine_map_witness:
  "(let p = sample_formulator; h = NewAddress 0 1 0; a = NewAddress 0 2 0; b = NewAddress 0 3 0;
        res = run_ops (stake_impl p h) [Stake a 5, Stake b 7, Unstake a 5, Unstake b 9, Stake b 1] NewEmptyContext
    in fst res = [Inr (), Inr (), Inr (), Inl (FormulatorErr ErrMinusBalance_fr), Inr ()] \<and>
       (\<exists>sm. fst (GetStakingAmountMap p h (snd res)) = Inr sm \<and> om_get sm a = None \<and> om_get sm b = Some 8))"
proof -
  let ?p = sample_formulator and ?h = "NewAddress 0 1 0" and ?a = "NewAddress 0 2 0" and ?b = "NewAddress 0 3 0"
  let ?ops = "[Stake ?a 5, Stake ?b 7, Unstake ?a 5, Unstake ?b 9, Stake ?b 1]"
  have ab: "?a \<noteq> ?b" by code_simp
  have "stakes ?p ?h (ctx_view NewEmptyContext) = Map.empty"
    by (simp add: fun_eq_iff stakes_def stake_def empty_facts)
  then have spec: "run_ops stake_spec ?ops (stakes ?p ?h (ctx_view NewEmptyContext)) =
      ([Inr (), Inr (), Inr (), Inl (FormulatorErr ErrMinusBalance_fr), Inr ()], [?b \<mapsto> 8])"
    using ab by (auto simp: fun_eq_iff Let_def)
  have "book ?p ?h (ctx_view NewEmptyContext) []" by (rule book_empty) (simp add: empty_facts)
  note t = stakes_refine_map[OF empty_facts(1) _ this, of ?ops]
  obtain rs c where rc: "run_ops (stake_impl ?p ?h) ?ops NewEmptyContext = (rs, c)" by (metis surj_pair)
  have ok: "\<forall>x\<in>set ?ops. stake_op_ok x" by simp
  show ?thesis
    unfolding Let_def rc fst_conv snd_conv using t[unfolded rc spec prod.case, OF _ ok] ab by auto
qed

section \<open>Counting generated blocks\<close>

definition gen_cell :: "formulator \<Rightarrow> address \<Rightarrow> dkey" where
  "gen_cell p a = PData (fo_pid p) (toGenCountKey a)"

definition gen_cells :: "formulator \<Rightarrow> dkey set" where
  "gen_cells p = index_cells (gencount_ix p) \<union> gen_cell p ` {a. is_address a}"

definition counted :: "formulator \<Rightarrow> (dkey \<Rightarrow> bytes) \<Rightarrow> address list \<Rightarrow> (address \<Rightarrow> u32) \<Rightarrow> bool" where
  "counted p F as cnt \<longleftrightarrow> index_holds (gencount_ix p) F as \<and>
     (\<forall>a. is_address a \<longrightarrow> F (gen_cell p a) = (if a \<in> set as then LE_Uint32ToBytes (cnt a) else []))"

lemma gen_cell_facts [simp]:
  "key_ok (gen_cell p a)" "gen_cell p a \<notin> index_cells (gencount_ix p)"
  "is_address a \<Longrightarrow> is_address b \<Longrightarrow> gen_cell p a = gen_cell p b \<longleftrightarrow> a = b"
  by (auto simp: gen_cell_def index_cells_def gencount_ix_def index_defs toGenCountKey_def
      simp del: tag_bytes.simps dest: arg_cong[where f = "take 2"])

lemma addGenCount_runs:
  assumes "km.runs s ctx F E" and "counted p F as cnt" and "is_address a" and "Suc (length as) < 2 ^ 32"
  obtains G E' as' where "outcome s G E' (Inr ()) (addGenCount p a ctx)" and "set as' = Set.insert a (set as)"
    and "length as' \<le> Suc (length as)"
    and "counted p G as' (\<lambda>b. (if b \<in> set as then cnt b else 0) + (if b = a then 1 else 0))"
    and "same_outside (gen_cells p) F G"
proof -
  let ?ix = "gencount_ix p"
  have h: "index_holds ?ix F as" using assms(2) by (simp add: counted_def)
  obtain F1 E1 as' where add: "outcome s F1 E1 (Inr ()) (index_add ?ix a ctx)" "index_holds ?ix F1 as'"
      "same_outside (index_cells ?ix) F F1" "set as' = Set.insert a (set as)" "length as' \<le> Suc (length as)"
  proof (cases "a \<in> set as")
    case True
    show thesis by (rule that[of F E as]) (use True h gencount.add_known_runs[OF assms(1) h True] in auto)
  next
    case False
    obtain G E' where "outcome s G E' (Inr ()) (index_add ?ix a ctx)" "index_holds ?ix G (as @ [a])"
        "same_outside (index_cells ?ix) F G" "same_outside (index_cells ?ix) E E'"
      by (rule gencount.add_new_runs[OF assms(1) h assms(3) False assms(4)])
    then show thesis by (intro that[of G E' "as @ [a]"]) auto
  qed
  let ?n = "(if a \<in> set as then cnt a else 0)"
  let ?v = "LE_Uint32ToBytes (?n + 1)"
  let ?G = "F1(gen_cell p a := ?v)"
  have old: "F1 (gen_cell p b) = F (gen_cell p b)" for b using same_outsideD[OF add(3)] by simp
  have cell: "F1 (gen_cell p a) = (if ?n = 0 then [] else LE_Uint32ToBytes ?n) \<or> F1 (gen_cell p a) = LE_Uint32ToBytes ?n"
    using assms(2,3) by (auto simp: counted_def old)
  have "outcome s ?G (E1(gen_cell p a := False)) (Inr ()) (addGenCount p a ctx)"
    unfolding addGenCount_def getGenCount_def set_as_ctx_set gen_cell_def[symmetric]
    apply (rule outcome_bind, rule add(1))
    apply (rule outcome_bind, rule read_uint32_runs[where n = ?n], assumption, simp, rule cell)
    apply (rule write_end, assumption, simp, simp_all)
    done
  moreover have "counted p ?G as' (\<lambda>b. (if b \<in> set as then cnt b else 0) + (if b = a then 1 else 0))"
    unfolding counted_def
  proof (intro conjI allI impI)
    show "index_holds ?ix ?G as'" by (rule holds_outside[OF add(2)]) simp
  qed (use assms(2,3) add(4) in \<open>auto simp: counted_def old\<close>)
  moreover have "same_outside (gen_cells p) F ?G"
    using add(3) assms(3) by (auto simp: same_outside_def gen_cells_def)
  ultimately show thesis using that add(4,5) by blast
qed

lemma flushGenCountMap_runs:
  assumes "km.runs s ctx F E" and "counted p F as cnt"
  obtains G E' where "outcome s G E' (Inr (fold (\<lambda>a. om_put a (cnt a)) as [])) (flushGenCountMap p ctx)"
    and "counted p G [] cnt" and "same_outside (gen_cells p) F G"
proof (cases "as = []")
  case True
  then have "outcome s F E (Inr []) (flushGenCountMap p ctx)"
    using assms(2) unfolding flushGenCountMap_def by (intro gencount.flush_none_runs[OF assms(1)]) (simp add: counted_def)
  then show thesis using that[of F E] assms(2) True by simp
next
  case False
  let ?ix = "gencount_ix p"
  have h: "index_holds ?ix F as" using assms(2) by (simp add: counted_def)
  note hf = gencount.holds_facts[OF h]
  define Inv where "Inv j G m \<longleftrightarrow> m = fold (\<lambda>a. om_put a (cnt a)) (take j as) [] \<and>
      (\<forall>a. is_address a \<longrightarrow> G (gen_cell p a) = (if a \<in> set (drop j as) then LE_Uint32ToBytes (cnt a) else [])) \<and>
      (\<forall>a. is_address a \<and> a \<notin> set (drop j as) \<longrightarrow> G (ix_Number ?ix a) = []) \<and> same_outside (gen_cells p) F G" for j G m
  let ?f = "\<lambda>addr m. bindE (getGenCount p addr) (\<lambda>n.
      thenE (writeE (ctx_set (gen_cell p addr) [])) (returnE (om_put addr n m)))"
  have step: "\<exists>H E' y. outcome s H E' (Inr y) (?f (as ! j) x c) \<and> (\<forall>m. H (ix_Reverse ?ix m) = G (ix_Reverse ?ix m)) \<and>
      Inv (Suc j) (H(ix_Number ?ix (as ! j) := [], ix_Reverse ?ix (of_nat j) := [])) y"
    if "j < length as" "km.runs s c G E1" "Inv j G x" for j G E1 x c
  proof (intro exI conjI allI)
    have a: "is_address (as ! j)" "as ! j \<in> set (drop j as)" using hf(2) that(1) by (auto simp: Cons_nth_drop_Suc[symmetric])
    have cell: "G (gen_cell p (as ! j)) = LE_Uint32ToBytes (cnt (as ! j))" using that(3) a by (simp add: Inv_def)
    show "outcome s (G(gen_cell p (as ! j) := [])) (E1(gen_cell p (as ! j) := True)) (Inr (om_put (as ! j) (cnt (as ! j)) x))
        (?f (as ! j) x c)"
      unfolding getGenCount_def gen_cell_def[symmetric]
      apply (rule outcome_bind, rule read_uint32_runs[OF that(2), where n = "cnt (as ! j)"], simp, simp add: cell)
      apply (rule write_then, assumption, simp, simp add: returnE_run)
      done
    have ne: "gen_cell p (as ! j) \<noteq> k" if "k \<in> index_cells ?ix" for k using that by (metis gen_cell_facts(2))
    show "(G(gen_cell p (as ! j) := [])) (ix_Reverse ?ix m) = G (ix_Reverse ?ix m)" for m
      using ne[of "ix_Reverse ?ix m"] by auto
    have d: "set (drop j as) = Set.insert (as ! j) (set (drop (Suc j) as))" "as ! j \<notin> set (drop (Suc j) as)"
      using that(1) hf(1) by (auto simp: Cons_nth_drop_Suc[symmetric] in_set_conv_nth nth_eq_iff_index_eq)
    have cells: "ix_Number ?ix (as ! j) \<noteq> gen_cell p b" "ix_Reverse ?ix m \<noteq> gen_cell p b" for b m
      using a(1) by (metis gen_cell_facts(2) index_cells_mem)+
    show "Inv (Suc j) ((G(gen_cell p (as ! j) := []))(ix_Number ?ix (as ! j) := [], ix_Reverse ?ix (of_nat j) := []))
        (om_put (as ! j) (cnt (as ! j)) x)"
      unfolding Inv_def
    proof (intro conjI allI impI)
      show "om_put (as ! j) (cnt (as ! j)) x = fold (\<lambda>a. om_put a (cnt a)) (take (Suc j) as) []"
        using that(1,3) by (simp add: Inv_def take_Suc_conv_app_nth)
    qed (use that(3) d a cells cells[symmetric] in \<open>auto simp: Inv_def gencount.apart same_outside_def gen_cells_def index_cells_def\<close>)
  qed
  obtain G E' y where G: "outcome s (G(ix_Count ?ix := [])) E' (Inr y) (index_flush ?ix ?f [] ctx)" "Inv (length as) G y"
    by (rule gencount.flush_runs[where Inv = Inv and x = "[]" and f = ?f, OF assms(1) h False _ step])
      (use hf(7) assms(2) in \<open>auto simp: Inv_def counted_def\<close>)
  have ne: "ix_Count ?ix \<noteq> gen_cell p a" for a by (metis gen_cell_facts(2) index_cells_mem(3))
  have "counted p (G(ix_Count ?ix := [])) [] cnt"
    using G(2) ne by (auto simp: counted_def index_holds_def Inv_def gencount.apart)
  moreover have "same_outside (gen_cells p) F (G(ix_Count ?ix := []))"
    using G(2) by (auto simp: Inv_def same_outside_def gen_cells_def index_cells_def)
  moreover have "flushGenCountMap p ctx = index_flush ?ix ?f [] ctx"
    by (simp add: flushGenCountMap_def gen_cell_def set_as_ctx_set del: ctx_set.simps)
  moreover have "y = fold (\<lambda>a. om_put a (cnt a)) as []" using G(2) by (simp add: Inv_def)
  ultimately show thesis using that G(1) by metis
qed

lemma counted_cong: "counted p F as cnt \<Longrightarrow> (\<And>a. a \<in> set as \<Longrightarrow> cnt' a = cnt a) \<Longrightarrow> counted p F as cnt'"
  by (auto simp: counted_def)

lemma count_blocks_run:
  assumes "km.runs s ctx F E" and "counted p F as cnt" and "\<forall>g\<in>set gs. is_address g" and "length as + length gs < 2 ^ 32"
  obtains G E' as' where "outcome s G E' (Inr ()) (foreachE (addGenCount p) gs ctx)" and "set as' = set as \<union> set gs"
    and "counted p G as' (\<lambda>a. (if a \<in> set as then cnt a else 0) + of_nat (count_list gs a))"
    and "same_outside (gen_cells p) F G"
  using assms
proof (induction gs arbitrary: ctx F E as cnt thesis)
  case Nil
  then show ?case by (intro Nil.prems(1)[of F E as]) (auto simp: returnE_run elim: counted_cong)
next
  case (Cons g gs)
  obtain G E' as' where G: "outcome s G E' (Inr ()) (addGenCount p g ctx)" "set as' = Set.insert g (set as)"
      "length as' \<le> Suc (length as)"
      "counted p G as' (\<lambda>b. (if b \<in> set as then cnt b else 0) + (if b = g then 1 else 0))" "same_outside (gen_cells p) F G"
    by (rule addGenCount_runs[OF Cons.prems(2,3), of g]) (use Cons.prems(4,5) in auto)
  from G(1) obtain c where c: "addGenCount p g ctx = (Inr (), c)" "km.runs s c G E'" by (rule outcomeE)
  obtain H E2 as2 where H: "outcome s H E2 (Inr ()) (foreachE (addGenCount p) gs c)" "set as2 = set as' \<union> set gs"
      "counted p H as2 (\<lambda>a. (if a \<in> set as' then (if a \<in> set as then cnt a else 0) + (if a = g then 1 else 0) else 0) +
         of_nat (count_list gs a))" "same_outside (gen_cells p) G H"
    by (rule Cons.IH[OF _ c(2) G(4)]) (use Cons.prems(4,5) G(3) in auto)
  show ?case
  proof (rule Cons.prems(1)[OF _ _ _ same_outside_trans[OF G(5) H(4)]])
    show "outcome s H E2 (Inr ()) (foreachE (addGenCount p) (g # gs) ctx)" using c(1) H(1) by (simp add: bindE_def)
    show "set as2 = set as \<union> set (g # gs)" using H(2) G(2) by auto
    show "counted p H as2 (\<lambda>a. (if a \<in> set as then cnt a else 0) + of_nat (count_list (g # gs) a))"
      by (rule counted_cong[OF H(3)]) (auto simp: G(2))
  qed
qed

text \<open>
  C26: \<^verbatim>\<open>addGenCount\<close> and \<^verbatim>\<open>flushGenCountMap\<close> count. From a state without counts, after the blocks of the
  generators \<open>gs\<close> the flush returns for each generator the number of its blocks and nothing for any other
  address, leaves the state without counts again, and touches no other cell.
\<close>

theorem generated_blocks_counted:
  assumes "ctx_wf ctx" and "counted p (ctx_view ctx) [] cnt" and "\<forall>g\<in>set gs. is_address g" and "length gs < 2 ^ 32"
  shows "\<exists>ctx1 ctx2 m. foreachE (addGenCount p) gs ctx = (Inr (), ctx1) \<and> flushGenCountMap p ctx1 = (Inr m, ctx2) \<and>
    (\<forall>a. om_get m a = (if a \<in> set gs then Some (of_nat (count_list gs a)) else None)) \<and>
    fst (flushGenCountMap p ctx2) = Inr [] \<and>
    (\<forall>k. key_ok k \<and> k \<notin> gen_cells p \<longrightarrow> ctx_view ctx2 k = ctx_view ctx k)"
proof -
  obtain G E as where G: "outcome ctx G E (Inr ()) (foreachE (addGenCount p) gs ctx)" "set as = set [] \<union> set gs"
      "counted p G as (\<lambda>a. (if a \<in> set [] then cnt a else 0) + of_nat (count_list gs a))" "same_outside (gen_cells p) (ctx_view ctx) G"
    by (rule count_blocks_run[OF km.runs_refl[OF assms(1)] assms(2,3)]) (use assms(4) in auto)
  from G(1) obtain ctx1 where c1: "foreachE (addGenCount p) gs ctx = (Inr (), ctx1)" "km.runs ctx ctx1 G E" by (rule outcomeE)
  let ?m = "fold (\<lambda>a. om_put a ((if a \<in> set [] then cnt a else 0) + of_nat (count_list gs a))) as []"
  obtain H E2 where H: "outcome ctx H E2 (Inr ?m) (flushGenCountMap p ctx1)"
      "counted p H [] (\<lambda>a. (if a \<in> set [] then cnt a else 0) + of_nat (count_list gs a))" "same_outside (gen_cells p) G H"
    by (rule flushGenCountMap_runs[OF c1(2) G(3)])
  from H(1) obtain ctx2 where c2: "flushGenCountMap p ctx1 = (Inr ?m, ctx2)" "km.runs ctx ctx2 H E2" by (rule outcomeE)
  have "fst (flushGenCountMap p ctx2) = Inr []"
    by (rule flushGenCountMap_runs[OF c2(2) H(2)]) (simp add: outcome_def)
  moreover have "om_get ?m a = (if a \<in> set gs then Some (of_nat (count_list gs a)) else None)" for a
    unfolding om_get_fold_put using G(2) by simp
  moreover have "ctx_view ctx2 k = ctx_view ctx k" if "key_ok k \<and> k \<notin> gen_cells p" for k
    using that runs_view[OF c2(2)] same_outsideD[OF same_outside_trans[OF G(4) H(3)]] by simp
  ultimately show ?thesis using c1(1) c2(1) by blast
qed

theorem generated_blocks_counted_witness:
  "(let p = sample_formulator; a = NewAddress 0 2 0; b = NewAddress 0 3 0
    in \<exists>ctx1 ctx2 m. foreachE (addGenCount p) [a, b, a] NewEmptyContext = (Inr (), ctx1) \<and>
      flushGenCountMap p ctx1 = (Inr m, ctx2) \<and> om_get m a = Some 2 \<and> om_get m b = Some 1)"
proof -
  let ?p = sample_formulator and ?a = "NewAddress 0 2 0" and ?b = "NewAddress 0 3 0"
  have ab: "?a \<noteq> ?b" by code_simp
  have "counted ?p (ctx_view NewEmptyContext) [] (\<lambda>_. 0)"
    by (simp add: counted_def index_holds_def empty_facts)
  note t = generated_blocks_counted[OF empty_facts(1) this, of "[?a, ?b, ?a]"]
  obtain ctx1 ctx2 m where r: "foreachE (addGenCount ?p) [?a, ?b, ?a] NewEmptyContext = (Inr (), ctx1)"
      "flushGenCountMap ?p ctx1 = (Inr m, ctx2)"
      "\<forall>a. om_get m a = (if a \<in> set [?a, ?b, ?a] then Some (of_nat (count_list [?a, ?b, ?a] a)) else None)"
    by (rule exE[OF t]) (simp, simp, blast)
  show ?thesis
    unfolding Let_def by (intro exI conjI, rule r(1), rule r(2)) (use r(3) ab in auto)
qed

end
