(* ===== verification/Frame_Laws.thy ===== *)
theory Frame_Laws
  imports Vault_Laws
begin

text \<open>
  What a method leaves alone. \<open>leaves K m\<close> says that \<open>m\<close>, whatever it returns, neither changes nor marks the
  data cells in \<open>K\<close>; the rules follow the structure of a method, through snapshots and reads of accounts.
  \<open>accts\<close> is the rest of a context, its accounts, which methods that only read and write data leave alone.
\<close>

section \<open>Changes of the top snapshot\<close>

lemma runs_dirty: "km.runs s ctx F E \<Longrightarrow> km.runs s (ctx_dirty ctx) F E"
  by (auto simp: km.runs_def kv.steps_def ctx_frame_def ctx_dirty_def ctx_wf_def ctx_view_def ctx_mark_def ctx_Top_def)

lemma runs_top:
  assumes "km.runs s ctx F E" and "ctx_stack ctx = d # ps" and "ctx_stack c = d' # ps" and "ctd_inv d'"
    and "alayer d' = alayer d" and "player d' = player d" and "cd_isTop d' = cd_isTop d"
    and "ctx_loader c = ctx_loader ctx" and "cache_ok (ctx_loader ctx) (ctx_cache c)"
    and "ctx_genTargetHeight c = ctx_genTargetHeight ctx" and "ctx_genLastHash c = ctx_genLastHash ctx"
    and "ctx_genTimestamp c = ctx_genTimestamp ctx"
  shows "km.runs s c F E"
proof -
  have "ctx_view c k = ctx_view ctx k" "ctx_mark c k = ctx_mark ctx k" for k
    by (cases k; simp add: ctx_view_def assms ctx_mark_def ctx_Top_def emptied_def)+
  moreover have "ctx_wf c" using km.runs_wf[OF assms(1)] assms(2-9) by (simp add: ctx_wf_def)
  moreover have "ctx_frame s c" using assms by (simp add: km.runs_def kv.steps_def ctx_frame_def)
  ultimately show ?thesis using assms(1) by (simp add: km.runs_def kv.steps_def)
qed

lemma cc_Account_facts:
  shows "cache_ok ld cc \<Longrightarrow> cache_ok ld (snd (cc_Account ld a cc))"
    and "b \<noteq> a \<Longrightarrow> om_has (cc_AccountMap (snd (cc_Account ld a cc))) b = om_has (cc_AccountMap cc) b"
proof -
  show "cache_ok ld cc \<Longrightarrow> cache_ok ld (snd (cc_Account ld a cc))"
  proof (cases "om_get (cc_AccountMap cc) a")
    case None
    then show "cache_ok ld cc \<Longrightarrow> cache_ok ld (snd (cc_Account ld a cc))"
      by (cases "ld_Account ld a") (auto simp: cc_Account_def cache_ok_def om_get_put)
  qed (simp add: cc_Account_def)
  show "b \<noteq> a \<Longrightarrow> om_has (cc_AccountMap (snd (cc_Account ld a cc))) b = om_has (cc_AccountMap cc) b"
    by (cases "om_get (cc_AccountMap cc) a"; cases "ld_Account ld a") (simp_all add: cc_Account_def om_has_def)
qed

lemma ctd_Account_below:
  assumes "\<forall>q\<in>set ps. \<not> cd_isTop q"
  shows "fst (snd (ctd_Account ld a ps cc)) = ps \<and> (cache_ok ld cc \<longrightarrow> cache_ok ld (snd (snd (ctd_Account ld a ps cc)))) \<and>
    (\<forall>b. b \<noteq> a \<longrightarrow> om_has (cc_AccountMap (snd (snd (ctd_Account ld a ps cc)))) b = om_has (cc_AccountMap cc) b)"
  using assms
proof (induction ps)
  case Nil
  then show ?case using cc_Account_facts(1)[of ld cc a] cc_Account_facts(2)[where ld = ld and a = a and cc = cc] by (cases "cc_Account ld a cc") simp
next
  case (Cons d ps)
  obtain r ps' cc' where r: "ctd_Account ld a ps cc = (r, ps', cc')" by (metis prod_cases3)
  show ?case using Cons by (cases r) (simp_all add: r split: option.split)
qed

lemma Account_runs:
  assumes "km.runs s ctx F E"
  shows "km.runs s (snd (ctx_Account a ctx)) F E"
proof -
  have wf: "ctx_wf ctx" by (rule km.runs_wf[OF assms])
  then obtain d ps where d: "ctx_stack ctx = d # ps" unfolding ctx_wf_def by (auto elim: stack_okE)
  have t: "cd_isTop d" "ctd_inv d" "\<forall>q\<in>set ps. \<not> cd_isTop q" "cache_ok (ctx_loader ctx) (ctx_cache ctx)"
    using wf by (simp_all add: ctx_wf_def d)
  obtain r ps' cc' where r: "ctd_Account (ctx_loader ctx) a ps (ctx_cache ctx) = (r, ps', cc')" by (metis prod_cases3)
  have b: "ps' = ps" "cache_ok (ctx_loader ctx) cc'"
    using ctd_Account_below[OF t(3), of "ctx_loader ctx" a "ctx_cache ctx"] t(4) by (simp_all add: r)
  let ?put = "\<lambda>acc. d\<lparr>cd_AccountMap := om_put a acc (cd_AccountMap d)\<rparr>"
  have put: "km.runs s ((ctx_dirty ctx)\<lparr>ctx_stack := ?put acc # ps, ctx_cache := cc'\<rparr>) F E" for acc
    by (rule runs_top[where d' = "?put acc", OF assms d])
      (use t(2) b(2) in \<open>simp_all add: ctd_inv_def alayer_def player_def ctx_dirty_def\<close>)
  have same: "km.runs s ((ctx_dirty ctx)\<lparr>ctx_stack := d # ps, ctx_cache := cc'\<rparr>) F E"
    by (rule runs_top[where d' = d, OF assms d]) (use t(2) b(2) in \<open>simp_all add: ctx_dirty_def\<close>)
  have old: "km.runs s ((ctx_dirty ctx)\<lparr>ctx_stack := d # ps\<rparr>) F E"
    by (rule runs_top[where d' = d, OF assms d]) (use t(2,4) in \<open>simp_all add: ctx_dirty_def\<close>)
  show ?thesis
    using put same old t(1) b(1)
    by (cases r) (auto simp: ctx_Account_def ctx_read_def d r ctx_dirty_def Let_def split: option.split)
qed

section \<open>Cells a method leaves alone\<close>

definition leaves :: "dkey set \<Rightarrow> (chain_ctx, 'a) go_meth \<Rightarrow> bool" where
  "leaves K m \<longleftrightarrow> (\<forall>s ctx F E. km.runs s ctx F E \<longrightarrow>
     (\<exists>G E'. km.runs s (snd (m ctx)) G E' \<and> (\<forall>k\<in>K. G k = F k \<and> E' k = E k)))"

lemma leavesD:
  assumes "leaves K m" and "km.runs s ctx F E"
  obtains G E' where "km.runs s (snd (m ctx)) G E'" and "\<forall>k\<in>K. G k = F k \<and> E' k = E k"
  using assms unfolding leaves_def by blast

named_theorems leaves_intros

lemma leaves_same: "(\<And>s ctx F E. km.runs s ctx F E \<Longrightarrow> km.runs s (snd (m ctx)) F E) \<Longrightarrow> leaves K m"
  unfolding leaves_def by blast

lemma leaves_pure [leaves_intros]:
  "leaves K (returnE x)" "leaves K (throwE e)" "leaves K (failIf b e)" "leaves K (liftE v)"
  by (rule leaves_same, simp add: returnE_run throwE_def failIf_run liftE_def)+

lemma leaves_bindE [leaves_intros]:
  assumes "leaves K m" and "\<And>x. leaves K (f x)"
  shows "leaves K (bindE m f)"
  unfolding leaves_def
proof (intro allI impI)
  fix s ctx F E assume r: "km.runs s ctx F E"
  obtain G E' where G: "km.runs s (snd (m ctx)) G E'" "\<forall>k\<in>K. G k = F k \<and> E' k = E k" by (rule leavesD[OF assms(1) r])
  obtain v c where v: "m ctx = (v, c)" by fastforce
  show "\<exists>G E'. km.runs s (snd (bindE m f ctx)) G E' \<and> (\<forall>k\<in>K. G k = F k \<and> E' k = E k)"
  proof (cases v)
    case (Inl e)
    then show ?thesis using G v by (auto simp: bindE_def)
  next
    case (Inr x)
    have "km.runs s c G E'" using G(1) v by simp
    then obtain H E2 where "km.runs s (snd (f x c)) H E2" "\<forall>k\<in>K. H k = G k \<and> E2 k = E' k" by (rule leavesD[OF assms(2)])
    then show ?thesis using G(2) v Inr by (auto simp: bindE_def)
  qed
qed

lemma leaves_if [leaves_intros]: "leaves K m \<Longrightarrow> leaves K n \<Longrightarrow> leaves K (if b then m else n)"
  by simp

lemma leaves_foreachE [leaves_intros]: "(\<And>x. x \<in> set xs \<Longrightarrow> leaves K (f x)) \<Longrightarrow> leaves K (foreachE f xs)"
  by (induction xs) (auto intro!: leaves_pure leaves_bindE)

lemma fst_get: "km.runs s ctx F E \<Longrightarrow> key_ok k \<Longrightarrow> fst (ctx_get k ctx) = F k"
  by (erule (1) km.runs_get) (simp only: fst_conv)

lemma leaves_read:
  assumes "key_ok k" and "\<And>c. snd (f c) = snd (ctx_get k c)"
  shows "leaves K (readE f)"
proof (rule leaves_same)
  fix s ctx F E assume r: "km.runs s ctx F E"
  have "outcome s F E (Inr (F k)) (readE (ctx_get k) ctx)"
    by (rule km.runs_get[OF r assms(1)]) (simp add: readE_def)
  then show "km.runs s (snd (readE f ctx)) F E" using assms(2)[of ctx] by (simp add: readE_def outcome_def case_prod_unfold Let_def)
qed

lemma leaves_write:
  assumes "key_ok k" and "k \<notin> K"
  shows "leaves K (writeE (ctx_set k v))"
  unfolding leaves_def
proof (intro allI impI)
  let ?w = "writeE (ctx_set k v) :: (chain_ctx, unit) go_meth"
  fix s ctx F E assume r: "km.runs s ctx F E"
  have "km.runs s (snd (?w ctx)) (F(k := v)) (E(k := (v = [])))"
    using writeE_runs[OF r assms(1), of v] by (simp add: outcome_def)
  then show "\<exists>G E'. km.runs s (snd (?w ctx)) G E' \<and> (\<forall>k\<in>K. G k = F k \<and> E' k = E k)"
    using assms(2) by (intro exI[of _ "F(k := v)"] exI[of _ "E(k := (v = []))"]) auto
qed

lemma leaves_all: "leaves UNIV m \<Longrightarrow> km.runs s ctx F E \<Longrightarrow> m ctx = (r, c) \<Longrightarrow> km.runs s c F E"
proof -
  assume l: "leaves UNIV m" and r: "km.runs s ctx F E" and m: "m ctx = (r, c)"
  obtain G E' where G: "km.runs s (snd (m ctx)) G E'" "\<forall>k\<in>UNIV. G k = F k \<and> E' k = E k" by (rule leavesD[OF l r])
  then have "G = F" "E' = E" by (auto simp: fun_eq_iff)
  then show "km.runs s c F E" using G(1) m by simp
qed

lemma leaves_accounts [leaves_intros]: "leaves K (ctx_Account a)" "leaves K (ctx_HasAccount a)"
  by (rule leaves_same, simp add: Account_runs ctx_HasAccount_def)+

lemma marked_empty: "ctx_wf ctx \<Longrightarrow> ctx_mark ctx k \<Longrightarrow> ctx_view ctx k = []"
  by (cases k) (auto simp: ctx_wf_def ctx_mark_def ctx_Top_def emptied_def ctx_view_def alayer_def player_def elim!: stack_okE)

lemma leaves_in_snapshot [leaves_intros]:
  assumes "leaves K m" and "\<forall>k\<in>K. key_ok k"
  shows "leaves K (in_snapshot m)"
  unfolding leaves_def
proof (intro allI impI)
  fix s ctx F E assume r: "km.runs s ctx F E"
  have wf: "ctx_wf ctx" by (rule km.runs_wf[OF r])
  have FE: "\<forall>k\<in>K. ctx_view ctx k = F k \<and> ctx_mark ctx k = E k" using r assms(2) by (auto simp: km.runs_def kv.steps_def)
  obtain s1 where s1: "km.runs s1 s1 (ctx_view ctx) (\<lambda>_. False)"
      "\<forall>e. fst (m s1) = Inl e \<and> ctx_local s1 (snd (m s1)) \<longrightarrow>
        outcome ctx (ctx_view ctx) (ctx_mark ctx) (Inl e) (in_snapshot m ctx)"
      "\<forall>G E. outcome s1 G E (Inr ()) (m s1) \<longrightarrow>
        outcome ctx (\<lambda>k. if ctx_mark ctx k then [] else G k) (\<lambda>k. E k \<or> ctx_mark ctx k) (Inr ()) (in_snapshot m ctx)"
    by (rule in_snapshot_runs[OF wf])
  obtain G E' where G: "km.runs s1 (snd (m s1)) G E'" "\<forall>k\<in>K. G k = ctx_view ctx k \<and> E' k = False"
    by (rule leavesD[OF assms(1) s1(1)])
  obtain v c where v: "m s1 = (v, c)" by fastforce
  show "\<exists>G E'. km.runs s (snd (in_snapshot m ctx)) G E' \<and> (\<forall>k\<in>K. G k = F k \<and> E' k = E k)"
  proof (cases v)
    case (Inl e)
    have "ctx_local s1 (snd (m s1))" using G(1) by (simp add: km.runs_def kv.steps_def ctx_local_def)
    then have "outcome ctx (ctx_view ctx) (ctx_mark ctx) (Inl e) (in_snapshot m ctx)" using s1(2) v Inl by simp
    then have "km.runs s (snd (in_snapshot m ctx)) (ctx_view ctx) (ctx_mark ctx)"
      using km.runs_trans[OF r] by (simp add: outcome_def)
    then show ?thesis using FE by blast
  next
    case (Inr u)
    then have "outcome s1 G E' (Inr ()) (m s1)" using G(1) v by simp
    then have "km.runs s (snd (in_snapshot m ctx)) (\<lambda>k. if ctx_mark ctx k then [] else G k) (\<lambda>k. E' k \<or> ctx_mark ctx k)"
      using s1(3) km.runs_trans[OF r] by (simp add: outcome_def)
    moreover have "\<forall>k\<in>K. (if ctx_mark ctx k then [] else G k) = F k \<and> (E' k \<or> ctx_mark ctx k) = E k"
      using FE G(2) marked_empty[OF wf] by auto
    ultimately show ?thesis by blast
  qed
qed

text \<open>A method in a snapshot: it fails and everything is as before, or its changes are kept but for marked cells.\<close>

lemma snapshot_cases:
  assumes "leaves {} m" and "ctx_wf ctx"
  obtains (failed) e where "outcome ctx (ctx_view ctx) (ctx_mark ctx) (Inl e) (in_snapshot m ctx)"
  | (kept) s1 G E where "km.runs s1 s1 (ctx_view ctx) (\<lambda>_. False)" and "outcome s1 G E (Inr ()) (m s1)"
    and "outcome ctx (\<lambda>k. if ctx_mark ctx k then [] else G k) (\<lambda>k. E k \<or> ctx_mark ctx k) (Inr ()) (in_snapshot m ctx)"
proof -
  obtain s1 where s1: "km.runs s1 s1 (ctx_view ctx) (\<lambda>_. False)"
      "\<forall>e. fst (m s1) = Inl e \<and> ctx_local s1 (snd (m s1)) \<longrightarrow>
        outcome ctx (ctx_view ctx) (ctx_mark ctx) (Inl e) (in_snapshot m ctx)"
      "\<forall>G E. outcome s1 G E (Inr ()) (m s1) \<longrightarrow>
        outcome ctx (\<lambda>k. if ctx_mark ctx k then [] else G k) (\<lambda>k. E k \<or> ctx_mark ctx k) (Inr ()) (in_snapshot m ctx)"
    by (rule in_snapshot_runs[OF assms(2)])
  obtain G E' where G: "km.runs s1 (snd (m s1)) G E'" by (rule leavesD[OF assms(1) s1(1)])
  show thesis
  proof (cases "fst (m s1)")
    case (Inl e)
    have "ctx_local s1 (snd (m s1))" using G by (simp add: km.runs_def kv.steps_def ctx_local_def)
    then show thesis using failed s1(2) Inl by blast
  next
    case (Inr u)
    then have "outcome s1 G E' (Inr ()) (m s1)" using G by (simp add: outcome_def)
    then show thesis using kept[OF s1(1)] s1(3) by blast
  qed
qed

lemma snapshot_runs:
  assumes "ctx_wf ctx"
  shows "km.runs (snd (ctx_Snapshot ctx)) (snd (ctx_Snapshot ctx)) (ctx_view ctx) (\<lambda>_. False)"
    and "km.runs (snd (ctx_Snapshot ctx)) c G E \<Longrightarrow> m (snd (ctx_Snapshot ctx)) = (Inr (), c) \<Longrightarrow> fst (in_snapshot m ctx) = Inr ()"
proof -
  obtain sn s1 where sn: "ctx_Snapshot ctx = (sn, s1)" by (metis surj_pair)
  obtain t ps where f: "ctx_stack ctx = t # ps" "ctx_stack s1 = NewContextData (ctx_stack ctx) # t\<lparr>cd_isTop := False\<rparr> # ps"
      "sn = length ps + 2" "ctx_wf s1" "\<And>k. ctx_view s1 k = ctx_view ctx k"
    using ctx_Snapshot_facts[OF assms sn] by metis
  show "km.runs (snd (ctx_Snapshot ctx)) (snd (ctx_Snapshot ctx)) (ctx_view ctx) (\<lambda>_. False)"
    using km.runs_refl[OF f(4)] f(2,5) by (auto simp: sn km.runs_def kv.steps_def ctx_mark_def ctx_Top_def)
  assume c: "km.runs (snd (ctx_Snapshot ctx)) c G E" "m (snd (ctx_Snapshot ctx)) = (Inr (), c)"
  obtain y where y: "ctx_stack c = y # t\<lparr>cd_isTop := False\<rparr> # ps"
    using c(1) f(2) by (cases "ctx_stack c") (auto simp: sn km.runs_def kv.steps_def ctx_frame_def ctx_wf_def)
  show "fst (in_snapshot m ctx) = Inr ()" using c(2) ctx_Commit_one[OF y f(3)] by (simp add: in_snapshot_def sn)
qed

section \<open>The methods of the vault and the administrator\<close>

abbreviation other_cells :: "vault \<Rightarrow> dkey set \<Rightarrow> bool" where
  "other_cells v K \<equiv> \<forall>k\<in>K. key_ok k \<and> (\<forall>a n. k \<noteq> AData a (vt_pid v) n) \<and> (\<forall>n. k \<noteq> PData (vt_pid v) n)"

lemma leaves_Balance [leaves_intros]: "is_address a \<Longrightarrow> leaves K (readE (Balance v a))"
  by (rule leaves_read[of "bcell v a"]) (simp_all add: Balance_def case_prod_unfold)

lemma leaves_vault_reads [leaves_intros]: "leaves K (readE (CollectedFee v))" "leaves K (readE (GetDefaultFee v))"
  by (rule leaves_read[of "ccell v"]; simp add: CollectedFee_def case_prod_unfold)
    (rule leaves_read[of "fcell v"]; simp add: GetDefaultFee_def case_prod_unfold)

lemma leaves_AdminAddress [leaves_intros]: "leaves K (AdminAddress p name)"
proof -
  let ?k = "PData (ad_pid p) (toAdminAddressKey name)"
  have "AdminAddress p name = bindE (readE (ctx_get ?k)) (\<lambda>bs. if length bs = 0 then throwE Panic else returnE (go_copy (zeros AddressSize) bs))"
    by (auto simp: fun_eq_iff AdminAddress_def bindE_def readE_def throwE_def returnE_def split: prod.split)
  then show ?thesis by (auto intro!: leaves_bindE leaves_read leaves_if leaves_pure)
qed

lemma AdminAddress_address:
  "leaves K (bindE (AdminAddress p name) f)" if "\<And>a. is_address a \<Longrightarrow> leaves K (f a)"
proof -
  let ?k = "PData (ad_pid p) (toAdminAddressKey name)"
  have "bindE (AdminAddress p name) f = bindE (readE (ctx_get ?k)) (\<lambda>bs. if length bs = 0 then throwE Panic else f (go_copy (zeros AddressSize) bs))"
    by (auto simp: fun_eq_iff AdminAddress_def bindE_def readE_def throwE_def split: prod.split)
  moreover have "is_address (go_copy (zeros AddressSize) bs)" for bs by (simp add: is_address_def go_copy_def)
  ultimately show ?thesis using that by (auto intro!: leaves_bindE leaves_read leaves_if leaves_pure)
qed

lemma leaves_checks [leaves_intros]:
  "leaves K (checkAdmin p name a)" "leaves K (validateFrom a signers)" "leaves K (checkDust am)" "leaves K (checkAccountExists a)"
  unfolding checkAdmin_def validateFrom_def checkDust_def checkAccountExists_def by (intro leaves_intros)+

lemma leaves_balances [leaves_intros]:
  assumes "is_address a" and "other_cells v K"
  shows "leaves K (AddBalance v a am)" and "leaves K (SubBalance v a am)"
proof -
  have "key_ok (bcell v a)" "bcell v a \<notin> K" using assms by auto
  note w = leaves_write[OF this]
  show "leaves K (AddBalance v a am)" unfolding AddBalance_def set_as_ctx_set by (intro leaves_intros w assms)
  show "leaves K (SubBalance v a am)" unfolding SubBalance_def RemoveBalance_def set_as_ctx_set Let_def
    by (intro leaves_intros w assms)
qed

lemma leaves_WithFee [leaves_intros]:
  assumes "is_address a" and "other_cells v K" and "leaves K m"
  shows "leaves K (WithFee v a (GetDefaultFee v) m)"
proof -
  have "key_ok (ccell v)" "ccell v \<notin> K" "\<forall>k\<in>K. key_ok k" using assms by auto
  note w = leaves_write[OF this(1,2)] and ok = this(3)
  show ?thesis unfolding WithFee_def set_as_ctx_set by (intro leaves_intros w assms ok)
qed

section \<open>Accounts and data\<close>

definition accts :: "chain_ctx \<Rightarrow> ((address, account) omap \<times> (address, account) omap) list \<times> (address, account) omap \<times> loader" where
  "accts ctx = (map (\<lambda>d. (cd_AccountMap d, cd_DeletedAccountMap d)) (ctx_stack ctx), cc_AccountMap (ctx_cache ctx), ctx_loader ctx)"

lemma ctd_data_accts:
  "map (\<lambda>d. (cd_AccountMap d, cd_DeletedAccountMap d)) (fst (snd (ctd_AccountData ld a p n st cc))) =
     map (\<lambda>d. (cd_AccountMap d, cd_DeletedAccountMap d)) st \<and>
   cc_AccountMap (snd (snd (ctd_AccountData ld a p n st cc))) = cc_AccountMap cc"
  "map (\<lambda>d. (cd_AccountMap d, cd_DeletedAccountMap d)) (fst (snd (ctd_ProcessData ld p n st cc))) =
     map (\<lambda>d. (cd_AccountMap d, cd_DeletedAccountMap d)) st \<and>
   cc_AccountMap (snd (snd (ctd_ProcessData ld p n st cc))) = cc_AccountMap cc"
  by (induction st)
    (auto simp: cc_AccountData_def cc_ProcessData_def Let_def split: option.split prod.split)

lemma accts_get [simp]: "accts (snd (ctx_get k ctx)) = accts ctx"
  by (cases k) (simp_all add: accts_def ctx_AccountData_def ctx_ProcessData_def ctx_read_def case_prod_unfold ctd_data_accts)

lemma accts_set: "fst (accts ctx) \<noteq> [] \<Longrightarrow> accts (ctx_set k v ctx) = accts ctx"
  by (cases k; cases "ctx_stack ctx")
    (simp_all add: accts_def ctx_SetAccountData_def ctx_SetProcessData_def ctx_setTop_def ctx_dirty_def
      ctd_SetAccountData_def ctd_SetProcessData_def Let_def)

lemma keeps_accts_data:
  "keeps (\<lambda>c. accts c = A) (readE (ctx_get k))" "fst A \<noteq> [] \<Longrightarrow> keeps (\<lambda>c. accts c = A) (writeE (ctx_set k v))"
  by (auto intro!: keeps_readE keeps_writeE simp: accts_set)

lemma keeps_accts_vault:
  assumes "fst A \<noteq> []"
  shows "keeps (\<lambda>c. accts c = A) (readE (Balance v a))" and "keeps (\<lambda>c. accts c = A) (AddBalance v a am)"
    and "keeps (\<lambda>c. accts c = A) (RemoveBalance v a)"
proof -
  have b: "snd (Balance v a c) = snd (ctx_get (bcell v a) c)" for c by (simp add: Balance_def case_prod_unfold)
  show 1: "keeps (\<lambda>c. accts c = A) (readE (Balance v a))" by (rule keeps_readE) (simp only: b accts_get)
  show "keeps (\<lambda>c. accts c = A) (AddBalance v a am)"
    unfolding AddBalance_def set_as_ctx_set
    by (intro keeps_bindE keeps_failIf 1 keeps_accts_data(2)[OF assms])
  show "keeps (\<lambda>c. accts c = A) (RemoveBalance v a)"
    unfolding RemoveBalance_def set_as_ctx_set by (rule keeps_accts_data(2)[OF assms])
qed

lemma HasAccount_accts: "accts c = accts ctx \<Longrightarrow> fst (ctx_HasAccount a c) = fst (ctx_HasAccount a ctx)"
proof -
  have h: "ctd_HasAccount ld a st cc = ctd_HasAccount ld a st' cc'"
    if "map (\<lambda>d. (cd_AccountMap d, cd_DeletedAccountMap d)) st = map (\<lambda>d. (cd_AccountMap d, cd_DeletedAccountMap d)) st'"
      and "cc_AccountMap cc = cc_AccountMap cc'" for ld st st' cc cc'
    using that
  proof (induction st arbitrary: st')
    case (Cons d st)
    then show ?case by (cases st') auto
  qed (auto simp: cc_HasAccount_def)
  show "accts c = accts ctx \<Longrightarrow> fst (ctx_HasAccount a c) = fst (ctx_HasAccount a ctx)"
    using h[of "ctx_stack c" "ctx_stack ctx" "ctx_cache c" "ctx_cache ctx" "ctx_loader ctx"]
    by (simp add: accts_def ctx_HasAccount_def)
qed

lemma obj_keeps:
  assumes "keeps (\<lambda>c. accts c = accts ctx) m" and "m ctx = (r, c)"
  shows "accts c = accts ctx"
  using keepsD[OF assms(1) _ assms(2)] by simp

lemma Account_accts:
  assumes "accts c = accts ctx" and "ctx_wf c" and "ctx_wf ctx"
  shows "fst (ctx_Account a c) = fst (ctx_Account a ctx)"
proof -
  let ?am = "map (\<lambda>d. (cd_AccountMap d, cd_DeletedAccountMap d))"
  have h: "fst (ctd_Account ld a ps cc) = fst (ctd_Account ld a qs cc')"
    if "?am ps = ?am qs" "\<forall>q\<in>set ps. \<not> cd_isTop q" "\<forall>q\<in>set qs. \<not> cd_isTop q" "cc_AccountMap cc = cc_AccountMap cc'" for ld ps qs cc cc'
    using that
  proof (induction ps arbitrary: qs)
    case Nil
    then show ?case by (simp add: cc_Account_def case_prod_unfold Let_def split: option.split sum.split)
  next
    case (Cons d ps)
    then obtain e qs' where q: "qs = e # qs'" by (cases qs) auto
    then have ih: "fst (ctd_Account ld a ps cc) = fst (ctd_Account ld a qs' cc')" using Cons by auto
    obtain r x r' x' where r: "ctd_Account ld a ps cc = (r, x)" "ctd_Account ld a qs' cc' = (r', x')" by (metis surj_pair)
    obtain x1 x2 x3 x4 where x: "x = (x1, x2)" "x' = (x3, x4)" by (metis surj_pair)
    show ?case using Cons.prems ih q r x by (cases r) (auto split: option.split)
  qed
  obtain d ps e qs where d: "ctx_stack c = d # ps" "ctx_stack ctx = e # qs"
    using assms(2,3) unfolding ctx_wf_def by (metis stack_okE)
  have t: "cd_isTop d" "cd_isTop e" "\<forall>q\<in>set ps. \<not> cd_isTop q" "\<forall>q\<in>set qs. \<not> cd_isTop q"
    using assms(2,3) by (simp_all add: ctx_wf_def d)
  have e: "?am ps = ?am qs" "cc_AccountMap (ctx_cache c) = cc_AccountMap (ctx_cache ctx)" "ctx_loader c = ctx_loader ctx"
      "cd_AccountMap d = cd_AccountMap e" "cd_DeletedAccountMap d = cd_DeletedAccountMap e"
    using assms(1) by (simp_all add: accts_def d)
  note ih = h[OF e(1) t(3,4) e(2), of "ctx_loader ctx"]
  obtain r x1 x2 r' x3 x4 where r: "ctd_Account (ctx_loader ctx) a ps (ctx_cache c) = (r, x1, x2)"
      "ctd_Account (ctx_loader ctx) a qs (ctx_cache ctx) = (r', x3, x4)" by (metis surj_pair)
  show ?thesis
    using ih by (cases r) (auto simp: ctx_Account_def ctx_read_def ctx_dirty_def d t e r Let_def split: option.split)
qed

lemma putAccount_runs:
  assumes "km.runs s ctx F E" and "fst (accts ctx) = (m, d) # ps"
  shows "km.runs s (ctx_putAccount a acc ctx) F E" and "accts (ctx_putAccount a acc ctx) = ((om_put a acc m, d) # ps, snd (accts ctx))"
proof -
  obtain t qs where t: "ctx_stack ctx = t # qs" "m = cd_AccountMap t" "d = cd_DeletedAccountMap t"
      "ps = map (\<lambda>d. (cd_AccountMap d, cd_DeletedAccountMap d)) qs"
    using assms(2) by (auto simp: accts_def)
  show "accts (ctx_putAccount a acc ctx) = ((om_put a acc m, d) # ps, snd (accts ctx))"
    using t by (simp add: accts_def ctx_putAccount_def ctx_setTop_def)
  show "km.runs s (ctx_putAccount a acc ctx) F E"
    by (rule runs_top[where d' = "t\<lparr>cd_AccountMap := om_put a acc (cd_AccountMap t)\<rparr>", OF assms(1) t(1)])
      (use km.runs_wf[OF assms(1)] t in \<open>simp_all add: ctx_putAccount_def ctx_setTop_def ctx_wf_def ctd_inv_def alayer_def player_def\<close>)
qed

lemma snapshot_accounts:
  assumes "fst (accts ctx) = (m, []) # ps" and "om_get m a = Some acc"
  shows "fst (ctx_HasAccount a (snd (ctx_Snapshot ctx))) = Inr True"
    and "fst (ctx_Account a (snd (ctx_Snapshot ctx))) = Inr (acc_Clone acc)"
proof -
  obtain t qs where t: "ctx_stack ctx = t # qs" "m = cd_AccountMap t" "cd_DeletedAccountMap t = []"
    using assms(1) by (auto simp: accts_def)
  have "om_has m a" using assms(2) by (simp add: om_has_def)
  then show "fst (ctx_HasAccount a (snd (ctx_Snapshot ctx))) = Inr True"
      "fst (ctx_Account a (snd (ctx_Snapshot ctx))) = Inr (acc_Clone acc)"
    using t assms(2)
    by (simp_all add: ctx_Snapshot_def ctx_HasAccount_def ctx_Account_def ctx_read_def ctx_setTop_def ctx_dirty_def NewContextData_def Let_def
        om_has_def om_get_def)
qed

end
