(* ===== verification/Revocation_Laws.thy ===== *)
theory Revocation_Laws
  imports Formulator_Laws Frame_Laws
begin

text \<open>
  The fields of a formulator in the top snapshot are followed through \<open>deref\<close> and \<open>assign\<close>. With them the
  revocation of a hyper formulator is described on every branch.
\<close>

section \<open>The fields of a formulator\<close>

definition obj :: "chain_ctx \<Rightarrow> address \<Rightarrow> formulator_account \<Rightarrow> bool" where
  "obj ctx a fr \<longleftrightarrow> (\<exists>m d ps. fst (accts ctx) = (m, d) # ps \<and> om_get m a = Some (FormulatorAccount fr) \<and> \<not> om_has d a)"

lemma obj_accts: "obj ctx a fr \<Longrightarrow> accts c = accts ctx \<Longrightarrow> obj c a fr"
  by (simp add: obj_def)

lemma obj_stack: "obj ctx a fr \<Longrightarrow> fst (accts ctx) \<noteq> []"
  by (auto simp: obj_def)

lemma obj_top:
  assumes "obj ctx a fr"
  obtains d ps where "ctx_stack ctx = d # ps" and "om_get (cd_AccountMap d) a = Some (FormulatorAccount fr)"
    and "\<not> om_has (cd_DeletedAccountMap d) a"
  using assms by (auto simp: obj_def accts_def)

lemma obj_Account:
  assumes "obj ctx a fr"
  shows "ctx_Account a ctx = (Inr (FormulatorAccount fr), ctx_dirty ctx)"
  by (rule obj_top[OF assms]) (simp add: ctx_Account_def ctx_read_def ctx_dirty_def)

lemma obj_dirty: "obj ctx a fr \<Longrightarrow> obj (ctx_dirty ctx) a fr"
  by (simp add: obj_def accts_def ctx_dirty_def)

lemma obj_deref: "obj ctx a fr \<Longrightarrow> deref 0 a ctx = (Inr fr, ctx)"
  by (erule obj_top) (simp add: deref_def asFormulator_def)

lemma obj_assign:
  assumes "km.runs s ctx F E" and "obj ctx a fr" and "f fr = Inr fr'"
  obtains c where "assign 0 a f ctx = (Inr (), c)" and "km.runs s c F E" and "obj c a fr'"
    and "\<And>b. fst (ctx_HasAccount b c) = fst (ctx_HasAccount b ctx)"
proof -
  obtain d ps where d: "ctx_stack ctx = d # ps" "om_get (cd_AccountMap d) a = Some (FormulatorAccount fr)"
      "\<not> om_has (cd_DeletedAccountMap d) a"
    by (rule obj_top[OF assms(2)])
  have has: "om_has (cd_AccountMap d) a" using d(2) by (simp add: om_has_def)
  let ?d = "d\<lparr>cd_AccountMap := om_put a (FormulatorAccount fr') (cd_AccountMap d)\<rparr>"
  let ?c = "ctx\<lparr>ctx_stack := ?d # ps\<rparr>"
  have "assign 0 a f ctx = (Inr (), ?c)"
    using obj_deref[OF assms(2)] assms(3) has d(1)
    by (simp add: assign_def bindE_def liftE_def writeE_run Let_def)
  moreover have "km.runs s ?c F E"
  proof -
    have wf: "ctx_wf ctx" using km.runs_wf[OF assms(1)] .
    have "ctx_wf ?c" using wf d(1) by (simp add: ctx_wf_def ctd_inv_def)
    moreover have "ctx_view ?c k = ctx_view ctx k" "ctx_mark ?c k = ctx_mark ctx k" for k
      by (cases k; simp add: ctx_view_def d(1) alayer_def player_def ctx_mark_def ctx_Top_def emptied_def)+
    moreover have "ctx_frame s ?c" using assms(1) d(1) by (simp add: km.runs_def kv.steps_def ctx_frame_def)
    ultimately show ?thesis using assms(1) by (simp add: km.runs_def kv.steps_def)
  qed
  moreover have "obj ?c a fr'" using d by (simp add: obj_def accts_def)
  moreover have "fst (ctx_HasAccount b ?c) = fst (ctx_HasAccount b ctx)" for b
    using d(1) has by (auto simp: ctx_HasAccount_def)
  ultimately show thesis by (rule that)
qed

lemma AddBalance_obj:
  assumes "km.runs s ctx F E" and "fst (accts ctx) \<noteq> []" and "is_address a" and "0 \<le> am"
  obtains c where "AddBalance v a am ctx = (Inr (), c)" and "accts c = accts ctx"
    and "km.runs s c (F(bcell v a := am_Bytes (bal v F a + am))) (E(bcell v a := (bal v F a + am = 0)))"
proof -
  obtain c where c: "AddBalance v a am ctx = (Inr (), c)"
      "km.runs s c (F(bcell v a := am_Bytes (bal v F a + am))) (E(bcell v a := (bal v F a + am = 0)))"
    by (rule outcomeE[OF AddBalance_runs(2)[OF assms(1,3,4)]])
  show thesis by (rule that[OF c(1) _ c(2)]) (rule obj_keeps[OF keeps_accts_vault(2)[OF assms(2)] c(1)])
qed

section \<open>Returning the stakes\<close>

lemma assign_error:
  assumes "obj ctx a fr" and "f fr = Inl e"
  shows "assign 0 a f ctx = (Inl e, ctx)"
  by (simp add: assign_def bindE_def obj_deref[OF assms(1)] assms(2) liftE_def)

lemma returnStaking_short:
  assumes "obj ctx h fr" and "fa_StakingAmount fr = Some st" and "st < am" and "0 < am"
  shows "fst (returnStaking p h a am ctx) = Inl (FormulatorErr ErrCriticalStakingAmount)"
proof -
  let ?f = "\<lambda>frAcc. case fa_StakingAmount frAcc of None \<Rightarrow> Inl Panic
    | Some x \<Rightarrow> if am_Less x am then Inl (FormulatorErr ErrCriticalStakingAmount) else Inr (frAcc\<lparr>fa_StakingAmount := Some (am_Sub x am)\<rparr>)"
  have "assign 0 h ?f ctx = (Inl (FormulatorErr ErrCriticalStakingAmount), ctx)"
    by (rule assign_error[OF assms(1)]) (use assms(2,3) in \<open>simp add: amount_simps\<close>)
  then show ?thesis using assms(4) by (simp add: returnStaking_def bindE_def failIf_run am_IsZero_def)
qed

lemma returnStaking_runs:
  assumes "km.runs s ctx F E" and "obj ctx h fr" and "fa_StakingAmount fr = Some st" and "0 < am" and "am \<le> st"
    and "is_address a"
  obtains c E' where "returnStaking p h a am ctx = (Inr (), c)" and "obj c h (fr\<lparr>fa_StakingAmount := Some (st - am)\<rparr>)"
    and "km.runs s c (F(bcell (fo_vault p) a := am_Bytes (bal (fo_vault p) F a + am))) E'"
proof -
  let ?f = "\<lambda>frAcc. case fa_StakingAmount frAcc of None \<Rightarrow> Inl Panic
    | Some x \<Rightarrow> if am_Less x am then Inl (FormulatorErr ErrCriticalStakingAmount) else Inr (frAcc\<lparr>fa_StakingAmount := Some (am_Sub x am)\<rparr>)"
  have "?f fr = Inr (fr\<lparr>fa_StakingAmount := Some (st - am)\<rparr>)" using assms(3,5) by (simp add: amount_simps)
  then obtain c where c: "assign 0 h ?f ctx = (Inr (), c)" "km.runs s c F E" "obj c h (fr\<lparr>fa_StakingAmount := Some (st - am)\<rparr>)"
    by (rule obj_assign[OF assms(1,2)])
  obtain d where d: "AddBalance (fo_vault p) a am c = (Inr (), d)" "accts d = accts c"
      "km.runs s d (F(bcell (fo_vault p) a := am_Bytes (bal (fo_vault p) F a + am))) (E(bcell (fo_vault p) a := (bal (fo_vault p) F a + am = 0)))"
    by (rule AddBalance_obj[OF c(2) obj_stack[OF c(3)] assms(6) less_imp_le[OF assms(4)]])
  have "returnStaking p h a am ctx = (Inr (), d)"
    using c(1) d(1) assms(4) by (simp add: returnStaking_def bindE_def failIf_run am_IsZero_def)
  then show thesis using that d(3) obj_accts[OF c(3) d(2)] by blast
qed

lemma returnStakes:
  assumes "km.runs s ctx F E" and "obj ctx h fr" and "fa_StakingAmount fr = Some st" and "0 \<le> st"
    and "\<forall>x\<in>set L. is_address (fst x) \<and> 0 < snd x"
  shows "if sum_list (map snd L) \<le> st
    then \<exists>c G E'. foreachE (\<lambda>(a, am). returnStaking p h a am) L ctx = (Inr (), c) \<and>
      km.runs s c G E' \<and> obj c h (fr\<lparr>fa_StakingAmount := Some (st - sum_list (map snd L))\<rparr>) \<and>
      (\<forall>b. bal (fo_vault p) G b = bal (fo_vault p) F b + sum_list (map snd (filter (\<lambda>x. fst x = b) L)))
    else fst (foreachE (\<lambda>(a, am). returnStaking p h a am) L ctx) = Inl (FormulatorErr ErrCriticalStakingAmount)"
  using assms
proof (induction L arbitrary: ctx F E fr st)
  case Nil
  then show ?case by (cases fr) (auto simp: returnE_run intro!: exI[of _ F])
next
  case (Cons x L)
  obtain a am where x: "x = (a, am)" by (cases x)
  have ok: "is_address a" "0 < am" "\<forall>x\<in>set L. is_address (fst x) \<and> 0 < snd x" using Cons.prems(5) by (auto simp: x)
  have nonneg: "0 \<le> sum_list (map snd L)" using ok(3) by (intro sum_list_nonneg) auto
  show ?case
  proof (cases "am \<le> st")
    case False
    then have "fst (returnStaking p h a am ctx) = Inl (FormulatorErr ErrCriticalStakingAmount)"
      using returnStaking_short[OF Cons.prems(2,3) _ ok(2)] by simp
    then show ?thesis using False nonneg by (cases "returnStaking p h a am ctx") (simp add: x bindE_def)
  next
    case True
    obtain c E' where c: "returnStaking p h a am ctx = (Inr (), c)" "obj c h (fr\<lparr>fa_StakingAmount := Some (st - am)\<rparr>)"
        "km.runs s c (F(bcell (fo_vault p) a := am_Bytes (bal (fo_vault p) F a + am))) E'"
      by (rule returnStaking_runs[OF Cons.prems(1,2,3) ok(2) True ok(1)])
    have b: "bal (fo_vault p) (F(bcell (fo_vault p) a := am_Bytes (bal (fo_vault p) F a + am))) b =
        bal (fo_vault p) F b + (if b = a then am else 0)" for b
      using ok(2) bal_nonneg(1)[of "fo_vault p" F a] by (simp add: abs_of_nonneg)
    have run: "foreachE (\<lambda>(a, am). returnStaking p h a am) (x # L) ctx = foreachE (\<lambda>(a, am). returnStaking p h a am) L c"
      using c(1) by (simp add: x bindE_def)
    have "st - am - sum_list (map snd L) = st - (am + sum_list (map snd L))" by simp
    then show ?thesis
      using Cons.IH[OF c(3,2), of "st - am"] True ok(3) unfolding run b
      by (auto simp: x algebra_simps split: if_splits)
  qed
qed

section \<open>Changes of the top snapshot\<close>

lemma HasAccount_cong:
  assumes "om_has (cc_AccountMap cc') b = om_has (cc_AccountMap cc) b"
  shows "ctd_HasAccount ld b ps cc' = ctd_HasAccount ld b ps cc"
  using assms by (induction ps) (auto simp: cc_HasAccount_def)

text \<open>\<^verbatim>\<open>Account\<close> leaves the account in the top snapshot.\<close>

lemma Account_obj:
  assumes "ctx_wf ctx" and "fst (ctx_Account a ctx) = Inr (FormulatorAccount fr)"
  obtains c where "ctx_Account a ctx = (Inr (FormulatorAccount fr), c)" and "km.runs ctx c (ctx_view ctx) (ctx_mark ctx)"
    and "obj c a fr" and "\<And>b. b \<noteq> a \<Longrightarrow> fst (ctx_HasAccount b c) = fst (ctx_HasAccount b ctx)"
proof -
  obtain d ps where d: "ctx_stack ctx = d # ps" using assms(1) unfolding ctx_wf_def by (auto elim: stack_okE)
  have t: "cd_isTop d" "ctd_inv d" "\<forall>q\<in>set ps. \<not> cd_isTop q" "cache_ok (ctx_loader ctx) (ctx_cache ctx)"
    using assms(1) by (simp_all add: ctx_wf_def d)
  have nd: "\<not> om_has (cd_DeletedAccountMap d) a"
    using assms(2) by (auto simp: ctx_Account_def ctx_read_def ctx_dirty_def d)
  show thesis
  proof (cases "om_get (cd_AccountMap d) a")
    case (Some acc)
    then have acc: "acc = FormulatorAccount fr" using assms(2) nd by (simp add: ctx_Account_def ctx_read_def ctx_dirty_def d)
    then have o: "obj ctx a fr" using Some nd d by (simp add: obj_def accts_def)
    show thesis
      by (rule that[OF obj_Account[OF o] runs_dirty[OF km.runs_refl[OF assms(1)]] obj_dirty[OF o]])
        (simp add: ctx_HasAccount_def ctx_dirty_def)
  next
    case None
    obtain r ps' cc' where r: "ctd_Account (ctx_loader ctx) a ps (ctx_cache ctx) = (r, ps', cc')" by (metis prod_cases3)
    have ps': "ps' = ps" and cc': "cache_ok (ctx_loader ctx) cc'"
        and hc: "b \<noteq> a \<Longrightarrow> om_has (cc_AccountMap cc') b = om_has (cc_AccountMap (ctx_cache ctx)) b" for b
      using ctd_Account_below[OF t(3), of "ctx_loader ctx" a "ctx_cache ctx"] t(4) by (simp_all add: r)
    obtain acc where acc: "r = Inr acc" "acc_Clone acc = FormulatorAccount fr"
      using assms(2) nd None t(1) r by (cases r) (auto simp: ctx_Account_def ctx_read_def ctx_dirty_def d Let_def)
    let ?d = "d\<lparr>cd_AccountMap := om_put a (FormulatorAccount fr) (cd_AccountMap d)\<rparr>"
    let ?c = "(ctx_dirty ctx)\<lparr>ctx_stack := ?d # ps, ctx_cache := cc'\<rparr>"
    have run: "ctx_Account a ctx = (Inr (FormulatorAccount fr), ?c)"
      using nd None t(1) r acc ps' by (simp add: ctx_Account_def ctx_read_def ctx_dirty_def d Let_def)
    have "km.runs ctx ?c (ctx_view ctx) (ctx_mark ctx)"
      by (rule runs_top[where d' = ?d, OF km.runs_refl[OF assms(1)] d])
        (use t(2) cc' in \<open>simp_all add: ctd_inv_def alayer_def player_def ctx_dirty_def\<close>)
    moreover have "obj ?c a fr" using nd by (simp add: obj_def accts_def)
    moreover have "fst (ctx_HasAccount b ?c) = fst (ctx_HasAccount b ctx)" if "b \<noteq> a" for b
      using that HasAccount_cong[OF hc[OF that], of "ctx_loader ctx" ps] by (simp add: ctx_HasAccount_def ctx_dirty_def d)
    ultimately show thesis using that[OF run] by blast
  qed
qed

lemma delete_emit:
  assumes "km.runs s ctx F E" and "obj ctx h fr" and "fa_Address fr = h"
  obtains c where "thenE (bindE (deref 0 h) (\<lambda>frAcc. ctx_DeleteAccount (FormulatorAccount frAcc))) (\<lambda>ctx. ctx_EmitEvent (ev ctx) ctx) ctx = (Inr (), c)"
    and "km.runs s c F E" and "fst (ctx_HasAccount h c) = Inr False"
proof -
  obtain d ps where d: "ctx_stack ctx = d # ps" by (rule obj_top[OF assms(2)])
  let ?d = "d\<lparr>cd_DeletedAccountMap := om_put h (FormulatorAccount fr) (cd_DeletedAccountMap d),
      cd_AccountMap := om_delete h (cd_AccountMap d), cd_AccountNameMap := om_delete (fa_Name fr) (cd_AccountNameMap d)\<rparr>"
  let ?c1 = "(ctx_dirty ctx)\<lparr>ctx_stack := ?d # ps\<rparr>"
  have del: "ctx_DeleteAccount (FormulatorAccount fr) ctx = (Inr (), ?c1)"
    using obj_Account[OF assms(2)] assms(3) d by (simp add: ctx_DeleteAccount_def ctx_setTop_def ctx_dirty_def)
  define c where "c = snd (ctx_EmitEvent (ev ?c1) ?c1)"
  have "thenE (bindE (deref 0 h) (\<lambda>frAcc. ctx_DeleteAccount (FormulatorAccount frAcc))) (\<lambda>ctx. ctx_EmitEvent (ev ctx) ctx) ctx = (Inr (), c)"
    using obj_deref[OF assms(2)] del by (simp add: bindE_def c_def ctx_EmitEvent_def)
  moreover have "km.runs s c F E"
    unfolding c_def ctx_EmitEvent_def snd_conv
    by (rule runs_top[where d' = "?d\<lparr>cd_Events := cd_Events d @ [(ev ?c1)\<lparr>ev_N := cd_EventN d\<rparr>], cd_EventN := cd_EventN d + 1\<rparr>", OF assms(1) d])
      (use km.runs_wf[OF assms(1)] d in \<open>simp_all add: ctx_setTop_def ctx_dirty_def ctx_wf_def ctd_inv_def alayer_def player_def\<close>)
  moreover have "fst (ctx_HasAccount h c) = Inr False"
    by (simp add: c_def ctx_EmitEvent_def ctx_HasAccount_def ctx_setTop_def ctx_dirty_def)
  ultimately show thesis by (rule that)
qed

section \<open>The order of a Go map\<close>

text \<open>What the language promises of a loop over a map: every key once, in any order.\<close>

definition go_range :: "form_env \<Rightarrow> bool" where
  "go_range E \<longleftrightarrow> (\<forall>n ks. distinct ks \<longrightarrow> distinct (fe_range E n ks) \<and> set (fe_range E n ks) = set ks)"

lemma om_inv_fold_put: "om_inv m \<Longrightarrow> om_inv (fold (\<lambda>a. om_put a (f a)) as m)"
  by (induction as arbitrary: m) (auto intro: om.inv_insert)

lemma range_entries:
  assumes "go_range E"
  obtains ks where "range_map E n (fold (\<lambda>a. om_put a (f a)) as []) = map (\<lambda>a. (a, f a)) ks"
    and "distinct ks" and "set ks = set as"
proof -
  let ?m = "fold (\<lambda>a. om_put a (f a)) as []"
  have inv: "om_inv ?m" by (rule om_inv_fold_put[OF om.inv_empty])
  have d: "distinct (map fst (om_each ?m))" using om.ascend_sorted[OF inv] strict_sorted_iff by blast
  have s: "set (map fst (om_each ?m)) = set as"
    using om.ascend_get[OF inv] by (auto simp: om_get_fold_put dom_map_of_conv_image_fst[symmetric] split: if_splits)
  note r = assms[unfolded go_range_def, rule_format, OF d, of n]
  show thesis
    by (rule that[of "fe_range E n (map fst (om_each ?m))"]) (use r s in \<open>auto simp: range_map_def om_get_fold_put\<close>)
qed

lemma entries_sum:
  assumes "distinct ks"
  shows "sum_list (map snd (map (\<lambda>a. (a, f a)) ks)) = (\<Sum>a\<in>set ks. f a)"
    and "sum_list (map snd (filter (\<lambda>x. fst x = b) (map (\<lambda>a. (a, f a)) ks))) = (if b \<in> set ks then f b else (0::int))"
  using assms by (induction ks) (auto simp: comp_def)

section \<open>The heir\<close>

lemma payHeritor_runs:
  assumes "km.runs s ctx F E" and "fst (accts ctx) \<noteq> []" and "is_address h" and "is_address H" and "H \<noteq> h" and "0 \<le> am"
  obtains c G E' where "payHeritor p h H am ctx = (Inr (), c)" and "accts c = accts ctx" and "km.runs s c G E'"
    and "\<forall>b. bal (fo_vault p) G b = (if b = h then 0 else bal (fo_vault p) F b + (if b = H then am + bal (fo_vault p) F h else 0))"
    and "\<forall>k. (\<forall>a. k \<noteq> bcell (fo_vault p) a) \<longrightarrow> G k = F k"
proof -
  let ?v = "fo_vault p"
  obtain c1 where c1: "AddBalance ?v H am ctx = (Inr (), c1)" "accts c1 = accts ctx"
      "km.runs s c1 (F(bcell ?v H := am_Bytes (bal ?v F H + am))) (E(bcell ?v H := (bal ?v F H + am = 0)))"
    by (rule AddBalance_obj[OF assms(1,2,4,6)])
  define F1 where "F1 = F(bcell ?v H := am_Bytes (bal ?v F H + am))"
  have st: "fst (accts c1) \<noteq> []" using c1(2) assms(2) by simp
  have b1: "bal ?v F1 h = bal ?v F h" "bal ?v F1 H = bal ?v F H + am"
    using assms(5,6) by (simp_all add: F1_def abs_of_nonneg)
  obtain c2 where c2: "readE (Balance ?v h) c1 = (Inr (bal ?v F h) :: err + amount, c2)"
      "km.runs s c2 F1 (E(bcell ?v H := (bal ?v F H + am = 0)))"
    by (rule outcomeE[OF Balance_runs[OF c1(3) assms(3), of ?v, folded F1_def, unfolded b1(1)]])
  have a2: "accts c2 = accts c1" by (rule obj_keeps[OF keeps_accts_vault(1)[OF st] c2(1)])
  have st2: "fst (accts c2) \<noteq> []" using a2 st by simp
  obtain c3 where c3: "AddBalance ?v H (bal ?v F h) c2 = (Inr (), c3)" "accts c3 = accts c2"
      "km.runs s c3 (F1(bcell ?v H := am_Bytes (bal ?v F1 H + bal ?v F h)))
        (E(bcell ?v H := (bal ?v F H + am = 0), bcell ?v H := (bal ?v F1 H + bal ?v F h = 0)))"
    by (rule AddBalance_obj[OF c2(2) st2 assms(4) bal_nonneg(1)])
  define F3 where "F3 = F1(bcell ?v H := am_Bytes (bal ?v F1 H + bal ?v F h))"
  have "key_ok (bcell ?v h)" using assms(3) by simp
  then obtain c4 E' where c4: "RemoveBalance ?v h c3 = (Inr (), c4)" "km.runs s c4 (F3(bcell ?v h := [])) E'"
    unfolding RemoveBalance_def set_as_ctx_set using outcomeE[OF write_end[OF c3(3)[folded F3_def] _ refl refl]] by blast
  have st3: "fst (accts c3) \<noteq> []" using c3(2) st2 by simp
  have a4: "accts c4 = accts c3" by (rule obj_keeps[OF keeps_accts_vault(3)[OF st3] c4(1)])
  show thesis
  proof (rule that[OF _ _ c4(2)])
    show "payHeritor p h H am ctx = (Inr (), c4)"
      using c1(1) c2(1) c3(1) c4(1) by (simp add: payHeritor_def bindE_def)
    show "accts c4 = accts ctx" using a4 c3(2) a2 c1(2) by simp
    have "stored_amount (am_Bytes (bal ?v F1 H + bal ?v F h)) = bal ?v F H + am + bal ?v F h"
      using assms(6) by (simp add: b1(2) abs_of_nonneg)
    then show "\<forall>b. bal ?v (F3(bcell ?v h := [])) b = (if b = h then 0 else bal ?v F b + (if b = H then am + bal ?v F h else 0))"
      by (simp add: F3_def F1_def)
    show "\<forall>k. (\<forall>a. k \<noteq> bcell ?v a) \<longrightarrow> (F3(bcell ?v h := [])) k = F k" by (simp add: F3_def F1_def)
  qed
qed

text \<open>The formulator has an heir to pay when the account exists; a deleted one counts as absent.\<close>

definition heir :: "address \<Rightarrow> chain_ctx \<Rightarrow> bool" where
  "heir H ctx \<longleftrightarrow> fst (ctx_HasAccount H ctx) = Inr True"

definition heir_error :: "address \<Rightarrow> chain_ctx \<Rightarrow> err option" where
  "heir_error H ctx = (case fst (ctx_HasAccount H ctx) of
     Inl e \<Rightarrow> if e = TypesErr ErrDeletedAccount then None else Some e | Inr _ \<Rightarrow> None)"

lemma heir_runs:
  assumes "km.runs s ctx F E" and "obj ctx h fr" and "is_address h" and "is_address H" and "H \<noteq> h" and "0 \<le> am"
    and "heir_error H ctx = None"
  obtains c G E' where "ifAccount H (payHeritor p h H am) (returnE ()) ctx = (Inr (), c)" and "obj c h fr" and "km.runs s c G E'"
    and "\<forall>b. bal (fo_vault p) G b = (if heir H ctx \<and> b = h then 0 else bal (fo_vault p) F b) +
      (if heir H ctx \<and> b = H then am + bal (fo_vault p) F h else 0)"
    and "\<forall>k. (\<forall>a. k \<noteq> bcell (fo_vault p) a) \<longrightarrow> G k = F k"
proof (cases "heir H ctx")
  case True
  then have has: "ctx_HasAccount H ctx = (Inr True, ctx)" by (simp add: heir_def ctx_HasAccount_def)
  obtain c G E' where c: "payHeritor p h H am ctx = (Inr (), c)" "accts c = accts ctx" "km.runs s c G E'"
      "\<forall>b. bal (fo_vault p) G b = (if b = h then 0 else bal (fo_vault p) F b + (if b = H then am + bal (fo_vault p) F h else 0))"
      "\<forall>k. (\<forall>a. k \<noteq> bcell (fo_vault p) a) \<longrightarrow> G k = F k"
    by (rule payHeritor_runs[OF assms(1) obj_stack[OF assms(2)] assms(3-6)])
  show thesis
    by (rule that[OF _ obj_accts[OF assms(2) c(2)] c(3) _ c(5)]) (use True c(1,4) has assms(5) in \<open>simp_all add: ifAccount_def\<close>)
next
  case False
  have "ctx_HasAccount H ctx = (Inr False, ctx) \<or> ctx_HasAccount H ctx = (Inl (TypesErr ErrDeletedAccount), ctx)"
    using False assms(7)
    by (cases "ctd_HasAccount (ctx_loader ctx) H (ctx_stack ctx) (ctx_cache ctx)")
      (auto simp: heir_def heir_error_def ctx_HasAccount_def split: if_splits)
  then have "ifAccount H (payHeritor p h H am) (returnE ()) ctx = (Inr (), ctx)" by (auto simp: ifAccount_def returnE_run)
  then show thesis by (rule that[OF _ assms(2,1)]) (use False in simp_all)
qed

section \<open>Revocation\<close>

lemma book_cong:
  assumes "\<And>n. G (AData h (fo_pid p) n) = F (AData h (fo_pid p) n)"
  shows "book p h G as = book p h F as" and "stake p h G a = stake p h F a"
  by (simp_all add: book_def index_holds_def staking_ix_def stake_def stake_cell_def assms)

lemma book_elsewhere:
  assumes "book p h F as" and "fo_pid p \<noteq> vt_pid (fo_vault p)" and "\<forall>k. (\<forall>a. k \<noteq> bcell (fo_vault p) a) \<longrightarrow> G k = F k"
  shows "book p h G as" and "stake p h G a = stake p h F a"
proof -
  have c: "G (AData h (fo_pid p) n) = F (AData h (fo_pid p) n)" for n using assms(2,3) by simp
  show "stake p h G a = stake p h F a" "book p h G as" using book_cong[of G h p F, OF c] assms(1) by simp_all
qed

lemma keeps_index_fold:
  assumes "\<And>i a x. keeps (\<lambda>c. accts c = A) (f i a x)"
  shows "keeps (\<lambda>c. accts c = A) (index_fold ix f x)"
proof -
  have "keeps (\<lambda>c. accts c = A) (index_loop ix f n i x)" for n i x
    by (induction n arbitrary: i x) (auto intro!: keeps_bindE keeps_returnE assms keeps_accts_data(1))
  then show ?thesis unfolding index_fold_def by (intro keeps_bindE keeps_if keeps_returnE keeps_liftE keeps_accts_data(1))
qed

lemma keeps_StakingAmountMap: "keeps (\<lambda>c. accts c = A) (GetStakingAmountMap p h)"
proof -
  have g: "snd (GetStakingAmount p h a c) = snd (ctx_get (stake_cell p h a) c)" for a c
    by (simp add: GetStakingAmount_def stake_cell_def case_prod_unfold)
  have "keeps (\<lambda>c. accts c = A) (readE (GetStakingAmount p h a))" for a by (rule keeps_readE) (simp only: g accts_get)
  then show ?thesis unfolding GetStakingAmountMap_def by (intro keeps_index_fold keeps_bindE keeps_returnE)
qed

text \<open>The two last parts of the method.\<close>

abbreviation return_stakes :: "form_env \<Rightarrow> formulator \<Rightarrow> address \<Rightarrow> (chain_ctx, unit) go_meth" where
  "return_stakes Env p h \<equiv> bindE (GetStakingAmountMap p h) (\<lambda>StakingAmountMap.
      thenE (foreachE (\<lambda>(addr, am). returnStaking p h addr am) (range_map Env 0 StakingAmountMap))
        (bindE (deref 0 h) (\<lambda>frAcc. bindE (liftE (orPanic (fa_StakingAmount frAcc))) (\<lambda>am.
           failIf (\<not> am_IsZero am) (FormulatorErr ErrCriticalStakingAmount)))))"

abbreviation delete_revoked :: "address \<Rightarrow> (chain_ctx, unit) go_meth" where
  "delete_revoked h \<equiv> thenE (bindE (deref 0 h) (\<lambda>frAcc. ctx_DeleteAccount (FormulatorAccount frAcc)))
        (\<lambda>ctx. ctx_EmitEvent \<lparr>ev_Height = ctx_TargetHeight ctx, ev_Index = 65535, ev_N = 0, ev_Body = RevokedEvent h\<rparr> ctx)"

lemma return_all:
  assumes "km.runs s ctx F E" and "obj ctx h fr" and "fa_StakingAmount fr = Some st" and "0 \<le> st"
    and "go_range Env" and "book p h F as" and "is_address h"
  shows "if (\<Sum>a\<in>set as. stake p h F a) = st
    then \<exists>c G E'. return_stakes Env p h ctx = (Inr (), c) \<and> km.runs s c G E' \<and> obj c h (fr\<lparr>fa_StakingAmount := Some 0\<rparr>) \<and>
      (\<forall>b. bal (fo_vault p) G b = bal (fo_vault p) F b + (if b \<in> set as then stake p h F b else 0))
    else fst (return_stakes Env p h ctx) = Inl (FormulatorErr ErrCriticalStakingAmount)"
proof -
  obtain c where c: "GetStakingAmountMap p h ctx = (Inr (fold (\<lambda>a. om_put a (stake p h F a)) as []), c)" "km.runs s c F E"
    by (rule outcomeE[OF GetStakingAmountMap_runs[OF assms(1,6,7)]])
  have o: "obj c h fr" by (rule obj_accts[OF assms(2) obj_keeps[OF keeps_StakingAmountMap c(1)]])
  obtain ks where ks: "range_map Env 0 (fold (\<lambda>a. om_put a (stake p h F a)) as []) = map (\<lambda>a. (a, stake p h F a)) ks"
      "distinct ks" "set ks = set as"
    by (rule range_entries[OF assms(5)])
  have pos: "\<forall>x\<in>set (map (\<lambda>a. (a, stake p h F a)) ks). is_address (fst x) \<and> 0 < snd x"
    using assms(6) ks(3) by (auto simp: book_def index_holds_def)
  note r = returnStakes[OF c(2) o assms(3,4) pos, of p, unfolded entries_sum[OF ks(2)] ks(3)]
  let ?loop = "foreachE (\<lambda>(a, am). returnStaking p h a am) (map (\<lambda>a. (a, stake p h F a)) ks)"
  have m: "return_stakes Env p h ctx = thenE ?loop (bindE (deref 0 h) (\<lambda>frAcc. bindE (liftE (orPanic (fa_StakingAmount frAcc))) (\<lambda>am.
           failIf (\<not> am_IsZero am) (FormulatorErr ErrCriticalStakingAmount)))) c"
    by (simp add: bindE_def c(1) ks(1))
  show ?thesis
  proof (cases "(\<Sum>a\<in>set as. stake p h F a) \<le> st")
    case True
    then obtain d G E' where d: "?loop c = (Inr (), d)" "km.runs s d G E'"
        "obj d h (fr\<lparr>fa_StakingAmount := Some (st - (\<Sum>a\<in>set as. stake p h F a))\<rparr>)"
        "\<forall>b. bal (fo_vault p) G b = bal (fo_vault p) F b + (if b \<in> set as then stake p h F b else 0)"
      using r by auto
    have "return_stakes Env p h ctx = failIf (st \<noteq> (\<Sum>a\<in>set as. stake p h F a)) (FormulatorErr ErrCriticalStakingAmount) d"
      using d(1) obj_deref[OF d(3)] unfolding m by (simp add: bindE_def liftE_def am_IsZero_def)
    then show ?thesis using d(2-4) by (auto simp: failIf_run)
  next
    case False
    then have "fst (?loop c) = Inl (FormulatorErr ErrCriticalStakingAmount)" using r by simp
    then show ?thesis unfolding m using False by (cases "?loop c") (auto simp: bindE_def)
  qed
qed

lemma heir_cong: "fst (ctx_HasAccount H c) = fst (ctx_HasAccount H ctx) \<Longrightarrow> heir H c = heir H ctx \<and> heir_error H c = heir_error H ctx"
  by (simp add: heir_def heir_error_def)

lemma revoke_start:
  assumes "ctx_wf ctx" and "H \<noteq> h" and "fst (ctx_Account h ctx) = Inr (FormulatorAccount fr)"
    and "fa_FormulatorType fr = HyperFormulatorType"
  obtains c where "revokeFormulator E p h H ctx = thenE (ifAccount H (payHeritor p h H (fa_Amount fr)) (returnE ()))
      (thenE (return_stakes E p h) (delete_revoked h)) c"
    and "km.runs ctx c (ctx_view ctx) (ctx_mark ctx)" and "obj c h fr" and "fst (ctx_HasAccount H c) = fst (ctx_HasAccount H ctx)"
proof -
  obtain c where c: "ctx_Account h ctx = (Inr (FormulatorAccount fr), c)" "km.runs ctx c (ctx_view ctx) (ctx_mark ctx)" "obj c h fr"
      "\<And>b. b \<noteq> h \<Longrightarrow> fst (ctx_HasAccount b c) = fst (ctx_HasAccount b ctx)"
    by (rule Account_obj[OF assms(1,3)]) blast
  have "formulatorAt (TypesErr ErrInvalidAccountType) h ctx = (Inr fr, c)"
    by (simp add: formulatorAt_def bindE_def c(1) asFormulator_def liftE_def)
  then have "revokeFormulator E p h H ctx = thenE (ifAccount H (payHeritor p h H (fa_Amount fr)) (returnE ()))
      (thenE (return_stakes E p h) (delete_revoked h)) c"
    using assms(4) by (simp add: revokeFormulator_def bindE_def[of "formulatorAt (TypesErr ErrInvalidAccountType) h"])
  then show thesis using that c(2,3) c(4)[OF assms(2)] by blast
qed

lemma revoke_run:
  assumes "ctx_wf ctx" and "fo_pid p \<noteq> vt_pid (fo_vault p)"
    and "is_address h" and "is_address H" and "H \<noteq> h"
    and "fst (ctx_Account h ctx) = Inr (FormulatorAccount fr)"
    and "fa_FormulatorType fr = HyperFormulatorType" and "0 \<le> fa_Amount fr" and "heir_error H ctx = None"
  obtains c G E' where "revokeFormulator E p h H ctx = thenE (return_stakes E p h) (delete_revoked h) c"
    and "km.runs ctx c G E'" and "obj c h fr"
    and "\<forall>b. bal (fo_vault p) G b = (if heir H ctx \<and> b = h then 0 else bal (fo_vault p) (ctx_view ctx) b) +
      (if heir H ctx \<and> b = H then fa_Amount fr + bal (fo_vault p) (ctx_view ctx) h else 0)"
    and "\<forall>k. (\<forall>a. k \<noteq> bcell (fo_vault p) a) \<longrightarrow> G k = ctx_view ctx k"
proof -
  let ?v = "fo_vault p" and ?F = "ctx_view ctx" and ?pay = "ifAccount H (payHeritor p h H (fa_Amount fr)) (returnE ())"
  obtain c1 where c1: "revokeFormulator E p h H ctx = thenE ?pay (thenE (return_stakes E p h) (delete_revoked h)) c1"
      "km.runs ctx c1 ?F (ctx_mark ctx)" "obj c1 h fr" "fst (ctx_HasAccount H c1) = fst (ctx_HasAccount H ctx)"
    by (rule revoke_start[OF assms(1,5-7)])
  note hc = heir_cong[OF c1(4)]
  have none: "heir_error H c1 = None" using hc assms(9) by simp
  obtain c2 G E2 where c2: "?pay c1 = (Inr (), c2)" "obj c2 h fr" "km.runs ctx c2 G E2"
      "\<forall>b. bal ?v G b = (if heir H c1 \<and> b = h then 0 else bal ?v ?F b) + (if heir H c1 \<and> b = H then fa_Amount fr + bal ?v ?F h else 0)"
      "\<forall>k. (\<forall>a. k \<noteq> bcell ?v a) \<longrightarrow> G k = ?F k"
    by (rule heir_runs[OF c1(2,3) assms(3-5,8) none])
  have "revokeFormulator E p h H ctx = thenE (return_stakes E p h) (delete_revoked h) c2"
    unfolding c1(1) by (simp only: bindE_def[of ?pay] c2(1) prod.case sum.case)
  then show thesis using that c2(2-5) hc by simp
qed

lemma revoke_no_heir:
  assumes "ctx_wf ctx" and "H \<noteq> h" and "fst (ctx_Account h ctx) = Inr (FormulatorAccount fr)"
    and "fa_FormulatorType fr = HyperFormulatorType" and "heir_error H ctx = Some e"
  shows "fst (revokeFormulator E p h H ctx) = Inl e"
proof -
  let ?pay = "ifAccount H (payHeritor p h H (fa_Amount fr)) (returnE ())"
  obtain c where c: "revokeFormulator E p h H ctx = thenE ?pay (thenE (return_stakes E p h) (delete_revoked h)) c"
      "fst (ctx_HasAccount H c) = fst (ctx_HasAccount H ctx)"
    by (rule revoke_start[OF assms(1-4)])
  have "?pay c = (Inl e, c)"
    using assms(5) c(2) by (auto simp: heir_error_def ifAccount_def ctx_HasAccount_def split: sum.splits if_splits)
  then show ?thesis unfolding c(1) by (simp only: bindE_def[of ?pay] prod.case sum.case fst_conv)
qed

lemma revoke_fails:
  assumes "ctx_wf ctx" and "fo_pid p \<noteq> vt_pid (fo_vault p)"
    and "is_address h" and "is_address H" and "H \<noteq> h"
    and "fst (ctx_Account h ctx) = Inr (FormulatorAccount fr)"
    and "fa_FormulatorType fr = HyperFormulatorType" and "0 \<le> fa_Amount fr" and "heir_error H ctx = None"
    and "go_range E" and "fa_StakingAmount fr = Some st" and "0 \<le> st" and "book p h (ctx_view ctx) as"
    and "(\<Sum>a\<in>set as. stake p h (ctx_view ctx) a) \<noteq> st"
  shows "fst (revokeFormulator E p h H ctx) = Inl (FormulatorErr ErrCriticalStakingAmount)"
proof -
  obtain c G E' where c: "revokeFormulator E p h H ctx = thenE (return_stakes E p h) (delete_revoked h) c"
      "km.runs ctx c G E'" "obj c h fr" "\<forall>k. (\<forall>a. k \<noteq> bcell (fo_vault p) a) \<longrightarrow> G k = ctx_view ctx k"
    by (rule revoke_run[OF assms(1-9)])
  note bk = book_elsewhere[OF assms(13,2) c(4)]
  obtain d where d: "return_stakes E p h c = (Inl (FormulatorErr ErrCriticalStakingAmount), d)"
    using return_all[OF c(2,3) assms(11,12,10) bk(1) assms(3), unfolded bk(2)] assms(14) by (metis prod.collapse)
  show ?thesis by (simp only: c(1) bindE_def[of "return_stakes E p h"] d prod.case sum.case fst_conv)
qed

text \<open>
  C13: revocation of a hyper formulator in favour of another account, on every branch. If asking for the heir gives an
  error other than \<^verbatim>\<open>ErrDeletedAccount\<close>, revocation fails with it. Otherwise it succeeds exactly when the
  stakes add up to the total the account records, and fails with \<^verbatim>\<open>ErrCriticalStakingAmount\<close> if not. On success the
  account is deleted and every staker receives the stake. If the account of the heir exists, it receives the amount and
  the balance of the formulator, whose own balance is emptied; a heir that is absent or deleted receives nothing, and
  the balance of the formulator stays. No other balance changes. The order in which Go visits the
  map of stakes does not matter.
\<close>

theorem revocation_exact:
  assumes "ctx_wf ctx" and "go_range E" and "fo_pid p \<noteq> vt_pid (fo_vault p)"
    and "is_address h" and "is_address H" and "H \<noteq> h"
    and "fst (ctx_Account h ctx) = Inr (FormulatorAccount fr)" and "fa_Address fr = h"
    and "fa_FormulatorType fr = HyperFormulatorType" and "fa_StakingAmount fr = Some st" and "0 \<le> st" and "0 \<le> fa_Amount fr"
    and "book p h (ctx_view ctx) as"
  shows "let res = revokeFormulator E p h H ctx; v = fo_vault p; paid = (fst (ctx_HasAccount H ctx) = Inr True)
    in (\<forall>e. fst (ctx_HasAccount H ctx) = Inl e \<and> e \<noteq> TypesErr ErrDeletedAccount \<longrightarrow> fst res = Inl e) \<and>
      ((\<forall>e. fst (ctx_HasAccount H ctx) = Inl e \<longrightarrow> e = TypesErr ErrDeletedAccount) \<longrightarrow>
       (if (\<Sum>a\<in>set as. fst (GetStakingAmount p h a ctx)) = st
       then fst res = Inr () \<and> fst (ctx_HasAccount h (snd res)) = Inr False \<and>
         (\<forall>b. is_address b \<longrightarrow>
            fst (Balance v b (snd res)) = (if paid \<and> b = h then 0 else fst (Balance v b ctx)) +
              (if b \<in> set as then fst (GetStakingAmount p h b ctx) else 0) +
              (if paid \<and> b = H then fa_Amount fr + fst (Balance v h ctx) else 0))
       else fst res = Inl (FormulatorErr ErrCriticalStakingAmount)))"
proof -
  let ?v = "fo_vault p" and ?F = "ctx_view ctx"
  have st: "fst (GetStakingAmount p h a ctx) = stake p h ?F a" for a by (rule fst_GetStakingAmount[OF assms(1,4)])
  show ?thesis
  proof (cases "heir_error H ctx")
    case (Some e)
    then have "fst (ctx_HasAccount H ctx) = Inl e" "e \<noteq> TypesErr ErrDeletedAccount"
      by (auto simp: heir_error_def split: sum.splits if_splits)
    then show ?thesis using revoke_no_heir[OF assms(1,6,7,9) Some] by simp
  next
    case None
    then have known: "fst (ctx_HasAccount H ctx) = Inl e \<longrightarrow> e = TypesErr ErrDeletedAccount" for e
      by (auto simp: heir_error_def split: if_splits)
    note pre = assms(1,3-7,9,12) None
    show ?thesis
    proof (cases "(\<Sum>a\<in>set as. stake p h ?F a) = st")
      case True
      obtain c2 G E2 where c2: "revokeFormulator E p h H ctx = thenE (return_stakes E p h) (delete_revoked h) c2"
          "km.runs ctx c2 G E2" "obj c2 h fr"
          "\<forall>b. bal ?v G b = (if heir H ctx \<and> b = h then 0 else bal ?v ?F b) +
            (if heir H ctx \<and> b = H then fa_Amount fr + bal ?v ?F h else 0)"
          "\<forall>k. (\<forall>a. k \<noteq> bcell ?v a) \<longrightarrow> G k = ?F k"
        by (rule revoke_run[OF pre])
      note bk = book_elsewhere[OF assms(13,3) c2(5)]
      obtain c3 K E3 where c3: "return_stakes E p h c2 = (Inr (), c3)" "km.runs ctx c3 K E3" "obj c3 h (fr\<lparr>fa_StakingAmount := Some 0\<rparr>)"
          "\<forall>b. bal ?v K b = bal ?v G b + (if b \<in> set as then stake p h ?F b else 0)"
        using return_all[OF c2(2,3) assms(10,11,2) bk(1) assms(4), unfolded bk(2)] True by auto
      have ad: "fa_Address (fr\<lparr>fa_StakingAmount := Some 0\<rparr>) = h" using assms(8) by simp
      obtain c4 where c4: "delete_revoked h c3 = (Inr (), c4)" "km.runs ctx c4 K E3" "fst (ctx_HasAccount h c4) = Inr False"
        by (rule delete_emit[OF c3(2,3) ad])
      have run: "revokeFormulator E p h H ctx = (Inr (), c4)"
        by (simp only: c2(1) bindE_def[of "return_stakes E p h"] c3(1) c4(1) prod.case sum.case)
      have bals: "fst (Balance ?v b c4) = (if heir H ctx \<and> b = h then 0 else bal ?v ?F b) + (if b \<in> set as then stake p h ?F b else 0) +
          (if heir H ctx \<and> b = H then fa_Amount fr + bal ?v ?F h else 0)" if "is_address b" for b
        using c3(4) c2(4) fst_Balance[OF km.runs_wf[OF c4(2)] that, of ?v] runs_view[OF c4(2)] that by (simp add: bal_def)
      show ?thesis
        unfolding Let_def run fst_conv snd_conv st heir_def[symmetric]
        using True known c4(3) bals fst_Balance[OF assms(1)] assms(4) by simp
    next
      case False
      then show ?thesis using revoke_fails[OF pre assms(2,10,11,13)] known by (auto simp: Let_def st)
    qed
  qed
qed

section \<open>Automatic staking\<close>

lemma keeps_AddStakingAmount:
  assumes "fst A \<noteq> []"
  shows "keeps (\<lambda>c. accts c = A) (AddStakingAmount p h a am)"
proof -
  have g: "snd (GetStakingAmount p h a c) = snd (ctx_get (stake_cell p h a) c)" for a c
    by (simp add: GetStakingAmount_def stake_cell_def case_prod_unfold)
  have 1: "keeps (\<lambda>c. accts c = A) (readE (GetStakingAmount p h a))" for a by (rule keeps_readE) (simp only: g accts_get)
  show ?thesis
    unfolding AddStakingAmount_def index_add_def read_uint32_def set_stake_cell
    by (intro keeps_bindE keeps_if keeps_returnE keeps_liftE 1 keeps_accts_data(1) keeps_accts_data(2)[OF assms])
qed

lemma auto_stake_run:
  assumes "km.runs s ctx F E" and "fst (accts ctx) \<noteq> []" and "is_address h" and "fst (GetUserAutoStaking p h a ctx)"
    and "book p h F as" and "is_address a" and "Suc (length as) < 2 ^ 32" and "commissionOf policy (shareOf pw Ratio) < shareOf pw Ratio"
  obtains c G E' as' where "stakerStep p h policy Ratio (a, pw) (cs, ev) ctx =
      (Inr (cs + commissionOf policy (shareOf pw Ratio),
        AddStaked h a (shareOf pw Ratio - commissionOf policy (shareOf pw Ratio)) ev), c)"
    and "accts c = accts ctx" and "km.runs s c G E'" and "book p h G as'"
    and "\<forall>b. is_address b \<longrightarrow> stake p h G b = stake p h F b +
      (if b = a then shareOf pw Ratio - commissionOf policy (shareOf pw Ratio) else 0)"
proof -
  let ?am = "shareOf pw Ratio - commissionOf policy (shareOf pw Ratio)" and ?k = "AData h (fo_pid p) (toAutoStakingKey a)"
  have pos: "0 < ?am" using assms(8) by simp
  have g: "GetUserAutoStaking p h a ctx = (True, snd (ctx_get ?k ctx))"
    using assms(4) by (simp add: GetUserAutoStaking_def case_prod_unfold)
  have k: "key_ok ?k" using assms(3) by simp
  obtain c1 where c1: "readE (ctx_get ?k) ctx = (Inr (F ?k) :: err + bytes, c1)" "km.runs s c1 F E"
    by (rule outcomeE[OF readE_runs[OF assms(1) k]])
  have c1': "snd (ctx_get ?k ctx) = c1" using c1(1) by (simp add: readE_def case_prod_unfold Let_def)
  obtain G E' as' where G: "outcome s G E' (Inr ()) (AddStakingAmount p h a ?am c1)" "book p h G as'"
      "\<forall>b. is_address b \<longrightarrow> stake p h G b = stake p h F b + (if b = a then ?am else 0)"
    by (rule AddStakingAmount_runs[OF c1(2) assms(5,3,6) pos assms(7)])
  obtain c2 where c2: "AddStakingAmount p h a ?am c1 = (Inr (), c2)" "km.runs s c2 G E'" by (rule outcomeE[OF G(1)])
  have a1: "accts c1 = accts ctx" using accts_get[of ?k ctx] c1' by simp
  then have st: "fst (accts c1) \<noteq> []" using assms(2) by simp
  show thesis
  proof (rule that[OF _ _ c2(2) G(2,3)])
    show "accts c2 = accts ctx" using obj_keeps[OF keeps_AddStakingAmount[OF st] c2(1)] a1 by simp
    show "stakerStep p h policy Ratio (a, pw) (cs, ev) ctx =
      (Inr (cs + commissionOf policy (shareOf pw Ratio), AddStaked h a ?am ev), c2)"
      using pos c2(1) by (simp add: stakerStep_def Let_def am_IsZero_def amount_simps bindE_def readE_def g[unfolded c1'] returnE_run)
  qed
qed

lemma stake_grows:
  assumes "book p h F as" and "book p h G as'" and "a \<in> set as" and "0 \<le> am"
    and "\<forall>b. is_address b \<longrightarrow> stake p h G b = stake p h F b + (if b = a then am else 0)"
  shows "set as' = set as"
proof -
  have "b \<in> set as' \<longleftrightarrow> b \<in> set as" if "is_address b" for b
  proof -
    have "stake p h G b = stake p h F b + (if b = a then am else 0)" using assms(5) that by blast
    moreover have "0 < stake p h G b \<longleftrightarrow> b \<in> set as'" "0 < stake p h F b \<longleftrightarrow> b \<in> set as"
      using assms(1,2) that by (simp_all add: book_def)
    ultimately show ?thesis using assms(3,4) by (cases "b = a") auto
  qed
  then show ?thesis using assms(1,2) by (auto simp: book_def index_holds_def)
qed

text \<open>
  C29: automatic staking makes a formulator irrevocable. From a state in which the stakes add up to the total of
  the account, the payment of a period to one staker with automatic staking raises the stake and leaves the
  total, and from then on revocation of the hyper formulator fails.
\<close>

theorem auto_staking_blocks_revocation:
  assumes "ctx_wf ctx" and "go_range E" and "fo_pid p \<noteq> vt_pid (fo_vault p)"
    and "is_address h" and "is_address H" and "H \<noteq> h"
    and "fst (ctx_Account h ctx) = Inr (FormulatorAccount fr)"
    and "fa_FormulatorType fr = HyperFormulatorType" and "0 \<le> fa_Amount fr"
    and "book p h (ctx_view ctx) as" and "fst (ctx_HasAccount H ctx) = Inr has"
    and "fa_StakingAmount fr = Some (\<Sum>b\<in>set as. fst (GetStakingAmount p h b ctx))"
    and "a \<in> set as" and "Suc (length as) < 2 ^ 32" and "fst (GetUserAutoStaking p h a ctx)"
    and "commissionOf policy (shareOf pw Ratio) < shareOf pw Ratio"
  shows "let res = stakerStep p h policy Ratio (a, pw) (cs, ev) ctx
    in (\<exists>x. fst res = Inr x) \<and> fst (ctx_Account h (snd res)) = Inr (FormulatorAccount fr) \<and>
       fst (revokeFormulator E p h H (snd res)) = Inl (FormulatorErr ErrCriticalStakingAmount)"
proof -
  let ?F = "ctx_view ctx" and ?am = "shareOf pw Ratio - commissionOf policy (shareOf pw Ratio)"
  have adr: "\<forall>b\<in>set as. is_address b" using assms(10) by (simp add: book_def index_holds_def)
  have ne: "fst (accts ctx) \<noteq> []" using assms(1) by (auto simp: accts_def ctx_wf_def elim: stack_okE)
  have aa: "is_address a" using adr assms(13) by simp
  obtain c G E' as' where c: "stakerStep p h policy Ratio (a, pw) (cs, ev) ctx =
        (Inr (cs + commissionOf policy (shareOf pw Ratio), AddStaked h a ?am ev), c)"
      "accts c = accts ctx" "km.runs ctx c G E'" "book p h G as'"
      "\<forall>b. is_address b \<longrightarrow> stake p h G b = stake p h ?F b + (if b = a then ?am else 0)"
    by (rule auto_stake_run[OF km.runs_refl[OF assms(1)] ne assms(4,15,10) aa assms(14,16)])
  have wf: "ctx_wf c" by (rule km.runs_wf[OF c(3)])
  have acc: "fst (ctx_Account h c) = Inr (FormulatorAccount fr)" using Account_accts[OF c(2) wf assms(1)] assms(7) by simp
  have has: "heir_error H c = None" using HasAccount_accts[OF c(2)] assms(11) by (simp add: heir_error_def)
  have st: "fst (GetStakingAmount p h b ctx) = stake p h ?F b" for b by (rule fst_GetStakingAmount[OF assms(1,4)])
  have "ctx_view c (AData h (fo_pid p) n) = G (AData h (fo_pid p) n)" for n
    using runs_view[OF c(3)] assms(4) by simp
  note view = book_cong[of "ctx_view c" h p G, OF this]
  have "set as' = set as" using stake_grows[OF assms(10) c(4) assms(13) _ c(5)] assms(16) by simp
  then have sm: "(\<Sum>b\<in>set as'. stake p h (ctx_view c) b) \<noteq> (\<Sum>b\<in>set as. fst (GetStakingAmount p h b ctx))"
    using adr c(5) assms(13,16) by (simp add: view(2) st sum.distrib)
  have "fst (revokeFormulator E p h H c) = Inl (FormulatorErr ErrCriticalStakingAmount)"
    by (rule revoke_fails[OF wf assms(3-6) acc assms(8,9) has assms(2,12) _ _ sm])
      (simp_all add: st sum_nonneg view(1) c(4))
  then show ?thesis using acc by (simp add: c(1))
qed

section \<open>A sample state\<close>

text \<open>A hyper formulator with one staker, who has switched automatic staking on.\<close>

definition sample_hyper :: formulator_account where
  "sample_hyper = \<lparr>fa_Address = NewAddress 0 1 0, fa_Name = ''hyper'', fa_FormulatorType = HyperFormulatorType,
     fa_KeyHash = [], fa_GenHash = [], fa_Amount = 100, fa_IsRevoked = False, fa_PreHeight = 0, fa_UpdatedHeight = 0,
     fa_RewardCount = 0, fa_StakingAmount = Some 5, fa_Policy = None\<rparr>"

definition sample_staked :: chain_ctx where
  "sample_staked = ctx_putAccount (NewAddress 0 1 0) (FormulatorAccount sample_hyper)
     (snd (thenE (setUserAutoStaking sample_formulator (NewAddress 0 1 0) (NewAddress 0 2 0) True)
                 (AddStakingAmount sample_formulator (NewAddress 0 1 0) (NewAddress 0 2 0) 5) NewEmptyContext))"

definition sample_form_env :: form_env where
  "sample_form_env = \<lparr>fe_mp = plain_msgpack, fe_Reward = (\<lambda>_. Inr [], \<lambda>_. Inl Panic), fe_Alpha = (\<lambda>_. Inr [], \<lambda>_. Inl Panic),
     fe_Sigma = (\<lambda>_. Inr [], \<lambda>_. Inl Panic), fe_Omega = (\<lambda>_. Inr [], \<lambda>_. Inl Panic), fe_Hyper = (\<lambda>_. Inr [], \<lambda>_. Inl Panic),
     fe_Transmute = (\<lambda>_. Inr [], \<lambda>_. Inl Panic), fe_base58 = (\<lambda>_. None), fe_range = (\<lambda>_ ks. rev ks)\<rparr>"

lemma sample_range: "go_range sample_form_env"
  by (simp add: go_range_def sample_form_env_def)

lemma auto_cell_apart:
  "AData h (fo_pid p) (toAutoStakingKey a) \<notin> staking_cells p h"
  by (auto simp: staking_cells_def stake_cell_def index_cells_def staking_ix_def index_defs toStakingAmountKey_def toAutoStakingKey_def
      simp del: tag_bytes.simps dest: arg_cong[where f = "take 2"])

lemma stake_auto: "stake p h (F(AData h (fo_pid p) (toAutoStakingKey a) := v)) b = stake p h F b"
  by (auto simp: stake_def stake_cell_def toStakingAmountKey_def toAutoStakingKey_def
      simp del: tag_bytes.simps dest: arg_cong[where f = "take 2"])

lemma sample_staked_run:
  defines "p \<equiv> sample_formulator" and "h \<equiv> NewAddress 0 1 0" and "a \<equiv> NewAddress 0 2 0"
  obtains G E' where "km.runs NewEmptyContext sample_staked G E'" and "book p h G [a]" and "stake p h G a = 5"
    and "G (AData h (fo_pid p) (toAutoStakingKey a)) = [1]"
    and "accts sample_staked = ([([(h, FormulatorAccount sample_hyper)], [])], [], emptyLoader)"
proof -
  have adr: "is_address h" "is_address a" by (simp_all add: h_def a_def)
  let ?k = "AData h (fo_pid p) (toAutoStakingKey a)" and ?F = "ctx_view NewEmptyContext" and ?c0 = NewEmptyContext
  have st0: "accts ?c0 = ([([], [])], [], emptyLoader)"
    by (simp add: accts_def NewEmptyContext_def NewContext_def NewContextData_def newContextCache_def)
  have k: "key_ok ?k" using adr by simp
  obtain c1 where c1: "writeE (ctx_set ?k [1]) ?c0 = (Inr () :: err + unit, c1)" "km.runs ?c0 c1 (?F(?k := [1])) ((ctx_mark ?c0)(?k := False))"
    by (rule outcomeE[OF writeE_runs[OF km.runs_refl[OF empty_facts(1)] k, of "[1]", simplified]])
  have a1: "accts c1 = accts ?c0" by (rule obj_keeps[OF keeps_accts_data(2) c1(1)]) (simp add: st0)
  have "book p h ?F []" by (rule book_empty) (simp add: empty_facts)
  then have b1: "book p h (?F(?k := [1])) []"
    using holds_outside[of "staking_ix p h" ?F "[]" ?k] auto_cell_apart[of h p a] by (simp add: book_def stake_auto staking_cells_def)
  obtain G E' as' where G: "outcome ?c0 G E' (Inr ()) (AddStakingAmount p h a 5 c1)" "book p h G as'"
      "\<forall>b. is_address b \<longrightarrow> stake p h G b = stake p h (?F(?k := [1])) b + (if b = a then 5 else 0)"
      "same_outside (staking_cells p h) (?F(?k := [1])) G"
    by (rule AddStakingAmount_runs[OF c1(2) b1 adr, of 5]) simp_all
  obtain c2 where c2: "AddStakingAmount p h a 5 c1 = (Inr (), c2)" "km.runs ?c0 c2 G E'" by (rule outcomeE[OF G(1)])
  have a2: "accts c2 = accts ?c0" using obj_keeps[OF keeps_AddStakingAmount c2(1)] a1 st0 by simp
  have ss: "sample_staked = ctx_putAccount h (FormulatorAccount sample_hyper) c2"
    using c1(1) c2(1) unfolding sample_staked_def p_def[symmetric] h_def[symmetric] a_def[symmetric]
    by (simp add: setUserAutoStaking_def set_as_ctx_set bindE_def del: ctx_set.simps)
  have s0: "stake p h (?F(?k := [1])) b = 0" for b unfolding stake_auto by (simp add: stake_def empty_facts)
  have "set as' = {a}" using G(2,3) adr unfolding s0 by (auto simp: book_def index_holds_def split: if_splits)
  moreover have "distinct as'" using G(2) by (simp add: book_def index_holds_def)
  ultimately have "as' = [a]"
  proof (cases as')
    case (Cons x xs)
    then show ?thesis using \<open>set as' = {a}\<close> \<open>distinct as'\<close> by (cases xs) auto
  qed simp
  then show thesis
    using that[of G E'] putAccount_runs[OF c2(2)] G(2,3) same_outsideD[OF G(4) auto_cell_apart] adr a2 st0 s0
    by (simp add: ss)
qed

lemma sample_staked_facts:
  defines "p \<equiv> sample_formulator" and "h \<equiv> NewAddress 0 1 0" and "a \<equiv> NewAddress 0 2 0" and "ctx \<equiv> sample_staked"
  shows "ctx_wf ctx" and "fst (ctx_Account h ctx) = Inr (FormulatorAccount sample_hyper)"
    and "book p h (ctx_view ctx) [a]" and "fst (GetStakingAmount p h a ctx) = 5" and "fst (GetUserAutoStaking p h a ctx)"
    and "fst (ctx_HasAccount (NewAddress 0 3 0) ctx) = Inr False"
proof -
  obtain G E' where G: "km.runs NewEmptyContext ctx G E'" "book p h G [a]" "stake p h G a = 5"
      "G (AData h (fo_pid p) (toAutoStakingKey a)) = [1]"
      "accts ctx = ([([(h, FormulatorAccount sample_hyper)], [])], [], emptyLoader)"
    unfolding p_def h_def a_def ctx_def by (rule sample_staked_run)
  have h: "is_address h" by (simp add: h_def)
  have view: "ctx_view ctx (AData h (fo_pid p) n) = G (AData h (fo_pid p) n)" for n using runs_view[OF G(1)] h by simp
  show wf: "ctx_wf ctx" by (rule km.runs_wf[OF G(1)])
  show "book p h (ctx_view ctx) [a]" using book_cong(1)[of "ctx_view ctx" h p G, OF view] G(2) by simp
  show "fst (GetStakingAmount p h a ctx) = 5"
    unfolding fst_GetStakingAmount[OF wf h] using book_cong(2)[of "ctx_view ctx" h p G, OF view] G(3) by simp
  have "fst (ctx_get (AData h (fo_pid p) (toAutoStakingKey a)) ctx) = [1]"
    using readE_runs[OF km.runs_refl[OF wf], of "AData h (fo_pid p) (toAutoStakingKey a)"] h view G(4)
    by (simp add: readE_def outcome_def case_prod_unfold Let_def)
  then show "fst (GetUserAutoStaking p h a ctx)" by (simp add: GetUserAutoStaking_def case_prod_unfold)
  have "obj ctx h sample_hyper" using G(5) by (simp add: obj_def om_get_def)
  then show "fst (ctx_Account h ctx) = Inr (FormulatorAccount sample_hyper)" by (simp add: obj_Account)
  have "NewAddress 0 3 0 \<noteq> h" unfolding h_def by code_simp
  then show "fst (ctx_HasAccount (NewAddress 0 3 0) ctx) = Inr False"
    using G(5) by (auto simp: accts_def ctx_HasAccount_def cc_HasAccount_def emptyLoader_def om_has_def om_get_def)
qed

theorem revocation_exact_witness:
  "(let p = sample_formulator; h = NewAddress 0 1 0; a = NewAddress 0 2 0;
        res = revokeFormulator sample_form_env p h (NewAddress 0 3 0) sample_staked
    in fst res = Inr () \<and> fst (Balance (fo_vault p) a (snd res)) = fst (Balance (fo_vault p) a sample_staked) + 5)"
proof -
  have ne: "NewAddress 0 3 0 \<noteq> NewAddress 0 1 0" "NewAddress 0 2 0 \<noteq> NewAddress 0 1 0" by code_simp+
  note f = sample_staked_facts
  have "fo_pid sample_formulator \<noteq> vt_pid (fo_vault sample_formulator)" by code_simp
  note t = revocation_exact[OF f(1) sample_range this _ _ ne(1) f(2) _ _ _ _ _ f(3), of 5]
  have hy: "fa_Address sample_hyper = NewAddress 0 1 0" "fa_FormulatorType sample_hyper = HyperFormulatorType"
      "fa_StakingAmount sample_hyper = Some 5" "fa_Amount sample_hyper = 100" by (simp_all add: sample_hyper_def)
  show ?thesis using t[unfolded Let_def] hy ne f(4,6) by simp
qed

theorem auto_staking_blocks_revocation_witness:
  "(let p = sample_formulator; h = NewAddress 0 1 0; a = NewAddress 0 2 0;
        policy = \<lparr>vp_CommissionRatio1000 = 0, vp_MinimumStaking = 0, vp_PayOutInterval = 1\<rparr>;
        res = stakerStep p h policy 1000000000000000000 (a, 7) (0, newRewardEvent) sample_staked
    in fst (revokeFormulator sample_form_env p h (NewAddress 0 3 0) (snd res)) = Inl (FormulatorErr ErrCriticalStakingAmount))"
proof -
  have ne: "NewAddress 0 3 0 \<noteq> NewAddress 0 1 0" by code_simp
  note f = sample_staked_facts
  have "fo_pid sample_formulator \<noteq> vt_pid (fo_vault sample_formulator)" by code_simp
  note t = auto_staking_blocks_revocation[OF f(1) sample_range this _ _ ne f(2) _ _ f(3,6) _ _ _ f(5)]
  let ?policy = "\<lparr>vp_CommissionRatio1000 = 0, vp_MinimumStaking = 0, vp_PayOutInterval = 1\<rparr>"
  have r: "commissionOf ?policy (shareOf 7 1000000000000000000) < shareOf 7 1000000000000000000" by code_simp
  have hy: "fa_FormulatorType sample_hyper = HyperFormulatorType"
      "fa_StakingAmount sample_hyper = Some 5" "fa_Amount sample_hyper = 100" by (simp_all add: sample_hyper_def)
  show ?thesis using t[of ?policy 7 1000000000000000000 0 newRewardEvent] hy r f(4) by (simp add: Let_def)
qed

end
