(* ===== verification/Gateway_Laws.thy ===== *)
theory Gateway_Laws
  imports Gateway Frame_Laws
begin

text \<open>
  Every report of an ERC20 transfer is processed once, whatever transactions of the gateway run before and
  after it, and what the payment of a report does to the balances.
\<close>

section \<open>Runs of the gateway\<close>

datatype gateway_tx =
    TokenIn token_in | TokenOut token_out | TokenLeave token_leave | UpdatePolicy_gw gateway_update_policy

fun gw_Validate :: "gateway_codec \<Rightarrow> gateway \<Rightarrow> gateway_tx \<Rightarrow> pubhash list \<Rightarrow> (chain_ctx, unit) go_meth" where
  "gw_Validate C p (TokenIn tx) = TokenIn_Validate p tx"
| "gw_Validate C p (TokenOut tx) = TokenOut_Validate C p tx"
| "gw_Validate C p (TokenLeave tx) = TokenLeave_Validate p tx"
| "gw_Validate C p (UpdatePolicy_gw tx) = UpdatePolicy_gw_Validate p tx"

fun gw_Execute :: "gateway_codec \<Rightarrow> gateway \<Rightarrow> gateway_tx \<Rightarrow> u16 \<Rightarrow> (chain_ctx, unit) go_meth" where
  "gw_Execute C p (TokenIn tx) = TokenIn_Execute p tx"
| "gw_Execute C p (TokenOut tx) = TokenOut_Execute C p tx"
| "gw_Execute C p (TokenLeave tx) = TokenLeave_Execute p tx"
| "gw_Execute C p (UpdatePolicy_gw tx) = UpdatePolicy_gw_Execute C p tx"

text \<open>Addresses and hashes are arrays of fixed size.\<close>

fun gw_sized :: "gateway_tx \<Rightarrow> bool" where
  "gw_sized (TokenIn tx) \<longleftrightarrow> is_address (ti_From tx) \<and> (\<forall>a\<in>set (ti_ToAddresses tx). is_address a) \<and> is_hash (ti_ERC20TXID tx)"
| "gw_sized (TokenOut tx) \<longleftrightarrow> is_address (to_From tx)"
| "gw_sized (TokenLeave tx) \<longleftrightarrow> is_address (tl_From tx)"
| "gw_sized (UpdatePolicy_gw tx) \<longleftrightarrow> is_address (gup_From tx)"

fun reported :: "gateway_tx \<Rightarrow> hash256 list" where
  "reported (TokenIn tx) = [ti_ERC20TXID tx]"
| "reported _ = []"

definition gw_tx_step :: "gateway_codec \<Rightarrow> gateway \<Rightarrow> gateway_tx \<Rightarrow> pubhash list \<Rightarrow> u16 \<Rightarrow> (chain_ctx, unit) go_meth" where
  "gw_tx_step C p tx signers i = in_snapshot (thenE (gw_Validate C p tx signers) (gw_Execute C p tx i))"

text \<open>
  A run from \<open>ctx\<close>: each transaction is validated and executed in a snapshot, which is committed or reverted.
  The list holds the reports that were processed.
\<close>

inductive gw_run :: "gateway_codec \<Rightarrow> gateway \<Rightarrow> chain_ctx \<Rightarrow> hash256 list \<Rightarrow> chain_ctx \<Rightarrow> bool" for C p ctx where
  start: "gw_run C p ctx [] ctx"
| accept: "gw_run C p ctx ids c \<Longrightarrow> gw_sized tx \<Longrightarrow> gw_tx_step C p tx signers i c = (Inr (), c') \<Longrightarrow>
     gw_run C p ctx (ids @ reported tx) c'"
| refuse: "gw_run C p ctx ids c \<Longrightarrow> gw_sized tx \<Longrightarrow> gw_tx_step C p tx signers i c = (Inl e, c') \<Longrightarrow> gw_run C p ctx ids c'"

section \<open>Keys\<close>

definition report_cell :: "gateway \<Rightarrow> hash256 \<Rightarrow> dkey" where
  "report_cell p h = PData (gw_pid p) (toERC20TXIDKey h)"

definition report_cells :: "gateway \<Rightarrow> dkey set" where
  "report_cells p = report_cell p ` {h. is_hash h}"

lemma toERC20TXIDKey_eq: "is_hash h \<Longrightarrow> toERC20TXIDKey h = [1, 0] @ h"
  by (simp add: toERC20TXIDKey_def tagERC20TXID_def copy_at_def go_copy_def is_hash_def numeral_2_eq_2)

lemma toOutTXIDKey_eq: "toOutTXIDKey t = [1, 1] @ str_bytes t"
  by (simp add: toOutTXIDKey_def tagOutTXID_def copy_at_def go_copy_def numeral_2_eq_2)

lemma report_cell_facts [simp]:
  "key_ok (report_cell p h)"
  "is_hash g \<Longrightarrow> is_hash h \<Longrightarrow> report_cell p g = report_cell p h \<longleftrightarrow> g = h"
  "PData (gw_pid p) (toOutTXIDKey t) \<notin> report_cells p" "PData (gw_pid p) tagPolicy_gw \<notin> report_cells p"
  by (auto simp: report_cell_def report_cells_def toERC20TXIDKey_eq toOutTXIDKey_eq tagPolicy_gw_def)

section \<open>What the transactions leave alone\<close>

lemma leaves_has [leaves_intros]: "leaves K (readE (HasERC20TXID p h))" "leaves K (readE (HasOutTXID p t))"
  by (rule leaves_read[of "report_cell p h"]; simp add: HasERC20TXID_def report_cell_def case_prod_unfold)
    (rule leaves_read[of "PData (gw_pid p) (toOutTXIDKey t)"]; simp add: HasOutTXID_def case_prod_unfold)

lemma leaves_readPolicy [leaves_intros]: "leaves K (readPolicy_gw C p)"
  unfolding readPolicy_gw_def
  by (intro leaves_intros leaves_read[of "PData (gw_pid p) tagPolicy_gw"]) simp_all

lemma leaves_CheckFeePayableWith [leaves_intros]: "is_address a \<Longrightarrow> leaves K (CheckFeePayableWith v a (GetDefaultFee v) am)"
  unfolding CheckFeePayableWith_def Let_def by (intro leaves_intros)

lemma leaves_Validate: "gw_sized tx \<Longrightarrow> leaves K (gw_Validate C p tx signers)"
  by (cases tx; simp add: TokenIn_Validate_def TokenOut_Validate_def TokenLeave_Validate_def UpdatePolicy_gw_Validate_def;
      intro leaves_intros)

lemma reports_elsewhere: "gw_pid p \<noteq> vt_pid (gw_vault p) \<Longrightarrow> other_cells (gw_vault p) (report_cells p)"
  by (auto simp: report_cells_def report_cell_def)

lemma leaves_payTokens:
  "is_address a \<Longrightarrow> \<forall>b\<in>set tos. is_address b \<Longrightarrow> other_cells v K \<Longrightarrow> leaves K (payTokens v a tos ams)"
proof (induction ams arbitrary: tos)
  case (Cons am ams)
  then show ?case by (cases tos) (auto intro!: leaves_intros)
qed (simp add: leaves_pure)

lemma leaves_Execute:
  assumes "gw_sized tx" and "gw_pid p \<noteq> vt_pid (gw_vault p)" and "reported tx = []"
  shows "leaves (report_cells p) (gw_Execute C p tx i)"
proof (cases tx)
  case (TokenOut t)
  have a: "is_address (to_From t)" using assms(1) TokenOut by simp
  note o = reports_elsewhere[OF assms(2)]
  show ?thesis
    unfolding TokenOut gw_Execute.simps TokenOut_Execute_def
    by (intro leaves_WithFee[OF a o] leaves_bindE leaves_readPolicy leaves_balances[OF a o] AdminAddress_address)
      (intro leaves_intros o; assumption)+
next
  case (TokenLeave t)
  show ?thesis
    unfolding TokenLeave gw_Execute.simps TokenLeave_Execute_def setOutTXID_def set_as_ctx_set by (rule leaves_write) simp_all
next
  case (UpdatePolicy_gw t)
  show ?thesis
    unfolding UpdatePolicy_gw gw_Execute.simps UpdatePolicy_gw_Execute_def writePolicy_gw_def set_as_ctx_set
    by (intro leaves_intros leaves_write) simp_all
qed (use assms(3) in simp)

section \<open>A report is processed once\<close>

lemma TokenIn_Validate_fresh:
  assumes "km.runs s ctx F E" and "TokenIn_Validate p tx signers ctx = (Inr (), c)"
  shows "F (report_cell p (ti_ERC20TXID tx)) = []"
proof -
  let ?h = "readE (HasERC20TXID p (ti_ERC20TXID tx)) :: (chain_ctx, bool) go_meth"
  define A where "A = thenE (checkAdmin (gw_admin p) gateway_Name (ti_From tx))
     (thenE (failIf (length (ti_Amounts tx) \<noteq> length (ti_ToAddresses tx)) (GatewayErr ErrInvalidAddressCount))
       (foreachE checkDust (ti_Amounts tx)))"
  have A: "leaves UNIV A" unfolding A_def by (intro leaves_intros)
  obtain c1 c2 where c: "A ctx = (Inr (), c1)" "?h c1 = (Inr False, c2)"
    using assms(2) unfolding TokenIn_Validate_def A_def by (auto simp: bindE_success failIf_run split: if_splits)
  have "fst (ctx_get (report_cell p (ti_ERC20TXID tx)) c1) = F (report_cell p (ti_ERC20TXID tx))"
    by (rule fst_get[OF leaves_all[OF A assms(1) c(1)]]) simp
  then show ?thesis using c(2) by (simp add: readE_def HasERC20TXID_def report_cell_def case_prod_unfold Let_def)
qed

lemma setERC20TXID_runs:
  assumes "km.runs s c F E"
  shows "outcome s (F(report_cell p h := [1])) (E(report_cell p h := False)) (Inr ()) (setERC20TXID p h c)"
proof -
  have "setERC20TXID p h = writeE (ctx_set (report_cell p h) [1])"
    by (simp only: setERC20TXID_def report_cell_def set_as_ctx_set)
  then show ?thesis using writeE_runs[OF assms report_cell_facts(1)[of p h], of "[1]"] by simp
qed

lemma TokenIn_success:
  assumes "km.runs s ctx F E" and "gw_sized (TokenIn tx)" and "gw_pid p \<noteq> vt_pid (gw_vault p)"
    and "thenE (TokenIn_Validate p tx signers) (TokenIn_Execute p tx i) ctx = (Inr (), c)"
  obtains G E' where "km.runs s c G E'" and "F (report_cell p (ti_ERC20TXID tx)) = []"
    and "\<forall>k\<in>report_cells p. (G k \<noteq> [] \<longleftrightarrow> F k \<noteq> [] \<or> k = report_cell p (ti_ERC20TXID tx)) \<and> (E' k \<longrightarrow> E k)"
proof -
  let ?pay = "payTokens (gw_vault p) (ti_From tx) (ti_ToAddresses tx) (ti_Amounts tx)" and ?k = "report_cell p (ti_ERC20TXID tx)"
  obtain c1 c2 where c: "TokenIn_Validate p tx signers ctx = (Inr (), c1)" "?pay c1 = (Inr (), c2)"
      "setERC20TXID p (ti_ERC20TXID tx) c2 = (Inr (), c)"
    using assms(4) by (auto simp: bindE_success TokenIn_Execute_def)
  have r1: "km.runs s c1 F E" using leaves_all[OF leaves_Validate[OF assms(2)] assms(1), of undefined p signers] c(1) by simp
  have "leaves (report_cells p) ?pay" using assms(2) by (intro leaves_payTokens reports_elsewhere assms(3)) simp_all
  from leavesD[OF this r1] obtain G E' where G: "km.runs s c2 G E'" "\<forall>k\<in>report_cells p. G k = F k \<and> E' k = E k"
    using c(2) by auto
  have "km.runs s c (G(?k := [1])) (E'(?k := False))"
    using setERC20TXID_runs[OF G(1), of p "ti_ERC20TXID tx"] c(3) by simp
  then show thesis
    by (rule that) (use TokenIn_Validate_fresh[OF assms(1) c(1)] G(2) in auto)
qed

text \<open>What a run has done to the cells of the reports.\<close>

definition gw_inv :: "gateway \<Rightarrow> chain_ctx \<Rightarrow> hash256 list \<Rightarrow> chain_ctx \<Rightarrow> bool" where
  "gw_inv p ctx ids c \<longleftrightarrow> ctx_wf c \<and> distinct ids \<and> (\<forall>h\<in>set ids. is_hash h \<and> ctx_view ctx (report_cell p h) = []) \<and>
     (\<forall>h. is_hash h \<longrightarrow> \<not> ctx_mark c (report_cell p h) \<and>
        (ctx_view c (report_cell p h) \<noteq> [] \<longleftrightarrow> ctx_view ctx (report_cell p h) \<noteq> [] \<or> h \<in> set ids))"

lemma leaves_tx:
  assumes "gw_sized tx" and "gw_pid p \<noteq> vt_pid (gw_vault p)"
  shows "leaves {} (thenE (gw_Validate C p tx signers) (gw_Execute C p tx i))"
proof (cases "reported tx = []")
  case True
  have "leaves {} (gw_Execute C p tx i)"
    using leaves_Execute[OF assms True, of C i] unfolding leaves_def by blast
  then show ?thesis by (intro leaves_bindE leaves_Validate assms)
next
  case False
  then obtain t where t: "tx = TokenIn t" by (cases tx) auto
  have "leaves {} (gw_Execute C p tx i)"
    using assms(1) unfolding t gw_Execute.simps TokenIn_Execute_def setERC20TXID_def set_as_ctx_set
    by (intro leaves_bindE leaves_payTokens leaves_write) simp_all
  then show ?thesis by (intro leaves_bindE leaves_Validate assms)
qed

lemma runs_unique: "km.runs s c F E \<Longrightarrow> km.runs s c G E' \<Longrightarrow> key_ok k \<Longrightarrow> F k = G k \<and> E k = E' k"
  by (simp add: km.runs_def kv.steps_def)

lemma tx_reports:
  assumes "km.runs s ctx F (\<lambda>_. False)" and "gw_sized tx" and "gw_pid p \<noteq> vt_pid (gw_vault p)"
    and "outcome s G E (Inr ()) (thenE (gw_Validate C p tx signers) (gw_Execute C p tx i) ctx)"
  shows "(\<forall>h. is_hash h \<longrightarrow> (G (report_cell p h) \<noteq> [] \<longleftrightarrow> F (report_cell p h) \<noteq> [] \<or> h \<in> set (reported tx)) \<and> \<not> E (report_cell p h)) \<and>
      (\<forall>h\<in>set (reported tx). is_hash h \<and> F (report_cell p h) = [])"
proof -
  obtain c where c: "thenE (gw_Validate C p tx signers) (gw_Execute C p tx i) ctx = (Inr (), c)" "km.runs s c G E"
    by (rule outcomeE[OF assms(4)])
  have cell: "report_cell p h \<in> report_cells p" if "is_hash h" for h using that by (simp add: report_cells_def)
  show ?thesis
  proof (cases "reported tx = []")
    case True
    have "leaves (report_cells p) (thenE (gw_Validate C p tx signers) (gw_Execute C p tx i))"
      by (intro leaves_bindE leaves_Validate leaves_Execute assms True)
    from leavesD[OF this assms(1)] c(1) obtain H E' where "km.runs s c H E'" "\<forall>k\<in>report_cells p. H k = F k \<and> \<not> E' k" by auto
    then show ?thesis using runs_unique[OF c(2)] cell True by simp
  next
    case False
    then obtain t where t: "tx = TokenIn t" by (cases tx) auto
    obtain H E' where H: "km.runs s c H E'" "F (report_cell p (ti_ERC20TXID t)) = []"
        "\<forall>k\<in>report_cells p. (H k \<noteq> [] \<longleftrightarrow> F k \<noteq> [] \<or> k = report_cell p (ti_ERC20TXID t)) \<and> (E' k \<longrightarrow> False)"
      by (rule TokenIn_success[OF assms(1) assms(2)[unfolded t] assms(3) c(1)[unfolded t gw_Validate.simps gw_Execute.simps]])
    have h: "is_hash (ti_ERC20TXID t)" using assms(2) t by simp
    show ?thesis using runs_unique[OF c(2) H(1)] H(2,3) cell h t by simp
  qed
qed

lemma gw_inv_step:
  assumes "gw_inv p ctx ids c" and "gw_sized tx" and "gw_pid p \<noteq> vt_pid (gw_vault p)"
  shows "gw_tx_step C p tx signers i c = (Inr (), c') \<Longrightarrow> gw_inv p ctx (ids @ reported tx) c'"
    and "gw_tx_step C p tx signers i c = (Inl e, c') \<Longrightarrow> gw_inv p ctx ids c'"
proof -
  let ?m = "thenE (gw_Validate C p tx signers) (gw_Execute C p tx i)"
  have wf: "ctx_wf c" using assms(1) by (simp add: gw_inv_def)
  note l = snapshot_cases[OF leaves_tx[OF assms(2,3), of C signers i] wf]
  { assume st: "gw_tx_step C p tx signers i c = (Inl e, c')"
    have "km.runs c c' (ctx_view c) (ctx_mark c)"
      by (rule l) (use st in \<open>simp_all add: gw_tx_step_def outcome_def\<close>)
    then have "ctx_wf c'" "\<And>h. ctx_view c' (report_cell p h) = ctx_view c (report_cell p h) \<and> ctx_mark c' (report_cell p h) = ctx_mark c (report_cell p h)"
      by (auto simp: km.runs_def kv.steps_def)
    then show "gw_inv p ctx ids c'" using assms(1) by (simp add: gw_inv_def) }
  assume st: "gw_tx_step C p tx signers i c = (Inr (), c')"
  have mk: "\<not> ctx_mark c (report_cell p h)" if "is_hash h" for h using assms(1) that by (simp add: gw_inv_def)
  obtain s1 G E where s1: "km.runs s1 s1 (ctx_view c) (\<lambda>_. False)" "outcome s1 G E (Inr ()) (?m s1)"
      "km.runs c c' (\<lambda>k. if ctx_mark c k then [] else G k) (\<lambda>k. E k \<or> ctx_mark c k)"
    by (rule l) (use st in \<open>auto simp: gw_tx_step_def outcome_def\<close>)
  have G: "(\<forall>h. is_hash h \<longrightarrow> (G (report_cell p h) \<noteq> [] \<longleftrightarrow> ctx_view c (report_cell p h) \<noteq> [] \<or> h \<in> set (reported tx)) \<and> \<not> E (report_cell p h)) \<and>
      (\<forall>h\<in>set (reported tx). is_hash h \<and> ctx_view c (report_cell p h) = [])"
    by (rule tx_reports[OF s1(1) assms(2,3) s1(2)])
  have v: "ctx_view c' (report_cell p h) = G (report_cell p h)" "\<not> ctx_mark c' (report_cell p h)" if "is_hash h" for h
    using s1(3) mk[OF that] G that by (auto simp: km.runs_def kv.steps_def)
  have "distinct (reported tx)" by (cases tx) simp_all
  then have "distinct (ids @ reported tx)" using assms(1) G by (auto simp: gw_inv_def)
  then show "gw_inv p ctx (ids @ reported tx) c'"
    using assms(1) km.runs_wf[OF s1(3)] v G by (auto simp: gw_inv_def)
qed

text \<open>
  C14: a report is processed once. In every run of transactions of the gateway, accepted or refused, the reports
  that are processed are different from each other and from those processed before; afterwards each of them is
  known, and no transaction that reports one of them again is valid.
\<close>

theorem report_processed_once:
  assumes "gw_run C p ctx ids c" and "ctx_wf ctx" and "gw_pid p \<noteq> vt_pid (gw_vault p)"
    and "\<forall>h. is_hash h \<longrightarrow> \<not> emptied (ctx_Top ctx) (PData (gw_pid p) (toERC20TXIDKey h))"
  shows "distinct ids \<and> (\<forall>h\<in>set ids. \<not> fst (HasERC20TXID p h ctx) \<and> fst (HasERC20TXID p h c) \<and>
    (\<forall>tx signers. ti_ERC20TXID tx = h \<longrightarrow> fst (TokenIn_Validate p tx signers c) \<noteq> Inr ()))"
proof -
  have inv: "gw_inv p ctx ids c"
    using assms(1)
  proof (induction rule: gw_run.induct)
    case start
    show ?case using assms(2,4) by (simp add: gw_inv_def report_cell_def ctx_mark_def)
  qed (use gw_inv_step[OF _ _ assms(3)] in blast)+
  then have wf: "ctx_wf c" by (simp add: gw_inv_def)
  have has: "fst (HasERC20TXID p h x) \<longleftrightarrow> ctx_view x (report_cell p h) \<noteq> []" if "ctx_wf x" for h x
    using fst_get[OF km.runs_refl[OF that], of "report_cell p h"] by (simp add: HasERC20TXID_def report_cell_def case_prod_unfold)
  have "fst (TokenIn_Validate p tx signers c) \<noteq> Inr ()" if "ctx_view c (report_cell p (ti_ERC20TXID tx)) \<noteq> []" for tx signers
    using TokenIn_Validate_fresh[OF km.runs_refl[OF wf], of p tx signers] that by (cases "TokenIn_Validate p tx signers c") auto
  then show ?thesis using inv has[OF wf] has[OF assms(2)] by (auto simp: gw_inv_def)
qed

section \<open>A report is paid\<close>

lemma payTokens_runs:
  assumes "km.runs s c F E" and "is_address a" and "\<forall>b\<in>set tos. is_address b" and "length ams = length tos" and "a \<notin> set tos"
    and "\<forall>am\<in>set ams. 0 \<le> am"
  shows "if sum_list ams \<le> bal v F a
    then \<exists>G E'. outcome s G E' (Inr ()) (payTokens v a tos ams c) \<and>
      (\<forall>b. bal v G b = bal v F b + sum_list (map snd (filter (\<lambda>x. fst x = b) (zip tos ams))) - (if b = a then sum_list ams else 0))
    else fst (payTokens v a tos ams c) = Inl (VaultErr ErrMinusBalance)"
  using assms
proof (induction ams arbitrary: tos c F E)
  case Nil
  then show ?case by (auto simp: returnE_run intro!: exI)
next
  case (Cons am ams)
  then obtain t ts where tos: "tos = t # ts" by (cases tos) auto
  have ok: "is_address t" "t \<noteq> a" "0 \<le> am" "\<forall>b\<in>set ts. is_address b" "length ams = length ts" "a \<notin> set ts" "\<forall>am\<in>set ams. 0 \<le> am"
    using Cons.prems tos by auto
  have nonneg: "0 \<le> sum_list ams" using ok(7) by (intro sum_list_nonneg) auto
  show ?case
  proof (cases "am \<le> bal v F a")
    case False
    then obtain c1 where "SubBalance v a am c = (Inl (VaultErr ErrMinusBalance), c1)"
      using SubBalance_runs(1)[OF Cons.prems(1,2), of v am] by (auto elim: outcomeE)
    then show ?thesis using False nonneg by (simp add: bindE_def)
  next
    case True
    define F1 where "F1 = F(bcell v a := am_Bytes (bal v F a - am))"
    obtain c1 E1 where c1: "SubBalance v a am c = (Inr (), c1)" "km.runs s c1 F1 E1"
      using SubBalance_runs(2)[OF Cons.prems(1,2) True] unfolding F1_def by (auto elim: outcomeE)
    define F2 where "F2 = F1(bcell v t := am_Bytes (bal v F1 t + am))"
    obtain c2 E2 where c2: "AddBalance v t am c1 = (Inr (), c2)" "km.runs s c2 F2 E2"
      using AddBalance_runs(2)[OF c1(2) ok(1,3), of v] unfolding F2_def by (auto elim: outcomeE)
    have b: "bal v F2 b = bal v F b + (if b = t then am else 0) - (if b = a then am else 0)" for b
      using True ok(2,3) by (simp add: F2_def F1_def abs_of_nonneg)
    have run: "payTokens v a tos (am # ams) c = payTokens v a ts ams c2" using c1(1) c2(1) by (simp add: tos bindE_def)
    show ?thesis
      using Cons.IH[OF c2(2) Cons.prems(2) ok(4-7)] b[of a] ok(2) unfolding run
      by (auto simp: tos b algebra_simps split: if_splits)
  qed
qed

text \<open>
  C27: what a report does to the balances. If the gateway account covers the amounts, each recipient receives what
  the report lists for it, the gateway account pays the sum, no other balance changes and the report is
  recorded; otherwise the transaction fails with \<^verbatim>\<open>ErrMinusBalance\<close>.
\<close>

theorem report_paid:
  assumes "ctx_wf ctx" and "gw_sized (TokenIn tx)" and "gw_pid p \<noteq> vt_pid (gw_vault p)"
    and "length (ti_Amounts tx) = length (ti_ToAddresses tx)" and "ti_From tx \<notin> set (ti_ToAddresses tx)" and "\<forall>am\<in>set (ti_Amounts tx). 0 \<le> am"
  shows "let v = gw_vault p; res = TokenIn_Execute p tx i ctx
    in if sum_list (ti_Amounts tx) \<le> fst (Balance v (ti_From tx) ctx)
       then fst res = Inr () \<and> fst (HasERC20TXID p (ti_ERC20TXID tx) (snd res)) \<and>
         (\<forall>b. is_address b \<longrightarrow> fst (Balance v b (snd res)) = fst (Balance v b ctx) +
            (\<Sum>x\<leftarrow>zip (ti_ToAddresses tx) (ti_Amounts tx). if fst x = b then snd x else 0) -
            (if b = ti_From tx then sum_list (ti_Amounts tx) else 0))
       else fst res = Inl (VaultErr ErrMinusBalance)"
proof -
  let ?v = "gw_vault p" and ?k = "report_cell p (ti_ERC20TXID tx)" and ?a = "ti_From tx"
  have a: "is_address ?a" "\<forall>b\<in>set (ti_ToAddresses tx). is_address b" using assms(2) by simp_all
  note r = payTokens_runs[OF km.runs_refl[OF assms(1)] a assms(4-6), of ?v]
  show ?thesis
  proof (cases "sum_list (ti_Amounts tx) \<le> bal ?v (ctx_view ctx) ?a")
    case True
    then obtain G E where G: "outcome ctx G E (Inr ()) (payTokens ?v ?a (ti_ToAddresses tx) (ti_Amounts tx) ctx)"
        "\<And>b. bal ?v G b = bal ?v (ctx_view ctx) b + sum_list (map snd (filter (\<lambda>x. fst x = b) (zip (ti_ToAddresses tx) (ti_Amounts tx)))) -
          (if b = ?a then sum_list (ti_Amounts tx) else 0)"
      using r by auto
    obtain c where c: "payTokens ?v ?a (ti_ToAddresses tx) (ti_Amounts tx) ctx = (Inr (), c)" "km.runs ctx c G E" by (rule outcomeE[OF G(1)])
    obtain d where d: "setERC20TXID p (ti_ERC20TXID tx) c = (Inr (), d)" "km.runs ctx d (G(?k := [1])) (E(?k := False))"
      by (rule outcomeE[OF setERC20TXID_runs[OF c(2)]])
    have run: "TokenIn_Execute p tx i ctx = (Inr (), d)" using c(1) d(1) by (simp add: TokenIn_Execute_def bindE_def)
    have wf: "ctx_wf d" by (rule km.runs_wf[OF d(2)])
    have "fst (HasERC20TXID p (ti_ERC20TXID tx) d)"
      using fst_get[OF d(2) report_cell_facts(1)[of p "ti_ERC20TXID tx"]] by (simp add: HasERC20TXID_def report_cell_def case_prod_unfold)
    moreover have "bal ?v (ctx_view d) b = bal ?v G b" if "is_address b" for b
      using d(2) that assms(3) by (simp add: bal_def km.runs_def kv.steps_def report_cell_def)
    ultimately show ?thesis
      unfolding Let_def run fst_conv snd_conv sum_list_map_filter'[symmetric]
      using True fst_Balance[OF assms(1)] fst_Balance[OF wf] a(1) G(2) by simp
  next
    case False
    then have "fst (TokenIn_Execute p tx i ctx) = Inl (VaultErr ErrMinusBalance)"
      using r by (cases "payTokens ?v ?a (ti_ToAddresses tx) (ti_Amounts tx) ctx") (simp add: TokenIn_Execute_def bindE_def)
    then show ?thesis using False fst_Balance[OF assms(1) a(1)] by (simp add: Let_def)
  qed
qed

section \<open>A report that is accepted\<close>

lemma accts_AdminAddress: "accts (snd (AdminAddress p name c)) = accts c"
  using accts_get[of "PData (ad_pid p) (toAdminAddressKey name)" c] by (simp add: AdminAddress_def case_prod_unfold)

lemma accts_checkAdmin: "accts (snd (checkAdmin p name a c)) = accts c"
  using accts_AdminAddress[of p name c] by (cases "AdminAddress p name c") (auto simp: checkAdmin_def bindE_def failIf_run split: sum.split)

lemma checkDust_pass: "\<forall>am\<in>set ams. 100000000000000000 \<le> am \<Longrightarrow> foreachE checkDust ams c = (Inr (), c)"
proof (induction ams)
  case (Cons am ams)
  have "am_DivC COIN 10 = Some 100000000000000000" by code_simp
  then have "checkDust am c = (Inr (), c)" using Cons.prems by (simp add: checkDust_def bindE_def liftE_def failIf_run am_Less_def)
  then show ?case using Cons by (simp add: bindE_def)
qed (simp add: returnE_run)

lemma checkAccountExists_pass:
  "\<forall>a\<in>set as. fst (ctx_HasAccount a c) = Inr True \<Longrightarrow> foreachE checkAccountExists as c = (Inr (), c)"
  by (induction as) (simp_all add: returnE_run bindE_def checkAccountExists_def ctx_HasAccount_def failIf_run)

lemma TokenIn_valid:
  assumes "km.runs s c F E" and "F (PData (ad_pid (gw_admin p)) (toAdminAddressKey gateway_Name)) = ti_From tx" and "is_address (ti_From tx)"
    and "length (ti_Amounts tx) = length (ti_ToAddresses tx)" and "\<forall>am\<in>set (ti_Amounts tx). 100000000000000000 \<le> am"
    and "F (report_cell p (ti_ERC20TXID tx)) = []" and "\<forall>a\<in>set (ti_ToAddresses tx). fst (ctx_HasAccount a c) = Inr True"
    and "fst (ctx_Account (ti_From tx) c) = Inr acc" and "acc_Validate acc signers = Inr ()"
  shows "fst (TokenIn_Validate p tx signers c) = Inr ()"
proof -
  let ?ca = "checkAdmin (gw_admin p) gateway_Name (ti_From tx)"
  have wf: "ctx_wf c" by (rule km.runs_wf[OF assms(1)])
  have "ctx_view c (PData (ad_pid (gw_admin p)) (toAdminAddressKey gateway_Name)) = ti_From tx"
    using assms(1,2) by (simp add: km.runs_def kv.steps_def)
  moreover have "ti_From tx \<noteq> []" "go_copy (zeros AddressSize) (ti_From tx) = ti_From tx"
    using assms(3) by (auto simp: is_address_def AddressSize_def go_copy_full)
  ultimately have "fst (?ca c) = Inr ()" by (simp add: checkAdmin_run(1)[OF wf])
  then obtain c1 where c1: "?ca c = (Inr (), c1)" by (cases "?ca c") simp
  have r1: "km.runs s c1 F E" by (rule leaves_all[OF leaves_checks(1) assms(1) c1])
  have a1: "accts c1 = accts c" using accts_checkAdmin[of "gw_admin p" gateway_Name "ti_From tx" c] c1 by simp
  let ?k = "report_cell p (ti_ERC20TXID tx)"
  obtain c2 where c2: "readE (HasERC20TXID p (ti_ERC20TXID tx)) c1 = (Inr False :: err + bool, c2)" "c2 = snd (ctx_get ?k c1)"
    using fst_get[OF r1 report_cell_facts(1)[of p "ti_ERC20TXID tx"]] assms(6)
    by (simp add: readE_def HasERC20TXID_def report_cell_def case_prod_unfold Let_def)
  have a2: "accts c2 = accts c" using a1 c2(2) by simp
  have wf2: "ctx_wf c2" by (rule km.runs_wf[OF leaves_all[OF leaves_has(1) r1 c2(1)]])
  have "fst (ctx_Account (ti_From tx) c2) = Inr acc" using Account_accts[OF a2 wf2 wf] assms(8) by simp
  then have "fst (validateFrom (ti_From tx) signers c2) = Inr ()"
    using assms(9) by (cases "ctx_Account (ti_From tx) c2") (simp add: validateFrom_def bindE_def liftE_def)
  moreover have "foreachE checkAccountExists (ti_ToAddresses tx) c2 = (Inr (), c2)"
    using assms(7) HasAccount_accts[OF a2] by (intro checkAccountExists_pass) simp
  ultimately show ?thesis
    using c1 checkDust_pass[OF assms(5), of c1] c2(1) assms(4) by (simp add: TokenIn_Validate_def bindE_def failIf_run)
qed

lemma empty_ctx_wf: "ctx_wf NewEmptyContext"
  by (simp add: NewEmptyContext_def ctx_wf_NewContext)

lemma empty_unmarked: "\<not> ctx_mark NewEmptyContext k"
  by (cases k) (simp_all add: ctx_mark_def ctx_Top_def emptied_def NewEmptyContext_def NewContext_def NewContextData_def
      alayer_def player_def om_has_def om_get_def)

definition sample_gateway :: gateway where
  "sample_gateway = \<lparr>gw_pid = 4, gw_vault = \<lparr>vt_pid = 2, vt_admin = \<lparr>ad_pid = 1\<rparr>, vt_magic = 0\<rparr>, gw_admin = \<lparr>ad_pid = 1\<rparr>\<rparr>"

definition sample_report :: token_in where
  "sample_report = \<lparr>ti_Timestamp = 1, ti_From = NewAddress 0 1 0, ti_ERC20TXID = zeros 32, ti_ERC20From = zeros 20,
     ti_ToAddresses = [NewAddress 0 2 0], ti_Amounts = [300000000000000000]\<rparr>"

definition sample_gateway_ctx :: chain_ctx where
  "sample_gateway_ctx =
     ctx_putAccount (NewAddress 0 2 0) (SingleAccount \<lparr>sa_Address = NewAddress 0 2 0, sa_Name = ''user'', sa_KeyHash = [8]\<rparr>)
     (ctx_putAccount (NewAddress 0 1 0) (SingleAccount \<lparr>sa_Address = NewAddress 0 1 0, sa_Name = ''admin'', sa_KeyHash = [7]\<rparr>)
     (ctx_set (bcell (gw_vault sample_gateway) (NewAddress 0 1 0)) (am_Bytes 500000000000000000)
     (ctx_set (PData 1 (toAdminAddressKey gateway_Name)) (NewAddress 0 1 0) NewEmptyContext)))"

lemma sample_gateway_run:
  defines "a \<equiv> NewAddress 0 1 0" and "b \<equiv> NewAddress 0 2 0" and "p \<equiv> sample_gateway"
  shows "km.runs NewEmptyContext sample_gateway_ctx ((ctx_view NewEmptyContext)(PData 1 (toAdminAddressKey gateway_Name) := a,
      bcell (gw_vault p) a := am_Bytes 500000000000000000)) (\<lambda>_. False)"
    and "fst (accts sample_gateway_ctx) = [(om_put b (SingleAccount \<lparr>sa_Address = b, sa_Name = ''user'', sa_KeyHash = [8]\<rparr>)
      [(a, SingleAccount \<lparr>sa_Address = a, sa_Name = ''admin'', sa_KeyHash = [7]\<rparr>)], [])]"
proof -
  let ?k1 = "PData 1 (toAdminAddressKey gateway_Name)" and ?k2 = "bcell (gw_vault p) a" and ?c0 = NewEmptyContext
  let ?v1 = "a" and ?v2 = "am_Bytes 500000000000000000"
  have "is_address a" by (simp add: a_def)
  then have ne: "a \<noteq> []" "?v2 \<noteq> []" by (auto simp: is_address_def AddressSize_def am_Bytes_empty)
  have st0: "fst (accts ?c0) = [([], [])]" by (simp add: accts_def NewEmptyContext_def NewContext_def NewContextData_def)
  have ok: "key_ok ?k1" "key_ok ?k2" by (simp_all add: a_def)
  let ?F = "(ctx_view ?c0)(?k1 := ?v1, ?k2 := ?v2)"
  have "km.runs ?c0 (ctx_set ?k2 ?v2 (ctx_set ?k1 ?v1 ?c0)) ?F ((ctx_mark ?c0)(?k1 := (?v1 = []), ?k2 := (?v2 = [])))"
    by (intro km.runs_put km.runs_refl empty_ctx_wf ok)
  moreover have "(ctx_mark ?c0)(?k1 := (?v1 = []), ?k2 := (?v2 = [])) = (\<lambda>_. False)"
    using ne by (auto simp: fun_eq_iff empty_unmarked)
  ultimately have r: "km.runs ?c0 (ctx_set ?k2 ?v2 (ctx_set ?k1 ?v1 ?c0)) ?F (\<lambda>_. False)" by simp
  have a1: "accts (ctx_set ?k1 ?v1 ?c0) = accts ?c0" by (rule accts_set) (simp add: st0)
  have a2: "accts (ctx_set ?k2 ?v2 (ctx_set ?k1 ?v1 ?c0)) = accts ?c0" using accts_set[of "ctx_set ?k1 ?v1 ?c0" ?k2 ?v2] a1 st0 by simp
  note p1 = putAccount_runs[OF r, of "[]" "[]" "[]", unfolded a2 st0, OF refl, of a "SingleAccount \<lparr>sa_Address = a, sa_Name = ''admin'', sa_KeyHash = [7]\<rparr>"]
  note p2 = putAccount_runs[OF p1(1), unfolded p1(2) fst_conv, OF refl, of b "SingleAccount \<lparr>sa_Address = b, sa_Name = ''user'', sa_KeyHash = [8]\<rparr>"]
  have ss: "sample_gateway_ctx = ctx_putAccount b (SingleAccount \<lparr>sa_Address = b, sa_Name = ''user'', sa_KeyHash = [8]\<rparr>)
      (ctx_putAccount a (SingleAccount \<lparr>sa_Address = a, sa_Name = ''admin'', sa_KeyHash = [7]\<rparr>) (ctx_set ?k2 ?v2 (ctx_set ?k1 ?v1 ?c0)))"
    by (simp only: sample_gateway_ctx_def a_def b_def p_def)
  show "km.runs ?c0 sample_gateway_ctx ?F (\<lambda>_. False)" unfolding ss by (rule p2(1))
  show "fst (accts sample_gateway_ctx) = [(om_put b (SingleAccount \<lparr>sa_Address = b, sa_Name = ''user'', sa_KeyHash = [8]\<rparr>)
      [(a, SingleAccount \<lparr>sa_Address = a, sa_Name = ''admin'', sa_KeyHash = [7]\<rparr>)], [])]"
    unfolding ss p2(2) by simp
qed

lemma sample_gateway_facts:
  defines "a \<equiv> NewAddress 0 1 0" and "b \<equiv> NewAddress 0 2 0" and "p \<equiv> sample_gateway" and "ctx \<equiv> sample_gateway_ctx"
  shows "ctx_wf ctx" and "\<not> ctx_mark ctx (report_cell p h)" and "ctx_view ctx (report_cell p h) = []"
    and "ctx_view ctx (PData 1 (toAdminAddressKey gateway_Name)) = a"
    and "bal (gw_vault p) (ctx_view ctx) a = 500000000000000000" and "bal (gw_vault p) (ctx_view ctx) b = 0"
proof -
  note r = sample_gateway_run(1)[folded a_def p_def ctx_def]
  show "ctx_wf ctx" by (rule km.runs_wf[OF r])
  have e: "ctx_view NewEmptyContext k = []" for k
    by (cases k) (simp_all add: ctx_view_def NewEmptyContext_def NewContext_def NewContextData_def alayer_def player_def emptyLoader_def)
  have v: "ctx_view ctx k = ((ctx_view NewEmptyContext)(PData 1 (toAdminAddressKey gateway_Name) := a,
      bcell (gw_vault p) a := am_Bytes 500000000000000000)) k" "\<not> ctx_mark ctx k" if "key_ok k" for k
    using r that by (simp_all add: km.runs_def kv.steps_def)
  have ab: "is_address a" "is_address b" "a \<noteq> b" unfolding a_def b_def by code_simp+
  have pid: "gw_pid p = 4" "vt_pid (gw_vault p) = 2" by (simp_all add: p_def sample_gateway_def)
  show "\<not> ctx_mark ctx (report_cell p h)" by (rule v(2)) simp
  show "ctx_view ctx (report_cell p h) = []" using v(1)[of "report_cell p h"] by (simp add: report_cell_def pid e)
  show "ctx_view ctx (PData 1 (toAdminAddressKey gateway_Name)) = a" using v(1) by simp
  show "bal (gw_vault p) (ctx_view ctx) a = 500000000000000000" "bal (gw_vault p) (ctx_view ctx) b = 0"
    using v(1)[of "bcell (gw_vault p) a"] v(1)[of "bcell (gw_vault p) b"] ab by (simp_all add: bal_def e)
qed

lemma sample_report_accepted:
  "fst (gw_tx_step C sample_gateway (TokenIn sample_report) [[7]] 0 sample_gateway_ctx) = Inr ()"
proof -
  let ?p = sample_gateway and ?ctx = sample_gateway_ctx and ?tx = sample_report and ?a = "NewAddress 0 1 0" and ?b = "NewAddress 0 2 0"
  let ?s = "snd (ctx_Snapshot ?ctx)"
  note f = sample_gateway_facts
  note r = snapshot_runs(1)[OF f(1)]
  have ab: "is_address ?a" "is_address ?b" "?a \<noteq> ?b" by code_simp+
  have tx: "ti_From ?tx = ?a" "ti_ToAddresses ?tx = [?b]" "ti_Amounts ?tx = [300000000000000000]" "ti_ERC20TXID ?tx = zeros 32"
    by (simp_all add: sample_report_def)
  have ad: "ad_pid (gw_admin ?p) = 1" by (simp add: sample_gateway_def)
  note acc = snapshot_accounts[OF sample_gateway_run(2)]
  have "om_get (om_put ?b B [(?a, A)]) ?a = Some A" "om_get (om_put ?b B [(?a, A)]) ?b = Some B" for A B :: account
    using ab(3) by (simp_all del: om_put.simps add: om_get_def[of "[_]"])
  note acca = acc(2)[OF this(1), unfolded acc_Clone.simps] and accb = acc(1)[OF this(2)]
  have "fst (TokenIn_Validate ?p ?tx [[7]] ?s) = Inr ()"
    by (rule TokenIn_valid[OF r _ _ _ _ _ _ acca[folded tx(1)]])
      (simp_all add: tx ad f ab accb sa_Validate_def)
  then obtain c1 where c1: "TokenIn_Validate ?p ?tx [[7]] ?s = (Inr (), c1)" by (cases "TokenIn_Validate ?p ?tx [[7]] ?s") simp
  have "gw_sized (TokenIn ?tx)" using ab tx by (simp add: is_hash_def Hash256Size_def)
  then have "leaves UNIV (TokenIn_Validate ?p ?tx [[7]])" using leaves_Validate[of "TokenIn ?tx" UNIV undefined ?p "[[7]]"] by simp
  note r1 = leaves_all[OF this r c1]
  have "sum_list (ti_Amounts ?tx) \<le> bal (gw_vault ?p) (ctx_view ?ctx) (ti_From ?tx)" by (simp add: tx f)
  then obtain G E where G: "outcome ?s G E (Inr ()) (payTokens (gw_vault ?p) (ti_From ?tx) (ti_ToAddresses ?tx) (ti_Amounts ?tx) c1)"
    using payTokens_runs[OF r1, of "ti_From ?tx" "ti_ToAddresses ?tx" "ti_Amounts ?tx" "gw_vault ?p"] ab tx by auto
  obtain c2 where c2: "payTokens (gw_vault ?p) (ti_From ?tx) (ti_ToAddresses ?tx) (ti_Amounts ?tx) c1 = (Inr (), c2)" "km.runs ?s c2 G E"
    by (rule outcomeE[OF G])
  obtain c3 E' G' where c3: "setERC20TXID ?p (ti_ERC20TXID ?tx) c2 = (Inr (), c3)" "km.runs ?s c3 G' E'"
    using outcomeE[OF setERC20TXID_runs[OF c2(2)]] by metis
  have "thenE (gw_Validate C ?p (TokenIn ?tx) [[7]]) (gw_Execute C ?p (TokenIn ?tx) 0) ?s = (Inr (), c3)"
    using c1 c2(1) c3(1) by (simp add: TokenIn_Execute_def bindE_def)
  then show ?thesis unfolding gw_tx_step_def by (rule snapshot_runs(2)[OF f(1) c3(2)])
qed

theorem report_processed_once_witness:
  "\<exists>c. gw_run (\<lambda>_. Inr [], \<lambda>_. Inl Panic) sample_gateway sample_gateway_ctx [zeros 32] c \<and>
     \<not> fst (HasERC20TXID sample_gateway (zeros 32) sample_gateway_ctx) \<and> fst (HasERC20TXID sample_gateway (zeros 32) c) \<and>
     fst (TokenIn_Validate sample_gateway sample_report [[7]] c) \<noteq> Inr ()"
proof -
  let ?C = "(\<lambda>_. Inr [], \<lambda>_. Inl Panic) :: gateway_codec" and ?p = sample_gateway and ?ctx = sample_gateway_ctx
  note f = sample_gateway_facts
  obtain c where "gw_tx_step ?C ?p (TokenIn sample_report) [[7]] 0 ?ctx = (Inr (), c)"
    using sample_report_accepted[of ?C] by (cases "gw_tx_step ?C ?p (TokenIn sample_report) [[7]] 0 ?ctx") auto
  moreover have "gw_sized (TokenIn sample_report)" by (simp add: sample_report_def is_hash_def Hash256Size_def)
  ultimately have run: "gw_run ?C ?p ?ctx [zeros 32] c"
    using gw_run.accept[OF gw_run.start[of ?C ?p ?ctx], of "TokenIn sample_report"] by (simp add: sample_report_def)
  have "gw_pid ?p \<noteq> vt_pid (gw_vault ?p)" by code_simp
  note t = report_processed_once[OF run f(1) this]
  have "\<forall>h. is_hash h \<longrightarrow> \<not> emptied (ctx_Top ?ctx) (PData (gw_pid ?p) (toERC20TXIDKey h))"
    using f(2) by (simp add: ctx_mark_def report_cell_def)
  moreover have "ti_ERC20TXID sample_report = zeros 32" by (simp add: sample_report_def)
  ultimately show ?thesis using t run by auto
qed

theorem report_paid_witness:
  "(let v = gw_vault sample_gateway; res = TokenIn_Execute sample_gateway sample_report 0 sample_gateway_ctx
    in fst res = Inr () \<and> fst (Balance v (NewAddress 0 2 0) (snd res)) = 300000000000000000 \<and>
       fst (Balance v (NewAddress 0 1 0) (snd res)) = 200000000000000000)"
proof -
  let ?p = sample_gateway and ?tx = sample_report and ?a = "NewAddress 0 1 0" and ?b = "NewAddress 0 2 0"
  note f = sample_gateway_facts
  have ab: "is_address ?a" "is_address ?b" "?a \<noteq> ?b" by code_simp+
  have tx: "ti_From ?tx = ?a" "ti_ToAddresses ?tx = [?b]" "ti_Amounts ?tx = [300000000000000000]"
    by (simp_all add: sample_report_def)
  have "gw_sized (TokenIn ?tx)" using ab tx by (simp add: sample_report_def is_hash_def Hash256Size_def)
  moreover have "gw_pid ?p \<noteq> vt_pid (gw_vault ?p)" by code_simp
  ultimately show ?thesis
    using report_paid[OF f(1), of ?tx ?p 0] ab tx f(5,6) fst_Balance[OF f(1)] by (simp add: Let_def)
qed

end
