(* ===== verification/Payment_Laws.thy ===== *)
theory Payment_Laws
  imports Payment Frame_Laws
begin

text \<open>
  A requested payment is settled once, and what a subscription stores. A subscription of amount zero, which the
  check of a bill takes for one without a limit, is stored as an empty value and so not stored at all.
\<close>

section \<open>Cells\<close>

abbreviation scell :: "payment \<Rightarrow> u64 \<Rightarrow> address \<Rightarrow> dkey" where
  "scell p topic a \<equiv> AData a (pm_pid p) (toTopicKey topic)"

abbreviation rcell :: "payment \<Rightarrow> string \<Rightarrow> dkey" where
  "rcell p TXID \<equiv> PData (pm_pid p) (toRequestPaymentKey TXID)"

lemma read_cell:
  assumes "km.runs s c F E" and "key_ok k" and "\<And>c. f c = ctx_get k c"
  shows "outcome s F E (Inr (F k)) (readE f c)"
  by (rule km.runs_get[OF assms(1,2)]) (simp add: readE_def assms(3))

lemma getSubscribe_runs:
  assumes "km.runs s c F E" and "is_address a"
  shows "outcome s F E (if F (scell p topic a) = [] then Inl (PaymentErr ErrNotExistSubscribe) else Inr (NewAmountFromBytes (F (scell p topic a))))
    (getSubscribe p topic a c)"
  unfolding getSubscribe_def
  by (rule outcome_bind, rule read_cell[OF assms(1), of "scell p topic a"])
    (use assms(2) in \<open>simp_all add: returnE_run throwE_def\<close>)

lemma getRequestPayment_runs:
  assumes "km.runs s c F E"
  shows "outcome s F E (if F (rcell p TXID) = [] then Inl (PaymentErr ErrNotExistRequestPayment) else snd C (F (rcell p TXID)))
    (getRequestPayment C p TXID c)"
  unfolding getRequestPayment_def
  by (rule outcome_bind, rule read_cell[OF assms, of "rcell p TXID"]) (simp_all add: liftE_def throwE_def)

lemma addSubscribe_runs:
  assumes "km.runs s c F E" and "is_address a"
  shows "F (scell p topic a) \<noteq> [] \<Longrightarrow> outcome s F E (Inl (PaymentErr ErrExistSubscribe)) (addSubscribe p topic a am c)"
    and "F (scell p topic a) = [] \<Longrightarrow> outcome s (F(scell p topic a := am_Bytes am)) (E(scell p topic a := (am = 0))) (Inr ()) (addSubscribe p topic a am c)"
proof -
  have k: "key_ok (scell p topic a)" using assms(2) by simp
  have w: "outcome s (F(scell p topic a := am_Bytes am)) (E(scell p topic a := (am = 0))) (Inr ()) (writeE (ctx_set (scell p topic a) (am_Bytes am)) c)"
    if "km.runs s c F E" for c
    using writeE_runs[OF that k, of "am_Bytes am"] by simp
  show "outcome s F E (Inl (PaymentErr ErrExistSubscribe)) (addSubscribe p topic a am c)" if "F (scell p topic a) \<noteq> []"
    unfolding addSubscribe_def set_as_ctx_set
    by (rule outcome_bind, rule read_cell[OF assms(1) k]) (use that in \<open>simp_all add: bindE_def failIf_run\<close>)
  show "outcome s (F(scell p topic a := am_Bytes am)) (E(scell p topic a := (am = 0))) (Inr ()) (addSubscribe p topic a am c)"
    if "F (scell p topic a) = []"
    unfolding addSubscribe_def set_as_ctx_set
    by (rule outcome_bind, rule read_cell[OF assms(1) k], simp, rule outcome_bind[where x = "()", OF _ w])
      (use that in \<open>simp_all add: failIf_run\<close>)
qed

section \<open>What the checks leave alone\<close>

lemma leaves_checkTopic [leaves_intros]: "leaves K (checkTopic p topic)"
  unfolding checkTopic_def GetTopicName_def
  by (intro leaves_intros leaves_read[of "PData (pm_pid p) (toTopicKey topic)"]) simp_all

lemma Billing_Validate_needs:
  assumes "km.runs s c F E" and "is_address (bl_To tx)" and "fst (Billing_Validate p tx signers c) = Inr ()"
  shows "F (scell p (bl_Topic tx) (bl_To tx)) \<noteq> []"
proof -
  define A where "A = thenE (checkAdmin (pm_admin p) payment_Name (bl_From tx))
     (thenE (failIf (255 < length (bl_Content tx)) (PaymentErr ErrExceedContentSize))
     (thenE (checkTopic p (bl_Topic tx)) (checkAccountExists (bl_To tx))))"
  have A: "leaves UNIV A" unfolding A_def by (intro leaves_intros)
  obtain c' where "Billing_Validate p tx signers c = (Inr (), c')" using assms(3) by (cases "Billing_Validate p tx signers c") simp
  then obtain c1 am c2 where c: "A c = (Inr (), c1)" "getSubscribe p (bl_Topic tx) (bl_To tx) c1 = (Inr am, c2)"
    unfolding Billing_Validate_def A_def by (auto simp: bindE_success)
  show ?thesis
    using getSubscribe_runs[OF leaves_all[OF A assms(1) c(1)] assms(2), of p "bl_Topic tx"] c(2) by (auto split: if_splits)
qed

lemma ResponsePayment_Validate_needs:
  assumes "km.runs s c F E" and "fst (ResponsePayment_Validate C p tx signers c) = Inr ()"
  shows "F (rcell p (rs_TXID tx)) \<noteq> []"
proof -
  obtain c' where "ResponsePayment_Validate C p tx signers c = (Inr (), c')" using assms(2) by (cases "ResponsePayment_Validate C p tx signers c") simp
  then obtain c1 adm c2 req c3 where c: "checkDust (rs_Amount tx) c = (Inr (), c1)" "AdminAddress (pm_admin p) payment_Name c1 = (Inr adm, c2)"
      "getRequestPayment C p (rs_TXID tx) c2 = (Inr req, c3)"
    unfolding ResponsePayment_Validate_def by (auto simp: bindE_success)
  have "km.runs s c2 F E" by (rule leaves_all[OF leaves_AdminAddress leaves_all[OF leaves_checks(3) assms(1) c(1)] c(2)])
  then show ?thesis using getRequestPayment_runs[of s c2 F E p "rs_TXID tx" C] c(3) by (auto split: if_splits)
qed

section \<open>Subscriptions\<close>

text \<open>
  C28: what a subscription stores. From a state without one, a subscription of a positive amount is found again with
  its amount and refuses a second one. A subscription of amount zero, which the check of a bill is written to
  take for one without a limit, succeeds as well but leaves nothing behind: no bill for it is ever valid, and
  it can be repeated.
\<close>

theorem subscription_stored:
  assumes "ctx_wf ctx" and "is_address a" and "0 \<le> am" and "fst (getSubscribe p topic a ctx) = Inl (PaymentErr ErrNotExistSubscribe)"
  shows "let res = Subscribe_Execute p \<lparr>su_Timestamp = t, su_From = a, su_Topic = topic, su_Amount = am\<rparr> i ctx;
        again = fst (Subscribe_Execute p \<lparr>su_Timestamp = t', su_From = a, su_Topic = topic, su_Amount = am'\<rparr> j (snd res))
    in fst res = Inr () \<and>
       (if am = 0
        then fst (getSubscribe p topic a (snd res)) = Inl (PaymentErr ErrNotExistSubscribe) \<and> again = Inr () \<and>
          (\<forall>bill signers. bl_Topic bill = topic \<and> bl_To bill = a \<longrightarrow> fst (Billing_Validate p bill signers (snd res)) \<noteq> Inr ())
        else fst (getSubscribe p topic a (snd res)) = Inr am \<and> again = Inl (PaymentErr ErrExistSubscribe))"
proof -
  let ?F = "ctx_view ctx" and ?k = "scell p topic a"
  note r = km.runs_refl[OF assms(1)]
  have "?F ?k = [] \<or> (\<exists>x. fst (getSubscribe p topic a ctx) = Inr x)"
    using getSubscribe_runs[OF r assms(2), of p topic] by (auto simp: outcome_def split: if_splits)
  then have e: "?F ?k = []" using assms(4) by auto
  obtain c where c: "addSubscribe p topic a am ctx = (Inr (), c)" "km.runs ctx c (?F(?k := am_Bytes am)) ((ctx_mark ctx)(?k := (am = 0)))"
    by (rule outcomeE[OF addSubscribe_runs(2)[OF r assms(2) e]])
  note g = getSubscribe_runs[OF c(2) assms(2), of p topic]
  show ?thesis
  proof (cases "am = 0")
    case True
    have "fst (Billing_Validate p bill signers c) \<noteq> Inr ()" if "bl_Topic bill = topic" "bl_To bill = a" for bill signers
      using Billing_Validate_needs[OF c(2), of bill p signers] that assms(2) True by auto
    moreover have "fst (addSubscribe p topic a am' c) = Inr ()"
      using addSubscribe_runs(2)[OF c(2) assms(2), of p topic am'] True by (simp add: outcome_def)
    ultimately show ?thesis using True c(1) g by (simp add: Let_def Subscribe_Execute_def outcome_def)
  next
    case False
    have "fst (addSubscribe p topic a am' c) = Inl (PaymentErr ErrExistSubscribe)"
      using addSubscribe_runs(1)[OF c(2) assms(2), of p topic am'] False by (simp add: outcome_def)
    then show ?thesis using False c(1) g assms(3) by (simp add: Let_def Subscribe_Execute_def outcome_def)
  qed
qed

section \<open>Requested payments\<close>

definition admin_is :: "payment \<Rightarrow> (dkey \<Rightarrow> bytes) \<Rightarrow> address \<Rightarrow> bool" where
  "admin_is p F adm \<longleftrightarrow> F (PData (ad_pid (pm_admin p)) (toAdminAddressKey payment_Name)) \<noteq> [] \<and>
     go_copy (zeros AddressSize) (F (PData (ad_pid (pm_admin p)) (toAdminAddressKey payment_Name))) = adm"

lemma payAdmin_runs:
  assumes "km.runs s c F E" and "is_address a" and "admin_is p F adm"
    and "is_address adm" and "a \<noteq> adm" and "0 \<le> am" and "am \<le> bal (pm_vault p) F a"
  obtains G E' where "outcome s G E' (Inr ()) (payAdmin p a am c)"
    and "\<forall>b. bal (pm_vault p) G b = bal (pm_vault p) F b + (if b = adm then am else 0) - (if b = a then am else 0)"
    and "\<forall>k. (\<forall>x. k \<noteq> bcell (pm_vault p) x) \<longrightarrow> G k = F k"
proof -
  let ?v = "pm_vault p" and ?ka = "PData (ad_pid (pm_admin p)) (toAdminAddressKey payment_Name)"
  define F1 where "F1 = F(bcell ?v a := am_Bytes (bal ?v F a - am))"
  obtain c1 E1 where c1: "SubBalance ?v a am c = (Inr (), c1)" "km.runs s c1 F1 E1"
    using SubBalance_runs(2)[OF assms(1,2,7)] unfolding F1_def by (auto elim: outcomeE)
  have "ctx_view c1 ?ka = F ?ka" using c1(2) by (simp add: km.runs_def kv.steps_def F1_def)
  then have "fst (AdminAddress (pm_admin p) payment_Name c1) = Inr adm" using assms(3) by (simp add: admin_is_def AdminAddress_run(1)[OF km.runs_wf[OF c1(2)]])
  then obtain c2 where c2: "AdminAddress (pm_admin p) payment_Name c1 = (Inr adm, c2)" by (cases "AdminAddress (pm_admin p) payment_Name c1") simp
  have r2: "km.runs s c2 F1 E1" by (rule leaves_all[OF leaves_AdminAddress c1(2) c2])
  define F2 where "F2 = F1(bcell ?v adm := am_Bytes (bal ?v F1 adm + am))"
  obtain c3 E3 where c3: "AddBalance ?v adm am c2 = (Inr (), c3)" "km.runs s c3 F2 E3"
    using AddBalance_runs(2)[OF r2 assms(4,6), of ?v] unfolding F2_def by (auto elim: outcomeE)
  have "payAdmin p a am c = (Inr (), c3)" using c1(1) c2 c3(1) by (simp add: payAdmin_def bindE_def)
  then have "outcome s F2 E3 (Inr ()) (payAdmin p a am c)" using c3(2) by simp
  then show thesis
    by (rule that) (use assms(5-7) in \<open>auto simp: F2_def F1_def abs_of_nonneg\<close>)
qed

lemma toRequestPaymentKey_eq: "toRequestPaymentKey t = [1, 0] @ str_bytes t"
  by (simp add: toRequestPaymentKey_def tagRequestPayment_def copy_at_def go_copy_def numeral_2_eq_2)

lemma addRequestPayment_runs:
  assumes "km.runs s c F E" and "fst C tx = Inr body"
  shows "outcome s (F(rcell p TXID := body)) (E(rcell p TXID := (body = []))) (Inr ()) (addRequestPayment C p TXID tx c)"
  unfolding addRequestPayment_def set_as_ctx_set using writeE_runs[OF assms(1), of "rcell p TXID" body] assms(2)
  by (simp add: bindE_def liftE_def)

lemma ResponsePayment_runs:
  assumes "km.runs s c F E" and "is_address (rs_From tx)" and "admin_is p F adm" and "is_address adm" and "rs_From tx \<noteq> adm"
    and "0 \<le> rs_Amount tx" and "rs_IsAccept tx \<Longrightarrow> rs_Amount tx \<le> bal (pm_vault p) F (rs_From tx)"
  obtains G E' where "outcome s G E' (Inr ()) (ResponsePayment_Execute p tx j c)" and "G (rcell p (rs_TXID tx)) = []"
    and "\<forall>b. bal (pm_vault p) G b = bal (pm_vault p) F b +
      (if rs_IsAccept tx then (if b = adm then rs_Amount tx else 0) - (if b = rs_From tx then rs_Amount tx else 0) else 0)"
proof -
  let ?pay = "if rs_IsAccept tx then payAdmin p (rs_From tx) (rs_Amount tx) else returnE ()" and ?k = "rcell p (rs_TXID tx)"
  have "\<exists>G E'. outcome s G E' (Inr ()) (?pay c) \<and> (\<forall>b. bal (pm_vault p) G b = bal (pm_vault p) F b +
      (if rs_IsAccept tx then (if b = adm then rs_Amount tx else 0) - (if b = rs_From tx then rs_Amount tx else 0) else 0))"
  proof (cases "rs_IsAccept tx")
    case True
    show ?thesis
      by (rule payAdmin_runs[OF assms(1-6) assms(7)[OF True]]) (use True in auto)
  qed (use assms(1) in \<open>auto simp: returnE_run\<close>)
  then obtain G E' where G: "outcome s G E' (Inr ()) (?pay c)" "\<And>b. bal (pm_vault p) G b = bal (pm_vault p) F b +
      (if rs_IsAccept tx then (if b = adm then rs_Amount tx else 0) - (if b = rs_From tx then rs_Amount tx else 0) else 0)"
    by blast
  have "outcome s (G(?k := [])) (E'(?k := True)) (Inr ()) (ResponsePayment_Execute p tx j c)"
    unfolding ResponsePayment_Execute_def removeRequestPayment_def set_as_ctx_set
    by (rule outcome_bind, rule G(1)) (use writeE_runs[of s _ G E' ?k "[]"] in simp)
  then show thesis by (rule that) (use G(2) in \<open>simp_all add: bal_def\<close>)
qed

text \<open>
  C15: a requested payment is settled once. After the request of the administrator is executed it is found under the
  identifier of its transaction. A response moves the amount from the user to the administrator if it accepts
  and moves nothing if it declines; afterwards the request is gone, and no second response to it is valid.
\<close>

theorem payment_settled_once:
  assumes "ctx_wf ctx" and "fst C req = Inr body" and "body \<noteq> []" and "snd C body = Inr req"
    and "fst (AdminAddress (pm_admin p) payment_Name ctx) = Inr adm"
    and "is_address (rs_From tx)" and "rs_From tx \<noteq> adm" and "0 \<le> rs_Amount tx" and "rs_TXID tx = TransactionID (ctx_TargetHeight ctx) i"
    and "rs_IsAccept tx \<longrightarrow> rs_Amount tx \<le> fst (Balance (pm_vault p) (rs_From tx) ctx)"
  shows "let asked = RequestPayment_Execute C p req i ctx; settled = ResponsePayment_Execute p tx j (snd asked); v = pm_vault p
    in fst asked = Inr () \<and> fst (getRequestPayment C p (rs_TXID tx) (snd asked)) = Inr req \<and> fst settled = Inr () \<and>
       (\<forall>b. is_address b \<longrightarrow> fst (Balance v b (snd settled)) = fst (Balance v b ctx) +
          (if rs_IsAccept tx then (if b = adm then rs_Amount tx else 0) - (if b = rs_From tx then rs_Amount tx else 0) else 0)) \<and>
       fst (getRequestPayment C p (rs_TXID tx) (snd settled)) = Inl (PaymentErr ErrNotExistRequestPayment) \<and>
       (\<forall>tx' signers. rs_TXID tx' = rs_TXID tx \<longrightarrow> fst (ResponsePayment_Validate C p tx' signers (snd settled)) \<noteq> Inr ())"
proof -
  let ?v = "pm_vault p" and ?F = "ctx_view ctx" and ?k = "rcell p (rs_TXID tx)" and ?ka = "PData (ad_pid (pm_admin p)) (toAdminAddressKey payment_Name)"
  obtain c where c: "addRequestPayment C p (rs_TXID tx) req ctx = (Inr (), c)" "km.runs ctx c (?F(?k := body)) ((ctx_mark ctx)(?k := (body = [])))"
    by (rule outcomeE[OF addRequestPayment_runs[OF km.runs_refl[OF assms(1)] assms(2)]])
  have adm: "admin_is p (?F(?k := body)) adm" "is_address adm"
    using assms(5) by (auto simp: AdminAddress_run(1)[OF assms(1)] admin_is_def toAdminAddressKey_eq toRequestPaymentKey_eq
        is_address_def go_copy_def split: if_splits)
  have bal: "bal ?v (?F(?k := body)) b = bal ?v ?F b" for b by (simp add: bal_def)
  have enough: "rs_Amount tx \<le> bal ?v (?F(?k := body)) (rs_From tx)" if "rs_IsAccept tx"
    using assms(10) that bal fst_Balance[OF assms(1,6)] by simp
  obtain G E' where G: "outcome ctx G E' (Inr ()) (ResponsePayment_Execute p tx j c)" "G ?k = []"
      "\<forall>b. bal ?v G b = bal ?v (?F(?k := body)) b +
        (if rs_IsAccept tx then (if b = adm then rs_Amount tx else 0) - (if b = rs_From tx then rs_Amount tx else 0) else 0)"
    by (rule ResponsePayment_runs[OF c(2) assms(6) adm assms(7,8) enough])
  obtain d where d: "ResponsePayment_Execute p tx j c = (Inr (), d)" "km.runs ctx d G E'" by (rule outcomeE[OF G(1)])
  have asked: "RequestPayment_Execute C p req i ctx = (Inr (), c)" using c(1) assms(9) by (simp add: RequestPayment_Execute_def)
  have "fst (getRequestPayment C p (rs_TXID tx) c) = Inr req" "fst (getRequestPayment C p (rs_TXID tx) d) = Inl (PaymentErr ErrNotExistRequestPayment)"
    using getRequestPayment_runs[OF c(2), of p "rs_TXID tx" C] getRequestPayment_runs[OF d(2), of p "rs_TXID tx" C] assms(3,4) G(2)
    by (simp_all add: outcome_def)
  moreover have "fst (Balance ?v b d) = fst (Balance ?v b ctx) +
      (if rs_IsAccept tx then (if b = adm then rs_Amount tx else 0) - (if b = rs_From tx then rs_Amount tx else 0) else 0)" if "is_address b" for b
  proof -
    have "bal ?v (ctx_view d) b = bal ?v G b" using d(2) that by (simp add: bal_def km.runs_def kv.steps_def)
    then show ?thesis using fst_Balance[OF assms(1) that] fst_Balance[OF km.runs_wf[OF d(2)] that] G(3) bal by simp
  qed
  moreover have "fst (ResponsePayment_Validate C p tx' signers d) \<noteq> Inr ()" if "rs_TXID tx' = rs_TXID tx" for tx' signers
    using ResponsePayment_Validate_needs[OF d(2), of C p tx' signers] G(2) that by auto
  ultimately show ?thesis by (simp add: Let_def asked d(1))
qed

section \<open>Sample states\<close>

definition sample_payment :: payment where
  "sample_payment = \<lparr>pm_pid = 5, pm_vault = \<lparr>vt_pid = 2, vt_admin = \<lparr>ad_pid = 1\<rparr>, vt_magic = 0\<rparr>, pm_admin = \<lparr>ad_pid = 1\<rparr>\<rparr>"

definition sample_payment_ctx :: chain_ctx where
  "sample_payment_ctx = ctx_set (bcell (pm_vault sample_payment) (NewAddress 0 2 0)) (am_Bytes 9)
     (ctx_set (PData 1 (toAdminAddressKey payment_Name)) (NewAddress 0 1 0) NewEmptyContext)"

lemma sample_payment_facts:
  defines "a \<equiv> NewAddress 0 1 0" and "b \<equiv> NewAddress 0 2 0" and "p \<equiv> sample_payment" and "ctx \<equiv> sample_payment_ctx"
  shows "ctx_wf ctx" and "fst (AdminAddress (pm_admin p) payment_Name ctx) = Inr a"
    and "fst (Balance (pm_vault p) a ctx) = 0" and "fst (Balance (pm_vault p) b ctx) = 9"
    and "fst (getSubscribe p topic b ctx) = Inl (PaymentErr ErrNotExistSubscribe)"
proof -
  let ?k1 = "PData 1 (toAdminAddressKey payment_Name)" and ?k2 = "bcell (pm_vault p) b" and ?c0 = NewEmptyContext
  let ?F = "(ctx_view ?c0)(?k1 := a, ?k2 := am_Bytes 9)"
  have ab: "is_address a" "is_address b" "a \<noteq> b" unfolding a_def b_def by code_simp+
  have pid: "pm_pid p = 5" "vt_pid (pm_vault p) = 2" "ad_pid (pm_admin p) = 1" by (simp_all add: p_def sample_payment_def)
  have ok: "key_ok ?k1" "key_ok ?k2" using ab by simp_all
  have e: "ctx_view ?c0 k = []" for k
    by (cases k) (simp_all add: ctx_view_def NewEmptyContext_def NewContext_def NewContextData_def alayer_def player_def emptyLoader_def)
  have wf0: "ctx_wf ?c0" by (simp add: NewEmptyContext_def ctx_wf_NewContext)
  have r: "km.runs ?c0 ctx ?F ((ctx_mark ?c0)(?k1 := (a = []), ?k2 := (am_Bytes 9 = [])))"
    unfolding ctx_def sample_payment_ctx_def p_def[symmetric] a_def[symmetric] b_def[symmetric]
    by (intro km.runs_put km.runs_refl wf0 ok)
  show wf: "ctx_wf ctx" by (rule km.runs_wf[OF r])
  have v: "ctx_view ctx k = ?F k" if "key_ok k" for k using r that by (simp add: km.runs_def kv.steps_def)
  have "a \<noteq> []" "go_copy (zeros AddressSize) a = a" using ab(1) by (auto simp: is_address_def AddressSize_def go_copy_full)
  then show "fst (AdminAddress (pm_admin p) payment_Name ctx) = Inr a"
    by (simp add: AdminAddress_run(1)[OF wf] pid v)
  show "fst (Balance (pm_vault p) a ctx) = 0" "fst (Balance (pm_vault p) b ctx) = 9"
    using ab by (simp_all add: fst_Balance[OF wf] bal_def v e)
  show "fst (getSubscribe p topic b ctx) = Inl (PaymentErr ErrNotExistSubscribe)"
    using getSubscribe_runs[OF km.runs_refl[OF wf] ab(2), of p topic] v[of "scell p topic b"] ab(2) by (simp add: outcome_def pid e)
qed

theorem subscription_stored_witness:
  "(let p = sample_payment; a = NewAddress 0 2 0;
        free = Subscribe_Execute p \<lparr>su_Timestamp = 1, su_From = a, su_Topic = 7, su_Amount = 0\<rparr> 0 sample_payment_ctx;
        paid = Subscribe_Execute p \<lparr>su_Timestamp = 1, su_From = a, su_Topic = 7, su_Amount = 6\<rparr> 0 sample_payment_ctx
    in fst free = Inr () \<and> fst (getSubscribe p 7 a (snd free)) = Inl (PaymentErr ErrNotExistSubscribe) \<and>
       fst paid = Inr () \<and> fst (getSubscribe p 7 a (snd paid)) = Inr 6)"
proof -
  note f = sample_payment_facts
  have "is_address (NewAddress 0 2 0)" by simp
  note t = subscription_stored[OF f(1) this _ f(5), where t = 1 and i = 0]
  show ?thesis using t[of 0] t[of 6] by (simp add: Let_def)
qed

theorem payment_settled_once_witness:
  "(let p = sample_payment; a = NewAddress 0 1 0; b = NewAddress 0 2 0;
        req = \<lparr>rq_Timestamp = 1, rq_From = a, rq_Topic = 7, rq_To = b, rq_Amount = 4, rq_Content = []\<rparr>;
        C = (\<lambda>_. Inr [1], \<lambda>_. Inr req);
        asked = RequestPayment_Execute C p req 3 sample_payment_ctx;
        tx = \<lparr>rs_Timestamp = 2, rs_From = b, rs_TXID = TransactionID (ctx_TargetHeight sample_payment_ctx) 3, rs_Amount = 4, rs_IsAccept = True\<rparr>;
        settled = ResponsePayment_Execute p tx 4 (snd asked)
    in fst asked = Inr () \<and> fst settled = Inr () \<and>
       fst (Balance (pm_vault p) a (snd settled)) = 4 \<and> fst (Balance (pm_vault p) b (snd settled)) = 5)"
proof -
  let ?p = sample_payment and ?a = "NewAddress 0 1 0" and ?b = "NewAddress 0 2 0"
  let ?req = "\<lparr>rq_Timestamp = 1, rq_From = ?a, rq_Topic = 7, rq_To = ?b, rq_Amount = 4, rq_Content = []\<rparr>"
  let ?C = "(\<lambda>_. Inr [1], \<lambda>_. Inr ?req) :: request_codec"
  let ?tx = "\<lparr>rs_Timestamp = 2, rs_From = ?b, rs_TXID = TransactionID (ctx_TargetHeight sample_payment_ctx) 3, rs_Amount = 4, rs_IsAccept = True\<rparr>"
  note f = sample_payment_facts
  have ab: "is_address ?a" "is_address ?b" "?a \<noteq> ?b" by code_simp+
  show ?thesis
    using payment_settled_once[OF f(1) _ _ _ f(2), of ?C ?req "[1]" ?tx 3 4] f(3,4) ab by (simp add: Let_def)
qed

end
