(* ===== verification/Spec2Isabelle.thy ===== *)
theory Spec2Isabelle
  imports Page_Queue Sorted_Queue Txpool Vault_Laws Consensus Connect_Laws System_Chain Revocation_Laws Gateway_Laws Payment_Laws
begin

text \<open>
  A verification library for the FLETA test network node (\<^verbatim>\<open>src/\<close>).

  \<^bold>\<open>The program.\<close> A node keeps a chain of blocks. A block is executed on a context: a stack of snapshots
  over a cache over the store (\<^verbatim>\<open>core/types/context.go\<close>, \<^verbatim>\<open>context_data.go\<close>, \<^verbatim>\<open>context_cache.go\<close>). The chain
  (\<^verbatim>\<open>core/chain/chain.go\<close>) validates the header, checks the signatures, runs every transaction through the
  process that registered it, and hands the resulting context to the store (\<^verbatim>\<open>store.go\<close>), which writes the data
  to a key-value backend and the block to append-only files (\<^verbatim>\<open>core/pile\<close>). The processes (\<^verbatim>\<open>process/admin\<close>,
  \<^verbatim>\<open>vault\<close>, \<^verbatim>\<open>formulator\<close>, \<^verbatim>\<open>gateway\<close>, \<^verbatim>\<open>payment\<close>) read and write account and process data of the context. The
  consensus (\<^verbatim>\<open>pof\<close>) decides which formulator generates the next block and who must sign it. Transactions wait
  in a pool (\<^verbatim>\<open>core/txpool\<close>), and the block creator (\<^verbatim>\<open>core/chain/block_creator.go\<close>) makes a block of them.

  \<^bold>\<open>Conventions.\<close> A Go method on a state \<open>'s\<close> is a function of type \<open>('s, 'a) go_meth\<close>: it returns an error or a
  result, and a state. \<open>bindE\<close>, \<open>thenE\<close>, \<open>failIf\<close>, \<open>readE\<close>, \<open>writeE\<close>, \<open>liftE\<close> and \<open>foreachE\<close> (Prelude) compose
  methods with Go's early returns. The sentinel errors are datatypes (Errors); a run-time panic is the error
  \<open>Panic\<close>. Structs are records, fixed-width integers are words, \<^verbatim>\<open>*big.Int\<close> amounts are integers, byte slices are
  lists of 8-bit words. Pointers that are shared are modelled with an explicit heap (Linked_Queue, Rank_Table).

  \<^bold>\<open>Theories and sources.\<close>
  \<^item> Prelude, Errors, Binutil: the combinators, the errors of all packages, \<^verbatim>\<open>common/binutil\<close>.
  \<^item> Amount, Hashing, Address, Keys: \<^verbatim>\<open>common/amount\<close>, \<^verbatim>\<open>common/hash\<close> with SHA-256 as an executable function
    and the level root of \<^verbatim>\<open>core/chain/util.go\<close>, \<^verbatim>\<open>common/address.go\<close>, keys and signatures, \<^verbatim>\<open>core/types/util.go\<close>.
  \<^item> Page_Queue, Sorted_Queue, Linked_Queue, Txpool: \<^verbatim>\<open>common/queue\<close> and \<^verbatim>\<open>core/txpool\<close>.
  \<^item> Ordered_Map, Wire, Map_Codecs, Types, Block: the tree maps of \<^verbatim>\<open>core/types/map_*.go\<close> and their codecs, accounts,
    outputs, events, headers and blocks.
  \<^item> Context, Context_Laws: the context with its snapshots, cache and loader.
  \<^item> Admin, Vault, Vault_Tx, Vault_Laws, Frame_Laws: \<^verbatim>\<open>process/admin\<close> and \<^verbatim>\<open>process/vault\<close>.
  \<^item> Formulator, Formulator_Tx, Formulator_Reward, Index_Laws, Formulator_Laws, Revocation_Laws:
    \<^verbatim>\<open>process/formulator\<close>, its twenty transactions and the hook that pays rewards.
  \<^item> Gateway, Gateway_Laws and Payment, Payment_Laws: \<^verbatim>\<open>process/gateway\<close> and \<^verbatim>\<open>process/payment\<close>.
  \<^item> Pile, Pile_DB, Store, Store_Laws: \<^verbatim>\<open>core/pile\<close> and \<^verbatim>\<open>core/chain/store.go\<close>.
  \<^item> Rank_Table, Consensus: \<^verbatim>\<open>pof/rank.go\<close>, \<^verbatim>\<open>rank_table.go\<close>, \<^verbatim>\<open>consensus.go\<close> and \<^verbatim>\<open>consensus_method.go\<close>.
  \<^item> Chain, Chain_Laws, Replay, Creator_Laws, Connect_Laws: \<^verbatim>\<open>core/chain/chain.go\<close> and \<^verbatim>\<open>block_creator.go\<close>.
  \<^item> System_Chain: a chain with the processes admin, vault, gateway and payment, with the transactions they register.

  \<^bold>\<open>Interfaces.\<close> Each contract between components is a locale, interpreted on the definitions of the model:
  \<open>llrb_map\<close> (the tree maps, instance \<open>om\<close>), \<open>fifo\<close> (queues, \<open>page_queue\<close>), \<open>kv_store\<close> and its extension \<open>kv_marks\<close>
  (what the context promises to a process about data cells, \<open>kv\<close> and \<open>km\<close>), \<open>indexed_cells\<close> (the numbered sets the
  formulator process keeps in data cells, \<open>gencount\<close>, \<open>revoked\<close>, \<open>unstaked\<close>), \<open>rotation\<close> (the turns of the
  consensus, \<open>turns\<close>). \<open>km.runs s t F E\<close> says that \<open>t\<close> is reached from \<open>s\<close>, reads the cells as \<open>F\<close> and has marked
  those in \<open>E\<close> as deleted; the laws of the processes are stated with it.
\<close>

text \<open>
  \<^bold>\<open>What is shown.\<close>
  \<^item> Data structures: the linked and the paged queue and the rank table refine lists for every sequence of operations, and
    the sorted queue refines one in every operation; the pool keeps its invariant and fails only where it says so.
  \<^item> Codecs: blocks, maps, amounts and the consensus state survive encoding; where a codec loses information the
    exact condition is proved.
  \<^item> Context: reads return the last write or what the loader has, \<^verbatim>\<open>Revert\<close> restores what data, accounts, names and outputs
    read, the context of the next block reads the same, and \<^verbatim>\<open>Commit\<close> keeps everything but a write to a cell
    that the snapshot below had deleted.
  \<^item> Vault: with a positive fee no transaction creates coins and only a burn destroys them; the effect of a transfer on
    every branch.
  \<^item> Formulator: stakes refine a map and generated blocks a counter; revocation of a hyper formulator is described on
    every branch, a missing or deleted heir included, for any order in which Go visits a map; automatic staking makes it fail.
  \<^item> Gateway and payment: a report is processed once and a requested payment settled once, over every run.
  \<^item> Storage: a crash during an append leaves a file that loads; the store reads what the context read, cells, accounts, names
    and outputs; a stored block is found after a restart through \<^verbatim>\<open>pile.Open\<close> and \<^verbatim>\<open>NewStore\<close>, unless the last pile is
    exactly full.
  \<^item> Consensus: the rank table and the turn counter after a block; every candidate reaches its turn within a bound, two
    accepted headers share a signer, the state survives a restart.
  \<^item> Chain: the parallel signature check equals the sequential one, a block created on a chain of these
    processes executes on every node on which that check does not panic, connected blocks form one chain and repeat no
    transaction, a refused block leaves the chain alone but for what it saves last. The equality of creator and node is
    proved for all processes that obey the laws of Replay (\<open>created_block_executes\<close>); that the formulator process obeys
    them is not shown, since its hook also depends on the order in which Go visits a map.

  \<^bold>\<open>Termination and bounds.\<close> No definition uses fuel. The walk along the pointers of the linked queue (\<open>lq_walk\<close>) is a
  partial function into \<open>option\<close>, and its refinement proves that it returns. The replay of blocks over the files after a
  restart (\<open>iter_blocks\<close>) is one too; it is modelled without a theorem that it returns. The other loops recurse
  on data or have a termination proof (\<open>commit_loop\<close>, \<open>search_loop\<close>, \<open>PopUntil\<close>). Heights, counts and phases are
  words, and where a property needs that they do not wrap around it says so.

  \<^bold>\<open>Parameters.\<close> Code that is not in the repository is an argument of the definitions that use it: the msgpack
  primitives (\<open>msgpack\<close>) and the reflective codecs of policies and stored requests, base58, gzip, the recovery of a
  key from a signature, the key-value backend, and the order of a loop over a Go map (\<open>fe_range\<close>). What is
  assumed of them is a named hypothesis of the theorems (\<open>msgpack_ok\<close>, \<open>base58_spec\<close>, \<open>go_range\<close>, and others), and a
  witness instantiates it.

  \<^bold>\<open>Not modelled.\<close> The network (\<^verbatim>\<open>service/p2p\<close>, the observer and formulator nodes and vote rounds of \<^verbatim>\<open>pof\<close>) is
  sockets, goroutines and timers. The bank, explorer and API services and \<^verbatim>\<open>cmd\<close> are HTTP services, key files and entry points.
  \<^verbatim>\<open>core/backend\<close>, \<^verbatim>\<open>common/crypto\<close> and the TOML library are copies of third-party code; \<^verbatim>\<open>encoding\<close> and
  \<^verbatim>\<open>common/factory\<close> work by reflection. The expire queue is a timer. JSON output of transactions, locks, logging and the
  registration of types in \<^verbatim>\<open>Init\<close> have no effect on the state that is modelled.
\<close>

end
